(* ===== verification/Layout_Cell.thy ===== *)
theory Layout_Cell
  imports Ztmux_Prelude
begin

text \<open>
  The layout tree of a window (\<open>struct layout_cell\<close> in \<open>lib.rs\<close>, \<open>layout.rs\<close>): its data,
  the predicates on single cells, the walk from a cell up to the root, the offset pass and
  the border search.

  The code links cells by pointers (\<open>parent\<close>, and \<open>cells\<close> for the children).  Here a cell
  carries its list of children, and a pointer to a cell of a tree is the list of child indices
  on the way from the cell up to the root, the cell's own index first: the root is \<open>[]\<close>, the
  \<open>parent\<close> of \<open>i # p\<close> is \<open>p\<close>, and \<open>tailq_next\<close> and \<open>tailq_prev\<close> of \<open>i # p\<close> are
  \<open>Suc i # p\<close> and \<open>(i - 1) # p\<close> inside the list.
\<close>

section \<open>Data\<close>

datatype layout_type = LAYOUT_LEFTRIGHT | LAYOUT_TOPBOTTOM | LAYOUT_WINDOWPANE

datatype pane_status =
  PANE_STATUS_OFF | PANE_STATUS_TOP | PANE_STATUS_BOTTOM
| PANE_STATUS_TOP_FLOATING | PANE_STATUS_BOTTOM_FLOATING

record cell_info =
  ctype :: layout_type
  cflags :: "32 word"
  sx :: u32
  sy :: u32
  xoff :: i32
  yoff :: i32
  saved_sx :: u32
  saved_sy :: u32
  saved_xoff :: i32
  saved_yoff :: i32
  cwp :: "nat option"

datatype layout_cell = Cell (info: cell_info) (cells: "layout_cell list")

type_synonym cell_ptr = "nat list"

abbreviation cell_type :: "layout_cell \<Rightarrow> layout_type" where
  "cell_type c \<equiv> ctype (info c)"

abbreviation cell_sx :: "layout_cell \<Rightarrow> u32" where
  "cell_sx c \<equiv> sx (info c)"

abbreviation cell_sy :: "layout_cell \<Rightarrow> u32" where
  "cell_sy c \<equiv> sy (info c)"

abbreviation cell_xoff :: "layout_cell \<Rightarrow> i32" where
  "cell_xoff c \<equiv> xoff (info c)"

abbreviation cell_yoff :: "layout_cell \<Rightarrow> i32" where
  "cell_yoff c \<equiv> yoff (info c)"

abbreviation map_info :: "(cell_info \<Rightarrow> cell_info) \<Rightarrow> layout_cell \<Rightarrow> layout_cell" where
  "map_info f c \<equiv> Cell (f (info c)) (cells c)"

definition PANE_MINIMUM :: int where
  "PANE_MINIMUM = 1"

definition PANE_MAXIMUM :: int where
  "PANE_MAXIMUM = 10000"

definition LAYOUT_CELL_FLOATING :: "32 word" where
  "LAYOUT_CELL_FLOATING = 1"

definition PANE_SCROLLBARS_ALWAYS :: int where
  "PANE_SCROLLBARS_ALWAYS = 2"

definition PANE_SCROLLBARS_LEFT :: int where
  "PANE_SCROLLBARS_LEFT = 1"

text \<open>The part of \<open>struct window_pane\<close> and \<open>struct window\<close> the layout code reads and writes.
  \<open>alternate\<close> says that the pane has a saved grid; \<open>resize_queue\<close> holds the new and the old
  size of each entry; \<open>sb_width\<close> and \<open>sb_pad\<close> of the window are the scrollbar style of its active
  pane, and \<open>border_status\<close> is the option \<open>pane-border-status\<close>.\<close>

record window_pane =
  pane_id :: nat
  p_sx :: u32
  p_sy :: u32
  p_xoff :: i32
  p_yoff :: i32
  p_sb_width :: i32
  p_sb_pad :: i32
  alternate :: bool
  redraw_scrollbar :: bool
  resize_queue :: "(u32 \<times> u32 \<times> u32 \<times> u32) list"

record window =
  w_sx :: u32
  w_sy :: u32
  layout_root :: layout_cell
  panes :: "window_pane list"
  border_status :: pane_status
  sb :: i32
  sb_pos :: i32
  sb_width :: i32
  sb_pad :: i32

section \<open>Single cells\<close>

definition layout_create_cell :: layout_cell where
  "layout_create_cell = Cell
     \<lparr>ctype = LAYOUT_WINDOWPANE, cflags = 0, sx = u32_MAX, sy = u32_MAX,
      xoff = i32_MAX, yoff = i32_MAX, saved_sx = u32_MAX, saved_sy = u32_MAX,
      saved_xoff = i32_MAX, saved_yoff = i32_MAX, cwp = None\<rparr> []"

definition layout_set_size :: "layout_cell \<Rightarrow> u32 \<Rightarrow> u32 \<Rightarrow> u32 \<Rightarrow> u32 \<Rightarrow> layout_cell" where
  "layout_set_size c nsx nsy nxoff nyoff =
     map_info (\<lambda>i. i\<lparr>sx := nsx, sy := nsy, xoff := i32 nxoff, yoff := i32 nyoff\<rparr>) c"

definition layout_make_leaf :: "layout_cell \<Rightarrow> nat \<Rightarrow> layout_cell" where
  "layout_make_leaf c wp = Cell ((info c)\<lparr>ctype := LAYOUT_WINDOWPANE, cwp := Some wp\<rparr>) []"

text \<open>\<^const>\<open>None\<close> is the \<open>fatalx\<close> of the code.\<close>

definition layout_make_node :: "layout_cell \<Rightarrow> layout_type \<Rightarrow> layout_cell option" where
  "layout_make_node c ty =
     (if ty = LAYOUT_WINDOWPANE then None
      else Some (Cell ((info c)\<lparr>ctype := ty, cwp := None\<rparr>) []))"

definition cell_floating :: "layout_cell \<Rightarrow> bool" where
  "cell_floating c \<longleftrightarrow> and (cflags (info c)) LAYOUT_CELL_FLOATING \<noteq> 0"

definition layout_cell_is_tiled :: "layout_cell \<Rightarrow> bool" where
  "layout_cell_is_tiled c \<longleftrightarrow> cell_type c = LAYOUT_WINDOWPANE \<and> \<not> cell_floating c"

fun layout_cell_has_tiled_child :: "layout_cell \<Rightarrow> bool" where
  "layout_cell_has_tiled_child (Cell i cs) \<longleftrightarrow>
     (if ctype i = LAYOUT_WINDOWPANE then False
      else list_ex (\<lambda>c. layout_cell_is_tiled c \<or> layout_cell_has_tiled_child c) cs)"

text \<open>The test the code repeats at every loop over children: the cell takes part in the
  tiled flow.\<close>

definition in_flow :: "layout_cell \<Rightarrow> bool" where
  "in_flow c \<longleftrightarrow> layout_cell_is_tiled c \<or> layout_cell_has_tiled_child c"

fun layout_count_cells :: "layout_cell \<Rightarrow> nat" where
  "layout_count_cells (Cell i cs) =
     (if ctype i = LAYOUT_WINDOWPANE then 1 else sum_list (map layout_count_cells cs))"

section \<open>Pointers into a tree\<close>

fun cell_at :: "layout_cell \<Rightarrow> cell_ptr \<Rightarrow> layout_cell option" where
  "cell_at root [] = Some root"
| "cell_at root (i # p) =
     (case cell_at root p of None \<Rightarrow> None
      | Some c \<Rightarrow> (if i < length (cells c) then Some (cells c ! i) else None))"

text \<open>Replacing the cell a pointer points to.\<close>

fun update_down :: "nat list \<Rightarrow> (layout_cell \<Rightarrow> layout_cell) \<Rightarrow> layout_cell \<Rightarrow> layout_cell" where
  "update_down [] f c = f c"
| "update_down (i # q) f c =
     Cell (info c) (if i < length (cells c) then (cells c)[i := update_down q f (cells c ! i)] else cells c)"

definition update_at :: "layout_cell \<Rightarrow> cell_ptr \<Rightarrow> (layout_cell \<Rightarrow> layout_cell) \<Rightarrow> layout_cell" where
  "update_at root p f = update_down (rev p) f root"

definition layout_cell_is_first_tiled :: "layout_cell \<Rightarrow> cell_ptr \<Rightarrow> bool" where
  "layout_cell_is_first_tiled root p =
     (case p of
        [] \<Rightarrow> layout_cell_is_tiled root
      | i # q \<Rightarrow>
          (case cell_at root q of
             None \<Rightarrow> False
           | Some par \<Rightarrow> find_index in_flow (cells par) = Some i))"

fun layout_cell_is_top :: "layout_cell \<Rightarrow> cell_ptr \<Rightarrow> bool" where
  "layout_cell_is_top root [] = True"
| "layout_cell_is_top root (i # q) =
     (case cell_at root q of
        None \<Rightarrow> False
      | Some par \<Rightarrow>
          if cell_type par = LAYOUT_TOPBOTTOM \<and> \<not> layout_cell_is_first_tiled root (i # q)
          then False else layout_cell_is_top root q)"

fun layout_cell_is_bottom :: "layout_cell \<Rightarrow> cell_ptr \<Rightarrow> bool" where
  "layout_cell_is_bottom root [] = True"
| "layout_cell_is_bottom root (i # q) =
     (case cell_at root q of
        None \<Rightarrow> False
      | Some par \<Rightarrow>
          if cell_type par = LAYOUT_TOPBOTTOM \<and> Suc i \<noteq> length (cells par)
          then False else layout_cell_is_bottom root q)"

definition layout_add_border :: "window \<Rightarrow> cell_ptr \<Rightarrow> pane_status \<Rightarrow> bool" where
  "layout_add_border w p status =
     (if status = PANE_STATUS_TOP then layout_cell_is_top (layout_root w) p
      else if status = PANE_STATUS_BOTTOM then layout_cell_is_bottom (layout_root w) p
      else False)"

text \<open>The fall-off-the-tree cases of the last two walks cannot arise from a pointer that
  points to a cell.\<close>

function layout_find_bottomright :: "cell_ptr \<Rightarrow> layout_cell \<Rightarrow> cell_ptr option" where
  "layout_find_bottomright p (Cell i cs) =
     (if ctype i = LAYOUT_WINDOWPANE then Some p
      else if cs = [] then None
      else layout_find_bottomright ((length cs - 1) # p) (last cs))"
  by pat_completeness auto

lemma size_cell_child [termination_simp]: "c \<in> set cs \<Longrightarrow> size c < Suc (size_list size cs)"
  by (induction cs) auto

termination layout_find_bottomright
  by (relation "measure (\<lambda>(p, c). size c)") (auto intro: size_cell_child)

section \<open>Offsets\<close>

text \<open>\<open>layout_fix_offsets1\<close> walks the children from left to right (top to bottom) with a running
  \<open>u32\<close> offset; cells outside the tiled flow keep their own offsets and take no space.\<close>

abbreviation set_offsets :: "i32 \<Rightarrow> i32 \<Rightarrow> layout_cell \<Rightarrow> layout_cell" where
  "set_offsets x y c \<equiv> map_info (\<lambda>i. i\<lparr>xoff := x, yoff := y\<rparr>) c"

lemma size_cells: "size_list size (cells c) < size c"
  by (cases c) simp

function layout_fix_offsets1 :: "layout_cell \<Rightarrow> layout_cell"
  and fix_leftright :: "u32 \<Rightarrow> i32 \<Rightarrow> layout_cell list \<Rightarrow> layout_cell list"
  and fix_topbottom :: "i32 \<Rightarrow> u32 \<Rightarrow> layout_cell list \<Rightarrow> layout_cell list" where
  "layout_fix_offsets1 (Cell i cs) =
     Cell i (if ctype i = LAYOUT_LEFTRIGHT then fix_leftright (u32 (xoff i)) (yoff i) cs
             else fix_topbottom (xoff i) (u32 (yoff i)) cs)"
| "fix_leftright x y [] = []"
| "fix_leftright x y (c # cs) =
     (if \<not> in_flow c then c # fix_leftright x y cs
      else (let c1 = set_offsets (i32 x) y c;
                c2 = (if cell_type c1 \<noteq> LAYOUT_WINDOWPANE then layout_fix_offsets1 c1 else c1)
            in c2 # fix_leftright (u32 (x + u32 (cell_sx c + 1))) y cs))"
| "fix_topbottom x y [] = []"
| "fix_topbottom x y (c # cs) =
     (if \<not> in_flow c then c # fix_topbottom x y cs
      else (let c1 = set_offsets x (i32 y) c;
                c2 = (if cell_type c1 \<noteq> LAYOUT_WINDOWPANE then layout_fix_offsets1 c1 else c1)
            in c2 # fix_topbottom x (u32 (y + u32 (cell_sy c + 1))) cs))"
  by pat_completeness auto
termination
  by (relation "measure (\<lambda>a. case a of Inl c \<Rightarrow> size c
        | Inr (Inl (x, y, cs)) \<Rightarrow> size_list size cs | Inr (Inr (x, y, cs)) \<Rightarrow> size_list size cs)")
     (auto intro: trans_less_add1 size_cells)

definition layout_fix_offsets :: "window \<Rightarrow> window" where
  "layout_fix_offsets w = w\<lparr>layout_root := layout_fix_offsets1 (set_offsets 0 0 (layout_root w))\<rparr>"

section \<open>The cell whose border is at a position\<close>

text \<open>The loop variable \<open>last\<close> of \<open>layout_search_by_border\<close> is the argument \<open>l\<close>, with the
  pointer of the cell; \<open>p\<close> is the pointer of the cell searched.\<close>

definition inside_cell :: "layout_cell \<Rightarrow> u32 \<Rightarrow> u32 \<Rightarrow> bool" where
  "inside_cell c x y \<longleftrightarrow>
     x \<ge> u32 (cell_xoff c) \<and> x < u32 (u32 (cell_xoff c) + cell_sx c) \<and>
     y \<ge> u32 (cell_yoff c) \<and> y < u32 (u32 (cell_yoff c) + cell_sy c)"

fun border_between :: "layout_type \<Rightarrow> layout_cell \<Rightarrow> layout_cell \<Rightarrow> u32 \<Rightarrow> u32 \<Rightarrow> bool" where
  "border_between LAYOUT_LEFTRIGHT l c x y \<longleftrightarrow>
     x < u32 (cell_xoff c) \<and> x \<ge> u32 (u32 (cell_xoff l) + cell_sx l)"
| "border_between LAYOUT_TOPBOTTOM l c x y \<longleftrightarrow>
     y < u32 (cell_yoff c) \<and> y \<ge> u32 (u32 (cell_yoff l) + cell_sy l)"
| "border_between LAYOUT_WINDOWPANE l c x y \<longleftrightarrow> False"

fun layout_search_by_border :: "cell_ptr \<Rightarrow> layout_cell \<Rightarrow> u32 \<Rightarrow> u32 \<Rightarrow> cell_ptr option"
  and search_children :: "cell_ptr \<Rightarrow> layout_type \<Rightarrow> (nat \<times> layout_cell) option \<Rightarrow> nat \<Rightarrow>
        layout_cell list \<Rightarrow> u32 \<Rightarrow> u32 \<Rightarrow> cell_ptr option" where
  "layout_search_by_border p (Cell i cs) x y = search_children p (ctype i) None 0 cs x y"
| "search_children p ty l k [] x y = None"
| "search_children p ty l k (c # cs) x y =
     (if inside_cell c x y then layout_search_by_border (k # p) c x y
      else (case l of
              None \<Rightarrow> search_children p ty (Some (k, c)) (Suc k) cs x y
            | Some (j, lc) \<Rightarrow>
                if border_between ty lc c x y then Some (j # p)
                else search_children p ty (Some (k, c)) (Suc k) cs x y))"

section \<open>The shape of a tree\<close>

text \<open>Types, flags, panes and the child lists, without the geometry.  Whether a cell is in the
  tiled flow and whether it needs a border line depends on the shape only, so the size changes
  of the resize code cannot alter them.\<close>

fun shape :: "layout_cell \<Rightarrow> layout_cell" where
  "shape (Cell i cs) = Cell (i\<lparr>sx := 0, sy := 0, xoff := 0, yoff := 0\<rparr>) (map shape cs)"

lemma cells_shape [simp]: "cells (shape c) = map shape (cells c)"
  by (cases c) simp

lemma info_shape [simp]:
  "cell_type (shape c) = cell_type c" "cflags (info (shape c)) = cflags (info c)"
  "cwp (info (shape c)) = cwp (info c)"
  by (cases c, simp)+

lemma shape_geometry [simp]:
  "shape (Cell (i\<lparr>sx := a\<rparr>) cs) = shape (Cell i cs)"
  "shape (Cell (i\<lparr>sy := b\<rparr>) cs) = shape (Cell i cs)"
  "shape (Cell (i\<lparr>xoff := a, yoff := b\<rparr>) cs) = shape (Cell i cs)"
  "shape (Cell (i\<lparr>sx := a, sy := b, xoff := x, yoff := y\<rparr>) cs) = shape (Cell i cs)"
  by simp_all

lemma is_tiled_shape: "layout_cell_is_tiled (shape c) = layout_cell_is_tiled c"
  by (simp add: layout_cell_is_tiled_def cell_floating_def)

lemma has_tiled_child_shape: "layout_cell_has_tiled_child (shape c) = layout_cell_has_tiled_child c"
proof (induction c)
  case (Cell i cs)
  then show ?case by (auto simp: list_ex_iff is_tiled_shape)
qed

lemma in_flow_shape: "in_flow (shape c) = in_flow c"
  by (simp add: in_flow_def is_tiled_shape has_tiled_child_shape)

lemma in_flow_cong: "shape c = shape d \<Longrightarrow> in_flow c = in_flow d"
  by (metis in_flow_shape)

lemma cell_type_cong: "shape c = shape d \<Longrightarrow> cell_type c = cell_type d"
  by (metis info_shape(1))

lemma length_cells_cong: "shape c = shape d \<Longrightarrow> length (cells c) = length (cells d)"
  by (metis cells_shape length_map)

lemma cell_at_shape: "cell_at (shape root) p = map_option shape (cell_at root p)"
  by (induction p) (auto split: option.splits)

lemma cell_at_cong:
  assumes "shape r = shape r'"
  shows "map_option shape (cell_at r p) = map_option shape (cell_at r' p)"
  using assms by (metis cell_at_shape)

lemma is_first_tiled_shape:
  "layout_cell_is_first_tiled (shape r) p = layout_cell_is_first_tiled r p"
proof (cases p)
  case Nil
  then show ?thesis by (simp add: layout_cell_is_first_tiled_def is_tiled_shape)
next
  case (Cons i q)
  have "find_index in_flow (map shape cs) = find_index in_flow cs" for cs
    by (simp add: find_index_map comp_def in_flow_shape)
  with Cons show ?thesis
    by (simp add: layout_cell_is_first_tiled_def cell_at_shape split: option.splits)
qed

lemma is_top_shape: "layout_cell_is_top (shape r) p = layout_cell_is_top r p"
  by (induction p) (auto simp: cell_at_shape is_first_tiled_shape split: option.splits)

lemma is_bottom_shape: "layout_cell_is_bottom (shape r) p = layout_cell_is_bottom r p"
  by (induction p) (auto simp: cell_at_shape split: option.splits)

lemma add_border_cong:
  assumes "shape (layout_root w) = shape (layout_root w')"
  shows "layout_add_border w p status = layout_add_border w' p status"
  unfolding layout_add_border_def using assms by (metis is_top_shape is_bottom_shape)

lemma shape_fix_offsets1: "shape (layout_fix_offsets1 c) = shape c"
  and shape_fix_leftright: "map shape (fix_leftright x y cs) = map shape cs"
  and shape_fix_topbottom: "map shape (fix_topbottom a b ds) = map shape ds"
proof (induction c and x y cs and a b ds rule: layout_fix_offsets1_fix_leftright_fix_topbottom.induct)
  case (3 x y c cs)
  then show ?case by (cases c) (auto simp: Let_def)
next
  case (5 x y c cs)
  then show ?case by (cases c) (auto simp: Let_def)
qed auto

lemma in_flow_map_info [simp]:
  "in_flow (Cell (i\<lparr>xoff := a, yoff := b\<rparr>) cs) = in_flow (Cell i cs)"
  "in_flow (Cell (i\<lparr>sx := a\<rparr>) cs) = in_flow (Cell i cs)"
  "in_flow (Cell (i\<lparr>sy := b\<rparr>) cs) = in_flow (Cell i cs)"
  by (rule in_flow_cong, simp)+

section \<open>Well-formed layouts\<close>

text \<open>The sizes of the children in the tiled flow, and the separators between them, fill their
  parent.\<close>

definition flow_size :: "(layout_cell \<Rightarrow> int) \<Rightarrow> layout_cell list \<Rightarrow> int" where
  "flow_size f cs = (\<Sum>c\<leftarrow>filter in_flow cs. f c + 1) - 1"

lemma flow_size_Nil [simp]: "flow_size f [] = - 1"
  by (simp add: flow_size_def)

lemma flow_size_Cons:
  "flow_size f (c # cs) = (if in_flow c then f c + 1 else 0) + flow_size f cs"
  by (simp add: flow_size_def)

fun layout_wf :: "layout_cell \<Rightarrow> bool" where
  "layout_wf (Cell i cs) \<longleftrightarrow>
     1 \<le> sx i \<and> sx i \<le> i32_MAX \<and> 1 \<le> sy i \<and> sy i \<le> i32_MAX \<and>
     (case ctype i of
        LAYOUT_WINDOWPANE \<Rightarrow> cs = []
      | LAYOUT_LEFTRIGHT \<Rightarrow>
          list_ex in_flow cs \<and> flow_size cell_sx cs = sx i \<and>
          list_all (\<lambda>c. in_flow c \<longrightarrow> cell_sy c = sy i \<and> layout_wf c) cs
      | LAYOUT_TOPBOTTOM \<Rightarrow>
          list_ex in_flow cs \<and> flow_size cell_sy cs = sy i \<and>
          list_all (\<lambda>c. in_flow c \<longrightarrow> cell_sx c = sx i \<and> layout_wf c) cs)"

lemma layout_wf_bounds:
  "layout_wf c \<Longrightarrow> 1 \<le> cell_sx c \<and> cell_sx c \<le> i32_MAX \<and> 1 \<le> cell_sy c \<and> cell_sy c \<le> i32_MAX"
  by (cases c) simp

fun tiled_leaves :: "layout_cell \<Rightarrow> layout_cell list" where
  "tiled_leaves (Cell i cs) =
     (if ctype i = LAYOUT_WINDOWPANE
      then (if layout_cell_is_tiled (Cell i cs) then [Cell i cs] else [])
      else concat (map tiled_leaves cs))"

lemma tiled_leaves_empty: "tiled_leaves c = [] \<longleftrightarrow> \<not> in_flow c"
proof (induction c)
  case (Cell i cs)
  then show ?case
    by (auto simp: in_flow_def list_ex_iff layout_cell_is_tiled_def)
qed

text \<open>The rectangle of a cell, and disjointness of two rectangles.\<close>

definition covers :: "layout_cell \<Rightarrow> int \<Rightarrow> int \<Rightarrow> bool" where
  "covers c x y \<longleftrightarrow>
     cell_xoff c \<le> x \<and> x < cell_xoff c + cell_sx c \<and>
     cell_yoff c \<le> y \<and> y < cell_yoff c + cell_sy c"

definition disjoint_cells :: "layout_cell \<Rightarrow> layout_cell \<Rightarrow> bool" where
  "disjoint_cells a b \<longleftrightarrow> (\<forall>x y. \<not> (covers a x y \<and> covers b x y))"

definition in_box :: "int \<Rightarrow> int \<Rightarrow> int \<Rightarrow> int \<Rightarrow> layout_cell \<Rightarrow> bool" where
  "in_box x1 x2 y1 y2 c \<longleftrightarrow>
     x1 \<le> cell_xoff c \<and> cell_xoff c + cell_sx c \<le> x2 \<and>
     y1 \<le> cell_yoff c \<and> cell_yoff c + cell_sy c \<le> y2"

lemma in_box_disjoint:
  assumes "in_box x1 x2 y1 y2 a" and "in_box x3 x4 y3 y4 b" and "x2 \<le> x3 \<or> y2 \<le> y3"
  shows "disjoint_cells a b"
  using assms by (auto simp: disjoint_cells_def covers_def in_box_def)

lemma in_box_mono:
  "in_box x1 x2 y1 y2 c \<Longrightarrow> x1' \<le> x1 \<Longrightarrow> x2 \<le> x2' \<Longrightarrow> y1' \<le> y1 \<Longrightarrow> y2 \<le> y2'
     \<Longrightarrow> in_box x1' x2' y1' y2' c"
  by (auto simp: in_box_def)

end
