(* ===== verification/Layout_Offsets.thy ===== *)
theory Layout_Offsets
  imports Layout_Cell
begin

text \<open>
  What the offset pass (\<open>layout_fix_offsets\<close> in \<open>layout.rs\<close>) establishes: the panes of a
  well-formed layout lie inside their window and do not overlap, and what the border search
  finds afterwards.
\<close>

section \<open>The pass keeps sizes\<close>

lemma info_fix_offsets1 [simp]: "info (layout_fix_offsets1 c) = info c"
  by (cases c) simp

lemma in_flow_fix_offsets1 [simp]: "in_flow (layout_fix_offsets1 c) = in_flow c"
  by (rule in_flow_cong) (rule shape_fix_offsets1)

lemma map_sizes_fix:
  "map (\<lambda>c. (in_flow c, cell_sx c, cell_sy c)) (fix_leftright x y cs)
     = map (\<lambda>c. (in_flow c, cell_sx c, cell_sy c)) cs"
  "map (\<lambda>c. (in_flow c, cell_sx c, cell_sy c)) (fix_topbottom a b cs)
     = map (\<lambda>c. (in_flow c, cell_sx c, cell_sy c)) cs"
proof -
  show "map (\<lambda>c. (in_flow c, cell_sx c, cell_sy c)) (fix_leftright x y cs)
     = map (\<lambda>c. (in_flow c, cell_sx c, cell_sy c)) cs"
    by (induction cs arbitrary: x) (auto simp: Let_def simp del: layout_fix_offsets1.simps)
  show "map (\<lambda>c. (in_flow c, cell_sx c, cell_sy c)) (fix_topbottom a b cs)
     = map (\<lambda>c. (in_flow c, cell_sx c, cell_sy c)) cs"
    by (induction cs arbitrary: b) (auto simp: Let_def simp del: layout_fix_offsets1.simps)
qed

lemma flow_size_map:
  "map (\<lambda>c. (in_flow c, cell_sx c, cell_sy c)) cs = map (\<lambda>c. (in_flow c, cell_sx c, cell_sy c)) ds
     \<Longrightarrow> flow_size cell_sx cs = flow_size cell_sx ds \<and> flow_size cell_sy cs = flow_size cell_sy ds
         \<and> list_ex in_flow cs = list_ex in_flow ds"
proof (induction cs arbitrary: ds)
  case (Cons c cs)
  then obtain d ds' where "ds = d # ds'" by (cases ds) auto
  with Cons show ?case by (auto simp: flow_size_Cons)
qed simp

lemmas flow_size_fix =
  flow_size_map [OF map_sizes_fix(1)] flow_size_map [OF map_sizes_fix(2)]

lemma layout_wf_offsets [simp]: "layout_wf (Cell (i\<lparr>xoff := a, yoff := b\<rparr>) cs) = layout_wf (Cell i cs)"
  by (simp cong: layout_type.case_cong)

lemma wf_fix_offsets1: "layout_wf c \<Longrightarrow> layout_wf (layout_fix_offsets1 c)"
  and wf_fix_leftright: "list_all (\<lambda>c. in_flow c \<longrightarrow> cell_sy c = h \<and> layout_wf c) cs \<Longrightarrow>
     list_all (\<lambda>c. in_flow c \<longrightarrow> cell_sy c = h \<and> layout_wf c) (fix_leftright x y cs)"
  and wf_fix_topbottom: "list_all (\<lambda>c. in_flow c \<longrightarrow> cell_sx c = h' \<and> layout_wf c) ds \<Longrightarrow>
     list_all (\<lambda>c. in_flow c \<longrightarrow> cell_sx c = h' \<and> layout_wf c) (fix_topbottom a b ds)"
proof (induction c and x y cs and a b ds arbitrary: and h and h'
    rule: layout_fix_offsets1_fix_leftright_fix_topbottom.induct)
  case (1 i cs)
  then show ?case
    by (cases "ctype i") (auto simp: flow_size_fix)
next
  case (3 x y c cs)
  then show ?case
    by (cases c) (auto simp: Let_def simp del: layout_fix_offsets1.simps layout_wf.simps)
next
  case (5 x y c cs)
  then show ?case
    by (cases c) (auto simp: Let_def simp del: layout_fix_offsets1.simps layout_wf.simps)
qed auto

text \<open>The tree with all offsets forgotten: cells, sizes, panes and flags.\<close>

fun no_offsets :: "layout_cell \<Rightarrow> layout_cell" where
  "no_offsets (Cell i cs) = Cell (i\<lparr>xoff := 0, yoff := 0\<rparr>) (map no_offsets cs)"

lemma no_offsets_set [simp]: "no_offsets (Cell (i\<lparr>xoff := a, yoff := b\<rparr>) cs) = no_offsets (Cell i cs)"
  by simp

lemma no_offsets_fix1: "no_offsets (layout_fix_offsets1 c) = no_offsets c"
  and "map no_offsets (fix_leftright x y cs) = map no_offsets cs"
  and "map no_offsets (fix_topbottom a b ds) = map no_offsets ds"
proof (induction c and x y cs and a b ds rule: layout_fix_offsets1_fix_leftright_fix_topbottom.induct)
  case (1 i cs)
  then show ?case by (cases "ctype i") auto
next
  case (3 x y c cs)
  then show ?case by (cases c) (auto simp: Let_def simp del: layout_fix_offsets1.simps no_offsets.simps)
next
  case (5 x y c cs)
  then show ?case by (cases c) (auto simp: Let_def simp del: layout_fix_offsets1.simps no_offsets.simps)
qed auto

section \<open>Panes do not overlap\<close>

lemma flow_size_nonneg:
  "list_all (\<lambda>c. in_flow c \<longrightarrow> 0 \<le> f c) cs \<Longrightarrow> - 1 \<le> flow_size f cs"
  by (induction cs) (auto simp: flow_size_Cons)

lemma tiled_leaves_not_flow: "\<not> in_flow c \<Longrightarrow> tiled_leaves c = []"
  by (simp add: tiled_leaves_empty)

definition tiles :: "int \<Rightarrow> int \<Rightarrow> int \<Rightarrow> int \<Rightarrow> layout_cell list \<Rightarrow> bool" where
  "tiles x1 x2 y1 y2 ls \<longleftrightarrow> sorted_wrt disjoint_cells ls \<and> list_all (in_box x1 x2 y1 y2) ls"

lemma tiles_Nil [simp]: "tiles x1 x2 y1 y2 []"
  by (simp add: tiles_def)

lemma tiles_append:
  assumes "tiles x1 x2 y1 y2 ls" and "tiles x3 x4 y3 y4 ms" and "x2 \<le> x3 \<or> y2 \<le> y3"
    and "x1 \<le> x3" "x2 \<le> x4" "y1 \<le> y3" "y2 \<le> y4"
  shows "tiles x1 x4 y1 y4 (ls @ ms)"
proof -
  have "disjoint_cells l m" if "l \<in> set ls" and "m \<in> set ms" for l m
    using assms(1,2) that
    by (intro in_box_disjoint [OF _ _ assms(3)]) (auto simp: tiles_def list_all_iff)
  moreover have "in_box x1 x4 y1 y4 l" if "l \<in> set ls" for l
    using assms(1) that by (auto simp: tiles_def list_all_iff intro: in_box_mono [OF _ _ assms(5) _ assms(7)])
  moreover have "in_box x1 x4 y1 y4 m" if "m \<in> set ms" for m
    using assms(2) that by (auto simp: tiles_def list_all_iff intro: in_box_mono [OF _ assms(4) _ assms(6)])
  ultimately show ?thesis
    using assms(1,2) by (auto simp: tiles_def sorted_wrt_append list_all_iff)
qed

text \<open>What the loop body does with one child of the flow, whichever the direction.\<close>

abbreviation fix_child :: "i32 \<Rightarrow> i32 \<Rightarrow> layout_cell \<Rightarrow> layout_cell" where
  "fix_child x y c \<equiv>
     (if cell_type c \<noteq> LAYOUT_WINDOWPANE then layout_fix_offsets1 (set_offsets x y c)
      else set_offsets x y c)"

lemma tiles_child:
  assumes "layout_wf c"
    and "cell_type c \<noteq> LAYOUT_WINDOWPANE \<Longrightarrow>
      tiles x (x + cell_sx c) y (y + cell_sy c) (tiled_leaves (layout_fix_offsets1 (set_offsets x y c)))"
  shows "tiles x (x + cell_sx c) y (y + cell_sy c) (tiled_leaves (fix_child x y c))"
  using assms
  by (cases c) (auto simp: tiles_def in_box_def layout_cell_is_tiled_def cell_floating_def
      simp del: layout_fix_offsets1.simps)

lemma flow_rest:
  assumes "list_all (\<lambda>c. in_flow c \<longrightarrow> P c \<and> layout_wf c) (c # cs)" and "in_flow c"
  shows "P c" "layout_wf c" "1 \<le> cell_sx c" "1 \<le> cell_sy c"
    and "list_all (\<lambda>c. in_flow c \<longrightarrow> P c \<and> layout_wf c) cs"
    and "- 1 \<le> flow_size cell_sx cs" "- 1 \<le> flow_size cell_sy cs"
proof -
  have "0 \<le> cell_sx d \<and> 0 \<le> cell_sy d" if "d \<in> set cs" "in_flow d" for d
    using assms(1) that layout_wf_bounds [of d] by (auto simp: list_all_iff)
  then show "- 1 \<le> flow_size cell_sx cs" "- 1 \<le> flow_size cell_sy cs"
    by (auto intro!: flow_size_nonneg simp: list_all_iff)
qed (use assms layout_wf_bounds [of c] in auto)

lemma tiles_fix_offsets1:
    "layout_wf c \<Longrightarrow> 0 \<le> cell_xoff c \<Longrightarrow> cell_xoff c + cell_sx c \<le> i32_MAX \<Longrightarrow>
     0 \<le> cell_yoff c \<Longrightarrow> cell_yoff c + cell_sy c \<le> i32_MAX \<Longrightarrow>
     tiles (cell_xoff c) (cell_xoff c + cell_sx c) (cell_yoff c) (cell_yoff c + cell_sy c)
       (tiled_leaves (layout_fix_offsets1 c))"
  and tiles_fix_leftright:
    "list_all (\<lambda>c. in_flow c \<longrightarrow> cell_sy c = h \<and> layout_wf c) cs \<Longrightarrow> 0 \<le> x \<Longrightarrow>
     x + flow_size cell_sx cs \<le> i32_MAX \<Longrightarrow> 0 \<le> y \<Longrightarrow> y + h \<le> i32_MAX \<Longrightarrow>
     tiles x (x + flow_size cell_sx cs) y (y + h) (concat (map tiled_leaves (fix_leftright x y cs)))"
  and tiles_fix_topbottom:
    "list_all (\<lambda>c. in_flow c \<longrightarrow> cell_sx c = h' \<and> layout_wf c) ds \<Longrightarrow> 0 \<le> b \<Longrightarrow>
     b + flow_size cell_sy ds \<le> i32_MAX \<Longrightarrow> 0 \<le> a \<Longrightarrow> a + h' \<le> i32_MAX \<Longrightarrow>
     tiles a (a + h') b (b + flow_size cell_sy ds) (concat (map tiled_leaves (fix_topbottom a b ds)))"
proof (induction c and x y cs and a b ds arbitrary: and h and h'
    rule: layout_fix_offsets1_fix_leftright_fix_topbottom.induct)
  case (1 i cs)
  then show ?case
    by (cases "ctype i")
       (auto simp: i32_MAX_def u32_id tiles_def in_box_def layout_cell_is_tiled_def cell_floating_def)
next
  case (3 x y c cs)
  show ?case
  proof (cases "in_flow c")
    case True
    note c = flow_rest [OF "3.prems"(1) True]
    let ?x = "x + cell_sx c + 1"
    have i: "i32 x = x" and u: "u32 (x + u32 (cell_sx c + 1)) = ?x"
      using "3.prems" True c by (auto simp: flow_size_Cons i32_MAX_def i32_id u32_id)
    have "tiles x (x + cell_sx c) y (y + cell_sy c) (tiled_leaves (fix_child x y c))"
      using 3 True c i
      by (intro tiles_child) (auto simp: flow_size_Cons simp del: layout_fix_offsets1.simps layout_wf.simps)
    moreover have "tiles ?x (?x + flow_size cell_sx cs) y (y + h)
        (concat (map tiled_leaves (fix_leftright ?x y cs)))"
      using 3 True c u by (auto simp: flow_size_Cons simp del: layout_fix_offsets1.simps layout_wf.simps)
    ultimately have "tiles x (?x + flow_size cell_sx cs) y (y + h)
        (tiled_leaves (fix_child x y c) @ concat (map tiled_leaves (fix_leftright ?x y cs)))"
      using c by (intro tiles_append) auto
    with True u i show ?thesis
      by (simp add: flow_size_Cons Let_def algebra_simps del: layout_fix_offsets1.simps)
  qed (use 3 in \<open>simp add: flow_size_Cons tiled_leaves_not_flow\<close>)
next
  case (5 a b c ds)
  show ?case
  proof (cases "in_flow c")
    case True
    note c = flow_rest [OF "5.prems"(1) True]
    let ?b = "b + cell_sy c + 1"
    have i: "i32 b = b" and u: "u32 (b + u32 (cell_sy c + 1)) = ?b"
      using "5.prems" True c by (auto simp: flow_size_Cons i32_MAX_def i32_id u32_id)
    have "tiles a (a + cell_sx c) b (b + cell_sy c) (tiled_leaves (fix_child a b c))"
      using 5 True c i
      by (intro tiles_child) (auto simp: flow_size_Cons simp del: layout_fix_offsets1.simps layout_wf.simps)
    moreover have "tiles a (a + h') ?b (?b + flow_size cell_sy ds)
        (concat (map tiled_leaves (fix_topbottom a ?b ds)))"
      using 5 True c u by (auto simp: flow_size_Cons simp del: layout_fix_offsets1.simps layout_wf.simps)
    ultimately have "tiles a (a + h') b (?b + flow_size cell_sy ds)
        (tiled_leaves (fix_child a b c) @ concat (map tiled_leaves (fix_topbottom a ?b ds)))"
      using c by (intro tiles_append) auto
    with True u i show ?thesis
      by (simp add: flow_size_Cons Let_def algebra_simps del: layout_fix_offsets1.simps)
  qed (use 5 in \<open>simp add: flow_size_Cons tiled_leaves_not_flow\<close>)
qed auto

section \<open>Correctness of the offset pass\<close>

lemma layout_wf_root_offsets: "layout_wf r \<Longrightarrow> layout_wf (set_offsets 0 0 r)"
  by (cases r) (simp del: layout_wf.simps)

lemma layout_fix_offsets_wf:
  assumes "layout_wf (layout_root w)"
  shows "layout_wf (layout_root (layout_fix_offsets w))"
  using layout_wf_root_offsets [OF assms] unfolding layout_fix_offsets_def
  by (simp add: wf_fix_offsets1 del: layout_wf.simps layout_fix_offsets1.simps)

lemma layout_fix_offsets_shape:
  "shape (layout_root (layout_fix_offsets w)) = shape (layout_root w)"
  by (cases "layout_root w")
     (simp add: layout_fix_offsets_def shape_fix_offsets1 del: layout_fix_offsets1.simps shape.simps)

lemma layout_fix_offsets_size [simp]:
  "cell_sx (layout_root (layout_fix_offsets w)) = cell_sx (layout_root w)"
  "cell_sy (layout_root (layout_fix_offsets w)) = cell_sy (layout_root w)"
  by (simp_all add: layout_fix_offsets_def del: layout_fix_offsets1.simps)

lemma layout_fix_offsets_tiled:
  assumes "layout_wf (layout_root w)"
  shows "tiles 0 (cell_sx (layout_root w)) 0 (cell_sy (layout_root w))
      (tiled_leaves (layout_root (layout_fix_offsets w)))"
  using tiles_fix_offsets1 [OF layout_wf_root_offsets [OF assms]] layout_wf_bounds [OF assms]
  by (simp add: layout_fix_offsets_def del: layout_fix_offsets1.simps)

lemmas layout_fix_offsets_disjoint = layout_fix_offsets_tiled [unfolded tiles_def, THEN conjunct1]
  and layout_fix_offsets_box = layout_fix_offsets_tiled [unfolded tiles_def, THEN conjunct2]

lemma layout_fix_offsets_only: "no_offsets (layout_root (layout_fix_offsets w)) = no_offsets (layout_root w)"
  by (cases "layout_root w") (simp add: layout_fix_offsets_def no_offsets_fix1 del: layout_fix_offsets1.simps no_offsets.simps)

text \<open>C1: after \<open>layout_fix_offsets\<close> on a window whose layout is well formed, the layout is still
  well formed and the same but for offsets, with the size of every cell, its pane and its flags
  unchanged; every tiled pane lies inside the window's rectangle, and no two tiled panes share a
  position.\<close>

theorem layout_fix_offsets_tiles:
  assumes "layout_wf (layout_root w)"
  shows "layout_wf (layout_root (layout_fix_offsets w)) \<and>
    no_offsets (layout_root (layout_fix_offsets w)) = no_offsets (layout_root w) \<and>
    cell_sx (layout_root (layout_fix_offsets w)) = cell_sx (layout_root w) \<and>
    cell_sy (layout_root (layout_fix_offsets w)) = cell_sy (layout_root w) \<and>
    list_all (in_box 0 (cell_sx (layout_root w)) 0 (cell_sy (layout_root w)))
      (tiled_leaves (layout_root (layout_fix_offsets w))) \<and>
    sorted_wrt disjoint_cells (tiled_leaves (layout_root (layout_fix_offsets w)))"
  using layout_fix_offsets_wf [OF assms] layout_fix_offsets_only [of w]
    layout_fix_offsets_disjoint [OF assms] layout_fix_offsets_box [OF assms] by simp

definition example_leaf :: "nat \<Rightarrow> u32 \<Rightarrow> u32 \<Rightarrow> layout_cell" where
  "example_leaf n a b = layout_set_size (layout_make_leaf layout_create_cell n) a b 0 0"

definition example_node :: "layout_type \<Rightarrow> u32 \<Rightarrow> u32 \<Rightarrow> layout_cell list \<Rightarrow> layout_cell" where
  "example_node ty a b cs = Cell ((info (example_leaf 0 a b))\<lparr>ctype := ty, cwp := None\<rparr>) cs"

definition example_root :: layout_cell where
  "example_root = example_node LAYOUT_LEFTRIGHT 80 24
     [example_leaf 0 40 24,
      example_node LAYOUT_TOPBOTTOM 39 24 [example_leaf 1 39 12, example_leaf 2 39 11]]"

definition example_pane :: "nat \<Rightarrow> window_pane" where
  "example_pane n = \<lparr>pane_id = n, p_sx = 0, p_sy = 0, p_xoff = 0, p_yoff = 0, p_sb_width = 1,
     p_sb_pad = 0, alternate = False, redraw_scrollbar = False, resize_queue = []\<rparr>"

definition example_window :: window where
  "example_window = \<lparr>w_sx = 80, w_sy = 24, layout_root = example_root,
     panes = map example_pane [0, 1, 2], border_status = PANE_STATUS_OFF,
     sb = 0, sb_pos = 0, sb_width = 1, sb_pad = 0\<rparr>"

theorem layout_fix_offsets_tiles_witness:
  "layout_wf (layout_root example_window) \<and>
   sorted_wrt disjoint_cells (tiled_leaves (layout_root (layout_fix_offsets example_window))) \<and>
   map (\<lambda>c. (cell_xoff c, cell_yoff c, cell_sx c, cell_sy c))
       (tiled_leaves (layout_root (layout_fix_offsets example_window)))
     = [(0, 0, 40, 24), (41, 0, 39, 12), (41, 13, 39, 11)]"
proof -
  have wf: "layout_wf (layout_root example_window)" by code_simp
  have "map (\<lambda>c. (cell_xoff c, cell_yoff c, cell_sx c, cell_sy c))
       (tiled_leaves (layout_root (layout_fix_offsets example_window)))
     = [(0, 0, 40, 24), (41, 0, 39, 12), (41, 13, 39, 11)]" by code_simp
  with wf layout_fix_offsets_tiles [OF wf] show ?thesis by blast
qed

end
