(* ===== verification/Layout_Panes.thy ===== *)
theory Layout_Panes
  imports Layout_Offsets
begin

text \<open>
  Panes follow their cells: \<open>layout_fix_panes\<close> (\<open>layout.rs\<close>) copies the geometry of each leaf
  cell to its pane, less the line of a pane status, the frame of the ratatui extension and
  the columns of a reserved scrollbar.  \<open>inset\<close> is what \<open>frame_inset\<close> of the extension returns.
  The redraw request (\<open>redraw_invalidate_scene\<close>) is not part of the model, nor are the screen
  and mode callbacks of \<open>window_pane_resize\<close>.
\<close>

section \<open>The cell of a pane\<close>

fun pane_cell :: "nat \<Rightarrow> cell_ptr \<Rightarrow> layout_cell \<Rightarrow> (cell_ptr \<times> layout_cell) option"
  and pane_cell_list :: "nat \<Rightarrow> cell_ptr \<Rightarrow> nat \<Rightarrow> layout_cell list \<Rightarrow> (cell_ptr \<times> layout_cell) option" where
  "pane_cell n p (Cell i cs) =
     (if ctype i = LAYOUT_WINDOWPANE then (if cwp i = Some n then Some (p, Cell i cs) else None)
      else pane_cell_list n p 0 cs)"
| "pane_cell_list n p k [] = None"
| "pane_cell_list n p k (c # cs) =
     (case pane_cell n (k # p) c of None \<Rightarrow> pane_cell_list n p (Suc k) cs | Some r \<Rightarrow> Some r)"

definition window_pane_show_scrollbar :: "window \<Rightarrow> bool \<Rightarrow> window_pane \<Rightarrow> bool" where
  "window_pane_show_scrollbar w in_mode wp =
     (if alternate wp then False
      else sb w = 2 \<or> sb w = 3 \<or> (sb w = 1 \<and> in_mode))"

definition window_pane_scrollbar_reserve :: "window \<Rightarrow> bool \<Rightarrow> window_pane \<Rightarrow> bool" where
  "window_pane_scrollbar_reserve w in_mode wp =
     (if \<not> window_pane_show_scrollbar w in_mode wp then False else sb w = PANE_SCROLLBARS_ALWAYS)"

definition window_pane_resize :: "window_pane \<Rightarrow> u32 \<Rightarrow> u32 \<Rightarrow> window_pane" where
  "window_pane_resize wp nsx nsy =
     (if nsx = p_sx wp \<and> nsy = p_sy wp then wp
      else wp\<lparr>resize_queue := resize_queue wp @ [(nsx, nsy, p_sx wp, p_sy wp)],
              p_sx := nsx, p_sy := nsy\<rparr>)"

text \<open>The columns a reserved scrollbar takes out of a pane: new offset and new width.\<close>

definition reserve_scrollbar :: "window \<Rightarrow> window_pane \<Rightarrow> i32 \<Rightarrow> u32 \<Rightarrow> i32 \<times> u32" where
  "reserve_scrollbar w wp x s =
     (let sb_w = (if p_sb_width wp < 1 then 1 else p_sb_width wp);
          sb_pad = (if p_sb_pad wp < 0 then 0 else p_sb_pad wp)
      in if sb_pos w = PANE_SCROLLBARS_LEFT
         then (if i32 (i32 s - sb_w - sb_pad) < PANE_MINIMUM
               then (i32 (x + i32 (i32 s - PANE_MINIMUM)), PANE_MINIMUM)
               else (i32 (x + i32 (sb_w + sb_pad)), u32 (i32 (i32 s - sb_w - sb_pad))))
         else if i32 (i32 s - sb_w - sb_pad) < PANE_MINIMUM then (x, PANE_MINIMUM)
         else (x, u32 (i32 (i32 s - sb_w - sb_pad))))"

definition fix_pane :: "window \<Rightarrow> u32 \<Rightarrow> (window_pane \<Rightarrow> bool) \<Rightarrow> cell_ptr \<Rightarrow> layout_cell \<Rightarrow> window_pane \<Rightarrow> window_pane" where
  "fix_pane w inset in_mode p c wp =
     (let x = cell_xoff c; y = cell_yoff c; s = cell_sx c; t = cell_sy c;
          (x, y, s, t) =
            (if layout_add_border w p (border_status w)
             then (x, if border_status w = PANE_STATUS_TOP then i32 (y + 1) else y, s, u32 (t - 1))
             else if inset \<noteq> 0 \<and> s > 2 * inset \<and> t > 2 * inset
             then (i32 (x + inset), i32 (y + inset), u32 (s - 2 * inset), u32 (t - 2 * inset))
             else (x, y, s, t));
          reserve = window_pane_scrollbar_reserve w (in_mode wp) wp;
          (x, s) = (if reserve then reserve_scrollbar w wp x s else (x, s));
          wp = wp\<lparr>p_xoff := x, p_yoff := y, redraw_scrollbar := redraw_scrollbar wp \<or> reserve\<rparr>
      in window_pane_resize wp s t)"

definition layout_fix_panes :: "window \<Rightarrow> u32 \<Rightarrow> (window_pane \<Rightarrow> bool) \<Rightarrow> nat option \<Rightarrow> window" where
  "layout_fix_panes w inset in_mode skip =
     w\<lparr>panes := map (\<lambda>wp.
         (case pane_cell (pane_id wp) [] (layout_root w) of
            None \<Rightarrow> wp
          | Some (p, c) \<Rightarrow> if skip = Some (pane_id wp) then wp else fix_pane w inset in_mode p c wp)) (panes w)\<rparr>"

section \<open>A pane stays inside its cell\<close>

definition pane_inside :: "window_pane \<Rightarrow> layout_cell \<Rightarrow> bool" where
  "pane_inside wp c \<longleftrightarrow>
     cell_xoff c \<le> p_xoff wp \<and> p_xoff wp + p_sx wp \<le> cell_xoff c + cell_sx c \<and>
     cell_yoff c \<le> p_yoff wp \<and> p_yoff wp + p_sy wp \<le> cell_yoff c + cell_sy c"

lemma window_pane_resize_geometry [simp]:
  "p_sx (window_pane_resize wp a b) = a" "p_sy (window_pane_resize wp a b) = b"
  "p_xoff (window_pane_resize wp a b) = p_xoff wp" "p_yoff (window_pane_resize wp a b) = p_yoff wp"
  "pane_id (window_pane_resize wp a b) = pane_id wp"
  by (simp_all add: window_pane_resize_def)

lemma reserve_scrollbar_inside:
  assumes "0 \<le> x" "1 \<le> s" "x + s \<le> i32_MAX" "p_sb_width wp \<le> 10000" "p_sb_pad wp \<le> 10000"
    and "reserve_scrollbar w wp x s = (x', s')"
  shows "x \<le> x' \<and> x' + s' \<le> x + s \<and> 1 \<le> s'"
  using assms
  by (auto simp: reserve_scrollbar_def Let_def PANE_MINIMUM_def i32_MAX_def i32_id u32_id split: if_splits)

lemma fix_pane_inside:
  assumes "in_box 0 a 0 b c" "1 \<le> cell_sx c" "1 \<le> cell_sy c" "a \<le> i32_MAX" "b \<le> i32_MAX"
    and "0 \<le> inset" "p_sb_width wp \<le> 10000" "p_sb_pad wp \<le> 10000"
  shows "pane_inside (fix_pane w inset in_mode p c wp) c"
proof -
  let ?b = "layout_add_border w p (border_status w)" and ?top = "border_status w = PANE_STATUS_TOP"
  define g where "g = (if ?b then (cell_xoff c, if ?top then i32 (cell_yoff c + 1) else cell_yoff c,
        cell_sx c, u32 (cell_sy c - 1))
      else if inset \<noteq> 0 \<and> cell_sx c > 2 * inset \<and> cell_sy c > 2 * inset
      then (i32 (cell_xoff c + inset), i32 (cell_yoff c + inset), u32 (cell_sx c - 2 * inset), u32 (cell_sy c - 2 * inset))
      else (cell_xoff c, cell_yoff c, cell_sx c, cell_sy c))"
  obtain x y s t where g: "g = (x, y, s, t)" by (cases g)
  have in0: "0 \<le> cell_xoff c" "cell_xoff c + cell_sx c \<le> i32_MAX" "0 \<le> cell_yoff c" "cell_yoff c + cell_sy c \<le> i32_MAX"
    using assms by (auto simp: in_box_def)
  then have inb: "cell_xoff c \<le> x" "1 \<le> s" "x + s \<le> cell_xoff c + cell_sx c"
      "cell_yoff c \<le> y" "y + t \<le> cell_yoff c + cell_sy c"
    using assms(2,3,6) g
    by (auto simp: g_def i32_MAX_def i32_id u32_id split: if_splits)
  obtain x' s' where r: "(if window_pane_scrollbar_reserve w (in_mode wp) wp then reserve_scrollbar w wp x s else (x, s)) = (x', s')"
    by (cases "if window_pane_scrollbar_reserve w (in_mode wp) wp then reserve_scrollbar w wp x s else (x, s)")
  have "x \<le> x' \<and> x' + s' \<le> x + s"
    using r reserve_scrollbar_inside [of x s wp w x' s'] inb in0 assms(7,8)
    by (auto split: if_splits)
  moreover have "p_xoff (fix_pane w inset in_mode p c wp) = x'" "p_yoff (fix_pane w inset in_mode p c wp) = y"
      "p_sx (fix_pane w inset in_mode p c wp) = s'" "p_sy (fix_pane w inset in_mode p c wp) = t"
    using g [unfolded g_def] r by (simp_all add: fix_pane_def Let_def split: prod.splits)
  ultimately show ?thesis using inb by (auto simp: pane_inside_def)
qed

lemma pane_cell_leaf:
    "pane_cell n p c = Some (q, l) \<Longrightarrow>
      cwp (info l) = Some n \<and> (layout_cell_is_tiled l \<longrightarrow> l \<in> set (tiled_leaves c))"
  and pane_cell_list_leaf:
    "pane_cell_list n p k cs = Some (q, l) \<Longrightarrow>
      cwp (info l) = Some n \<and> (layout_cell_is_tiled l \<longrightarrow> l \<in> (\<Union>c\<in>set cs. set (tiled_leaves c)))"
  by (induction n p c and n p k cs rule: pane_cell_pane_cell_list.induct)
     (auto split: if_splits option.splits)

lemma tiled_leaves_sizes:
  "layout_wf c \<Longrightarrow> l \<in> set (tiled_leaves c) \<Longrightarrow> 1 \<le> cell_sx l \<and> 1 \<le> cell_sy l"
proof (induction c)
  case (Cell i cs)
  show ?case
  proof (cases "ctype i = LAYOUT_WINDOWPANE")
    case False
    with Cell.prems(2) obtain c where c: "c \<in> set cs" "l \<in> set (tiled_leaves c)" by auto
    then have "in_flow c" using tiled_leaves_empty [of c] by auto
    with Cell.prems(1) c False have "layout_wf c"
      by (cases "ctype i") (auto simp: list_all_iff)
    with Cell.IH c show ?thesis by blast
  qed (use Cell.prems in \<open>auto split: if_splits\<close>)
qed

lemma sorted_disjoint:
  "sorted_wrt disjoint_cells ls \<Longrightarrow> a \<in> set ls \<Longrightarrow> b \<in> set ls \<Longrightarrow> a \<noteq> b \<Longrightarrow> disjoint_cells a b"
  by (induction ls) (auto simp: disjoint_cells_def)

definition pane_covers :: "window_pane \<Rightarrow> int \<Rightarrow> int \<Rightarrow> bool" where
  "pane_covers wp x y \<longleftrightarrow>
     p_xoff wp \<le> x \<and> x < p_xoff wp + p_sx wp \<and> p_yoff wp \<le> y \<and> y < p_yoff wp + p_sy wp"

lemma pane_inside_covers: "pane_inside wp c \<Longrightarrow> pane_covers wp x y \<Longrightarrow> covers c x y"
  by (auto simp: pane_inside_def pane_covers_def covers_def)

text \<open>The panes of a window that have a tiled cell, after the two passes that every layout
  operation ends with.\<close>

definition tiled_pane :: "window \<Rightarrow> window_pane \<Rightarrow> bool" where
  "tiled_pane w wp \<longleftrightarrow>
     (case pane_cell (pane_id wp) [] (layout_root w) of None \<Rightarrow> False | Some (p, c) \<Rightarrow> layout_cell_is_tiled c)"

definition refresh_panes :: "window \<Rightarrow> u32 \<Rightarrow> (window_pane \<Rightarrow> bool) \<Rightarrow> window" where
  "refresh_panes w inset in_mode = layout_fix_panes (layout_fix_offsets w) inset in_mode None"

lemma layout_fix_panes_root [simp]: "layout_root (layout_fix_panes w inset in_mode skip) = layout_root w"
  by (simp add: layout_fix_panes_def)

lemma refresh_panes_root [simp]: "layout_root (refresh_panes w inset in_mode) = layout_root (layout_fix_offsets w)"
  by (simp add: refresh_panes_def)

lemma refresh_panes_mem:
  assumes "wp \<in> set (panes w)" "pane_cell (pane_id wp) [] (layout_root (layout_fix_offsets w)) = Some (p, c)"
  shows "fix_pane (layout_fix_offsets w) inset in_mode p c wp \<in> set (panes (refresh_panes w inset in_mode))"
proof -
  have "panes (layout_fix_offsets w) = panes w" by (simp add: layout_fix_offsets_def)
  then show ?thesis
    using assms unfolding refresh_panes_def layout_fix_panes_def by (auto simp: image_iff intro!: bexI [of _ wp])
qed

lemma pane_in_leaf:
  assumes "layout_wf (layout_root w)" "tiled_pane (layout_fix_offsets w) wp"
    and "0 \<le> inset" "p_sb_width wp \<le> 10000" "p_sb_pad wp \<le> 10000"
  obtains p c where "pane_cell (pane_id wp) [] (layout_root (layout_fix_offsets w)) = Some (p, c)"
    "c \<in> set (tiled_leaves (layout_root (layout_fix_offsets w)))" "cwp (info c) = Some (pane_id wp)"
    "pane_inside (fix_pane (layout_fix_offsets w) inset in_mode p c wp) c"
    "in_box 0 (cell_sx (layout_root w)) 0 (cell_sy (layout_root w)) c"
proof -
  let ?w = "layout_fix_offsets w"
  obtain p c where pc: "pane_cell (pane_id wp) [] (layout_root ?w) = Some (p, c)" "layout_cell_is_tiled c"
    using assms(2) by (auto simp: tiled_pane_def split: option.splits)
  then have leaf: "c \<in> set (tiled_leaves (layout_root ?w))" "cwp (info c) = Some (pane_id wp)"
    using pane_cell_leaf by blast+
  have box: "in_box 0 (cell_sx (layout_root w)) 0 (cell_sy (layout_root w)) c"
    using layout_fix_offsets_box [OF assms(1)] leaf(1) by (auto simp: list_all_iff)
  show thesis
    using that [OF pc(1) leaf] box fix_pane_inside [OF box] layout_wf_bounds [OF assms(1)]
      tiled_leaves_sizes [OF layout_fix_offsets_wf [OF assms(1)] leaf(1)] assms(3-5) by blast
qed

text \<open>C2: once a well-formed layout has been through \<open>layout_fix_offsets\<close> and
  \<open>layout_fix_panes\<close>, whatever the pane status line, the frame inset and the scrollbars are, two
  different tiled panes never share a position of the window and each pane stays inside the
  window.\<close>

theorem layout_fix_panes_disjoint:
  assumes "layout_wf (layout_root w)" and "0 \<le> inset"
    and "wp \<in> set (panes w)" "tiled_pane (layout_fix_offsets w) wp" "p_sb_width wp \<le> 10000" "p_sb_pad wp \<le> 10000"
    and "wq \<in> set (panes w)" "tiled_pane (layout_fix_offsets w) wq" "p_sb_width wq \<le> 10000" "p_sb_pad wq \<le> 10000"
    and "pane_id wp \<noteq> pane_id wq"
  shows "\<exists>wp' \<in> set (panes (refresh_panes w inset in_mode)). \<exists>wq' \<in> set (panes (refresh_panes w inset in_mode)).
    pane_id wp' = pane_id wp \<and> pane_id wq' = pane_id wq \<and>
    (\<forall>x y. \<not> (pane_covers wp' x y \<and> pane_covers wq' x y)) \<and>
    (\<forall>x y. pane_covers wp' x y \<longrightarrow> 0 \<le> x \<and> x < cell_sx (layout_root w) \<and> 0 \<le> y \<and> y < cell_sy (layout_root w))"
proof -
  let ?w = "layout_fix_offsets w"
  obtain p c where c: "pane_cell (pane_id wp) [] (layout_root ?w) = Some (p, c)"
      "c \<in> set (tiled_leaves (layout_root ?w))" "cwp (info c) = Some (pane_id wp)"
      "pane_inside (fix_pane ?w inset in_mode p c wp) c" "in_box 0 (cell_sx (layout_root w)) 0 (cell_sy (layout_root w)) c"
    using pane_in_leaf [OF assms(1,4,2,5,6)] by blast
  obtain q d where d: "pane_cell (pane_id wq) [] (layout_root ?w) = Some (q, d)"
      "d \<in> set (tiled_leaves (layout_root ?w))" "cwp (info d) = Some (pane_id wq)"
      "pane_inside (fix_pane ?w inset in_mode q d wq) d"
    using pane_in_leaf [OF assms(1,8,2,9,10)] by blast
  have "c \<noteq> d" using c(3) d(3) assms(11) by auto
  then have "disjoint_cells c d"
    using sorted_disjoint [OF layout_fix_offsets_disjoint [OF assms(1)] c(2) d(2)] by blast
  then have "\<not> (pane_covers (fix_pane ?w inset in_mode p c wp) x y \<and> pane_covers (fix_pane ?w inset in_mode q d wq) x y)" for x y
    using pane_inside_covers [OF c(4)] pane_inside_covers [OF d(4)] unfolding disjoint_cells_def by blast
  moreover have "fix_pane ?w inset in_mode p c wp \<in> set (panes (refresh_panes w inset in_mode))"
      "fix_pane ?w inset in_mode q d wq \<in> set (panes (refresh_panes w inset in_mode))"
    using refresh_panes_mem [OF assms(3) c(1)] refresh_panes_mem [OF assms(7) d(1)] by blast+
  moreover have "pane_id (fix_pane ?w inset in_mode p c wp) = pane_id wp" "pane_id (fix_pane ?w inset in_mode q d wq) = pane_id wq"
    by (simp_all add: fix_pane_def Let_def split: prod.splits)
  moreover have "0 \<le> x \<and> x < cell_sx (layout_root w) \<and> 0 \<le> y \<and> y < cell_sy (layout_root w)"
    if "pane_covers (fix_pane ?w inset in_mode p c wp) x y" for x y
    using pane_inside_covers [OF c(4) that] c(5) by (auto simp: covers_def in_box_def)
  ultimately show ?thesis by blast
qed

theorem layout_fix_panes_disjoint_witness:
  "\<exists>wp' \<in> set (panes (refresh_panes example_window 0 (\<lambda>_. False))).
   \<exists>wq' \<in> set (panes (refresh_panes example_window 0 (\<lambda>_. False))).
    pane_id wp' = 1 \<and> pane_id wq' = 2 \<and> (\<forall>x y. \<not> (pane_covers wp' x y \<and> pane_covers wq' x y))"
proof -
  have wf: "layout_wf (layout_root example_window)" by code_simp
  have t: "tiled_pane (layout_fix_offsets example_window) (example_pane 1)"
    "tiled_pane (layout_fix_offsets example_window) (example_pane 2)" by code_simp+
  have m: "example_pane 1 \<in> set (panes example_window)" "example_pane 2 \<in> set (panes example_window)"
    by (simp_all add: example_window_def)
  show ?thesis
    using layout_fix_panes_disjoint [OF wf order_refl m(1) t(1) _ _ m(2) t(2), where in_mode = "\<lambda>_. False"]
    by (fastforce simp: example_pane_def)
qed

end
