(* ===== verification/Layout_Resize.thy ===== *)
theory Layout_Resize
  imports Layout_Offsets
begin

text \<open>
  Resizing (\<open>layout_resize_check\<close>, \<open>layout_resize_adjust\<close>, \<open>layout_resize\<close> and the pane
  resizing helpers of \<open>layout.rs\<close>).

  \<open>layout_resize_adjust\<close> recurses over the tree and, where the cell and the change run in the
  same direction, loops until the change is used up; nothing in the code bounds that loop.  The
  model returns \<^const>\<open>None\<close> when the loop does not stop.  It has two bounds: the recursion
  depth, for which the height of the tree is always enough (\<open>adjust_fuel_enough\<close>), and the
  number of passes over the children, for which the size of the change is enough, because a
  pass that makes no progress is repeated for ever (\<open>adjust_loop_enough\<close>).
\<close>

section \<open>Space that can be given up\<close>

definition pane_minimum :: "window \<Rightarrow> cell_ptr \<Rightarrow> layout_type \<Rightarrow> u32" where
  "pane_minimum w p ty =
     (if ty = LAYOUT_LEFTRIGHT
      then (if sb w = PANE_SCROLLBARS_ALWAYS
            then u32 (PANE_MINIMUM + u32 (sb_width w) + u32 (sb_pad w)) else PANE_MINIMUM)
      else (if layout_add_border w p (border_status w) then PANE_MINIMUM + 1 else PANE_MINIMUM))"

fun layout_resize_check :: "window \<Rightarrow> cell_ptr \<Rightarrow> layout_cell \<Rightarrow> layout_type \<Rightarrow> u32"
  and resize_checks :: "window \<Rightarrow> cell_ptr \<Rightarrow> nat \<Rightarrow> layout_cell list \<Rightarrow> layout_type \<Rightarrow> u32 list" where
  "layout_resize_check w p (Cell i cs) ty =
     (if ctype i = LAYOUT_WINDOWPANE
      then (let available = (if ty = LAYOUT_LEFTRIGHT then sx i else sy i);
                minimum = pane_minimum w p ty
            in if available > minimum then available - minimum else 0)
      else if ctype i = ty
      then fold (\<lambda>a available. u32 (available + a)) (resize_checks w p 0 cs ty) 0
      else fold (\<lambda>a minimum. if a < minimum then a else minimum) (resize_checks w p 0 cs ty) u32_MAX)"
| "resize_checks w p k [] ty = []"
| "resize_checks w p k (c # cs) ty =
     layout_resize_check w (k # p) c ty # resize_checks w p (Suc k) cs ty"

section \<open>Adjusting a cell and its children\<close>

definition adjust_size :: "layout_type \<Rightarrow> i32 \<Rightarrow> layout_cell \<Rightarrow> layout_cell" where
  "adjust_size ty change c =
     (if ty = LAYOUT_LEFTRIGHT then map_info (\<lambda>i. i\<lparr>sx := u32 (i32 (i32 (sx i) + change))\<rparr>) c
      else map_info (\<lambda>i. i\<lparr>sy := u32 (i32 (i32 (sy i) + change))\<rparr>) c)"

text \<open>The loop over the children of a cell that runs in the other direction.\<close>

fun adjust_children :: "(nat \<Rightarrow> layout_cell \<Rightarrow> layout_cell option) \<Rightarrow> nat \<Rightarrow> layout_cell list \<Rightarrow>
    layout_cell list option" where
  "adjust_children adj k [] = Some []"
| "adjust_children adj k (c # cs) =
     (case (if in_flow c then adj k c else Some c) of
        None \<Rightarrow> None
      | Some c' \<Rightarrow> map_option (\<lambda>cs'. c' # cs') (adjust_children adj (Suc k) cs))"

text \<open>One run of the \<open>for\<close> loop inside \<open>while change != 0\<close>: \<open>adj\<close> is the recursive call
  and \<open>chk\<close> the call of \<open>layout_resize_check\<close>, on the child with the given index.\<close>

fun adjust_pass :: "(nat \<Rightarrow> layout_cell \<Rightarrow> i32 \<Rightarrow> layout_cell option) \<Rightarrow> (nat \<Rightarrow> layout_cell \<Rightarrow> u32) \<Rightarrow>
    nat \<Rightarrow> layout_cell list \<Rightarrow> i32 \<Rightarrow> (layout_cell list \<times> i32) option" where
  "adjust_pass adj chk k [] change = Some ([], change)"
| "adjust_pass adj chk k (c # cs) change =
     (if change = 0 then Some (c # cs, change)
      else if \<not> in_flow c
      then map_option (\<lambda>(cs', change'). (c # cs', change')) (adjust_pass adj chk (Suc k) cs change)
      else if change > 0
      then (case adj k c 1 of None \<Rightarrow> None
            | Some c' \<Rightarrow> map_option (\<lambda>(cs', change'). (c' # cs', change'))
                           (adjust_pass adj chk (Suc k) cs (change - 1)))
      else if chk k c > 0
      then (case adj k c (- 1) of None \<Rightarrow> None
            | Some c' \<Rightarrow> map_option (\<lambda>(cs', change'). (c' # cs', change'))
                           (adjust_pass adj chk (Suc k) cs (change + 1)))
      else map_option (\<lambda>(cs', change'). (c # cs', change')) (adjust_pass adj chk (Suc k) cs change))"

fun adjust_loop :: "nat \<Rightarrow> (layout_cell list \<Rightarrow> i32 \<Rightarrow> (layout_cell list \<times> i32) option) \<Rightarrow>
    layout_cell list \<Rightarrow> i32 \<Rightarrow> layout_cell list option" where
  "adjust_loop 0 pass cs change = (if change = 0 then Some cs else None)"
| "adjust_loop (Suc n) pass cs change =
     (if change = 0 then Some cs
      else (case pass cs change of None \<Rightarrow> None
            | Some (cs', change') \<Rightarrow> adjust_loop n pass cs' change'))"

primrec adjust_fuel :: "nat \<Rightarrow> window \<Rightarrow> cell_ptr \<Rightarrow> layout_cell \<Rightarrow> layout_type \<Rightarrow> i32 \<Rightarrow> layout_cell option" where
  "adjust_fuel 0 w p c ty change = None"
| "adjust_fuel (Suc n) w p c ty change =
     (let c1 = adjust_size ty change c in
      if cell_type c1 = LAYOUT_WINDOWPANE then Some c1
      else if cell_type c1 \<noteq> ty
      then map_option (Cell (info c1))
             (adjust_children (\<lambda>k d. adjust_fuel n w (k # p) d ty change) 0 (cells c1))
      else if \<not> layout_cell_has_tiled_child c1 then Some c1
      else map_option (Cell (info c1))
             (adjust_loop (nat \<bar>change\<bar>)
               (adjust_pass (\<lambda>k d. adjust_fuel n w (k # p) d ty)
                 (\<lambda>k d. layout_resize_check w (k # p) d ty) 0)
               (cells c1) change))"

fun height :: "layout_cell \<Rightarrow> nat" where
  "height (Cell i cs) = Suc (Max (insert 0 (height ` set cs)))"

definition layout_resize_adjust :: "window \<Rightarrow> cell_ptr \<Rightarrow> layout_cell \<Rightarrow> layout_type \<Rightarrow> i32 \<Rightarrow>
    layout_cell option" where
  "layout_resize_adjust w p c ty change = adjust_fuel (height c) w p c ty change"

section \<open>Vocabulary of the resize lemmas\<close>

text \<open>The size of a cell along and across a direction, and what a change by \<open>d\<close> along \<open>ty\<close>
  must establish.\<close>

definition dim :: "layout_type \<Rightarrow> layout_cell \<Rightarrow> int" where
  "dim ty c = (if ty = LAYOUT_LEFTRIGHT then cell_sx c else cell_sy c)"

definition cross :: "layout_type \<Rightarrow> layout_cell \<Rightarrow> int" where
  "cross ty c = (if ty = LAYOUT_LEFTRIGHT then cell_sy c else cell_sx c)"

definition resized :: "layout_type \<Rightarrow> int \<Rightarrow> layout_cell \<Rightarrow> layout_cell \<Rightarrow> bool" where
  "resized ty d c c' \<longleftrightarrow>
     layout_wf c' \<and> shape c' = shape c \<and> dim ty c' = dim ty c + d \<and> cross ty c' = cross ty c"

definition flow_ok :: "layout_type \<Rightarrow> int \<Rightarrow> layout_cell list \<Rightarrow> bool" where
  "flow_ok ty h cs \<longleftrightarrow> list_all (\<lambda>c. in_flow c \<longrightarrow> cross ty c = h \<and> layout_wf c) cs"

lemma flow_ok_Cons [simp]:
  "flow_ok ty h (c # cs) \<longleftrightarrow> (in_flow c \<longrightarrow> cross ty c = h \<and> layout_wf c) \<and> flow_ok ty h cs"
  by (simp add: flow_ok_def)

lemma flow_ok_Nil [simp]: "flow_ok ty h []"
  by (simp add: flow_ok_def)

lemma wf_dim: "layout_wf c \<Longrightarrow> 1 \<le> dim ty c \<and> dim ty c \<le> i32_MAX \<and> 1 \<le> cross ty c \<and> cross ty c \<le> i32_MAX"
  using layout_wf_bounds [of c] by (auto simp: dim_def cross_def)

lemma dim_cross_flip:
  "ty \<noteq> LAYOUT_WINDOWPANE \<Longrightarrow> ty' \<noteq> LAYOUT_WINDOWPANE \<Longrightarrow> ty \<noteq> ty' \<Longrightarrow> dim ty c = cross ty' c"
  by (cases ty; cases ty') (auto simp: dim_def cross_def)

lemma wf_node_iff:
  assumes "ctype i \<noteq> LAYOUT_WINDOWPANE"
  shows "layout_wf (Cell i cs) \<longleftrightarrow>
    1 \<le> dim (ctype i) (Cell i cs) \<and> dim (ctype i) (Cell i cs) \<le> i32_MAX \<and>
    1 \<le> cross (ctype i) (Cell i cs) \<and> cross (ctype i) (Cell i cs) \<le> i32_MAX \<and>
    list_ex in_flow cs \<and> flow_size (dim (ctype i)) cs = dim (ctype i) (Cell i cs) \<and>
    flow_ok (ctype i) (cross (ctype i) (Cell i cs)) cs"
proof -
  have "dim LAYOUT_LEFTRIGHT = cell_sx" "dim LAYOUT_TOPBOTTOM = cell_sy"
    by (auto simp: dim_def)
  with assms show ?thesis
    by (cases "ctype i") (auto simp: dim_def cross_def flow_ok_def)
qed

lemma wf_leaf_iff:
  "ctype i = LAYOUT_WINDOWPANE \<Longrightarrow> layout_wf (Cell i cs) \<longleftrightarrow>
     cs = [] \<and> 1 \<le> dim ty (Cell i cs) \<and> dim ty (Cell i cs) \<le> i32_MAX \<and>
     1 \<le> cross ty (Cell i cs) \<and> cross ty (Cell i cs) \<le> i32_MAX"
  by (auto simp: dim_def cross_def)

declare layout_wf.simps [simp del]

lemma has_tiled_child_node:
  "ctype i \<noteq> LAYOUT_WINDOWPANE \<Longrightarrow> layout_cell_has_tiled_child (Cell i cs) = list_ex in_flow cs"
  by (simp add: in_flow_def list_ex_iff)

lemma height_shape: "height (shape c) = height c"
proof (induction c)
  case (Cell i cs)
  then have "height ` shape ` set cs = height ` set cs"
    by (auto simp: image_iff)
  then show ?case by simp
qed

lemma height_child: "c \<in> set cs \<Longrightarrow> height (Cell i cs) \<le> Suc n \<Longrightarrow> height c \<le> n"
  by auto

definition low :: "nat \<Rightarrow> layout_cell list \<Rightarrow> bool" where
  "low n cs \<longleftrightarrow> list_all (\<lambda>c. height c \<le> n) cs"

lemma low_simps [simp]: "low n []" "low n (c # cs) \<longleftrightarrow> height c \<le> n \<and> low n cs"
  by (simp_all add: low_def)

lemma low_shape: "map shape cs = map shape ds \<Longrightarrow> low n cs = low n ds"
proof (induction cs arbitrary: ds)
  case (Cons c cs)
  then obtain d ds' where "ds = d # ds'" "shape c = shape d" "map shape cs = map shape ds'"
    by (cases ds) auto
  with Cons.IH [of ds'] show ?case by (metis height_shape low_simps(2))
qed auto

lemma list_ex_flow_shape: "map shape cs = map shape ds \<Longrightarrow> list_ex in_flow cs = list_ex in_flow ds"
proof (induction cs arbitrary: ds)
  case (Cons c cs)
  then obtain d ds' where "ds = d # ds'" "shape c = shape d" "map shape cs = map shape ds'"
    by (cases ds) auto
  with Cons.IH [of ds'] show ?case by (auto dest: in_flow_cong)
qed auto

lemma flow_size_ge: "flow_ok ty h cs \<Longrightarrow> - 1 \<le> flow_size (dim ty') cs"
proof (induction cs)
  case (Cons c cs)
  then show ?case using wf_dim [of c ty'] by (auto simp: flow_size_Cons)
qed simp

section \<open>One change of a cell\<close>

lemma adjust_size_facts [simp]:
  "cells (adjust_size ty d c) = cells c" "cell_type (adjust_size ty d c) = cell_type c"
  "shape (adjust_size ty d c) = shape c" "cross ty (adjust_size ty d c) = cross ty c"
  by (cases c; simp add: adjust_size_def cross_def)+

lemma dim_adjust_size:
  assumes "0 \<le> dim ty c" "dim ty c \<le> i32_MAX" "0 \<le> dim ty c + d" "dim ty c + d \<le> i32_MAX"
  shows "dim ty (adjust_size ty d c) = dim ty c + d"
  using assms by (auto simp: adjust_size_def dim_def i32_MAX_def i32_id u32_id)

lemma dim_cross_cells [simp]:
  "dim ty (Cell (info c) cs) = dim ty c" "cross ty (Cell (info c) cs) = cross ty c"
  by (simp_all add: dim_def cross_def)

lemma shape_Cell_cong:
  "map shape cs = map shape (cells c) \<Longrightarrow> shape (Cell (info c) cs) = shape c"
  by (cases c) simp

section \<open>Growing\<close>

text \<open>What the loops over the children need of the recursive call when a child grows by one.\<close>

locale child_grow =
  fixes n :: nat and ty :: layout_type and adj :: "nat \<Rightarrow> layout_cell \<Rightarrow> i32 \<Rightarrow> layout_cell option"
  assumes grow_one: "in_flow c \<Longrightarrow> layout_wf c \<Longrightarrow> height c \<le> n \<Longrightarrow> dim ty c + 1 \<le> i32_MAX \<Longrightarrow>
      \<exists>c'. adj k c 1 = Some c' \<and> resized ty 1 c c'"
begin

lemma pass_grow:
  "flow_ok ty h cs \<Longrightarrow> low n cs \<Longrightarrow> 0 \<le> change \<Longrightarrow> flow_size (dim ty) cs + change \<le> i32_MAX \<Longrightarrow>
    \<exists>cs' change'. adjust_pass adj chk k cs change = Some (cs', change') \<and>
      map shape cs' = map shape cs \<and> flow_ok ty h cs' \<and>
      flow_size (dim ty) cs' + change' = flow_size (dim ty) cs + change \<and>
      0 \<le> change' \<and> change' \<le> change \<and> (0 < change \<and> list_ex in_flow cs \<longrightarrow> change' < change)"
proof (induction cs arbitrary: k change)
  case (Cons c cs)
  show ?case
  proof (cases "in_flow c \<and> change \<noteq> 0")
    case True
    have rest: "- 1 \<le> flow_size (dim ty) cs" using Cons.prems by (auto intro: flow_size_ge)
    have "dim ty c + 1 \<le> i32_MAX"
      using Cons.prems True rest by (simp add: flow_size_Cons)
    then obtain c' where c': "adj k c 1 = Some c'" "resized ty 1 c c'"
      using grow_one [of c k] Cons.prems True by auto
    obtain cs' change' where cs': "adjust_pass adj chk (Suc k) cs (change - 1) = Some (cs', change')"
      "map shape cs' = map shape cs" "flow_ok ty h cs'"
      "flow_size (dim ty) cs' + change' = flow_size (dim ty) cs + (change - 1)"
      "0 \<le> change'" "change' \<le> change - 1"
      using Cons.IH [of "change - 1" "Suc k"] Cons.prems True wf_dim [of c ty]
      by (auto simp: flow_size_Cons)
    have "in_flow c'" using c' True by (auto simp: resized_def dest: in_flow_cong)
    with c' cs' True Cons.prems show ?thesis
      by (auto simp: flow_size_Cons resized_def)
  next
    case False
    then show ?thesis
      using Cons.IH [of change "Suc k"] Cons.prems by (auto simp: flow_size_Cons)
  qed
qed auto

lemma loop_grow:
  "flow_ok ty h cs \<Longrightarrow> low n cs \<Longrightarrow> 0 \<le> change \<Longrightarrow> flow_size (dim ty) cs + change \<le> i32_MAX \<Longrightarrow>
    list_ex in_flow cs \<Longrightarrow> nat change \<le> m \<Longrightarrow>
    \<exists>cs'. adjust_loop m (adjust_pass adj chk 0) cs change = Some cs' \<and>
      map shape cs' = map shape cs \<and> flow_ok ty h cs' \<and>
      flow_size (dim ty) cs' = flow_size (dim ty) cs + change"
proof (induction m arbitrary: cs change)
  case (Suc m)
  show ?case
  proof (cases "change = 0")
    case False
    obtain cs' change' where cs': "adjust_pass adj chk 0 cs change = Some (cs', change')"
      "map shape cs' = map shape cs" "flow_ok ty h cs'"
      "flow_size (dim ty) cs' + change' = flow_size (dim ty) cs + change" "0 \<le> change'" "change' < change"
      using pass_grow [OF Suc.prems(1-4), of chk 0] Suc.prems(3,5) False by auto
    with Suc.IH [of cs' change'] Suc.prems False show ?thesis
      using low_shape [OF cs'(2)] list_ex_flow_shape [OF cs'(2)] by auto
  qed (use Suc.prems in auto)
qed auto

end

text \<open>The loop over the children that run across: each takes the whole change.\<close>

lemma adjust_children_resized:
  assumes law: "\<And>k c. in_flow c \<Longrightarrow> layout_wf c \<Longrightarrow> height c \<le> n \<Longrightarrow> P k c \<Longrightarrow>
      \<exists>c'. adj k c = Some c' \<and> resized ty d c c'"
    and flip: "\<And>c. dim ty c = cross ty' c" "\<And>c. cross ty c = dim ty' c"
  shows "flow_ok ty' h cs \<Longrightarrow> low n cs \<Longrightarrow> (\<And>j. j < length cs \<Longrightarrow> in_flow (cs ! j) \<Longrightarrow> P (k + j) (cs ! j)) \<Longrightarrow>
    \<exists>cs'. adjust_children adj k cs = Some cs' \<and> map shape cs' = map shape cs \<and>
      flow_ok ty' (h + d) cs' \<and> flow_size (dim ty') cs' = flow_size (dim ty') cs"
proof (induction cs arbitrary: k)
  case (Cons c cs)
  have "P (Suc k + j) (cs ! j)" if "j < length cs" "in_flow (cs ! j)" for j
    using Cons.prems(3) [of "Suc j"] that by simp
  then obtain cs' where cs': "adjust_children adj (Suc k) cs = Some cs'" "map shape cs' = map shape cs"
      "flow_ok ty' (h + d) cs'" "flow_size (dim ty') cs' = flow_size (dim ty') cs"
    using Cons.IH [of "Suc k"] Cons.prems by auto
  show ?case
  proof (cases "in_flow c")
    case True
    then obtain c' where c': "adj k c = Some c'" "resized ty d c c'"
      using law [of c k] Cons.prems(1,2) Cons.prems(3) [of 0] by auto
    then have "in_flow c'" using True by (auto simp: resized_def dest: in_flow_cong)
    with c' cs' True Cons.prems show ?thesis
      by (auto simp: flow_size_Cons resized_def flip)
  qed (use cs' in \<open>auto simp: flow_size_Cons\<close>)
qed auto

text \<open>The three ways a change can succeed, by the type of the cell.\<close>

lemma resized_leaf:
  assumes "layout_wf c" "cell_type c = LAYOUT_WINDOWPANE" "1 \<le> dim ty c + d" "dim ty c + d \<le> i32_MAX"
  shows "resized ty d c (adjust_size ty d c)"
proof -
  have d1: "dim ty (adjust_size ty d c) = dim ty c + d"
    using assms wf_dim [OF assms(1), of ty] by (intro dim_adjust_size) auto
  obtain i cs where c: "adjust_size ty d c = Cell i cs" by (cases "adjust_size ty d c")
  then have "ctype i = LAYOUT_WINDOWPANE" "cs = cells c"
    using assms(2) adjust_size_facts(1,2) [of ty d c] by auto
  moreover have "cells c = []" using assms(1,2) by (cases c) (auto simp: layout_wf.simps)
  ultimately have "layout_wf (adjust_size ty d c)"
    using wf_leaf_iff [of i cs ty] d1 assms wf_dim [OF assms(1), of ty] c by (metis adjust_size_facts(4))
  with d1 show ?thesis by (simp add: resized_def)
qed

lemma resized_same:
  assumes "layout_wf c" "cell_type c = ty" "ty \<noteq> LAYOUT_WINDOWPANE" "1 \<le> dim ty c + d" "dim ty c + d \<le> i32_MAX"
    and "map shape cs' = map shape (cells c)" "flow_ok ty (cross ty c) cs'"
    and "flow_size (dim ty) cs' = flow_size (dim ty) (cells c) + d"
  shows "resized ty d c (Cell (info (adjust_size ty d c)) cs')"
proof -
  let ?c1 = "adjust_size ty d c"
  have d1: "dim ty ?c1 = dim ty c + d"
    using assms wf_dim [OF assms(1), of ty] by (intro dim_adjust_size) auto
  have "flow_size (dim ty) (cells c) = dim ty c" "list_ex in_flow (cells c)"
    using assms(1-3) wf_node_iff [of "info c" "cells c"] by auto
  then have "layout_wf (Cell (info ?c1) cs')"
    using wf_node_iff [of "info ?c1" cs'] assms d1 wf_dim [OF assms(1), of ty]
      list_ex_flow_shape [OF assms(6)] by simp
  moreover have "shape (Cell (info ?c1) cs') = shape c"
    using shape_Cell_cong [of cs' ?c1] assms(6) by simp
  ultimately show ?thesis using d1 by (simp add: resized_def)
qed

lemma resized_other:
  assumes "layout_wf c" "cell_type c \<noteq> ty" "cell_type c \<noteq> LAYOUT_WINDOWPANE" "ty \<noteq> LAYOUT_WINDOWPANE"
    and "1 \<le> dim ty c + d" "dim ty c + d \<le> i32_MAX"
    and "map shape cs' = map shape (cells c)" "flow_ok (cell_type c) (dim ty c + d) cs'"
    and "flow_size (dim (cell_type c)) cs' = flow_size (dim (cell_type c)) (cells c)"
  shows "resized ty d c (Cell (info (adjust_size ty d c)) cs')"
proof -
  let ?c1 = "adjust_size ty d c" and ?t = "cell_type c"
  have d1: "dim ty ?c1 = dim ty c + d"
    using assms wf_dim [OF assms(1), of ty] by (intro dim_adjust_size) auto
  have flip: "dim ty e = cross ?t e" "cross ty e = dim ?t e" for e
    using assms(2-4) dim_cross_flip [of ty ?t e] dim_cross_flip [of ?t ty e] by auto
  have "flow_size (dim ?t) (cells c) = dim ?t c" "list_ex in_flow (cells c)"
    using assms(1-3) wf_node_iff [of "info c" "cells c"] by auto
  moreover have "cross ?t ?c1 = dim ty c + d" "dim ?t ?c1 = dim ?t c"
    using d1 flip adjust_size_facts(4) [of ty d c] by metis+
  ultimately have "layout_wf (Cell (info ?c1) cs')"
    using wf_node_iff [of "info ?c1" cs'] assms wf_dim [OF assms(1), of ?t]
      list_ex_flow_shape [OF assms(7)] by simp
  moreover have "shape (Cell (info ?c1) cs') = shape c"
    using shape_Cell_cong [of cs' ?c1] assms(7) by simp
  ultimately show ?thesis using d1 by (simp add: resized_def)
qed

lemma low_cells: "height c \<le> Suc n \<Longrightarrow> low n (cells c)"
  by (cases c) (auto simp: low_def list_all_iff)

lemma adjust_fuel_grow:
  "height c \<le> n \<Longrightarrow> layout_wf c \<Longrightarrow> ty \<noteq> LAYOUT_WINDOWPANE \<Longrightarrow> 0 \<le> d \<Longrightarrow> dim ty c + d \<le> i32_MAX \<Longrightarrow>
   \<exists>c'. adjust_fuel n w p c ty d = Some c' \<and> resized ty d c c'"
proof (induction n arbitrary: c p d)
  case 0
  then show ?case by (cases c) simp
next
  case (Suc n)
  note low = low_cells [OF Suc.prems(1)] and dims = wf_dim [OF Suc.prems(2), of ty]
  consider (leaf) "cell_type c = LAYOUT_WINDOWPANE" | (same) "cell_type c = ty"
    | (other) "cell_type c \<noteq> LAYOUT_WINDOWPANE" "cell_type c \<noteq> ty" by blast
  then show ?case
  proof cases
    case leaf
    then show ?thesis using resized_leaf [of c ty d] Suc.prems dims by (simp add: Let_def)
  next
    case same
    have law: "child_grow n ty (\<lambda>k e. adjust_fuel n w (k # p) e ty)"
      by (rule child_grow.intro) (use Suc.IH Suc.prems(3) in auto)
    have node: "list_ex in_flow (cells c)" "flow_size (dim ty) (cells c) = dim ty c"
      "flow_ok ty (cross ty c) (cells c)"
      using wf_node_iff [of "info c" "cells c"] same Suc.prems(2,3) by auto
    then obtain cs' where "adjust_loop (nat \<bar>d\<bar>) (adjust_pass (\<lambda>k e. adjust_fuel n w (k # p) e ty)
          (\<lambda>k e. layout_resize_check w (k # p) e ty) 0) (cells c) d = Some cs'"
      "map shape cs' = map shape (cells c)" "flow_ok ty (cross ty c) cs'"
      "flow_size (dim ty) cs' = flow_size (dim ty) (cells c) + d"
      using child_grow.loop_grow [OF law, of "cross ty c" "cells c" d "nat \<bar>d\<bar>"] low Suc.prems(4,5)
      by auto
    moreover have "layout_cell_has_tiled_child (adjust_size ty d c)"
      using has_tiled_child_node [of "info (adjust_size ty d c)" "cells c"] node same Suc.prems(3)
      by (metis adjust_size_facts(1,2) layout_cell.collapse)
    ultimately show ?thesis
      using resized_same [of c ty d cs'] same Suc.prems dims by (auto simp: Let_def)
  next
    case other
    let ?t = "cell_type c"
    have flip: "dim ty e = cross ?t e" "cross ty e = dim ?t e" for e
      using other Suc.prems(3) dim_cross_flip [of ty ?t e] dim_cross_flip [of ?t ty e] by auto
    have node: "flow_ok ?t (dim ty c) (cells c)"
      using wf_node_iff [of "info c" "cells c"] other Suc.prems(2) flip by auto
    then have "dim ty (cells c ! j) + d \<le> i32_MAX" if "j < length (cells c)" "in_flow (cells c ! j)" for j
      using that Suc.prems(5) flip by (auto simp: flow_ok_def list_all_length)
    then obtain cs' where "adjust_children (\<lambda>k e. adjust_fuel n w (k # p) e ty d) 0 (cells c) = Some cs'"
      "map shape cs' = map shape (cells c)" "flow_ok ?t (dim ty c + d) cs'"
      "flow_size (dim ?t) cs' = flow_size (dim ?t) (cells c)"
      using adjust_children_resized [where n = n and P = "\<lambda>k e. dim ty e + d \<le> i32_MAX" and ty = ty
          and d = d and k = 0 and adj = "\<lambda>k e. adjust_fuel n w (k # p) e ty d", OF _ flip node low] Suc.IH Suc.prems(3,4) by auto
    then show ?thesis
      using resized_other [of c ty d cs'] other Suc.prems dims by (auto simp: Let_def)
  qed
qed

section \<open>Facts on the available space\<close>

text \<open>\<open>style_set_scrollbar_style_from_option\<close> leaves a width and a padding that are not negative.\<close>

definition window_ok :: "window \<Rightarrow> bool" where
  "window_ok w \<longleftrightarrow> 0 \<le> sb_width w \<and> sb_width w \<le> i32_MAX \<and> 0 \<le> sb_pad w \<and> sb_pad w \<le> i32_MAX"

text \<open>A layout with no floating cell below its root.\<close>

fun all_flow :: "layout_cell \<Rightarrow> bool" where
  "all_flow (Cell i cs) \<longleftrightarrow> list_all (\<lambda>c. in_flow c \<and> all_flow c) cs"

definition all_flow_list :: "layout_cell list \<Rightarrow> bool" where
  "all_flow_list cs \<longleftrightarrow> list_all (\<lambda>c. in_flow c \<and> all_flow c) cs"

lemma all_flow_list_simps [simp]:
  "all_flow_list []" "all_flow_list (c # cs) \<longleftrightarrow> in_flow c \<and> all_flow c \<and> all_flow_list cs"
  by (simp_all add: all_flow_list_def)

lemma all_flow_cells: "all_flow c \<longleftrightarrow> all_flow_list (cells c)"
  by (cases c) (simp add: all_flow_list_def)

lemma all_flow_shape: "all_flow (shape c) = all_flow c"
  by (induction c) (auto simp: list_all_iff in_flow_shape)

lemma all_flow_cong: "shape c = shape d \<Longrightarrow> all_flow c = all_flow d"
  by (metis all_flow_shape)

lemma all_flow_list_cong: "map shape cs = map shape ds \<Longrightarrow> all_flow_list cs = all_flow_list ds"
proof (induction cs arbitrary: ds)
  case (Cons c cs)
  then obtain d ds' where "ds = d # ds'" "shape c = shape d" "map shape cs = map shape ds'"
    by (cases ds) auto
  with Cons.IH [of ds'] show ?case by (auto dest: in_flow_cong all_flow_cong)
qed auto

lemma pane_minimum_ge: "window_ok w \<Longrightarrow> 1 \<le> pane_minimum w p ty"
  by (auto simp: pane_minimum_def window_ok_def PANE_MINIMUM_def i32_MAX_def u32_id)

lemma fold_u32_sum:
  "list_all (\<lambda>a. 0 \<le> a) xs \<Longrightarrow> 0 \<le> s \<Longrightarrow> s + sum_list xs < 4294967296 \<Longrightarrow>
    fold (\<lambda>a available. u32 (available + a)) xs s = s + sum_list xs"
proof (induction xs arbitrary: s)
  case (Cons x xs)
  then have "0 \<le> sum_list xs" by (auto simp: list_all_iff intro: sum_list_nonneg)
  with Cons show ?case by (simp add: u32_id)
qed simp

abbreviation fold_min :: "int list \<Rightarrow> int \<Rightarrow> int" where
  "fold_min xs m \<equiv> fold (\<lambda>a minimum. if a < minimum then a else minimum) xs m"

lemma fold_min_ge: "d \<le> fold_min xs m \<longleftrightarrow> d \<le> m \<and> list_all (\<lambda>a. d \<le> a) xs"
proof (induction xs arbitrary: m)
  case (Cons a xs)
  show ?case
  proof (cases "a < m")
    case True
    with Cons.IH [of a] show ?thesis by simp linarith
  qed (use Cons.IH [of m] in auto)
qed simp

lemma fold_min_shift: "fold_min (map (\<lambda>a. a - d) xs) (m - d) = fold_min xs m - d"
  by (induction xs arbitrary: m) auto

lemma fold_min_shift_MAX:
  assumes "xs \<noteq> []" "list_all (\<lambda>a. a \<le> m) xs" "0 \<le> d"
  shows "fold_min (map (\<lambda>a. a - d) xs) m = fold_min xs m - d"
proof (cases xs)
  case (Cons x ys)
  then show ?thesis using assms fold_min_shift [of d ys x] by auto
qed (use assms in simp)

lemma resize_check_nonneg: "0 \<le> layout_resize_check w p c ty"
  and resize_checks_nonneg: "list_all (\<lambda>a. 0 \<le> a) (resize_checks w p k cs ty)"
proof (induction w p c ty and w p k cs ty rule: layout_resize_check_resize_checks.induct)
  case (1 w p i cs ty)
  have "0 \<le> fold (\<lambda>a available. u32 (available + a)) xs s" if "0 \<le> s" for xs s
    using that by (induction xs arbitrary: s) auto
  moreover have "0 \<le> fold_min (resize_checks w p 0 cs ty) u32_MAX"
    if "list_all (\<lambda>a. 0 \<le> a) (resize_checks w p 0 cs ty)"
    using that by (simp add: fold_min_ge u32_MAX_def)
  ultimately show ?case using 1 by (auto simp: Let_def)
qed auto

lemma length_resize_checks [simp]: "length (resize_checks w p k cs ty) = length cs"
  by (induction cs arbitrary: k) auto

lemma resize_check_le:
    "window_ok w \<Longrightarrow> ty \<noteq> LAYOUT_WINDOWPANE \<Longrightarrow> layout_wf c \<Longrightarrow> all_flow c \<Longrightarrow>
      layout_resize_check w p c ty \<le> dim ty c - 1"
  and resize_checks_le:
    "window_ok w \<Longrightarrow> ty \<noteq> LAYOUT_WINDOWPANE \<Longrightarrow> list_all layout_wf cs \<Longrightarrow> all_flow_list cs \<Longrightarrow>
      list_all2 (\<lambda>a c. a \<le> dim ty c - 1) (resize_checks w p k cs ty) cs \<and>
      sum_list (resize_checks w p k cs ty) \<le> flow_size (dim ty) cs + 1 - 2 * int (length cs)"
proof (induction w p c ty and w p k cs ty rule: layout_resize_check_resize_checks.induct)
  case (1 w p i cs ty)
  show ?case
  proof (cases "ctype i = LAYOUT_WINDOWPANE")
    case True
    with 1 show ?thesis
      using pane_minimum_ge [of w p ty] wf_dim [of "Cell i cs" ty] by (auto simp: Let_def dim_def)
  next
    case False
    have fl: "all_flow_list cs" using 1 by (simp add: all_flow_list_def)
    then have wf: "list_all layout_wf cs" and ne: "cs \<noteq> []"
      using 1 False wf_node_iff [of i cs] by (auto simp: flow_ok_def all_flow_list_def list_all_iff)
    show ?thesis
    proof (cases "ctype i = ty")
      case True
      then have "sum_list (resize_checks w p 0 cs ty) \<le> dim ty (Cell i cs) + 1 - 2 * int (length cs)"
        using 1 False fl wf wf_node_iff [of i cs] by auto
      moreover have "1 \<le> int (length cs)" using ne by (cases cs) auto
      ultimately show ?thesis
        using True False fold_u32_sum [OF resize_checks_nonneg, of 0 w p 0 cs ty] 1 wf_dim [of "Cell i cs" ty]
        by (auto simp: i32_MAX_def)
    next
      case other: False
      from ne obtain c cs' where cs: "cs = c # cs'" by (cases cs) auto
      have flip: "dim ty e = cross (ctype i) e" for e
        using other False 1 dim_cross_flip [of ty "ctype i" e] by auto
      have "dim ty c = dim ty (Cell i cs)"
        using 1 False fl cs flip wf_node_iff [of i cs] by (auto simp: flow_ok_def)
      moreover have "layout_resize_check w (0 # p) c ty \<le> dim ty c - 1"
        using 1 False other fl wf cs by auto
      moreover have "fold_min (resize_checks w p 0 cs ty) u32_MAX \<le> layout_resize_check w (0 # p) c ty"
        using fold_min_ge [of "fold_min (resize_checks w p 0 cs ty) u32_MAX" "resize_checks w p 0 cs ty" u32_MAX]
        by (simp add: cs)
      ultimately show ?thesis using other False by simp
    qed
  qed
next
  case (3 w p k c cs ty)
  then show ?case by (auto simp: flow_size_Cons)
qed auto

section \<open>Shrinking\<close>

fun sum_checks :: "(nat \<Rightarrow> layout_cell \<Rightarrow> int) \<Rightarrow> nat \<Rightarrow> layout_cell list \<Rightarrow> int" where
  "sum_checks chk k [] = 0"
| "sum_checks chk k (c # cs) = chk k c + sum_checks chk (Suc k) cs"

lemma sum_resize_checks:
  "sum_list (resize_checks w p k cs ty) = sum_checks (\<lambda>k c. layout_resize_check w (k # p) c ty) k cs"
  by (induction cs arbitrary: k) auto

locale child_shrink =
  fixes n :: nat and ty :: layout_type and adj :: "nat \<Rightarrow> layout_cell \<Rightarrow> i32 \<Rightarrow> layout_cell option"
    and chk :: "nat \<Rightarrow> layout_cell \<Rightarrow> u32"
  assumes chk_nonneg: "0 \<le> chk k c"
    and shrink_one: "in_flow c \<Longrightarrow> all_flow c \<Longrightarrow> layout_wf c \<Longrightarrow> height c \<le> n \<Longrightarrow> 0 < chk k c \<Longrightarrow>
      \<exists>c'. adj k c (- 1) = Some c' \<and> resized ty (- 1) c c' \<and> chk k c' = chk k c - 1"
begin

lemma sum_nonneg: "0 \<le> sum_checks chk k cs"
  by (induction cs arbitrary: k) (auto simp: chk_nonneg add_nonneg_nonneg)

lemma pass_shrink:
  "flow_ok ty h cs \<Longrightarrow> all_flow_list cs \<Longrightarrow> low n cs \<Longrightarrow> change \<le> 0 \<Longrightarrow>
    \<exists>cs' change'. adjust_pass adj chk k cs change = Some (cs', change') \<and>
      map shape cs' = map shape cs \<and> flow_ok ty h cs' \<and>
      flow_size (dim ty) cs' + change' = flow_size (dim ty) cs + change \<and>
      sum_checks chk k cs' + change' = sum_checks chk k cs + change \<and>
      change \<le> change' \<and> change' \<le> 0 \<and> (change < 0 \<and> 0 < sum_checks chk k cs \<longrightarrow> change < change')"
proof (induction cs arbitrary: k change)
  case (Cons c cs)
  show ?case
  proof (cases "0 < chk k c \<and> change \<noteq> 0")
    case True
    obtain c' where c': "adj k c (- 1) = Some c'" "resized ty (- 1) c c'" "chk k c' = chk k c - 1"
      using shrink_one [of c k] Cons.prems True by auto
    obtain cs' change' where cs': "adjust_pass adj chk (Suc k) cs (change + 1) = Some (cs', change')"
      "map shape cs' = map shape cs" "flow_ok ty h cs'"
      "flow_size (dim ty) cs' + change' = flow_size (dim ty) cs + (change + 1)"
      "sum_checks chk (Suc k) cs' + change' = sum_checks chk (Suc k) cs + (change + 1)"
      "change + 1 \<le> change'" "change' \<le> 0"
      using Cons.IH [of "change + 1" "Suc k"] Cons.prems True by auto
    have "in_flow c'" "change < 0"
      using c' Cons.prems True by (auto simp: resized_def dest: in_flow_cong)
    with c' cs' True Cons.prems show ?thesis
      by (auto simp: flow_size_Cons resized_def)
  next
    case False
    then have "change = 0 \<or> chk k c = 0" using chk_nonneg [of k c] by auto
    then show ?thesis
      using Cons.IH [of change "Suc k"] Cons.prems by (auto simp: flow_size_Cons)
  qed
qed auto

lemma loop_shrink:
  "flow_ok ty h cs \<Longrightarrow> all_flow_list cs \<Longrightarrow> low n cs \<Longrightarrow> change \<le> 0 \<Longrightarrow>
    - change \<le> sum_checks chk 0 cs \<Longrightarrow> nat (- change) \<le> m \<Longrightarrow>
    \<exists>cs'. adjust_loop m (adjust_pass adj chk 0) cs change = Some cs' \<and>
      map shape cs' = map shape cs \<and> flow_ok ty h cs' \<and>
      flow_size (dim ty) cs' = flow_size (dim ty) cs + change \<and>
      sum_checks chk 0 cs' = sum_checks chk 0 cs + change"
proof (induction m arbitrary: cs change)
  case (Suc m)
  show ?case
  proof (cases "change = 0")
    case False
    obtain cs' change' where cs': "adjust_pass adj chk 0 cs change = Some (cs', change')"
      "map shape cs' = map shape cs" "flow_ok ty h cs'"
      "flow_size (dim ty) cs' + change' = flow_size (dim ty) cs + change"
      "sum_checks chk 0 cs' + change' = sum_checks chk 0 cs + change" "change < change'" "change' \<le> 0"
      using pass_shrink [OF Suc.prems(1-4), of 0] Suc.prems(4,5) False by auto
    moreover have "nat (- change') \<le> m" using cs'(6) Suc.prems(6) by linarith
    ultimately show ?thesis
      using Suc.IH [of cs' change'] Suc.prems False low_shape [OF cs'(2)] all_flow_list_cong [OF cs'(2)]
      by auto
  qed (use Suc.prems in auto)
qed auto

end

lemma adjust_children_checks:
  assumes law: "\<And>k c. in_flow c \<Longrightarrow> layout_wf c \<Longrightarrow> all_flow c \<Longrightarrow> height c \<le> n \<Longrightarrow> d \<le> layout_resize_check w (k # p) c ty \<Longrightarrow>
      \<exists>c'. adj k c = Some c' \<and> layout_resize_check w (k # p) c' ty = layout_resize_check w (k # p) c ty - d"
  shows "flow_ok ty' h cs \<Longrightarrow> all_flow_list cs \<Longrightarrow> low n cs \<Longrightarrow>
    list_all (\<lambda>a. d \<le> a) (resize_checks w p k cs ty) \<Longrightarrow> adjust_children adj k cs = Some cs' \<Longrightarrow>
    resize_checks w p k cs' ty = map (\<lambda>a. a - d) (resize_checks w p k cs ty)"
proof (induction cs arbitrary: k cs')
  case (Cons c cs)
  then show ?case
    using law [of c k] by (fastforce split: option.splits)
qed auto

text \<open>The sum the code computes with wrap-around is the true sum.\<close>

lemma resize_check_same:
  assumes "window_ok w" "ty \<noteq> LAYOUT_WINDOWPANE" "layout_wf c" "all_flow c" "cell_type c = ty"
  shows "layout_resize_check w p c ty = sum_checks (\<lambda>k e. layout_resize_check w (k # p) e ty) 0 (cells c)"
proof -
  obtain i cs where c: "c = Cell i cs" by (cases c)
  have fl: "all_flow_list cs" using assms(4) c all_flow_cells [of c] by simp
  have "list_all layout_wf cs" "flow_size (dim ty) cs = dim ty c"
    using assms fl c wf_node_iff [of i cs] by (auto simp: flow_ok_def all_flow_list_def list_all_iff)
  then have "sum_list (resize_checks w p 0 cs ty) \<le> dim ty c + 1"
    using resize_checks_le [OF assms(1,2) _ fl, of p 0] by auto
  then have "fold (\<lambda>a available. u32 (available + a)) (resize_checks w p 0 cs ty) 0
      = sum_list (resize_checks w p 0 cs ty)"
    using fold_u32_sum [OF resize_checks_nonneg, of 0 w p 0 cs ty] wf_dim [OF assms(3), of ty]
    by (auto simp: i32_MAX_def)
  with assms(2,5) c show ?thesis by (simp add: sum_resize_checks)
qed

lemma resize_check_other:
  assumes "cell_type c \<noteq> LAYOUT_WINDOWPANE" "cell_type c \<noteq> ty"
  shows "layout_resize_check w p c ty = fold_min (resize_checks w p 0 (cells c) ty) u32_MAX"
  using assms by (cases c) simp

lemma nth_resize_checks:
  "j < length cs \<Longrightarrow> resize_checks w p k cs ty ! j = layout_resize_check w ((k + j) # p) (cs ! j) ty"
proof (induction cs arbitrary: j k)
  case (Cons c cs)
  then show ?case by (cases j) auto
qed simp

lemma resize_checks_MAX:
  assumes "window_ok w" "ty \<noteq> LAYOUT_WINDOWPANE" "flow_ok ty' h cs" "all_flow_list cs"
  shows "list_all (\<lambda>a. a \<le> u32_MAX) (resize_checks w p k cs ty)"
proof -
  have wf: "list_all layout_wf cs"
    using assms(3,4) by (auto simp: flow_ok_def all_flow_list_def list_all_iff)
  then have "list_all2 (\<lambda>a c. a \<le> dim ty c - 1) (resize_checks w p k cs ty) cs"
    using resize_checks_le [OF assms(1,2) _ assms(4)] by blast
  moreover have "dim ty (cs ! j) \<le> i32_MAX" if "j < length cs" for j
    using wf that wf_dim [of "cs ! j" ty] by (auto simp: list_all_length)
  ultimately show ?thesis
    by (fastforce simp: list_all_length list_all2_conv_all_nth u32_MAX_def i32_MAX_def)
qed

lemma adjust_fuel_shrink:
  assumes w: "window_ok w" "ty \<noteq> LAYOUT_WINDOWPANE"
  shows "height c \<le> n \<Longrightarrow> layout_wf c \<Longrightarrow> all_flow c \<Longrightarrow> 0 \<le> d \<Longrightarrow> d \<le> layout_resize_check w p c ty \<Longrightarrow>
   \<exists>c'. adjust_fuel n w p c ty (- d) = Some c' \<and> resized ty (- d) c c' \<and>
     layout_resize_check w p c' ty = layout_resize_check w p c ty - d"
proof (induction n arbitrary: c p d)
  case 0
  then show ?case by (cases c) simp
next
  case (Suc n)
  note low = low_cells [OF Suc.prems(1)] and dims = wf_dim [OF Suc.prems(2), of ty]
  have fl: "all_flow_list (cells c)" using Suc.prems(3) all_flow_cells by blast
  have le: "d \<le> dim ty c - 1"
    using resize_check_le [OF w Suc.prems(2,3), of p] Suc.prems(5) by linarith
  consider (leaf) "cell_type c = LAYOUT_WINDOWPANE" | (same) "cell_type c = ty"
    | (other) "cell_type c \<noteq> LAYOUT_WINDOWPANE" "cell_type c \<noteq> ty" by blast
  then show ?case
  proof cases
    case leaf
    then have "resized ty (- d) c (adjust_size ty (- d) c)"
      using Suc.prems(2,4) le dims by (intro resized_leaf) auto
    moreover have "layout_resize_check w p (adjust_size ty (- d) c) ty = layout_resize_check w p c ty - d"
      using leaf Suc.prems(4,5) calculation w(2)
      by (cases c; cases ty) (auto simp: Let_def adjust_size_def resized_def dim_def split: if_splits)
    ultimately show ?thesis using leaf by (simp add: Let_def)
  next
    case same
    let ?chk = "\<lambda>k e. layout_resize_check w (k # p) e ty"
    have law: "child_shrink n ty (\<lambda>k e. adjust_fuel n w (k # p) e ty) ?chk"
      by (rule child_shrink.intro) (use Suc.IH [where d = 1] resize_check_nonneg in auto)
    have node: "list_ex in_flow (cells c)" "flow_ok ty (cross ty c) (cells c)"
      using wf_node_iff [of "info c" "cells c"] same Suc.prems(2) w(2) by auto
    note chk = resize_check_same [OF w]
    obtain cs' where cs': "adjust_loop (nat \<bar>- d\<bar>) (adjust_pass (\<lambda>k e. adjust_fuel n w (k # p) e ty) ?chk 0)
        (cells c) (- d) = Some cs'" "map shape cs' = map shape (cells c)" "flow_ok ty (cross ty c) cs'"
      "flow_size (dim ty) cs' = flow_size (dim ty) (cells c) + - d"
      "sum_checks ?chk 0 cs' = sum_checks ?chk 0 (cells c) + - d"
      using child_shrink.loop_shrink [OF law node(2) fl low, of "- d" "nat \<bar>- d\<bar>"]
        Suc.prems(4,5) chk [OF Suc.prems(2,3) same, of p] by auto
    let ?c' = "Cell (info (adjust_size ty (- d) c)) cs'"
    have r: "resized ty (- d) c ?c'"
      using resized_same [of c ty "- d" cs'] same w Suc.prems cs' dims le by simp
    then have "layout_wf ?c'" "all_flow ?c'" "cell_type ?c' = ty"
      using fl same all_flow_list_cong [OF cs'(2)] all_flow_cells [of ?c'] by (auto simp: resized_def)
    then have "layout_resize_check w p ?c' ty = layout_resize_check w p c ty - d"
      using chk [of ?c' p] chk [OF Suc.prems(2,3) same, of p] cs'(5) by simp
    moreover have "layout_cell_has_tiled_child (adjust_size ty (- d) c)"
      using has_tiled_child_node [of "info (adjust_size ty (- d) c)" "cells c"] node same w(2)
      by (metis adjust_size_facts(1,2) layout_cell.collapse)
    ultimately show ?thesis using r cs'(1) same w(2) by (auto simp: Let_def)
  next
    case other
    let ?t = "cell_type c" and ?adj = "\<lambda>k e. adjust_fuel n w (k # p) e ty (- d)"
    note chk = resize_check_other [OF other, of w p]
    have flip: "dim ty e = cross ?t e" "cross ty e = dim ?t e" for e
      using other w(2) dim_cross_flip [of ty ?t e] dim_cross_flip [of ?t ty e] by auto
    have node: "flow_ok ?t (dim ty c) (cells c)" "cells c \<noteq> []"
      using wf_node_iff [of "info c" "cells c"] other Suc.prems(2) flip by auto
    have ge: "list_all (\<lambda>a. d \<le> a) (resize_checks w p 0 (cells c) ty)"
      using Suc.prems(5) chk by (simp add: fold_min_ge)
    let ?P = "\<lambda>k e. d \<le> layout_resize_check w (k # p) e ty \<and> all_flow e"
    have P: "?P (0 + j) (cells c ! j)" if "j < length (cells c)" for j
      using ge fl that by (auto simp: list_all_length nth_resize_checks all_flow_list_def)
    have law: "\<exists>e'. ?adj k e = Some e' \<and> resized ty (- d) e e'"
      if "layout_wf e" "height e \<le> n" "?P k e" for k e
      using Suc.IH [of e d "k # p"] Suc.prems(4) that by blast
    obtain cs' where cs': "adjust_children ?adj 0 (cells c) = Some cs'" "map shape cs' = map shape (cells c)"
        "flow_ok ?t (dim ty c + - d) cs'" "flow_size (dim ?t) cs' = flow_size (dim ?t) (cells c)"
      using adjust_children_resized [where n = n and P = ?P and ty = ty and d = "- d" and k = 0
          and adj = ?adj, OF law flip node(1) low P] by auto
    let ?c' = "Cell (info (adjust_size ty (- d) c)) cs'"
    have r: "resized ty (- d) c ?c'"
      using resized_other [of c ty "- d" cs'] other w Suc.prems cs' dims le by simp
    have "resize_checks w p 0 cs' ty = map (\<lambda>a. a - d) (resize_checks w p 0 (cells c) ty)"
      using Suc.IH Suc.prems(4) by (intro adjust_children_checks [OF _ node(1) fl low ge cs'(1)]) blast
    moreover have "resize_checks w p 0 (cells c) ty \<noteq> []" using node(2) by (cases "cells c") auto
    ultimately have "layout_resize_check w p ?c' ty = layout_resize_check w p c ty - d"
      using resize_check_other [of ?c' ty w p] chk other Suc.prems(4)
        fold_min_shift_MAX [OF _ resize_checks_MAX [OF w node(1) fl, of p 0], of d] by simp
    with r cs'(1) other show ?thesis by (auto simp: Let_def)
  qed
qed

text \<open>Both contracts hold of the recursive call of \<open>layout_resize_adjust\<close>, for every depth and
  every cell of every window.\<close>

interpretation grow_lr: child_grow n LAYOUT_LEFTRIGHT "\<lambda>k d. adjust_fuel n w (k # p) d LAYOUT_LEFTRIGHT"
  for n w p
  by unfold_locales (rule adjust_fuel_grow, auto)

interpretation grow_tb: child_grow n LAYOUT_TOPBOTTOM "\<lambda>k d. adjust_fuel n w (k # p) d LAYOUT_TOPBOTTOM"
  for n w p
  by unfold_locales (rule adjust_fuel_grow, auto)

lemma shrink_contract:
  assumes "window_ok w" "ty \<noteq> LAYOUT_WINDOWPANE"
  shows "child_shrink n ty (\<lambda>k d. adjust_fuel n w (k # p) d ty) (\<lambda>k d. layout_resize_check w (k # p) d ty)"
proof
  show "0 \<le> layout_resize_check w (k # p) c ty" for k c
    by (rule resize_check_nonneg)
  show "\<exists>c'. adjust_fuel n w (k # p) c ty (- 1) = Some c' \<and> resized ty (- 1) c c' \<and>
      layout_resize_check w (k # p) c' ty = layout_resize_check w (k # p) c ty - 1"
    if "layout_wf c" "all_flow c" "height c \<le> n" "0 < layout_resize_check w (k # p) c ty" for k c
    using adjust_fuel_shrink [OF assms, of c n 1 "k # p"] that by auto
qed

text \<open>The end of \<open>style_set_scrollbar_style_from_option\<close> (\<open>style.rs\<close>) on the two \<open>i32\<close> fields.\<close>

definition scrollbar_defaults :: "window \<Rightarrow> window" where
  "scrollbar_defaults w =
     w\<lparr>sb_width := (if i32 (sb_width w) < 1 then 1 else i32 (sb_width w)),
       sb_pad := (if i32 (sb_pad w) < 0 then 0 else i32 (sb_pad w))\<rparr>"

lemma scrollbar_defaults_ok: "window_ok (scrollbar_defaults w)"
proof -
  have "i32 x \<le> 2147483647" for x
    unfolding i32_def using pos_mod_bound [of 4294967296 "x + 2147483648"] by linarith
  then show ?thesis by (simp add: window_ok_def scrollbar_defaults_def i32_MAX_def)
qed

interpretation shrink_lr: child_shrink n LAYOUT_LEFTRIGHT
    "\<lambda>k d. adjust_fuel n (scrollbar_defaults w) (k # p) d LAYOUT_LEFTRIGHT"
    "\<lambda>k d. layout_resize_check (scrollbar_defaults w) (k # p) d LAYOUT_LEFTRIGHT"
  for n w p
  by (rule shrink_contract) (simp_all add: scrollbar_defaults_ok)

interpretation shrink_tb: child_shrink n LAYOUT_TOPBOTTOM
    "\<lambda>k d. adjust_fuel n (scrollbar_defaults w) (k # p) d LAYOUT_TOPBOTTOM"
    "\<lambda>k d. layout_resize_check (scrollbar_defaults w) (k # p) d LAYOUT_TOPBOTTOM"
  for n w p
  by (rule shrink_contract) (simp_all add: scrollbar_defaults_ok)

section \<open>The bounds of the model lose nothing\<close>

lemma adjust_pass_range:
  "adjust_pass adj chk k cs change = Some (cs', change') \<Longrightarrow>
     (change' = change \<longrightarrow> cs' = cs) \<and> (0 \<le> change \<longrightarrow> 0 \<le> change' \<and> change' \<le> change) \<and>
     (change \<le> 0 \<longrightarrow> change \<le> change' \<and> change' \<le> 0)"
proof (induction cs arbitrary: k change cs' change')
  case (Cons c cs)
  then show ?case
    by (fastforce split: if_splits option.splits)
qed auto

lemma adjust_loop_stuck:
  "change \<noteq> 0 \<Longrightarrow> pass cs change = Some (cs, change) \<Longrightarrow> adjust_loop m pass cs change = None"
  by (induction m) auto

lemma adjust_loop_enough:
  "nat \<bar>change\<bar> \<le> m \<Longrightarrow> adjust_loop m (adjust_pass adj chk 0) cs change
     = adjust_loop (nat \<bar>change\<bar>) (adjust_pass adj chk 0) cs change"
proof (induction "nat \<bar>change\<bar>" arbitrary: change cs m rule: less_induct)
  case less
  let ?pass = "adjust_pass adj chk 0"
  show ?case
  proof (cases "change = 0")
    case True
    then show ?thesis by (cases m) auto
  next
    case False
    then obtain m' b where m: "m = Suc m'" and b: "nat \<bar>change\<bar> = Suc b"
      using less.prems by (cases m; cases "nat \<bar>change\<bar>") auto
    show ?thesis
    proof (cases "?pass cs change")
      case (Some r)
      obtain cs' change' where r: "r = (cs', change')" by (cases r)
      with Some have range: "change' = change \<longrightarrow> cs' = cs" "0 \<le> change \<longrightarrow> 0 \<le> change' \<and> change' \<le> change"
        "change \<le> 0 \<longrightarrow> change \<le> change' \<and> change' \<le> 0"
        using adjust_pass_range [of adj chk 0 cs change cs' change'] by auto
      show ?thesis
      proof (cases "change' = change")
        case True
        with Some r range False show ?thesis by (simp add: adjust_loop_stuck)
      next
        case lt: False
        then have "nat \<bar>change'\<bar> < nat \<bar>change\<bar>" using range by linarith
        with less.hyps [of change' m' cs'] less.hyps [of change' b cs'] Some r m b less.prems show ?thesis
          by (simp only: b) auto
      qed
    qed (simp add: m b)
  qed
qed

text \<open>Adjusting changes one of the two sizes of the cells and nothing else.  \<open>strip g\<close> applies
  \<open>g\<close> to every cell of a tree; \<open>blind ty g\<close> says that \<open>g\<close> forgets the size along \<open>ty\<close>.\<close>

fun strip :: "(cell_info \<Rightarrow> cell_info) \<Rightarrow> layout_cell \<Rightarrow> layout_cell" where
  "strip g (Cell i cs) = Cell (g i) (map (strip g) cs)"

definition blind :: "layout_type \<Rightarrow> (cell_info \<Rightarrow> cell_info) \<Rightarrow> bool" where
  "blind ty g \<longleftrightarrow> (\<forall>i a. if ty = LAYOUT_LEFTRIGHT then g (i\<lparr>sx := a\<rparr>) = g i else g (i\<lparr>sy := a\<rparr>) = g i)"

definition keeps :: "(cell_info \<Rightarrow> cell_info) \<Rightarrow> (layout_cell \<Rightarrow> layout_cell option) \<Rightarrow> bool" where
  "keeps g f \<longleftrightarrow> (\<forall>c c'. f c = Some c' \<longrightarrow> strip g c' = strip g c)"

lemma strip_adjust_size: "blind ty g \<Longrightarrow> strip g (adjust_size ty d c) = strip g c"
  by (cases c) (auto simp: blind_def adjust_size_def)

lemma strip_Cell_cong: "map (strip g) cs = map (strip g) (cells c) \<Longrightarrow> strip g (Cell (info c) cs) = strip g c"
  by (cases c) simp

lemma adjust_children_keeps:
  assumes "\<And>k. keeps g (adj k)"
  shows "adjust_children adj k cs = Some cs' \<Longrightarrow> map (strip g) cs' = map (strip g) cs"
  using assms
  by (induction cs arbitrary: k cs') (auto simp: keeps_def split: option.splits if_splits)

lemma adjust_pass_keeps:
  assumes "\<And>k d. keeps g (\<lambda>c. adj k c d)"
  shows "adjust_pass adj chk k cs change = Some (cs', change') \<Longrightarrow> map (strip g) cs' = map (strip g) cs"
proof (induction cs arbitrary: k change cs' change')
  case (Cons c cs)
  have sh: "strip g c' = strip g c" if "adj k c d = Some c'" for d c'
    using assms that by (auto simp: keeps_def)
  from Cons.prems Cons.IH show ?case
    by (auto split: option.splits if_splits dest!: sh)
qed auto

lemma adjust_loop_keeps:
  assumes "\<And>k d. keeps g (\<lambda>c. adj k c d)"
  shows "adjust_loop m (adjust_pass adj chk 0) cs change = Some cs' \<Longrightarrow> map (strip g) cs' = map (strip g) cs"
proof (induction m arbitrary: cs change)
  case (Suc m)
  then show ?case
    by (auto split: option.splits if_splits dest: adjust_pass_keeps [OF assms])
qed (auto split: if_splits)

lemma adjust_fuel_keeps:
  assumes "blind ty g"
  shows "keeps g (\<lambda>c. adjust_fuel n w p c ty d)"
proof (induction n arbitrary: p d)
  case 0
  then show ?case by (simp add: keeps_def)
next
  case (Suc n)
  let ?c1 = "adjust_size ty d"
  have c1: "strip g (Cell (info (?c1 c)) cs') = strip g c" if "map (strip g) cs' = map (strip g) (cells c)" for c cs'
    using that strip_Cell_cong [of g cs' "?c1 c"] strip_adjust_size [OF assms, of d c] by simp
  have "strip g (Cell (info (?c1 c)) cs') = strip g c"
    if "adjust_children (\<lambda>k e. adjust_fuel n w (k # p) e ty d) 0 (cells c) = Some cs'" for c cs'
    using adjust_children_keeps [OF Suc.IH that] c1 by blast
  moreover have "strip g (Cell (info (?c1 c)) cs') = strip g c"
    if "adjust_loop m (adjust_pass (\<lambda>k e. adjust_fuel n w (k # p) e ty) chk 0) (cells c) d = Some cs'"
    for m chk c cs'
    using adjust_loop_keeps [OF Suc.IH that] c1 by blast
  ultimately show ?case
    using strip_adjust_size [OF assms]
    by (auto simp: keeps_def Let_def split: if_splits simp del: strip.simps)
qed

definition no_geometry :: "cell_info \<Rightarrow> cell_info" where
  "no_geometry i = i\<lparr>sx := 0, sy := 0, xoff := 0, yoff := 0\<rparr>"

lemma shape_strip: "shape = strip no_geometry"
proof
  show "shape c = strip no_geometry c" for c
    by (induction c) (auto simp: no_geometry_def)
qed

lemma blind_no_geometry: "blind ty no_geometry"
  by (auto simp: blind_def no_geometry_def)

lemma adjust_fuel_shape: "adjust_fuel n w p c ty d = Some c' \<Longrightarrow> shape c' = shape c"
  using adjust_fuel_keeps [OF blind_no_geometry] by (auto simp: keeps_def shape_strip)

lemma adjust_children_cong:
  assumes "\<And>k c. height c \<le> n \<Longrightarrow> f k c = g k c"
  shows "low n cs \<Longrightarrow> adjust_children f k cs = adjust_children g k cs"
  by (induction cs arbitrary: k) (auto simp: assms split: option.splits)

lemma adjust_pass_cong:
  assumes "\<And>k c d. height c \<le> n \<Longrightarrow> f k c d = g k c d"
  shows "low n cs \<Longrightarrow> adjust_pass f chk k cs change = adjust_pass g chk k cs change"
  by (induction cs arbitrary: k change) (auto simp: assms split: option.splits)

lemma adjust_loop_cong:
  assumes eq: "\<And>k c d. height c \<le> n \<Longrightarrow> f k c d = g k c d" and "\<And>k d. keeps no_geometry (\<lambda>c. g k c d)"
  shows "low n cs \<Longrightarrow>
    adjust_loop m (adjust_pass f chk 0) cs change = adjust_loop m (adjust_pass g chk 0) cs change"
proof (induction m arbitrary: cs change)
  case (Suc m)
  have "low n cs'" if "adjust_pass g chk 0 cs change = Some (cs', change')" for cs' change'
    using adjust_pass_keeps [OF assms(2) that] Suc.prems low_shape shape_strip by metis
  moreover have "adjust_pass f chk 0 cs change = adjust_pass g chk 0 cs change"
    by (intro adjust_pass_cong [of n]) (auto intro: eq Suc.prems)
  ultimately show ?case using Suc.IH by (auto split: option.splits)
qed simp

lemma adjust_fuel_cong:
  "height c \<le> n \<Longrightarrow> height c \<le> m \<Longrightarrow> adjust_fuel n w p c ty d = adjust_fuel m w p c ty d"
proof (induction n arbitrary: m p c d)
  case 0
  then show ?case by (cases c) simp
next
  case (Suc n)
  obtain m' where m: "m = Suc m'" using Suc.prems(2) by (cases m; cases c) auto
  let ?k = "min n m'"
  have low: "low ?k (cells c)" using Suc.prems m low_cells [of c ?k] by auto
  have eq: "adjust_fuel n w q e ty d' = adjust_fuel m' w q e ty d'" if "height e \<le> ?k" for q e d'
    using Suc.IH [of e m'] that by auto
  have "adjust_children (\<lambda>k e. adjust_fuel n w (k # p) e ty d) 0 (cells c)
      = adjust_children (\<lambda>k e. adjust_fuel m' w (k # p) e ty d) 0 (cells c)"
    using low by (intro adjust_children_cong [of ?k]) (auto intro: eq)
  moreover have "adjust_loop b (adjust_pass (\<lambda>k e. adjust_fuel n w (k # p) e ty) chk 0) (cells c) d
      = adjust_loop b (adjust_pass (\<lambda>k e. adjust_fuel m' w (k # p) e ty) chk 0) (cells c) d" for b chk
    using low by (intro adjust_loop_cong [of ?k]) (auto intro: eq adjust_fuel_keeps blind_no_geometry)
  ultimately show ?case by (simp add: m Let_def)
qed

lemma adjust_fuel_enough:
  "height c \<le> n \<Longrightarrow> adjust_fuel n w p c ty d = layout_resize_adjust w p c ty d"
  unfolding layout_resize_adjust_def by (rule adjust_fuel_cong) auto

end
