(* ===== verification/Layout_Window.thy ===== *)
theory Layout_Window
  imports Layout_Panes Layout_Resize
begin

text \<open>
  The resize operations on whole windows (\<open>layout.rs\<close>): \<open>layout_init\<close>, \<open>layout_resize\<close> after the
  window changed size, and \<open>layout_resize_layout\<close>, \<open>layout_resize_pane\<close> and
  \<open>layout_resize_pane_to\<close>, which move a border inside the window, with the floating variants.

  A result \<^const>\<open>None\<close> means that the code gives none: the \<open>while\<close> loop of
  \<open>layout_resize_adjust\<close> does not end, or a null cell is dereferenced.  \<open>inset\<close> and \<open>in_mode\<close>
  are handed on to \<open>layout_fix_panes\<close>; the \<open>window-layout-changed\<close> notification is not modelled.
\<close>

declare layout_wf.simps [simp del]

section \<open>Operations\<close>

definition layout_init :: "window \<Rightarrow> u32 \<Rightarrow> (window_pane \<Rightarrow> bool) \<Rightarrow> nat \<Rightarrow> window" where
  "layout_init w inset in_mode wp =
     layout_fix_panes
       (w\<lparr>layout_root := layout_make_leaf (layout_set_size layout_create_cell (w_sx w) (w_sy w) 0 0) wp\<rparr>)
       inset in_mode None"

text \<open>One axis of \<open>layout_resize\<close>: the change, clamped to the space that can be given up.\<close>

definition resize_change :: "u32 \<Rightarrow> u32 \<Rightarrow> i32 \<Rightarrow> i32" where
  "resize_change sz cur limit =
     (let change = i32 (i32 sz - i32 cur);
          change1 = (if change < 0 \<and> change < i32 (- limit) then i32 (- limit) else change)
      in if limit = 0 then (if sz \<le> cur then 0 else i32 (i32 sz - i32 cur)) else change1)"

definition resize_axis :: "window \<Rightarrow> layout_type \<Rightarrow> u32 \<Rightarrow> window option" where
  "resize_axis w ty sz =
     (let lc = layout_root w;
          cur = (if ty = LAYOUT_LEFTRIGHT then cell_sx lc else cell_sy lc);
          change = resize_change sz cur (i32 (layout_resize_check w [] lc ty))
      in if change \<noteq> 0
         then map_option (\<lambda>lc'. w\<lparr>layout_root := lc'\<rparr>) (layout_resize_adjust w [] lc ty change)
         else Some w)"

definition layout_resize :: "window \<Rightarrow> u32 \<Rightarrow> (window_pane \<Rightarrow> bool) \<Rightarrow> u32 \<Rightarrow> u32 \<Rightarrow> window option" where
  "layout_resize w inset in_mode nsx nsy =
     (case resize_axis w LAYOUT_LEFTRIGHT nsx of
        None \<Rightarrow> None
      | Some w1 \<Rightarrow>
          (case resize_axis w1 LAYOUT_TOPBOTTOM nsy of
             None \<Rightarrow> None
           | Some w2 \<Rightarrow> Some (layout_fix_panes (layout_fix_offsets w2) inset in_mode None)))"

text \<open>\<open>layout_resize_check\<close> and \<open>layout_resize_adjust\<close> on the cell at a pointer, and the siblings
  that \<open>tailq_next\<close> and \<open>tailq_prev\<close> reach from it, nearest first.\<close>

definition check_at :: "window \<Rightarrow> cell_ptr \<Rightarrow> layout_type \<Rightarrow> u32" where
  "check_at w p ty =
     (case cell_at (layout_root w) p of None \<Rightarrow> 0 | Some c \<Rightarrow> layout_resize_check w p c ty)"

definition resize_at :: "window \<Rightarrow> cell_ptr \<Rightarrow> layout_type \<Rightarrow> i32 \<Rightarrow> window option" where
  "resize_at w p ty change =
     (case cell_at (layout_root w) p of
        None \<Rightarrow> None
      | Some c \<Rightarrow> map_option (\<lambda>c'. w\<lparr>layout_root := update_at (layout_root w) p (\<lambda>_. c')\<rparr>)
                    (layout_resize_adjust w p c ty change))"

definition sibling_count :: "layout_cell \<Rightarrow> cell_ptr \<Rightarrow> nat" where
  "sibling_count root q = (case cell_at root q of None \<Rightarrow> 0 | Some c \<Rightarrow> length (cells c))"

fun next_siblings :: "layout_cell \<Rightarrow> cell_ptr \<Rightarrow> cell_ptr list" where
  "next_siblings root [] = []"
| "next_siblings root (j # q) = map (\<lambda>k. k # q) [Suc j ..< sibling_count root q]"

fun prev_siblings :: "cell_ptr \<Rightarrow> cell_ptr list" where
  "prev_siblings [] = []"
| "prev_siblings (j # q) = map (\<lambda>k. k # q) (rev [0 ..< j])"

text \<open>Take \<open>sz\<close> from the cell at \<open>r\<close> and give it to the cell at \<open>a\<close>; the result carries the
  amount, as the \<open>c_int\<close> the code returns.\<close>

definition move_size :: "window \<Rightarrow> cell_ptr \<Rightarrow> cell_ptr \<Rightarrow> layout_type \<Rightarrow> u32 \<Rightarrow> (window \<times> i32) option" where
  "move_size w a r ty sz =
     (case resize_at w a ty (i32 sz) of
        None \<Rightarrow> None
      | Some w1 \<Rightarrow> map_option (\<lambda>w2. (w2, i32 sz)) (resize_at w1 r ty (i32 (- i32 sz))))"

definition layout_resize_pane_grow :: "window \<Rightarrow> cell_ptr \<Rightarrow> layout_type \<Rightarrow> i32 \<Rightarrow> bool \<Rightarrow>
    (window \<times> i32) option" where
  "layout_resize_pane_grow w p ty needed opposite =
     (let tail = find (\<lambda>r. check_at w r ty > 0) (next_siblings (layout_root w) p);
          lcremove = (if opposite \<and> tail = None
                      then find (\<lambda>r. check_at w r ty > 0) (prev_siblings p) else tail)
      in case lcremove of
           None \<Rightarrow> Some (w, 0)
         | Some r \<Rightarrow>
             (let sz = check_at w r ty;
                  size1 = (if sz > u32 needed then u32 needed else sz)
              in move_size w p r ty size1))"

definition layout_resize_pane_shrink :: "window \<Rightarrow> cell_ptr \<Rightarrow> layout_type \<Rightarrow> i32 \<Rightarrow>
    (window \<times> i32) option" where
  "layout_resize_pane_shrink w p ty needed =
     (case find (\<lambda>r. check_at w r ty \<noteq> 0) (p # prev_siblings p) of
        None \<Rightarrow> Some (w, 0)
      | Some r \<Rightarrow>
          (case next_siblings (layout_root w) p of
             [] \<Rightarrow> Some (w, 0)
           | a # _ \<Rightarrow>
               (let sz = check_at w r ty;
                    size1 = (if sz > u32 (i32 (- needed)) then u32 (i32 (- needed)) else sz)
                in move_size w a r ty size1)))"

text \<open>The loop of \<open>layout_resize_layout\<close>.  Each round uses up at least one unit of what is needed
  or ends the loop, so the size of the change bounds the number of rounds.\<close>

fun resize_rounds :: "nat \<Rightarrow> window \<Rightarrow> cell_ptr \<Rightarrow> layout_type \<Rightarrow> i32 \<Rightarrow> i32 \<Rightarrow> bool \<Rightarrow> window option" where
  "resize_rounds 0 w p ty change needed opposite = (if needed = 0 then Some w else None)"
| "resize_rounds (Suc n) w p ty change needed opposite =
     (if needed = 0 then Some w
      else if change > 0
      then (case layout_resize_pane_grow w p ty needed opposite of
              None \<Rightarrow> None
            | Some (w1, sz) \<Rightarrow>
                if sz = 0 then Some w1
                else resize_rounds n w1 p ty change (i32 (needed - sz)) opposite)
      else (case layout_resize_pane_shrink w p ty needed of
              None \<Rightarrow> None
            | Some (w1, sz) \<Rightarrow>
                if sz = 0 then Some w1
                else resize_rounds n w1 p ty change (i32 (needed + sz)) opposite))"

definition layout_resize_layout :: "window \<Rightarrow> u32 \<Rightarrow> (window_pane \<Rightarrow> bool) \<Rightarrow> cell_ptr \<Rightarrow> layout_type \<Rightarrow>
    i32 \<Rightarrow> bool \<Rightarrow> window option" where
  "layout_resize_layout w inset in_mode p ty change opposite =
     map_option (\<lambda>w1. layout_fix_panes (layout_fix_offsets w1) inset in_mode None)
       (resize_rounds (nat \<bar>change\<bar>) w p ty change change opposite)"

text \<open>The walk to the next ancestor whose parent has the given type.\<close>

fun find_parent_type :: "layout_cell \<Rightarrow> layout_type \<Rightarrow> cell_ptr \<Rightarrow> cell_ptr option" where
  "find_parent_type root ty [] = None"
| "find_parent_type root ty (j # q) =
     (if map_option cell_type (cell_at root q) = Some ty then Some (j # q)
      else find_parent_type root ty q)"

text \<open>\<open>w\<close> unchanged when there is no such parent; \<^const>\<open>None\<close> when the cell is the only child,
  since the code then goes on with the null pointer that \<open>tailq_prev\<close> gave it.\<close>

definition layout_resize_pane :: "window \<Rightarrow> u32 \<Rightarrow> (window_pane \<Rightarrow> bool) \<Rightarrow> cell_ptr \<Rightarrow> layout_type \<Rightarrow>
    i32 \<Rightarrow> bool \<Rightarrow> window option" where
  "layout_resize_pane w inset in_mode p ty change opposite =
     (case find_parent_type (layout_root w) ty p of
        Some (j # q) \<Rightarrow>
          (if Suc j = sibling_count (layout_root w) q
           then (case j of
                   0 \<Rightarrow> None
                 | Suc j' \<Rightarrow> layout_resize_layout w inset in_mode (j' # q) ty change opposite)
           else layout_resize_layout w inset in_mode (j # q) ty change opposite)
      | _ \<Rightarrow> Some w)"

definition layout_resize_pane_to :: "window \<Rightarrow> u32 \<Rightarrow> (window_pane \<Rightarrow> bool) \<Rightarrow> cell_ptr \<Rightarrow> layout_type \<Rightarrow>
    u32 \<Rightarrow> window option" where
  "layout_resize_pane_to w inset in_mode p ty new_size =
     (case find_parent_type (layout_root w) ty p of
        Some (j # q) \<Rightarrow>
          (case cell_at (layout_root w) (j # q) of
             None \<Rightarrow> None
           | Some lc \<Rightarrow>
               (let sz = (if ty = LAYOUT_LEFTRIGHT then cell_sx lc else cell_sy lc);
                    change = (if Suc j = sibling_count (layout_root w) q
                              then i32 (i32 sz - i32 new_size) else i32 (i32 new_size - i32 sz))
                in layout_resize_pane w inset in_mode p ty change True))
      | _ \<Rightarrow> Some w)"

text \<open>Floating panes are resized on their own.  \<open>lines_none\<close> says that the pane is drawn without
  border lines; the messages are the \<open>cause\<close> strings.\<close>

definition layout_resize_floating_pane_to :: "layout_cell \<Rightarrow> bool \<Rightarrow> layout_type \<Rightarrow> u32 \<Rightarrow>
    string + layout_cell" where
  "layout_resize_floating_pane_to lc lines_none ty sz =
     (if \<not> cell_floating lc then Inl ''pane is not floating''
      else (let size1 = (if \<not> lines_none \<and> sz \<ge> PANE_MINIMUM + 2 then sz - 2 else sz) in
        if \<not> (PANE_MINIMUM \<le> size1 \<and> size1 \<le> PANE_MAXIMUM) then Inl ''size is too big or too small''
        else if ty = LAYOUT_TOPBOTTOM then Inr (map_info (\<lambda>i. i\<lparr>sy := size1\<rparr>) lc)
        else Inr (map_info (\<lambda>i. i\<lparr>sx := size1\<rparr>) lc)))"

definition layout_resize_floating_pane :: "layout_cell \<Rightarrow> layout_type \<Rightarrow> i32 \<Rightarrow> bool \<Rightarrow>
    string + layout_cell" where
  "layout_resize_floating_pane lc ty change opposite =
     (if \<not> cell_floating lc then Inl ''pane is not floating''
      else if change = 0 then Inr lc
      else if ty = LAYOUT_TOPBOTTOM
      then (let sz = i32 (i32 (cell_sy lc) + change) in
        if sz < PANE_MINIMUM \<or> sz > PANE_MAXIMUM then Inl ''change is too big or too small''
        else Inr (map_info (\<lambda>i. i\<lparr>sy := u32 sz,
               yoff := (if opposite then i32 (u32 (i32 (yoff i - change))) else yoff i)\<rparr>) lc))
      else (let sz = i32 (i32 (cell_sx lc) + change) in
        if sz < PANE_MINIMUM \<or> sz > PANE_MAXIMUM then Inl ''change is too big or too small''
        else Inr (map_info (\<lambda>i. i\<lparr>sx := u32 sz,
               xoff := (if opposite then i32 (u32 (i32 (xoff i - change))) else xoff i)\<rparr>) lc)))"


section \<open>What the available space depends on\<close>

definition same_view :: "window \<Rightarrow> window \<Rightarrow> bool" where
  "same_view w w' \<longleftrightarrow> sb w = sb w' \<and> sb_width w = sb_width w' \<and> sb_pad w = sb_pad w' \<and>
     border_status w = border_status w' \<and> shape (layout_root w) = shape (layout_root w')"

lemma same_view_root [simp]: "shape r = shape (layout_root w) \<Longrightarrow> same_view (w\<lparr>layout_root := r\<rparr>) w"
  by (simp add: same_view_def)

lemma pane_minimum_view: "same_view w w' \<Longrightarrow> pane_minimum w = pane_minimum w'"
  by (intro ext) (simp add: same_view_def pane_minimum_def add_border_cong [of w w'])

lemma resize_check_view: "same_view w w' \<Longrightarrow> layout_resize_check w p c ty = layout_resize_check w' p c ty"
  and resize_checks_view: "same_view w w' \<Longrightarrow> resize_checks w p k cs ty = resize_checks w' p k cs ty"
  by (induction w p c ty and w p k cs ty rule: layout_resize_check_resize_checks.induct)
     (simp_all add: pane_minimum_view [of _ w'])

lemma adjust_fuel_view: "same_view w w' \<Longrightarrow> adjust_fuel n w p c ty d = adjust_fuel n w' p c ty d"
proof (induction n arbitrary: p c d)
  case (Suc n)
  have "adjust_fuel n w q e ty = adjust_fuel n w' q e ty"
    "layout_resize_check w q e ty = layout_resize_check w' q e ty" for q e
    using Suc by (auto simp: fun_eq_iff resize_check_view [of w w'])
  then show ?case by (simp add: Let_def)
qed simp

text \<open>The space along one direction does not depend on the sizes across it.\<close>

definition no_dim :: "layout_type \<Rightarrow> cell_info \<Rightarrow> cell_info" where
  "no_dim ty i = (if ty = LAYOUT_LEFTRIGHT then i\<lparr>sx := 0\<rparr> else i\<lparr>sy := 0\<rparr>)"

lemma blind_no_dim: "blind ty (no_dim ty)"
  by (simp add: blind_def no_dim_def)

lemma resize_check_strip:
    "(ty = LAYOUT_LEFTRIGHT) \<noteq> (ty' = LAYOUT_LEFTRIGHT) \<Longrightarrow>
      layout_resize_check w p (strip (no_dim ty') c) ty = layout_resize_check w p c ty"
  and resize_checks_strip:
    "(ty = LAYOUT_LEFTRIGHT) \<noteq> (ty' = LAYOUT_LEFTRIGHT) \<Longrightarrow>
      resize_checks w p k (map (strip (no_dim ty')) cs) ty = resize_checks w p k cs ty"
proof (induction w p c ty and w p k cs ty rule: layout_resize_check_resize_checks.induct)
  case (1 w p i cs ty)
  have "ctype (no_dim ty' i) = ctype i" "ty = LAYOUT_LEFTRIGHT \<Longrightarrow> sx (no_dim ty' i) = sx i"
    "ty \<noteq> LAYOUT_LEFTRIGHT \<Longrightarrow> sy (no_dim ty' i) = sy i"
    using 1(3) by (auto simp: no_dim_def)
  with 1 show ?case by (cases "ctype i = LAYOUT_WINDOWPANE"; cases "ctype i = ty") auto
qed simp_all

section \<open>Resizing the window\<close>

lemma resize_axis_spec:
  assumes w: "window_ok w" "ty \<noteq> LAYOUT_WINDOWPANE" and r: "layout_wf (layout_root w)" "all_flow (layout_root w)"
    and sz: "1 \<le> sz" "sz \<le> i32_MAX"
  defines "t \<equiv> max sz (dim ty (layout_root w) - layout_resize_check w [] (layout_root w) ty)"
  shows "\<exists>r. resize_axis w ty sz = Some (w\<lparr>layout_root := r\<rparr>) \<and>
    resized ty (t - dim ty (layout_root w)) (layout_root w) r \<and>
    strip (no_dim ty) r = strip (no_dim ty) (layout_root w)"
proof -
  let ?lc = "layout_root w" and ?lim = "layout_resize_check w [] (layout_root w) ty"
  let ?d = "t - dim ty (layout_root w)"
  have lim: "0 \<le> ?lim" "?lim \<le> dim ty ?lc - 1"
    using resize_check_nonneg resize_check_le [OF w r] by auto
  note dims = wf_dim [OF r(1), of ty]
  have change: "resize_change sz (dim ty ?lc) (i32 ?lim) = ?d"
    using lim dims sz by (auto simp: resize_change_def Let_def t_def i32_id i32_MAX_def)
  show ?thesis
  proof (cases "?d = 0")
    case True
    moreover have "w = w\<lparr>layout_root := ?lc\<rparr>" by simp
    moreover have "resized ty 0 ?lc ?lc" using r by (simp add: resized_def)
    moreover have "resize_axis w ty sz = Some w"
      using True change by (auto simp: resize_axis_def Let_def dim_def split: if_splits)
    ultimately show ?thesis by metis
  next
    case False
    have "\<exists>r. layout_resize_adjust w [] ?lc ty ?d = Some r \<and> resized ty ?d ?lc r"
    proof (cases "0 \<le> ?d")
      case True
      then show ?thesis
        using adjust_fuel_grow [of ?lc "height ?lc" ty ?d w "[]"] r w sz dims lim
        by (auto simp: layout_resize_adjust_def t_def)
    next
      case neg: False
      then have "- ?d \<le> ?lim" "0 \<le> - ?d" by (auto simp: t_def)
      then show ?thesis
        using adjust_fuel_shrink [OF w order_refl r, of "- ?d" "[]"] by (auto simp: layout_resize_adjust_def)
    qed
    moreover have "strip (no_dim ty) r' = strip (no_dim ty) ?lc"
      if "layout_resize_adjust w [] ?lc ty ?d = Some r'" for r'
      using adjust_fuel_keeps [OF blind_no_dim] that by (auto simp: keeps_def layout_resize_adjust_def)
    moreover have "resize_axis w ty sz = map_option (\<lambda>lc'. w\<lparr>layout_root := lc'\<rparr>) (layout_resize_adjust w [] ?lc ty ?d)"
      using change False by (simp add: resize_axis_def Let_def dim_def split: if_splits)
    ultimately show ?thesis by auto
  qed
qed

lemma layout_resize_spec:
  assumes w: "window_ok w" and r: "layout_wf (layout_root w)" "all_flow (layout_root w)"
    and sz: "1 \<le> nsx" "nsx \<le> i32_MAX" "1 \<le> nsy" "nsy \<le> i32_MAX"
  shows "\<exists>w1. layout_resize w inset in_mode nsx nsy = Some (refresh_panes w1 inset in_mode) \<and>
    layout_wf (layout_root w1) \<and> panes w1 = panes w \<and> shape (layout_root w1) = shape (layout_root w) \<and>
    cell_sx (layout_root w1) = max nsx (cell_sx (layout_root w) - layout_resize_check w [] (layout_root w) LAYOUT_LEFTRIGHT) \<and>
    cell_sy (layout_root w1) = max nsy (cell_sy (layout_root w) - layout_resize_check w [] (layout_root w) LAYOUT_TOPBOTTOM)"
proof -
  obtain r1 where r1: "resize_axis w LAYOUT_LEFTRIGHT nsx = Some (w\<lparr>layout_root := r1\<rparr>)"
    "resized LAYOUT_LEFTRIGHT (max nsx (dim LAYOUT_LEFTRIGHT (layout_root w) -
       layout_resize_check w [] (layout_root w) LAYOUT_LEFTRIGHT) - dim LAYOUT_LEFTRIGHT (layout_root w)) (layout_root w) r1"
    "strip (no_dim LAYOUT_LEFTRIGHT) r1 = strip (no_dim LAYOUT_LEFTRIGHT) (layout_root w)"
    using resize_axis_spec [OF w _ r sz(1,2), of LAYOUT_LEFTRIGHT] by auto
  let ?w1 = "w\<lparr>layout_root := r1\<rparr>"
  have sh: "layout_wf r1" "shape r1 = shape (layout_root w)" using r1(2) by (auto simp: resized_def)
  have chk: "layout_resize_check ?w1 [] r1 LAYOUT_TOPBOTTOM = layout_resize_check w [] (layout_root w) LAYOUT_TOPBOTTOM"
    using resize_check_strip [of LAYOUT_TOPBOTTOM LAYOUT_LEFTRIGHT w "[]"] r1(3) sh(2)
      resize_check_view [of ?w1 w "[]" r1 LAYOUT_TOPBOTTOM] by (metis layout_type.distinct(1) same_view_root)
  obtain r2 where r2: "resize_axis ?w1 LAYOUT_TOPBOTTOM nsy = Some (w\<lparr>layout_root := r2\<rparr>)"
    "resized LAYOUT_TOPBOTTOM (max nsy (dim LAYOUT_TOPBOTTOM r1 -
       layout_resize_check ?w1 [] r1 LAYOUT_TOPBOTTOM) - dim LAYOUT_TOPBOTTOM r1) r1 r2"
    using resize_axis_spec [of ?w1 LAYOUT_TOPBOTTOM nsy] w sh all_flow_cong [OF sh(2)] r sz(3,4)
    by (auto simp: window_ok_def)
  have "cell_sx r2 = max nsx (cell_sx (layout_root w) - layout_resize_check w [] (layout_root w) LAYOUT_LEFTRIGHT)"
    "cell_sy r2 = max nsy (cell_sy (layout_root w) - layout_resize_check w [] (layout_root w) LAYOUT_TOPBOTTOM)"
    using r1(2) r2(2) chk by (auto simp: resized_def dim_def cross_def)
  with r1 r2 sh show ?thesis
    by (intro exI [of _ "w\<lparr>layout_root := r2\<rparr>"]) (simp add: layout_resize_def resized_def refresh_panes_def)
qed


section \<open>Moving space between siblings\<close>

lemma flow_size_update:
  "k < length cs \<Longrightarrow> in_flow (cs ! k) \<Longrightarrow> in_flow c' \<Longrightarrow>
     flow_size f (cs[k := c']) = flow_size f cs + f c' - f (cs ! k)"
proof (induction cs arbitrary: k)
  case (Cons c cs)
  then show ?case by (cases k) (auto simp: flow_size_Cons)
qed simp

lemma flow_ok_update: "flow_ok ty h cs \<Longrightarrow> cross ty c' = h \<Longrightarrow> layout_wf c' \<Longrightarrow> flow_ok ty h (cs[k := c'])"
  by (auto simp: flow_ok_def list_all_iff dest!: set_update_subset_insert [THEN subsetD])

lemma map_shape_update: "shape c' = shape (cs ! k) \<Longrightarrow> map shape (cs[k := c']) = map shape cs"
  by (metis list_update_id map_update)

text \<open>Two trees with the same cells and the same outer size; \<open>c'\<close> may stand in the place of \<open>c\<close>.\<close>

definition replaces :: "layout_cell \<Rightarrow> layout_cell \<Rightarrow> bool" where
  "replaces c' c \<longleftrightarrow> layout_wf c' \<and> shape c' = shape c \<and> cell_sx c' = cell_sx c \<and> cell_sy c' = cell_sy c"

lemma replaces_dim: "replaces c' c \<Longrightarrow> dim ty c' = dim ty c \<and> cross ty c' = cross ty c"
  by (simp add: replaces_def dim_def cross_def)

lemma all_flow_child: "all_flow c \<Longrightarrow> k < length (cells c) \<Longrightarrow> in_flow (cells c ! k) \<and> all_flow (cells c ! k)"
  by (cases c) (auto simp: list_all_length)

lemma wf_node:
  "layout_wf c \<Longrightarrow> k < length (cells c) \<Longrightarrow> cell_type c \<noteq> LAYOUT_WINDOWPANE"
  by (cases c) (auto simp: layout_wf.simps split: layout_type.splits)

lemma wf_child:
  assumes "layout_wf c" "all_flow c" "k < length (cells c)"
  shows "layout_wf (cells c ! k)" "cross (cell_type c) (cells c ! k) = cross (cell_type c) c"
  using wf_node_iff [of "info c" "cells c"] wf_node [OF assms(1,3)] all_flow_child [OF assms(2,3)] assms(1,3)
  by (auto simp: flow_ok_def list_all_length)

text \<open>Children may be exchanged as long as they fill the parent.\<close>

lemma replaces_children:
  assumes "layout_wf c" "all_flow c" "k < length (cells c)" "map shape cs' = map shape (cells c)"
    "flow_ok (cell_type c) (cross (cell_type c) c) cs'"
    "flow_size (dim (cell_type c)) cs' = flow_size (dim (cell_type c)) (cells c)"
  shows "replaces (Cell (info c) cs') c"
proof -
  have n: "cell_type c \<noteq> LAYOUT_WINDOWPANE" using wf_node assms(1,3) by blast
  have "layout_wf (Cell (info c) cs')"
    using wf_node_iff [of "info c" cs'] wf_node_iff [of "info c" "cells c"] n assms
      list_ex_flow_shape [OF assms(4)] by auto
  then show ?thesis using assms(4) shape_Cell_cong by (auto simp: replaces_def)
qed

lemma replaces_child:
  assumes "layout_wf c" "all_flow c" "k < length (cells c)" "replaces d (cells c ! k)"
  shows "replaces (Cell (info c) ((cells c)[k := d])) c"
proof -
  have f: "in_flow (cells c ! k)" "in_flow d"
    using all_flow_child [OF assms(2,3)] assms(4) by (auto simp: replaces_def dest: in_flow_cong)
  have n: "cell_type c \<noteq> LAYOUT_WINDOWPANE" using wf_node assms(1,3) by blast
  then have "flow_ok (cell_type c) (cross (cell_type c) c) (cells c)"
    using wf_node_iff [of "info c" "cells c"] assms(1) by auto
  then show ?thesis
    using assms f wf_child [OF assms(1-3)] replaces_dim [OF assms(4), of "cell_type c"]
    by (intro replaces_children [OF assms(1-3)])
       (auto simp: map_shape_update replaces_def flow_size_update intro!: flow_ok_update)
qed

lemma update_at_Cons:
  "update_at root (j # q) f = update_at root q (\<lambda>c. Cell (info c)
     (if j < length (cells c) then (cells c)[j := f (cells c ! j)] else cells c))"
proof -
  have "update_down (xs @ [j]) f c = update_down xs (\<lambda>c. Cell (info c)
     (if j < length (cells c) then (cells c)[j := f (cells c ! j)] else cells c)) c" for xs c
    by (induction xs arbitrary: c) auto
  then show ?thesis by (simp add: update_at_def)
qed

lemma update_at_Nil [simp]: "update_at root [] f = f root"
  by (simp add: update_at_def)

lemma cell_at_update: "cell_at root q = Some c \<Longrightarrow> cell_at (update_at root q f) q = Some (f c)"
proof (induction q arbitrary: c f)
  case (Cons j q)
  then show ?case by (auto simp: update_at_Cons split: option.splits if_splits)
qed simp

lemma update_at_cong: "cell_at root q = Some c \<Longrightarrow> f c = g c \<Longrightarrow> update_at root q f = update_at root q g"
proof (induction q arbitrary: c f g)
  case (Cons j q)
  then obtain d where d: "cell_at root q = Some d" "j < length (cells d)" "c = cells d ! j"
    by (auto split: option.splits if_splits)
  show ?case unfolding update_at_Cons by (rule Cons.IH [OF d(1)]) (use d Cons.prems(2) in simp)
qed simp

lemma update_at_twice: "cell_at root q = Some c \<Longrightarrow> update_at (update_at root q f) q g = update_at root q (\<lambda>c. g (f c))"
proof (induction q arbitrary: c f g)
  case (Cons j q)
  then obtain d where d: "cell_at root q = Some d" "j < length (cells d)" "c = cells d ! j"
    by (auto split: option.splits if_splits)
  show ?case unfolding update_at_Cons
    by (subst Cons.IH [OF d(1)], rule update_at_cong [OF d(1)]) (use d in simp)
qed simp

lemma wf_cell_at: "layout_wf root \<Longrightarrow> all_flow root \<Longrightarrow> cell_at root q = Some c \<Longrightarrow> layout_wf c \<and> all_flow c"
proof (induction q arbitrary: c)
  case (Cons j q)
  then show ?case using wf_child(1) all_flow_child by (fastforce split: option.splits if_splits)
qed simp

lemma replaces_update:
  "layout_wf root \<Longrightarrow> all_flow root \<Longrightarrow> cell_at root q = Some c \<Longrightarrow> replaces d c \<Longrightarrow>
     replaces (update_at root q (\<lambda>_. d)) root"
proof (induction q arbitrary: c d)
  case (Cons j q)
  then obtain e where e: "cell_at root q = Some e" "j < length (cells e)" "c = cells e ! j"
    by (auto split: option.splits if_splits)
  let ?e = "Cell (info e) ((cells e)[j := d])"
  have "replaces ?e e"
    using wf_cell_at [OF Cons.prems(1,2) e(1)] e Cons.prems(4) by (intro replaces_child) auto
  then have "replaces (update_at root q (\<lambda>_. ?e)) root" using Cons.IH Cons.prems e(1) by blast
  moreover have "update_at root (j # q) (\<lambda>_. d) = update_at root q (\<lambda>_. ?e)"
    unfolding update_at_Cons by (rule update_at_cong [OF e(1)]) (use e in simp)
  ultimately show ?case by simp
qed simp


lemma shape_update:
  "cell_at root q = Some c \<Longrightarrow> shape d = shape c \<Longrightarrow> shape (update_at root q (\<lambda>_. d)) = shape root"
proof (induction q arbitrary: c d)
  case (Cons j q)
  then obtain e where e: "cell_at root q = Some e" "j < length (cells e)" "c = cells e ! j"
    by (auto split: option.splits if_splits)
  have "update_at root (j # q) (\<lambda>_. d) = update_at root q (\<lambda>_. Cell (info e) ((cells e)[j := d]))"
    unfolding update_at_Cons by (rule update_at_cong [OF e(1)]) (use e in simp)
  then show ?case
    using Cons.IH [OF e(1)] shape_Cell_cong [OF map_shape_update] Cons.prems(2) e(3) by metis
qed simp

lemma flow_size_elem:
  "flow_ok ty h cs \<Longrightarrow> j < length cs \<Longrightarrow> in_flow (cs ! j) \<Longrightarrow> dim ty (cs ! j) \<le> flow_size (dim ty) cs"
proof (induction cs arbitrary: j)
  case (Cons c cs)
  show ?case
  proof (cases j)
    case 0
    then show ?thesis using Cons.prems flow_size_ge [of ty h cs ty] by (auto simp: flow_size_Cons)
  next
    case (Suc i)
    then show ?thesis using Cons wf_dim [of c ty] by (fastforce simp: flow_size_Cons)
  qed
qed simp

text \<open>The sizes of a cell and its siblings, and what moving \<open>m\<close> from some of them to the one at \<open>t\<close> makes of
  sizes: their sum is the same, and no other one grows.\<close>

definition sibling_sizes :: "layout_cell \<Rightarrow> cell_ptr \<Rightarrow> layout_type \<Rightarrow> int list" where
  "sibling_sizes root p ty =
     (case p of [] \<Rightarrow> [] | _ # q \<Rightarrow> (case cell_at root q of None \<Rightarrow> [] | Some c \<Rightarrow> map (dim ty) (cells c)))"

definition shifts :: "nat \<Rightarrow> int \<Rightarrow> int list \<Rightarrow> int list \<Rightarrow> bool" where
  "shifts t m old new \<longleftrightarrow> length new = length old \<and> sum_list new = sum_list old \<and> (t < length old \<or> m = 0) \<and>
     (\<forall>k < length old. if k = t then new ! k = old ! k + m else new ! k \<le> old ! k)"

lemma shifts_refl: "shifts t 0 xs xs"
  by (simp add: shifts_def)

lemma shifts_trans: "shifts t m xs ys \<Longrightarrow> shifts t n ys zs \<Longrightarrow> shifts t (m + n) xs zs"
  by (fastforce simp: shifts_def)

lemma sum_list_set: "k < length xs \<Longrightarrow> sum_list (xs[k := x]) = sum_list xs - xs ! k + (x :: int)"
proof (induction xs arbitrary: k)
  case (Cons a xs)
  then show ?case by (cases k) auto
qed simp

lemma shifts_pair:
  assumes "j < length xs" "k < length xs" "j \<noteq> k" "0 \<le> s"
  shows "shifts j s xs (xs[j := xs ! j + s, k := xs ! k - s])"
proof -
  have "sum_list (xs[j := xs ! j + s, k := xs ! k - s]) = sum_list xs"
    using assms by (simp add: sum_list_set)
  then show ?thesis using assms by (simp add: shifts_def nth_list_update)
qed

lemma move_size_spec:
  assumes w: "window_ok w" "ty \<noteq> LAYOUT_WINDOWPANE" and r: "layout_wf (layout_root w)" "all_flow (layout_root w)"
    and c: "cell_at (layout_root w) q = Some c" "cell_type c = ty"
    and jk: "j < length (cells c)" "k < length (cells c)" "j \<noteq> k"
    and s: "0 \<le> s" "s \<le> check_at w (k # q) ty"
  shows "\<exists>r. move_size w (j # q) (k # q) ty s = Some (w\<lparr>layout_root := r\<rparr>, s) \<and> replaces r (layout_root w) \<and>
    shifts j s (sibling_sizes (layout_root w) (i # q) ty) (sibling_sizes r (i # q) ty)"
proof -
  let ?A = "cells c ! j" and ?B = "cells c ! k" and ?cs = "cells c"
  have wc: "layout_wf c" "all_flow c" using wf_cell_at [OF r c(1)] by auto
  have flow: "in_flow ?A" "in_flow ?B" "all_flow ?B" using all_flow_child [OF wc(2)] jk by auto
  have wf: "layout_wf ?A" "layout_wf ?B" "cross ty ?A = cross ty c" "cross ty ?B = cross ty c"
    using wf_child [OF wc] jk c(2) by auto
  have s': "s \<le> layout_resize_check w (k # q) ?B ty" using s(2) c jk by (simp add: check_at_def)
  obtain B where B: "layout_resize_adjust w (k # q) ?B ty (- s) = Some B" "resized ty (- s) ?B B"
    using adjust_fuel_shrink [OF w order_refl wf(2) flow(3) s(1) s'] by (auto simp: layout_resize_adjust_def)
  have node: "flow_ok ty (cross ty c) ?cs" "flow_size (dim ty) ?cs = dim ty c"
    using wf_node_iff [of "info c" ?cs] wc(1) c(2) w(2) by auto
  have fB: "in_flow B" using B(2) flow(2) by (auto simp: resized_def dest: in_flow_cong)
  have cs1: "flow_ok ty (cross ty c) (?cs[k := B])" "flow_size (dim ty) (?cs[k := B]) = dim ty c - s"
    using B(2) node flow fB jk wf by (auto simp: resized_def flow_size_update intro!: flow_ok_update)
  have "dim ty ?A + s \<le> dim ty c"
    using flow_size_elem [OF cs1(1), of j] cs1(2) jk flow(1) by simp
  then have lim: "dim ty ?A + s \<le> i32_MAX" "s \<le> i32_MAX"
    using wf_dim [OF wc(1), of ty] wf_dim [OF wf(1), of ty] by linarith+
  obtain A where A: "layout_resize_adjust w (j # q) ?A ty s = Some A" "resized ty s ?A A"
    using adjust_fuel_grow [OF order_refl wf(1) w(2) s(1) lim(1)] by (auto simp: layout_resize_adjust_def)
  have fA: "in_flow A" using A(2) flow(1) by (auto simp: resized_def dest: in_flow_cong)
  let ?F = "\<lambda>c. Cell (info c) (if j < length (cells c) then (cells c)[j := A] else cells c)"
    and ?G = "\<lambda>c. Cell (info c) (if k < length (cells c) then (cells c)[k := B] else cells c)"
  let ?r1 = "update_at (layout_root w) (j # q) (\<lambda>_. A)"
  have r1: "?r1 = update_at (layout_root w) q ?F" by (rule update_at_Cons)
  have "shape ?r1 = shape (layout_root w)"
    using A(2) c jk by (intro shape_update [where c = ?A]) (auto simp: resized_def)
  then have "layout_resize_adjust (w\<lparr>layout_root := ?r1\<rparr>) (k # q) ?B ty (- s) = Some B"
    using B(1) adjust_fuel_view [OF same_view_root] by (simp add: layout_resize_adjust_def)
  moreover have "cell_at ?r1 (k # q) = Some ?B"
    using cell_at_update [OF c(1), of ?F] jk by (simp add: r1)
  moreover have "update_at ?r1 (k # q) (\<lambda>_. B) = update_at (layout_root w) q (\<lambda>_. Cell (info c) (?cs[j := A, k := B]))"
    unfolding r1 update_at_Cons [of _ k q]
    by (subst update_at_twice [OF c(1)], rule update_at_cong [OF c(1)]) (use jk in simp)
  ultimately have "move_size w (j # q) (k # q) ty s =
      Some (w\<lparr>layout_root := update_at (layout_root w) q (\<lambda>_. Cell (info c) (?cs[j := A, k := B]))\<rparr>, s)"
    using A(1) c jk lim(2) s(1) by (simp add: move_size_def resize_at_def i32_id i32_MAX_def)
  moreover have "replaces (Cell (info c) (?cs[j := A, k := B])) c"
    using A(2) B(2) fA fB flow wf jk node c(2)
    by (intro replaces_children [OF wc jk(1)])
       (auto simp: resized_def flow_size_update nth_list_update map_shape_update intro!: flow_ok_update)
  ultimately have moved: "move_size w (j # q) (k # q) ty s =
      Some (w\<lparr>layout_root := update_at (layout_root w) q (\<lambda>_. Cell (info c) (?cs[j := A, k := B]))\<rparr>, s)"
    "replaces (update_at (layout_root w) q (\<lambda>_. Cell (info c) (?cs[j := A, k := B]))) (layout_root w)"
    using replaces_update [OF r c(1)] by blast+
  let ?xs = "map (dim ty) ?cs"
  have "map (dim ty) (?cs[j := A, k := B]) = ?xs[j := ?xs ! j + s, k := ?xs ! k - s]"
    using A(2) B(2) jk by (simp add: map_update resized_def)
  then have "shifts j s (sibling_sizes (layout_root w) (i # q) ty)
      (sibling_sizes (update_at (layout_root w) q (\<lambda>_. Cell (info c) (?cs[j := A, k := B]))) (i # q) ty)"
    using shifts_pair [of j ?xs k s] jk s(1) c(1) cell_at_update [OF c(1)] by (simp add: sibling_sizes_def)
  with moved show ?thesis by blast
qed


section \<open>Moving a border\<close>

text \<open>A window whose layout is sound, with a border to move: the child \<open>j\<close> of a cell of type \<open>ty\<close>.\<close>

definition border_ok :: "window \<Rightarrow> cell_ptr \<Rightarrow> layout_type \<Rightarrow> bool" where
  "border_ok w p ty \<longleftrightarrow> window_ok w \<and> ty \<noteq> LAYOUT_WINDOWPANE \<and> layout_wf (layout_root w) \<and> all_flow (layout_root w) \<and>
     (case p of [] \<Rightarrow> False
      | j # q \<Rightarrow> map_option cell_type (cell_at (layout_root w) q) = Some ty \<and> j < sibling_count (layout_root w) q)"

lemma border_okE:
  assumes "border_ok w p ty"
  obtains j q c where "p = j # q" "window_ok w" "ty \<noteq> LAYOUT_WINDOWPANE" "layout_wf (layout_root w)"
    "all_flow (layout_root w)" "cell_at (layout_root w) q = Some c" "cell_type c = ty" "j < length (cells c)"
    "sibling_count (layout_root w) q = length (cells c)"
  using assms by (auto simp: border_ok_def sibling_count_def split: list.splits option.splits)

lemma cell_at_types:
  "map_option shape (cell_at r q) = map_option shape (cell_at r' q) \<Longrightarrow>
     map_option cell_type (cell_at r q) = map_option cell_type (cell_at r' q) \<and> sibling_count r q = sibling_count r' q"
  by (cases "cell_at r q"; cases "cell_at r' q")
     (auto simp: sibling_count_def intro: cell_type_cong length_cells_cong)

lemma border_ok_replaces:
  assumes "border_ok w p ty" "replaces r (layout_root w)"
  shows "border_ok (w\<lparr>layout_root := r\<rparr>) p ty"
proof -
  have sh: "shape r = shape (layout_root w)" using assms(2) by (simp add: replaces_def)
  have "map_option cell_type (cell_at r q) = map_option cell_type (cell_at (layout_root w) q)"
    "sibling_count r q = sibling_count (layout_root w) q" for q
    using cell_at_types [OF cell_at_cong [OF sh]] by blast+
  then show ?thesis
    using assms all_flow_cong [OF sh] by (auto simp: border_ok_def replaces_def window_ok_def split: list.splits)
qed

lemma replaces_refl: "layout_wf c \<Longrightarrow> replaces c c"
  by (simp add: replaces_def)

lemma replaces_self:
  "layout_wf (layout_root w) \<Longrightarrow> \<exists>r. w = w\<lparr>layout_root := r\<rparr> \<and> replaces r (layout_root w)"
  by (rule exI [of _ "layout_root w"]) (simp add: replaces_refl)

lemma replaces_trans: "replaces a b \<Longrightarrow> replaces b c \<Longrightarrow> replaces a c"
  by (simp add: replaces_def)

lemma check_at_nonneg: "0 \<le> check_at w p ty"
  by (auto simp: check_at_def resize_check_nonneg split: option.splits)

text \<open>The cells that space can be taken from: to grow, the siblings behind, and those in front when
  \<open>opposite\<close>; to shrink, the cell itself and the siblings in front, if there is one behind to give it to.\<close>

definition givers :: "layout_cell \<Rightarrow> cell_ptr \<Rightarrow> i32 \<Rightarrow> bool \<Rightarrow> cell_ptr list" where
  "givers root p change opposite =
     (if change > 0 then next_siblings root p @ (if opposite then prev_siblings p else [])
      else if next_siblings root p = [] then [] else p # prev_siblings p)"

lemma find_none_zero:
  assumes "find (\<lambda>r. check_at w r ty > 0) xs = None" "g \<in> set xs"
  shows "check_at w g ty = 0"
  using assms check_at_nonneg [of w g ty] by (fastforce simp: find_None_iff)

lemma pane_grow_spec:
  assumes "border_ok w p ty" "1 \<le> needed" "needed \<le> i32_MAX"
  shows "\<exists>r sz. layout_resize_pane_grow w p ty needed opposite = Some (w\<lparr>layout_root := r\<rparr>, sz) \<and>
    replaces r (layout_root w) \<and> 0 \<le> sz \<and> sz \<le> needed \<and>
    shifts (hd p) sz (sibling_sizes (layout_root w) p ty) (sibling_sizes r p ty) \<and>
    (sz = 0 \<longrightarrow> (\<forall>g \<in> set (givers (layout_root w) p needed opposite). check_at (w\<lparr>layout_root := r\<rparr>) g ty = 0))"
proof -
  obtain j q c where p: "p = j # q" and w: "window_ok w" "ty \<noteq> LAYOUT_WINDOWPANE" "layout_wf (layout_root w)"
      "all_flow (layout_root w)" "cell_at (layout_root w) q = Some c" "cell_type c = ty" "j < length (cells c)"
      "sibling_count (layout_root w) q = length (cells c)"
    using border_okE [OF assms(1)] by blast
  let ?P = "\<lambda>r. check_at w r ty > 0"
  let ?rm = "if opposite \<and> find ?P (next_siblings (layout_root w) p) = None then find ?P (prev_siblings p)
    else find ?P (next_siblings (layout_root w) p)"
  show ?thesis
  proof (cases ?rm)
    case None
    then have f: "find ?P (next_siblings (layout_root w) p) = None" "opposite \<longrightarrow> find ?P (prev_siblings p) = None"
      by (auto split: if_splits)
    then have g: "\<forall>g \<in> set (givers (layout_root w) p needed opposite). check_at w g ty = 0"
      using assms(2) find_none_zero [of w ty] by (auto simp: givers_def)
    have "layout_resize_pane_grow w p ty needed opposite = Some (w\<lparr>layout_root := layout_root w\<rparr>, 0)"
      using None by (auto simp: layout_resize_pane_grow_def Let_def)
    then show ?thesis
      using replaces_refl [OF w(3)] assms(2) g shifts_refl by (intro exI [of _ "layout_root w"] exI [of _ 0]) auto
  next
    case (Some r)
    then have "r \<in> set (next_siblings (layout_root w) p @ prev_siblings p)" "?P r"
      by (auto dest: find_SomeD split: if_splits)
    then obtain k where k: "r = k # q" "k < length (cells c)" "j \<noteq> k"
      using p w(7,8) by auto
    let ?s = "if check_at w r ty > u32 needed then u32 needed else check_at w r ty"
    have "u32 needed = needed" using assms(2,3) by (simp add: u32_id i32_MAX_def)
    then have s: "0 \<le> ?s" "?s \<le> check_at w (k # q) ty" "?s \<le> needed" "?s \<noteq> 0"
      using assms(2) check_at_nonneg [of w r ty] k(1) \<open>?P r\<close> by auto
    obtain r' where r': "move_size w (j # q) (k # q) ty ?s = Some (w\<lparr>layout_root := r'\<rparr>, ?s)" "replaces r' (layout_root w)"
        "shifts j ?s (sibling_sizes (layout_root w) p ty) (sibling_sizes r' p ty)"
      using move_size_spec [OF w(1-7) k(2,3) s(1,2), of j] p by blast
    have "layout_resize_pane_grow w p ty needed opposite = Some (w\<lparr>layout_root := r'\<rparr>, ?s)"
      using Some r'(1) k(1) p by (auto simp: layout_resize_pane_grow_def Let_def)
    then show ?thesis using r'(2,3) s p by (intro exI [of _ r'] exI [of _ ?s]) simp
  qed
qed

lemma pane_shrink_spec:
  assumes "border_ok w p ty" "needed \<le> - 1" "- i32_MAX \<le> needed"
  shows "\<exists>r sz. layout_resize_pane_shrink w p ty needed = Some (w\<lparr>layout_root := r\<rparr>, sz) \<and>
    replaces r (layout_root w) \<and> 0 \<le> sz \<and> sz \<le> - needed \<and>
    shifts (Suc (hd p)) sz (sibling_sizes (layout_root w) p ty) (sibling_sizes r p ty) \<and>
    (sz = 0 \<longrightarrow> (\<forall>g \<in> set (givers (layout_root w) p needed opposite). check_at (w\<lparr>layout_root := r\<rparr>) g ty = 0))"
proof -
  obtain j q c where p: "p = j # q" and w: "window_ok w" "ty \<noteq> LAYOUT_WINDOWPANE" "layout_wf (layout_root w)"
      "all_flow (layout_root w)" "cell_at (layout_root w) q = Some c" "cell_type c = ty" "j < length (cells c)"
      "sibling_count (layout_root w) q = length (cells c)"
    using border_okE [OF assms(1)] by blast
  have stays: ?thesis if "layout_resize_pane_shrink w p ty needed = Some (w, 0)"
    "\<forall>g \<in> set (givers (layout_root w) p needed opposite). check_at w g ty = 0"
    using that replaces_refl [OF w(3)] assms(2) shifts_refl by (intro exI [of _ "layout_root w"] exI [of _ 0]) simp
  show ?thesis
  proof (cases "find (\<lambda>r. check_at w r ty \<noteq> 0) (p # prev_siblings p)")
    case None
    then have "\<forall>g \<in> set (givers (layout_root w) p needed opposite). check_at w g ty = 0"
      using assms(2) by (auto simp: givers_def find_None_iff split: if_splits)
    then show ?thesis using None by (intro stays) (simp_all add: layout_resize_pane_shrink_def del: find.simps)
  next
    case (Some r)
    then have "r \<in> set (p # prev_siblings p)" by (blast dest: find_SomeD)
    then obtain k where k: "r = k # q" "k \<le> j" using p by auto
    show ?thesis
    proof (cases "Suc j < length (cells c)")
      case False
      then have "next_siblings (layout_root w) p = []" using p w(8) by simp
      with Some show ?thesis
        using assms(2) by (intro stays) (simp_all add: layout_resize_pane_shrink_def givers_def del: find.simps next_siblings.simps)
    next
      case True
      then have nx: "next_siblings (layout_root w) p = (Suc j # q) # map (\<lambda>k. k # q) [Suc (Suc j) ..< length (cells c)]"
        using p w(8) by (simp add: upt_conv_Cons)
      let ?s = "if check_at w r ty > u32 (i32 (- needed)) then u32 (i32 (- needed)) else check_at w r ty"
      have "u32 (i32 (- needed)) = - needed" using assms(2,3) by (simp add: u32_id i32_id i32_MAX_def)
      have "check_at w r ty \<noteq> 0" using Some by (blast dest: find_SomeD)
      with \<open>u32 (i32 (- needed)) = - needed\<close> have s: "0 \<le> ?s" "?s \<le> check_at w (k # q) ty" "?s \<le> - needed" "?s \<noteq> 0"
        using assms(2) check_at_nonneg [of w r ty] k(1) by auto
      have jk: "k < length (cells c)" "Suc j \<noteq> k" using k(2) w(7) by auto
      obtain r' where r': "move_size w (Suc j # q) (k # q) ty ?s = Some (w\<lparr>layout_root := r'\<rparr>, ?s)" "replaces r' (layout_root w)"
          "shifts (Suc j) ?s (sibling_sizes (layout_root w) p ty) (sibling_sizes r' p ty)"
        using move_size_spec [OF w(1-6) True jk s(1,2), of j] p by blast
      have "layout_resize_pane_shrink w p ty needed = Some (w\<lparr>layout_root := r'\<rparr>, ?s)"
        using Some nx r'(1) unfolding layout_resize_pane_shrink_def k(1)
        by (simp add: Let_def del: find.simps next_siblings.simps prev_siblings.simps split del: if_split)
      then show ?thesis using r'(2,3) s p by (intro exI [of _ r'] exI [of _ ?s]) simp
    qed
  qed
qed

lemma givers_replaces: "replaces r root \<Longrightarrow> givers r p change opposite = givers root p change opposite"
proof -
  assume "replaces r root"
  then have "shape r = shape root" by (simp add: replaces_def)
  from cell_at_types [OF cell_at_cong [OF this]] have "sibling_count r q = sibling_count root q" for q by blast
  then have "next_siblings r p = next_siblings root p" by (cases p) simp_all
  then show ?thesis by (simp add: givers_def)
qed

lemma givers_sign: "change > 0 \<longleftrightarrow> change' > 0 \<Longrightarrow> givers root p change opposite = givers root p change' opposite"
  by (simp add: givers_def)

text \<open>What the loop achieves: all that is needed, or as much as the cells it can take from have.\<close>

definition border_moved :: "window \<Rightarrow> cell_ptr \<Rightarrow> layout_type \<Rightarrow> i32 \<Rightarrow> bool \<Rightarrow> int \<Rightarrow> int \<Rightarrow> layout_cell \<Rightarrow> bool" where
  "border_moved w p ty change opposite needed moved r \<longleftrightarrow> replaces r (layout_root w) \<and> 0 \<le> moved \<and> moved \<le> needed \<and>
     shifts (if change > 0 then hd p else Suc (hd p)) moved (sibling_sizes (layout_root w) p ty) (sibling_sizes r p ty) \<and>
     (moved < needed \<longrightarrow> (\<forall>g \<in> set (givers (layout_root w) p change opposite). check_at (w\<lparr>layout_root := r\<rparr>) g ty = 0))"

lemma border_moved_trans:
  assumes "border_moved w p ty change opposite n m r" "border_moved (w\<lparr>layout_root := r\<rparr>) p ty change opposite (n' - m) m' r'" "n = n' \<or> m \<le> n'"
  shows "border_moved w p ty change opposite n' (m + m') r'"
  using assms replaces_trans [of r' r "layout_root w"] shifts_trans [of _ m _ _ m'] givers_replaces [of r "layout_root w" p change opposite]
  by (auto simp: border_moved_def)

lemma border_moved_none: "layout_wf (layout_root w) \<Longrightarrow> border_moved w p ty change opposite 0 0 (layout_root w)"
  by (simp add: border_moved_def replaces_refl shifts_refl)

lemma round_spec:
  assumes "border_ok w p ty" "needed \<noteq> 0" "\<bar>needed\<bar> \<le> i32_MAX" "change > 0 \<longleftrightarrow> needed > 0"
  shows "\<exists>r sz. (if change > 0 then layout_resize_pane_grow w p ty needed opposite else layout_resize_pane_shrink w p ty needed)
      = Some (w\<lparr>layout_root := r\<rparr>, sz) \<and> border_moved w p ty change opposite (if sz = 0 then \<bar>needed\<bar> else sz) sz r \<and> sz \<le> \<bar>needed\<bar>"
proof (cases "change > 0")
  case True
  then obtain r sz where "layout_resize_pane_grow w p ty needed opposite = Some (w\<lparr>layout_root := r\<rparr>, sz)"
    "replaces r (layout_root w)" "0 \<le> sz" "sz \<le> needed" "shifts (hd p) sz (sibling_sizes (layout_root w) p ty) (sibling_sizes r p ty)"
    "sz = 0 \<longrightarrow> (\<forall>g \<in> set (givers (layout_root w) p change opposite). check_at (w\<lparr>layout_root := r\<rparr>) g ty = 0)"
    using pane_grow_spec [OF assms(1), of needed opposite] assms(2-4) givers_sign [of change needed] by fastforce
  then show ?thesis using True by (intro exI [of _ r] exI [of _ sz]) (auto simp: border_moved_def)
next
  case False
  then obtain r sz where "layout_resize_pane_shrink w p ty needed = Some (w\<lparr>layout_root := r\<rparr>, sz)"
    "replaces r (layout_root w)" "0 \<le> sz" "sz \<le> - needed" "shifts (Suc (hd p)) sz (sibling_sizes (layout_root w) p ty) (sibling_sizes r p ty)"
    "sz = 0 \<longrightarrow> (\<forall>g \<in> set (givers (layout_root w) p change opposite). check_at (w\<lparr>layout_root := r\<rparr>) g ty = 0)"
    using pane_shrink_spec [OF assms(1), of needed opposite] assms(2-4) givers_sign [of change needed] by fastforce
  then show ?thesis using False assms(2,4) by (intro exI [of _ r] exI [of _ sz]) (auto simp: border_moved_def)
qed

lemma resize_rounds_spec:
  "border_ok w p ty \<Longrightarrow> \<bar>needed\<bar> \<le> i32_MAX \<Longrightarrow> needed = 0 \<or> (change > 0 \<longleftrightarrow> needed > 0) \<Longrightarrow> nat \<bar>needed\<bar> \<le> n \<Longrightarrow>
   \<exists>r moved. resize_rounds n w p ty change needed opposite = Some (w\<lparr>layout_root := r\<rparr>) \<and>
     border_moved w p ty change opposite \<bar>needed\<bar> moved r"
proof (induction n arbitrary: w needed)
  case 0
  then have "layout_wf (layout_root w)" "needed = 0" by (auto simp: border_ok_def)
  then show ?case using border_moved_none [of w] by (intro exI [of _ "layout_root w"] exI [of _ 0]) simp
next
  case (Suc n)
  show ?case
  proof (cases "needed = 0")
    case True
    then show ?thesis
      using border_moved_none [of w] Suc.prems(1) by (intro exI [of _ "layout_root w"] exI [of _ 0]) (simp add: border_ok_def)
  next
    case False
    then obtain r sz where g: "(if change > 0 then layout_resize_pane_grow w p ty needed opposite else layout_resize_pane_shrink w p ty needed)
        = Some (w\<lparr>layout_root := r\<rparr>, sz)" "border_moved w p ty change opposite (if sz = 0 then \<bar>needed\<bar> else sz) sz r" "sz \<le> \<bar>needed\<bar>"
      using round_spec [OF Suc.prems(1), of needed change opposite] Suc.prems(2,3) by blast
    show ?thesis
    proof (cases "sz = 0")
      case True
      then show ?thesis using g False by (intro exI [of _ r] exI [of _ 0]) (auto split: if_splits)
    next
      case sz: False
      let ?n = "if change > 0 then needed - sz else needed + sz"
      have pos: "0 < sz" "replaces r (layout_root w)" using g(2) sz by (auto simp: border_moved_def)
      have n: "\<bar>?n\<bar> = \<bar>needed\<bar> - sz" "?n = 0 \<or> (change > 0 \<longleftrightarrow> ?n > 0)" "i32 ?n = ?n"
        using pos(1) g(3) Suc.prems(2,3) False by (auto simp: i32_id i32_MAX_def)
      have b: "\<bar>?n\<bar> \<le> i32_MAX" "nat \<bar>?n\<bar> \<le> n" unfolding n(1) using pos(1) Suc.prems(2,4) by auto
      obtain r' moved where "resize_rounds n (w\<lparr>layout_root := r\<rparr>) p ty change ?n opposite = Some (w\<lparr>layout_root := r'\<rparr>)"
          "border_moved (w\<lparr>layout_root := r\<rparr>) p ty change opposite (\<bar>needed\<bar> - sz) moved r'"
        using Suc.IH [OF border_ok_replaces [OF Suc.prems(1) pos(2)] b(1) n(2) b(2)] unfolding n(1) by auto
      moreover from this have "border_moved w p ty change opposite \<bar>needed\<bar> (sz + moved) r'"
        using border_moved_trans g(2,3) sz by (auto split: if_splits)
      ultimately show ?thesis
        using g(1) n(3) False sz by (intro exI [of _ r'] exI [of _ "sz + moved"]) (auto split: if_splits)
    qed
  qed
qed


text \<open>C3: resizing a window with a sound layout and no floating pane always returns; the layout
  keeps its cells and stays well formed, and each of its two sizes is the requested one unless
  that is less than the layout can shrink to, when it is the least size the panes allow.  The
  panes no longer overlap and lie inside the new layout.\<close>

theorem layout_resize_fits:
  assumes "window_ok w" "layout_wf (layout_root w)" "all_flow (layout_root w)"
    and "1 \<le> nsx" "nsx \<le> i32_MAX" "1 \<le> nsy" "nsy \<le> i32_MAX"
  shows "\<exists>w'. layout_resize w inset in_mode nsx nsy = Some w' \<and>
    layout_wf (layout_root w') \<and> shape (layout_root w') = shape (layout_root w) \<and>
    cell_sx (layout_root w') =
      max nsx (cell_sx (layout_root w) - layout_resize_check w [] (layout_root w) LAYOUT_LEFTRIGHT) \<and>
    cell_sy (layout_root w') =
      max nsy (cell_sy (layout_root w) - layout_resize_check w [] (layout_root w) LAYOUT_TOPBOTTOM) \<and>
    sorted_wrt disjoint_cells (tiled_leaves (layout_root w'))"
proof -
  obtain w1 where w1: "layout_resize w inset in_mode nsx nsy = Some (refresh_panes w1 inset in_mode)"
    "layout_wf (layout_root w1)" "shape (layout_root w1) = shape (layout_root w)"
    "cell_sx (layout_root w1) = max nsx (cell_sx (layout_root w) - layout_resize_check w [] (layout_root w) LAYOUT_LEFTRIGHT)"
    "cell_sy (layout_root w1) = max nsy (cell_sy (layout_root w) - layout_resize_check w [] (layout_root w) LAYOUT_TOPBOTTOM)"
    using layout_resize_spec [OF assms] by blast
  then show ?thesis
    using layout_fix_offsets_wf [OF w1(2)] layout_fix_offsets_shape [of w1] layout_fix_offsets_disjoint [OF w1(2)]
    by simp
qed

theorem layout_resize_fits_witness:
  "window_ok example_window \<and>
   (\<exists>w'. layout_resize example_window 0 (\<lambda>_. False) 2 100 = Some w' \<and> layout_wf (layout_root w') \<and>
     cell_sx (layout_root w') = 3 \<and> cell_sy (layout_root w') = 100)"
proof -
  have w: "window_ok example_window" "layout_wf (layout_root example_window)" "all_flow (layout_root example_window)"
    by code_simp+
  have chk: "layout_resize_check example_window [] (layout_root example_window) LAYOUT_LEFTRIGHT = 77"
    "layout_resize_check example_window [] (layout_root example_window) LAYOUT_TOPBOTTOM = 21"
    "cell_sx (layout_root example_window) = 80" "cell_sy (layout_root example_window) = 24"
    by code_simp+
  show ?thesis
    using layout_resize_fits [OF w, of 2 100 0 "\<lambda>_. False"] w(1) unfolding chk by (auto simp: i32_MAX_def)
qed

section \<open>Sizes and space do not depend on offsets\<close>

lemma strip_offsets: "no_offsets = strip (\<lambda>i. i\<lparr>xoff := 0, yoff := 0\<rparr>)"
proof
  show "no_offsets c = strip (\<lambda>i. i\<lparr>xoff := 0, yoff := 0\<rparr>) c" for c
    by (induction c) auto
qed

lemma info_cells_offsets [simp]:
  "info (no_offsets c) = (info c)\<lparr>xoff := 0, yoff := 0\<rparr>" "cells (no_offsets c) = map no_offsets (cells c)"
  by (cases c; simp)+

lemma cell_at_offsets: "cell_at (no_offsets r) q = map_option no_offsets (cell_at r q)"
  by (induction q) (auto split: option.splits)

lemma resize_check_offsets:
    "layout_resize_check w p (no_offsets c) ty = layout_resize_check w p c ty"
  and resize_checks_offsets: "resize_checks w p k (map no_offsets cs) ty = resize_checks w p k cs ty"
  by (induction w p c ty and w p k cs ty rule: layout_resize_check_resize_checks.induct) simp_all

lemma sibling_sizes_offsets: "sibling_sizes (no_offsets r) p ty = sibling_sizes r p ty"
  by (auto simp: sibling_sizes_def cell_at_offsets dim_def comp_def split: list.splits option.splits)

lemma check_at_offsets:
  assumes "same_view w w'" "no_offsets (layout_root w) = no_offsets (layout_root w')"
  shows "check_at w p ty = check_at w' p ty"
proof -
  have "map_option no_offsets (cell_at (layout_root w) p) = map_option no_offsets (cell_at (layout_root w') p)"
    using cell_at_offsets [of "layout_root w" p] cell_at_offsets [of "layout_root w'" p] assms(2) by simp
  then show ?thesis
    using resize_check_offsets [of w p _ ty] resize_check_view [OF assms(1), of p _ ty]
    by (cases "cell_at (layout_root w) p"; cases "cell_at (layout_root w') p") (auto simp: check_at_def, metis)
qed

lemma refresh_view: "same_view (refresh_panes w inset in_mode) w"
  using layout_fix_offsets_shape [of w]
  by (simp add: same_view_def) (simp add: refresh_panes_def layout_fix_panes_def layout_fix_offsets_def)

text \<open>C4: moving a border (\<open>layout_resize_layout\<close>, what \<open>resize-pane\<close> and dragging a border end up
  in) in a window without floating panes always returns: the loops inside it use up the change or
  stop.  The layout keeps its cells and its outer size and stays well formed, so that the panes still
  do not overlap.  For a positive change the cell at the border has grown, for a negative one the cell
  behind it, at the cost of its siblings alone; and it has grown by the whole change unless all the
  cells that it can take from are at their least size.\<close>

theorem layout_resize_layout_sound:
  assumes "border_ok w p ty" "\<bar>change\<bar> \<le> i32_MAX"
  shows "\<exists>w' moved. layout_resize_layout w inset in_mode p ty change opposite = Some w' \<and>
    layout_wf (layout_root w') \<and> shape (layout_root w') = shape (layout_root w) \<and>
    cell_sx (layout_root w') = cell_sx (layout_root w) \<and> cell_sy (layout_root w') = cell_sy (layout_root w) \<and>
    sorted_wrt disjoint_cells (tiled_leaves (layout_root w')) \<and> 0 \<le> moved \<and> moved \<le> \<bar>change\<bar> \<and>
    shifts (if change > 0 then hd p else Suc (hd p)) moved
      (sibling_sizes (layout_root w) p ty) (sibling_sizes (layout_root w') p ty) \<and>
    (moved < \<bar>change\<bar> \<longrightarrow> (\<forall>g \<in> set (givers (layout_root w) p change opposite). check_at w' g ty = 0))"
proof -
  obtain r moved where r: "resize_rounds (nat \<bar>change\<bar>) w p ty change change opposite = Some (w\<lparr>layout_root := r\<rparr>)"
      "border_moved w p ty change opposite \<bar>change\<bar> moved r"
    using resize_rounds_spec [OF assms, of change "nat \<bar>change\<bar>" opposite] by auto
  let ?w1 = "w\<lparr>layout_root := r\<rparr>" and ?w' = "refresh_panes (w\<lparr>layout_root := r\<rparr>) inset in_mode"
  have rep: "replaces r (layout_root w)" using r(2) by (simp add: border_moved_def)
  then have wf: "layout_wf (layout_root ?w1)" by (simp add: replaces_def)
  have "sibling_sizes (layout_root ?w') p ty = sibling_sizes r p ty"
    using sibling_sizes_offsets [of "layout_root ?w'" p ty] sibling_sizes_offsets [of r p ty] layout_fix_offsets_only [of ?w1] by simp
  moreover have "check_at ?w' g ty = check_at ?w1 g ty" for g
    using layout_fix_offsets_only [of ?w1] by (intro check_at_offsets refresh_view) simp
  moreover have "layout_resize_layout w inset in_mode p ty change opposite = Some ?w'"
    using r(1) by (simp add: layout_resize_layout_def refresh_panes_def)
  ultimately show ?thesis
    using r(2) rep layout_fix_offsets_wf [OF wf] layout_fix_offsets_shape [of ?w1] layout_fix_offsets_disjoint [OF wf]
    by (intro exI [of _ ?w'] exI [of _ moved]) (simp add: border_moved_def replaces_def)
qed

text \<open>The first of two cells side by side is to grow by 15, and can: the other one gives 15 of its columns.\<close>

theorem layout_resize_layout_sound_witness:
  "border_ok example_window [0] LAYOUT_LEFTRIGHT \<and>
   (\<exists>w'. layout_resize_layout example_window 0 (\<lambda>_. False) [0] LAYOUT_LEFTRIGHT 15 True = Some w' \<and>
     layout_wf (layout_root w') \<and> cell_sx (layout_root w') = 80 \<and> sibling_sizes (layout_root w') [0] LAYOUT_LEFTRIGHT = [55, 24])"
proof -
  have b: "border_ok example_window [0] LAYOUT_LEFTRIGHT" "cell_sx (layout_root example_window) = 80" by code_simp+
  have "(case layout_resize_layout example_window 0 (\<lambda>_. False) [0] LAYOUT_LEFTRIGHT 15 True of
      None \<Rightarrow> False | Some w' \<Rightarrow> sibling_sizes (layout_root w') [0] LAYOUT_LEFTRIGHT = [55, 24])" by code_simp
  then show ?thesis
    using layout_resize_layout_sound [OF b(1), of 15 0 "\<lambda>_. False" True] b by (auto simp: i32_MAX_def)
qed


text \<open>A window with a floating pane: \<open>layout_resize_check\<close> counts the floating cell as space that
  can be given up, while \<open>layout_resize_adjust\<close> never takes anything from it.\<close>

definition floating_window :: window where
  "floating_window = example_window\<lparr>layout_root := example_node LAYOUT_LEFTRIGHT 80 24
     [example_leaf 0 40 24, example_leaf 1 39 24,
      map_info (\<lambda>i. i\<lparr>cflags := LAYOUT_CELL_FLOATING\<rparr>) (example_leaf 2 30 10)]\<rparr>"

text \<open>With a floating pane in the layout, shrinking the window can ask the tiled panes for more
  than they have, and then \<open>layout_resize\<close> never returns.\<close>

theorem layout_resize_floating_hangs:
  "layout_wf (layout_root floating_window) \<and> window_ok floating_window \<and>
   layout_resize floating_window 0 (\<lambda>_. False) 2 24 = None"
proof -
  have "layout_wf (layout_root floating_window)" "window_ok floating_window" by code_simp+
  moreover have "layout_resize floating_window 0 (\<lambda>_. False) 2 24 = None" by code_simp
  ultimately show ?thesis by blast
qed

end
