(* ===== verification/Layout_Split.thy ===== *)
theory Layout_Split
  imports Layout_Window "HOL-Library.Monad_Syntax"
begin

text \<open>
  Adding and removing panes (\<open>layout.rs\<close>): the neighbour that takes over the space of a cell,
  \<open>layout_destroy_cell\<close> and \<open>layout_close_pane\<close>, splitting a cell with \<open>layout_split_pane\<close>,
  floating cells and spreading cells evenly.

  As before \<^const>\<open>None\<close> stands for a call that gives no result: \<open>layout_resize_adjust\<close> does not
  return, or a division by zero panics.  A layout root that the code sets to null is \<open>Some None\<close>.
\<close>

section \<open>Neighbours\<close>

definition flow_at :: "layout_cell \<Rightarrow> cell_ptr \<Rightarrow> bool" where
  "flow_at root p = (case cell_at root p of None \<Rightarrow> False | Some c \<Rightarrow> in_flow c)"

definition layout_cell_get_neighbour_direction :: "layout_cell \<Rightarrow> cell_ptr \<Rightarrow> bool \<Rightarrow> cell_ptr option" where
  "layout_cell_get_neighbour_direction root p direction =
     find (flow_at root) (if direction then next_siblings root p else prev_siblings p)"

definition layout_cell_get_neighbour :: "layout_cell \<Rightarrow> cell_ptr \<Rightarrow> cell_ptr option" where
  "layout_cell_get_neighbour root p =
     (case p of
        [] \<Rightarrow> None
      | j # q \<Rightarrow>
          (let direction = (Suc j \<noteq> sibling_count root q) in
           case layout_cell_get_neighbour_direction root p direction of
             Some r \<Rightarrow> Some r
           | None \<Rightarrow> layout_cell_get_neighbour_direction root p (\<not> direction)))"

fun layout_cell_get_first_tiled :: "cell_ptr \<Rightarrow> layout_cell \<Rightarrow> cell_ptr option"
  and first_tiled_child :: "cell_ptr \<Rightarrow> nat \<Rightarrow> layout_cell list \<Rightarrow> cell_ptr option" where
  "layout_cell_get_first_tiled p (Cell i cs) =
     (if layout_cell_is_tiled (Cell i cs) then Some p
      else if ctype i = LAYOUT_WINDOWPANE then None
      else first_tiled_child p 0 cs)"
| "first_tiled_child p k [] = None"
| "first_tiled_child p k (c # cs) =
     (if layout_cell_is_tiled c then Some (k # p)
      else (case (if cell_type c \<noteq> LAYOUT_WINDOWPANE then layout_cell_get_first_tiled (k # p) c else None) of
              Some r \<Rightarrow> Some r
            | None \<Rightarrow> first_tiled_child p (Suc k) cs))"

abbreviation set_cell :: "window \<Rightarrow> cell_ptr \<Rightarrow> (layout_cell \<Rightarrow> layout_cell) \<Rightarrow> window" where
  "set_cell w p f \<equiv> w\<lparr>layout_root := update_at (layout_root w) p f\<rparr>"

text \<open>The size of a cell along a direction the way the code selects it.\<close>

definition size_along :: "layout_type \<Rightarrow> layout_cell \<Rightarrow> u32" where
  "size_along ty c = (if ty = LAYOUT_LEFTRIGHT then cell_sx c else cell_sy c)"

definition layout_resize_set_size :: "window \<Rightarrow> cell_ptr \<Rightarrow> layout_type \<Rightarrow> u32 \<Rightarrow> window option" where
  "layout_resize_set_size w p ty sz =
     do { lc \<leftarrow> cell_at (layout_root w) p;
          resize_at w p ty (i32 (i32 sz - i32 (size_along ty lc))) }"

text \<open>The space of a cell and its separator go to a neighbour.\<close>

definition give_space :: "window \<Rightarrow> layout_cell \<Rightarrow> cell_ptr \<Rightarrow> window option" where
  "give_space w lc r =
     (case r of
        [] \<Rightarrow> Some w
      | _ # q \<Rightarrow>
          do { lcparent \<leftarrow> cell_at (layout_root w) q;
               resize_at w r (cell_type lcparent)
                 (i32 (i32 (if cell_type lcparent = LAYOUT_TOPBOTTOM then cell_sy lc else cell_sx lc) + 1)) })"

fun layout_remove_tile :: "window \<Rightarrow> cell_ptr \<Rightarrow> (window \<times> i32) option" where
  "layout_remove_tile w [] =
     do { lc \<leftarrow> cell_at (layout_root w) [];
          if cell_floating lc then Some (w, 0) else Some (w, 1) }"
| "layout_remove_tile w (j # q) =
     do { lc \<leftarrow> cell_at (layout_root w) (j # q);
          if cell_floating lc then Some (w, 0)
          else do { w1 \<leftarrow> (case layout_cell_get_neighbour (layout_root w) (j # q) of
                             None \<Rightarrow> map_option fst (layout_remove_tile w q)
                           | Some r \<Rightarrow> give_space w lc r);
                    Some (set_cell w1 (j # q) (\<lambda>c. layout_set_size c 0 0 0 0), 1) } }"

section \<open>Removing a cell\<close>

definition drop_child :: "nat \<Rightarrow> layout_cell \<Rightarrow> layout_cell" where
  "drop_child j c = Cell (info c) (take j (cells c) @ drop (Suc j) (cells c))"

text \<open>A parent left with one cell is replaced by that cell.\<close>

definition collapse_parent :: "layout_cell \<Rightarrow> cell_ptr \<Rightarrow> layout_cell option" where
  "collapse_parent root q =
     (case cell_at root q of
        None \<Rightarrow> None
      | Some lcparent \<Rightarrow>
          (case cells lcparent of
             [lc] \<Rightarrow>
               (if q = [] then Some (if layout_cell_is_tiled lc then set_offsets 0 0 lc else lc)
                else Some (update_at root q (\<lambda>_. lc)))
           | _ \<Rightarrow> Some root))"

definition layout_destroy_cell :: "window \<Rightarrow> cell_ptr \<Rightarrow> layout_cell option option" where
  "layout_destroy_cell w p =
     (case p of
        [] \<Rightarrow> Some None
      | j # q \<Rightarrow>
          do { lc \<leftarrow> cell_at (layout_root w) p;
               lcparent \<leftarrow> cell_at (layout_root w) q;
               w1 \<leftarrow> (if \<not> layout_cell_is_tiled lc then Some w
                     else (case layout_cell_get_neighbour (layout_root w) p of
                             Some lcother \<Rightarrow>
                               resize_at w lcother (cell_type lcparent)
                                 (i32 (i32 (size_along (cell_type lcparent) lc) + 1))
                           | None \<Rightarrow> map_option fst (layout_remove_tile w q)));
               map_option Some (collapse_parent (update_at (layout_root w1) q (drop_child j)) q) })"

definition layout_close_pane :: "window \<Rightarrow> u32 \<Rightarrow> (window_pane \<Rightarrow> bool) \<Rightarrow> cell_ptr \<Rightarrow> window option option" where
  "layout_close_pane w inset in_mode p =
     do { root \<leftarrow> layout_destroy_cell w p;
          (case root of
             None \<Rightarrow> Some None
           | Some r \<Rightarrow> Some (Some (layout_fix_panes (layout_fix_offsets (w\<lparr>layout_root := r\<rparr>)) inset in_mode None))) }"

section \<open>Room for a split\<close>

text \<open>\<^const>\<open>None\<close> is the \<open>fatalx\<close> on a floating cell and on a bad type.\<close>

definition layout_split_check_space :: "window \<Rightarrow> window_pane \<Rightarrow> cell_ptr \<Rightarrow> layout_cell \<Rightarrow> layout_type \<Rightarrow>
    bool option" where
  "layout_split_check_space w wp p lc ty =
     (if cell_floating lc then None
      else (case ty of
              LAYOUT_LEFTRIGHT \<Rightarrow>
                (let minimum = (if sb w = PANE_SCROLLBARS_ALWAYS
                                then u32 (u32 (PANE_MINIMUM * 2 + u32 (p_sb_width wp)) + u32 (p_sb_pad wp))
                                else PANE_MINIMUM * 2 + 1)
                 in Some (\<not> cell_sx lc < minimum))
            | LAYOUT_TOPBOTTOM \<Rightarrow>
                (let minimum = (if layout_add_border w p (border_status w)
                                then PANE_MINIMUM * 2 + 2 else PANE_MINIMUM * 2 + 1)
                 in Some (cell_sy lc \<ge> minimum))
            | LAYOUT_WINDOWPANE \<Rightarrow> None))"

definition layout_split_sizes :: "layout_cell \<Rightarrow> i32 \<Rightarrow> bool \<Rightarrow> layout_type \<Rightarrow> u32 \<times> u32 \<times> u32" where
  "layout_split_sizes lc sz before ty =
     (let ss = size_along ty lc;
          s2 = (if sz < 0 then u32 ((ss + 1) div 2 - 1)
                else if before then u32 (u32 (ss - u32 sz) - 1)
                else u32 sz);
          s2' = (if s2 < PANE_MINIMUM then PANE_MINIMUM
                 else if s2 > u32 (cell_sx lc - 2) then u32 (ss - 2)
                 else s2)
      in (u32 (u32 (ss - 1) - s2'), s2', ss))"

section \<open>Proportional resizing of children\<close>

definition layout_new_pane_size :: "window \<Rightarrow> u32 \<Rightarrow> cell_ptr \<Rightarrow> layout_cell \<Rightarrow> layout_type \<Rightarrow> u32 \<Rightarrow> u32 \<Rightarrow>
    u32 \<Rightarrow> u32 option" where
  "layout_new_pane_size w previous p lc ty sz count_left size_left =
     (if count_left = 1 then Some size_left
      else if previous = 0 then None
      else (let available = layout_resize_check w p lc ty;
                min0 = u32 (u32 (PANE_MINIMUM + 1) * u32 (count_left - 1));
                cur = size_along ty lc;
                min1 = (if u32 (cur - available) > min0 then u32 (cur - available) else min0);
                new_size = u32 (cur * sz) div previous;
                max1 = u32 (size_left - min1);
                new_size1 = (if new_size > max1 then max1 else new_size)
            in Some (if new_size1 < PANE_MINIMUM then PANE_MINIMUM else new_size1)))"

function layout_set_size_check :: "window \<Rightarrow> cell_ptr \<Rightarrow> layout_cell \<Rightarrow> layout_type \<Rightarrow> i32 \<Rightarrow> bool option"
  and check_same :: "window \<Rightarrow> cell_ptr \<Rightarrow> nat \<Rightarrow> layout_cell list \<Rightarrow> layout_type \<Rightarrow> u32 \<Rightarrow> i32 \<Rightarrow> u32 \<Rightarrow> u32 \<Rightarrow>
        bool option"
  and check_other :: "window \<Rightarrow> cell_ptr \<Rightarrow> nat \<Rightarrow> layout_cell list \<Rightarrow> layout_type \<Rightarrow> i32 \<Rightarrow> bool option" where
  "layout_set_size_check w p (Cell i cs) ty sz =
     (if ctype i = LAYOUT_WINDOWPANE then Some (sz \<ge> PANE_MINIMUM)
      else (let available = u32 sz; count = int (length cs) in
        if ctype i = ty
        then (if available < u32 (u32 (count * 2) - 1) then Some False
              else check_same w p 0 cs ty (if ty = LAYOUT_LEFTRIGHT then sx i else sy i) sz count available)
        else check_other w p 0 cs ty sz))"
| "check_same w p k [] ty previous sz count available = Some True"
| "check_same w p k (c # cs) ty previous sz count available =
     (case layout_new_pane_size w previous (k # p) c ty (u32 sz) (u32 (count - int k)) available of
        None \<Rightarrow> None
      | Some new_size \<Rightarrow>
          (let used = (if int k = count - 1 then new_size else u32 (new_size + 1)) in
           if used > available then Some False
           else (case layout_set_size_check w (k # p) c ty (i32 new_size) of
                   None \<Rightarrow> None
                 | Some False \<Rightarrow> Some False
                 | Some True \<Rightarrow>
                     check_same w p (Suc k) cs ty previous sz count (u32 (available - used)))))"
| "check_other w p k [] ty sz = Some True"
| "check_other w p k (c # cs) ty sz =
     (if cell_type c = LAYOUT_WINDOWPANE then check_other w p (Suc k) cs ty sz
      else (case layout_set_size_check w (k # p) c ty sz of
              None \<Rightarrow> None
            | Some False \<Rightarrow> Some False
            | Some True \<Rightarrow> check_other w p (Suc k) cs ty sz))"
  by pat_completeness auto
termination
  by (relation "measure (\<lambda>a. case a of Inl (w, p, c, ty, sz) \<Rightarrow> size c
        | Inr (Inl (w, p, k, cs, ty, pr, sz, co, av)) \<Rightarrow> size_list size cs
        | Inr (Inr (w, p, k, cs, ty, sz)) \<Rightarrow> size_list size cs)") auto

text \<open>The size the children of a cell use now, and their number.\<close>

definition used_size :: "layout_cell \<Rightarrow> u32 \<times> u32" where
  "used_size lc =
     (let ds = filter in_flow (cells lc);
          count = u32 (int (length ds));
          total = fold (\<lambda>c previous. u32 (previous + size_along (cell_type lc) c)) ds 0
      in (u32 (total + u32 (count - 1)), count))"

function layout_resize_child_cells :: "window \<Rightarrow> cell_ptr \<Rightarrow> layout_cell \<Rightarrow> layout_cell option"
  and resize_children :: "window \<Rightarrow> cell_ptr \<Rightarrow> cell_info \<Rightarrow> u32 \<Rightarrow> u32 \<Rightarrow> nat \<Rightarrow> u32 \<Rightarrow> u32 \<Rightarrow>
        layout_cell list \<Rightarrow> layout_cell list option" where
  "layout_resize_child_cells w p (Cell i cs) =
     (if ctype i = LAYOUT_WINDOWPANE then Some (Cell i cs)
      else (case used_size (Cell i cs) of (previous, count) \<Rightarrow>
              map_option (Cell i)
                (resize_children w p i previous count 0 0 (size_along (ctype i) (Cell i cs)) cs)))"
| "resize_children w p i previous count k idx available [] = Some []"
| "resize_children w p i previous count k idx available (c # cs) =
     (if \<not> in_flow c
      then map_option (\<lambda>cs'. c # cs') (resize_children w p i previous count (Suc k) idx available cs)
      else if ctype i = LAYOUT_TOPBOTTOM
      then (let c1 = map_info (\<lambda>d. d\<lparr>sx := sx i, xoff := xoff i\<rparr>) c in
            case layout_new_pane_size w previous (k # p) c1 (ctype i) (sy i) (u32 (count - idx)) available of
              None \<Rightarrow> None
            | Some s \<Rightarrow>
                (case layout_resize_child_cells w (k # p) (map_info (\<lambda>d. d\<lparr>sy := s\<rparr>) c1) of
                   None \<Rightarrow> None
                 | Some c2 \<Rightarrow> map_option (\<lambda>cs'. c2 # cs')
                     (resize_children w p i previous count (Suc k) (idx + 1) (u32 (available - u32 (s + 1))) cs)))
      else (case layout_new_pane_size w previous (k # p) c (ctype i) (sx i) (u32 (count - idx)) available of
              None \<Rightarrow> None
            | Some s \<Rightarrow>
                (let c1 = map_info (\<lambda>d. d\<lparr>sx := s, sy := sy i, yoff := yoff i\<rparr>) c in
                 case layout_resize_child_cells w (k # p) c1 of
                   None \<Rightarrow> None
                 | Some c2 \<Rightarrow> map_option (\<lambda>cs'. c2 # cs')
                     (resize_children w p i previous count (Suc k) (idx + 1) (u32 (available - u32 (s + 1))) cs))))"
  by pat_completeness auto
termination
  by (relation "measure (\<lambda>a. case a of Inl (w, p, c) \<Rightarrow> size c
        | Inr (w, p, i, pr, co, k, idx, av, cs) \<Rightarrow> size_list size cs)")
     (auto intro: trans_less_add1 size_cells)


section \<open>Splitting a cell\<close>

text \<open>Wrap the cell at \<open>p\<close> in a new node; the cell is then child 0 of the node at \<open>p\<close>.\<close>

definition layout_replace_with_node :: "window \<Rightarrow> cell_ptr \<Rightarrow> layout_type \<Rightarrow> window option" where
  "layout_replace_with_node w p ty =
     do { lc \<leftarrow> cell_at (layout_root w) p;
          node \<leftarrow> layout_make_node layout_create_cell ty;
          let node1 = layout_set_size node (cell_sx lc) (cell_sy lc) (u32 (cell_xoff lc)) (u32 (cell_yoff lc));
          Some (set_cell w p (\<lambda>_. Cell (info node1) [lc])) }"

definition insert_child :: "nat \<Rightarrow> layout_cell \<Rightarrow> layout_cell \<Rightarrow> layout_cell" where
  "insert_child k d c = Cell (info c) (take k (cells c) @ d # drop k (cells c))"

text \<open>The result is the pointer of the new cell.\<close>

definition layout_floating_pane :: "window \<Rightarrow> cell_ptr \<Rightarrow> u32 \<Rightarrow> u32 \<Rightarrow> i32 \<Rightarrow> i32 \<Rightarrow> (window \<times> cell_ptr) option" where
  "layout_floating_pane w p nsx nsy ox oy =
     (let new = layout_set_size
                  (map_info (\<lambda>i. i\<lparr>cflags := or (cflags i) LAYOUT_CELL_FLOATING\<rparr>) layout_create_cell)
                  nsx nsy (u32 ox) (u32 oy)
      in case p of
           [] \<Rightarrow> do { w1 \<leftarrow> layout_replace_with_node w [] LAYOUT_TOPBOTTOM;
                     Some (set_cell w1 [] (insert_child 1 new), [1]) }
         | j # q \<Rightarrow> Some (set_cell w q (insert_child (Suc j) new), Suc j # q))"

text \<open>The sizes of the two halves, first the top or left one.\<close>

definition set_halves :: "layout_type \<Rightarrow> layout_cell \<Rightarrow> u32 \<Rightarrow> u32 \<Rightarrow> layout_cell \<Rightarrow> layout_cell \<Rightarrow>
    layout_cell \<times> layout_cell" where
  "set_halves ty old size1 size2 lc1 lc2 =
     (let x = u32 (cell_xoff old); y = u32 (cell_yoff old) in
      if ty = LAYOUT_LEFTRIGHT
      then (layout_set_size lc1 size1 (cell_sy old) x y,
            layout_set_size lc2 size2 (cell_sy old) (u32 (u32 (x + size1) + 1)) y)
      else (layout_set_size lc1 (cell_sx old) size1 x y,
            layout_set_size lc2 (cell_sx old) size2 x (u32 (u32 (y + size1) + 1))))"

text \<open>The three ways a cell is split: beside the cell in a parent of the same type, under a root of
  the same type (\<open>full_size\<close>), and under a new node.\<close>

definition split_beside :: "window \<Rightarrow> window_pane \<Rightarrow> nat \<Rightarrow> cell_ptr \<Rightarrow> layout_cell \<Rightarrow> layout_type \<Rightarrow> u32 \<Rightarrow> u32 \<Rightarrow>
    bool \<Rightarrow> window \<times> cell_ptr" where
  "split_beside w wp j q lc ty size1 size2 before =
     (if before
      then (let (lc1, lc2) = set_halves ty lc size1 size2 layout_create_cell lc in
            (set_cell w q (\<lambda>par. insert_child j lc1
               (Cell (info par) ((cells par)[j := layout_make_leaf lc2 (pane_id wp)]))), j # q))
      else (let (lc1, lc2) = set_halves ty lc size1 size2 lc layout_create_cell in
            (set_cell w q (\<lambda>par. insert_child (Suc j) lc2
               (Cell (info par) ((cells par)[j := layout_make_leaf lc1 (pane_id wp)]))), Suc j # q)))"

definition split_root :: "window \<Rightarrow> layout_cell \<Rightarrow> layout_type \<Rightarrow> u32 \<Rightarrow> u32 \<Rightarrow> bool \<Rightarrow> (window \<times> cell_ptr) option" where
  "split_root w lc ty new_size saved_size before =
     do { lc1 \<leftarrow> layout_resize_child_cells w []
                  (map_info (\<lambda>i. if ty = LAYOUT_LEFTRIGHT then i\<lparr>sx := new_size\<rparr> else i\<lparr>sy := new_size\<rparr>) lc);
          let lc2 = map_info (\<lambda>i. if ty = LAYOUT_LEFTRIGHT then i\<lparr>sx := saved_size\<rparr> else i\<lparr>sy := saved_size\<rparr>) lc1;
          let s = u32 (u32 (saved_size - 1) - new_size);
          let new = (if ty = LAYOUT_LEFTRIGHT then layout_set_size layout_create_cell s (cell_sy lc) 0 0
                     else layout_set_size layout_create_cell (cell_sx lc) s 0 0);
          let k = (if before then 0 else length (cells lc2));
          Some (layout_fix_offsets (w\<lparr>layout_root := insert_child k new lc2\<rparr>), [k]) }"

definition split_node :: "window \<Rightarrow> window_pane \<Rightarrow> cell_ptr \<Rightarrow> layout_cell \<Rightarrow> layout_type \<Rightarrow> u32 \<Rightarrow> u32 \<Rightarrow> bool \<Rightarrow> bool \<Rightarrow>
    (window \<times> cell_ptr) option" where
  "split_node w wp p lc ty size1 size2 before full_size =
     do { w1 \<leftarrow> layout_replace_with_node w p ty;
          let k = (if before then 1 else 0);
          let (lc1, lc2) = (if before then set_halves ty lc size1 size2 layout_create_cell lc
                            else set_halves ty lc size1 size2 lc layout_create_cell);
          let w2 = set_cell w1 p (\<lambda>node. Cell (info node) [lc1, lc2]);
          w3 \<leftarrow> (if full_size
                then do { c \<leftarrow> layout_resize_child_cells w2 (k # p) (if before then lc2 else lc1);
                          Some (layout_fix_offsets (set_cell w2 (k # p) (\<lambda>_. c))) }
                else Some (set_cell w2 (k # p) (\<lambda>c. layout_make_leaf c (pane_id wp))));
          Some (w3, (if before then 0 else 1) # p) }"

text \<open>\<open>Some None\<close> is the null cell the code returns when there is no room.\<close>

definition layout_split_pane :: "window \<Rightarrow> window_pane \<Rightarrow> cell_ptr \<Rightarrow> layout_type \<Rightarrow> i32 \<Rightarrow> bool \<Rightarrow> bool \<Rightarrow>
    (window \<times> cell_ptr) option option" where
  "layout_split_pane w wp p ty sz before full_size =
     do { let ptr = (if full_size then [] else p);
          lc \<leftarrow> cell_at (layout_root w) ptr;
          room \<leftarrow> layout_split_check_space w wp ptr lc ty;
          if \<not> room then Some None
          else do {
            let (size1, size2, saved_size) = layout_split_sizes lc sz before ty;
            let new_size = (if before then size2 else size1);
            fits \<leftarrow> (if full_size then layout_set_size_check w ptr lc ty (i32 new_size) else Some True);
            if \<not> fits then Some None
            else (case ptr of
                    j # q \<Rightarrow>
                      (if map_option cell_type (cell_at (layout_root w) q) = Some ty
                       then Some (Some (split_beside w wp j q lc ty size1 size2 before))
                       else map_option Some (split_node w wp ptr lc ty size1 size2 before full_size))
                  | [] \<Rightarrow>
                      (if full_size \<and> cell_type lc = ty
                       then map_option Some (split_root w lc ty new_size saved_size before)
                       else map_option Some (split_node w wp ptr lc ty size1 size2 before full_size))) } }"

definition layout_assign_pane :: "window \<Rightarrow> u32 \<Rightarrow> (window_pane \<Rightarrow> bool) \<Rightarrow> cell_ptr \<Rightarrow> window_pane \<Rightarrow> bool \<Rightarrow> window" where
  "layout_assign_pane w inset in_mode p wp do_not_resize =
     layout_fix_panes (set_cell w p (\<lambda>lc. layout_make_leaf lc (pane_id wp))) inset in_mode
       (if do_not_resize then Some (pane_id wp) else None)"

section \<open>Retiling a cell\<close>

text \<open>\<open>pane_of n\<close> is the pane with the given number, whose scrollbar style the room check reads.\<close>

fun layout_insert_tile :: "(nat option \<Rightarrow> window_pane) \<Rightarrow> window \<Rightarrow> cell_ptr \<Rightarrow> (window \<times> i32) option" where
  "layout_insert_tile pane_of w [] =
     (if cell_floating (layout_root w) then Some (w, 1)
      else Some (set_cell w [] (\<lambda>lc. layout_set_size lc (w_sx w) (w_sy w) 0 0), 1))"
| "layout_insert_tile pane_of w (j # q) =
     do { lc \<leftarrow> cell_at (layout_root w) (j # q);
          lcparent \<leftarrow> cell_at (layout_root w) q;
          let ty = cell_type lcparent;
          if cell_floating lc then Some (w, 1)
          else do {
            r \<leftarrow> (case layout_cell_get_neighbour (layout_root w) (j # q) of
                   None \<Rightarrow>
                     do { (w1, _) \<leftarrow> layout_insert_tile pane_of w q;
                          par \<leftarrow> cell_at (layout_root w1) q;
                          map_option Some (layout_resize_set_size w1 (j # q) ty (size_along ty par)) }
                 | Some n \<Rightarrow>
                     do { nc \<leftarrow> cell_at (layout_root w) n;
                          (case layout_cell_get_first_tiled n nc of
                             None \<Rightarrow> Some None
                           | Some t \<Rightarrow>
                               do { tc \<leftarrow> cell_at (layout_root w) t;
                                    room \<leftarrow> layout_split_check_space w (pane_of (cwp (info tc))) n nc ty;
                                    if \<not> room then Some None
                                    else do { let (size1, size2, _) = layout_split_sizes nc (- 1) False ty;
                                              w1 \<leftarrow> layout_resize_set_size w (j # q) ty size1;
                                              map_option Some (layout_resize_set_size w1 n ty size2) } }) });
            (case r of
               None \<Rightarrow> Some (w, 0)
             | Some w1 \<Rightarrow>
                 do { par \<leftarrow> cell_at (layout_root w1) q;
                      w2 \<leftarrow> (if cell_type par = LAYOUT_LEFTRIGHT
                            then layout_resize_set_size w1 (j # q) LAYOUT_TOPBOTTOM (cell_sy par)
                            else layout_resize_set_size w1 (j # q) LAYOUT_LEFTRIGHT (cell_sx par));
                      Some (w2, 1) }) } }"

section \<open>Spreading cells evenly\<close>

fun spread_children :: "window \<Rightarrow> cell_ptr \<Rightarrow> layout_type \<Rightarrow> u32 \<Rightarrow> nat list \<Rightarrow> u32 \<Rightarrow> bool \<Rightarrow> (window \<times> bool) option" where
  "spread_children w q ty each [] remainder changed = Some (w, changed)"
| "spread_children w q ty each (k # ks) remainder changed =
     do { lc \<leftarrow> cell_at (layout_root w) (k # q);
          if \<not> layout_cell_is_tiled lc then spread_children w q ty each ks remainder changed
          else do {
            let this = (if ty = LAYOUT_TOPBOTTOM \<and> layout_add_border w (k # q) (border_status w)
                        then u32 (each + 1) else each);
            let change = (if ty = LAYOUT_LEFTRIGHT
                          then i32 (i32 (i32 each - i32 (cell_sx lc)) + (if remainder > 0 then 1 else 0))
                          else i32 (i32 (u32 (this + (if remainder > 0 then 1 else 0))) - i32 (cell_sy lc)));
            w1 \<leftarrow> resize_at w (k # q) ty change;
            spread_children w1 q ty each ks (if remainder > 0 then remainder - 1 else remainder)
              (changed \<or> change \<noteq> 0) } }"

definition layout_spread_cell :: "window \<Rightarrow> cell_ptr \<Rightarrow> (window \<times> bool) option" where
  "layout_spread_cell w q =
     do { parent \<leftarrow> cell_at (layout_root w) q;
          let number = u32 (int (length (filter layout_cell_is_tiled (cells parent))));
          if number \<le> 1 \<or> cell_type parent = LAYOUT_WINDOWPANE then Some (w, False)
          else do {
            let sz = (if cell_type parent = LAYOUT_LEFTRIGHT then cell_sx parent
                      else if layout_add_border w q (border_status w) then u32 (cell_sy parent - 1)
                      else cell_sy parent);
            let each = (sz - (number - 1)) div number;
            if sz < number - 1 \<or> each = 0 then Some (w, False)
            else spread_children w q (cell_type parent) each [0 ..< length (cells parent)]
                   (u32 (u32 (sz - u32 (number * u32 (each + 1))) + 1)) False } }"

fun spread_up :: "window \<Rightarrow> u32 \<Rightarrow> (window_pane \<Rightarrow> bool) \<Rightarrow> cell_ptr \<Rightarrow> window option" where
  "spread_up w inset in_mode q =
     do { (w1, changed) \<leftarrow> layout_spread_cell w q;
          if changed then Some (layout_fix_panes (layout_fix_offsets w1) inset in_mode None)
          else (case q of [] \<Rightarrow> Some w1 | _ # q' \<Rightarrow> spread_up w1 inset in_mode q') }"

definition layout_spread_out :: "window \<Rightarrow> u32 \<Rightarrow> (window_pane \<Rightarrow> bool) \<Rightarrow> cell_ptr \<Rightarrow> window option" where
  "layout_spread_out w inset in_mode p =
     (case p of [] \<Rightarrow> Some w | _ # q \<Rightarrow> spread_up w inset in_mode q)"

end
