(* ===== verification/Layout_Sound.thy ===== *)
theory Layout_Sound
  imports Layout_Split "HOL-Library.Multiset"
begin

text \<open>
  Sound layouts, and that removing and splitting cells keeps them sound: the panes still fill the
  window, whose size does not change, and exactly the intended pane comes or goes.
\<close>

section \<open>Sound layouts\<close>

text \<open>A well-formed layout with no floating cell in which every node has at least two children, as
  the operations of this theory leave it; and the panes of a layout.\<close>

fun proper :: "layout_cell \<Rightarrow> bool" where
  "proper (Cell i cs) \<longleftrightarrow> (ctype i \<noteq> LAYOUT_WINDOWPANE \<longrightarrow> 2 \<le> length cs) \<and> list_all proper cs"

definition sound :: "layout_cell \<Rightarrow> bool" where
  "sound c \<longleftrightarrow> layout_wf c \<and> all_flow c \<and> proper c \<and> in_flow c"

fun leaf_panes :: "layout_cell \<Rightarrow> nat list" where
  "leaf_panes (Cell i cs) =
     (if ctype i = LAYOUT_WINDOWPANE then (case cwp i of None \<Rightarrow> [] | Some n \<Rightarrow> [n])
      else concat (map leaf_panes cs))"

text \<open>\<open>d\<close> may stand in the place of \<open>c\<close>.\<close>

definition fits :: "layout_cell \<Rightarrow> layout_cell \<Rightarrow> bool" where
  "fits d c \<longleftrightarrow> sound d \<and> cell_sx d = cell_sx c \<and> cell_sy d = cell_sy c"

lemma fits_dim: "fits d c \<Longrightarrow> dim ty d = dim ty c \<and> cross ty d = cross ty c"
  by (simp add: fits_def dim_def cross_def)

lemma sound_child: "sound c \<Longrightarrow> k < length (cells c) \<Longrightarrow> sound (cells c ! k)"
proof -
  assume c: "sound c" "k < length (cells c)"
  have "proper (cells c ! k)" using c by (cases c) (simp add: sound_def list_all_length)
  then show "sound (cells c ! k)" using wf_child(1) [of c k] all_flow_child [of c k] c by (simp add: sound_def)
qed

lemma sound_cell_at: "sound root \<Longrightarrow> cell_at root q = Some c \<Longrightarrow> sound c"
proof (induction q arbitrary: c)
  case (Cons j q)
  then show ?case using sound_child by (fastforce split: option.splits if_splits)
qed simp

lemma in_flow_node: "cell_type c \<noteq> LAYOUT_WINDOWPANE \<Longrightarrow> in_flow c \<longleftrightarrow> list_ex in_flow (cells c)"
  by (cases c) (auto simp: in_flow_def layout_cell_is_tiled_def list_ex_iff)

lemma node_sound:
  assumes "ctype i \<noteq> LAYOUT_WINDOWPANE" "list_all sound cs" "2 \<le> length cs"
    and "1 \<le> dim (ctype i) (Cell i cs)" "dim (ctype i) (Cell i cs) \<le> i32_MAX"
    and "1 \<le> cross (ctype i) (Cell i cs)" "cross (ctype i) (Cell i cs) \<le> i32_MAX"
    and "flow_size (dim (ctype i)) cs = dim (ctype i) (Cell i cs)"
    and "list_all (\<lambda>c. cross (ctype i) c = cross (ctype i) (Cell i cs)) cs"
  shows "sound (Cell i cs)"
proof -
  have "list_ex in_flow cs" using assms(2,3) by (cases cs) (auto simp: sound_def)
  then have "layout_wf (Cell i cs)" "in_flow (Cell i cs)"
    using wf_node_iff [OF assms(1), of cs] in_flow_node [of "Cell i cs"] assms
    by (auto simp: flow_ok_def sound_def list_all_iff)
  with assms(2,3) show ?thesis by (auto simp: sound_def list_all_iff)
qed

lemma sound_node_facts:
  assumes "sound c" "cell_type c \<noteq> LAYOUT_WINDOWPANE"
  shows "list_all sound (cells c)" "2 \<le> length (cells c)" "flow_size (dim (cell_type c)) (cells c) = dim (cell_type c) c"
    "list_all (\<lambda>d. cross (cell_type c) d = cross (cell_type c) c) (cells c)"
proof -
  show s: "list_all sound (cells c)" using assms(1) sound_child by (auto simp: list_all_length)
  show "2 \<le> length (cells c)" using assms by (cases c) (auto simp: sound_def)
  have n: "flow_size (dim (cell_type c)) (cells c) = dim (cell_type c) c \<and> flow_ok (cell_type c) (cross (cell_type c) c) (cells c)"
    using wf_node_iff [of "info c" "cells c"] assms by (auto simp: sound_def)
  then show "flow_size (dim (cell_type c)) (cells c) = dim (cell_type c) c"
    "list_all (\<lambda>d. cross (cell_type c) d = cross (cell_type c) c) (cells c)"
    using s by (auto simp: flow_ok_def sound_def list_all_iff)
qed

lemma sound_dim: "sound c \<Longrightarrow> 1 \<le> dim ty c \<and> dim ty c \<le> i32_MAX \<and> 1 \<le> cross ty c \<and> cross ty c \<le> i32_MAX"
  using wf_dim by (simp add: sound_def)

lemma fits_children:
  assumes "sound c" "cell_type c \<noteq> LAYOUT_WINDOWPANE" "list_all sound cs" "2 \<le> length cs"
    "flow_size (dim (cell_type c)) cs = dim (cell_type c) c"
    "list_all (\<lambda>d. cross (cell_type c) d = cross (cell_type c) c) cs"
  shows "fits (Cell (info c) cs) c"
  using node_sound [of "info c" cs] assms sound_dim [OF assms(1), of "cell_type c"] by (simp add: fits_def)

lemma list_all_update: "list_all P xs \<Longrightarrow> P x \<Longrightarrow> list_all P (xs[k := x])"
  by (auto simp: list_all_iff dest!: set_update_subset_insert [THEN subsetD])

lemma fits_child:
  assumes "sound c" "k < length (cells c)" "fits d (cells c ! k)"
  shows "fits (Cell (info c) ((cells c)[k := d])) c"
proof -
  have n: "cell_type c \<noteq> LAYOUT_WINDOWPANE" using wf_node assms(1,2) by (auto simp: sound_def)
  note f = sound_node_facts [OF assms(1) n]
  have "in_flow (cells c ! k)" "in_flow d" "sound d" using sound_child [OF assms(1,2)] assms(3) by (auto simp: sound_def fits_def)
  then show ?thesis
    using f fits_dim [OF assms(3), of "cell_type c"] assms(2)
    by (intro fits_children [OF assms(1) n])
       (auto simp: flow_size_update list_all_length nth_list_update intro!: list_all_update)
qed

lemma fits_update:
  "sound root \<Longrightarrow> cell_at root q = Some c \<Longrightarrow> fits d c \<Longrightarrow> fits (update_at root q (\<lambda>_. d)) root"
proof (induction q arbitrary: c d)
  case (Cons j q)
  then obtain e where e: "cell_at root q = Some e" "j < length (cells e)" "c = cells e ! j"
    by (auto split: option.splits if_splits)
  have "fits (Cell (info e) ((cells e)[j := d])) e"
    using sound_cell_at [OF Cons.prems(1) e(1)] e Cons.prems(3) by (intro fits_child) auto
  then have "fits (update_at root q (\<lambda>_. Cell (info e) ((cells e)[j := d]))) root" using Cons.IH Cons.prems e(1) by blast
  moreover have "update_at root (j # q) (\<lambda>_. d) = update_at root q (\<lambda>_. Cell (info e) ((cells e)[j := d]))"
    unfolding update_at_Cons by (rule update_at_cong [OF e(1)]) (use e in simp)
  ultimately show ?case by simp
qed simp

lemma mset_concat_update:
  "k < length xs \<Longrightarrow> mset (concat (xs[k := ys])) + mset (xs ! k) = mset (concat xs) + mset ys"
proof (induction xs arbitrary: k)
  case (Cons x xs)
  then show ?case by (cases k) auto
qed simp

lemma leaf_panes_cells:
  "cell_type c \<noteq> LAYOUT_WINDOWPANE \<Longrightarrow> leaf_panes c = concat (map leaf_panes (cells c))"
  by (cases c) simp

lemma leaf_panes_update:
  "sound root \<Longrightarrow> cell_at root q = Some c \<Longrightarrow>
     mset (leaf_panes (update_at root q (\<lambda>_. d))) + mset (leaf_panes c) = mset (leaf_panes root) + mset (leaf_panes d)"
proof (induction q arbitrary: c d)
  case (Cons j q)
  then obtain e where e: "cell_at root q = Some e" "j < length (cells e)" "c = cells e ! j"
    by (auto split: option.splits if_splits)
  let ?e = "Cell (info e) ((cells e)[j := d])"
  have n: "cell_type e \<noteq> LAYOUT_WINDOWPANE"
    using wf_node [of e j] sound_cell_at [OF Cons.prems(1) e(1)] e(2) by (auto simp: sound_def)
  have "mset (leaf_panes ?e) + mset (leaf_panes c) = mset (leaf_panes e) + mset (leaf_panes d)"
    using mset_concat_update [of j "map leaf_panes (cells e)" "leaf_panes d"] e n
    by (simp add: leaf_panes_cells map_update)
  moreover have "update_at root (j # q) (\<lambda>_. d) = update_at root q (\<lambda>_. ?e)"
    unfolding update_at_Cons by (rule update_at_cong [OF e(1)]) (use e in simp)
  moreover have "mset (leaf_panes (update_at root q (\<lambda>_. ?e))) + mset (leaf_panes e) = mset (leaf_panes root) + mset (leaf_panes ?e)"
    using Cons.IH [OF Cons.prems(1) e(1), of ?e] .
  ultimately have "mset (leaf_panes (update_at root (j # q) (\<lambda>_. d))) + mset (leaf_panes c) + mset (leaf_panes e)
      = mset (leaf_panes root) + mset (leaf_panes d) + mset (leaf_panes e)"
    by (simp add: ac_simps)
  then show ?case by (rule add_right_imp_eq)
qed simp


section \<open>Removing a pane\<close>

lemma flow_size_append: "flow_size f (xs @ ys) = flow_size f xs + flow_size f ys + 1"
  by (induction xs) (auto simp: flow_size_Cons)

lemma flow_size_drop:
  "j < length cs \<Longrightarrow> in_flow (cs ! j) \<Longrightarrow>
     flow_size f (take j cs @ drop (Suc j) cs) = flow_size f cs - f (cs ! j) - 1"
  using flow_size_append [of f "take j cs" "cs ! j # drop (Suc j) cs"] id_take_nth_drop [of j cs]
  by (simp add: flow_size_append flow_size_Cons)

lemma mset_concat_drop:
  "j < length xs \<Longrightarrow> mset (concat (take j xs @ drop (Suc j) xs)) + mset (xs ! j) = mset (concat xs)"
proof (induction xs arbitrary: j)
  case (Cons x xs)
  then show ?case by (cases j) (auto simp: ac_simps)
qed simp

lemma leaf_panes_shape: "leaf_panes (shape c) = leaf_panes c"
  by (induction c) (auto simp: comp_def intro!: arg_cong [where f = concat])

lemma leaf_panes_cong: "shape c = shape d \<Longrightarrow> leaf_panes c = leaf_panes d"
  by (metis leaf_panes_shape)

lemma proper_shape: "proper (shape c) = proper c"
  by (induction c) (auto simp: list_all_iff)

lemma sound_shape: "layout_wf c' \<Longrightarrow> shape c' = shape c \<Longrightarrow> sound c \<Longrightarrow> sound c'"
  using all_flow_cong [of c' c] in_flow_cong [of c' c] proper_shape [of c] proper_shape [of c']
  by (simp add: sound_def)

lemma resized_sound: "resized ty d c c' \<Longrightarrow> sound c \<Longrightarrow> sound c'"
  using sound_shape by (auto simp: resized_def)

lemma flow_size_mem:
  "flow_ok ty h cs \<Longrightarrow> c \<in> set cs \<Longrightarrow> in_flow c \<Longrightarrow> dim ty c \<le> flow_size (dim ty) cs"
  using flow_size_elem by (metis in_set_conv_nth)

lemma nth_mem_drop: "k < length xs \<Longrightarrow> k \<noteq> j \<Longrightarrow> xs ! k \<in> set (take j xs @ drop (Suc j) xs)"
proof (induction xs arbitrary: j k)
  case (Cons x xs)
  then show ?case by (cases j; cases k) auto
qed simp

text \<open>In a sound layout the nearest sibling takes part in the flow: the next one, or the previous
  one for the last cell.\<close>

lemma neighbour_sound:
  assumes "sound root" "cell_at root q = Some c" "j < length (cells c)" "2 \<le> length (cells c)"
  shows "layout_cell_get_neighbour root (j # q) = Some ((if Suc j < length (cells c) then Suc j else j - 1) # q)"
proof -
  have n: "sibling_count root q = length (cells c)" using assms(2) by (simp add: sibling_count_def)
  have fl: "flow_at root (k # q)" if "k < length (cells c)" for k
    using that assms(2) sound_child [OF sound_cell_at [OF assms(1,2)] that] by (simp add: flow_at_def sound_def)
  show ?thesis
  proof (cases "Suc j < length (cells c)")
    case True
    then show ?thesis
      using fl [of "Suc j"] n
      by (simp add: layout_cell_get_neighbour_def layout_cell_get_neighbour_direction_def upt_conv_Cons)
  next
    case False
    with assms(3,4) obtain i where "j = Suc i" by (cases j) auto
    with False fl [of i] n assms(3) show ?thesis
      by (simp add: layout_cell_get_neighbour_def layout_cell_get_neighbour_direction_def)
  qed
qed

text \<open>The parent after one of its children gave its space to a sibling and went away: itself with
  fewer children, or its last child in its place.\<close>

lemma collapse_fits:
  assumes r: "sound root" "cell_at root q = Some c" "cell_type c \<noteq> LAYOUT_WINDOWPANE"
    and cs: "list_all sound cs" "cs \<noteq> []" "flow_size (dim (cell_type c)) cs = dim (cell_type c) c"
      "list_all (\<lambda>d. cross (cell_type c) d = cross (cell_type c) c) cs"
  shows "\<exists>root'. collapse_parent (update_at root q (\<lambda>_. Cell (info c) cs)) q = Some root' \<and> fits root' root \<and>
    mset (leaf_panes root') + mset (leaf_panes c) = mset (leaf_panes root) + mset (concat (map leaf_panes cs))"
proof (cases "\<exists>d. cs = [d]")
  case True
  then obtain d where d: "cs = [d]" by blast
  have "sound d" "dim (cell_type c) d = dim (cell_type c) c" "cross (cell_type c) d = cross (cell_type c) c"
    using cs d by (auto simp: flow_size_Cons sound_def)
  then have fd: "fits d c" by (auto simp: fits_def dim_def cross_def split: if_splits)
  have at: "cell_at (update_at root q (\<lambda>_. Cell (info c) cs)) q = Some (Cell (info c) [d])"
    using cell_at_update [OF r(2)] d by simp
  show ?thesis
  proof (cases q)
    case Nil
    let ?d = "if layout_cell_is_tiled d then set_offsets 0 0 d else d"
    have "shape ?d = shape d" by (cases d) simp
    moreover have "layout_wf ?d" using fd layout_wf_root_offsets by (auto simp: fits_def sound_def)
    ultimately have "sound ?d" using fd sound_shape by (simp add: fits_def)
    then have "fits ?d root" using fd Nil r(2) by (simp add: fits_def)
    moreover have "leaf_panes ?d = leaf_panes d" using \<open>shape ?d = shape d\<close> by (rule leaf_panes_cong)
    ultimately show ?thesis using at d Nil r(2) by (simp add: collapse_parent_def)
  next
    case (Cons j q')
    have "collapse_parent (update_at root q (\<lambda>_. Cell (info c) cs)) q = Some (update_at root q (\<lambda>_. d))"
      using at Cons d update_at_twice [OF r(2), of "\<lambda>_. Cell (info c) [d]" "\<lambda>_. d"]
      by (simp add: collapse_parent_def)
    then show ?thesis using fits_update [OF r(1,2) fd] leaf_panes_update [OF r(1,2), of d] d by simp
  qed
next
  case False
  then have len: "2 \<le> length cs" using cs(2) by (cases cs; cases "tl cs") auto
  let ?d = "Cell (info c) cs"
  have fd: "fits ?d c" using fits_children [OF sound_cell_at [OF r(1,2)] r(3) cs(1) len cs(3,4)] .
  have at: "cell_at (update_at root q (\<lambda>_. ?d)) q = Some ?d" using cell_at_update [OF r(2)] by simp
  then have "collapse_parent (update_at root q (\<lambda>_. ?d)) q = Some (update_at root q (\<lambda>_. ?d))"
    using False len by (auto simp: collapse_parent_def split: list.splits)
  then show ?thesis using fits_update [OF r(1,2) fd] leaf_panes_update [OF r(1,2), of ?d] r(3) by simp
qed


lemma layout_destroy_cell_spec:
  assumes w: "sound (layout_root w)" and lc: "cell_at (layout_root w) (j # q) = Some lc" "cell_type lc = LAYOUT_WINDOWPANE"
  shows "\<exists>root'. layout_destroy_cell w (j # q) = Some (Some root') \<and> fits root' (layout_root w) \<and>
    mset (leaf_panes root') + mset (leaf_panes lc) = mset (leaf_panes (layout_root w))"
proof -
  let ?root = "layout_root w"
  obtain c where c: "cell_at ?root q = Some c" "j < length (cells c)" "lc = cells c ! j"
    using lc(1) by (auto split: option.splits if_splits)
  let ?ty = "cell_type c" and ?cs = "cells c"
  have sc: "sound c" using sound_cell_at [OF w c(1)] .
  have n: "?ty \<noteq> LAYOUT_WINDOWPANE" using wf_node [OF _ c(2)] sc by (auto simp: sound_def)
  note f = sound_node_facts [OF sc n]
  define k where "k = (if Suc j < length ?cs then Suc j else j - 1)"
  have k: "k < length ?cs" "k \<noteq> j" using c(2) f(2) by (auto simp: k_def)
  have nb: "layout_cell_get_neighbour ?root (j # q) = Some (k # q)"
    using neighbour_sound [OF w c(1,2) f(2)] by (simp add: k_def)
  have sl: "sound lc" "sound (?cs ! k)" using f(1) c k by (auto simp: list_all_length)
  then have tiled: "layout_cell_is_tiled lc" using lc(2) by (cases lc) (auto simp: sound_def in_flow_def)
  let ?d = "dim ?ty lc + 1"
  have fl: "in_flow (?cs ! j)" "in_flow (?cs ! k)" using sl c(3) by (auto simp: sound_def)
  have "dim ?ty (?cs ! k) \<le> flow_size (dim ?ty) (take j ?cs @ drop (Suc j) ?cs)"
    using f(1,4) fl(2) nth_mem_drop [OF k]
    by (intro flow_size_mem [where h = "cross ?ty c"])
       (auto simp: flow_ok_def list_all_iff sound_def dest: in_set_takeD in_set_dropD)
  then have le: "dim ?ty (?cs ! k) + ?d \<le> dim ?ty c"
    using flow_size_drop [OF c(2) fl(1), of "dim ?ty"] f(3) c(3) by simp
  obtain A where A: "layout_resize_adjust w (k # q) (?cs ! k) ?ty ?d = Some A" "resized ?ty ?d (?cs ! k) A"
    using adjust_fuel_grow [OF order_refl, of "?cs ! k" ?ty ?d w "k # q"] n le sl(2) sound_dim [OF sc, of ?ty] sound_dim [OF sl(1), of ?ty]
    by (auto simp: layout_resize_adjust_def sound_def)
  have sA: "sound A" "in_flow A" "dim ?ty A = dim ?ty (?cs ! k) + ?d" "cross ?ty A = cross ?ty c" "leaf_panes A = leaf_panes (?cs ! k)"
    using resized_sound [OF A(2) sl(2)] A(2) f(4) k leaf_panes_cong [of A "?cs ! k"]
    by (auto simp: sound_def resized_def list_all_length)
  let ?cs1 = "?cs[k := A]"
  let ?cs' = "take j ?cs1 @ drop (Suc j) ?cs1"
  have i32: "i32 (i32 (size_along ?ty lc) + 1) = ?d"
    using le sound_dim [OF sc, of ?ty] sound_dim [OF sl(1), of ?ty] sound_dim [OF sl(2), of ?ty]
    by (auto simp: size_along_def dim_def i32_MAX_def i32_id)
  have "layout_destroy_cell w (j # q) = map_option Some (collapse_parent (update_at ?root q (\<lambda>_. Cell (info c) ?cs')) q)"
  proof -
    have "update_at (update_at ?root (k # q) (\<lambda>_. A)) q (drop_child j) = update_at ?root q (\<lambda>_. Cell (info c) ?cs')"
      unfolding update_at_Cons
      by (subst update_at_twice [OF c(1)], rule update_at_cong [OF c(1)]) (use k in \<open>simp add: drop_child_def\<close>)
    moreover have "cell_at ?root (k # q) = Some (?cs ! k)" using c(1) k(1) by simp
    ultimately show ?thesis
      using lc(1) c(1) tiled nb A(1) i32 by (simp add: layout_destroy_cell_def resize_at_def del: cell_at.simps)
  qed
  moreover have "list_all sound ?cs'" "list_all (\<lambda>d. cross ?ty d = cross ?ty c) ?cs'"
    using f(1,4) sA by (auto simp: list_all_iff dest!: set_update_subset_insert [THEN subsetD] in_set_takeD in_set_dropD)
  moreover have "?cs' \<noteq> []" using f(2) c(2) by (auto simp: drop_eq_Nil) 
  moreover have "flow_size (dim ?ty) ?cs' = dim ?ty c"
    using flow_size_drop [of j ?cs1 "dim ?ty"] c(2,3) k fl sA f(3) by (simp add: flow_size_update)
  moreover have "mset (concat (map leaf_panes ?cs')) + mset (leaf_panes lc) = mset (leaf_panes c)"
  proof -
    have "map leaf_panes ?cs1 = map leaf_panes ?cs" using sA(5) k by (metis list_update_id map_update)
    then show ?thesis
      using mset_concat_drop [of j "map leaf_panes ?cs"] c(2,3) n
      by (simp add: leaf_panes_cells flip: take_map drop_map)
  qed
  note ms = this
  ultimately obtain root' where root': "layout_destroy_cell w (j # q) = Some (Some root')" "fits root' ?root"
      "mset (leaf_panes root') + mset (leaf_panes c) = mset (leaf_panes ?root) + mset (concat (map leaf_panes ?cs'))"
    using collapse_fits [OF w c(1) n, of ?cs'] by auto
  have "mset (leaf_panes root') + mset (leaf_panes lc) + mset (concat (map leaf_panes ?cs'))
      = mset (leaf_panes ?root) + mset (concat (map leaf_panes ?cs'))"
    using root'(3) unfolding ms [symmetric] by (simp only: ac_simps)
  then show ?thesis using root'(1,2) add_right_imp_eq by blast
qed


text \<open>C5: closing a pane of a sound layout that has another pane always returns and leaves a sound
  layout of the same size, in which the panes do not overlap and exactly the closed pane is gone.\<close>

theorem layout_close_pane_sound:
  assumes "sound (layout_root w)" "cell_at (layout_root w) p = Some lc" "cell_type lc = LAYOUT_WINDOWPANE" "p \<noteq> []"
  shows "\<exists>w'. layout_close_pane w inset in_mode p = Some (Some w') \<and> sound (layout_root w') \<and>
    cell_sx (layout_root w') = cell_sx (layout_root w) \<and> cell_sy (layout_root w') = cell_sy (layout_root w) \<and>
    mset (leaf_panes (layout_root w')) + mset (leaf_panes lc) = mset (leaf_panes (layout_root w)) \<and>
    sorted_wrt disjoint_cells (tiled_leaves (layout_root w'))"
proof -
  obtain j q where p: "p = j # q" using assms(4) by (cases p) auto
  obtain r where r: "layout_destroy_cell w p = Some (Some r)" "fits r (layout_root w)"
      "mset (leaf_panes r) + mset (leaf_panes lc) = mset (leaf_panes (layout_root w))"
    using layout_destroy_cell_spec [OF assms(1) _ assms(3)] assms(2) p by blast
  let ?w = "w\<lparr>layout_root := r\<rparr>"
  have wf: "layout_wf (layout_root ?w)" using r(2) by (simp add: fits_def sound_def)
  have "sound (layout_root (layout_fix_offsets ?w))"
    using sound_shape [OF layout_fix_offsets_wf [OF wf] layout_fix_offsets_shape] r(2) by (simp add: fits_def)
  then show ?thesis
    using r layout_fix_offsets_disjoint [OF wf] leaf_panes_cong [OF layout_fix_offsets_shape, of ?w]
    by (auto simp: layout_close_pane_def fits_def)
qed

theorem layout_close_pane_sound_witness:
  "\<exists>w'. layout_close_pane example_window 0 (\<lambda>_. False) [0, 1] = Some (Some w') \<and> sound (layout_root w') \<and>
     cell_sx (layout_root w') = 80 \<and> mset (leaf_panes (layout_root w')) = {#0, 2#}"
proof -
  have w: "sound (layout_root example_window)" "cell_at (layout_root example_window) [0, 1] = Some (example_leaf 1 39 12)"
    "cell_type (example_leaf 1 39 12) = LAYOUT_WINDOWPANE" "cell_sx (layout_root example_window) = 80"
    "leaf_panes (example_leaf 1 39 12) = [1]" "leaf_panes (layout_root example_window) = [0, 1, 2]"
    by code_simp+
  obtain w' where "layout_close_pane example_window 0 (\<lambda>_. False) [0, 1] = Some (Some w')" "sound (layout_root w')"
    "cell_sx (layout_root w') = 80" "mset (leaf_panes (layout_root w')) + {#1#} = {#0, 1, 2#}"
    using layout_close_pane_sound [OF w(1-3), of 0 "\<lambda>_. False"] w(4-6) by auto
  moreover have "{#0, 1, 2::nat#} = {#0, 2#} + {#1#}" by simp
  ultimately show ?thesis by (metis add_right_imp_eq)
qed


section \<open>Splitting a pane\<close>

text \<open>The requests that \<open>layout_split_sizes\<close> turns into two real panes: every one for a split into
  left and right, and for a split into top and bottom the default or a size that leaves a line.\<close>

definition request_ok :: "layout_cell \<Rightarrow> layout_type \<Rightarrow> i32 \<Rightarrow> bool" where
  "request_ok lc ty sz \<longleftrightarrow> ty = LAYOUT_LEFTRIGHT \<or> sz < 0 \<or> (1 \<le> sz \<and> sz \<le> cell_sy lc - 2)"

lemma u32_nonneg: "0 \<le> u32 x"
  by (simp add: u32_def)

lemma split_sizes_ok:
  assumes "request_ok lc ty sz" "layout_wf lc" "3 \<le> size_along ty lc" "layout_split_sizes lc sz before ty = (s1, s2, ss)"
  shows "1 \<le> s1 \<and> 1 \<le> s2 \<and> s1 + s2 + 1 = dim ty lc"
proof -
  have ss: "size_along ty lc = dim ty lc" by (simp add: size_along_def dim_def)
  have b: "1 \<le> cell_sx lc" "dim ty lc \<le> i32_MAX" "3 \<le> dim ty lc" "cell_sx lc \<le> i32_MAX"
    using layout_wf_bounds [OF assms(2)] wf_dim [OF assms(2), of ty] assms(3) ss by auto
  define a where "a = (if sz < 0 then u32 ((dim ty lc + 1) div 2 - 1)
      else if before then u32 (u32 (dim ty lc - u32 sz) - 1) else u32 sz)"
  have lim: "a \<le> dim ty lc - 2 \<or> a > u32 (cell_sx lc - 2)"
  proof (cases "ty = LAYOUT_LEFTRIGHT")
    case True
    then show ?thesis using b by (auto simp: dim_def u32_id i32_MAX_def)
  next
    case False
    then have "sz < 0 \<or> 1 \<le> sz \<and> sz \<le> dim ty lc - 2" using assms(1) by (auto simp: request_ok_def dim_def)
    then have "a \<le> dim ty lc - 2" using b by (auto simp: a_def u32_id i32_MAX_def)
    then show ?thesis ..
  qed
  have s2: "s2 = (if a < 1 then 1 else if a > u32 (cell_sx lc - 2) then dim ty lc - 2 else a)"
    and s1: "s1 = u32 (u32 (dim ty lc - 1) - s2)"
    using assms(4) b by (auto simp: layout_split_sizes_def Let_def ss a_def PANE_MINIMUM_def u32_id i32_MAX_def)
  have "1 \<le> s2" "s2 \<le> dim ty lc - 2" using s2 lim b by (auto split: if_splits)
  then show ?thesis using s1 b by (simp add: u32_id i32_MAX_def)
qed

lemma set_size_sound:
  assumes "cell_type c = LAYOUT_WINDOWPANE" "\<not> cell_floating c" "cells c = []"
    "1 \<le> a" "a \<le> i32_MAX" "1 \<le> b" "b \<le> i32_MAX"
  shows "sound (layout_set_size c a b x y)"
  using assms by (simp add: sound_def layout_set_size_def layout_wf.simps in_flow_def layout_cell_is_tiled_def cell_floating_def)

lemma create_cell_leaf: "cell_type layout_create_cell = LAYOUT_WINDOWPANE" "\<not> cell_floating layout_create_cell"
  "cells layout_create_cell = []" "leaf_panes layout_create_cell = []"
  by (simp_all add: layout_create_cell_def cell_floating_def)

text \<open>The halves fill the old cell along \<open>ty\<close> and are as wide as it across.\<close>

lemma set_halves_spec:
  assumes "set_halves ty old s1 s2 lc1 lc2 = (d1, d2)" "layout_wf old" "ty \<noteq> LAYOUT_WINDOWPANE"
    and "1 \<le> s1" "1 \<le> s2" "s1 + s2 + 1 = dim ty old"
    and "cell_type lc1 = LAYOUT_WINDOWPANE" "\<not> cell_floating lc1" "cells lc1 = []"
    and "cell_type lc2 = LAYOUT_WINDOWPANE" "\<not> cell_floating lc2" "cells lc2 = []"
  shows "sound d1" "sound d2" "dim ty d1 = s1" "dim ty d2 = s2" "cross ty d1 = cross ty old" "cross ty d2 = cross ty old"
    "leaf_panes d1 = leaf_panes lc1" "leaf_panes d2 = leaf_panes lc2"
    "cell_type d1 = LAYOUT_WINDOWPANE" "cell_type d2 = LAYOUT_WINDOWPANE" "cwp (info d1) = cwp (info lc1)" "cwp (info d2) = cwp (info lc2)"
proof -
  note b = wf_dim [OF assms(2), of ty] layout_wf_bounds [OF assms(2)]
  have d: "(\<exists>a b x y. d1 = layout_set_size lc1 a b x y \<and> 1 \<le> a \<and> a \<le> i32_MAX \<and> 1 \<le> b \<and> b \<le> i32_MAX) \<and>
     (\<exists>a b x y. d2 = layout_set_size lc2 a b x y \<and> 1 \<le> a \<and> a \<le> i32_MAX \<and> 1 \<le> b \<and> b \<le> i32_MAX)"
    using assms(1,4-6) b by (fastforce simp: set_halves_def Let_def split: if_splits)
  then show "sound d1" "sound d2" using set_size_sound assms(7-12) by blast+
  show "dim ty d1 = s1" "dim ty d2 = s2" "cross ty d1 = cross ty old" "cross ty d2 = cross ty old"
    using assms(1) by (auto simp: set_halves_def Let_def dim_def cross_def layout_set_size_def split: if_splits)
  show "leaf_panes d1 = leaf_panes lc1" "leaf_panes d2 = leaf_panes lc2"
    "cell_type d1 = LAYOUT_WINDOWPANE" "cell_type d2 = LAYOUT_WINDOWPANE" "cwp (info d1) = cwp (info lc1)" "cwp (info d2) = cwp (info lc2)"
    using d assms(7,10) by (cases lc1; cases lc2; auto simp: layout_set_size_def)+
qed

lemma flow_size_insert:
  "in_flow d \<Longrightarrow> flow_size f (take k xs @ d # drop k xs) = flow_size f xs + f d + 1"
  using flow_size_append [of f "take k xs" "drop k xs"] by (simp add: flow_size_append flow_size_Cons)

lemma mset_concat_insert: "mset (concat (take k xs @ y # drop k xs)) = mset (concat xs) + mset y"
proof -
  have "mset (concat xs) = mset (concat (take k xs)) + mset (concat (drop k xs))"
    by (metis append_take_drop_id concat_append mset_append)
  then show ?thesis by (simp add: ac_simps)
qed

lemma make_leaf_same:
  "cell_type d = LAYOUT_WINDOWPANE \<Longrightarrow> cells d = [] \<Longrightarrow> cwp (info d) = Some n \<Longrightarrow> layout_make_leaf d n = d"
  by (cases d) (simp add: layout_make_leaf_def)

lemma sound_leaf: "sound c \<Longrightarrow> cell_type c = LAYOUT_WINDOWPANE \<Longrightarrow> \<not> cell_floating c \<and> cells c = []"
  by (cases c) (auto simp: sound_def layout_wf.simps in_flow_def layout_cell_is_tiled_def)


lemma insert_child_fits:
  assumes "sound c" "j < length (cells c)" "sound d" "sound e"
    "cross (cell_type c) d = cross (cell_type c) c" "cross (cell_type c) e = cross (cell_type c) c"
    "dim (cell_type c) d + dim (cell_type c) e + 1 = dim (cell_type c) (cells c ! j)"
    "leaf_panes d = leaf_panes (cells c ! j)" "leaf_panes e = []"
  shows "fits (insert_child k e (Cell (info c) ((cells c)[j := d]))) c \<and>
    mset (leaf_panes (insert_child k e (Cell (info c) ((cells c)[j := d])))) = mset (leaf_panes c)"
proof -
  let ?cs = "(cells c)[j := d]"
  have n: "cell_type c \<noteq> LAYOUT_WINDOWPANE" using wf_node assms(1,2) by (auto simp: sound_def)
  note f = sound_node_facts [OF assms(1) n]
  have fl: "in_flow d" "in_flow e" "in_flow (cells c ! j)"
    using assms(3,4) sound_child [OF assms(1,2)] by (auto simp: sound_def)
  have "list_all sound (take k ?cs @ e # drop k ?cs)"
      "list_all (\<lambda>d. cross (cell_type c) d = cross (cell_type c) c) (take k ?cs @ e # drop k ?cs)"
    using list_all_update [OF f(1) assms(3), of j] list_all_update [OF f(4) assms(5), of j] assms(4,6)
    by (auto simp: list_all_iff dest: in_set_takeD in_set_dropD)
  moreover have "flow_size (dim (cell_type c)) (take k ?cs @ e # drop k ?cs) = dim (cell_type c) c"
    using f(3) assms(2,7) fl by (simp add: flow_size_insert flow_size_update)
  moreover have "2 \<le> length (take k ?cs @ e # drop k ?cs)" using f(2) by simp
  ultimately have "fits (Cell (info c) (take k ?cs @ e # drop k ?cs)) c"
    using fits_children [OF assms(1) n] by blast
  moreover have "map leaf_panes ?cs = map leaf_panes (cells c)" using assms(8) by (metis list_update_id map_update)
  then have "mset (leaf_panes (Cell (info c) (take k ?cs @ e # drop k ?cs))) = mset (leaf_panes c)"
    using mset_concat_insert [of k "map leaf_panes ?cs" "leaf_panes e"] n assms(9)
    by (simp add: leaf_panes_cells flip: take_map drop_map)
  ultimately show ?thesis by (simp add: insert_child_def)
qed

lemma two_cells_fit:
  assumes "sound lc" "ty \<noteq> LAYOUT_WINDOWPANE" "sound d" "sound e" "cross ty d = cross ty lc" "cross ty e = cross ty lc"
    "dim ty d + dim ty e + 1 = dim ty lc" "ctype i = ty" "sx i = cell_sx lc" "sy i = cell_sy lc"
  shows "fits (Cell i [d, e]) lc"
proof -
  have s: "dim ty (Cell i [d, e]) = dim ty lc" "cross ty (Cell i [d, e]) = cross ty lc"
    using assms(9,10) by (simp_all add: dim_def cross_def)
  have "sound (Cell i [d, e])"
    using assms(1-8) s sound_dim [OF assms(1), of ty]
    by (intro node_sound) (auto simp: flow_size_Cons sound_def)
  then show ?thesis using assms(9,10) by (simp add: fits_def)
qed

lemma split_room:
  assumes "layout_split_check_space w wp p lc ty = Some True" "1 \<le> p_sb_width wp" "p_sb_width wp \<le> 10000"
    "0 \<le> p_sb_pad wp" "p_sb_pad wp \<le> 10000"
  shows "3 \<le> size_along ty lc \<and> ty \<noteq> LAYOUT_WINDOWPANE \<and> \<not> cell_floating lc"
  using assms by (auto simp: layout_split_check_space_def size_along_def PANE_MINIMUM_def u32_id Let_def
      split: if_splits layout_type.splits)

lemma set_cell_cong: "cell_at (layout_root w) q = Some c \<Longrightarrow> f c = g c \<Longrightarrow> set_cell w q f = set_cell w q g"
  using update_at_cong by metis

lemma split_beside_spec:
  assumes w: "sound (layout_root w)" and c: "cell_at (layout_root w) q = Some c" "j < length (cells c)" "cell_type c = ty"
    and lc: "lc = cells c ! j" "cell_type lc = LAYOUT_WINDOWPANE" "cwp (info lc) = Some (pane_id wp)"
    and s: "1 \<le> s1" "1 \<le> s2" "s1 + s2 + 1 = dim ty lc"
  shows "\<exists>w' n new. split_beside w wp j q lc ty s1 s2 before = (w', n) \<and> fits (layout_root w') (layout_root w) \<and>
    mset (leaf_panes (layout_root w')) = mset (leaf_panes (layout_root w)) \<and>
    cell_at (layout_root w') n = Some new \<and> cell_type new = LAYOUT_WINDOWPANE \<and> dim ty new = (if before then s1 else s2)"
proof -
  let ?root = "layout_root w"
  have sc: "sound c" "sound lc" using sound_cell_at [OF w c(1)] sound_child c lc(1) by auto
  have n: "ty \<noteq> LAYOUT_WINDOWPANE" using wf_node [OF _ c(2)] sc c(3) by (auto simp: sound_def)
  have leaf: "\<not> cell_floating lc" "cells lc = []" "layout_wf lc" using sound_leaf [OF sc(2) lc(2)] sc by (auto simp: sound_def)
  have cr: "cross ty lc = cross ty c" using wf_child(2) [of c j] sc c lc(1) by (auto simp: sound_def)
  obtain d1 d2 where d: "set_halves ty lc s1 s2 (if before then layout_create_cell else lc)
      (if before then lc else layout_create_cell) = (d1, d2)" by fastforce
  have lc1: "cell_type (if before then layout_create_cell else lc) = LAYOUT_WINDOWPANE"
      "\<not> cell_floating (if before then layout_create_cell else lc)" "cells (if before then layout_create_cell else lc) = []"
      "cell_type (if before then lc else layout_create_cell) = LAYOUT_WINDOWPANE"
      "\<not> cell_floating (if before then lc else layout_create_cell)" "cells (if before then lc else layout_create_cell) = []"
    using create_cell_leaf lc(2) leaf by auto
  note h = set_halves_spec [OF d leaf(3) n s lc1]
  let ?new = "if before then d1 else d2" and ?old = "if before then d2 else d1" and ?k = "if before then j else Suc j"
  have old: "layout_make_leaf ?old (pane_id wp) = ?old"
    using h(9-12) lc(3) sound_leaf [OF h(1)] sound_leaf [OF h(2)] by (auto intro!: make_leaf_same)
  let ?c = "insert_child ?k ?new (Cell (info c) ((cells c)[j := ?old]))"
  have fit: "fits ?c c \<and> mset (leaf_panes ?c) = mset (leaf_panes c)"
    using h cr s(3) create_cell_leaf(4) by (intro insert_child_fits [OF sc(1) c(2)]) (auto simp: c(3) lc(1))
  have eq: "split_beside w wp j q lc ty s1 s2 before = (set_cell w q (\<lambda>_. ?c), ?k # q)"
    using d old by (cases before) (auto simp: split_beside_def intro!: set_cell_cong [OF c(1)])
  have at: "cell_at (update_at ?root q (\<lambda>_. ?c)) (?k # q) = Some ?new"
    using cell_at_update [OF c(1), of "\<lambda>_. ?c"] c(2) by (simp add: insert_child_def nth_append)
  have "mset (leaf_panes (update_at ?root q (\<lambda>_. ?c))) = mset (leaf_panes ?root)"
    using leaf_panes_update [OF w c(1), of ?c] fit by simp
  moreover have "fits (update_at ?root q (\<lambda>_. ?c)) ?root" using fits_update [OF w c(1)] fit by blast
  ultimately show ?thesis
    using eq at h(3,4,9,10) by (intro exI [of _ "set_cell w q (\<lambda>_. ?c)"] exI [of _ "?k # q"] exI [of _ ?new]) auto
qed


lemma split_node_spec:
  assumes w: "sound (layout_root w)" and p: "cell_at (layout_root w) p = Some lc" and ty: "ty \<noteq> LAYOUT_WINDOWPANE"
    and lc: "cell_type lc = LAYOUT_WINDOWPANE" "cwp (info lc) = Some (pane_id wp)"
    and s: "1 \<le> s1" "1 \<le> s2" "s1 + s2 + 1 = dim ty lc"
  shows "\<exists>w' n new. split_node w wp p lc ty s1 s2 before False = Some (w', n) \<and> fits (layout_root w') (layout_root w) \<and>
    mset (leaf_panes (layout_root w')) = mset (leaf_panes (layout_root w)) \<and>
    cell_at (layout_root w') n = Some new \<and> cell_type new = LAYOUT_WINDOWPANE \<and> dim ty new = (if before then s1 else s2)"
proof -
  let ?root = "layout_root w"
  have sc: "sound lc" using sound_cell_at [OF w p] .
  have leaf: "\<not> cell_floating lc" "cells lc = []" "layout_wf lc" using sound_leaf [OF sc lc(1)] sc by (auto simp: sound_def)
  let ?a = "if before then layout_create_cell else lc" and ?b = "if before then lc else layout_create_cell"
  obtain d1 d2 where d: "set_halves ty lc s1 s2 ?a ?b = (d1, d2)" by fastforce
  have ab: "cell_type ?a = LAYOUT_WINDOWPANE" "\<not> cell_floating ?a" "cells ?a = []"
      "cell_type ?b = LAYOUT_WINDOWPANE" "\<not> cell_floating ?b" "cells ?b = []"
    using create_cell_leaf lc leaf by auto
  note h = set_halves_spec [OF d leaf(3) ty s ab]
  let ?new = "if before then d1 else d2" and ?old = "if before then d2 else d1" and ?k = "if before then 0 else 1 :: nat"
  obtain node where node: "layout_make_node layout_create_cell ty = Some node" "cell_type node = ty"
    using ty by (simp add: layout_make_node_def)
  let ?i = "info (layout_set_size node (cell_sx lc) (cell_sy lc) (u32 (cell_xoff lc)) (u32 (cell_yoff lc)))"
  let ?n = "Cell ?i [d1, d2]"
  have i: "ctype ?i = ty" "sx ?i = cell_sx lc" "sy ?i = cell_sy lc" using node(2) by (simp_all add: layout_set_size_def)
  have fit: "fits ?n lc" using h s(3) i by (intro two_cells_fit [OF sc ty]) auto
  have old: "layout_make_leaf ?old (pane_id wp) = ?old"
    using h(9-12) lc(2) sound_leaf [OF h(1)] sound_leaf [OF h(2)] by (auto intro!: make_leaf_same)
  let ?r1 = "update_at ?root p (\<lambda>_. Cell ?i [lc])"
  have at1: "cell_at ?r1 p = Some (Cell ?i [lc])" using cell_at_update [OF p, of "\<lambda>_. Cell ?i [lc]"] by simp
  have r2: "update_at ?r1 p (\<lambda>node. Cell (info node) [d1, d2]) = update_at ?root p (\<lambda>_. ?n)"
    using update_at_twice [OF p] by simp
  have at2: "cell_at (update_at ?root p (\<lambda>_. ?n)) p = Some ?n" using cell_at_update [OF p, of "\<lambda>_. ?n"] by simp
  have r3: "update_at (update_at ?root p (\<lambda>_. ?n)) ((if before then 1 else 0) # p) (\<lambda>c. layout_make_leaf c (pane_id wp))
      = update_at ?root p (\<lambda>_. ?n)"
    unfolding update_at_Cons using old by (subst update_at_twice [OF p], intro update_at_cong [OF p]) auto
  have "split_node w wp p lc ty s1 s2 before False = Some (set_cell w p (\<lambda>_. ?n), ?k # p)"
    using p node(1) d r2 r3 by (cases before) (simp_all add: split_node_def layout_replace_with_node_def)
  moreover have "cell_at (update_at ?root p (\<lambda>_. ?n)) (?k # p) = Some ?new" using at2 by simp
  moreover have "mset (leaf_panes (update_at ?root p (\<lambda>_. ?n))) = mset (leaf_panes ?root)"
  proof -
    have "leaf_panes ?n = leaf_panes lc" using h(7,8) create_cell_leaf(4) i(1) ty by auto
    then show ?thesis using leaf_panes_update [OF w p, of ?n] by simp
  qed
  ultimately show ?thesis
    using fits_update [OF w p fit] h(3,4,9,10)
    by (intro exI [of _ "set_cell w p (\<lambda>_. ?n)"] exI [of _ "?k # p"] exI [of _ ?new]) auto
qed


text \<open>C6: splitting one pane of a sound layout, that is not over the full size of the window, for a
  request that \<^const>\<open>request_ok\<close> admits (any size from left to right; from top to bottom the default or
  a size from 1 to two lines less than the pane), either finds no room and changes nothing, or finds
  room and gives a sound layout of the same size with the same panes and one more leaf, the new cell,
  of the size that \<open>layout_split_sizes\<close> asks for; the two sizes and the separator make up the old
  cell.  Outside this range \<open>layout_split_pane_tall\<close> below shows what goes wrong.\<close>

theorem layout_split_pane_sound:
  assumes "sound (layout_root w)" "cell_at (layout_root w) p = Some lc" "cell_type lc = LAYOUT_WINDOWPANE"
    and "cwp (info lc) = Some (pane_id wp)" "ty \<noteq> LAYOUT_WINDOWPANE" "request_ok lc ty sz"
    and "1 \<le> p_sb_width wp" "p_sb_width wp \<le> 10000" "0 \<le> p_sb_pad wp" "p_sb_pad wp \<le> 10000"
    and "layout_split_sizes lc sz before ty = (s1, s2, ss)"
  shows "(layout_split_pane w wp p ty sz before False = Some None \<and> layout_split_check_space w wp p lc ty = Some False) \<or>
    (layout_split_check_space w wp p lc ty = Some True \<and>
     (\<exists>w' n new. layout_split_pane w wp p ty sz before False = Some (Some (w', n)) \<and> sound (layout_root w') \<and>
       cell_sx (layout_root w') = cell_sx (layout_root w) \<and> cell_sy (layout_root w') = cell_sy (layout_root w) \<and>
       mset (leaf_panes (layout_root w')) = mset (leaf_panes (layout_root w)) \<and>
       cell_at (layout_root w') n = Some new \<and> cell_type new = LAYOUT_WINDOWPANE \<and>
       size_along ty new = (if before then s1 else s2) \<and> s1 + s2 + 1 = size_along ty lc))"
proof -
  have sl: "sound lc" using sound_cell_at [OF assms(1,2)] .
  have dim: "size_along ty = dim ty" by (simp add: size_along_def dim_def fun_eq_iff)
  have "\<not> cell_floating lc" using sound_leaf [OF sl assms(3)] by blast
  then obtain b where b: "layout_split_check_space w wp p lc ty = Some b"
    using assms(5) by (cases ty) (auto simp: layout_split_check_space_def Let_def)
  show ?thesis
  proof (cases b)
    case False
    then show ?thesis using b assms(2) by (simp add: layout_split_pane_def)
  next
    case True
    then have room: "layout_split_check_space w wp p lc ty = Some True" using b by simp
    have s: "1 \<le> s1" "1 \<le> s2" "s1 + s2 + 1 = dim ty lc"
      using split_sizes_ok [OF assms(6) _ _ assms(11)] split_room [OF room assms(7-10)] sl by (auto simp: sound_def)
    have "\<exists>w' n new. layout_split_pane w wp p ty sz before False = Some (Some (w', n)) \<and>
        fits (layout_root w') (layout_root w) \<and> mset (leaf_panes (layout_root w')) = mset (leaf_panes (layout_root w)) \<and>
        cell_at (layout_root w') n = Some new \<and> cell_type new = LAYOUT_WINDOWPANE \<and> dim ty new = (if before then s1 else s2)"
    proof (cases "\<exists>j q c. p = j # q \<and> cell_at (layout_root w) q = Some c \<and> cell_type c = ty")
      case True
      then obtain j q c where c: "p = j # q" "cell_at (layout_root w) q = Some c" "cell_type c = ty" by blast
      then have lc: "j < length (cells c)" "lc = cells c ! j" using assms(2) by (auto split: if_splits)
      show ?thesis
        using split_beside_spec [OF assms(1) c(2) lc(1) c(3) lc(2) assms(3,4) s, of before] room assms(2,11) c
        by (auto simp: layout_split_pane_def simp del: cell_at.simps)
    next
      case False
      then have "layout_split_pane w wp p ty sz before False = map_option Some (split_node w wp p lc ty s1 s2 before False)"
        using room assms(2,11) by (auto simp: layout_split_pane_def simp del: cell_at.simps split: list.splits)
      then show ?thesis using split_node_spec [OF assms(1,2,5,3,4) s, of before] by auto
    qed
    then show ?thesis using s(3) room unfolding dim fits_def by blast
  qed
qed

theorem layout_split_pane_sound_witness:
  "\<exists>w' n new. layout_split_pane example_window (example_pane 1) [0, 1] LAYOUT_TOPBOTTOM (- 1) False False = Some (Some (w', n)) \<and>
     sound (layout_root w') \<and> cell_at (layout_root w') n = Some new \<and> size_along LAYOUT_TOPBOTTOM new = 5"
proof -
  have w: "sound (layout_root example_window)" "cell_at (layout_root example_window) [0, 1] = Some (example_leaf 1 39 12)"
    "cell_type (example_leaf 1 39 12) = LAYOUT_WINDOWPANE" "cwp (info (example_leaf 1 39 12)) = Some (pane_id (example_pane 1))"
    "LAYOUT_TOPBOTTOM \<noteq> LAYOUT_WINDOWPANE" "request_ok (example_leaf 1 39 12) LAYOUT_TOPBOTTOM (- 1)"
    "1 \<le> p_sb_width (example_pane 1)" "p_sb_width (example_pane 1) \<le> 10000" "0 \<le> p_sb_pad (example_pane 1)"
    "p_sb_pad (example_pane 1) \<le> 10000"
    "layout_split_sizes (example_leaf 1 39 12) (- 1) False LAYOUT_TOPBOTTOM = (6, 5, 12)"
    by code_simp+
  have "layout_split_check_space example_window (example_pane 1) [0, 1] (example_leaf 1 39 12) LAYOUT_TOPBOTTOM = Some True"
    by code_simp
  then show ?thesis using layout_split_pane_sound [OF w] by auto
qed

section \<open>Two ways to leave the sound layouts\<close>

definition one_pane_window :: "u32 \<Rightarrow> u32 \<Rightarrow> window" where
  "one_pane_window a b = example_window\<lparr>w_sx := a, w_sy := b, layout_root := example_leaf 0 a b, panes := [example_pane 0]\<rparr>"

text \<open>\<open>layout_split_sizes\<close> limits the new size by the width of the cell even when it splits into
  top and bottom.  Asking for 30 lines in a pane of 80 columns and 10 lines is granted: the old pane
  gets a height of almost \<open>2 ^ 32\<close> and the layout is no longer well formed.\<close>

theorem layout_split_pane_tall:
  "sound (layout_root (one_pane_window 80 10)) \<and>
   (\<exists>w' n. layout_split_pane (one_pane_window 80 10) (example_pane 0) [] LAYOUT_TOPBOTTOM 30 False False = Some (Some (w', n)) \<and>
      map cell_sy (tiled_leaves (layout_root w')) = [4294967275, 30] \<and> \<not> layout_wf (layout_root w'))"
proof -
  let ?r = "layout_split_pane (one_pane_window 80 10) (example_pane 0) [] LAYOUT_TOPBOTTOM 30 False False"
  have "sound (layout_root (one_pane_window 80 10))" by code_simp
  moreover have "(case ?r of Some (Some (w', n)) \<Rightarrow>
      map cell_sy (tiled_leaves (layout_root w')) = [4294967275, 30] \<and> \<not> layout_wf (layout_root w') | _ \<Rightarrow> False)"
    by code_simp
  ultimately show ?thesis by (auto split: option.splits)
qed

definition nested_window :: window where
  "nested_window = example_window\<lparr>layout_root := example_node LAYOUT_LEFTRIGHT 80 24
     [example_leaf 0 20 24, example_leaf 1 19 24,
      example_node LAYOUT_TOPBOTTOM 39 24 [example_leaf 2 39 12, example_leaf 3 39 11]]\<rparr>"

text \<open>\<open>layout_spread_cell\<close> counts and resizes only the children that are panes.  Beside a child
  that is itself split, the panes are given the whole width, and the children no longer fit: 40, 39
  and 39 columns in a window of 80.\<close>

theorem layout_spread_cell_nested:
  "sound (layout_root nested_window) \<and>
   (\<exists>w'. layout_spread_cell nested_window [] = Some (w', True) \<and>
      map cell_sx (cells (layout_root w')) = [40, 39, 39] \<and> \<not> layout_wf (layout_root w'))"
proof -
  have "sound (layout_root nested_window)" by code_simp
  moreover have "(case layout_spread_cell nested_window [] of Some (w', True) \<Rightarrow>
      map cell_sx (cells (layout_root w')) = [40, 39, 39] \<and> \<not> layout_wf (layout_root w') | _ \<Rightarrow> False)"
    by code_simp
  ultimately show ?thesis by (auto split: option.splits bool.splits)
qed

end
