(* ===== verification/Layout_Custom.thy ===== *)
theory Layout_Custom
  imports Layout_Sound
begin

text \<open>
  Layout strings (\<open>layout_custom.rs\<close>): the checksum, printing a layout with \<open>layout_dump\<close>,
  reading one with \<open>layout_construct\<close>, the size check and \<open>layout_parse\<close>, which applies a
  string to a window.

  A C string is the list of its characters up to the terminating NUL.  \<open>sscanf\<close> belongs to the C
  library: \<open>%u\<close> reads a run of decimal digits as glibc does, saturating at \<open>2 ^ 64 - 1\<close> and
  keeping the low 32 bits, and \<open>%hx\<close> keeps the low 16 bits of a hexadecimal number.
\<close>

section \<open>Characters and numbers\<close>

definition show_u32 :: "u32 \<Rightarrow> string" where
  "show_u32 n = show_nat (nat n)"

definition hex_digit :: "nat \<Rightarrow> char" where
  "hex_digit n = (if n < 10 then char_of (48 + n) else char_of (87 + n))"

text \<open>The format \<open>{:04x}\<close> on a \<open>u16\<close>.\<close>

definition show_hex4 :: "u16 \<Rightarrow> string" where
  "show_hex4 n = map (\<lambda>k. hex_digit (nat n div 16 ^ k mod 16)) [3, 2, 1, 0]"

definition hex_val :: "char \<Rightarrow> int option" where
  "hex_val c =
     (if digit c then Some (of_char c - 48)
      else if 97 \<le> (of_char c :: int) \<and> (of_char c :: int) \<le> 102 then Some (of_char c - 87)
      else if 65 \<le> (of_char c :: int) \<and> (of_char c :: int) \<le> 70 then Some (of_char c - 55)
      else None)"

definition white :: "char \<Rightarrow> bool" where
  "white c \<longleftrightarrow> c = CHR '' '' \<or> 9 \<le> (of_char c :: int) \<and> (of_char c :: int) \<le> 13"

definition hex_run :: "string \<Rightarrow> string" where
  "hex_run s = takeWhile (\<lambda>c. hex_val c \<noteq> None) s"

definition hex_num :: "string \<Rightarrow> int" where
  "hex_num s = fold (\<lambda>c n. n * 16 + the (hex_val c)) s 0"

text \<open>\<open>sscanf(s, "%hx,", ...)\<close>: \<^const>\<open>None\<close> when no number is read.\<close>

definition scan_hx :: "string \<Rightarrow> u16 option" where
  "scan_hx s =
     (let s1 = dropWhile white s;
          neg = (s1 \<noteq> [] \<and> hd s1 = CHR ''-'');
          s2 = (if s1 \<noteq> [] \<and> (hd s1 = CHR ''-'' \<or> hd s1 = CHR ''+'') then tl s1 else s1);
          s3 = (case s2 of
                  z # x # r \<Rightarrow> if z = CHR ''0'' \<and> (x = CHR ''x'' \<or> x = CHR ''X'') \<and> hex_run r \<noteq> [] then r else s2
                | _ \<Rightarrow> s2);
          ds = hex_run s3;
          n = (if hex_num ds \<ge> 18446744073709551616 then 18446744073709551615 else hex_num ds)
      in if ds = [] then None else Some (u16 (if neg then - n else n)))"

section \<open>The checksum\<close>

fun checksum_from :: "u16 \<Rightarrow> string \<Rightarrow> u16" where
  "checksum_from csum [] = csum"
| "checksum_from csum (c # s) =
     checksum_from (u16 (u16 (csum div 2 + (csum mod 2) * 32768) + of_char c)) s"

definition layout_checksum :: "string \<Rightarrow> u16" where
  "layout_checksum s = checksum_from 0 s"

section \<open>Printing\<close>

text \<open>\<open>strlcat\<close> on a buffer of \<open>len\<close> bytes: the new contents, and whether all of \<open>s\<close> fitted.\<close>

definition strlcat :: "nat \<Rightarrow> string \<Rightarrow> string \<Rightarrow> string \<times> bool" where
  "strlcat len buf s = (take (len - 1) (buf @ s), length buf + length s < len)"

definition cell_text :: "layout_cell \<Rightarrow> string" where
  "cell_text c =
     show_u32 (cell_sx c) @ ''x'' @ show_u32 (cell_sy c) @ '','' @ show_u32 (u32 (cell_xoff c)) @ '','' @
     show_u32 (u32 (cell_yoff c)) @ (case cwp (info c) of None \<Rightarrow> [] | Some n \<Rightarrow> '','' @ show_nat n)"

definition open_bracket :: "layout_type \<Rightarrow> char" where
  "open_bracket ty = (if ty = LAYOUT_LEFTRIGHT then CHR ''{'' else CHR ''['')"

definition close_bracket :: "layout_type \<Rightarrow> char" where
  "close_bracket ty = (if ty = LAYOUT_LEFTRIGHT then CHR ''}'' else CHR '']'')"

text \<open>\<^const>\<open>None\<close> is the result -1.\<close>

fun layout_append :: "layout_cell \<Rightarrow> string \<Rightarrow> nat \<Rightarrow> string option"
  and append_children :: "layout_cell list \<Rightarrow> string \<Rightarrow> nat \<Rightarrow> string option" where
  "layout_append (Cell i cs) buf len =
     (if len = 0 then None
      else if length (cell_text (Cell i cs)) > 63 then None
      else (case strlcat len buf (cell_text (Cell i cs)) of (buf1, ok1) \<Rightarrow>
        if \<not> ok1 then None
        else if ctype i = LAYOUT_WINDOWPANE then Some buf1
        else (case strlcat len buf1 [open_bracket (ctype i)] of (buf2, ok2) \<Rightarrow>
          if \<not> ok2 then None
          else map_option (\<lambda>b. butlast b @ [close_bracket (ctype i)]) (append_children cs buf2 len))))"
| "append_children [] buf len = Some buf"
| "append_children (c # cs) buf len =
     (case layout_append c buf len of
        None \<Rightarrow> None
      | Some buf1 \<Rightarrow>
          (case strlcat len buf1 '','' of (buf2, ok) \<Rightarrow>
             if \<not> ok then None else append_children cs buf2 len))"

text \<open>\<open>floats\<close> are the cells of the floating panes at the head of the window's \<open>z_index\<close>.\<close>

fun dump_floats :: "layout_cell list \<Rightarrow> string \<Rightarrow> string option" where
  "dump_floats [] buf = Some buf"
| "dump_floats (c # cs) buf =
     (case layout_append c buf 8192 of
        None \<Rightarrow> None
      | Some buf1 \<Rightarrow> dump_floats cs (fst (strlcat 8192 buf1 '','')))"

definition layout_dump :: "layout_cell \<Rightarrow> layout_cell list \<Rightarrow> string option" where
  "layout_dump root floats =
     do { buf \<leftarrow> layout_append root [] 8192;
          buf' \<leftarrow> (if floats = [] then Some buf
                  else map_option (\<lambda>b. butlast b @ ''>'') (dump_floats floats (fst (strlcat 8192 buf ''<''))));
          Some (show_hex4 (layout_checksum buf') @ '','' @ buf') }"

section \<open>Reading\<close>

definition scan_u :: "string \<Rightarrow> u32" where
  "scan_u ds = u32 (if digits_val ds \<ge> 18446744073709551616 then 18446744073709551615 else digits_val ds)"

text \<open>One run of digits of the geometry, which \<open>sscanf\<close> requires to be there and the loop after it
  skips.\<close>

definition scan_run :: "string \<Rightarrow> (u32 \<times> string) option" where
  "scan_run s =
     (if takeWhile digit s = [] then None else Some (scan_u (takeWhile digit s), dropWhile digit s))"

definition expect :: "char \<Rightarrow> string \<Rightarrow> string option" where
  "expect c s = (case s of [] \<Rightarrow> None | d # r \<Rightarrow> if d = c then Some r else None)"

text \<open>A pane number after the geometry is skipped, unless an \<open>x\<close> after the digits shows that it is
  the width of the next cell.\<close>

definition width_next :: "string \<Rightarrow> bool" where
  "width_next s \<longleftrightarrow> (case dropWhile digit s of [] \<Rightarrow> False | d # _ \<Rightarrow> d = CHR ''x'')"

definition skip_pane :: "string \<Rightarrow> string" where
  "skip_pane s =
     (case s of
        [] \<Rightarrow> []
      | c # r \<Rightarrow>
          if c = CHR '','' \<and> \<not> width_next r then dropWhile digit r else s)"

definition scan_cell :: "string \<Rightarrow> (layout_cell \<times> string) option" where
  "scan_cell s =
     do { (a, s) \<leftarrow> scan_run s; s \<leftarrow> expect (CHR ''x'') s;
          (b, s) \<leftarrow> scan_run s; s \<leftarrow> expect (CHR '','') s;
          (x, s) \<leftarrow> scan_run s; s \<leftarrow> expect (CHR '','') s;
          (y, s) \<leftarrow> scan_run s;
          Some (map_info (\<lambda>i. i\<lparr>sx := a, sy := b, xoff := i32 x, yoff := i32 y\<rparr>) layout_create_cell, skip_pane s) }"

text \<open>The body of \<open>layout_construct\<close> and its loop over the children, with the recursive calls as
  arguments.  Every recursive call has consumed at least one character, so twice the length of the
  string bounds the recursion (\<open>construct_enough\<close>).\<close>

definition construct_body :: "(string \<Rightarrow> (layout_cell list \<times> string) option) \<Rightarrow> string \<Rightarrow>
    (layout_cell \<times> string) option" where
  "construct_body children s =
     do { (lc, s) \<leftarrow> scan_cell s;
          (case s of
             [] \<Rightarrow> Some (lc, [])
           | c # r \<Rightarrow>
               if c = CHR '','' \<or> c = CHR ''}'' \<or> c = CHR '']'' then Some (lc, c # r)
               else if c = CHR ''{'' \<or> c = CHR ''[''
               then do { let ty = (if c = CHR ''{'' then LAYOUT_LEFTRIGHT else LAYOUT_TOPBOTTOM);
                         (cs, r) \<leftarrow> children r;
                         r \<leftarrow> expect (close_bracket ty) r;
                         Some (Cell ((info lc)\<lparr>ctype := ty\<rparr>) cs, r) }
               else None) }"

definition construct_loop :: "(string \<Rightarrow> (layout_cell \<times> string) option) \<Rightarrow>
    (string \<Rightarrow> (layout_cell list \<times> string) option) \<Rightarrow> string \<Rightarrow> (layout_cell list \<times> string) option" where
  "construct_loop child rest s =
     do { (c, r) \<leftarrow> child s;
          (case expect (CHR '','') r of
             None \<Rightarrow> Some ([c], r)
           | Some r' \<Rightarrow> do { (cs, r) \<leftarrow> rest r'; Some (c # cs, r) }) }"

fun construct :: "nat \<Rightarrow> string \<Rightarrow> (layout_cell \<times> string) option"
  and construct_list :: "nat \<Rightarrow> string \<Rightarrow> (layout_cell list \<times> string) option" where
  "construct 0 s = None"
| "construct (Suc n) s = construct_body (construct_list n) s"
| "construct_list 0 s = None"
| "construct_list (Suc n) s = construct_loop (construct n) (construct_list n) s"

definition layout_construct :: "string \<Rightarrow> (layout_cell \<times> string) option" where
  "layout_construct s = construct (2 * length s + 2) s"

section \<open>Applying a layout\<close>

fun layout_check :: "layout_cell \<Rightarrow> bool" where
  "layout_check (Cell i cs) =
     (case ctype i of
        LAYOUT_WINDOWPANE \<Rightarrow> True
      | LAYOUT_LEFTRIGHT \<Rightarrow>
          list_all (\<lambda>c. cell_sy c = sy i \<and> layout_check c) cs \<and>
          u32 (fold (\<lambda>c n. u32 (n + u32 (cell_sx c + 1))) cs 0 - 1) = sx i
      | LAYOUT_TOPBOTTOM \<Rightarrow>
          list_all (\<lambda>c. cell_sx c = sx i \<and> layout_check c) cs \<and>
          u32 (fold (\<lambda>c n. u32 (n + u32 (cell_sy c + 1))) cs 0 - 1) = sy i)"

text \<open>The outcome of \<open>layout_parse\<close>; \<open>Undefined\<close> stands for reading past the end of the string, for a
  null pointer that is dereferenced and for a call that does not return.\<close>

datatype parse_outcome = Parsed window | Failed string | Undefined

text \<open>While cells are closed the parsed layout is not yet the one of the window, and a walk up from one of its
  cells does not meet the root of the window.  \<open>layout_cell_is_top\<close> then finds no top cell, as without a
  border.  \<open>layout_cell_is_bottom\<close> may follow the null parent of the last root; it is asked only when
  space is taken away, here when a size of 2 ^ 31 or more turns negative.\<close>

definition parsed_window :: "window \<Rightarrow> layout_cell \<Rightarrow> window" where
  "parsed_window w lc = w\<lparr>layout_root := lc,
     border_status := (if border_status w = PANE_STATUS_TOP then PANE_STATUS_OFF else border_status w)\<rparr>"

definition takes_away :: "layout_cell \<Rightarrow> cell_ptr \<Rightarrow> bool" where
  "takes_away root p =
     (case p of
        [] \<Rightarrow> False
      | _ # q \<Rightarrow>
          (case (cell_at root q, cell_at root p) of
             (Some lcparent, Some lc) \<Rightarrow> i32 (i32 (size_along (cell_type lcparent) lc) + 1) < 0
           | _ \<Rightarrow> False))"

text \<open>The loop that closes the bottom right cell while there are more cells than panes.  Each round
  removes a cell, so the number of cells bounds the rounds.\<close>

fun fit_cells :: "nat \<Rightarrow> window \<Rightarrow> nat \<Rightarrow> layout_cell \<Rightarrow> (string + layout_cell) option" where
  "fit_cells 0 w npanes lc = None"
| "fit_cells (Suc n) w npanes lc =
     (if npanes > layout_count_cells lc
      then Some (Inl (''have '' @ show_nat npanes @ '' panes but need '' @ show_nat (layout_count_cells lc)))
      else if npanes = layout_count_cells lc then Some (Inr lc)
      else (case layout_find_bottomright [] lc of
              None \<Rightarrow> None
            | Some p \<Rightarrow>
                if border_status w = PANE_STATUS_BOTTOM \<and> takes_away lc p then None
                else (case layout_destroy_cell (parsed_window w lc) p of
                        Some (Some lc') \<Rightarrow> fit_cells n w npanes lc'
                      | _ \<Rightarrow> None)))"

text \<open>The size of the top cell is taken from its children.\<close>

definition fix_top :: "layout_cell \<Rightarrow> layout_cell" where
  "fix_top lc =
     (let (a, b) = (case cell_type lc of
                      LAYOUT_WINDOWPANE \<Rightarrow> (0, 0)
                    | LAYOUT_LEFTRIGHT \<Rightarrow>
                        fold (\<lambda>c (a, b). (u32 (a + u32 (cell_sx c + 1)), u32 (cell_sy c + 1))) (cells lc) (0, 0)
                    | LAYOUT_TOPBOTTOM \<Rightarrow>
                        fold (\<lambda>c (a, b). (u32 (cell_sx c + 1), u32 (b + u32 (cell_sy c + 1)))) (cells lc) (0, 0))
      in if cell_type lc \<noteq> LAYOUT_WINDOWPANE \<and> (cell_sx lc \<noteq> a \<or> cell_sy lc \<noteq> b)
         then map_info (\<lambda>i. i\<lparr>sx := u32 (a - 1), sy := u32 (b - 1)\<rparr>) lc else lc)"

text \<open>The panes that are left, and the cell with the panes filled in.\<close>

fun layout_assign :: "nat list \<Rightarrow> layout_cell \<Rightarrow> (nat list \<times> layout_cell) option"
  and assign_children :: "nat list \<Rightarrow> layout_cell list \<Rightarrow> (nat list \<times> layout_cell list) option" where
  "layout_assign ps (Cell i cs) =
     (if ctype i = LAYOUT_WINDOWPANE
      then (case ps of [] \<Rightarrow> None | wp # ps' \<Rightarrow> Some (ps', layout_make_leaf (Cell i cs) wp))
      else map_option (\<lambda>(ps', cs'). (ps', Cell i cs')) (assign_children ps cs))"
| "assign_children ps [] = Some (ps, [])"
| "assign_children ps (c # cs) =
     (case layout_assign ps c of
        None \<Rightarrow> None
      | Some (ps1, c') \<Rightarrow> map_option (\<lambda>(ps2, cs'). (ps2, c' # cs')) (assign_children ps1 cs))"

text \<open>Fitting the cells to the panes, checking the sizes and swapping the layouts.
  \<open>recalculate_sizes\<close> and the notification that follow in the code are not part of the model.\<close>

definition apply_layout :: "window \<Rightarrow> u32 \<Rightarrow> (window_pane \<Rightarrow> bool) \<Rightarrow> layout_cell \<Rightarrow> parse_outcome" where
  "apply_layout w inset in_mode lc =
     (case fit_cells (Suc (layout_count_cells lc)) w (length (panes w)) lc of
        None \<Rightarrow> Undefined
      | Some (Inl cause) \<Rightarrow> Failed cause
      | Some (Inr lc1) \<Rightarrow>
          (let lc2 = fix_top lc1 in
           if \<not> layout_check lc2 then Failed ''size mismatch after applying layout''
           else (case layout_assign (map pane_id (panes w)) lc2 of
                   None \<Rightarrow> Undefined
                 | Some (_, lc3) \<Rightarrow>
                     Parsed (layout_fix_panes
                       (layout_fix_offsets (w\<lparr>w_sx := cell_sx lc2, w_sy := cell_sy lc2, layout_root := lc3\<rparr>))
                       inset in_mode None))))"

definition layout_parse :: "window \<Rightarrow> u32 \<Rightarrow> (window_pane \<Rightarrow> bool) \<Rightarrow> string \<Rightarrow> parse_outcome" where
  "layout_parse w inset in_mode layout =
     (case scan_hx layout of
        None \<Rightarrow> Failed ''invalid layout''
      | Some csum \<Rightarrow>
          if length layout < 5 then Undefined
          else if csum \<noteq> layout_checksum (drop 5 layout) then Failed ''invalid layout''
          else (case layout_construct (drop 5 layout) of
                  None \<Rightarrow> Failed ''invalid layout''
                | Some (lc, rest) \<Rightarrow>
                    if rest \<noteq> [] then Failed ''invalid layout'' else apply_layout w inset in_mode lc))"

end
