(* ===== verification/Layout_String.thy ===== *)
theory Layout_String
  imports Layout_Custom
begin

text \<open>
  Facts on layout strings: the reader reads back what the printer prints, the recursion bound of
  the reader is enough, a dumped layout can be applied again, and three strings that cannot.
\<close>

section \<open>Numbers read back\<close>

definition no_digit :: "string \<Rightarrow> bool" where
  "no_digit s \<longleftrightarrow> (case s of [] \<Rightarrow> True | c # _ \<Rightarrow> \<not> digit c)"

lemma span_digits:
  "list_all digit ds \<Longrightarrow> no_digit r \<Longrightarrow> takeWhile digit (ds @ r) = ds \<and> dropWhile digit (ds @ r) = r"
  by (induction ds) (auto simp: no_digit_def split: list.splits)

lemma scan_run_show:
  assumes "0 \<le> n" "n < 4294967296" "no_digit r"
  shows "scan_run (show_u32 n @ r) = Some (n, r)"
  using assms show_nat_digits [of "nat n"] span_digits [of "show_nat (nat n)" r]
  by (simp add: scan_run_def show_u32_def scan_u_def u32_id)

section \<open>Layouts read back\<close>

fun dump_text :: "layout_cell \<Rightarrow> string"
  and dump_list :: "layout_cell list \<Rightarrow> string" where
  "dump_text (Cell i cs) =
     cell_text (Cell i cs) @
     (if ctype i = LAYOUT_WINDOWPANE then []
      else open_bracket (ctype i) # dump_list cs @ [close_bracket (ctype i)])"
| "dump_list [] = []"
| "dump_list (c # cs) = dump_text c @ (if cs = [] then [] else CHR '','' # dump_list cs)"

text \<open>Cells that a layout string can describe.\<close>

fun printable :: "layout_cell \<Rightarrow> bool" where
  "printable (Cell i cs) \<longleftrightarrow>
     0 \<le> sx i \<and> sx i < 4294967296 \<and> 0 \<le> sy i \<and> sy i < 4294967296 \<and>
     - 2147483648 \<le> xoff i \<and> xoff i < 2147483648 \<and> - 2147483648 \<le> yoff i \<and> yoff i < 2147483648 \<and>
     (ctype i = LAYOUT_WINDOWPANE \<longleftrightarrow> cs = []) \<and> list_all printable cs"

definition forget :: "cell_info \<Rightarrow> cell_info" where
  "forget i = (info layout_create_cell)\<lparr>ctype := ctype i, sx := sx i, sy := sy i, xoff := xoff i, yoff := yoff i\<rparr>"

lemma strlcat_ok: "strlcat len buf s = (b, True) \<Longrightarrow> b = buf @ s"
  by (auto simp: strlcat_def)

lemma append_text:
  "layout_append c buf len = Some b \<Longrightarrow> printable c \<Longrightarrow> b = buf @ dump_text c"
  "append_children cs buf len = Some b \<Longrightarrow> list_all printable cs \<Longrightarrow> cs \<noteq> [] \<Longrightarrow> b = buf @ dump_list cs @ '',''"
proof (induction c buf len and cs buf len arbitrary: b and b rule: layout_append_append_children.induct)
  case (1 i cs buf len)
  obtain b1 where b1: "strlcat len buf (cell_text (Cell i cs)) = (b1, True)"
    using "1.prems"(1) by (auto split: prod.splits if_splits)
  show ?case
  proof (cases "ctype i = LAYOUT_WINDOWPANE")
    case True
    then show ?thesis using "1.prems" b1 strlcat_ok [OF b1] by (auto split: if_splits)
  next
    case False
    then obtain b2 where b2: "strlcat len b1 [open_bracket (ctype i)] = (b2, True)"
      using "1.prems"(1) b1 by (auto split: prod.splits if_splits)
    obtain b3 where b3: "append_children cs b2 len = Some b3" "b = butlast b3 @ [close_bracket (ctype i)]"
      using "1.prems"(1) b1 b2 False by (auto split: if_splits)
    have "b3 = b2 @ dump_list cs @ '',''"
      using "1.IH" [OF _ _ b1 [symmetric] _ _ b2 [symmetric]] b3(1) "1.prems" False by (auto split: if_splits)
    with b3(2) strlcat_ok [OF b1] strlcat_ok [OF b2] False show ?thesis by (simp add: butlast_append)
  qed
next
  case (3 c cs buf len)
  then obtain b1 b2 where b: "layout_append c buf len = Some b1" "strlcat len b1 '','' = (b2, True)"
      "append_children cs b2 len = Some b"
    by (auto split: option.splits prod.splits if_splits)
  have 1: "b1 = buf @ dump_text c" using 3 b(1) by auto
  show ?case
  proof (cases "cs = []")
    case True
    then show ?thesis using b 1 strlcat_ok [OF b(2)] by simp
  next
    case False
    then have "b = b2 @ dump_list cs @ '',''" using "3.IH"(2) [OF b(1) b(2) [symmetric]] b(3) "3.prems"(2) by auto
    then show ?thesis using 1 strlcat_ok [OF b(2)] False by simp
  qed
qed simp


text \<open>Printing succeeds when the text and its final NUL fit in the buffer.\<close>

fun texts_fit :: "layout_cell \<Rightarrow> bool" where
  "texts_fit (Cell i cs) \<longleftrightarrow> length (cell_text (Cell i cs)) \<le> 63 \<and> list_all texts_fit cs"

lemma append_fits:
  "printable c \<Longrightarrow> texts_fit c \<Longrightarrow> length buf + length (dump_text c) < len \<Longrightarrow>
     layout_append c buf len = Some (buf @ dump_text c)"
  "list_all printable cs \<Longrightarrow> list_all texts_fit cs \<Longrightarrow> cs \<noteq> [] \<Longrightarrow> length buf + length (dump_list cs) + 1 < len \<Longrightarrow>
     append_children cs buf len = Some (buf @ dump_list cs @ '','')"
proof (induction c and cs arbitrary: buf and buf rule: dump_text_dump_list.induct)
  case (1 i cs)
  then show ?case
    by (cases "ctype i = LAYOUT_WINDOWPANE") (auto simp: strlcat_def butlast_append)
next
  case (3 c cs)
  then show ?case by (cases "cs = []") (auto simp: strlcat_def)
qed simp

definition stop :: "string \<Rightarrow> bool" where
  "stop s \<longleftrightarrow> (case s of [] \<Rightarrow> True
     | c # t \<Rightarrow> c = CHR ''}'' \<or> c = CHR '']'' \<or>
         c = CHR '','' \<and> width_next t)"

definition after_text :: "string \<Rightarrow> bool" where
  "after_text s \<longleftrightarrow> stop s \<or> (\<exists>t. s = CHR ''{'' # t \<or> s = CHR ''['' # t \<or> s = CHR ''<'' # t)"

lemma digit_chars [simp]: "\<not> digit (CHR ''x'')" "\<not> digit (CHR '','')" "\<not> digit (CHR ''}'')" "\<not> digit (CHR '']'')"
  "\<not> digit (CHR ''{'')" "\<not> digit (CHR ''['')" "\<not> digit (CHR ''<'')"
  by (simp_all add: digit_def)

lemma stop_after: "stop s \<Longrightarrow> after_text s"
  by (simp add: after_text_def)

lemma after_text_no_digit: "after_text s \<Longrightarrow> no_digit s"
  by (auto simp: after_text_def stop_def no_digit_def split: list.splits)

lemma no_digit_Cons [simp]: "no_digit (c # s) = (\<not> digit c)"
  by (simp add: no_digit_def)

lemma expect_Cons [simp]: "expect c (c # s) = Some s"
  by (simp add: expect_def)

lemma skip_pane_none: "after_text r \<Longrightarrow> skip_pane r = r"
  by (auto simp: after_text_def stop_def skip_pane_def split: list.splits)

lemma skip_pane_some: "after_text r \<Longrightarrow> skip_pane (CHR '','' # show_nat n @ r) = r"
proof -
  assume r: "after_text r"
  have d: "dropWhile digit (show_nat n @ r) = r"
    using show_nat_digits [of n] span_digits [of "show_nat n" r] after_text_no_digit [OF r] by simp
  moreover have "\<not> width_next (show_nat n @ r)"
    using r by (auto simp: width_next_def d after_text_def stop_def split: list.splits)
  ultimately show ?thesis by (simp add: skip_pane_def)
qed

lemma scan_cell_text:
  assumes "printable c" "after_text r"
  shows "scan_cell (cell_text c @ r) = Some (Cell ((forget (info c))\<lparr>ctype := LAYOUT_WINDOWPANE\<rparr>) [], r)"
proof -
  obtain i cs where c: "c = Cell i cs" by (cases c)
  let ?tail = "(case cwp i of None \<Rightarrow> [] | Some n \<Rightarrow> '','' @ show_nat n) @ r"
  have nd: "no_digit ?tail" using after_text_no_digit [OF assms(2)] by (cases "cwp i") auto
  have sk: "skip_pane ?tail = r"
    using skip_pane_none [OF assms(2)] skip_pane_some [OF assms(2)] by (cases "cwp i") auto
  show ?thesis
    using assms(1) nd sk c
    by (simp add: scan_cell_def cell_text_def scan_run_show i32_u32_id forget_def layout_create_cell_def)
qed

fun fuel_of :: "layout_cell \<Rightarrow> nat"
  and fuel_list :: "layout_cell list \<Rightarrow> nat" where
  "fuel_of (Cell i cs) = Suc (fuel_list cs)"
| "fuel_list [] = 0"
| "fuel_list (c # cs) = Suc (max (fuel_of c) (fuel_list cs))"

lemma dump_text_width: "width_next (dump_text c @ r)"
proof -
  obtain i cs where c: "c = Cell i cs" by (cases c)
  have "\<exists>t. dump_text c @ r = show_nat (nat (sx i)) @ CHR ''x'' # t" by (simp add: c cell_text_def show_u32_def)
  then obtain t where "dump_text c @ r = show_nat (nat (sx i)) @ CHR ''x'' # t" ..
  with show_nat_digits [of "nat (sx i)"] span_digits [of "show_nat (nat (sx i))" "CHR ''x'' # t"] show ?thesis
    by (simp add: width_next_def)
qed

lemma stop_list: "cs \<noteq> [] \<Longrightarrow> stop (CHR '','' # dump_list cs @ r)"
  using dump_text_width by (cases cs) (auto simp: stop_def)

lemma construct_dump:
  "printable c \<Longrightarrow> stop r \<or> cell_type c \<noteq> LAYOUT_WINDOWPANE \<Longrightarrow> fuel_of c \<le> n \<Longrightarrow>
     construct n (dump_text c @ r) = Some (strip forget c, r)"
  "list_all printable cs \<Longrightarrow> cs \<noteq> [] \<Longrightarrow> c' = CHR ''}'' \<or> c' = CHR '']'' \<Longrightarrow> fuel_list cs \<le> n \<Longrightarrow>
     construct_list n (dump_list cs @ c' # r) = Some (map (strip forget) cs, c' # r)"
proof (induction c and cs arbitrary: n r and n r c' rule: dump_text_dump_list.induct)
  case (1 i cs)
  then obtain m where n: "n = Suc m" "fuel_list cs \<le> m" by (cases n) auto
  show ?case
  proof (cases "ctype i = LAYOUT_WINDOWPANE")
    case True
    have "scan_cell (dump_text (Cell i cs) @ r) = Some (Cell ((forget i)\<lparr>ctype := LAYOUT_WINDOWPANE\<rparr>) [], r)"
      using scan_cell_text [OF "1.prems"(1) stop_after] "1.prems"(2) True by simp
    moreover have "(forget i)\<lparr>ctype := LAYOUT_WINDOWPANE\<rparr> = forget i" using True by (simp add: forget_def)
    ultimately show ?thesis
      using "1.prems" n True by (auto simp: construct_body_def stop_def split: list.splits)
  next
    case False
    let ?b = "open_bracket (ctype i) # dump_list cs @ close_bracket (ctype i) # r"
    have "after_text ?b" by (auto simp: after_text_def open_bracket_def)
    then have sc: "scan_cell (dump_text (Cell i cs) @ r) = Some (Cell ((forget i)\<lparr>ctype := LAYOUT_WINDOWPANE\<rparr>) [], ?b)"
      using scan_cell_text [OF "1.prems"(1), of ?b] False by simp
    have "construct_list m (dump_list cs @ close_bracket (ctype i) # r) = Some (map (strip forget) cs, close_bracket (ctype i) # r)"
      using "1.IH" [OF False, of "close_bracket (ctype i)" m r] "1.prems"(1) n(2) False by (auto simp: close_bracket_def)
    moreover have "(forget i)\<lparr>ctype := LAYOUT_WINDOWPANE, ctype := ctype i\<rparr> = forget i" by (simp add: forget_def)
    ultimately show ?thesis
      using sc n False by (cases "ctype i") (simp_all add: construct_body_def open_bracket_def close_bracket_def del: dump_text.simps)
  qed
next
  case (3 c cs)
  then obtain m where n: "n = Suc m" "fuel_of c \<le> m" "fuel_list cs \<le> m" by (cases n) auto
  show ?case
  proof (cases "cs = []")
    case True
    have "stop (c' # r)" using "3.prems"(3) by (auto simp: stop_def)
    then have "construct m (dump_text c @ c' # r) = Some (strip forget c, c' # r)" using "3.IH"(1) "3.prems"(1) n by auto
    moreover have "expect (CHR '','') (c' # r) = None" using "3.prems"(3) by (auto simp: expect_def)
    ultimately show ?thesis using n True by (simp add: construct_loop_def)
  next
    case False
    have "construct m (dump_text c @ CHR '','' # dump_list cs @ c' # r) = Some (strip forget c, CHR '','' # dump_list cs @ c' # r)"
      using "3.IH"(1) [of "CHR '','' # dump_list cs @ c' # r" m] stop_list [OF False] "3.prems"(1) n by auto
    moreover have "construct_list m (dump_list cs @ c' # r) = Some (map (strip forget) cs, c' # r)"
      using "3.IH"(2) [of c' m r] "3.prems" n False by auto
    ultimately show ?thesis using n False by (simp add: construct_loop_def)
  qed
qed simp

lemma fuel_length:
  "printable c \<Longrightarrow> fuel_of c \<le> length (dump_text c)"
  "list_all printable cs \<Longrightarrow> fuel_list cs \<le> Suc (length (dump_list cs))"
proof (induction c and cs rule: dump_text_dump_list.induct)
  case (1 i cs)
  then show ?case by (cases "ctype i = LAYOUT_WINDOWPANE") (auto simp: cell_text_def)
qed auto

lemma layout_construct_dump:
  assumes "printable c"
  shows "layout_construct (dump_text c) = Some (strip forget c, [])"
  using construct_dump(1) [OF assms, of "[]" "2 * length (dump_text c) + 2"] fuel_length(1) [OF assms]
  by (simp add: layout_construct_def stop_def)


lemma expect_length: "expect c s = Some r \<Longrightarrow> length s = Suc (length r)"
  by (auto simp: expect_def split: list.splits if_splits)

lemma skip_pane_length: "length (skip_pane s) \<le> length s"
  using length_dropWhile_le [of digit] by (auto simp: skip_pane_def le_SucI split: list.splits)

lemma scan_run_length: "scan_run s = Some (n, r) \<Longrightarrow> length r \<le> length s"
  using length_dropWhile_le [of digit s] by (auto simp: scan_run_def split: if_splits)

lemma scan_cell_length: "scan_cell s = Some (c, r) \<Longrightarrow> length r \<le> length s"
  by (auto simp: scan_cell_def bind_eq_Some_conv dest!: scan_run_length expect_length
      intro!: order_trans [OF skip_pane_length])

lemma construct_length:
  "construct n s = Some (c, r) \<Longrightarrow> length r \<le> length s"
  "construct_list n s = Some (cs, r) \<Longrightarrow> length r \<le> length s"
proof (induction n s and n s arbitrary: c r and cs r rule: construct_construct_list.induct)
  case (2 n s)
  then obtain lc t where t: "scan_cell s = Some (lc, t)" by (auto simp: construct_body_def bind_eq_Some_conv)
  show ?case
  proof (cases t)
    case Nil
    then show ?thesis using 2 t scan_cell_length [OF t] by (auto simp: construct_body_def)
  next
    case (Cons a u)
    have "length r \<le> length s" if "construct_list n u = Some (cs, v)" "expect d v = Some r" for cs v d
      using "2.IH" [OF that(1)] expect_length [OF that(2)] scan_cell_length [OF t] Cons by simp
    then show ?thesis
      using "2.prems" t Cons scan_cell_length [OF t]
      by (auto simp: construct_body_def bind_eq_Some_conv Let_def split: if_splits)
  qed
next
  case (4 n s)
  then obtain c t where t: "construct n s = Some (c, t)" by (auto simp: construct_loop_def bind_eq_Some_conv)
  have "length r \<le> length s" if "expect d t = Some u" "construct_list n u = Some (cs, r)" for d u cs
    using "4.IH"(1) [OF t] expect_length [OF that(1)] "4.IH"(2) [OF that(2)] by simp
  then show ?case
    using "4.prems" t "4.IH"(1) [OF t] by (auto simp: construct_loop_def bind_eq_Some_conv split: option.splits)
qed auto

lemma construct_cong:
  "2 * length s + 1 \<le> n \<Longrightarrow> 2 * length s + 1 \<le> m \<Longrightarrow> construct n s = construct m s"
  "2 * length s + 2 \<le> n \<Longrightarrow> 2 * length s + 2 \<le> m \<Longrightarrow> construct_list n s = construct_list m s"
proof (induction n s and n s arbitrary: m and m rule: construct_construct_list.induct)
  case (2 n s)
  then obtain m' where m: "m = Suc m'" by (cases m) auto
  have eq: "construct_list n t = construct_list m' t" if "scan_cell s = Some (lc, c # t)" for lc c t
    using "2.IH" [of t m'] "2.prems" m scan_cell_length [OF that] by auto
  have "construct_body (construct_list n) s = construct_body (construct_list m') s"
  proof (cases "scan_cell s")
    case (Some a)
    moreover obtain lc t where "a = (lc, t)" by (cases a)
    ultimately show ?thesis
      using eq by (cases t) (simp_all add: construct_body_def)
  qed (simp add: construct_body_def)
  then show ?case by (simp add: m)
next
  case (4 n s)
  then obtain m' where m: "m = Suc m'" by (cases m) auto
  have eq1: "construct n s = construct m' s" by (rule "4.IH"(1)) (use "4.prems" m in auto)
  have eq2: "construct_list n t = construct_list m' t" if "construct m' s = Some (c, r)" "expect d r = Some t" for c r d t
    using "4.IH"(2) [of t m'] "4.prems" m construct_length(1) [OF that(1)] expect_length [OF that(2)] by auto
  have "construct_loop (construct n) (construct_list n) s = construct_loop (construct m') (construct_list m') s"
  proof (cases "construct m' s")
    case (Some a)
    moreover obtain c r where "a = (c, r)" by (cases a)
    ultimately have s: "construct m' s = Some (c, r)" by simp
    show ?thesis
    proof (cases "expect (CHR '','') r")
      case None
      then show ?thesis unfolding construct_loop_def eq1 s by simp
    next
      case (Some t)
      show ?thesis unfolding construct_loop_def eq1 s by (simp add: Some eq2 [OF s Some])
    qed
  qed (simp add: construct_loop_def eq1)
  then show ?case by (simp add: m)
qed auto

lemma construct_enough: "2 * length s + 2 \<le> n \<Longrightarrow> construct n s = layout_construct s"
  unfolding layout_construct_def by (rule construct_cong(1)) auto

section \<open>The checksum field\<close>

lemma hex_digit_val: "k < 16 \<Longrightarrow> hex_val (hex_digit k) = Some (int k) \<and> \<not> white (hex_digit k) \<and>
  hex_digit k \<noteq> CHR ''-'' \<and> hex_digit k \<noteq> CHR ''+'' \<and> hex_digit k \<noteq> CHR ''x'' \<and> hex_digit k \<noteq> CHR ''X''"
proof -
  assume "k < 16"
  then have "k \<in> set [0 ..< 16]" by simp
  moreover have "list_all (\<lambda>k. hex_val (hex_digit k) = Some (int k) \<and> \<not> white (hex_digit k) \<and>
    hex_digit k \<noteq> CHR ''-'' \<and> hex_digit k \<noteq> CHR ''+'' \<and> hex_digit k \<noteq> CHR ''x'' \<and> hex_digit k \<noteq> CHR ''X'') [0 ..< 16]"
    by code_simp
  ultimately show ?thesis unfolding list_all_iff by blast
qed

lemma nat_hex4:
  assumes "m < (65536 :: nat)"
  shows "m = m div 4096 mod 16 * 4096 + m div 256 mod 16 * 256 + m div 16 mod 16 * 16 + m mod 16"
proof -
  define a b c where "a = m div 16" and "b = a div 16" and "c = b div 16"
  have h: "m div 256 = b" "m div 4096 = c" by (simp_all add: a_def b_def c_def flip: div_mult2_eq)
  have "m = a * 16 + m mod 16" "a = b * 16 + a mod 16" "b = c * 16 + b mod 16" "c mod 16 = c"
    using assms by (auto simp: a_def b_def c_def)
  then show ?thesis unfolding h a_def [symmetric] by linarith
qed

lemma scan_hx_show:
  assumes "0 \<le> n" "n < 65536"
  shows "scan_hx (show_hex4 n @ CHR '','' # s) = Some n"
proof -
  define d where "d k = nat n div 16 ^ k mod 16" for k
  have d: "d k < 16" for k by (simp add: d_def)
  note hv = hex_digit_val [OF d]
  have sh: "show_hex4 n = [hex_digit (d 3), hex_digit (d 2), hex_digit (d 1), hex_digit (d 0)]"
    by (simp add: show_hex4_def d_def)
  have comma: "hex_val (CHR '','') = None" by code_simp
  have run: "hex_run (show_hex4 n @ CHR '','' # s) = show_hex4 n" using hv comma by (simp add: sh hex_run_def)
  have "nat n = d 3 * 4096 + d 2 * 256 + d 1 * 16 + d 0"
    using nat_hex4 [of "nat n"] assms by (simp add: d_def)
  then have "n = int (d 3) * 4096 + int (d 2) * 256 + int (d 1) * 16 + int (d 0)" using assms by linarith
  moreover have "hex_num (show_hex4 n) = int (d 3) * 4096 + int (d 2) * 256 + int (d 1) * 16 + int (d 0)"
    using hv unfolding sh hex_num_def by (simp add: algebra_simps)
  ultimately have num: "hex_num (show_hex4 n) = n" by simp
  have "u16 n = n" using assms by (simp add: u16_def)
  then show ?thesis
    using run num assms hv by (simp add: scan_hx_def Let_def sh)
qed


section \<open>Applying a dumped layout\<close>

text \<open>What a layout string keeps of a cell once panes are assigned again: the type, the geometry and,
  on a leaf, the pane.\<close>

definition keep :: "cell_info \<Rightarrow> cell_info" where
  "keep i = (forget i)\<lparr>cwp := (if ctype i = LAYOUT_WINDOWPANE then cwp i else None)\<rparr>"

lemma forget_simps [simp]: "ctype (forget i) = ctype i" "sx (forget i) = sx i" "sy (forget i) = sy i"
  "xoff (forget i) = xoff i" "yoff (forget i) = yoff i" "cflags (forget i) = 0"
  by (simp_all add: forget_def layout_create_cell_def)

lemma strip_simps [simp]: "info (strip g c) = g (info c)" "cells (strip g c) = map (strip g) (cells c)"
  by (cases c, simp)+

lemma count_cells_forget: "layout_count_cells (strip forget c) = layout_count_cells c"
  by (induction c) (auto simp: comp_def intro!: arg_cong [where f = sum_list])

lemma sound_forget: "sound c \<Longrightarrow> sound (strip forget c)"
proof (induction c)
  case (Cell i cs)
  show ?case
  proof (cases "ctype i = LAYOUT_WINDOWPANE")
    case True
    then show ?thesis
      using Cell.prems sound_leaf [OF Cell.prems]
      by (simp add: sound_def layout_wf.simps in_flow_def layout_cell_is_tiled_def cell_floating_def)
  next
    case False
    note f = sound_node_facts [OF Cell.prems] and d = sound_dim [OF Cell.prems, of "ctype i"]
    have s: "list_all sound (map (strip forget) cs)" using Cell.IH f(1) False by (auto simp: list_all_iff)
    have fl: "flow_size h (map (strip forget) cs) = flow_size h cs" if "\<And>c. h (strip forget c) = h c" for h
      using f(1) s False that by (induction cs) (auto simp: flow_size_Cons sound_def)
    have dims: "dim ty (strip forget c) = dim ty c" "cross ty (strip forget c) = cross ty c" for ty c
      by (simp_all add: dim_def cross_def)
    show ?thesis
      using f d False s fl [of "dim (ctype i)", OF dims(1)] dims [of _ "Cell i cs"] dims
      by (simp only: strip.simps, intro node_sound) (auto simp: list_all_iff dim_def cross_def split: if_splits)
  qed
qed

lemma fold_sizes:
  assumes "list_all (\<lambda>c. in_flow c \<and> 0 \<le> f c) cs" "0 \<le> n" "n + flow_size f cs + 1 < 4294967296"
  shows "fold (\<lambda>c n. u32 (n + u32 (f c + 1))) cs n = n + flow_size f cs + 1"
  using assms
proof (induction cs arbitrary: n)
  case (Cons c cs)
  have "- 1 \<le> flow_size f cs" using Cons.prems(1) by (induction cs) (auto simp: flow_size_Cons)
  with Cons show ?case by (simp add: flow_size_Cons u32_id algebra_simps)
qed simp


lemma layout_check_sound: "sound c \<Longrightarrow> layout_check c"
proof (induction c)
  case (Cell i cs)
  show ?case
  proof (cases "ctype i = LAYOUT_WINDOWPANE")
    case False
    note f = sound_node_facts [OF Cell.prems] and d = sound_dim [OF Cell.prems, of "ctype i"]
    have ch: "list_all layout_check cs" using Cell.IH f(1) False by (auto simp: list_all_iff)
    have "list_all (\<lambda>c. in_flow c \<and> 0 \<le> dim (ctype i) c) cs"
      using f(1) False sound_dim [of _ "ctype i"] by (fastforce simp: list_all_iff sound_def)
    then have "fold (\<lambda>c n. u32 (n + u32 (dim (ctype i) c + 1))) cs 0 = dim (ctype i) (Cell i cs) + 1"
      using fold_sizes [of "dim (ctype i)" cs 0] f(3) d False by (simp add: i32_MAX_def)
    then show ?thesis
      using ch f(4) d False
      by (cases "ctype i") (auto simp: dim_def cross_def list_all_iff u32_id i32_MAX_def)
  qed simp
qed

lemma fold_pair_fst:
  "fold (\<lambda>c (a, b). (F c a, G c)) cs (a, b) = (fold F cs a, if cs = [] then b else G (last cs))"
  by (induction cs arbitrary: a b) auto

lemma fold_pair_snd:
  "fold (\<lambda>c (a, b). (G c, F c b)) cs (a, b) = (if cs = [] then a else G (last cs), fold F cs b)"
  by (induction cs arbitrary: a b) auto

lemma fix_top_sound:
  assumes "sound c"
  shows "fix_top c = c"
proof (cases "cell_type c = LAYOUT_WINDOWPANE")
  case False
  note f = sound_node_facts [OF assms False] and d = sound_dim [OF assms, of "cell_type c"]
  have "list_all (\<lambda>d. in_flow d \<and> 0 \<le> dim (cell_type c) d) (cells c)"
    using f(1) sound_dim [of _ "cell_type c"] by (fastforce simp: list_all_iff sound_def)
  then have "fold (\<lambda>d n. u32 (n + u32 (dim (cell_type c) d + 1))) (cells c) 0 = dim (cell_type c) c + 1"
    using fold_sizes [of "dim (cell_type c)" "cells c" 0] f(3) d by (simp add: i32_MAX_def)
  moreover have ne: "cells c \<noteq> []" using f(2) by auto
  moreover have "cross (cell_type c) (last (cells c)) = cross (cell_type c) c"
    using f(4) last_in_set [OF ne] by (simp add: list_all_iff)
  ultimately show ?thesis
    using d False
    by (cases c; cases "cell_type c")
       (auto simp: fix_top_def dim_def cross_def fold_pair_fst fold_pair_snd u32_id i32_MAX_def)
qed (simp add: fix_top_def)

text \<open>Every leaf holds a pane.\<close>

fun full :: "layout_cell \<Rightarrow> bool" where
  "full (Cell i cs) \<longleftrightarrow> (ctype i = LAYOUT_WINDOWPANE \<longrightarrow> cwp i \<noteq> None \<and> cs = []) \<and> list_all full cs"

lemma leaf_panes_count: "full c \<Longrightarrow> length (leaf_panes c) = layout_count_cells c"
proof (induction c)
  case (Cell i cs)
  have "(\<Sum>c\<leftarrow>cs. length (leaf_panes c)) = (\<Sum>c\<leftarrow>cs. layout_count_cells c)"
    using Cell by (intro arg_cong [where f = sum_list] map_cong) (auto simp: list_all_iff)
  with Cell.prems show ?case by (auto simp: length_concat comp_def)
qed

lemma layout_assign_forget:
  "full c \<Longrightarrow> layout_assign (leaf_panes c @ ps) (strip forget c) = Some (ps, strip keep c)"
  "list_all full cs \<Longrightarrow> assign_children (concat (map leaf_panes cs) @ ps) (map (strip forget) cs) = Some (ps, map (strip keep) cs)"
proof (induction c and cs arbitrary: ps and ps rule: dump_text_dump_list.induct)
  case (1 i cs)
  have "keep i = forget i" if "ctype i \<noteq> LAYOUT_WINDOWPANE"
    using that by (simp add: keep_def forget_def layout_create_cell_def)
  with 1 show ?case
    by (auto simp: layout_make_leaf_def keep_def forget_def)
next
  case (3 c cs)
  then show ?case by (cases "cs = []") auto
qed simp

definition with_checksum :: "string \<Rightarrow> string" where
  "with_checksum body = show_hex4 (layout_checksum body) @ '','' @ body"

lemma with_checksum_read:
  "scan_hx (with_checksum body) = Some (layout_checksum body)" "drop 5 (with_checksum body) = body"
  "\<not> length (with_checksum body) < 5"
proof -
  have "0 \<le> checksum_from n t \<and> checksum_from n t < 65536" if "0 \<le> n" "n < 65536" for n t
    using that by (induction t arbitrary: n) (auto simp: u16_def)
  then have csum: "0 \<le> layout_checksum t" "layout_checksum t < 65536" for t by (simp_all add: layout_checksum_def)
  have len: "length (show_hex4 n) = 4" for n by (simp add: show_hex4_def)
  show "scan_hx (with_checksum body) = Some (layout_checksum body)" using scan_hx_show [OF csum] by (simp add: with_checksum_def)
  show "drop 5 (with_checksum body) = body" "\<not> length (with_checksum body) < 5" using len by (simp_all add: with_checksum_def)
qed

lemma layout_parse_text:
  "printable c \<Longrightarrow> layout_parse w inset in_mode (with_checksum (dump_text c)) = apply_layout w inset in_mode (strip forget c)"
  by (simp add: layout_parse_def with_checksum_read layout_construct_dump)

text \<open>C7: a dumped layout can be applied again.  For a sound layout whose leaves hold the panes of
  the window in order, \<open>layout_parse\<close> of what \<open>layout_dump\<close> printed succeeds and gives the window
  the same layout: the same tree with the same geometry and the same pane in every leaf.\<close>

theorem layout_dump_parse:
  assumes "sound root" "printable root" "full root" "leaf_panes root = map pane_id (panes w)"
    and "layout_dump root [] = Some s"
  shows "layout_parse w inset in_mode s =
    Parsed (refresh_panes (w\<lparr>w_sx := cell_sx root, w_sy := cell_sy root, layout_root := strip keep root\<rparr>) inset in_mode)"
proof -
  have s: "s = with_checksum (dump_text root)"
    using assms(5) append_text(1) [OF _ assms(2), of "[]" 8192]
    by (auto simp: layout_dump_def with_checksum_def bind_eq_Some_conv)
  have lc: "sound (strip forget root)" "layout_count_cells (strip forget root) = length (panes w)"
    using sound_forget [OF assms(1)] leaf_panes_count [OF assms(3)] assms(4) count_cells_forget by simp_all
  have asg: "layout_assign (map pane_id (panes w)) (strip forget root) = Some ([], strip keep root)"
    using layout_assign_forget(1) [OF assms(3), of "[]"] assms(4) by simp
  show ?thesis
    using layout_parse_text [OF assms(2)] s lc fix_top_sound [OF lc(1)] layout_check_sound [OF lc(1)] asg
    by (simp add: apply_layout_def refresh_panes_def)
qed

theorem layout_dump_parse_witness:
  "\<exists>s w'. layout_dump example_root [] = Some s \<and>
     layout_parse (one_pane_window 10 10\<lparr>panes := panes example_window\<rparr>) 0 (\<lambda>_. False) s = Parsed w' \<and>
     cell_sx (layout_root w') = 80 \<and> leaf_panes (layout_root w') = [0, 1, 2]"
proof -
  let ?w = "one_pane_window 10 10\<lparr>panes := panes example_window\<rparr>"
  let ?w1 = "?w\<lparr>w_sx := cell_sx example_root, w_sy := cell_sy example_root, layout_root := strip keep example_root\<rparr>"
  have r: "sound example_root" "printable example_root" "full example_root" "leaf_panes example_root = map pane_id (panes ?w)"
    by code_simp+
  obtain s where s: "layout_dump example_root [] = Some s"
  proof -
    have "texts_fit example_root" by code_simp
    moreover have "length (dump_text example_root) < 100" by code_simp
    ultimately have "layout_append example_root [] 8192 = Some (dump_text example_root)"
      using append_fits(1) [OF r(2), of "[]" 8192] by simp
    then show thesis using that by (simp add: layout_dump_def)
  qed
  have k: "cell_sx (strip keep example_root) = 80" "leaf_panes (strip keep example_root) = [0, 1, 2]" by code_simp+
  have "cell_sx (layout_root (refresh_panes ?w1 0 (\<lambda>_. False))) = 80"
    unfolding refresh_panes_root layout_fix_offsets_size using k(1) by simp
  moreover have "leaf_panes (layout_root (refresh_panes ?w1 0 (\<lambda>_. False))) = [0, 1, 2]"
    unfolding refresh_panes_root using leaf_panes_cong [OF layout_fix_offsets_shape, of ?w1] k(2) by simp
  ultimately show ?thesis using s layout_dump_parse [OF r s, of 0 "\<lambda>_. False"] by blast
qed


section \<open>Strings that are refused or not safe\<close>

lemma append_length:
  "layout_append c buf len = Some b \<Longrightarrow> printable c \<Longrightarrow> length b < len"
proof -
  assume a: "layout_append c buf len = Some b" "printable c"
  obtain i cs where c: "c = Cell i cs" by (cases c)
  obtain b1 where b1: "strlcat len buf (cell_text c) = (b1, True)" using a(1) c by (auto split: prod.splits if_splits)
  have leaf: "length b1 < len" using b1 strlcat_ok [OF b1] by (auto simp: strlcat_def)
  have kids: "append_children cs buf len = Some b \<Longrightarrow> cs \<noteq> [] \<Longrightarrow> list_all printable cs \<Longrightarrow> length b < len" for cs buf b
  proof (induction cs arbitrary: buf)
    case (Cons d ds)
    then obtain e f where e: "layout_append d buf len = Some e" "strlcat len e '','' = (f, True)" "append_children ds f len = Some b"
      by (auto split: option.splits prod.splits if_splits)
    show ?case
    proof (cases "ds = []")
      case True
      then show ?thesis using e(2,3) strlcat_ok [OF e(2)] by (auto simp: strlcat_def)
    qed (use Cons.IH [OF e(3)] Cons.prems(3) in auto)
  qed simp
  show ?thesis
  proof (cases "ctype i = LAYOUT_WINDOWPANE")
    case True
    then show ?thesis using a(1) c b1 leaf by (auto split: if_splits)
  next
    case False
    then obtain b2 b3 where "append_children cs b2 len = Some b3" "b = butlast b3 @ [close_bracket (ctype i)]"
      using a(1) c b1 by (auto split: prod.splits if_splits)
    moreover have "cs \<noteq> []" "list_all printable cs" using a(2) c False by auto
    ultimately show ?thesis
      using kids [of cs b2 b3] append_text(2) [of cs b2 len b3] by auto
  qed
qed

lemma dump_text_nonempty: "dump_text c \<noteq> []"
  by (cases c) (simp add: cell_text_def)

lemma dump_floats_prefix:
  "dump_floats cs buf = Some b \<Longrightarrow> list_all printable cs \<Longrightarrow> \<exists>t. b = buf @ t \<and> (cs \<noteq> [] \<longrightarrow> t \<noteq> [] \<and> length buf < 8191)"
proof (induction cs arbitrary: buf)
  case (Cons c cs)
  then obtain b1 where b1: "layout_append c buf 8192 = Some b1" "dump_floats cs (fst (strlcat 8192 b1 '','')) = Some b"
    by (auto split: option.splits)
  have 1: "b1 = buf @ dump_text c" "length b1 < 8192"
    using append_text(1) [OF b1(1)] append_length [OF b1(1)] Cons.prems(2) by auto
  obtain t where "b = fst (strlcat 8192 b1 '','') @ t" using Cons.IH [OF b1(2)] Cons.prems(2) by auto
  moreover have "\<exists>u. fst (strlcat 8192 b1 '','') = b1 @ u" using 1(2) by (simp add: strlcat_def)
  ultimately show ?case using 1 dump_text_nonempty [of c] by (cases "dump_text c") auto
qed simp

lemma construct_float:
  assumes "printable c"
  shows "case layout_construct (dump_text c @ CHR ''<'' # t) of None \<Rightarrow> True | Some (_, rest) \<Rightarrow> rest \<noteq> []"
proof (cases "cell_type c = LAYOUT_WINDOWPANE")
  case True
  then obtain i cs where c: "c = Cell i cs" "ctype i = LAYOUT_WINDOWPANE" by (cases c) auto
  have "after_text (CHR ''<'' # t)" by (simp add: after_text_def)
  from scan_cell_text [OF assms this] c show ?thesis by (simp add: layout_construct_def construct_body_def)
next
  case False
  then have "layout_construct (dump_text c @ CHR ''<'' # t) = Some (strip forget c, CHR ''<'' # t)"
    unfolding layout_construct_def using fuel_length(1) [OF assms] by (intro construct_dump(1) assms) auto
  then show ?thesis by simp
qed

text \<open>C11: \<open>layout_dump\<close> prints the floating panes of a window after the tiled layout, between angle
  brackets, but \<open>layout_parse\<close> does not read them: the dump of a window with floating panes is
  always refused as an invalid layout.\<close>

theorem layout_dump_floating_refused:
  assumes "printable root" "list_all printable floats" "floats \<noteq> []" "layout_dump root floats = Some s"
  shows "layout_parse w inset in_mode s = Failed ''invalid layout''"
proof -
  obtain buf b where b: "layout_append root [] 8192 = Some buf" "dump_floats floats (fst (strlcat 8192 buf ''<'')) = Some b"
      "s = with_checksum (butlast b @ ''>'')"
    using assms(3,4) by (auto simp: layout_dump_def with_checksum_def bind_eq_Some_conv)
  have buf: "buf = dump_text root" using append_text(1) [OF b(1) assms(1)] by simp
  obtain t where t: "b = fst (strlcat 8192 buf ''<'') @ t" "t \<noteq> []" "length (fst (strlcat 8192 buf ''<'')) < 8191"
    using dump_floats_prefix [OF b(2) assms(2)] assms(3) by auto
  then have "butlast b @ ''>'' = dump_text root @ CHR ''<'' # butlast t @ ''>''"
    by (auto simp: strlcat_def butlast_append buf min_def split: if_splits)
  then show ?thesis
    using construct_float [OF assms(1), of "butlast t @ ''>''"]
    by (auto simp: b(3) layout_parse_def with_checksum_read split: option.splits)
qed


theorem layout_dump_floating_refused_witness:
  "\<exists>s. layout_dump example_root [example_leaf 3 30 10] = Some s \<and>
     layout_parse example_window 0 (\<lambda>_. False) s = Failed ''invalid layout''"
proof -
  let ?f = "example_leaf 3 30 10"
  have r: "printable example_root" "list_all printable [?f]" "texts_fit example_root" "texts_fit ?f"
      "length (dump_text example_root) < 100" "length (dump_text ?f) < 20" by code_simp+
  have a: "layout_append example_root [] 8192 = Some (dump_text example_root)"
      "layout_append ?f (dump_text example_root @ ''<'') 8192 = Some ((dump_text example_root @ ''<'') @ dump_text ?f)"
    using append_fits(1) [OF r(1,3), of "[]" 8192] append_fits(1) [OF _ r(4), of "dump_text example_root @ ''<''" 8192]
      r(2,5,6) by simp_all
  have l: "fst (strlcat 8192 (dump_text example_root) ''<'') = dump_text example_root @ ''<''"
    using r(5) by (simp add: strlcat_def)
  obtain s where s: "layout_dump example_root [?f] = Some s" using a l by (simp add: layout_dump_def)
  then show ?thesis using layout_dump_floating_refused [OF r(1,2) _ s] by blast
qed

definition nested_single :: layout_cell where
  "nested_single = example_node LAYOUT_LEFTRIGHT 80 24
     [example_leaf 0 20 24, example_leaf 1 20 24, example_node LAYOUT_TOPBOTTOM 38 24 [example_leaf 2 38 24]]"

definition single_child :: layout_cell where
  "single_child = example_node LAYOUT_LEFTRIGHT 80 24 [example_leaf 0 80 24]"

lemma crash_texts:
  "dump_text nested_single = ''80x24,0,0{20x24,0,0,0,20x24,0,0,1,38x24,0,0[38x24,0,0,2]}''"
  "dump_text single_child = ''80x24,0,0{80x24,0,0,0}''" "printable nested_single" "printable single_child"
  by code_simp+

text \<open>\<open>layout_parse\<close> is not safe on all input.  After a checksum field it skips five characters
  without looking at the length, so the argument \<open>1\<close> is read past its end; and a node with a single
  child, which the reader accepts, is left without children by the loop that closes the bottom right
  cells, so that the next round follows a null pointer.\<close>

theorem layout_parse_undefined:
  "layout_parse w inset in_mode ''1'' = Undefined \<and>
   layout_parse (one_pane_window 80 24) 0 (\<lambda>_. False)
     (with_checksum ''80x24,0,0{20x24,0,0,0,20x24,0,0,1,38x24,0,0[38x24,0,0,2]}'') = Undefined"
proof -
  have "scan_hx ''1'' = Some 1" by code_simp
  then have "layout_parse w inset in_mode ''1'' = Undefined" by (simp add: layout_parse_def)
  moreover have "apply_layout (one_pane_window 80 24) 0 (\<lambda>_. False) (strip forget nested_single) = Undefined" by code_simp
  ultimately show ?thesis
    using layout_parse_text [OF crash_texts(3)] unfolding crash_texts by simp
qed

text \<open>A layout with a single cell in a node is accepted for a window with one pane, and then
  \<open>resize-pane\<close> goes on with the null pointer it finds in front of that only cell.\<close>

theorem layout_parse_single_child:
  "\<exists>w. layout_parse (one_pane_window 80 24) 0 (\<lambda>_. False) (with_checksum ''80x24,0,0{80x24,0,0,0}'') = Parsed w \<and>
     cell_at (layout_root w) [0] \<noteq> None \<and>
     layout_resize_pane w 0 (\<lambda>_. False) [0] LAYOUT_LEFTRIGHT 5 True = None"
proof -
  have "(case apply_layout (one_pane_window 80 24) 0 (\<lambda>_. False) (strip forget single_child) of
     Parsed w \<Rightarrow> cell_at (layout_root w) [0] \<noteq> None \<and>
       layout_resize_pane w 0 (\<lambda>_. False) [0] LAYOUT_LEFTRIGHT 5 True = None | _ \<Rightarrow> False)" by code_simp
  then show ?thesis
    using layout_parse_text [OF crash_texts(4)] unfolding crash_texts by (auto split: parse_outcome.splits)
qed

end
