(* ===== verification/Keyed_Store.thy ===== *)
theory Keyed_Store
  imports Ztmux_Prelude
begin

text \<open>
  The interface that the server's tables share (paste buffers, environments): a state with a
  lookup, an insertion that replaces what was stored under the key, and a removal.  The laws say
  what a lookup returns after each operation; a component that provides them refines a partial map
  under every sequence of operations (\<open>run_refines\<close>).

  \<open>inv n s\<close> is the invariant of the provider with room for \<open>n\<close> more operations, for providers
  that number their entries with a machine integer.
\<close>

datatype ('k, 'v) store_op = Put 'k 'v | Del 'k

fun map_op :: "('k \<rightharpoonup> 'v) \<Rightarrow> ('k, 'v) store_op \<Rightarrow> ('k \<rightharpoonup> 'v)" where
  "map_op m (Put k v) = m(k \<mapsto> v)"
| "map_op m (Del k) = m(k := None)"

definition map_run :: "('k, 'v) store_op list \<Rightarrow> ('k \<rightharpoonup> 'v) \<Rightarrow> ('k \<rightharpoonup> 'v)" where
  "map_run ops m = foldl map_op m ops"

fun apply_op :: "('s \<Rightarrow> 'k \<Rightarrow> 'v \<Rightarrow> 's) \<Rightarrow> ('s \<Rightarrow> 'k \<Rightarrow> 's) \<Rightarrow> 's \<Rightarrow> ('k, 'v) store_op \<Rightarrow> 's" where
  "apply_op put del s (Put k v) = put s k v"
| "apply_op put del s (Del k) = del s k"

definition store_run :: "('s \<Rightarrow> 'k \<Rightarrow> 'v \<Rightarrow> 's) \<Rightarrow> ('s \<Rightarrow> 'k \<Rightarrow> 's) \<Rightarrow> ('k, 'v) store_op list \<Rightarrow> 's \<Rightarrow> 's" where
  "store_run put del ops s = foldl (apply_op put del) s ops"

fun op_ok :: "('k \<Rightarrow> bool) \<Rightarrow> ('v \<Rightarrow> bool) \<Rightarrow> ('k, 'v) store_op \<Rightarrow> bool" where
  "op_ok key_ok val_ok (Put k v) \<longleftrightarrow> key_ok k \<and> val_ok v"
| "op_ok key_ok val_ok (Del k) \<longleftrightarrow> key_ok k"

locale keyed_store =
  fixes inv :: "nat \<Rightarrow> 's \<Rightarrow> bool" and key_ok :: "'k \<Rightarrow> bool" and val_ok :: "'v \<Rightarrow> bool"
    and get :: "'s \<Rightarrow> 'k \<Rightarrow> 'v option" and put :: "'s \<Rightarrow> 'k \<Rightarrow> 'v \<Rightarrow> 's" and del :: "'s \<Rightarrow> 'k \<Rightarrow> 's"
  assumes inv_put: "inv (Suc n) s \<Longrightarrow> key_ok k \<Longrightarrow> val_ok v \<Longrightarrow> inv n (put s k v)"
    and inv_del: "inv (Suc n) s \<Longrightarrow> key_ok k \<Longrightarrow> inv n (del s k)"
    and get_put: "inv (Suc n) s \<Longrightarrow> key_ok k \<Longrightarrow> val_ok v \<Longrightarrow>
      get (put s k v) k' = (if k' = k then Some v else get s k')"
    and get_del: "inv (Suc n) s \<Longrightarrow> key_ok k \<Longrightarrow> get (del s k) k' = (if k' = k then None else get s k')"
begin

lemma step_refines:
  assumes "inv (Suc n) s" "op_ok key_ok val_ok oper"
  shows "inv n (apply_op put del s oper) \<and> get (apply_op put del s oper) = map_op (get s) oper"
proof (cases oper)
  case (Put k v)
  then show ?thesis using assms inv_put get_put by (auto simp: fun_eq_iff)
next
  case (Del k)
  then show ?thesis using assms inv_del get_del by (auto simp: fun_eq_iff)
qed

lemma run_refines:
  "inv (length ops + n) s \<Longrightarrow> list_all (op_ok key_ok val_ok) ops \<Longrightarrow>
     inv n (store_run put del ops s) \<and> get (store_run put del ops s) = map_run ops (get s)"
proof (induction ops arbitrary: s)
  case (Cons oper ops)
  have "inv (length ops + n) (apply_op put del s oper) \<and> get (apply_op put del s oper) = map_op (get s) oper"
    using step_refines [of "length ops + n" s oper] Cons.prems by simp
  with Cons.IH [of "apply_op put del s oper"] Cons.prems show ?case
    by (simp add: store_run_def map_run_def)
qed (simp add: store_run_def map_run_def)

lemma put_put: "inv (Suc (Suc n)) s \<Longrightarrow> key_ok k \<Longrightarrow> val_ok v \<Longrightarrow> val_ok v' \<Longrightarrow>
    get (put (put s k v) k v') = get (put s k v')"
  using inv_put [of "Suc n" s k v] get_put [of n "put s k v" k v'] get_put [of "Suc n" s k v] get_put [of "Suc n" s k v']
  by (auto simp: fun_eq_iff)

lemma del_put: "inv (Suc (Suc n)) s \<Longrightarrow> key_ok k \<Longrightarrow> val_ok v \<Longrightarrow> get (del (put s k v) k) = get (del s k)"
  using inv_put [of "Suc n" s k v] get_del [of n "put s k v" k] get_put [of "Suc n" s k v] get_del [of "Suc n" s k]
  by (auto simp: fun_eq_iff)

end

end
