(* ===== verification/Rb_Tree.thy ===== *)
theory Rb_Tree
  imports Ztmux_Prelude
begin

text \<open>
  The ordered trees that the server's tables are kept in (\<open>compat/tree.rs\<close>), as the list of their
  elements in the order of the comparison function.  \<open>key\<close> is what the comparison looks at.  The
  balancing of the tree is not modelled: the operations are the ones a client of the tree sees.
\<close>

section \<open>Operations\<close>

text \<open>\<open>rb_insert\<close> leaves the tree alone when an element compares equal.\<close>

definition rb_insert :: "('a \<Rightarrow> 'k :: linorder) \<Rightarrow> 'a \<Rightarrow> 'a list \<Rightarrow> 'a list" where
  "rb_insert key p xs = (if key p \<in> key ` set xs then xs else insort_key key p xs)"

definition rb_remove :: "'a \<Rightarrow> 'a list \<Rightarrow> 'a list" where
  "rb_remove p xs = remove1 p xs"

text \<open>\<open>rb_find_by\<close> with the comparison against a key.  \<open>rb_modify\<close> is the assignment to fields of the
  element it found, through the pointer it returned.\<close>

definition rb_find_by :: "('a \<Rightarrow> 'k) \<Rightarrow> 'k \<Rightarrow> 'a list \<Rightarrow> 'a option" where
  "rb_find_by key k xs = find (\<lambda>x. key x = k) xs"

definition rb_modify :: "('a \<Rightarrow> 'k) \<Rightarrow> 'k \<Rightarrow> ('a \<Rightarrow> 'a) \<Rightarrow> 'a list \<Rightarrow> 'a list" where
  "rb_modify key k f xs = map (\<lambda>x. if key x = k then f x else x) xs"

abbreviation ordered :: "('a \<Rightarrow> 'k :: linorder) \<Rightarrow> 'a list \<Rightarrow> bool" where
  "ordered key \<equiv> sorted_wrt (\<lambda>x y. key x < key y)"

section \<open>Trees as ordered lists\<close>

lemma set_rb_insert: "key p \<notin> key ` set xs \<Longrightarrow> set (rb_insert key p xs) = insert p (set xs)"
  by (simp add: rb_insert_def set_insort_key)

lemma insort_key_strict:
  "sorted_wrt (\<lambda>p q. key p < key q) xs \<Longrightarrow> key p \<notin> key ` set xs \<Longrightarrow> sorted_wrt (\<lambda>p q. key p < key q) (insort_key key p xs)"
proof (induction xs)
  case (Cons x xs)
  then show ?case by (auto simp: set_insort_key intro: order.strict_trans)
qed simp

lemma rb_insert_sorted: "sorted_wrt (\<lambda>p q. key p < key q) xs \<Longrightarrow> sorted_wrt (\<lambda>p q. key p < key q) (rb_insert key p xs)"
  using insort_key_strict by (auto simp: rb_insert_def)

lemma strict_distinct: "sorted_wrt (\<lambda>p q. (key p :: 'k :: linorder) < key q) xs \<Longrightarrow> distinct xs \<and> inj_on key (set xs)"
proof (induction xs)
  case (Cons x xs)
  then have "x \<notin> set xs" "\<forall>y \<in> set xs. key x \<noteq> key y" by auto
  with Cons show ?case by auto
qed simp

lemma sorted_wrt_remove1: "sorted_wrt P xs \<Longrightarrow> sorted_wrt P (remove1 x xs)"
proof (induction xs)
  case (Cons y ys)
  then show ?case using set_remove1_subset [of x ys] by auto
qed simp

lemma sorted_wrt_cong_set:
  "(\<And>x y. x \<in> set xs \<Longrightarrow> y \<in> set xs \<Longrightarrow> P x y = Q x y) \<Longrightarrow> sorted_wrt P xs = sorted_wrt Q xs"
  by (induction xs) auto

lemma rb_insert_first: "\<forall>q \<in> set xs. key p < key q \<Longrightarrow> rb_insert key p xs = p # xs"
  by (cases xs) (auto simp: rb_insert_def)

section \<open>Lookup after each operation\<close>

lemma rb_find_Some:
  "ordered key xs \<Longrightarrow> rb_find_by key k xs = Some x \<longleftrightarrow> x \<in> set xs \<and> key x = k"
proof (induction xs)
  case (Cons y ys)
  then show ?case by (auto simp: rb_find_by_def)
qed (simp add: rb_find_by_def)

lemma rb_find_None: "rb_find_by key k xs = None \<longleftrightarrow> k \<notin> key ` set xs"
  by (auto simp: rb_find_by_def find_None_iff)

lemma rb_find_key: "rb_find_by key k xs = Some x \<Longrightarrow> key x = k"
  by (auto simp: rb_find_by_def dest: find_SomeD)

lemma rb_find_insert:
  assumes "ordered key xs" "rb_find_by key (key x) xs = None"
  shows "rb_find_by key k (rb_insert key x xs) = (if k = key x then Some x else rb_find_by key k xs)"
proof -
  have n: "key x \<notin> key ` set xs" using assms(2) by (simp only: rb_find_None not_False_eq_True)
  have s: "ordered key (rb_insert key x xs)" by (rule rb_insert_sorted [OF assms(1)])
  show ?thesis
  proof (cases "rb_find_by key k (rb_insert key x xs)")
    case None
    then have "k \<notin> key ` insert x (set xs)" by (simp add: rb_find_None set_rb_insert [OF n])
    then show ?thesis using None rb_find_None [of key k xs] by auto
  next
    case (Some y)
    then have "y \<in> insert x (set xs)" "key y = k" by (simp_all add: rb_find_Some [OF s] set_rb_insert [OF n])
    moreover from this n have "k = key x \<longrightarrow> y = x" by (metis imageI insertE)
    ultimately show ?thesis using Some rb_find_Some [OF assms(1), of k y] by auto
  qed
qed

lemma rb_modify_ordered: "(\<And>x. key (f x) = key x) \<Longrightarrow> ordered key xs \<Longrightarrow> ordered key (rb_modify key k f xs)"
  by (induction xs) (auto simp: rb_modify_def)

lemma rb_find_modify:
  assumes "\<And>x. key (f x) = key x"
  shows "rb_find_by key k' (rb_modify key k f xs) =
    (if k' = k then map_option f (rb_find_by key k xs) else rb_find_by key k' xs)"
  using assms by (induction xs) (auto simp: rb_modify_def rb_find_by_def)

lemma rb_remove_ordered: "ordered key xs \<Longrightarrow> ordered key (rb_remove x xs)"
  unfolding rb_remove_def by (rule sorted_wrt_remove1)

lemma rb_find_remove:
  assumes "ordered key xs" "rb_find_by key k xs = Some x"
  shows "rb_find_by key k' (rb_remove x xs) = (if k' = k then None else rb_find_by key k' xs)"
proof -
  have x: "x \<in> set xs" "key x = k" using assms rb_find_Some [OF assms(1)] by blast+
  have d: "distinct xs" "inj_on key (set xs)" using strict_distinct [OF assms(1)] by auto
  have o: "ordered key (rb_remove x xs)" by (rule rb_remove_ordered [OF assms(1)])
  have s: "set (rb_remove x xs) = set xs - {x}" using d by (simp add: rb_remove_def)
  show ?thesis
  proof (cases "rb_find_by key k' (rb_remove x xs)")
    case None
    then have "k' \<notin> key ` (set xs - {x})" using s by (simp add: rb_find_None)
    then show ?thesis using None x rb_find_None [of key k' xs] by auto
  next
    case (Some y)
    then have "y \<in> set xs" "y \<noteq> x" "key y = k'" using rb_find_Some [OF o, of k' y] s by auto
    moreover have "k' \<noteq> k" using calculation d(2) x by (auto dest: inj_onD)
    ultimately show ?thesis using Some rb_find_Some [OF assms(1), of k' y] by auto
  qed
qed

end
