(* ===== verification/Paste.thy ===== *)
theory Paste
  imports Keyed_Store Rb_Tree "HOL-Library.List_Lexorder" "HOL-Library.Char_ord"
begin

text \<open>
  Paste buffers (\<open>paste.rs\<close>).  The code keeps every buffer in two red-black trees, by name and by
  age, and mutates buffers in place through pointers.  Here a pointer is a number, \<open>heap\<close> maps the
  live pointers to buffers, and a tree is the list of its pointers in the order of its comparison:
  \<open>by_name\<close> ascending by name, \<open>by_time\<close> descending by \<open>order\<close> (newest first).  Following a
  pointer that has been freed is the result \<^const>\<open>None\<close>.  Notifications are not modelled.
\<close>

section \<open>State\<close>

record paste_buffer =
  pb_data :: string
  pb_name :: string
  pb_created :: int
  pb_automatic :: bool
  pb_order :: u32

record paste =
  heap :: "nat \<rightharpoonup> paste_buffer"
  next_ptr :: nat
  by_name :: "nat list"
  by_time :: "nat list"
  next_index :: u32
  next_order :: u32
  num_automatic :: u32

definition paste_init :: paste where
  "paste_init = \<lparr>heap = Map.empty, next_ptr = 0, by_name = [], by_time = [], next_index = 0, next_order = 0,
     num_automatic = 0\<rparr>"

abbreviation buf :: "paste \<Rightarrow> nat \<Rightarrow> paste_buffer" where
  "buf s p \<equiv> the (heap s p)"

definition name_key :: "(nat \<rightharpoonup> paste_buffer) \<Rightarrow> nat \<Rightarrow> string" where
  "name_key h p = pb_name (the (h p))"

definition time_key :: "(nat \<rightharpoonup> paste_buffer) \<Rightarrow> nat \<Rightarrow> int" where
  "time_key h p = - pb_order (the (h p))"

section \<open>Reading\<close>

fun next_in :: "'a \<Rightarrow> 'a list \<Rightarrow> 'a option" where
  "next_in p [] = None"
| "next_in p (x # xs) = (if x = p then (case xs of [] \<Rightarrow> None | y # _ \<Rightarrow> Some y) else next_in p xs)"

definition paste_walk :: "paste \<Rightarrow> nat option \<Rightarrow> nat option" where
  "paste_walk s pb =
     (case pb of None \<Rightarrow> (case by_time s of [] \<Rightarrow> None | p # _ \<Rightarrow> Some p) | Some p \<Rightarrow> next_in p (by_time s))"

definition paste_is_empty :: "paste \<Rightarrow> bool" where
  "paste_is_empty s \<longleftrightarrow> by_time s = []"

definition paste_get_top :: "paste \<Rightarrow> nat option" where
  "paste_get_top s = find (\<lambda>p. pb_automatic (buf s p)) (by_time s)"

definition paste_get_name :: "paste \<Rightarrow> string option \<Rightarrow> nat option" where
  "paste_get_name s name =
     (case name of
        None \<Rightarrow> None
      | Some n \<Rightarrow> if n = [] then None else find (\<lambda>p. pb_name (buf s p) = n) (by_name s))"

section \<open>Changing\<close>

definition paste_free :: "paste \<Rightarrow> nat \<Rightarrow> paste option" where
  "paste_free s p =
     (case heap s p of
        None \<Rightarrow> None
      | Some b \<Rightarrow> Some (s\<lparr>by_name := rb_remove p (by_name s), by_time := rb_remove p (by_time s),
            num_automatic := (if pb_automatic b then u32 (num_automatic s - 1) else num_automatic s),
            heap := (heap s)(p := None)\<rparr>))"

text \<open>The loop of \<open>paste_add\<close> over the buffers from the oldest on.\<close>

fun expire :: "int \<Rightarrow> paste \<Rightarrow> nat list \<Rightarrow> paste option" where
  "expire limit s [] = Some s"
| "expire limit s (p # ps) =
     (if num_automatic s < limit then Some s
      else (case heap s p of
              None \<Rightarrow> None
            | Some b \<Rightarrow>
                if pb_automatic b
                then (case paste_free s p of None \<Rightarrow> None | Some s' \<Rightarrow> expire limit s' ps)
                else expire limit s ps))"

text \<open>The loop that looks for a free name.  Every name it tries is new until the index wraps, so one
  try more than there are buffers is enough (\<open>pick_name_enough\<close>).\<close>

fun pick_name :: "nat \<Rightarrow> paste \<Rightarrow> string \<Rightarrow> u32 \<Rightarrow> (string \<times> u32) option" where
  "pick_name 0 s prefix i = None"
| "pick_name (Suc n) s prefix i =
     (let name = prefix @ show_nat (nat i); i' = u32 (i + 1) in
      if paste_get_name s (Some name) = None then Some (name, i') else pick_name n s prefix i')"

definition insert_buffer :: "paste \<Rightarrow> paste_buffer \<Rightarrow> paste" where
  "insert_buffer s b =
     (let p = next_ptr s; h = (heap s)(p \<mapsto> b) in
      s\<lparr>heap := h, next_ptr := Suc p, by_name := rb_insert (name_key h) p (by_name s),
        by_time := rb_insert (time_key h) p (by_time s)\<rparr>)"

text \<open>\<open>limit\<close> is the option \<open>buffer-limit\<close> and \<open>now\<close> the time.\<close>

definition paste_add :: "int \<Rightarrow> int \<Rightarrow> paste \<Rightarrow> string option \<Rightarrow> string \<Rightarrow> paste option" where
  "paste_add limit now s prefix data =
     (if data = [] then Some s
      else (case expire limit s (rev (by_time s)) of
              None \<Rightarrow> None
            | Some s1 \<Rightarrow>
                (case pick_name (Suc (length (by_name s1))) s1
                        (case prefix of None \<Rightarrow> ''buffer'' | Some x \<Rightarrow> x) (next_index s1) of
                   None \<Rightarrow> None
                 | Some (name, i) \<Rightarrow>
                     Some (insert_buffer
                       (s1\<lparr>num_automatic := u32 (num_automatic s1 + 1), next_order := u32 (next_order s1 + 1), next_index := i\<rparr>)
                       \<lparr>pb_data = data, pb_name = name, pb_created = now, pb_automatic = True, pb_order = next_order s1\<rparr>))))"

text \<open>\<open>Inl\<close> is the \<open>cause\<close> of a failure.\<close>

definition paste_rename :: "paste \<Rightarrow> string option \<Rightarrow> string option \<Rightarrow> (string + paste) option" where
  "paste_rename s oldname newname =
     (case (oldname, newname) of
        (None, _) \<Rightarrow> Some (Inl ''no buffer'')
      | (Some old, new) \<Rightarrow>
          if old = [] then Some (Inl ''no buffer'')
          else if new = None \<or> new = Some [] then Some (Inl ''new name is empty'')
          else (case paste_get_name s (Some old) of
                  None \<Rightarrow> Some (Inl (''no buffer '' @ old))
                | Some pb \<Rightarrow>
                    (case (case paste_get_name s new of None \<Rightarrow> Some s | Some q \<Rightarrow> paste_free s q) of
                       None \<Rightarrow> None
                     | Some s1 \<Rightarrow>
                         (case heap s1 pb of
                            None \<Rightarrow> None
                          | Some b \<Rightarrow>
                              (let h = (heap s1)(pb \<mapsto> b\<lparr>pb_name := the new, pb_automatic := False\<rparr>) in
                               Some (Inr (s1\<lparr>heap := h,
                                 by_name := rb_insert (name_key h) pb (rb_remove pb (by_name s1)),
                                 num_automatic := (if pb_automatic b then u32 (num_automatic s1 - 1)
                                                   else num_automatic s1)\<rparr>)))))))"

definition paste_set :: "int \<Rightarrow> int \<Rightarrow> paste \<Rightarrow> string \<Rightarrow> string option \<Rightarrow> (string + paste) option" where
  "paste_set limit now s data name =
     (if data = [] then Some (Inr s)
      else (case name of
              None \<Rightarrow> map_option Inr (paste_add limit now s None data)
            | Some n \<Rightarrow>
                if n = [] then Some (Inl ''empty buffer name'')
                else (let s1 = s\<lparr>next_order := u32 (next_order s + 1)\<rparr> in
                      case (case paste_get_name s1 (Some n) of None \<Rightarrow> Some s1 | Some q \<Rightarrow> paste_free s1 q) of
                        None \<Rightarrow> None
                      | Some s2 \<Rightarrow>
                          Some (Inr (insert_buffer s2
                            \<lparr>pb_data = data, pb_name = n, pb_created = now, pb_automatic = False, pb_order = next_order s\<rparr>)))))"

definition paste_replace :: "paste \<Rightarrow> nat \<Rightarrow> string \<Rightarrow> paste option" where
  "paste_replace s p data =
     (case heap s p of None \<Rightarrow> None | Some b \<Rightarrow> Some (s\<lparr>heap := (heap s)(p \<mapsto> b\<lparr>pb_data := data\<rparr>)\<rparr>))"

section \<open>Invariant\<close>

definition automatic_count :: "paste \<Rightarrow> int" where
  "automatic_count s = int (length (filter (\<lambda>p. pb_automatic (buf s p)) (by_time s)))"

definition paste_inv :: "nat \<Rightarrow> paste \<Rightarrow> bool" where
  "paste_inv n s \<longleftrightarrow>
     set (by_name s) = dom (heap s) \<and> set (by_time s) = dom (heap s) \<and>
     sorted_wrt (\<lambda>p q. pb_name (buf s p) < pb_name (buf s q)) (by_name s) \<and>
     sorted_wrt (\<lambda>p q. pb_order (buf s q) < pb_order (buf s p)) (by_time s) \<and>
     (\<forall>p b. heap s p = Some b \<longrightarrow> p < next_ptr s \<and> pb_order b < next_order s \<and> pb_name b \<noteq> []) \<and>
     num_automatic s = automatic_count s \<and> 0 \<le> next_order s \<and> next_order s + int n < 4294967296 \<and>
     length (by_time s) \<le> nat (next_order s)"


section \<open>Single operations keep the invariant\<close>

lemma inv_names: "paste_inv n s \<Longrightarrow> distinct (by_name s) \<and> inj_on (\<lambda>p. pb_name (buf s p)) (dom (heap s))"
  using strict_distinct [of "\<lambda>p. pb_name (buf s p)" "by_name s"] by (auto simp: paste_inv_def)

lemma inv_times: "paste_inv n s \<Longrightarrow> distinct (by_time s)"
  using strict_distinct [of "\<lambda>p. - pb_order (buf s p)" "by_time s"] by (auto simp: paste_inv_def)

lemma inv_mono: "paste_inv n s \<Longrightarrow> m \<le> n \<Longrightarrow> paste_inv m s"
  by (auto simp: paste_inv_def)

lemma length_filter_remove1: "x \<in> set xs \<Longrightarrow> distinct xs \<Longrightarrow>
    length (filter P (remove1 x xs)) + (if P x then 1 else 0) = length (filter P xs)"
  by (induction xs) auto

lemma paste_free_spec:
  assumes "paste_inv n s" "heap s p = Some b"
  shows "\<exists>s'. paste_free s p = Some s' \<and> paste_inv n s' \<and> heap s' = (heap s)(p := None) \<and>
    by_time s' = remove1 p (by_time s) \<and> next_order s' = next_order s \<and> next_index s' = next_index s \<and>
    num_automatic s' = num_automatic s - (if pb_automatic b then 1 else 0)"
proof -
  note i = assms(1) [unfolded paste_inv_def]
  have d: "distinct (by_name s)" "distinct (by_time s)" using inv_names inv_times assms(1) by blast+
  have mem: "p \<in> set (by_name s)" "p \<in> set (by_time s)" using i assms(2) by auto
  let ?s = "s\<lparr>by_name := rb_remove p (by_name s), by_time := rb_remove p (by_time s),
      num_automatic := (if pb_automatic b then u32 (num_automatic s - 1) else num_automatic s), heap := (heap s)(p := None)\<rparr>"
  have le: "automatic_count s \<le> int (length (by_time s))" by (simp add: automatic_count_def)
  have cnt: "automatic_count ?s = automatic_count s - (if pb_automatic b then 1 else 0)"
  proof -
    have "filter (\<lambda>q. pb_automatic (buf ?s q)) (remove1 p (by_time s)) = filter (\<lambda>q. pb_automatic (buf s q)) (remove1 p (by_time s))"
      using d(2) by (intro filter_cong) auto
    then show ?thesis
      using length_filter_remove1 [OF mem(2) d(2), of "\<lambda>q. pb_automatic (buf s q)"] assms(2)
      by (simp add: automatic_count_def rb_remove_def split: if_splits)
  qed
  have na: "num_automatic ?s = num_automatic s - (if pb_automatic b then 1 else 0)"
  proof (cases "pb_automatic b")
    case True
    have "p \<in> set (filter (\<lambda>q. pb_automatic (buf s q)) (by_time s))" using mem(2) assms(2) True by simp
    from length_pos_if_in_set [OF this] have "1 \<le> automatic_count s" unfolding automatic_count_def by linarith
    moreover have "automatic_count s < 4294967296" using le i by linarith
    ultimately show ?thesis using i True by (simp add: u32_id)
  qed simp
  have "paste_inv n ?s"
    unfolding paste_inv_def
  proof (intro conjI)
    show "set (by_name ?s) = dom (heap ?s)" "set (by_time ?s) = dom (heap ?s)"
      using i d by (auto simp: rb_remove_def)
    show "sorted_wrt (\<lambda>p q. pb_name (buf ?s p) < pb_name (buf ?s q)) (by_name ?s)"
      using sorted_wrt_remove1 [of _ "by_name s" p] i d(1)
      by (subst sorted_wrt_cong_set [where Q = "\<lambda>p q. pb_name (buf s p) < pb_name (buf s q)"]) (auto simp: rb_remove_def)
    show "sorted_wrt (\<lambda>p q. pb_order (buf ?s q) < pb_order (buf ?s p)) (by_time ?s)"
      using sorted_wrt_remove1 [of _ "by_time s" p] i d(2)
      by (subst sorted_wrt_cong_set [where Q = "\<lambda>p q. pb_order (buf s q) < pb_order (buf s p)"]) (auto simp: rb_remove_def)
    show "num_automatic ?s = automatic_count ?s" using cnt na i by simp
    show "length (by_time ?s) \<le> nat (next_order ?s)"
      using i length_remove1 [of p "by_time s"] by (simp add: rb_remove_def) linarith
  qed (use i in \<open>auto split: if_splits\<close>)
  then show ?thesis using assms(2) na by (simp add: paste_free_def rb_remove_def)
qed


text \<open>A new buffer with the next order number and a name that is not in use.\<close>

lemma insert_buffer_spec:
  assumes "paste_inv (Suc n) s" "pb_name b \<noteq> []" "\<And>p c. heap s p = Some c \<Longrightarrow> pb_name c \<noteq> pb_name b"
    and "pb_order b = next_order s"
    and t: "t = s\<lparr>next_order := u32 (next_order s + 1), next_index := i,
              num_automatic := (if pb_automatic b then u32 (num_automatic s + 1) else num_automatic s)\<rparr>"
  shows "paste_inv n (insert_buffer t b) \<and> heap (insert_buffer t b) = (heap s)(next_ptr s \<mapsto> b) \<and>
    heap s (next_ptr s) = None \<and> by_time (insert_buffer t b) = next_ptr s # by_time s \<and>
    num_automatic (insert_buffer t b) = num_automatic s + (if pb_automatic b then 1 else 0)"
proof -
  note i = assms(1) [unfolded paste_inv_def]
  let ?p = "next_ptr s" and ?h = "(heap s)(next_ptr s \<mapsto> b)"
  let ?s = "insert_buffer t b"
  have fresh: "heap s ?p = None" using i by (cases "heap s ?p") auto
  then have np: "?p \<notin> set (by_name s)" "?p \<notin> set (by_time s)" using i by auto
  have order: "u32 (next_order s + 1) = next_order s + 1" using i by (simp add: u32_id)
  have name: "name_key ?h ?p \<notin> name_key ?h ` set (by_name s)"
    using i np(1) assms(3) by (force simp: name_key_def)
  have bn: "by_name ?s = rb_insert (name_key ?h) ?p (by_name s)"
    by (simp add: insert_buffer_def Let_def t)
  have "time_key ?h ?p < time_key ?h q" if "q \<in> set (by_time s)" for q
    using that i np(2) assms(4) by (force simp: time_key_def)
  then have bt: "by_time ?s = ?p # by_time s"
    using rb_insert_first [of "by_time s" "time_key ?h" ?p] by (simp add: insert_buffer_def Let_def t)
  have le: "automatic_count s \<le> int (length (by_time s))" by (simp add: automatic_count_def)
  have na: "num_automatic ?s = num_automatic s + (if pb_automatic b then 1 else 0)"
  proof -
    have "num_automatic s = automatic_count s" "length (by_time s) \<le> nat (next_order s)" "0 \<le> next_order s"
      "next_order s + int (Suc n) < 4294967296" "0 \<le> automatic_count s" using i by (auto simp: automatic_count_def)
    then have "0 \<le> num_automatic s" "num_automatic s + 1 < 4294967296" using le by linarith+
    then show ?thesis by (simp add: insert_buffer_def Let_def t u32_id)
  qed
  have h: "heap ?s = ?h" by (simp add: insert_buffer_def Let_def t)
  have "filter (\<lambda>p. pb_automatic (buf ?s p)) (by_time s) = filter (\<lambda>p. pb_automatic (buf s p)) (by_time s)"
    using np(2) h by (intro filter_cong) auto
  then have cnt: "automatic_count ?s = automatic_count s + (if pb_automatic b then 1 else 0)"
    using bt h by (simp add: automatic_count_def)
  have "paste_inv n ?s"
    unfolding paste_inv_def
  proof (intro conjI)
    show "set (by_name ?s) = dom (heap ?s)" using bn set_rb_insert [OF name] i h by auto
    show "set (by_time ?s) = dom (heap ?s)" using bt i h by auto
    show "sorted_wrt (\<lambda>p q. pb_name (buf ?s p) < pb_name (buf ?s q)) (by_name ?s)"
    proof -
      have "sorted_wrt (\<lambda>p q. name_key ?h p < name_key ?h q) (by_name s)"
        using i np(1) by (subst sorted_wrt_cong_set [where Q = "\<lambda>p q. pb_name (buf s p) < pb_name (buf s q)"])
          (auto simp: name_key_def)
      from rb_insert_sorted [OF this] show ?thesis unfolding bn h name_key_def .
    qed
    show "sorted_wrt (\<lambda>p q. pb_order (buf ?s q) < pb_order (buf ?s p)) (by_time ?s)"
    proof -
      have "sorted_wrt (\<lambda>p q. pb_order (the (?h q)) < pb_order (the (?h p))) (by_time s)"
        using i np(2) by (subst sorted_wrt_cong_set [where Q = "\<lambda>p q. pb_order (buf s q) < pb_order (buf s p)"]) auto
      moreover have "pb_order (the (?h q)) < pb_order b" if "q \<in> set (by_time s)" for q
        using that i np(2) assms(4) by force
      ultimately show ?thesis unfolding bt h by simp
    qed
    show "num_automatic ?s = automatic_count ?s" using na cnt i by simp
    show "\<forall>p c. heap ?s p = Some c \<longrightarrow> p < next_ptr ?s \<and> pb_order c < next_order ?s \<and> pb_name c \<noteq> []"
    proof -
      have "p < Suc ?p \<and> pb_order c < next_order s + 1 \<and> pb_name c \<noteq> []" if "?h p = Some c" for p c
        using that i assms(2,4) by (cases "p = ?p") (auto simp: less_Suc_eq dest!: spec [of _ p])
      then show ?thesis using order by (simp add: insert_buffer_def Let_def t)
    qed
  qed (use i order bt in \<open>auto simp: insert_buffer_def Let_def t\<close>)
  then show ?thesis using h bt na fresh by blast
qed

section \<open>Lookups\<close>

lemma get_name_iff:
  assumes "paste_inv n s" "name \<noteq> []"
  shows "paste_get_name s (Some name) = Some p \<longleftrightarrow> (\<exists>b. heap s p = Some b \<and> pb_name b = name)"
proof -
  note i = assms(1) [unfolded paste_inv_def]
  have inj: "inj_on (\<lambda>p. pb_name (buf s p)) (dom (heap s))" using inv_names [OF assms(1)] by blast
  show ?thesis
  proof
    assume "paste_get_name s (Some name) = Some p"
    then have "p \<in> set (by_name s)" "pb_name (buf s p) = name"
      using assms(2) find_SomeD by (fastforce simp: paste_get_name_def)+
    then show "\<exists>b. heap s p = Some b \<and> pb_name b = name" using i by auto
  next
    assume r: "\<exists>b. heap s p = Some b \<and> pb_name b = name"
    then have "\<exists>q. find (\<lambda>p. pb_name (buf s p) = name) (by_name s) = Some q"
      using i find_None_iff [of "\<lambda>p. pb_name (buf s p) = name" "by_name s"]
      by (cases "find (\<lambda>p. pb_name (buf s p) = name) (by_name s)") auto
    then obtain q where q: "find (\<lambda>p. pb_name (buf s p) = name) (by_name s) = Some q" ..
    then have "q \<in> dom (heap s)" "pb_name (buf s q) = name" using find_SomeD i by fastforce+
    moreover have "p \<in> dom (heap s)" "pb_name (buf s p) = name" using r by auto
    ultimately have "q = p" using inj by (simp add: inj_on_def)
    with q show "paste_get_name s (Some name) = Some p" using assms(2) by (simp add: paste_get_name_def)
  qed
qed

lemma get_name_None:
  "paste_inv n s \<Longrightarrow> name \<noteq> [] \<Longrightarrow> paste_get_name s (Some name) = None \<longleftrightarrow> (\<forall>p b. heap s p = Some b \<longrightarrow> pb_name b \<noteq> name)"
proof -
  assume a: "paste_inv n s" "name \<noteq> []"
  have "paste_get_name s (Some name) = None \<longleftrightarrow> (\<forall>p. paste_get_name s (Some name) \<noteq> Some p)" by auto
  then show ?thesis unfolding get_name_iff [OF a] by blast
qed

text \<open>The data of the buffer with a name, and the two operations on names that the commands use.\<close>

definition paste_lookup :: "paste \<Rightarrow> string \<Rightarrow> string option" where
  "paste_lookup s name = map_option (\<lambda>p. pb_data (buf s p)) (paste_get_name s (Some name))"

definition set_named :: "int \<Rightarrow> int \<Rightarrow> paste \<Rightarrow> string \<Rightarrow> string \<Rightarrow> paste" where
  "set_named limit now s name data =
     (case paste_set limit now s data (Some name) of Some (Inr s') \<Rightarrow> s' | _ \<Rightarrow> s)"

definition free_named :: "paste \<Rightarrow> string \<Rightarrow> paste" where
  "free_named s name =
     (case paste_get_name s (Some name) of None \<Rightarrow> s
      | Some p \<Rightarrow> (case paste_free s p of None \<Rightarrow> s | Some s' \<Rightarrow> s'))"

lemma lookup_iff:
  assumes "paste_inv n s" "name \<noteq> []"
  shows "paste_lookup s name = Some d \<longleftrightarrow> (\<exists>p b. heap s p = Some b \<and> pb_name b = name \<and> pb_data b = d)"
proof -
  have "paste_lookup s name = Some d \<longleftrightarrow> (\<exists>p. paste_get_name s (Some name) = Some p \<and> pb_data (buf s p) = d)"
    by (auto simp: paste_lookup_def)
  then show ?thesis unfolding get_name_iff [OF assms] by (metis option.sel)
qed

lemma lookup_empty: "paste_lookup s [] = None"
  by (simp add: paste_lookup_def paste_get_name_def)

lemma lookup_eqI:
  assumes "paste_inv n s" "paste_inv m s'"
    and "\<And>d. (\<exists>p b. heap s p = Some b \<and> pb_name b = name \<and> pb_data b = d) \<longleftrightarrow> (\<exists>p b. heap s' p = Some b \<and> pb_name b = name \<and> pb_data b = d)"
  shows "paste_lookup s name = paste_lookup s' name"
proof (cases "name = []")
  case False
  have "paste_lookup s name = Some d \<longleftrightarrow> paste_lookup s' name = Some d" for d
    using lookup_iff [OF assms(1) False] lookup_iff [OF assms(2) False] assms(3) by simp
  then show ?thesis by (metis not_Some_eq)
qed (simp add: lookup_empty)


section \<open>Setting, freeing and renaming by name\<close>

lemma paste_set_spec:
  assumes "paste_inv (Suc n) s" "name \<noteq> []" "data \<noteq> []"
  shows "\<exists>s'. paste_set limit now s data (Some name) = Some (Inr s') \<and> paste_inv n s' \<and>
    (\<forall>k. paste_lookup s' k = (if k = name then Some data else paste_lookup s k)) \<and>
    (\<exists>p b. paste_walk s' None = Some p \<and> heap s' p = Some b \<and> pb_name b = name \<and> pb_data b = data \<and> \<not> pb_automatic b)"
proof -
  let ?s1 = "s\<lparr>next_order := u32 (next_order s + 1)\<rparr>"
  let ?b = "\<lparr>pb_data = data, pb_name = name, pb_created = now, pb_automatic = False, pb_order = next_order s\<rparr>"
  have gn: "paste_get_name ?s1 (Some name) = paste_get_name s (Some name)" by (simp add: paste_get_name_def)
  obtain r where r: "paste_inv (Suc n) r" "\<And>p c. heap r p = Some c \<Longrightarrow> pb_name c \<noteq> name" "next_order r = next_order s"
      "\<And>p c. pb_name c \<noteq> name \<Longrightarrow> heap r p = Some c \<longleftrightarrow> heap s p = Some c"
      "(case paste_get_name ?s1 (Some name) of None \<Rightarrow> Some ?s1 | Some q \<Rightarrow> paste_free ?s1 q)
        = Some (r\<lparr>next_order := u32 (next_order s + 1)\<rparr>)"
  proof (cases "paste_get_name s (Some name)")
    case None
    then show thesis using that [of s] assms(1) get_name_None [OF assms(1,2)] gn by simp
  next
    case (Some q)
    then obtain b where b: "heap s q = Some b" "pb_name b = name" using get_name_iff [OF assms(1,2)] by blast
    obtain t where t: "paste_free s q = Some t" "paste_inv (Suc n) t" "heap t = (heap s)(q := None)" "next_order t = next_order s"
      using paste_free_spec [OF assms(1) b(1)] by blast
    have inj: "inj_on (\<lambda>p. pb_name (buf s p)) (dom (heap s))" using inv_names [OF assms(1)] by blast
    have "pb_name c \<noteq> name" if "heap t p = Some c" for p c
    proof
      assume "pb_name c = name"
      moreover have "heap s p = Some c" "p \<noteq> q" using that t(3) by (auto split: if_splits)
      ultimately show False using inj_onD [OF inj, of p q] b by auto
    qed
    moreover have "heap t p = Some c \<longleftrightarrow> heap s p = Some c" if "pb_name c \<noteq> name" for p c using that b t(3) by auto
    moreover have "paste_free ?s1 q = Some (t\<lparr>next_order := u32 (next_order s + 1)\<rparr>)"
      using t(1) b(1) by (auto simp: paste_free_def)
    ultimately show thesis using that [OF t(2) _ t(4)] Some gn by auto
  qed
  let ?t = "r\<lparr>next_order := u32 (next_order s + 1)\<rparr>"
  have t: "?t = r\<lparr>next_order := u32 (next_order r + 1), next_index := next_index r,
      num_automatic := (if pb_automatic ?b then u32 (num_automatic r + 1) else num_automatic r)\<rparr>" using r(3) by simp
  have ins: "paste_inv n (insert_buffer ?t ?b)" "heap (insert_buffer ?t ?b) = (heap r)(next_ptr r \<mapsto> ?b)"
      "heap r (next_ptr r) = None" "by_time (insert_buffer ?t ?b) = next_ptr r # by_time r"
    using insert_buffer_spec [OF r(1) _ _ _ t] assms(2) r(2,3) by auto
  have set: "paste_set limit now s data (Some name) = Some (Inr (insert_buffer ?t ?b))"
    using r(5) assms(2,3) by (simp add: paste_set_def)
  have "paste_lookup (insert_buffer ?t ?b) k = (if k = name then Some data else paste_lookup s k)" for k
  proof (cases "k = name")
    case True
    then show ?thesis using lookup_iff [OF ins(1) assms(2)] ins(2) by fastforce
  next
    case False
    have "paste_lookup (insert_buffer ?t ?b) k = paste_lookup s k"
    proof (rule lookup_eqI [OF ins(1) assms(1)])
      fix d
      have "((heap r)(next_ptr r \<mapsto> ?b)) p = Some c \<longleftrightarrow> heap s p = Some c" if "pb_name c = k" for p c
        using that False r(4) [of c p] ins(3) by auto
      then show "(\<exists>p c. heap (insert_buffer ?t ?b) p = Some c \<and> pb_name c = k \<and> pb_data c = d)
          = (\<exists>p c. heap s p = Some c \<and> pb_name c = k \<and> pb_data c = d)" unfolding ins(2) by blast
    qed
    then show ?thesis using False by simp
  qed
  moreover have "paste_walk (insert_buffer ?t ?b) None = Some (next_ptr r)" using ins(4) by (simp add: paste_walk_def)
  ultimately show ?thesis using set ins(1,2) by fastforce
qed

lemma free_named_spec:
  assumes "paste_inv n s" "name \<noteq> []"
  shows "paste_inv n (free_named s name) \<and> (\<forall>k. paste_lookup (free_named s name) k = (if k = name then None else paste_lookup s k))"
proof (cases "paste_get_name s (Some name)")
  case None
  then show ?thesis using assms by (simp add: free_named_def paste_lookup_def)
next
  case (Some q)
  then obtain b where b: "heap s q = Some b" "pb_name b = name" using get_name_iff [OF assms] by blast
  obtain t where t: "paste_free s q = Some t" "paste_inv n t" "heap t = (heap s)(q := None)"
    using paste_free_spec [OF assms(1) b(1)] by blast
  have inj: "inj_on (\<lambda>p. pb_name (buf s p)) (dom (heap s))" using inv_names [OF assms(1)] by blast
  have "paste_lookup t k = (if k = name then None else paste_lookup s k)" for k
  proof (cases "k = name")
    case True
    have "paste_get_name t (Some name) = None"
      unfolding get_name_None [OF t(2) assms(2)]
    proof (intro allI impI notI)
      fix p c
      assume "heap t p = Some c" "pb_name c = name"
      then have "heap s p = Some c" "p \<noteq> q" using t(3) by (auto split: if_splits)
      then show False using inj_onD [OF inj, of p q] b \<open>pb_name c = name\<close> by auto
    qed
    then show ?thesis using True by (simp add: paste_lookup_def)
  next
    case False
    have "heap t p = Some c \<longleftrightarrow> heap s p = Some c" if "pb_name c = k" for p c using that False b t(3) by auto
    then have "paste_lookup t k = paste_lookup s k" using lookup_eqI [OF t(2) assms(1)] by blast
    then show ?thesis using False by simp
  qed
  with t(1,2) Some show ?thesis by (simp add: free_named_def)
qed

interpretation paste_store: keyed_store paste_inv "\<lambda>name. name \<noteq> []" "\<lambda>data. data \<noteq> []" paste_lookup "set_named limit now" free_named
  for limit now
proof
  show "paste_inv n (set_named limit now s k v)" if "paste_inv (Suc n) s" "k \<noteq> []" "v \<noteq> []" for n s k v
    using paste_set_spec [OF that, of limit now] by (auto simp: set_named_def)
  show "paste_inv n (free_named s k)" if "paste_inv (Suc n) s" "k \<noteq> []" for n s k
    using free_named_spec [OF that] inv_mono [of "Suc n" _ n] by simp
  show "paste_lookup (set_named limit now s k v) k' = (if k' = k then Some v else paste_lookup s k')"
    if "paste_inv (Suc n) s" "k \<noteq> []" "v \<noteq> []" for n s k v k'
    using paste_set_spec [OF that, of limit now] by (auto simp: set_named_def)
  show "paste_lookup (free_named s k) k' = (if k' = k then None else paste_lookup s k')"
    if "paste_inv (Suc n) s" "k \<noteq> []" for n s k k'
    using free_named_spec [OF that] by simp
qed


section \<open>Adding an automatic buffer\<close>

lemma map_le_Some: "m \<subseteq>\<^sub>m n \<Longrightarrow> m a = Some b \<Longrightarrow> n a = Some b"
  unfolding map_le_def dom_def by (metis mem_Collect_eq option.distinct(1))

lemma expire_spec:
  assumes "paste_inv n s" "distinct ps" "set ps \<subseteq> dom (heap s)"
    "\<forall>p b. heap s p = Some b \<and> pb_automatic b \<longrightarrow> p \<in> set ps"
  shows "\<exists>s'. expire limit s ps = Some s' \<and> paste_inv n s' \<and> heap s' \<subseteq>\<^sub>m heap s \<and> next_order s' = next_order s \<and>
    next_index s' = next_index s \<and> (\<forall>p b. heap s p = Some b \<and> \<not> pb_automatic b \<longrightarrow> heap s' p = Some b) \<and>
    (num_automatic s' < limit \<or> num_automatic s' = 0)"
  using assms
proof (induction ps arbitrary: s)
  case Nil
  then have "num_automatic s = 0"
    by (auto simp: paste_inv_def automatic_count_def filter_empty_conv)
  with Nil show ?case by auto
next
  case (Cons p ps)
  obtain b where b: "heap s p = Some b" using Cons.prems(3) by auto
  consider "num_automatic s < limit" | "\<not> num_automatic s < limit" "pb_automatic b" | "\<not> num_automatic s < limit" "\<not> pb_automatic b" by blast
  then show ?case
  proof cases
    case 1
    then show ?thesis using Cons.prems(1) by auto
  next
    case 2
    obtain t where t: "paste_free s p = Some t" "paste_inv n t" "heap t = (heap s)(p := None)" "next_order t = next_order s"
        "next_index t = next_index s"
      using paste_free_spec [OF Cons.prems(1) b] by blast
    have live: "distinct ps" "set ps \<subseteq> dom (heap t)" "\<forall>q c. heap t q = Some c \<and> pb_automatic c \<longrightarrow> q \<in> set ps"
      using Cons.prems(2-4) t(3) by auto
    obtain s' where s': "expire limit t ps = Some s'" "paste_inv n s'" "heap s' \<subseteq>\<^sub>m heap t" "next_order s' = next_order t"
        "next_index s' = next_index t"
        "\<forall>p b. heap t p = Some b \<and> \<not> pb_automatic b \<longrightarrow> heap s' p = Some b" "num_automatic s' < limit \<or> num_automatic s' = 0"
      using Cons.IH [OF t(2) live] by blast
    have "heap t \<subseteq>\<^sub>m heap s" using t(3) by (auto simp: map_le_def)
    then have "heap s' \<subseteq>\<^sub>m heap s" by (rule map_le_trans [OF s'(3)])
    moreover have "heap s' q = Some c" if "heap s q = Some c" "\<not> pb_automatic c" for q c
      using s'(6) t(3) that b 2(2) by (cases "q = p") auto
    ultimately show ?thesis using s' t b 2 by auto
  next
    case 3
    have "\<forall>q c. heap s q = Some c \<and> pb_automatic c \<longrightarrow> q \<in> set ps"
      using Cons.prems(4) b 3(2) by fastforce
    then show ?thesis using Cons.IH [OF Cons.prems(1)] Cons.prems(2,3) b 3 by auto
  qed
qed

lemma pick_name_Some:
  "pick_name m s prefix i = Some (name, j) \<Longrightarrow> paste_get_name s (Some name) = None \<and> name \<noteq> []"
  using show_nat_digits by (induction m arbitrary: i) (auto simp: Let_def split: if_splits)

lemma pick_name_None:
  "pick_name m s prefix i = None \<Longrightarrow> k < m \<Longrightarrow> 0 \<le> i \<Longrightarrow> i < 4294967296 \<Longrightarrow>
     paste_get_name s (Some (prefix @ show_nat (nat (u32 (i + int k))))) \<noteq> None"
proof (induction m arbitrary: i k)
  case (Suc m)
  show ?case
  proof (cases k)
    case 0
    then show ?thesis using Suc.prems by (auto simp: Let_def u32_id split: if_splits)
  next
    case (Suc k')
    have "u32 (u32 (i + 1) + int k') = u32 (i + int k)" using Suc by (simp add: u32_def mod_simps algebra_simps)
    then show ?thesis
      using Suc.IH [of "u32 (i + 1)" k'] Suc.prems Suc by (auto simp: Let_def split: if_splits)
  qed
qed simp

lemma pick_name_enough:
  assumes "paste_inv n s" "0 \<le> i" "i < 4294967296"
  shows "\<exists>name j. pick_name (Suc (length (by_name s))) s prefix i = Some (name, j)"
proof (rule ccontr)
  let ?m = "Suc (length (by_name s))"
  define f where "f k = prefix @ show_nat (nat (u32 (i + int k)))" for k
  assume "\<not> ?thesis"
  then have "pick_name ?m s prefix i = None" by (metis not_Some_eq surj_pair)
  then have taken: "paste_get_name s (Some (f k)) \<noteq> None" if "k < ?m" for k
    using pick_name_None [OF _ that] assms(2,3) by (simp add: f_def)
  note inv = assms(1) [unfolded paste_inv_def]
  have "length (by_name s) = card (dom (heap s))" "length (by_time s) = card (dom (heap s))"
    using inv inv_names [OF assms(1)] inv_times [OF assms(1)] distinct_card by metis+
  then have m: "int ?m \<le> 4294967296" using inv by auto
  have "inj_on f {..< ?m}"
  proof
    fix a b
    assume ab: "a \<in> {..< ?m}" "b \<in> {..< ?m}" "f a = f b"
    then have "(i + int a) mod 4294967296 = (i + int b) mod 4294967296"
      by (simp add: f_def u32_def eq_nat_nat_iff)
    then have "4294967296 dvd (int a - int b)" by (simp add: mod_eq_dvd_iff)
    moreover have "\<bar>int a - int b\<bar> < 4294967296" using ab m by auto
    ultimately show "a = b" using dvd_imp_le_int [of "int a - int b" 4294967296] by fastforce
  qed
  moreover have "f ` {..< ?m} \<subseteq> (\<lambda>p. pb_name (buf s p)) ` dom (heap s)"
  proof
    fix x
    assume "x \<in> f ` {..< ?m}"
    then obtain k where k: "k < ?m" "x = f k" by auto
    have ne: "f k \<noteq> []" using show_nat_digits by (simp add: f_def)
    obtain p b where "heap s p = Some b" "pb_name b = f k"
      using taken [OF k(1)] get_name_iff [OF assms(1) ne] by auto
    then show "x \<in> (\<lambda>p. pb_name (buf s p)) ` dom (heap s)" using k(2) by force
  qed
  moreover have "finite (dom (heap s))" using inv by (metis finite_set)
  ultimately have "?m \<le> card (dom (heap s))"
    by (metis card_image card_image_le card_lessThan card_mono finite_imageI order_trans)
  with \<open>length (by_name s) = card (dom (heap s))\<close> show False by simp
qed


lemma paste_add_spec:
  assumes "paste_inv (Suc n) s" "data \<noteq> []" "0 \<le> next_index s" "next_index s < 4294967296"
  shows "\<exists>s' p b. paste_add limit now s prefix data = Some s' \<and> paste_inv n s' \<and>
    paste_walk s' None = Some p \<and> paste_get_top s' = Some p \<and> heap s' p = Some b \<and> pb_data b = data \<and> pb_automatic b \<and>
    (\<forall>q c. heap s q = Some c \<and> \<not> pb_automatic c \<longrightarrow> heap s' q = Some c) \<and>
    (\<forall>q c. heap s' q = Some c \<longrightarrow> q = p \<or> heap s q = Some c) \<and>
    automatic_count s' \<le> max 1 limit"
proof -
  have "set (rev (by_time s)) \<subseteq> dom (heap s)" "\<forall>p b. heap s p = Some b \<and> pb_automatic b \<longrightarrow> p \<in> set (rev (by_time s))"
    using assms(1) by (auto simp: paste_inv_def)
  then obtain r where r: "expire limit s (rev (by_time s)) = Some r" "paste_inv (Suc n) r" "heap r \<subseteq>\<^sub>m heap s"
      "next_index r = next_index s" "\<forall>p b. heap s p = Some b \<and> \<not> pb_automatic b \<longrightarrow> heap r p = Some b"
      "num_automatic r < limit \<or> num_automatic r = 0"
    using expire_spec [OF assms(1), of "rev (by_time s)" limit] inv_times [OF assms(1)] by auto
  let ?pre = "case prefix of None \<Rightarrow> ''buffer'' | Some x \<Rightarrow> x"
  obtain name i where name: "pick_name (Suc (length (by_name r))) r ?pre (next_index r) = Some (name, i)"
    using pick_name_enough [OF r(2), of "next_index r" ?pre] assms(3,4) r(4) by auto
  then have fresh: "paste_get_name r (Some name) = None" "name \<noteq> []" using pick_name_Some by blast+
  let ?b = "\<lparr>pb_data = data, pb_name = name, pb_created = now, pb_automatic = True, pb_order = next_order r\<rparr>"
  let ?t = "r\<lparr>num_automatic := u32 (num_automatic r + 1), next_order := u32 (next_order r + 1), next_index := i\<rparr>"
  let ?s = "insert_buffer ?t ?b"
  have "pb_name c \<noteq> pb_name ?b" if "heap r q = Some c" for q c
    using get_name_None [OF r(2) fresh(2)] fresh(1) that by auto
  then have ins: "paste_inv n ?s" "heap ?s = (heap r)(next_ptr r \<mapsto> ?b)" "heap r (next_ptr r) = None"
      "by_time ?s = next_ptr r # by_time r" "num_automatic ?s = num_automatic r + 1"
    using insert_buffer_spec [OF r(2), of ?b ?t i] fresh(2) by auto
  have "paste_add limit now s prefix data = Some ?s" using r(1) name assms(2) by (simp add: paste_add_def)
  moreover have "paste_walk ?s None = Some (next_ptr r)" "paste_get_top ?s = Some (next_ptr r)"
    using ins(2,4) by (simp_all add: paste_walk_def paste_get_top_def)
  moreover have "heap ?s q = Some c" if "heap s q = Some c" "\<not> pb_automatic c" for q c
    using r(5) that ins(2,3) by (cases "q = next_ptr r") auto
  moreover have "q = next_ptr r \<or> heap s q = Some c" if "heap ?s q = Some c" for q c
    using that ins(2) map_le_Some [OF r(3)] by (auto split: if_splits)
  moreover have "automatic_count ?s \<le> max 1 limit" using ins(1,5) r(6) by (auto simp: paste_inv_def)
  ultimately show ?thesis using ins(1,2) by (intro exI [of _ ?s] exI [of _ "next_ptr r"] exI [of _ ?b]) simp
qed


section \<open>Renaming\<close>

lemma change_name_spec:
  assumes "paste_inv n s" "heap s p = Some b" "name \<noteq> []" "\<And>q c. heap s q = Some c \<Longrightarrow> q \<noteq> p \<Longrightarrow> pb_name c \<noteq> name"
  defines "h \<equiv> (heap s)(p \<mapsto> b\<lparr>pb_name := name, pb_automatic := False\<rparr>)"
  shows "paste_inv n (s\<lparr>heap := h, by_name := rb_insert (name_key h) p (rb_remove p (by_name s)),
    num_automatic := (if pb_automatic b then u32 (num_automatic s - 1) else num_automatic s)\<rparr>)"
proof -
  note i = assms(1) [unfolded paste_inv_def]
  let ?s = "s\<lparr>heap := h, by_name := rb_insert (name_key h) p (rb_remove p (by_name s)),
    num_automatic := (if pb_automatic b then u32 (num_automatic s - 1) else num_automatic s)\<rparr>"
  have d: "distinct (by_name s)" "distinct (by_time s)" using inv_names inv_times assms(1) by blast+
  have mem: "p \<in> set (by_time s)" using i assms(2) by auto
  have rest: "set (rb_remove p (by_name s)) = dom (heap s) - {p}" using d(1) i by (simp add: rb_remove_def)
  have fresh: "name_key h p \<notin> name_key h ` set (rb_remove p (by_name s))"
    using assms(4) rest by (force simp: name_key_def h_def)
  have "filter (\<lambda>q. pb_automatic (the (h q))) (by_time s) = filter (\<lambda>q. pb_automatic (buf s q) \<and> q \<noteq> p) (by_time s)"
    by (intro filter_cong) (auto simp: h_def)
  also have "\<dots> = filter (\<lambda>q. pb_automatic (buf s q)) (remove1 p (by_time s))"
    using d(2) by (auto simp: distinct_remove1_removeAll removeAll_filter_not_eq intro!: filter_cong)
  finally have cnt: "automatic_count ?s = automatic_count s - (if pb_automatic b then 1 else 0)"
    using length_filter_remove1 [OF mem d(2), of "\<lambda>q. pb_automatic (buf s q)"] assms(2)
    by (simp add: automatic_count_def split: if_splits)
  have "paste_inv n ?s"
    unfolding paste_inv_def
  proof (intro conjI)
    show "set (by_name ?s) = dom (heap ?s)" using set_rb_insert [OF fresh] rest assms(2) by (auto simp: h_def)
    show "set (by_time ?s) = dom (heap ?s)" using i assms(2) by (auto simp: h_def)
    show "sorted_wrt (\<lambda>p q. pb_name (buf ?s p) < pb_name (buf ?s q)) (by_name ?s)"
    proof -
      have "sorted_wrt (\<lambda>p q. pb_name (buf s p) < pb_name (buf s q)) (rb_remove p (by_name s))"
        unfolding rb_remove_def by (rule sorted_wrt_remove1) (use i in blast)
      moreover have "name_key h q = pb_name (buf s q)" if "q \<in> set (rb_remove p (by_name s))" for q
        using that unfolding rest by (simp add: name_key_def h_def)
      ultimately have "sorted_wrt (\<lambda>p q. name_key h p < name_key h q) (rb_remove p (by_name s))"
        using sorted_wrt_cong_set [of "rb_remove p (by_name s)" "\<lambda>p q. name_key h p < name_key h q"
          "\<lambda>p q. pb_name (buf s p) < pb_name (buf s q)"] by simp
      from rb_insert_sorted [OF this, of p] show ?thesis by (simp add: name_key_def [abs_def])
    qed
    have "pb_order (the (h q)) = pb_order (buf s q)" for q using assms(2) by (simp add: h_def)
    then show "sorted_wrt (\<lambda>p q. pb_order (buf ?s q) < pb_order (buf ?s p)) (by_time ?s)" using i by simp
    show "num_automatic ?s = automatic_count ?s"
    proof (cases "pb_automatic b")
      case True
      have "p \<in> set (filter (\<lambda>q. pb_automatic (buf s q)) (by_time s))" using mem assms(2) True by simp
      from length_pos_if_in_set [OF this] have "1 \<le> automatic_count s" unfolding automatic_count_def by linarith
      moreover have "automatic_count s \<le> int (length (by_time s))" by (simp add: automatic_count_def)
      ultimately show ?thesis using i cnt True by (auto simp: u32_id)
    qed (use cnt i in simp)
    show "\<forall>q c. heap ?s q = Some c \<longrightarrow> q < next_ptr ?s \<and> pb_order c < next_order ?s \<and> pb_name c \<noteq> []"
      using i assms(2,3) by (auto simp: h_def)
  qed (use i in auto)
  then show ?thesis .
qed

lemma paste_rename_spec:
  assumes "paste_inv n s" "old \<noteq> []" "new \<noteq> []" "old \<noteq> new" "paste_lookup s old = Some d"
  shows "\<exists>s'. paste_rename s (Some old) (Some new) = Some (Inr s') \<and> paste_inv n s' \<and>
    paste_lookup s' = (paste_lookup s)(old := None, new \<mapsto> d)"
proof -
  obtain p b where p: "paste_get_name s (Some old) = Some p" "heap s p = Some b" "pb_name b = old" "pb_data b = d"
    using assms(5) get_name_iff [OF assms(1,2)] by (auto simp: paste_lookup_def)
  let ?r = "free_named s new"
  have r: "paste_inv n ?r" "paste_lookup ?r k = (if k = new then None else paste_lookup s k)" for k
    using free_named_spec [OF assms(1,3)] by auto
  have step: "(case paste_get_name s (Some new) of None \<Rightarrow> Some s | Some q \<Rightarrow> paste_free s q) = Some ?r \<and> heap ?r p = Some b"
  proof (cases "paste_get_name s (Some new)")
    case (Some q)
    then obtain c where c: "heap s q = Some c" "pb_name c = new" using get_name_iff [OF assms(1,3)] by blast
    then have "q \<noteq> p" using p assms(4) by auto
    with paste_free_spec [OF assms(1) c(1)] Some p(2) show ?thesis by (auto simp: free_named_def)
  qed (simp add: free_named_def p(2))
  have nn: "pb_name c \<noteq> new" if "heap ?r q = Some c" for q c
    using lookup_iff [OF r(1) assms(3)] r(2) [of new] that by force
  let ?h = "(heap ?r)(p \<mapsto> b\<lparr>pb_name := new, pb_automatic := False\<rparr>)"
  let ?s = "?r\<lparr>heap := ?h, by_name := rb_insert (name_key ?h) p (rb_remove p (by_name ?r)),
    num_automatic := (if pb_automatic b then u32 (num_automatic ?r - 1) else num_automatic ?r)\<rparr>"
  have inv: "paste_inv n ?s" using change_name_spec [OF r(1) _ assms(3), of p b] step nn by blast
  have ren: "paste_rename s (Some old) (Some new) = Some (Inr ?s)"
    using p(1) step assms(2,3) by (simp add: paste_rename_def Let_def)
  have inj: "inj_on (\<lambda>p. pb_name (buf ?r p)) (dom (heap ?r))" using inv_names [OF r(1)] by blast
  have "paste_lookup ?s k = ((paste_lookup s)(old := None, new \<mapsto> d)) k" for k
  proof -
    consider "k = new" | "k = old" "k \<noteq> new" | "k \<noteq> old" "k \<noteq> new" by blast
    then show ?thesis
    proof cases
      case 1
      then show ?thesis using lookup_iff [OF inv assms(3)] p(4) by fastforce
    next
      case 2
      have "pb_name c \<noteq> old" if "?h q = Some c" for q c
        using that step p(3) inj_onD [OF inj, of q p] assms(4) by (cases "q = p") auto
      then have "paste_get_name ?s (Some old) = None" using get_name_None [OF inv assms(2)] by auto
      with 2 show ?thesis by (simp add: paste_lookup_def)
    next
      case 3
      have "?h q = Some c \<longleftrightarrow> heap ?r q = Some c" if "pb_name c = k" for q c
        using that 3 step p(3) by auto
      then have "(\<exists>q c. heap ?s q = Some c \<and> pb_name c = k \<and> pb_data c = e) = (\<exists>q c. heap ?r q = Some c \<and> pb_name c = k \<and> pb_data c = e)" for e
        by (simp del: fun_upd_apply) metis
      then have "paste_lookup ?s k = paste_lookup ?r k" by (rule lookup_eqI [OF inv r(1)])
      then show ?thesis using 3 r(2) by simp
    qed
  qed
  then show ?thesis using ren inv by blast
qed

section \<open>Properties\<close>

text \<open>C8: under every sequence of \<open>paste_set\<close> with a name and of deletions by name, the paste buffers
  behave as a map from names to data, and both trees stay consistent.\<close>

theorem paste_refines_map:
  assumes "paste_inv (length ops + n) s" "list_all (op_ok (\<lambda>name. name \<noteq> []) (\<lambda>data. data \<noteq> [])) ops"
  shows "paste_inv n (store_run (set_named limit now) free_named ops s) \<and>
    paste_lookup (store_run (set_named limit now) free_named ops s) = map_run ops (paste_lookup s)"
  using paste_store.run_refines [OF assms, of limit now] .

lemma paste_init_inv: "n < 4294967296 \<Longrightarrow> paste_inv n paste_init"
  by (simp add: paste_inv_def paste_init_def automatic_count_def)

theorem paste_refines_map_witness:
  "paste_lookup (store_run (set_named 50 0) free_named [Put ''a'' ''x'', Put ''b'' ''y'', Put ''a'' ''z'', Del ''b''] paste_init) ''a''
     = Some ''z''"
  using paste_refines_map [of "[Put ''a'' ''x'', Put ''b'' ''y'', Put ''a'' ''z'', Del ''b'']" 0 paste_init 50 0]
    paste_init_inv [of "Suc (Suc (Suc (Suc 0)))"] by (simp add: map_run_def)

text \<open>C9: \<open>paste_add\<close> on non-empty data always finds a free name and returns; the new automatic buffer
  is on top, buffers with a name given by the user are never dropped, nothing else appears, and there
  are at most \<open>buffer-limit\<close> automatic buffers (one when the limit is less).\<close>

theorem paste_add_limit:
  assumes "paste_inv (Suc n) s" "data \<noteq> []" "0 \<le> next_index s" "next_index s < 4294967296"
  shows "\<exists>s' p b. paste_add limit now s prefix data = Some s' \<and> paste_inv n s' \<and>
    paste_get_top s' = Some p \<and> heap s' p = Some b \<and> pb_data b = data \<and> pb_automatic b \<and>
    (\<forall>q c. heap s q = Some c \<and> \<not> pb_automatic c \<longrightarrow> heap s' q = Some c) \<and>
    (\<forall>q c. heap s' q = Some c \<longrightarrow> q = p \<or> heap s q = Some c) \<and>
    automatic_count s' \<le> max 1 limit"
  using paste_add_spec [OF assms, of limit now prefix] by blast

theorem paste_add_limit_witness:
  "\<exists>s' p b. paste_add 1 0 paste_init None ''x'' = Some s' \<and> paste_get_top s' = Some p \<and> heap s' p = Some b \<and> pb_data b = ''x''"
  using paste_add_limit [of 0 paste_init "''x''" 1 0 None] paste_init_inv [of 1] by (auto simp: paste_init_def)

text \<open>Renaming a buffer to the name it already has frees it and goes on using the freed buffer:
  for every state in which a buffer has the name, the result is undefined.\<close>

theorem paste_rename_same_name:
  assumes "paste_inv n s" "name \<noteq> []" "paste_lookup s name \<noteq> None"
  shows "paste_rename s (Some name) (Some name) = None"
proof -
  obtain p where p: "paste_get_name s (Some name) = Some p" using assms(3) by (auto simp: paste_lookup_def)
  then obtain b where b: "heap s p = Some b" using get_name_iff [OF assms(1,2)] by blast
  obtain t where t: "paste_free s p = Some t" "heap t = (heap s)(p := None)"
    using paste_free_spec [OF assms(1) b] by blast
  then show ?thesis using p assms(2) by (simp add: paste_rename_def)
qed

theorem paste_rename_same_name_witness:
  "paste_rename (set_named 50 0 paste_init ''a'' ''x'') (Some ''a'') (Some ''a'') = None"
proof -
  have "paste_inv 0 (set_named 50 0 paste_init ''a'' ''x'')" "paste_lookup (set_named 50 0 paste_init ''a'' ''x'') ''a'' = Some ''x''"
    using paste_store.inv_put [of 0 paste_init "''a''" "''x''" 50 0] paste_store.get_put [of 0 paste_init "''a''" "''x''" 50 0]
      paste_init_inv [of 1] by auto
  then show ?thesis using paste_rename_same_name [of 0 _ "''a''"] by auto
qed


text \<open>C10: renaming a buffer to another name moves its data to the new name, replaces a buffer that had
  that name, and leaves every other name alone; renaming it to the name that it has already frees it and
  goes on using it, so that the result is undefined.\<close>

theorem paste_rename_moves:
  assumes "paste_inv n s" "old \<noteq> []" "new \<noteq> []" "paste_lookup s old = Some d"
  shows "if old = new then paste_rename s (Some old) (Some new) = None
    else (\<exists>s'. paste_rename s (Some old) (Some new) = Some (Inr s') \<and> paste_inv n s' \<and>
      paste_lookup s' = (paste_lookup s)(old := None, new \<mapsto> d))"
  using paste_rename_spec [OF assms(1-3) _ assms(4)] paste_rename_same_name [OF assms(1,2)] assms(4) by auto

theorem paste_rename_moves_witness:
  "\<exists>s'. paste_rename (set_named 50 0 paste_init ''a'' ''x'') (Some ''a'') (Some ''b'') = Some (Inr s') \<and>
     paste_lookup s' ''b'' = Some ''x''"
proof -
  have "paste_inv 0 (set_named 50 0 paste_init ''a'' ''x'')" "paste_lookup (set_named 50 0 paste_init ''a'' ''x'') ''a'' = Some ''x''"
    using paste_store.inv_put [of 0 paste_init "''a''" "''x''" 50 0] paste_store.get_put [of 0 paste_init "''a''" "''x''" 50 0]
      paste_init_inv [of 1] by auto
  from paste_rename_moves [OF this(1) _ _ this(2), of "''b''"] show ?thesis by fastforce
qed

end
