(* ===== verification/Rust_Text.thy ===== *)
theory Rust_Text
  imports Ztmux_Prelude "HOL-Library.Char_ord"
begin

text \<open>
  Text as the Rust code handles it: a C string is the list of its bytes (without the final NUL),
  \<open>std::str::from_utf8\<close> decides whether the bytes are UTF-8, \<open>_s\<close> (\<open>lib.rs\<close>) prints a C string
  pointer, and \<open>strtonum\<close> (\<open>compat/strtonum.rs\<close>) reads a bounded decimal number with
  \<open>str::parse::<i64>\<close>.
\<close>

section \<open>UTF-8\<close>

abbreviation byte :: "char \<Rightarrow> nat" where
  "byte c \<equiv> of_char c"

definition cont_byte :: "char \<Rightarrow> bool" where
  "cont_byte c \<longleftrightarrow> 128 \<le> byte c \<and> byte c < 192"

text \<open>The byte ranges that \<open>core::str\<close> accepts: no overlong forms, no surrogates, nothing above
  U+10FFFF.\<close>

definition second_ok :: "char \<Rightarrow> char \<Rightarrow> bool" where
  "second_ok b c \<longleftrightarrow>
     (if byte b = 224 then 160 \<le> byte c \<and> byte c < 192
      else if byte b = 237 then 128 \<le> byte c \<and> byte c < 160
      else if byte b = 240 then 144 \<le> byte c \<and> byte c < 192
      else if byte b = 244 then 128 \<le> byte c \<and> byte c < 144
      else cont_byte c)"

fun from_utf8 :: "string \<Rightarrow> bool" where
  "from_utf8 [] = True"
| "from_utf8 (a # s) =
     (if byte a < 128 then from_utf8 s
      else if 194 \<le> byte a \<and> byte a < 224
      then (case s of b # s1 \<Rightarrow> cont_byte b \<and> from_utf8 s1 | _ \<Rightarrow> False)
      else if 224 \<le> byte a \<and> byte a < 240
      then (case s of b # c # s2 \<Rightarrow> second_ok a b \<and> cont_byte c \<and> from_utf8 s2 | _ \<Rightarrow> False)
      else if 240 \<le> byte a \<and> byte a < 245
      then (case s of b # c # d # s3 \<Rightarrow> second_ok a b \<and> cont_byte c \<and> cont_byte d \<and> from_utf8 s3 | _ \<Rightarrow> False)
      else False)"

text \<open>\<open>str::chars\<close> on a string that is UTF-8: the code points.\<close>

fun utf8_chars :: "string \<Rightarrow> nat list" where
  "utf8_chars [] = []"
| "utf8_chars (a # s) =
     (if byte a < 128 then byte a # utf8_chars s
      else if byte a < 224
      then (case s of b # s1 \<Rightarrow> (byte a mod 32 * 64 + byte b mod 64) # utf8_chars s1 | _ \<Rightarrow> [])
      else if byte a < 240
      then (case s of b # c # s2 \<Rightarrow>
              (byte a mod 16 * 4096 + byte b mod 64 * 64 + byte c mod 64) # utf8_chars s2 | _ \<Rightarrow> [])
      else (case s of b # c # d # s3 \<Rightarrow>
              (byte a mod 8 * 262144 + byte b mod 64 * 4096 + byte c mod 64 * 64 + byte d mod 64) # utf8_chars s3
            | _ \<Rightarrow> []))"

text \<open>\<open>cstr_to_str_\<close>: the string, or nothing when it is not UTF-8.\<close>

definition cstr_to_str :: "string \<Rightarrow> string option" where
  "cstr_to_str s = (if from_utf8 s then Some s else None)"

definition ascii :: "string \<Rightarrow> bool" where
  "ascii s \<longleftrightarrow> list_all (\<lambda>c. byte c < 128) s"

lemma utf8_chars_ascii: "ascii s \<Longrightarrow> utf8_chars s = map of_char s"
  by (induction s) (auto simp: ascii_def)

lemma from_utf8_ascii: "ascii s \<Longrightarrow> from_utf8 s"
  by (induction s) (auto simp: ascii_def)

lemma from_utf8_append: "from_utf8 s \<Longrightarrow> from_utf8 t \<Longrightarrow> from_utf8 (s @ t)"
proof (induction s rule: from_utf8.induct)
  case (2 a s)
  consider (one) "byte a < 128" | (two) "194 \<le> byte a" "byte a < 224" | (three) "224 \<le> byte a" "byte a < 240"
    | (four) "240 \<le> byte a" "byte a < 245"
    using 2(5) by (fastforce split: if_splits)
  then show ?case
  proof cases
    case one
    then show ?thesis using 2 by simp
  next
    case two
    then obtain b s1 where "s = b # s1" using 2(5) by (auto split: list.splits)
    then show ?thesis using two 2 by simp
  next
    case three
    then obtain b c s2 where "s = b # c # s2" using 2(5) by (auto split: list.splits)
    then show ?thesis using three 2 by simp
  next
    case four
    then obtain b c d s3 where "s = b # c # d # s3" using 2(5) by (auto split: list.splits)
    then show ?thesis using four 2 by simp
  qed
qed simp

section \<open>C strings\<close>

text \<open>Bytes read as a C string end at the first NUL; \<open>cstring_truncating\<close> cuts there too.\<close>

definition c_string :: "string \<Rightarrow> string" where
  "c_string s = takeWhile (\<lambda>c. c \<noteq> CHR 0x00) s"

lemma c_string_id: "CHR 0x00 \<notin> set s \<Longrightarrow> c_string s = s"
  by (auto simp: c_string_def takeWhile_eq_all_conv)

section \<open>Formatting\<close>

text \<open>\<open>_s(ptr)\<close>: a null pointer and a string that is not UTF-8 are replaced by fixed texts.\<close>

definition display_cstr :: "string option \<Rightarrow> string" where
  "display_cstr p = (case p of None \<Rightarrow> ''(null)'' | Some s \<Rightarrow> if from_utf8 s then s else ''%s-invalid-utf8'')"

lemma display_cstr_utf8 [simp]: "from_utf8 s \<Longrightarrow> display_cstr (Some s) = s"
  by (simp add: display_cstr_def)

text \<open>A byte cast to \<open>char\<close> and formatted: the UTF-8 encoding of the code point of that number.\<close>

definition byte_as_char :: "char \<Rightarrow> string" where
  "byte_as_char c =
     (if byte c < 128 then [c] else [char_of (192 + byte c div 64), char_of (128 + byte c mod 64)])"

definition show_int :: "int \<Rightarrow> string" where
  "show_int n = (if n < 0 then CHR ''-'' # show_nat (nat (- n)) else show_nat (nat n))"

section \<open>Numbers\<close>

definition i64 :: "int \<Rightarrow> int" where
  "i64 x = (x + 9223372036854775808) mod 18446744073709551616 - 9223372036854775808"

definition i64_MIN :: int where
  "i64_MIN = - 9223372036854775808"

definition i64_MAX :: int where
  "i64_MAX = 9223372036854775807"

lemma i64_id [wrap_simps]: "i64_MIN \<le> x \<Longrightarrow> x \<le> i64_MAX \<Longrightarrow> i64 x = x"
  by (simp add: i64_def i64_MIN_def i64_MAX_def)

text \<open>\<open>str::trim_start\<close>: the encodings of the characters with the property White\_Space.\<close>

definition white_space :: "nat list list" where
  "white_space =
     [[9], [10], [11], [12], [13], [32], [194, 133], [194, 160], [225, 154, 128], [226, 128, 128], [226, 128, 129],
      [226, 128, 130], [226, 128, 131], [226, 128, 132], [226, 128, 133], [226, 128, 134], [226, 128, 135],
      [226, 128, 136], [226, 128, 137], [226, 128, 138], [226, 128, 168], [226, 128, 169], [226, 128, 175],
      [226, 129, 159], [227, 128, 128]]"

definition white_prefix :: "string \<Rightarrow> nat list option" where
  "white_prefix s = find (\<lambda>w. take (length w) (map of_char s) = w) white_space"

lemma white_prefix_length: "white_prefix s = Some w \<Longrightarrow> 0 < length w \<and> s \<noteq> []"
proof -
  assume "white_prefix s = Some w"
  then have w: "w \<in> set white_space" "take (length w) (map of_char s) = w"
    unfolding white_prefix_def by (auto dest: find_SomeD)
  then have "w \<noteq> []" by (auto simp: white_space_def)
  then show ?thesis using w(2) by auto
qed

function trim_start :: "string \<Rightarrow> string" where
  "trim_start s = (case white_prefix s of None \<Rightarrow> s | Some w \<Rightarrow> trim_start (drop (length w) s))"
  by pat_completeness auto
termination
  by (relation "measure length") (auto dest: white_prefix_length)

declare trim_start.simps [simp del]

lemma white_head: "white_prefix (c # s) \<noteq> None \<Longrightarrow> \<not> (33 \<le> byte c \<and> byte c < 128)"
proof -
  assume "white_prefix (c # s) \<noteq> None"
  then obtain w where w: "w \<in> set white_space" "take (length w) (map of_char (c # s)) = w"
    unfolding white_prefix_def by (auto dest: find_SomeD)
  have "list_all (\<lambda>w. w \<noteq> [] \<and> \<not> (33 \<le> hd w \<and> hd w < 128)) white_space" by code_simp
  with w(1) have "w \<noteq> []" "\<not> (33 \<le> hd w \<and> hd w < 128)" by (auto simp: list_all_iff)
  moreover from w(2) this(1) have "hd w = byte c" by (cases w) auto
  ultimately show ?thesis by simp
qed

lemma trim_start_visible: "33 \<le> byte c \<Longrightarrow> byte c < 128 \<Longrightarrow> trim_start (c # s) = c # s"
  using white_head [of c s] by (subst trim_start.simps) (auto split: option.splits)

text \<open>\<open>str::parse::<i64>\<close>: the digits are read from the left, and the first error wins.\<close>

datatype int_error = IntEmpty | InvalidDigit | PosOverflow | NegOverflow

fun parse_digits :: "bool \<Rightarrow> int \<Rightarrow> string \<Rightarrow> int_error + int" where
  "parse_digits neg acc [] = Inr acc"
| "parse_digits neg acc (c # cs) =
     (if \<not> digit c then Inl InvalidDigit
      else (let n = (if neg then acc * 10 - digit_val c else acc * 10 + digit_val c)
            in if n > i64_MAX then Inl PosOverflow else if n < i64_MIN then Inl NegOverflow
               else parse_digits neg n cs))"

fun parse_i64 :: "string \<Rightarrow> int_error + int" where
  "parse_i64 [] = Inl IntEmpty"
| "parse_i64 (c # cs) =
     (if c = CHR ''+'' \<or> c = CHR ''-''
      then (if cs = [] then Inl InvalidDigit else parse_digits (c = CHR ''-'') 0 cs)
      else parse_digits False 0 (c # cs))"

definition int_error_text :: "int_error \<Rightarrow> string" where
  "int_error_text e = (case e of PosOverflow \<Rightarrow> ''too large'' | NegOverflow \<Rightarrow> ''too small'' | _ \<Rightarrow> ''invalid'')"

definition strtonum :: "string \<Rightarrow> int \<Rightarrow> int \<Rightarrow> string + int" where
  "strtonum s minval maxval =
     (if minval > maxval then Inl ''invalid''
      else if \<not> from_utf8 s then Inl ''invalid''
      else (case parse_i64 (trim_start s) of
              Inl e \<Rightarrow> Inl (int_error_text e)
            | Inr n \<Rightarrow> if n < minval then Inl ''too small'' else if n > maxval then Inl ''too large'' else Inr n))"

lemma strtonum_bounds: "strtonum s minval maxval = Inr n \<Longrightarrow> minval \<le> n \<and> n \<le> maxval"
  by (auto simp: strtonum_def split: if_splits sum.splits)

lemma digits_val_fold: "fold (\<lambda>c n. n * 10 + digit_val c) s a = a * 10 ^ length s + digits_val s"
proof (induction s arbitrary: a)
  case (Cons c s)
  show ?case
    using Cons.IH [of "a * 10 + digit_val c"] Cons.IH [of "digit_val c"] by (simp add: digits_val_def algebra_simps)
qed (simp add: digits_val_def)

lemma digits_val_Cons: "digits_val (c # s) = digit_val c * 10 ^ length s + digits_val s"
  using digits_val_fold [of s "digit_val c"] by (simp add: digits_val_def)

lemma digit_val_range: "digit c \<Longrightarrow> 0 \<le> digit_val c \<and> digit_val c \<le> 9"
  by (simp add: digit_def digit_val_def)

lemma digits_val_nonneg: "list_all digit s \<Longrightarrow> 0 \<le> digits_val s"
proof (induction s)
  case (Cons c s)
  then show ?case using digit_val_range [of c] by (simp add: digits_val_Cons)
qed (simp add: digits_val_def)

lemma parse_digits_value:
  assumes "list_all digit s" "a * 10 ^ length s + digits_val s \<le> i64_MAX" "0 \<le> a"
  shows "parse_digits neg (if neg then - a else a) s =
    Inr (if neg then - (a * 10 ^ length s + digits_val s) else a * 10 ^ length s + digits_val s)"
  using assms
proof (induction s arbitrary: a)
  case Nil
  then show ?case by (simp add: digits_val_def)
next
  case (Cons c s)
  let ?b = "a * 10 + digit_val c"
  have d: "digit c" "0 \<le> digit_val c" "list_all digit s" using Cons.prems(1) digit_val_range by auto
  have e: "a * 10 ^ length (c # s) + digits_val (c # s) = ?b * 10 ^ length s + digits_val s"
    by (simp add: digits_val_Cons algebra_simps)
  have b: "0 \<le> ?b" using Cons.prems(3) d(2) by simp
  have "?b \<le> ?b * 10 ^ length s" using mult_left_mono [of 1 "10 ^ length s" ?b] b by simp
  then have "?b \<le> i64_MAX" using Cons.prems(2) e digits_val_nonneg [OF d(3)] by linarith
  then have "\<not> (if neg then - ?b else ?b) > i64_MAX" "\<not> (if neg then - ?b else ?b) < i64_MIN"
    using b by (auto simp: i64_MAX_def i64_MIN_def)
  moreover have "(if neg then (if neg then - a else a) * 10 - digit_val c else (if neg then - a else a) * 10 + digit_val c)
      = (if neg then - ?b else ?b)" by simp
  ultimately have "parse_digits neg (if neg then - a else a) (c # s) = parse_digits neg (if neg then - ?b else ?b) s"
    using d(1) by (simp add: Let_def)
  then show ?case using Cons.IH [of ?b] d(3) b Cons.prems(2) unfolding e by simp
qed

lemma digit_visible: "digit c \<Longrightarrow> 33 \<le> byte c \<and> byte c < 128"
proof -
  assume "digit c"
  moreover have "(of_char c :: int) = int (byte c)" by (metis of_nat_of_char)
  ultimately show ?thesis by (simp add: digit_def)
qed

text \<open>A number that was printed is read back, if it lies between the bounds.\<close>

lemma parse_i64_show: "\<bar>n\<bar> \<le> i64_MAX \<Longrightarrow> parse_i64 (trim_start (show_int n)) = Inr n"
proof -
  assume n: "\<bar>n\<bar> \<le> i64_MAX"
  define s where "s = show_nat (nat \<bar>n\<bar>)"
  have s: "list_all digit s" "s \<noteq> []" "digits_val s = \<bar>n\<bar>"
    using show_nat_digits [of "nat \<bar>n\<bar>"] by (simp_all add: s_def)
  then obtain c t where ct: "s = c # t" "digit c" by (cases s) auto
  have v: "parse_digits neg 0 s = Inr (if neg then - \<bar>n\<bar> else \<bar>n\<bar>)" for neg
    using parse_digits_value [OF s(1), of 0 neg] s(3) n by (simp split: if_splits)
  show ?thesis
  proof (cases "n < 0")
    case True
    then have "show_int n = CHR ''-'' # s" by (simp add: show_int_def s_def)
    then show ?thesis using v [of True] s(2) True by (simp add: trim_start_visible)
  next
    case False
    then have e: "show_int n = c # t" using ct(1) by (simp add: show_int_def s_def)
    have "c \<noteq> CHR ''+''" "c \<noteq> CHR ''-''" using ct(2) by (auto simp: digit_def)
    then show ?thesis
      using v [of False] False digit_visible [OF ct(2)] unfolding e by (simp add: trim_start_visible ct(1) del: parse_digits.simps)
  qed
qed

lemma show_int_utf8: "from_utf8 (show_int n)"
proof (rule from_utf8_ascii)
  have "list_all (\<lambda>c. byte c < 128) (show_nat m)" for m
    using show_nat_digits [of m] digit_visible by (auto simp: list_all_iff)
  then show "ascii (show_int n)" by (simp add: show_int_def ascii_def)
qed

lemma strtonum_show:
  assumes "minval \<le> n" "n \<le> maxval" "\<bar>n\<bar> \<le> i64_MAX"
  shows "strtonum (show_int n) minval maxval = Inr n"
  using assms parse_i64_show [OF assms(3)] show_int_utf8 [of n] by (simp add: strtonum_def)

end
