(* ===== verification/Arguments.thy ===== *)
theory Arguments
  imports Rb_Tree Rust_Text "HOL-Library.Signed_Division"
begin

text \<open>
  Command arguments (\<open>arguments.rs\<close>): the flags of a command in a tree ordered by flag, each with its
  count and values, and the positional values.  \<open>args_parse\<close> reads a vector of values against a
  template such as \<open>ab:c::\<close> (\<open>a\<close> takes no value, \<open>b\<close> one, \<open>c\<close> an optional one).  A command list
  between braces is a value of the type parameter \<open>'c\<close>; what prints one (\<open>cmd_list_print\<close>) is a parameter.

  A result \<^term>\<open>Inl cause\<close> stands for the null pointer with the message in \<open>cause\<close>, if there is one.
\<close>

section \<open>State\<close>

datatype 'c args_value = ARGS_NONE | ARGS_STRING string | ARGS_COMMANDS 'c

record 'c args_entry =
  ae_flag :: char
  ae_values :: "'c args_value list"
  ae_count :: u32
  ae_flags :: i32

record 'c args =
  args_tree :: "'c args_entry list"
  args_values :: "'c args_value list"

definition ARGS_ENTRY_OPTIONAL_VALUE :: i32 where
  "ARGS_ENTRY_OPTIONAL_VALUE = 1"

datatype args_parse_type = ARGS_PARSE_INVALID | ARGS_PARSE_STRING | ARGS_PARSE_COMMANDS_OR_STRING | ARGS_PARSE_COMMANDS

text \<open>The callback of a command gets the arguments read so far and their number and may set the cause.\<close>

record 'c args_parse_info =
  template :: string
  lower :: i32
  upper :: i32
  cb :: "('c args \<Rightarrow> nat \<Rightarrow> args_parse_type \<times> string option) option"

definition args_create :: "'c args" where
  "args_create = \<lparr>args_tree = [], args_values = []\<rparr>"

text \<open>What a command returns, and what it prints to its client.\<close>

datatype cmd_retval = CMD_RETURN_ERROR | CMD_RETURN_NORMAL | CMD_RETURN_WAIT | CMD_RETURN_STOP

datatype cmd_output = Printed string | Errored string

section \<open>Reading\<close>

definition args_find :: "'c args \<Rightarrow> char \<Rightarrow> 'c args_entry option" where
  "args_find a flag = rb_find_by ae_flag flag (args_tree a)"

definition args_has_count :: "'c args \<Rightarrow> char \<Rightarrow> i32" where
  "args_has_count a flag = (case args_find a flag of None \<Rightarrow> 0 | Some e \<Rightarrow> i32 (ae_count e))"

definition args_has :: "'c args \<Rightarrow> char \<Rightarrow> bool" where
  "args_has a flag = (case args_find a flag of None \<Rightarrow> False | Some e \<Rightarrow> ae_count e \<noteq> 0)"

text \<open>\<open>args_get\<close> reads the member \<open>string\<close> of the union in the last value; for a value of another type
  that is undefined, which is the result \<^const>\<open>None\<close>.  \<^term>\<open>Some None\<close> is the null pointer.\<close>

definition args_get :: "'c args \<Rightarrow> char \<Rightarrow> string option option" where
  "args_get a flag =
     (case args_find a flag of
        None \<Rightarrow> Some None
      | Some e \<Rightarrow>
          if ae_values e = [] then Some None
          else (case last (ae_values e) of ARGS_STRING s \<Rightarrow> Some (Some s) | _ \<Rightarrow> None))"

definition args_count :: "'c args \<Rightarrow> nat" where
  "args_count a = length (args_values a)"

definition args_value_at :: "'c args \<Rightarrow> nat \<Rightarrow> 'c args_value option" where
  "args_value_at a idx = (if idx \<ge> args_count a then None else Some (args_values a ! idx))"

definition args_value_as_string :: "('c \<Rightarrow> string) \<Rightarrow> 'c args_value \<Rightarrow> string" where
  "args_value_as_string cmd_list_print v =
     (case v of ARGS_NONE \<Rightarrow> [] | ARGS_STRING s \<Rightarrow> s | ARGS_COMMANDS c \<Rightarrow> cmd_list_print c)"

definition args_string :: "('c \<Rightarrow> string) \<Rightarrow> 'c args \<Rightarrow> nat \<Rightarrow> string option" where
  "args_string cmd_list_print a idx =
     (if idx \<ge> args_count a then None else Some (args_value_as_string cmd_list_print (args_values a ! idx)))"

definition args_first :: "'c args \<Rightarrow> char option" where
  "args_first a = (case args_tree a of [] \<Rightarrow> None | e # _ \<Rightarrow> Some (ae_flag e))"

definition args_to_vector :: "('c \<Rightarrow> string) \<Rightarrow> 'c args \<Rightarrow> string list" where
  "args_to_vector cmd_list_print a =
     map (args_value_as_string cmd_list_print) (filter (\<lambda>v. v \<noteq> ARGS_NONE) (args_values a))"

definition args_from_vector :: "string list \<Rightarrow> 'c args_value list" where
  "args_from_vector argv = map ARGS_STRING argv"

section \<open>Setting a flag\<close>

definition value_list :: "'c args_value option \<Rightarrow> 'c args_value list" where
  "value_list v = (case v of None \<Rightarrow> [] | Some ARGS_NONE \<Rightarrow> [] | Some x \<Rightarrow> [x])"

definition args_set :: "'c args \<Rightarrow> char \<Rightarrow> 'c args_value option \<Rightarrow> i32 \<Rightarrow> 'c args" where
  "args_set a flag v flags =
     (case args_find a flag of
        None \<Rightarrow> a\<lparr>args_tree := rb_insert ae_flag
          \<lparr>ae_flag = flag, ae_values = value_list v, ae_count = 1, ae_flags = flags\<rparr> (args_tree a)\<rparr>
      | Some _ \<Rightarrow> a\<lparr>args_tree := rb_modify ae_flag flag
          (\<lambda>e. e\<lparr>ae_count := u32 (ae_count e + 1), ae_values := ae_values e @ value_list v\<rparr>) (args_tree a)\<rparr>)"

section \<open>Parsing\<close>

definition ascii_alpha :: "char \<Rightarrow> bool" where
  "ascii_alpha c \<longleftrightarrow> (65 \<le> byte c \<and> byte c \<le> 90) \<or> (97 \<le> byte c \<and> byte c \<le> 122)"

definition ascii_alnum :: "char \<Rightarrow> bool" where
  "ascii_alnum c \<longleftrightarrow> ascii_alpha c \<or> (48 \<le> byte c \<and> byte c \<le> 57)"

text \<open>An argument that looks like another flag.\<close>

fun flag_like :: "string \<Rightarrow> bool" where
  "flag_like (d # c # _) \<longleftrightarrow> d = CHR ''-'' \<and> (c = CHR ''-'' \<or> ascii_alpha c)"
| "flag_like _ \<longleftrightarrow> False"

definition args_parse_flag_argument :: "'c args_value list \<Rightarrow> 'c args \<Rightarrow> nat \<Rightarrow> string \<Rightarrow> char \<Rightarrow> bool \<Rightarrow>
    string + 'c args \<times> nat" where
  "args_parse_flag_argument values a i str flag optional_argument =
     (if str \<noteq> [] then Inr (args_set a flag (Some (ARGS_STRING str)) 0, i)
      else if i = length values
      then (if optional_argument then Inr (args_set a flag None ARGS_ENTRY_OPTIONAL_VALUE, i)
            else Inl (''-'' @ byte_as_char flag @ '' expects an argument''))
      else (case values ! i of
              ARGS_STRING s \<Rightarrow>
                if optional_argument \<and> flag_like s
                then Inr (args_set a flag None ARGS_ENTRY_OPTIONAL_VALUE, i)
                else Inr (args_set a flag (Some (ARGS_STRING s)) 0, i + 1)
            | _ \<Rightarrow> Inl (''-'' @ byte_as_char flag @ '' argument must be a string'')))"

text \<open>What the template says of a flag: unknown, without value, with a value, with an optional value.\<close>

datatype flag_type = FlagUnknown | FlagPlain | FlagValue | FlagOptional

definition flag_kind :: "string \<Rightarrow> char \<Rightarrow> flag_type" where
  "flag_kind t flag =
     (case find_index (\<lambda>c. c = flag) t of
        None \<Rightarrow> FlagUnknown
      | Some found \<Rightarrow>
          if found + 1 \<ge> length t \<or> t ! (found + 1) \<noteq> CHR '':'' then FlagPlain
          else if found + 2 < length t \<and> t ! (found + 2) = CHR '':'' then FlagOptional else FlagValue)"

datatype 'c flags_outcome = FlagsBad "string option" | FlagsMore "'c args" nat | FlagsStop "'c args" nat

fun flag_loop :: "'c args_parse_info \<Rightarrow> 'c args_value list \<Rightarrow> 'c args \<Rightarrow> nat \<Rightarrow> string \<Rightarrow> 'c flags_outcome" where
  "flag_loop parse values a i [] = FlagsMore a i"
| "flag_loop parse values a i (flag # str) =
     (if flag = CHR ''?'' then FlagsBad None
      else if \<not> ascii_alnum flag then FlagsBad (Some (''invalid flag -'' @ byte_as_char flag))
      else (case flag_kind (template parse) flag of
              FlagUnknown \<Rightarrow> FlagsBad (Some (''unknown flag -'' @ byte_as_char flag))
            | FlagPlain \<Rightarrow> flag_loop parse values (args_set a flag None 0) i str
            | k \<Rightarrow> (case args_parse_flag_argument values a i str flag (k = FlagOptional) of
                      Inl cause \<Rightarrow> FlagsBad (Some cause)
                    | Inr (a', i') \<Rightarrow> FlagsMore a' i')))"

definition args_parse_flags :: "'c args_parse_info \<Rightarrow> 'c args_value list \<Rightarrow> 'c args \<Rightarrow> nat \<Rightarrow> 'c flags_outcome" where
  "args_parse_flags parse values a i =
     (case values ! i of
        ARGS_STRING (d # str) \<Rightarrow>
          if d \<noteq> CHR ''-'' \<or> str = [] then FlagsStop a i
          else if str = ''-'' then FlagsStop a (i + 1)
          else flag_loop parse values a (i + 1) str
      | _ \<Rightarrow> FlagsStop a i)"

lemma flag_loop_index: "flag_loop parse values a i str = FlagsMore a' i' \<Longrightarrow> i \<le> i'"
  by (induction str arbitrary: a)
    (auto simp: args_parse_flag_argument_def split: if_splits flag_type.splits args_value.splits)

lemma args_parse_flags_index: "args_parse_flags parse values a i = FlagsMore a' i' \<Longrightarrow> i < i'"
  by (auto simp: args_parse_flags_def dest: flag_loop_index split: args_value.splits list.splits if_splits)

function flags_loop :: "'c args_parse_info \<Rightarrow> 'c args_value list \<Rightarrow> 'c args \<Rightarrow> nat \<Rightarrow> string option + 'c args \<times> nat" where
  "flags_loop parse values a i =
     (if i < length values
      then (case args_parse_flags parse values a i of
              FlagsBad cause \<Rightarrow> Inl cause
            | FlagsMore a' i' \<Rightarrow> flags_loop parse values a' i'
            | FlagsStop a' i' \<Rightarrow> Inr (a', i'))
      else Inr (a, i))"
  by pat_completeness auto
termination
  by (relation "measure (\<lambda>(parse, values, a, i). length values - i)") (auto dest!: args_parse_flags_index)

declare flags_loop.simps [simp del]

fun values_loop :: "'c args_parse_info \<Rightarrow> 'c args \<Rightarrow> 'c args_value list \<Rightarrow> string option + 'c args" where
  "values_loop parse a [] = Inr a"
| "values_loop parse a (v # vs) =
     (case (case cb parse of Some f \<Rightarrow> f a (args_count a) | None \<Rightarrow> (ARGS_PARSE_STRING, None)) of
        (ty, cause) \<Rightarrow>
          let bad = (\<lambda>what. Inl (Some (''argument '' @ show_nat (args_count a + 1) @ '' must be '' @ what)));
              more = values_loop parse (a\<lparr>args_values := args_values a @ [v]\<rparr>) vs
          in case ty of
               ARGS_PARSE_INVALID \<Rightarrow> Inl cause
             | ARGS_PARSE_STRING \<Rightarrow> (case v of ARGS_STRING _ \<Rightarrow> more | _ \<Rightarrow> bad [CHR 0x22, CHR ''s'', CHR ''t'', CHR ''r'', CHR ''i'', CHR ''n'', CHR ''g'', CHR 0x22])
             | ARGS_PARSE_COMMANDS_OR_STRING \<Rightarrow> more
             | ARGS_PARSE_COMMANDS \<Rightarrow> (case v of ARGS_COMMANDS _ \<Rightarrow> more | _ \<Rightarrow> bad ''{ commands }''))"

definition args_parse :: "'c args_parse_info \<Rightarrow> 'c args_value list \<Rightarrow> string option + 'c args" where
  "args_parse parse values =
     (if values = [] then Inr args_create
      else (case flags_loop parse values args_create 1 of
              Inl cause \<Rightarrow> Inl cause
            | Inr (a, i) \<Rightarrow>
                (case values_loop parse a (drop i values) of
                   Inl cause \<Rightarrow> Inl cause
                 | Inr a' \<Rightarrow>
                     if lower parse \<noteq> - 1 \<and> int (args_count a') < u32 (lower parse)
                     then Inl (Some (''too few arguments (need at least '' @ show_int (lower parse) @ '')''))
                     else if upper parse \<noteq> - 1 \<and> int (args_count a') > u32 (upper parse)
                     then Inl (Some (''too many arguments (need at most '' @ show_int (upper parse) @ '')''))
                     else Inr a')))"

section \<open>Replacing markers in a template\<close>

text \<open>\<open>cmd_template_replace\<close> (\<open>cmd.rs\<close>).  The replacement is written character by character, each
  cut to its low byte, with a backslash in front of the characters that \<open>strchr\<close> finds in the set of
  quoted ones; \<open>strchr\<close> looks at the low byte too and finds the final NUL.  The result is read as a C
  string.\<close>

definition quote_set :: string where
  "quote_set = [CHR 0x22, CHR 0x5C, CHR ''$'', CHR '';'', CHR ''~'']"

definition substitute :: "bool \<Rightarrow> nat list \<Rightarrow> string" where
  "substitute quoted cs =
     concat (map (\<lambda>c. let b = char_of (c mod 256) in
       if quoted \<and> (b \<in> set quote_set \<or> b = CHR 0x00) then [CHR 0x5C, b] else [b]) cs)"

definition index_marker :: "int \<Rightarrow> string \<Rightarrow> bool" where
  "index_marker idx ptr =
     (case ptr of [] \<Rightarrow> False | c # _ \<Rightarrow> 49 \<le> byte c \<and> byte c \<le> 57 \<and> int (byte c) - 48 = idx)"

function template_loop :: "nat list \<Rightarrow> int \<Rightarrow> bool \<Rightarrow> string \<Rightarrow> string" where
  "template_loop s idx replaced [] = []"
| "template_loop s idx replaced (ch # ptr) =
     (let percent = (ptr \<noteq> [] \<and> hd ptr = CHR ''%'');
          is_idx = index_marker idx ptr
      in if ch = CHR ''%'' \<and> (is_idx \<or> percent \<and> \<not> replaced)
         then (let quoted = (tl ptr \<noteq> [] \<and> hd (tl ptr) = CHR ''%'');
                   rest = (if quoted then tl (tl ptr) else tl ptr)
               in substitute quoted s @ template_loop s idx (replaced \<or> \<not> is_idx) rest)
         else ch # template_loop s idx replaced ptr)"
  by pat_completeness auto
termination
  by (relation "measure (\<lambda>(s, idx, replaced, ptr). length ptr)") (auto simp: le_imp_less_Suc)

definition cmd_template_replace :: "string \<Rightarrow> string option \<Rightarrow> int \<Rightarrow> string" where
  "cmd_template_replace t s idx =
     (if CHR ''%'' \<notin> set t then t
      else c_string (template_loop (case s of None \<Rightarrow> [] | Some x \<Rightarrow> utf8_chars x) idx False t))"

section \<open>Copying and printing\<close>

fun replace_argv :: "string list \<Rightarrow> int \<Rightarrow> string \<Rightarrow> string" where
  "replace_argv [] i s = s"
| "replace_argv (x # argv) i s = replace_argv argv (i + 1) (cmd_template_replace s (cstr_to_str x) i)"

definition args_copy_copy_value :: "(string list \<Rightarrow> 'c \<Rightarrow> 'c) \<Rightarrow> string list \<Rightarrow> 'c args_value \<Rightarrow> 'c args_value" where
  "args_copy_copy_value cmd_list_copy argv v =
     (case v of ARGS_NONE \<Rightarrow> ARGS_NONE
      | ARGS_STRING s \<Rightarrow> ARGS_STRING (replace_argv argv 1 s)
      | ARGS_COMMANDS c \<Rightarrow> ARGS_COMMANDS (cmd_list_copy argv c))"

definition copy_entry :: "('c args_value \<Rightarrow> 'c args_value) \<Rightarrow> 'c args_entry \<Rightarrow> 'c args \<Rightarrow> 'c args" where
  "copy_entry cv e new =
     (if ae_values e = [] then ((\<lambda>n. args_set n (ae_flag e) None 0) ^^ nat (ae_count e)) new
      else fold (\<lambda>v n. args_set n (ae_flag e) (Some (cv v)) 0) (ae_values e) new)"

definition args_copy :: "(string list \<Rightarrow> 'c \<Rightarrow> 'c) \<Rightarrow> 'c args \<Rightarrow> string list \<Rightarrow> 'c args" where
  "args_copy cmd_list_copy a argv =
     (let cv = args_copy_copy_value cmd_list_copy argv
      in (fold (copy_entry cv) (args_tree a) args_create)\<lparr>args_values := map cv (args_values a)\<rparr>)"

definition entry_optional :: "'c args_entry \<Rightarrow> bool" where
  "entry_optional e \<longleftrightarrow> ae_flags e mod 2 \<noteq> 0"

text \<open>The printer, over what prints a command list and what quotes a string (\<open>args_escape\<close>).\<close>

definition args_print_add_value :: "('c \<Rightarrow> string) \<Rightarrow> (string \<Rightarrow> string) \<Rightarrow> string \<Rightarrow> 'c args_value \<Rightarrow> string" where
  "args_print_add_value cmd_list_print args_escape buf v =
     (if buf \<noteq> [] then buf @ '' '' else buf) @
     (case v of ARGS_NONE \<Rightarrow> []
      | ARGS_COMMANDS c \<Rightarrow> ''{ '' @ display_cstr (Some (cmd_list_print c)) @ '' }''
      | ARGS_STRING s \<Rightarrow> display_cstr (Some (args_escape s)))"

definition print_plain :: "'c args_entry \<Rightarrow> string \<Rightarrow> string" where
  "print_plain e buf =
     (if entry_optional e \<or> ae_values e \<noteq> [] then buf
      else (if buf = [] then ''-'' else buf) @ concat (replicate (nat (ae_count e)) (byte_as_char (ae_flag e))))"

definition print_flag :: "'c args_entry \<Rightarrow> string \<Rightarrow> string" where
  "print_flag e buf = buf @ (if buf \<noteq> [] then '' -'' else ''-'') @ byte_as_char (ae_flag e)"

definition print_entry :: "('c \<Rightarrow> string) \<Rightarrow> (string \<Rightarrow> string) \<Rightarrow> 'c args_entry \<Rightarrow> string \<Rightarrow> string" where
  "print_entry cmd_list_print args_escape e buf =
     (if entry_optional e then print_flag e buf
      else fold (\<lambda>v b. args_print_add_value cmd_list_print args_escape (print_flag e b) v) (ae_values e) buf)"

definition args_print :: "('c \<Rightarrow> string) \<Rightarrow> (string \<Rightarrow> string) \<Rightarrow> 'c args \<Rightarrow> string" where
  "args_print cmd_list_print args_escape a =
     (let b1 = fold print_plain (args_tree a) [];
          b2 = fold (print_entry cmd_list_print args_escape) (args_tree a) b1;
          lasts = filter (\<lambda>e. entry_optional e \<or> ae_values e \<noteq> []) (args_tree a);
          b3 = (if lasts \<noteq> [] \<and> entry_optional (last lasts) then b2 @ '' --'' else b2)
      in foldl (args_print_add_value cmd_list_print args_escape) b3 (args_values a))"

section \<open>Numbers\<close>

definition args_number :: "'c args \<Rightarrow> char \<Rightarrow> string + string" where
  "args_number a flag =
     (case args_find a flag of
        None \<Rightarrow> Inl ''missing''
      | Some e \<Rightarrow> if ae_values e = [] then Inl ''missing''
                  else (case last (ae_values e) of ARGS_STRING s \<Rightarrow> Inr s | _ \<Rightarrow> Inl ''missing''))"

definition args_strtonum :: "'c args \<Rightarrow> char \<Rightarrow> int \<Rightarrow> int \<Rightarrow> string + int" where
  "args_strtonum a flag minval maxval =
     (case args_number a flag of Inl e \<Rightarrow> Inl e | Inr s \<Rightarrow> strtonum s minval maxval)"

text \<open>With the format expansion of \<open>format_single_from_target\<close> as a parameter.\<close>

definition args_strtonum_and_expand :: "(string \<Rightarrow> string) \<Rightarrow> 'c args \<Rightarrow> char \<Rightarrow> int \<Rightarrow> int \<Rightarrow> string + int" where
  "args_strtonum_and_expand expand a flag minval maxval =
     (case args_number a flag of Inl e \<Rightarrow> Inl e | Inr s \<Rightarrow> strtonum (expand s) minval maxval)"

definition percentage :: "int \<Rightarrow> int \<Rightarrow> int \<Rightarrow> int \<Rightarrow> string + int" where
  "percentage ll minval maxval curval =
     (let n = i64 (curval * ll) sdiv 100
      in if n < minval then Inl ''too small'' else if n > maxval then Inl ''too large'' else Inr n)"

definition args_string_percentage :: "string \<Rightarrow> int \<Rightarrow> int \<Rightarrow> int \<Rightarrow> string + int" where
  "args_string_percentage v minval maxval curval =
     (if v = [] then Inl ''empty''
      else if last v = CHR ''%''
      then (case strtonum (butlast v) 0 1000 of Inl e \<Rightarrow> Inl e | Inr ll \<Rightarrow> percentage ll minval maxval curval)
      else strtonum v minval maxval)"

text \<open>This variant reads the byte in front of an empty string, which is the result \<^const>\<open>None\<close>.\<close>

definition args_string_percentage_and_expand :: "(string \<Rightarrow> string) \<Rightarrow> string \<Rightarrow> int \<Rightarrow> int \<Rightarrow> int \<Rightarrow> (string + int) option" where
  "args_string_percentage_and_expand expand v minval maxval curval =
     (if v = [] then None
      else if last v = CHR ''%''
      then Some (case strtonum (expand (butlast v)) 0 1000 of Inl e \<Rightarrow> Inl e | Inr ll \<Rightarrow> percentage ll minval maxval curval)
      else Some (strtonum (expand v) minval maxval))"

definition args_percentage :: "'c args \<Rightarrow> char \<Rightarrow> int \<Rightarrow> int \<Rightarrow> int \<Rightarrow> (string + int) option" where
  "args_percentage a flag minval maxval curval =
     (case args_find a flag of
        None \<Rightarrow> Some (Inl ''missing'')
      | Some e \<Rightarrow> if ae_values e = [] then Some (Inl ''empty'')
                  else (case last (ae_values e) of
                          ARGS_STRING s \<Rightarrow> Some (args_string_percentage s minval maxval curval)
                        | _ \<Rightarrow> None))"

definition args_percentage_and_expand :: "(string \<Rightarrow> string) \<Rightarrow> 'c args \<Rightarrow> char \<Rightarrow> int \<Rightarrow> int \<Rightarrow> int \<Rightarrow> (string + int) option" where
  "args_percentage_and_expand expand a flag minval maxval curval =
     (case args_find a flag of
        None \<Rightarrow> Some (Inl ''missing'')
      | Some e \<Rightarrow> if ae_values e = [] then Some (Inl ''empty'')
                  else (case last (ae_values e) of
                          ARGS_STRING s \<Rightarrow> args_string_percentage_and_expand expand s minval maxval curval
                        | _ \<Rightarrow> None))"

end
