(* ===== verification/Arguments_Sound.thy ===== *)
theory Arguments_Sound
  imports Arguments
begin

text \<open>
  What the argument parser promises the commands: the flags it returns are known to the template and
  carry values of the right number and type, so that reading them is defined, and the positional
  values are the rest of the input within the bounds of the command.  Further, what copying and
  printing do to arguments, and the bounds of numeric arguments.
\<close>

section \<open>Setting a flag\<close>

lemma args_find_set:
  assumes "ordered ae_flag (args_tree a)"
  shows "args_find (args_set a flag v flags) f =
    (if f = flag
     then Some (case args_find a flag of
            None \<Rightarrow> \<lparr>ae_flag = flag, ae_values = value_list v, ae_count = 1, ae_flags = flags\<rparr>
          | Some e \<Rightarrow> e\<lparr>ae_count := u32 (ae_count e + 1), ae_values := ae_values e @ value_list v\<rparr>)
     else args_find a f)"
proof (cases "args_find a flag")
  case None
  then show ?thesis using rb_find_insert [OF assms, of "\<lparr>ae_flag = flag, ae_values = value_list v, ae_count = 1, ae_flags = flags\<rparr>" f]
    by (simp add: args_set_def args_find_def)
next
  case (Some e)
  then show ?thesis
    using rb_find_modify [of ae_flag "\<lambda>e. e\<lparr>ae_count := u32 (ae_count e + 1), ae_values := ae_values e @ value_list v\<rparr>" f flag "args_tree a"]
    by (simp add: args_set_def args_find_def)
qed

lemma args_set_ordered: "ordered ae_flag (args_tree a) \<Longrightarrow> ordered ae_flag (args_tree (args_set a flag v flags))"
  by (auto simp: args_set_def rb_insert_sorted rb_modify_ordered split: option.splits)

lemma args_set_values [simp]: "args_values (args_set a flag v flags) = args_values a"
  by (simp add: args_set_def split: option.splits)

section \<open>The parsed arguments\<close>

definition string_value :: "'c args_value \<Rightarrow> bool" where
  "string_value v = (case v of ARGS_STRING _ \<Rightarrow> True | _ \<Rightarrow> False)"

definition entry_ok :: "string \<Rightarrow> 'c args_entry \<Rightarrow> bool" where
  "entry_ok t e \<longleftrightarrow> list_all string_value (ae_values e) \<and>
     (case flag_kind t (ae_flag e) of
        FlagUnknown \<Rightarrow> False
      | FlagPlain \<Rightarrow> ae_values e = []
      | FlagValue \<Rightarrow> ae_values e \<noteq> [] \<and> ae_count e = u32 (int (length (ae_values e)))
      | FlagOptional \<Rightarrow> True)"

definition args_ok :: "string \<Rightarrow> 'c args \<Rightarrow> bool" where
  "args_ok t a \<longleftrightarrow> ordered ae_flag (args_tree a) \<and> (\<forall>f e. args_find a f = Some e \<longrightarrow> entry_ok t e)"

lemma args_ok_create: "args_ok t args_create"
  by (simp add: args_ok_def args_create_def args_find_def rb_find_by_def)

lemma u32_Suc: "u32 (u32 (int n) + 1) = u32 (int (Suc n))"
  unfolding u32_def by (metis mod_add_left_eq of_nat_Suc add.commute)

lemma args_ok_set:
  assumes "args_ok t a" "flag_kind t flag \<noteq> FlagUnknown" "list_all string_value (value_list v)"
    "flag_kind t flag = FlagPlain \<Longrightarrow> value_list v = []" "flag_kind t flag = FlagValue \<Longrightarrow> length (value_list v) = 1"
  shows "args_ok t (args_set a flag v flags)"
proof -
  have o: "ordered ae_flag (args_tree a)" using assms(1) by (simp add: args_ok_def)
  have "entry_ok t e'" if "args_find (args_set a flag v flags) f = Some e'" for f e'
  proof (cases "f = flag")
    case False
    then show ?thesis using that assms(1) args_find_set [OF o] by (auto simp: args_ok_def)
  next
    case True
    show ?thesis
    proof (cases "args_find a flag")
      case None
      then have "e' = \<lparr>ae_flag = flag, ae_values = value_list v, ae_count = 1, ae_flags = flags\<rparr>"
        using that True args_find_set [OF o] by simp
      then show ?thesis
        using assms(2-5) by (cases "flag_kind t flag") (auto simp: entry_ok_def u32_def)
    next
      case (Some e)
      have e: "entry_ok t e" "ae_flag e = flag"
        using assms(1) Some rb_find_key [of ae_flag flag "args_tree a" e] by (auto simp: args_ok_def args_find_def)
      have "e' = e\<lparr>ae_count := u32 (ae_count e + 1), ae_values := ae_values e @ value_list v\<rparr>"
        using that True Some args_find_set [OF o] by simp
      then show ?thesis
        using e assms(2-5) u32_Suc by (cases "flag_kind t flag") (auto simp: entry_ok_def)
    qed
  qed
  then show ?thesis using args_set_ordered [OF o] by (simp add: args_ok_def)
qed

section \<open>The loops\<close>

lemma flag_argument_ok:
  assumes "args_parse_flag_argument values a i str flag opt = Inr (a', i')" "args_ok t a"
    "flag_kind t flag = (if opt then FlagOptional else FlagValue)" "i \<le> length values"
  shows "args_ok t a' \<and> args_values a' = args_values a \<and> i \<le> i' \<and> i' \<le> length values"
proof -
  have s: "args_ok t (args_set a flag (Some (ARGS_STRING x)) 0)" for x
    using assms(2,3) by (intro args_ok_set) (auto simp: value_list_def string_value_def split: if_splits)
  have n: "opt \<Longrightarrow> args_ok t (args_set a flag None ARGS_ENTRY_OPTIONAL_VALUE)"
    using assms(2,3) by (intro args_ok_set) (auto simp: value_list_def)
  show ?thesis
    using assms(1,4) s n by (auto simp: args_parse_flag_argument_def split: if_splits args_value.splits)
qed

lemma flag_loop_ok:
  "flag_loop parse values a i str = FlagsMore a' i' \<Longrightarrow> args_ok (template parse) a \<Longrightarrow> i \<le> length values \<Longrightarrow>
     args_ok (template parse) a' \<and> args_values a' = args_values a \<and> i' \<le> length values"
proof (induction str arbitrary: a)
  case (Cons flag str)
  show ?case
  proof (cases "flag_kind (template parse) flag")
    case FlagPlain
    have "args_ok (template parse) (args_set a flag None 0)"
      using Cons.prems(2) FlagPlain by (intro args_ok_set) (auto simp: value_list_def)
    then show ?thesis using Cons FlagPlain by (auto split: if_splits)
  next
    case FlagValue
    then show ?thesis
      using Cons.prems flag_argument_ok [of "values" a i str flag False a' i' "template parse"]
      by (auto split: if_splits sum.splits)
  next
    case FlagOptional
    then show ?thesis
      using Cons.prems flag_argument_ok [of "values" a i str flag True a' i' "template parse"]
      by (auto split: if_splits sum.splits)
  qed (use Cons.prems in \<open>auto split: if_splits\<close>)
qed auto

lemma flag_loop_stop [simp]: "flag_loop parse vs a i str \<noteq> FlagsStop b k"
  by (induction str arbitrary: a) (auto split: if_splits flag_type.splits sum.splits)

lemma args_parse_flags_stop: "args_parse_flags parse vs a i = FlagsStop b k \<Longrightarrow> b = a \<and> i \<le> k \<and> k \<le> Suc i"
  by (auto simp: args_parse_flags_def split: args_value.splits list.splits if_splits)

lemma flags_loop_ok:
  "flags_loop parse vs a i = Inr (a', i') \<Longrightarrow> args_ok (template parse) a \<Longrightarrow> i \<le> length vs \<Longrightarrow>
     args_ok (template parse) a' \<and> args_values a' = args_values a \<and> i' \<le> length vs"
proof (induction parse vs a i rule: flags_loop.induct)
  case (1 parse vs a i)
  show ?case
  proof (cases "i < length vs")
    case False
    then have "flags_loop parse vs a i = Inr (a, i)" by (subst flags_loop.simps) simp
    then show ?thesis using "1.prems" by simp
  next
    case True
    show ?thesis
    proof (cases "args_parse_flags parse vs a i")
      case (FlagsBad c)
      then show ?thesis using "1.prems" True by (simp add: flags_loop.simps [of parse vs a i])
    next
      case (FlagsMore b k)
      have "args_ok (template parse) b \<and> args_values b = args_values a \<and> k \<le> length vs"
        using FlagsMore True "1.prems"(2) flag_loop_ok [of parse vs a "i + 1" _ b k]
        by (auto simp: args_parse_flags_def split: args_value.splits list.splits if_splits)
      then show ?thesis
        using "1.IH" [OF True FlagsMore] "1.prems" True FlagsMore by (simp add: flags_loop.simps [of parse vs a i])
    next
      case (FlagsStop b k)
      have "b = a" "k \<le> length vs" using args_parse_flags_stop [OF FlagsStop] True by auto
      then show ?thesis using "1.prems" True FlagsStop by (simp add: flags_loop.simps [of parse vs a i])
    qed
  qed
qed

lemma flags_loop_index: "flags_loop parse vs a i = Inr (a', i') \<Longrightarrow> i \<le> i'"
proof (induction parse vs a i rule: flags_loop.induct)
  case (1 parse vs a i)
  show ?case
  proof (cases "i < length vs")
    case False
    then have "flags_loop parse vs a i = Inr (a, i)" by (subst flags_loop.simps) simp
    then show ?thesis using "1.prems" by simp
  next
    case True
    show ?thesis
    proof (cases "args_parse_flags parse vs a i")
      case (FlagsMore b k)
      then have "flags_loop parse vs b k = Inr (a', i')" using "1.prems" True by (subst (asm) flags_loop.simps) simp
      then show ?thesis using "1.IH" [OF True FlagsMore] args_parse_flags_index [OF FlagsMore] by simp
    next
      case (FlagsStop b k)
      then have "k = i'" using "1.prems" True by (subst (asm) flags_loop.simps) simp
      then show ?thesis using args_parse_flags_stop [OF FlagsStop] by simp
    qed (use "1.prems" True in \<open>subst (asm) flags_loop.simps, simp\<close>)
  qed
qed

lemma values_loop_values:
  "values_loop parse a vs = Inr a' \<Longrightarrow> args_values a' = args_values a @ vs \<and> args_tree a' = args_tree a"
proof (induction vs arbitrary: a)
  case (Cons v vs)
  then show ?case
    by (fastforce simp: Let_def split: prod.splits args_parse_type.splits args_value.splits option.splits)
qed simp

section \<open>Properties of parsing\<close>

text \<open>C17: arguments that \<open>args_parse\<close> returns fit the template of the command: every flag is known to it,
  the values of flags are strings, so that \<open>args_get\<close> never reads the wrong member of the union, a flag
  with a value has one, and a flag without has none; the positional values are the rest of the input,
  and their number lies between the bounds of the command.\<close>

theorem args_parse_fits:
  assumes "args_parse parse vs = Inr a" "vs \<noteq> []"
  shows "args_ok (template parse) a \<and> (\<exists>i. 1 \<le> i \<and> i \<le> length vs \<and> args_values a = drop i vs) \<and>
    args_get a flag \<noteq> None \<and> (args_find a flag \<noteq> None \<longrightarrow> flag_kind (template parse) flag \<noteq> FlagUnknown) \<and>
    (flag_kind (template parse) flag = FlagPlain \<longrightarrow> args_get a flag = Some None) \<and>
    (flag_kind (template parse) flag = FlagValue \<and> args_find a flag \<noteq> None \<longrightarrow> (\<exists>s. args_get a flag = Some (Some s))) \<and>
    (lower parse \<noteq> - 1 \<longrightarrow> u32 (lower parse) \<le> int (args_count a)) \<and>
    (upper parse \<noteq> - 1 \<longrightarrow> int (args_count a) \<le> u32 (upper parse))"
proof -
  obtain b i where b: "flags_loop parse vs args_create 1 = Inr (b, i)" "values_loop parse b (drop i vs) = Inr a"
      "lower parse \<noteq> - 1 \<longrightarrow> u32 (lower parse) \<le> int (args_count a)"
      "upper parse \<noteq> - 1 \<longrightarrow> int (args_count a) \<le> u32 (upper parse)"
    using assms by (fastforce simp: args_parse_def split: sum.splits if_splits)
  have l: "args_ok (template parse) b" "args_values b = []" "i \<le> length vs"
    using flags_loop_ok [OF b(1) args_ok_create] assms(2) by (auto simp: args_create_def Suc_le_eq)
  have i: "1 \<le> i" using flags_loop_index [OF b(1)] .
  have v: "args_values a = drop i vs" "args_tree a = args_tree b" using values_loop_values [OF b(2)] l(2) by auto
  then have ok: "args_ok (template parse) a" using l(1) by (simp add: args_ok_def args_find_def)
  have e: "list_all string_value (ae_values e) \<and> ae_flag e = flag \<and> entry_ok (template parse) e" if "args_find a flag = Some e" for e
    using ok that rb_find_key [of ae_flag flag "args_tree a" e] by (auto simp: args_ok_def entry_ok_def args_find_def)
  have g: "string_value (last (ae_values e))" if "args_find a flag = Some e" "ae_values e \<noteq> []" for e
    using e [OF that(1)] last_in_set [OF that(2)] by (auto simp: list_all_iff)
  have "args_get a flag \<noteq> None"
    using g by (auto simp: args_get_def string_value_def split: option.splits args_value.splits)
  moreover have "flag_kind (template parse) flag = FlagPlain \<longrightarrow> args_get a flag = Some None"
    using e by (auto simp: args_get_def entry_ok_def split: option.splits)
  moreover have "flag_kind (template parse) flag = FlagValue \<and> args_find a flag \<noteq> None \<longrightarrow> (\<exists>s. args_get a flag = Some (Some s))"
    using e g by (auto simp: args_get_def entry_ok_def string_value_def split: option.splits args_value.splits)
  moreover have "args_find a flag \<noteq> None \<longrightarrow> flag_kind (template parse) flag \<noteq> FlagUnknown"
    using e by (auto simp: entry_ok_def)
  ultimately show ?thesis using ok v(1) l(3) i b(3,4) by blast
qed

definition example_parse :: "unit args_parse_info" where
  "example_parse = \<lparr>template = ''D::t:Z'', lower = 0, upper = 1, cb = None\<rparr>"

definition example_values :: "string list \<Rightarrow> unit args_value list" where
  "example_values ws = map ARGS_STRING (''resize-pane'' # ws)"

theorem args_parse_fits_witness:
  "\<exists>a. args_parse example_parse (example_values [''-Zt'', ''work'', ''5'']) = Inr a \<and> args_ok ''D::t:Z'' a \<and>
     (\<exists>s. args_get a (CHR ''t'') = Some (Some s)) \<and> args_count a \<le> 1"
proof -
  have "case args_parse example_parse (example_values [''-Zt'', ''work'', ''5'']) of
      Inr a \<Rightarrow> args_find a (CHR ''t'') \<noteq> None | _ \<Rightarrow> False" by code_simp
  then obtain a where a: "args_parse example_parse (example_values [''-Zt'', ''work'', ''5'']) = Inr a" "args_find a (CHR ''t'') \<noteq> None"
    by (auto split: sum.splits)
  have k: "flag_kind (template example_parse) (CHR ''t'') = FlagValue" "example_values [''-Zt'', ''work'', ''5''] \<noteq> []"
    by code_simp+
  show ?thesis
    using args_parse_fits [OF a(1) k(2), of "CHR ''t''"] a k by (auto simp: example_parse_def u32_def)
qed

section \<open>Copying\<close>

lemma rb_insert_last: "\<forall>x \<in> set xs. key x < key y \<Longrightarrow> rb_insert key y xs = xs @ [y]"
  by (induction xs) (auto simp: rb_insert_def)

definition set_tree :: "'c args_entry list \<Rightarrow> 'c args" where
  "set_tree xs = \<lparr>args_tree = xs, args_values = []\<rparr>"

lemma args_set_new:
  assumes "\<forall>x \<in> set xs. ae_flag x < flag"
  shows "args_set (set_tree xs) flag v fl = set_tree (xs @ [\<lparr>ae_flag = flag, ae_values = value_list v, ae_count = 1, ae_flags = fl\<rparr>])"
proof -
  have "args_find (set_tree xs) flag = None"
    using assms by (auto simp: args_find_def set_tree_def rb_find_None)
  then show ?thesis
    using assms rb_insert_last [of xs ae_flag "\<lparr>ae_flag = flag, ae_values = value_list v, ae_count = 1, ae_flags = fl\<rparr>"]
    by (simp add: args_set_def set_tree_def)
qed

lemma args_set_again:
  assumes "\<forall>x \<in> set xs. ae_flag x < ae_flag e"
  shows "args_set (set_tree (xs @ [e])) (ae_flag e) v fl =
    set_tree (xs @ [e\<lparr>ae_count := u32 (ae_count e + 1), ae_values := ae_values e @ value_list v\<rparr>])"
proof -
  have "args_find (set_tree (xs @ [e])) (ae_flag e) \<noteq> None"
    by (auto simp: args_find_def set_tree_def rb_find_None)
  moreover have "map (\<lambda>x. if ae_flag x = ae_flag e then f x else x) xs = xs" for f :: "'a args_entry \<Rightarrow> 'a args_entry"
    using assms by (intro map_idI) auto
  ultimately show ?thesis by (auto simp: args_set_def set_tree_def rb_modify_def)
qed

definition fresh_entry :: "char \<Rightarrow> nat \<Rightarrow> 'c args_value list \<Rightarrow> 'c args_entry" where
  "fresh_entry flag n vs = \<lparr>ae_flag = flag, ae_values = vs, ae_count = u32 (int n), ae_flags = 0\<rparr>"

lemma args_set_fresh:
  assumes "\<forall>x \<in> set xs. ae_flag x < flag"
  shows "args_set (set_tree (xs @ [fresh_entry flag n vs])) flag v fl = set_tree (xs @ [fresh_entry flag (Suc n) (vs @ value_list v)])"
  using args_set_again [of xs "fresh_entry flag n vs" v fl] assms u32_Suc [of n] by (simp add: fresh_entry_def)

lemma args_set_first:
  "\<forall>x \<in> set xs. ae_flag x < flag \<Longrightarrow>
     args_set (set_tree xs) flag v 0 = set_tree (xs @ [fresh_entry flag 1 (value_list v)])"
  using args_set_new [of xs flag v 0] by (simp add: fresh_entry_def u32_def)

lemma set_repeated:
  assumes "\<forall>x \<in> set xs. ae_flag x < flag"
  shows "((\<lambda>a. args_set a flag None 0) ^^ Suc n) (set_tree xs) = set_tree (xs @ [fresh_entry flag (Suc n) []])"
proof (induction n)
  case 0
  show ?case using args_set_first [OF assms, of None] by (simp add: value_list_def)
next
  case (Suc n)
  then show ?case using args_set_fresh [OF assms, of "Suc n" "[]" None 0] by (simp add: value_list_def)
qed

lemma set_values:
  assumes "\<forall>x \<in> set xs. ae_flag x < flag" "ARGS_NONE \<notin> set vs"
  shows "fold (\<lambda>v a. args_set a flag (Some v) 0) vs (set_tree (xs @ [fresh_entry flag n us])) =
    set_tree (xs @ [fresh_entry flag (n + length vs) (us @ vs)])"
  using assms(2)
proof (induction vs arbitrary: n us)
  case (Cons v vs)
  then have "value_list (Some v) = [v]" by (cases v) (auto simp: value_list_def)
  then show ?case using Cons args_set_fresh [OF assms(1), of n us "Some v" 0] by simp
qed simp

text \<open>The entries that \<open>args_set\<close> builds are counted, and it never keeps an empty value.  A copy has no
  mark, and counts the values of a flag that has any: for \<open>-D -Dx\<close>, where the optional value of the first
  \<open>-D\<close> is missing, that is one less.\<close>

definition counted :: "'c args_entry \<Rightarrow> bool" where
  "counted e \<longleftrightarrow> (ae_values e = [] \<longrightarrow> 1 \<le> ae_count e \<and> ae_count e < 4294967296) \<and> ARGS_NONE \<notin> set (ae_values e)"

definition recounted :: "'c args_entry \<Rightarrow> 'c args_entry" where
  "recounted e = e\<lparr>ae_flags := 0, ae_count := (if ae_values e = [] then ae_count e else u32 (int (length (ae_values e))))\<rparr>"

lemma recounted_flag [simp]: "ae_flag (recounted e) = ae_flag e"
  by (simp add: recounted_def)

lemma copy_entry_same:
  assumes "\<forall>x \<in> set xs. ae_flag x < ae_flag e" "counted e"
  shows "copy_entry (\<lambda>v. v) e (set_tree xs) = set_tree (xs @ [recounted e])"
proof (cases "ae_values e")
  case Nil
  obtain n where n: "nat (ae_count e) = Suc n" using assms(2) Nil by (cases "nat (ae_count e)") (auto simp: counted_def)
  have "fresh_entry (ae_flag e) (Suc n) [] = recounted e"
    using assms(2) Nil n by (cases e) (auto simp: fresh_entry_def counted_def recounted_def u32_def)
  then show ?thesis using set_repeated [OF assms(1), of n] n Nil by (simp add: copy_entry_def)
next
  case (Cons v vs)
  have v: "value_list (Some v) = [v]" using assms(2) Cons by (cases v) (auto simp: value_list_def counted_def)
  have "fresh_entry (ae_flag e) (1 + length vs) ([v] @ vs) = recounted e"
    using Cons by (cases e) (auto simp: fresh_entry_def recounted_def)
  then show ?thesis
    using set_values [OF assms(1), of vs 1 "[v]"] args_set_first [OF assms(1), of "Some v"] Cons v assms(2)
    by (simp add: copy_entry_def counted_def)
qed

lemma copy_entries_same:
  assumes "ordered ae_flag (xs @ es)" "list_all counted es"
  shows "fold (copy_entry (\<lambda>v. v)) es (set_tree (map recounted xs)) = set_tree (map recounted (xs @ es))"
  using assms
proof (induction es arbitrary: xs)
  case (Cons e es)
  have "copy_entry (\<lambda>v. v) e (set_tree (map recounted xs)) = set_tree (map recounted xs @ [recounted e])"
    using copy_entry_same [of "map recounted xs" e] Cons.prems by (auto simp: sorted_wrt_append)
  then show ?case using Cons.IH [of "xs @ [e]"] Cons.prems by simp
qed simp

lemma copy_value_same: "cmd_list_copy [] = (\<lambda>c. c) \<Longrightarrow> args_copy_copy_value cmd_list_copy [] = (\<lambda>c. c)"
  by (auto simp: args_copy_copy_value_def fun_eq_iff split: args_value.splits)

text \<open>C18: copying arguments without replacing anything gives the same flags in the same order with the
  same values, and the same positional values; what may change is the mark of a flag whose optional value
  is missing, which is lost, and the count of a flag with values, which becomes the number of them.\<close>

theorem args_copy_same:
  assumes "ordered ae_flag (args_tree a)" "list_all counted (args_tree a)" "cmd_list_copy [] = (\<lambda>c. c)"
  shows "args_copy cmd_list_copy a [] =
    a\<lparr>args_tree := map (\<lambda>e. e\<lparr>ae_flags := 0,
        ae_count := (if ae_values e = [] then ae_count e else u32 (int (length (ae_values e))))\<rparr>) (args_tree a)\<rparr>"
proof -
  have "fold (copy_entry (\<lambda>v. v)) (args_tree a) args_create = set_tree (map recounted (args_tree a))"
    using copy_entries_same [of "[]" "args_tree a"] assms(1,2) by (simp add: set_tree_def args_create_def)
  then show ?thesis
    using copy_value_same [of cmd_list_copy, OF assms(3)]
    by (cases a) (simp add: args_copy_def set_tree_def recounted_def [abs_def])
qed

definition example_args :: "unit args" where
  "example_args = (case args_parse example_parse (example_values [''-D'', ''--'', ''5'']) of Inr a \<Rightarrow> a | Inl _ \<Rightarrow> args_create)"

theorem args_copy_same_witness:
  "map ae_flag (args_tree (args_copy (\<lambda>_ c. c) example_args [])) = ''D'' \<and>
   args_values (args_copy (\<lambda>_ c. c) example_args []) = [ARGS_STRING ''5'']"
proof -
  have a: "ordered ae_flag (args_tree example_args)" "list_all counted (args_tree example_args)"
      "map ae_flag (args_tree example_args) = ''D''" "args_values example_args = [ARGS_STRING ''5'']" by code_simp+
  show ?thesis using args_copy_same [OF a(1,2), of "\<lambda>_ c. c"] a(3,4) by (simp add: comp_def)
qed

text \<open>The lost mark changes what is printed: \<open>-D -- 5\<close> becomes \<open>-D 5\<close>, where \<open>5\<close> reads as the value of
  the flag.\<close>

lemma args_copy_print_loses:
  "args_print (\<lambda>_. []) id example_args = ''-D -- 5'' \<and>
   args_print (\<lambda>_. []) id (args_copy (\<lambda>_ c. c) example_args []) = ''-D 5'' \<and>
   (case args_parse example_parse (example_values [''-D'', ''5'']) of
      Inr a \<Rightarrow> args_count a = 0 \<and> args_get a (CHR ''D'') = Some (Some ''5'') | Inl _ \<Rightarrow> False)"
proof -
  have "args_print (\<lambda>_. []) id example_args = ''-D -- 5''" by code_simp
  moreover have "args_print (\<lambda>_. []) id (args_copy (\<lambda>_ c. c) example_args []) = ''-D 5''" by code_simp
  moreover have "(case args_parse example_parse (example_values [''-D'', ''5'']) of
      Inr a \<Rightarrow> args_count a = 0 \<and> args_get a (CHR ''D'') = Some (Some ''5'') | Inl _ \<Rightarrow> False)" by code_simp
  ultimately show ?thesis by blast
qed

section \<open>Replacing markers\<close>

definition shell_quote :: "string \<Rightarrow> string" where
  "shell_quote s = concat (map (\<lambda>c. if c \<in> set quote_set then [CHR 0x5C, c] else [c]) s)"

lemma substitute_bytes:
  "CHR 0x00 \<notin> set s \<Longrightarrow> substitute quoted (map of_char s) = (if quoted then shell_quote s else s)"
proof (induction s)
  case (Cons c s)
  have "char_of (byte c mod 256) = c" using of_char_of [where 'a = nat] by (metis char_of_mod_256 char_of_char)
  then show ?case using Cons by (auto simp: substitute_def shell_quote_def)
qed (simp add: substitute_def shell_quote_def)

lemma template_loop_text: "CHR ''%'' \<notin> set t \<Longrightarrow> template_loop s idx r (t @ u) = t @ template_loop s idx r u"
  by (induction t) auto

lemma template_loop_end: "CHR ''%'' \<notin> set t \<Longrightarrow> template_loop s idx r t = t"
  using template_loop_text [of t s idx r "[]"] by simp

lemma shell_quote_nul: "CHR 0x00 \<notin> set s \<Longrightarrow> CHR 0x00 \<notin> set (shell_quote s)"
  by (auto simp: shell_quote_def quote_set_def)

text \<open>The parts of a template: text, a percent sign on its own, the marker of the argument (\<open>%1\<close> to \<open>%9\<close>),
  and \<open>%%\<close>; a further percent sign behind a marker asks for quoting.\<close>

datatype segment = Txt string | Lone | Arg bool | Pct bool

definition arg_digit :: "int \<Rightarrow> char" where
  "arg_digit idx = char_of (48 + nat idx)"

fun written :: "int \<Rightarrow> segment list \<Rightarrow> string" where
  "written idx [] = []"
| "written idx (Txt t # g) = t @ written idx g"
| "written idx (Lone # g) = CHR ''%'' # written idx g"
| "written idx (Arg q # g) = CHR ''%'' # arg_digit idx # (if q then ''%'' else []) @ written idx g"
| "written idx (Pct q # g) = ''%%'' @ (if q then ''%'' else []) @ written idx g"

text \<open>What the template means: all markers of the argument stand for it, of the \<open>%%\<close> only the first.\<close>

fun filled :: "int \<Rightarrow> string \<Rightarrow> bool \<Rightarrow> segment list \<Rightarrow> string" where
  "filled idx s replaced [] = []"
| "filled idx s replaced (Txt t # g) = t @ filled idx s replaced g"
| "filled idx s replaced (Lone # g) = CHR ''%'' # filled idx s replaced g"
| "filled idx s replaced (Arg q # g) = (if q then shell_quote s else s) @ filled idx s replaced g"
| "filled idx s replaced (Pct q # g) =
     (if replaced then ''%%'' @ (if q then ''%'' else []) else if q then shell_quote s else s) @ filled idx s True g"

text \<open>The parts can be told apart: text has no percent sign, a marker without a further percent sign is not
  followed by one, and what follows a lone percent sign or \<open>%%\<close> does not make a marker of its end.\<close>

definition no_percent :: "string \<Rightarrow> bool" where
  "no_percent s \<longleftrightarrow> (s \<noteq> [] \<longrightarrow> hd s \<noteq> CHR ''%'')"

fun separated :: "int \<Rightarrow> segment list \<Rightarrow> bool" where
  "separated idx [] \<longleftrightarrow> True"
| "separated idx (Txt t # g) \<longleftrightarrow> CHR ''%'' \<notin> set t \<and> CHR 0x00 \<notin> set t \<and> separated idx g"
| "separated idx (Lone # g) \<longleftrightarrow> no_percent (written idx g) \<and> \<not> index_marker idx (written idx g) \<and> separated idx g"
| "separated idx (Arg q # g) \<longleftrightarrow> 1 \<le> idx \<and> idx \<le> 9 \<and> (q \<or> no_percent (written idx g)) \<and> separated idx g"
| "separated idx (Pct q # g) \<longleftrightarrow> (q \<or> no_percent (written idx g)) \<and> \<not> index_marker idx (written idx g) \<and> separated idx g"

lemma no_marker_percent: "\<not> index_marker idx (CHR ''%'' # u)"
  by (simp add: index_marker_def)

lemma loop_literal:
  assumes "\<not> index_marker idx u" "u \<noteq> [] \<and> hd u = CHR ''%'' \<longrightarrow> r"
  shows "template_loop cs idx r (CHR ''%'' # u) = CHR ''%'' # template_loop cs idx r u"
  using assms by (auto simp: Let_def)

lemma loop_marker:
  assumes "index_marker idx (d # u) \<or> d = CHR ''%'' \<and> \<not> r" "index_marker idx (d # u) \<longrightarrow> r = r'" "\<not> index_marker idx (d # u) \<longrightarrow> r'"
    and "q \<or> no_percent u"
  shows "template_loop cs idx r (CHR ''%'' # d # (if q then ''%'' else []) @ u) = substitute q cs @ template_loop cs idx r' u"
  using assms by (auto simp: Let_def no_percent_def index_marker_def)

lemma loop_filled:
  assumes "CHR 0x00 \<notin> set s" "ascii s"
  shows "separated idx g \<Longrightarrow> template_loop (utf8_chars s) idx r (written idx g) = filled idx s r g"
proof (induction g arbitrary: r)
  case (Cons x g)
  have sub: "substitute q (utf8_chars s) = (if q then shell_quote s else s)" for q
    using substitute_bytes [OF assms(1), of q] utf8_chars_ascii [OF assms(2)] by simp
  show ?case
  proof (cases x)
    case (Txt t)
    then show ?thesis using Cons by (simp add: template_loop_text)
  next
    case Lone
    then have "\<not> index_marker idx (written idx g)" "written idx g \<noteq> [] \<and> hd (written idx g) = CHR ''%'' \<longrightarrow> r" "separated idx g"
      using Cons.prems by (auto simp: no_percent_def)
    then show ?thesis using Cons.IH Lone loop_literal [of idx "written idx g" r] by (simp del: template_loop.simps)
  next
    case (Arg q)
    then have "index_marker idx (arg_digit idx # u)" for u
      using Cons.prems by (auto simp: index_marker_def arg_digit_def of_char_of nat_less_iff)
    then show ?thesis
      using Cons Arg sub loop_marker [of idx "arg_digit idx" "written idx g" r r q] by (simp del: template_loop.simps)
  next
    case (Pct q)
    note nm = no_marker_percent
    show ?thesis
    proof (cases r)
      case True
      have "template_loop cs idx True (CHR ''%'' # CHR ''%'' # (if q then ''%'' else []) @ written idx g) =
          CHR ''%'' # CHR ''%'' # (if q then ''%'' else []) @ template_loop cs idx True (written idx g)" for cs
        using Cons.prems Pct nm loop_literal [of idx _ True] by (simp del: template_loop.simps)
      then show ?thesis using Cons Pct True by (simp del: template_loop.simps)
    next
      case False
      then show ?thesis
        using Cons Pct sub nm loop_marker [of idx "CHR ''%''" "written idx g" False True q] by (simp del: template_loop.simps)
    qed
  qed
qed simp

lemma written_plain: "CHR ''%'' \<notin> set (written idx g) \<Longrightarrow> filled idx s r g = written idx g"
  by (induction idx g rule: written.induct) auto

lemma filled_nul: "separated idx g \<Longrightarrow> CHR 0x00 \<notin> set s \<Longrightarrow> CHR 0x00 \<notin> set (filled idx s r g)"
  by (induction idx g arbitrary: r rule: written.induct) (auto simp: shell_quote_nul)

text \<open>C19: \<open>cmd_template_replace\<close> puts an ASCII argument in the place of every marker with its index, \<open>%1\<close> to
  \<open>%9\<close>, and of the first \<open>%%\<close>, with backslashes in front of its special characters where a further percent
  sign follows; later \<open>%%\<close>, other percent signs and all text stay as they are.\<close>

theorem cmd_template_replace_ascii:
  assumes "separated idx g" "CHR 0x00 \<notin> set s" "ascii s"
  shows "cmd_template_replace (written idx g) (Some s) idx = filled idx s False g"
proof (cases "CHR ''%'' \<in> set (written idx g)")
  case True
  then show ?thesis
    using loop_filled [OF assms(2,3,1), of False] c_string_id [OF filled_nul [OF assms(1,2)]] by (simp add: cmd_template_replace_def)
qed (simp add: cmd_template_replace_def written_plain)

theorem cmd_template_replace_ascii_witness:
  "cmd_template_replace ''run %1 %2 %1% %% %%'' (Some ''a;b'') 1 = ''run a;b %2 a'' @ [CHR 0x5C] @ '';b a;b %%''"
proof -
  let ?g = "[Txt ''run '', Arg False, Txt '' '', Lone, Txt ''2 '', Arg True, Txt '' '', Pct False, Txt '' '', Pct False]"
  have "separated 1 ?g" "ascii ''a;b''" "written 1 ?g = ''run %1 %2 %1% %% %%''"
    "filled 1 ''a;b'' False ?g = ''run a;b %2 a'' @ [CHR 0x5C] @ '';b a;b %%''" by code_simp+
  then show ?thesis using cmd_template_replace_ascii [of 1 ?g "''a;b''"] by simp
qed

text \<open>An argument with a character outside ASCII comes out as something else: each character is cut to
  its low byte, here U+00E9, which leaves text that is not UTF-8, and U+0122 turns into a quote.\<close>

lemma cmd_template_replace_wide:
  "from_utf8 [CHR 0xC3, CHR 0xA9] \<and> cmd_template_replace ''%1'' (Some [CHR 0xC3, CHR 0xA9]) 1 = [CHR 0xE9] \<and>
   \<not> from_utf8 [CHR 0xE9] \<and> cmd_template_replace ''%1'' (Some [CHR 0xC4, CHR 0xA2]) 1 = [CHR 0x22]"
proof -
  have "from_utf8 [CHR 0xC3, CHR 0xA9]" "\<not> from_utf8 [CHR 0xE9]" by code_simp+
  moreover have "cmd_template_replace ''%1'' (Some [CHR 0xC3, CHR 0xA9]) 1 = [CHR 0xE9]" by code_simp
  moreover have "cmd_template_replace ''%1'' (Some [CHR 0xC4, CHR 0xA2]) 1 = [CHR 0x22]" by code_simp
  ultimately show ?thesis by blast
qed

section \<open>Numeric arguments\<close>

lemma show_nat_last: "show_nat m \<noteq> [] \<and> digit (last (show_nat m))"
  using show_nat_digits [of m] last_in_set [of "show_nat m"] by (auto simp: list_all_iff)

lemma percentage_bounds: "percentage ll minval maxval curval = Inr n \<Longrightarrow> minval \<le> n \<and> n \<le> maxval"
  by (auto simp: percentage_def Let_def split: if_splits)

lemma percentage_exact:
  assumes "0 \<le> ll" "0 \<le> curval" "curval * ll \<le> i64_MAX"
  shows "i64 (curval * ll) sdiv 100 = curval * ll div 100"
proof -
  have "0 \<le> curval * ll" using assms(1,2) by simp
  then have "i64 (curval * ll) = curval * ll" using assms(3) by (intro i64_id) (auto simp: i64_MIN_def)
  moreover have "sgn (curval * ll) = 1 \<or> curval * ll = 0" using \<open>0 \<le> curval * ll\<close> by (simp only: sgn_if) auto
  ultimately show ?thesis using \<open>0 \<le> curval * ll\<close> by (auto simp: signed_divide_int_def)
qed

text \<open>C20: a numeric argument that is accepted lies between its bounds, as a plain number and as a
  percentage, even where the product with the current size overflows; a printed number between the bounds
  is accepted as it is, and a percentage is the part of the current size rounded down.\<close>

theorem args_string_percentage_bounds:
  assumes "minval \<le> maxval" "\<bar>n\<bar> \<le> i64_MAX" "0 \<le> p" "p \<le> 1000" "0 \<le> curval" "curval * p \<le> i64_MAX"
  shows "(args_string_percentage v minval maxval curval = Inr r \<longrightarrow> minval \<le> r \<and> r \<le> maxval) \<and>
    (minval \<le> n \<and> n \<le> maxval \<longrightarrow> args_string_percentage (show_int n) minval maxval curval = Inr n) \<and>
    args_string_percentage (show_int p @ ''%'') minval maxval curval =
      (let q = curval * p div 100
       in if q < minval then Inl ''too small'' else if q > maxval then Inl ''too large'' else Inr q)"
proof -
  have "minval \<le> r \<and> r \<le> maxval" if "args_string_percentage v minval maxval curval = Inr r"
    using that percentage_bounds strtonum_bounds
    by (auto simp: args_string_percentage_def split: if_splits sum.splits)
  moreover have "args_string_percentage (show_int n) minval maxval curval = Inr n" if "minval \<le> n" "n \<le> maxval"
  proof -
    have "show_int n \<noteq> []" "last (show_int n) \<noteq> CHR ''%''"
      using show_nat_last [of "nat n"] show_nat_last [of "nat (- n)"] by (auto simp: show_int_def digit_def)
    then show ?thesis using strtonum_show [OF that assms(2)] by (simp add: args_string_percentage_def)
  qed
  moreover have "strtonum (show_int p) 0 1000 = Inr p"
    using strtonum_show [of 0 p 1000] assms(3,4) by (simp add: i64_MAX_def)
  ultimately show ?thesis
    using percentage_exact [OF assms(3,5,6)]
    by (auto simp: args_string_percentage_def percentage_def Let_def)
qed

theorem args_string_percentage_bounds_witness:
  "args_string_percentage (show_int 50 @ ''%'') 1 200 81 = Inr 40"
  using args_string_percentage_bounds [of 1 200 7 50 81 "[]" 0] by (simp add: i64_MAX_def)

end
