(* ===== verification/Environ.thy ===== *)
theory Environ
  imports Arguments Keyed_Store "HOL-Library.List_Lexorder"
begin

text \<open>
  Environments (\<open>environ.rs\<close>): a tree of entries ordered by name, each with a value, or none for a
  variable that is to be removed, and the mark that it is hidden from children.  The commands
  \<open>set-environment\<close> and \<open>show-environment\<close> work on the global environment or on that of a session.

  Names and values are C strings.  \<open>environ_set!\<close> formats its value: the functions here take the
  formatted text, with \<^const>\<open>display_cstr\<close> where the code formats a pointer.  Parameters: \<open>fnmatch\<close>, the
  options that are read, the socket path, the process and the version.
\<close>

section \<open>State\<close>

record environ_entry =
  env_name :: string
  env_value :: "string option"
  env_hidden :: bool

type_synonym environ = "environ_entry list"

definition environ_create :: environ where
  "environ_create = []"

section \<open>Operations\<close>

definition environ_find :: "environ \<Rightarrow> string \<Rightarrow> environ_entry option" where
  "environ_find env name = rb_find_by env_name name env"

definition environ_set :: "environ \<Rightarrow> string \<Rightarrow> bool \<Rightarrow> string \<Rightarrow> environ" where
  "environ_set env name flags text =
     (let v = c_string text in
      case environ_find env name of
        Some _ \<Rightarrow> rb_modify env_name name (\<lambda>e. e\<lparr>env_hidden := flags, env_value := Some v\<rparr>) env
      | None \<Rightarrow> rb_insert env_name \<lparr>env_name = name, env_value = Some v, env_hidden = flags\<rparr> env)"

definition environ_clear :: "environ \<Rightarrow> string \<Rightarrow> environ" where
  "environ_clear env name =
     (case environ_find env name of
        Some _ \<Rightarrow> rb_modify env_name name (\<lambda>e. e\<lparr>env_value := None\<rparr>) env
      | None \<Rightarrow> rb_insert env_name \<lparr>env_name = name, env_value = None, env_hidden = False\<rparr> env)"

definition environ_put :: "environ \<Rightarrow> string \<Rightarrow> bool \<Rightarrow> environ" where
  "environ_put env var flags =
     (if CHR ''='' \<notin> set var then env
      else environ_set env (takeWhile (\<lambda>c. c \<noteq> CHR ''='') var) flags
             (display_cstr (Some (tl (dropWhile (\<lambda>c. c \<noteq> CHR ''='') var)))))"

definition environ_unset :: "environ \<Rightarrow> string \<Rightarrow> environ" where
  "environ_unset env name = (case environ_find env name of None \<Rightarrow> env | Some e \<Rightarrow> rb_remove e env)"

definition copy_variable :: "environ_entry \<Rightarrow> environ \<Rightarrow> environ" where
  "copy_variable e dst =
     (case env_value e of
        Some v \<Rightarrow> environ_set dst (env_name e) (env_hidden e) (display_cstr (Some v))
      | None \<Rightarrow> environ_clear dst (env_name e))"

definition environ_copy :: "environ \<Rightarrow> environ \<Rightarrow> environ" where
  "environ_copy src dst = fold copy_variable src dst"

text \<open>One pattern of \<open>update-environment\<close>; the option may be missing.\<close>

definition update_pattern :: "(string \<Rightarrow> string \<Rightarrow> bool) \<Rightarrow> environ \<Rightarrow> string \<Rightarrow> environ \<Rightarrow> environ" where
  "update_pattern fnmatch src pat dst =
     (let matching = filter (\<lambda>e. fnmatch pat (env_name e)) src in
      if matching = [] then environ_clear dst pat
      else fold (\<lambda>e d. environ_set d (env_name e) False (display_cstr (env_value e))) matching dst)"

definition environ_update :: "(string \<Rightarrow> string \<Rightarrow> bool) \<Rightarrow> string list option \<Rightarrow> environ \<Rightarrow> environ \<Rightarrow> environ" where
  "environ_update fnmatch update_environment src dst =
     (case update_environment of None \<Rightarrow> dst | Some pats \<Rightarrow> fold (update_pattern fnmatch src) pats dst)"

text \<open>The variables that \<open>environ_push\<close> hands to \<open>setenv\<close>, in order.\<close>

definition environ_push :: "environ \<Rightarrow> (string \<times> string) list" where
  "environ_push env =
     map (\<lambda>e. (env_name e, the (env_value e)))
       (filter (\<lambda>e. env_value e \<noteq> None \<and> env_name e \<noteq> [] \<and> \<not> env_hidden e) env)"

record environ_config =
  default_terminal :: "string option"
  version :: string
  socket_path :: "string option"
  process_id :: u32
  systemd :: bool

definition environ_for_session :: "environ_config \<Rightarrow> environ \<Rightarrow> (u32 \<times> environ) option \<Rightarrow> bool \<Rightarrow> environ" where
  "environ_for_session cfg global s no_term =
     (let env0 = environ_copy global environ_create;
          env1 = (case s of None \<Rightarrow> env0 | Some (_, senv) \<Rightarrow> environ_copy senv env0);
          env2 = (if no_term then env1
                  else environ_set (environ_set (environ_set (environ_set env1
                         ''TERM'' False (display_cstr (default_terminal cfg)))
                         ''TERM_PROGRAM'' False ''tmux'')
                         ''TERM_PROGRAM_VERSION'' False (version cfg))
                         ''COLORTERM'' False ''truecolor'');
          env3 = (if systemd cfg
                  then environ_clear (environ_clear (environ_clear env2 ''LISTEN_PID'') ''LISTEN_FDS'') ''LISTEN_FDNAMES''
                  else env2);
          idx = (case s of Some (sid, _) \<Rightarrow> i32 sid | None \<Rightarrow> - 1)
      in environ_set env3 ''TMUX'' False
           (display_cstr (socket_path cfg) @ '','' @ show_int (process_id cfg) @ '','' @ show_int idx))"

section \<open>Commands\<close>

text \<open>\<open>set-environment\<close> on the global environment and that of the target session, if there is one.  The
  result is \<^const>\<open>None\<close> when the command has no argument, which its template rules out.\<close>

record env_tables =
  env_global :: environ
  env_session :: "environ option"

definition no_session_error :: "'c args \<Rightarrow> cmd_output" where
  "no_session_error a =
     (case args_get a (CHR ''t'') of
        Some (Some t) \<Rightarrow> Errored (''no such session: '' @ display_cstr (Some t))
      | _ \<Rightarrow> Errored ''no current session'')"

definition change_variable :: "'c args \<Rightarrow> string \<Rightarrow> string option \<Rightarrow> environ \<Rightarrow> string + environ" where
  "change_variable a name v env =
     (if args_has a (CHR ''u'')
      then (if v \<noteq> None then Inl ''can't specify a value with -u'' else Inr (environ_unset env name))
      else if args_has a (CHR ''r'')
      then (if v \<noteq> None then Inl ''can't specify a value with -r'' else Inr (environ_clear env name))
      else (case v of
              None \<Rightarrow> Inl ''no value specified''
            | Some x \<Rightarrow> Inr (environ_set env name (args_has a (CHR ''h'')) (display_cstr (Some x)))))"

definition cmd_set_environment_exec :: "('c \<Rightarrow> string) \<Rightarrow> (string \<Rightarrow> string) \<Rightarrow> 'c args \<Rightarrow> env_tables \<Rightarrow>
    (cmd_retval \<times> cmd_output list \<times> env_tables) option" where
  "cmd_set_environment_exec cmd_list_print expand a t =
     (case args_string cmd_list_print a 0 of
        None \<Rightarrow> None
      | Some name \<Rightarrow>
          let fail = (\<lambda>out. Some (CMD_RETURN_ERROR, [out], t));
              v = (case (if args_count a < 2 then None else args_string cmd_list_print a 1) of
                     Some x \<Rightarrow> Some (if args_has a (CHR ''F'') then expand x else x) | None \<Rightarrow> None)
          in if name = [] then fail (Errored ''empty variable name'')
             else if CHR ''='' \<in> set name then fail (Errored ''variable name contains ='')
             else if args_has a (CHR ''g'')
             then (case change_variable a name v (env_global t) of
                     Inl e \<Rightarrow> fail (Errored e)
                   | Inr env \<Rightarrow> Some (CMD_RETURN_NORMAL, [], t\<lparr>env_global := env\<rparr>))
             else (case env_session t of
                     None \<Rightarrow> fail (no_session_error a)
                   | Some senv \<Rightarrow>
                       (case change_variable a name v senv of
                          Inl e \<Rightarrow> fail (Errored e)
                        | Inr env \<Rightarrow> Some (CMD_RETURN_NORMAL, [], t\<lparr>env_session := Some env\<rparr>))))"

definition escaped_char :: "char \<Rightarrow> bool" where
  "escaped_char c \<longleftrightarrow> c = CHR ''$'' \<or> c = CHR 0x60 \<or> c = CHR 0x22 \<or> c = CHR 0x5C"

definition cmd_show_environment_escape :: "string \<Rightarrow> string" where
  "cmd_show_environment_escape v = concat (map (\<lambda>c. if escaped_char c then [CHR 0x5C, c] else [c]) v)"

definition cmd_show_environment_print :: "'c args \<Rightarrow> environ_entry \<Rightarrow> cmd_output list" where
  "cmd_show_environment_print a e =
     (let name = display_cstr (Some (env_name e)) in
      if args_has a (CHR ''h'') \<noteq> env_hidden e then []
      else if \<not> args_has a (CHR ''s'')
      then (case env_value e of
              Some v \<Rightarrow> [Printed (name @ ''='' @ display_cstr (Some v))]
            | None \<Rightarrow> [Printed (''-'' @ name)])
      else (case env_value e of
              Some v \<Rightarrow> [Printed (name @ ''='' @ [CHR 0x22] @ display_cstr (Some (cmd_show_environment_escape v)) @
                          [CHR 0x22] @ ''; export '' @ name @ '';'')]
            | None \<Rightarrow> [Printed (''unset '' @ name @ '';'')]))"

definition cmd_show_environment_exec :: "('c \<Rightarrow> string) \<Rightarrow> 'c args \<Rightarrow> env_tables \<Rightarrow> cmd_retval \<times> cmd_output list" where
  "cmd_show_environment_exec cmd_list_print a t =
     (let show = (\<lambda>env.
            case args_string cmd_list_print a 0 of
              Some name \<Rightarrow>
                (case environ_find env name of
                   None \<Rightarrow> (CMD_RETURN_ERROR, [Errored (''unknown variable: '' @ display_cstr (Some name))])
                 | Some e \<Rightarrow> (CMD_RETURN_NORMAL, cmd_show_environment_print a e))
            | None \<Rightarrow> (CMD_RETURN_NORMAL, concat (map (cmd_show_environment_print a) env)))
      in if args_get a (CHR ''t'') \<noteq> Some None \<and> env_session t = None
         then (CMD_RETURN_ERROR, [no_session_error a])
         else if args_has a (CHR ''g'') then show (env_global t)
         else (case env_session t of
                 None \<Rightarrow> (CMD_RETURN_ERROR, [no_session_error a])
               | Some senv \<Rightarrow> show senv))"

end
