(* ===== verification/Environ_Sound.thy ===== *)
theory Environ_Sound
  imports Environ
begin

text \<open>
  Lookups after each operation on environments, environments as a keyed store, what copying and
  updating do to every variable, what a child process sees, and that \<open>show-environment -s\<close> prints
  assignments that a shell reads back.
\<close>

section \<open>Single operations\<close>

lemma find_set [simp]:
  assumes "ordered env_name env"
  shows "environ_find (environ_set env n f t) k =
    (if k = n then Some \<lparr>env_name = n, env_value = Some (c_string t), env_hidden = f\<rparr> else environ_find env k)"
proof (cases "environ_find env n")
  case None
  then show ?thesis
    using rb_find_insert [OF assms, of "\<lparr>env_name = n, env_value = Some (c_string t), env_hidden = f\<rparr>" k]
    by (simp add: environ_set_def environ_find_def)
next
  case (Some e)
  then have "env_name e = n" using rb_find_key [of env_name n env e] by (simp add: environ_find_def)
  then show ?thesis
    using Some rb_find_modify [of env_name "\<lambda>e. e\<lparr>env_hidden := f, env_value := Some (c_string t)\<rparr>" k n env]
    by (cases e) (simp add: environ_set_def environ_find_def)
qed

definition kept_hidden :: "environ \<Rightarrow> string \<Rightarrow> bool" where
  "kept_hidden env n = (case environ_find env n of None \<Rightarrow> False | Some e \<Rightarrow> env_hidden e)"

lemma find_clear [simp]:
  assumes "ordered env_name env"
  shows "environ_find (environ_clear env n) k =
    (if k = n then Some \<lparr>env_name = n, env_value = None, env_hidden = kept_hidden env n\<rparr> else environ_find env k)"
proof (cases "environ_find env n")
  case None
  then show ?thesis
    using rb_find_insert [OF assms, of "\<lparr>env_name = n, env_value = None, env_hidden = False\<rparr>" k]
    by (simp add: environ_clear_def environ_find_def kept_hidden_def)
next
  case (Some e)
  then have "env_name e = n" using rb_find_key [of env_name n env e] by (simp add: environ_find_def)
  then show ?thesis
    using Some rb_find_modify [of env_name "\<lambda>e. e\<lparr>env_value := None\<rparr>" k n env]
    by (cases e) (simp add: environ_clear_def environ_find_def kept_hidden_def)
qed

lemma find_unset [simp]:
  assumes "ordered env_name env"
  shows "environ_find (environ_unset env n) k = (if k = n then None else environ_find env k)"
  using rb_find_remove [OF assms, of n _ k] by (auto simp: environ_unset_def environ_find_def split: option.splits)

lemma set_ordered [simp]: "ordered env_name env \<Longrightarrow> ordered env_name (environ_set env n f t)"
  by (auto simp: environ_set_def Let_def rb_insert_sorted rb_modify_ordered split: option.splits)

lemma clear_ordered [simp]: "ordered env_name env \<Longrightarrow> ordered env_name (environ_clear env n)"
  by (auto simp: environ_clear_def rb_insert_sorted rb_modify_ordered split: option.splits)

lemma unset_ordered [simp]: "ordered env_name env \<Longrightarrow> ordered env_name (environ_unset env n)"
  by (auto simp: environ_unset_def rb_remove_ordered split: option.splits)

lemma find_name: "environ_find env n = Some e \<Longrightarrow> env_name e = n"
  using rb_find_key [of env_name n env e] by (simp add: environ_find_def)

lemma find_Cons: "environ_find (e # env) n = (if env_name e = n then Some e else environ_find env n)"
  by (simp add: environ_find_def rb_find_by_def)

section \<open>A keyed store\<close>

text \<open>The value of a variable with its mark; a cleared variable is present without value.\<close>

definition environ_lookup :: "environ \<Rightarrow> string \<Rightarrow> (string option \<times> bool) option" where
  "environ_lookup env n = map_option (\<lambda>e. (env_value e, env_hidden e)) (environ_find env n)"

definition environ_store :: "environ \<Rightarrow> string \<Rightarrow> string option \<times> bool \<Rightarrow> environ" where
  "environ_store env n v = (case v of (Some t, f) \<Rightarrow> environ_set env n f t | (None, _) \<Rightarrow> environ_clear env n)"

definition environ_inv :: "nat \<Rightarrow> environ \<Rightarrow> bool" where
  "environ_inv n env \<longleftrightarrow> ordered env_name env"

definition settable :: "string option \<times> bool \<Rightarrow> bool" where
  "settable v = (case v of (Some t, _) \<Rightarrow> CHR 0x00 \<notin> set t | (None, _) \<Rightarrow> False)"

interpretation environ_table: keyed_store environ_inv "\<lambda>_. True" settable environ_lookup environ_store environ_unset
proof
  show "environ_inv n (environ_store s k v)" if "environ_inv (Suc n) s" "True" "settable v" for n s k v
    using that by (auto simp: environ_inv_def environ_store_def split: prod.splits option.splits)
  show "environ_inv n (environ_unset s k)" if "environ_inv (Suc n) s" "True" for n s k
    using that by (simp add: environ_inv_def)
  show "environ_lookup (environ_store s k v) k' = (if k' = k then Some v else environ_lookup s k')"
    if "environ_inv (Suc n) s" "True" "settable v" for n s k v k'
    using that by (auto simp: environ_inv_def environ_store_def environ_lookup_def settable_def c_string_id
        split: prod.splits option.splits)
  show "environ_lookup (environ_unset s k) k' = (if k' = k then None else environ_lookup s k')"
    if "environ_inv (Suc n) s" "True" for n s k k'
    using that by (simp add: environ_inv_def environ_lookup_def)
qed

section \<open>Copying\<close>

definition copied :: "environ_entry \<Rightarrow> environ_entry option \<Rightarrow> environ_entry" where
  "copied e d =
     (case env_value e of
        Some v \<Rightarrow> e\<lparr>env_value := Some (c_string (display_cstr (Some v)))\<rparr>
      | None \<Rightarrow> e\<lparr>env_hidden := (case d of None \<Rightarrow> False | Some x \<Rightarrow> env_hidden x)\<rparr>)"

lemma copy_variable_spec:
  assumes "ordered env_name dst"
  shows "ordered env_name (copy_variable e dst)"
    and "environ_find (copy_variable e dst) k =
      (if k = env_name e then Some (copied e (environ_find dst k)) else environ_find dst k)"
  using assms by (cases e; auto simp: copy_variable_def copied_def kept_hidden_def split: option.splits)+

lemma environ_copy_spec:
  assumes "ordered env_name src" "ordered env_name dst"
  shows "ordered env_name (environ_copy src dst) \<and>
    environ_find (environ_copy src dst) k =
      (case environ_find src k of None \<Rightarrow> environ_find dst k | Some e \<Rightarrow> Some (copied e (environ_find dst k)))"
  using assms
proof (induction src arbitrary: dst)
  case Nil
  then show ?case by (simp add: environ_copy_def environ_find_def rb_find_by_def)
next
  case (Cons e src)
  have c: "ordered env_name (copy_variable e dst)" using copy_variable_spec(1) [OF Cons.prems(2)] .
  have "environ_find src k = None" if "k = env_name e"
    using Cons.prems(1) that by (auto simp: environ_find_def rb_find_None)
  then show ?case
    using Cons.IH [OF _ c] Cons.prems(1) copy_variable_spec(2) [OF Cons.prems(2), of e k]
    by (auto simp: environ_copy_def find_Cons split: option.splits)
qed

text \<open>Values are C strings.  What a copy makes of one: the value itself, or for bytes that are not UTF-8 the
  text that stands for an invalid string.\<close>

definition c_text :: "string \<Rightarrow> bool" where
  "c_text s \<longleftrightarrow> CHR 0x00 \<notin> set s"

definition c_env :: "environ \<Rightarrow> bool" where
  "c_env env \<longleftrightarrow> list_all (\<lambda>e. case env_value e of None \<Rightarrow> True | Some v \<Rightarrow> c_text v) env"

definition passed :: "string \<Rightarrow> string" where
  "passed v = (if from_utf8 v then v else ''%s-invalid-utf8'')"

lemma passed_c_text: "c_text v \<Longrightarrow> c_text (passed v)"
  by (simp add: passed_def c_text_def)

lemma passed_display: "c_text v \<Longrightarrow> c_string (display_cstr (Some v)) = passed v"
  using passed_c_text [of v] c_string_id [of "passed v"] by (simp add: passed_def display_cstr_def c_text_def)

lemma find_in_set: "environ_find env n = Some e \<Longrightarrow> e \<in> set env"
  by (auto simp: environ_find_def rb_find_by_def dest: find_SomeD)

lemma copied_value:
  assumes "c_env src" "environ_find src k = Some e" "env_value e = Some v"
  shows "copied e d = e\<lparr>env_value := Some (passed v)\<rparr>"
proof -
  have "c_text v" using assms find_in_set [OF assms(2)] by (auto simp: c_env_def list_all_iff)
  then show ?thesis using assms(3) by (simp add: copied_def passed_display)
qed

text \<open>C13: after \<open>environ_copy\<close> every variable of the source has its value and its mark from the source,
  except that a value that is not UTF-8 has become the text \<open>%s-invalid-utf8\<close>; a variable that the source
  removes has no value and keeps the mark it had, and all other variables are as before.\<close>

theorem environ_copy_overrides:
  assumes "ordered env_name src" "ordered env_name dst" "c_env src"
  shows "ordered env_name (environ_copy src dst) \<and>
    environ_find (environ_copy src dst) k =
      (case environ_find src k of
         None \<Rightarrow> environ_find dst k
       | Some e \<Rightarrow>
           (case env_value e of
              None \<Rightarrow> Some (e\<lparr>env_hidden := kept_hidden dst k\<rparr>)
            | Some v \<Rightarrow> Some (e\<lparr>env_value := Some (if from_utf8 v then v else ''%s-invalid-utf8'')\<rparr>)))"
  using environ_copy_spec [OF assms(1,2), of k] copied_value [OF assms(3), of k]
  by (auto simp: copied_def kept_hidden_def passed_def split: option.splits)

definition example_env :: environ where
  "example_env = environ_set (environ_clear (environ_set [] ''PATH'' False ''/bin'') ''OLD'') ''KEY'' True ''x''"

theorem environ_copy_overrides_witness:
  "environ_find (environ_copy example_env (environ_set [] ''OLD'' True ''1'')) ''OLD'' =
     Some \<lparr>env_name = ''OLD'', env_value = None, env_hidden = True\<rparr>"
proof -
  have "ordered env_name example_env" "c_env example_env" "ordered env_name (environ_set [] ''OLD'' True ''1'')"
    "environ_find example_env ''OLD'' = Some \<lparr>env_name = ''OLD'', env_value = None, env_hidden = False\<rparr>"
    "kept_hidden (environ_set [] ''OLD'' True ''1'') ''OLD''" by code_simp+
  then show ?thesis using environ_copy_overrides [of example_env "environ_set [] ''OLD'' True ''1''" "''OLD''"] by simp
qed

text \<open>C12: under every sequence of settings and removals an environment behaves as a map from names to
  values, and its tree stays ordered.\<close>

theorem environ_refines_map:
  assumes "environ_inv (length ops + n) env" "list_all (op_ok (\<lambda>_. True) settable) ops"
  shows "environ_inv n (store_run environ_store environ_unset ops env) \<and>
    environ_lookup (store_run environ_store environ_unset ops env) = map_run ops (environ_lookup env)"
  using environ_table.run_refines [OF assms] .

theorem environ_refines_map_witness:
  "environ_lookup (store_run environ_store environ_unset [Put ''A'' (Some ''1'', False), Put ''B'' (Some ''2'', True), Del ''A''] []) ''B''
     = Some (Some ''2'', True)"
  using environ_refines_map [of "[Put ''A'' (Some ''1'', False), Put ''B'' (Some ''2'', True), Del ''A'']" 0 "[]"]
  by (simp add: environ_inv_def settable_def map_run_def)

section \<open>Updating from a client\<close>

definition updated :: "environ_entry \<Rightarrow> environ_entry" where
  "updated e = \<lparr>env_name = env_name e, env_value = Some (c_string (display_cstr (env_value e))), env_hidden = False\<rparr>"

lemma set_matching:
  assumes "ordered env_name es" "ordered env_name dst"
  shows "ordered env_name (fold (\<lambda>e d. environ_set d (env_name e) False (display_cstr (env_value e))) es dst) \<and>
    environ_find (fold (\<lambda>e d. environ_set d (env_name e) False (display_cstr (env_value e))) es dst) k =
      (case environ_find es k of None \<Rightarrow> environ_find dst k | Some e \<Rightarrow> Some (updated e))"
  using assms
proof (induction es arbitrary: dst)
  case Nil
  then show ?case by (simp add: environ_find_def rb_find_by_def)
next
  case (Cons e es)
  have "environ_find es k = None" if "k = env_name e"
    using Cons.prems(1) that by (auto simp: environ_find_def rb_find_None)
  then show ?case
    using Cons.IH [of "environ_set dst (env_name e) False (display_cstr (env_value e))"] Cons.prems
    by (auto simp: find_Cons updated_def split: option.splits)
qed

lemma ordered_filter: "ordered key xs \<Longrightarrow> ordered key (filter P xs)"
  by (rule sorted_wrt_filter)

lemma find_filter:
  "environ_find (filter (\<lambda>e. P (env_name e)) src) k = (if P k then environ_find src k else None)"
  by (induction src) (auto simp: environ_find_def rb_find_by_def)

lemma update_pattern_spec:
  assumes "ordered env_name src" "ordered env_name dst"
  shows "ordered env_name (update_pattern m src p dst) \<and>
    environ_find (update_pattern m src p dst) k =
      (if \<exists>e \<in> set src. m p (env_name e)
       then (case environ_find src k of Some e \<Rightarrow> if m p k then Some (updated e) else environ_find dst k
             | None \<Rightarrow> environ_find dst k)
       else if k = p then Some \<lparr>env_name = p, env_value = None, env_hidden = kept_hidden dst p\<rparr>
       else environ_find dst k)"
proof -
  let ?ms = "filter (\<lambda>e. m p (env_name e)) src"
  have o: "ordered env_name ?ms" using ordered_filter [OF assms(1)] .
  have e: "?ms = [] \<longleftrightarrow> \<not> (\<exists>e \<in> set src. m p (env_name e))" by (auto simp: filter_empty_conv)
  show ?thesis
    using set_matching [OF o assms(2), of k] find_filter [of "m p" src k] assms(2)
    unfolding update_pattern_def Let_def e by (auto split: option.splits)
qed

lemma update_patterns_spec:
  assumes "ordered env_name src" "ordered env_name dst"
  shows "ordered env_name (fold (update_pattern m src) pats dst) \<and>
    (\<forall>e. environ_find src n = Some e \<and> m n n \<and> ((\<exists>p \<in> set pats. m p n) \<or> environ_find dst n = Some (updated e)) \<longrightarrow>
       environ_find (fold (update_pattern m src) pats dst) n = Some (updated e)) \<and>
    (n \<notin> set pats \<and> (environ_find src n = None \<or> (\<forall>p \<in> set pats. \<not> m p n)) \<longrightarrow>
       environ_find (fold (update_pattern m src) pats dst) n = environ_find dst n) \<and>
    (environ_find src n = None \<and> (\<forall>e \<in> set src. \<not> m n (env_name e)) \<and>
       (n \<in> set pats \<or> (\<exists>h. environ_find dst n = Some \<lparr>env_name = n, env_value = None, env_hidden = h\<rparr>)) \<longrightarrow>
       (\<exists>h. environ_find (fold (update_pattern m src) pats dst) n = Some \<lparr>env_name = n, env_value = None, env_hidden = h\<rparr>))"
  using assms(2)
proof (induction pats arbitrary: dst)
  case (Cons p pats)
  let ?d = "update_pattern m src p dst"
  have d: "ordered env_name ?d" and f: "environ_find ?d n =
      (if \<exists>e \<in> set src. m p (env_name e)
       then (case environ_find src n of Some e \<Rightarrow> if m p n then Some (updated e) else environ_find dst n
             | None \<Rightarrow> environ_find dst n)
       else if n = p then Some \<lparr>env_name = p, env_value = None, env_hidden = kept_hidden dst p\<rparr>
       else environ_find dst n)"
    using update_pattern_spec [OF assms(1) Cons.prems, of m p n] by blast+
  note ih = Cons.IH [OF d]
  have in_src: "m p n \<Longrightarrow> environ_find src n = Some e \<Longrightarrow> \<exists>e \<in> set src. m p (env_name e)" for e
    using find_in_set [of src n e] find_name [of src n e] by auto
  have 1: "environ_find (fold (update_pattern m src) (p # pats) dst) n = Some (updated e)"
    if "environ_find src n = Some e" "m n n" "(\<exists>p \<in> set (p # pats). m p n) \<or> environ_find dst n = Some (updated e)" for e
  proof -
    have "(\<exists>p \<in> set pats. m p n) \<or> environ_find ?d n = Some (updated e)"
      using that f in_src [OF _ that(1)] by auto
    then show ?thesis using ih that(1,2) by auto
  qed
  have 2: "environ_find (fold (update_pattern m src) (p # pats) dst) n = environ_find dst n"
    if "n \<notin> set (p # pats)" "environ_find src n = None \<or> (\<forall>p \<in> set (p # pats). \<not> m p n)"
  proof -
    have "environ_find ?d n = environ_find dst n" using that f by (auto split: option.splits)
    then show ?thesis using ih that by auto
  qed
  have 3: "\<exists>h. environ_find (fold (update_pattern m src) (p # pats) dst) n = Some \<lparr>env_name = n, env_value = None, env_hidden = h\<rparr>"
    if "environ_find src n = None" "\<forall>e \<in> set src. \<not> m n (env_name e)"
      "n \<in> set (p # pats) \<or> (\<exists>h. environ_find dst n = Some \<lparr>env_name = n, env_value = None, env_hidden = h\<rparr>)"
  proof -
    have "n \<in> set pats \<or> (\<exists>h. environ_find ?d n = Some \<lparr>env_name = n, env_value = None, env_hidden = h\<rparr>)"
      using that f by auto
    then show ?thesis using ih that(1,2) by auto
  qed
  show ?case using ih 1 2 3 by auto
qed auto

text \<open>C14: \<open>environ_update\<close> brings a session up to date with a client: a variable of the client that a
  pattern matches gets the client's value, a name on the list that the client does not have is removed,
  and every other variable stays.  A pattern without special characters matches itself.\<close>

theorem environ_update_follows:
  assumes "ordered env_name src" "ordered env_name dst" "fnmatch n n"
  shows "ordered env_name (environ_update fnmatch (Some pats) src dst) \<and>
    ((\<exists>p \<in> set pats. fnmatch p n) \<longrightarrow> (\<forall>e. environ_find src n = Some e \<longrightarrow>
       environ_find (environ_update fnmatch (Some pats) src dst) n =
         Some \<lparr>env_name = n, env_value = Some (c_string (display_cstr (env_value e))), env_hidden = False\<rparr>)) \<and>
    (n \<notin> set pats \<and> (environ_find src n = None \<or> (\<forall>p \<in> set pats. \<not> fnmatch p n)) \<longrightarrow>
       environ_find (environ_update fnmatch (Some pats) src dst) n = environ_find dst n) \<and>
    (n \<in> set pats \<and> (\<forall>e \<in> set src. \<not> fnmatch n (env_name e)) \<longrightarrow>
       (\<exists>h. environ_find (environ_update fnmatch (Some pats) src dst) n = Some \<lparr>env_name = n, env_value = None, env_hidden = h\<rparr>))"
proof -
  have "environ_find src n = None" if "\<forall>e \<in> set src. \<not> fnmatch n (env_name e)"
    using that find_in_set [of src n] find_name [of src n] assms(3) by (cases "environ_find src n") auto
  moreover have "updated e = \<lparr>env_name = n, env_value = Some (c_string (display_cstr (env_value e))), env_hidden = False\<rparr>"
    if "environ_find src n = Some e" for e using find_name [OF that] by (simp add: updated_def)
  ultimately show ?thesis
    using update_patterns_spec [OF assms(1,2), where m = fnmatch and n = n and pats = pats] assms(3) by (simp add: environ_update_def)
qed

theorem environ_update_follows_witness:
  "environ_find (environ_update (=) (Some [''DISPLAY'', ''SSH_AUTH_SOCK'']) (environ_set [] ''DISPLAY'' False '':0'') []) ''DISPLAY'' =
     Some \<lparr>env_name = ''DISPLAY'', env_value = Some '':0'', env_hidden = False\<rparr>"
proof -
  have "from_utf8 '':0''" "c_string '':0'' = '':0''" by code_simp+
  then show ?thesis
    using environ_update_follows [of "environ_set [] ''DISPLAY'' False '':0''" "[]" "(=)" "''DISPLAY''" "[''DISPLAY'', ''SSH_AUTH_SOCK'']"]
    by simp
qed

section \<open>What a child sees\<close>

definition visible_value :: "environ_entry option \<Rightarrow> string option" where
  "visible_value d = (case d of None \<Rightarrow> None | Some e \<Rightarrow> if env_hidden e then None else env_value e)"

lemma map_of_push:
  "ordered env_name env \<Longrightarrow> map_of (environ_push env) n = (if n = [] then None else visible_value (environ_find env n))"
proof (induction env)
  case Nil
  then show ?case by (simp add: environ_push_def environ_find_def rb_find_by_def visible_value_def)
next
  case (Cons e env)
  have "environ_find env n = None" if "n = env_name e"
    using Cons.prems that by (auto simp: environ_find_def rb_find_None)
  then show ?case
    using Cons by (auto simp: environ_push_def find_Cons visible_value_def split: option.splits if_splits)
qed

lemma for_session_ordered:
  assumes "ordered env_name global" "ordered env_name senv"
  shows "ordered env_name (environ_for_session cfg global (Some (sid, senv)) no_term)"
  using environ_copy_spec [OF assms(1), of environ_create] environ_copy_spec [OF assms(2), of "environ_copy global environ_create"]
  by (simp add: environ_for_session_def environ_create_def Let_def)

text \<open>What a session hands on: its own variables over the global ones, hidden and removed ones left
  out.\<close>

definition inherited :: "environ \<Rightarrow> environ \<Rightarrow> string \<Rightarrow> string option" where
  "inherited global senv n =
     (case environ_find senv n of
        Some e \<Rightarrow> if env_hidden e then None else map_option passed (env_value e)
      | None \<Rightarrow> (case environ_find global n of
                   Some e \<Rightarrow> if env_hidden e then None else map_option passed (env_value e)
                 | None \<Rightarrow> None))"

lemma visible_copied:
  assumes "c_env src" "environ_find src n = Some e"
  shows "visible_value (Some (copied e d)) = (if env_hidden e then None else map_option passed (env_value e))"
  using copied_value [OF assms] by (cases "env_value e") (auto simp: visible_value_def copied_def)

lemma inherited_copies:
  assumes "ordered env_name global" "ordered env_name senv" "c_env global" "c_env senv"
  shows "visible_value (environ_find (environ_copy senv (environ_copy global environ_create)) n) = inherited global senv n"
proof -
  have e: "ordered env_name environ_create" "environ_find environ_create n = None"
    by (simp_all add: environ_create_def environ_find_def rb_find_by_def)
  have c: "ordered env_name (environ_copy global environ_create)" "visible_value (environ_find (environ_copy global environ_create) n) =
      (case environ_find global n of Some e \<Rightarrow> if env_hidden e then None else map_option passed (env_value e) | None \<Rightarrow> None)"
    using environ_copy_spec [OF assms(1) e(1), of n] visible_copied [OF assms(3), of n] e(2)
    by (auto simp: visible_value_def split: option.splits)
  show ?thesis
    using environ_copy_spec [OF assms(2) c(1), of n] visible_copied [OF assms(4), of n] c(2)
    by (auto simp: inherited_def split: option.splits)
qed

lemma show_int_plain: "CHR 0x00 \<notin> set (show_int n)"
proof
  assume "CHR 0x00 \<in> set (show_int n)"
  then have "digit (CHR 0x00)"
    using show_nat_digits [of "nat n"] show_nat_digits [of "nat (- n)"] by (auto simp: show_int_def list_all_iff split: if_splits)
  then show False by (simp add: digit_def)
qed

text \<open>What a child sees of each name, the ones that the server sets itself included.\<close>

definition shown_text :: "string option \<Rightarrow> string" where
  "shown_text s = (case s of None \<Rightarrow> ''(null)'' | Some v \<Rightarrow> passed v)"

definition child_value :: "environ_config \<Rightarrow> environ \<Rightarrow> u32 \<Rightarrow> environ \<Rightarrow> bool \<Rightarrow> string \<Rightarrow> string option" where
  "child_value cfg global sid senv no_term n =
     (if n = [] then None
      else if n = ''TMUX''
      then Some (shown_text (socket_path cfg) @ '','' @ show_int (process_id cfg) @ '','' @ show_int (i32 sid))
      else if systemd cfg \<and> n \<in> {''LISTEN_PID'', ''LISTEN_FDS'', ''LISTEN_FDNAMES''} then None
      else if \<not> no_term \<and> n = ''TERM'' then Some (shown_text (default_terminal cfg))
      else if \<not> no_term \<and> n = ''TERM_PROGRAM'' then Some ''tmux''
      else if \<not> no_term \<and> n = ''TERM_PROGRAM_VERSION'' then Some (version cfg)
      else if \<not> no_term \<and> n = ''COLORTERM'' then Some ''truecolor''
      else inherited global senv n)"

definition c_config :: "environ_config \<Rightarrow> bool" where
  "c_config cfg \<longleftrightarrow> (\<forall>v. default_terminal cfg = Some v \<longrightarrow> c_text v) \<and> c_text (version cfg) \<and>
     (\<forall>v. socket_path cfg = Some v \<longrightarrow> c_text v)"

lemma shown_display:
  assumes "\<And>v. s = Some v \<Longrightarrow> c_text v"
  shows "c_string (display_cstr s) = shown_text s" "CHR 0x00 \<notin> set (display_cstr s)"
proof -
  show n: "CHR 0x00 \<notin> set (display_cstr s)"
    using assms by (auto simp: display_cstr_def c_text_def split: option.splits if_splits)
  show "c_string (display_cstr s) = shown_text s"
    using c_string_id [OF n] by (cases s) (auto simp: display_cstr_def shown_text_def passed_def)
qed

lemma visible_set:
  assumes "ordered env_name env"
  shows "visible_value (environ_find (environ_set env k False v) n) =
    (if n = k then Some (c_string v) else visible_value (environ_find env n))"
  using find_set [OF assms] by (simp add: visible_value_def)

lemma visible_clear:
  assumes "ordered env_name env"
  shows "visible_value (environ_find (environ_clear env k) n) = (if n = k then None else visible_value (environ_find env n))"
  using find_clear [OF assms] by (simp add: visible_value_def)



section \<open>Printing for a shell\<close>

text \<open>What a POSIX shell reads after an opening double quote: the text up to the closing one and the rest
  of the line.  Text that the shell would expand is no result.\<close>

fun sh_dquote :: "string \<Rightarrow> (string \<times> string) option" where
  "sh_dquote [] = None"
| "sh_dquote (c # s) =
     (if c = CHR 0x22 then Some ([], s)
      else if c = CHR ''$'' \<or> c = CHR 0x60 then None
      else if c = CHR 0x5C
      then (case s of
              [] \<Rightarrow> None
            | d # t \<Rightarrow>
                if d \<in> {CHR ''$'', CHR 0x60, CHR 0x22, CHR 0x5C} then map_option (apfst (Cons d)) (sh_dquote t)
                else if d = CHR 0x0A then sh_dquote t
                else map_option (apfst (\<lambda>x. c # d # x)) (sh_dquote t))
      else map_option (apfst (Cons c)) (sh_dquote s))"

lemma escape_read: "sh_dquote (cmd_show_environment_escape v @ CHR 0x22 # rest) = Some (v, rest)"
  by (induction v) (auto simp: cmd_show_environment_escape_def escaped_char_def)

lemma escape_utf8: "from_utf8 v \<Longrightarrow> from_utf8 (cmd_show_environment_escape v)"
proof -
  have high: "\<not> escaped_char c" if "128 \<le> byte c" for c using that by (auto simp: escaped_char_def)
  have esc: "cmd_show_environment_escape (c # s) = (if escaped_char c then [CHR 0x5C, c] else [c]) @ cmd_show_environment_escape s"
    for c s by (simp add: cmd_show_environment_escape_def)
  have sec: "second_ok a b \<Longrightarrow> 128 \<le> byte b" for a b by (auto simp: second_ok_def cont_byte_def split: if_splits)
  show "from_utf8 v \<Longrightarrow> from_utf8 (cmd_show_environment_escape v)"
  proof (induction v rule: from_utf8.induct)
    case 1
    then show ?case by (simp add: cmd_show_environment_escape_def)
  next
    case (2 a s)
    consider (one) "byte a < 128" | (two) "194 \<le> byte a" "byte a < 224" | (three) "224 \<le> byte a" "byte a < 240"
      | (four) "240 \<le> byte a" "byte a < 245"
      using 2(5) by (fastforce split: if_splits)
    then show ?case
    proof cases
      case one
      then show ?thesis using 2 by (simp add: esc)
    next
      case two
      then obtain b s1 where "s = b # s1" "cont_byte b" using 2(5) by (auto split: list.splits)
      then show ?thesis using two 2 high [of a] high [of b] by (simp add: esc cont_byte_def)
    next
      case three
      then obtain b c s2 where "s = b # c # s2" "second_ok a b" "cont_byte c" using 2(5) by (auto split: list.splits)
      then show ?thesis using three 2 high [of a] high [of b] high [of c] sec [of a b] by (simp add: esc cont_byte_def)
    next
      case four
      then obtain b c d s3 where "s = b # c # d # s3" "second_ok a b" "cont_byte c" "cont_byte d"
        using 2(5) by (auto split: list.splits)
      then show ?thesis
        using four 2 high [of a] high [of b] high [of c] high [of d] sec [of a b] by (simp add: esc cont_byte_def)
    qed
  qed
qed

lemma escape_high:
  assumes "cmd_show_environment_escape s = b # t" "128 \<le> byte b"
  shows "\<exists>s1. s = b # s1 \<and> t = cmd_show_environment_escape s1"
proof (cases s)
  case (Cons c s1)
  have "\<not> escaped_char c" using assms Cons by (auto simp: cmd_show_environment_escape_def)
  then show ?thesis using assms(1) Cons by (simp add: cmd_show_environment_escape_def)
qed (use assms in \<open>simp add: cmd_show_environment_escape_def\<close>)

lemma escape_not_utf8: "from_utf8 (cmd_show_environment_escape v) \<Longrightarrow> from_utf8 v"
proof (induction v rule: from_utf8.induct)
  case (2 a s)
  let ?e = cmd_show_environment_escape
  show ?case
  proof (cases "byte a < 128")
    case True
    then show ?thesis using 2 by (auto simp: cmd_show_environment_escape_def split: if_splits)
  next
    case False
    then have "\<not> escaped_char a" by (auto simp: escaped_char_def)
    then have u: "from_utf8 (a # ?e s)" using 2(5) by (simp add: cmd_show_environment_escape_def)
    have cont: "cont_byte b \<Longrightarrow> 128 \<le> byte b" and sec: "second_ok a b \<Longrightarrow> 128 \<le> byte b" for b
      by (auto simp: cont_byte_def second_ok_def split: if_splits)
    consider (two) "194 \<le> byte a" "byte a < 224" | (three) "224 \<le> byte a" "byte a < 240" | (four) "240 \<le> byte a" "byte a < 245"
      using u False by (fastforce split: if_splits)
    then show ?thesis
    proof cases
      case two
      then obtain b t where "?e s = b # t" "cont_byte b" "from_utf8 t" using u False by (auto split: list.splits)
      then show ?thesis using two False 2(2) escape_high [of s b t] cont by auto
    next
      case three
      then obtain b c t where t: "?e s = b # c # t" "second_ok a b" "cont_byte c" "from_utf8 t"
        using u False by (auto split: list.splits)
      then obtain s1 where "s = b # s1" "c # t = ?e s1" using escape_high [of s b "c # t"] sec by auto
      then show ?thesis using three False 2(3) t escape_high [of s1 c t] cont by auto
    next
      case four
      then obtain b c d t where t: "?e s = b # c # d # t" "second_ok a b" "cont_byte c" "cont_byte d" "from_utf8 t"
        using u False by (auto split: list.splits)
      then obtain s1 where s1: "s = b # s1" "c # d # t = ?e s1" using escape_high [of s b "c # d # t"] sec by auto
      then obtain s2 where "s1 = c # s2" "d # t = ?e s2" using escape_high [of s1 c "d # t"] t cont by auto
      then show ?thesis using four False 2(4) t s1 escape_high [of s2 d t] cont by auto
    qed
  qed
qed simp

lemma escape_display:
  "display_cstr (Some (cmd_show_environment_escape v)) = cmd_show_environment_escape (passed v)"
proof (cases "from_utf8 v")
  case True
  then show ?thesis using escape_utf8 [OF True] by (simp add: passed_def)
next
  case False
  have "cmd_show_environment_escape ''%s-invalid-utf8'' = ''%s-invalid-utf8''" by code_simp
  then show ?thesis using False escape_not_utf8 [of v] by (auto simp: passed_def display_cstr_def)
qed

text \<open>C16: the line that \<open>show-environment -s\<close> prints for a variable assigns it, to a shell that reads the
  line, exactly its value, whatever special characters the value has; a name or a value that is not
  UTF-8 is replaced by \<open>%s-invalid-utf8\<close> on the way.\<close>

theorem show_environment_shell:
  assumes "env_value e = Some v" "args_has a (CHR ''s'')" "args_has a (CHR ''h'') = env_hidden e"
  shows "let valid = (\<lambda>s. if from_utf8 s then s else ''%s-invalid-utf8'') in
    \<exists>line. cmd_show_environment_print a e = [Printed (valid (env_name e) @ ''='' @ CHR 0x22 # line)] \<and>
      sh_dquote line = Some (valid v, ''; export '' @ valid (env_name e) @ '';'')"
proof -
  have "display_cstr (Some (env_name e)) = passed (env_name e)" by (simp add: display_cstr_def passed_def)
  then show ?thesis
    using assms escape_read [of "passed v" "''; export '' @ passed (env_name e) @ '';''"] escape_display [of v]
    by (auto simp: cmd_show_environment_print_def Let_def passed_def [symmetric])
qed

definition show_args :: "unit args" where
  "show_args = args_set args_create (CHR ''s'') None 0"

theorem show_environment_shell_witness:
  "\<exists>line. cmd_show_environment_print show_args \<lparr>env_name = ''PS1'', env_value = Some ''$ '', env_hidden = False\<rparr> =
       [Printed (''PS1'' @ ''='' @ CHR 0x22 # line)] \<and> sh_dquote line = Some (''$ '', ''; export PS1;'')"
proof -
  have "from_utf8 ''$ ''" "from_utf8 ''PS1''" "args_has show_args (CHR ''s'')" "\<not> args_has show_args (CHR ''h'')" by code_simp+
  then show ?thesis
    using show_environment_shell [of "\<lparr>env_name = ''PS1'', env_value = Some ''$ '', env_hidden = False\<rparr>" "''$ ''" show_args]
    by (simp add: Let_def)
qed

end
