(* ===== verification/Server_Acl.thy ===== *)
theory Server_Acl
  imports Arguments "HOL-Library.Product_Lexorder"
begin

text \<open>
  The access list of the server (\<open>server_acl.rs\<close>) and the command \<open>server-access\<close>
  (\<open>cmd_server_access.rs\<close>): entries for users and groups, each writable or read-only, and the flags
  of the connected clients that follow from them.  What else writes these flags is here too: the
  accepting of a client (\<open>server.rs\<close>), the identify messages and \<open>server_client_set_flags\<close>
  (\<open>server_client.rs\<close>), \<open>attach-session -r\<close> and \<open>-f\<close>, and \<open>switch-client -r\<close>.
  The identity of the peer of a client is part of the client; the password and group databases, the
  user of the server and the format expansion are parameters.  What control clients keep beside their
  flags (\<open>pause_age\<close>, the offsets of \<open>control.rs\<close>) is not modelled.
\<close>

section \<open>State\<close>

record server_acl_user =
  acl_id :: u32
  acl_readonly :: bool
  acl_is_group :: bool

text \<open>The flags of a client that the code below sets, clears or tests.\<close>

datatype client_flag = CLIENT_EXIT | CLIENT_READONLY | CLIENT_IGNORESIZE | CLIENT_ACTIVEPANE |
  CLIENT_NO_DETACH_ON_DESTROY | CLIENT_CONTROL | CLIENT_CONTROL_PAUSEAFTER | CLIENT_CONTROL_NOOUTPUT |
  CLIENT_CONTROL_WAITEXIT

record acl_client =
  peer_uid :: u32
  peer_gid :: u32
  c_exit_message :: "string option"
  c_flags :: "client_flag set"

definition c_exit :: "acl_client \<Rightarrow> bool" where
  "c_exit c \<longleftrightarrow> CLIENT_EXIT \<in> c_flags c"

definition c_readonly :: "acl_client \<Rightarrow> bool" where
  "c_readonly c \<longleftrightarrow> CLIENT_READONLY \<in> c_flags c"

definition set_flag :: "client_flag set \<Rightarrow> acl_client \<Rightarrow> acl_client" where
  "set_flag fs c = c\<lparr>c_flags := c_flags c \<union> fs\<rparr>"

definition clear_flag :: "client_flag set \<Rightarrow> acl_client \<Rightarrow> acl_client" where
  "clear_flag fs c = c\<lparr>c_flags := c_flags c - fs\<rparr>"

record server_acl =
  acl_entries :: "server_acl_user list"
  acl_clients :: "acl_client list"

text \<open>\<open>server_acl_cmp\<close>: users in front of groups, then by number.\<close>

definition acl_key :: "server_acl_user \<Rightarrow> bool \<times> u32" where
  "acl_key e = (acl_is_group e, acl_id e)"

definition NO_ID :: u32 where
  "NO_ID = 4294967295"

section \<open>Operations\<close>

definition server_acl_user_find :: "server_acl_user list \<Rightarrow> u32 \<Rightarrow> bool \<Rightarrow> server_acl_user option" where
  "server_acl_user_find es i grp = rb_find_by acl_key (grp, i) es"

definition server_acl_check :: "server_acl_user list \<Rightarrow> acl_client \<Rightarrow> server_acl_user option" where
  "server_acl_check es c =
     (if peer_uid c = NO_ID then None
      else (case server_acl_user_find es (peer_uid c) False of
              Some e \<Rightarrow> Some e
            | None \<Rightarrow> if peer_gid c = NO_ID then None else server_acl_user_find es (peer_gid c) True))"

definition update_client :: "server_acl_user list \<Rightarrow> acl_client \<Rightarrow> acl_client" where
  "update_client es c =
     (case server_acl_check es c of
        None \<Rightarrow> set_flag {CLIENT_EXIT} (c\<lparr>c_exit_message := Some ''access not allowed''\<rparr>)
      | Some e \<Rightarrow> if acl_readonly e then set_flag {CLIENT_READONLY} c else clear_flag {CLIENT_READONLY} c)"

definition server_acl_update :: "server_acl \<Rightarrow> server_acl" where
  "server_acl_update s = s\<lparr>acl_clients := map (update_client (acl_entries s)) (acl_clients s)\<rparr>"

definition server_acl_user_allow :: "server_acl \<Rightarrow> u32 \<Rightarrow> bool \<Rightarrow> server_acl" where
  "server_acl_user_allow s i grp =
     (case server_acl_user_find (acl_entries s) i grp of
        None \<Rightarrow> s\<lparr>acl_entries := rb_insert acl_key \<lparr>acl_id = i, acl_readonly = False, acl_is_group = grp\<rparr> (acl_entries s)\<rparr>
      | Some _ \<Rightarrow> s)"

definition server_acl_user_deny :: "server_acl \<Rightarrow> u32 \<Rightarrow> bool \<Rightarrow> server_acl" where
  "server_acl_user_deny s i grp =
     (case server_acl_user_find (acl_entries s) i grp of
        None \<Rightarrow> s
      | Some e \<Rightarrow> server_acl_update (s\<lparr>acl_entries := rb_remove e (acl_entries s)\<rparr>))"

definition set_readonly :: "bool \<Rightarrow> server_acl \<Rightarrow> u32 \<Rightarrow> bool \<Rightarrow> server_acl" where
  "set_readonly ro s i grp =
     (case server_acl_user_find (acl_entries s) i grp of
        None \<Rightarrow> s
      | Some _ \<Rightarrow> server_acl_update (s\<lparr>acl_entries := rb_modify acl_key (grp, i) (\<lambda>e. e\<lparr>acl_readonly := ro\<rparr>) (acl_entries s)\<rparr>))"

definition server_acl_user_allow_write :: "server_acl \<Rightarrow> u32 \<Rightarrow> bool \<Rightarrow> server_acl" where
  "server_acl_user_allow_write = set_readonly False"

definition server_acl_user_deny_write :: "server_acl \<Rightarrow> u32 \<Rightarrow> bool \<Rightarrow> server_acl" where
  "server_acl_user_deny_write = set_readonly True"

text \<open>Joining gives the client as it goes on, or nothing when it has no entry.\<close>

definition server_acl_join :: "server_acl \<Rightarrow> acl_client \<Rightarrow> acl_client option" where
  "server_acl_join s c =
     (case server_acl_check (acl_entries s) c of
        None \<Rightarrow> None
      | Some e \<Rightarrow> Some (if acl_readonly e then set_flag {CLIENT_READONLY} c else c))"

text \<open>\<open>server_accept\<close>: a client without an entry stays in the list, to be told to exit.\<close>

definition server_accept :: "server_acl \<Rightarrow> acl_client \<Rightarrow> server_acl" where
  "server_accept s c =
     s\<lparr>acl_clients := acl_clients s @
        [case server_acl_join s c of
           Some c' \<Rightarrow> c'
         | None \<Rightarrow> set_flag {CLIENT_EXIT} (c\<lparr>c_exit_message := Some ''access not allowed''\<rparr>)]\<rparr>"

definition server_acl_init :: "u32 \<Rightarrow> acl_client list \<Rightarrow> server_acl" where
  "server_acl_init getuid clients =
     (let s0 = \<lparr>acl_entries = [], acl_clients = clients\<rparr>;
          s1 = (if getuid \<noteq> 0 then server_acl_user_allow s0 0 False else s0)
      in server_acl_user_allow s1 getuid False)"

definition display_entry :: "(u32 \<Rightarrow> string option) \<Rightarrow> (u32 \<Rightarrow> string option) \<Rightarrow> server_acl_user \<Rightarrow> cmd_output list" where
  "display_entry getpwuid getgrgid e =
     (if \<not> acl_is_group e \<and> acl_id e = 0 then []
      else (let name = (case (if acl_is_group e then getgrgid (acl_id e) else getpwuid (acl_id e)) of
                          None \<Rightarrow> ''unknown'' | Some n \<Rightarrow> display_cstr (Some n));
                ty = (if acl_is_group e then CHR ''G'' else CHR ''U'')
            in [Printed (name @ '' ('' @ [ty] @ '','' @ (if acl_readonly e then ''R)'' else ''W)''))]))"

definition server_acl_display :: "(u32 \<Rightarrow> string option) \<Rightarrow> (u32 \<Rightarrow> string option) \<Rightarrow> server_acl \<Rightarrow> cmd_output list" where
  "server_acl_display getpwuid getgrgid s = concat (map (display_entry getpwuid getgrgid) (acl_entries s))"

section \<open>The command\<close>

record acl_system =
  getuid :: u32
  getpwnam :: "string \<Rightarrow> (u32 \<times> string) option"
  getgrnam :: "string \<Rightarrow> (u32 \<times> string) option"
  getpwuid :: "u32 \<Rightarrow> string option"
  getgrgid :: "u32 \<Rightarrow> string option"
  expand :: "string \<Rightarrow> string"

definition cmd_server_access_deny :: "server_acl \<Rightarrow> u32 \<Rightarrow> bool \<Rightarrow> string \<Rightarrow> string \<Rightarrow> cmd_retval \<times> cmd_output list \<times> server_acl" where
  "cmd_server_access_deny s i grp ty name =
     (if server_acl_user_find (acl_entries s) i grp = None
      then (CMD_RETURN_ERROR, [Errored (ty @ '' '' @ display_cstr (Some name) @ '' not found'')], s)
      else (CMD_RETURN_NORMAL, [], server_acl_user_deny s i grp))"

definition change_access :: "'c args \<Rightarrow> server_acl \<Rightarrow> u32 \<Rightarrow> bool \<Rightarrow> string \<Rightarrow> string \<Rightarrow>
    cmd_retval \<times> cmd_output list \<times> server_acl" where
  "change_access a s i grp ty name =
     (let found = (\<lambda>s. server_acl_user_find (acl_entries s) i grp \<noteq> None);
          not_found = (CMD_RETURN_ERROR, [Errored (ty @ '' '' @ display_cstr (Some name) @ '' not found'')])
      in if args_has a (CHR ''a'') \<and> found s
         then (CMD_RETURN_ERROR, [Errored (ty @ '' '' @ display_cstr (Some name) @ '' is already added'')], s)
         else (let s1 = (if args_has a (CHR ''a'') then server_acl_user_allow s i grp
                         else if (args_has a (CHR ''r'') \<or> args_has a (CHR ''w'')) \<and> \<not> found s
                         then server_acl_user_allow s i grp
                         else s)
               in if args_has a (CHR ''w'')
                  then (if \<not> found s1 then (fst not_found, snd not_found, s1)
                        else (CMD_RETURN_NORMAL, [], server_acl_user_allow_write s1 i grp))
                  else if args_has a (CHR ''r'')
                  then (if \<not> found s1 then (fst not_found, snd not_found, s1)
                        else (CMD_RETURN_NORMAL, [], server_acl_user_deny_write s1 i grp))
                  else (CMD_RETURN_NORMAL, [], s1)))"

definition cmd_server_access_exec :: "acl_system \<Rightarrow> ('c \<Rightarrow> string) \<Rightarrow> 'c args \<Rightarrow> server_acl \<Rightarrow>
    cmd_retval \<times> cmd_output list \<times> server_acl" where
  "cmd_server_access_exec sys cmd_list_print a s =
     (let fail = (\<lambda>msg. (CMD_RETURN_ERROR, [Errored msg], s)) in
      if args_has a (CHR ''l'') then (CMD_RETURN_NORMAL, server_acl_display (getpwuid sys) (getgrgid sys) s, s)
      else if args_count a = 0 then fail ''missing user or group argument''
      else (let arg = expand sys (the (args_string cmd_list_print a 0));
                grp = args_has a (CHR ''g'');
                ty = (if grp then ''group'' else ''user'')
            in case (if grp then getgrnam sys arg else getpwnam sys arg) of
                 None \<Rightarrow> fail (''unknown '' @ ty @ '': '' @ display_cstr (Some arg))
               | Some (i, name) \<Rightarrow>
                   if \<not> grp \<and> (i = 0 \<or> i = getuid sys)
                   then fail (display_cstr (Some name) @ '' owns the server, can't change access'')
                   else if args_has a (CHR ''a'') \<and> args_has a (CHR ''d'') then fail ''-a and -d cannot be used together''
                   else if args_has a (CHR ''w'') \<and> args_has a (CHR ''r'') then fail ''-r and -w cannot be used together''
                   else if args_has a (CHR ''d'') then cmd_server_access_deny s i grp ty name
                   else change_access a s i grp ty name))"

section \<open>Flags that clients ask for\<close>

text \<open>\<open>sscanf (next, "pause-after=%u")\<close> finds a number: blanks, a sign and at least one digit after the
  equals sign; what follows is ignored.\<close>

definition is_blank :: "char \<Rightarrow> bool" where
  "is_blank ch \<longleftrightarrow> ch \<in> {CHR '' '', CHR 0x09, CHR 0x0A, CHR 0x0B, CHR 0x0C, CHR 0x0D}"

definition starts_digit :: "string \<Rightarrow> bool" where
  "starts_digit s \<longleftrightarrow> s \<noteq> [] \<and> hd s \<in> set ''0123456789''"

definition scan_unsigned :: "string \<Rightarrow> bool" where
  "scan_unsigned s =
     (let t = dropWhile is_blank s
      in starts_digit (if t \<noteq> [] \<and> hd t \<in> {CHR ''+'', CHR ''-''} then tl t else t))"

definition server_client_control_flags :: "string \<Rightarrow> client_flag set" where
  "server_client_control_flags next_flag =
     (if next_flag = ''pause-after'' then {CLIENT_CONTROL_PAUSEAFTER}
      else if take 12 next_flag = ''pause-after='' \<and> scan_unsigned (drop 12 next_flag)
      then {CLIENT_CONTROL_PAUSEAFTER}
      else if next_flag = ''no-output'' then {CLIENT_CONTROL_NOOUTPUT}
      else if next_flag = ''wait-exit'' then {CLIENT_CONTROL_WAITEXIT}
      else {})"

text \<open>One round of the loop of \<open>server_client_set_flags\<close>.  Read-only is never cleared this way: for a
  read-only client it is taken out of what is cleared, and any other client does not have it.\<close>

definition set_client_flag :: "acl_client \<Rightarrow> string \<Rightarrow> acl_client" where
  "set_client_flag c token =
     (let neg = (token \<noteq> [] \<and> hd token = CHR ''!'');
          name = (if neg then tl token else token);
          flag0 = (if CLIENT_CONTROL \<in> c_flags c then server_client_control_flags name else {});
          flag = (if name = ''read-only'' then {CLIENT_READONLY}
                  else if name = ''ignore-size'' then {CLIENT_IGNORESIZE}
                  else if name = ''active-pane'' then {CLIENT_ACTIVEPANE}
                  else if name = ''no-detach-on-destroy'' then {CLIENT_NO_DETACH_ON_DESTROY}
                  else flag0)
      in if flag = {} then c
         else if neg
         then clear_flag (if CLIENT_READONLY \<in> c_flags c then flag - {CLIENT_READONLY} else flag) c
         else set_flag flag c)"

text \<open>The pieces that \<open>strsep\<close> finds between commas, empty ones included.\<close>

fun comma_tokens :: "string \<Rightarrow> string list" where
  "comma_tokens [] = [[]]"
| "comma_tokens (ch # s) =
     (if ch = CHR '','' then [] # comma_tokens s
      else (case comma_tokens s of [] \<Rightarrow> [[ch]] | t # ts \<Rightarrow> (ch # t) # ts))"

definition server_client_set_flags :: "acl_client \<Rightarrow> string \<Rightarrow> acl_client" where
  "server_client_set_flags c flags = fold (\<lambda>token c. set_client_flag c token) (comma_tokens flags) c"

text \<open>What \<open>attach-session\<close> does to the flags of its client with \<open>-f\<close> and \<open>-r\<close>.\<close>

definition attach_flags :: "u32 \<Rightarrow> string option \<Rightarrow> bool \<Rightarrow> acl_client \<Rightarrow> cmd_retval \<times> cmd_output list \<times> acl_client" where
  "attach_flags server_uid fflag rflag c =
     (let c1 = (case fflag of None \<Rightarrow> c | Some flags \<Rightarrow> server_client_set_flags c flags)
      in if \<not> rflag then (CMD_RETURN_NORMAL, [], c1)
         else if CLIENT_READONLY \<in> c_flags c1 \<and> peer_uid c1 \<noteq> server_uid
         then (CMD_RETURN_ERROR, [Errored ''client is read-only''], c1)
         else (CMD_RETURN_NORMAL, [], set_flag {CLIENT_READONLY, CLIENT_IGNORESIZE} c1))"

text \<open>The toggle of \<open>switch-client -r\<close>.  The uid is that of the calling client, the flag that of the
  target \<open>tc\<close>; a command without a calling client dereferences a null pointer (\<^const>\<open>None\<close>).\<close>

definition switch_readonly :: "u32 \<Rightarrow> u32 option \<Rightarrow> acl_client \<Rightarrow> (cmd_retval \<times> cmd_output list \<times> acl_client) option" where
  "switch_readonly server_uid caller tc =
     (if CLIENT_READONLY \<in> c_flags tc
      then (case caller of
              None \<Rightarrow> None
            | Some uid \<Rightarrow>
                if uid \<noteq> server_uid then Some (CMD_RETURN_ERROR, [Errored ''client is read-only''], tc)
                else Some (CMD_RETURN_NORMAL, [], clear_flag {CLIENT_READONLY, CLIENT_IGNORESIZE} tc))
      else Some (CMD_RETURN_NORMAL, [], set_flag {CLIENT_READONLY, CLIENT_IGNORESIZE} tc))"

section \<open>The running server\<close>

text \<open>Everything that writes the access list or the flags of a client: clients are accepted and lost, send
  flags when they identify themselves, are told to exit, and run \<open>server-access\<close>,
  \<open>attach-session\<close>, \<open>refresh-client -f\<close> or \<open>new-session -f\<close> and \<open>switch-client -r\<close>.  Clients are named by
  their position in the list.\<close>

datatype acl_event =
  Accept acl_client
| Lost nat
| Identify nat "client_flag set"
| Told_To_Exit nat "string option"
| Access "unit args"
| Attach nat "string option" bool
| Set_Flags nat string
| Switch "u32 option" nat

definition on_client :: "nat \<Rightarrow> (acl_client \<Rightarrow> acl_client) \<Rightarrow> server_acl \<Rightarrow> server_acl" where
  "on_client k f s = (if k < length (acl_clients s) then s\<lparr>acl_clients := (acl_clients s)[k := f (acl_clients s ! k)]\<rparr> else s)"

fun acl_step :: "acl_system \<Rightarrow> acl_event \<Rightarrow> server_acl \<Rightarrow> server_acl option" where
  "acl_step sys (Accept c) s = Some (server_accept s c)"
| "acl_step sys (Lost k) s = Some (s\<lparr>acl_clients := take k (acl_clients s) @ drop (Suc k) (acl_clients s)\<rparr>)"
| "acl_step sys (Identify k fs) s = Some (on_client k (set_flag fs) s)"
| "acl_step sys (Told_To_Exit k msg) s = Some (on_client k (\<lambda>c. set_flag {CLIENT_EXIT} (c\<lparr>c_exit_message := msg\<rparr>)) s)"
| "acl_step sys (Access a) s = Some (snd (snd (cmd_server_access_exec sys (\<lambda>_::unit. []) a s)))"
| "acl_step sys (Attach k fflag rflag) s = Some (on_client k (\<lambda>c. snd (snd (attach_flags (getuid sys) fflag rflag c))) s)"
| "acl_step sys (Set_Flags k flags) s = Some (on_client k (\<lambda>c. server_client_set_flags c flags) s)"
| "acl_step sys (Switch caller k) s =
     (if k < length (acl_clients s)
      then map_option (\<lambda>(_, _, c). on_client k (\<lambda>_. c) s) (switch_readonly (getuid sys) caller (acl_clients s ! k))
      else Some s)"

text \<open>The server starts with the client of its owner that made it, or with none, and \<open>acl_reachable sys es s\<close>
  says that the events \<open>es\<close> lead it to \<open>s\<close>.\<close>

inductive acl_reachable :: "acl_system \<Rightarrow> acl_event list \<Rightarrow> server_acl \<Rightarrow> bool" for sys :: acl_system where
  start: "\<forall>c \<in> set cs. peer_uid c = getuid sys \<Longrightarrow> acl_reachable sys [] (server_acl_init (getuid sys) cs)"
| step: "acl_reachable sys es s \<Longrightarrow> acl_step sys e s = Some s' \<Longrightarrow> acl_reachable sys (es @ [e]) s'"

text \<open>The one event that makes a client writable against its entry: the owner of the server runs
  \<open>switch-client -r\<close>.\<close>

fun owner_switch :: "acl_system \<Rightarrow> acl_event \<Rightarrow> bool" where
  "owner_switch sys (Switch caller k) \<longleftrightarrow> caller = Some (getuid sys)"
| "owner_switch sys _ \<longleftrightarrow> False"

section \<open>Access is enforced\<close>

text \<open>A client that is not told to exit has an entry, and, when \<open>strict\<close>, is read-only if its entry
  is.\<close>

definition enforced :: "bool \<Rightarrow> server_acl_user list \<Rightarrow> acl_client \<Rightarrow> bool" where
  "enforced strict es c \<longleftrightarrow>
     c_exit c \<or> (\<exists>e. server_acl_check es c = Some e \<and> (strict \<longrightarrow> acl_readonly e \<longrightarrow> c_readonly c))"

text \<open>The owner of the server and the superuser keep a writable entry.\<close>

definition owner_kept :: "acl_system \<Rightarrow> server_acl_user list \<Rightarrow> bool" where
  "owner_kept sys es \<longleftrightarrow> (\<forall>i. i = 0 \<or> i = getuid sys \<longrightarrow>
     server_acl_user_find es i False = Some \<lparr>acl_id = i, acl_readonly = False, acl_is_group = False\<rparr>)"

definition acl_inv :: "bool \<Rightarrow> acl_system \<Rightarrow> server_acl \<Rightarrow> bool" where
  "acl_inv strict sys s \<longleftrightarrow> ordered acl_key (acl_entries s) \<and> owner_kept sys (acl_entries s) \<and>
     (\<forall>c \<in> set (acl_clients s). enforced strict (acl_entries s) c)"

lemma acl_key_simps [simp]:
  "acl_key \<lparr>acl_id = i, acl_readonly = ro, acl_is_group = grp\<rparr> = (grp, i)" "acl_key (e\<lparr>acl_readonly := ro\<rparr>) = acl_key e"
  by (simp_all add: acl_key_def)

lemma flag_simps [simp]:
  "c_flags (set_flag fs c) = c_flags c \<union> fs" "c_flags (clear_flag fs c) = c_flags c - fs"
  "peer_uid (set_flag fs c) = peer_uid c" "peer_uid (clear_flag fs c) = peer_uid c"
  "peer_gid (set_flag fs c) = peer_gid c" "peer_gid (clear_flag fs c) = peer_gid c"
  "c_exit_message (set_flag fs c) = c_exit_message c"
  by (simp_all add: set_flag_def clear_flag_def)

lemma flag_reads [simp]:
  "c_exit (set_flag fs c) \<longleftrightarrow> c_exit c \<or> CLIENT_EXIT \<in> fs" "c_readonly (set_flag fs c) \<longleftrightarrow> c_readonly c \<or> CLIENT_READONLY \<in> fs"
  "c_exit (clear_flag fs c) \<longleftrightarrow> c_exit c \<and> CLIENT_EXIT \<notin> fs"
  "c_readonly (clear_flag fs c) \<longleftrightarrow> c_readonly c \<and> CLIENT_READONLY \<notin> fs"
  by (auto simp: c_exit_def c_readonly_def)

text \<open>\<open>follows strict c' c\<close>: the same peer, still told to exit if it was, and still read-only if it was
  when \<open>strict\<close>.\<close>

definition follows :: "bool \<Rightarrow> acl_client \<Rightarrow> acl_client \<Rightarrow> bool" where
  "follows strict c' c \<longleftrightarrow> peer_uid c' = peer_uid c \<and> peer_gid c' = peer_gid c \<and> (c_exit c \<longrightarrow> c_exit c') \<and>
     (strict \<longrightarrow> c_readonly c \<longrightarrow> c_readonly c')"

lemma follows_refl: "follows strict c c"
  by (simp add: follows_def)

lemma follows_set [simp]: "follows strict c d \<Longrightarrow> follows strict (set_flag fs c) d"
  by (simp add: follows_def c_exit_def c_readonly_def)

lemma check_cong: "peer_uid c = peer_uid d \<Longrightarrow> peer_gid c = peer_gid d \<Longrightarrow> server_acl_check es c = server_acl_check es d"
  by (simp add: server_acl_check_def cong: option.case_cong)

lemma check_flags [simp]:
  "server_acl_check es (set_flag fs c) = server_acl_check es c" "server_acl_check es (clear_flag fs c) = server_acl_check es c"
  "server_acl_check es (c\<lparr>c_exit_message := m\<rparr>) = server_acl_check es c"
  by (rule check_cong; simp)+

lemma check_update [simp]: "server_acl_check es (update_client fs c) = server_acl_check es c"
  by (auto simp: update_client_def split: option.splits)

lemma follows_enforced: "follows strict c' c \<Longrightarrow> enforced strict es c \<Longrightarrow> enforced strict es c'"
  using check_cong [of c' c es] by (auto simp: follows_def enforced_def)

lemma update_enforced: "enforced strict es (update_client es c)"
  by (auto simp: enforced_def update_client_def c_exit_def c_readonly_def split: option.splits)

lemma find_allow:
  assumes "ordered acl_key (acl_entries s)"
  shows "ordered acl_key (acl_entries (server_acl_user_allow s i grp)) \<and>
    server_acl_user_find (acl_entries (server_acl_user_allow s i grp)) j g =
      (if j = i \<and> g = grp \<and> server_acl_user_find (acl_entries s) i grp = None
       then Some \<lparr>acl_id = i, acl_readonly = False, acl_is_group = grp\<rparr>
       else server_acl_user_find (acl_entries s) j g)"
  using rb_find_insert [OF assms, of "\<lparr>acl_id = i, acl_readonly = False, acl_is_group = grp\<rparr>" "(g, j)"] rb_insert_sorted [OF assms]
  by (auto simp: server_acl_user_allow_def server_acl_user_find_def assms split: option.splits)

lemma find_deny:
  assumes "ordered acl_key (acl_entries s)"
  shows "ordered acl_key (acl_entries (server_acl_user_deny s i grp)) \<and>
    server_acl_user_find (acl_entries (server_acl_user_deny s i grp)) j g =
      (if j = i \<and> g = grp then None else server_acl_user_find (acl_entries s) j g)"
  using rb_find_remove [OF assms, of "(grp, i)" _ "(g, j)"] rb_remove_ordered [OF assms]
  by (auto simp: server_acl_user_deny_def server_acl_user_find_def server_acl_update_def assms split: option.splits)

lemma find_readonly:
  assumes "ordered acl_key (acl_entries s)"
  shows "ordered acl_key (acl_entries (set_readonly ro s i grp)) \<and>
    server_acl_user_find (acl_entries (set_readonly ro s i grp)) j g =
      (if j = i \<and> g = grp then map_option (\<lambda>e. e\<lparr>acl_readonly := ro\<rparr>) (server_acl_user_find (acl_entries s) i grp)
       else server_acl_user_find (acl_entries s) j g)"
  using rb_find_modify [of acl_key "\<lambda>e. e\<lparr>acl_readonly := ro\<rparr>" "(g, j)" "(grp, i)" "acl_entries s"]
    rb_modify_ordered [of acl_key "\<lambda>e. e\<lparr>acl_readonly := ro\<rparr>" "acl_entries s" "(grp, i)"] assms
  by (auto simp: set_readonly_def server_acl_user_find_def server_acl_update_def split: option.splits)

lemma allow_enforced:
  assumes "ordered acl_key (acl_entries s)" "enforced strict (acl_entries s) c"
  shows "enforced strict (acl_entries (server_acl_user_allow s i grp)) c"
  using assms(2) find_allow [OF assms(1), of i grp]
  by (auto simp: enforced_def server_acl_check_def split: if_splits option.splits)

lemma inv_allow: "acl_inv strict sys s \<Longrightarrow> acl_inv strict sys (server_acl_user_allow s i grp)"
  using find_allow [of s i grp] allow_enforced [of s strict _ i grp]
  by (auto simp: acl_inv_def owner_kept_def server_acl_user_allow_def split: option.splits)

lemma update_inv:
  assumes "ordered acl_key es" "owner_kept sys es"
  shows "acl_inv strict sys (server_acl_update (s\<lparr>acl_entries := es\<rparr>))"
  using assms update_enforced by (auto simp: acl_inv_def server_acl_update_def)

lemma inv_deny:
  assumes "acl_inv strict sys s" "grp \<or> (i \<noteq> 0 \<and> i \<noteq> getuid sys)"
  shows "acl_inv strict sys (server_acl_user_deny s i grp)"
proof (cases "server_acl_user_find (acl_entries s) i grp")
  case None
  then show ?thesis using assms(1) by (simp add: server_acl_user_deny_def)
next
  case (Some e)
  have "owner_kept sys (rb_remove e (acl_entries s))" "ordered acl_key (rb_remove e (acl_entries s))"
    using find_deny [of s i grp] assms Some
    by (auto simp: acl_inv_def owner_kept_def server_acl_user_deny_def server_acl_update_def)
  then show ?thesis using update_inv Some by (simp add: server_acl_user_deny_def)
qed

lemma inv_readonly:
  assumes "acl_inv strict sys s" "grp \<or> (i \<noteq> 0 \<and> i \<noteq> getuid sys)"
  shows "acl_inv strict sys (set_readonly ro s i grp)"
proof (cases "server_acl_user_find (acl_entries s) i grp")
  case None
  then show ?thesis using assms(1) by (simp add: set_readonly_def)
next
  case (Some e)
  let ?es = "rb_modify acl_key (grp, i) (\<lambda>e. e\<lparr>acl_readonly := ro\<rparr>) (acl_entries s)"
  have "owner_kept sys ?es" "ordered acl_key ?es"
    using find_readonly [of s ro i grp] assms Some
    by (auto simp: acl_inv_def owner_kept_def set_readonly_def server_acl_update_def)
  then show ?thesis using update_inv Some by (simp add: set_readonly_def)
qed

lemmas inv_ops = inv_allow inv_deny inv_readonly

lemma inv_change_access:
  assumes "acl_inv strict sys s" "grp \<or> (i \<noteq> 0 \<and> i \<noteq> getuid sys)" "change_access a s i grp ty name = (ret, out, s')"
  shows "acl_inv strict sys s'"
  using assms inv_ops [of strict sys]
  by (auto simp: change_access_def Let_def server_acl_user_allow_write_def server_acl_user_deny_write_def split: if_splits)

lemma inv_exec:
  assumes "acl_inv strict sys s" "cmd_server_access_exec sys p a s = (ret, out, s')"
  shows "acl_inv strict sys s'"
proof (cases "s' = s")
  case False
  then obtain i name grp ty where g: "grp \<or> (i \<noteq> 0 \<and> i \<noteq> getuid sys)" and
      "cmd_server_access_deny s i grp ty name = (ret, out, s') \<or> change_access a s i grp ty name = (ret, out, s')"
    using assms(2) by (fastforce simp: cmd_server_access_exec_def Let_def split: if_splits option.splits)
  then show ?thesis
    using inv_change_access [OF assms(1) g] inv_deny [OF assms(1) g] assms(1) by (auto simp: cmd_server_access_deny_def split: if_splits)
qed (use assms in simp)

lemma owner_check:
  assumes "owner_kept sys es" "peer_uid c = getuid sys" "getuid sys \<noteq> NO_ID"
  shows "enforced strict es c"
  using assms by (auto simp: enforced_def server_acl_check_def owner_kept_def)

lemma inv_init:
  assumes "\<forall>c \<in> set cs. peer_uid c = getuid sys" "getuid sys \<noteq> NO_ID"
  shows "acl_inv strict sys (server_acl_init (getuid sys) cs)"
proof -
  let ?s = "server_acl_init (getuid sys) cs"
  have "ordered acl_key (acl_entries ?s) \<and> owner_kept sys (acl_entries ?s) \<and> acl_clients ?s = cs"
    using find_allow [of "\<lparr>acl_entries = [], acl_clients = cs\<rparr>" 0 False]
      find_allow [of "server_acl_user_allow \<lparr>acl_entries = [], acl_clients = cs\<rparr> 0 False" "getuid sys" False]
      find_allow [of "\<lparr>acl_entries = [], acl_clients = cs\<rparr>" "getuid sys" False]
    by (auto simp: owner_kept_def server_acl_init_def Let_def server_acl_user_find_def rb_find_by_def
        server_acl_user_allow_def split: option.splits)
  then show ?thesis using owner_check assms by (auto simp: acl_inv_def)
qed

lemma inv_on_client:
  assumes "acl_inv strict sys s" "\<And>c. follows strict (f c) c"
  shows "acl_inv strict sys (on_client k f s)"
  using assms follows_enforced [OF assms(2)]
  by (auto simp: acl_inv_def on_client_def dest!: set_update_subset_insert [THEN subsetD])

lemma follows_tokens: "follows strict c d \<Longrightarrow> follows strict (fold (\<lambda>token c. set_client_flag c token) ts c) d"
proof (induction ts arbitrary: c)
  case (Cons t ts)
  have "follows strict (set_client_flag c t) d"
    using Cons.prems by (auto simp: set_client_flag_def Let_def follows_def c_exit_def c_readonly_def server_client_control_flags_def)
  then show ?case using Cons.IH by simp
qed simp

lemma follows_set_flags: "follows strict (server_client_set_flags c flags) c"
  by (simp add: server_client_set_flags_def follows_tokens follows_refl)

lemma follows_attach: "follows strict (snd (snd (attach_flags uid fflag rflag c))) c"
  using follows_set_flags [of strict c] by (auto simp: attach_flags_def Let_def follows_refl split: option.splits)

lemma follows_switch:
  assumes "switch_readonly uid caller c = Some (ret, out, c')" "caller \<noteq> Some uid \<or> \<not> strict"
  shows "follows strict c' c"
  using assms by (auto simp: switch_readonly_def follows_def c_exit_def c_readonly_def split: if_splits option.splits)

lemma inv_accept:
  assumes "acl_inv strict sys s"
  shows "acl_inv strict sys (server_accept s c)"
proof -
  have "enforced strict (acl_entries s) (case server_acl_join s c of Some c' \<Rightarrow> c'
      | None \<Rightarrow> set_flag {CLIENT_EXIT} (c\<lparr>c_exit_message := Some ''access not allowed''\<rparr>))"
    by (auto simp: server_acl_join_def enforced_def c_exit_def c_readonly_def split: option.splits if_splits)
  then show ?thesis using assms by (auto simp: acl_inv_def server_accept_def)
qed

lemma inv_step:
  assumes "acl_inv strict sys s" "acl_step sys e s = Some s'" "strict \<longrightarrow> \<not> owner_switch sys e"
  shows "acl_inv strict sys s'"
proof (cases e)
  case (Lost k)
  then have "acl_entries s' = acl_entries s" "set (acl_clients s') \<subseteq> set (acl_clients s)"
    using assms(2) set_take_subset [of k "acl_clients s"] set_drop_subset [of "Suc k" "acl_clients s"] by auto
  then show ?thesis using assms(1) unfolding acl_inv_def by auto
next
  case (Access a)
  obtain ret out t where "cmd_server_access_exec sys (\<lambda>_::unit. []) a s = (ret, out, t)" by (rule prod_cases3)
  with Access show ?thesis using inv_exec [OF assms(1)] assms(2) by auto
next
  case (Switch caller k)
  show ?thesis
  proof (cases "k < length (acl_clients s)")
    case True
    then obtain ret out c where c: "switch_readonly (getuid sys) caller (acl_clients s ! k) = Some (ret, out, c)"
        "s' = on_client k (\<lambda>_. c) s"
      using assms(2) Switch by auto
    have "enforced strict (acl_entries s) c"
      using follows_enforced [OF follows_switch [OF c(1)]] assms(1,3) Switch True by (auto simp: acl_inv_def)
    then show ?thesis
      using assms(1) True c(2) by (auto simp: acl_inv_def on_client_def dest!: set_update_subset_insert [THEN subsetD])
  qed (use assms Switch in auto)
next
  case (Told_To_Exit k msg)
  have "follows strict (set_flag {CLIENT_EXIT} (c\<lparr>c_exit_message := msg\<rparr>)) c" for c
    by (simp add: follows_def c_exit_def c_readonly_def)
  then show ?thesis using inv_on_client [OF assms(1)] assms(2) Told_To_Exit by auto
qed (use assms inv_accept inv_on_client [OF assms(1)] follows_set_flags follows_attach follows_set [OF follows_refl] in auto)

lemma inv_reachable:
  assumes "acl_reachable sys es s" "getuid sys \<noteq> NO_ID" "strict \<longrightarrow> \<not> list_ex (owner_switch sys) es"
  shows "acl_inv strict sys s"
  using assms(1,3)
proof (induction rule: acl_reachable.induct)
  case (start cs)
  then show ?case using inv_init [OF _ assms(2)] by blast
next
  case (step es s e s')
  then show ?case using inv_step [of strict sys s e s'] by auto
qed

section \<open>Properties\<close>

text \<open>C21: in every state that the events above reach, a client that is not told to exit has an entry for its
  user or group, and the owner of the server and the superuser keep an entry with write access.  A client
  is read-only if its entry is, unless the owner of the server ran \<open>switch-client -r\<close>: nobody else can
  clear the flag, neither with flags of their own nor by switching or attaching.\<close>

theorem acl_enforced:
  assumes "acl_reachable sys es s" "getuid sys \<noteq> NO_ID" "c \<in> set (acl_clients s)" "\<not> c_exit c"
  shows "(\<exists>e. server_acl_check (acl_entries s) c = Some e \<and>
      (acl_readonly e \<longrightarrow> c_readonly c \<or> list_ex (owner_switch sys) es)) \<and>
    server_acl_user_find (acl_entries s) 0 False = Some \<lparr>acl_id = 0, acl_readonly = False, acl_is_group = False\<rparr> \<and>
    server_acl_user_find (acl_entries s) (getuid sys) False =
      Some \<lparr>acl_id = getuid sys, acl_readonly = False, acl_is_group = False\<rparr>"
  using inv_reachable [OF assms(1,2), of "\<not> list_ex (owner_switch sys) es"] assms(3,4)
  by (auto simp: acl_inv_def enforced_def owner_kept_def)

definition example_system :: acl_system where
  "example_system = \<lparr>getuid = 1000, getpwnam = (\<lambda>n. if n = ''eve'' then Some (1001, n) else None), getgrnam = (\<lambda>_. None),
     getpwuid = (\<lambda>_. None), getgrgid = (\<lambda>_. None), expand = (\<lambda>x. x)\<rparr>"

definition example_client :: "u32 \<Rightarrow> acl_client" where
  "example_client uid = \<lparr>peer_uid = uid, peer_gid = 50, c_exit_message = None, c_flags = {}\<rparr>"

definition read_args :: "unit args" where
  "read_args = (args_set args_create (CHR ''r'') None 0)\<lparr>args_values := [ARGS_STRING ''eve'']\<rparr>"

definition run_events :: "acl_system \<Rightarrow> acl_event list \<Rightarrow> server_acl \<Rightarrow> server_acl option" where
  "run_events sys es s = fold (\<lambda>e r. Option.bind r (acl_step sys e)) es (Some s)"

lemma run_reachable:
  "run_events sys es (server_acl_init (getuid sys) cs) = Some s \<Longrightarrow> \<forall>c \<in> set cs. peer_uid c = getuid sys \<Longrightarrow>
   acl_reachable sys es s"
proof (induction es arbitrary: s rule: rev_induct)
  case (snoc e es)
  then obtain s1 where "run_events sys es (server_acl_init (getuid sys) cs) = Some s1" "acl_step sys e s1 = Some s"
    by (auto simp: run_events_def bind_eq_Some_conv)
  then show ?case using snoc acl_reachable.step by blast
qed (use acl_reachable.start in \<open>auto simp: run_events_def\<close>)

text \<open>Eve gets a read-only entry, connects, and tries to write: asking for \<open>!read-only\<close> and switching are
  refused.\<close>

definition example_events :: "acl_event list" where
  "example_events = [Access read_args, Accept (example_client 1001), Set_Flags 1 ''active-pane,!read-only'', Switch (Some 1001) 1]"

theorem acl_enforced_witness:
  "\<exists>s c. acl_reachable example_system example_events s \<and> c \<in> set (acl_clients s) \<and> peer_uid c = 1001 \<and> c_readonly c"
proof -
  let ?s = "run_events example_system example_events (server_acl_init (getuid example_system) [example_client 1000])"
  let ?c = "set_flag {CLIENT_ACTIVEPANE} (set_flag {CLIENT_READONLY} (example_client 1001))"
  have f: "?s \<noteq> None" "?c \<in> set (acl_clients (the ?s))" "\<not> c_exit ?c"
    "server_acl_check (acl_entries (the ?s)) ?c = Some \<lparr>acl_id = 1001, acl_readonly = True, acl_is_group = False\<rparr>"
    "peer_uid (example_client 1000) = getuid example_system" "getuid example_system \<noteq> NO_ID"
    "\<not> list_ex (owner_switch example_system) example_events" by code_simp+
  then have r: "acl_reachable example_system example_events (the ?s)"
    by (intro run_reachable [of _ _ "[example_client 1000]"]) auto
  from acl_enforced [OF r f(6,2,3)] f(4,7) have "c_readonly ?c" by simp
  then show ?thesis using r f(2) by (intro exI [of _ "the ?s"] exI [of _ ?c]) (simp add: example_client_def)
qed

text \<open>The other side: the owner does make a client writable against its entry, and leaves it so.\<close>

theorem owner_switch_clears:
  assumes "\<not> c_exit c" "c_readonly c" "k < length (acl_clients s)" "acl_clients s ! k = c"
  shows "\<exists>s'. acl_step sys (Switch (Some (getuid sys)) k) s = Some s' \<and> acl_entries s' = acl_entries s \<and>
    \<not> c_readonly (acl_clients s' ! k)"
  using assms by (auto simp: switch_readonly_def c_readonly_def on_client_def)

text \<open>C22: when an entry is removed, made writable or made read-only, the clients follow at once: each one
  is told to exit if nothing allows it any more, and is otherwise read-only exactly if its entry is.\<close>

theorem acl_change_takes_effect:
  assumes "server_acl_user_find (acl_entries s) i grp \<noteq> None"
    and "s' = server_acl_user_deny s i grp \<or> s' = server_acl_user_allow_write s i grp \<or> s' = server_acl_user_deny_write s i grp"
    and "c \<in> set (acl_clients s')"
  shows "case server_acl_check (acl_entries s') c of
      None \<Rightarrow> c_exit c \<and> c_exit_message c = Some ''access not allowed''
    | Some e \<Rightarrow> c_readonly c = acl_readonly e"
proof -
  obtain es where s': "s' = server_acl_update (s\<lparr>acl_entries := es\<rparr>)"
    using assms(1,2)
    by (auto simp: server_acl_user_deny_def server_acl_user_allow_write_def server_acl_user_deny_write_def set_readonly_def)
  then obtain d where "c = update_client es d" "acl_entries s' = es" using assms(3) by (auto simp: server_acl_update_def)
  then show ?thesis by (auto simp: update_client_def split: option.splits)
qed

theorem acl_change_takes_effect_witness:
  "let s' = server_acl_user_deny \<lparr>acl_entries = [\<lparr>acl_id = 7, acl_readonly = False, acl_is_group = False\<rparr>],
     acl_clients = [example_client 7]\<rparr> 7 False
   in acl_clients s' \<noteq> [] \<and> list_all c_exit (acl_clients s')"
proof -
  let ?s = "\<lparr>acl_entries = [\<lparr>acl_id = 7, acl_readonly = False, acl_is_group = False\<rparr>], acl_clients = [example_client 7]\<rparr>"
  have f: "server_acl_user_find (acl_entries ?s) 7 False \<noteq> None" "acl_entries (server_acl_user_deny ?s 7 False) = []"
    "acl_clients (server_acl_user_deny ?s 7 False) \<noteq> []" by code_simp+
  have "c_exit c" if "c \<in> set (acl_clients (server_acl_user_deny ?s 7 False))" for c
  proof -
    have "server_acl_check (acl_entries (server_acl_user_deny ?s 7 False)) c = None"
      unfolding f(2) by (simp add: server_acl_check_def server_acl_user_find_def rb_find_by_def)
    then show ?thesis using acl_change_takes_effect [OF f(1) _ that] by simp
  qed
  then show ?thesis using f(3) by (simp add: list_all_iff)
qed

end
