(* ===== verification/Wait_For.thy ===== *)
theory Wait_For
  imports Arguments "HOL-Library.List_Lexorder"
begin

text \<open>
  The channels of \<open>wait-for\<close> (\<open>cmd_wait_for.rs\<close>): a tree of channels by name, each with a wake-up that
  has been signalled in advance, the commands that wait for a signal, a lock and the commands that wait
  for the lock.  A queued command is a number; \<open>cmdq_continue\<close> on it is an element of the list of
  continued commands that each operation returns.  Whether the command has a client is an argument.
\<close>

section \<open>State\<close>

type_synonym cmdq_item = nat

record wait_channel =
  wc_name :: string
  wc_locked :: bool
  wc_woken :: bool
  wc_waiters :: "cmdq_item list"
  wc_lockers :: "cmdq_item list"

type_synonym wait_channels = "wait_channel list"

definition fresh_channel :: "string \<Rightarrow> wait_channel" where
  "fresh_channel name = \<lparr>wc_name = name, wc_locked = False, wc_woken = False, wc_waiters = [], wc_lockers = []\<rparr>"

section \<open>Operations\<close>

definition find_channel :: "wait_channels \<Rightarrow> string \<Rightarrow> wait_channel option" where
  "find_channel wcs name = rb_find_by wc_name name wcs"

definition cmd_wait_for_add :: "wait_channels \<Rightarrow> string \<Rightarrow> wait_channels" where
  "cmd_wait_for_add wcs name = rb_insert wc_name (fresh_channel name) wcs"

definition cmd_wait_for_remove :: "wait_channels \<Rightarrow> string \<Rightarrow> wait_channels" where
  "cmd_wait_for_remove wcs name =
     (case find_channel wcs name of
        None \<Rightarrow> wcs
      | Some wc \<Rightarrow>
          if wc_locked wc then wcs
          else if wc_waiters wc \<noteq> [] \<or> \<not> wc_woken wc then wcs
          else rb_remove wc wcs)"

text \<open>The channel a command works on: the one it found, or a new one.\<close>

definition open_channel :: "wait_channels \<Rightarrow> string \<Rightarrow> wait_channels \<times> wait_channel" where
  "open_channel wcs name =
     (case find_channel wcs name of
        Some wc \<Rightarrow> (wcs, wc)
      | None \<Rightarrow> (cmd_wait_for_add wcs name, fresh_channel name))"

type_synonym wait_result = "cmd_retval \<times> cmdq_item list \<times> wait_channels"

definition cmd_wait_for_signal :: "wait_channels \<Rightarrow> string \<Rightarrow> wait_result" where
  "cmd_wait_for_signal wcs name =
     (case open_channel wcs name of
        (wcs1, wc) \<Rightarrow>
          if wc_waiters wc = [] \<and> \<not> wc_woken wc
          then (CMD_RETURN_NORMAL, [], rb_modify wc_name name (\<lambda>w. w\<lparr>wc_woken := True\<rparr>) wcs1)
          else (CMD_RETURN_NORMAL, wc_waiters wc,
                cmd_wait_for_remove (rb_modify wc_name name (\<lambda>w. w\<lparr>wc_waiters := []\<rparr>) wcs1) name))"

definition cmd_wait_for_wait :: "wait_channels \<Rightarrow> bool \<Rightarrow> cmdq_item \<Rightarrow> string \<Rightarrow> wait_result" where
  "cmd_wait_for_wait wcs has_client item name =
     (if \<not> has_client then (CMD_RETURN_ERROR, [], wcs)
      else (case open_channel wcs name of
              (wcs1, wc) \<Rightarrow>
                if wc_woken wc then (CMD_RETURN_NORMAL, [], cmd_wait_for_remove wcs1 name)
                else (CMD_RETURN_WAIT, [], rb_modify wc_name name (\<lambda>w. w\<lparr>wc_waiters := wc_waiters w @ [item]\<rparr>) wcs1)))"

definition cmd_wait_for_lock :: "wait_channels \<Rightarrow> bool \<Rightarrow> cmdq_item \<Rightarrow> string \<Rightarrow> wait_result" where
  "cmd_wait_for_lock wcs has_client item name =
     (if \<not> has_client then (CMD_RETURN_ERROR, [], wcs)
      else (case open_channel wcs name of
              (wcs1, wc) \<Rightarrow>
                if wc_locked wc
                then (CMD_RETURN_WAIT, [], rb_modify wc_name name (\<lambda>w. w\<lparr>wc_lockers := wc_lockers w @ [item]\<rparr>) wcs1)
                else (CMD_RETURN_NORMAL, [], rb_modify wc_name name (\<lambda>w. w\<lparr>wc_locked := True\<rparr>) wcs1)))"

definition cmd_wait_for_unlock :: "wait_channels \<Rightarrow> string \<Rightarrow> wait_result" where
  "cmd_wait_for_unlock wcs name =
     (case find_channel wcs name of
        None \<Rightarrow> (CMD_RETURN_ERROR, [], wcs)
      | Some wc \<Rightarrow>
          if \<not> wc_locked wc then (CMD_RETURN_ERROR, [], wcs)
          else (case wc_lockers wc of
                  i # is \<Rightarrow> (CMD_RETURN_NORMAL, [i], rb_modify wc_name name (\<lambda>w. w\<lparr>wc_lockers := is\<rparr>) wcs)
                | [] \<Rightarrow> (CMD_RETURN_NORMAL, [],
                         cmd_wait_for_remove (rb_modify wc_name name (\<lambda>w. w\<lparr>wc_locked := False\<rparr>) wcs) name)))"

text \<open>One channel of \<open>cmd_wait_for_flush\<close>, and the loop over the tree.\<close>

definition flush_channel :: "wait_channel \<Rightarrow> cmdq_item list \<times> wait_channels \<Rightarrow> cmdq_item list \<times> wait_channels" where
  "flush_channel wc st =
     (case st of
        (cont, wcs) \<Rightarrow>
          (cont @ wc_waiters wc @ wc_lockers wc,
           cmd_wait_for_remove
             (rb_modify wc_name (wc_name wc)
                (\<lambda>w. w\<lparr>wc_waiters := [], wc_woken := True, wc_lockers := [], wc_locked := False\<rparr>) wcs) (wc_name wc)))"

definition cmd_wait_for_flush :: "wait_channels \<Rightarrow> cmdq_item list \<times> wait_channels" where
  "cmd_wait_for_flush wcs = fold flush_channel wcs ([], wcs)"

definition cmd_wait_for_exec :: "('c \<Rightarrow> string) \<Rightarrow> 'c args \<Rightarrow> bool \<Rightarrow> cmdq_item \<Rightarrow> wait_channels \<Rightarrow> wait_result option" where
  "cmd_wait_for_exec cmd_list_print a has_client item wcs =
     (case args_string cmd_list_print a 0 of
        None \<Rightarrow> None
      | Some name \<Rightarrow>
          Some (if args_has a (CHR ''S'') then cmd_wait_for_signal wcs name
                else if args_has a (CHR ''L'') then cmd_wait_for_lock wcs has_client item name
                else if args_has a (CHR ''U'') then cmd_wait_for_unlock wcs name
                else cmd_wait_for_wait wcs has_client item name))"

section \<open>The specification\<close>

text \<open>Every name has a channel at all times, which starts fresh and goes back to that when a wake-up has
  been consumed while nobody holds the lock.  An operation concerns the channel of its name only.\<close>

datatype wait_op = Signal string | Wait cmdq_item string | Lock cmdq_item string | Unlock string

fun op_name :: "wait_op \<Rightarrow> string" where
  "op_name (Signal n) = n"
| "op_name (Wait i n) = n"
| "op_name (Lock i n) = n"
| "op_name (Unlock n) = n"

definition spent :: "wait_channel \<Rightarrow> wait_channel" where
  "spent c = (if wc_woken c \<and> \<not> wc_locked c then fresh_channel (wc_name c) else c)"

fun spec_step :: "wait_op \<Rightarrow> wait_channel \<Rightarrow> cmd_retval \<times> cmdq_item list \<times> wait_channel" where
  "spec_step (Signal n) c =
     (if wc_woken c then (CMD_RETURN_NORMAL, [], spent c)
      else if wc_waiters c = [] then (CMD_RETURN_NORMAL, [], c\<lparr>wc_woken := True\<rparr>)
      else (CMD_RETURN_NORMAL, wc_waiters c, c\<lparr>wc_waiters := []\<rparr>))"
| "spec_step (Wait i n) c =
     (if wc_woken c then (CMD_RETURN_NORMAL, [], spent c)
      else (CMD_RETURN_WAIT, [], c\<lparr>wc_waiters := wc_waiters c @ [i]\<rparr>))"
| "spec_step (Lock i n) c =
     (if wc_locked c then (CMD_RETURN_WAIT, [], c\<lparr>wc_lockers := wc_lockers c @ [i]\<rparr>)
      else (CMD_RETURN_NORMAL, [], c\<lparr>wc_locked := True\<rparr>))"
| "spec_step (Unlock n) c =
     (if \<not> wc_locked c then (CMD_RETURN_ERROR, [], c)
      else (case wc_lockers c of
              i # is \<Rightarrow> (CMD_RETURN_NORMAL, [i], c\<lparr>wc_lockers := is\<rparr>)
            | [] \<Rightarrow> (CMD_RETURN_NORMAL, [], spent (c\<lparr>wc_locked := False\<rparr>))))"

fun wait_step :: "wait_op \<Rightarrow> wait_channels \<Rightarrow> wait_result" where
  "wait_step (Signal n) wcs = cmd_wait_for_signal wcs n"
| "wait_step (Wait i n) wcs = cmd_wait_for_wait wcs True i n"
| "wait_step (Lock i n) wcs = cmd_wait_for_lock wcs True i n"
| "wait_step (Unlock n) wcs = cmd_wait_for_unlock wcs n"

definition channel :: "wait_channels \<Rightarrow> string \<Rightarrow> wait_channel" where
  "channel wcs n = (case find_channel wcs n of None \<Rightarrow> fresh_channel n | Some wc \<Rightarrow> wc)"

definition channel_ok :: "wait_channel \<Rightarrow> bool" where
  "channel_ok c \<longleftrightarrow> (wc_lockers c \<noteq> [] \<longrightarrow> wc_locked c) \<and> (wc_woken c \<longrightarrow> wc_waiters c = [])"

definition channels_ok :: "wait_channels \<Rightarrow> bool" where
  "channels_ok wcs \<longleftrightarrow> ordered wc_name wcs \<and> (\<forall>n wc. find_channel wcs n = Some wc \<longrightarrow> channel_ok wc)"

section \<open>The operations implement the specification\<close>

lemma find_update:
  assumes "\<And>w. wc_name (f w) = wc_name w"
  shows "find_channel (rb_modify wc_name n f wcs) k = (if k = n then map_option f (find_channel wcs n) else find_channel wcs k)"
  using rb_find_modify [of wc_name f k n wcs] assms by (simp add: find_channel_def)

lemma find_removed:
  assumes "ordered wc_name wcs"
  shows "find_channel (cmd_wait_for_remove wcs n) k =
    (case find_channel wcs n of
       Some wc \<Rightarrow> if k = n \<and> \<not> wc_locked wc \<and> wc_waiters wc = [] \<and> wc_woken wc then None else find_channel wcs k
     | None \<Rightarrow> find_channel wcs k)"
  using rb_find_remove [OF assms, of n _ k] by (auto simp: cmd_wait_for_remove_def find_channel_def split: option.splits)

lemma removed_ordered: "ordered wc_name wcs \<Longrightarrow> ordered wc_name (cmd_wait_for_remove wcs n)"
  by (auto simp: cmd_wait_for_remove_def rb_remove_ordered split: option.splits)

lemma update_ordered: "(\<And>w. wc_name (f w) = wc_name w) \<Longrightarrow> ordered wc_name wcs \<Longrightarrow> ordered wc_name (rb_modify wc_name n f wcs)"
  by (rule rb_modify_ordered)

lemma open_channel_spec:
  assumes "ordered wc_name wcs" "open_channel wcs n = (wcs1, wc)"
  shows "ordered wc_name wcs1" "find_channel wcs1 n = Some wc" "wc = channel wcs n" "wc_name wc = n"
    and "k \<noteq> n \<Longrightarrow> find_channel wcs1 k = find_channel wcs k"
proof -
  show "ordered wc_name wcs1"
    using assms rb_insert_sorted [OF assms(1)] by (auto simp: open_channel_def cmd_wait_for_add_def split: option.splits)
  have f: "find_channel wcs n = None \<Longrightarrow> find_channel (cmd_wait_for_add wcs n) k = (if k = n then Some (fresh_channel n) else find_channel wcs k)" for k
    using rb_find_insert [OF assms(1), of "fresh_channel n" k] by (simp add: cmd_wait_for_add_def find_channel_def fresh_channel_def)
  show "find_channel wcs1 n = Some wc" "k \<noteq> n \<Longrightarrow> find_channel wcs1 k = find_channel wcs k"
    using assms(2) f by (auto simp: open_channel_def split: option.splits)
  show "wc = channel wcs n" using assms(2) by (auto simp: open_channel_def channel_def split: option.splits)
  then show "wc_name wc = n"
    using rb_find_key [of wc_name n wcs] by (auto simp: channel_def find_channel_def fresh_channel_def split: option.splits)
qed

lemma channel_okD: "channels_ok wcs \<Longrightarrow> channel_ok (channel wcs n)"
  by (auto simp: channels_ok_def channel_def channel_ok_def fresh_channel_def split: option.splits)

lemma channels_okI:
  assumes "ordered wc_name wcs'" "channels_ok wcs" "\<And>k. k \<noteq> n \<Longrightarrow> find_channel wcs' k = find_channel wcs k"
    "\<And>wc. find_channel wcs' n = Some wc \<Longrightarrow> channel_ok wc"
  shows "channels_ok wcs'"
  unfolding channels_ok_def using assms by (metis channels_ok_def)

text \<open>What every operation shares: the channel of the name is changed, then removed if it is spent.\<close>

definition changed :: "wait_channels \<Rightarrow> string \<Rightarrow> wait_channel \<Rightarrow> wait_channels \<Rightarrow> bool" where
  "changed wcs n c wcs' \<longleftrightarrow> channels_ok wcs' \<and> channel wcs' n = c \<and> (\<forall>k. k \<noteq> n \<longrightarrow> channel wcs' k = channel wcs k)"

lemma changedI:
  assumes "channels_ok wcs" "ordered wc_name wcs'" "channel_ok c"
    and "\<And>k. find_channel wcs' k = (if k = n then Some c else find_channel wcs k)"
  shows "changed wcs n c wcs'"
proof -
  have "channels_ok wcs'" by (rule channels_okI [OF assms(2,1), of n]) (use assms(3,4) in auto)
  then show ?thesis using assms(4) by (auto simp: changed_def channel_def)
qed

lemma change_channel:
  assumes ok: "channels_ok wcs" and opn: "open_channel wcs n = (wcs1, wc)"
    and f: "\<And>w. wc_name (f w) = wc_name w" and fok: "channel_ok (f wc)"
  shows "changed wcs n (f wc) (rb_modify wc_name n f wcs1)"
proof -
  note o = open_channel_spec [OF _ opn]
  have ord: "ordered wc_name wcs" using ok by (simp add: channels_ok_def)
  show ?thesis
  proof (rule changedI [OF ok _ fok])
    show "ordered wc_name (rb_modify wc_name n f wcs1)" by (rule update_ordered [OF f o(1) [OF ord]])
    show "find_channel (rb_modify wc_name n f wcs1) k = (if k = n then Some (f wc) else find_channel wcs k)" for k
      using find_update [of f n wcs1 k, OF f] o(2,5) [OF ord] by auto
  qed
qed

lemma spent_channel:
  assumes ok: "channels_ok wcs" and opn: "open_channel wcs n = (wcs1, wc)"
    and f: "\<And>w. wc_name (f w) = wc_name w" and fok: "channel_ok (f wc)" and free: "wc_waiters (f wc) = []"
  shows "changed wcs n (spent (f wc)) (cmd_wait_for_remove (rb_modify wc_name n f wcs1) n)"
proof -
  let ?w = "rb_modify wc_name n f wcs1"
  note o = open_channel_spec [OF _ opn]
  have ord: "ordered wc_name wcs" using ok by (simp add: channels_ok_def)
  have o1: "ordered wc_name ?w" by (rule update_ordered [OF f o(1) [OF ord]])
  have find1: "find_channel ?w k = (if k = n then Some (f wc) else find_channel wcs k)" for k
    using find_update [of f n wcs1 k, OF f] o(2,5) [OF ord] by auto
  have find2: "find_channel (cmd_wait_for_remove ?w n) k =
      (if k = n then (if \<not> wc_locked (f wc) \<and> wc_woken (f wc) then None else Some (f wc)) else find_channel wcs k)" for k
    using find_removed [OF o1, of n k] find1 free by auto
  have "channels_ok (cmd_wait_for_remove ?w n)"
    by (rule channels_okI [OF removed_ordered [OF o1] ok, of n]) (use find2 fok in \<open>auto split: if_splits\<close>)
  then show ?thesis using find2 o(4) [OF ord] f by (auto simp: changed_def channel_def spent_def)
qed

lemma modify_id: "rb_modify key n (\<lambda>w. w) wcs = wcs"
  by (induction wcs) (auto simp: rb_modify_def)

lemma open_found: "find_channel wcs n = Some wc \<Longrightarrow> open_channel wcs n = (wcs, wc)"
  by (simp add: open_channel_def)

lemma open_ok:
  assumes "channels_ok wcs" "open_channel wcs n = (wcs1, wc)"
  shows "wc = channel wcs n \<and> (wc_lockers wc \<noteq> [] \<longrightarrow> wc_locked wc) \<and> (wc_woken wc \<longrightarrow> wc_waiters wc = [])"
  using assms open_channel_spec(3) [of wcs n wcs1 wc] channel_okD [OF assms(1), of n]
  by (auto simp: channels_ok_def channel_ok_def)

lemma signal_spec:
  assumes "channels_ok wcs" "cmd_wait_for_signal wcs n = (ret, cont, wcs')"
  shows "\<exists>c. spec_step (Signal n) (channel wcs n) = (ret, cont, c) \<and> changed wcs n c wcs'"
proof -
  obtain wcs1 wc where opn: "open_channel wcs n = (wcs1, wc)" by fastforce
  have wc: "wc = channel wcs n \<and> (wc_lockers wc \<noteq> [] \<longrightarrow> wc_locked wc) \<and> (wc_woken wc \<longrightarrow> wc_waiters wc = [])"
    using open_ok [OF assms(1) opn] .
  consider (mark) "wc_waiters wc = []" "\<not> wc_woken wc" | (woken) "wc_woken wc" | (wake) "wc_waiters wc \<noteq> []" "\<not> wc_woken wc" by blast
  then show ?thesis
  proof cases
    case mark
    have "changed wcs n (wc\<lparr>wc_woken := True\<rparr>) (rb_modify wc_name n (\<lambda>w. w\<lparr>wc_woken := True\<rparr>) wcs1)"
      by (rule change_channel [OF assms(1) opn]) (use wc mark in \<open>auto simp: channel_ok_def\<close>)
    then show ?thesis using assms(2) wc opn mark by (auto simp: cmd_wait_for_signal_def)
  next
    case woken
    have "changed wcs n (spent (wc\<lparr>wc_waiters := []\<rparr>)) (cmd_wait_for_remove (rb_modify wc_name n (\<lambda>w. w\<lparr>wc_waiters := []\<rparr>) wcs1) n)"
      by (rule spent_channel [OF assms(1) opn]) (use wc in \<open>auto simp: channel_ok_def\<close>)
    moreover have "wc_waiters wc = []" using wc woken by blast
    then have "wc\<lparr>wc_waiters := []\<rparr> = wc" by (cases wc) simp
    ultimately show ?thesis using assms(2) wc opn woken by (auto simp: cmd_wait_for_signal_def)
  next
    case wake
    have "changed wcs n (spent (wc\<lparr>wc_waiters := []\<rparr>)) (cmd_wait_for_remove (rb_modify wc_name n (\<lambda>w. w\<lparr>wc_waiters := []\<rparr>) wcs1) n)"
      by (rule spent_channel [OF assms(1) opn]) (use wc in \<open>auto simp: channel_ok_def\<close>)
    then show ?thesis using assms(2) wc opn wake by (auto simp: cmd_wait_for_signal_def spent_def)
  qed
qed

lemma wait_spec:
  assumes "channels_ok wcs" "cmd_wait_for_wait wcs True i n = (ret, cont, wcs')"
  shows "\<exists>c. spec_step (Wait i n) (channel wcs n) = (ret, cont, c) \<and> changed wcs n c wcs'"
proof -
  obtain wcs1 wc where opn: "open_channel wcs n = (wcs1, wc)" by fastforce
  have wc: "wc = channel wcs n \<and> (wc_lockers wc \<noteq> [] \<longrightarrow> wc_locked wc) \<and> (wc_woken wc \<longrightarrow> wc_waiters wc = [])"
    using open_ok [OF assms(1) opn] .
  show ?thesis
  proof (cases "wc_woken wc")
    case True
    have "changed wcs n (spent wc) (cmd_wait_for_remove (rb_modify wc_name n (\<lambda>w. w) wcs1) n)"
      by (rule spent_channel [OF assms(1) opn]) (use wc True in \<open>auto simp: channel_ok_def\<close>)
    then show ?thesis using assms(2) wc opn True by (auto simp: cmd_wait_for_wait_def modify_id)
  next
    case False
    have "changed wcs n (wc\<lparr>wc_waiters := wc_waiters wc @ [i]\<rparr>)
        (rb_modify wc_name n (\<lambda>w. w\<lparr>wc_waiters := wc_waiters w @ [i]\<rparr>) wcs1)"
      by (rule change_channel [OF assms(1) opn]) (use wc False in \<open>auto simp: channel_ok_def\<close>)
    then show ?thesis using assms(2) wc opn False by (auto simp: cmd_wait_for_wait_def)
  qed
qed

lemma lock_spec:
  assumes "channels_ok wcs" "cmd_wait_for_lock wcs True i n = (ret, cont, wcs')"
  shows "\<exists>c. spec_step (Lock i n) (channel wcs n) = (ret, cont, c) \<and> changed wcs n c wcs'"
proof -
  obtain wcs1 wc where opn: "open_channel wcs n = (wcs1, wc)" by fastforce
  have wc: "wc = channel wcs n \<and> (wc_lockers wc \<noteq> [] \<longrightarrow> wc_locked wc) \<and> (wc_woken wc \<longrightarrow> wc_waiters wc = [])"
    using open_ok [OF assms(1) opn] .
  show ?thesis
  proof (cases "wc_locked wc")
    case True
    have "changed wcs n (wc\<lparr>wc_lockers := wc_lockers wc @ [i]\<rparr>)
        (rb_modify wc_name n (\<lambda>w. w\<lparr>wc_lockers := wc_lockers w @ [i]\<rparr>) wcs1)"
      by (rule change_channel [OF assms(1) opn]) (use wc True in \<open>auto simp: channel_ok_def\<close>)
    then show ?thesis using assms(2) wc opn True by (auto simp: cmd_wait_for_lock_def)
  next
    case False
    have "changed wcs n (wc\<lparr>wc_locked := True\<rparr>) (rb_modify wc_name n (\<lambda>w. w\<lparr>wc_locked := True\<rparr>) wcs1)"
      by (rule change_channel [OF assms(1) opn]) (use wc False in \<open>auto simp: channel_ok_def\<close>)
    then show ?thesis using assms(2) wc opn False by (auto simp: cmd_wait_for_lock_def)
  qed
qed

lemma unlock_spec:
  assumes "channels_ok wcs" "cmd_wait_for_unlock wcs n = (ret, cont, wcs')"
  shows "\<exists>c. spec_step (Unlock n) (channel wcs n) = (ret, cont, c) \<and> changed wcs n c wcs'"
proof (cases "find_channel wcs n")
  case None
  then show ?thesis
    using assms by (auto simp: cmd_wait_for_unlock_def channel_def fresh_channel_def changed_def)
next
  case (Some wc)
  note opn = open_found [OF Some]
  have wc: "wc = channel wcs n \<and> (wc_lockers wc \<noteq> [] \<longrightarrow> wc_locked wc) \<and> (wc_woken wc \<longrightarrow> wc_waiters wc = [])"
    using open_ok [OF assms(1) opn] .
  consider (free) "\<not> wc_locked wc" | (hand) i js where "wc_locked wc" "wc_lockers wc = i # js" | (release) "wc_locked wc" "wc_lockers wc = []"
    by (meson neq_Nil_conv)
  then show ?thesis
  proof cases
    case free
    then show ?thesis using assms Some wc by (auto simp: cmd_wait_for_unlock_def changed_def)
  next
    case hand
    have "changed wcs n (wc\<lparr>wc_lockers := js\<rparr>) (rb_modify wc_name n (\<lambda>w. w\<lparr>wc_lockers := js\<rparr>) wcs)"
      by (rule change_channel [OF assms(1) opn]) (use wc hand in \<open>auto simp: channel_ok_def\<close>)
    then show ?thesis using assms(2) wc Some hand by (auto simp: cmd_wait_for_unlock_def)
  next
    case release
    show ?thesis
    proof (cases "wc_waiters wc = []")
      case True
      have "changed wcs n (spent (wc\<lparr>wc_locked := False\<rparr>)) (cmd_wait_for_remove (rb_modify wc_name n (\<lambda>w. w\<lparr>wc_locked := False\<rparr>) wcs) n)"
        by (rule spent_channel [OF assms(1) opn]) (use wc release True in \<open>auto simp: channel_ok_def\<close>)
      then show ?thesis using assms(2) wc Some release by (auto simp: cmd_wait_for_unlock_def)
    next
      case False
      let ?w = "rb_modify wc_name n (\<lambda>w. w\<lparr>wc_locked := False\<rparr>) wcs"
      have c: "changed wcs n (wc\<lparr>wc_locked := False\<rparr>) ?w"
        by (rule change_channel [OF assms(1) opn]) (use wc release in \<open>auto simp: channel_ok_def\<close>)
      have "find_channel ?w n = Some (wc\<lparr>wc_locked := False\<rparr>)"
        using find_update [of "\<lambda>w. w\<lparr>wc_locked := False\<rparr>" n wcs n] Some by simp
      then have "cmd_wait_for_remove ?w n = ?w" using False by (simp add: cmd_wait_for_remove_def)
      moreover have "\<not> wc_woken wc" using wc False by blast
      then have "spent (wc\<lparr>wc_locked := False\<rparr>) = wc\<lparr>wc_locked := False\<rparr>" by (simp add: spent_def)
      ultimately show ?thesis using assms(2) wc Some release c by (auto simp: cmd_wait_for_unlock_def)
    qed
  qed
qed

lemma wait_step_spec:
  assumes "channels_ok wcs" "wait_step op wcs = (ret, cont, wcs')"
  shows "\<exists>c. spec_step op (channel wcs (op_name op)) = (ret, cont, c) \<and> changed wcs (op_name op) c wcs'"
  using assms signal_spec wait_spec lock_spec unlock_spec by (cases op) (auto simp del: spec_step.simps)

section \<open>Runs\<close>

type_synonym wait_event = "wait_op \<times> cmd_retval \<times> cmdq_item list"

fun wait_run :: "wait_op list \<Rightarrow> wait_channels \<Rightarrow> wait_event list \<times> wait_channels" where
  "wait_run [] wcs = ([], wcs)"
| "wait_run (op # ops) wcs =
     (case wait_step op wcs of
        (ret, cont, wcs1) \<Rightarrow> (case wait_run ops wcs1 of (tr, wcs2) \<Rightarrow> ((op, ret, cont) # tr, wcs2)))"

text \<open>What a run shows of one channel: the commands that asked for the lock, those that got it, how often
  it was given back, the commands that went to sleep and those that were woken up, each in order.\<close>

fun asks :: "string \<Rightarrow> wait_event \<Rightarrow> cmdq_item list" where
  "asks n (Lock i m, ret, cont) = (if m = n then [i] else [])"
| "asks n _ = []"

fun gets :: "string \<Rightarrow> wait_event \<Rightarrow> cmdq_item list" where
  "gets n (Lock i m, ret, cont) = (if m = n \<and> ret = CMD_RETURN_NORMAL then [i] else [])"
| "gets n (Unlock m, ret, cont) = (if m = n then cont else [])"
| "gets n _ = []"

fun gives_back :: "string \<Rightarrow> wait_event \<Rightarrow> nat" where
  "gives_back n (Unlock m, ret, cont) = (if m = n \<and> ret = CMD_RETURN_NORMAL then 1 else 0)"
| "gives_back n _ = 0"

fun sleeps :: "string \<Rightarrow> wait_event \<Rightarrow> cmdq_item list" where
  "sleeps n (Wait i m, ret, cont) = (if m = n \<and> ret = CMD_RETURN_WAIT then [i] else [])"
| "sleeps n _ = []"

fun wakes :: "string \<Rightarrow> wait_event \<Rightarrow> cmdq_item list" where
  "wakes n (Signal m, ret, cont) = (if m = n then cont else [])"
| "wakes n _ = []"

definition holders :: "wait_channel \<Rightarrow> nat" where
  "holders c = (if wc_locked c then 1 else 0)"

lemma spec_step_balance:
  assumes "channel_ok c" "spec_step op c = (ret, cont, c')" "op_name op = n"
  shows "wc_lockers c @ asks n (op, ret, cont) = gets n (op, ret, cont) @ wc_lockers c' \<and>
    length (gets n (op, ret, cont)) + holders c = gives_back n (op, ret, cont) + holders c' \<and>
    wc_waiters c @ sleeps n (op, ret, cont) = wakes n (op, ret, cont) @ wc_waiters c'"
  using assms
  by (cases op) (auto simp: channel_ok_def spent_def fresh_channel_def holders_def split: if_splits list.splits)

lemma other_events:
  assumes "op_name op \<noteq> n"
  shows "asks n (op, ret, cont) = [] \<and> gets n (op, ret, cont) = [] \<and> gives_back n (op, ret, cont) = 0 \<and>
    sleeps n (op, ret, cont) = [] \<and> wakes n (op, ret, cont) = []"
  using assms by (cases op) auto

lemma wait_step_balance:
  assumes "channels_ok wcs" "wait_step op wcs = (ret, cont, wcs')"
  shows "channels_ok wcs' \<and>
    wc_lockers (channel wcs n) @ asks n (op, ret, cont) = gets n (op, ret, cont) @ wc_lockers (channel wcs' n) \<and>
    length (gets n (op, ret, cont)) + holders (channel wcs n) = gives_back n (op, ret, cont) + holders (channel wcs' n) \<and>
    wc_waiters (channel wcs n) @ sleeps n (op, ret, cont) = wakes n (op, ret, cont) @ wc_waiters (channel wcs' n)"
proof -
  obtain c where c: "spec_step op (channel wcs (op_name op)) = (ret, cont, c)" "changed wcs (op_name op) c wcs'"
    using wait_step_spec [OF assms] by blast
  show ?thesis
  proof (cases "op_name op = n")
    case True
    then show ?thesis
      using c spec_step_balance [OF channel_okD [OF assms(1)] c(1) refl] by (simp add: changed_def)
  next
    case False
    then have "channel wcs' n = channel wcs n" "channels_ok wcs'" using c(2) by (auto simp: changed_def)
    then show ?thesis using other_events [OF False, of ret cont] by simp
  qed
qed

lemma append_chain: "a @ x = y @ b \<Longrightarrow> b @ xs = ys @ c \<Longrightarrow> a @ x @ xs = y @ ys @ c"
  by (metis append_assoc)

lemma wait_run_balance:
  assumes "channels_ok wcs" "wait_run ops wcs = (tr, wcs')"
  shows "channels_ok wcs' \<and>
    wc_lockers (channel wcs n) @ concat (map (asks n) tr) = concat (map (gets n) tr) @ wc_lockers (channel wcs' n) \<and>
    length (concat (map (gets n) tr)) + holders (channel wcs n) = sum_list (map (gives_back n) tr) + holders (channel wcs' n) \<and>
    wc_waiters (channel wcs n) @ concat (map (sleeps n) tr) = concat (map (wakes n) tr) @ wc_waiters (channel wcs' n)"
  using assms
proof (induction ops arbitrary: wcs tr)
  case (Cons op ops)
  obtain ret cont wcs1 tr1 where s: "wait_step op wcs = (ret, cont, wcs1)" "wait_run ops wcs1 = (tr1, wcs')" "tr = (op, ret, cont) # tr1"
    using Cons.prems(2) by (auto split: prod.splits)
  note st = wait_step_balance [OF Cons.prems(1) s(1), of n]
  have ih: "channels_ok wcs' \<and>
      wc_lockers (channel wcs1 n) @ concat (map (asks n) tr1) = concat (map (gets n) tr1) @ wc_lockers (channel wcs' n) \<and>
      length (concat (map (gets n) tr1)) + holders (channel wcs1 n) = sum_list (map (gives_back n) tr1) + holders (channel wcs' n) \<and>
      wc_waiters (channel wcs1 n) @ concat (map (sleeps n) tr1) = concat (map (wakes n) tr1) @ wc_waiters (channel wcs' n)"
    using Cons.IH [OF _ s(2)] st by blast
  have "wc_lockers (channel wcs n) @ concat (map (asks n) tr) = concat (map (gets n) tr) @ wc_lockers (channel wcs' n)"
    unfolding s(3) using append_chain [OF conjunct1 [OF conjunct2 [OF st]] conjunct1 [OF conjunct2 [OF ih]]] by simp
  moreover have "wc_waiters (channel wcs n) @ concat (map (sleeps n) tr) = concat (map (wakes n) tr) @ wc_waiters (channel wcs' n)"
    unfolding s(3) using append_chain [of "wc_waiters (channel wcs n)"] st ih by simp
  moreover have "length (concat (map (gets n) tr)) + holders (channel wcs n) = sum_list (map (gives_back n) tr) + holders (channel wcs' n)"
    using st ih s(3) by simp
  ultimately show ?case using ih by blast
qed simp

lemma channels_ok_Nil: "channels_ok []"
  by (simp add: channels_ok_def find_channel_def rb_find_by_def)

section \<open>Properties\<close>

text \<open>C23: the table of channels that are created on demand and removed when spent implements the
  specification in which every name has its own channel: each operation returns and continues what the
  specification says for the channel of its name, changes that channel as it says, and no other.\<close>

theorem wait_for_refines:
  assumes "channels_ok wcs" "wait_step op wcs = (ret, cont, wcs')"
  shows "channels_ok wcs' \<and> spec_step op (channel wcs (op_name op)) = (ret, cont, channel wcs' (op_name op)) \<and>
    (\<forall>n. n \<noteq> op_name op \<longrightarrow> channel wcs' n = channel wcs n)"
  using wait_step_spec [OF assms] by (auto simp: changed_def)

theorem wait_for_refines_witness:
  "\<exists>wcs'. cmd_wait_for_wait [] True 4 ''build'' = (CMD_RETURN_WAIT, [], wcs') \<and> wc_waiters (channel wcs' ''build'') = [4]"
proof -
  obtain ret cont wcs' where s: "wait_step (Wait 4 ''build'') [] = (ret, cont, wcs')" by (metis prod_cases3)
  have "channel [] ''build'' = fresh_channel ''build''" by (simp add: channel_def find_channel_def rb_find_by_def)
  then have "spec_step (Wait 4 ''build'') (fresh_channel ''build'') = (ret, cont, channel wcs' ''build'')"
    using wait_for_refines [OF channels_ok_Nil s] by simp
  then have "ret = CMD_RETURN_WAIT" "cont = []" "wc_waiters (channel wcs' ''build'') = [4]"
    by (auto simp: fresh_channel_def dest!: sym [of _ "channel wcs' ''build''"])
  then show ?thesis using s by auto
qed

text \<open>C24: over every run of \<open>wait-for\<close> commands, on every channel, the commands get the lock in the order
  in which they asked for it, exactly one of them holds it whenever the channel is locked and none
  otherwise, and every command that went to sleep either is still waiting or has been woken up exactly
  once, in order.\<close>

theorem wait_for_fair:
  assumes "wait_run ops [] = (tr, wcs)"
  shows "concat (map (asks n) tr) = concat (map (gets n) tr) @ wc_lockers (channel wcs n) \<and>
    length (concat (map (gets n) tr)) = sum_list (map (gives_back n) tr) + (if wc_locked (channel wcs n) then 1 else 0) \<and>
    concat (map (sleeps n) tr) = concat (map (wakes n) tr) @ wc_waiters (channel wcs n)"
  using wait_run_balance [OF channels_ok_Nil assms, of n]
  by (simp add: channel_def find_channel_def rb_find_by_def fresh_channel_def holders_def)

theorem wait_for_fair_witness:
  "\<exists>tr wcs. wait_run [Lock 1 ''c'', Lock 2 ''c'', Lock 3 ''c'', Unlock ''c''] [] = (tr, wcs) \<and>
     concat (map (asks ''c'') tr) = concat (map (gets ''c'') tr) @ wc_lockers (channel wcs ''c'')"
proof -
  obtain tr wcs where "wait_run [Lock 1 ''c'', Lock 2 ''c'', Lock 3 ''c'', Unlock ''c''] [] = (tr, wcs)" by fastforce
  with wait_for_fair [OF this, of "''c''"] show ?thesis by blast
qed

text \<open>Two signals in a row cancel each other: the second consumes the wake-up that the first left, and a
  command that waits afterwards sleeps.\<close>

lemma wait_for_double_signal:
  "wait_run [Signal ''c'', Wait 1 ''c''] [] = ([(Signal ''c'', CMD_RETURN_NORMAL, []), (Wait 1 ''c'', CMD_RETURN_NORMAL, [])], []) \<and>
   fst (wait_run [Signal ''c'', Signal ''c'', Wait 1 ''c''] []) =
     [(Signal ''c'', CMD_RETURN_NORMAL, []), (Signal ''c'', CMD_RETURN_NORMAL, []), (Wait 1 ''c'', CMD_RETURN_WAIT, [])]"
proof -
  have "wait_run [Signal ''c'', Wait 1 ''c''] [] = ([(Signal ''c'', CMD_RETURN_NORMAL, []), (Wait 1 ''c'', CMD_RETURN_NORMAL, [])], [])"
    by code_simp
  moreover have "fst (wait_run [Signal ''c'', Signal ''c'', Wait 1 ''c''] []) =
     [(Signal ''c'', CMD_RETURN_NORMAL, []), (Signal ''c'', CMD_RETURN_NORMAL, []), (Wait 1 ''c'', CMD_RETURN_WAIT, [])]"
    by code_simp
  ultimately show ?thesis by blast
qed

section \<open>Flushing\<close>

lemma modify_other: "n \<notin> wc_name ` set wcs \<Longrightarrow> rb_modify wc_name n f wcs = wcs"
  by (auto simp: rb_modify_def intro!: map_idI)

lemma flush_first:
  assumes "ordered wc_name (wc # wcs)"
  shows "flush_channel wc (cont, wc # wcs) = (cont @ wc_waiters wc @ wc_lockers wc, wcs)"
proof -
  let ?f = "\<lambda>w. w\<lparr>wc_waiters := [], wc_woken := True, wc_lockers := [], wc_locked := False\<rparr>"
  have "rb_modify wc_name (wc_name wc) ?f wcs = wcs" using assms by (intro modify_other) auto
  then have "rb_modify wc_name (wc_name wc) ?f (wc # wcs) = ?f wc # wcs" by (simp add: rb_modify_def)
  moreover have "cmd_wait_for_remove (?f wc # wcs) (wc_name wc) = wcs"
    by (simp add: cmd_wait_for_remove_def find_channel_def rb_find_by_def rb_remove_def)
  ultimately show ?thesis by (simp add: flush_channel_def)
qed

text \<open>C25: \<open>cmd_wait_for_flush\<close> continues every command that waits for a signal or for a lock, channel by
  channel, and leaves no channel behind.\<close>

theorem wait_for_flush_all:
  assumes "channels_ok wcs"
  shows "cmd_wait_for_flush wcs = (concat (map (\<lambda>wc. wc_waiters wc @ wc_lockers wc) wcs), [])"
proof -
  have "fold flush_channel xs (cont, xs) = (cont @ concat (map (\<lambda>wc. wc_waiters wc @ wc_lockers wc) xs), [])"
    if "ordered wc_name xs" for xs cont
    using that
  proof (induction xs arbitrary: cont)
    case (Cons wc xs)
    then show ?case using flush_first [OF Cons.prems, of cont] by simp
  qed simp
  then show ?thesis using assms by (simp add: cmd_wait_for_flush_def channels_ok_def)
qed

theorem wait_for_flush_all_witness:
  "cmd_wait_for_flush (snd (wait_run [Lock 1 ''b'', Lock 2 ''b'', Wait 3 ''a''] [])) = ([3, 2], [])"
proof -
  have r: "snd (wait_run [Lock 1 ''b'', Lock 2 ''b'', Wait 3 ''a''] []) =
      [\<lparr>wc_name = ''a'', wc_locked = False, wc_woken = False, wc_waiters = [3], wc_lockers = []\<rparr>,
       \<lparr>wc_name = ''b'', wc_locked = True, wc_woken = False, wc_waiters = [], wc_lockers = [2]\<rparr>]" by code_simp
  have "channels_ok (snd (wait_run [Lock 1 ''b'', Lock 2 ''b'', Wait 3 ''a''] []))"
    using wait_run_balance [OF channels_ok_Nil, of "[Lock 1 ''b'', Lock 2 ''b'', Wait 3 ''a'']"] by (metis prod.collapse)
  from wait_for_flush_all [OF this] show ?thesis unfolding r by simp
qed

end
