(* ===== verification/Utf8.thy ===== *)
theory Utf8
  imports Rust_Text
begin

text \<open>
  UTF-8 characters as the server keeps them (\<open>utf8.rs\<close>): \<open>utf8_data\<close> with the bytes of one character and
  its width, built byte by byte by \<open>utf8_open\<close> and \<open>utf8_append\<close>; \<open>utf8_char\<close>, the same packed into 32
  bits, with a table for the characters that do not fit; and the functions on whole strings.

  The parameters are the C library's \<open>mbtowc\<close> and \<open>wcwidth\<close> and the option \<open>codepoint-widths\<close>.  A result
  \<^const>\<open>None\<close> is a call of \<open>fatalx\<close>.
\<close>

section \<open>Characters\<close>

definition UTF8_SIZE :: nat where
  "UTF8_SIZE = 21"

record utf8_data =
  ud_data :: string
  ud_have :: nat
  ud_size :: nat
  ud_width :: nat

datatype utf8_state = UTF8_MORE | UTF8_DONE | UTF8_ERROR

definition zero_bytes :: string where
  "zero_bytes = replicate UTF8_SIZE (CHR 0x00)"

definition initialized_slice :: "utf8_data \<Rightarrow> string" where
  "initialized_slice ud = take (ud_size ud) (ud_data ud)"

record utf8_config =
  mbtowc :: "string \<Rightarrow> int \<times> int"
  wcwidth :: "int \<Rightarrow> int"
  width_cache :: "int \<rightharpoonup> nat"
  utf8proc :: bool

definition UTF8_FORCE_WIDE :: "int list" where
  "UTF8_FORCE_WIDE =
     [
      9757, 9977, 9994, 9995, 9996, 9997, 127462, 127463, 127464, 127465, 127466, 127467, 127468, 127469,
      127470, 127471, 127472, 127473, 127474, 127475, 127476, 127477, 127478, 127479, 127480, 127481, 127482, 127483,
      127484, 127485, 127486, 127487, 127877, 127938, 127939, 127940, 127943, 127946, 127947, 127948, 127995, 127996,
      127997, 127998, 127999, 128066, 128067, 128070, 128071, 128072, 128073, 128074, 128075, 128076, 128077, 128078,
      128079, 128080, 128102, 128103, 128104, 128105, 128107, 128108, 128109, 128110, 128112, 128113, 128114, 128115,
      128116, 128117, 128118, 128119, 128120, 128124, 128129, 128130, 128131, 128133, 128134, 128135, 128143, 128145,
      128170, 128372, 128373, 128378, 128400, 128405, 128406, 128581, 128582, 128583, 128587, 128588, 128589, 128590,
      128591, 128675, 128692, 128693, 128694, 128704, 128716, 129292, 129295, 129304, 129305, 129306, 129307, 129308,
      129309, 129310, 129311, 129318, 129328, 129329, 129330, 129331, 129332, 129333, 129334, 129335, 129336, 129337,
      129341, 129342, 129399, 129461, 129462, 129464, 129465, 129467, 129485, 129486, 129487, 129489, 129490, 129491,
      129492, 129493, 129494, 129495, 129496, 129497, 129498, 129499, 129500, 129501, 129731, 129732, 129733, 129776,
      129777, 129778, 129779, 129780, 129781, 129782, 129783, 129784]"

text \<open>\<open>binary_search\<close> in a sorted table.\<close>

definition utf8_in_table :: "int \<Rightarrow> int list \<Rightarrow> bool" where
  "utf8_in_table wc table \<longleftrightarrow> wc \<in> set table"

lemma force_wide_sorted: "sorted_wrt (<) UTF8_FORCE_WIDE"
  by code_simp

definition utf8_towc :: "utf8_config \<Rightarrow> utf8_data \<Rightarrow> int option" where
  "utf8_towc cfg ud =
     (case mbtowc cfg (initialized_slice ud) of (r, wc) \<Rightarrow> if r = - 1 \<or> r = 0 then None else Some wc)"

text \<open>The width of a character, or nothing for an error.\<close>

definition utf8_width :: "utf8_config \<Rightarrow> utf8_data \<Rightarrow> int option" where
  "utf8_width cfg ud =
     (case utf8_towc cfg ud of
        None \<Rightarrow> None
      | Some wc \<Rightarrow>
          (case width_cache cfg wc of
             Some w \<Rightarrow> Some (i32 (int w))
           | None \<Rightarrow>
               if 127462 \<le> wc \<and> wc \<le> 127487 then Some 1
               else if utf8_in_table wc UTF8_FORCE_WIDE then Some 2
               else (let w0 = wcwidth cfg wc;
                         w = (if utf8proc cfg \<or> w0 \<ge> 0 then w0 else if 128 \<le> wc \<and> wc \<le> 159 then 0 else 1)
                     in if 0 \<le> w \<and> w \<le> 255 then Some w else None)))"

definition utf8_append :: "utf8_config \<Rightarrow> utf8_data \<Rightarrow> char \<Rightarrow> (utf8_state \<times> utf8_data) option" where
  "utf8_append cfg ud ch =
     (if ud_have ud \<ge> ud_size ud then None
      else if ud_size ud > UTF8_SIZE then None
      else (let ud1 = (if ud_have ud \<noteq> 0 \<and> \<not> cont_byte ch then ud\<lparr>ud_width := 255\<rparr> else ud);
                ud2 = ud1\<lparr>ud_data := (ud_data ud1)[ud_have ud := ch], ud_have := ud_have ud + 1\<rparr>
            in Some (if ud_have ud2 \<noteq> ud_size ud2 then (UTF8_MORE, ud2)
                     else if ud_width ud2 = 255 then (UTF8_ERROR, ud2)
                     else (case utf8_width cfg ud2 of
                             None \<Rightarrow> (UTF8_ERROR, ud2)
                           | Some w \<Rightarrow> (UTF8_DONE, ud2\<lparr>ud_width := nat (w mod 256)\<rparr>)))))"

definition utf8_open :: "utf8_config \<Rightarrow> char \<Rightarrow> (utf8_state \<times> utf8_data) option" where
  "utf8_open cfg ch =
     (let ud = \<lparr>ud_data = zero_bytes, ud_have = 0, ud_size = 0, ud_width = 0\<rparr>;
          open = (\<lambda>n. case utf8_append cfg (ud\<lparr>ud_size := n\<rparr>) ch of None \<Rightarrow> None | Some (_, ud') \<Rightarrow> Some (UTF8_MORE, ud'))
      in if 194 \<le> byte ch \<and> byte ch \<le> 223 then open 2
         else if 224 \<le> byte ch \<and> byte ch \<le> 239 then open 3
         else if 240 \<le> byte ch \<and> byte ch \<le> 244 then open 4
         else Some (UTF8_ERROR, ud))"

definition utf8_set :: "char \<Rightarrow> utf8_data" where
  "utf8_set ch = \<lparr>ud_data = zero_bytes[0 := ch], ud_have = 1, ud_size = 1, ud_width = 1\<rparr>"

definition utf8_copy :: "utf8_data \<Rightarrow> utf8_data" where
  "utf8_copy from =
     from\<lparr>ud_data := take (ud_size from) (ud_data from) @ replicate (length (ud_data from) - ud_size from) (CHR 0x00)\<rparr>"

section \<open>Packed characters\<close>

type_synonym utf8_char = nat

record utf8_table =
  data_tree :: "string \<rightharpoonup> nat"
  index_tree :: "nat \<rightharpoonup> string"
  utf8_next_index :: nat

definition utf8_get_size :: "utf8_char \<Rightarrow> nat" where
  "utf8_get_size uc = uc div 16777216 mod 32"

definition utf8_get_width :: "utf8_char \<Rightarrow> nat" where
  "utf8_get_width uc = nat ((int (uc div 536870912) - 1) mod 256)"

definition utf8_set_size :: "nat \<Rightarrow> utf8_char" where
  "utf8_set_size n = n * 16777216 mod 4294967296"

definition utf8_set_width :: "nat \<Rightarrow> utf8_char" where
  "utf8_set_width n = (n + 1) * 536870912 mod 4294967296"

text \<open>The three parts of a packed character occupy different bits, so that \<open>|\<close> adds them.\<close>

definition pack_char :: "nat \<Rightarrow> nat \<Rightarrow> nat \<Rightarrow> utf8_char" where
  "pack_char sz width index = utf8_set_size sz + utf8_set_width width + index"

definition utf8_put_item :: "utf8_table \<Rightarrow> string \<Rightarrow> (nat \<times> utf8_table) option" where
  "utf8_put_item t s =
     (case data_tree t s of
        Some i \<Rightarrow> Some (i, t)
      | None \<Rightarrow>
          if utf8_next_index t = 16777216 then None
          else (let i = utf8_next_index t
                in Some (i, t\<lparr>utf8_next_index := i + 1, index_tree := (index_tree t)(i \<mapsto> s),
                              data_tree := (data_tree t)(s \<mapsto> i)\<rparr>)))"

definition utf8_fallback :: "nat \<Rightarrow> utf8_char" where
  "utf8_fallback width =
     (if width = 0 then pack_char 0 0 0 else if width = 1 then pack_char 1 1 32 else pack_char 1 1 8224)"

definition utf8_from_data :: "utf8_table \<Rightarrow> utf8_data \<Rightarrow> (utf8_state \<times> utf8_char \<times> utf8_table) option" where
  "utf8_from_data t ud =
     (if ud_width ud > 2 then None
      else if ud_size ud > UTF8_SIZE then Some (UTF8_ERROR, utf8_fallback (ud_width ud), t)
      else if ud_size ud \<le> 3
      then Some (UTF8_DONE, pack_char (ud_size ud) (ud_width ud)
             (byte (ud_data ud ! 2) * 65536 + byte (ud_data ud ! 1) * 256 + byte (ud_data ud ! 0)), t)
      else (case utf8_put_item t (take (ud_size ud) (ud_data ud)) of
              None \<Rightarrow> Some (UTF8_ERROR, utf8_fallback (ud_width ud), t)
            | Some (index, t') \<Rightarrow> Some (UTF8_DONE, pack_char (ud_size ud) (ud_width ud) index, t')))"

text \<open>A table entry of another length makes \<open>copy_from_slice\<close> panic.\<close>

definition utf8_to_data :: "utf8_table \<Rightarrow> utf8_char \<Rightarrow> utf8_data option" where
  "utf8_to_data t uc =
     (let n = utf8_get_size uc;
          ud = \<lparr>ud_data = zero_bytes, ud_have = n, ud_size = n, ud_width = utf8_get_width uc\<rparr>
      in if n \<le> 3
         then Some (ud\<lparr>ud_data := zero_bytes[2 := char_of (uc div 65536 mod 256), 1 := char_of (uc div 256 mod 256),
                                           0 := char_of (uc mod 256)]\<rparr>)
         else if n > UTF8_SIZE then None
         else (case index_tree t (uc mod 16777216) of
                 None \<Rightarrow> Some (ud\<lparr>ud_data := replicate n (CHR '' '') @ drop n zero_bytes\<rparr>)
               | Some s \<Rightarrow> if length s = n then Some (ud\<lparr>ud_data := s @ drop n zero_bytes\<rparr>) else None))"

definition utf8_build_one :: "char \<Rightarrow> utf8_char" where
  "utf8_build_one ch = pack_char 1 1 (byte ch)"

section \<open>Strings\<close>

text \<open>The inner loop that the string functions share: bytes are appended as long as the character wants
  more and there are any.\<close>

fun utf8_feed :: "utf8_config \<Rightarrow> utf8_state \<times> utf8_data \<Rightarrow> string \<Rightarrow> (utf8_state \<times> utf8_data \<times> string) option" where
  "utf8_feed cfg (st0, ud) [] = Some (st0, ud, [])"
| "utf8_feed cfg (st0, ud) (c # s) =
     (if st0 \<noteq> UTF8_MORE then Some (st0, ud, c # s)
      else (case utf8_append cfg ud c of None \<Rightarrow> None | Some st \<Rightarrow> utf8_feed cfg st s))"

text \<open>One character at the head of a string: what was decoded and the rest, or that it is no character.\<close>

definition utf8_take :: "utf8_config \<Rightarrow> char \<Rightarrow> string \<Rightarrow> (utf8_data \<times> string) option option" where
  "utf8_take cfg c s =
     (case utf8_open cfg c of
        None \<Rightarrow> None
      | Some (UTF8_MORE, ud) \<Rightarrow>
          (case utf8_feed cfg (UTF8_MORE, ud) s of
             None \<Rightarrow> None
           | Some (UTF8_DONE, ud', rest) \<Rightarrow> Some (Some (ud', rest))
           | Some _ \<Rightarrow> Some None)
      | Some _ \<Rightarrow> Some None)"

lemma utf8_feed_rest: "utf8_feed cfg st s = Some (st', ud', rest) \<Longrightarrow> \<exists>pre. s = pre @ rest"
proof (induction cfg st s rule: utf8_feed.induct)
  case (2 cfg st0 ud c s)
  then show ?case by (cases "utf8_append cfg ud c") (auto split: if_splits)
qed simp

lemma utf8_take_rest: "utf8_take cfg c s = Some (Some (ud, rest)) \<Longrightarrow> \<exists>pre. s = pre @ rest"
  by (auto simp: utf8_take_def dest: utf8_feed_rest split: option.splits utf8_state.splits prod.splits)

lemma utf8_take_length: "utf8_take cfg c s = Some (Some (ud, rest)) \<Longrightarrow> length rest \<le> length s"
  using utf8_take_rest by fastforce

text \<open>The functions that walk over a C string share their skeleton: a step for a whole character, one for
  a byte that is not part of one.  \<open>utf8_walk\<close> lists the steps.\<close>

datatype utf8_unit = UWhole utf8_data | UByte char

function utf8_walk :: "utf8_config \<Rightarrow> string \<Rightarrow> utf8_unit list option" where
  "utf8_walk cfg [] = Some []"
| "utf8_walk cfg (c # s) =
     (case utf8_take cfg c s of
        None \<Rightarrow> None
      | Some (Some (ud, rest)) \<Rightarrow> map_option (Cons (UWhole ud)) (utf8_walk cfg rest)
      | Some None \<Rightarrow> map_option (Cons (UByte c)) (utf8_walk cfg s))"
  by pat_completeness auto
termination
  by (relation "measure (\<lambda>(cfg, s). length s)") (auto dest: utf8_take_length)

definition unit_data :: "utf8_unit \<Rightarrow> utf8_data" where
  "unit_data u = (case u of UWhole ud \<Rightarrow> ud | UByte c \<Rightarrow> utf8_set c)"

definition utf8_fromcstr :: "utf8_config \<Rightarrow> string \<Rightarrow> utf8_data list option" where
  "utf8_fromcstr cfg s = map_option (map unit_data) (utf8_walk cfg s)"

text \<open>An array of characters ends at the first of size 0.\<close>

definition utf8_tocstr :: "utf8_data list \<Rightarrow> string" where
  "utf8_tocstr uds = concat (map initialized_slice (takeWhile (\<lambda>ud. ud_size ud \<noteq> 0) uds))"

definition utf8_strlen :: "utf8_data list \<Rightarrow> nat" where
  "utf8_strlen uds = length (takeWhile (\<lambda>ud. ud_size ud \<noteq> 0) uds)"

definition utf8_strwidth :: "utf8_data list \<Rightarrow> int \<Rightarrow> u32" where
  "utf8_strwidth uds n =
     (let cs = takeWhile (\<lambda>ud. ud_size ud \<noteq> 0) uds
      in u32 (int (sum_list (map ud_width (if n < 0 then cs else take (nat n) cs)))))"

definition unit_width :: "utf8_unit \<Rightarrow> nat" where
  "unit_width u = (case u of UWhole ud \<Rightarrow> ud_width ud | UByte c \<Rightarrow> if byte c > 31 \<and> byte c \<noteq> 127 then 1 else 0)"

definition utf8_cstrwidth :: "utf8_config \<Rightarrow> string \<Rightarrow> u32 option" where
  "utf8_cstrwidth cfg s = map_option (\<lambda>us. u32 (int (sum_list (map unit_width us)))) (utf8_walk cfg s)"

definition unit_valid :: "utf8_unit \<Rightarrow> bool" where
  "unit_valid u = (case u of UWhole ud \<Rightarrow> True | UByte c \<Rightarrow> 32 \<le> byte c \<and> byte c \<le> 126)"

text \<open>\<open>utf8_isvalid\<close> stops at the first failure; a byte that opens a character and is not completed fails
  too, which is the same here because such a byte is above 126.\<close>

definition utf8_isvalid :: "utf8_config \<Rightarrow> string \<Rightarrow> bool option" where
  "utf8_isvalid cfg s = map_option (list_all unit_valid) (utf8_walk cfg s)"

definition unit_sanitized :: "utf8_unit \<Rightarrow> string" where
  "unit_sanitized u =
     (case u of UWhole ud \<Rightarrow> replicate (ud_width ud) (CHR ''_'')
      | UByte c \<Rightarrow> if byte c > 31 \<and> byte c < 127 then [c] else ''_'')"

text \<open>For a whole character the result is made as long as what is written so far and the character take
  together; asking for no byte at all is fatal (\<open>xreallocarray_\<close>).\<close>

fun sanitize_units :: "string \<Rightarrow> utf8_unit list \<Rightarrow> string option" where
  "sanitize_units dst [] = Some dst"
| "sanitize_units dst (u # us) =
     (if (case u of UWhole ud \<Rightarrow> length dst + ud_width ud = 0 | UByte _ \<Rightarrow> False) then None
      else sanitize_units (dst @ unit_sanitized u) us)"

definition utf8_sanitize :: "utf8_config \<Rightarrow> string \<Rightarrow> string option" where
  "utf8_sanitize cfg s = Option.bind (utf8_walk cfg s) (sanitize_units [])"

definition utf8_padcstr :: "utf8_config \<Rightarrow> string \<Rightarrow> u32 \<Rightarrow> string option" where
  "utf8_padcstr cfg s width =
     map_option (\<lambda>n. if n \<ge> width then s else s @ replicate (nat (width - n)) (CHR '' '')) (utf8_cstrwidth cfg s)"

definition utf8_rpadcstr :: "utf8_config \<Rightarrow> string \<Rightarrow> u32 \<Rightarrow> string option" where
  "utf8_rpadcstr cfg s width =
     map_option (\<lambda>n. if n \<ge> width then s else replicate (nat (width - n)) (CHR '' '') @ s) (utf8_cstrwidth cfg s)"

definition utf8_cstrhas :: "utf8_config \<Rightarrow> string \<Rightarrow> utf8_data \<Rightarrow> bool option" where
  "utf8_cstrhas cfg s ud =
     map_option (\<lambda>uds. \<exists>x \<in> set (takeWhile (\<lambda>x. ud_size x \<noteq> 0) uds).
       ud_size x = ud_size ud \<and> take (ud_size x) (ud_data x) = take (ud_size x) (ud_data ud)) (utf8_fromcstr cfg s)"

end
