(* ===== verification/Utf8_Sound.thy ===== *)
theory Utf8_Sound
  imports Utf8
begin

text \<open>
  What the UTF-8 functions guarantee: packing a character into 32 bits loses nothing, splitting a C string
  into characters loses no byte, padding reaches the requested width, and sanitised strings are printable.
\<close>

section \<open>Packed characters\<close>

definition utf8_ok :: "utf8_data \<Rightarrow> bool" where
  "utf8_ok ud \<longleftrightarrow> length (ud_data ud) = UTF8_SIZE \<and> ud_size ud \<le> UTF8_SIZE \<and> ud_width ud \<le> 2 \<and>
     drop (ud_size ud) (ud_data ud) = drop (ud_size ud) zero_bytes"

definition utf8_table_ok :: "utf8_table \<Rightarrow> bool" where
  "utf8_table_ok t \<longleftrightarrow> (\<forall>s i. data_tree t s = Some i \<longleftrightarrow> index_tree t i = Some s) \<and>
     (\<forall>i. index_tree t i \<noteq> None \<longleftrightarrow> i < utf8_next_index t) \<and> utf8_next_index t \<le> 16777216"

text \<open>The characters that can be unpacked: small ones, and those whose entry has the length they claim.\<close>

definition known_char :: "utf8_table \<Rightarrow> utf8_char \<Rightarrow> bool" where
  "known_char t uc \<longleftrightarrow> utf8_get_size uc \<le> 3 \<or>
     (\<exists>s. index_tree t (uc mod 16777216) = Some s \<and> length s = utf8_get_size uc)"

lemma pack_fields:
  assumes "sz < 32" "w \<le> 2" "index < 16777216"
  shows "utf8_get_size (pack_char sz w index) = sz" "utf8_get_width (pack_char sz w index) = w"
    "pack_char sz w index mod 16777216 = index" "pack_char sz w index < 4294967296"
proof -
  define k where "k = (w + 1) * 32 + sz"
  have k: "pack_char sz w index = k * 16777216 + index" "k < 128"
    using assms by (simp_all add: pack_char_def utf8_set_size_def utf8_set_width_def k_def)
  have d: "pack_char sz w index div 16777216 = k" using k assms by simp
  have "pack_char sz w index div 536870912 = pack_char sz w index div 16777216 div 32" by (simp add: div_mult2_eq [symmetric])
  then have e: "pack_char sz w index div 536870912 = w + 1" using d assms by (simp add: k_def)
  have "k mod 32 = sz" unfolding k_def using assms(1) by (simp only: mod_mult_self3 mod_less)
  then show "utf8_get_size (pack_char sz w index) = sz" unfolding utf8_get_size_def d .
  show "utf8_get_width (pack_char sz w index) = w" unfolding utf8_get_width_def e using assms by simp
  show "pack_char sz w index mod 16777216 = index" using k assms by simp
  show "pack_char sz w index < 4294967296" using k assms by simp
qed

lemma put_item_ok:
  assumes "utf8_table_ok t" "utf8_next_index t < 16777216"
  obtains i t' where "utf8_put_item t s = Some (i, t')" "utf8_table_ok t'" "index_tree t' i = Some s"
    "i < 16777216" "index_tree t \<subseteq>\<^sub>m index_tree t'"
proof (cases "data_tree t s")
  case None
  define i where "i = utf8_next_index t"
  define t' where "t' = t\<lparr>utf8_next_index := i + 1, index_tree := (index_tree t)(i \<mapsto> s), data_tree := (data_tree t)(s \<mapsto> i)\<rparr>"
  have new: "index_tree t i = None" using assms(1) unfolding utf8_table_ok_def i_def by blast
  have eq: "data_tree t u = Some j \<longleftrightarrow> index_tree t j = Some u" for u j using assms(1) by (simp add: utf8_table_ok_def)
  have "data_tree t' u = Some j \<longleftrightarrow> index_tree t' j = Some u" for u j
    using eq [of u j] eq [of s j] eq [of u i] None new by (auto simp: t'_def)
  moreover have "index_tree t' j \<noteq> None \<longleftrightarrow> j < utf8_next_index t'" for j
    using assms(1) by (auto simp: t'_def utf8_table_ok_def i_def less_Suc_eq)
  ultimately have "utf8_table_ok t'" using assms(2) by (simp add: utf8_table_ok_def t'_def i_def)
  moreover have "utf8_put_item t s = Some (i, t')"
    using None assms(2) by (simp add: utf8_put_item_def i_def t'_def Let_def)
  moreover have "index_tree t \<subseteq>\<^sub>m index_tree t'" using new by (auto simp: t'_def map_le_def)
  ultimately show thesis using that assms(2) by (simp add: t'_def i_def)
next
  case (Some i)
  then have i: "index_tree t i = Some s" "i < 16777216"
    using assms(1) unfolding utf8_table_ok_def by (blast, metis assms(2) option.distinct(1) order_less_trans)
  with Some assms(1) show thesis using that [of i t] by (simp add: utf8_put_item_def)
qed

lemma known_char_mono:
  assumes "known_char t uc" "index_tree t \<subseteq>\<^sub>m index_tree t'"
  shows "utf8_to_data t' uc = utf8_to_data t uc \<and> known_char t' uc"
proof (cases "utf8_get_size uc \<le> 3")
  case False
  then obtain s where "index_tree t (uc mod 16777216) = Some s" "length s = utf8_get_size uc"
    using assms(1) by (auto simp: known_char_def)
  moreover from this(1) have "index_tree t' (uc mod 16777216) = Some s" using assms(2) by (metis domI map_le_def)
  ultimately show ?thesis by (simp add: utf8_to_data_def known_char_def Let_def)
qed (simp add: utf8_to_data_def known_char_def Let_def)

lemma byte_less [simp]: "byte c < 256"
  by simp

lemma three_bytes:
  fixes a b c k :: nat
  assumes "a < 256" "b < 256" "c < 256"
  defines "n \<equiv> k * 16777216 + (c * 65536 + b * 256 + a)"
  shows "n div 65536 mod 256 = c" "n div 256 mod 256 = b" "n mod 256 = a" "c * 65536 + b * 256 + a < 16777216"
proof -
  have split: "(q * m + r) div m = q" "(q * m + r) mod m = r" if "r < m" for q m r :: nat using that by simp_all
  have n: "n = ((k * 256 + c) * 256 + b) * 256 + a" by (simp add: n_def algebra_simps)
  have 1: "n div 256 = (k * 256 + c) * 256 + b" "n mod 256 = a" unfolding n using split assms by blast+
  show "n mod 256 = a" by (rule 1)
  show "n div 256 mod 256 = b" unfolding 1 using split assms by blast
  have "n div 65536 = n div 256 div 256" by (simp add: div_mult2_eq [symmetric])
  also have "\<dots> = k * 256 + c" unfolding 1 using split assms by blast
  finally show "n div 65536 mod 256 = c" using split assms by metis
  show "c * 65536 + b * 256 + a < 16777216" using assms by linarith
qed

lemma small_data:
  assumes "utf8_ok ud" "ud_size ud \<le> 3"
  shows "ud_data ud = zero_bytes[2 := ud_data ud ! 2, 1 := ud_data ud ! 1, 0 := ud_data ud ! 0]"
proof -
  have l: "length (ud_data ud) = 21" using assms(1) by (simp add: utf8_ok_def UTF8_SIZE_def)
  have "drop (3 - ud_size ud) (drop (ud_size ud) (ud_data ud)) = drop (3 - ud_size ud) (drop (ud_size ud) zero_bytes)"
    using assms(1) by (simp add: utf8_ok_def)
  then have "drop 3 (ud_data ud) = drop 3 zero_bytes" using assms(2) by simp
  moreover have "ud_data ud = [ud_data ud ! 0, ud_data ud ! 1, ud_data ud ! 2] @ drop 3 (ud_data ud)"
    using l by (intro nth_equalityI) (auto simp: nth_Cons nth_append numeral_eq_Suc split: nat.splits)
  moreover have "zero_bytes[2 := z, 1 := y, 0 := x] = [x, y, z] @ drop 3 zero_bytes" for x y z
    by (simp add: zero_bytes_def UTF8_SIZE_def numeral_eq_Suc)
  ultimately show ?thesis by metis
qed

lemma to_data_small:
  assumes "utf8_get_size uc \<le> 3" "uc div 65536 mod 256 = byte c" "uc div 256 mod 256 = byte b" "uc mod 256 = byte a"
  shows "utf8_to_data t uc = Some \<lparr>ud_data = zero_bytes[2 := c, 1 := b, 0 := a], ud_have = utf8_get_size uc,
    ud_size = utf8_get_size uc, ud_width = utf8_get_width uc\<rparr>"
  using assms(1) unfolding utf8_to_data_def assms(2-4) Let_def by simp

lemma utf8_pack:
  assumes "utf8_table_ok t" "utf8_ok ud" "utf8_next_index t < 16777216"
  shows "\<exists>uc t'. utf8_from_data t ud = Some (UTF8_DONE, uc, t') \<and> uc < 4294967296 \<and>
    utf8_to_data t' uc = Some (ud\<lparr>ud_have := ud_size ud\<rparr>) \<and> utf8_table_ok t' \<and> known_char t' uc \<and>
    (\<forall>uc0. known_char t uc0 \<longrightarrow> known_char t' uc0 \<and> utf8_to_data t' uc0 = utf8_to_data t uc0)"
proof -
  have sz: "ud_size ud < 32" "ud_width ud \<le> 2" "ud_size ud \<le> 21" "length (ud_data ud) = 21"
    using assms(2) by (simp_all add: utf8_ok_def UTF8_SIZE_def)
  show ?thesis
  proof (cases "ud_size ud \<le> 3")
    case True
    let ?b = "\<lambda>i. byte (ud_data ud ! i)"
    let ?uc = "pack_char (ud_size ud) (ud_width ud) (?b 2 * 65536 + ?b 1 * 256 + ?b 0)"
    note tb = three_bytes [of "?b 0" "?b 1" "?b 2", OF byte_less byte_less byte_less]
    note pf = pack_fields [OF sz(1,2) tb(4)]
    have "?uc = ?uc div 16777216 * 16777216 + ?uc mod 16777216" by (simp add: mult.commute)
    then have uc: "?uc = ?uc div 16777216 * 16777216 + (?b 2 * 65536 + ?b 1 * 256 + ?b 0)" unfolding pf(3) .
    have bs: "?uc div 65536 mod 256 = ?b 2" "?uc div 256 mod 256 = ?b 1" "?uc mod 256 = ?b 0"
      by (subst uc, rule tb)+
    have "utf8_get_size ?uc \<le> 3" unfolding pf by (rule True)
    from to_data_small [OF this bs] have "utf8_to_data t ?uc = Some (ud\<lparr>ud_have := ud_size ud\<rparr>)"
      unfolding pf small_data [OF assms(2) True, symmetric] by simp
    moreover have "utf8_from_data t ud = Some (UTF8_DONE, ?uc, t)" using True sz by (simp add: utf8_from_data_def UTF8_SIZE_def)
    ultimately show ?thesis using assms(1) pf True by (auto simp: known_char_def)
  next
    case False
    obtain i t' where t': "utf8_put_item t (take (ud_size ud) (ud_data ud)) = Some (i, t')" "utf8_table_ok t'"
      "index_tree t' i = Some (take (ud_size ud) (ud_data ud))" "i < 16777216" "index_tree t \<subseteq>\<^sub>m index_tree t'"
      using put_item_ok [OF assms(1,3)] .
    note pf = pack_fields [OF sz(1,2) t'(4)]
    have d: "take (ud_size ud) (ud_data ud) @ drop (ud_size ud) zero_bytes = ud_data ud"
      using assms(2) append_take_drop_id [of "ud_size ud" "ud_data ud"] by (simp add: utf8_ok_def)
    have "utf8_to_data t' (pack_char (ud_size ud) (ud_width ud) i) = Some (ud\<lparr>ud_have := ud_size ud\<rparr>)"
      using False sz t'(3) d by (simp add: utf8_to_data_def pf Let_def UTF8_SIZE_def)
    moreover have "utf8_from_data t ud = Some (UTF8_DONE, pack_char (ud_size ud) (ud_width ud) i, t')"
      using False sz t'(1) by (simp add: utf8_from_data_def UTF8_SIZE_def)
    ultimately show ?thesis using t' pf sz known_char_mono [OF _ t'(5)] by (auto simp: known_char_def)
  qed
qed

text \<open>C31: packing a character into 32 bits succeeds as long as the table has room, and unpacking gives the
  same bytes, size and width; the table stays consistent, and every character packed before still
  unpacks to what it was.\<close>

theorem utf8_pack_roundtrip:
  assumes "utf8_table_ok t" "utf8_ok ud" "utf8_next_index t < 16777216"
  shows "\<exists>uc t'. utf8_from_data t ud = Some (UTF8_DONE, uc, t') \<and> uc < 4294967296 \<and>
    utf8_to_data t' uc = Some (ud\<lparr>ud_have := ud_size ud\<rparr>) \<and> utf8_table_ok t' \<and> known_char t' uc \<and>
    (\<forall>uc0. known_char t uc0 \<longrightarrow> known_char t' uc0 \<and> utf8_to_data t' uc0 = utf8_to_data t uc0)"
  using utf8_pack [OF assms] .

definition example_char :: utf8_data where
  "example_char = \<lparr>ud_data = map char_of [240::nat, 159, 152, 128] @ drop 4 zero_bytes, ud_have = 4, ud_size = 4, ud_width = 2\<rparr>"

theorem utf8_pack_roundtrip_witness:
  "\<exists>uc t'. utf8_from_data \<lparr>data_tree = Map.empty, index_tree = Map.empty, utf8_next_index = 0\<rparr> example_char = Some (UTF8_DONE, uc, t') \<and>
     utf8_to_data t' uc = Some example_char"
  using utf8_pack_roundtrip [of "\<lparr>data_tree = Map.empty, index_tree = Map.empty, utf8_next_index = 0\<rparr>" example_char]
  by (auto simp: utf8_table_ok_def utf8_ok_def example_char_def UTF8_SIZE_def zero_bytes_def)


section \<open>Strings\<close>

text \<open>A character under construction from the bytes \<open>p\<close>.\<close>

definition building :: "string \<Rightarrow> utf8_data \<Rightarrow> bool" where
  "building p ud \<longleftrightarrow> length (ud_data ud) = UTF8_SIZE \<and> ud_have ud = length p \<and> take (length p) (ud_data ud) = p \<and>
     length p \<le> ud_size ud \<and> 2 \<le> ud_size ud \<and> ud_size ud \<le> 4"

lemma append_building:
  assumes "building p ud" "length p < ud_size ud"
  obtains st ud' where "utf8_append cfg ud c = Some (st, ud')" "building (p @ [c]) ud'" "ud_size ud' = ud_size ud"
    "st = UTF8_MORE \<longleftrightarrow> length (p @ [c]) < ud_size ud"
    "ud_width ud = 255 \<or> p \<noteq> [] \<and> \<not> cont_byte c \<Longrightarrow> ud_width ud' = 255 \<and> st \<noteq> UTF8_DONE"
proof -
  have l: "length p < length (ud_data ud)" using assms by (simp add: building_def UTF8_SIZE_def)
  have t: "take (Suc (length p)) ((ud_data ud)[length p := c]) = p @ [c]"
    using l assms(1) by (simp add: take_Suc_conv_app_nth building_def)
  define ud2 where "ud2 = (if ud_have ud \<noteq> 0 \<and> \<not> cont_byte c then ud\<lparr>ud_width := 255\<rparr> else ud)
    \<lparr>ud_data := (ud_data ud)[ud_have ud := c], ud_have := ud_have ud + 1\<rparr>"
  have b2: "building (p @ [c]) ud2" "ud_size ud2 = ud_size ud" "ud_have ud2 = length (p @ [c])"
    "ud_width ud = 255 \<or> p \<noteq> [] \<and> \<not> cont_byte c \<Longrightarrow> ud_width ud2 = 255"
    using assms l t by (auto simp: building_def ud2_def)
  have wid: "building (p @ [c]) (ud2\<lparr>ud_width := w\<rparr>)" for w using b2(1) by (simp add: building_def)
  have h: "\<not> ud_size ud \<le> ud_have ud" "\<not> UTF8_SIZE < ud_size ud" using assms by (simp_all add: building_def UTF8_SIZE_def)
  have ap: "utf8_append cfg ud c = Some (if ud_have ud2 \<noteq> ud_size ud2 then (UTF8_MORE, ud2)
      else if ud_width ud2 = 255 then (UTF8_ERROR, ud2)
      else (case utf8_width cfg ud2 of None \<Rightarrow> (UTF8_ERROR, ud2) | Some w \<Rightarrow> (UTF8_DONE, ud2\<lparr>ud_width := nat (w mod 256)\<rparr>)))"
    using h unfolding utf8_append_def ud2_def Let_def by simp
  show thesis
  proof (cases "ud_have ud2 \<noteq> ud_size ud2")
    case True
    then show ?thesis using that [of UTF8_MORE ud2] ap b2 assms(2) by simp
  next
    case full: False
    show ?thesis
    proof (cases "ud_width ud2 = 255 \<or> utf8_width cfg ud2 = None")
      case True
      then show ?thesis using that [of UTF8_ERROR ud2] ap b2 full by auto
    next
      case False
      then obtain w where "utf8_width cfg ud2 = Some w" by auto
      then show ?thesis using that [of UTF8_DONE "ud2\<lparr>ud_width := nat (w mod 256)\<rparr>"] ap b2 full wid False by auto
    qed
  qed
qed

definition feed_state :: "string \<Rightarrow> utf8_state \<Rightarrow> utf8_data \<Rightarrow> bool" where
  "feed_state p st ud \<longleftrightarrow> building p ud \<and> (st = UTF8_MORE \<longleftrightarrow> length p < ud_size ud)"

lemma feed_building:
  assumes "feed_state p st ud"
  obtains st' ud' q rest where "utf8_feed cfg (st, ud) s = Some (st', ud', rest)" "s = q @ rest" "feed_state (p @ q) st' ud'"
    "ud_size ud' = ud_size ud" "st' = UTF8_MORE \<Longrightarrow> rest = []"
  using assms
proof (induction s arbitrary: p st ud thesis)
  case Nil
  then show ?case by simp
next
  case (Cons c s)
  show ?case
  proof (cases "st = UTF8_MORE")
    case True
    then have "building p ud" "length p < ud_size ud" using Cons.prems(2) by (auto simp: feed_state_def)
    from append_building [OF this, of cfg c] obtain st1 ud1 where a: "utf8_append cfg ud c = Some (st1, ud1)"
      "feed_state (p @ [c]) st1 ud1" "ud_size ud1 = ud_size ud" by (metis feed_state_def)
    show ?thesis
    proof (rule Cons.IH [OF _ a(2)])
      fix st' ud' q rest assume "utf8_feed cfg (st1, ud1) s = Some (st', ud', rest)" "s = q @ rest"
        "feed_state ((p @ [c]) @ q) st' ud'" "ud_size ud' = ud_size ud1" "st' = UTF8_MORE \<Longrightarrow> rest = []"
      then show ?thesis using Cons.prems(1) [of st' ud' rest "c # q"] a True by simp
    qed
  next
    case False
    then show ?thesis using Cons.prems(1) [of st ud "c # s" "[]"] Cons.prems(2) by simp
  qed
qed

lemma open_state:
  obtains "utf8_open cfg c = Some (UTF8_ERROR, \<lparr>ud_data = zero_bytes, ud_have = 0, ud_size = 0, ud_width = 0\<rparr>)" "byte c < 194 \<or> 244 < byte c"
  | ud where "utf8_open cfg c = Some (UTF8_MORE, ud)" "feed_state [c] UTF8_MORE ud" "194 \<le> byte c"
proof -
  have o: "\<exists>ud. (case utf8_append cfg \<lparr>ud_data = zero_bytes, ud_have = 0, ud_size = n, ud_width = 0\<rparr> c of
      None \<Rightarrow> None | Some (_, ud') \<Rightarrow> Some (UTF8_MORE, ud')) = Some (UTF8_MORE, ud) \<and> feed_state [c] UTF8_MORE ud"
    if "2 \<le> n" "n \<le> 4" for n
  proof -
    have "building [] \<lparr>ud_data = zero_bytes, ud_have = 0, ud_size = n, ud_width = 0\<rparr>"
      using that by (simp add: building_def zero_bytes_def)
    from append_building [OF this, of cfg c] that show ?thesis by (fastforce simp: feed_state_def)
  qed
  consider "byte c < 194 \<or> 244 < byte c" | "194 \<le> byte c \<and> byte c \<le> 223" | "224 \<le> byte c \<and> byte c \<le> 239"
    | "240 \<le> byte c \<and> byte c \<le> 244"
    by linarith
  then show thesis
  proof cases
    case 1
    then have "utf8_open cfg c = Some (UTF8_ERROR, \<lparr>ud_data = zero_bytes, ud_have = 0, ud_size = 0, ud_width = 0\<rparr>)"
      by (auto simp: utf8_open_def Let_def)
    then show ?thesis using that(1) 1 by blast
  next
    case 2
    then show ?thesis using that(2) o [of 2] by (auto simp: utf8_open_def Let_def)
  next
    case 3
    then show ?thesis using that(2) o [of 3] by (auto simp: utf8_open_def Let_def)
  next
    case 4
    then show ?thesis using that(2) o [of 4] by (auto simp: utf8_open_def Let_def)
  qed
qed

text \<open>One step of the walk: a whole character of 2 to 4 bytes, or a byte that does not start one.\<close>

definition whole :: "utf8_data \<Rightarrow> bool" where
  "whole ud \<longleftrightarrow> length (ud_data ud) = UTF8_SIZE \<and> ud_have ud = ud_size ud \<and> 2 \<le> ud_size ud \<and> ud_size ud \<le> 4"

lemma take_cases:
  obtains ud rest where "utf8_take cfg c s = Some (Some (ud, rest))" "c # s = initialized_slice ud @ rest" "whole ud" "194 \<le> byte c"
  | "utf8_take cfg c s = Some None"
proof (rule open_state [of cfg c])
  fix ud assume o: "utf8_open cfg c = Some (UTF8_MORE, ud)" "feed_state [c] UTF8_MORE ud" "194 \<le> byte c"
  obtain st' ud' q rest where f: "utf8_feed cfg (UTF8_MORE, ud) s = Some (st', ud', rest)" "s = q @ rest"
    "feed_state ([c] @ q) st' ud'" using feed_building [OF o(2)] by metis
  show thesis
  proof (cases "st' = UTF8_DONE")
    case True
    then have "initialized_slice ud' = c # q" "whole ud'"
      using f(3) by (auto simp: feed_state_def building_def initialized_slice_def whole_def)
    then show ?thesis using that(1) [of ud' rest] True o f by (simp add: utf8_take_def)
  next
    case False
    then have "utf8_take cfg c s = Some None" using o f by (cases st') (simp_all add: utf8_take_def)
    then show ?thesis using that(2) by blast
  qed
qed (use that(2) in \<open>simp add: utf8_take_def\<close>)

definition unit_bytes :: "utf8_unit \<Rightarrow> string" where
  "unit_bytes u = (case u of UWhole ud \<Rightarrow> initialized_slice ud | UByte c \<Rightarrow> [c])"

definition unit_ok :: "utf8_unit \<Rightarrow> bool" where
  "unit_ok u \<longleftrightarrow> (case u of UWhole ud \<Rightarrow> whole ud | UByte c \<Rightarrow> True)"

lemma utf8_walk_bytes: "\<exists>us. utf8_walk cfg s = Some us \<and> concat (map unit_bytes us) = s \<and> list_all unit_ok us"
proof (induction "length s" arbitrary: s rule: less_induct)
  case less
  show ?case
  proof (cases s)
    case (Cons c t)
    show ?thesis
    proof (rule take_cases [of cfg c t])
      fix ud rest assume t: "utf8_take cfg c t = Some (Some (ud, rest))" "c # t = initialized_slice ud @ rest" "whole ud"
      have "length rest < length s" using Cons utf8_take_length [OF t(1)] by simp
      from less [OF this] obtain us where us: "utf8_walk cfg rest = Some us" "concat (map unit_bytes us) = rest" "list_all unit_ok us"
        by blast
      have "utf8_walk cfg s = Some (UWhole ud # us)" unfolding Cons utf8_walk.simps t(1) by (simp add: us(1))
      moreover have "concat (map unit_bytes (UWhole ud # us)) = s" unfolding Cons t(2) by (simp add: unit_bytes_def us(2))
      moreover have "list_all unit_ok (UWhole ud # us)" using t(3) us(3) by (simp add: unit_ok_def)
      ultimately show ?thesis by blast
    next
      assume "utf8_take cfg c t = Some None"
      then show ?thesis using Cons less [of t] by (auto simp: unit_bytes_def unit_ok_def)
    qed
  qed simp
qed

lemma unit_data_bytes: "unit_ok u \<Longrightarrow> initialized_slice (unit_data u) = unit_bytes u \<and> ud_size (unit_data u) \<noteq> 0"
  by (auto simp: unit_ok_def unit_data_def unit_bytes_def initialized_slice_def utf8_set_def zero_bytes_def UTF8_SIZE_def
      whole_def numeral_eq_Suc split: utf8_unit.splits)

text \<open>C32: splitting a C string into characters never aborts, and joining them gives the string back byte
  for byte, whether it is valid UTF-8 or not.\<close>

theorem utf8_cstr_roundtrip:
  "\<exists>uds. utf8_fromcstr cfg s = Some uds \<and> utf8_tocstr uds = s \<and>
     list_all (\<lambda>ud. 1 \<le> ud_size ud \<and> ud_size ud \<le> 4 \<and> ud_have ud = ud_size ud \<and> length (ud_data ud) = UTF8_SIZE) uds"
proof -
  obtain us where us: "utf8_walk cfg s = Some us" "concat (map unit_bytes us) = s" "list_all unit_ok us" using utf8_walk_bytes by blast
  have tw: "takeWhile (\<lambda>ud. ud_size ud \<noteq> 0) (map unit_data us) = map unit_data us"
    using us(3) unit_data_bytes by (auto simp: takeWhile_eq_all_conv list_all_iff)
  have sl: "map (initialized_slice \<circ> unit_data) us = map unit_bytes us" using us(3) unit_data_bytes by (auto simp: list_all_iff)
  have "utf8_tocstr (map unit_data us) = s" unfolding utf8_tocstr_def tw map_map sl by (rule us(2))
  moreover have "list_all (\<lambda>ud. 1 \<le> ud_size ud \<and> ud_size ud \<le> 4 \<and> ud_have ud = ud_size ud \<and> length (ud_data ud) = UTF8_SIZE)
      (map unit_data us)"
    using us(3) by (auto simp: list_all_iff unit_ok_def unit_data_def whole_def utf8_set_def zero_bytes_def split: utf8_unit.splits)
  ultimately show ?thesis using us(1) by (simp add: utf8_fromcstr_def)
qed


definition utf8_example :: utf8_config where
  "utf8_example = \<lparr>mbtowc = (\<lambda>s. (int (length s), 8364)), wcwidth = (\<lambda>_. 1), width_cache = Map.empty, utf8proc = False\<rparr>"

section \<open>Padding\<close>

text \<open>What follows a string does not change how it is split, if it does not start with a continuation byte.\<close>

lemma feed_append_done:
  "utf8_feed cfg st s = Some (st', ud', rest) \<Longrightarrow> st' \<noteq> UTF8_MORE \<Longrightarrow> utf8_feed cfg st (s @ t) = Some (st', ud', rest @ t)"
proof (induction cfg st s rule: utf8_feed.induct)
  case (1 cfg st0 ud)
  then show ?case by (cases t) auto
next
  case (2 cfg st0 ud c s)
  then show ?case by (cases "utf8_append cfg ud c") (auto split: if_splits)
qed

lemma feed_append_more:
  "utf8_feed cfg st s = Some (UTF8_MORE, ud', rest) \<Longrightarrow> rest = [] \<and> utf8_feed cfg st (s @ t) = utf8_feed cfg (UTF8_MORE, ud') t"
proof (induction cfg st s rule: utf8_feed.induct)
  case (2 cfg st0 ud c s)
  then show ?case by (cases "utf8_append cfg ud c") (auto split: if_splits)
qed simp

text \<open>A character that has met a byte that is no continuation is never completed.\<close>

lemma feed_bad:
  assumes "feed_state p st ud" "st \<noteq> UTF8_DONE" "p \<noteq> []"
    and "ud_width ud = 255 \<or> s = [] \<and> st = UTF8_MORE \<or> s \<noteq> [] \<and> \<not> cont_byte (hd s)"
    and "utf8_feed cfg (st, ud) s = Some (st', ud', rest)"
  shows "st' \<noteq> UTF8_DONE"
  using assms
proof (induction s arbitrary: p st ud)
  case (Cons c s)
  show ?case
  proof (cases "st = UTF8_MORE")
    case True
    then have "building p ud" "length p < ud_size ud" using Cons.prems(1) by (auto simp: feed_state_def)
    from append_building [OF this, of cfg c] obtain st1 ud1 where a: "utf8_append cfg ud c = Some (st1, ud1)"
      "feed_state (p @ [c]) st1 ud1" "ud_width ud1 = 255" "st1 \<noteq> UTF8_DONE"
      using Cons.prems(3,4) by (auto simp: feed_state_def) metis+
    then show ?thesis using Cons.IH [OF a(2,4)] Cons.prems(5) True by simp
  qed (use Cons.prems in auto)
qed auto

lemma take_append:
  assumes "t = [] \<or> \<not> cont_byte (hd t)"
  shows "utf8_take cfg c (s @ t) = map_option (map_option (map_prod (\<lambda>v. v) (\<lambda>r. r @ t))) (utf8_take cfg c s)"
proof (rule open_state [of cfg c])
  fix ud assume o: "utf8_open cfg c = Some (UTF8_MORE, ud)" "feed_state [c] UTF8_MORE ud"
  obtain st' ud' q rest where f: "utf8_feed cfg (UTF8_MORE, ud) s = Some (st', ud', rest)" "s = q @ rest"
    "feed_state ([c] @ q) st' ud'" using feed_building [OF o(2)] by metis
  show ?thesis
  proof (cases "st' = UTF8_MORE")
    case True
    then have f': "utf8_feed cfg (UTF8_MORE, ud) (s @ t) = utf8_feed cfg (UTF8_MORE, ud') t" using feed_append_more f(1) by blast
    obtain st2 ud2 q2 r2 where g: "utf8_feed cfg (UTF8_MORE, ud') t = Some (st2, ud2, r2)" using feed_building f(3) True by metis
    have "st2 \<noteq> UTF8_DONE" using feed_bad [OF f(3) _ _ _ g [folded True]] assms True by auto
    then have "utf8_take cfg c (s @ t) = Some None" using o f' g by (cases st2) (simp_all add: utf8_take_def)
    then show ?thesis using o f True by (simp add: utf8_take_def)
  next
    case False
    then have "utf8_feed cfg (UTF8_MORE, ud) (s @ t) = Some (st', ud', rest @ t)" using feed_append_done f(1) by blast
    then show ?thesis using o f False by (cases st') (simp_all add: utf8_take_def)
  qed
qed (simp add: utf8_take_def)

lemma utf8_walk_append:
  assumes "t = [] \<or> \<not> cont_byte (hd t)"
  shows "utf8_walk cfg (s @ t) = Some (the (utf8_walk cfg s) @ the (utf8_walk cfg t))"
proof (induction "length s" arbitrary: s rule: less_induct)
  case less
  have total: "\<exists>us. utf8_walk cfg u = Some us" for u using utf8_walk_bytes by blast
  show ?case
  proof (cases s)
    case Nil
    then show ?thesis using total [of t] by auto
  next
    case (Cons c u)
    show ?thesis
    proof (rule take_cases [of cfg c u])
      fix ud rest assume t: "utf8_take cfg c u = Some (Some (ud, rest))"
      then have "length rest < length s" using Cons utf8_take_length [OF t] by simp
      from less [OF this] show ?thesis using Cons t total [of rest] by (auto simp: take_append [OF assms])
    next
      assume "utf8_take cfg c u = Some None"
      then show ?thesis using Cons less [of u] total [of u] by (auto simp: take_append [OF assms])
    qed
  qed
qed

lemma space_take: "utf8_take cfg (CHR '' '') s = Some None"
  by (rule open_state [of cfg "CHR '' ''"]) (simp_all add: utf8_take_def)

lemma walk_spaces: "utf8_walk cfg (replicate n (CHR '' '') @ s) = Some (replicate n (UByte (CHR '' '')) @ the (utf8_walk cfg s))"
proof (induction n)
  case 0
  then show ?case using utf8_walk_bytes [of cfg s] by auto
qed (simp add: space_take)

lemma cstrwidth_append:
  "utf8_cstrwidth cfg (s @ replicate n (CHR '' '')) = Some (u32 (int (sum_list (map unit_width (the (utf8_walk cfg s))) + n)))"
  "utf8_cstrwidth cfg (replicate n (CHR '' '') @ s) = Some (u32 (int (sum_list (map unit_width (the (utf8_walk cfg s))) + n)))"
proof -
  have "replicate n (CHR '' '') = [] \<or> \<not> cont_byte (hd (replicate n (CHR '' '')))" by (cases n) (simp_all add: cont_byte_def)
  from utf8_walk_append [OF this, of cfg s] walk_spaces [of cfg n "[]"]
  show "utf8_cstrwidth cfg (s @ replicate n (CHR '' '')) = Some (u32 (int (sum_list (map unit_width (the (utf8_walk cfg s))) + n)))"
    by (simp add: utf8_cstrwidth_def unit_width_def sum_list_replicate)
  show "utf8_cstrwidth cfg (replicate n (CHR '' '') @ s) = Some (u32 (int (sum_list (map unit_width (the (utf8_walk cfg s))) + n)))"
    using walk_spaces [of cfg n s] by (simp add: utf8_cstrwidth_def unit_width_def sum_list_replicate add.commute)
qed

text \<open>C33: padding a string on either side gives a string with the string itself at its other end whose
  width is the requested one, or its own if that is larger; even when it ends in the middle of a
  character, which the added spaces never complete.\<close>

theorem utf8_pad_width:
  assumes "0 \<le> width" "width < 4294967296"
  shows "\<exists>n w. utf8_cstrwidth cfg s = Some w \<and>
    utf8_padcstr cfg s width = Some (s @ replicate n (CHR '' '')) \<and> utf8_rpadcstr cfg s width = Some (replicate n (CHR '' '') @ s) \<and>
    utf8_cstrwidth cfg (s @ replicate n (CHR '' '')) = Some (max w width) \<and>
    utf8_cstrwidth cfg (replicate n (CHR '' '') @ s) = Some (max w width)"
proof -
  define total where "total = int (sum_list (map unit_width (the (utf8_walk cfg s))))"
  have w: "utf8_cstrwidth cfg s = Some (u32 total)" using cstrwidth_append(1) [of cfg s 0] by (simp add: total_def)
  have c: "utf8_cstrwidth cfg (s @ replicate n (CHR '' '')) = Some (u32 (total + int n))"
    "utf8_cstrwidth cfg (replicate n (CHR '' '') @ s) = Some (u32 (total + int n))" for n
    using cstrwidth_append [where s = s and n = n and cfg = cfg] by (simp_all add: total_def)
  show ?thesis
  proof (cases "u32 total \<ge> width")
    case True
    then show ?thesis using w c [of 0]
      by (intro exI [of _ 0] exI [of _ "u32 total"]) (simp add: utf8_padcstr_def utf8_rpadcstr_def max_def)
  next
    case False
    define n where "n = nat (width - u32 total)"
    have "u32 (total + (width - u32 total)) = u32 width" by (simp add: u32_def algebra_simps mod_simps)
    then have "u32 (total + int n) = width" using False assms by (simp add: n_def u32_id)
    then show ?thesis using w c [of n] False
      by (intro exI [of _ n] exI [of _ "u32 total"]) (simp add: utf8_padcstr_def utf8_rpadcstr_def n_def)
  qed
qed

theorem utf8_pad_width_witness:
  "\<exists>n w. utf8_padcstr utf8_example [char_of (226::nat), char_of (130::nat)] 5 = Some ([char_of (226::nat), char_of (130::nat)] @ replicate n (CHR '' '')) \<and>
     utf8_cstrwidth utf8_example ([char_of (226::nat), char_of (130::nat)] @ replicate n (CHR '' '')) = Some (max w 5)"
  using utf8_pad_width [of 5 utf8_example "[char_of (226::nat), char_of (130::nat)]"] by fastforce

section \<open>Sanitised strings\<close>

lemma sanitized_ascii: "c \<in> set (unit_sanitized u) \<Longrightarrow> 32 \<le> byte c \<and> byte c \<le> 126"
  by (auto simp: unit_sanitized_def split: utf8_unit.splits if_splits)

lemma ascii_walk: "\<forall>c \<in> set s. byte c < 194 \<Longrightarrow> utf8_walk cfg s = Some (map UByte s)"
proof (induction s)
  case (Cons c s)
  have "\<not> 194 \<le> byte c" using Cons.prems by simp
  then have "utf8_take cfg c s = Some None" by (metis take_cases [of cfg c s])
  then show ?case using Cons by simp
qed simp

lemma sanitize_written: "dst \<noteq> [] \<Longrightarrow> sanitize_units dst us = Some (dst @ concat (map unit_sanitized us))"
  by (induction us arbitrary: dst) (auto split: utf8_unit.splits)

text \<open>A string that begins with a character without width, such as a combining mark.\<close>

definition starts_narrow :: "utf8_unit list \<Rightarrow> bool" where
  "starts_narrow us = (case us of UWhole ud # _ \<Rightarrow> ud_width ud = 0 | _ \<Rightarrow> False)"

lemma sanitize_start:
  "sanitize_units [] us = (if starts_narrow us then None else Some (concat (map unit_sanitized us)))"
proof (cases us)
  case (Cons u us')
  then show ?thesis
    using sanitize_written [of "unit_sanitized u" us']
    by (cases u) (auto simp: starts_narrow_def unit_sanitized_def)
qed (simp add: starts_narrow_def)

text \<open>C34: \<open>utf8_sanitize\<close> turns every string, valid or not, into printable ASCII, which \<open>utf8_isvalid\<close>
  accepts and a second pass leaves alone; a string without control characters keeps its width on the
  screen.  The exception is a string that begins with a character of width 0, which is fatal.\<close>

theorem utf8_sanitize_printable:
  "(utf8_sanitize cfg s = None \<longleftrightarrow> (\<exists>ud us. utf8_walk cfg s = Some (UWhole ud # us) \<and> ud_width ud = 0)) \<and>
   (\<forall>r. utf8_sanitize cfg s = Some r \<longrightarrow> (\<forall>c \<in> set r. 32 \<le> byte c \<and> byte c \<le> 126) \<and>
     utf8_isvalid cfg r = Some True \<and> utf8_sanitize cfg r = Some r \<and>
     ((\<forall>c \<in> set s. 32 \<le> byte c \<and> byte c \<noteq> 127) \<longrightarrow> utf8_cstrwidth cfg r = utf8_cstrwidth cfg s))"
proof -
  obtain us where us: "utf8_walk cfg s = Some us" "concat (map unit_bytes us) = s" using utf8_walk_bytes by blast
  define r where "r = concat (map unit_sanitized us)"
  have res: "utf8_sanitize cfg s = (if starts_narrow us then None else Some r)"
    using us(1) by (simp add: utf8_sanitize_def sanitize_start r_def)
  have ascii: "32 \<le> byte c \<and> byte c \<le> 126" if "c \<in> set r" for c using that sanitized_ascii by (auto simp: r_def)
  then have "\<forall>c \<in> set r. byte c < 194" by fastforce
  from ascii_walk [OF this] have w: "utf8_walk cfg r = Some (map UByte r)" .
  have "concat (map (unit_sanitized \<circ> UByte) t) = t \<and> list_all (unit_valid \<circ> UByte) t \<and> sum_list (map (unit_width \<circ> UByte) t) = length t"
    if "\<forall>c \<in> set t. 32 \<le> byte c \<and> byte c \<le> 126" for t
    using that by (induction t) (auto simp: unit_sanitized_def unit_valid_def unit_width_def)
  then have rs: "concat (map (unit_sanitized \<circ> UByte) r) = r" "list_all (unit_valid \<circ> UByte) r"
    "sum_list (map (unit_width \<circ> UByte) r) = length r" using ascii by blast+
  have "sum_list (map unit_width us) = length r" if "\<forall>c \<in> set s. 32 \<le> byte c \<and> byte c \<noteq> 127"
    unfolding r_def using that us(2)
    by (induction us arbitrary: s) (auto simp: unit_sanitized_def unit_width_def unit_bytes_def split: utf8_unit.splits)
  moreover have "\<not> starts_narrow (map UByte r)" by (cases r) (simp_all add: starts_narrow_def)
  then have "utf8_sanitize cfg r = Some r" using w rs(1) by (simp add: utf8_sanitize_def sanitize_start)
  moreover have "starts_narrow us \<longleftrightarrow> (\<exists>ud us'. us = UWhole ud # us' \<and> ud_width ud = 0)"
    by (auto simp: starts_narrow_def split: list.splits utf8_unit.splits)
  ultimately show ?thesis using us(1) w rs ascii res
    by (auto simp: utf8_isvalid_def utf8_cstrwidth_def list.pred_map)
qed

theorem utf8_sanitize_printable_witness:
  "utf8_sanitize utf8_example ''ls -l'' = Some ''ls -l'' \<and>
   utf8_isvalid utf8_example ''ls -l'' = Some True \<and> utf8_cstrwidth utf8_example ''ls -l'' = utf8_cstrwidth utf8_example ''ls -l''"
proof -
  have "utf8_sanitize utf8_example ''ls -l'' = Some ''ls -l''" by code_simp
  then show ?thesis using utf8_sanitize_printable [of utf8_example "''ls -l''"] by auto
qed

end
