(* ===== verification/Grid.thy ===== *)
theory Grid
  imports Utf8_Sound "HOL-Library.Monad_Syntax"
begin

text \<open>
  The grid of character cells behind every pane (\<open>grid.rs\<close>): lines of packed five-byte entries, with an
  array of extended entries on each line for the cells that do not fit, the history above the screen, and
  the operations on them.

  Bit flags are sets of their names.  The union of an entry is a datatype, and reading the offset of an
  entry that holds data gives the number that its bytes make.  Counts and positions are \<^typ>\<open>nat\<close>: they
  are bounded by the memory that the lines take.  An access outside an allocation, undefined in the code,
  is an unspecified value here.  \<^const>\<open>None\<close> is a panic or a call of \<open>fatalx\<close>.  The table of \<open>utf8.rs\<close>, a
  static there, is passed through.
\<close>

section \<open>Cells\<close>

datatype grid_flag = FG256 | BG256 | PADDING | EXTENDED | SELECTED | NOPALETTE | CLEARED | TAB

record grid_cell =
  gc_data :: utf8_data
  gc_attr :: nat
  gc_flags :: "grid_flag set"
  gc_fg :: i32
  gc_bg :: i32
  gc_us :: i32
  gc_link :: nat

record grid_extd_entry =
  gee_data :: utf8_char
  gee_attr :: nat
  gee_flags :: "grid_flag set"
  gee_fg :: i32
  gee_bg :: i32
  gee_us :: i32
  gee_link :: nat

datatype grid_cell_entry_union = Offset nat | Data (d_attr: nat) (d_fg: nat) (d_bg: nat) (d_data: char)

record grid_cell_entry =
  gce_union :: grid_cell_entry_union
  gce_flags :: "grid_flag set"

definition union_offset :: "grid_cell_entry_union \<Rightarrow> nat" where
  "union_offset u =
     (case u of Offset n \<Rightarrow> n | Data a f b c \<Rightarrow> a + f * 256 + b * 65536 + byte c * 16777216)"

definition COLOUR_FLAG_256 :: int where
  "COLOUR_FLAG_256 = 16777216"

definition COLOUR_FLAG_RGB :: int where
  "COLOUR_FLAG_RGB = 33554432"

definition COLOUR_FLAG_THEME :: int where
  "COLOUR_FLAG_THEME = 67108864"

text \<open>Whether a colour has one of the flag bits.\<close>

definition colour_has :: "int \<Rightarrow> int \<Rightarrow> bool" where
  "colour_has c f \<longleftrightarrow> c div f mod 2 = 1"

definition COLOUR_DEFAULT :: "int \<Rightarrow> bool" where
  "COLOUR_DEFAULT c \<longleftrightarrow> c = 8 \<or> c = 9"

definition one_byte :: "char \<Rightarrow> nat \<Rightarrow> nat \<Rightarrow> nat \<Rightarrow> utf8_data" where
  "one_byte c have sz width = \<lparr>ud_data = zero_bytes[0 := c], ud_have = have, ud_size = sz, ud_width = width\<rparr>"

definition GRID_DEFAULT_CELL :: grid_cell where
  "GRID_DEFAULT_CELL = \<lparr>gc_data = one_byte (CHR '' '') 0 1 1, gc_attr = 0, gc_flags = {}, gc_fg = 8, gc_bg = 8, gc_us = 8, gc_link = 0\<rparr>"

definition GRID_PADDING_CELL :: grid_cell where
  "GRID_PADDING_CELL = \<lparr>gc_data = one_byte (CHR ''!'') 0 0 0, gc_attr = 0, gc_flags = {PADDING}, gc_fg = 8, gc_bg = 8, gc_us = 8, gc_link = 0\<rparr>"

definition GRID_CLEARED_CELL :: grid_cell where
  "GRID_CLEARED_CELL = \<lparr>gc_data = one_byte (CHR '' '') 0 1 1, gc_attr = 0, gc_flags = {CLEARED}, gc_fg = 8, gc_bg = 8, gc_us = 8, gc_link = 0\<rparr>"

definition GRID_CLEARED_ENTRY :: grid_cell_entry where
  "GRID_CLEARED_ENTRY = \<lparr>gce_union = Data 0 8 8 (CHR '' ''), gce_flags = {CLEARED}\<rparr>"

definition grid_store_cell :: "grid_cell \<Rightarrow> char \<Rightarrow> grid_cell_entry" where
  "grid_store_cell gc c =
     \<lparr>gce_union = Data (gc_attr gc mod 256) (nat (gc_fg gc mod 256)) (nat (gc_bg gc mod 256)) c,
      gce_flags = (gc_flags gc - {CLEARED}) \<union> (if colour_has (gc_fg gc) COLOUR_FLAG_256 then {FG256} else {})
        \<union> (if colour_has (gc_bg gc) COLOUR_FLAG_256 then {BG256} else {})\<rparr>"

text \<open>A tab wider than the bytes of a character makes the index panic.\<close>

definition grid_set_tab :: "grid_cell \<Rightarrow> nat \<Rightarrow> grid_cell option" where
  "grid_set_tab gc width =
     (if width > UTF8_SIZE then None
      else Some (gc\<lparr>gc_flags := insert TAB (gc_flags gc) - {PADDING},
             gc_data := \<lparr>ud_data = replicate width (CHR '' '') @ drop width zero_bytes,
                         ud_have = width mod 256, ud_size = width mod 256, ud_width = width mod 256\<rparr>\<rparr>))"

definition grid_need_extended_cell :: "grid_cell_entry \<Rightarrow> grid_cell \<Rightarrow> bool" where
  "grid_need_extended_cell gce gc \<longleftrightarrow>
     EXTENDED \<in> gce_flags gce \<or> gc_attr gc > 255 \<or> ud_size (gc_data gc) > 1 \<or> ud_width (gc_data gc) > 1 \<or>
     colour_has (gc_fg gc) COLOUR_FLAG_RGB \<or> colour_has (gc_fg gc) COLOUR_FLAG_THEME \<or>
     colour_has (gc_bg gc) COLOUR_FLAG_RGB \<or> colour_has (gc_bg gc) COLOUR_FLAG_THEME \<or>
     gc_us gc \<noteq> 8 \<or> gc_link gc \<noteq> 0 \<or> TAB \<in> gc_flags gc"

definition grid_cells_look_equal :: "grid_cell \<Rightarrow> grid_cell \<Rightarrow> bool" where
  "grid_cells_look_equal gc1 gc2 \<longleftrightarrow>
     gc_fg gc1 = gc_fg gc2 \<and> gc_bg gc1 = gc_bg gc2 \<and> gc_attr gc1 = gc_attr gc2 \<and>
     gc_flags gc1 - {CLEARED} = gc_flags gc2 - {CLEARED} \<and> gc_link gc1 = gc_link gc2"

definition grid_cells_equal :: "grid_cell \<Rightarrow> grid_cell \<Rightarrow> bool" where
  "grid_cells_equal gc1 gc2 \<longleftrightarrow>
     grid_cells_look_equal gc1 gc2 \<and> ud_width (gc_data gc1) = ud_width (gc_data gc2) \<and>
     ud_size (gc_data gc1) = ud_size (gc_data gc2) \<and>
     take (ud_size (gc_data gc1)) (ud_data (gc_data gc1)) = take (ud_size (gc_data gc1)) (ud_data (gc_data gc2))"

section \<open>Lines\<close>

datatype grid_line_flag = LINE_WRAPPED | LINE_EXTENDED | LINE_DEAD | LINE_START_PROMPT | LINE_START_OUTPUT | LINE_HYPERLINK

record grid_line =
  celldata :: "grid_cell_entry list"
  cellused :: nat
  cellsize :: nat
  extddata :: "grid_extd_entry list"
  extdsize :: nat
  gl_flags :: "grid_line_flag set"
  gl_time :: int

definition zeroed_line :: grid_line where
  "zeroed_line = \<lparr>celldata = [], cellused = 0, cellsize = 0, extddata = [], extdsize = 0, gl_flags = {}, gl_time = 0\<rparr>"

text \<open>\<open>xreallocarray\<close>: new elements have no particular value until they are written.\<close>

definition reallocarray :: "'a \<Rightarrow> nat \<Rightarrow> 'a list \<Rightarrow> 'a list" where
  "reallocarray fresh n xs = take n xs @ replicate (n - length xs) fresh"

definition zeroed_extd :: grid_extd_entry where
  "zeroed_extd = \<lparr>gee_data = 0, gee_attr = 0, gee_flags = {}, gee_fg = 0, gee_bg = 0, gee_us = 0, gee_link = 0\<rparr>"

text \<open>The entry is the one at \<open>px\<close> of the line.\<close>

definition grid_get_extended_cell :: "grid_line \<Rightarrow> nat \<Rightarrow> grid_flag set \<Rightarrow> grid_line" where
  "grid_get_extended_cell gl px flags =
     (let at = extdsize gl + 1
      in gl\<lparr>extddata := reallocarray zeroed_extd at (extddata gl), extdsize := at,
            celldata := (celldata gl)[px := \<lparr>gce_union = Offset (at - 1), gce_flags = insert EXTENDED flags\<rparr>]\<rparr>)"

definition extd_entry :: "utf8_char \<Rightarrow> grid_cell \<Rightarrow> grid_extd_entry" where
  "extd_entry uc gc =
     \<lparr>gee_data = uc, gee_attr = gc_attr gc, gee_flags = gc_flags gc - {CLEARED},
      gee_fg = gc_fg gc, gee_bg = gc_bg gc, gee_us = gc_us gc, gee_link = gc_link gc\<rparr>"

text \<open>Gives the offset of the extended entry too, to which the code returns a pointer.\<close>

definition grid_extended_cell ::
    "utf8_table \<Rightarrow> grid_line \<Rightarrow> nat \<Rightarrow> grid_cell \<Rightarrow> (nat \<times> grid_line \<times> utf8_table) option" where
  "grid_extended_cell t gl px gc = do {
     gl1 \<leftarrow> (if EXTENDED \<notin> gce_flags (celldata gl ! px) then Some (grid_get_extended_cell gl px (gc_flags gc - {CLEARED}))
             else if union_offset (gce_union (celldata gl ! px)) \<ge> extdsize gl then None
             else Some gl);
     let gl2 = gl1\<lparr>gl_flags := gl_flags gl1 \<union> {LINE_EXTENDED} \<union> (if gc_link gc \<noteq> 0 then {LINE_HYPERLINK} else {})\<rparr>;
     (uc, t') \<leftarrow> (if TAB \<in> gc_flags gc then Some (ud_width (gc_data gc), t)
                 else map_option snd (utf8_from_data t (gc_data gc)));
     let offset = union_offset (gce_union (celldata gl2 ! px));
     Some (offset, gl2\<lparr>extddata := (extddata gl2)[offset := extd_entry uc gc]\<rparr>, t')
   }"

text \<open>The second loop of \<open>grid_compact_line\<close>: the extended entries in the order of the cells.\<close>

fun compact_cells :: "grid_extd_entry list \<Rightarrow> nat \<Rightarrow> grid_cell_entry list \<Rightarrow> grid_cell_entry list \<times> grid_extd_entry list" where
  "compact_cells old i [] = ([], [])"
| "compact_cells old i (gce # gces) =
     (if EXTENDED \<in> gce_flags gce
      then (case compact_cells old (i + 1) gces of (cs, es) \<Rightarrow>
              (gce\<lparr>gce_union := Offset i\<rparr> # cs, old ! union_offset (gce_union gce) # es))
      else (case compact_cells old i gces of (cs, es) \<Rightarrow> (gce # cs, es)))"

definition grid_compact_line :: "grid_line \<Rightarrow> grid_line" where
  "grid_compact_line gl =
     (if extdsize gl = 0 then gl
      else (let n = length (filter (\<lambda>gce. EXTENDED \<in> gce_flags gce) (take (cellsize gl) (celldata gl)))
            in if n = 0 then gl\<lparr>extddata := [], extdsize := 0\<rparr>
               else (case compact_cells (extddata gl) 0 (take (cellsize gl) (celldata gl)) of (cs, es) \<Rightarrow>
                       gl\<lparr>celldata := cs @ drop (cellsize gl) (celldata gl), extddata := es, extdsize := n\<rparr>)))"

definition grid_clear_cell :: "utf8_table \<Rightarrow> nat \<Rightarrow> int \<Rightarrow> grid_line \<Rightarrow> (grid_line \<times> utf8_table) option" where
  "grid_clear_cell t px bg gl =
     (let gl1 = gl\<lparr>celldata := (celldata gl)[px := GRID_CLEARED_ENTRY]\<rparr>
      in if bg = 8 then Some (gl1, t)
         else if colour_has bg COLOUR_FLAG_RGB \<or> colour_has bg COLOUR_FLAG_THEME
         then do {
           let gl2 = grid_get_extended_cell gl1 px (gce_flags GRID_CLEARED_ENTRY);
           (offset, gl3, t') \<leftarrow> grid_extended_cell t gl2 px GRID_CLEARED_CELL;
           Some (gl3\<lparr>extddata := (extddata gl3)[offset := (extddata gl3 ! offset)\<lparr>gee_bg := i32 bg\<rparr>]\<rparr>, t')
         }
         else Some (gl1\<lparr>celldata := (celldata gl1)[px :=
                \<lparr>gce_union = Data 0 8 (nat (bg mod 256)) (CHR '' ''),
                 gce_flags = {CLEARED} \<union> (if colour_has bg COLOUR_FLAG_256 then {BG256} else {})\<rparr>]\<rparr>, t))"

fun clear_cells :: "utf8_table \<Rightarrow> nat list \<Rightarrow> int \<Rightarrow> grid_line \<Rightarrow> (grid_line \<times> utf8_table) option" where
  "clear_cells t [] bg gl = Some (gl, t)"
| "clear_cells t (xx # xs) bg gl = do { (gl', t') \<leftarrow> grid_clear_cell t xx bg gl; clear_cells t' xs bg gl' }"

text \<open>The line of a grid of width \<open>gsx\<close>.\<close>

definition expand_size :: "nat \<Rightarrow> nat \<Rightarrow> nat" where
  "expand_size gsx sx =
     (if sx < gsx div 4 then gsx div 4 else if sx < gsx div 2 then gsx div 2 else if gsx > sx then gsx else sx)"

definition grid_expand_line :: "nat \<Rightarrow> utf8_table \<Rightarrow> nat \<Rightarrow> int \<Rightarrow> grid_line \<Rightarrow> (grid_line \<times> utf8_table) option" where
  "grid_expand_line gsx t sx bg gl =
     (if sx \<le> cellsize gl then Some (gl, t)
      else do {
        let n = expand_size gsx sx;
        (gl', t') \<leftarrow> clear_cells t [cellsize gl..<n] bg (gl\<lparr>celldata := reallocarray GRID_CLEARED_ENTRY n (celldata gl)\<rparr>);
        Some (gl'\<lparr>cellsize := n\<rparr>, t')
      })"

definition grid_empty_line :: "nat \<Rightarrow> utf8_table \<Rightarrow> int \<Rightarrow> (grid_line \<times> utf8_table) option" where
  "grid_empty_line gsx t bg =
     (if \<not> COLOUR_DEFAULT (i32 bg) then grid_expand_line gsx t gsx bg zeroed_line else Some (zeroed_line, t))"

definition packed_cell :: "grid_cell_entry \<Rightarrow> grid_cell" where
  "packed_cell gce =
     (case gce_union gce of Data a f b c \<Rightarrow>
        \<lparr>gc_data = utf8_set c, gc_attr = a, gc_flags = gce_flags gce - {FG256, BG256},
         gc_fg = int f + (if FG256 \<in> gce_flags gce then COLOUR_FLAG_256 else 0),
         gc_bg = int b + (if BG256 \<in> gce_flags gce then COLOUR_FLAG_256 else 0), gc_us = 8, gc_link = 0\<rparr>
      | Offset n \<Rightarrow>
        \<lparr>gc_data = utf8_set (char_of (n div 16777216)), gc_attr = n mod 256, gc_flags = gce_flags gce - {FG256, BG256},
         gc_fg = int (n div 256 mod 256) + (if FG256 \<in> gce_flags gce then COLOUR_FLAG_256 else 0),
         gc_bg = int (n div 65536 mod 256) + (if BG256 \<in> gce_flags gce then COLOUR_FLAG_256 else 0), gc_us = 8, gc_link = 0\<rparr>)"

definition extended_cell :: "utf8_table \<Rightarrow> grid_extd_entry \<Rightarrow> grid_cell option" where
  "extended_cell t gee =
     (let gc = \<lparr>gc_data = \<lparr>ud_data = zero_bytes, ud_have = 0, ud_size = 0, ud_width = 0\<rparr>, gc_attr = gee_attr gee,
                gc_flags = gee_flags gee, gc_fg = gee_fg gee, gc_bg = gee_bg gee, gc_us = gee_us gee, gc_link = gee_link gee\<rparr>
      in if TAB \<in> gee_flags gee then grid_set_tab gc (gee_data gee)
         else map_option (\<lambda>ud. gc\<lparr>gc_data := ud\<rparr>) (utf8_to_data t (gee_data gee)))"

definition grid_get_cell1 :: "utf8_table \<Rightarrow> grid_line \<Rightarrow> nat \<Rightarrow> grid_cell option" where
  "grid_get_cell1 t gl px =
     (let gce = celldata gl ! px
      in if EXTENDED \<in> gce_flags gce
         then if union_offset (gce_union gce) \<ge> extdsize gl then Some GRID_DEFAULT_CELL
              else extended_cell t (extddata gl ! union_offset (gce_union gce))
         else Some (packed_cell gce))"

section \<open>Grids\<close>

record grid =
  g_history :: bool
  g_sx :: nat
  g_sy :: nat
  hscrolled :: nat
  hsize :: nat
  hlimit :: nat
  scroll_added :: nat
  scroll_collected :: nat
  scroll_generation :: nat
  linedata :: "grid_line list"

definition grid_create :: "nat \<Rightarrow> nat \<Rightarrow> nat \<Rightarrow> grid" where
  "grid_create sx sy limit =
     \<lparr>g_history = (limit \<noteq> 0), g_sx = sx, g_sy = sy, hscrolled = 0, hsize = 0, hlimit = limit, scroll_added = 0,
      scroll_collected = 0, scroll_generation = 0, linedata = replicate sy zeroed_line\<rparr>"

definition grid_check_y :: "grid \<Rightarrow> nat \<Rightarrow> bool" where
  "grid_check_y gd py \<longleftrightarrow> py < hsize gd + g_sy gd"

definition grid_get_line :: "grid \<Rightarrow> nat \<Rightarrow> grid_line" where
  "grid_get_line gd line = linedata gd ! line"

definition grid_peek_line :: "grid \<Rightarrow> nat \<Rightarrow> grid_line option" where
  "grid_peek_line gd py = (if grid_check_y gd py then Some (linedata gd ! py) else None)"

definition grid_adjust_lines :: "grid \<Rightarrow> nat \<Rightarrow> grid" where
  "grid_adjust_lines gd n = gd\<lparr>linedata := reallocarray zeroed_line n (linedata gd)\<rparr>"

definition set_line :: "grid \<Rightarrow> nat \<Rightarrow> grid_line \<Rightarrow> grid" where
  "set_line gd py gl = gd\<lparr>linedata := (linedata gd)[py := gl]\<rparr>"

text \<open>A change of one line that may abort.\<close>

definition on_line ::
    "grid \<Rightarrow> nat \<Rightarrow> (grid_line \<Rightarrow> (grid_line \<times> utf8_table) option) \<Rightarrow> (grid \<times> utf8_table) option" where
  "on_line gd py f = do { (gl, t) \<leftarrow> f (linedata gd ! py); Some (set_line gd py gl, t) }"

definition grid_free_line :: "grid \<Rightarrow> nat \<Rightarrow> grid" where
  "grid_free_line gd py = set_line gd py ((linedata gd ! py)\<lparr>celldata := [], extddata := []\<rparr>)"

definition grid_free_lines :: "grid \<Rightarrow> nat \<Rightarrow> nat \<Rightarrow> grid" where
  "grid_free_lines gd py ny = fold (\<lambda>yy g. grid_free_line g yy) [py..<py + ny] gd"

definition grid_get_cell :: "utf8_table \<Rightarrow> grid \<Rightarrow> nat \<Rightarrow> nat \<Rightarrow> grid_cell option" where
  "grid_get_cell t gd px py =
     (if \<not> grid_check_y gd py \<or> px \<ge> cellsize (linedata gd ! py) then Some GRID_DEFAULT_CELL
      else grid_get_cell1 t (linedata gd ! py) px)"

text \<open>Whether two grids differ; the screen is compared by absolute line numbers, as in the code.\<close>

fun compare_cells :: "utf8_table \<Rightarrow> grid \<Rightarrow> grid \<Rightarrow> nat \<Rightarrow> nat list \<Rightarrow> bool option" where
  "compare_cells t ga gb yy [] = Some False"
| "compare_cells t ga gb yy (xx # xs) = do {
     gca \<leftarrow> grid_get_cell t ga xx yy;
     gcb \<leftarrow> grid_get_cell t gb xx yy;
     if grid_cells_equal gca gcb then compare_cells t ga gb yy xs else Some True
   }"

fun compare_lines :: "utf8_table \<Rightarrow> grid \<Rightarrow> grid \<Rightarrow> nat list \<Rightarrow> bool option" where
  "compare_lines t ga gb [] = Some False"
| "compare_lines t ga gb (yy # ys) =
     (if cellsize (linedata ga ! yy) \<noteq> cellsize (linedata gb ! yy) then Some True
      else do {
        differ \<leftarrow> compare_cells t ga gb yy [0..<cellsize (linedata ga ! yy)];
        if differ then Some True else compare_lines t ga gb ys
      })"

definition grid_compare :: "utf8_table \<Rightarrow> grid \<Rightarrow> grid \<Rightarrow> bool option" where
  "grid_compare t ga gb =
     (if g_sx ga \<noteq> g_sx gb \<or> g_sy ga \<noteq> g_sy gb then Some True else compare_lines t ga gb [0..<g_sy ga])"

subsection \<open>History\<close>

text \<open>\<open>memmove\<close> within an array.\<close>

definition memmove :: "nat \<Rightarrow> nat \<Rightarrow> nat \<Rightarrow> 'a list \<Rightarrow> 'a list" where
  "memmove dst src n xs = take dst xs @ take n (drop src xs) @ drop (dst + n) xs"

definition grid_trim_history :: "grid \<Rightarrow> nat \<Rightarrow> grid" where
  "grid_trim_history gd ny =
     (let gd1 = grid_free_lines gd 0 ny
      in gd1\<lparr>linedata := memmove 0 ny (hsize gd + g_sy gd - ny) (linedata gd1)\<rparr>)"

definition grid_collect_history :: "grid \<Rightarrow> bool \<Rightarrow> grid" where
  "grid_collect_history gd all =
     (if hsize gd = 0 \<or> hsize gd < hlimit gd then gd
      else (let ny0 = (if all then hsize gd - hlimit gd else hlimit gd div 10);
                ny1 = (if ny0 < 1 then 1 else ny0);
                ny = (if ny1 > hsize gd then hsize gd else ny1);
                gd1 = grid_trim_history gd ny;
                gd2 = gd1\<lparr>hsize := hsize gd1 - ny, scroll_collected := scroll_collected gd1 + ny\<rparr>
            in if hscrolled gd2 > hsize gd2 then gd2\<lparr>hscrolled := hsize gd2\<rparr> else gd2))"

definition grid_remove_history :: "grid \<Rightarrow> nat \<Rightarrow> grid" where
  "grid_remove_history gd ny =
     (if ny > hsize gd then gd
      else (let gd1 = fold (\<lambda>yy g. grid_free_line g (hsize g + g_sy g - 1 - yy)) [0..<ny] gd
            in gd1\<lparr>hsize := hsize gd1 - ny\<rparr>))"

definition grid_scroll_history :: "int \<Rightarrow> utf8_table \<Rightarrow> grid \<Rightarrow> int \<Rightarrow> (grid \<times> utf8_table) option" where
  "grid_scroll_history now t gd bg = do {
     let yy = hsize gd + g_sy gd;
     let gd1 = grid_adjust_lines gd (yy + 1);
     (gl, t') \<leftarrow> grid_empty_line (g_sx gd) t bg;
     let gd2 = set_line gd1 yy gl;
     let gd3 = set_line gd2 (hsize gd) ((grid_compact_line (linedata gd2 ! hsize gd))\<lparr>gl_time := now\<rparr>);
     Some (gd3\<lparr>hscrolled := hscrolled gd + 1, hsize := hsize gd + 1, scroll_added := scroll_added gd + 1\<rparr>, t')
   }"

definition grid_clear_history :: "grid \<Rightarrow> grid" where
  "grid_clear_history gd =
     (let gd1 = grid_trim_history gd (hsize gd);
          gd2 = gd1\<lparr>hscrolled := 0, hsize := 0, scroll_generation := scroll_generation gd + 1\<rparr>
      in grid_adjust_lines gd2 (g_sy gd))"

definition grid_scroll_history_region ::
    "int \<Rightarrow> utf8_table \<Rightarrow> grid \<Rightarrow> nat \<Rightarrow> nat \<Rightarrow> int \<Rightarrow> (grid \<times> utf8_table) option" where
  "grid_scroll_history_region now t gd upper lower bg = do {
     let h = hsize gd;
     let ls1 = reallocarray zeroed_line (h + g_sy gd + 1) (linedata gd);
     let ls2 = memmove (h + 1) h (g_sy gd) ls1;
     let u = upper + 1;
     let l = lower + 1;
     let ls3 = ls2[h := (ls2 ! u)\<lparr>gl_time := now\<rparr>];
     let ls4 = memmove u (u + 1) (l - u) ls3;
     (gl, t') \<leftarrow> grid_empty_line (g_sx gd) t bg;
     Some (gd\<lparr>linedata := ls4[l := gl], hscrolled := hscrolled gd + 1, hsize := h + 1, scroll_added := scroll_added gd + 1\<rparr>, t')
   }"

subsection \<open>Writing\<close>

text \<open>One cell of a line that is long enough.\<close>

definition put_cell :: "utf8_table \<Rightarrow> nat \<Rightarrow> grid_cell \<Rightarrow> char \<Rightarrow> utf8_char option \<Rightarrow> grid_line \<Rightarrow> (grid_line \<times> utf8_table) option" where
  "put_cell t px gc c build gl =
     (if grid_need_extended_cell (celldata gl ! px) gc
      then do {
        (offset, gl', t') \<leftarrow> grid_extended_cell t gl px gc;
        Some (case build of None \<Rightarrow> (gl', t')
              | Some uc \<Rightarrow> (gl'\<lparr>extddata := (extddata gl')[offset := (extddata gl' ! offset)\<lparr>gee_data := uc\<rparr>]\<rparr>, t'))
      }
      else Some (gl\<lparr>celldata := (celldata gl)[px := grid_store_cell gc c]\<rparr>, t))"

definition grid_set_cell :: "utf8_table \<Rightarrow> grid \<Rightarrow> nat \<Rightarrow> nat \<Rightarrow> grid_cell \<Rightarrow> (grid \<times> utf8_table) option" where
  "grid_set_cell t gd px py gc =
     (if \<not> grid_check_y gd py then Some (gd, t)
      else on_line gd py (\<lambda>gl. do {
        (gl1, t1) \<leftarrow> grid_expand_line (g_sx gd) t (px + 1) 8 gl;
        put_cell t1 px gc (ud_data (gc_data gc) ! 0) None
          (gl1\<lparr>cellused := (if px + 1 > cellused gl1 then px + 1 else cellused gl1)\<rparr>)
      }))"

definition grid_set_padding :: "utf8_table \<Rightarrow> grid \<Rightarrow> nat \<Rightarrow> nat \<Rightarrow> (grid \<times> utf8_table) option" where
  "grid_set_padding t gd px py = grid_set_cell t gd px py GRID_PADDING_CELL"

fun put_cells :: "utf8_table \<Rightarrow> nat \<Rightarrow> grid_cell \<Rightarrow> string \<Rightarrow> grid_line \<Rightarrow> (grid_line \<times> utf8_table) option" where
  "put_cells t px gc [] gl = Some (gl, t)"
| "put_cells t px gc (c # s) gl = do {
     (gl', t') \<leftarrow> put_cell t px gc c (Some (utf8_build_one c)) gl;
     put_cells t' (px + 1) gc s gl'
   }"

definition grid_set_cells :: "utf8_table \<Rightarrow> grid \<Rightarrow> nat \<Rightarrow> nat \<Rightarrow> grid_cell \<Rightarrow> string \<Rightarrow> (grid \<times> utf8_table) option" where
  "grid_set_cells t gd px py gc s =
     (if \<not> grid_check_y gd py then Some (gd, t)
      else on_line gd py (\<lambda>gl. do {
        (gl1, t1) \<leftarrow> grid_expand_line (g_sx gd) t (px + length s) 8 gl;
        put_cells t1 px gc s (gl1\<lparr>cellused := (if px + length s > cellused gl1 then px + length s else cellused gl1)\<rparr>)
      }))"

subsection \<open>Clearing and moving\<close>

definition clear_wrapped :: "nat \<Rightarrow> grid_line list \<Rightarrow> grid_line list" where
  "clear_wrapped y ls = ls[y := (ls ! y)\<lparr>gl_flags := gl_flags (ls ! y) - {LINE_WRAPPED}\<rparr>]"

text \<open>Empties the lines of a list.\<close>

fun empty_lines :: "utf8_table \<Rightarrow> grid \<Rightarrow> nat list \<Rightarrow> int \<Rightarrow> (grid \<times> utf8_table) option" where
  "empty_lines t gd [] bg = Some (gd, t)"
| "empty_lines t gd (yy # ys) bg = do {
     (gl, t') \<leftarrow> grid_empty_line (g_sx gd) t bg;
     empty_lines t' (set_line gd yy gl) ys bg
   }"

definition grid_clear_lines :: "utf8_table \<Rightarrow> grid \<Rightarrow> nat \<Rightarrow> nat \<Rightarrow> int \<Rightarrow> (grid \<times> utf8_table) option" where
  "grid_clear_lines t gd py ny bg =
     (if ny = 0 \<or> \<not> grid_check_y gd py \<or> \<not> grid_check_y gd (py + ny - 1) then Some (gd, t)
      else do {
        (gd1, t1) \<leftarrow> empty_lines t gd [py..<py + ny] bg;
        Some (if py \<noteq> 0 then gd1\<lparr>linedata := clear_wrapped (py - 1) (linedata gd1)\<rparr> else gd1, t1)
      })"

definition clear_part :: "nat \<Rightarrow> utf8_table \<Rightarrow> nat \<Rightarrow> nat \<Rightarrow> int \<Rightarrow> grid_line \<Rightarrow> (grid_line \<times> utf8_table) option" where
  "clear_part gsx t px nx bg gl =
     (let sx = (if gsx > cellsize gl then cellsize gl else gsx)
      in if COLOUR_DEFAULT (i32 bg) \<and> px > sx then Some (gl, t)
         else (let ox = (if COLOUR_DEFAULT (i32 bg) \<and> px + nx > sx then sx - px else nx)
               in do { (gl1, t1) \<leftarrow> grid_expand_line gsx t (px + ox) 8 gl; clear_cells t1 [px..<px + ox] bg gl1 }))"

fun clear_parts :: "utf8_table \<Rightarrow> grid \<Rightarrow> nat \<Rightarrow> nat \<Rightarrow> nat list \<Rightarrow> int \<Rightarrow> (grid \<times> utf8_table) option" where
  "clear_parts t gd px nx [] bg = Some (gd, t)"
| "clear_parts t gd px nx (yy # ys) bg = do {
     (gd', t') \<leftarrow> on_line gd yy (clear_part (g_sx gd) t px nx bg);
     clear_parts t' gd' px nx ys bg
   }"

definition grid_clear :: "utf8_table \<Rightarrow> grid \<Rightarrow> nat \<Rightarrow> nat \<Rightarrow> nat \<Rightarrow> nat \<Rightarrow> int \<Rightarrow> (grid \<times> utf8_table) option" where
  "grid_clear t gd px py nx ny bg =
     (if nx = 0 \<or> ny = 0 then Some (gd, t)
      else if px = 0 \<and> nx = g_sx gd then grid_clear_lines t gd py ny bg
      else if \<not> grid_check_y gd py \<or> \<not> grid_check_y gd (py + ny - 1) then Some (gd, t)
      else clear_parts t gd px nx [py..<py + ny] bg)"

definition grid_move_lines :: "utf8_table \<Rightarrow> grid \<Rightarrow> nat \<Rightarrow> nat \<Rightarrow> nat \<Rightarrow> int \<Rightarrow> (grid \<times> utf8_table) option" where
  "grid_move_lines t gd dy py ny bg =
     (if ny = 0 \<or> py = dy \<or> \<not> grid_check_y gd py \<or> \<not> grid_check_y gd (py + ny - 1) \<or> \<not> grid_check_y gd dy \<or>
         \<not> grid_check_y gd (dy + ny - 1)
      then Some (gd, t)
      else do {
        let gd1 = fold (\<lambda>yy g. if py \<le> yy \<and> yy < py + ny then g else grid_free_line g yy) [dy..<dy + ny] gd;
        let ls1 = (if dy \<noteq> 0 then clear_wrapped (dy - 1) (linedata gd1) else linedata gd1);
        let gd2 = gd1\<lparr>linedata := memmove dy py ny ls1\<rparr>;
        (gd3, t3) \<leftarrow> empty_lines t gd2 (filter (\<lambda>yy. yy < dy \<or> dy + ny \<le> yy) [py..<py + ny]) bg;
        Some (if py \<noteq> 0 \<and> (py < dy \<or> dy + ny \<le> py) then gd3\<lparr>linedata := clear_wrapped (py - 1) (linedata gd3)\<rparr> else gd3, t3)
      })"

definition grid_move_cells :: "utf8_table \<Rightarrow> grid \<Rightarrow> nat \<Rightarrow> nat \<Rightarrow> nat \<Rightarrow> nat \<Rightarrow> int \<Rightarrow> (grid \<times> utf8_table) option" where
  "grid_move_cells t gd dx px py nx bg =
     (if nx = 0 \<or> px = dx \<or> \<not> grid_check_y gd py then Some (gd, t)
      else on_line gd py (\<lambda>gl. do {
        (gl1, t1) \<leftarrow> grid_expand_line (g_sx gd) t (px + nx) 8 gl;
        (gl2, t2) \<leftarrow> grid_expand_line (g_sx gd) t1 (dx + nx) 8 gl1;
        let gl3 = gl2\<lparr>celldata := memmove dx px nx (celldata gl2),
                      cellused := (if dx + nx > cellused gl2 then dx + nx else cellused gl2)\<rparr>;
        clear_cells t2 (filter (\<lambda>xx. xx < dx \<or> dx + nx \<le> xx) [px..<px + nx]) bg gl3
      }))"

subsection \<open>Copying and measuring\<close>

definition copy_line :: "grid_line \<Rightarrow> grid_line" where
  "copy_line srcl =
     srcl\<lparr>celldata := (if cellsize srcl \<noteq> 0 then take (cellsize srcl) (celldata srcl) else []),
          extddata := (if extdsize srcl \<noteq> 0 then take (extdsize srcl) (extddata srcl) else [])\<rparr>"

text \<open>The lines lie inside both grids, as the code asks for; outside, the subtractions wrap there.\<close>

definition grid_duplicate_lines :: "grid \<Rightarrow> nat \<Rightarrow> grid \<Rightarrow> nat \<Rightarrow> nat \<Rightarrow> grid" where
  "grid_duplicate_lines dst dy src sy ny =
     (let n1 = (if dy + ny > hsize dst + g_sy dst then hsize dst + g_sy dst - dy else ny);
          n = (if sy + n1 > hsize src + g_sy src then hsize src + g_sy src - sy else n1)
      in fold (\<lambda>i d. set_line d (dy + i) (copy_line (linedata src ! (sy + i)))) [0..<n] (grid_free_lines dst dy n))"

definition blank_cell :: "grid_cell \<Rightarrow> bool" where
  "blank_cell gc \<longleftrightarrow> PADDING \<notin> gc_flags gc \<and> ud_size (gc_data gc) = 1 \<and> ud_data (gc_data gc) ! 0 = CHR '' ''"

fun line_length_loop :: "utf8_table \<Rightarrow> grid \<Rightarrow> nat \<Rightarrow> nat \<Rightarrow> nat option" where
  "line_length_loop t gd py 0 = Some 0"
| "line_length_loop t gd py (Suc px) = do {
     gc \<leftarrow> grid_get_cell t gd px py;
     if blank_cell gc then line_length_loop t gd py px else Some (Suc px)
   }"

definition grid_line_length :: "utf8_table \<Rightarrow> grid \<Rightarrow> nat \<Rightarrow> nat option" where
  "grid_line_length t gd py =
     (let px = cellsize (linedata gd ! py) in line_length_loop t gd py (if px > g_sx gd then g_sx gd else px))"

text \<open>The loop of \<open>grid_in_set\<close> that looks for the start of a tab; \<open>px - 1\<close> for the first column wraps in
  the code and finds no cell.\<close>

fun tab_start :: "utf8_table \<Rightarrow> grid \<Rightarrow> nat \<Rightarrow> nat \<Rightarrow> (nat \<times> grid_cell) option" where
  "tab_start t gd py 0 = map_option (Pair 0) (grid_get_cell t gd 0 py)"
| "tab_start t gd py (Suc pxx) = do {
     gc \<leftarrow> grid_get_cell t gd (Suc pxx) py;
     if PADDING \<in> gc_flags gc then tab_start t gd py pxx else Some (Suc pxx, gc)
   }"

text \<open>The number of columns that a match spans; the subtraction wraps.\<close>

definition grid_in_set :: "utf8_config \<Rightarrow> utf8_table \<Rightarrow> grid \<Rightarrow> nat \<Rightarrow> nat \<Rightarrow> string \<Rightarrow> nat option" where
  "grid_in_set cfg t gd px py chars = do {
     gc \<leftarrow> grid_get_cell t gd px py;
     let tabs = CHR 0x09 \<in> set chars;
     if tabs \<and> TAB \<in> gc_flags gc then Some (ud_width (gc_data gc))
     else do {
       found \<leftarrow> (if tabs \<and> PADDING \<in> gc_flags gc \<and> px \<noteq> 0
                 then do {
                   (pxx, tmp_gc) \<leftarrow> tab_start t gd py (px - 1);
                   Some (if TAB \<in> gc_flags tmp_gc
                         then Some (nat (u32 (int (ud_width (gc_data tmp_gc)) - int (px - pxx)))) else None)
                 }
                 else Some None);
       case found of
         Some n \<Rightarrow> Some n
       | None \<Rightarrow> if PADDING \<in> gc_flags gc then Some 0
                 else map_option (\<lambda>b. if b then 1 else 0) (utf8_cstrhas cfg chars (gc_data gc))
     }
   }"

subsection \<open>Wrapped positions\<close>

definition wrapped :: "grid_line \<Rightarrow> bool" where
  "wrapped gl \<longleftrightarrow> LINE_WRAPPED \<in> gl_flags gl"

definition u32_max :: nat where
  "u32_max = 4294967295"

definition wrap_line :: "grid_line \<Rightarrow> nat \<times> nat \<Rightarrow> nat \<times> nat" where
  "wrap_line gl a = (case a of (ax, ay) \<Rightarrow> if wrapped gl then (ax + cellused gl, ay) else (0, ay + 1))"

definition grid_wrap_position :: "grid \<Rightarrow> nat \<Rightarrow> nat \<Rightarrow> nat \<times> nat" where
  "grid_wrap_position gd px py =
     (case fold wrap_line (take py (linedata gd)) (0, 0) of (ax, ay) \<Rightarrow>
        (if px \<ge> cellused (linedata gd ! py) then u32_max else ax + px, ay))"

text \<open>The first loop counts the unwrapped lines down to \<open>wy\<close> and stops at the last line; the second walks
  over the wrapped lines of the paragraph.\<close>

fun find_paragraph :: "grid_line list \<Rightarrow> nat \<Rightarrow> nat \<Rightarrow> nat" where
  "find_paragraph [] wy yy = yy"
| "find_paragraph (gl # gls) wy yy =
     (if wy = 0 then yy else find_paragraph gls (if wrapped gl then wy else wy - 1) (yy + 1))"

fun paragraph_end :: "grid_line list \<Rightarrow> nat \<Rightarrow> nat \<times> nat" where
  "paragraph_end [] yy = (0, yy)"
| "paragraph_end (gl # gls) yy = (if wrapped gl then paragraph_end gls (yy + 1) else (cellused gl, yy))"

fun paragraph_walk :: "grid_line list \<Rightarrow> nat \<Rightarrow> nat \<Rightarrow> nat \<times> nat" where
  "paragraph_walk [] wx yy = (wx, yy)"
| "paragraph_walk (gl # gls) wx yy =
     (if wrapped gl \<and> \<not> wx < cellused gl then paragraph_walk gls (wx - cellused gl) (yy + 1) else (wx, yy))"

definition grid_unwrap_position :: "grid \<Rightarrow> nat \<Rightarrow> nat \<Rightarrow> nat \<times> nat" where
  "grid_unwrap_position gd wx wy =
     (let yy = find_paragraph (take (hsize gd + g_sy gd - 1) (linedata gd)) wy 0;
          rest = drop yy (linedata gd)
      in if wx = u32_max then paragraph_end rest yy else paragraph_walk rest wx yy)"

end
