(* ===== verification/Grid_Lines.thy ===== *)
theory Grid_Lines
  imports Grid
begin

text \<open>
  The grid refines a plain table of cells: what is read at a position is what was last written there.  The
  invariant of a line ties every extended cell to an entry of its own.
\<close>

section \<open>What a cell shows\<close>

text \<open>A cell as it is seen: without the mark of a cleared cell and the bytes past its end.\<close>

definition shown_data :: "utf8_data \<Rightarrow> utf8_data" where
  "shown_data ud = ud\<lparr>ud_have := ud_size ud, ud_data := take (ud_size ud) (ud_data ud)\<rparr>"

definition shown :: "grid_cell \<Rightarrow> grid_cell" where
  "shown gc = gc\<lparr>gc_flags := gc_flags gc - {CLEARED}, gc_data := shown_data (gc_data gc)\<rparr>"

lemma shown_equal: "grid_cells_equal a b \<longleftrightarrow> shown (a\<lparr>gc_us := 0\<rparr>) = shown (b\<lparr>gc_us := 0\<rparr>)"
  by (cases a; cases b; cases "gc_data a"; cases "gc_data b")
    (auto simp: grid_cells_equal_def grid_cells_look_equal_def shown_def shown_data_def)

definition blank :: "int \<Rightarrow> grid_cell" where
  "blank bg = shown (GRID_DEFAULT_CELL\<lparr>gc_bg := bg\<rparr>)"

definition flags256 :: "int \<Rightarrow> bool" where
  "flags256 c \<longleftrightarrow> colour_has c COLOUR_FLAG_256"

definition direct_colour :: "int \<Rightarrow> bool" where
  "direct_colour c \<longleftrightarrow> colour_has c COLOUR_FLAG_RGB \<or> colour_has c COLOUR_FLAG_THEME"

text \<open>The colours that the program uses: basic ones, the 256 colours, RGB and theme colours.\<close>

definition colour_ok :: "int \<Rightarrow> bool" where
  "colour_ok c \<longleftrightarrow> 0 \<le> c \<and> c \<le> i32_MAX \<and> (direct_colour c \<or> c < 256 \<or> 16777216 \<le> c \<and> c < 16777472)"

lemma colour_has_256:
  "0 \<le> c \<Longrightarrow> c < 256 \<Longrightarrow> \<not> colour_has c COLOUR_FLAG_256"
  "16777216 \<le> c \<Longrightarrow> c < 16777472 \<Longrightarrow> colour_has c COLOUR_FLAG_256"
  by (simp_all add: colour_has_def COLOUR_FLAG_256_def)

lemma colour_stored:
  assumes "colour_ok c" "\<not> direct_colour c"
  shows "int (nat (c mod 256)) + (if colour_has c COLOUR_FLAG_256 then COLOUR_FLAG_256 else 0) = c"
proof (cases "c < 256")
  case True
  then show ?thesis using assms colour_has_256(1) [of c] by (simp add: colour_ok_def)
next
  case False
  then have c: "16777216 \<le> c" "c < 16777472" using assms by (auto simp: colour_ok_def)
  have "(c - 16777216 + 65536 * 256) mod 256 = c - 16777216" using c by (simp only: mod_mult_self1) simp
  then show ?thesis using c colour_has_256(2) [OF c] by (simp add: COLOUR_FLAG_256_def)
qed

section \<open>The invariant of a line\<close>

definition ext :: "grid_line \<Rightarrow> nat \<Rightarrow> bool" where
  "ext gl x \<longleftrightarrow> EXTENDED \<in> gce_flags (celldata gl ! x)"

definition off :: "grid_line \<Rightarrow> nat \<Rightarrow> nat" where
  "off gl x = union_offset (gce_union (celldata gl ! x))"

definition extd_ok :: "utf8_table \<Rightarrow> grid_extd_entry \<Rightarrow> bool" where
  "extd_ok t gee \<longleftrightarrow> (if TAB \<in> gee_flags gee then gee_data gee \<le> UTF8_SIZE
     else known_char t (gee_data gee) \<and> utf8_get_size (gee_data gee) \<le> UTF8_SIZE)"

text \<open>The cells at the positions \<open>S\<close> exist, and the extended ones have different valid entries.\<close>

definition cells_ok :: "utf8_table \<Rightarrow> nat set \<Rightarrow> grid_line \<Rightarrow> bool" where
  "cells_ok t S gl \<longleftrightarrow> extdsize gl = length (extddata gl) \<and>
     (\<forall>x \<in> S. x < length (celldata gl) \<and> (ext gl x \<longrightarrow> off gl x < extdsize gl \<and> extd_ok t (extddata gl ! off gl x))) \<and>
     (\<forall>x \<in> S. \<forall>y \<in> S. ext gl x \<longrightarrow> ext gl y \<longrightarrow> off gl x = off gl y \<longrightarrow> x = y)"

lemma cells_okI:
  assumes "extdsize gl = length (extddata gl)" "\<And>x. x \<in> S \<Longrightarrow> x < length (celldata gl)"
    and "\<And>x. x \<in> S \<Longrightarrow> ext gl x \<Longrightarrow> off gl x < extdsize gl \<and> extd_ok t (extddata gl ! off gl x)"
    and "\<And>x y. x \<in> S \<Longrightarrow> y \<in> S \<Longrightarrow> ext gl x \<Longrightarrow> ext gl y \<Longrightarrow> off gl x = off gl y \<Longrightarrow> x = y"
  shows "cells_ok t S gl"
  using assms unfolding cells_ok_def by blast

lemma cells_okD:
  assumes "cells_ok t S gl"
  shows "extdsize gl = length (extddata gl)" "x \<in> S \<Longrightarrow> x < length (celldata gl)"
    "x \<in> S \<Longrightarrow> ext gl x \<Longrightarrow> off gl x < extdsize gl" "x \<in> S \<Longrightarrow> ext gl x \<Longrightarrow> extd_ok t (extddata gl ! off gl x)"
    "x \<in> S \<Longrightarrow> y \<in> S \<Longrightarrow> ext gl x \<Longrightarrow> ext gl y \<Longrightarrow> off gl x = off gl y \<Longrightarrow> x = y"
  using assms unfolding cells_ok_def by blast+

text \<open>The other fields of a line do not matter.\<close>

lemma ext_fields [simp]:
  "ext (gl\<lparr>cellsize := n\<rparr>) = ext gl" "ext (gl\<lparr>cellused := n\<rparr>) = ext gl" "ext (gl\<lparr>gl_flags := fs\<rparr>) = ext gl" "ext (gl\<lparr>gl_time := now\<rparr>) = ext gl"
  "off (gl\<lparr>cellsize := n\<rparr>) = off gl" "off (gl\<lparr>cellused := n\<rparr>) = off gl" "off (gl\<lparr>gl_flags := fs\<rparr>) = off gl" "off (gl\<lparr>gl_time := now\<rparr>) = off gl"
  by (simp_all add: ext_def off_def fun_eq_iff)

lemma cells_ok_fields [simp]:
  "cells_ok t S (gl\<lparr>cellsize := n\<rparr>) = cells_ok t S gl" "cells_ok t S (gl\<lparr>cellused := n\<rparr>) = cells_ok t S gl"
  "cells_ok t S (gl\<lparr>gl_flags := fs\<rparr>) = cells_ok t S gl" "cells_ok t S (gl\<lparr>gl_time := now\<rparr>) = cells_ok t S gl"
  by (simp_all add: cells_ok_def)

lemma get_cell1_fields [simp]:
  "grid_get_cell1 t (gl\<lparr>cellsize := n\<rparr>) = grid_get_cell1 t gl" "grid_get_cell1 t (gl\<lparr>cellused := n\<rparr>) = grid_get_cell1 t gl"
  "grid_get_cell1 t (gl\<lparr>gl_flags := fs\<rparr>) = grid_get_cell1 t gl" "grid_get_cell1 t (gl\<lparr>gl_time := now\<rparr>) = grid_get_cell1 t gl"
  by (simp_all add: grid_get_cell1_def fun_eq_iff Let_def)

definition line_ok :: "utf8_table \<Rightarrow> grid_line \<Rightarrow> bool" where
  "line_ok t gl \<longleftrightarrow> cells_ok t {..<cellsize gl} gl \<and> cellused gl \<le> cellsize gl"

lemma line_ok_cells: "line_ok t gl \<Longrightarrow> cells_ok t {..<cellsize gl} gl"
  by (simp add: line_ok_def)

lemma line_ok_length: "line_ok t gl \<Longrightarrow> cellsize gl \<le> length (celldata gl)"
  using cells_okD(2) [OF line_ok_cells, of t gl "length (celldata gl)"] by (meson lessThan_iff less_irrefl not_le)

definition table_le :: "utf8_table \<Rightarrow> utf8_table \<Rightarrow> bool" where
  "table_le t t' \<longleftrightarrow> (\<forall>uc. known_char t uc \<longrightarrow> known_char t' uc \<and> utf8_to_data t' uc = utf8_to_data t uc)"

lemma table_le_refl [simp]: "table_le t t"
  by (simp add: table_le_def)

lemma table_le_trans: "table_le t u \<Longrightarrow> table_le u v \<Longrightarrow> table_le t v"
  by (auto simp: table_le_def)

lemma extd_ok_mono: "extd_ok t e \<Longrightarrow> table_le t t' \<Longrightarrow> extd_ok t' e \<and> extended_cell t' e = extended_cell t e"
  by (auto simp: extd_ok_def extended_cell_def table_le_def)

lemma cells_ok_mono: "cells_ok t S gl \<Longrightarrow> table_le t t' \<Longrightarrow> cells_ok t' S gl"
  by (auto simp: cells_ok_def dest: extd_ok_mono)

lemma known_to_data: "known_char t uc \<Longrightarrow> utf8_get_size uc \<le> UTF8_SIZE \<Longrightarrow> utf8_to_data t uc \<noteq> None"
  by (auto simp: known_char_def utf8_to_data_def Let_def)

lemma extended_cell_Some: "extd_ok t e \<Longrightarrow> \<exists>gc. extended_cell t e = Some gc"
  using known_to_data [of t "gee_data e"]
  by (auto simp: extd_ok_def extended_cell_def grid_set_tab_def split: if_splits)

text \<open>Reading is not affected by what happens elsewhere.\<close>

lemma get_cell1_cong:
  assumes "celldata gl' ! x = celldata gl ! x" "cells_ok t S gl" "x \<in> S" "table_le t t'"
    and "ext gl x \<Longrightarrow> off gl x < extdsize gl' \<and> extddata gl' ! off gl x = extddata gl ! off gl x"
  shows "grid_get_cell1 t' gl' x = grid_get_cell1 t gl x"
proof (cases "ext gl x")
  case True
  then have "off gl x < extdsize gl" "extd_ok t (extddata gl ! off gl x)" using assms(2,3) by (auto simp: cells_ok_def)
  then show ?thesis using True assms(1,5) extd_ok_mono [OF _ assms(4)]
    by (auto simp: grid_get_cell1_def ext_def off_def Let_def)
next
  case False
  then show ?thesis using assms(1) by (simp add: grid_get_cell1_def ext_def Let_def)
qed


section \<open>Clearing cells\<close>

text \<open>What the operations on the cells of a line leave alone.\<close>

definition same_line :: "grid_line \<Rightarrow> grid_line \<Rightarrow> bool" where
  "same_line gl gl' \<longleftrightarrow> cellsize gl' = cellsize gl \<and> cellused gl' = cellused gl \<and> gl_time gl' = gl_time gl \<and>
     length (celldata gl') = length (celldata gl) \<and> wrapped gl' = wrapped gl"

lemma same_line_refl [simp]: "same_line gl gl"
  by (simp add: same_line_def)

lemma same_line_trans: "same_line a b \<Longrightarrow> same_line b c \<Longrightarrow> same_line a c"
  by (simp add: same_line_def)

text \<open>A new extended entry for the cell at \<open>x\<close>.\<close>

definition with_extd :: "nat \<Rightarrow> grid_flag set \<Rightarrow> grid_line_flag set \<Rightarrow> grid_extd_entry \<Rightarrow> grid_line \<Rightarrow> grid_line" where
  "with_extd x fs lfs e gl =
     gl\<lparr>celldata := (celldata gl)[x := \<lparr>gce_union = Offset (extdsize gl), gce_flags = insert EXTENDED fs\<rparr>],
        extddata := extddata gl @ [e], extdsize := extdsize gl + 1, gl_flags := gl_flags gl \<union> lfs\<rparr>"

definition with_entry :: "nat \<Rightarrow> grid_cell_entry \<Rightarrow> grid_line \<Rightarrow> grid_line" where
  "with_entry x gce gl = gl\<lparr>celldata := (celldata gl)[x := gce]\<rparr>"

lemma with_extd_ok:
  assumes "cells_ok t S gl" "x < length (celldata gl)" "extd_ok t' e" "table_le t t'" "LINE_WRAPPED \<notin> lfs"
  shows "cells_ok t' (insert x S) (with_extd x fs lfs e gl) \<and> same_line gl (with_extd x fs lfs e gl) \<and>
    (\<forall>y \<in> S - {x}. grid_get_cell1 t' (with_extd x fs lfs e gl) y = grid_get_cell1 t gl y) \<and>
    grid_get_cell1 t' (with_extd x fs lfs e gl) x = extended_cell t' e"
proof -
  let ?gl = "with_extd x fs lfs e gl"
  have ex: "ext ?gl y = (y = x \<or> ext gl y)" "off ?gl y = (if y = x then extdsize gl else off gl y)" for y
    using assms(2) by (simp_all add: ext_def off_def with_extd_def union_offset_def nth_list_update)
  have l: "extdsize ?gl = length (extddata ?gl)" "extdsize ?gl = Suc (extdsize gl)"
    using assms(1) by (simp_all add: with_extd_def cells_ok_def)
  have n: "extddata ?gl ! i = (if i < extdsize gl then extddata gl ! i else e)" if "i \<le> extdsize gl" for i
    using assms(1) that by (auto simp: with_extd_def cells_ok_def nth_append)
  note ok = cells_okD [OF cells_ok_mono [OF assms(1,4)]]
  have "cells_ok t' (insert x S) ?gl"
  proof (rule cells_okI)
    show "extdsize ?gl = length (extddata ?gl)" by (rule l)
    show "y < length (celldata ?gl)" if "y \<in> insert x S" for y using that ok(2) assms(2) by (auto simp: with_extd_def)
    show "off ?gl y < extdsize ?gl \<and> extd_ok t' (extddata ?gl ! off ?gl y)" if "y \<in> insert x S" "ext ?gl y" for y
      using that ok(3,4) [of y] ex l(2) n [of "extdsize gl"] n [of "off gl y"] assms(3) by (cases "y = x") auto
    show "y = z" if "y \<in> insert x S" "z \<in> insert x S" "ext ?gl y" "ext ?gl z" "off ?gl y = off ?gl z" for y z
      using that ok(3) [of y] ok(3) [of z] ok(5) [of y z] ex by (auto split: if_splits)
  qed
  moreover have "grid_get_cell1 t' ?gl y = grid_get_cell1 t gl y" if y: "y \<in> S - {x}" for y
  proof (rule get_cell1_cong [OF _ assms(1) _ assms(4)])
    show "celldata ?gl ! y = celldata gl ! y" using y by (simp add: with_extd_def)
    assume "ext gl y"
    then have "off gl y < extdsize gl" using y assms(1) by (auto simp: cells_ok_def)
    then show "off gl y < extdsize ?gl \<and> extddata ?gl ! off gl y = extddata gl ! off gl y"
      using n [of "off gl y"] l(2) by simp
  qed (use y in simp)
  moreover have "grid_get_cell1 t' ?gl x = extended_cell t' e"
    using assms(1,2) by (simp add: grid_get_cell1_def with_extd_def union_offset_def cells_ok_def)
  moreover have "same_line gl ?gl" using assms(5) by (simp add: same_line_def with_extd_def wrapped_def)
  ultimately show ?thesis by blast
qed

lemma with_entry_ok:
  assumes "cells_ok t S gl" "x < length (celldata gl)" "EXTENDED \<notin> gce_flags gce"
  shows "cells_ok t (insert x S) (with_entry x gce gl) \<and> same_line gl (with_entry x gce gl) \<and>
    (\<forall>y \<in> S - {x}. grid_get_cell1 t (with_entry x gce gl) y = grid_get_cell1 t gl y) \<and>
    grid_get_cell1 t (with_entry x gce gl) x = Some (packed_cell gce)"
proof -
  let ?gl = "with_entry x gce gl"
  have ex: "ext ?gl y = (y \<noteq> x \<and> ext gl y)" "y \<noteq> x \<Longrightarrow> off ?gl y = off gl y" for y
    using assms(2,3) by (auto simp: ext_def off_def with_entry_def nth_list_update)
  have "cells_ok t (insert x S) ?gl"
    using assms(1,2) ex unfolding cells_ok_def by (auto simp: with_entry_def)
  moreover have "grid_get_cell1 t ?gl y = grid_get_cell1 t gl y" if y: "y \<in> S - {x}" for y
    using y by (simp add: grid_get_cell1_def with_entry_def Let_def)
  moreover have "grid_get_cell1 t ?gl x = Some (packed_cell gce)"
    using assms(2,3) by (simp add: grid_get_cell1_def with_entry_def)
  ultimately show ?thesis by (simp add: same_line_def with_entry_def wrapped_def)
qed

definition cleared_extd :: "int \<Rightarrow> grid_extd_entry" where
  "cleared_extd bg = (extd_entry (utf8_build_one (CHR '' '')) GRID_CLEARED_CELL)\<lparr>gee_bg := i32 bg\<rparr>"

definition cleared_entry :: "int \<Rightarrow> grid_cell_entry" where
  "cleared_entry bg = (if bg = 8 then GRID_CLEARED_ENTRY else
     \<lparr>gce_union = Data 0 8 (nat (bg mod 256)) (CHR '' ''), gce_flags = {CLEARED} \<union> (if colour_has bg COLOUR_FLAG_256 then {BG256} else {})\<rparr>)"

definition cleared :: "nat \<Rightarrow> int \<Rightarrow> grid_line \<Rightarrow> grid_line" where
  "cleared x bg gl = (if direct_colour bg then with_extd x {CLEARED} {LINE_EXTENDED} (cleared_extd bg) gl
     else with_entry x (cleared_entry bg) gl)"

lemma zero_nth [simp]: "i < 21 \<Longrightarrow> zero_bytes ! i = CHR 0x00" "length zero_bytes = 21"
  by (simp_all add: zero_bytes_def UTF8_SIZE_def)

lemma from_data_one: "utf8_from_data t (one_byte c h 1 1) = Some (UTF8_DONE, utf8_build_one c, t)"
  by (simp add: utf8_from_data_def one_byte_def UTF8_SIZE_def utf8_build_one_def)

lemma build_one_fields: "utf8_get_size (utf8_build_one c) = 1" "utf8_get_width (utf8_build_one c) = 1"
  using pack_fields [of 1 1 "byte c"] byte_less [of c] unfolding utf8_build_one_def by linarith+

lemma known_one: "known_char t (utf8_build_one c)"
  by (simp add: known_char_def build_one_fields)

lemma to_data_one: "utf8_to_data t (utf8_build_one c) = Some (utf8_set c)"
proof -
  have "utf8_build_one c = 65 * 16777216 + (0 * 65536 + 0 * 256 + byte c)"
    by (simp add: utf8_build_one_def pack_char_def utf8_set_size_def utf8_set_width_def)
  note b = three_bytes(1-3) [where a = "byte c" and b = 0 and c = 0 and k = 65, folded this]
  have z: "byte (CHR 0x00) = 0" by simp
  have "utf8_to_data t (utf8_build_one c) = Some \<lparr>ud_data = zero_bytes[2 := CHR 0x00, 1 := CHR 0x00, 0 := c], ud_have = 1,
    ud_size = 1, ud_width = 1\<rparr>"
    using to_data_small [of "utf8_build_one c" "CHR 0x00" "CHR 0x00" c t] b z byte_less [of c]
    by (simp only: build_one_fields)
  moreover have "zero_bytes[2 := CHR 0x00, 1 := CHR 0x00] = zero_bytes"
    by (simp add: list_update_id [of zero_bytes, symmetric] zero_bytes_def UTF8_SIZE_def numeral_eq_Suc)
  ultimately show ?thesis by (simp add: utf8_set_def)
qed

lemma clear_cell_eq:
  assumes "extdsize gl = length (extddata gl)" "x < length (celldata gl)" "colour_ok bg"
  shows "grid_clear_cell t x bg gl = Some (cleared x bg gl, t)"
proof (cases "direct_colour bg")
  case True
  then have b: "bg \<noteq> 8" by (auto simp: direct_colour_def colour_has_def COLOUR_FLAG_RGB_def COLOUR_FLAG_THEME_def)
  have g: "reallocarray zeroed_extd (extdsize gl + 1) (extddata gl) = extddata gl @ [zeroed_extd]"
    using assms(1) by (simp add: reallocarray_def)
  show ?thesis using True b assms(1,2) g from_data_one [of t "CHR '' ''" 0]
    by (simp add: grid_clear_cell_def direct_colour_def grid_extended_cell_def grid_get_extended_cell_def Let_def union_offset_def
        cleared_def with_extd_def GRID_CLEARED_ENTRY_def GRID_CLEARED_CELL_def cleared_extd_def extd_entry_def)
next
  case False
  then show ?thesis
    by (auto simp: grid_clear_cell_def direct_colour_def cleared_def with_entry_def cleared_entry_def GRID_CLEARED_ENTRY_def Let_def)
qed

lemma cleared_shown:
  assumes "colour_ok bg"
  shows "extd_ok t (cleared_extd bg)" "map_option shown (extended_cell t (cleared_extd bg)) = Some (blank bg)"
    "\<not> direct_colour bg \<Longrightarrow> shown (packed_cell (cleared_entry bg)) = blank bg"
proof -
  have bg: "i32 bg = bg" using assms by (simp add: colour_ok_def i32_id i32_MAX_def)
  show "extd_ok t (cleared_extd bg)"
    by (simp add: extd_ok_def cleared_extd_def extd_entry_def GRID_CLEARED_CELL_def known_one build_one_fields UTF8_SIZE_def)
  show "map_option shown (extended_cell t (cleared_extd bg)) = Some (blank bg)"
    by (simp add: extended_cell_def cleared_extd_def extd_entry_def GRID_CLEARED_CELL_def to_data_one bg shown_def blank_def
        GRID_DEFAULT_CELL_def shown_data_def utf8_set_def one_byte_def)
  show "shown (packed_cell (cleared_entry bg)) = blank bg" if "\<not> direct_colour bg"
    using colour_stored [OF assms that]
    by (auto simp: cleared_entry_def packed_cell_def GRID_CLEARED_ENTRY_def shown_def blank_def
        GRID_DEFAULT_CELL_def shown_data_def utf8_set_def one_byte_def split: if_splits)
qed

lemma clear_cell_spec:
  assumes "cells_ok t S gl" "x < length (celldata gl)" "colour_ok bg"
  shows "grid_clear_cell t x bg gl = Some (cleared x bg gl, t)" "cells_ok t (insert x S) (cleared x bg gl)"
    "same_line gl (cleared x bg gl)" "y \<in> S \<Longrightarrow> y \<noteq> x \<Longrightarrow> grid_get_cell1 t (cleared x bg gl) y = grid_get_cell1 t gl y"
    "map_option shown (grid_get_cell1 t (cleared x bg gl) x) = Some (blank bg)"
proof -
  have "EXTENDED \<notin> gce_flags (cleared_entry bg)" by (simp add: cleared_entry_def GRID_CLEARED_ENTRY_def)
  note e = with_entry_ok [OF assms(1,2) this] and
    x = with_extd_ok [OF assms(1,2) cleared_shown(1) [OF assms(3)] table_le_refl, of "{LINE_EXTENDED}" "{CLEARED}"]
  show "grid_clear_cell t x bg gl = Some (cleared x bg gl, t)"
    using clear_cell_eq [OF _ assms(2,3)] assms(1) by (simp add: cells_ok_def)
  show "cells_ok t (insert x S) (cleared x bg gl)" "same_line gl (cleared x bg gl)"
    "y \<in> S \<Longrightarrow> y \<noteq> x \<Longrightarrow> grid_get_cell1 t (cleared x bg gl) y = grid_get_cell1 t gl y"
    "map_option shown (grid_get_cell1 t (cleared x bg gl) x) = Some (blank bg)"
    using e x cleared_shown [OF assms(3)] by (auto simp: cleared_def)
qed


lemma clear_cells_spec:
  assumes "cells_ok t S gl" "\<forall>x \<in> set xs. x < length (celldata gl)" "colour_ok bg"
  shows "\<exists>gl'. clear_cells t xs bg gl = Some (gl', t) \<and> cells_ok t (S \<union> set xs) gl' \<and> same_line gl gl' \<and>
    (\<forall>y \<in> S - set xs. grid_get_cell1 t gl' y = grid_get_cell1 t gl y) \<and>
    (\<forall>x \<in> set xs. map_option shown (grid_get_cell1 t gl' x) = Some (blank bg))"
  using assms
proof (induction xs arbitrary: S gl)
  case (Cons x xs)
  have x: "x < length (celldata gl)" using Cons.prems(2) by simp
  note c = clear_cell_spec [OF Cons.prems(1) x Cons.prems(3)]
  have "\<forall>y \<in> set xs. y < length (celldata (cleared x bg gl))" using Cons.prems(2) c(3) by (simp add: same_line_def)
  from Cons.IH [OF c(2) this Cons.prems(3)] obtain gl' where gl': "clear_cells t xs bg (cleared x bg gl) = Some (gl', t)"
    "cells_ok t (insert x S \<union> set xs) gl'" "same_line (cleared x bg gl) gl'"
    "\<forall>y \<in> insert x S - set xs. grid_get_cell1 t gl' y = grid_get_cell1 t (cleared x bg gl) y"
    "\<forall>y \<in> set xs. map_option shown (grid_get_cell1 t gl' y) = Some (blank bg)" by blast
  have "map_option shown (grid_get_cell1 t gl' x) = Some (blank bg)"
    using gl'(4,5) c(5) by (cases "x \<in> set xs") auto
  moreover have "grid_get_cell1 t gl' y = grid_get_cell1 t gl y" if "y \<in> S - set (x # xs)" for y
    using that gl'(4) c(4) by auto
  ultimately show ?case using gl' c(1) same_line_trans [OF c(3) gl'(3)] by auto
qed auto

section \<open>Lines as sequences of cells\<close>

definition line_view :: "utf8_table \<Rightarrow> grid_line \<Rightarrow> nat \<Rightarrow> grid_cell option" where
  "line_view t gl x = (if x < cellsize gl then map_option shown (grid_get_cell1 t gl x) else Some (blank 8))"

lemma line_fields [simp]:
  "line_ok t (gl\<lparr>gl_time := now\<rparr>) = line_ok t gl" "line_view t (gl\<lparr>gl_time := now\<rparr>) = line_view t gl"
  "line_ok t (gl\<lparr>gl_flags := fs\<rparr>) = line_ok t gl" "line_view t (gl\<lparr>gl_flags := fs\<rparr>) = line_view t gl"
  by (simp_all add: line_ok_def line_view_def fun_eq_iff)

lemma zeroed_line_ok [simp]: "line_ok t zeroed_line" "line_view t zeroed_line x = Some (blank 8)"
  by (simp_all add: line_ok_def cells_ok_def zeroed_line_def line_view_def)

lemma line_ok_mono:
  assumes "line_ok t gl" "table_le t t'"
  shows "line_ok t' gl \<and> line_view t' gl = line_view t gl"
proof -
  have ok: "cells_ok t {..<cellsize gl} gl" using assms(1) by (simp add: line_ok_def)
  have "grid_get_cell1 t' gl x = grid_get_cell1 t gl x" if "x < cellsize gl" for x
    using get_cell1_cong [OF refl ok _ assms(2), of x] cells_okD(3) [OF ok, of x] that by simp
  then show ?thesis using assms(1) cells_ok_mono [OF ok assms(2)] by (auto simp: line_ok_def line_view_def)
qed

lemma expand_size_ge: "sx \<le> expand_size gsx sx"
  by (auto simp: expand_size_def)

lemma realloc_grow:
  assumes "c \<le> length xs" "c \<le> n"
  shows "length (reallocarray z n xs) = n" "x < c \<Longrightarrow> reallocarray z n xs ! x = xs ! x"
  using assms by (auto simp: reallocarray_def nth_append)

lemma realloc_cells_ok:
  fixes z :: grid_cell_entry
  assumes "line_ok t gl" "cellsize gl \<le> n"
  defines "gl' \<equiv> gl\<lparr>celldata := reallocarray z n (celldata gl)\<rparr>"
  shows "cells_ok t {..<cellsize gl} gl'" "length (celldata gl') = n"
    "x < cellsize gl \<Longrightarrow> grid_get_cell1 t gl' x = grid_get_cell1 t gl x"
proof -
  have ok: "cells_ok t {..<cellsize gl} gl" using assms(1) by (simp add: line_ok_def)
  have le: "cellsize gl \<le> length (celldata gl)" using line_ok_length [OF assms(1)] .
  note r = realloc_grow [OF le assms(2), where z = z]
  show "length (celldata gl') = n" using r by (simp add: gl'_def)
  show "grid_get_cell1 t gl' x = grid_get_cell1 t gl x" if "x < cellsize gl"
    using that r by (simp add: gl'_def grid_get_cell1_def Let_def)
  have "ext gl' x = ext gl x \<and> off gl' x = off gl x" if "x < cellsize gl" for x
    using that r by (simp add: gl'_def ext_def off_def)
  then show "cells_ok t {..<cellsize gl} gl'"
    using ok r assms(2) unfolding cells_ok_def by (auto simp: gl'_def)
qed

lemma expand_line_spec:
  assumes "line_ok t gl" "colour_ok bg"
  shows "\<exists>gl'. grid_expand_line gsx t sx bg gl = Some (gl', t) \<and> line_ok t gl' \<and> sx \<le> cellsize gl' \<and>
    cellsize gl' = (if sx \<le> cellsize gl then cellsize gl else expand_size gsx sx) \<and>
    cellused gl' = cellused gl \<and> gl_time gl' = gl_time gl \<and> wrapped gl' = wrapped gl \<and>
    (\<forall>x. line_view t gl' x = (if cellsize gl \<le> x \<and> x < cellsize gl' then Some (blank bg) else line_view t gl x))"
proof (cases "sx \<le> cellsize gl")
  case True
  then show ?thesis using assms(1) by (auto simp: grid_expand_line_def)
next
  case False
  define n where "n = expand_size gsx sx"
  have n: "cellsize gl \<le> n" "sx \<le> n" using False expand_size_ge [of sx gsx] by (auto simp: n_def)
  define gl0 where "gl0 = gl\<lparr>celldata := reallocarray GRID_CLEARED_ENTRY n (celldata gl)\<rparr>"
  note r = realloc_cells_ok [OF assms(1) n(1), where z = GRID_CLEARED_ENTRY, folded gl0_def]
  have "\<forall>x \<in> set [cellsize gl..<n]. x < length (celldata gl0)" using r(2) by simp
  from clear_cells_spec [OF r(1) this assms(2)] obtain gl' where gl':
    "clear_cells t [cellsize gl..<n] bg gl0 = Some (gl', t)" "cells_ok t ({..<cellsize gl} \<union> {cellsize gl..<n}) gl'"
    "same_line gl0 gl'" "\<forall>y \<in> {..<cellsize gl} - {cellsize gl..<n}. grid_get_cell1 t gl' y = grid_get_cell1 t gl0 y"
    "\<forall>x \<in> {cellsize gl..<n}. map_option shown (grid_get_cell1 t gl' x) = Some (blank bg)" by auto
  define g where "g = gl'\<lparr>cellsize := n\<rparr>"
  have "{..<cellsize gl} \<union> {cellsize gl..<n} = {..<n}" using n(1) by auto
  then have "cells_ok t {..<n} g" using gl'(2) by (simp add: g_def)
  then have "line_ok t g" using gl'(3) assms(1) n(1) by (simp add: line_ok_def g_def same_line_def gl0_def)
  moreover have "line_view t g x = (if cellsize gl \<le> x \<and> x < n then Some (blank bg) else line_view t gl x)" for x
    using gl'(4,5) r(3) n(1) unfolding line_view_def by (auto simp: g_def)
  moreover have "grid_expand_line gsx t sx bg gl = Some (g, t)"
    using False gl'(1) by (simp add: grid_expand_line_def n_def gl0_def g_def)
  moreover have "cellused g = cellused gl" "gl_time g = gl_time gl" "wrapped g = wrapped gl" "cellsize g = n"
    using gl'(3) by (simp_all add: g_def same_line_def gl0_def wrapped_def)
  ultimately show ?thesis using False n by (auto simp: n_def)
qed


section \<open>Writing a cell\<close>

definition tab_data :: "nat \<Rightarrow> utf8_data" where
  "tab_data w = \<lparr>ud_data = replicate w (CHR '' '') @ drop w zero_bytes, ud_have = w, ud_size = w, ud_width = w\<rparr>"

text \<open>The cells that can be stored without loss: every character of one or two columns, and tabs.\<close>

definition storable :: "grid_cell \<Rightarrow> bool" where
  "storable gc \<longleftrightarrow> {FG256, BG256, EXTENDED} \<inter> gc_flags gc = {} \<and> colour_ok (gc_fg gc) \<and> colour_ok (gc_bg gc) \<and>
     (if TAB \<in> gc_flags gc
      then PADDING \<notin> gc_flags gc \<and> ud_width (gc_data gc) \<le> UTF8_SIZE \<and> gc_data gc = tab_data (ud_width (gc_data gc))
      else utf8_ok (gc_data gc) \<and> 1 \<le> ud_size (gc_data gc) \<and> 1 \<le> ud_width (gc_data gc))"

definition table_room :: "utf8_table \<Rightarrow> bool" where
  "table_room t \<longleftrightarrow> utf8_table_ok t \<and> utf8_next_index t < 16777216"

lemma packed_shown:
  assumes "storable gc" "\<not> grid_need_extended_cell gce gc"
  shows "shown (packed_cell (grid_store_cell gc (ud_data (gc_data gc) ! 0))) = shown gc"
    "EXTENDED \<notin> gce_flags (grid_store_cell gc (ud_data (gc_data gc) ! 0))"
proof -
  have s: "{FG256, BG256, EXTENDED} \<inter> gc_flags gc = {}" "ud_size (gc_data gc) = 1" "ud_width (gc_data gc) = 1"
    "length (ud_data (gc_data gc)) = 21" "gc_attr gc mod 256 = gc_attr gc" "gc_us gc = 8" "gc_link gc = 0"
    using assms by (auto simp: storable_def grid_need_extended_cell_def utf8_ok_def UTF8_SIZE_def)
  have c: "int (nat (c mod 256)) + (if colour_has c COLOUR_FLAG_256 then COLOUR_FLAG_256 else 0) = c"
    if "c = gc_fg gc \<or> c = gc_bg gc" for c
    using that assms colour_stored [of c] by (auto simp: storable_def grid_need_extended_cell_def direct_colour_def)
  have "take 1 (zero_bytes[0 := a]) = [a]" for a by (simp add: take_Suc_conv_app_nth)
  moreover have "take 1 (ud_data (gc_data gc)) = [ud_data (gc_data gc) ! 0]" using s(4) by (simp add: take_Suc_conv_app_nth)
  ultimately have d: "shown_data (utf8_set (ud_data (gc_data gc) ! 0)) = shown_data (gc_data gc)"
    using s by (simp add: shown_data_def utf8_set_def)
  have f: "(gc_flags gc - {CLEARED} \<union> (if a then {FG256} else {}) \<union> (if b then {BG256} else {})) - {FG256, BG256} - {CLEARED}
    = gc_flags gc - {CLEARED}" "FG256 \<in> gc_flags gc - {CLEARED} \<union> (if a then {FG256} else {}) \<union> (if b then {BG256} else {}) \<longleftrightarrow> a"
    "BG256 \<in> gc_flags gc - {CLEARED} \<union> (if a then {FG256} else {}) \<union> (if b then {BG256} else {}) \<longleftrightarrow> b" for a b
    using s(1) by auto
  show "shown (packed_cell (grid_store_cell gc (ud_data (gc_data gc) ! 0))) = shown gc"
    unfolding shown_def packed_cell_def grid_store_cell_def
    using s d c [of "gc_fg gc"] c [of "gc_bg gc"] by (cases gc) (auto simp: f split: if_splits)
  show "EXTENDED \<notin> gce_flags (grid_store_cell gc (ud_data (gc_data gc) ! 0))" using s(1) by (auto simp: grid_store_cell_def)
qed

lemma to_data_size: "utf8_to_data t uc = Some ud \<Longrightarrow> ud_size ud = utf8_get_size uc"
  by (auto simp: utf8_to_data_def Let_def split: if_splits option.splits)

lemma utf8_ok_shown: "shown_data (ud\<lparr>ud_have := n\<rparr>) = shown_data ud"
  by (simp add: shown_data_def)

text \<open>The character of an extended entry.\<close>

definition entry_char :: "utf8_table \<Rightarrow> grid_cell \<Rightarrow> (utf8_char \<times> utf8_table) option" where
  "entry_char t gc = (if TAB \<in> gc_flags gc then Some (ud_width (gc_data gc), t) else map_option snd (utf8_from_data t (gc_data gc)))"

lemma entry_char_spec:
  assumes "storable gc" "table_room t"
  obtains uc t' where "entry_char t gc = Some (uc, t')" "utf8_table_ok t'" "table_le t t'" "extd_ok t' (extd_entry uc gc)"
    "map_option shown (extended_cell t' (extd_entry uc gc)) = Some (shown gc)" "utf8_next_index t' \<le> utf8_next_index t + 1"
proof (cases "TAB \<in> gc_flags gc")
  case True
  let ?w = "ud_width (gc_data gc)"
  have w: "?w \<le> 21" "gc_data gc = tab_data ?w" "PADDING \<notin> gc_flags gc"
    using assms(1) True by (auto simp: storable_def UTF8_SIZE_def)
  have "extended_cell t (extd_entry ?w gc) = Some (gc\<lparr>gc_flags := gc_flags gc - {CLEARED}, gc_data := tab_data ?w\<rparr>)"
    using True w(1,3) by (cases gc) (auto simp: extended_cell_def extd_entry_def grid_set_tab_def UTF8_SIZE_def tab_data_def Let_def)
  moreover have "shown (gc\<lparr>gc_flags := gc_flags gc - {CLEARED}, gc_data := tab_data ?w\<rparr>) = shown gc"
    using w(2) by (cases gc) (auto simp: shown_def)
  moreover have "extd_ok t (extd_entry ?w gc)" using True w(1) by (simp add: extd_ok_def extd_entry_def UTF8_SIZE_def)
  ultimately show thesis using that [of ?w t] True assms(2) by (auto simp: entry_char_def table_room_def)
next
  case False
  have ok: "utf8_table_ok t" "utf8_ok (gc_data gc)" "utf8_next_index t < 16777216"
    using assms False by (auto simp: storable_def table_room_def)
  obtain uc t' where p: "utf8_from_data t (gc_data gc) = Some (UTF8_DONE, uc, t')"
    "utf8_to_data t' uc = Some ((gc_data gc)\<lparr>ud_have := ud_size (gc_data gc)\<rparr>)" "utf8_table_ok t'" "known_char t' uc"
    "table_le t t'"
    using utf8_pack [OF ok] by (auto simp: table_le_def)
  have "utf8_get_size uc = ud_size (gc_data gc)" using to_data_size [OF p(2)] by simp
  then have "extd_ok t' (extd_entry uc gc)" using False p(4) ok(2) by (simp add: extd_ok_def extd_entry_def utf8_ok_def)
  moreover have "map_option shown (extended_cell t' (extd_entry uc gc)) = Some (shown gc)"
    using False p(2) by (cases gc) (auto simp: extended_cell_def extd_entry_def shown_def utf8_ok_shown)
  moreover have "utf8_next_index t' \<le> utf8_next_index t + 1"
    using p(1) by (auto simp: utf8_from_data_def utf8_put_item_def Let_def split: if_splits option.splits)
  ultimately show thesis using that p False by (simp add: entry_char_def)
qed


definition with_update :: "nat \<Rightarrow> grid_line_flag set \<Rightarrow> grid_extd_entry \<Rightarrow> grid_line \<Rightarrow> grid_line" where
  "with_update x lfs e gl = gl\<lparr>extddata := (extddata gl)[off gl x := e], gl_flags := gl_flags gl \<union> lfs\<rparr>"

lemma with_update_ok:
  assumes "cells_ok t S gl" "x \<in> S" "ext gl x" "extd_ok t' e" "table_le t t'" "LINE_WRAPPED \<notin> lfs"
  shows "cells_ok t' S (with_update x lfs e gl) \<and> same_line gl (with_update x lfs e gl) \<and>
    (\<forall>y \<in> S - {x}. grid_get_cell1 t' (with_update x lfs e gl) y = grid_get_cell1 t gl y) \<and>
    grid_get_cell1 t' (with_update x lfs e gl) x = extended_cell t' e"
proof -
  let ?gl = "with_update x lfs e gl"
  note ok = cells_okD [OF assms(1)] and ok' = cells_okD [OF cells_ok_mono [OF assms(1,5)]]
  have ex: "ext ?gl y = ext gl y" "off ?gl y = off gl y" for y by (simp_all add: ext_def off_def with_update_def)
  have n: "extddata ?gl ! i = (if i = off gl x then e else extddata gl ! i)" for i
    using ok(1) ok(3) [OF assms(2,3)] by (simp add: with_update_def nth_list_update)
  have "cells_ok t' S ?gl"
  proof (rule cells_okI)
    show "off ?gl y < extdsize ?gl \<and> extd_ok t' (extddata ?gl ! off ?gl y)" if "y \<in> S" "ext ?gl y" for y
      using that ok'(3,4) [of y] assms(4) unfolding ex n by (auto simp: with_update_def)
  qed (use ok ex in \<open>auto simp: with_update_def\<close>)
  moreover have "grid_get_cell1 t' ?gl y = grid_get_cell1 t gl y" if y: "y \<in> S - {x}" for y
  proof (rule get_cell1_cong [OF _ assms(1) _ assms(5)])
    show "celldata ?gl ! y = celldata gl ! y" by (simp add: with_update_def)
    assume "ext gl y"
    then show "off gl y < extdsize ?gl \<and> extddata ?gl ! off gl y = extddata gl ! off gl y"
      using y ok(3) [of y] ok(5) [OF _ assms(2) _ assms(3), of y] unfolding n by (auto simp: with_update_def)
  qed (use y in simp)
  moreover have "grid_get_cell1 t' ?gl x = extended_cell t' e"
    using assms(3) ok(1) ok(3) [OF assms(2,3)] by (simp add: grid_get_cell1_def with_update_def ext_def off_def Let_def)
  moreover have "same_line gl ?gl" using assms(6) by (simp add: same_line_def with_update_def wrapped_def)
  ultimately show ?thesis by blast
qed

text \<open>What \<open>grid_extended_cell\<close> does: a cell that is extended keeps its entry.\<close>

definition link_flags :: "grid_cell \<Rightarrow> grid_line_flag set" where
  "link_flags gc = {LINE_EXTENDED} \<union> (if gc_link gc \<noteq> 0 then {LINE_HYPERLINK} else {})"

definition place :: "nat \<Rightarrow> grid_cell \<Rightarrow> grid_extd_entry \<Rightarrow> grid_line \<Rightarrow> grid_line" where
  "place x gc e gl = (if ext gl x then with_update x (link_flags gc) e gl
     else with_extd x (gc_flags gc - {CLEARED}) (link_flags gc) e gl)"

lemma extended_cell_eq:
  assumes "cells_ok t S gl" "x \<in> S" "entry_char t gc = Some (uc, t')"
  shows "grid_extended_cell t gl x gc =
    Some (if ext gl x then off gl x else extdsize gl, place x gc (extd_entry uc gc) gl, t')"
proof -
  note ok = cells_okD [OF assms(1)]
  have g: "reallocarray zeroed_extd (extdsize gl + 1) (extddata gl) = extddata gl @ [zeroed_extd]"
    using ok(1) by (simp add: reallocarray_def)
  show ?thesis
  proof (cases "ext gl x")
    case True
    then show ?thesis using ok(3) [OF assms(2)] assms(3)
      by (simp add: grid_extended_cell_def ext_def off_def entry_char_def place_def with_update_def link_flags_def Let_def)
  next
    case False
    then show ?thesis using ok(1) ok(2) [OF assms(2)] assms(3) g
      by (simp add: grid_extended_cell_def ext_def grid_get_extended_cell_def entry_char_def place_def with_extd_def link_flags_def Let_def
          union_offset_def Un_assoc)
  qed
qed

lemma place_ok:
  assumes "cells_ok t S gl" "x \<in> S" "extd_ok t' e" "table_le t t'"
  shows "cells_ok t' S (place x gc e gl) \<and> same_line gl (place x gc e gl) \<and>
    (\<forall>y \<in> S - {x}. grid_get_cell1 t' (place x gc e gl) y = grid_get_cell1 t gl y) \<and>
    grid_get_cell1 t' (place x gc e gl) x = extended_cell t' e"
proof -
  have "LINE_WRAPPED \<notin> link_flags gc" by (simp add: link_flags_def)
  then show ?thesis
    using with_update_ok [OF assms(1,2) _ assms(3,4)]
      with_extd_ok [OF assms(1) cells_okD(2) [OF assms(1,2)] assms(3,4), of "link_flags gc" "gc_flags gc - {CLEARED}"] assms(2)
    by (auto simp: place_def insert_absorb)
qed

lemma place_data:
  assumes "cells_ok t S gl" "x \<in> S"
  defines "k \<equiv> if ext gl x then off gl x else extdsize gl"
  shows "(place x gc e gl)\<lparr>extddata := (extddata (place x gc e gl))[k := (extddata (place x gc e gl) ! k)\<lparr>gee_data := uc\<rparr>]\<rparr>
    = place x gc (e\<lparr>gee_data := uc\<rparr>) gl"
  using cells_okD(1) [OF assms(1)] cells_okD(3) [OF assms(1), of x] assms(2)
  by (auto simp: k_def place_def with_update_def with_extd_def)


text \<open>Writing a cell that can be stored, with its own character or with a given byte.\<close>

definition char_cell :: "grid_cell \<Rightarrow> char \<Rightarrow> grid_cell" where
  "char_cell gc c = gc\<lparr>gc_data := utf8_set c\<rparr>"

lemma put_cell_spec:
  assumes "cells_ok t S gl" "x \<in> S" "storable gc" "table_room t"
  shows "\<exists>gl' t'. put_cell t x gc (ud_data (gc_data gc) ! 0) None gl = Some (gl', t') \<and> utf8_table_ok t' \<and> table_le t t' \<and>
    utf8_next_index t' \<le> utf8_next_index t + 1 \<and>
    cells_ok t' S gl' \<and> same_line gl gl' \<and> (\<forall>y \<in> S - {x}. grid_get_cell1 t' gl' y = grid_get_cell1 t gl y) \<and>
    map_option shown (grid_get_cell1 t' gl' x) = Some (shown gc)"
proof (cases "grid_need_extended_cell (celldata gl ! x) gc")
  case True
  obtain uc t' where e: "entry_char t gc = Some (uc, t')" "utf8_table_ok t'" "table_le t t'" "extd_ok t' (extd_entry uc gc)"
    "map_option shown (extended_cell t' (extd_entry uc gc)) = Some (shown gc)" "utf8_next_index t' \<le> utf8_next_index t + 1"
    using entry_char_spec [OF assms(3,4)] .
  then show ?thesis using place_ok [OF assms(1,2) e(4,3), of gc] extended_cell_eq [OF assms(1,2) e(1)] True by (simp add: put_cell_def)
next
  case False
  note p = packed_shown [OF assms(3) False]
  show ?thesis using with_entry_ok [OF assms(1) cells_okD(2) [OF assms(1,2)] p(2)] p(1) False assms(2,4)
    by (simp add: put_cell_def with_entry_def insert_absorb table_room_def)
qed

text \<open>The padding behind a wide character has no character of its own.  Packed it is read back with the byte
  that was stored, as an extended entry as it was written.\<close>

definition padding_reads :: "grid_cell set" where
  "padding_reads = {shown GRID_PADDING_CELL, shown (char_cell GRID_PADDING_CELL (CHR ''!''))}"

lemma padding_entry:
  obtains uc where "entry_char t GRID_PADDING_CELL = Some (uc, t)" "extd_ok t (extd_entry uc GRID_PADDING_CELL)"
    "map_option shown (extended_cell t (extd_entry uc GRID_PADDING_CELL)) = Some (shown GRID_PADDING_CELL)"
proof -
  let ?uc = "pack_char 0 0 (byte (CHR ''!''))"
  have z: "zero_bytes[0 := CHR ''!''] ! 0 = CHR ''!''" "zero_bytes[0 := CHR ''!''] ! Suc 0 = CHR 0x00" "zero_bytes[0 := CHR ''!''] ! 2 = CHR 0x00"
    by code_simp+
  have s: "utf8_get_size ?uc = 0" "utf8_get_width ?uc = 0" using pack_fields [of 0 0 "byte (CHR ''!'')"] by simp_all
  have "entry_char t GRID_PADDING_CELL = Some (?uc, t)"
    using z by (simp add: entry_char_def GRID_PADDING_CELL_def one_byte_def utf8_from_data_def UTF8_SIZE_def)
  moreover have "extd_ok t (extd_entry ?uc GRID_PADDING_CELL)"
    using s by (simp add: extd_ok_def extd_entry_def GRID_PADDING_CELL_def known_char_def)
  moreover have "map_option shown (extended_cell t (extd_entry ?uc GRID_PADDING_CELL)) = Some (shown GRID_PADDING_CELL)"
    using s by (simp add: extended_cell_def extd_entry_def GRID_PADDING_CELL_def one_byte_def utf8_to_data_def shown_def shown_data_def Let_def)
  ultimately show thesis using that by blast
qed

lemma padding_packed:
  "shown (packed_cell (grid_store_cell GRID_PADDING_CELL (ud_data (gc_data GRID_PADDING_CELL) ! 0))) = shown (char_cell GRID_PADDING_CELL (CHR ''!''))"
  "EXTENDED \<notin> gce_flags (grid_store_cell GRID_PADDING_CELL (ud_data (gc_data GRID_PADDING_CELL) ! 0))"
proof -
  have "ud_data (gc_data GRID_PADDING_CELL) ! 0 = CHR ''!''" "\<not> colour_has 8 COLOUR_FLAG_256" by code_simp+
  then show "shown (packed_cell (grid_store_cell GRID_PADDING_CELL (ud_data (gc_data GRID_PADDING_CELL) ! 0))) = shown (char_cell GRID_PADDING_CELL (CHR ''!''))"
    "EXTENDED \<notin> gce_flags (grid_store_cell GRID_PADDING_CELL (ud_data (gc_data GRID_PADDING_CELL) ! 0))"
    by (auto simp: packed_cell_def grid_store_cell_def char_cell_def GRID_PADDING_CELL_def shown_def)
qed

lemma put_padding_spec:
  assumes "cells_ok t S gl" "x \<in> S" "table_room t"
  shows "\<exists>gl' pc. put_cell t x GRID_PADDING_CELL (ud_data (gc_data GRID_PADDING_CELL) ! 0) None gl = Some (gl', t) \<and>
    cells_ok t S gl' \<and> same_line gl gl' \<and> (\<forall>y \<in> S - {x}. grid_get_cell1 t gl' y = grid_get_cell1 t gl y) \<and>
    map_option shown (grid_get_cell1 t gl' x) = Some pc \<and> pc \<in> padding_reads"
proof (cases "grid_need_extended_cell (celldata gl ! x) GRID_PADDING_CELL")
  case True
  obtain uc where e: "entry_char t GRID_PADDING_CELL = Some (uc, t)" "extd_ok t (extd_entry uc GRID_PADDING_CELL)"
    "map_option shown (extended_cell t (extd_entry uc GRID_PADDING_CELL)) = Some (shown GRID_PADDING_CELL)" by (rule padding_entry)
  then show ?thesis
    using place_ok [OF assms(1,2) e(2) table_le_refl, of GRID_PADDING_CELL] extended_cell_eq [OF assms(1,2) e(1)] True
    by (auto simp: put_cell_def padding_reads_def)
next
  case False
  show ?thesis using with_entry_ok [OF assms(1) cells_okD(2) [OF assms(1,2)] padding_packed(2)] padding_packed(1) False assms(2)
    by (simp add: put_cell_def with_entry_def insert_absorb padding_reads_def)
qed

lemma put_char_spec:
  assumes "cells_ok t S gl" "x \<in> S" "storable gc" "TAB \<notin> gc_flags gc" "table_room t"
  shows "\<exists>gl' t'. put_cell t x gc c (Some (utf8_build_one c)) gl = Some (gl', t') \<and> utf8_table_ok t' \<and> table_le t t' \<and>
    (utf8_next_index t' = utf8_next_index t \<or> 3 < ud_size (gc_data gc)) \<and>
    cells_ok t' S gl' \<and> same_line gl gl' \<and> (\<forall>y \<in> S - {x}. grid_get_cell1 t' gl' y = grid_get_cell1 t gl y) \<and>
    map_option shown (grid_get_cell1 t' gl' x) = Some (shown (char_cell gc c))"
proof (cases "grid_need_extended_cell (celldata gl ! x) gc")
  case True
  obtain uc t' where e: "entry_char t gc = Some (uc, t')" "utf8_table_ok t'" "table_le t t'" "extd_ok t' (extd_entry uc gc)"
    using entry_char_spec [OF assms(3,5)] by blast
  let ?e = "(extd_entry uc gc)\<lparr>gee_data := utf8_build_one c\<rparr>"
  have k: "extd_ok t' ?e" using assms(4) by (simp add: extd_ok_def extd_entry_def known_one build_one_fields UTF8_SIZE_def)
  have "map_option shown (extended_cell t' ?e) = Some (shown (char_cell gc c))"
    using assms(4) by (cases gc) (simp add: extended_cell_def extd_entry_def to_data_one shown_def char_cell_def)
  moreover have "utf8_next_index t' = utf8_next_index t \<or> 3 < ud_size (gc_data gc)"
    using e(1) assms(4) by (auto simp: entry_char_def utf8_from_data_def split: if_splits)
  ultimately show ?thesis
    using place_ok [OF assms(1,2) k e(3), of gc] place_data [OF assms(1,2), of gc "extd_entry uc gc" "utf8_build_one c"]
      extended_cell_eq [OF assms(1,2) e(1)] True e by (simp add: put_cell_def)
next
  case False
  have st: "grid_store_cell (char_cell gc c) c = grid_store_cell gc c" by (simp add: grid_store_cell_def char_cell_def)
  have "storable (char_cell gc c)" "\<not> grid_need_extended_cell (celldata gl ! x) (char_cell gc c)"
    using assms(3,4) False
    by (auto simp: storable_def char_cell_def grid_need_extended_cell_def utf8_ok_def utf8_set_def UTF8_SIZE_def)
  from packed_shown [OF this] have "shown (packed_cell (grid_store_cell gc c)) = shown (char_cell gc c)"
    "EXTENDED \<notin> gce_flags (grid_store_cell gc c)" using st by (simp_all add: char_cell_def utf8_set_def)
  then show ?thesis using with_entry_ok [OF assms(1) cells_okD(2) [OF assms(1,2)], of "grid_store_cell gc c"] False assms(2,5)
    by (simp add: put_cell_def with_entry_def insert_absorb table_room_def)
qed

section \<open>Compacting\<close>

definition ext_count :: "nat \<Rightarrow> grid_cell_entry list \<Rightarrow> nat" where
  "ext_count x gces = length (filter (\<lambda>gce. EXTENDED \<in> gce_flags gce) (take x gces))"

lemma ext_count_less:
  assumes "x < y" "y \<le> length gces" "EXTENDED \<in> gce_flags (gces ! x)"
  shows "ext_count x gces < ext_count y gces"
proof -
  have "take y gces = take x gces @ gces ! x # drop (Suc x) (take y gces)"
    using id_take_nth_drop [of x "take y gces"] assms by (simp add: min_def)
  then have "ext_count y gces = ext_count x gces + 1 + length (filter (\<lambda>gce. EXTENDED \<in> gce_flags gce) (drop (Suc x) (take y gces)))"
    unfolding ext_count_def using assms(3) by (metis (no_types, lifting) add.assoc filter.simps(2) filter_append length_append
        length_Cons plus_1_eq_Suc)
  then show ?thesis by simp
qed

lemma compact_length: "length (fst (compact_cells old i gces)) = length gces \<and>
    length (snd (compact_cells old i gces)) = ext_count (length gces) gces"
proof (induction gces arbitrary: i)
  case (Cons g gs)
  show ?case using Cons.IH [of "i + 1"] Cons.IH [of i] by (simp add: ext_count_def case_prod_beta)
qed (simp add: ext_count_def)

lemma compact_nth:
  assumes "x < length gces"
  shows "fst (compact_cells old i gces) ! x = (if EXTENDED \<in> gce_flags (gces ! x) then (gces ! x)\<lparr>gce_union := Offset (i + ext_count x gces)\<rparr> else gces ! x)"
    "EXTENDED \<in> gce_flags (gces ! x) \<Longrightarrow> snd (compact_cells old i gces) ! ext_count x gces = old ! union_offset (gce_union (gces ! x))"
  using assms
proof (induction gces arbitrary: i x)
  case (Cons g gs)
  { case 1
    then show ?case using Cons.IH(1) [of "x - 1" "i + 1"] Cons.IH(1) [of "x - 1" i]
      by (cases x) (auto simp: ext_count_def case_prod_beta)
  next
    case 2
    then show ?case using Cons.IH(2) [of "x - 1" "i + 1"] Cons.IH(2) [of "x - 1" i]
      by (cases x) (auto simp: ext_count_def case_prod_beta) }
qed auto

lemma compact_dense:
  assumes "line_ok t gl" "extdsize gl \<noteq> 0" "ext_count (cellsize gl) (celldata gl) \<noteq> 0"
  shows "cells_ok t {..<cellsize gl} (grid_compact_line gl) \<and>
    (\<forall>x < cellsize gl. grid_get_cell1 t (grid_compact_line gl) x = grid_get_cell1 t gl x)"
proof -
  note ok = cells_okD [OF line_ok_cells [OF assms(1)]] and len = line_ok_length [OF assms(1)]
  let ?n = "ext_count (cellsize gl) (celldata gl)"
  let ?gces = "take (cellsize gl) (celldata gl)"
  define cs where "cs = fst (compact_cells (extddata gl) 0 ?gces)"
  define es where "es = snd (compact_cells (extddata gl) 0 ?gces)"
  define g where "g = gl\<lparr>celldata := cs @ drop (cellsize gl) (celldata gl), extddata := es, extdsize := ?n\<rparr>"
  have g: "grid_compact_line gl = g"
    using assms(2,3) by (simp add: grid_compact_line_def Let_def ext_count_def g_def cs_def es_def split: prod.splits)
  have lens: "length cs = cellsize gl" "length es = ?n"
    using compact_length [of "extddata gl" 0 ?gces] len by (simp_all add: cs_def es_def ext_count_def)
  have c: "ext_count x ?gces = ext_count x (celldata gl)" if "x \<le> cellsize gl" for x using that by (simp add: ext_count_def min_def)
  have cell: "ext g x = ext gl x" "ext gl x \<Longrightarrow> off g x = ext_count x (celldata gl)"
    "\<not> ext gl x \<Longrightarrow> celldata g ! x = celldata gl ! x" "ext gl x \<Longrightarrow> es ! ext_count x (celldata gl) = extddata gl ! off gl x"
    if "x < cellsize gl" for x
    using compact_nth [of x ?gces "extddata gl" 0] that len lens c [of x]
    by (auto simp: g_def ext_def off_def nth_append cs_def es_def union_offset_def)
  have bound: "ext gl x \<Longrightarrow> ext_count x (celldata gl) < ?n" if "x < cellsize gl" for x
    using ext_count_less [OF that len] by (simp add: ext_def)
  have "cells_ok t {..<cellsize gl} g"
  proof (rule cells_okI)
    show "extdsize g = length (extddata g)" using lens by (simp add: g_def)
    show "x < length (celldata g)" if "x \<in> {..<cellsize gl}" for x using that lens by (simp add: g_def)
    show "off g x < extdsize g \<and> extd_ok t (extddata g ! off g x)" if "x \<in> {..<cellsize gl}" "ext g x" for x
      using that cell [of x] bound [of x] ok(4) [of x] by (simp add: g_def)
    show "x = y" if "x \<in> {..<cellsize gl}" "y \<in> {..<cellsize gl}" "ext g x" "ext g y" "off g x = off g y" for x y
      using that cell [of x] cell [of y] ext_count_less [of x y "celldata gl"] ext_count_less [of y x "celldata gl"] len
      by (cases x y rule: linorder_cases) (auto simp: ext_def)
  qed
  moreover have "grid_get_cell1 t g x = grid_get_cell1 t gl x" if "x < cellsize gl" for x
  proof (cases "ext gl x")
    case True
    have "extdsize g = ?n" "extddata g = es" by (simp_all add: g_def)
    then show ?thesis using True cell [OF that] bound [OF that] ok(3) [of x] that
      unfolding grid_get_cell1_def Let_def ext_def off_def by simp
  next
    case False
    then show ?thesis using cell [OF that] by (simp add: grid_get_cell1_def ext_def Let_def)
  qed
  ultimately show ?thesis using g by simp
qed

lemma compact_line_ok:
  assumes "line_ok t gl"
  shows "line_ok t (grid_compact_line gl)" "line_view t (grid_compact_line gl) = line_view t gl"
    "cellsize (grid_compact_line gl) = cellsize gl" "cellused (grid_compact_line gl) = cellused gl"
    "gl_flags (grid_compact_line gl) = gl_flags gl"
    "extdsize (grid_compact_line gl) = (if extdsize gl = 0 then 0 else ext_count (cellsize gl) (celldata gl))"
proof -
  note ok = cells_okD [OF line_ok_cells [OF assms(1)]] and len = line_ok_length [OF assms(1)]
  show sz: "cellsize (grid_compact_line gl) = cellsize gl" "cellused (grid_compact_line gl) = cellused gl"
    "gl_flags (grid_compact_line gl) = gl_flags gl"
    "extdsize (grid_compact_line gl) = (if extdsize gl = 0 then 0 else ext_count (cellsize gl) (celldata gl))"
    by (auto simp: grid_compact_line_def Let_def ext_count_def split: prod.splits)
  consider "extdsize gl = 0" | "extdsize gl \<noteq> 0" "ext_count (cellsize gl) (celldata gl) = 0"
    | "extdsize gl \<noteq> 0" "ext_count (cellsize gl) (celldata gl) \<noteq> 0" by blast
  then have key: "cells_ok t {..<cellsize gl} (grid_compact_line gl) \<and>
    (\<forall>x < cellsize gl. grid_get_cell1 t (grid_compact_line gl) x = grid_get_cell1 t gl x)"
  proof cases
    case 1
    then show ?thesis using line_ok_cells [OF assms] by (simp add: grid_compact_line_def)
  next
    case 2
    have "\<not> ext gl x" if "x < cellsize gl" for x
      using ext_count_less [OF that len] 2 by (auto simp: ext_def)
    then show ?thesis using 2 ok(1,2) len
      by (auto simp: grid_compact_line_def Let_def cells_ok_def ext_def ext_count_def grid_get_cell1_def)
  next
    case 3
    then show ?thesis using compact_dense [OF assms] by simp
  qed
  show "line_ok t (grid_compact_line gl)" using key assms sz by (simp add: line_ok_def)
  show "line_view t (grid_compact_line gl) = line_view t gl" using key sz by (auto simp: line_view_def)
qed


section \<open>Writing several cells, moving cells\<close>

lemma colour_8 [simp]: "colour_ok 8"
  by (simp add: colour_ok_def i32_MAX_def)

lemma expand_default:
  assumes "line_ok t gl"
  obtains g1 where "grid_expand_line gsx t sx 8 gl = Some (g1, t)" "line_ok t g1" "sx \<le> cellsize g1" "cellsize gl \<le> cellsize g1"
    "line_view t g1 = line_view t gl" "cellused g1 = cellused gl" "wrapped g1 = wrapped gl"
proof -
  from expand_line_spec [OF assms colour_8, of gsx sx] obtain g1 where g1: "grid_expand_line gsx t sx 8 gl = Some (g1, t)"
    "line_ok t g1" "sx \<le> cellsize g1" "cellsize g1 = (if sx \<le> cellsize gl then cellsize gl else expand_size gsx sx)"
    "cellused g1 = cellused gl" "wrapped g1 = wrapped gl"
    "\<And>x. line_view t g1 x = (if cellsize gl \<le> x \<and> x < cellsize g1 then Some (blank 8) else line_view t gl x)" by blast
  have "line_view t gl x = Some (blank 8)" if "cellsize gl \<le> x" for x using that by (simp add: line_view_def)
  then have "line_view t g1 = line_view t gl" using g1(7) by auto
  moreover have "cellsize gl \<le> cellsize g1" using g1(3,4) by (cases "sx \<le> cellsize gl") auto
  ultimately show thesis using that g1 by blast
qed

lemma put_cells_spec:
  assumes "cells_ok t S gl" "{px..<px + length s} \<subseteq> S" "storable gc" "TAB \<notin> gc_flags gc" "ud_size (gc_data gc) \<le> 3" "table_room t"
  shows "\<exists>gl' t'. put_cells t px gc s gl = Some (gl', t') \<and> table_room t' \<and> utf8_next_index t' = utf8_next_index t \<and> table_le t t' \<and> cells_ok t' S gl' \<and> same_line gl gl' \<and>
    (\<forall>y \<in> S. map_option shown (grid_get_cell1 t' gl' y) =
       (if px \<le> y \<and> y < px + length s then Some (shown (char_cell gc (s ! (y - px)))) else map_option shown (grid_get_cell1 t gl y)))"
  using assms(1,2,6)
proof (induction s arbitrary: t gl px)
  case (Cons c s)
  have "px \<in> S" using Cons.prems(2) by auto
  from put_char_spec [OF Cons.prems(1) this assms(3,4) Cons.prems(3), of c] obtain g1 t1 where g1:
    "put_cell t px gc c (Some (utf8_build_one c)) gl = Some (g1, t1)" "table_room t1" "table_le t t1" "cells_ok t1 S g1" "same_line gl g1"
    "\<forall>y \<in> S - {px}. grid_get_cell1 t1 g1 y = grid_get_cell1 t gl y"
    "map_option shown (grid_get_cell1 t1 g1 px) = Some (shown (char_cell gc c))" "utf8_next_index t1 = utf8_next_index t"
    using assms(5) Cons.prems(3) by (auto simp: table_room_def)
  have "{px + 1..<px + 1 + length s} \<subseteq> S" using Cons.prems(2) by auto
  from Cons.IH [OF g1(4) this g1(2)] obtain g2 t2 where g2:
    "put_cells t1 (px + 1) gc s g1 = Some (g2, t2)" "table_room t2" "table_le t1 t2" "cells_ok t2 S g2" "same_line g1 g2"
    "\<forall>y \<in> S. map_option shown (grid_get_cell1 t2 g2 y) = (if px + 1 \<le> y \<and> y < px + 1 + length s
       then Some (shown (char_cell gc (s ! (y - (px + 1))))) else map_option shown (grid_get_cell1 t1 g1 y))" "utf8_next_index t2 = utf8_next_index t1" by blast
  have "map_option shown (grid_get_cell1 t2 g2 y) = (if px \<le> y \<and> y < px + length (c # s)
      then Some (shown (char_cell gc ((c # s) ! (y - px)))) else map_option shown (grid_get_cell1 t gl y))" if "y \<in> S" for y
    using that g1(6,7) g2(6) by (cases "y = px") (auto simp: nth_Cons' Suc_diff_Suc)
  then show ?case using g1 g2 table_le_trans [OF g1(3) g2(3)] same_line_trans [OF g1(5) g2(5)] by auto
qed auto

lemma permute_ok:
  assumes "cells_ok t S gl" "inj_on f T" "\<And>x. x \<in> T \<Longrightarrow> x < length cd \<and> f x \<in> S \<and> cd ! x = celldata gl ! f x"
  shows "cells_ok t T (gl\<lparr>celldata := cd\<rparr>)" "x \<in> T \<Longrightarrow> grid_get_cell1 t (gl\<lparr>celldata := cd\<rparr>) x = grid_get_cell1 t gl (f x)"
proof -
  note ok = cells_okD [OF assms(1)]
  have e: "ext (gl\<lparr>celldata := cd\<rparr>) x = ext gl (f x)" "off (gl\<lparr>celldata := cd\<rparr>) x = off gl (f x)" if "x \<in> T" for x
    using assms(3) [OF that] by (simp_all add: ext_def off_def)
  show "cells_ok t T (gl\<lparr>celldata := cd\<rparr>)"
  proof (rule cells_okI)
    show "x = y" if xy: "x \<in> T" "y \<in> T" and h: "ext (gl\<lparr>celldata := cd\<rparr>) x" "ext (gl\<lparr>celldata := cd\<rparr>) y"
      "off (gl\<lparr>celldata := cd\<rparr>) x = off (gl\<lparr>celldata := cd\<rparr>) y" for x y
    proof -
      have "f x = f y" using h ok(5) [of "f x" "f y"] assms(3) xy unfolding e [OF xy(1)] e [OF xy(2)] by blast
      then show ?thesis using inj_onD [OF assms(2)] xy by blast
    qed
  qed (use ok assms(3) e in auto)
  show "grid_get_cell1 t (gl\<lparr>celldata := cd\<rparr>) x = grid_get_cell1 t gl (f x)" if "x \<in> T"
    using assms(3) [OF that] by (simp add: grid_get_cell1_def Let_def)
qed

lemma memmove_length: "dst + n \<le> length xs \<Longrightarrow> src + n \<le> length xs \<Longrightarrow> length (memmove dst src n xs) = length xs"
  by (simp add: memmove_def)

lemma memmove_nth:
  assumes "dst + n \<le> length xs" "src + n \<le> length xs" "x < length xs"
  shows "memmove dst src n xs ! x = (if dst \<le> x \<and> x < dst + n then xs ! (x - dst + src) else xs ! x)"
  using assms by (auto simp: memmove_def nth_append min_def intro: arg_cong [where f = "(!) xs"])

text \<open>The cells after a move: those at the destination come from the source, the rest of the source is cleared.\<close>

definition moved :: "nat \<Rightarrow> nat \<Rightarrow> nat \<Rightarrow> 'a \<Rightarrow> (nat \<Rightarrow> 'a) \<Rightarrow> nat \<Rightarrow> 'a" where
  "moved dst src n z f x = (if dst \<le> x \<and> x < dst + n then f (x - dst + src) else if src \<le> x \<and> x < src + n then z else f x)"

lemma move_cells_line:
  assumes "line_ok t gl" "colour_ok bg" "dx + nx \<le> cellsize gl" "px + nx \<le> cellsize gl"
  defines "g0 \<equiv> gl\<lparr>celldata := memmove dx px nx (celldata gl), cellused := (if dx + nx > cellused gl then dx + nx else cellused gl)\<rparr>"
  shows "\<exists>g. clear_cells t (filter (\<lambda>xx. xx < dx \<or> dx + nx \<le> xx) [px..<px + nx]) bg g0 = Some (g, t) \<and> line_ok t g \<and>
    (\<forall>x. line_view t g x = moved dx px nx (Some (blank bg)) (line_view t gl) x)"
proof -
  let ?c = "cellsize gl" and ?f = "\<lambda>x. if dx \<le> x \<and> x < dx + nx then x - dx + px else x"
  let ?xs = "filter (\<lambda>xx. xx < dx \<or> dx + nx \<le> xx) [px..<px + nx]"
  let ?T = "{..<?c} - set ?xs"
  have len: "?c \<le> length (celldata gl)" using line_ok_length [OF assms(1)] .
  have "inj_on ?f ?T" by (auto simp: inj_on_def)
  moreover have "x < length (memmove dx px nx (celldata gl)) \<and> ?f x \<in> {..<?c} \<and> memmove dx px nx (celldata gl) ! x = celldata gl ! ?f x"
    if "x \<in> ?T" for x
    using that len assms(3,4) memmove_nth [of dx nx "celldata gl" px x] memmove_length [of dx nx "celldata gl" px] by auto
  ultimately have p: "cells_ok t ?T g0" "\<And>x. x \<in> ?T \<Longrightarrow> grid_get_cell1 t g0 x = grid_get_cell1 t gl (?f x)"
    using permute_ok [OF line_ok_cells [OF assms(1)], of ?f ?T "memmove dx px nx (celldata gl)"] by (simp_all add: g0_def)
  have "\<forall>x \<in> set ?xs. x < length (celldata g0)"
    using assms(3,4) len memmove_length [of dx nx "celldata gl" px] by (auto simp: g0_def)
  from clear_cells_spec [OF p(1) this assms(2)] obtain g where g: "clear_cells t ?xs bg g0 = Some (g, t)" "cells_ok t (?T \<union> set ?xs) g"
    "same_line g0 g" "\<forall>y \<in> ?T - set ?xs. grid_get_cell1 t g y = grid_get_cell1 t g0 y"
    "\<forall>x \<in> set ?xs. map_option shown (grid_get_cell1 t g x) = Some (blank bg)" by blast
  have "?T \<union> set ?xs = {..<?c}" using assms(4) by auto
  moreover have sz: "cellsize g = ?c" "cellused g \<le> ?c"
    using g(3) assms(1,3) by (auto simp: same_line_def g0_def line_ok_def)
  ultimately have "line_ok t g" using g(2) by (simp add: line_ok_def)
  moreover have "line_view t g x = moved dx px nx (Some (blank bg)) (line_view t gl) x" for x
  proof (cases "x \<in> set ?xs")
    case True
    then show ?thesis using g(5) assms(4) sz by (auto simp: line_view_def moved_def)
  next
    case False
    then show ?thesis using g(4) p(2) [of x] sz assms(3,4) by (auto simp: line_view_def moved_def)
  qed
  ultimately show ?thesis using g(1) by blast
qed

end
