(* ===== verification/Grid_Sound.thy ===== *)
theory Grid_Sound
  imports Grid_Lines
begin

text \<open>
  The operations on whole grids against a specification in which a grid is a table of cells and a number of
  history lines: each operation changes the table as the specification says and keeps the invariant.
\<close>

section \<open>Grids as tables\<close>

definition grid_ok :: "utf8_table \<Rightarrow> grid \<Rightarrow> bool" where
  "grid_ok t gd \<longleftrightarrow> hsize gd + g_sy gd \<le> length (linedata gd) \<and> (\<forall>y < hsize gd + g_sy gd. line_ok t (linedata gd ! y))"

definition view :: "utf8_table \<Rightarrow> grid \<Rightarrow> nat \<Rightarrow> nat \<Rightarrow> grid_cell option" where
  "view t gd x y = map_option shown (grid_get_cell t gd x y)"

lemma view_line: "view t gd x y = (if y < hsize gd + g_sy gd then line_view t (linedata gd ! y) x else Some (blank 8))"
  by (simp add: view_def grid_get_cell_def grid_check_y_def line_view_def blank_def GRID_DEFAULT_CELL_def)

lemma grid_ok_line: "grid_ok t gd \<Longrightarrow> y < hsize gd + g_sy gd \<Longrightarrow> line_ok t (linedata gd ! y) \<and> y < length (linedata gd)"
  by (simp add: grid_ok_def)

lemma line_view_Some: "line_ok t gl \<Longrightarrow> \<exists>gc. line_view t gl x = Some gc"
  using extended_cell_Some [of t "extddata gl ! off gl x"] cells_okD(3,4) [OF line_ok_cells, of t gl x]
  by (auto simp: line_view_def grid_get_cell1_def ext_def off_def Let_def)

text \<open>Whatever is read from a grid that satisfies the invariant is a cell.\<close>

lemma view_Some: "grid_ok t gd \<Longrightarrow> \<exists>gc. view t gd x y = Some gc"
  using line_view_Some by (auto simp: view_line grid_ok_def)

text \<open>A grid of the same size whose lines \<open>Y\<close> have changed.\<close>

definition same_size :: "grid \<Rightarrow> grid \<Rightarrow> bool" where
  "same_size gd gd' \<longleftrightarrow> g_sx gd' = g_sx gd \<and> g_sy gd' = g_sy gd \<and> hsize gd' = hsize gd \<and> hlimit gd' = hlimit gd \<and>
     length (linedata gd') = length (linedata gd)"

lemma same_size_refl [simp]: "same_size gd gd"
  by (simp add: same_size_def)

lemma same_size_trans: "same_size a b \<Longrightarrow> same_size b c \<Longrightarrow> same_size a c"
  by (simp add: same_size_def)

lemma set_line_fields [simp]:
  "g_sx (set_line gd y gl) = g_sx gd" "g_sy (set_line gd y gl) = g_sy gd" "hsize (set_line gd y gl) = hsize gd"
  "hlimit (set_line gd y gl) = hlimit gd" "hscrolled (set_line gd y gl) = hscrolled gd"
  "linedata (set_line gd y gl) = (linedata gd)[y := gl]" "same_size gd (set_line gd y gl)"
  by (simp_all add: set_line_def same_size_def)

lemma set_line_ok:
  assumes "grid_ok t gd" "y < hsize gd + g_sy gd" "line_ok t' gl" "table_le t t'"
  shows "grid_ok t' (set_line gd y gl)" "view t' (set_line gd y gl) x z = (if z = y then line_view t' gl x else view t gd x z)"
proof -
  have "line_ok t' (linedata gd ! z) \<and> line_view t' (linedata gd ! z) = line_view t (linedata gd ! z)"
    if "z < hsize gd + g_sy gd" for z using line_ok_mono [OF _ assms(4)] grid_ok_line [OF assms(1) that] by blast
  then show "grid_ok t' (set_line gd y gl)" "view t' (set_line gd y gl) x z = (if z = y then line_view t' gl x else view t gd x z)"
    using assms grid_ok_line [OF assms(1,2)] by (auto simp: grid_ok_def view_line nth_list_update)
qed

section \<open>Writing\<close>

text \<open>Writing one cell, given what the entry that is made for it reads as.\<close>

lemma set_cell_by:
  assumes "grid_ok t gd" "py < hsize gd + g_sy gd"
    and put: "\<And>S gl. cells_ok t S gl \<Longrightarrow> px \<in> S \<Longrightarrow> \<exists>gl' t' pc. put_cell t px gc (ud_data (gc_data gc) ! 0) None gl = Some (gl', t') \<and>
      utf8_table_ok t' \<and> table_le t t' \<and> utf8_next_index t' \<le> utf8_next_index t + 1 \<and>
      cells_ok t' S gl' \<and> same_line gl gl' \<and> (\<forall>y \<in> S - {px}. grid_get_cell1 t' gl' y = grid_get_cell1 t gl y) \<and>
      map_option shown (grid_get_cell1 t' gl' px) = Some pc \<and> pc \<in> P"
  shows "\<exists>gd' t' pc. grid_set_cell t gd px py gc = Some (gd', t') \<and> grid_ok t' gd' \<and> utf8_table_ok t' \<and> table_le t t' \<and>
    utf8_next_index t' \<le> utf8_next_index t + 1 \<and> same_size gd gd' \<and>
    (\<forall>x y. view t' gd' x y = (if x = px \<and> y = py then Some pc else view t gd x y)) \<and> pc \<in> P"
proof -
  let ?gl = "linedata gd ! py"
  have l: "line_ok t ?gl" using grid_ok_line [OF assms(1,2)] by simp
  obtain g1 where g1: "grid_expand_line (g_sx gd) t (px + 1) 8 ?gl = Some (g1, t)" "line_ok t g1" "px + 1 \<le> cellsize g1"
    "line_view t g1 = line_view t ?gl" using expand_default [OF l] by metis
  define g2 where "g2 = g1\<lparr>cellused := (if px + 1 > cellused g1 then px + 1 else cellused g1)\<rparr>"
  have g2: "line_ok t g2" using g1(2,3) by (auto simp: line_ok_def g2_def)
  have "px \<in> {..<cellsize g2}" using g1(3) by (simp add: g2_def)
  from put [OF line_ok_cells [OF g2] this] obtain g3 t' pc where g3:
    "put_cell t px gc (ud_data (gc_data gc) ! 0) None g2 = Some (g3, t')" "utf8_table_ok t'" "table_le t t'"
    "cells_ok t' {..<cellsize g2} g3" "same_line g2 g3"
    "\<forall>y \<in> {..<cellsize g2} - {px}. grid_get_cell1 t' g3 y = grid_get_cell1 t g2 y"
    "map_option shown (grid_get_cell1 t' g3 px) = Some pc" "utf8_next_index t' \<le> utf8_next_index t + 1" "pc \<in> P" by blast
  have "line_ok t' g3" using g2 g3(4,5) by (simp add: line_ok_def same_line_def)
  note s = set_line_ok [OF assms(1,2) this g3(3)]
  have "line_view t' g3 x = (if x = px then Some pc else line_view t ?gl x)" for x
    using g3(5,6,7) g1(3) fun_cong [OF g1(4), of x] by (auto simp: line_view_def same_line_def g2_def)
  moreover have "grid_set_cell t gd px py gc = Some (set_line gd py g3, t')"
    using assms(2) g1(1) g3(1) by (simp add: grid_set_cell_def grid_check_y_def on_line_def g2_def)
  ultimately show ?thesis using s g3(2,3,8,9) assms(2) by (intro exI [of _ "set_line gd py g3"] exI [of _ t'] exI [of _ pc]) (auto simp: view_line)
qed

lemma set_cell_spec:
  assumes "grid_ok t gd" "table_room t" "storable gc" "py < hsize gd + g_sy gd"
  shows "\<exists>gd' t'. grid_set_cell t gd px py gc = Some (gd', t') \<and> grid_ok t' gd' \<and> utf8_table_ok t' \<and> table_le t t' \<and>
    utf8_next_index t' \<le> utf8_next_index t + 1 \<and> same_size gd gd' \<and> (\<forall>x y. view t' gd' x y = (if x = px \<and> y = py then Some (shown gc) else view t gd x y))"
proof -
  have "\<exists>gl' t' pc. put_cell t px gc (ud_data (gc_data gc) ! 0) None gl = Some (gl', t') \<and>
      utf8_table_ok t' \<and> table_le t t' \<and> utf8_next_index t' \<le> utf8_next_index t + 1 \<and>
      cells_ok t' S gl' \<and> same_line gl gl' \<and> (\<forall>y \<in> S - {px}. grid_get_cell1 t' gl' y = grid_get_cell1 t gl y) \<and>
      map_option shown (grid_get_cell1 t' gl' px) = Some pc \<and> pc \<in> {shown gc}"
    if "cells_ok t S gl" "px \<in> S" for S gl using put_cell_spec [OF that assms(3,2)] by blast
  from set_cell_by [OF assms(1,4) this] show ?thesis by auto
qed

lemma set_padding_spec:
  assumes "grid_ok t gd" "table_room t" "py < hsize gd + g_sy gd"
  shows "\<exists>gd' t' pc. grid_set_cell t gd px py GRID_PADDING_CELL = Some (gd', t') \<and> grid_ok t' gd' \<and> utf8_table_ok t' \<and> table_le t t' \<and>
    utf8_next_index t' \<le> utf8_next_index t + 1 \<and> same_size gd gd' \<and>
    (\<forall>x y. view t' gd' x y = (if x = px \<and> y = py then Some pc else view t gd x y)) \<and> pc \<in> padding_reads"
proof -
  have "\<exists>gl' t' pc. put_cell t px GRID_PADDING_CELL (ud_data (gc_data GRID_PADDING_CELL) ! 0) None gl = Some (gl', t') \<and>
      utf8_table_ok t' \<and> table_le t t' \<and> utf8_next_index t' \<le> utf8_next_index t + 1 \<and>
      cells_ok t' S gl' \<and> same_line gl gl' \<and> (\<forall>y \<in> S - {px}. grid_get_cell1 t' gl' y = grid_get_cell1 t gl y) \<and>
      map_option shown (grid_get_cell1 t' gl' px) = Some pc \<and> pc \<in> padding_reads"
    if "cells_ok t S gl" "px \<in> S" for S gl
    using put_padding_spec [OF that assms(2)] assms(2) table_le_refl by (fastforce simp: table_room_def)
  from set_cell_by [OF assms(1,3) this] show ?thesis .
qed

text \<open>C27: for the cells that are written to a grid, characters of one or two columns, tabs and the padding behind
  wide characters, what is read from a cell is what was last written there, however it is stored, packed
  into five bytes or as an extended entry.  A padding cell is read as padding with the same colours, but
  may come back with a character where it was written without one.  Writing a cell changes no other cell and
  keeps the invariant of the grid.\<close>

theorem grid_set_get:
  assumes "grid_ok t gd" "table_room t" "storable gc \<or> gc = GRID_PADDING_CELL" "py < hsize gd + g_sy gd"
  shows "\<exists>gd' t'. grid_set_cell t gd px py gc = Some (gd', t') \<and> grid_ok t' gd' \<and>
    (\<exists>gc'. grid_get_cell t' gd' px py = Some gc' \<and> gc_us gc' = gc_us gc \<and>
       (if gc = GRID_PADDING_CELL then PADDING \<in> gc_flags gc' \<and> grid_cells_look_equal gc gc' else grid_cells_equal gc gc')) \<and>
    (\<forall>x y a. (x, y) \<noteq> (px, py) \<longrightarrow> grid_get_cell t gd x y = Some a \<longrightarrow>
       (\<exists>b. grid_get_cell t' gd' x y = Some b \<and> grid_cells_equal a b \<and> gc_us b = gc_us a))"
proof -
  have e: "grid_cells_equal a b \<and> gc_us b = gc_us a" if "shown a = shown b" for a b
    using that by (cases a; cases b) (auto simp: shown_equal shown_def)
  have "\<exists>gd' t' pc. grid_set_cell t gd px py gc = Some (gd', t') \<and> grid_ok t' gd' \<and>
      (\<forall>x y. view t' gd' x y = (if x = px \<and> y = py then Some pc else view t gd x y)) \<and>
      (if gc = GRID_PADDING_CELL then pc \<in> padding_reads else pc = shown gc)"
    using set_cell_spec [OF assms(1,2) _ assms(4), of gc px] set_padding_spec [OF assms(1,2,4), of px] assms(3)
    by (cases "gc = GRID_PADDING_CELL") auto
  then obtain gd' t' pc where s: "grid_set_cell t gd px py gc = Some (gd', t')" "grid_ok t' gd'"
    "\<And>x y. view t' gd' x y = (if x = px \<and> y = py then Some pc else view t gd x y)"
    "if gc = GRID_PADDING_CELL then pc \<in> padding_reads else pc = shown gc" by blast
  obtain gc' where gc': "grid_get_cell t' gd' px py = Some gc'" "shown gc' = pc" using s(3) [of px py] by (auto simp: view_def)
  have "PADDING \<in> gc_flags gc' \<and> grid_cells_look_equal gc gc' \<and> gc_us gc' = gc_us gc" if "gc = GRID_PADDING_CELL"
  proof -
    have "shown gc' \<in> padding_reads" using that s(4) gc'(2) by simp
    then obtain d where "shown gc' = GRID_PADDING_CELL\<lparr>gc_data := d\<rparr>"
      by (auto simp: padding_reads_def shown_def char_cell_def GRID_PADDING_CELL_def)
    then show ?thesis using that by (cases gc') (auto simp: shown_def GRID_PADDING_CELL_def grid_cells_look_equal_def)
  qed
  then have "gc_us gc' = gc_us gc \<and>
      (if gc = GRID_PADDING_CELL then PADDING \<in> gc_flags gc' \<and> grid_cells_look_equal gc gc' else grid_cells_equal gc gc')"
    using e [of gc gc'] s(4) gc'(2) by (cases "gc = GRID_PADDING_CELL") simp_all
  moreover have "\<exists>b. grid_get_cell t' gd' x y = Some b \<and> grid_cells_equal a b \<and> gc_us b = gc_us a"
    if "(x, y) \<noteq> (px, py)" "grid_get_cell t gd x y = Some a" for x y a
  proof -
    have "view t' gd' x y = Some (shown a)" using s(3) [of x y] that by (auto simp: view_def)
    then obtain b where "grid_get_cell t' gd' x y = Some b" "shown a = shown b" by (auto simp: view_def)
    with e show ?thesis by blast
  qed
  ultimately show ?thesis using s(1,2) gc'(1) by blast
qed

definition empty_table :: utf8_table where
  "empty_table = \<lparr>data_tree = Map.empty, index_tree = Map.empty, utf8_next_index = 0\<rparr>"

definition example_cell :: grid_cell where
  "example_cell = GRID_DEFAULT_CELL\<lparr>gc_data := example_char, gc_fg := 33554432 + 255, gc_us := 16777216 + 9\<rparr>"

lemma empty_table_room: "table_room empty_table"
  by (simp add: table_room_def utf8_table_ok_def empty_table_def)

lemma example_storable: "storable example_cell"
  by (simp add: storable_def example_cell_def GRID_DEFAULT_CELL_def utf8_ok_def example_char_def UTF8_SIZE_def colour_ok_def
      direct_colour_def colour_has_def COLOUR_FLAG_RGB_def i32_MAX_def zero_bytes_def)

lemma create_ok: "grid_ok t (grid_create sx sy limit)"
  by (simp add: grid_ok_def grid_create_def)

theorem grid_set_get_witness:
  "\<exists>gd' t'. grid_set_cell empty_table (grid_create 80 24 2000) 4 2 example_cell = Some (gd', t') \<and> grid_ok t' gd' \<and>
     (\<exists>gc'. grid_get_cell t' gd' 4 2 = Some gc' \<and> grid_cells_equal example_cell gc')"
proof -
  have "example_cell \<noteq> GRID_PADDING_CELL" by (simp add: example_cell_def GRID_DEFAULT_CELL_def GRID_PADDING_CELL_def)
  then show ?thesis
    using grid_set_get [OF create_ok [of empty_table 80 24 2000] empty_table_room disjI1 [OF example_storable], of 2 4]
    by (fastforce simp: grid_create_def)
qed


lemma set_cells_spec:
  assumes "grid_ok t gd" "table_room t" "storable gc" "TAB \<notin> gc_flags gc" "ud_size (gc_data gc) \<le> 3" "py < hsize gd + g_sy gd"
  shows "\<exists>gd' t'. grid_set_cells t gd px py gc s = Some (gd', t') \<and> grid_ok t' gd' \<and> table_room t' \<and> utf8_next_index t' = utf8_next_index t \<and> table_le t t' \<and> same_size gd gd' \<and>
    (\<forall>x y. view t' gd' x y = (if px \<le> x \<and> x < px + length s \<and> y = py then Some (shown (char_cell gc (s ! (x - px)))) else view t gd x y))"
proof -
  let ?gl = "linedata gd ! py"
  have l: "line_ok t ?gl" using grid_ok_line [OF assms(1,6)] by simp
  obtain g1 where g1: "grid_expand_line (g_sx gd) t (px + length s) 8 ?gl = Some (g1, t)" "line_ok t g1" "px + length s \<le> cellsize g1"
    "line_view t g1 = line_view t ?gl" using expand_default [OF l] by metis
  define g2 where "g2 = g1\<lparr>cellused := (if px + length s > cellused g1 then px + length s else cellused g1)\<rparr>"
  have g2: "line_ok t g2" using g1(2,3) by (auto simp: line_ok_def g2_def)
  have "{px..<px + length s} \<subseteq> {..<cellsize g2}" using g1(3) by (auto simp: g2_def)
  from put_cells_spec [OF line_ok_cells [OF g2] this assms(3-5,2)] obtain g3 t' where g3:
    "put_cells t px gc s g2 = Some (g3, t')" "table_room t'" "table_le t t'" "cells_ok t' {..<cellsize g2} g3" "same_line g2 g3"
    "\<forall>y \<in> {..<cellsize g2}. map_option shown (grid_get_cell1 t' g3 y) = (if px \<le> y \<and> y < px + length s
       then Some (shown (char_cell gc (s ! (y - px)))) else map_option shown (grid_get_cell1 t g2 y))" "utf8_next_index t' = utf8_next_index t" by blast
  have "line_ok t' g3" using g2 g3(4,5) by (simp add: line_ok_def same_line_def)
  note st = set_line_ok [OF assms(1,6) this g3(3)]
  have "line_view t' g3 x = (if px \<le> x \<and> x < px + length s then Some (shown (char_cell gc (s ! (x - px)))) else line_view t ?gl x)" for x
    using g3(5,6) g1(3) fun_cong [OF g1(4), of x] by (auto simp: line_view_def same_line_def g2_def)
  moreover have "grid_set_cells t gd px py gc s = Some (set_line gd py g3, t')"
    using assms(6) g1(1) g3(1) by (simp add: grid_set_cells_def grid_check_y_def on_line_def g2_def)
  ultimately show ?thesis using st g3(2,3,7) assms(6) by (auto simp: view_line)
qed

section \<open>Clearing\<close>

lemma i32_colour: "colour_ok bg \<Longrightarrow> i32 bg = bg"
  by (simp add: colour_ok_def i32_id i32_MAX_def)

text \<open>The cell at \<open>x\<close> of an empty line of a grid with \<open>gsx\<close> columns.\<close>

definition empty_cell :: "nat \<Rightarrow> int \<Rightarrow> nat \<Rightarrow> grid_cell option" where
  "empty_cell gsx bg x = Some (blank (if COLOUR_DEFAULT bg \<or> gsx \<le> x then 8 else bg))"

lemma empty_line_spec:
  assumes "colour_ok bg"
  obtains gl where "grid_empty_line gsx t bg = Some (gl, t)" "line_ok t gl" "line_view t gl = empty_cell gsx bg" "\<not> wrapped gl"
proof (cases "COLOUR_DEFAULT bg")
  case True
  then show thesis using that [of zeroed_line] assms
    by (auto simp: grid_empty_line_def i32_colour empty_cell_def fun_eq_iff wrapped_def) (simp add: zeroed_line_def)
next
  case False
  have "expand_size gsx gsx = gsx" by (auto simp: expand_size_def)
  with expand_line_spec [OF zeroed_line_ok(1) assms, where t = t and gsx = gsx and sx = gsx] obtain gl where gl: "grid_expand_line gsx t gsx bg zeroed_line = Some (gl, t)"
    "line_ok t gl" "gsx \<le> cellsize gl" "cellsize gl = (if gsx \<le> cellsize zeroed_line then cellsize zeroed_line else gsx)"
    "wrapped gl = wrapped zeroed_line"
    "\<forall>x. line_view t gl x = (if cellsize zeroed_line \<le> x \<and> x < cellsize gl then Some (blank bg) else line_view t zeroed_line x)" by metis
  have "cellsize zeroed_line = 0" "\<not> wrapped zeroed_line" by (simp_all add: zeroed_line_def wrapped_def)
  then have "line_view t gl = empty_cell gsx bg" using gl(3,4,6) False by (auto simp: empty_cell_def)
  then show thesis using that gl False assms \<open>\<not> wrapped zeroed_line\<close> by (auto simp: grid_empty_line_def i32_colour)
qed

lemma empty_lines_spec:
  assumes "grid_ok t gd" "colour_ok bg" "\<forall>y \<in> set ys. y < hsize gd + g_sy gd"
  shows "\<exists>gd'. empty_lines t gd ys bg = Some (gd', t) \<and> grid_ok t gd' \<and> same_size gd gd' \<and>
    (\<forall>x y. view t gd' x y = (if y \<in> set ys then empty_cell (g_sx gd) bg x else view t gd x y))"
  using assms(1,3)
proof (induction ys arbitrary: gd)
  case (Cons y ys)
  obtain gl where gl: "grid_empty_line (g_sx gd) t bg = Some (gl, t)" "line_ok t gl" "line_view t gl = empty_cell (g_sx gd) bg"
    using empty_line_spec [OF assms(2)] by metis
  have y: "y < hsize gd + g_sy gd" using Cons.prems(2) by simp
  note st = set_line_ok [OF Cons.prems(1) y gl(2) table_le_refl]
  have "\<forall>z \<in> set ys. z < hsize (set_line gd y gl) + g_sy (set_line gd y gl)" using Cons.prems(2) by simp
  from Cons.IH [OF st(1) this] obtain gd' where gd': "empty_lines t (set_line gd y gl) ys bg = Some (gd', t)" "grid_ok t gd'"
    "same_size (set_line gd y gl) gd'"
    "\<forall>x z. view t gd' x z = (if z \<in> set ys then empty_cell (g_sx gd) bg x else view t (set_line gd y gl) x z)" by auto
  show ?case using gl gd' st(2) same_size_trans [OF set_line_fields(7) gd'(3)] by auto
qed auto

lemma clear_wrapped_ok:
  assumes "grid_ok t gd"
  shows "grid_ok t (gd\<lparr>linedata := clear_wrapped y (linedata gd)\<rparr>)" "view t (gd\<lparr>linedata := clear_wrapped y (linedata gd)\<rparr>) = view t gd"
    "same_size gd (gd\<lparr>linedata := clear_wrapped y (linedata gd)\<rparr>)"
proof -
  let ?ls = "clear_wrapped y (linedata gd)"
  have "line_ok t (?ls ! z) = line_ok t (linedata gd ! z) \<and> line_view t (?ls ! z) = line_view t (linedata gd ! z)"
    if "z < length (linedata gd)" for z
    using that by (cases "z = y") (auto simp: clear_wrapped_def)
  then show "grid_ok t (gd\<lparr>linedata := ?ls\<rparr>)" "view t (gd\<lparr>linedata := ?ls\<rparr>) = view t gd" "same_size gd (gd\<lparr>linedata := ?ls\<rparr>)"
    using assms by (auto simp: grid_ok_def view_line fun_eq_iff same_size_def clear_wrapped_def)
qed

lemma clear_lines_spec:
  assumes "grid_ok t gd" "colour_ok bg" "py + ny \<le> hsize gd + g_sy gd"
  shows "\<exists>gd'. grid_clear_lines t gd py ny bg = Some (gd', t) \<and> grid_ok t gd' \<and> same_size gd gd' \<and>
    (\<forall>x y. view t gd' x y = (if py \<le> y \<and> y < py + ny then empty_cell (g_sx gd) bg x else view t gd x y))"
proof (cases "ny = 0")
  case False
  have "\<forall>y \<in> set [py..<py + ny]. y < hsize gd + g_sy gd" using assms(3) by simp
  from empty_lines_spec [OF assms(1,2) this] obtain gd1 where gd1: "empty_lines t gd [py..<py + ny] bg = Some (gd1, t)" "grid_ok t gd1"
    "same_size gd gd1" "\<And>x y. view t gd1 x y = (if y \<in> set [py..<py + ny] then empty_cell (g_sx gd) bg x else view t gd x y)" by blast
  have "grid_check_y gd py" "grid_check_y gd (py + ny - 1)" using assms(3) False by (auto simp: grid_check_y_def)
  then show ?thesis using gd1 clear_wrapped_ok [OF gd1(2), of "py - 1"] False same_size_trans [OF gd1(3)]
    by (auto simp: grid_clear_lines_def)
qed (use assms(1) in \<open>auto simp: grid_clear_lines_def\<close>)

lemma clear_part_spec:
  assumes "line_ok t gl" "colour_ok bg" "bg \<noteq> 9"
  shows "\<exists>g. clear_part gsx t px nx bg gl = Some (g, t) \<and> line_ok t g \<and>
    (\<forall>x < gsx. line_view t g x = (if px \<le> x \<and> x < px + nx then Some (blank bg) else line_view t gl x))"
proof -
  define sx where "sx = (if gsx > cellsize gl then cellsize gl else gsx)"
  define ox where "ox = (if bg = 8 \<and> px + nx > sx then sx - px else nx)"
  have d: "COLOUR_DEFAULT (i32 bg) \<longleftrightarrow> bg = 8" using assms(2,3) by (simp add: i32_colour COLOUR_DEFAULT_def)
  have past: "line_view t gl x = Some (blank 8)" if "x < gsx" "sx \<le> x" for x using that by (auto simp: line_view_def sx_def split: if_splits)
  show ?thesis
  proof (cases "bg = 8 \<and> px > sx")
    case True
    then have "COLOUR_DEFAULT (i32 bg) \<and> px > sx" using d by simp
    then have "clear_part gsx t px nx bg gl = Some (gl, t)" by (simp add: clear_part_def sx_def [symmetric] Let_def)
    then show ?thesis using True assms(1) past by auto
  next
    case False
    obtain g1 where g1: "grid_expand_line gsx t (px + ox) 8 gl = Some (g1, t)" "line_ok t g1" "px + ox \<le> cellsize g1"
      "line_view t g1 = line_view t gl" using expand_default [OF assms(1)] by metis
    have "\<forall>x \<in> set [px..<px + ox]. x < length (celldata g1)" using g1(3) line_ok_length [OF g1(2)] by auto
    from clear_cells_spec [OF line_ok_cells [OF g1(2)] this assms(2)] obtain g where g:
      "clear_cells t [px..<px + ox] bg g1 = Some (g, t)" "cells_ok t ({..<cellsize g1} \<union> set [px..<px + ox]) g" "same_line g1 g"
      "\<forall>y \<in> {..<cellsize g1} - set [px..<px + ox]. grid_get_cell1 t g y = grid_get_cell1 t g1 y"
      "\<forall>x \<in> set [px..<px + ox]. map_option shown (grid_get_cell1 t g x) = Some (blank bg)" by blast
    have "{..<cellsize g1} \<union> set [px..<px + ox] = {..<cellsize g1}" using g1(3) by auto
    then have ok: "line_ok t g" using g(2,3) g1(2) by (simp add: line_ok_def same_line_def)
    have "line_view t g x = (if px \<le> x \<and> x < px + ox then Some (blank bg) else line_view t gl x)" for x
      using g(3-5) g1(3) fun_cong [OF g1(4), of x] by (auto simp: line_view_def same_line_def)
    moreover have "px \<le> x \<and> x < px + nx \<and> \<not> x < px + ox \<Longrightarrow> bg = 8 \<and> sx \<le> x" "x < px + ox \<Longrightarrow> x < px + nx" for x
      using False by (auto simp: ox_def split: if_splits)
    moreover have "clear_part gsx t px nx bg gl = Some (g, t)"
      using False g1(1) g(1) unfolding clear_part_def d sx_def [symmetric] ox_def [symmetric] Let_def by auto
    ultimately show ?thesis using ok past by (intro exI [of _ g]) auto
  qed
qed

lemma clear_parts_spec:
  assumes "grid_ok t gd" "colour_ok bg" "bg \<noteq> 9" "\<forall>y \<in> set ys. y < hsize gd + g_sy gd"
  shows "\<exists>gd'. clear_parts t gd px nx ys bg = Some (gd', t) \<and> grid_ok t gd' \<and> same_size gd gd' \<and>
    (\<forall>x y. x < g_sx gd \<longrightarrow> view t gd' x y = (if y \<in> set ys \<and> px \<le> x \<and> x < px + nx then Some (blank bg) else view t gd x y))"
  using assms(1,4)
proof (induction ys arbitrary: gd)
  case (Cons y ys)
  have y: "y < hsize gd + g_sy gd" using Cons.prems(2) by simp
  have "line_ok t (linedata gd ! y)" using grid_ok_line [OF Cons.prems(1) y] by simp
  from clear_part_spec [OF this assms(2,3), of "g_sx gd" px nx] obtain g where g: "clear_part (g_sx gd) t px nx bg (linedata gd ! y) = Some (g, t)"
    "line_ok t g" "\<forall>x < g_sx gd. line_view t g x = (if px \<le> x \<and> x < px + nx then Some (blank bg) else line_view t (linedata gd ! y) x)" by blast
  note st = set_line_ok [OF Cons.prems(1) y g(2) table_le_refl]
  have "\<forall>z \<in> set ys. z < hsize (set_line gd y g) + g_sy (set_line gd y g)" using Cons.prems(2) by simp
  from Cons.IH [OF st(1) this] obtain gd' where gd': "clear_parts t (set_line gd y g) px nx ys bg = Some (gd', t)" "grid_ok t gd'"
    "same_size (set_line gd y g) gd'" "\<forall>x z. x < g_sx gd \<longrightarrow>
       view t gd' x z = (if z \<in> set ys \<and> px \<le> x \<and> x < px + nx then Some (blank bg) else view t (set_line gd y g) x z)" by auto
  have "view t gd x y = line_view t (linedata gd ! y) x" for x using y by (simp add: view_line)
  then have "view t gd' x z = (if z \<in> set (y # ys) \<and> px \<le> x \<and> x < px + nx then Some (blank bg) else view t gd x z)" if "x < g_sx gd" for x z
    using that gd'(4) g(3) st(2) by auto
  moreover have "clear_parts t gd px nx (y # ys) bg = Some (gd', t)" using g(1) gd'(1) by (simp add: on_line_def)
  ultimately show ?case using gd'(2) same_size_trans [OF set_line_fields(7) gd'(3)] by blast
qed auto

lemma clear_spec:
  assumes "grid_ok t gd" "colour_ok bg" "bg \<noteq> 9" "py + ny \<le> hsize gd + g_sy gd"
  shows "\<exists>gd'. grid_clear t gd px py nx ny bg = Some (gd', t) \<and> grid_ok t gd' \<and> same_size gd gd' \<and>
    (\<forall>x y. x < g_sx gd \<longrightarrow>
       view t gd' x y = (if py \<le> y \<and> y < py + ny \<and> px \<le> x \<and> x < px + nx then Some (blank bg) else view t gd x y))"
proof -
  consider "nx = 0 \<or> ny = 0" | "nx \<noteq> 0" "ny \<noteq> 0" "px = 0 \<and> nx = g_sx gd" | "nx \<noteq> 0" "ny \<noteq> 0" "\<not> (px = 0 \<and> nx = g_sx gd)" by blast
  then show ?thesis
  proof cases
    case 1
    then show ?thesis using assms(1) by (auto simp: grid_clear_def)
  next
    case 2
    have e: "empty_cell (g_sx gd) bg x = Some (blank bg)" if "x < g_sx gd" for x
      using that assms(3) by (auto simp: empty_cell_def COLOUR_DEFAULT_def)
    show ?thesis using clear_lines_spec [OF assms(1,2,4)] 2 e by (fastforce simp: grid_clear_def)
  next
    case 3
    then have c: "grid_check_y gd py" "grid_check_y gd (py + ny - 1)" using assms(4) by (auto simp: grid_check_y_def)
    have "\<forall>y \<in> set [py..<py + ny]. y < hsize gd + g_sy gd" using assms(4) by simp
    from clear_parts_spec [OF assms(1-3) this, of px nx] show ?thesis using 3 c by (auto simp: grid_clear_def)
  qed
qed


section \<open>Moving\<close>

lemma move_cells_spec:
  assumes "grid_ok t gd" "colour_ok bg" "py < hsize gd + g_sy gd"
  shows "\<exists>gd'. grid_move_cells t gd dx px py nx bg = Some (gd', t) \<and> grid_ok t gd' \<and> same_size gd gd' \<and>
    (\<forall>x y. view t gd' x y = (if y = py \<and> px \<noteq> dx then moved dx px nx (Some (blank bg)) (\<lambda>x. view t gd x py) x else view t gd x y))"
proof (cases "nx = 0 \<or> px = dx")
  case True
  then show ?thesis using assms(1) by (auto simp: grid_move_cells_def moved_def)
next
  case False
  let ?gl = "linedata gd ! py"
  have l: "line_ok t ?gl" using grid_ok_line [OF assms(1,3)] by simp
  obtain g1 where g1: "grid_expand_line (g_sx gd) t (px + nx) 8 ?gl = Some (g1, t)" "line_ok t g1" "px + nx \<le> cellsize g1"
    "line_view t g1 = line_view t ?gl" using expand_default [OF l] by metis
  obtain g2 where g2: "grid_expand_line (g_sx gd) t (dx + nx) 8 g1 = Some (g2, t)" "line_ok t g2" "dx + nx \<le> cellsize g2"
    "cellsize g1 \<le> cellsize g2" "line_view t g2 = line_view t g1" using expand_default [OF g1(2)] by metis
  have "px + nx \<le> cellsize g2" using g1(3) g2(4) by simp
  from move_cells_line [OF g2(2) assms(2) g2(3) this] obtain g where g:
    "clear_cells t (filter (\<lambda>xx. xx < dx \<or> dx + nx \<le> xx) [px..<px + nx]) bg (g2\<lparr>celldata := memmove dx px nx (celldata g2),
       cellused := (if dx + nx > cellused g2 then dx + nx else cellused g2)\<rparr>) = Some (g, t)"
    "line_ok t g" "\<And>x. line_view t g x = moved dx px nx (Some (blank bg)) (line_view t ?gl) x"
    unfolding g2(5) g1(4) by blast
  have "(\<lambda>x. view t gd x py) = line_view t ?gl" using assms(3) by (simp add: view_line)
  moreover have "grid_move_cells t gd dx px py nx bg = Some (set_line gd py g, t)"
    using False assms(3) g1(1) g2(1) g(1) by (simp add: grid_move_cells_def grid_check_y_def on_line_def)
  ultimately show ?thesis using set_line_ok [OF assms(1,3) g(2) table_le_refl] g(3) False by auto
qed

text \<open>A grid is determined by its lines.\<close>

lemma grid_by_lines:
  assumes "hsize gd + g_sy gd \<le> length (linedata gd)"
    and "\<And>y. y < hsize gd + g_sy gd \<Longrightarrow> line_ok t (linedata gd ! y) \<and> line_view t (linedata gd ! y) = f y"
  shows "grid_ok t gd" "view t gd x y = (if y < hsize gd + g_sy gd then f y x else Some (blank 8))"
  using assms by (auto simp: grid_ok_def view_line)

lemma free_lines_nth:
  "length (linedata (fold (\<lambda>yy g. if P yy then g else grid_free_line g yy) ys gd)) = length (linedata gd) \<and>
   (y \<notin> set ys \<or> P y \<longrightarrow> linedata (fold (\<lambda>yy g. if P yy then g else grid_free_line g yy) ys gd) ! y = linedata gd ! y) \<and>
   same_size gd (fold (\<lambda>yy g. if P yy then g else grid_free_line g yy) ys gd)"
proof (induction ys arbitrary: gd)
  case (Cons z ys)
  have "same_size gd (grid_free_line gd z)" by (simp add: grid_free_line_def)
  then show ?case using Cons.IH [of "if P z then gd else grid_free_line gd z"]
    by (cases "y = z") (auto simp: grid_free_line_def same_size_def)
qed simp

lemma move_lines_spec:
  assumes "grid_ok t gd" "colour_ok bg" "py + ny \<le> hsize gd + g_sy gd" "dy + ny \<le> hsize gd + g_sy gd"
  shows "\<exists>gd'. grid_move_lines t gd dy py ny bg = Some (gd', t) \<and> grid_ok t gd' \<and> same_size gd gd' \<and>
    (\<forall>x y. view t gd' x y = (if py = dy then view t gd x y else moved dy py ny (empty_cell (g_sx gd) bg x) (view t gd x) y))"
proof (cases "ny = 0 \<or> py = dy")
  case True
  then show ?thesis using assms(1) by (auto simp: grid_move_lines_def moved_def)
next
  case False
  then have c: "grid_check_y gd py" "grid_check_y gd (py + ny - 1)" "grid_check_y gd dy" "grid_check_y gd (dy + ny - 1)"
    using assms(3,4) by (auto simp: grid_check_y_def)
  let ?n = "hsize gd + g_sy gd"
  define gd1 where "gd1 = fold (\<lambda>yy g. if py \<le> yy \<and> yy < py + ny then g else grid_free_line g yy) [dy..<dy + ny] gd"
  note f = free_lines_nth [of "\<lambda>yy. py \<le> yy \<and> yy < py + ny" "[dy..<dy + ny]" gd, folded gd1_def]
  define ls1 where "ls1 = (if dy \<noteq> 0 then clear_wrapped (dy - 1) (linedata gd1) else linedata gd1)"
  have len: "length ls1 = length (linedata gd)" "?n \<le> length ls1"
    using f assms(1) by (simp_all add: ls1_def clear_wrapped_def grid_ok_def)
  have keep: "line_ok t (ls1 ! y) \<and> line_view t (ls1 ! y) = line_view t (linedata gd ! y)"
    if "y < ?n" "y \<notin> {dy..<dy + ny} \<or> py \<le> y \<and> y < py + ny" for y
  proof -
    have "linedata gd1 ! y = linedata gd ! y" using f that by simp
    moreover have "ls1 ! y = linedata gd1 ! y \<or> (\<exists>fs. ls1 ! y = (linedata gd1 ! y)\<lparr>gl_flags := fs\<rparr>)"
      using f that(1) len by (cases "y = dy - 1") (auto simp: ls1_def clear_wrapped_def)
    ultimately show ?thesis using grid_ok_line [OF assms(1) that(1)] by auto
  qed
  define gd2 where "gd2 = gd1\<lparr>linedata := memmove dy py ny ls1\<rparr>"
  define h where "h = (\<lambda>y. if dy \<le> y \<and> y < dy + ny then y - dy + py else y)"
  have s2: "same_size gd gd2" using f len memmove_length [of dy ny ls1 py] assms(3,4) by (auto simp: gd2_def same_size_def)
  have n2: "linedata gd2 ! y = ls1 ! h y" if "y < ?n" for y
    using memmove_nth [of dy ny ls1 py y] that len assms(3,4) by (simp add: gd2_def h_def)
  have "line_ok t (linedata gd2 ! y) \<and> line_view t (linedata gd2 ! y) = line_view t (linedata gd ! h y)" if "y < ?n" for y
  proof -
    have "h y < ?n" "h y \<notin> {dy..<dy + ny} \<or> py \<le> h y \<and> h y < py + ny" using that assms(3) by (auto simp: h_def)
    from keep [OF this] show ?thesis unfolding n2 [OF that] .
  qed
  with grid_by_lines [where gd = gd2 and t = t and f = "\<lambda>y. line_view t (linedata gd ! h y)"]
  have v2: "grid_ok t gd2" "\<And>x y. view t gd2 x y = (if y < ?n then line_view t (linedata gd ! h y) x else Some (blank 8))"
    using s2 assms(1) by (auto simp: same_size_def grid_ok_def)
  let ?ys = "filter (\<lambda>yy. yy < dy \<or> dy + ny \<le> yy) [py..<py + ny]"
  have "\<forall>y \<in> set ?ys. y < hsize gd2 + g_sy gd2" using assms(3) s2 by (auto simp: same_size_def)
  from empty_lines_spec [OF v2(1) assms(2) this] obtain gd3 where gd3: "empty_lines t gd2 ?ys bg = Some (gd3, t)" "grid_ok t gd3"
    "same_size gd2 gd3" "\<And>x y. view t gd3 x y = (if y \<in> set ?ys then empty_cell (g_sx gd2) bg x else view t gd2 x y)" by blast
  have v3: "view t gd3 x y = moved dy py ny (empty_cell (g_sx gd) bg x) (view t gd x) y" for x y
  proof -
    have "h y < ?n \<longleftrightarrow> y < ?n" using assms(3,4) by (auto simp: h_def)
    then have "view t gd2 x y = view t gd x (h y)" using v2(2) by (simp add: view_line [of t gd])
    then show ?thesis using gd3(4) s2 by (auto simp: moved_def h_def same_size_def)
  qed
  define gd4 where "gd4 = (if py \<noteq> 0 \<and> (py < dy \<or> dy + ny \<le> py) then gd3\<lparr>linedata := clear_wrapped (py - 1) (linedata gd3)\<rparr> else gd3)"
  have "grid_move_lines t gd dy py ny bg = Some (gd4, t)"
    unfolding grid_move_lines_def Let_def gd1_def [symmetric] ls1_def [symmetric] gd2_def [symmetric] gd3(1) gd4_def
    using False c by simp
  moreover have "grid_ok t gd4 \<and> view t gd4 = view t gd3 \<and> same_size gd3 gd4"
    using clear_wrapped_ok [OF gd3(2), of "py - 1"] gd3(2) by (simp add: gd4_def)
  ultimately show ?thesis
    using False v3 same_size_trans [OF same_size_trans [OF s2 gd3(3)]] by (intro exI [of _ gd4]) simp
qed

section \<open>History\<close>

lemma scroll_history_spec:
  assumes "grid_ok t gd" "colour_ok bg"
  shows "\<exists>gd'. grid_scroll_history now t gd bg = Some (gd', t) \<and> grid_ok t gd' \<and> hsize gd' = hsize gd + 1 \<and> g_sy gd' = g_sy gd \<and>
    g_sx gd' = g_sx gd \<and> hlimit gd' = hlimit gd \<and>
    (\<forall>x y. view t gd' x y = (if y = hsize gd + g_sy gd then empty_cell (g_sx gd) bg x else view t gd x y))"
proof -
  let ?n = "hsize gd + g_sy gd"
  obtain gl where gl: "grid_empty_line (g_sx gd) t bg = Some (gl, t)" "line_ok t gl" "line_view t gl = empty_cell (g_sx gd) bg"
    using empty_line_spec [OF assms(2)] by metis
  define ls where "ls = (reallocarray zeroed_line (?n + 1) (linedata gd))[?n := gl]"
  define ls' where "ls' = ls[hsize gd := (grid_compact_line (ls ! hsize gd))\<lparr>gl_time := now\<rparr>]"
  have n: "?n \<le> length (linedata gd)" using assms(1) by (simp add: grid_ok_def)
  have len: "length ls = ?n + 1" using n by (auto simp: ls_def reallocarray_def)
  have ls: "ls ! y = (if y = ?n then gl else linedata gd ! y)" if "y \<le> ?n" for y
    using that n by (auto simp: ls_def reallocarray_def nth_append nth_list_update)
  have ok: "line_ok t (ls ! y)" if "y \<le> ?n" for y using ls [OF that] gl(2) grid_ok_line [OF assms(1)] that by auto
  have ls': "line_ok t (ls' ! y) \<and> line_view t (ls' ! y) = line_view t (ls ! y)" if "y \<le> ?n" for y
    using ok [OF that] compact_line_ok [OF ok [OF that]] that len
    by (cases "y = hsize gd") (auto simp: ls'_def)
  define gd' where "gd' = (set_line (set_line (grid_adjust_lines gd (?n + 1)) ?n gl) (hsize gd)
      ((grid_compact_line (linedata (set_line (grid_adjust_lines gd (?n + 1)) ?n gl) ! hsize gd))\<lparr>gl_time := now\<rparr>))
      \<lparr>hscrolled := hscrolled gd + 1, hsize := hsize gd + 1, scroll_added := scroll_added gd + 1\<rparr>"
  have f: "linedata gd' = ls'" "hsize gd' = hsize gd + 1" "g_sy gd' = g_sy gd" "g_sx gd' = g_sx gd" "hlimit gd' = hlimit gd"
    by (simp_all add: gd'_def grid_adjust_lines_def ls_def ls'_def set_line_def)
  have "grid_scroll_history now t gd bg = Some (gd', t)" using gl(1) by (simp add: grid_scroll_history_def gd'_def Let_def)
  moreover have "grid_ok t gd'" "\<And>x y. view t gd' x y = (if y < ?n + 1 then line_view t (ls ! y) x else Some (blank 8))"
    using grid_by_lines [of gd' t "\<lambda>y. line_view t (ls ! y)"] f len ls' by (auto simp: ls'_def)
  ultimately show ?thesis using f ls gl(3) by (auto simp: view_line [of t gd] less_Suc_eq)
qed

lemma free_lines_plain:
  "length (linedata (grid_free_lines gd py ny)) = length (linedata gd)"
  "y < py \<or> py + ny \<le> y \<Longrightarrow> linedata (grid_free_lines gd py ny) ! y = linedata gd ! y" "same_size gd (grid_free_lines gd py ny)"
  "grid_free_lines gd py ny = gd\<lparr>linedata := linedata (grid_free_lines gd py ny)\<rparr>"
proof -
  show "length (linedata (grid_free_lines gd py ny)) = length (linedata gd)"
    "y < py \<or> py + ny \<le> y \<Longrightarrow> linedata (grid_free_lines gd py ny) ! y = linedata gd ! y" "same_size gd (grid_free_lines gd py ny)"
    using free_lines_nth [of "\<lambda>_. False" "[py..<py + ny]" gd y] by (auto simp: grid_free_lines_def)
  have "fold (\<lambda>yy g. grid_free_line g yy) ys g = g\<lparr>linedata := linedata (fold (\<lambda>yy g. grid_free_line g yy) ys g)\<rparr>" for ys g
  proof (induction ys arbitrary: g)
    case (Cons z ys)
    show ?case using Cons.IH [of "grid_free_line g z"] by (simp add: grid_free_line_def set_line_def)
  qed simp
  then show "grid_free_lines gd py ny = gd\<lparr>linedata := linedata (grid_free_lines gd py ny)\<rparr>" by (simp add: grid_free_lines_def)
qed

lemma trim_history_lines:
  assumes "grid_ok t gd" "ny \<le> hsize gd"
  obtains ls where "grid_trim_history gd ny = gd\<lparr>linedata := ls\<rparr>" "length ls = length (linedata gd)"
    "\<And>y. y + ny < hsize gd + g_sy gd \<Longrightarrow> ls ! y = linedata gd ! (y + ny)"
proof -
  let ?n = "hsize gd + g_sy gd" and ?fs = "linedata (grid_free_lines gd 0 ny)"
  have len: "length ?fs = length (linedata gd)" "?n \<le> length (linedata gd)"
    using free_lines_plain(1) assms(1) by (simp_all add: grid_ok_def)
  have l: "length (memmove 0 ny (?n - ny) ?fs) = length (linedata gd)"
    using memmove_length [of 0 "?n - ny" ?fs ny] len assms(2) by simp
  have "memmove 0 ny (?n - ny) ?fs ! y = linedata gd ! (y + ny)" if "y + ny < ?n" for y
    using memmove_nth [of 0 "?n - ny" ?fs ny y] that len assms(2) free_lines_plain(2) [where y = "y + ny" and py = 0 and ny = ny and gd = gd] by auto
  then show thesis using that [of "memmove 0 ny (?n - ny) ?fs"] l free_lines_plain(4) [where py = 0 and ny = ny and gd = gd]
    by (metis (no_types, lifting) grid.update_convs(10) grid_trim_history_def grid.surjective)
qed


lemma shifted_lines:
  assumes "grid_ok t gd" "length ls = length (linedata gd)" "ny \<le> hsize gd" "hsize gd' = hsize gd - ny" "g_sy gd' = g_sy gd" "linedata gd' = ls"
    and "\<And>y. y + ny < hsize gd + g_sy gd \<Longrightarrow> ls ! y = linedata gd ! (y + ny)"
  shows "grid_ok t gd'" "view t gd' x y = view t gd x (y + ny)"
  using grid_by_lines [where gd = gd' and t = t and f = "\<lambda>y. line_view t (linedata gd ! (y + ny))"] assms grid_ok_line [OF assms(1)]
  by (auto simp: view_line [of t gd] grid_ok_def)

text \<open>How many lines are dropped.\<close>

definition collect_lines :: "nat \<Rightarrow> nat \<Rightarrow> bool \<Rightarrow> nat" where
  "collect_lines h limit all =
     (if h = 0 \<or> h < limit then 0 else min h (max 1 (if all then h - limit else limit div 10)))"

lemma collect_history_spec:
  fixes all :: bool
  assumes "grid_ok t gd"
  defines "ny \<equiv> collect_lines (hsize gd) (hlimit gd) all"
  shows "grid_ok t (grid_collect_history gd all)" "hsize (grid_collect_history gd all) = hsize gd - ny"
    "g_sy (grid_collect_history gd all) = g_sy gd" "g_sx (grid_collect_history gd all) = g_sx gd"
    "hlimit (grid_collect_history gd all) = hlimit gd" "g_history (grid_collect_history gd all) = g_history gd"
    "view t (grid_collect_history gd all) x y = view t gd x (y + ny)"
proof -
  have "grid_ok t (grid_collect_history gd all) \<and> hsize (grid_collect_history gd all) = hsize gd - ny \<and>
    g_sy (grid_collect_history gd all) = g_sy gd \<and> g_sx (grid_collect_history gd all) = g_sx gd \<and>
    hlimit (grid_collect_history gd all) = hlimit gd \<and> g_history (grid_collect_history gd all) = g_history gd \<and>
    view t (grid_collect_history gd all) x y = view t gd x (y + ny)"
  proof (cases "hsize gd = 0 \<or> hsize gd < hlimit gd")
    case True
    then show ?thesis using assms by (auto simp: grid_collect_history_def collect_lines_def)
  next
    case False
    have n: "ny = (let ny0 = (if all then hsize gd - hlimit gd else hlimit gd div 10); ny1 = (if ny0 < 1 then 1 else ny0)
        in if ny1 > hsize gd then hsize gd else ny1)"
      using False by (auto simp: ny_def collect_lines_def Let_def min_def max_def)
    have "ny \<le> hsize gd" by (simp add: ny_def collect_lines_def)
    from trim_history_lines [OF assms(1) this] obtain ls where ls: "grid_trim_history gd ny = gd\<lparr>linedata := ls\<rparr>" "length ls = length (linedata gd)"
      "\<And>y. y + ny < hsize gd + g_sy gd \<Longrightarrow> ls ! y = linedata gd ! (y + ny)" by blast
    define gd' where "gd' = grid_collect_history gd all"
    have f: "hsize gd' = hsize gd - ny" "g_sy gd' = g_sy gd" "g_sx gd' = g_sx gd" "hlimit gd' = hlimit gd" "linedata gd' = ls"
      "g_history gd' = g_history gd"
      using False unfolding gd'_def grid_collect_history_def Let_def n [unfolded Let_def, symmetric] ls(1) by simp_all
    show ?thesis using shifted_lines [OF assms(1) ls(2) \<open>ny \<le> hsize gd\<close> f(1,2,5) ls(3)] f unfolding gd'_def [symmetric] by blast
  qed
  then show "grid_ok t (grid_collect_history gd all)" "hsize (grid_collect_history gd all) = hsize gd - ny"
    "g_sy (grid_collect_history gd all) = g_sy gd" "g_sx (grid_collect_history gd all) = g_sx gd"
    "hlimit (grid_collect_history gd all) = hlimit gd" "g_history (grid_collect_history gd all) = g_history gd"
    "view t (grid_collect_history gd all) x y = view t gd x (y + ny)" by blast+
qed

lemma clear_history_spec:
  assumes "grid_ok t gd"
  shows "grid_ok t (grid_clear_history gd)" "hsize (grid_clear_history gd) = 0" "g_sy (grid_clear_history gd) = g_sy gd"
    "g_sx (grid_clear_history gd) = g_sx gd" "hlimit (grid_clear_history gd) = hlimit gd"
    "view t (grid_clear_history gd) x y = view t gd x (y + hsize gd)"
proof -
  obtain ls where ls: "grid_trim_history gd (hsize gd) = gd\<lparr>linedata := ls\<rparr>" "length ls = length (linedata gd)"
    "\<And>y. y + hsize gd < hsize gd + g_sy gd \<Longrightarrow> ls ! y = linedata gd ! (y + hsize gd)" using trim_history_lines [OF assms order_refl] by blast
  have n: "g_sy gd \<le> length ls" using assms ls(2) by (simp add: grid_ok_def)
  then have r: "reallocarray zeroed_line (g_sy gd) ls = take (g_sy gd) ls" by (simp add: reallocarray_def)
  show f: "hsize (grid_clear_history gd) = 0" "g_sy (grid_clear_history gd) = g_sy gd" "g_sx (grid_clear_history gd) = g_sx gd"
    "hlimit (grid_clear_history gd) = hlimit gd"
    by (simp_all add: grid_clear_history_def grid_adjust_lines_def ls(1) Let_def)
  have l: "linedata (grid_clear_history gd) = take (g_sy gd) ls"
    using r by (simp add: grid_clear_history_def grid_adjust_lines_def ls(1) Let_def)
  show "grid_ok t (grid_clear_history gd)" "view t (grid_clear_history gd) x y = view t gd x (y + hsize gd)"
    using grid_by_lines [where gd = "grid_clear_history gd" and t = t and f = "\<lambda>y. line_view t (linedata gd ! (y + hsize gd))"] f l n ls(3)
      grid_ok_line [OF assms] by (auto simp: view_line [of t gd])
qed

lemma remove_history_spec:
  assumes "grid_ok t gd" "ny \<le> hsize gd"
  shows "grid_ok t (grid_remove_history gd ny)" "hsize (grid_remove_history gd ny) = hsize gd - ny"
    "g_sy (grid_remove_history gd ny) = g_sy gd" "g_sx (grid_remove_history gd ny) = g_sx gd" "hlimit (grid_remove_history gd ny) = hlimit gd"
    "view t (grid_remove_history gd ny) x y = (if y < hsize gd - ny + g_sy gd then view t gd x y else Some (blank 8))"
proof -
  let ?n = "hsize gd + g_sy gd"
  have free: "length (linedata (fold (\<lambda>yy g. grid_free_line g (hsize g + g_sy g - 1 - yy)) [0..<k] gd)) = length (linedata gd) \<and>
    same_size gd (fold (\<lambda>yy g. grid_free_line g (hsize g + g_sy g - 1 - yy)) [0..<k] gd) \<and>
    (\<forall>y. y + k < ?n \<longrightarrow> linedata (fold (\<lambda>yy g. grid_free_line g (hsize g + g_sy g - 1 - yy)) [0..<k] gd) ! y = linedata gd ! y)" for k
    by (induction k) (auto simp: grid_free_line_def same_size_def)
  let ?g = "grid_remove_history gd ny"
  show f: "hsize ?g = hsize gd - ny" "g_sy ?g = g_sy gd" "g_sx ?g = g_sx gd" "hlimit ?g = hlimit gd"
    using assms(2) free [of ny] by (simp_all add: grid_remove_history_def Let_def same_size_def)
  have l: "length (linedata ?g) = length (linedata gd)" "\<And>y. y + ny < ?n \<Longrightarrow> linedata ?g ! y = linedata gd ! y"
    using assms(2) free [of ny] by (simp_all add: grid_remove_history_def Let_def)
  show "grid_ok t ?g" "view t ?g x y = (if y < hsize gd - ny + g_sy gd then view t gd x y else Some (blank 8))"
    using grid_by_lines [where gd = ?g and t = t and f = "\<lambda>y. line_view t (linedata gd ! y)"] f l grid_ok_line [OF assms(1)] assms
    by (auto simp: view_line [of t gd] grid_ok_def)
qed

text \<open>Where the line \<open>y\<close> comes from after the region from \<open>upper\<close> to \<open>lower\<close> scrolled into the history.\<close>

definition region_source :: "nat \<Rightarrow> nat \<Rightarrow> nat \<Rightarrow> nat \<Rightarrow> nat" where
  "region_source h upper lower y =
     (if y < h then y else if y = h then upper else if y \<le> upper then y - 1 else if y \<le> lower then y else y - 1)"

lemma scroll_region_spec:
  assumes "grid_ok t gd" "colour_ok bg" "hsize gd \<le> upper" "upper \<le> lower" "lower < hsize gd + g_sy gd"
  shows "\<exists>gd'. grid_scroll_history_region now t gd upper lower bg = Some (gd', t) \<and> grid_ok t gd' \<and> hsize gd' = hsize gd + 1 \<and>
    g_sy gd' = g_sy gd \<and> g_sx gd' = g_sx gd \<and> hlimit gd' = hlimit gd \<and>
    (\<forall>x y. view t gd' x y = (if y = lower + 1 then empty_cell (g_sx gd) bg x else view t gd x (region_source (hsize gd) upper lower y)))"
proof -
  let ?h = "hsize gd" and ?n = "hsize gd + g_sy gd"
  obtain gl where gl: "grid_empty_line (g_sx gd) t bg = Some (gl, t)" "line_ok t gl" "line_view t gl = empty_cell (g_sx gd) bg"
    using empty_line_spec [OF assms(2)] by metis
  have n: "?n \<le> length (linedata gd)" using assms(1) by (simp add: grid_ok_def)
  define ls1 where "ls1 = reallocarray zeroed_line (?h + g_sy gd + 1) (linedata gd)"
  define ls2 where "ls2 = memmove (?h + 1) ?h (g_sy gd) ls1"
  define ls3 where "ls3 = ls2[?h := (ls2 ! (upper + 1))\<lparr>gl_time := now\<rparr>]"
  define ls4 where "ls4 = memmove (upper + 1) (upper + 2) (lower - upper) ls3"
  have l1: "length ls1 = ?n + 1" "\<And>y. y < ?n \<Longrightarrow> ls1 ! y = linedata gd ! y"
    using n by (auto simp: ls1_def reallocarray_def nth_append)
  have l2: "length ls2 = ?n + 1" "\<And>y. y \<le> ?n \<Longrightarrow> ls2 ! y = linedata gd ! (if y \<le> ?h then y else y - 1)" if "?h < ?n"
    using that l1 memmove_length [of "?h + 1" "g_sy gd" ls1 ?h] memmove_nth [of "?h + 1" "g_sy gd" ls1 ?h] by (auto simp: ls2_def)
  have h: "?h < ?n" using assms(3-5) by simp
  note l2 = l2 [OF h]
  have l3: "length ls3 = ?n + 1" "\<And>y. y \<le> ?n \<Longrightarrow> y \<noteq> ?h \<Longrightarrow> ls3 ! y = linedata gd ! (if y \<le> ?h then y else y - 1)"
    "ls3 ! ?h = (linedata gd ! upper)\<lparr>gl_time := now\<rparr>"
    using l2 assms(3-5) h by (auto simp: ls3_def)
  have l4: "length ls4 = ?n + 1" "\<And>y. y \<le> ?n \<Longrightarrow> ls4 ! y = (if upper + 1 \<le> y \<and> y < lower + 1 then ls3 ! (y + 1) else ls3 ! y)"
    using l3(1) assms(4,5) memmove_length [of "upper + 1" "lower - upper" ls3 "upper + 2"]
      memmove_nth [of "upper + 1" "lower - upper" ls3 "upper + 2"] by (auto simp: ls4_def)
  define gd' where "gd' = gd\<lparr>linedata := ls4[lower + 1 := gl], hscrolled := hscrolled gd + 1, hsize := ?h + 1, scroll_added := scroll_added gd + 1\<rparr>"
  have r: "grid_scroll_history_region now t gd upper lower bg = Some (gd', t)"
    using gl(1) by (simp add: grid_scroll_history_region_def gd'_def ls1_def ls2_def ls3_def ls4_def Let_def)
  have src: "region_source ?h upper lower y < ?n" if "y < ?n + 1" "y \<noteq> lower + 1" for y
    using that assms(3-5) by (auto simp: region_source_def)
  have "line_ok t (linedata gd' ! y) \<and> line_view t (linedata gd' ! y) =
      (if y = lower + 1 then empty_cell (g_sx gd) bg else line_view t (linedata gd ! region_source ?h upper lower y))" if y: "y < ?n + 1" for y
  proof (cases "y = lower + 1")
    case True
    then show ?thesis using gl l4(1) assms(5) by (simp add: gd'_def)
  next
    case False
    have "linedata gd' ! y = linedata gd ! region_source ?h upper lower y \<or>
        linedata gd' ! y = (linedata gd ! region_source ?h upper lower y)\<lparr>gl_time := now\<rparr>"
      using False y l4(2) [of y] l3(2) [of y] l3(2) [of "y + 1"] l3(3) assms(3-5) by (auto simp: gd'_def region_source_def)
    then show ?thesis using False grid_ok_line [OF assms(1) src [OF y False]] by auto
  qed
  then have "grid_ok t gd'" "\<And>x y. view t gd' x y = (if y < ?n + 1 then if y = lower + 1 then empty_cell (g_sx gd) bg x
      else line_view t (linedata gd ! region_source ?h upper lower y) x else Some (blank 8))"
    using grid_by_lines [of gd' t "\<lambda>y. if y = lower + 1 then empty_cell (g_sx gd) bg else line_view t (linedata gd ! region_source ?h upper lower y)"] l4(1)
    by (auto simp: gd'_def)
  then show ?thesis using r src assms(3-5) by (auto simp: gd'_def view_line [of t gd] region_source_def)
qed

end
