(* ===== verification/Grid_Table.thy ===== *)
theory Grid_Table
  imports Grid_Sound
begin

text \<open>
  Runs of grid operations against the specification: a table of cells with a number of lines of history
  above the screen.
\<close>

section \<open>Operations\<close>

datatype grid_op =
  SetCell nat nat grid_cell | SetPadding nat nat | SetCells nat nat grid_cell string | ClearArea nat nat nat nat int | MoveLines nat nat nat int
| MoveCells nat nat nat nat int | ScrollHistory int | ScrollRegion nat nat int | CollectHistory bool | RemoveHistory nat | ClearHistory

fun grid_step :: "int \<Rightarrow> grid_op \<Rightarrow> grid \<times> utf8_table \<Rightarrow> (grid \<times> utf8_table) option" where
  "grid_step now (SetCell px py gc) (gd, t) = grid_set_cell t gd px py gc"
| "grid_step now (SetPadding px py) (gd, t) = grid_set_padding t gd px py"
| "grid_step now (SetCells px py gc s) (gd, t) = grid_set_cells t gd px py gc s"
| "grid_step now (ClearArea px py nx ny bg) (gd, t) = grid_clear t gd px py nx ny bg"
| "grid_step now (MoveLines dy py ny bg) (gd, t) = grid_move_lines t gd dy py ny bg"
| "grid_step now (MoveCells dx px py nx bg) (gd, t) = grid_move_cells t gd dx px py nx bg"
| "grid_step now (ScrollHistory bg) (gd, t) = grid_scroll_history now t gd bg"
| "grid_step now (ScrollRegion upper lower bg) (gd, t) = grid_scroll_history_region now t gd upper lower bg"
| "grid_step now (CollectHistory all) (gd, t) = Some (grid_collect_history gd all, t)"
| "grid_step now (RemoveHistory ny) (gd, t) = Some (grid_remove_history gd ny, t)"
| "grid_step now ClearHistory (gd, t) = Some (grid_clear_history gd, t)"

fun grid_run :: "int \<Rightarrow> grid_op list \<Rightarrow> grid \<times> utf8_table \<Rightarrow> (grid \<times> utf8_table) option" where
  "grid_run now [] st = Some st"
| "grid_run now (op # ops) st = do { st' \<leftarrow> grid_step now op st; grid_run now ops st' }"

section \<open>Specification\<close>

type_synonym cells = "nat \<Rightarrow> nat \<Rightarrow> grid_cell option"

text \<open>The operations that the callers make: positions on the grid, padding and cells that can be stored, columns
  on the screen for the moves inside a line, and colours other than 9, which the grid takes for the default
  colour 8.\<close>

fun op_fits :: "nat \<Rightarrow> nat \<Rightarrow> nat \<Rightarrow> grid_op \<Rightarrow> bool" where
  "op_fits sx sy h (SetCell px py gc) \<longleftrightarrow> py < h + sy \<and> storable gc"
| "op_fits sx sy h (SetPadding px py) \<longleftrightarrow> py < h + sy"
| "op_fits sx sy h (SetCells px py gc s) \<longleftrightarrow> py < h + sy \<and> storable gc \<and> TAB \<notin> gc_flags gc \<and> ud_size (gc_data gc) \<le> 3"
| "op_fits sx sy h (ClearArea px py nx ny bg) \<longleftrightarrow> py + ny \<le> h + sy \<and> colour_ok bg \<and> bg \<noteq> 9"
| "op_fits sx sy h (MoveLines dy py ny bg) \<longleftrightarrow> py + ny \<le> h + sy \<and> dy + ny \<le> h + sy \<and> colour_ok bg \<and> bg \<noteq> 9"
| "op_fits sx sy h (MoveCells dx px py nx bg) \<longleftrightarrow> py < h + sy \<and> dx + nx \<le> sx \<and> px + nx \<le> sx \<and> colour_ok bg"
| "op_fits sx sy h (ScrollHistory bg) \<longleftrightarrow> colour_ok bg \<and> bg \<noteq> 9"
| "op_fits sx sy h (ScrollRegion upper lower bg) \<longleftrightarrow> h \<le> upper \<and> upper \<le> lower \<and> lower < h + sy \<and> colour_ok bg \<and> bg \<noteq> 9"
| "op_fits sx sy h (CollectHistory all) \<longleftrightarrow> True"
| "op_fits sx sy h (RemoveHistory ny) \<longleftrightarrow> ny \<le> h"
| "op_fits sx sy h ClearHistory \<longleftrightarrow> True"

fun spec_step :: "nat \<Rightarrow> nat \<Rightarrow> grid_op \<Rightarrow> nat \<times> cells \<Rightarrow> nat \<times> cells" where
  "spec_step sy limit (SetCell px py gc) (h, f) = (h, \<lambda>x y. if x = px \<and> y = py then Some (shown gc) else f x y)"
| "spec_step sy limit (SetPadding px py) (h, f) = (h, \<lambda>x y. if x = px \<and> y = py then Some (shown GRID_PADDING_CELL) else f x y)"
| "spec_step sy limit (SetCells px py gc s) (h, f) =
     (h, \<lambda>x y. if px \<le> x \<and> x < px + length s \<and> y = py then Some (shown (char_cell gc (s ! (x - px)))) else f x y)"
| "spec_step sy limit (ClearArea px py nx ny bg) (h, f) =
     (h, \<lambda>x y. if py \<le> y \<and> y < py + ny \<and> px \<le> x \<and> x < px + nx then Some (blank bg) else f x y)"
| "spec_step sy limit (MoveLines dy py ny bg) (h, f) = (h, \<lambda>x y. if py = dy then f x y else moved dy py ny (Some (blank bg)) (f x) y)"
| "spec_step sy limit (MoveCells dx px py nx bg) (h, f) =
     (h, \<lambda>x y. if y = py \<and> px \<noteq> dx then moved dx px nx (Some (blank bg)) (\<lambda>x. f x py) x else f x y)"
| "spec_step sy limit (ScrollHistory bg) (h, f) = (h + 1, \<lambda>x y. if y = h + sy then Some (blank bg) else f x y)"
| "spec_step sy limit (ScrollRegion upper lower bg) (h, f) =
     (h + 1, \<lambda>x y. if y = lower + 1 then Some (blank bg) else f x (region_source h upper lower y))"
| "spec_step sy limit (CollectHistory all) (h, f) =
     (h - collect_lines h limit all, \<lambda>x y. f x (y + collect_lines h limit all))"
| "spec_step sy limit (RemoveHistory ny) (h, f) = (h - ny, \<lambda>x y. if y < h - ny + sy then f x y else Some (blank 8))"
| "spec_step sy limit ClearHistory (h, f) = (0, \<lambda>x y. f x (y + h))"

text \<open>A run fits if every operation of it does when its turn comes.\<close>

fun spec_run :: "nat \<Rightarrow> nat \<Rightarrow> nat \<Rightarrow> grid_op list \<Rightarrow> nat \<times> cells \<Rightarrow> (nat \<times> cells) option" where
  "spec_run sx sy limit [] st = Some st"
| "spec_run sx sy limit (op # ops) st = (if op_fits sx sy (fst st) op then spec_run sx sy limit ops (spec_step sy limit op st) else None)"

section \<open>Refinement\<close>

text \<open>\<open>n\<close> more characters fit into the table of long characters.\<close>

definition table_fits :: "nat \<Rightarrow> utf8_table \<Rightarrow> bool" where
  "table_fits n t \<longleftrightarrow> utf8_table_ok t \<and> utf8_next_index t + n \<le> 16777216"

definition simulates :: "nat \<Rightarrow> nat \<Rightarrow> nat \<Rightarrow> nat \<Rightarrow> grid \<times> utf8_table \<Rightarrow> nat \<times> cells \<Rightarrow> bool" where
  "simulates n sx sy limit st sp \<longleftrightarrow> (case (st, sp) of ((gd, t), (h, f)) \<Rightarrow>
     grid_ok t gd \<and> table_fits n t \<and> g_sx gd = sx \<and> g_sy gd = sy \<and> hlimit gd = limit \<and> hsize gd = h \<and>
     (\<forall>x < sx. \<forall>y. view t gd x y = f x y))"

lemma fits_room: "table_fits (Suc n) t \<Longrightarrow> table_room t"
  by (simp add: table_fits_def table_room_def)

lemma fits_less: "table_fits (Suc n) t \<Longrightarrow> table_fits n t"
  by (simp add: table_fits_def)

lemma empty_cell_column: "x < sx \<Longrightarrow> bg \<noteq> 9 \<Longrightarrow> empty_cell sx bg x = Some (blank bg)"
  by (auto simp: empty_cell_def COLOUR_DEFAULT_def)

lemma moved_cong: "(\<And>x. x = z \<or> x = z - dst + src \<Longrightarrow> f x = g x) \<Longrightarrow> moved dst src n b f z = moved dst src n b g z"
  by (simp add: moved_def)

lemma simulatesI:
  assumes "grid_ok t gd" "table_fits n t" "same_size gd0 gd" "g_sx gd0 = sx" "g_sy gd0 = sy" "hlimit gd0 = limit" "hsize gd0 = h"
    and "\<And>x y. x < sx \<Longrightarrow> view t gd x y = f x y"
  shows "simulates n sx sy limit (gd, t) (h, f)"
  using assms by (auto simp: simulates_def same_size_def)

lemma simulatesD:
  assumes "simulates (Suc n) sx sy limit (gd, t) (h, f)"
  shows "grid_ok t gd" "table_fits n t" "table_room t" "table_fits (Suc n) t" "g_sx gd = sx" "g_sy gd = sy" "hlimit gd = limit" "hsize gd = h"
    "x < sx \<Longrightarrow> view t gd x y = f x y"
  using assms by (auto simp: simulates_def dest: fits_room fits_less)

lemma set_cell_simulates:
  assumes "simulates (Suc n) sx sy limit (gd, t) (h, f)" "py < h + sy" "storable gc"
  shows "\<exists>st'. grid_set_cell t gd px py gc = Some st' \<and> simulates n sx sy limit st' (spec_step sy limit (SetCell px py gc) (h, f))"
proof -
  note s = simulatesD [OF assms(1)]
  have "py < hsize gd + g_sy gd" using s assms(2) by simp
  from set_cell_spec [OF s(1,3) assms(3) this, of px] obtain gd' t' where r: "grid_set_cell t gd px py gc = Some (gd', t')" "grid_ok t' gd'"
    "utf8_table_ok t'" "utf8_next_index t' \<le> utf8_next_index t + 1" "same_size gd gd'"
    "\<And>x y. view t' gd' x y = (if x = px \<and> y = py then Some (shown gc) else view t gd x y)" by blast
  have "table_fits n t'" using r(3,4) s(4) by (simp add: table_fits_def)
  then show ?thesis using simulatesI [OF r(2) _ r(5) s(5-8)] r(1,6) s(9) by simp
qed

lemma set_cells_simulates:
  assumes "simulates (Suc n) sx sy limit (gd, t) (h, f)" "py < h + sy" "storable gc" "TAB \<notin> gc_flags gc" "ud_size (gc_data gc) \<le> 3"
  shows "\<exists>st'. grid_set_cells t gd px py gc cs = Some st' \<and> simulates n sx sy limit st' (spec_step sy limit (SetCells px py gc cs) (h, f))"
proof -
  note s = simulatesD [OF assms(1)]
  have "py < hsize gd + g_sy gd" using s assms(2) by simp
  from set_cells_spec [OF s(1,3) assms(3-5) this, of px cs] obtain gd' t' where r: "grid_set_cells t gd px py gc cs = Some (gd', t')"
    "grid_ok t' gd'" "table_room t'" "utf8_next_index t' = utf8_next_index t" "same_size gd gd'" "\<And>x y. view t' gd' x y =
       (if px \<le> x \<and> x < px + length cs \<and> y = py then Some (shown (char_cell gc (cs ! (x - px)))) else view t gd x y)" by blast
  have "table_fits n t'" using r(3,4) s(2) by (simp add: table_fits_def table_room_def)
  then show ?thesis using simulatesI [OF r(2) _ r(5) s(5-8)] r(1,6) s(9) by simp
qed

lemma clear_simulates:
  assumes "simulates (Suc n) sx sy limit (gd, t) (h, f)" "py + ny \<le> h + sy" "colour_ok bg" "bg \<noteq> 9"
  shows "\<exists>st'. grid_clear t gd px py nx ny bg = Some st' \<and> simulates n sx sy limit st' (spec_step sy limit (ClearArea px py nx ny bg) (h, f))"
proof -
  note s = simulatesD [OF assms(1)]
  have "py + ny \<le> hsize gd + g_sy gd" using s assms(2) by simp
  from clear_spec [OF s(1) assms(3,4) this, of px nx] obtain gd' where r: "grid_clear t gd px py nx ny bg = Some (gd', t)" "grid_ok t gd'"
    "same_size gd gd'" "\<And>x y. x < g_sx gd \<Longrightarrow>
       view t gd' x y = (if py \<le> y \<and> y < py + ny \<and> px \<le> x \<and> x < px + nx then Some (blank bg) else view t gd x y)" by blast
  show ?thesis using simulatesI [OF r(2) s(2) r(3) s(5-8)] r(1,4) s(5,9) by simp
qed

lemma move_lines_simulates:
  assumes "simulates (Suc n) sx sy limit (gd, t) (h, f)" "py + ny \<le> h + sy" "dy + ny \<le> h + sy" "colour_ok bg" "bg \<noteq> 9"
  shows "\<exists>st'. grid_move_lines t gd dy py ny bg = Some st' \<and> simulates n sx sy limit st' (spec_step sy limit (MoveLines dy py ny bg) (h, f))"
proof -
  note s = simulatesD [OF assms(1)]
  have "py + ny \<le> hsize gd + g_sy gd" "dy + ny \<le> hsize gd + g_sy gd" using s assms(2,3) by simp_all
  from move_lines_spec [OF s(1) assms(4) this] obtain gd' where r: "grid_move_lines t gd dy py ny bg = Some (gd', t)" "grid_ok t gd'"
    "same_size gd gd'" "\<And>x y. view t gd' x y = (if py = dy then view t gd x y else moved dy py ny (empty_cell (g_sx gd) bg x) (view t gd x) y)"
    by blast
  have "view t gd x = f x" if "x < sx" for x using s(9) [OF that] by (simp add: fun_eq_iff)
  then show ?thesis using simulatesI [OF r(2) s(2) r(3) s(5-8)] r(1,4) s(5) assms(5) by (simp add: empty_cell_column)
qed

lemma move_cells_simulates:
  assumes "simulates (Suc n) sx sy limit (gd, t) (h, f)" "py < h + sy" "dx + nx \<le> sx" "px + nx \<le> sx" "colour_ok bg"
  shows "\<exists>st'. grid_move_cells t gd dx px py nx bg = Some st' \<and> simulates n sx sy limit st' (spec_step sy limit (MoveCells dx px py nx bg) (h, f))"
proof -
  note s = simulatesD [OF assms(1)]
  have "py < hsize gd + g_sy gd" using s assms(2) by simp
  from move_cells_spec [OF s(1) assms(5) this, of dx px nx] obtain gd' where r: "grid_move_cells t gd dx px py nx bg = Some (gd', t)" "grid_ok t gd'"
    "same_size gd gd'" "\<And>x y. view t gd' x y =
       (if y = py \<and> px \<noteq> dx then moved dx px nx (Some (blank bg)) (\<lambda>x. view t gd x py) x else view t gd x y)" by blast
  have "moved dx px nx b (\<lambda>x. view t gd x py) x = moved dx px nx b (\<lambda>x. f x py) x" if "x < sx" for x b
    using that assms(3,4) s(9) by (auto simp: moved_def)
  then show ?thesis using simulatesI [OF r(2) s(2) r(3) s(5-8)] r(1,4) s(9) by simp
qed

lemma history_simulates:
  assumes "simulates (Suc n) sx sy limit (gd, t) (h, f)" "op_fits sx sy h op"
    and "op = ScrollHistory bg \<or> op = ScrollRegion upper lower bg \<or> op = CollectHistory all \<or> op = RemoveHistory ny \<or> op = ClearHistory"
  shows "\<exists>st'. grid_step now op (gd, t) = Some st' \<and> simulates n sx sy limit st' (spec_step sy limit op (h, f))"
proof -
  note s = simulatesD [OF assms(1)]
  from assms(3) show ?thesis
  proof (elim disjE)
    assume op: "op = ScrollHistory bg"
    then show ?thesis using scroll_history_spec [OF s(1), of bg now] s assms(2) by (force simp: simulates_def empty_cell_column)
  next
    assume op: "op = ScrollRegion upper lower bg"
    then show ?thesis using scroll_region_spec [OF s(1), of bg upper lower now] s assms(2) by (force simp: simulates_def empty_cell_column)
  next
    assume "op = CollectHistory all"
    then show ?thesis using collect_history_spec [OF s(1)] s by (auto simp: simulates_def)
  next
    assume "op = RemoveHistory ny"
    then show ?thesis using remove_history_spec [OF s(1)] s assms(2) by (auto simp: simulates_def)
  next
    assume "op = ClearHistory"
    then show ?thesis using clear_history_spec [OF s(1)] s by (auto simp: simulates_def)
  qed
qed

text \<open>The grid does not keep what characters a padding cell was written with.  \<open>seen\<close> forgets them, and only
  them: two tables that are seen as the same differ at most inside padding cells.\<close>

definition seen :: "grid_cell \<Rightarrow> grid_cell" where
  "seen gc = (if PADDING \<in> gc_flags gc then gc\<lparr>gc_data := gc_data GRID_PADDING_CELL\<rparr> else gc)"

definition like :: "nat \<Rightarrow> cells \<Rightarrow> cells \<Rightarrow> bool" where
  "like sx f g \<longleftrightarrow> (\<forall>x < sx. \<forall>y. map_option seen (f x y) = map_option seen (g x y))"

lemma likeI: "(\<And>x y. x < sx \<Longrightarrow> map_option seen (f x y) = map_option seen (g x y)) \<Longrightarrow> like sx f g"
  by (simp add: like_def)

lemma like_trans: "like sx f g \<Longrightarrow> like sx g k \<Longrightarrow> like sx f k"
  by (simp add: like_def)

lemma seen_padding: "pc \<in> padding_reads \<Longrightarrow> seen pc = seen (shown GRID_PADDING_CELL)"
  by (auto simp: padding_reads_def seen_def shown_def char_cell_def GRID_PADDING_CELL_def)

lemma moved_seen:
  "map_option seen (moved dst src n b f z) = moved dst src n (map_option seen b) (\<lambda>z. map_option seen (f z)) z"
  by (simp add: moved_def)

text \<open>The operations of the specification treat cells alike that are seen as the same.\<close>

lemma spec_step_like:
  assumes "like sx f g" "op_fits sx sy h op"
  shows "fst (spec_step sy limit op (h, f)) = fst (spec_step sy limit op (h, g)) \<and>
    like sx (snd (spec_step sy limit op (h, f))) (snd (spec_step sy limit op (h, g)))"
proof (cases op)
  case (MoveCells dx px py nx bg)
  have "moved dx px nx b (\<lambda>x. map_option seen (f x py)) x = moved dx px nx b (\<lambda>x. map_option seen (g x py)) x" if "x < sx" for x b
    using that assms MoveCells by (auto simp: like_def moved_def)
  then show ?thesis using assms MoveCells by (auto simp: like_def moved_seen)
qed (use assms in \<open>auto simp: like_def moved_seen\<close>)

definition simulates_like :: "nat \<Rightarrow> nat \<Rightarrow> nat \<Rightarrow> nat \<Rightarrow> grid \<times> utf8_table \<Rightarrow> nat \<times> cells \<Rightarrow> bool" where
  "simulates_like n sx sy limit st sp \<longleftrightarrow> (\<exists>g. simulates n sx sy limit st (fst sp, g) \<and> like sx g (snd sp))"

lemma set_padding_simulates:
  assumes "simulates (Suc n) sx sy limit (gd, t) (h, f)" "py < h + sy"
  shows "\<exists>st'. grid_set_padding t gd px py = Some st' \<and> simulates_like n sx sy limit st' (spec_step sy limit (SetPadding px py) (h, f))"
proof -
  note s = simulatesD [OF assms(1)]
  have "py < hsize gd + g_sy gd" using s assms(2) by simp
  from set_padding_spec [OF s(1,3) this, of px] obtain gd' t' pc where r: "grid_set_cell t gd px py GRID_PADDING_CELL = Some (gd', t')" "grid_ok t' gd'"
    "utf8_table_ok t'" "utf8_next_index t' \<le> utf8_next_index t + 1" "same_size gd gd'" "pc \<in> padding_reads"
    "\<And>x y. view t' gd' x y = (if x = px \<and> y = py then Some pc else view t gd x y)" by blast
  have "table_fits n t'" using r(3,4) s(4) by (simp add: table_fits_def)
  then have "simulates n sx sy limit (gd', t') (h, \<lambda>x y. if x = px \<and> y = py then Some pc else f x y)"
    using simulatesI [OF r(2) _ r(5) s(5-8)] r(7) s(9) by simp
  moreover have "like sx (\<lambda>x y. if x = px \<and> y = py then Some pc else f x y)
      (\<lambda>x y. if x = px \<and> y = py then Some (shown GRID_PADDING_CELL) else f x y)"
    using seen_padding [OF r(6)] by (intro likeI) auto
  ultimately show ?thesis using r(1) by (auto simp: grid_set_padding_def simulates_like_def)
qed

lemma step_simulates:
  assumes "simulates (Suc n) sx sy limit (gd, t) (h, f)" "op_fits sx sy h op" "\<And>px py. op \<noteq> SetPadding px py"
  shows "\<exists>st'. grid_step now op (gd, t) = Some st' \<and> simulates n sx sy limit st' (spec_step sy limit op (h, f))"
proof (cases op)
  case (SetPadding px py)
  then show ?thesis using assms(3) by blast
qed (use assms(2) set_cell_simulates [OF assms(1)] set_cells_simulates [OF assms(1)] clear_simulates [OF assms(1)]
    move_lines_simulates [OF assms(1)] move_cells_simulates [OF assms(1)] history_simulates [OF assms(1,2)] in simp_all)

lemma like_refl: "like sx f f"
  by (simp add: like_def)

lemma step_simulates_like:
  assumes "simulates_like (Suc n) sx sy limit (gd, t) (h, f)" "op_fits sx sy h op"
  shows "\<exists>st'. grid_step now op (gd, t) = Some st' \<and> simulates_like n sx sy limit st' (spec_step sy limit op (h, f))"
proof -
  obtain g where g: "simulates (Suc n) sx sy limit (gd, t) (h, g)" "like sx g f" using assms(1) by (auto simp: simulates_like_def)
  have "\<exists>st'. grid_step now op (gd, t) = Some st' \<and> simulates_like n sx sy limit st' (spec_step sy limit op (h, g))"
  proof (cases "\<exists>px py. op = SetPadding px py")
    case True
    then show ?thesis using set_padding_simulates [OF g(1)] assms(2) by auto
  next
    case False
    then obtain st' where "grid_step now op (gd, t) = Some st'" "simulates n sx sy limit st' (spec_step sy limit op (h, g))"
      using step_simulates [OF g(1) assms(2), of now] by blast
    then show ?thesis using like_refl by (intro exI [of _ st']) (auto simp: simulates_like_def intro!: exI [of _ "snd (spec_step sy limit op (h, g))"])
  qed
  then show ?thesis
    using spec_step_like [OF g(2) assms(2), of limit] like_trans by (fastforce simp: simulates_like_def)
qed

lemma run_simulates:
  assumes "simulates_like (n + length ops) sx sy limit st sp" "spec_run sx sy limit ops sp = Some sp'"
  shows "\<exists>st'. grid_run now ops st = Some st' \<and> simulates_like n sx sy limit st' sp'"
  using assms
proof (induction ops arbitrary: st sp)
  case (Cons op ops)
  obtain gd t h f where st: "st = (gd, t)" "sp = (h, f)" by (metis prod.exhaust)
  have "op_fits sx sy h op" using Cons.prems(2) st by (simp split: if_splits)
  moreover have "simulates_like (Suc (n + length ops)) sx sy limit (gd, t) (h, f)" using Cons.prems(1) st by simp
  ultimately obtain st1 where s1: "grid_step now op st = Some st1" "simulates_like (n + length ops) sx sy limit st1 (spec_step sy limit op sp)"
    using step_simulates_like st by blast
  have "spec_run sx sy limit ops (spec_step sy limit op sp) = Some sp'" using Cons.prems(2) by (simp split: if_splits)
  from Cons.IH [OF s1(2) this] show ?case using s1(1) by simp
qed simp

text \<open>C26: under every sequence of writes, the padding behind wide characters included, clears, moves and scrolls
  that fit the grid, a grid of packed and extended cells behaves as a plain table of cells with history lines
  above the screen: no operation aborts, the invariant holds at the end, and every cell on the screen and in the
  history is the one of the table, except that a padding cell may come back with other characters.\<close>

theorem grid_refines:
  assumes "grid_ok t gd" "utf8_table_ok t" "utf8_next_index t + length ops \<le> 16777216"
    and "spec_run (g_sx gd) (g_sy gd) (hlimit gd) ops (hsize gd, view t gd) = Some (h, f)"
  shows "\<exists>gd' t'. grid_run now ops (gd, t) = Some (gd', t') \<and> grid_ok t' gd' \<and> hsize gd' = h \<and>
    g_sx gd' = g_sx gd \<and> g_sy gd' = g_sy gd \<and>
    (\<forall>x < g_sx gd. \<forall>y. map_option seen (view t' gd' x y) = map_option seen (f x y))"
proof -
  have "simulates (0 + length ops) (g_sx gd) (g_sy gd) (hlimit gd) (gd, t) (hsize gd, view t gd)"
    using assms(1-3) by (simp add: simulates_def table_fits_def)
  then have "simulates_like (0 + length ops) (g_sx gd) (g_sy gd) (hlimit gd) (gd, t) (hsize gd, view t gd)"
    using like_refl by (auto simp: simulates_like_def)
  from run_simulates [OF this assms(4), of now] obtain gd' t' g where "grid_run now ops (gd, t) = Some (gd', t')"
    "simulates 0 (g_sx gd) (g_sy gd) (hlimit gd) (gd', t') (h, g)" "like (g_sx gd) g f" by (auto simp: simulates_like_def)
  then show ?thesis by (intro exI [of _ gd'] exI [of _ t']) (simp add: simulates_def like_def)
qed

definition wide_cell :: grid_cell where
  "wide_cell = GRID_DEFAULT_CELL\<lparr>gc_data := example_char\<lparr>ud_width := 2\<rparr>\<rparr>"

theorem grid_refines_witness:
  "\<exists>gd' t'. grid_run 0 [SetCell 3 1 wide_cell, SetPadding 4 1, ScrollHistory 8, MoveCells 5 3 1 2 8] (grid_create 10 4 100, empty_table) = Some (gd', t') \<and>
     hsize gd' = 1 \<and> view t' gd' 5 1 = Some (shown wide_cell) \<and> (\<exists>pc. view t' gd' 6 1 = Some pc \<and> PADDING \<in> gc_flags pc)"
proof -
  let ?g = "grid_create 10 4 100"
  have g: "g_sx ?g = 10" "g_sy ?g = 4" "hlimit ?g = 100" "hsize ?g = 0" by (simp_all add: grid_create_def)
  let ?ops = "[SetCell 3 1 wide_cell, SetPadding 4 1, ScrollHistory 8, MoveCells 5 3 1 2 8]"
  have w: "storable wide_cell"
    by (simp add: storable_def wide_cell_def GRID_DEFAULT_CELL_def utf8_ok_def example_char_def UTF8_SIZE_def colour_ok_def
        direct_colour_def colour_has_def COLOUR_FLAG_RGB_def i32_MAX_def zero_bytes_def)
  have t: "utf8_table_ok empty_table" "utf8_next_index empty_table + length ?ops \<le> 16777216"
    using empty_table_room by (simp_all add: table_room_def empty_table_def)
  obtain h f where sp: "spec_run (g_sx ?g) (g_sy ?g) (hlimit ?g) ?ops (hsize ?g, view empty_table ?g) = Some (h, f)" "h = 1"
    "f 5 1 = Some (shown wide_cell)" "f 6 1 = Some (shown GRID_PADDING_CELL)"
    by (simp add: g w moved_def)
  from grid_refines [OF create_ok t sp(1), of 0] obtain gd' t' where gd': "grid_run 0 ?ops (?g, empty_table) = Some (gd', t')" "hsize gd' = h"
    "\<forall>x < g_sx ?g. \<forall>y. map_option seen (view t' gd' x y) = map_option seen (f x y)" by blast
  then have r: "grid_run 0 ?ops (?g, empty_table) = Some (gd', t')" "hsize gd' = 1"
    "map_option seen (view t' gd' 5 1) = Some (seen (shown wide_cell))" "map_option seen (view t' gd' 6 1) = Some (seen (shown GRID_PADDING_CELL))"
    using sp(2-4) by (simp_all only: g) simp_all
  have s: "seen (shown wide_cell) = shown wide_cell" "PADDING \<notin> gc_flags (shown wide_cell)" "PADDING \<in> gc_flags (seen (shown GRID_PADDING_CELL))"
    by (simp_all add: seen_def shown_def wide_cell_def GRID_DEFAULT_CELL_def GRID_PADDING_CELL_def)
  have p: "PADDING \<in> gc_flags (seen a) \<longleftrightarrow> PADDING \<in> gc_flags a" "PADDING \<notin> gc_flags (seen a) \<Longrightarrow> seen a = a" for a by (auto simp: seen_def)
  show ?thesis using r s p by (intro exI [of _ gd'] exI [of _ t']) (auto, metis+)
qed

end
