(* ===== verification/Grid_View.thy ===== *)
theory Grid_View
  imports Grid_Table
begin

text \<open>
  The screen part of a grid (\<open>grid_view.rs\<close>): positions relative to the top of the screen, scrolling, and
  the insertion and deletion of lines and characters.
\<close>

section \<open>Model\<close>

text \<open>Subtraction on \<open>u32\<close>.\<close>

definition sub32 :: "nat \<Rightarrow> nat \<Rightarrow> nat" where
  "sub32 a b = nat (u32 (int a - int b))"

lemma sub32_id [simp]: "b \<le> a \<Longrightarrow> a < 4294967296 \<Longrightarrow> sub32 a b = a - b"
  by (simp add: sub32_def u32_id nat_diff_distrib)

definition grid_view_x :: "grid \<Rightarrow> nat \<Rightarrow> nat" where
  "grid_view_x gd x = x"

definition grid_view_y :: "grid \<Rightarrow> nat \<Rightarrow> nat" where
  "grid_view_y gd y = hsize gd + y"

definition grid_view_get_cell :: "utf8_table \<Rightarrow> grid \<Rightarrow> nat \<Rightarrow> nat \<Rightarrow> grid_cell option" where
  "grid_view_get_cell t gd px py = grid_get_cell t gd (grid_view_x gd px) (grid_view_y gd py)"

definition grid_view_set_cell :: "utf8_table \<Rightarrow> grid \<Rightarrow> nat \<Rightarrow> nat \<Rightarrow> grid_cell \<Rightarrow> (grid \<times> utf8_table) option" where
  "grid_view_set_cell t gd px py gc = grid_set_cell t gd (grid_view_x gd px) (grid_view_y gd py) gc"

definition grid_view_set_padding :: "utf8_table \<Rightarrow> grid \<Rightarrow> nat \<Rightarrow> nat \<Rightarrow> (grid \<times> utf8_table) option" where
  "grid_view_set_padding t gd px py = grid_set_padding t gd (grid_view_x gd px) (grid_view_y gd py)"

definition grid_view_set_cells :: "utf8_table \<Rightarrow> grid \<Rightarrow> nat \<Rightarrow> nat \<Rightarrow> grid_cell \<Rightarrow> string \<Rightarrow> (grid \<times> utf8_table) option" where
  "grid_view_set_cells t gd px py gc s = grid_set_cells t gd (grid_view_x gd px) (grid_view_y gd py) gc s"

definition grid_view_clear :: "utf8_table \<Rightarrow> grid \<Rightarrow> nat \<Rightarrow> nat \<Rightarrow> nat \<Rightarrow> nat \<Rightarrow> int \<Rightarrow> (grid \<times> utf8_table) option" where
  "grid_view_clear t gd px py nx ny bg = grid_clear t gd (grid_view_x gd px) (grid_view_y gd py) nx ny bg"

fun scroll_lines :: "int \<Rightarrow> nat \<Rightarrow> utf8_table \<Rightarrow> grid \<Rightarrow> int \<Rightarrow> (grid \<times> utf8_table) option" where
  "scroll_lines now 0 t gd bg = Some (gd, t)"
| "scroll_lines now (Suc n) t gd bg = do {
     (gd', t') \<leftarrow> grid_scroll_history now t (grid_collect_history gd False) bg;
     scroll_lines now n t' gd' bg
   }"

definition grid_view_clear_history :: "int \<Rightarrow> utf8_table \<Rightarrow> grid \<Rightarrow> int \<Rightarrow> (grid \<times> utf8_table) option" where
  "grid_view_clear_history now t gd bg =
     (let last = fold (\<lambda>yy last. if cellused (grid_get_line gd (grid_view_y gd yy)) \<noteq> 0 then yy + 1 else last) [0..<g_sy gd] 0
      in if last = 0 then grid_view_clear t gd 0 0 (g_sx gd) (g_sy gd) bg
         else do {
           (gd1, t1) \<leftarrow> scroll_lines now (g_sy gd) t gd bg;
           (gd2, t2) \<leftarrow> (if last < g_sy gd1 then grid_view_clear t1 gd1 0 0 (g_sx gd1) (g_sy gd1 - last) bg else Some (gd1, t1));
           Some (gd2\<lparr>hscrolled := 0\<rparr>, t2)
         })"

definition grid_view_scroll_region_up :: "int \<Rightarrow> utf8_table \<Rightarrow> grid \<Rightarrow> nat \<Rightarrow> nat \<Rightarrow> int \<Rightarrow> (grid \<times> utf8_table) option" where
  "grid_view_scroll_region_up now t gd rupper rlower bg =
     (if g_history gd
      then (let gd1 = grid_collect_history gd False
            in if rupper = 0 \<and> rlower = sub32 (g_sy gd1) 1 then grid_scroll_history now t gd1 bg
               else grid_scroll_history_region now t gd1 (grid_view_y gd1 rupper) (grid_view_y gd1 rlower) bg)
      else (let upper = grid_view_y gd rupper; lower = grid_view_y gd rlower
            in grid_move_lines t gd upper (upper + 1) (sub32 lower upper) bg))"

definition grid_view_scroll_region_down :: "utf8_table \<Rightarrow> grid \<Rightarrow> nat \<Rightarrow> nat \<Rightarrow> int \<Rightarrow> (grid \<times> utf8_table) option" where
  "grid_view_scroll_region_down t gd rupper rlower bg =
     (let upper = grid_view_y gd rupper; lower = grid_view_y gd rlower
      in grid_move_lines t gd (upper + 1) upper (sub32 lower upper) bg)"

definition grid_view_insert_lines :: "utf8_table \<Rightarrow> grid \<Rightarrow> nat \<Rightarrow> nat \<Rightarrow> int \<Rightarrow> (grid \<times> utf8_table) option" where
  "grid_view_insert_lines t gd py ny bg =
     (let y = grid_view_y gd py; sy = grid_view_y gd (g_sy gd)
      in grid_move_lines t gd (y + ny) y (sub32 (sub32 sy y) ny) bg)"

definition grid_view_insert_lines_region :: "utf8_table \<Rightarrow> grid \<Rightarrow> nat \<Rightarrow> nat \<Rightarrow> nat \<Rightarrow> int \<Rightarrow> (grid \<times> utf8_table) option" where
  "grid_view_insert_lines_region t gd rlower py ny bg = do {
     let lower = grid_view_y gd rlower;
     let y = grid_view_y gd py;
     let ny2 = sub32 (sub32 (lower + 1) y) ny;
     (gd1, t1) \<leftarrow> grid_move_lines t gd (sub32 (lower + 1) ny2) y ny2 bg;
     grid_clear t1 gd1 0 (y + ny2) (g_sx gd1) (ny - ny2) bg
   }"

definition grid_view_delete_lines :: "utf8_table \<Rightarrow> grid \<Rightarrow> nat \<Rightarrow> nat \<Rightarrow> int \<Rightarrow> (grid \<times> utf8_table) option" where
  "grid_view_delete_lines t gd py ny bg = do {
     let y = grid_view_y gd py;
     let sy = grid_view_y gd (g_sy gd);
     (gd1, t1) \<leftarrow> grid_move_lines t gd y (y + ny) (sub32 (sub32 sy y) ny) bg;
     grid_clear t1 gd1 0 (sy - ny) (g_sx gd1) ny bg
   }"

definition grid_view_delete_lines_region :: "utf8_table \<Rightarrow> grid \<Rightarrow> nat \<Rightarrow> nat \<Rightarrow> nat \<Rightarrow> int \<Rightarrow> (grid \<times> utf8_table) option" where
  "grid_view_delete_lines_region t gd rlower py ny bg = do {
     let lower = grid_view_y gd rlower;
     let y = grid_view_y gd py;
     let ny2 = sub32 (sub32 (lower + 1) y) ny;
     (gd1, t1) \<leftarrow> grid_move_lines t gd y (y + ny) ny2 bg;
     grid_clear t1 gd1 0 (y + ny2) (g_sx gd1) (ny - ny2) bg
   }"

definition grid_view_insert_cells :: "utf8_table \<Rightarrow> grid \<Rightarrow> nat \<Rightarrow> nat \<Rightarrow> nat \<Rightarrow> int \<Rightarrow> (grid \<times> utf8_table) option" where
  "grid_view_insert_cells t gd px py nx bg =
     (let x = grid_view_x gd px; y = grid_view_y gd py; sx = grid_view_x gd (g_sx gd)
      in if x \<ge> sub32 sx 1 then grid_clear t gd x y 1 1 bg
         else grid_move_cells t gd (x + nx) x y (sub32 (sub32 sx x) nx) bg)"

definition grid_view_delete_cells :: "utf8_table \<Rightarrow> grid \<Rightarrow> nat \<Rightarrow> nat \<Rightarrow> nat \<Rightarrow> int \<Rightarrow> (grid \<times> utf8_table) option" where
  "grid_view_delete_cells t gd px py nx bg = do {
     let x = grid_view_x gd px;
     let y = grid_view_y gd py;
     let sx = grid_view_x gd (g_sx gd);
     (gd1, t1) \<leftarrow> grid_move_cells t gd x (x + nx) y (sub32 (sub32 sx x) nx) bg;
     grid_clear t1 gd1 (sub32 sx nx) y nx 1 bg
   }"

section \<open>The screen\<close>

definition screen :: "utf8_table \<Rightarrow> grid \<Rightarrow> nat \<Rightarrow> nat \<Rightarrow> grid_cell option" where
  "screen t gd x y = view t gd x (hsize gd + y)"

text \<open>Grids whose lines can be counted in 32 bits.\<close>

definition screen_ok :: "utf8_table \<Rightarrow> grid \<Rightarrow> bool" where
  "screen_ok t gd \<longleftrightarrow> grid_ok t gd \<and> hsize gd + g_sy gd < 4294967295 \<and> g_sx gd < 4294967295"

text \<open>Lines inserted or deleted in a region that ends at \<open>lower\<close>, in one column.\<close>

definition insert_rows :: "nat \<Rightarrow> nat \<Rightarrow> nat \<Rightarrow> 'a \<Rightarrow> (nat \<Rightarrow> 'a) \<Rightarrow> nat \<Rightarrow> 'a" where
  "insert_rows lower py ny z f y = (if y < py \<or> lower < y then f y else if y < py + ny then z else f (y - ny))"

definition delete_rows :: "nat \<Rightarrow> nat \<Rightarrow> nat \<Rightarrow> 'a \<Rightarrow> (nat \<Rightarrow> 'a) \<Rightarrow> nat \<Rightarrow> 'a" where
  "delete_rows lower py ny z f y = (if y < py \<or> lower < y then f y else if y + ny \<le> lower then f (y + ny) else z)"

text \<open>Moving lines and then clearing what the move left.\<close>

lemma move_then_clear:
  assumes "screen_ok t gd" "colour_ok bg" "bg \<noteq> 9" "dy + n \<le> g_sy gd" "py + n \<le> g_sy gd" "cy + m \<le> g_sy gd"
  shows "\<exists>gd'. do { (gd1, t1) \<leftarrow> grid_move_lines t gd (hsize gd + dy) (hsize gd + py) n bg;
      grid_clear t1 gd1 0 (hsize gd + cy) (g_sx gd1) m bg } = Some (gd', t) \<and> screen_ok t gd' \<and> same_size gd gd' \<and>
    (\<forall>x < g_sx gd. \<forall>y. screen t gd' x y = (if cy \<le> y \<and> y < cy + m then Some (blank bg)
       else if py = dy then screen t gd x y else moved dy py n (Some (blank bg)) (screen t gd x) y) \<and>
       (\<forall>k < hsize gd. view t gd' x k = view t gd x k))"
proof -
  have ok: "grid_ok t gd" using assms(1) by (simp add: screen_ok_def)
  have "hsize gd + py + n \<le> hsize gd + g_sy gd" "hsize gd + dy + n \<le> hsize gd + g_sy gd" using assms(4,5) by simp_all
  from move_lines_spec [OF ok assms(2) this] obtain g1 where g1: "grid_move_lines t gd (hsize gd + dy) (hsize gd + py) n bg = Some (g1, t)"
    "grid_ok t g1" "same_size gd g1" "\<And>x y. view t g1 x y = (if hsize gd + py = hsize gd + dy then view t gd x y
       else moved (hsize gd + dy) (hsize gd + py) n (empty_cell (g_sx gd) bg x) (view t gd x) y)" by blast
  have "hsize gd + cy + m \<le> hsize g1 + g_sy g1" using assms(6) g1(3) by (simp add: same_size_def)
  from clear_spec [OF g1(2) assms(2,3) this, of 0 "g_sx g1"] obtain g2 where g2:
    "grid_clear t g1 0 (hsize gd + cy) (g_sx g1) m bg = Some (g2, t)" "grid_ok t g2" "same_size g1 g2" "\<And>x y. x < g_sx g1 \<Longrightarrow>
       view t g2 x y = (if hsize gd + cy \<le> y \<and> y < hsize gd + cy + m \<and> 0 \<le> x \<and> x < 0 + g_sx g1 then Some (blank bg) else view t g1 x y)"
    by blast
  have v: "view t g2 x y = (if hsize gd + cy \<le> y \<and> y < hsize gd + cy + m then Some (blank bg) else if py = dy then view t gd x y
      else moved (hsize gd + dy) (hsize gd + py) n (Some (blank bg)) (view t gd x) y)" if "x < g_sx gd" for x y
    using g2(4) [of x y] g1(3,4) that assms(3) by (simp add: same_size_def empty_cell_column)
  have m: "moved (hsize gd + dy) (hsize gd + py) n z f (hsize gd + y) = moved dy py n z (\<lambda>y. f (hsize gd + y)) y"
    "k < hsize gd \<Longrightarrow> moved (hsize gd + dy) (hsize gd + py) n z f k = f k" for z y k and f :: "nat \<Rightarrow> grid_cell option"
    by (auto simp: moved_def add_ac)
  have s: "same_size gd g2" using same_size_trans [OF g1(3) g2(3)] .
  then have h: "hsize g2 = hsize gd" "screen_ok t g2" using assms(1) g2(2) by (simp_all add: same_size_def screen_ok_def)
  show ?thesis using g1(1) g2(1) s h v m by (intro exI [of _ g2]) (simp add: screen_def [abs_def])
qed


lemma clear_nothing: "(do { (gd1, t1) \<leftarrow> r; grid_clear t1 gd1 0 cy (g_sx gd1) 0 bg }) = r"
  by (cases r) (auto simp: grid_clear_def)

lemma insert_region_spec:
  assumes "screen_ok t gd" "colour_ok bg" "bg \<noteq> 9" "lower < g_sy gd" "py + ny \<le> lower + 1"
  shows "\<exists>g. grid_view_insert_lines_region t gd lower py ny bg = Some (g, t) \<and> screen_ok t g \<and> same_size gd g \<and>
    (\<forall>x < g_sx gd. (\<forall>y. screen t g x y = insert_rows lower py ny (Some (blank bg)) (screen t gd x) y) \<and>
       (\<forall>k < hsize gd. view t g x k = view t gd x k))"
proof -
  define n2 where "n2 = lower + 1 - py - ny"
  have b: "hsize gd + lower + 1 < 4294967296" using assms(1,4) by (simp add: screen_ok_def)
  have n: "sub32 (sub32 (grid_view_y gd lower + 1) (grid_view_y gd py)) ny = n2" "sub32 (grid_view_y gd lower + 1) n2 = hsize gd + (py + ny)"
    using b assms(5) by (simp_all add: grid_view_y_def n2_def)
  have e: "grid_view_insert_lines_region t gd lower py ny bg = do { (gd1, t1) \<leftarrow> grid_move_lines t gd (hsize gd + (py + ny)) (hsize gd + py) n2 bg;
      grid_clear t1 gd1 0 (hsize gd + (py + n2)) (g_sx gd1) (ny - n2) bg }"
    unfolding grid_view_insert_lines_region_def Let_def n by (simp add: grid_view_y_def add.assoc)
  have "py + ny + n2 \<le> g_sy gd" "py + n2 \<le> g_sy gd" "py + n2 + (ny - n2) \<le> g_sy gd" using assms(4,5) by (auto simp: n2_def)
  from move_then_clear [OF assms(1-3) this] obtain g where g: "grid_view_insert_lines_region t gd lower py ny bg = Some (g, t)"
    "screen_ok t g" "same_size gd g" "\<forall>x < g_sx gd. \<forall>y. screen t g x y = (if py + n2 \<le> y \<and> y < py + n2 + (ny - n2) then Some (blank bg)
       else if py = py + ny then screen t gd x y else moved (py + ny) py n2 (Some (blank bg)) (screen t gd x) y) \<and>
       (\<forall>k < hsize gd. view t g x k = view t gd x k)" unfolding e by blast
  have "(if py + n2 \<le> y \<and> y < py + n2 + (ny - n2) then z else if py = py + ny then f y else moved (py + ny) py n2 z f y)
      = insert_rows lower py ny z f y" for y z and f :: "nat \<Rightarrow> grid_cell option"
    using assms(5) by (auto simp: insert_rows_def moved_def n2_def intro: arg_cong [where f = f])
  then show ?thesis using g by simp
qed

lemma delete_region_spec:
  assumes "screen_ok t gd" "colour_ok bg" "bg \<noteq> 9" "lower < g_sy gd" "py + ny \<le> lower + 1"
  shows "\<exists>g. grid_view_delete_lines_region t gd lower py ny bg = Some (g, t) \<and> screen_ok t g \<and> same_size gd g \<and>
    (\<forall>x < g_sx gd. (\<forall>y. screen t g x y = delete_rows lower py ny (Some (blank bg)) (screen t gd x) y) \<and>
       (\<forall>k < hsize gd. view t g x k = view t gd x k))"
proof -
  define n2 where "n2 = lower + 1 - py - ny"
  have b: "hsize gd + lower + 1 < 4294967296" using assms(1,4) by (simp add: screen_ok_def)
  have n: "sub32 (sub32 (grid_view_y gd lower + 1) (grid_view_y gd py)) ny = n2"
    using b assms(5) by (simp add: grid_view_y_def n2_def)
  have e: "grid_view_delete_lines_region t gd lower py ny bg = do { (gd1, t1) \<leftarrow> grid_move_lines t gd (hsize gd + py) (hsize gd + (py + ny)) n2 bg;
      grid_clear t1 gd1 0 (hsize gd + (py + n2)) (g_sx gd1) (ny - n2) bg }"
    unfolding grid_view_delete_lines_region_def Let_def n by (simp add: grid_view_y_def add.assoc)
  have "py + n2 \<le> g_sy gd" "py + ny + n2 \<le> g_sy gd" "py + n2 + (ny - n2) \<le> g_sy gd" using assms(4,5) by (auto simp: n2_def)
  from move_then_clear [OF assms(1-3) this] obtain g where g: "grid_view_delete_lines_region t gd lower py ny bg = Some (g, t)"
    "screen_ok t g" "same_size gd g" "\<forall>x < g_sx gd. \<forall>y. screen t g x y = (if py + n2 \<le> y \<and> y < py + n2 + (ny - n2) then Some (blank bg)
       else if py + ny = py then screen t gd x y else moved py (py + ny) n2 (Some (blank bg)) (screen t gd x) y) \<and>
       (\<forall>k < hsize gd. view t g x k = view t gd x k)" unfolding e by blast
  have "(if py + n2 \<le> y \<and> y < py + n2 + (ny - n2) then z else if py + ny = py then f y else moved py (py + ny) n2 z f y)
      = delete_rows lower py ny z f y" for y z and f :: "nat \<Rightarrow> grid_cell option"
    using assms(5) by (auto simp: delete_rows_def moved_def n2_def intro: arg_cong [where f = f])
  then show ?thesis using g by simp
qed

text \<open>C28: inserting lines in a scroll region moves the lines from there down, drops those that leave the
  region and blanks the new ones; deleting moves the lines below up and blanks the rest of the region.
  Neither touches a line outside the region or in the history.\<close>

theorem grid_view_region_lines:
  assumes "screen_ok t gd" "colour_ok bg" "bg \<noteq> 9" "lower < g_sy gd" "py + ny \<le> lower + 1"
  shows "(\<exists>g. grid_view_insert_lines_region t gd lower py ny bg = Some (g, t) \<and> screen_ok t g \<and> same_size gd g \<and>
      (\<forall>x < g_sx gd. (\<forall>y. screen t g x y = insert_rows lower py ny (Some (blank bg)) (screen t gd x) y) \<and>
         (\<forall>k < hsize gd. view t g x k = view t gd x k))) \<and>
    (\<exists>g. grid_view_delete_lines_region t gd lower py ny bg = Some (g, t) \<and> screen_ok t g \<and> same_size gd g \<and>
      (\<forall>x < g_sx gd. (\<forall>y. screen t g x y = delete_rows lower py ny (Some (blank bg)) (screen t gd x) y) \<and>
         (\<forall>k < hsize gd. view t g x k = view t gd x k)))"
  using insert_region_spec [OF assms] delete_region_spec [OF assms] by blast

theorem grid_view_region_lines_witness:
  "\<exists>g. grid_view_insert_lines_region empty_table (grid_create 80 24 0) 20 3 2 8 = Some (g, empty_table) \<and> screen_ok empty_table g"
  using grid_view_region_lines [of empty_table "grid_create 80 24 0" 8 20 3 2] create_ok [of empty_table 80 24 0]
  by (auto simp: screen_ok_def grid_create_def)


section \<open>Characters in a line\<close>

text \<open>The columns of a line when \<open>nx\<close> characters are inserted or deleted at \<open>px\<close>.\<close>

definition insert_columns :: "nat \<Rightarrow> nat \<Rightarrow> nat \<Rightarrow> 'a \<Rightarrow> (nat \<Rightarrow> 'a) \<Rightarrow> nat \<Rightarrow> 'a" where
  "insert_columns sx px nx z f x = (if x < px \<or> sx \<le> x then f x else if x < px + nx then z else f (x - nx))"

definition delete_columns :: "nat \<Rightarrow> nat \<Rightarrow> nat \<Rightarrow> 'a \<Rightarrow> (nat \<Rightarrow> 'a) \<Rightarrow> nat \<Rightarrow> 'a" where
  "delete_columns sx px nx z f x = (if x < px \<or> sx \<le> x then f x else if x + nx < sx then f (x + nx) else z)"

lemma move_cells_screen:
  assumes "screen_ok t gd" "colour_ok bg" "py < g_sy gd"
  shows "\<exists>g. grid_move_cells t gd dx px (hsize gd + py) nx bg = Some (g, t) \<and> screen_ok t g \<and> same_size gd g \<and>
    (\<forall>x y. view t g x y = (if y = hsize gd + py \<and> px \<noteq> dx then moved dx px nx (Some (blank bg)) (\<lambda>x. screen t gd x py) x else view t gd x y))"
proof -
  have ok: "grid_ok t gd" and py: "hsize gd + py < hsize gd + g_sy gd" using assms(1,3) by (simp_all add: screen_ok_def)
  from move_cells_spec [OF ok assms(2) py, of dx px nx] obtain g where g: "grid_move_cells t gd dx px (hsize gd + py) nx bg = Some (g, t)"
    "grid_ok t g" "same_size gd g" "\<forall>x y. view t g x y = (if y = hsize gd + py \<and> px \<noteq> dx
       then moved dx px nx (Some (blank bg)) (\<lambda>x. view t gd x (hsize gd + py)) x else view t gd x y)" by blast
  moreover have "screen_ok t g" using assms(1) g(2,3) by (simp add: screen_ok_def same_size_def)
  ultimately show ?thesis by (simp add: screen_def)
qed

lemma delete_cells_spec:
  assumes "screen_ok t gd" "colour_ok bg" "bg \<noteq> 9" "py < g_sy gd" "px + nx \<le> g_sx gd"
  shows "\<exists>g. grid_view_delete_cells t gd px py nx bg = Some (g, t) \<and> screen_ok t g \<and> same_size gd g \<and>
    (\<forall>x < g_sx gd. \<forall>y. screen t g x y =
       (if y = py then delete_columns (g_sx gd) px nx (Some (blank bg)) (\<lambda>x. screen t gd x py) x else screen t gd x y))"
proof -
  let ?n = "g_sx gd - px - nx" and ?y = "hsize gd + py"
  have b: "g_sx gd < 4294967296" using assms(1) by (simp add: screen_ok_def)
  from move_cells_screen [OF assms(1,2,4), of px "px + nx" ?n] obtain g1 where g1:
    "grid_move_cells t gd px (px + nx) ?y ?n bg = Some (g1, t)" "screen_ok t g1" "same_size gd g1" "\<forall>x y. view t g1 x y =
       (if y = ?y \<and> px + nx \<noteq> px then moved px (px + nx) ?n (Some (blank bg)) (\<lambda>x. screen t gd x py) x else view t gd x y)" by blast
  have "?y + 1 \<le> hsize g1 + g_sy g1" using g1(3) assms(4) by (simp add: same_size_def)
  moreover have "grid_ok t g1" using g1(2) by (simp add: screen_ok_def)
  ultimately obtain g2 where g2: "grid_clear t g1 (g_sx gd - nx) ?y nx 1 bg = Some (g2, t)" "grid_ok t g2" "same_size g1 g2"
    "\<And>x y. x < g_sx g1 \<Longrightarrow> view t g2 x y = (if ?y \<le> y \<and> y < ?y + 1 \<and> g_sx gd - nx \<le> x \<and> x < g_sx gd - nx + nx then Some (blank bg) else view t g1 x y)"
    using clear_spec [OF _ assms(2,3)] by blast
  have s: "same_size gd g2" using same_size_trans [OF g1(3) g2(3)] .
  have n: "sub32 (sub32 (g_sx gd) px) nx = ?n" "sub32 (g_sx gd) nx = g_sx gd - nx" using b assms(5) by simp_all
  have "grid_view_delete_cells t gd px py nx bg = Some (g2, t)"
    unfolding grid_view_delete_cells_def Let_def grid_view_x_def grid_view_y_def n g1(1) using g2(1) by simp
  moreover have "screen t g2 x y = (if y = py then delete_columns (g_sx gd) px nx (Some (blank bg)) (\<lambda>x. screen t gd x py) x else screen t gd x y)"
    if "x < g_sx gd" for x y
    using g2(4) [of x "hsize gd + y"] g1(3,4) s that assms(5) by (auto simp: screen_def same_size_def delete_columns_def moved_def)
  ultimately show ?thesis using s g2(2) assms(1) by (auto simp: screen_ok_def same_size_def)
qed

lemma insert_cells_spec:
  assumes "screen_ok t gd" "colour_ok bg" "bg \<noteq> 9" "py < g_sy gd" "px < g_sx gd" "0 < nx" "2 * nx \<le> g_sx gd - px \<or> px = g_sx gd - 1 \<and> nx = 1"
  shows "\<exists>g. grid_view_insert_cells t gd px py nx bg = Some (g, t) \<and> screen_ok t g \<and> same_size gd g \<and>
    (\<forall>x < g_sx gd. \<forall>y. screen t g x y =
       (if y = py then insert_columns (g_sx gd) px nx (Some (blank bg)) (\<lambda>x. screen t gd x py) x else screen t gd x y))"
proof (cases "px \<ge> g_sx gd - 1")
  case True
  have b: "g_sx gd < 4294967296" using assms(1) by (simp add: screen_ok_def)
  have nx: "px = g_sx gd - 1" "nx = 1" using True assms(5-7) by auto
  have ok: "grid_ok t gd" "hsize gd + py + 1 \<le> hsize gd + g_sy gd" using assms(1,4) by (simp_all add: screen_ok_def)
  from clear_spec [OF ok(1) assms(2,3) ok(2), of px 1] obtain g where g: "grid_clear t gd px (hsize gd + py) 1 1 bg = Some (g, t)" "grid_ok t g"
    "same_size gd g" "\<forall>x y. x < g_sx gd \<longrightarrow> view t g x y =
       (if hsize gd + py \<le> y \<and> y < hsize gd + py + 1 \<and> px \<le> x \<and> x < px + 1 then Some (blank bg) else view t gd x y)" by blast
  have "grid_view_insert_cells t gd px py nx bg = Some (g, t)"
    using True b assms(5) g(1) by (simp add: grid_view_insert_cells_def grid_view_x_def grid_view_y_def Let_def)
  then show ?thesis using g nx assms(1,5) by (auto simp: screen_def same_size_def screen_ok_def insert_columns_def)
next
  case False
  let ?n = "g_sx gd - px - nx"
  have b: "g_sx gd < 4294967296" using assms(1) by (simp add: screen_ok_def)
  have le: "2 * nx \<le> g_sx gd - px" using False assms(7) by auto
  from move_cells_screen [OF assms(1,2,4), of "px + nx" px ?n] obtain g where g:
    "grid_move_cells t gd (px + nx) px (hsize gd + py) ?n bg = Some (g, t)" "screen_ok t g" "same_size gd g" "\<forall>x y. view t g x y =
       (if y = hsize gd + py \<and> px \<noteq> px + nx then moved (px + nx) px ?n (Some (blank bg)) (\<lambda>x. screen t gd x py) x else view t gd x y)" by blast
  have n: "sub32 (sub32 (g_sx gd) px) nx = ?n" "\<not> px \<ge> sub32 (g_sx gd) 1" using b assms(5) le False by simp_all
  have "grid_view_insert_cells t gd px py nx bg = Some (g, t)"
    unfolding grid_view_insert_cells_def Let_def grid_view_x_def grid_view_y_def n(1) using n(2) g(1) by simp
  moreover have "screen t g x y = (if y = py then insert_columns (g_sx gd) px nx (Some (blank bg)) (\<lambda>x. screen t gd x py) x else screen t gd x y)"
    if "x < g_sx gd" for x y
    using g(3,4) that le assms(6) by (auto simp: screen_def same_size_def insert_columns_def moved_def)
  ultimately show ?thesis using g(2,3) by blast
qed

text \<open>C29: deleting characters moves the rest of the line left and blanks its end; inserting moves it right and
  blanks the gap.  Insertion does so only if at least as many characters are moved as are inserted:
  otherwise the line keeps old characters in the gap.\<close>

theorem grid_view_line_cells:
  assumes "screen_ok t gd" "colour_ok bg" "bg \<noteq> 9" "py < g_sy gd" "0 < nx" "px + nx \<le> g_sx gd"
  shows "(\<exists>g. grid_view_delete_cells t gd px py nx bg = Some (g, t) \<and> screen_ok t g \<and> same_size gd g \<and>
      (\<forall>x < g_sx gd. \<forall>y. screen t g x y =
         (if y = py then delete_columns (g_sx gd) px nx (Some (blank bg)) (\<lambda>x. screen t gd x py) x else screen t gd x y))) \<and>
    (\<exists>g. grid_view_insert_cells t gd px py nx bg = Some (g, t) \<and> screen_ok t g \<and> same_size gd g \<and>
      (2 * nx \<le> g_sx gd - px \<or> px = g_sx gd - 1 \<longrightarrow> (\<forall>x < g_sx gd. \<forall>y. screen t g x y =
         (if y = py then insert_columns (g_sx gd) px nx (Some (blank bg)) (\<lambda>x. screen t gd x py) x else screen t gd x y))) \<and>
      (\<forall>x. px < g_sx gd - 1 \<and> g_sx gd - nx \<le> x \<and> x < px + nx \<longrightarrow> screen t g x py = screen t gd x py))"
proof -
  have b: "g_sx gd < 4294967296" "px < g_sx gd" using assms(1,5,6) by (simp_all add: screen_ok_def)
  have ins: "\<exists>g. grid_view_insert_cells t gd px py nx bg = Some (g, t) \<and> screen_ok t g \<and> same_size gd g \<and>
      (\<forall>x. g_sx gd - nx \<le> x \<and> x < px + nx \<longrightarrow> screen t g x py = screen t gd x py)" if "px < g_sx gd - 1"
  proof -
    let ?n = "g_sx gd - px - nx"
    from move_cells_screen [OF assms(1,2,4), of "px + nx" px ?n] obtain g where g:
      "grid_move_cells t gd (px + nx) px (hsize gd + py) ?n bg = Some (g, t)" "screen_ok t g" "same_size gd g" "\<forall>x y. view t g x y =
         (if y = hsize gd + py \<and> px \<noteq> px + nx then moved (px + nx) px ?n (Some (blank bg)) (\<lambda>x. screen t gd x py) x else view t gd x y)" by blast
    have n: "sub32 (sub32 (g_sx gd) px) nx = ?n" "\<not> px \<ge> sub32 (g_sx gd) 1" using b assms(6) that by simp_all
    have "grid_view_insert_cells t gd px py nx bg = Some (g, t)"
      unfolding grid_view_insert_cells_def Let_def grid_view_x_def grid_view_y_def n(1) using n(2) g(1) by simp
    then show ?thesis using g assms(5,6) by (auto simp: screen_def same_size_def moved_def)
  qed
  have edge: "nx = 1" if "px = g_sx gd - 1" using that assms(5,6) b by auto
  have "px < g_sx gd - 1 \<or> px = g_sx gd - 1" using b by auto
  then show ?thesis
    using delete_cells_spec [OF assms(1-4,6)] insert_cells_spec [OF assms(1-4) b(2) assms(5)] ins edge by fastforce
qed

theorem grid_view_line_cells_witness:
  "\<exists>g. grid_view_delete_cells empty_table (grid_create 80 24 0) 70 3 4 8 = Some (g, empty_table) \<and> screen_ok empty_table g"
  using grid_view_line_cells [of empty_table "grid_create 80 24 0" 8 3 4 70] create_ok [of empty_table 80 24 0]
  by (auto simp: screen_ok_def grid_create_def)


section \<open>Scrolling\<close>

lemma screen_below: "g_sy gd \<le> y \<Longrightarrow> screen t gd x y = Some (blank 8)"
  by (simp add: screen_def view_line)

lemma collect_screen:
  assumes "grid_ok t gd"
  defines "d \<equiv> collect_lines (hsize gd) (hlimit gd) False"
  shows "screen t (grid_collect_history gd False) x y = screen t gd x y" "d \<le> hsize gd"
    "0 < hlimit gd \<Longrightarrow> hsize gd \<le> hlimit gd \<Longrightarrow> hsize gd - d < hlimit gd"
proof -
  show d: "d \<le> hsize gd" by (simp add: d_def collect_lines_def)
  show "screen t (grid_collect_history gd False) x y = screen t gd x y"
    using collect_history_spec [OF assms(1), of False] d by (simp add: screen_def d_def [symmetric])
  show "hsize gd - d < hlimit gd" if "0 < hlimit gd" "hsize gd \<le> hlimit gd"
    using that by (auto simp: d_def collect_lines_def min_def max_def)
qed

lemma scroll_one:
  assumes "grid_ok t gd" "hsize gd + g_sy gd < 4294967295" "colour_ok bg" "bg \<noteq> 9" "rupper \<le> rlower" "rlower < g_sy gd"
  shows "\<exists>g. (if rupper = 0 \<and> rlower = sub32 (g_sy gd) 1 then grid_scroll_history now t gd bg
      else grid_scroll_history_region now t gd (grid_view_y gd rupper) (grid_view_y gd rlower) bg) = Some (g, t) \<and>
    grid_ok t g \<and> hsize g = hsize gd + 1 \<and> g_sx g = g_sx gd \<and> g_sy g = g_sy gd \<and> hlimit g = hlimit gd \<and>
    (\<forall>x < g_sx gd. (\<forall>y. screen t g x y = delete_rows rlower rupper 1 (Some (blank bg)) (screen t gd x) y) \<and>
       view t g x (hsize gd) = screen t gd x rupper \<and> (\<forall>k < hsize gd. view t g x k = view t gd x k))"
proof (cases "rupper = 0 \<and> rlower = sub32 (g_sy gd) 1")
  case True
  have r: "rupper = 0" "Suc rlower = g_sy gd" using True assms(2,6) by simp_all
  from scroll_history_spec [OF assms(1,3), of now] obtain g where g: "grid_scroll_history now t gd bg = Some (g, t)" "grid_ok t g"
    "hsize g = hsize gd + 1" "g_sy g = g_sy gd" "g_sx g = g_sx gd" "hlimit g = hlimit gd"
    "\<And>x y. view t g x y = (if y = hsize gd + g_sy gd then empty_cell (g_sx gd) bg x else view t gd x y)" by blast
  have v: "view t g x (hsize gd + 1 + y) = (if y = rlower then empty_cell (g_sx gd) bg x else screen t gd x (y + 1))" for x y
    using g(7) [of x "hsize gd + 1 + y"] r(2) by (auto simp: screen_def)
  have "screen t g x y = delete_rows rlower rupper 1 (Some (blank bg)) (screen t gd x) y" if "x < g_sx gd" for x y
    using v [of x y] that assms(4) r g(3) screen_below [of gd "y + 1" t x] screen_below [of gd y t x]
    by (auto simp: screen_def [of t g] delete_rows_def empty_cell_column)
  moreover have "view t g x k = view t gd x k" if "k \<le> hsize gd" for x k using g(7) that r(2) by simp
  ultimately show ?thesis using True g r by (auto simp: screen_def)
next
  case False
  have "hsize gd \<le> hsize gd + rupper" "hsize gd + rupper \<le> hsize gd + rlower" "hsize gd + rlower < hsize gd + g_sy gd"
    using assms(5,6) by simp_all
  from scroll_region_spec [OF assms(1,3) this, of now] obtain g where g:
    "grid_scroll_history_region now t gd (hsize gd + rupper) (hsize gd + rlower) bg = Some (g, t)" "grid_ok t g"
    "hsize g = hsize gd + 1" "g_sy g = g_sy gd" "g_sx g = g_sx gd" "hlimit g = hlimit gd"
    "\<And>x y. view t g x y = (if y = hsize gd + rlower + 1 then empty_cell (g_sx gd) bg x
       else view t gd x (region_source (hsize gd) (hsize gd + rupper) (hsize gd + rlower) y))" by blast
  have src: "region_source (hsize gd) (hsize gd + rupper) (hsize gd + rlower) (hsize gd + 1 + y) =
      hsize gd + (if y < rupper \<or> rlower < y then y else y + 1)" if "y \<noteq> rlower" for y
    using that assms(5) by (auto simp: region_source_def)
  have "screen t g x y = delete_rows rlower rupper 1 (Some (blank bg)) (screen t gd x) y" if "x < g_sx gd" for x y
    using g(7) [of x "hsize gd + 1 + y"] g(3) src [of y] that assms(4,5) by (auto simp: screen_def delete_rows_def empty_cell_column)
  moreover have "view t g x (hsize gd) = screen t gd x rupper" "k < hsize gd \<Longrightarrow> view t g x k = view t gd x k" for x k
    using g(7) by (simp_all add: region_source_def screen_def)
  ultimately have "\<forall>x < g_sx gd. (\<forall>y. screen t g x y = delete_rows rlower rupper 1 (Some (blank bg)) (screen t gd x) y) \<and>
       view t g x (hsize gd) = screen t gd x rupper \<and> (\<forall>k < hsize gd. view t g x k = view t gd x k)" by simp
  then show ?thesis unfolding if_not_P [OF False] grid_view_y_def using g(1-6) by (intro exI [of _ g]) simp
qed

text \<open>C30: scrolling a region up moves its lines up by one, blanks its last line and leaves the rest of the
  screen.  On a grid with history the line that leaves becomes the newest line of the history, the oldest
  lines are dropped when the history is full, and the history never exceeds its limit.\<close>

theorem grid_view_scroll_up:
  assumes "screen_ok t gd" "colour_ok bg" "bg \<noteq> 9" "rupper \<le> rlower" "rlower < g_sy gd"
    and "g_history gd" "0 < hlimit gd" "hsize gd \<le> hlimit gd"
  shows "\<exists>g dropped. grid_view_scroll_region_up now t gd rupper rlower bg = Some (g, t) \<and> grid_ok t g \<and>
    hsize g = hsize gd - dropped + 1 \<and> hsize g \<le> hlimit g \<and> hlimit g = hlimit gd \<and> g_sy g = g_sy gd \<and>
    (hsize gd < hlimit gd \<longrightarrow> dropped = 0) \<and>
    (\<forall>x < g_sx gd. (\<forall>y. screen t g x y = delete_rows rlower rupper 1 (Some (blank bg)) (screen t gd x) y) \<and>
       view t g x (hsize g - 1) = screen t gd x rupper \<and> (\<forall>k < hsize g - 1. view t g x k = view t gd x (k + dropped)))"
proof -
  let ?d = "collect_lines (hsize gd) (hlimit gd) False" and ?g = "grid_collect_history gd False"
  have ok: "grid_ok t gd" using assms(1) by (simp add: screen_ok_def)
  note c = collect_history_spec [OF ok, of False] and cs = collect_screen [OF ok]
  have "hsize gd - ?d + g_sy gd \<le> hsize gd + g_sy gd" by simp
  then have "hsize ?g + g_sy ?g < 4294967295" "rlower < g_sy ?g" using c(2,3) assms(1,5) by (auto simp: screen_ok_def)
  from scroll_one [OF c(1) this(1) assms(2-4) this(2), of now] obtain g where g:
    "(if rupper = 0 \<and> rlower = sub32 (g_sy ?g) 1 then grid_scroll_history now t ?g bg
      else grid_scroll_history_region now t ?g (grid_view_y ?g rupper) (grid_view_y ?g rlower) bg) = Some (g, t)"
    "grid_ok t g" "hsize g = hsize ?g + 1" "g_sy g = g_sy ?g" "hlimit g = hlimit ?g" "\<And>x. x < g_sx ?g \<Longrightarrow>
       (\<forall>y. screen t g x y = delete_rows rlower rupper 1 (Some (blank bg)) (screen t ?g x) y) \<and>
       view t g x (hsize ?g) = screen t ?g x rupper \<and> (\<forall>k < hsize ?g. view t g x k = view t ?g x k)" by blast
  have scr: "screen t ?g x = screen t gd x" for x using cs(1) by (simp add: fun_eq_iff)
  have up: "grid_view_scroll_region_up now t gd rupper rlower bg = Some (g, t)"
    unfolding grid_view_scroll_region_up_def Let_def using assms(6) g(1) by simp
  have size: "hsize g = hsize gd - ?d + 1" "g_sy g = g_sy gd" "hlimit g = hlimit gd" "hsize ?g = hsize g - 1"
    using g(3-5) c(2,3,5) by simp_all
  have limit: "hsize g \<le> hlimit g" using size cs(3) [OF assms(7,8)] by simp
  have kept: "hsize gd < hlimit gd \<longrightarrow> ?d = 0" by (simp add: collect_lines_def)
  have "(\<forall>y. screen t g x y = delete_rows rlower rupper 1 (Some (blank bg)) (screen t gd x) y) \<and>
      view t g x (hsize g - 1) = screen t gd x rupper \<and> (\<forall>k < hsize g - 1. view t g x k = view t gd x (k + ?d))"
    if "x < g_sx gd" for x
    using g(6) [of x] that c(4) c(7) unfolding scr size(4) by simp
  then show ?thesis using up g(2) size(1-3) limit kept by (intro exI [of _ g] exI [of _ ?d]) simp
qed

theorem grid_view_scroll_up_witness:
  "\<exists>g. grid_view_scroll_region_up 0 empty_table (grid_create 80 24 2000) 0 23 8 = Some (g, empty_table) \<and> hsize g = 1"
  using grid_view_scroll_up [of empty_table "grid_create 80 24 2000" 8 0 23 0] create_ok [of empty_table 80 24 2000]
  by (auto simp: screen_ok_def grid_create_def)

end
