(* ===== verification/Winlink.thy ===== *)
theory Winlink
  imports Rb_Tree "HOL-Library.Monad_Syntax"
begin

text \<open>
  The windows of a session (the \<open>winlink_*\<close> functions of \<open>window.rs\<close>): a tree of links ordered by
  index, and the stack of the windows that were current before.  The tree owns its links; a pointer
  to a link is the number \<open>wl_id\<close> that it got when it was allocated, so that a link whose index
  changes stays the same link and a pointer to a freed link is found nowhere.  A function that follows such a
  pointer returns \<open>None\<close>.  \<open>fatalx\<close> is \<open>None\<close> too.
\<close>

section \<open>Links and sessions\<close>

datatype winlink_flag = WINLINK_BELL | WINLINK_ACTIVITY | WINLINK_SILENCE | WINLINK_VISITED

definition WINLINK_ALERTFLAGS :: "winlink_flag set" where
  "WINLINK_ALERTFLAGS = {WINLINK_BELL, WINLINK_ACTIVITY, WINLINK_SILENCE}"

record winlink =
  wl_id :: nat
  wl_idx :: i32
  wl_window :: "nat option"
  wl_flags :: "winlink_flag set"

record session =
  s_curw :: "nat option"
  s_lastw :: "nat list"
  s_windows :: "winlink list"

section \<open>Lookups\<close>

definition winlink_find_by_window :: "winlink list \<Rightarrow> nat \<Rightarrow> winlink option" where
  "winlink_find_by_window wwl w = find (\<lambda>wl. wl_window wl = Some w) wwl"

text \<open>The outer option is \<open>fatalx\<close>.\<close>

definition winlink_find_by_index :: "winlink list \<Rightarrow> i32 \<Rightarrow> winlink option option" where
  "winlink_find_by_index wwl idx = (if idx < 0 then None else Some (rb_find_by wl_idx idx wwl))"

text \<open>The link that a pointer leads to.\<close>

definition wl_deref :: "winlink list \<Rightarrow> nat \<Rightarrow> winlink option" where
  "wl_deref wwl l = find (\<lambda>wl. wl_id wl = l) wwl"

definition wl_modify :: "nat \<Rightarrow> (winlink \<Rightarrow> winlink) \<Rightarrow> winlink list \<Rightarrow> winlink list" where
  "wl_modify l f wwl = map (\<lambda>wl. if wl_id wl = l then f wl else wl) wwl"

definition wl_delete :: "nat \<Rightarrow> winlink list \<Rightarrow> winlink list" where
  "wl_delete l wwl = filter (\<lambda>wl. wl_id wl \<noteq> l) wwl"

text \<open>The loop of \<open>winlink_next_index\<close>.  Its first lookup is fatal if \<open>idx\<close> is negative, so that the loop is
  entered only with \<open>i\<close> and \<open>idx\<close> in the range of the indexes.\<close>

function next_index_loop :: "winlink list \<Rightarrow> i32 \<Rightarrow> i32 \<Rightarrow> i32 option" where
  "next_index_loop wwl idx i =
     (if idx < 0 \<or> i32_MAX < idx \<or> i < 0 \<or> i32_MAX < i then None
      else case winlink_find_by_index wwl i of
        None \<Rightarrow> None
      | Some None \<Rightarrow> Some i
      | Some (Some _) \<Rightarrow>
          (let i' = (if i = i32_MAX then 0 else i + 1)
           in if i' = idx then Some (- 1) else next_index_loop wwl idx i'))"
  by pat_completeness auto

termination
  by (relation "measure (\<lambda>(wwl, idx, i). nat (if idx \<le> i then idx - i + 2147483648 else idx - i))")
    (auto simp: i32_MAX_def split: if_splits)

declare next_index_loop.simps [simp del]

definition winlink_next_index :: "winlink list \<Rightarrow> i32 \<Rightarrow> i32 option" where
  "winlink_next_index wwl idx = next_index_loop wwl idx idx"

definition winlink_count :: "winlink list \<Rightarrow> nat" where
  "winlink_count wwl = length wwl"

definition winlink_next :: "winlink list \<Rightarrow> nat \<Rightarrow> nat option" where
  "winlink_next wwl l = (case dropWhile (\<lambda>wl. wl_id wl \<noteq> l) wwl of _ # wl # _ \<Rightarrow> Some (wl_id wl) | _ \<Rightarrow> None)"

definition winlink_previous :: "winlink list \<Rightarrow> nat \<Rightarrow> nat option" where
  "winlink_previous wwl l = winlink_next (rev wwl) l"

definition wl_min :: "winlink list \<Rightarrow> nat option" where
  "wl_min wwl = (case wwl of [] \<Rightarrow> None | wl # _ \<Rightarrow> Some (wl_id wl))"

definition wl_max :: "winlink list \<Rightarrow> nat option" where
  "wl_max wwl = wl_min (rev wwl)"

text \<open>The target \<open>:+n\<close> and \<open>:-n\<close> of a command.  \<open>winlink_previous_by_number\<close> goes on at the lowest index when it
  runs off the lower end.\<close>

fun winlink_next_by_number :: "winlink list \<Rightarrow> nat option \<Rightarrow> nat \<Rightarrow> nat option" where
  "winlink_next_by_number wwl wl 0 = wl"
| "winlink_next_by_number wwl wl (Suc n) =
     (case wl of None \<Rightarrow> None
      | Some l \<Rightarrow> winlink_next_by_number wwl (case winlink_next wwl l of None \<Rightarrow> wl_min wwl | Some l' \<Rightarrow> Some l') n)"

fun winlink_previous_by_number :: "winlink list \<Rightarrow> nat option \<Rightarrow> nat \<Rightarrow> nat option" where
  "winlink_previous_by_number wwl wl 0 = wl"
| "winlink_previous_by_number wwl wl (Suc n) =
     (case wl of None \<Rightarrow> None
      | Some l \<Rightarrow> winlink_previous_by_number wwl (case winlink_previous wwl l of None \<Rightarrow> wl_min wwl | Some l' \<Rightarrow> Some l') n)"

section \<open>Insertion\<close>

text \<open>\<open>n\<close> is the number of the new link.  The outer option is \<open>fatalx\<close>, the inner one the null pointer that
  says that the index is in use.\<close>

definition winlink_add :: "nat \<Rightarrow> winlink list \<Rightarrow> i32 \<Rightarrow> winlink list option option" where
  "winlink_add n wwl idx = do {
     free \<leftarrow> (if idx < 0 then do {
                i \<leftarrow> winlink_next_index wwl (i32 (i32 (- idx) - 1));
                Some (if i = - 1 then None else Some i) }
              else do {
                found \<leftarrow> winlink_find_by_index wwl idx;
                Some (if found \<noteq> None then None else Some idx) });
     Some (case free of
        None \<Rightarrow> None
      | Some i \<Rightarrow> Some (rb_insert wl_idx \<lparr>wl_id = n, wl_idx = i, wl_window = None, wl_flags = {}\<rparr> wwl)) }"

section \<open>The stack of last windows\<close>

definition winlink_stack_remove :: "nat option \<Rightarrow> session \<Rightarrow> session option" where
  "winlink_stack_remove wl s = (case wl of None \<Rightarrow> Some s
     | Some l \<Rightarrow> do {
         x \<leftarrow> wl_deref (s_windows s) l;
         Some (if WINLINK_VISITED \<in> wl_flags x
               then s\<lparr>s_lastw := remove1 l (s_lastw s),
                      s_windows := wl_modify l (\<lambda>x. x\<lparr>wl_flags := wl_flags x - {WINLINK_VISITED}\<rparr>) (s_windows s)\<rparr>
               else s) })"

definition winlink_stack_push :: "nat option \<Rightarrow> session \<Rightarrow> session option" where
  "winlink_stack_push wl s = (case wl of None \<Rightarrow> Some s
     | Some l \<Rightarrow> do {
         s1 \<leftarrow> winlink_stack_remove wl s;
         Some (s1\<lparr>s_lastw := l # s_lastw s1,
                  s_windows := wl_modify l (\<lambda>x. x\<lparr>wl_flags := insert WINLINK_VISITED (wl_flags x)\<rparr>) (s_windows s1)\<rparr>) })"

section \<open>Making room\<close>

text \<open>The search of \<open>winlink_shuffle_up\<close> for a free index: the loop variable stays at the last index it looked at.\<close>

function shuffle_search :: "winlink list \<Rightarrow> i32 \<Rightarrow> i32 \<Rightarrow> i32 option" where
  "shuffle_search wwl i final =
     (if i32_MAX \<le> i then Some final
      else do {
        found \<leftarrow> winlink_find_by_index wwl i;
        if found = None then Some i else shuffle_search wwl (i + 1) i })"
  by pat_completeness auto

termination by (relation "measure (\<lambda>(wwl, i, final). nat (i32_MAX - i))") (auto simp: i32_MAX_def)

declare shuffle_search.simps [simp del]

text \<open>The loop that moves the links; it takes the link in front of \<open>last\<close> out of the tree and puts it back with
  the next index.\<close>

function shuffle_move :: "i32 \<Rightarrow> i32 \<Rightarrow> winlink list \<Rightarrow> winlink list option" where
  "shuffle_move idx final wwl =
     (if final \<le> idx then Some wwl
      else do {
        found \<leftarrow> winlink_find_by_index wwl (final - 1);
        x \<leftarrow> found;
        shuffle_move idx (final - 1) (rb_insert wl_idx (x\<lparr>wl_idx := i32 (wl_idx x + 1)\<rparr>) (wl_delete (wl_id x) wwl)) })"
  by pat_completeness auto

termination by (relation "measure (\<lambda>(idx, final, wwl). nat (final - idx))") auto

declare shuffle_move.simps [simp del]

definition winlink_shuffle_up :: "nat option \<Rightarrow> bool \<Rightarrow> session \<Rightarrow> (i32 \<times> session) option" where
  "winlink_shuffle_up wl before s = (case wl of None \<Rightarrow> Some (- 1, s)
     | Some l \<Rightarrow> do {
         x \<leftarrow> wl_deref (s_windows s) l;
         let idx = (if before then wl_idx x else i32 (wl_idx x + 1));
         final \<leftarrow> shuffle_search (s_windows s) idx idx;
         if final = i32_MAX then Some (- 1, s)
         else do {
           wwl \<leftarrow> shuffle_move idx final (s_windows s);
           Some (idx, s\<lparr>s_windows := wwl\<rparr>) } })"

section \<open>Trees of links\<close>

definition links_ok :: "winlink list \<Rightarrow> bool" where
  "links_ok wwl \<longleftrightarrow> ordered wl_idx wwl \<and> distinct (map wl_id wwl) \<and> (\<forall>wl \<in> set wwl. 0 \<le> wl_idx wl \<and> wl_idx wl \<le> i32_MAX)"

lemma links_okD:
  assumes "links_ok wwl"
  shows "ordered wl_idx wwl" "distinct (map wl_id wwl)" "wl \<in> set wwl \<Longrightarrow> 0 \<le> wl_idx wl" "wl \<in> set wwl \<Longrightarrow> wl_idx wl \<le> i32_MAX"
  using assms by (auto simp: links_ok_def)

lemma find_by_index_Some:
  "links_ok wwl \<Longrightarrow> winlink_find_by_index wwl idx = Some (Some wl) \<longleftrightarrow> wl \<in> set wwl \<and> wl_idx wl = idx"
  using rb_find_Some [of wl_idx wwl idx wl] by (auto simp: winlink_find_by_index_def links_ok_def)

lemma find_by_index_None:
  "winlink_find_by_index wwl idx = Some None \<longleftrightarrow> 0 \<le> idx \<and> idx \<notin> wl_idx ` set wwl"
  by (auto simp: winlink_find_by_index_def rb_find_None)

lemma find_by_index_cases:
  "0 \<le> idx \<Longrightarrow> \<exists>r. winlink_find_by_index wwl idx = Some r"
  by (simp add: winlink_find_by_index_def)

lemma wl_deref_Some:
  "distinct (map wl_id wwl) \<Longrightarrow> wl_deref wwl l = Some wl \<longleftrightarrow> wl \<in> set wwl \<and> wl_id wl = l"
proof (induction wwl)
  case (Cons x wwl)
  then show ?case by (auto simp: wl_deref_def intro: rev_image_eqI)
qed (simp add: wl_deref_def)

lemma wl_deref_exists: "distinct (map wl_id wwl) \<Longrightarrow> l \<in> wl_id ` set wwl \<Longrightarrow> \<exists>wl. wl_deref wwl l = Some wl \<and> wl \<in> set wwl \<and> wl_id wl = l"
  using wl_deref_Some by (metis imageE)

lemma wl_deref_id: "wl_deref wwl l = Some wl \<Longrightarrow> wl \<in> set wwl \<and> wl_id wl = l"
  unfolding wl_deref_def by (rule find_SomeD)

lemma wl_modify_map:
  "(\<And>x. g (f x) = g x) \<Longrightarrow> map g (wl_modify l f wwl) = map g wwl"
  by (induction wwl) (simp_all add: wl_modify_def)

lemma wl_modify_wl_modify: "(\<And>x. wl_id (g x) = wl_id x) \<Longrightarrow> wl_modify l f (wl_modify l g wwl) = wl_modify l (f \<circ> g) wwl"
  by (induction wwl) (simp_all add: wl_modify_def)

lemma wl_modify_id: "(\<And>x. x \<in> set wwl \<Longrightarrow> wl_id x = l \<Longrightarrow> f x = x) \<Longrightarrow> wl_modify l f wwl = wwl"
  by (induction wwl) (simp_all add: wl_modify_def)

lemma wl_deref_modify:
  "(\<And>x. wl_id (f x) = wl_id x) \<Longrightarrow> wl_deref (wl_modify l f wwl) l' = map_option (\<lambda>x. if l' = l then f x else x) (wl_deref wwl l')"
  by (induction wwl) (auto simp: wl_modify_def wl_deref_def)

lemma links_ok_maps:
  "map wl_id wwl = map wl_id wwl' \<Longrightarrow> map wl_idx wwl = map wl_idx wwl' \<Longrightarrow> links_ok wwl \<Longrightarrow> links_ok wwl'"
proof -
  assume m: "map wl_id wwl = map wl_id wwl'" "map wl_idx wwl = map wl_idx wwl'" and ok: "links_ok wwl"
  have "sorted_wrt (<) (map wl_idx wwl')" using ok unfolding m(2) [symmetric] by (simp add: links_ok_def sorted_wrt_map)
  moreover have "\<forall>i \<in> set (map wl_idx wwl'). 0 \<le> i \<and> i \<le> i32_MAX" using ok unfolding m(2) [symmetric] by (simp add: links_ok_def)
  ultimately show ?thesis using ok m(1) by (simp add: links_ok_def sorted_wrt_map)
qed

lemma links_ok_insert:
  assumes "links_ok wwl" "wl_idx x \<notin> wl_idx ` set wwl" "wl_id x \<notin> wl_id ` set wwl" "0 \<le> wl_idx x" "wl_idx x \<le> i32_MAX"
  shows "links_ok (rb_insert wl_idx x wwl)" "set (rb_insert wl_idx x wwl) = insert x (set wwl)"
    "length (rb_insert wl_idx x wwl) = Suc (length wwl)"
proof -
  show s: "set (rb_insert wl_idx x wwl) = insert x (set wwl)" using assms(2) by (rule set_rb_insert)
  show "length (rb_insert wl_idx x wwl) = Suc (length wwl)" using assms(2) by (simp add: rb_insert_def)
  have "distinct (map wl_id (insort_key wl_idx x wwl))"
    using links_okD(2) [OF assms(1)] assms(3) by (induction wwl) (auto simp: set_insort_key)
  then show "links_ok (rb_insert wl_idx x wwl)"
    using assms s rb_insert_sorted [OF links_okD(1) [OF assms(1)], of x] by (auto simp: links_ok_def rb_insert_def)
qed

lemma links_ok_delete: "links_ok wwl \<Longrightarrow> links_ok (wl_delete l wwl)"
  by (auto simp: links_ok_def wl_delete_def sorted_wrt_filter distinct_map_filter)

section \<open>Free indexes\<close>

definition indexes :: "winlink list \<Rightarrow> int set" where
  "indexes wwl = wl_idx ` set wwl"

text \<open>The indexes from \<open>idx\<close> up to \<open>i\<close>, going on at 0 after the largest one.\<close>

definition passed :: "int \<Rightarrow> int \<Rightarrow> int set" where
  "passed idx i = {j. 0 \<le> j \<and> j \<le> i32_MAX \<and> (if idx \<le> i then idx \<le> j \<and> j < i else idx \<le> j \<or> j < i)}"

lemma passed_next:
  assumes "0 \<le> idx" "idx \<le> i32_MAX" "0 \<le> i" "i \<le> i32_MAX"
  defines "i' \<equiv> (if i = i32_MAX then 0 else i + 1)"
  shows "i' \<noteq> idx \<Longrightarrow> passed idx i' \<subseteq> insert i (passed idx i)" "i' = idx \<Longrightarrow> {0..i32_MAX} \<subseteq> insert i (passed idx i)"
  using assms(1-4) by (auto simp: passed_def i'_def split: if_splits)

lemma next_index_loop_result:
  assumes "0 \<le> idx" "idx \<le> i32_MAX" "0 \<le> i" "i \<le> i32_MAX" "passed idx i \<subseteq> indexes wwl"
  shows "\<exists>j. next_index_loop wwl idx i = Some j \<and> (if j = - 1 then {0..i32_MAX} \<subseteq> indexes wwl
    else 0 \<le> j \<and> j \<le> i32_MAX \<and> j \<notin> indexes wwl \<and> passed idx j \<subseteq> indexes wwl)"
  using assms
proof (induction wwl idx i rule: next_index_loop.induct)
  case (1 wwl idx i)
  obtain r where r: "winlink_find_by_index wwl i = Some r" using find_by_index_cases [OF 1(4)] by blast
  show ?case
  proof (cases r)
    case None
    then have "i \<notin> indexes wwl" using r find_by_index_None [of wwl i] by (simp add: indexes_def)
    moreover have "next_index_loop wwl idx i = Some i" using 1(2-5) r None by (simp add: next_index_loop.simps [of wwl idx i])
    ultimately show ?thesis using 1(2-6) by auto
  next
    case (Some wl)
    then have used: "insert i (passed idx i) \<subseteq> indexes wwl" using r find_by_index_None [of wwl i] 1(4,6) by (auto simp: indexes_def)
    define i' where "i' = (if i = i32_MAX then 0 else i + 1)"
    have eq: "next_index_loop wwl idx i = (if i' = idx then Some (- 1) else next_index_loop wwl idx i')"
      using 1(2-5) r Some by (simp add: next_index_loop.simps [of wwl idx i] i'_def)
    have i': "0 \<le> i'" "i' \<le> i32_MAX" using 1(4,5) by (auto simp: i'_def i32_MAX_def)
    show ?thesis
    proof (cases "i' = idx")
      case True
      then have "{0..i32_MAX} \<subseteq> indexes wwl"
        using order_trans [OF passed_next(2) [OF 1(2-5)] used] by (simp add: i'_def)
      then show ?thesis using eq True by simp
    next
      case False
      then have "passed idx i' \<subseteq> indexes wwl"
        using order_trans [OF passed_next(1) [OF 1(2-5)] used] by (simp add: i'_def)
      then show ?thesis using 1(1) [of r wl i'] 1(2-5) r Some False i' eq by (simp add: i'_def)
    qed
  qed
qed

lemma index_pigeonhole: "{0..i32_MAX} \<subseteq> indexes wwl \<Longrightarrow> i32_MAX < int (length wwl)"
proof -
  assume "{0..i32_MAX} \<subseteq> indexes wwl"
  then have "card {0..i32_MAX} \<le> card (indexes wwl)" by (intro card_mono) (simp_all add: indexes_def)
  also have "\<dots> \<le> length wwl" unfolding indexes_def by (metis card_length list.set_map length_map)
  finally show ?thesis by (simp add: i32_MAX_def)
qed

text \<open>The search for a free index ends, and finds one unless every index is in use.\<close>

lemma winlink_next_index_free:
  assumes "0 \<le> idx" "idx \<le> i32_MAX" "int (length wwl) \<le> i32_MAX"
  shows "\<exists>j. winlink_next_index wwl idx = Some j \<and> 0 \<le> j \<and> j \<le> i32_MAX \<and> j \<notin> indexes wwl \<and> passed idx j \<subseteq> indexes wwl"
proof -
  have "passed idx idx = {}" by (auto simp: passed_def)
  with next_index_loop_result [of idx idx wwl] assms(1,2) obtain j where j: "next_index_loop wwl idx idx = Some j"
    "if j = - 1 then {0..i32_MAX} \<subseteq> indexes wwl else 0 \<le> j \<and> j \<le> i32_MAX \<and> j \<notin> indexes wwl \<and> passed idx j \<subseteq> indexes wwl" by auto
  moreover have "j \<noteq> - 1" using j(2) index_pigeonhole [of wwl] assms(3) by auto
  ultimately show ?thesis by (simp add: winlink_next_index_def)
qed

section \<open>Sessions\<close>

text \<open>The links of a well-formed session; the links on the stack of last windows are the visited ones.\<close>

abbreviation ids :: "winlink list \<Rightarrow> nat set" where
  "ids wwl \<equiv> wl_id ` set wwl"

definition stack_ok :: "session \<Rightarrow> bool" where
  "stack_ok s \<longleftrightarrow> links_ok (s_windows s) \<and> distinct (s_lastw s) \<and> set (s_lastw s) \<subseteq> ids (s_windows s) \<and>
     (\<forall>x \<in> set (s_windows s). WINLINK_VISITED \<in> wl_flags x \<longleftrightarrow> wl_id x \<in> set (s_lastw s))"

definition session_ok :: "session \<Rightarrow> bool" where
  "session_ok s \<longleftrightarrow> stack_ok s \<and> (\<forall>c. s_curw s = Some c \<longrightarrow> c \<in> ids (s_windows s) \<and> c \<notin> set (s_lastw s))"

lemma session_okD:
  assumes "session_ok s"
  shows "stack_ok s" "links_ok (s_windows s)" "distinct (map wl_id (s_windows s))" "distinct (s_lastw s)"
    "set (s_lastw s) \<subseteq> ids (s_windows s)" "s_curw s = Some c \<Longrightarrow> c \<in> ids (s_windows s)" "s_curw s = Some c \<Longrightarrow> c \<notin> set (s_lastw s)"
  using assms by (simp_all add: session_ok_def stack_ok_def links_ok_def)

text \<open>What is left of a link when the mark of the stack is taken away.\<close>

definition row :: "winlink \<Rightarrow> nat \<times> i32 \<times> nat option \<times> winlink_flag set" where
  "row x = (wl_id x, wl_idx x, wl_window x, wl_flags x - {WINLINK_VISITED})"

lemma map_row:
  assumes "map row xs = map row ys"
  shows "map wl_id xs = map wl_id ys" "map wl_idx xs = map wl_idx ys" "map wl_window xs = map wl_window ys" "ids xs = ids ys"
proof -
  note cong = arg_cong [OF assms, of "map g" for g]
  show i: "map wl_id xs = map wl_id ys" using cong [of fst] by (simp add: row_def comp_def)
  show "map wl_idx xs = map wl_idx ys" using cong [of "\<lambda>r. fst (snd r)"] by (simp add: row_def comp_def)
  show "map wl_window xs = map wl_window ys" using cong [of "\<lambda>r. fst (snd (snd r))"] by (simp add: row_def comp_def)
  show "ids xs = ids ys" using arg_cong [OF i, of set] by simp
qed

lemma set_wl_modify: "set (wl_modify l f wwl) = (\<lambda>x. if wl_id x = l then f x else x) ` set wwl"
  by (simp add: wl_modify_def)

lemma links_ok_modify: "(\<And>x. wl_id (f x) = wl_id x) \<Longrightarrow> (\<And>x. wl_idx (f x) = wl_idx x) \<Longrightarrow> links_ok (wl_modify l f wwl) = links_ok wwl"
  using links_ok_maps [of wwl "wl_modify l f wwl"] links_ok_maps [of "wl_modify l f wwl" wwl]
    wl_modify_map [of wl_id f l wwl] wl_modify_map [of wl_idx f l wwl] by auto

lemma ids_modify: "(\<And>x. wl_id (f x) = wl_id x) \<Longrightarrow> ids (wl_modify l f wwl) = ids wwl"
  using wl_modify_map [of wl_id f l wwl] by (metis list.set_map)

lemma stack_ok_modify:
  assumes "links_ok wwl" "\<And>x. wl_id (f x) = wl_id x" "\<And>x. wl_idx (f x) = wl_idx x" "distinct stk" "set stk \<subseteq> ids wwl"
    and "\<And>x. x \<in> set wwl \<Longrightarrow> wl_id x = l \<Longrightarrow> WINLINK_VISITED \<in> wl_flags (f x) \<longleftrightarrow> l \<in> set stk"
    and "\<And>x. x \<in> set wwl \<Longrightarrow> wl_id x \<noteq> l \<Longrightarrow> WINLINK_VISITED \<in> wl_flags x \<longleftrightarrow> wl_id x \<in> set stk"
  shows "stack_ok (s\<lparr>s_lastw := stk, s_windows := wl_modify l f wwl\<rparr>)"
proof -
  have "\<forall>x \<in> set (wl_modify l f wwl). WINLINK_VISITED \<in> wl_flags x \<longleftrightarrow> wl_id x \<in> set stk"
    using assms(2,6,7) by (auto simp: set_wl_modify)
  then show ?thesis using assms(1,4,5) ids_modify [of f l wwl, OF assms(2)] links_ok_modify [of f l wwl, OF assms(2,3)]
    by (simp add: stack_ok_def)
qed

lemma stack_remove:
  assumes "stack_ok s" "l \<in> ids (s_windows s)"
  shows "\<exists>s'. winlink_stack_remove (Some l) s = Some s' \<and> s_lastw s' = remove1 l (s_lastw s) \<and> s_curw s' = s_curw s \<and>
    map row (s_windows s') = map row (s_windows s) \<and> stack_ok s'"
proof -
  have ok: "links_ok (s_windows s)" "distinct (map wl_id (s_windows s))" using assms(1) by (auto simp: stack_ok_def links_ok_def)
  obtain x where x: "wl_deref (s_windows s) l = Some x" "x \<in> set (s_windows s)" "wl_id x = l" using wl_deref_exists [OF ok(2) assms(2)] by blast
  show ?thesis
  proof (cases "WINLINK_VISITED \<in> wl_flags x")
    case True
    let ?f = "\<lambda>x. x\<lparr>wl_flags := wl_flags x - {WINLINK_VISITED}\<rparr>"
    have "map row (wl_modify l ?f (s_windows s)) = map row (s_windows s)" by (rule wl_modify_map) (simp add: row_def)
    moreover have "stack_ok (s\<lparr>s_lastw := remove1 l (s_lastw s), s_windows := wl_modify l ?f (s_windows s)\<rparr>)"
    proof (rule stack_ok_modify [OF ok(1)])
      show "set (remove1 l (s_lastw s)) \<subseteq> ids (s_windows s)" "distinct (remove1 l (s_lastw s))"
        using assms(1) set_remove1_subset [of l "s_lastw s"] by (auto simp: stack_ok_def)
    qed (use assms(1) in \<open>auto simp: stack_ok_def\<close>)
    ultimately show ?thesis using x True by (simp add: winlink_stack_remove_def)
  next
    case False
    then have "l \<notin> set (s_lastw s)" using assms(1) x by (auto simp: stack_ok_def)
    then show ?thesis using x False assms(1) by (simp add: winlink_stack_remove_def remove1_idem)
  qed
qed

lemma stack_push:
  assumes "stack_ok s" "l \<in> ids (s_windows s)" "l \<notin> set (s_lastw s)"
  shows "\<exists>s'. winlink_stack_push (Some l) s = Some s' \<and> s_lastw s' = l # s_lastw s \<and> s_curw s' = s_curw s \<and>
    map row (s_windows s') = map row (s_windows s) \<and> stack_ok s'"
proof -
  let ?f = "\<lambda>x. x\<lparr>wl_flags := insert WINLINK_VISITED (wl_flags x)\<rparr>"
  obtain s1 where s1: "winlink_stack_remove (Some l) s = Some s1" "s_lastw s1 = s_lastw s" "s_curw s1 = s_curw s"
    "map row (s_windows s1) = map row (s_windows s)" "stack_ok s1"
    using stack_remove [OF assms(1,2)] assms(3) by (auto simp: remove1_idem)
  have "map row (wl_modify l ?f (s_windows s1)) = map row (s_windows s1)" by (rule wl_modify_map) (simp add: row_def)
  moreover have "stack_ok (s1\<lparr>s_lastw := l # s_lastw s1, s_windows := wl_modify l ?f (s_windows s1)\<rparr>)"
  proof (rule stack_ok_modify)
    show "set (l # s_lastw s1) \<subseteq> ids (s_windows s1)" "distinct (l # s_lastw s1)"
      using s1(5) map_row(4) [OF s1(4)] s1(2) assms(2,3) by (simp_all add: stack_ok_def)
  qed (use s1(5) in \<open>simp_all add: stack_ok_def\<close>)
  ultimately show ?thesis using s1 by (simp add: winlink_stack_push_def)
qed

text \<open>The stack operations of \<open>session_set_current\<close>.\<close>

lemma stack_change:
  assumes "session_ok s" "l \<in> ids (s_windows s)" "s_curw s \<noteq> Some l"
  shows "\<exists>s'. (do { s1 \<leftarrow> winlink_stack_remove (Some l) s; winlink_stack_push (s_curw s1) s1 }) = Some s' \<and>
    s_lastw s' = (case s_curw s of None \<Rightarrow> remove1 l (s_lastw s) | Some c \<Rightarrow> c # remove1 l (s_lastw s)) \<and>
    map row (s_windows s') = map row (s_windows s) \<and> session_ok (s'\<lparr>s_curw := Some l\<rparr>)"
proof -
  from stack_remove [OF session_okD(1) [OF assms(1)] assms(2)] obtain s1 where s1: "winlink_stack_remove (Some l) s = Some s1"
    "s_lastw s1 = remove1 l (s_lastw s)" "s_curw s1 = s_curw s" "map row (s_windows s1) = map row (s_windows s)" "stack_ok s1" by blast
  have l: "l \<notin> set (remove1 l (s_lastw s))" using session_okD(4) [OF assms(1)] by simp
  have fin: "session_ok (s'\<lparr>s_curw := Some l\<rparr>)" if "stack_ok s'" "l \<notin> set (s_lastw s')" "map row (s_windows s') = map row (s_windows s)" for s'
    using that(1,2) assms(2) map_row(4) [OF that(3)] by (simp add: session_ok_def stack_ok_def)
  show ?thesis
  proof (cases "s_curw s")
    case None
    then show ?thesis using s1 fin [of s1] l by (simp add: winlink_stack_push_def)
  next
    case (Some c)
    have "c \<in> ids (s_windows s1)" "c \<notin> set (s_lastw s1)"
      using session_okD(6,7) [OF assms(1) Some] map_row(4) [OF s1(4)] s1(2) by (auto dest: notin_set_remove1)
    from stack_push [OF s1(5) this] obtain s2 where s2: "winlink_stack_push (Some c) s1 = Some s2" "s_lastw s2 = c # s_lastw s1"
      "map row (s_windows s2) = map row (s_windows s1)" "stack_ok s2" by blast
    then show ?thesis using s1 Some fin [of s2] l assms(3) by simp
  qed
qed

end
