(* ===== verification/Session.thy ===== *)
theory Session
  imports Winlink "HOL-Library.List_Lexorder" "HOL-Library.Char_ord"
begin

text \<open>
  Sessions, session groups and the windows that sessions share (\<open>session.rs\<close>, the reference counts of
  \<open>window.rs\<close>, the operations of \<open>server_fn.rs\<close> and \<open>spawn.rs\<close> on links).  Sessions and windows are found through
  their addresses; a window that nothing refers to is freed.  A function that uses a freed or null pointer, or puts
  an element twice on a list, returns \<open>None\<close>.

  \<open>notify_session_window\<close> queues a notification that holds the window until it has run.  Redraws, the sizes of
  windows, the clients of a session and the memory of sessions are left out.
\<close>

section \<open>State\<close>

datatype window_alert = WINDOW_BELL | WINDOW_ACTIVITY | WINDOW_SILENCE

record linked_window =
  w_references :: nat
  w_winlinks :: "(nat \<times> nat) list"
  w_alerts :: "window_alert set"

record session_group =
  sg_name :: string
  sg_sessions :: "nat list"

record notify_entry =
  ne_name :: string
  ne_session :: nat
  ne_window :: nat

record server =
  sv_heap :: "nat \<Rightarrow> session option"
  sv_wins :: "nat \<Rightarrow> linked_window option"
  SESSIONS :: "nat list"
  SESSION_GROUPS :: "session_group list"
  sv_notes :: "notify_entry list"
  sv_nohooks :: bool
  sv_next :: nat
  MARKED_PANE :: "(nat \<times> nat) option"

text \<open>A loop over a list; the first failure ends it.\<close>

fun each :: "('a \<Rightarrow> 's \<Rightarrow> 's option) \<Rightarrow> 'a list \<Rightarrow> 's \<Rightarrow> 's option" where
  "each f [] S = Some S"
| "each f (x # xs) S = do { S1 \<leftarrow> f x S; each f xs S1 }"

definition put_session :: "nat \<Rightarrow> session \<Rightarrow> server \<Rightarrow> server" where
  "put_session sid s S = S\<lparr>sv_heap := (sv_heap S)(sid \<mapsto> s)\<rparr>"

definition put_window :: "nat \<Rightarrow> linked_window \<Rightarrow> server \<Rightarrow> server" where
  "put_window w x S = S\<lparr>sv_wins := (sv_wins S)(w \<mapsto> x)\<rparr>"

text \<open>An assignment to a field of a link through a pointer.\<close>

definition link_modify :: "nat \<Rightarrow> nat \<Rightarrow> (winlink \<Rightarrow> winlink) \<Rightarrow> server \<Rightarrow> server option" where
  "link_modify sid l f S = do {
     s \<leftarrow> sv_heap S sid;
     x \<leftarrow> wl_deref (s_windows s) l;
     Some (put_session sid (s\<lparr>s_windows := wl_modify l f (s_windows s)\<rparr>) S) }"

section \<open>References to windows\<close>

definition window_add_ref :: "nat \<Rightarrow> server \<Rightarrow> server option" where
  "window_add_ref w S = do {
     x \<leftarrow> sv_wins S w;
     Some (put_window w (x\<lparr>w_references := w_references x + 1\<rparr>) S) }"

definition window_destroy :: "nat \<Rightarrow> server \<Rightarrow> server" where
  "window_destroy w S = S\<lparr>sv_wins := (sv_wins S)(w := None)\<rparr>"

definition window_remove_ref :: "nat \<Rightarrow> server \<Rightarrow> server option" where
  "window_remove_ref w S = do {
     x \<leftarrow> sv_wins S w;
     if w_references x = 0 then None
     else if w_references x = 1 then Some (window_destroy w S)
     else Some (put_window w (x\<lparr>w_references := w_references x - 1\<rparr>) S) }"

definition window_create :: "nat \<Rightarrow> server \<Rightarrow> server" where
  "window_create w S = put_window w \<lparr>w_references = 0, w_winlinks = [], w_alerts = {}\<rparr> S"

text \<open>The notification holds the window; \<open>notify_callback\<close> lets it go when it runs.\<close>

definition notify_session_window :: "string \<Rightarrow> nat \<Rightarrow> nat \<Rightarrow> server \<Rightarrow> server option" where
  "notify_session_window name sid w S =
     (if sv_nohooks S then Some S
      else do {
        S1 \<leftarrow> window_add_ref w S;
        Some (S1\<lparr>sv_notes := sv_notes S1 @ [\<lparr>ne_name = name, ne_session = sid, ne_window = w\<rparr>]\<rparr>) })"

definition notify_callback :: "server \<Rightarrow> server option" where
  "notify_callback S = (case sv_notes S of [] \<Rightarrow> Some S
     | ne # nes \<Rightarrow> window_remove_ref (ne_window ne) (S\<lparr>sv_notes := nes\<rparr>))"

section \<open>Links and windows\<close>

definition winlink_release :: "nat \<Rightarrow> winlink \<Rightarrow> server \<Rightarrow> server option" where
  "winlink_release sid wl S = (case wl_window wl of None \<Rightarrow> Some S
     | Some w \<Rightarrow> do {
         x \<leftarrow> sv_wins S w;
         window_remove_ref w (put_window w (x\<lparr>w_winlinks := remove1 (sid, wl_id wl) (w_winlinks x)\<rparr>) S) })"

definition winlink_set_window :: "nat \<Rightarrow> nat \<Rightarrow> nat \<Rightarrow> server \<Rightarrow> server option" where
  "winlink_set_window sid l w S = do {
     s \<leftarrow> sv_heap S sid;
     wl \<leftarrow> wl_deref (s_windows s) l;
     S1 \<leftarrow> winlink_release sid wl S;
     x \<leftarrow> sv_wins S1 w;
     S2 \<leftarrow> link_modify sid l (\<lambda>wl. wl\<lparr>wl_window := Some w\<rparr>) (put_window w (x\<lparr>w_winlinks := w_winlinks x @ [(sid, l)]\<rparr>) S1);
     window_add_ref w S2 }"

definition winlink_remove :: "nat \<Rightarrow> nat \<Rightarrow> server \<Rightarrow> server option" where
  "winlink_remove sid l S = do {
     s \<leftarrow> sv_heap S sid;
     wl \<leftarrow> wl_deref (s_windows s) l;
     S1 \<leftarrow> winlink_release sid wl S;
     Some (put_session sid (s\<lparr>s_windows := wl_delete l (s_windows s)\<rparr>) S1) }"

definition clear_link :: "nat \<times> nat \<Rightarrow> server \<Rightarrow> server option" where
  "clear_link p S = link_modify (fst p) (snd p) (\<lambda>x. x\<lparr>wl_flags := wl_flags x - WINLINK_ALERTFLAGS\<rparr>) S"

definition winlink_clear_flags :: "nat \<Rightarrow> nat \<Rightarrow> server \<Rightarrow> server option" where
  "winlink_clear_flags sid l S = do {
     s \<leftarrow> sv_heap S sid;
     wl \<leftarrow> wl_deref (s_windows s) l;
     w \<leftarrow> wl_window wl;
     x \<leftarrow> sv_wins S w;
     each clear_link (w_winlinks x) (put_window w (x\<lparr>w_alerts := {}\<rparr>) S) }"

section \<open>The current window\<close>

text \<open>The result is 0 if the window changed, 1 if it was current before and - 1 if there is none.\<close>

definition session_set_current :: "nat \<Rightarrow> nat option \<Rightarrow> server \<Rightarrow> (i32 \<times> server) option" where
  "session_set_current sid wl S = (case wl of None \<Rightarrow> Some (- 1, S)
     | Some l \<Rightarrow> do {
         s \<leftarrow> sv_heap S sid;
         if s_curw s = Some l then Some (1, S)
         else do {
           s1 \<leftarrow> winlink_stack_remove wl s;
           s2 \<leftarrow> winlink_stack_push (s_curw s1) s1;
           S1 \<leftarrow> winlink_clear_flags sid l (put_session sid (s2\<lparr>s_curw := wl\<rparr>) S);
           Some (0, S1) } })"

definition session_next_alert :: "winlink list \<Rightarrow> nat option \<Rightarrow> nat option" where
  "session_next_alert wwl wl = (case wl of None \<Rightarrow> None
     | Some l \<Rightarrow> map_option wl_id (find (\<lambda>x. wl_flags x \<inter> WINLINK_ALERTFLAGS \<noteq> {}) (dropWhile (\<lambda>x. wl_id x \<noteq> l) wwl)))"

definition session_previous_alert :: "winlink list \<Rightarrow> nat option \<Rightarrow> nat option" where
  "session_previous_alert wwl wl = session_next_alert (rev wwl) wl"

text \<open>The link that \<open>session_next\<close> goes to.\<close>

definition next_target :: "winlink list \<Rightarrow> nat \<Rightarrow> bool \<Rightarrow> nat option" where
  "next_target wwl c alert =
     (let wl = winlink_next wwl c;
          wl1 = (if alert then session_next_alert wwl wl else wl)
      in if wl1 \<noteq> None then wl1
         else if alert then session_next_alert wwl (wl_min wwl) else wl_min wwl)"

definition session_next :: "nat \<Rightarrow> bool \<Rightarrow> server \<Rightarrow> (i32 \<times> server) option" where
  "session_next sid alert S = do {
     s \<leftarrow> sv_heap S sid;
     case s_curw s of None \<Rightarrow> Some (- 1, S)
     | Some c \<Rightarrow> do {
         x \<leftarrow> wl_deref (s_windows s) c;
         session_set_current sid (next_target (s_windows s) c alert) S } }"

definition previous_target :: "winlink list \<Rightarrow> nat \<Rightarrow> bool \<Rightarrow> nat option" where
  "previous_target wwl c alert =
     (let wl = winlink_previous wwl c;
          wl1 = (if alert then session_previous_alert wwl wl else wl)
      in if wl1 \<noteq> None then wl1
         else if alert then session_previous_alert wwl (wl_max wwl) else wl_max wwl)"

definition session_previous :: "nat \<Rightarrow> bool \<Rightarrow> server \<Rightarrow> (i32 \<times> server) option" where
  "session_previous sid alert S = do {
     s \<leftarrow> sv_heap S sid;
     case s_curw s of None \<Rightarrow> Some (- 1, S)
     | Some c \<Rightarrow> do {
         x \<leftarrow> wl_deref (s_windows s) c;
         session_set_current sid (previous_target (s_windows s) c alert) S } }"

definition session_select :: "nat \<Rightarrow> i32 \<Rightarrow> server \<Rightarrow> (i32 \<times> server) option" where
  "session_select sid idx S = do {
     s \<leftarrow> sv_heap S sid;
     found \<leftarrow> winlink_find_by_index (s_windows s) idx;
     session_set_current sid (map_option wl_id found) S }"

definition session_last :: "nat \<Rightarrow> server \<Rightarrow> (i32 \<times> server) option" where
  "session_last sid S = do {
     s \<leftarrow> sv_heap S sid;
     case s_lastw s of [] \<Rightarrow> Some (- 1, S)
     | l # _ \<Rightarrow> if s_curw s = Some l then Some (1, S) else session_set_current sid (Some l) S }"

text \<open>What \<open>session_detach\<close> and \<open>session_group_synchronize1\<close> do to leave the current window.\<close>

definition leave_current :: "nat \<Rightarrow> server \<Rightarrow> server option" where
  "leave_current sid S = do {
     (r, S1) \<leftarrow> session_last sid S;
     if r = 0 then Some S1
     else do {
       (r, S2) \<leftarrow> session_previous sid False S1;
       if r = 0 then Some S2
       else do { (r, S3) \<leftarrow> session_next sid False S2; Some S3 } } }"

section \<open>Session groups\<close>

definition session_alive :: "nat \<Rightarrow> server \<Rightarrow> bool" where
  "session_alive sid S \<longleftrightarrow> sid \<in> set (SESSIONS S)"

definition session_group_contains :: "nat \<Rightarrow> server \<Rightarrow> session_group option" where
  "session_group_contains target S = find (\<lambda>sg. target \<in> set (sg_sessions sg)) (SESSION_GROUPS S)"

definition session_group_find :: "string \<Rightarrow> server \<Rightarrow> session_group option" where
  "session_group_find name S = rb_find_by sg_name name (SESSION_GROUPS S)"

definition session_group_new :: "string \<Rightarrow> server \<Rightarrow> server" where
  "session_group_new name S =
     (if session_group_find name S \<noteq> None then S
      else S\<lparr>SESSION_GROUPS := rb_insert sg_name \<lparr>sg_name = name, sg_sessions = []\<rparr> (SESSION_GROUPS S)\<rparr>)"

definition session_group_add :: "string \<Rightarrow> nat \<Rightarrow> server \<Rightarrow> server" where
  "session_group_add name sid S =
     (if session_group_contains sid S = None
      then S\<lparr>SESSION_GROUPS := rb_modify sg_name name (\<lambda>sg. sg\<lparr>sg_sessions := sg_sessions sg @ [sid]\<rparr>) (SESSION_GROUPS S)\<rparr>
      else S)"

definition session_group_remove :: "nat \<Rightarrow> server \<Rightarrow> server" where
  "session_group_remove sid S = (case session_group_contains sid S of None \<Rightarrow> S
     | Some sg \<Rightarrow>
         (let sg' = sg\<lparr>sg_sessions := remove1 sid (sg_sessions sg)\<rparr>
          in S\<lparr>SESSION_GROUPS := (if sg_sessions sg' = [] then rb_remove sg (SESSION_GROUPS S)
                else rb_modify sg_name (sg_name sg) (\<lambda>_. sg') (SESSION_GROUPS S))\<rparr>))"

definition session_group_count :: "session_group \<Rightarrow> nat" where
  "session_group_count sg = length (sg_sessions sg)"

definition session_has :: "nat \<Rightarrow> nat \<Rightarrow> server \<Rightarrow> bool option" where
  "session_has sid w S = do {
     x \<leftarrow> sv_wins S w;
     Some (\<exists>p \<in> set (w_winlinks x). fst p = sid) }"

definition session_is_linked :: "nat \<Rightarrow> nat \<Rightarrow> server \<Rightarrow> bool option" where
  "session_is_linked sid w S = do {
     x \<leftarrow> sv_wins S w;
     case session_group_contains sid S of
       Some sg \<Rightarrow> Some (w_references x \<noteq> session_group_count sg)
     | None \<Rightarrow> Some (w_references x \<noteq> 1) }"

section \<open>New links for old ones\<close>

text \<open>A link at \<open>idx\<close> to the window of a link of another list; the result is its number.\<close>

definition copy_link :: "nat \<Rightarrow> i32 \<Rightarrow> winlink \<Rightarrow> server \<Rightarrow> (nat \<times> server) option" where
  "copy_link sid idx wl S = do {
     s \<leftarrow> sv_heap S sid;
     added \<leftarrow> winlink_add (sv_next S) (s_windows s) idx;
     wwl \<leftarrow> added;
     w \<leftarrow> wl_window wl;
     let l = sv_next S;
     S1 \<leftarrow> winlink_set_window sid l w (put_session sid (s\<lparr>s_windows := wwl\<rparr>) (S\<lparr>sv_next := sv_next S + 1\<rparr>));
     Some (l, S1) }"

definition copy_alerts :: "winlink \<Rightarrow> winlink \<Rightarrow> winlink" where
  "copy_alerts wl wl2 = wl2\<lparr>wl_flags := wl_flags wl2 \<union> wl_flags wl \<inter> WINLINK_ALERTFLAGS\<rparr>"

text \<open>The end of the stack of last windows; a link that is on it already would make it a cycle.\<close>

definition stack_append :: "nat \<Rightarrow> nat \<Rightarrow> server \<Rightarrow> server option" where
  "stack_append sid l S = do {
     s \<leftarrow> sv_heap S sid;
     if l \<in> set (s_lastw s) then None
     else link_modify sid l (\<lambda>x. x\<lparr>wl_flags := insert WINLINK_VISITED (wl_flags x)\<rparr>)
            (put_session sid (s\<lparr>s_lastw := s_lastw s @ [l]\<rparr>) S) }"

section \<open>Synchronisation\<close>

definition sync_link :: "nat \<Rightarrow> winlink \<Rightarrow> server \<Rightarrow> server option" where
  "sync_link sid wl S = do {
     (l, S1) \<leftarrow> copy_link sid (wl_idx wl) wl S;
     w \<leftarrow> wl_window wl;
     S2 \<leftarrow> notify_session_window ''window-linked'' sid w S1;
     link_modify sid l (copy_alerts wl) S2 }"

text \<open>An entry of the old stack \<open>l\<close> of a session; \<open>old\<close> are the links it had.\<close>

definition sync_last :: "nat \<Rightarrow> winlink list \<Rightarrow> nat \<Rightarrow> server \<Rightarrow> server option" where
  "sync_last sid old l S = do {
     wl \<leftarrow> wl_deref old l;
     s \<leftarrow> sv_heap S sid;
     found \<leftarrow> winlink_find_by_index (s_windows s) (wl_idx wl);
     case found of None \<Rightarrow> Some S | Some wl2 \<Rightarrow> stack_append sid (wl_id wl2) S }"

definition sync_free :: "nat \<Rightarrow> winlink \<Rightarrow> server \<Rightarrow> server option" where
  "sync_free sid wl S = do {
     s \<leftarrow> sv_heap S sid;
     w \<leftarrow> wl_window wl;
     S1 \<leftarrow> (if winlink_find_by_window (s_windows s) w = None
           then notify_session_window ''window-unlinked'' sid w S else Some S);
     winlink_release sid wl S1 }"

definition sync_curw :: "nat \<Rightarrow> nat \<Rightarrow> winlink list \<Rightarrow> server \<Rightarrow> server option" where
  "sync_curw target sid old S = do {
     s \<leftarrow> sv_heap S sid;
     t \<leftarrow> sv_heap S target;
     wl \<leftarrow> (case s_curw s of Some c \<Rightarrow> wl_deref old c
            | None \<Rightarrow> do { c \<leftarrow> s_curw t; wl_deref (s_windows t) c });
     found \<leftarrow> winlink_find_by_index (s_windows s) (wl_idx wl);
     Some (put_session sid (s\<lparr>s_curw := map_option wl_id found\<rparr>) S) }"

definition session_group_synchronize1 :: "nat \<Rightarrow> nat \<Rightarrow> server \<Rightarrow> server option" where
  "session_group_synchronize1 target sid S = do {
     t \<leftarrow> sv_heap S target;
     s \<leftarrow> sv_heap S sid;
     if s_windows t = [] then Some S
     else do {
       gone \<leftarrow> (case s_curw s of None \<Rightarrow> Some False
               | Some c \<Rightarrow> do {
                   wl \<leftarrow> wl_deref (s_windows s) c;
                   found \<leftarrow> winlink_find_by_index (s_windows t) (wl_idx wl);
                   Some (found = None) });
       S1 \<leftarrow> (if gone then leave_current sid S else Some S);
       s1 \<leftarrow> sv_heap S1 sid;
       let old = s_windows s1;
       t1 \<leftarrow> sv_heap S1 target;
       S2 \<leftarrow> each (sync_link sid) (s_windows t1) (put_session sid (s1\<lparr>s_windows := []\<rparr>) S1);
       S3 \<leftarrow> sync_curw target sid old S2;
       s3 \<leftarrow> sv_heap S3 sid;
       S4 \<leftarrow> each (sync_last sid old) (s_lastw s3) (put_session sid (s3\<lparr>s_lastw := []\<rparr>) S3);
       each (sync_free sid) old S4 } }"

definition session_group_synchronize_to :: "nat \<Rightarrow> server \<Rightarrow> server option" where
  "session_group_synchronize_to sid S = (case session_group_contains sid S of None \<Rightarrow> Some S
     | Some sg \<Rightarrow> (case find (\<lambda>target. target \<noteq> sid) (sg_sessions sg) of None \<Rightarrow> Some S
         | Some target \<Rightarrow> session_group_synchronize1 target sid S))"

definition session_group_synchronize_from :: "nat \<Rightarrow> server \<Rightarrow> server option" where
  "session_group_synchronize_from target S = (case session_group_contains target S of None \<Rightarrow> Some S
     | Some sg \<Rightarrow> each (\<lambda>sid S. if sid \<noteq> target then session_group_synchronize1 target sid S else Some S) (sg_sessions sg) S)"

section \<open>Linking and unlinking\<close>

text \<open>The result is the number of the link, or nothing if the index is in use.\<close>

definition session_attach :: "nat \<Rightarrow> nat \<Rightarrow> i32 \<Rightarrow> server \<Rightarrow> (nat option \<times> server) option" where
  "session_attach sid w idx S = do {
     s \<leftarrow> sv_heap S sid;
     added \<leftarrow> winlink_add (sv_next S) (s_windows s) idx;
     case added of None \<Rightarrow> Some (None, S)
     | Some wwl \<Rightarrow> do {
         let l = sv_next S;
         S1 \<leftarrow> winlink_set_window sid l w (put_session sid (s\<lparr>s_windows := wwl\<rparr>) (S\<lparr>sv_next := sv_next S + 1\<rparr>));
         S2 \<leftarrow> notify_session_window ''window-linked'' sid w S1;
         S3 \<leftarrow> session_group_synchronize_from sid S2;
         Some (Some l, S3) } }"

text \<open>The result says whether the session has no window left.\<close>

definition session_detach :: "nat \<Rightarrow> nat \<Rightarrow> server \<Rightarrow> (bool \<times> server) option" where
  "session_detach sid l S = do {
     s \<leftarrow> sv_heap S sid;
     S1 \<leftarrow> (if s_curw s = Some l then leave_current sid S else Some S);
     S2 \<leftarrow> link_modify sid l (\<lambda>x. x\<lparr>wl_flags := wl_flags x - WINLINK_ALERTFLAGS\<rparr>) S1;
     s2 \<leftarrow> sv_heap S2 sid;
     wl \<leftarrow> wl_deref (s_windows s2) l;
     w \<leftarrow> wl_window wl;
     S3 \<leftarrow> notify_session_window ''window-unlinked'' sid w S2;
     s3 \<leftarrow> winlink_stack_remove (Some l) s2;
     S4 \<leftarrow> winlink_remove sid l (put_session sid s3 S3);
     S5 \<leftarrow> session_group_synchronize_from sid S4;
     s5 \<leftarrow> sv_heap S5 sid;
     Some (s_windows s5 = [], S5) }"

section \<open>Renumbering\<close>

text \<open>The index of the next link, the index of the current window and of the marked pane so far.\<close>

type_synonym renumber_state = "i32 \<times> i32 \<times> i32"

definition renumber_link :: "nat \<Rightarrow> nat option \<Rightarrow> winlink \<Rightarrow> renumber_state \<times> server \<Rightarrow> (renumber_state \<times> server) option" where
  "renumber_link sid curw wl p = (case p of ((new_idx, new_curw, marked), S) \<Rightarrow> do {
     (l, S1) \<leftarrow> copy_link sid new_idx wl S;
     S2 \<leftarrow> link_modify sid l (copy_alerts wl) S1;
     s \<leftarrow> sv_heap S2 sid;
     x \<leftarrow> wl_deref (s_windows s) l;
     Some ((i32 (new_idx + 1),
            (if curw = Some (wl_id wl) then wl_idx x else new_curw),
            (if MARKED_PANE S = Some (sid, wl_id wl) then wl_idx x else marked)), S2) })"

definition renumber_last :: "nat \<Rightarrow> winlink list \<Rightarrow> nat \<Rightarrow> server \<Rightarrow> server option" where
  "renumber_last sid old l S = do {
     wl \<leftarrow> wl_deref old l;
     s \<leftarrow> sv_heap S sid;
     w \<leftarrow> wl_window wl;
     case winlink_find_by_window (s_windows s) w of None \<Rightarrow> Some S | Some wl2 \<Rightarrow> stack_append sid (wl_id wl2) S }"

definition session_renumber_windows :: "nat \<Rightarrow> i32 \<Rightarrow> server \<Rightarrow> server option" where
  "session_renumber_windows sid base_index S = do {
     s \<leftarrow> sv_heap S sid;
     let old = s_windows s;
     ((_, new_curw, marked), S1) \<leftarrow> each (renumber_link sid (s_curw s)) old
        ((base_index, 0, - 1), put_session sid (s\<lparr>s_windows := []\<rparr>) S);
     s1 \<leftarrow> sv_heap S1 sid;
     S2 \<leftarrow> each (renumber_last sid old) (s_lastw s1) (put_session sid (s1\<lparr>s_lastw := []\<rparr>) S1);
     s2 \<leftarrow> sv_heap S2 sid;
     S3 \<leftarrow> (if marked = - 1 then Some S2
           else do { found \<leftarrow> winlink_find_by_index (s_windows s2) marked;
                     Some (S2\<lparr>MARKED_PANE := map_option (\<lambda>x. (sid, wl_id x)) found\<rparr>) });
     found \<leftarrow> winlink_find_by_index (s_windows s2) new_curw;
     each (winlink_release sid) old (put_session sid (s2\<lparr>s_curw := map_option wl_id found\<rparr>) S3) }"

section \<open>The life of a session\<close>

text \<open>\<open>sid\<close> is the address of the new session and \<open>at\<close> its place in the tree of sessions, which is ordered by name.\<close>

definition session_create :: "nat \<Rightarrow> nat \<Rightarrow> server \<Rightarrow> server" where
  "session_create sid at S =
     S\<lparr>sv_heap := (sv_heap S)(sid \<mapsto> \<lparr>s_curw = None, s_lastw = [], s_windows = []\<rparr>),
       SESSIONS := take at (SESSIONS S) @ sid # drop at (SESSIONS S)\<rparr>"

definition destroy_link :: "nat \<Rightarrow> winlink \<Rightarrow> server \<Rightarrow> server option" where
  "destroy_link sid wl S = do {
     w \<leftarrow> wl_window wl;
     S1 \<leftarrow> notify_session_window ''window-unlinked'' sid w S;
     winlink_remove sid (wl_id wl) S1 }"

definition destroy_last :: "nat \<Rightarrow> nat \<Rightarrow> server \<Rightarrow> server option" where
  "destroy_last sid l S = do {
     s \<leftarrow> sv_heap S sid;
     s1 \<leftarrow> winlink_stack_remove (Some l) s;
     Some (put_session sid s1 S) }"

definition session_destroy :: "nat \<Rightarrow> server \<Rightarrow> server option" where
  "session_destroy sid S = do {
     s \<leftarrow> sv_heap S sid;
     if s_curw s = None then Some S
     else do {
       let S1 = session_group_remove sid ((put_session sid (s\<lparr>s_curw := None\<rparr>) S)\<lparr>SESSIONS := remove1 sid (SESSIONS S)\<rparr>);
       S2 \<leftarrow> each (destroy_last sid) (s_lastw s) S1;
       s2 \<leftarrow> sv_heap S2 sid;
       each (destroy_link sid) (s_windows s2) S2 } }"

definition server_destroy_session_group :: "nat \<Rightarrow> server \<Rightarrow> server option" where
  "server_destroy_session_group sid S = (case session_group_contains sid S of
       None \<Rightarrow> session_destroy sid S
     | Some sg \<Rightarrow> each session_destroy (sg_sessions sg) S)"

section \<open>Commands\<close>

text \<open>Taking away the link in the way of a new one: not with \<open>session_detach\<close>, which would destroy a session with
  one window.  The result says whether it was the current window.\<close>

definition kill_link :: "nat \<Rightarrow> winlink \<Rightarrow> server \<Rightarrow> (bool \<times> server) option" where
  "kill_link dst dstwl S = do {
     w \<leftarrow> wl_window dstwl;
     S1 \<leftarrow> notify_session_window ''window-unlinked'' dst w S;
     S2 \<leftarrow> link_modify dst (wl_id dstwl) (\<lambda>x. x\<lparr>wl_flags := wl_flags x - WINLINK_ALERTFLAGS\<rparr>) S1;
     s \<leftarrow> sv_heap S2 dst;
     s1 \<leftarrow> winlink_stack_remove (Some (wl_id dstwl)) s;
     S3 \<leftarrow> winlink_remove dst (wl_id dstwl) (put_session dst s1 S2);
     s3 \<leftarrow> sv_heap S3 dst;
     Some (if s_curw s3 = Some (wl_id dstwl) then (True, put_session dst (s3\<lparr>s_curw := None\<rparr>) S3) else (False, S3)) }"

definition server_link_window ::
    "nat \<Rightarrow> nat \<Rightarrow> nat \<Rightarrow> i32 \<Rightarrow> bool \<Rightarrow> bool \<Rightarrow> i32 \<Rightarrow> server \<Rightarrow> (i32 \<times> server) option" where
  "server_link_window src srcwl dst dstidx killflag selectflag base_index S = do {
     if src \<noteq> dst \<and> session_group_contains src S \<noteq> None \<and> session_group_contains src S = session_group_contains dst S
     then Some (- 1, S)
     else do {
       ss \<leftarrow> sv_heap S src;
       wl \<leftarrow> wl_deref (s_windows ss) srcwl;
       w \<leftarrow> wl_window wl;
       ds \<leftarrow> sv_heap S dst;
       dstwl \<leftarrow> (if dstidx \<noteq> - 1 then winlink_find_by_index (s_windows ds) dstidx else Some None);
       if dstwl \<noteq> None \<and> wl_window (the dstwl) = wl_window wl then Some (- 1, S)
       else do {
         (forced, S1) \<leftarrow> (if dstwl \<noteq> None \<and> killflag then kill_link dst (the dstwl) S else Some (False, S));
         (new, S2) \<leftarrow> session_attach dst w (if dstidx = - 1 then i32 (- 1 - base_index) else dstidx) S1;
         case new of None \<Rightarrow> Some (- 1, S2)
         | Some l \<Rightarrow> do {
             let S3 = (if MARKED_PANE S2 = Some (src, srcwl) then S2\<lparr>MARKED_PANE := Some (dst, l)\<rparr> else S2);
             ds3 \<leftarrow> sv_heap S3 dst;
             x \<leftarrow> wl_deref (s_windows ds3) l;
             if selectflag \<or> forced
             then do { (r, S4) \<leftarrow> session_select dst (wl_idx x) S3; Some (0, S4) }
             else Some (0, S3) } } } }"

definition server_unlink_window :: "nat \<Rightarrow> nat \<Rightarrow> server \<Rightarrow> server option" where
  "server_unlink_window sid l S = do {
     (empty, S1) \<leftarrow> session_detach sid l S;
     if empty then server_destroy_session_group sid S1 else Some S1 }"

text \<open>\<open>renumber\<close> is the option \<open>renumber-windows\<close> and \<open>base\<close> the option \<open>base-index\<close> of each session.\<close>

definition server_renumber_session :: "(nat \<Rightarrow> bool) \<Rightarrow> (nat \<Rightarrow> i32) \<Rightarrow> nat \<Rightarrow> server \<Rightarrow> server option" where
  "server_renumber_session renumber base sid S =
     (if \<not> renumber sid then Some S
      else case session_group_contains sid S of
        None \<Rightarrow> session_renumber_windows sid (base sid) S
      | Some sg \<Rightarrow> each (\<lambda>s. session_renumber_windows s (base s)) (sg_sessions sg) S)"

definition server_renumber_all :: "(nat \<Rightarrow> bool) \<Rightarrow> (nat \<Rightarrow> i32) \<Rightarrow> server \<Rightarrow> server option" where
  "server_renumber_all renumber base S = each (server_renumber_session renumber base) (SESSIONS S) S"

text \<open>The links of a new window \<open>w\<close> (\<open>spawn_window\<close> without \<open>SPAWN_RESPAWN\<close>).  \<open>spawned\<close> says whether a pane could be
  started.  The result is the number of the link; \<open>detached\<close> stays set only if the current window was not replaced.\<close>

definition spawn_window :: "nat \<Rightarrow> i32 \<Rightarrow> bool \<Rightarrow> bool \<Rightarrow> bool \<Rightarrow> i32 \<Rightarrow> nat \<Rightarrow> server \<Rightarrow> (nat option \<times> server) option" where
  "spawn_window sid idx kill detached spawned base_index w S = do {
     s \<leftarrow> sv_heap S sid;
     wl \<leftarrow> (if idx \<noteq> - 1 then winlink_find_by_index (s_windows s) idx else Some None);
     if wl \<noteq> None \<and> \<not> kill then Some (None, S)
     else do {
       (forced, S1) \<leftarrow> (if wl \<noteq> None then kill_link sid (the wl) S else Some (False, S));
       s1 \<leftarrow> sv_heap S1 sid;
       added \<leftarrow> winlink_add (sv_next S1) (s_windows s1) (if idx = - 1 then i32 (- 1 - base_index) else idx);
       case added of None \<Rightarrow> Some (None, S1)
       | Some wwl \<Rightarrow> do {
           let l = sv_next S1;
           let s2 = s1\<lparr>s_windows := wwl, s_curw := (if s_curw s1 = None then Some l else s_curw s1)\<rparr>;
           S2 \<leftarrow> winlink_set_window sid l w (window_create w (put_session sid s2 (S1\<lparr>sv_next := sv_next S1 + 1\<rparr>)));
           if \<not> spawned then do { S3 \<leftarrow> winlink_remove sid l S2; Some (None, S3) }
           else do {
             (r, S3) \<leftarrow> (if detached \<and> \<not> forced then Some (0, S2)
                      else do {
                        s3 \<leftarrow> sv_heap S2 sid;
                        x \<leftarrow> wl_deref (s_windows s3) l;
                        session_select sid (wl_idx x) S2 });
             S4 \<leftarrow> notify_session_window ''window-linked'' sid w S3;
             S5 \<leftarrow> session_group_synchronize_from sid S4;
             Some (Some l, S5) } } } }"

text \<open>The links of session \<open>sid\<close> to a window that is killed; every pass of the loop takes one link away, so
  that one pass more than the session has links is enough.\<close>

fun kill_links :: "nat \<Rightarrow> nat \<Rightarrow> nat \<Rightarrow> server \<Rightarrow> server option" where
  "kill_links 0 sid w S = None"
| "kill_links (Suc n) sid w S = do {
     s \<leftarrow> sv_heap S sid;
     case winlink_find_by_window (s_windows s) w of None \<Rightarrow> Some S
     | Some wl \<Rightarrow> do {
         (empty, S1) \<leftarrow> session_detach sid (wl_id wl) S;
         if empty then server_destroy_session_group sid S1 else kill_links n sid w S1 } }"

definition kill_in_session ::
    "(nat \<Rightarrow> bool) \<Rightarrow> (nat \<Rightarrow> i32) \<Rightarrow> nat \<Rightarrow> bool \<Rightarrow> nat \<Rightarrow> server \<Rightarrow> server option" where
  "kill_in_session renumber_windows base w renumber sid S = do {
     linked \<leftarrow> session_has sid w S;
     if \<not> linked then Some S
     else do {
       s \<leftarrow> sv_heap S sid;
       S1 \<leftarrow> kill_links (length (s_windows s) + 1) sid w S;
       if renumber then server_renumber_session renumber_windows base sid S1 else Some S1 } }"

definition server_kill_window :: "(nat \<Rightarrow> bool) \<Rightarrow> (nat \<Rightarrow> i32) \<Rightarrow> nat \<Rightarrow> bool \<Rightarrow> server \<Rightarrow> server option" where
  "server_kill_window renumber_windows base w renumber S =
     each (kill_in_session renumber_windows base w renumber) (SESSIONS S) S"

end
