(* ===== verification/Session_Refs.thy ===== *)
theory Session_Refs
  imports Session "HOL-Library.Multiset"
begin

text \<open>
  The references between sessions and windows: every link is on the list of its window, and the window counts its
  links, its queued notifications and the references that are held elsewhere.  The operations on references keep
  this, and free a window exactly when nothing refers to it.
\<close>

section \<open>Well-formed references\<close>

text \<open>\<open>e\<close> are links that were taken out of the tree of a session and not freed yet, \<open>h\<close> counts the
  references of other parts of the server.\<close>

definition tree :: "server \<Rightarrow> nat \<Rightarrow> winlink list" where
  "tree S sid = (case sv_heap S sid of None \<Rightarrow> [] | Some s \<Rightarrow> s_windows s)"

definition all_links :: "(nat \<Rightarrow> winlink list) \<Rightarrow> server \<Rightarrow> nat \<Rightarrow> winlink list" where
  "all_links e S sid = tree S sid @ e sid"

definition owners :: "(nat \<Rightarrow> winlink list) \<Rightarrow> nat \<Rightarrow> (nat \<times> nat) set" where
  "owners L w = {(sid, l). (l, Some w) \<in> (\<lambda>x. (wl_id x, wl_window x)) ` set (L sid)}"

definition notes_of :: "notify_entry list \<Rightarrow> nat \<Rightarrow> nat" where
  "notes_of nes w = length (filter (\<lambda>ne. ne_window ne = w) nes)"

definition window_refs_ok :: "(nat \<times> nat) set \<Rightarrow> nat \<Rightarrow> nat \<Rightarrow> linked_window option \<Rightarrow> bool" where
  "window_refs_ok owns notes held x \<longleftrightarrow> (case x of None \<Rightarrow> owns = {} \<and> notes = 0
     | Some x \<Rightarrow> distinct (w_winlinks x) \<and> set (w_winlinks x) = owns \<and> w_references x = length (w_winlinks x) + notes + held)"

definition link_keys :: "winlink list \<Rightarrow> (nat \<times> nat option) multiset" where
  "link_keys xs = mset (map (\<lambda>x. (wl_id x, wl_window x)) xs)"

definition refs_ok :: "(nat \<Rightarrow> nat) \<Rightarrow> (nat \<Rightarrow> winlink list) \<Rightarrow> server \<Rightarrow> bool" where
  "refs_ok h e S \<longleftrightarrow>
     (\<forall>sid. distinct (map wl_id (all_links e S sid)) \<and>
        (\<forall>x \<in> set (all_links e S sid). wl_id x < sv_next S \<and> wl_window x \<noteq> None)) \<and>
     (\<forall>w. window_refs_ok (owners (all_links e S) w) (notes_of (sv_notes S) w) (h w) (sv_wins S w))"

lemma refs_okD:
  assumes "refs_ok h e S"
  shows "distinct (map wl_id (all_links e S sid))" "x \<in> set (all_links e S sid) \<Longrightarrow> wl_id x < sv_next S"
    "x \<in> set (all_links e S sid) \<Longrightarrow> \<exists>w. wl_window x = Some w"
    "window_refs_ok (owners (all_links e S) w) (notes_of (sv_notes S) w) (h w) (sv_wins S w)"
  using assms unfolding refs_ok_def by auto

lemma owners_mem: "(sid, l) \<in> owners L w \<longleftrightarrow> (\<exists>x \<in> set (L sid). wl_id x = l \<and> wl_window x = Some w)"
  by (auto simp: owners_def)

lemma link_keys_facts:
  assumes "link_keys xs = link_keys ys"
  shows "distinct (map wl_id xs) = distinct (map wl_id ys)" "(\<lambda>x. (wl_id x, wl_window x)) ` set xs = (\<lambda>x. (wl_id x, wl_window x)) ` set ys"
    "mset (map wl_id xs) = mset (map wl_id ys)"
proof -
  note m = assms [unfolded link_keys_def]
  show "(\<lambda>x. (wl_id x, wl_window x)) ` set xs = (\<lambda>x. (wl_id x, wl_window x)) ` set ys"
    using arg_cong [OF m, of set_mset] by simp
  show i: "mset (map wl_id xs) = mset (map wl_id ys)"
    using arg_cong [OF m, of "image_mset fst"] by (simp add: multiset.map_comp comp_def)
  show "distinct (map wl_id xs) = distinct (map wl_id ys)" by (rule mset_eq_imp_distinct_iff [OF i])
qed

text \<open>Only the links of a session with their windows matter, in any order.\<close>

lemma refs_ok_frame:
  assumes "refs_ok h e S" "\<And>sid. link_keys (all_links e' S' sid) = link_keys (all_links e S sid)"
    "\<And>w. map_option (\<lambda>x. (w_references x, w_winlinks x)) (sv_wins S' w) = map_option (\<lambda>x. (w_references x, w_winlinks x)) (sv_wins S w)"
    "sv_notes S' = sv_notes S" "sv_next S \<le> sv_next S'"
  shows "refs_ok h e' S'"
proof -
  have own: "owners (all_links e' S') w = owners (all_links e S) w" for w
    using link_keys_facts(2) [OF assms(2)] by (simp add: owners_def)
  have win: "window_refs_ok o' n k (sv_wins S' w) = window_refs_ok o' n k (sv_wins S w)" for o' n k w
    using assms(3) [of w] by (auto simp: window_refs_ok_def split: option.splits)
  have "wl_id x < sv_next S' \<and> wl_window x \<noteq> None" if "x \<in> set (all_links e' S' sid)" for sid x
  proof -
    have "(wl_id x, wl_window x) \<in> (\<lambda>x. (wl_id x, wl_window x)) ` set (all_links e S sid)"
      using that link_keys_facts(2) [OF assms(2) [of sid]] by auto
    then show ?thesis using refs_okD(2,3) [OF assms(1)] assms(5) by fastforce
  qed
  moreover have "distinct (map wl_id (all_links e' S' sid))" for sid
    using link_keys_facts(1) [OF assms(2) [of sid]] refs_okD(1) [OF assms(1)] by simp
  ultimately show ?thesis using refs_okD(4) [OF assms(1)] by (simp add: refs_ok_def own win assms(4))
qed

text \<open>Nothing changes but the counts of windows and the notifications.\<close>

definition keeps :: "server \<Rightarrow> server \<Rightarrow> bool" where
  "keeps S S' \<longleftrightarrow> sv_heap S' = sv_heap S \<and> SESSIONS S' = SESSIONS S \<and> SESSION_GROUPS S' = SESSION_GROUPS S \<and>
     sv_nohooks S' = sv_nohooks S \<and> sv_next S' = sv_next S \<and> MARKED_PANE S' = MARKED_PANE S"

lemma keeps_links: "keeps S S' \<Longrightarrow> all_links e S' = all_links e S"
  by (simp add: keeps_def all_links_def tree_def fun_eq_iff)

lemma keeps_trans: "keeps S S' \<Longrightarrow> keeps S' S'' \<Longrightarrow> keeps S S''"
  by (simp add: keeps_def)

lemma owner_alive:
  assumes "refs_ok h e S" "x \<in> set (all_links e S sid)" "wl_window x = Some w"
  shows "\<exists>y. sv_wins S w = Some y \<and> (sid, wl_id x) \<in> set (w_winlinks y) \<and> 0 < w_references y"
proof -
  have o: "(sid, wl_id x) \<in> owners (all_links e S) w" using assms(2,3) by (auto simp: owners_mem)
  then obtain y where y: "sv_wins S w = Some y" using refs_okD(4) [OF assms(1), of w] by (auto simp: window_refs_ok_def split: option.splits)
  then have "(sid, wl_id x) \<in> set (w_winlinks y)" "w_references y = length (w_winlinks y) + notes_of (sv_notes S) w + h w"
    using o refs_okD(4) [OF assms(1), of w] by (auto simp: window_refs_ok_def)
  then show ?thesis using y by (cases "w_winlinks y") auto
qed

section \<open>Notifications\<close>

lemma notify_ok:
  assumes "refs_ok h e S" "sv_wins S w = Some y"
  shows "\<exists>S'. notify_session_window name sid w S = Some S' \<and> refs_ok h e S' \<and> keeps S S' \<and> (\<forall>v. sv_wins S' v = None \<longleftrightarrow> sv_wins S v = None)"
proof (cases "sv_nohooks S")
  case True
  then show ?thesis using assms by (simp add: notify_session_window_def keeps_def)
next
  case False
  let ?S = "put_window w (y\<lparr>w_references := w_references y + 1\<rparr>) S"
  let ?S' = "?S\<lparr>sv_notes := sv_notes S @ [\<lparr>ne_name = name, ne_session = sid, ne_window = w\<rparr>]\<rparr>"
  have e: "notify_session_window name sid w S = Some ?S'" using False assms(2) by (simp add: notify_session_window_def window_add_ref_def put_window_def)
  have k: "keeps S ?S'" by (simp add: keeps_def put_window_def)
  have "window_refs_ok (owners (all_links e S) v) (notes_of (sv_notes ?S') v) (h v) (sv_wins ?S' v)" for v
    using refs_okD(4) [OF assms(1), of v] assms(2) by (cases "v = w") (simp_all add: window_refs_ok_def notes_of_def put_window_def)
  then have "refs_ok h e ?S'" using assms(1) keeps_links [OF k, of e] k by (simp add: refs_ok_def keeps_def)
  moreover have "\<forall>v. sv_wins ?S' v = None \<longleftrightarrow> sv_wins S v = None" using assms(2) by (simp add: put_window_def)
  ultimately show ?thesis using e k by blast
qed

text \<open>A notification that has run lets its window go.\<close>

lemma notify_callback_ok:
  assumes "refs_ok h e S"
  shows "\<exists>S'. notify_callback S = Some S' \<and> refs_ok h e S' \<and> keeps S S'"
proof (cases "sv_notes S")
  case Nil
  then show ?thesis using assms by (simp add: notify_callback_def keeps_def)
next
  case (Cons ne nes)
  let ?w = "ne_window ne" and ?S = "S\<lparr>sv_notes := nes\<rparr>"
  have n: "notes_of (sv_notes S) v = (if v = ?w then 1 else 0) + notes_of nes v" for v using Cons by (simp add: notes_of_def)
  obtain y where y: "sv_wins S ?w = Some y" using refs_okD(4) [OF assms, of ?w] n [of ?w] by (auto simp: window_refs_ok_def split: option.splits)
  have yo: "distinct (w_winlinks y)" "set (w_winlinks y) = owners (all_links e S) ?w"
    "w_references y = length (w_winlinks y) + Suc (notes_of nes ?w) + h ?w"
    using refs_okD(4) [OF assms, of ?w] y n [of ?w] by (simp_all add: window_refs_ok_def)
  have fin: "refs_ok h e (?S\<lparr>sv_wins := (sv_wins S)(?w := x)\<rparr>)"
    if "window_refs_ok (owners (all_links e S) ?w) (notes_of nes ?w) (h ?w) x" for x
  proof -
    have "all_links e (?S\<lparr>sv_wins := (sv_wins S)(?w := x)\<rparr>) = all_links e S" by (simp add: all_links_def tree_def fun_eq_iff)
    moreover have "window_refs_ok (owners (all_links e S) v) (notes_of nes v) (h v) (((sv_wins S)(?w := x)) v)" for v
      using that refs_okD(4) [OF assms, of v] n [of v] by (cases "v = ?w") simp_all
    ultimately show ?thesis using assms by (simp add: refs_ok_def)
  qed
  show ?thesis
  proof (cases "w_references y = 1")
    case True
    then have "window_refs_ok (owners (all_links e S) ?w) (notes_of nes ?w) (h ?w) None" using yo by (auto simp: window_refs_ok_def)
    from fin [OF this] show ?thesis using Cons y True
      by (simp add: notify_callback_def window_remove_ref_def window_destroy_def keeps_def)
  next
    case False
    have "window_refs_ok (owners (all_links e S) ?w) (notes_of nes ?w) (h ?w) (Some (y\<lparr>w_references := w_references y - 1\<rparr>))"
      using yo by (simp add: window_refs_ok_def)
    moreover have "w_references y \<noteq> 0" using yo(3) by simp
    ultimately show ?thesis using fin Cons y False
      by (simp add: notify_callback_def window_remove_ref_def put_window_def keeps_def)
  qed
qed

section \<open>Letting a link go\<close>

lemma release_ok:
  assumes "refs_ok h e S" "link_keys (e sid) = add_mset (wl_id x, wl_window x) (link_keys (e' sid))" "\<And>sid'. sid' \<noteq> sid \<Longrightarrow> e' sid' = e sid'"
  shows "\<exists>S'. winlink_release sid x S = Some S' \<and> refs_ok h e' S' \<and> keeps S S' \<and> sv_notes S' = sv_notes S \<and>
    (\<forall>v. wl_window x \<noteq> Some v \<longrightarrow> sv_wins S' v = sv_wins S v) \<and>
    (\<forall>v. wl_window x = Some v \<longrightarrow> (sv_wins S' v = None \<longleftrightarrow> owners (all_links e' S) v = {} \<and> notes_of (sv_notes S) v = 0 \<and> h v = 0))"
proof -
  have ek: "link_keys (all_links e S sid) = add_mset (wl_id x, wl_window x) (link_keys (all_links e' S sid))"
    using assms(2) by (simp add: all_links_def link_keys_def)
  have "(wl_id x, wl_window x) \<in># link_keys (all_links e S sid)" unfolding ek by simp
  then obtain x' where x': "x' \<in> set (all_links e S sid)" "wl_id x' = wl_id x" "wl_window x' = wl_window x"
    by (auto simp: link_keys_def)
  obtain w where w: "wl_window x = Some w" using refs_okD(3) [OF assms(1) x'(1)] x'(3) by auto
  from owner_alive [OF assms(1) x'(1)] obtain y where y: "sv_wins S w = Some y" "(sid, wl_id x) \<in> set (w_winlinks y)" "0 < w_references y"
    using w x' by auto
  have yo: "distinct (w_winlinks y)" "set (w_winlinks y) = owners (all_links e S) w"
    "w_references y = length (w_winlinks y) + notes_of (sv_notes S) w + h w"
    using refs_okD(4) [OF assms(1), of w] y(1) by (simp_all add: window_refs_ok_def)
  have mid: "mset (map wl_id (all_links e S sid)) = add_mset (wl_id x) (mset (map wl_id (all_links e' S sid)))"
    using arg_cong [OF ek, of "image_mset fst"] by (simp add: link_keys_def multiset.map_comp comp_def)
  have "distinct (wl_id x # map wl_id (all_links e' S sid))"
    using refs_okD(1) [OF assms(1), of sid] mset_eq_imp_distinct_iff [of "wl_id x # map wl_id (all_links e' S sid)" "map wl_id (all_links e S sid)"] mid by simp
  then have fresh: "wl_id x \<notin> ids (all_links e' S sid)" "distinct (map wl_id (all_links e' S sid))" by simp_all
  have keys: "(\<lambda>x. (wl_id x, wl_window x)) ` set (all_links e S sid) = insert (wl_id x, wl_window x) ((\<lambda>x. (wl_id x, wl_window x)) ` set (all_links e' S sid))"
    using arg_cong [OF ek, of set_mset] by (simp add: link_keys_def)
  have other: "all_links e' S sid' = all_links e S sid'" if "sid' \<noteq> sid" for sid' using assms(3) [OF that] by (simp add: all_links_def)
  have own: "owners (all_links e' S) v = (if v = w then owners (all_links e S) v - {(sid, wl_id x)} else owners (all_links e S) v)" for v
  proof -
    have "(sid', l) \<in> owners (all_links e' S) v \<longleftrightarrow> (sid', l) \<in> (if v = w then owners (all_links e S) v - {(sid, wl_id x)} else owners (all_links e S) v)" for sid' l
    proof (cases "sid' = sid")
      case True
      have "(l, Some v) \<in> (\<lambda>x. (wl_id x, wl_window x)) ` set (all_links e' S sid) \<Longrightarrow> l \<noteq> wl_id x" using fresh(1) unfolding image_iff by auto
      then show ?thesis using True keys w by (auto simp: owners_def)
    next
      case False
      then show ?thesis using other [OF False] by (simp add: owners_def)
    qed
    then show ?thesis by (simp add: set_eq_iff split: prod.splits)
  qed
  define y' where "y' = y\<lparr>w_winlinks := remove1 (sid, wl_id x) (w_winlinks y)\<rparr>"
  have y': "distinct (w_winlinks y')" "set (w_winlinks y') = owners (all_links e' S) w" "length (w_winlinks y') + 1 = length (w_winlinks y)"
    using yo(1,2) own [of w] y(2) length_pos_if_in_set [OF y(2)] by (auto simp: y'_def length_remove1)
  have rest: "refs_ok h e' (S\<lparr>sv_wins := (sv_wins S)(w := z)\<rparr>)"
    if "window_refs_ok (owners (all_links e' S) w) (notes_of (sv_notes S) w) (h w) z" for z
  proof -
    have a: "all_links e' (S\<lparr>sv_wins := (sv_wins S)(w := z)\<rparr>) = all_links e' S" by (simp add: all_links_def tree_def fun_eq_iff)
    have "window_refs_ok (owners (all_links e' S) v) (notes_of (sv_notes S) v) (h v) (((sv_wins S)(w := z)) v)" for v
      using that refs_okD(4) [OF assms(1), of v] own [of v] by (cases "v = w") simp_all
    moreover have "distinct (map wl_id (all_links e' S sid'))" for sid'
      using fresh(2) other [of sid'] refs_okD(1) [OF assms(1), of sid'] by (cases "sid' = sid") simp_all
    moreover have "wl_id z < sv_next S \<and> wl_window z \<noteq> None" if "z \<in> set (all_links e' S sid')" for z sid'
    proof -
      have "(wl_id z, wl_window z) \<in> (\<lambda>x. (wl_id x, wl_window x)) ` set (all_links e S sid')"
        using that keys other [of sid'] by (cases "sid' = sid") auto
      then show ?thesis using refs_okD(2,3) [OF assms(1)] by fastforce
    qed
    ultimately show ?thesis unfolding refs_ok_def a by simp
  qed
  show ?thesis
  proof (cases "w_references y = 1")
    case True
    have "w_winlinks y' = []" using True yo(3) y'(3) by (cases "w_winlinks y'") auto
    then have e0: "owners (all_links e' S) w = {}" "notes_of (sv_notes S) w = 0" "h w = 0" using True yo(3) y'(2,3) by auto
    then have "refs_ok h e' (S\<lparr>sv_wins := (sv_wins S)(w := None)\<rparr>)" by (intro rest) (simp add: window_refs_ok_def)
    then show ?thesis using w y True e0
      by (simp add: winlink_release_def window_remove_ref_def window_destroy_def put_window_def keeps_def)
  next
    case False
    have "refs_ok h e' (S\<lparr>sv_wins := (sv_wins S)(w := Some (y'\<lparr>w_references := w_references y - 1\<rparr>))\<rparr>)"
      using y' yo(3) by (intro rest) (simp add: window_refs_ok_def)
    moreover have "\<not> (owners (all_links e' S) w = {} \<and> notes_of (sv_notes S) w = 0 \<and> h w = 0)"
    proof
      assume a: "owners (all_links e' S) w = {} \<and> notes_of (sv_notes S) w = 0 \<and> h w = 0"
      then have "w_winlinks y' = []" using y'(2) by simp
      then show False using a y'(3) yo(3) False by simp
    qed
    ultimately show ?thesis using w y False
      by (simp add: winlink_release_def window_remove_ref_def put_window_def keeps_def y'_def)
  qed
qed

lemma put_session_simps [simp]:
  "sv_heap (put_session sid s S) = (sv_heap S)(sid \<mapsto> s)" "sv_wins (put_session sid s S) = sv_wins S"
  "SESSIONS (put_session sid s S) = SESSIONS S" "SESSION_GROUPS (put_session sid s S) = SESSION_GROUPS S"
  "sv_notes (put_session sid s S) = sv_notes S" "sv_nohooks (put_session sid s S) = sv_nohooks S"
  "sv_next (put_session sid s S) = sv_next S" "MARKED_PANE (put_session sid s S) = MARKED_PANE S"
  by (simp_all add: put_session_def)

lemma put_window_simps [simp]:
  "sv_heap (put_window w x S) = sv_heap S" "sv_wins (put_window w x S) = (sv_wins S)(w \<mapsto> x)"
  "SESSIONS (put_window w x S) = SESSIONS S" "SESSION_GROUPS (put_window w x S) = SESSION_GROUPS S"
  "sv_notes (put_window w x S) = sv_notes S" "sv_nohooks (put_window w x S) = sv_nohooks S"
  "sv_next (put_window w x S) = sv_next S" "MARKED_PANE (put_window w x S) = MARKED_PANE S"
  by (simp_all add: put_window_def)

lemma tree_put [simp]: "tree (put_session sid s S) = (tree S)(sid := s_windows s)"
  by (simp add: tree_def fun_eq_iff)

lemma tree_heap: "sv_heap S sid = Some s \<Longrightarrow> tree S sid = s_windows s"
  by (simp add: tree_def)

lemma all_links_put [simp]: "all_links e (put_session sid s S) = (all_links e S)(sid := s_windows s @ e sid)"
  by (simp add: all_links_def fun_eq_iff)

lemma link_keys_delete:
  "distinct (map wl_id wwl) \<Longrightarrow> x \<in> set wwl \<Longrightarrow>
    link_keys wwl = add_mset (wl_id x, wl_window x) (link_keys (wl_delete (wl_id x) wwl))"
proof (induction wwl)
  case (Cons y wwl)
  have cons: "link_keys (z # zs) = add_mset (wl_id z, wl_window z) (link_keys zs)" for z zs by (simp add: link_keys_def)
  show ?case
  proof (cases "x = y")
    case True
    then have "wl_id x \<notin> ids wwl" using Cons.prems(1) by simp
    then have "wl_delete (wl_id x) (y # wwl) = wwl" using True unfolding image_iff by (auto simp: wl_delete_def filter_id_conv)
    then show ?thesis using True by (simp add: cons)
  next
    case False
    then have x: "x \<in> set wwl" "wl_id y \<noteq> wl_id x" using Cons.prems by (auto simp: rev_image_eqI)
    then have "wl_delete (wl_id x) (y # wwl) = y # wl_delete (wl_id x) wwl" by (simp add: wl_delete_def)
    then show ?thesis using Cons.IH Cons.prems(1) x(1) by (simp add: cons add_mset_commute)
  qed
qed simp

lemma release_put:
  "winlink_release sid x (put_session sid' s' S) = map_option (put_session sid' s') (winlink_release sid x S)"
  by (cases "wl_window x"; cases "sv_wins S (the (wl_window x))")
    (simp_all add: winlink_release_def window_remove_ref_def window_destroy_def put_session_def put_window_def)

lemma winlink_remove_ok:
  assumes "refs_ok h e S" "sv_heap S sid = Some s" "x \<in> set (s_windows s)"
  shows "\<exists>S'. winlink_remove sid (wl_id x) S = Some S' \<and> refs_ok h e S' \<and>
    keeps (put_session sid (s\<lparr>s_windows := wl_delete (wl_id x) (s_windows s)\<rparr>) S) S' \<and> sv_notes S' = sv_notes S \<and>
    (\<forall>v. wl_window x \<noteq> Some v \<longrightarrow> sv_wins S' v = sv_wins S v) \<and>
    (\<forall>v. wl_window x = Some v \<longrightarrow> (sv_wins S' v = None \<longleftrightarrow> owners (all_links e S') v = {} \<and> notes_of (sv_notes S) v = 0 \<and> h v = 0))"
proof -
  let ?s = "s\<lparr>s_windows := wl_delete (wl_id x) (s_windows s)\<rparr>" and ?e = "e(sid := x # e sid)"
  let ?S = "put_session sid ?s S"
  have d: "distinct (map wl_id (s_windows s))" using refs_okD(1) [OF assms(1), of sid] tree_heap [OF assms(2)] by (simp add: all_links_def)
  have keys: "link_keys (s_windows s) = add_mset (wl_id x, wl_window x) (link_keys (wl_delete (wl_id x) (s_windows s)))"
    by (rule link_keys_delete [OF d assms(3)])
  have "refs_ok h ?e ?S"
    by (rule refs_ok_frame [OF assms(1)]) (use keys tree_heap [OF assms(2)] in \<open>simp_all add: all_links_def link_keys_def\<close>)
  from release_ok [OF this, of sid x e] obtain S' where S': "winlink_release sid x ?S = Some S'" "refs_ok h e S'" "keeps ?S S'"
    "sv_notes S' = sv_notes ?S" "\<forall>v. wl_window x \<noteq> Some v \<longrightarrow> sv_wins S' v = sv_wins ?S v"
    "\<forall>v. wl_window x = Some v \<longrightarrow> (sv_wins S' v = None \<longleftrightarrow> owners (all_links e ?S) v = {} \<and> notes_of (sv_notes ?S) v = 0 \<and> h v = 0)"
    by (auto simp: link_keys_def)
  have "wl_deref (s_windows s) (wl_id x) = Some x" using wl_deref_Some [OF d] assms(3) by blast
  moreover have "map_option (put_session sid ?s) (winlink_release sid x S) = Some S'" using S'(1) by (simp add: release_put)
  ultimately have "winlink_remove sid (wl_id x) S = Some S'"
    using assms(2) by (cases "winlink_release sid x S") (simp_all add: winlink_remove_def)
  then show ?thesis using S' keeps_links [OF S'(3), of e] by auto
qed

section \<open>A new link\<close>

lemma wl_modify_insert:
  assumes "wl_id x \<notin> ids wwl" "\<And>x. wl_idx (f x) = wl_idx x"
  shows "wl_modify (wl_id x) f (rb_insert wl_idx x wwl) = (if wl_idx x \<in> indexes wwl then wwl else rb_insert wl_idx (f x) wwl)"
proof -
  have id: "wl_modify (wl_id x) f xs = xs" if "wl_id x \<notin> ids xs" for xs using that unfolding image_iff by (intro wl_modify_id) auto
  have cons: "wl_modify l f (y # xs) = (if wl_id y = l then f y else y) # wl_modify l f xs" for l y xs by (simp add: wl_modify_def)
  have "wl_modify (wl_id x) f (insort_key wl_idx x wwl) = insort_key wl_idx (f x) wwl"
    using assms(1) by (induction wwl) (auto simp: cons id assms(2))
  moreover have "wl_modify (wl_id x) f wwl = wwl" by (rule id [OF assms(1)])
  ultimately show ?thesis by (simp add: rb_insert_def indexes_def assms(2))
qed

definition fresh_link :: "nat \<Rightarrow> i32 \<Rightarrow> nat option \<Rightarrow> winlink" where
  "fresh_link n i w = \<lparr>wl_id = n, wl_idx = i, wl_window = w, wl_flags = {}\<rparr>"

lemma fresh_link_simps [simp]:
  "wl_id (fresh_link n i w) = n" "wl_idx (fresh_link n i w) = i" "wl_window (fresh_link n i w) = w" "wl_flags (fresh_link n i w) = {}"
  by (simp_all add: fresh_link_def)

lemma link_keys_insert: "wl_idx x \<notin> indexes wwl \<Longrightarrow> link_keys (rb_insert wl_idx x wwl) = add_mset (wl_id x, wl_window x) (link_keys wwl)"
proof -
  assume "wl_idx x \<notin> indexes wwl"
  moreover have "mset (map f (insort_key wl_idx x wwl)) = add_mset (f x) (mset (map f wwl))" for f :: "winlink \<Rightarrow> nat \<times> nat option"
    by (induction wwl) simp_all
  ultimately show ?thesis by (simp add: link_keys_def rb_insert_def indexes_def)
qed

lemma set_window_ok:
  assumes "refs_ok h e S" "sv_heap S sid = Some s" "links_ok (s_windows s)" "i \<notin> indexes (s_windows s)" "sv_wins S w = Some y"
  defines "n \<equiv> sv_next S"
  shows "\<exists>S'. winlink_set_window sid n w
      (put_session sid (s\<lparr>s_windows := rb_insert wl_idx (fresh_link n i None) (s_windows s)\<rparr>) (S\<lparr>sv_next := n + 1\<rparr>)) = Some S' \<and>
    refs_ok h e S' \<and> keeps (put_session sid (s\<lparr>s_windows := rb_insert wl_idx (fresh_link n i (Some w)) (s_windows s)\<rparr>) (S\<lparr>sv_next := n + 1\<rparr>)) S' \<and>
    sv_notes S' = sv_notes S \<and> (\<forall>v. sv_wins S' v = None \<longleftrightarrow> sv_wins S v = None)"
proof -
  have n: "n \<notin> ids (all_links e S sid')" for sid' using refs_okD(2) [OF assms(1)] by (metis imageE less_irrefl n_def)
  have ns: "n \<notin> ids (s_windows s)" using n [of sid] tree_heap [OF assms(2)] by (simp add: all_links_def image_Un)
  let ?ws = "rb_insert wl_idx (fresh_link n i None) (s_windows s)"
  let ?ws' = "rb_insert wl_idx (fresh_link n i (Some w)) (s_windows s)"
  have set: "set ?ws = insert (fresh_link n i None) (set (s_windows s))" using assms(4) by (intro set_rb_insert) (simp add: indexes_def)
  have "distinct (map wl_id ?ws)"
    using links_okD(2) [OF assms(3)] ns link_keys_insert [of "fresh_link n i None" "s_windows s"] assms(4)
      link_keys_facts(1) [of ?ws "fresh_link n i None # s_windows s"] by (simp add: link_keys_def)
  then have dr: "wl_deref ?ws n = Some (fresh_link n i None)" using wl_deref_Some set by auto
  have mod: "wl_modify n (\<lambda>wl. wl\<lparr>wl_window := Some w\<rparr>) ?ws = ?ws'"
    using wl_modify_insert [of "fresh_link n i None" "s_windows s" "\<lambda>wl. wl\<lparr>wl_window := Some w\<rparr>"] ns assms(4)
    by (simp add: fresh_link_def)
  define S' where "S' = put_window w (y\<lparr>w_winlinks := w_winlinks y @ [(sid, n)], w_references := w_references y + 1\<rparr>)
    (put_session sid (s\<lparr>s_windows := ?ws'\<rparr>) (S\<lparr>sv_next := n + 1\<rparr>))"
  have eq: "winlink_set_window sid n w (put_session sid (s\<lparr>s_windows := ?ws\<rparr>) (S\<lparr>sv_next := n + 1\<rparr>)) = Some S'"
    using dr mod assms(5) by (simp add: winlink_set_window_def winlink_release_def link_modify_def window_add_ref_def S'_def
        put_session_def put_window_def)
  have keys: "link_keys (all_links e S' sid) = add_mset (n, Some w) (link_keys (all_links e S sid))"
    using link_keys_insert [of "fresh_link n i (Some w)" "s_windows s"] assms(4) tree_heap [OF assms(2)]
    by (simp add: S'_def all_links_def tree_def link_keys_def)
  have other: "all_links e S' sid' = all_links e S sid'" if "sid' \<noteq> sid" for sid' using that by (simp add: S'_def all_links_def tree_def)
  have img: "(\<lambda>x. (wl_id x, wl_window x)) ` set (all_links e S' sid) = insert (n, Some w) ((\<lambda>x. (wl_id x, wl_window x)) ` set (all_links e S sid))"
    using arg_cong [OF keys, of set_mset] by (simp add: link_keys_def)
  have own: "owners (all_links e S') v = (if v = w then insert (sid, n) (owners (all_links e S) v) else owners (all_links e S) v)" for v
  proof -
    have "(sid', l) \<in> owners (all_links e S') v \<longleftrightarrow> (sid', l) \<in> (if v = w then insert (sid, n) (owners (all_links e S) v) else owners (all_links e S) v)" for sid' l
      using other [of sid'] img by (cases "sid' = sid") (auto simp: owners_def)
    then show ?thesis by (simp add: set_eq_iff split: prod.splits)
  qed
  have nin: "(sid, n) \<notin> owners (all_links e S) w" using n [of sid] by (force simp: owners_def)
  have "distinct (map wl_id (all_links e S' sid'))" for sid'
    using refs_okD(1) [OF assms(1), of sid'] other [of sid'] n [of sid]
      link_keys_facts(1) [of "all_links e S' sid" "fresh_link n i (Some w) # all_links e S sid"] keys
    by (cases "sid' = sid") (simp_all add: link_keys_def)
  moreover have "wl_id z < sv_next S' \<and> wl_window z \<noteq> None" if "z \<in> set (all_links e S' sid')" for z sid'
  proof -
    have "(wl_id z, wl_window z) \<in> insert (n, Some w) ((\<lambda>x. (wl_id x, wl_window x)) ` set (all_links e S sid'))"
      using that img other [of sid'] by (cases "sid' = sid") auto
    then show ?thesis using refs_okD(2,3) [OF assms(1)] by (fastforce simp: S'_def n_def)
  qed
  moreover have "window_refs_ok (owners (all_links e S') v) (notes_of (sv_notes S') v) (h v) (sv_wins S' v)" for v
    using refs_okD(4) [OF assms(1), of v] own [of v] nin assms(5) by (cases "v = w") (simp_all add: window_refs_ok_def S'_def)
  ultimately have "refs_ok h e S'" by (simp add: refs_ok_def)
  then show ?thesis using eq assms(5) by (simp add: S'_def keeps_def)
qed

end
