(* ===== verification/Session_Current.thy ===== *)
theory Session_Current
  imports Session_Refs
begin

text \<open>
  Changing the current window of a session: what \<open>session_set_current\<close> does to the session, to the stack
  of last windows and to the other sessions, and where \<open>session_next\<close>, \<open>session_previous\<close>, \<open>session_last\<close> and the
  targets \<open>:+n\<close> and \<open>:-n\<close> lead.
\<close>

section \<open>States that differ in alerts only\<close>

definition vrow :: "winlink \<Rightarrow> nat \<times> i32 \<times> nat option \<times> bool" where
  "vrow x = (wl_id x, wl_idx x, wl_window x, WINLINK_VISITED \<in> wl_flags x)"

definition core_of :: "session \<Rightarrow> nat option \<times> nat list \<times> (nat \<times> i32 \<times> nat option \<times> bool) list" where
  "core_of s = (s_curw s, s_lastw s, map vrow (s_windows s))"

definition window_core :: "linked_window \<Rightarrow> nat \<times> (nat \<times> nat) list" where
  "window_core x = (w_references x, w_winlinks x)"

definition same_core :: "server \<Rightarrow> server \<Rightarrow> bool" where
  "same_core S S' \<longleftrightarrow> (\<forall>sid. map_option core_of (sv_heap S' sid) = map_option core_of (sv_heap S sid)) \<and>
     (\<forall>w. map_option window_core (sv_wins S' w) = map_option window_core (sv_wins S w)) \<and>
     SESSIONS S' = SESSIONS S \<and> SESSION_GROUPS S' = SESSION_GROUPS S \<and> sv_notes S' = sv_notes S \<and>
     sv_nohooks S' = sv_nohooks S \<and> sv_next S' = sv_next S \<and> MARKED_PANE S' = MARKED_PANE S"

lemma same_core_refl [simp]: "same_core S S"
  by (simp add: same_core_def)

lemma same_core_trans: "same_core S S' \<Longrightarrow> same_core S' S'' \<Longrightarrow> same_core S S''"
  by (simp add: same_core_def)

text \<open>The part of a link that never changes while the link exists in its tree, the index apart.\<close>

definition key3 :: "winlink \<Rightarrow> nat \<times> i32 \<times> nat option" where
  "key3 x = (wl_id x, wl_idx x, wl_window x)"

lemma map_vrow:
  assumes "map vrow xs = map vrow ys"
  shows "map key3 xs = map key3 ys"
    "(\<lambda>x. (wl_id x, WINLINK_VISITED \<in> wl_flags x)) ` set xs = (\<lambda>x. (wl_id x, WINLINK_VISITED \<in> wl_flags x)) ` set ys"
proof -
  note cong = arg_cong [OF assms, of "map g" for g]
  show "map key3 xs = map key3 ys" using cong [of "\<lambda>(a, b, c, d). (a, b, c)"] by (simp add: vrow_def key3_def [abs_def] comp_def)
  have "map (\<lambda>x. (wl_id x, WINLINK_VISITED \<in> wl_flags x)) xs = map (\<lambda>x. (wl_id x, WINLINK_VISITED \<in> wl_flags x)) ys"
    using cong [of "\<lambda>(a, b, c, d). (a, d)"] by (simp add: vrow_def comp_def)
  from arg_cong [OF this, of set] show "(\<lambda>x. (wl_id x, WINLINK_VISITED \<in> wl_flags x)) ` set xs = (\<lambda>x. (wl_id x, WINLINK_VISITED \<in> wl_flags x)) ` set ys"
    by simp
qed

lemma map_key3:
  assumes "map key3 xs = map key3 ys"
  shows "map wl_id xs = map wl_id ys" "map wl_idx xs = map wl_idx ys" "map wl_window xs = map wl_window ys" "ids xs = ids ys"
    "indexes xs = indexes ys" "link_keys xs = link_keys ys" "length xs = length ys"
proof -
  note cong = arg_cong [OF assms, of "map g" for g]
  show i: "map wl_id xs = map wl_id ys" using cong [of fst] by (simp add: key3_def comp_def)
  show x: "map wl_idx xs = map wl_idx ys" using cong [of "\<lambda>r. fst (snd r)"] by (simp add: key3_def comp_def)
  show "map wl_window xs = map wl_window ys" using cong [of "\<lambda>r. snd (snd r)"] by (simp add: key3_def comp_def)
  show "ids xs = ids ys" using arg_cong [OF i, of set] by simp
  show "indexes xs = indexes ys" using arg_cong [OF x, of set] by (simp add: indexes_def)
  have "map (\<lambda>x. (wl_id x, wl_window x)) xs = map (\<lambda>x. (wl_id x, wl_window x)) ys"
    using cong [of "\<lambda>(a, b, c). (a, c)"] by (simp add: key3_def comp_def)
  then show "link_keys xs = link_keys ys" by (simp add: link_keys_def)
  show "length xs = length ys" using arg_cong [OF i, of length] by simp
qed

lemma row_key3:
  assumes "map row xs = map row ys"
  shows "map key3 xs = map key3 ys"
  using arg_cong [OF assms, of "map (\<lambda>(a, b, c, d). (a, b, c))"] by (simp add: row_def [abs_def] key3_def [abs_def] comp_def)

lemma session_ok_core:
  assumes "core_of s' = core_of s" "session_ok s"
  shows "session_ok s'"
proof -
  have c: "s_curw s' = s_curw s" "s_lastw s' = s_lastw s" "map vrow (s_windows s') = map vrow (s_windows s)" using assms(1) by (simp_all add: core_of_def)
  note k = map_key3 [OF map_vrow(1) [OF c(3)]] and v = map_vrow(2) [OF c(3)]
  have l: "links_ok (s_windows s')" using links_ok_maps [OF k(1) [symmetric] k(2) [symmetric]] session_okD(2) [OF assms(2)] by simp
  have "WINLINK_VISITED \<in> wl_flags x \<longleftrightarrow> wl_id x \<in> set (s_lastw s)" if x: "x \<in> set (s_windows s')" for x
  proof -
    have "(wl_id x, WINLINK_VISITED \<in> wl_flags x) \<in> (\<lambda>x. (wl_id x, WINLINK_VISITED \<in> wl_flags x)) ` set (s_windows s)"
      unfolding v [symmetric] using x by simp
    then obtain y where "y \<in> set (s_windows s)" "wl_id y = wl_id x" "WINLINK_VISITED \<in> wl_flags y \<longleftrightarrow> WINLINK_VISITED \<in> wl_flags x" by auto
    then show ?thesis using assms(2) by (auto simp: session_ok_def stack_ok_def)
  qed
  then show ?thesis using l c(1,2) k(4) assms(2) by (simp add: session_ok_def stack_ok_def)
qed

lemma same_core_heap:
  assumes "same_core S S'" "sv_heap S sid = Some s"
  shows "\<exists>s'. sv_heap S' sid = Some s' \<and> core_of s' = core_of s"
  using assms unfolding same_core_def by (metis map_option_eq_Some)

lemma same_core_links:
  assumes "same_core S S'"
  shows "map key3 (all_links e S' sid) = map key3 (all_links e S sid)"
proof -
  have "map_option core_of (sv_heap S' sid) = map_option core_of (sv_heap S sid)" using assms by (simp add: same_core_def)
  then have "map vrow (tree S' sid) = map vrow (tree S sid)" by (auto simp: tree_def core_of_def split: option.splits)
  from map_vrow(1) [OF this] show ?thesis by (simp add: all_links_def)
qed

lemma same_core_refs:
  assumes "same_core S S'" "refs_ok h e S"
  shows "refs_ok h e S'"
  using assms(1) by (intro refs_ok_frame [OF assms(2)] map_key3(6) same_core_links) (simp_all add: same_core_def window_core_def [abs_def])

text \<open>Flags other than the mark of the stack.\<close>

lemma link_modify_core:
  assumes "sv_heap S sid = Some s" "l \<in> ids (s_windows s)" "distinct (map wl_id (s_windows s))" "\<And>x. vrow (f x) = vrow x"
  shows "\<exists>S'. link_modify sid l f S = Some S' \<and> same_core S S' \<and>
    S' = put_session sid (s\<lparr>s_windows := wl_modify l f (s_windows s)\<rparr>) S"
proof -
  from wl_deref_exists [OF assms(3,2)] obtain x where "wl_deref (s_windows s) l = Some x" by blast
  moreover have "map vrow (wl_modify l f (s_windows s)) = map vrow (s_windows s)" using assms(4) by (intro wl_modify_map)
  ultimately show ?thesis using assms(1) by (simp add: link_modify_def same_core_def core_of_def)
qed

lemma vrow_alerts:
  "vrow (x\<lparr>wl_flags := wl_flags x - WINLINK_ALERTFLAGS\<rparr>) = vrow x" "vrow (copy_alerts y x) = vrow x"
  by (auto simp: vrow_def WINLINK_ALERTFLAGS_def copy_alerts_def)

lemma each_clear:
  "(\<And>sid l. (sid, l) \<in> set ps \<Longrightarrow> \<exists>s. sv_heap S sid = Some s \<and> l \<in> ids (s_windows s) \<and> distinct (map wl_id (s_windows s))) \<Longrightarrow>
    \<exists>S'. each clear_link ps S = Some S' \<and> same_core S S'"
proof (induction ps arbitrary: S)
  case (Cons p ps)
  obtain sid l where p: "p = (sid, l)" by fastforce
  from Cons.prems [of sid l] p obtain s where s: "sv_heap S sid = Some s" "l \<in> ids (s_windows s)" "distinct (map wl_id (s_windows s))" by auto
  from link_modify_core [OF s vrow_alerts(1)] obtain S1 where S1: "clear_link p S = Some S1" "same_core S S1"
    using p by (auto simp: clear_link_def)
  have "\<exists>s. sv_heap S1 sid = Some s \<and> l \<in> ids (s_windows s) \<and> distinct (map wl_id (s_windows s))" if m: "(sid, l) \<in> set ps" for sid l
  proof -
    obtain s where "sv_heap S sid = Some s" "l \<in> ids (s_windows s)" "distinct (map wl_id (s_windows s))" using Cons.prems m by force
    moreover from same_core_heap [OF S1(2) this(1)] obtain s' where "sv_heap S1 sid = Some s'" "core_of s' = core_of s" by blast
    ultimately show ?thesis using map_key3(1,4) [OF map_vrow(1), of "s_windows s'" "s_windows s"] by (simp add: core_of_def)
  qed
  from Cons.IH [OF this] obtain S' where "each clear_link ps S1 = Some S'" "same_core S1 S'" by blast
  then show ?case using S1 same_core_trans by auto
qed simp

abbreviation no_old :: "nat \<Rightarrow> winlink list" where
  "no_old \<equiv> \<lambda>_. []"

lemma refs_no_old:
  assumes "refs_ok h no_old S" "sv_heap S sid = Some s"
  shows "distinct (map wl_id (s_windows s))" "x \<in> set (s_windows s) \<Longrightarrow> \<exists>w y. wl_window x = Some w \<and> sv_wins S w = Some y"
    "x \<in> set (s_windows s) \<Longrightarrow> wl_id x < sv_next S"
proof -
  have l: "all_links no_old S sid = s_windows s" using assms(2) by (simp add: all_links_def tree_def)
  show "distinct (map wl_id (s_windows s))" using refs_okD(1) [OF assms(1), of sid] l by simp
  show "\<exists>w y. wl_window x = Some w \<and> sv_wins S w = Some y" if "x \<in> set (s_windows s)"
    using refs_okD(3) [OF assms(1), of x sid] owner_alive [OF assms(1), of x sid] that l by fastforce
  show "wl_id x < sv_next S" if "x \<in> set (s_windows s)" using refs_okD(2) [OF assms(1), of x sid] that l by simp
qed

lemma clear_flags_ok:
  assumes "refs_ok h no_old S" "sv_heap S sid = Some s" "l \<in> ids (s_windows s)"
  shows "\<exists>S'. winlink_clear_flags sid l S = Some S' \<and> same_core S S'"
proof -
  from wl_deref_exists [OF refs_no_old(1) [OF assms(1,2)] assms(3)] obtain x where x: "wl_deref (s_windows s) l = Some x" "x \<in> set (s_windows s)" by blast
  from refs_no_old(2) [OF assms(1,2) x(2)] obtain w y where w: "wl_window x = Some w" "sv_wins S w = Some y" by blast
  let ?S = "put_window w (y\<lparr>w_alerts := {}\<rparr>) S"
  have core: "same_core S ?S" using w(2) by (simp add: same_core_def window_core_def)
  have "\<exists>s. sv_heap ?S sid' = Some s \<and> l' \<in> ids (s_windows s) \<and> distinct (map wl_id (s_windows s))" if "(sid', l') \<in> set (w_winlinks y)" for sid' l'
  proof -
    have "(sid', l') \<in> owners (all_links no_old S) w" using that refs_okD(4) [OF assms(1), of w] w(2) by (simp add: window_refs_ok_def)
    then obtain z where "z \<in> set (tree S sid')" "wl_id z = l'" by (auto simp: owners_mem all_links_def)
    then show ?thesis using refs_no_old(1) [OF assms(1), of sid'] by (cases "sv_heap S sid'") (auto simp: tree_def)
  qed
  from each_clear [OF this] obtain S' where "each clear_link (w_winlinks y) ?S = Some S'" "same_core ?S S'" by blast
  then show ?thesis using assms(2) x w core same_core_trans by (auto simp: winlink_clear_flags_def)
qed

section \<open>Setting the current window\<close>

text \<open>One session changes, the others at most lose alerts.\<close>

definition others_same :: "nat \<Rightarrow> server \<Rightarrow> server \<Rightarrow> bool" where
  "others_same sid S S' \<longleftrightarrow> (\<forall>sid'. sid' \<noteq> sid \<longrightarrow> map_option core_of (sv_heap S' sid') = map_option core_of (sv_heap S sid')) \<and>
     SESSIONS S' = SESSIONS S \<and> SESSION_GROUPS S' = SESSION_GROUPS S \<and> sv_nohooks S' = sv_nohooks S"

lemma others_same_refl [simp]: "others_same sid S S"
  by (simp add: others_same_def)

lemma others_same_trans: "others_same sid S S' \<Longrightarrow> others_same sid S' S'' \<Longrightarrow> others_same sid S S''"
  by (simp add: others_same_def)

lemma same_core_others: "same_core S S' \<Longrightarrow> others_same sid S S'"
  by (simp add: same_core_def others_same_def)

lemma others_same_put [simp]: "others_same sid S (put_session sid s S)"
  by (simp add: others_same_def)

lemma keeps_others: "keeps S S' \<Longrightarrow> others_same sid S S'"
  by (simp add: keeps_def others_same_def)

definition new_stack :: "nat \<Rightarrow> session \<Rightarrow> nat list" where
  "new_stack l s = (case s_curw s of None \<Rightarrow> remove1 l (s_lastw s) | Some c \<Rightarrow> c # remove1 l (s_lastw s))"

lemma set_current_ok:
  assumes "refs_ok h no_old S" "sv_heap S sid = Some s" "session_ok s" "l \<in> ids (s_windows s)" "s_curw s \<noteq> Some l"
  shows "\<exists>S' s'. session_set_current sid (Some l) S = Some (0, S') \<and> sv_heap S' sid = Some s' \<and> session_ok s' \<and>
    s_curw s' = Some l \<and> s_lastw s' = new_stack l s \<and> map key3 (s_windows s') = map key3 (s_windows s) \<and>
    refs_ok h no_old S' \<and> others_same sid S S' \<and>
    (\<forall>w. map_option window_core (sv_wins S' w) = map_option window_core (sv_wins S w)) \<and>
    sv_notes S' = sv_notes S \<and> sv_next S' = sv_next S \<and> MARKED_PANE S' = MARKED_PANE S"
proof -
  from stack_change [OF assms(3-5)] obtain s2 where s2: "(do { s1 \<leftarrow> winlink_stack_remove (Some l) s; winlink_stack_push (s_curw s1) s1 }) = Some s2"
    "s_lastw s2 = new_stack l s" "map row (s_windows s2) = map row (s_windows s)" "session_ok (s2\<lparr>s_curw := Some l\<rparr>)"
    by (auto simp: new_stack_def)
  from s2(1) obtain s1 where s1: "winlink_stack_remove (Some l) s = Some s1" "winlink_stack_push (s_curw s1) s1 = Some s2"
    by (auto simp: bind_eq_Some_conv)
  let ?s = "s2\<lparr>s_curw := Some l\<rparr>" and ?S = "put_session sid (s2\<lparr>s_curw := Some l\<rparr>) S"
  note k = row_key3 [OF s2(3)]
  have r: "refs_ok h no_old ?S"
    by (rule refs_ok_frame [OF assms(1)]) (use map_key3(6) [OF k] tree_heap [OF assms(2)] in \<open>simp_all add: all_links_def\<close>)
  have l: "l \<in> ids (s_windows ?s)" using assms(4) map_key3(4) [OF k] by simp
  from clear_flags_ok [OF r, of sid ?s l] l obtain S' where S': "winlink_clear_flags sid l ?S = Some S'" "same_core ?S S'" by auto
  from same_core_heap [OF S'(2), of sid ?s] obtain s' where s': "sv_heap S' sid = Some s'" "core_of s' = core_of ?s" by auto
  have ok': "session_ok s'" by (rule session_ok_core [OF s'(2) s2(4)])
  have eq: "session_set_current sid (Some l) S = Some (0, S')" using assms(2,5) s1 S'(1) by (simp add: session_set_current_def)
  have "map key3 (s_windows s') = map key3 (s_windows s)" using s'(2) map_vrow(1) [of "s_windows s'" "s_windows ?s"] k by (simp add: core_of_def)
  moreover have "others_same sid S S'" using others_same_trans [OF others_same_put same_core_others [OF S'(2)]] .
  ultimately show ?thesis using eq s' s2(2) ok' same_core_refs [OF S'(2) r] S'(2) by (auto simp: core_of_def same_core_def)
qed

section \<open>Neighbours in the tree\<close>

lemma winlink_next_split:
  assumes "distinct (map wl_id (xs @ x # ys))"
  shows "winlink_next (xs @ x # ys) (wl_id x) = (case ys of [] \<Rightarrow> None | y # _ \<Rightarrow> Some (wl_id y))"
proof -
  have "dropWhile (\<lambda>wl. wl_id wl \<noteq> wl_id x) (xs @ x # ys) = x # ys"
  proof -
    have "wl_id x \<notin> ids xs" using assms by simp
    then have "\<forall>y \<in> set xs. wl_id y \<noteq> wl_id x" unfolding image_iff by auto
    then show ?thesis by (induction xs) auto
  qed
  then show ?thesis by (simp add: winlink_next_def split: list.splits)
qed

text \<open>Positions instead of pointers.\<close>

lemma winlink_next_nth:
  assumes "distinct (map wl_id wwl)" "k < length wwl"
  shows "winlink_next wwl (wl_id (wwl ! k)) = (if Suc k < length wwl then Some (wl_id (wwl ! Suc k)) else None)"
proof -
  have s: "wwl = take k wwl @ wwl ! k # drop (Suc k) wwl" using assms(2) by (rule id_take_nth_drop)
  have "winlink_next wwl (wl_id (wwl ! k)) = (case drop (Suc k) wwl of [] \<Rightarrow> None | y # _ \<Rightarrow> Some (wl_id y))"
    using winlink_next_split [of "take k wwl" "wwl ! k" "drop (Suc k) wwl"] assms(1) unfolding s [symmetric] by blast
  then show ?thesis by (cases "Suc k < length wwl") (simp_all add: Cons_nth_drop_Suc [symmetric])
qed

lemma winlink_previous_nth:
  assumes "distinct (map wl_id wwl)" "k < length wwl"
  shows "winlink_previous wwl (wl_id (wwl ! k)) = (if k = 0 then None else Some (wl_id (wwl ! (k - 1))))"
proof -
  let ?k = "length wwl - Suc k"
  have d: "distinct (map wl_id (rev wwl))" using assms(1) by (simp add: rev_map [symmetric])
  have n: "rev wwl ! ?k = wwl ! k" using assms(2) by (simp add: rev_nth)
  have "rev wwl ! Suc ?k = wwl ! (k - 1)" if "k \<noteq> 0"
  proof -
    have "length wwl - Suc (Suc ?k) = k - 1" using that assms(2) by simp
    then show ?thesis using that assms(2) by (simp add: rev_nth)
  qed
  then show ?thesis using winlink_next_nth [OF d, of ?k] assms(2) n by (auto simp: winlink_previous_def)
qed

lemma wl_min_nth: "wwl \<noteq> [] \<Longrightarrow> wl_min wwl = Some (wl_id (wwl ! 0))"
  by (cases wwl) (simp_all add: wl_min_def)

lemma wl_max_nth: "wwl \<noteq> [] \<Longrightarrow> wl_max wwl = Some (wl_id (wwl ! (length wwl - 1)))"
  by (cases wwl rule: rev_cases) (simp_all add: wl_max_def wl_min_def)

lemma next_target_nth:
  assumes "distinct (map wl_id wwl)" "k < length wwl"
  shows "next_target wwl (wl_id (wwl ! k)) False = Some (wl_id (wwl ! (Suc k mod length wwl)))"
proof (cases "Suc k < length wwl")
  case True
  then show ?thesis using winlink_next_nth [OF assms] by (simp add: next_target_def)
next
  case False
  then have "Suc k = length wwl" "wwl \<noteq> []" using assms(2) by auto
  then show ?thesis using winlink_next_nth [OF assms] wl_min_nth by (simp add: next_target_def)
qed

lemma previous_target_nth:
  assumes "distinct (map wl_id wwl)" "k < length wwl"
  shows "previous_target wwl (wl_id (wwl ! k)) False = Some (wl_id (wwl ! ((k + length wwl - 1) mod length wwl)))"
proof (cases "k = 0")
  case True
  then show ?thesis using winlink_previous_nth [OF assms] wl_max_nth [of wwl] assms(2) by (auto simp: previous_target_def)
next
  case False
  then have "(k + length wwl - 1) mod length wwl = k - 1" using assms(2) by (metis Nat.add_diff_assoc2 One_nat_def Suc_leI add.commute bot_nat_0.not_eq_extremum less_imp_diff_less mod_add_self2 mod_less)
  then show ?thesis using False winlink_previous_nth [OF assms] by (simp add: previous_target_def)
qed

text \<open>\<open>:+n\<close> counts round the windows, \<open>:-n\<close> stops at the first one.\<close>

lemma next_by_number_nth:
  assumes "distinct (map wl_id wwl)" "k < length wwl"
  shows "winlink_next_by_number wwl (Some (wl_id (wwl ! k))) n = Some (wl_id (wwl ! ((k + n) mod length wwl)))"
  using assms(2)
proof (induction n arbitrary: k)
  case (Suc n)
  have ne: "wwl \<noteq> []" using Suc.prems by auto
  have step: "(case winlink_next wwl (wl_id (wwl ! k)) of None \<Rightarrow> wl_min wwl | Some l' \<Rightarrow> Some l') = Some (wl_id (wwl ! (Suc k mod length wwl)))"
  proof (cases "Suc k < length wwl")
    case True
    then show ?thesis using winlink_next_nth [OF assms(1) Suc.prems] by simp
  next
    case False
    then have "Suc k = length wwl" using Suc.prems by simp
    then show ?thesis using winlink_next_nth [OF assms(1) Suc.prems] wl_min_nth [OF ne] by simp
  qed
  have "Suc k mod length wwl < length wwl" using ne by simp
  from Suc.IH [OF this] show ?case by (simp add: step mod_add_left_eq)
qed simp

lemma previous_by_number_nth:
  assumes "distinct (map wl_id wwl)" "k < length wwl"
  shows "winlink_previous_by_number wwl (Some (wl_id (wwl ! k))) n = Some (wl_id (wwl ! (k - n)))"
  using assms(2)
proof (induction n arbitrary: k)
  case (Suc n)
  have ne: "wwl \<noteq> []" using Suc.prems by auto
  have "(case winlink_previous wwl (wl_id (wwl ! k)) of None \<Rightarrow> wl_min wwl | Some l' \<Rightarrow> Some l') = Some (wl_id (wwl ! (k - 1)))"
    using winlink_previous_nth [OF assms(1) Suc.prems] wl_min_nth [OF ne] by simp
  then show ?case using Suc.IH [of "k - 1"] Suc.prems by simp
qed simp

end
