(* ===== verification/Session_Sync.thy ===== *)
theory Session_Sync
  imports Session_Current
begin

text \<open>
  Synchronising a session of a group with another one: the session gets the windows of the other at the same
  indexes, keeps its current window and its stack of last windows as far as their indexes are still in use, and no
  window is freed or leaked on the way.
\<close>

section \<open>Leaving the current window\<close>

text \<open>A change of the current window and of alerts.\<close>

definition session_step :: "(nat \<Rightarrow> nat) \<Rightarrow> nat \<Rightarrow> session \<Rightarrow> server \<Rightarrow> session \<Rightarrow> server \<Rightarrow> bool" where
  "session_step h sid s S s' S' \<longleftrightarrow> sv_heap S' sid = Some s' \<and> session_ok s' \<and>
     map key3 (s_windows s') = map key3 (s_windows s) \<and> refs_ok h no_old S' \<and> others_same sid S S' \<and>
     (\<forall>w. map_option window_core (sv_wins S' w) = map_option window_core (sv_wins S w)) \<and>
     sv_notes S' = sv_notes S \<and> sv_next S' = sv_next S \<and> MARKED_PANE S' = MARKED_PANE S"

lemma session_step_refl: "refs_ok h no_old S \<Longrightarrow> sv_heap S sid = Some s \<Longrightarrow> session_ok s \<Longrightarrow> session_step h sid s S s S"
  by (simp add: session_step_def)

lemma set_current_step:
  assumes "refs_ok h no_old S" "sv_heap S sid = Some s" "session_ok s" "l \<in> ids (s_windows s)"
  shows "\<exists>S' s'. session_set_current sid (Some l) S = Some (if s_curw s = Some l then 1 else 0, S') \<and> session_step h sid s S s' S' \<and>
    s_curw s' = Some l \<and> s_lastw s' = (if s_curw s = Some l then s_lastw s else new_stack l s)"
proof (cases "s_curw s = Some l")
  case True
  then show ?thesis using assms session_step_refl [OF assms(1-3)] by (auto simp: session_set_current_def)
next
  case False
  then show ?thesis using set_current_ok [OF assms False] by (auto simp: session_step_def)
qed

definition leave_target :: "session \<Rightarrow> nat \<Rightarrow> nat" where
  "leave_target s c = (case s_lastw s of l # _ \<Rightarrow> l | [] \<Rightarrow> the (previous_target (s_windows s) c False))"

lemma id_position:
  assumes "c \<in> ids wwl"
  shows "\<exists>k < length wwl. wl_id (wwl ! k) = c"
  using assms by (metis imageE in_set_conv_nth)

lemma previous_target_other:
  assumes "distinct (map wl_id wwl)" "c \<in> ids wwl"
  shows "\<exists>p. previous_target wwl c False = Some p \<and> p \<in> ids wwl \<and> (1 < length wwl \<longrightarrow> p \<noteq> c)"
proof -
  from id_position [OF assms(2)] obtain k where k: "k < length wwl" "wl_id (wwl ! k) = c" by blast
  let ?j = "(k + length wwl - 1) mod length wwl"
  have j: "?j < length wwl" using k(1) by (intro mod_less_divisor) linarith
  have "wl_id (wwl ! ?j) \<noteq> c" if "1 < length wwl"
  proof -
    have "?j \<noteq> k" using that k(1) by (cases "k = 0") (auto simp: mod_if)
    then show ?thesis using assms(1) k j by (metis distinct_conv_nth length_map nth_map)
  qed
  then show ?thesis using previous_target_nth [OF assms(1) k(1)] k j by auto
qed

lemma next_target_single: "distinct (map wl_id wwl) \<Longrightarrow> c \<in> ids wwl \<Longrightarrow> \<exists>p. next_target wwl c False = Some p \<and> p \<in> ids wwl \<and> (length wwl = 1 \<longrightarrow> p = c)"
proof -
  assume a: "distinct (map wl_id wwl)" "c \<in> ids wwl"
  from id_position [OF a(2)] obtain k where k: "k < length wwl" "wl_id (wwl ! k) = c" by blast
  have "Suc k mod length wwl < length wwl" using k(1) by (intro mod_less_divisor) linarith
  then show ?thesis using next_target_nth [OF a(1) k(1)] k by auto
qed

lemma leave_current_ok:
  assumes "refs_ok h no_old S" "sv_heap S sid = Some s" "session_ok s" "s_curw s = Some c"
  shows "\<exists>S' s'. leave_current sid S = Some S' \<and> session_step h sid s S s' S' \<and> s_curw s' = Some (leave_target s c) \<and>
    s_lastw s' = (if leave_target s c = c then s_lastw s else c # remove1 (leave_target s c) (s_lastw s)) \<and>
    leave_target s c \<in> ids (s_windows s) \<and> (1 < length (s_windows s) \<longrightarrow> leave_target s c \<noteq> c)"
proof (cases "s_lastw s")
  case (Cons l ls)
  have l: "l \<in> ids (s_windows s)" "c \<noteq> l" using session_okD(5,7) [OF assms(3)] assms(4) Cons by auto
  from set_current_step [OF assms(1-3) l(1)] l(2) assms(4) obtain S' s' where
    "session_set_current sid (Some l) S = Some (0, S')" "session_step h sid s S s' S'" "s_curw s' = Some l" "s_lastw s' = new_stack l s" by auto
  then show ?thesis using assms(2,4) Cons l by (auto simp: leave_current_def session_last_def leave_target_def new_stack_def)
next
  case Nil
  note d = session_okD(3) [OF assms(3)] and c = session_okD(6) [OF assms(3,4)]
  have last: "session_last sid S = Some (- 1, S)" using assms(2) Nil by (simp add: session_last_def)
  from wl_deref_exists [OF d c] obtain x where x: "wl_deref (s_windows s) c = Some x" by blast
  from previous_target_other [OF d c] obtain p where p: "previous_target (s_windows s) c False = Some p" "p \<in> ids (s_windows s)"
    "1 < length (s_windows s) \<longrightarrow> p \<noteq> c" by blast
  have prev: "session_previous sid False S = session_set_current sid (Some p) S" using assms(2,4) x p(1) by (simp add: session_previous_def)
  from set_current_step [OF assms(1-3) p(2)] obtain S1 s1 where
    S1: "session_set_current sid (Some p) S = Some (if s_curw s = Some p then 1 else 0, S1)" "session_step h sid s S s1 S1" "s_curw s1 = Some p"
      "s_lastw s1 = (if s_curw s = Some p then s_lastw s else new_stack p s)" by blast
  show ?thesis
  proof (cases "p = c")
    case False
    then show ?thesis using last prev S1 assms(4) Nil p by (auto simp: leave_current_def leave_target_def new_stack_def)
  next
    case True
    have same: "S1 = S" using S1(1) True assms(2,4) by (simp add: session_set_current_def)
    have one: "length (s_windows s) = 1" using p(3) True c by (cases "s_windows s") (auto simp: Suc_lessI)
    from next_target_single [OF d c] one have n: "next_target (s_windows s) c False = Some c" by auto
    have "session_next sid False S = Some (1, S)" using assms(2,4) x n by (simp add: session_next_def session_set_current_def)
    then show ?thesis using last prev S1 same True assms(4) Nil p one session_step_refl [OF assms(1-3)]
      by (auto simp: leave_current_def leave_target_def)
  qed
qed

section \<open>Copying the links\<close>

definition slot :: "winlink \<Rightarrow> i32 \<times> nat option" where
  "slot x = (wl_idx x, wl_window x)"

abbreviation slots :: "session \<Rightarrow> (i32 \<times> nat option) list" where
  "slots s \<equiv> map slot (s_windows s)"

lemma slots_indexes: "map slot xs = map slot ys \<Longrightarrow> indexes xs = indexes ys"
proof -
  assume "map slot xs = map slot ys"
  from arg_cong [OF this, of "\<lambda>l. fst ` set l"] show ?thesis by (simp add: slot_def [abs_def] indexes_def image_image)
qed

lemma key3_slots: "map key3 xs = map key3 ys \<Longrightarrow> map slot xs = map slot ys"
proof -
  assume "map key3 xs = map key3 ys"
  from arg_cong [OF this, of "map snd"] show ?thesis by (simp add: key3_def [abs_def] slot_def [abs_def] comp_def)
qed

lemma rb_insert_beyond: "\<forall>y \<in> set xs. key y < key x \<Longrightarrow> rb_insert key x xs = xs @ [x]"
proof -
  assume "\<forall>y \<in> set xs. key y < key x"
  moreover from this have "insort_key key x xs = xs @ [x]" by (induction xs) (auto simp: not_le)
  ultimately show ?thesis by (auto simp: rb_insert_def)
qed

lemma winlink_add_at:
  assumes "0 \<le> i"
  shows "winlink_add n wwl i = Some (if i \<in> indexes wwl then None else Some (rb_insert wl_idx (fresh_link n i None) wwl))"
proof (cases "i \<in> indexes wwl")
  case True
  then have "rb_find_by wl_idx i wwl \<noteq> None" by (simp add: rb_find_None indexes_def)
  then show ?thesis using assms True by (auto simp: winlink_add_def winlink_find_by_index_def)
next
  case False
  then have "winlink_find_by_index wwl i = Some None" using assms by (simp add: find_by_index_None indexes_def)
  then show ?thesis using assms False by (simp add: winlink_add_def fresh_link_def)
qed

text \<open>What a new link of the session leaves alone.\<close>

definition grows :: "nat \<Rightarrow> server \<Rightarrow> server \<Rightarrow> bool" where
  "grows sid S S' \<longleftrightarrow> (\<forall>sid'. sid' \<noteq> sid \<longrightarrow> sv_heap S' sid' = sv_heap S sid') \<and> SESSIONS S' = SESSIONS S \<and>
     SESSION_GROUPS S' = SESSION_GROUPS S \<and> sv_nohooks S' = sv_nohooks S \<and> MARKED_PANE S' = MARKED_PANE S \<and>
     sv_next S \<le> sv_next S' \<and> (\<forall>v. sv_wins S' v = None \<longrightarrow> sv_wins S v = None)"

lemma grows_refl [simp]: "grows sid S S"
  by (simp add: grows_def)

lemma grows_trans: "grows sid S S' \<Longrightarrow> grows sid S' S'' \<Longrightarrow> grows sid S S''"
  by (simp add: grows_def)

lemma grows_others: "grows sid S S' \<Longrightarrow> others_same sid S S'"
  by (simp add: grows_def others_same_def)

lemma copy_link_ok:
  assumes "refs_ok h e S" "sv_heap S sid = Some s" "links_ok (s_windows s)" "0 \<le> i" "i \<notin> indexes (s_windows s)"
    and "wl_window x = Some w" "sv_wins S w = Some y"
  shows "\<exists>S'. copy_link sid i x S = Some (sv_next S, S') \<and> refs_ok h e S' \<and> grows sid S S' \<and> sv_notes S' = sv_notes S \<and>
    sv_heap S' sid = Some (s\<lparr>s_windows := rb_insert wl_idx (fresh_link (sv_next S) i (Some w)) (s_windows s)\<rparr>)"
proof -
  from set_window_ok [OF assms(1-3,5,7)] obtain S' where S': "winlink_set_window sid (sv_next S) w
      (put_session sid (s\<lparr>s_windows := rb_insert wl_idx (fresh_link (sv_next S) i None) (s_windows s)\<rparr>) (S\<lparr>sv_next := sv_next S + 1\<rparr>)) = Some S'"
    "refs_ok h e S'" "keeps (put_session sid (s\<lparr>s_windows := rb_insert wl_idx (fresh_link (sv_next S) i (Some w)) (s_windows s)\<rparr>) (S\<lparr>sv_next := sv_next S + 1\<rparr>)) S'"
    "sv_notes S' = sv_notes S" "\<forall>v. sv_wins S' v = None \<longleftrightarrow> sv_wins S v = None" by blast
  have "copy_link sid i x S = Some (sv_next S, S')" using assms(2,4-6) S'(1) by (simp add: copy_link_def winlink_add_at)
  then show ?thesis using S' by (simp add: keeps_def grows_def)
qed

lemma copy_alerts_fresh: "copy_alerts x (fresh_link n i w) = fresh_link n i w\<lparr>wl_flags := wl_flags x \<inter> WINLINK_ALERTFLAGS\<rparr>"
  by (simp add: copy_alerts_def)

definition copied_link :: "nat \<Rightarrow> i32 \<Rightarrow> winlink \<Rightarrow> winlink" where
  "copied_link n i x = \<lparr>wl_id = n, wl_idx = i, wl_window = wl_window x, wl_flags = wl_flags x \<inter> WINLINK_ALERTFLAGS\<rparr>"

lemma copied_link_simps [simp]:
  "wl_id (copied_link n i x) = n" "wl_idx (copied_link n i x) = i" "wl_window (copied_link n i x) = wl_window x"
  "WINLINK_VISITED \<notin> wl_flags (copied_link n i x)"
  by (simp_all add: copied_link_def WINLINK_ALERTFLAGS_def)

lemma wl_deref_append: "wl_deref (xs @ ys) l = (case wl_deref xs l of None \<Rightarrow> wl_deref ys l | Some x \<Rightarrow> Some x)"
  by (induction xs) (simp_all add: wl_deref_def)

text \<open>A copy at the end of the tree, with its alerts.\<close>

lemma copy_last_ok:
  assumes "refs_ok h e S" "sv_heap S sid = Some s" "links_ok (s_windows s)" "0 \<le> i" "i \<le> i32_MAX" "\<forall>j \<in> indexes (s_windows s). j < i"
    and "wl_window x = Some w" "sv_wins S w = Some y"
  shows "\<exists>S1. copy_link sid i x S = Some (sv_next S, S1) \<and> refs_ok h e S1 \<and> grows sid S S1 \<and> sv_notes S1 = sv_notes S \<and>
    (\<forall>S2. keeps S1 S2 \<longrightarrow> refs_ok h e S2 \<longrightarrow> (\<exists>S'. link_modify sid (sv_next S) (copy_alerts x) S2 = Some S' \<and> refs_ok h e S' \<and>
      S' = put_session sid (s\<lparr>s_windows := s_windows s @ [copied_link (sv_next S) i x]\<rparr>) S2)) \<and>
    links_ok (s_windows s @ [copied_link (sv_next S) i x])"
proof -
  have i: "i \<notin> indexes (s_windows s)" using assms(6) by auto
  from copy_link_ok [OF assms(1-4) i assms(7,8)] obtain S1 where S1: "copy_link sid i x S = Some (sv_next S, S1)" "refs_ok h e S1" "grows sid S S1"
    "sv_notes S1 = sv_notes S" "sv_heap S1 sid = Some (s\<lparr>s_windows := rb_insert wl_idx (fresh_link (sv_next S) i (Some w)) (s_windows s)\<rparr>)" by blast
  have app: "rb_insert wl_idx (fresh_link (sv_next S) i (Some w)) (s_windows s) = s_windows s @ [fresh_link (sv_next S) i (Some w)]"
    using assms(6) by (intro rb_insert_beyond) (simp add: indexes_def)
  have n: "sv_next S \<notin> ids (s_windows s)"
  proof
    assume "sv_next S \<in> ids (s_windows s)"
    then obtain z where "z \<in> set (s_windows s)" "wl_id z = sv_next S" by auto
    then show False using refs_okD(2) [OF assms(1), of z sid] tree_heap [OF assms(2)] by (simp add: all_links_def)
  qed
  have "wl_deref (s_windows s) (sv_next S) = None" using n unfolding wl_deref_def find_None_iff image_iff by auto
  then have dr: "wl_deref (s_windows s @ [fresh_link (sv_next S) i (Some w)]) (sv_next S) = Some (fresh_link (sv_next S) i (Some w))"
    by (simp add: wl_deref_append) (simp add: wl_deref_def)
  have "wl_modify (sv_next S) (copy_alerts x) (s_windows s) = s_windows s"
    using n unfolding image_iff by (intro wl_modify_id) auto
  then have mod: "wl_modify (sv_next S) (copy_alerts x) (s_windows s @ [fresh_link (sv_next S) i (Some w)]) = s_windows s @ [copied_link (sv_next S) i x]"
    using assms(7) by (simp add: wl_modify_def copied_link_def copy_alerts_def fresh_link_def)
  have "\<exists>S'. link_modify sid (sv_next S) (copy_alerts x) S2 = Some S' \<and> refs_ok h e S' \<and>
      S' = put_session sid (s\<lparr>s_windows := s_windows s @ [copied_link (sv_next S) i x]\<rparr>) S2"
    if k: "keeps S1 S2" and r: "refs_ok h e S2" for S2
  proof -
    have h2: "sv_heap S2 sid = Some (s\<lparr>s_windows := s_windows s @ [fresh_link (sv_next S) i (Some w)]\<rparr>)" using k S1(5) app by (simp add: keeps_def)
    then have eq: "link_modify sid (sv_next S) (copy_alerts x) S2 = Some (put_session sid (s\<lparr>s_windows := s_windows s @ [copied_link (sv_next S) i x]\<rparr>) S2)"
      using dr mod by (simp add: link_modify_def)
    moreover have "refs_ok h e (put_session sid (s\<lparr>s_windows := s_windows s @ [copied_link (sv_next S) i x]\<rparr>) S2)"
      by (rule refs_ok_frame [OF r]) (use tree_heap [OF h2] assms(7) in \<open>simp_all add: all_links_def link_keys_def\<close>)
    ultimately show ?thesis by simp
  qed
  moreover have "links_ok (s_windows s @ [copied_link (sv_next S) i x])"
    using assms(3-6) n by (auto simp: links_ok_def sorted_wrt_append indexes_def)
  ultimately show ?thesis using S1 by blast
qed

lemma keeps_grows: "keeps S S' \<Longrightarrow> \<forall>v. sv_wins S' v = None \<longleftrightarrow> sv_wins S v = None \<Longrightarrow> grows sid S S'"
  by (simp add: keeps_def grows_def)

lemma put_grows [simp]: "grows sid S (put_session sid s S)"
  by (simp add: grows_def)

definition copies :: "winlink list \<Rightarrow> winlink list \<Rightarrow> bool" where
  "copies xs ys \<longleftrightarrow> map slot ys = map slot xs \<and> (\<forall>y \<in> set ys. WINLINK_VISITED \<notin> wl_flags y)"

lemma sync_link_ok:
  assumes "refs_ok h e S" "sv_heap S sid = Some s" "links_ok (s_windows s)" "0 \<le> wl_idx x" "wl_idx x \<le> i32_MAX"
    "\<forall>j \<in> indexes (s_windows s). j < wl_idx x" "wl_window x = Some w" "sv_wins S w = Some y"
  shows "\<exists>S' z. sync_link sid x S = Some S' \<and> refs_ok h e S' \<and> grows sid S S' \<and>
    sv_heap S' sid = Some (s\<lparr>s_windows := s_windows s @ [z]\<rparr>) \<and> links_ok (s_windows s @ [z]) \<and> copies [x] [z]"
proof -
  let ?z = "copied_link (sv_next S) (wl_idx x) x"
  from copy_last_ok [OF assms(1-8)] obtain S1 where S1: "copy_link sid (wl_idx x) x S = Some (sv_next S, S1)" "refs_ok h e S1" "grows sid S S1"
    "\<And>S2. keeps S1 S2 \<Longrightarrow> refs_ok h e S2 \<Longrightarrow> \<exists>S'. link_modify sid (sv_next S) (copy_alerts x) S2 = Some S' \<and> refs_ok h e S' \<and>
      S' = put_session sid (s\<lparr>s_windows := s_windows s @ [?z]\<rparr>) S2" "links_ok (s_windows s @ [?z])" by blast
  have "sv_wins S1 w \<noteq> None" using S1(3) assms(8) unfolding grows_def by (metis option.distinct(1))
  then obtain y1 where "sv_wins S1 w = Some y1" by blast
  from notify_ok [OF S1(2) this, of "''window-linked''" sid] obtain S2 where S2: "notify_session_window ''window-linked'' sid w S1 = Some S2"
    "refs_ok h e S2" "keeps S1 S2" "\<forall>v. sv_wins S2 v = None \<longleftrightarrow> sv_wins S1 v = None" by blast
  from S1(4) [OF S2(3,2)] obtain S' where S': "link_modify sid (sv_next S) (copy_alerts x) S2 = Some S'" "refs_ok h e S'"
    "S' = put_session sid (s\<lparr>s_windows := s_windows s @ [?z]\<rparr>) S2" by blast
  have "sync_link sid x S = Some S'" using S1(1) S2(1) S'(1) assms(7) by (simp add: sync_link_def)
  moreover have "grows sid S S'" unfolding S'(3) by (rule grows_trans [OF S1(3) grows_trans [OF keeps_grows [OF S2(3,4)] put_grows]])
  ultimately show ?thesis using S' S1(5) by (intro exI [of _ S'] exI [of _ ?z]) (simp add: copies_def slot_def)
qed

definition linkable :: "server \<Rightarrow> winlink list \<Rightarrow> bool" where
  "linkable S tw \<longleftrightarrow> ordered wl_idx tw \<and> (\<forall>x \<in> set tw. 0 \<le> wl_idx x \<and> wl_idx x \<le> i32_MAX \<and> (\<exists>w. wl_window x = Some w \<and> sv_wins S w \<noteq> None))"

lemma linkable_Cons:
  assumes "linkable S (x # tw)" "grows sid S S'"
  shows "linkable S' tw"
proof -
  have "\<exists>w. wl_window z = Some w \<and> sv_wins S' w \<noteq> None" if z: "z \<in> set tw" for z
  proof -
    obtain w where "wl_window z = Some w" "sv_wins S w \<noteq> None" using assms(1) z unfolding linkable_def by (meson list.set_intros(2))
    then show ?thesis using assms(2) by (auto simp: grows_def)
  qed
  then show ?thesis using assms(1) by (simp add: linkable_def)
qed

lemma sync_links_ok:
  assumes "refs_ok h e S" "sv_heap S sid = Some s" "links_ok (s_windows s)" "linkable S tw"
    "\<forall>j \<in> indexes (s_windows s). \<forall>x \<in> set tw. j < wl_idx x"
  shows "\<exists>S' ws. each (sync_link sid) tw S = Some S' \<and> refs_ok h e S' \<and> grows sid S S' \<and>
    sv_heap S' sid = Some (s\<lparr>s_windows := s_windows s @ ws\<rparr>) \<and> links_ok (s_windows s @ ws) \<and> copies tw ws"
  using assms
proof (induction tw arbitrary: S s)
  case Nil
  then show ?case by (intro exI [of _ S] exI [of _ "[]"]) (simp add: copies_def)
next
  case (Cons x tw)
  from Cons.prems(4) obtain w y where w: "wl_window x = Some w" "sv_wins S w = Some y" "0 \<le> wl_idx x" "wl_idx x \<le> i32_MAX"
    by (auto simp: linkable_def)
  have j: "\<forall>j \<in> indexes (s_windows s). j < wl_idx x" using Cons.prems(5) by simp
  from sync_link_ok [OF Cons.prems(1-3) w(3,4) j w(1,2)] obtain S1 z where S1: "sync_link sid x S = Some S1" "refs_ok h e S1" "grows sid S S1"
    "sv_heap S1 sid = Some (s\<lparr>s_windows := s_windows s @ [z]\<rparr>)" "links_ok (s_windows s @ [z])" "copies [x] [z]" by blast
  have "wl_idx z = wl_idx x" using S1(6) by (simp add: copies_def slot_def)
  then have j1: "\<forall>j \<in> indexes (s_windows (s\<lparr>s_windows := s_windows s @ [z]\<rparr>)). \<forall>x \<in> set tw. j < wl_idx x"
    using Cons.prems(4,5) by (auto simp: indexes_def linkable_def)
  have "links_ok (s_windows (s\<lparr>s_windows := s_windows s @ [z]\<rparr>))" using S1(5) by simp
  from Cons.IH [OF S1(2,4) this linkable_Cons [OF Cons.prems(4) S1(3)] j1] obtain S' ws where S': "each (sync_link sid) tw S1 = Some S'" "refs_ok h e S'"
    "grows sid S1 S'" "sv_heap S' sid = Some (s\<lparr>s_windows := s_windows s @ z # ws\<rparr>)" "links_ok (s_windows s @ z # ws)" "copies tw ws" by auto
  have "copies (x # tw) (z # ws)" using S1(6) S'(6) by (simp add: copies_def)
  then show ?case using S1(1) S' grows_trans [OF S1(3) S'(3)] by (intro exI [of _ S'] exI [of _ "z # ws"]) simp
qed

section \<open>The stack of last windows\<close>

text \<open>The links of \<open>new\<close> at the indexes that the links \<open>ls\<close> had in \<open>old\<close>.\<close>

definition idx_at :: "winlink list \<Rightarrow> nat \<Rightarrow> i32 option" where
  "idx_at wwl l = map_option wl_idx (wl_deref wwl l)"

lemma idx_at_Some: "distinct (map wl_id wwl) \<Longrightarrow> idx_at wwl l = Some i \<longleftrightarrow> (\<exists>x \<in> set wwl. wl_id x = l \<and> wl_idx x = i)"
  using wl_deref_Some [of wwl l] by (auto simp: idx_at_def)

definition has_idx :: "winlink list \<Rightarrow> i32 option \<Rightarrow> bool" where
  "has_idx wwl i \<longleftrightarrow> (\<exists>j. i = Some j \<and> j \<in> indexes wwl)"

lemma stack_append_ok:
  assumes "refs_ok h e S" "sv_heap S sid = Some s" "stack_ok s" "l \<in> ids (s_windows s)" "l \<notin> set (s_lastw s)"
  shows "\<exists>S' s'. stack_append sid l S = Some S' \<and> refs_ok h e S' \<and> S' = put_session sid s' S \<and> stack_ok s' \<and>
    s_curw s' = s_curw s \<and> s_lastw s' = s_lastw s @ [l] \<and> map row (s_windows s') = map row (s_windows s)"
proof -
  let ?f = "\<lambda>x. x\<lparr>wl_flags := insert WINLINK_VISITED (wl_flags x)\<rparr>"
  let ?s = "s\<lparr>s_lastw := s_lastw s @ [l], s_windows := wl_modify l ?f (s_windows s)\<rparr>"
  have d: "distinct (map wl_id (s_windows s))" "links_ok (s_windows s)" using assms(3) by (auto simp: stack_ok_def links_ok_def)
  from wl_deref_exists [OF d(1) assms(4)] obtain x where "wl_deref (s_windows s) l = Some x" by blast
  then have eq: "stack_append sid l S = Some (put_session sid ?s S)" using assms(2,5) by (simp add: stack_append_def link_modify_def put_session_def)
  have r: "map row (wl_modify l ?f (s_windows s)) = map row (s_windows s)" by (rule wl_modify_map) (simp add: row_def)
  have "stack_ok ?s"
  proof (rule stack_ok_modify [OF d(2)])
    show "set (s_lastw s @ [l]) \<subseteq> ids (s_windows s)" "distinct (s_lastw s @ [l])" using assms(3-5) by (simp_all add: stack_ok_def)
  qed (use assms(3) in \<open>simp_all add: stack_ok_def\<close>)
  moreover have "refs_ok h e (put_session sid ?s S)"
    by (rule refs_ok_frame [OF assms(1)])
      (use map_key3(6) [OF row_key3 [OF r]] tree_heap [OF assms(2)] in \<open>simp_all add: all_links_def link_keys_def\<close>)
  ultimately show ?thesis using eq r by (intro exI [of _ "put_session sid ?s S"] exI [of _ ?s]) simp
qed

lemma put_session_same: "sv_heap S sid = Some s \<Longrightarrow> put_session sid s S = S"
  by (simp add: put_session_def fun_upd_idem)

lemma put_session_twice [simp]: "put_session sid s' (put_session sid s S) = put_session sid s' S"
  by (simp add: put_session_def)

lemma idx_at_Cons: "idx_at (x # xs) l = (if wl_id x = l then Some (wl_idx x) else idx_at xs l)"
  by (simp add: idx_at_def wl_deref_def)

lemma idx_at_key3:
  assumes "map key3 xs = map key3 ys"
  shows "idx_at xs l = idx_at ys l"
  using assms
proof (induction xs arbitrary: ys)
  case (Cons x xs)
  then obtain y ys' where y: "ys = y # ys'" "key3 x = key3 y" "map key3 xs = map key3 ys'" by auto
  have "wl_id x = wl_id y" "wl_idx x = wl_idx y" using y(2) by (simp_all add: key3_def)
  then show ?case using Cons.IH [OF y(3)] y(1) by (simp add: idx_at_Cons)
qed simp

lemma idx_at_in: "idx_at wwl l = Some i \<Longrightarrow> i \<in> indexes wwl"
  using wl_deref_id by (fastforce simp: idx_at_def indexes_def)

lemma idx_at_ids: "distinct (map wl_id wwl) \<Longrightarrow> l \<in> ids wwl \<Longrightarrow> \<exists>x \<in> set wwl. wl_id x = l \<and> idx_at wwl l = Some (wl_idx x) \<and> wl_deref wwl l = Some x"
  using wl_deref_exists [of wwl l] by (auto simp: idx_at_def)

lemma idx_at_inj: "links_ok wwl \<Longrightarrow> idx_at wwl l = idx_at wwl l' \<Longrightarrow> l \<in> ids wwl \<Longrightarrow> l' \<in> ids wwl \<Longrightarrow> l = l'"
proof -
  assume ok: "links_ok wwl" and eq: "idx_at wwl l = idx_at wwl l'" and l: "l \<in> ids wwl" "l' \<in> ids wwl"
  obtain x x' where x: "x \<in> set wwl" "wl_id x = l" "idx_at wwl l = Some (wl_idx x)" "x' \<in> set wwl" "wl_id x' = l'" "idx_at wwl l' = Some (wl_idx x')"
    using idx_at_ids [OF links_okD(2) [OF ok]] l by metis
  then have "wl_idx x = wl_idx x'" using eq by simp
  then have "x = x'" using x(1,4) strict_distinct [OF links_okD(1) [OF ok]] by (auto dest: inj_onD)
  then show "l = l'" using x by simp
qed

lemma find_idx:
  assumes "links_ok wwl" "0 \<le> i"
  shows "\<exists>r. winlink_find_by_index wwl i = Some r \<and>
    (case r of None \<Rightarrow> i \<notin> indexes wwl | Some x \<Rightarrow> x \<in> set wwl \<and> wl_idx x = i \<and> idx_at wwl (wl_id x) = Some i)"
proof (cases "i \<in> indexes wwl")
  case True
  then obtain x where x: "x \<in> set wwl" "wl_idx x = i" by (auto simp: indexes_def)
  then have "winlink_find_by_index wwl i = Some (Some x)" using find_by_index_Some [OF assms(1)] by blast
  moreover have "idx_at wwl (wl_id x) = Some i" using idx_at_Some [OF links_okD(2) [OF assms(1)]] x by blast
  ultimately show ?thesis using x by (intro exI [of _ "Some x"]) simp
next
  case False
  then show ?thesis using assms(2) find_by_index_None [of wwl i] by (auto simp: indexes_def)
qed

lemma sync_lasts_ok:
  assumes "refs_ok h e S" "sv_heap S sid = Some s" "stack_ok s" "links_ok old" "set ls \<subseteq> ids old" "distinct ls"
    "\<forall>l \<in> set ls. \<forall>l' \<in> set (s_lastw s). idx_at (s_windows s) l' \<noteq> idx_at old l"
  shows "\<exists>S' s'. each (sync_last sid old) ls S = Some S' \<and> refs_ok h e S' \<and> S' = put_session sid s' S \<and> stack_ok s' \<and>
    s_curw s' = s_curw s \<and> map row (s_windows s') = map row (s_windows s) \<and>
    map (idx_at (s_windows s)) (s_lastw s') = map (idx_at (s_windows s)) (s_lastw s) @ filter (has_idx (s_windows s)) (map (idx_at old) ls)"
  using assms
proof (induction ls arbitrary: S s)
  case Nil
  then show ?case by (intro exI [of _ S] exI [of _ s]) (simp add: put_session_same)
next
  case (Cons l ls)
  from idx_at_ids [OF links_okD(2) [OF Cons.prems(4)], of l] Cons.prems(5) obtain x where
    x: "x \<in> set old" "wl_id x = l" "idx_at old l = Some (wl_idx x)" "wl_deref old l = Some x" by auto
  have ok: "links_ok (s_windows s)" using Cons.prems(3) by (simp add: stack_ok_def)
  have "0 \<le> wl_idx x" by (rule links_okD(3) [OF Cons.prems(4) x(1)])
  from find_idx [OF ok this] obtain r where r: "winlink_find_by_index (s_windows s) (wl_idx x) = Some r"
    "case r of None \<Rightarrow> wl_idx x \<notin> indexes (s_windows s) | Some y \<Rightarrow> y \<in> set (s_windows s) \<and> wl_idx y = wl_idx x \<and> idx_at (s_windows s) (wl_id y) = Some (wl_idx x)" by blast
  show ?case
  proof (cases r)
    case None
    have "sync_last sid old l S = Some S" using x r None Cons.prems(2) by (simp add: sync_last_def)
    moreover have "\<not> has_idx (s_windows s) (idx_at old l)" using x r None by (simp add: has_idx_def)
    ultimately show ?thesis using Cons.IH [OF Cons.prems(1-4)] Cons.prems(5-7) by simp
  next
    case (Some y)
    have y: "wl_id y \<in> ids (s_windows s)" "idx_at (s_windows s) (wl_id y) = idx_at old l" using r Some x by auto
    have new: "wl_id y \<notin> set (s_lastw s)" using Cons.prems(7) y(2) by fastforce
    from stack_append_ok [OF Cons.prems(1-3) y(1) new] obtain S1 s1 where S1: "stack_append sid (wl_id y) S = Some S1" "refs_ok h e S1"
      "S1 = put_session sid s1 S" "stack_ok s1" "s_curw s1 = s_curw s" "s_lastw s1 = s_lastw s @ [wl_id y]"
      "map row (s_windows s1) = map row (s_windows s)" by blast
    have same: "idx_at (s_windows s1) = idx_at (s_windows s)" using idx_at_key3 [OF row_key3 [OF S1(7)]] by (simp add: fun_eq_iff)
    have has: "has_idx (s_windows s1) = has_idx (s_windows s)" using map_key3(5) [OF row_key3 [OF S1(7)]] by (simp add: has_idx_def fun_eq_iff)
    have neq: "idx_at old l' \<noteq> idx_at old l" if "l' \<in> set ls" for l'
      using idx_at_inj [OF Cons.prems(4), of l' l] Cons.prems(5,6) that by auto
    have "\<forall>l' \<in> set ls. \<forall>k \<in> set (s_lastw s1). idx_at (s_windows s1) k \<noteq> idx_at old l'"
    proof (intro ballI)
      fix l' k assume l': "l' \<in> set ls" and "k \<in> set (s_lastw s1)"
      then have "k \<in> set (s_lastw s) \<or> k = wl_id y" using S1(6) by auto
      then show "idx_at (s_windows s1) k \<noteq> idx_at old l'" using Cons.prems(7) l' neq [OF l'] y(2) same by auto
    qed
    from Cons.IH [OF S1(2) _ S1(4) Cons.prems(4) _ _ this] S1(3) Cons.prems(5,6) obtain S' s' where S': "each (sync_last sid old) ls S1 = Some S'"
      "refs_ok h e S'" "S' = put_session sid s' S1" "stack_ok s'" "s_curw s' = s_curw s1" "map row (s_windows s') = map row (s_windows s1)"
      "map (idx_at (s_windows s1)) (s_lastw s') = map (idx_at (s_windows s1)) (s_lastw s1) @ filter (has_idx (s_windows s1)) (map (idx_at old) ls)" by auto
    have "sync_last sid old l S = Some S1" using x r Some S1(1) Cons.prems(2) by (simp add: sync_last_def)
    moreover have "has_idx (s_windows s) (idx_at old l)" using y(2) idx_at_in x(3) by (auto simp: has_idx_def)
    ultimately show ?thesis using S' S1(3,5,6,7) y(2) by (intro exI [of _ S'] exI [of _ s']) (simp add: same has)
  qed
qed

section \<open>Freeing the old links\<close>

lemma no_old_upd [simp]: "no_old(sid := []) = no_old"
  by auto

lemma release_old_ok:
  assumes "refs_ok h (no_old(sid := x # old)) S"
  shows "\<exists>S'. winlink_release sid x S = Some S' \<and> refs_ok h (no_old(sid := old)) S' \<and> keeps S S' \<and> sv_notes S' = sv_notes S"
  using release_ok [OF assms, of sid x "no_old(sid := old)"] by (auto simp: link_keys_def)

lemma sync_free_ok:
  assumes "refs_ok h (no_old(sid := x # old)) S" "sv_heap S sid = Some s"
  shows "\<exists>S'. sync_free sid x S = Some S' \<and> refs_ok h (no_old(sid := old)) S' \<and> keeps S S'"
proof -
  have x: "x \<in> set (all_links (no_old(sid := x # old)) S sid)" by (simp add: all_links_def)
  from refs_okD(3) [OF assms(1) x] obtain w where w: "wl_window x = Some w" by blast
  from owner_alive [OF assms(1) x w] obtain y where y: "sv_wins S w = Some y" by blast
  obtain S1 where S1: "(if winlink_find_by_window (s_windows s) w = None then notify_session_window ''window-unlinked'' sid w S else Some S) = Some S1"
    "refs_ok h (no_old(sid := x # old)) S1" "keeps S S1"
    using notify_ok [OF assms(1) y, of "''window-unlinked''" sid] assms(1) by (cases "winlink_find_by_window (s_windows s) w = None") (auto simp: keeps_def)
  from release_old_ok [OF S1(2)] obtain S' where "winlink_release sid x S1 = Some S'" "refs_ok h (no_old(sid := old)) S'" "keeps S1 S'" by blast
  then show ?thesis using assms(2) w S1(1) keeps_trans [OF S1(3)] by (auto simp: sync_free_def)
qed

lemma sync_frees_ok:
  "refs_ok h (no_old(sid := old)) S \<Longrightarrow> sv_heap S sid = Some s \<Longrightarrow> \<exists>S'. each (sync_free sid) old S = Some S' \<and> refs_ok h no_old S' \<and> keeps S S'"
proof (induction old arbitrary: S)
  case Nil
  then show ?case by (simp add: keeps_def)
next
  case (Cons x old)
  from sync_free_ok [OF Cons.prems] obtain S1 where S1: "sync_free sid x S = Some S1" "refs_ok h (no_old(sid := old)) S1" "keeps S S1" by blast
  have "sv_heap S1 sid = Some s" using S1(3) Cons.prems(2) by (simp add: keeps_def)
  from Cons.IH [OF S1(2) this] S1 keeps_trans [OF S1(3)] show ?case by auto
qed

section \<open>Synchronisation\<close>

definition cur_idx :: "session \<Rightarrow> i32 option" where
  "cur_idx s = (case s_curw s of None \<Rightarrow> None | Some c \<Rightarrow> idx_at (s_windows s) c)"

text \<open>The index of the window that a session \<open>s\<close> of a group shows after it was synchronised with \<open>t\<close>: its own if
  \<open>t\<close> has a window there, or where it went when it left its current window, or that of \<open>t\<close> if it had none.\<close>

definition sync_target :: "session \<Rightarrow> session \<Rightarrow> i32 option" where
  "sync_target t s = (case s_curw s of None \<Rightarrow> cur_idx t
     | Some c \<Rightarrow> if has_idx (s_windows t) (cur_idx s) then cur_idx s else idx_at (s_windows s) (leave_target s c))"

definition synced :: "session \<Rightarrow> session \<Rightarrow> session \<Rightarrow> bool" where
  "synced t s s' \<longleftrightarrow> slots s' = slots t \<and>
     cur_idx s' = (if has_idx (s_windows t) (sync_target t s) then sync_target t s else None)"

lemma core_links_ok:
  assumes "core_of t' = core_of t"
  shows "map key3 (s_windows t') = map key3 (s_windows t)" "s_curw t' = s_curw t" "cur_idx t' = cur_idx t"
proof -
  show k: "map key3 (s_windows t') = map key3 (s_windows t)" by (rule map_vrow(1)) (use assms in \<open>simp add: core_of_def\<close>)
  show "s_curw t' = s_curw t" using assms by (simp add: core_of_def)
  then show "cur_idx t' = cur_idx t" using idx_at_key3 [OF k] by (simp add: cur_idx_def split: option.split)
qed

lemma others_heap:
  assumes "others_same sid S S'" "sid' \<noteq> sid" "sv_heap S sid' = Some t"
  shows "\<exists>t'. sv_heap S' sid' = Some t' \<and> core_of t' = core_of t"
proof -
  have "map_option core_of (sv_heap S' sid') = Some (core_of t)" using assms by (simp add: others_same_def)
  then show ?thesis by auto
qed

lemma has_idx_slots:
  assumes "map slot xs = map slot ys"
  shows "has_idx xs i = has_idx ys i"
  using slots_indexes [OF assms] by (simp add: has_idx_def)

text \<open>The first step: the session leaves a window that is gone.\<close>

lemma sync_leave:
  assumes "refs_ok h no_old S" "sv_heap S target = Some t" "sv_heap S sid = Some s" "links_ok (s_windows t)" "session_ok s"
  shows "\<exists>S1 s1 gone. (case s_curw s of None \<Rightarrow> Some False
       | Some c \<Rightarrow> do { wl \<leftarrow> wl_deref (s_windows s) c; found \<leftarrow> winlink_find_by_index (s_windows t) (wl_idx wl); Some (found = None) }) = Some gone \<and>
    (if gone then leave_current sid S else Some S) = Some S1 \<and> session_step h sid s S s1 S1 \<and>
    (s_curw s1 = None \<longleftrightarrow> s_curw s = None) \<and> (s_curw s \<noteq> None \<longrightarrow> cur_idx s1 = sync_target t s)"
proof (cases "s_curw s")
  case None
  then show ?thesis using session_step_refl [OF assms(1,3,5)] by (intro exI [of _ S] exI [of _ s] exI [of _ False]) simp
next
  case (Some c)
  from idx_at_ids [OF session_okD(3) [OF assms(5)] session_okD(6) [OF assms(5) Some]] obtain x where
    x: "x \<in> set (s_windows s)" "wl_id x = c" "idx_at (s_windows s) c = Some (wl_idx x)" "wl_deref (s_windows s) c = Some x" by blast
  have "0 \<le> wl_idx x" by (rule links_okD(3) [OF session_okD(2) [OF assms(5)] x(1)])
  from find_idx [OF assms(4) this] obtain r where r: "winlink_find_by_index (s_windows t) (wl_idx x) = Some r"
    "case r of None \<Rightarrow> wl_idx x \<notin> indexes (s_windows t) | Some y \<Rightarrow> y \<in> set (s_windows t) \<and> wl_idx y = wl_idx x \<and> idx_at (s_windows t) (wl_id y) = Some (wl_idx x)" by blast
  have cur: "cur_idx s = Some (wl_idx x)" using Some x(3) by (simp add: cur_idx_def)
  show ?thesis
  proof (cases r)
    case None
    from leave_current_ok [OF assms(1,3,5) Some] obtain S1 s1 where S1: "leave_current sid S = Some S1" "session_step h sid s S s1 S1"
      "s_curw s1 = Some (leave_target s c)" by blast
    have "idx_at (s_windows s1) (leave_target s c) = idx_at (s_windows s) (leave_target s c)"
      using S1(2) by (intro idx_at_key3) (simp add: session_step_def)
    moreover have "\<not> has_idx (s_windows t) (cur_idx s)" using r None cur by (simp add: has_idx_def)
    ultimately show ?thesis using S1 Some x r None by (intro exI [of _ S1] exI [of _ s1] exI [of _ True]) (simp add: sync_target_def cur_idx_def [of s1])
  next
    case y: (Some y)
    then have "wl_idx x \<in> indexes (s_windows t)" using r(2) idx_at_in [of "s_windows t" "wl_id y"] by simp
    then have "has_idx (s_windows t) (cur_idx s)" using cur by (simp add: has_idx_def)
    then show ?thesis using session_step_refl [OF assms(1,3,5)] Some x r y
      by (intro exI [of _ S] exI [of _ s] exI [of _ False]) (simp add: sync_target_def)
  qed
qed

text \<open>The current window after the links were made anew.\<close>

lemma sync_curw_ok:
  assumes "refs_ok h e S" "sv_heap S sid = Some s" "sv_heap S target = Some t" "links_ok (s_windows s)" "links_ok old" "session_ok t"
    "s_curw s = None \<Longrightarrow> s_curw t \<noteq> None" "\<And>c. s_curw s = Some c \<Longrightarrow> c \<in> ids old"
  defines "i \<equiv> (case s_curw s of None \<Rightarrow> cur_idx t | Some c \<Rightarrow> idx_at old c)"
  shows "\<exists>s'. sync_curw target sid old S = Some (put_session sid s' S) \<and> refs_ok h e (put_session sid s' S) \<and>
    s_windows s' = s_windows s \<and> s_lastw s' = s_lastw s \<and> (\<forall>c. s_curw s' = Some c \<longrightarrow> c \<in> ids (s_windows s)) \<and>
    cur_idx s' = (if has_idx (s_windows s) i then i else None)"
proof -
  have "\<exists>x. (case s_curw s of Some c \<Rightarrow> wl_deref old c | None \<Rightarrow> do { c \<leftarrow> s_curw t; wl_deref (s_windows t) c }) = Some x \<and>
    i = Some (wl_idx x) \<and> 0 \<le> wl_idx x"
  proof (cases "s_curw s")
    case None
    then obtain c where c: "s_curw t = Some c" using assms(7) by blast
    from idx_at_ids [OF session_okD(3) [OF assms(6)] session_okD(6) [OF assms(6) c]] obtain x where
      "x \<in> set (s_windows t)" "idx_at (s_windows t) c = Some (wl_idx x)" "wl_deref (s_windows t) c = Some x" by blast
    then show ?thesis using None c links_okD(3) [OF session_okD(2) [OF assms(6)]] by (simp add: i_def cur_idx_def)
  next
    case (Some c)
    from idx_at_ids [OF links_okD(2) [OF assms(5)] assms(8) [OF Some]] obtain x where
      "x \<in> set old" "idx_at old c = Some (wl_idx x)" "wl_deref old c = Some x" by blast
    then show ?thesis using Some links_okD(3) [OF assms(5)] by (simp add: i_def)
  qed
  then obtain x where x: "(case s_curw s of Some c \<Rightarrow> wl_deref old c | None \<Rightarrow> do { c \<leftarrow> s_curw t; wl_deref (s_windows t) c }) = Some x"
    "i = Some (wl_idx x)" "0 \<le> wl_idx x" by blast
  from find_idx [OF assms(4) x(3)] obtain r where r: "winlink_find_by_index (s_windows s) (wl_idx x) = Some r"
    "case r of None \<Rightarrow> wl_idx x \<notin> indexes (s_windows s) | Some y \<Rightarrow> y \<in> set (s_windows s) \<and> wl_idx y = wl_idx x \<and> idx_at (s_windows s) (wl_id y) = Some (wl_idx x)" by blast
  let ?s = "s\<lparr>s_curw := map_option wl_id r\<rparr>"
  have "sync_curw target sid old S = Some (put_session sid ?s S)" using assms(2,3) x(1) r(1) by (simp add: sync_curw_def)
  moreover have "refs_ok h e (put_session sid ?s S)"
    by (rule refs_ok_frame [OF assms(1)]) (use tree_heap [OF assms(2)] in \<open>simp_all add: all_links_def\<close>)
  moreover have "cur_idx ?s = (if has_idx (s_windows s) i then i else None)"
    using r(2) x(2) idx_at_in by (auto simp: cur_idx_def has_idx_def split: option.splits)
  moreover have "\<forall>c. s_curw ?s = Some c \<longrightarrow> c \<in> ids (s_windows s)" using r(2) by (auto split: option.splits)
  ultimately show ?thesis by (intro exI [of _ ?s]) simp
qed

lemma slots_windows: "map slot xs = map slot ys \<Longrightarrow> map wl_window xs = map wl_window ys"
proof -
  assume "map slot xs = map slot ys"
  from arg_cong [OF this, of "map snd"] show ?thesis by (simp add: slot_def [abs_def] comp_def)
qed

lemma idx_at_not_curw:
  assumes "links_ok wwl" "c \<in> ids wwl" "c \<notin> set ls" "set ls \<subseteq> ids wwl"
  shows "idx_at wwl c \<notin> set (map (idx_at wwl) ls)"
  using assms idx_at_inj [OF assms(1), of c] by fastforce

text \<open>The stack of the new session holds the old indexes that are still in use, and not that of the current window.\<close>

lemma synced_session_ok:
  assumes "stack_ok s'" "\<And>c. s_curw s' = Some c \<Longrightarrow> c \<in> ids (s_windows s')"
    "set (map (idx_at (s_windows s')) (s_lastw s')) \<subseteq> I" "cur_idx s' \<noteq> None \<Longrightarrow> cur_idx s' \<notin> I"
  shows "session_ok s'"
proof -
  have "c \<notin> set (s_lastw s')" if "s_curw s' = Some c" for c
  proof -
    have "distinct (map wl_id (s_windows s'))" using assms(1) by (simp add: stack_ok_def links_ok_def)
    from idx_at_ids [OF this assms(2) [OF that]] have "idx_at (s_windows s') c \<noteq> None" by auto
    then show ?thesis using assms(3,4) that by (auto simp: cur_idx_def)
  qed
  then show ?thesis using assms(1,2) by (simp add: session_ok_def)
qed

lemma synchronize1_ok:
  assumes "refs_ok h no_old S" "sv_heap S target = Some t" "sv_heap S sid = Some s" "target \<noteq> sid" "session_ok t" "session_ok s"
    "s_curw s = None \<Longrightarrow> s_lastw s = [] \<and> s_curw t \<noteq> None" "s_windows t \<noteq> []"
  shows "\<exists>S' s'. session_group_synchronize1 target sid S = Some S' \<and> sv_heap S' sid = Some s' \<and> session_ok s' \<and> refs_ok h no_old S' \<and>
    others_same sid S S' \<and> synced t s s'"
proof -
  note tl = session_okD(2) [OF assms(5)]
  from sync_leave [OF assms(1-3) tl assms(6)] obtain S1 s1 gone where S1: "(case s_curw s of None \<Rightarrow> Some False
       | Some c \<Rightarrow> do { wl \<leftarrow> wl_deref (s_windows s) c; found \<leftarrow> winlink_find_by_index (s_windows t) (wl_idx wl); Some (found = None) }) = Some gone"
    "(if gone then leave_current sid S else Some S) = Some S1" "session_step h sid s S s1 S1"
    "s_curw s1 = None \<longleftrightarrow> s_curw s = None" "s_curw s \<noteq> None \<longrightarrow> cur_idx s1 = sync_target t s" by (elim exE conjE) (rule that)
  have s1: "sv_heap S1 sid = Some s1" "session_ok s1" "refs_ok h no_old S1" "others_same sid S S1" using S1(3) by (simp_all add: session_step_def)
  let ?old = "s_windows s1"
  note old = session_okD(2) [OF s1(2)]
  from others_heap [OF s1(4) assms(4,2)] obtain t1 where t1: "sv_heap S1 target = Some t1" "core_of t1 = core_of t" by blast
  note t1k = core_links_ok [OF t1(2)]
  have t1ok: "session_ok t1" by (rule session_ok_core [OF t1(2) assms(5)])
  let ?s1 = "s1\<lparr>s_windows := []\<rparr>" let ?S1 = "put_session sid ?s1 S1" let ?e = "no_old(sid := ?old)"
  have r1: "refs_ok h ?e ?S1"
    by (rule refs_ok_frame [OF s1(3)]) (use tree_heap [OF s1(1)] in \<open>simp_all add: all_links_def\<close>)
  have "\<exists>w. wl_window x = Some w \<and> sv_wins ?S1 w \<noteq> None" if "x \<in> set (s_windows t1)" for x
    using refs_no_old(2) [OF s1(3) t1(1) that] by auto
  then have link: "linkable ?S1 (s_windows t1)"
    using session_okD(2) [OF t1ok] by (simp add: linkable_def links_ok_def)
  have h1: "sv_heap ?S1 sid = Some ?s1" by simp
  from sync_links_ok [OF r1 h1 _ link] obtain S2 ws where S2: "each (sync_link sid) (s_windows t1) ?S1 = Some S2" "refs_ok h ?e S2"
    "grows sid ?S1 S2" "sv_heap S2 sid = Some (s1\<lparr>s_windows := ws\<rparr>)" "links_ok ws" "copies (s_windows t1) ws"
    by (auto simp: links_ok_def indexes_def)
  have t2: "sv_heap S2 target = Some t1" using S2(3) assms(4) t1(1) by (simp add: grows_def)
  have c1: "s_curw (s1\<lparr>s_windows := ws\<rparr>) = None \<Longrightarrow> s_curw t1 \<noteq> None" using S1(4) assms(7) t1k(2) by simp
  have c2: "\<And>c. s_curw (s1\<lparr>s_windows := ws\<rparr>) = Some c \<Longrightarrow> c \<in> ids ?old" using session_okD(6) [OF s1(2)] by simp
  define i where "i = (case s_curw s1 of None \<Rightarrow> cur_idx t1 | Some c \<Rightarrow> idx_at ?old c)"
  have "links_ok (s_windows (s1\<lparr>s_windows := ws\<rparr>))" using S2(5) by simp
  from sync_curw_ok [OF S2(2,4) t2 this old t1ok c1 c2] obtain s3 where s3: "sync_curw target sid ?old S2 = Some (put_session sid s3 S2)"
    "refs_ok h ?e (put_session sid s3 S2)" "s_windows s3 = ws" "s_lastw s3 = s_lastw s1" "\<And>c. s_curw s3 = Some c \<Longrightarrow> c \<in> ids ws"
    "cur_idx s3 = (if has_idx ws i then i else None)" by (auto simp: i_def)
  let ?s3 = "s3\<lparr>s_lastw := []\<rparr>" let ?S3 = "put_session sid ?s3 S2"
  have r3: "refs_ok h ?e ?S3"
    by (rule refs_ok_frame [OF s3(2)]) simp_all
  have "stack_ok ?s3" using S2(5,6) s3(3) by (simp add: stack_ok_def copies_def)
  note st3 = this
  have h3: "sv_heap ?S3 sid = Some ?s3" by simp
  from sync_lasts_ok [OF r3 h3 st3 old session_okD(5,4) [OF s1(2)]] obtain S4 s4 where S4: "each (sync_last sid ?old) (s_lastw s1) ?S3 = Some S4"
    "refs_ok h ?e S4" "S4 = put_session sid s4 ?S3" "stack_ok s4" "s_curw s4 = s_curw s3" "map row (s_windows s4) = map row ws"
    "map (idx_at ws) (s_lastw s4) = filter (has_idx ws) (map (idx_at ?old) (s_lastw s1))" using s3(3) by auto
  have h4: "sv_heap S4 sid = Some s4" using S4(3) by simp
  from sync_frees_ok [OF S4(2) h4] obtain S' where S': "each (sync_free sid) ?old S4 = Some S'" "refs_ok h no_old S'" "keeps S4 S'" by blast
  note k4 = row_key3 [OF S4(6)]
  have idx4: "idx_at (s_windows s4) = idx_at ws" using idx_at_key3 [OF k4] by (simp add: fun_eq_iff)
  have cur4: "cur_idx s4 = cur_idx s3" using S4(5) idx4 s3(3) by (simp add: cur_idx_def split: option.split)
  have "session_ok s4"
  proof (rule synced_session_ok [OF S4(4)])
    show "set (map (idx_at (s_windows s4)) (s_lastw s4)) \<subseteq> set (map (idx_at ?old) (s_lastw s1))"
      unfolding idx4 S4(7) by auto
    show "c \<in> ids (s_windows s4)" if "s_curw s4 = Some c" for c using that S4(5) s3(5) map_key3(4) [OF k4] by simp
    show "cur_idx s4 \<notin> set (map (idx_at ?old) (s_lastw s1))" if "cur_idx s4 \<noteq> None"
    proof (cases "s_curw s1")
      case (Some c)
      then have "cur_idx s4 = idx_at ?old c" using that cur4 s3(6) by (simp add: i_def split: if_splits)
      then show ?thesis using idx_at_not_curw [OF old session_okD(6,7,5) [OF s1(2)]] Some by simp
    next
      case None
      then have "S1 = S" using S1(1,2,4) by simp
      then have "s1 = s" using s1(1) assms(3) by simp
      then show ?thesis using None assms(7) by simp
    qed
  qed
  have slots: "slots s4 = slots t"
    using key3_slots [OF k4] S2(6) key3_slots [OF t1k(1)] by (simp add: copies_def)
  have "i = sync_target t s"
  proof (cases "s_curw s")
    case None
    then show ?thesis using S1(4) t1k(3) by (simp add: i_def sync_target_def)
  next
    case (Some c)
    then show ?thesis using S1(4,5) by (auto simp: i_def cur_idx_def split: option.splits)
  qed
  then have "cur_idx s4 = (if has_idx (s_windows t) (sync_target t s) then sync_target t s else None)"
    using cur4 s3(6) has_idx_slots [OF slots] has_idx_slots [OF key3_slots [OF k4]] by simp
  then have "synced t s s4" using slots by (simp add: synced_def)
  moreover have "session_group_synchronize1 target sid S = Some S'"
    unfolding session_group_synchronize1_def Let_def using assms(2,3,8) S1(1,2) s1(1) t1(1) S2(1,4) s3(1,4) S4(1) S'(1)
    by simp
  moreover have "others_same sid S S'"
  proof -
    have "grows sid ?S1 S4" unfolding S4(3) by (rule grows_trans [OF S2(3)]) simp
    then have "others_same sid S1 S4" using others_same_trans [OF others_same_put grows_others] by blast
    then show ?thesis using others_same_trans [OF s1(4)] others_same_trans [OF _ keeps_others [OF S'(3)]] by blast
  qed
  moreover have "sv_heap S' sid = Some s4" using S'(3) h4 by (simp add: keeps_def)
  ultimately show ?thesis using \<open>session_ok s4\<close> S'(2) by blast
qed

end
