(* ===== verification/Session_Group.thy ===== *)
theory Session_Group
  imports Session_Sync
begin

text \<open>
  The sessions of a group show the same windows at the same indexes.  A window that is attached to or detached
  from one session of a group is attached to or detached from all of them, and every other session goes on
  showing its current window unless that was the one that went.
\<close>

section \<open>Well-formed servers\<close>

definition live :: "session \<Rightarrow> bool" where
  "live s \<longleftrightarrow> session_ok s \<and> (s_curw s = None \<longleftrightarrow> s_windows s = [])"

definition sessions_ok :: "server \<Rightarrow> bool" where
  "sessions_ok S \<longleftrightarrow> (\<forall>sid s. sv_heap S sid = Some s \<longrightarrow> live s)"

text \<open>A session is in one group at most.\<close>

definition groups_ok :: "server \<Rightarrow> bool" where
  "groups_ok S \<longleftrightarrow> ordered sg_name (SESSION_GROUPS S) \<and>
     (\<forall>sg \<in> set (SESSION_GROUPS S). distinct (sg_sessions sg) \<and> (\<forall>sid \<in> set (sg_sessions sg). sv_heap S sid \<noteq> None)) \<and>
     (\<forall>sg \<in> set (SESSION_GROUPS S). \<forall>sg' \<in> set (SESSION_GROUPS S). \<forall>sid. sid \<in> set (sg_sessions sg) \<longrightarrow> sid \<in> set (sg_sessions sg') \<longrightarrow> sg = sg')"

definition group_synced :: "server \<Rightarrow> session_group \<Rightarrow> bool" where
  "group_synced S sg \<longleftrightarrow> (\<forall>a \<in> set (sg_sessions sg). \<forall>b \<in> set (sg_sessions sg). map slot (tree S a) = map slot (tree S b))"

definition server_ok :: "(nat \<Rightarrow> nat) \<Rightarrow> server \<Rightarrow> bool" where
  "server_ok h S \<longleftrightarrow> refs_ok h no_old S \<and> sessions_ok S \<and> groups_ok S \<and> (\<forall>sg \<in> set (SESSION_GROUPS S). group_synced S sg)"

text \<open>The sessions that share the windows of a session.\<close>

definition group_of :: "nat \<Rightarrow> server \<Rightarrow> nat set" where
  "group_of sid S = (case session_group_contains sid S of None \<Rightarrow> {sid} | Some sg \<Rightarrow> set (sg_sessions sg))"

lemma group_contains_Some:
  "session_group_contains sid S = Some sg \<Longrightarrow> sg \<in> set (SESSION_GROUPS S) \<and> sid \<in> set (sg_sessions sg)"
  unfolding session_group_contains_def by (rule find_SomeD)

lemma group_contains_member:
  assumes "groups_ok S" "sg \<in> set (SESSION_GROUPS S)" "sid \<in> set (sg_sessions sg)"
  shows "session_group_contains sid S = Some sg"
proof (cases "session_group_contains sid S")
  case None
  then have "\<not> (\<exists>sg. sg \<in> set (SESSION_GROUPS S) \<and> sid \<in> set (sg_sessions sg))"
    by (simp add: session_group_contains_def find_None_iff)
  then show ?thesis using assms(2,3) by blast
next
  case (Some sg')
  then have "sg' \<in> set (SESSION_GROUPS S)" "sid \<in> set (sg_sessions sg')" using group_contains_Some by blast+
  then have "sg = sg'" using assms unfolding groups_ok_def by blast
  then show ?thesis using Some by simp
qed

lemma group_of_self [simp]: "sid \<in> group_of sid S"
  using group_contains_Some by (auto simp: group_of_def split: option.split)

section \<open>Synchronising a group\<close>

lemma winlink_next_ids: "winlink_next wwl l = (case dropWhile (\<lambda>i. i \<noteq> l) (map wl_id wwl) of _ # i # _ \<Rightarrow> Some i | _ \<Rightarrow> None)"
  by (induction wwl) (auto simp: winlink_next_def split: list.splits)

lemma previous_target_ids:
  assumes "map wl_id xs = map wl_id ys"
  shows "previous_target xs c False = previous_target ys c False"
proof -
  have "wl_max zs = (case rev (map wl_id zs) of [] \<Rightarrow> None | i # _ \<Rightarrow> Some i)" for zs
    by (cases zs rule: rev_cases) (simp_all add: wl_max_def wl_min_def)
  then have m: "wl_max xs = wl_max ys" using assms by simp
  have p: "winlink_previous xs c = winlink_previous ys c"
    by (simp add: winlink_previous_def winlink_next_ids rev_map [symmetric] assms)
  show ?thesis unfolding previous_target_def m p by simp
qed

lemma synced_core:
  assumes "synced t' s1 s'" "core_of t' = core_of t" "core_of s1 = core_of s"
  shows "synced t s s'"
proof -
  note t = core_links_ok [OF assms(2)] and s = core_links_ok [OF assms(3)]
  have "leave_target s1 c = leave_target s c" for c
    using assms(3) previous_target_ids [OF map_key3(1) [OF s(1)]] by (simp add: leave_target_def core_of_def split: list.split)
  moreover have "idx_at (s_windows s1) = idx_at (s_windows s)" using idx_at_key3 [OF s(1)] by (simp add: fun_eq_iff)
  ultimately have "sync_target t' s1 = sync_target t s"
    using t(3) s(2,3) has_idx_slots [OF key3_slots [OF t(1)]] by (simp add: sync_target_def split: option.split)
  then show ?thesis using assms(1) key3_slots [OF t(1)] has_idx_slots [OF key3_slots [OF t(1)]] by (simp add: synced_def)
qed

definition syncable :: "session \<Rightarrow> session \<Rightarrow> bool" where
  "syncable t s \<longleftrightarrow> session_ok s \<and> (s_curw s = None \<longrightarrow> s_lastw s = [] \<and> s_curw t \<noteq> None)"

lemma syncable_core: "syncable t s \<Longrightarrow> core_of t' = core_of t \<Longrightarrow> core_of s' = core_of s \<Longrightarrow> syncable t' s'"
  using session_ok_core by (auto simp: syncable_def core_of_def)

abbreviation sync_member :: "nat \<Rightarrow> nat \<Rightarrow> server \<Rightarrow> server option" where
  "sync_member target \<equiv> \<lambda>sid S. if sid \<noteq> target then session_group_synchronize1 target sid S else Some S"

text \<open>The sessions outside of a set keep their core.\<close>

definition outside_same :: "nat set \<Rightarrow> server \<Rightarrow> server \<Rightarrow> bool" where
  "outside_same A S S' \<longleftrightarrow> (\<forall>sid. sid \<notin> A \<longrightarrow> map_option core_of (sv_heap S' sid) = map_option core_of (sv_heap S sid)) \<and>
     SESSIONS S' = SESSIONS S \<and> SESSION_GROUPS S' = SESSION_GROUPS S \<and> sv_nohooks S' = sv_nohooks S"

lemma others_outside: "others_same sid S S' = outside_same {sid} S S'"
  by (simp add: others_same_def outside_same_def)

lemma outside_same_trans: "outside_same A S S' \<Longrightarrow> outside_same B S' S'' \<Longrightarrow> outside_same (A \<union> B) S S''"
  by (simp add: outside_same_def)

lemma outside_heap:
  assumes "outside_same A S S'" "sid \<notin> A" "sv_heap S sid = Some t"
  shows "\<exists>t'. sv_heap S' sid = Some t' \<and> core_of t' = core_of t"
proof -
  have "map_option core_of (sv_heap S' sid) = Some (core_of t)" using assms by (simp add: outside_same_def)
  then show ?thesis by auto
qed

lemma sync_members_ok:
  assumes "refs_ok h no_old S" "sv_heap S target = Some t" "session_ok t" "s_windows t \<noteq> []" "distinct ls"
    "\<And>sid. sid \<in> set ls \<Longrightarrow> sid \<noteq> target \<Longrightarrow> \<exists>s. sv_heap S sid = Some s \<and> syncable t s"
  shows "\<exists>S'. each (sync_member target) ls S = Some S' \<and> refs_ok h no_old S' \<and> outside_same (set ls - {target}) S S' \<and>
    (\<forall>sid \<in> set ls - {target}. \<forall>s. sv_heap S sid = Some s \<longrightarrow> (\<exists>s'. sv_heap S' sid = Some s' \<and> session_ok s' \<and> synced t s s'))"
  using assms
proof (induction ls arbitrary: S t)
  case Nil
  then show ?case by (simp add: outside_same_def)
next
  case (Cons sid ls)
  show ?case
  proof (cases "sid = target")
    case True
    then have "set (sid # ls) - {target} = set ls - {target}" by auto
    then show ?thesis using Cons.IH [OF Cons.prems(1-4)] Cons.prems(5,6) True by simp
  next
    case False
    from Cons.prems(6) [of sid] False obtain s where s: "sv_heap S sid = Some s" "syncable t s" by auto
    from s(2) have sy: "session_ok s" "s_curw s = None \<Longrightarrow> s_lastw s = [] \<and> s_curw t \<noteq> None" by (auto simp: syncable_def)
    have ne: "target \<noteq> sid" using False by simp
    from synchronize1_ok [OF Cons.prems(1,2) s(1) ne Cons.prems(3) sy Cons.prems(4)] obtain S1 s1 where
      S1: "session_group_synchronize1 target sid S = Some S1" "sv_heap S1 sid = Some s1" "session_ok s1" "refs_ok h no_old S1" "others_same sid S S1" "synced t s s1" by blast
    from others_heap [OF S1(5) ne Cons.prems(2)] obtain t1 where t1: "sv_heap S1 target = Some t1" "core_of t1 = core_of t" by blast
    have t1ok: "session_ok t1" "s_windows t1 \<noteq> []"
      using session_ok_core [OF t1(2) Cons.prems(3)] Cons.prems(4) map_key3(7) [OF core_links_ok(1) [OF t1(2)]] by auto
    have rest: "\<exists>s. sv_heap S1 sid' = Some s \<and> syncable t1 s" if m: "sid' \<in> set ls" "sid' \<noteq> target" for sid'
    proof -
      obtain s' where s': "sv_heap S sid' = Some s'" "syncable t s'" using Cons.prems(6) [of sid'] m by auto
      have "sid' \<noteq> sid" using Cons.prems(5) m(1) by auto
      from others_heap [OF S1(5) this s'(1)] show ?thesis using syncable_core [OF s'(2) t1(2)] by blast
    qed
    have "distinct ls" using Cons.prems(5) by simp
    from Cons.IH [OF S1(4) t1(1) t1ok this rest] obtain S' where S': "each (sync_member target) ls S1 = Some S'" "refs_ok h no_old S'"
      "outside_same (set ls - {target}) S1 S'"
      "\<And>sid s. sid \<in> set ls - {target} \<Longrightarrow> sv_heap S1 sid = Some s \<Longrightarrow> \<exists>s'. sv_heap S' sid = Some s' \<and> session_ok s' \<and> synced t1 s s'" by blast
    have "outside_same (set (sid # ls) - {target}) S S'"
    proof -
      have "{sid} \<union> (set ls - {target}) = set (sid # ls) - {target}" using False by auto
      then show ?thesis using outside_same_trans [OF S1(5) [unfolded others_outside] S'(3)] by simp
    qed
    moreover have "\<exists>s'. sv_heap S' k = Some s' \<and> session_ok s' \<and> synced t sk s'" if k: "k \<in> set (sid # ls) - {target}" "sv_heap S k = Some sk" for k sk
    proof (cases "k = sid")
      case True
      have "sid \<notin> set ls - {target}" using Cons.prems(5) by simp
      from outside_heap [OF S'(3) this S1(2)] obtain s' where s': "sv_heap S' sid = Some s'" "core_of s' = core_of s1" by blast
      have "synced t s s'"
        using S1(6) key3_slots [OF core_links_ok(1) [OF s'(2)]] core_links_ok(3) [OF s'(2)] by (simp add: synced_def)
      then show ?thesis using True k(2) s(1) s' session_ok_core [OF s'(2) S1(3)] by simp
    next
      case kn: False
      from others_heap [OF S1(5) kn k(2)] obtain sk1 where sk1: "sv_heap S1 k = Some sk1" "core_of sk1 = core_of sk" by blast
      have "k \<in> set ls - {target}" using k(1) kn by auto
      from S'(4) [OF this sk1(1)] show ?thesis using synced_core [OF _ t1(2) sk1(2)] by blast
    qed
    ultimately show ?thesis using S1(1) S'(1,2) False by simp
  qed
qed

lemma synchronize_from_ok:
  assumes "refs_ok h no_old S" "groups_ok S" "sv_heap S target = Some t" "session_ok t" "s_windows t \<noteq> []"
    "\<forall>m \<in> group_of target S - {target}. \<forall>s. sv_heap S m = Some s \<longrightarrow> syncable t s"
  shows "\<exists>S'. session_group_synchronize_from target S = Some S' \<and> refs_ok h no_old S' \<and> outside_same (group_of target S - {target}) S S' \<and>
    (\<forall>sid \<in> group_of target S - {target}. \<forall>s. sv_heap S sid = Some s \<longrightarrow> (\<exists>s'. sv_heap S' sid = Some s' \<and> session_ok s' \<and> synced t s s'))"
proof (cases "session_group_contains target S")
  case None
  then show ?thesis using assms(1) by (simp add: session_group_synchronize_from_def group_of_def outside_same_def)
next
  case (Some sg)
  then have sg: "sg \<in> set (SESSION_GROUPS S)" using group_contains_Some by blast
  then have d: "distinct (sg_sessions sg)" "\<And>sid. sid \<in> set (sg_sessions sg) \<Longrightarrow> sv_heap S sid \<noteq> None" using assms(2) by (auto simp: groups_ok_def)
  have g: "group_of target S = set (sg_sessions sg)" using Some by (simp add: group_of_def)
  have "\<exists>s. sv_heap S sid = Some s \<and> syncable t s" if "sid \<in> set (sg_sessions sg)" "sid \<noteq> target" for sid
    using d(2) [OF that(1)] assms(6) that g by auto
  from sync_members_ok [OF assms(1,3-5) d(1) this] show ?thesis using Some g by (simp add: session_group_synchronize_from_def)
qed

section \<open>Attaching a window\<close>

lemma session_ok_insert:
  assumes "session_ok s" "n \<notin> ids (s_windows s)" "i \<notin> indexes (s_windows s)" "0 \<le> i" "i \<le> i32_MAX"
  shows "session_ok (s\<lparr>s_windows := rb_insert wl_idx (fresh_link n i w) (s_windows s)\<rparr>)"
proof -
  let ?x = "fresh_link n i w"
  have ins: "links_ok (rb_insert wl_idx ?x (s_windows s))" "set (rb_insert wl_idx ?x (s_windows s)) = insert ?x (set (s_windows s))"
    using links_ok_insert(1,2) [OF session_okD(2) [OF assms(1)], of ?x] assms(2-5) by (simp_all add: indexes_def)
  have n: "n \<notin> set (s_lastw s)" using assms(2) session_okD(5) [OF assms(1)] by blast
  have "stack_ok (s\<lparr>s_windows := rb_insert wl_idx ?x (s_windows s)\<rparr>)"
    using session_okD(1) [OF assms(1)] n by (simp add: stack_ok_def ins subset_insertI2)
  then show ?thesis using session_okD(6,7) [OF assms(1)] by (simp add: session_ok_def ins(2))
qed

lemma next_fresh:
  assumes "refs_ok h no_old S" "sv_heap S sid = Some s"
  shows "sv_next S \<notin> ids (s_windows s)"
proof
  assume "sv_next S \<in> ids (s_windows s)"
  then obtain x where "x \<in> set (s_windows s)" "wl_id x = sv_next S" by auto
  then show False using refs_no_old(3) [OF assms] by fastforce
qed

lemma attach_ok:
  assumes "refs_ok h no_old S" "groups_ok S" "sv_heap S sid = Some s" "session_ok s" "i \<notin> indexes (s_windows s)" "0 \<le> i" "i \<le> i32_MAX"
    and "winlink_add (sv_next S) (s_windows s) idx = Some (Some (rb_insert wl_idx (fresh_link (sv_next S) i None) (s_windows s)))"
    and "sv_wins S w = Some y"
    and "\<forall>m \<in> group_of sid S - {sid}. \<forall>sm. sv_heap S m = Some sm \<longrightarrow> session_ok sm \<and> s_curw sm \<noteq> None"
  defines "s1 \<equiv> s\<lparr>s_windows := rb_insert wl_idx (fresh_link (sv_next S) i (Some w)) (s_windows s)\<rparr>"
  shows "\<exists>S' s'. session_attach sid w idx S = Some (Some (sv_next S), S') \<and> refs_ok h no_old S' \<and> session_ok s1 \<and>
    sv_heap S' sid = Some s' \<and> core_of s' = core_of s1 \<and> outside_same (group_of sid S) S S' \<and>
    (\<forall>m \<in> group_of sid S - {sid}. \<forall>sm. sv_heap S m = Some sm \<longrightarrow> (\<exists>sm'. sv_heap S' m = Some sm' \<and> session_ok sm' \<and> synced s1 sm sm'))"
proof -
  have ok1: "session_ok s1" unfolding s1_def by (rule session_ok_insert [OF assms(4) next_fresh [OF assms(1,3)] assms(5-7)])
  have ne: "s_windows s1 \<noteq> []" using assms(5) by (simp add: s1_def rb_insert_def indexes_def)
  from set_window_ok [OF assms(1,3) session_okD(2) [OF assms(4)] assms(5,9)] obtain S1 where S1:
    "winlink_set_window sid (sv_next S) w (put_session sid (s\<lparr>s_windows := rb_insert wl_idx (fresh_link (sv_next S) i None) (s_windows s)\<rparr>) (S\<lparr>sv_next := sv_next S + 1\<rparr>)) = Some S1"
    "refs_ok h no_old S1" "keeps (put_session sid s1 (S\<lparr>sv_next := sv_next S + 1\<rparr>)) S1" "\<And>v. sv_wins S1 v = None \<longleftrightarrow> sv_wins S v = None"
    by (auto simp: s1_def)
  obtain y1 where "sv_wins S1 w = Some y1" using S1(4) [of w] assms(9) by auto
  from notify_ok [OF S1(2) this, of "''window-linked''" sid] obtain S2 where S2: "notify_session_window ''window-linked'' sid w S1 = Some S2"
    "refs_ok h no_old S2" "keeps S1 S2" by blast
  have k: "keeps (put_session sid s1 (S\<lparr>sv_next := sv_next S + 1\<rparr>)) S2" by (rule keeps_trans [OF S1(3) S2(3)])
  have heap: "sv_heap S2 = (sv_heap S)(sid \<mapsto> s1)" and glob: "SESSIONS S2 = SESSIONS S" "SESSION_GROUPS S2 = SESSION_GROUPS S" "sv_nohooks S2 = sv_nohooks S"
    using k by (simp_all add: keeps_def)
  have grp: "group_of sid S2 = group_of sid S" using glob(2) by (simp add: group_of_def session_group_contains_def)
  have gok: "groups_ok S2" using assms(2) heap glob(2) by (simp add: groups_ok_def)
  have h2: "sv_heap S2 sid = Some s1" using heap by simp
  have sy: "syncable s1 sm" if m: "m \<in> group_of sid S2 - {sid}" "sv_heap S2 m = Some sm" for m sm
  proof -
    have "sv_heap S m = Some sm" "m \<in> group_of sid S - {sid}" using m heap grp by auto
    then have "session_ok sm \<and> s_curw sm \<noteq> None" using assms(10) by blast
    then show ?thesis by (auto simp: syncable_def)
  qed
  then have "\<forall>m \<in> group_of sid S2 - {sid}. \<forall>sm. sv_heap S2 m = Some sm \<longrightarrow> syncable s1 sm" by blast
  from synchronize_from_ok [OF S2(2) gok h2 ok1 ne this] obtain S' where S': "session_group_synchronize_from sid S2 = Some S'" "refs_ok h no_old S'"
    "outside_same (group_of sid S - {sid}) S2 S'"
    "\<And>m sm. m \<in> group_of sid S - {sid} \<Longrightarrow> sv_heap S2 m = Some sm \<Longrightarrow> \<exists>sm'. sv_heap S' m = Some sm' \<and> session_ok sm' \<and> synced s1 sm sm'"
    unfolding grp by blast
  have eq: "session_attach sid w idx S = Some (Some (sv_next S), S')"
    using assms(3,8) S1(1) S2(1) S'(1) by (simp add: session_attach_def)
  have "sid \<notin> group_of sid S - {sid}" by simp
  from outside_heap [OF S'(3) this h2] obtain s' where s': "sv_heap S' sid = Some s'" "core_of s' = core_of s1" by blast
  have "outside_same {sid} S S2" using heap glob by (simp add: outside_same_def)
  moreover have "{sid} \<union> (group_of sid S - {sid}) = group_of sid S" by auto
  ultimately have "outside_same (group_of sid S) S S'" using outside_same_trans [OF _ S'(3), of "{sid}" S] by simp
  moreover have "\<exists>sm'. sv_heap S' m = Some sm' \<and> session_ok sm' \<and> synced s1 sm sm'" if "m \<in> group_of sid S - {sid}" "sv_heap S m = Some sm" for m sm
    using S'(4) [of m sm] that heap by auto
  ultimately show ?thesis using eq S'(2) ok1 s' by blast
qed

section \<open>The whole server\<close>

lemma live_core: "core_of s' = core_of s \<Longrightarrow> live s \<Longrightarrow> live s'"
  using session_ok_core [of s' s] map_key3(7) [OF core_links_ok(1) [of s' s]]
  by (auto simp: live_def core_of_def)

lemma tree_core:
  assumes "map_option core_of (sv_heap S' m) = map_option core_of (sv_heap S m)"
  shows "map key3 (tree S' m) = map key3 (tree S m)"
proof (cases "sv_heap S m")
  case None
  then show ?thesis using assms by (simp add: tree_def)
next
  case (Some s)
  then obtain s' where "sv_heap S' m = Some s'" "core_of s' = core_of s" using assms by auto
  then show ?thesis using Some core_links_ok(1) [of s' s] by (simp add: tree_def)
qed

lemma live_lastw: "live s \<Longrightarrow> s_curw s = None \<Longrightarrow> s_lastw s = []"
  using session_okD(5) [of s] by (auto simp: live_def)

lemma groups_ok_heap:
  assumes "groups_ok S" "SESSION_GROUPS S' = SESSION_GROUPS S" "\<And>sid. sv_heap S sid \<noteq> None \<Longrightarrow> sv_heap S' sid \<noteq> None"
  shows "groups_ok S'"
  using assms(1,3) unfolding groups_ok_def assms(2) by blast

lemma member_heap:
  assumes "groups_ok S" "sv_heap S sid = Some s" "m \<in> group_of sid S"
  shows "\<exists>sm. sv_heap S m = Some sm"
proof (cases "session_group_contains sid S")
  case None
  then show ?thesis using assms(2,3) by (simp add: group_of_def)
next
  case (Some sg)
  then show ?thesis using assms(1,3) group_contains_Some [OF Some] by (auto simp: group_of_def groups_ok_def)
qed

lemma group_slots:
  assumes "server_ok h S" "sv_heap S sid = Some s" "m \<in> group_of sid S" "sv_heap S m = Some sm"
  shows "slots sm = slots s"
proof (cases "session_group_contains sid S")
  case None
  then show ?thesis using assms(2-4) by (simp add: group_of_def)
next
  case (Some sg)
  then have "m \<in> set (sg_sessions sg)" "sid \<in> set (sg_sessions sg)" "group_synced S sg"
    using assms(1,3) group_contains_Some [OF Some] by (simp_all add: group_of_def server_ok_def)
  then have "map slot (tree S m) = map slot (tree S sid)" unfolding group_synced_def by blast
  then show ?thesis using tree_heap [OF assms(2)] tree_heap [OF assms(4)] by simp
qed

text \<open>A change of the windows of one group that leaves its sessions well-formed and in step.\<close>

lemma server_ok_group_change:
  assumes "server_ok h S" "refs_ok h no_old S'" "outside_same (group_of sid S) S S'" "sv_heap S sid = Some s"
    "\<And>m sm. m \<in> group_of sid S \<Longrightarrow> sv_heap S m = Some sm \<Longrightarrow> \<exists>sm'. sv_heap S' m = Some sm' \<and> live sm' \<and> slots sm' = sl"
  shows "server_ok h S'"
proof -
  have ok: "sessions_ok S" "groups_ok S" "\<And>sg. sg \<in> set (SESSION_GROUPS S) \<Longrightarrow> group_synced S sg" using assms(1) by (auto simp: server_ok_def)
  have glob: "SESSION_GROUPS S' = SESSION_GROUPS S" using assms(3) by (simp add: outside_same_def)
  have heap: "map_option core_of (sv_heap S' m) = map_option core_of (sv_heap S m)" if "m \<notin> group_of sid S" for m
    using assms(3) that by (simp add: outside_same_def)
  have inG: "\<exists>sm'. sv_heap S' m = Some sm' \<and> live sm' \<and> slots sm' = sl" if "m \<in> group_of sid S" for m
    using member_heap [OF ok(2) assms(4) that] assms(5) that by blast
  have "live sm'" if m: "sv_heap S' m = Some sm'" for m sm'
  proof (cases "m \<in> group_of sid S")
    case True
    then show ?thesis using inG m by fastforce
  next
    case False
    then obtain sm where "sv_heap S m = Some sm" "core_of sm' = core_of sm" using heap [OF False] m by (cases "sv_heap S m") auto
    then show ?thesis using ok(1) live_core by (auto simp: sessions_ok_def)
  qed
  moreover have "groups_ok S'"
  proof (rule groups_ok_heap [OF ok(2) glob])
    show "sv_heap S' m \<noteq> None" if "sv_heap S m \<noteq> None" for m
      using that heap [of m] inG [of m] by (cases "m \<in> group_of sid S") auto
  qed
  moreover have "group_synced S' sg" if sg: "sg \<in> set (SESSION_GROUPS S)" for sg
  proof (cases "sid \<in> set (sg_sessions sg)")
    case True
    then have "group_of sid S = set (sg_sessions sg)" using group_contains_member [OF ok(2) sg] by (simp add: group_of_def)
    then have "map slot (tree S' m) = sl" if "m \<in> set (sg_sessions sg)" for m using inG [of m] that by (auto simp: tree_def)
    then show ?thesis by (simp add: group_synced_def)
  next
    case False
    have out: "m \<notin> group_of sid S" if m: "m \<in> set (sg_sessions sg)" for m
    proof
      assume g: "m \<in> group_of sid S"
      show False
      proof (cases "session_group_contains sid S")
        case None
        then show False using g m False by (simp add: group_of_def)
      next
        case (Some sg')
        then have "m \<in> set (sg_sessions sg')" "sg' \<in> set (SESSION_GROUPS S)" "sid \<in> set (sg_sessions sg')"
          using g group_contains_Some [OF Some] by (simp_all add: group_of_def)
        then show False using ok(2) sg m False unfolding groups_ok_def by blast
      qed
    qed
    have "map slot (tree S' m) = map slot (tree S m)" if "m \<in> set (sg_sessions sg)" for m
      by (rule key3_slots) (rule tree_core [OF heap [OF out [OF that]]])
    then have "group_synced S' sg \<longleftrightarrow> group_synced S sg" unfolding group_synced_def by simp
    then show ?thesis using ok(3) [OF sg] by simp
  qed
  ultimately show ?thesis using assms(2) glob by (simp add: server_ok_def sessions_ok_def)
qed

end
