(* ===== verification/Session_Sound.thy ===== *)
theory Session_Sound
  imports Session_Group
begin

text \<open>
  What the operations on the windows of sessions promise, alone and across the sessions of a group, and where
  they fall short.
\<close>

section \<open>Two sessions that share two windows\<close>

definition shared :: server where
  "shared = \<lparr>
     sv_heap = [1 \<mapsto> \<lparr>s_curw = Some 0, s_lastw = [], s_windows = [fresh_link 0 0 (Some 10), fresh_link 1 3 (Some 11)]\<rparr>,
                2 \<mapsto> \<lparr>s_curw = Some 3, s_lastw = [], s_windows = [fresh_link 2 0 (Some 10), fresh_link 3 3 (Some 11)]\<rparr>],
     sv_wins = [10 \<mapsto> \<lparr>w_references = 2, w_winlinks = [(1, 0), (2, 2)], w_alerts = {}\<rparr>,
                11 \<mapsto> \<lparr>w_references = 2, w_winlinks = [(1, 1), (2, 3)], w_alerts = {}\<rparr>],
     SESSIONS = [1, 2], SESSION_GROUPS = [\<lparr>sg_name = ''a'', sg_sessions = [1, 2]\<rparr>],
     sv_notes = [], sv_nohooks = False, sv_next = 4, MARKED_PANE = None\<rparr>"

lemma shared_links:
  "all_links no_old shared = (\<lambda>sid. if sid = 1 then [fresh_link 0 0 (Some 10), fresh_link 1 3 (Some 11)]
     else if sid = 2 then [fresh_link 2 0 (Some 10), fresh_link 3 3 (Some 11)] else [])"
  by (rule ext) (simp add: all_links_def tree_def shared_def)

lemma shared_owners:
  "owners (all_links no_old shared) w = (if w = 10 then {(1, 0), (2, 2)} else if w = 11 then {(1, 1), (2, 3)} else {})"
proof (rule set_eqI)
  fix p :: "nat \<times> nat"
  obtain sid l where "p = (sid, l)" by (cases p)
  then show "p \<in> owners (all_links no_old shared) w \<longleftrightarrow> p \<in> (if w = 10 then {(1, 0), (2, 2)} else if w = 11 then {(1, 1), (2, 3)} else {})"
    by (cases "sid = 1"; cases "sid = 2") (auto simp: owners_def shared_links)
qed

lemma shared_ok: "server_ok (\<lambda>_. 0) shared"
proof -
  have "window_refs_ok (owners (all_links no_old shared) w) (notes_of (sv_notes shared) w) 0 (sv_wins shared w)" for w
    unfolding shared_owners by (simp add: window_refs_ok_def notes_of_def shared_def)
  moreover have "distinct (map wl_id (all_links no_old shared sid)) \<and>
      (\<forall>x \<in> set (all_links no_old shared sid). wl_id x < sv_next shared \<and> wl_window x \<noteq> None)" for sid
    unfolding shared_links by (simp add: shared_def)
  ultimately have "refs_ok (\<lambda>_. 0) no_old shared" by (simp add: refs_ok_def)
  moreover have "live s" if "sv_heap shared sid = Some s" for sid s
    using that by (auto simp: shared_def live_def session_ok_def stack_ok_def links_ok_def i32_MAX_def split: if_splits)
  then have "sessions_ok shared" by (simp add: sessions_ok_def)
  moreover have "groups_ok shared" by (simp add: groups_ok_def shared_def)
  moreover have "\<forall>sg \<in> set (SESSION_GROUPS shared). group_synced shared sg"
    by (simp add: group_synced_def shared_def tree_def slot_def)
  ultimately show ?thesis by (simp add: server_ok_def)
qed

section \<open>Attaching\<close>

lemma live_cur_idx:
  assumes "live s" "s_windows s \<noteq> []"
  shows "\<exists>c j. s_curw s = Some c \<and> cur_idx s = Some j \<and> j \<in> indexes (s_windows s)"
proof -
  obtain c where c: "s_curw s = Some c" using assms by (auto simp: live_def)
  have ok: "session_ok s" using assms(1) by (simp add: live_def)
  from idx_at_ids [OF session_okD(3) [OF ok] session_okD(6) [OF ok c]] show ?thesis using c by (auto simp: cur_idx_def indexes_def)
qed

lemma cur_idx_curw: "cur_idx s = Some j \<Longrightarrow> s_curw s \<noteq> None"
  by (auto simp: cur_idx_def split: option.splits)

lemma server_okD:
  assumes "server_ok h S"
  shows "refs_ok h no_old S" "groups_ok S" "sv_heap S sid = Some s \<Longrightarrow> live s" "sv_heap S sid = Some s \<Longrightarrow> session_ok s"
  using assms by (simp_all add: server_ok_def sessions_ok_def live_def)

lemma set_slots_insert:
  "i \<notin> indexes wwl \<Longrightarrow> slot ` set (rb_insert wl_idx (fresh_link n i w) wwl) = insert (i, w) (slot ` set wwl)"
  using set_rb_insert [of wl_idx "fresh_link n i w" wwl] by (simp add: indexes_def slot_def)

lemma cur_idx_insert:
  assumes "session_ok s" "s_curw s = Some c" "i \<notin> indexes (s_windows s)"
    "session_ok (s\<lparr>s_windows := rb_insert wl_idx (fresh_link n i w) (s_windows s)\<rparr>)"
  shows "cur_idx (s\<lparr>s_windows := rb_insert wl_idx (fresh_link n i w) (s_windows s)\<rparr>) = cur_idx s"
proof -
  let ?wwl = "rb_insert wl_idx (fresh_link n i w) (s_windows s)"
  from idx_at_ids [OF session_okD(3) [OF assms(1)] session_okD(6) [OF assms(1,2)]]
  obtain x where x: "x \<in> set (s_windows s)" "wl_id x = c" "idx_at (s_windows s) c = Some (wl_idx x)" by blast
  have "x \<in> set ?wwl" using set_rb_insert [of wl_idx "fresh_link n i w" "s_windows s"] assms(3) x(1) by (simp add: indexes_def)
  then have "idx_at ?wwl c = Some (wl_idx x)" using idx_at_Some [OF session_okD(3) [OF assms(4)], of c "wl_idx x"] x(2) by auto
  then show ?thesis using assms(2) x(3) by (simp add: cur_idx_def)
qed

text \<open>A session of a group before its windows change.\<close>

lemma member_current:
  assumes "server_ok h S" "sv_heap S sid = Some s" "s_windows s \<noteq> []" "m \<in> group_of sid S" "sv_heap S m = Some sm"
  shows "\<exists>c j. session_ok sm \<and> s_curw sm = Some c \<and> cur_idx sm = Some j \<and> j \<in> indexes (s_windows s) \<and>
    slots sm = slots s \<and> length (s_windows sm) = length (s_windows s)"
proof -
  note ok = server_okD [OF assms(1)]
  have sl: "slots sm = slots s" by (rule group_slots [OF assms(1,2,4,5)])
  have len: "length (s_windows sm) = length (s_windows s)" using arg_cong [OF sl, of length] by simp
  then have "s_windows sm \<noteq> []" using assms(3) by auto
  then show ?thesis using live_cur_idx [OF ok(3) [OF assms(5)]] ok(4) [OF assms(5)] slots_indexes [OF sl] sl len by simp
qed

lemma attach_members:
  assumes "server_ok h S" "sv_heap S sid = Some s" "s_windows s \<noteq> []" "sv_wins S w = Some y" "0 \<le> idx" "idx \<le> i32_MAX" "idx \<notin> indexes (s_windows s)"
  shows "\<exists>S' T. session_attach sid w idx S = Some (Some (sv_next S), S') \<and> refs_ok h no_old S' \<and> outside_same (group_of sid S) S S' \<and>
    set T = insert (idx, Some w) (set (slots s)) \<and>
    (\<forall>m \<in> group_of sid S. \<forall>sm. sv_heap S m = Some sm \<longrightarrow> (\<exists>sm'. sv_heap S' m = Some sm' \<and> session_ok sm' \<and> slots sm' = T \<and> cur_idx sm' = cur_idx sm))"
proof -
  note ok = server_okD [OF assms(1)] note new = assms(7)
  define s1 where "s1 = s\<lparr>s_windows := rb_insert wl_idx (fresh_link (sv_next S) idx (Some w)) (s_windows s)\<rparr>"
  note cur = member_current [OF assms(1-3)]
  have mem: "\<forall>m \<in> group_of sid S - {sid}. \<forall>sm. sv_heap S m = Some sm \<longrightarrow> session_ok sm \<and> s_curw sm \<noteq> None"
    using cur by (metis DiffD1 option.distinct(1))
  have add: "winlink_add (sv_next S) (s_windows s) idx = Some (Some (rb_insert wl_idx (fresh_link (sv_next S) idx None) (s_windows s)))"
    using winlink_add_at [OF assms(5)] new by simp
  from attach_ok [OF ok(1,2) assms(2) ok(4) [OF assms(2)] new assms(5,6) add assms(4) mem] obtain S' s' where S': "session_attach sid w idx S = Some (Some (sv_next S), S')" "refs_ok h no_old S'" "session_ok s1"
    "sv_heap S' sid = Some s'" "core_of s' = core_of s1" "outside_same (group_of sid S) S S'"
    "\<And>m sm. m \<in> group_of sid S - {sid} \<Longrightarrow> sv_heap S m = Some sm \<Longrightarrow> \<exists>sm'. sv_heap S' m = Some sm' \<and> session_ok sm' \<and> synced s1 sm sm'"
    unfolding s1_def by blast
  have slots1: "set (slots s1) = insert (idx, Some w) (set (slots s))" using set_slots_insert [OF new] by (simp add: s1_def)
  have idx1: "indexes (s_windows s1) = insert idx (indexes (s_windows s))"
    using set_rb_insert [of wl_idx "fresh_link (sv_next S) idx (Some w)" "s_windows s"] new by (simp add: s1_def indexes_def)
  have "\<exists>sm'. sv_heap S' m = Some sm' \<and> session_ok sm' \<and> slots sm' = slots s1 \<and> cur_idx sm' = cur_idx sm"
    if m: "m \<in> group_of sid S" "sv_heap S m = Some sm" for m sm
  proof (cases "m = sid")
    case True
    from cur [OF m] obtain c j where c: "s_curw sm = Some c" by blast
    have sm: "sm = s" using True m(2) assms(2) by simp
    have "cur_idx s1 = cur_idx s"
      using cur_idx_insert [OF ok(4) [OF assms(2)] _ new] S'(3) c sm unfolding s1_def by simp
    then show ?thesis using True S'(4) sm session_ok_core [OF S'(5,3)] core_links_ok(3) [OF S'(5)] key3_slots [OF core_links_ok(1) [OF S'(5)]] by simp
  next
    case False
    from S'(7) [of m sm] m False obtain sm' where sm': "sv_heap S' m = Some sm'" "session_ok sm'" "synced s1 sm sm'" by blast
    from cur [OF m] obtain c j where c: "s_curw sm = Some c" "cur_idx sm = Some j" "j \<in> indexes (s_windows s)" by blast
    then have "has_idx (s_windows s1) (cur_idx sm)" using idx1 by (simp add: has_idx_def)
    then show ?thesis using sm' c(1) by (simp add: synced_def sync_target_def)
  qed
  then show ?thesis using S'(1,2,6) slots1 by blast
qed

lemma live_slots: "session_ok s \<Longrightarrow> cur_idx s \<noteq> None \<Longrightarrow> slots s \<noteq> [] \<Longrightarrow> live s"
  using cur_idx_curw by (auto simp: live_def)

text \<open>C35: attaching a window at an index fails exactly if the index is in use.  Otherwise every session of the
  group, and no other, gets the window at that index, every session goes on showing the window it showed, and all
  references stay accounted for.\<close>

theorem session_attach_group:
  assumes "server_ok h S" "sv_heap S sid = Some s" "s_windows s \<noteq> []" "sv_wins S w \<noteq> None" "0 \<le> idx" "idx \<le> i32_MAX"
  shows "if idx \<in> indexes (s_windows s) then session_attach sid w idx S = Some (None, S)
    else \<exists>l S'. session_attach sid w idx S = Some (Some l, S') \<and> server_ok h S' \<and> outside_same (group_of sid S) S S' \<and>
      (\<forall>m \<in> group_of sid S. \<forall>sm. sv_heap S m = Some sm \<longrightarrow> (\<exists>sm'. sv_heap S' m = Some sm' \<and>
         set (slots sm') = insert (idx, Some w) (set (slots sm)) \<and> cur_idx sm' = cur_idx sm))"
proof (cases "idx \<in> indexes (s_windows s)")
  case True
  then show ?thesis using assms(2,5) by (simp add: session_attach_def winlink_add_at)
next
  case False
  obtain y where "sv_wins S w = Some y" using assms(4) by auto
  from attach_members [OF assms(1-3) this assms(5,6) False] obtain S' T where
    S': "session_attach sid w idx S = Some (Some (sv_next S), S')" "refs_ok h no_old S'" "outside_same (group_of sid S) S S'"
    and T: "set T = insert (idx, Some w) (set (slots s))"
    and each: "\<And>m sm. m \<in> group_of sid S \<Longrightarrow> sv_heap S m = Some sm \<Longrightarrow>
      \<exists>sm'. sv_heap S' m = Some sm' \<and> session_ok sm' \<and> slots sm' = T \<and> cur_idx sm' = cur_idx sm" by blast
  have "server_ok h S'"
  proof (rule server_ok_group_change [OF assms(1) S'(2,3) assms(2)])
    fix m sm assume m: "m \<in> group_of sid S" "sv_heap S m = Some sm"
    from each [OF m] obtain sm' where sm': "sv_heap S' m = Some sm'" "session_ok sm'" "slots sm' = T" "cur_idx sm' = cur_idx sm" by blast
    have "cur_idx sm' \<noteq> None" "slots sm' \<noteq> []" using member_current [OF assms(1-3) m] sm' T by auto
    then show "\<exists>sm'. sv_heap S' m = Some sm' \<and> live sm' \<and> slots sm' = T" using sm' live_slots by blast
  qed
  moreover have "\<exists>sm'. sv_heap S' m = Some sm' \<and> set (slots sm') = insert (idx, Some w) (set (slots sm)) \<and> cur_idx sm' = cur_idx sm"
    if m: "m \<in> group_of sid S" "sv_heap S m = Some sm" for m sm
    using each [OF m] T group_slots [OF assms(1,2) m] by metis
  ultimately show ?thesis using False S'(1,3) by auto
qed

theorem session_attach_group_witness:
  "\<exists>l S' s'. session_attach 1 11 5 shared = Some (Some l, S') \<and> server_ok (\<lambda>_. 0) S' \<and> sv_heap S' 2 = Some s' \<and>
     set (slots s') = {(0, Some 10), (3, Some 11), (5, Some 11)} \<and> cur_idx s' = Some 3"
proof -
  have g: "group_of 1 shared = {1, 2}" by (simp add: group_of_def session_group_contains_def shared_def)
  obtain s where s: "sv_heap shared 1 = Some s" "s_windows s = [fresh_link 0 0 (Some 10), fresh_link 1 3 (Some 11)]"
    by (simp add: shared_def)
  define s2 where "s2 = \<lparr>s_curw = Some 3, s_lastw = [], s_windows = [fresh_link 2 0 (Some 10), fresh_link 3 3 (Some 11)]\<rparr>"
  then have s2: "sv_heap shared 2 = Some s2" "s_windows s2 = [fresh_link 2 0 (Some 10), fresh_link 3 3 (Some 11)]" "s_curw s2 = Some 3"
    by (simp_all add: shared_def)
  have w: "sv_wins shared 11 \<noteq> None" "s_windows s \<noteq> []" "5 \<notin> indexes (s_windows s)" by (simp_all add: shared_def s indexes_def)
  from session_attach_group [OF shared_ok s(1) w(2,1), of 5] w(3) s2(1) obtain l S' s' where
    "session_attach 1 11 5 shared = Some (Some l, S')" "server_ok (\<lambda>_. 0) S'" "sv_heap S' 2 = Some s'"
    "set (slots s') = insert (5, Some 11) (set (slots s2))" "cur_idx s' = cur_idx s2"
    unfolding g by (auto simp: i32_MAX_def)
  moreover have "set (slots s2) = {(0, Some 10), (3, Some 11)}" "cur_idx s2 = Some 3"
    by (simp_all add: s2 slot_def cur_idx_def idx_at_def wl_deref_def)
  ultimately show ?thesis by auto
qed

section \<open>Detaching\<close>

lemma idx_at_delete:
  assumes "c \<noteq> l"
  shows "idx_at (wl_delete l wwl) c = idx_at wwl c"
  using assms by (induction wwl) (auto simp: wl_delete_def idx_at_def wl_deref_def)

lemma session_ok_delete:
  assumes "session_ok s" "s_curw s \<noteq> Some l" "l \<notin> set (s_lastw s)"
  shows "session_ok (s\<lparr>s_windows := wl_delete l (s_windows s)\<rparr>)"
  using assms links_ok_delete [OF session_okD(2) [OF assms(1)], of l]
  by (auto simp: session_ok_def stack_ok_def wl_delete_def)

definition delete_slot :: "i32 \<Rightarrow> (i32 \<times> nat option) list \<Rightarrow> (i32 \<times> nat option) list" where
  "delete_slot i sl = filter (\<lambda>p. fst p \<noteq> i) sl"

lemma delete_slots:
  assumes "links_ok wwl" "x \<in> set wwl"
  shows "map slot (wl_delete (wl_id x) wwl) = delete_slot (wl_idx x) (map slot wwl)"
proof -
  have inj: "inj_on wl_idx (set wwl)" "distinct (map wl_id wwl)" using strict_distinct [OF links_okD(1) [OF assms(1)]] links_okD(2) [OF assms(1)] by auto
  have "wl_id y \<noteq> wl_id x \<longleftrightarrow> wl_idx y \<noteq> wl_idx x" if "y \<in> set wwl" for y
    using inj assms(2) that by (auto simp: distinct_map dest: inj_onD)
  then have "filter (\<lambda>y. wl_id y \<noteq> wl_id x) wwl = filter (\<lambda>y. wl_idx y \<noteq> wl_idx x) wwl" by (intro filter_cong) auto
  then show ?thesis by (simp add: wl_delete_def delete_slot_def filter_map comp_def slot_def)
qed

text \<open>The index that a session shows after the window at \<open>i\<close> was taken away: that of the window shown last
  if it showed this one, or of the one in front of it.\<close>

definition idx_after :: "i32 \<Rightarrow> session \<Rightarrow> i32 option" where
  "idx_after i s = (case s_curw s of None \<Rightarrow> None
     | Some c \<Rightarrow> if cur_idx s = Some i then idx_at (s_windows s) (leave_target s c) else cur_idx s)"

lemma leave_target_other:
  assumes "session_ok s" "s_curw s = Some c"
  shows "leave_target s c \<in> ids (s_windows s)" "1 < length (s_windows s) \<Longrightarrow> leave_target s c \<noteq> c"
proof -
  have "leave_target s c \<in> ids (s_windows s) \<and> (1 < length (s_windows s) \<longrightarrow> leave_target s c \<noteq> c)"
  proof (cases "s_lastw s")
    case Nil
    then show ?thesis using previous_target_other [OF session_okD(3) [OF assms(1)] session_okD(6) [OF assms]] by (auto simp: leave_target_def)
  next
    case (Cons l ls)
    then show ?thesis using session_okD(5) [OF assms(1)] session_okD(7) [OF assms] by (auto simp: leave_target_def)
  qed
  then show "leave_target s c \<in> ids (s_windows s)" "1 < length (s_windows s) \<Longrightarrow> leave_target s c \<noteq> c" by auto
qed

lemma cur_idx_iff:
  assumes "session_ok s" "s_curw s = Some c" "x \<in> set (s_windows s)"
  shows "cur_idx s = Some (wl_idx x) \<longleftrightarrow> c = wl_id x"
proof -
  have x: "idx_at (s_windows s) (wl_id x) = Some (wl_idx x)" using idx_at_Some [OF session_okD(3) [OF assms(1)]] assms(3) by blast
  show ?thesis
    using idx_at_inj [OF session_okD(2) [OF assms(1)], of c "wl_id x"] session_okD(6) [OF assms(1,2)] assms(2,3) x
    by (auto simp: cur_idx_def)
qed

lemma key3_mem:
  assumes "map key3 xs = map key3 ys" "x \<in> set ys"
  shows "\<exists>x' \<in> set xs. key3 x' = key3 x"
proof -
  have "key3 x \<in> set (map key3 ys)" using assms(2) by simp
  then show ?thesis unfolding assms(1) [symmetric] by auto
qed

text \<open>The session that a link is taken from, before its group is synchronised.\<close>

lemma detach_link:
  assumes "refs_ok h no_old S" "sv_heap S sid = Some s" "session_ok s" "x \<in> set (s_windows s)" "1 < length (s_windows s)" "s_curw s \<noteq> None"
  shows "\<exists>S1 S2 s2 y w S3 s3 S4 s4. (if s_curw s = Some (wl_id x) then leave_current sid S else Some S) = Some S1 \<and>
    link_modify sid (wl_id x) (\<lambda>x. x\<lparr>wl_flags := wl_flags x - WINLINK_ALERTFLAGS\<rparr>) S1 = Some S2 \<and>
    sv_heap S2 sid = Some s2 \<and> wl_deref (s_windows s2) (wl_id x) = Some y \<and> wl_window y = Some w \<and>
    notify_session_window ''window-unlinked'' sid w S2 = Some S3 \<and> winlink_stack_remove (Some (wl_id x)) s2 = Some s3 \<and>
    winlink_remove sid (wl_id x) (put_session sid s3 S3) = Some S4 \<and>
    refs_ok h no_old S4 \<and> sv_heap S4 sid = Some s4 \<and> session_ok s4 \<and> others_same sid S S4 \<and>
    slots s4 = delete_slot (wl_idx x) (slots s) \<and> cur_idx s4 = idx_after (wl_idx x) s \<and> s_curw s4 \<noteq> None"
proof -
  obtain c where c: "s_curw s = Some c" using assms(6) by blast
  note lt = leave_target_other [OF assms(3) c]
  have "\<exists>S1 s1 d. (if s_curw s = Some (wl_id x) then leave_current sid S else Some S) = Some S1 \<and> session_step h sid s S s1 S1 \<and>
    s_curw s1 = Some d \<and> d \<noteq> wl_id x \<and> idx_at (s_windows s) d = idx_after (wl_idx x) s"
  proof (cases "c = wl_id x")
    case True
    from leave_current_ok [OF assms(1-3) c] obtain S1 s1 where S1: "leave_current sid S = Some S1" "session_step h sid s S s1 S1" "s_curw s1 = Some (leave_target s c)" by blast
    then show ?thesis using True c lt(2) assms(5) cur_idx_iff [OF assms(3) c assms(4)]
      by (intro exI [of _ S1] exI [of _ s1] exI [of _ "leave_target s c"]) (simp add: idx_after_def)
  next
    case False
    then show ?thesis using c session_step_refl [OF assms(1-3)] cur_idx_iff [OF assms(3) c assms(4)]
      by (intro exI [of _ S] exI [of _ s] exI [of _ c]) (simp add: idx_after_def cur_idx_def)
  qed
  then obtain S1 s1 d where S1: "(if s_curw s = Some (wl_id x) then leave_current sid S else Some S) = Some S1" "session_step h sid s S s1 S1"
    "s_curw s1 = Some d" "d \<noteq> wl_id x" "idx_at (s_windows s) d = idx_after (wl_idx x) s" by blast
  have s1: "sv_heap S1 sid = Some s1" "session_ok s1" "map key3 (s_windows s1) = map key3 (s_windows s)" "refs_ok h no_old S1" "others_same sid S S1"
    using S1(2) by (simp_all add: session_step_def)
  let ?f = "\<lambda>x. x\<lparr>wl_flags := wl_flags x - WINLINK_ALERTFLAGS\<rparr>" and ?l = "wl_id x"
  let ?s2 = "s1\<lparr>s_windows := wl_modify ?l ?f (s_windows s1)\<rparr>"
  have l1: "?l \<in> ids (s_windows s1)" using assms(4) map_key3(4) [OF s1(3)] by simp
  from link_modify_core [OF s1(1) l1 session_okD(3) [OF s1(2)] vrow_alerts(1)] obtain S2 where S2: "link_modify sid ?l ?f S1 = Some S2"
    "same_core S1 S2" "S2 = put_session sid ?s2 S1" by blast
  have h2: "sv_heap S2 sid = Some ?s2" using S2(3) by simp
  from same_core_heap [OF S2(2) s1(1)] h2 have core2: "core_of ?s2 = core_of s1" by simp
  have ok2: "session_ok ?s2" by (rule session_ok_core [OF core2 s1(2)])
  have r2: "refs_ok h no_old S2" by (rule same_core_refs [OF S2(2) s1(4)])
  have k2: "map key3 (s_windows ?s2) = map key3 (s_windows s)" using core_links_ok(1) [OF core2] s1(3) by simp
  from key3_mem [OF k2 assms(4)] obtain y where y: "y \<in> set (s_windows ?s2)" "key3 y = key3 x" by blast
  have yd: "wl_deref (s_windows ?s2) ?l = Some y" using wl_deref_Some [OF session_okD(3) [OF ok2]] y by (auto simp: key3_def)
  from refs_no_old(2) [OF r2 h2 y(1)] obtain w v where w: "wl_window y = Some w" "sv_wins S2 w = Some v" by blast
  from notify_ok [OF r2 w(2), of "''window-unlinked''" sid] obtain S3 where S3: "notify_session_window ''window-unlinked'' sid w S2 = Some S3"
    "refs_ok h no_old S3" "keeps S2 S3" by blast
  have "?l \<in> ids (s_windows ?s2)" using y by (auto simp: key3_def intro: rev_image_eqI)
  from stack_remove [OF session_okD(1) [OF ok2] this] obtain s3 where s3: "winlink_stack_remove (Some ?l) ?s2 = Some s3"
    "s_lastw s3 = remove1 ?l (s_lastw ?s2)" "s_curw s3 = s_curw ?s2" "map row (s_windows s3) = map row (s_windows ?s2)" "stack_ok s3" by blast
  have k3: "map key3 (s_windows s3) = map key3 (s_windows s)" using row_key3 [OF s3(4)] k2 by simp
  have cur3: "s_curw s3 = Some d" using s3(3) S1(3) by simp
  have ok3: "session_ok s3"
  proof -
    have "d \<in> ids (s_windows s3)" using session_okD(6) [OF s1(2) S1(3)] map_key3(4) [OF k3] map_key3(4) [OF s1(3)] by simp
    moreover have "d \<notin> set (s_lastw s3)" using session_okD(7) [OF s1(2) S1(3)] s3(2) by (auto dest: notin_set_remove1)
    ultimately show ?thesis using s3(5) cur3 by (simp add: session_ok_def)
  qed
  have h3: "sv_heap S3 sid = Some ?s2" using S3(3) h2 by (simp add: keeps_def)
  have r3: "refs_ok h no_old (put_session sid s3 S3)"
    by (rule refs_ok_frame [OF S3(2)]) (use map_key3(6) [OF row_key3 [OF s3(4)]] tree_heap [OF h3] in \<open>simp_all add: all_links_def\<close>)
  from key3_mem [OF k3 assms(4)] obtain z where z: "z \<in> set (s_windows s3)" "key3 z = key3 x" by blast
  have zi: "wl_id z = ?l" "wl_idx z = wl_idx x" using z(2) by (simp_all add: key3_def)
  have h3': "sv_heap (put_session sid s3 S3) sid = Some s3" by simp
  let ?s4 = "s3\<lparr>s_windows := wl_delete ?l (s_windows s3)\<rparr>"
  from winlink_remove_ok [OF r3 h3' z(1)] zi obtain S4 where S4: "winlink_remove sid ?l (put_session sid s3 S3) = Some S4" "refs_ok h no_old S4"
    "keeps (put_session sid ?s4 S3) S4" by auto
  have h4: "sv_heap S4 sid = Some ?s4" using S4(3) by (simp add: keeps_def)
  have "?l \<notin> set (s_lastw s3)" using s3(2) session_okD(4) [OF ok2] by simp
  then have ok4: "session_ok ?s4" using session_ok_delete [OF ok3] cur3 S1(4) by simp
  have sl: "slots ?s4 = delete_slot (wl_idx x) (slots s)"
    using delete_slots [OF session_okD(2) [OF ok3] z(1)] key3_slots [OF k3] zi by simp
  have "cur_idx ?s4 = idx_at (s_windows s3) d" using cur3 idx_at_delete [OF S1(4)] by (simp add: cur_idx_def)
  also have "\<dots> = idx_after (wl_idx x) s" using S1(5) idx_at_key3 [OF k3] by simp
  finally have ci: "cur_idx ?s4 = idx_after (wl_idx x) s" .
  have o4: "others_same sid S S4"
  proof -
    have a: "others_same sid S S2" using others_same_trans [OF s1(5) same_core_others [OF S2(2)]] .
    have b: "others_same sid S3 S4" using others_same_trans [OF others_same_put keeps_others [OF S4(3)]] .
    show ?thesis by (rule others_same_trans [OF a others_same_trans [OF keeps_others [OF S3(3)] b]])
  qed
  show ?thesis
    by (rule exI [of _ S1], rule exI [of _ S2], rule exI [of _ ?s2], rule exI [of _ y], rule exI [of _ w], rule exI [of _ S3],
        rule exI [of _ s3], rule exI [of _ S4], rule exI [of _ ?s4])
      (use S1(1) S2(1) h2 yd w(1) S3(1) s3(1) S4(1,2) h4 ok4 o4 sl ci cur3 in simp)
qed

lemma delete_slot_indexes: "fst ` set (delete_slot i sl) = fst ` set sl - {i}"
  by (auto simp: delete_slot_def)

lemma slot_indexes: "indexes wwl = fst ` set (map slot wwl)"
  by (simp add: indexes_def slot_def image_image)

lemma idx_after_kept:
  assumes "session_ok s" "s_curw s = Some c" "1 < length (s_windows s)"
  shows "\<exists>j. idx_after i s = Some j \<and> j \<noteq> i \<and> j \<in> indexes (s_windows s)"
proof (cases "cur_idx s = Some i")
  case True
  note d = session_okD(3) [OF assms(1)] and lt = leave_target_other [OF assms(1,2)]
  from idx_at_ids [OF d lt(1)] obtain x where x: "x \<in> set (s_windows s)" "wl_id x = leave_target s c" "idx_at (s_windows s) (leave_target s c) = Some (wl_idx x)" by blast
  have "wl_idx x \<noteq> i" using cur_idx_iff [OF assms(1,2) x(1)] True x(2) lt(2) [OF assms(3)] by auto
  then show ?thesis using True assms(2) x by (auto simp: idx_after_def indexes_def)
next
  case False
  from idx_at_ids [OF session_okD(3) [OF assms(1)] session_okD(6) [OF assms(1,2)]] obtain x where
    "x \<in> set (s_windows s)" "idx_at (s_windows s) c = Some (wl_idx x)" by blast
  then show ?thesis using False assms(2) by (auto simp: idx_after_def cur_idx_def indexes_def)
qed

text \<open>Where synchronising with a session that lost a window leaves another session of the group.\<close>

lemma synced_idx_after:
  assumes "session_ok sm" "s_curw sm = Some c" "1 < length (s_windows sm)" "synced s4 sm sm'" "slots s4 = delete_slot i (slots sm)"
  shows "slots sm' = delete_slot i (slots sm) \<and> cur_idx sm' = idx_after i sm \<and> cur_idx sm' \<noteq> None"
proof -
  have idx4: "indexes (s_windows s4) = indexes (s_windows sm) - {i}" using assms(5) delete_slot_indexes by (simp add: slot_indexes)
  from idx_after_kept [OF assms(1-3)] obtain j where j: "idx_after i sm = Some j" "j \<noteq> i" "j \<in> indexes (s_windows sm)" by auto
  have "sync_target s4 sm = Some j"
  proof (cases "cur_idx sm = Some i")
    case True
    then show ?thesis using j(1) assms(2) idx4 by (simp add: idx_after_def sync_target_def has_idx_def)
  next
    case False
    then have "cur_idx sm = Some j" using j(1) assms(2) by (simp add: idx_after_def)
    then show ?thesis using j(2,3) assms(2) idx4 by (simp add: sync_target_def has_idx_def)
  qed
  then show ?thesis using assms(4,5) j idx4 by (simp add: synced_def has_idx_def)
qed

text \<open>A group of which one session has lost a window, and the synchronisation that follows.\<close>

lemma sync_after_detach:
  assumes "server_ok h S" "sv_heap S sid = Some s" "1 < length (s_windows s)" "refs_ok h no_old S4" "sv_heap S4 sid = Some s4" "session_ok s4"
    "others_same sid S S4" "slots s4 = delete_slot i (slots s)" "cur_idx s4 = idx_after i s" "s_curw s4 \<noteq> None"
  shows "\<exists>S'. session_group_synchronize_from sid S4 = Some S' \<and> refs_ok h no_old S' \<and> outside_same (group_of sid S) S S' \<and>
    (\<forall>m \<in> group_of sid S. \<forall>sm. sv_heap S m = Some sm \<longrightarrow> (\<exists>sm'. sv_heap S' m = Some sm' \<and> session_ok sm' \<and>
       slots sm' = delete_slot i (slots s) \<and> cur_idx sm' = idx_after i sm \<and> cur_idx sm' \<noteq> None))"
proof -
  note ok = server_okD [OF assms(1)]
  have ne: "s_windows s \<noteq> []" using assms(3) by auto
  note mem = member_current [OF assms(1,2) ne]
  have glob: "SESSION_GROUPS S4 = SESSION_GROUPS S" using assms(7) by (simp add: others_same_def)
  have grp: "group_of sid S4 = group_of sid S" by (simp add: group_of_def session_group_contains_def glob)
  have ne4: "s_windows s4 \<noteq> []" using session_okD(6) [OF assms(6)] assms(10) by fastforce
  have g4: "groups_ok S4"
  proof (rule groups_ok_heap [OF ok(2) glob])
    show "sv_heap S4 m \<noteq> None" if "sv_heap S m \<noteq> None" for m
      using that others_heap [OF assms(7), of m] assms(5) by (cases "m = sid") auto
  qed
  have rev4: "others_same sid S4 S" using assms(7) unfolding others_same_def by simp
  have "syncable s4 sm4" if m: "m \<in> group_of sid S4 - {sid}" "sv_heap S4 m = Some sm4" for m sm4
  proof -
    obtain sm where sm: "sv_heap S m = Some sm" "core_of sm = core_of sm4" using others_heap [OF rev4, of m sm4] m by blast
    then have "session_ok sm" "s_curw sm4 \<noteq> None" using mem [of m sm] m grp by (auto simp: core_of_def)
    then show ?thesis using session_ok_core [OF sm(2) [symmetric]] by (auto simp: syncable_def)
  qed
  then have "\<forall>m \<in> group_of sid S4 - {sid}. \<forall>sm. sv_heap S4 m = Some sm \<longrightarrow> syncable s4 sm" by blast
  from synchronize_from_ok [OF assms(4) g4 assms(5,6) ne4 this] obtain S' where S': "session_group_synchronize_from sid S4 = Some S'" "refs_ok h no_old S'"
    "outside_same (group_of sid S - {sid}) S4 S'"
    "\<And>m sm. m \<in> group_of sid S - {sid} \<Longrightarrow> sv_heap S4 m = Some sm \<Longrightarrow> \<exists>sm'. sv_heap S' m = Some sm' \<and> session_ok sm' \<and> synced s4 sm sm'"
    unfolding grp by blast
  have "sid \<notin> group_of sid S - {sid}" by simp
  from outside_heap [OF S'(3) this assms(5)] obtain s' where s': "sv_heap S' sid = Some s'" "core_of s' = core_of s4" by blast
  have "{sid} \<union> (group_of sid S - {sid}) = group_of sid S" by auto
  then have out: "outside_same (group_of sid S) S S'" using outside_same_trans [OF assms(7) [unfolded others_outside] S'(3)] by simp
  have "\<exists>sm'. sv_heap S' m = Some sm' \<and> session_ok sm' \<and> slots sm' = delete_slot i (slots s) \<and> cur_idx sm' = idx_after i sm \<and> cur_idx sm' \<noteq> None"
    if m: "m \<in> group_of sid S" "sv_heap S m = Some sm" for m sm
  proof (cases "m = sid")
    case True
    then have "sm = s" using m(2) assms(2) by simp
    moreover have "idx_after i s \<noteq> None" using mem [OF group_of_self assms(2)] idx_after_kept [OF _ _ assms(3)] by fastforce
    ultimately show ?thesis using True s'(1) session_ok_core [OF s'(2) assms(6)] key3_slots [OF core_links_ok(1) [OF s'(2)]] assms(8,9)
        core_links_ok(3) [OF s'(2)] by auto
  next
    case False
    from mem [OF m] obtain c where c: "session_ok sm" "s_curw sm = Some c" "slots sm = slots s" "length (s_windows sm) = length (s_windows s)" by blast
    from others_heap [OF assms(7) False m(2)] obtain sm4 where sm4: "sv_heap S4 m = Some sm4" "core_of sm4 = core_of sm" by blast
    from S'(4) [of m sm4] m(1) False sm4(1) obtain sm' where sm': "sv_heap S' m = Some sm'" "session_ok sm'" "synced s4 sm4 sm'" by auto
    have syn: "synced s4 sm sm'" by (rule synced_core [OF sm'(3) _ sm4(2)]) simp
    have "1 < length (s_windows sm)" "slots s4 = delete_slot i (slots sm)" using assms(3,8) c(3,4) by simp_all
    from synced_idx_after [OF c(1,2) this(1) syn this(2)] show ?thesis using sm'(1,2) c(3) by metis
  qed
  then show ?thesis using S'(1,2) out by blast
qed

text \<open>C36: detaching a window from a session that has at least one other takes it from every session of the group.
  A session that showed it goes to the window it showed last, or to the one in front of it; the other sessions go
  on showing their window, and all references stay accounted for.  (Without a window left the group is not
  synchronised and the session is destroyed by the caller.)\<close>

theorem session_detach_group:
  assumes "server_ok h S" "sv_heap S sid = Some s" "x \<in> set (s_windows s)" "1 < length (s_windows s)"
  shows "\<exists>S'. session_detach sid (wl_id x) S = Some (False, S') \<and> server_ok h S' \<and> outside_same (group_of sid S) S S' \<and>
    (\<forall>m \<in> group_of sid S. \<forall>sm. sv_heap S m = Some sm \<longrightarrow> (\<exists>sm'. sv_heap S' m = Some sm' \<and>
       slots sm' = delete_slot (wl_idx x) (slots sm) \<and> cur_idx sm' = idx_after (wl_idx x) sm \<and> cur_idx sm' \<noteq> None))"
proof -
  note ok = server_okD [OF assms(1)]
  have "s_windows s \<noteq> []" using assms(3) by auto
  note mem = member_current [OF assms(1,2) this]
  have "s_curw s \<noteq> None" using mem [OF group_of_self assms(2)] by auto
  from detach_link [OF ok(1) assms(2) ok(4) [OF assms(2)] assms(3,4) this] obtain S1 S2 s2 y w S3 s3 S4 s4 where
    D: "(if s_curw s = Some (wl_id x) then leave_current sid S else Some S) = Some S1"
    "link_modify sid (wl_id x) (\<lambda>x. x\<lparr>wl_flags := wl_flags x - WINLINK_ALERTFLAGS\<rparr>) S1 = Some S2"
    "sv_heap S2 sid = Some s2" "wl_deref (s_windows s2) (wl_id x) = Some y" "wl_window y = Some w"
    "notify_session_window ''window-unlinked'' sid w S2 = Some S3" "winlink_stack_remove (Some (wl_id x)) s2 = Some s3"
    "winlink_remove sid (wl_id x) (put_session sid s3 S3) = Some S4"
    and s4: "refs_ok h no_old S4" "sv_heap S4 sid = Some s4" "session_ok s4" "others_same sid S S4"
     "slots s4 = delete_slot (wl_idx x) (slots s)" "cur_idx s4 = idx_after (wl_idx x) s" "s_curw s4 \<noteq> None"
    by (elim exE conjE) (rule that)
  from sync_after_detach [OF assms(1,2,4) s4] obtain S' where S': "session_group_synchronize_from sid S4 = Some S'"
    "refs_ok h no_old S'" "outside_same (group_of sid S) S S'"
    and each: "\<And>m sm. m \<in> group_of sid S \<Longrightarrow> sv_heap S m = Some sm \<Longrightarrow> \<exists>sm'. sv_heap S' m = Some sm' \<and> session_ok sm' \<and>
       slots sm' = delete_slot (wl_idx x) (slots s) \<and> cur_idx sm' = idx_after (wl_idx x) sm \<and> cur_idx sm' \<noteq> None" by blast
  have T: "delete_slot (wl_idx x) (slots s) \<noteq> []"
    using s4(5,7) session_okD(6) [OF s4(3)] by (metis list.map_disc_iff empty_iff image_empty list.set(1) option.exhaust)
  from each [OF group_of_self assms(2)] obtain s' where s': "sv_heap S' sid = Some s'" "slots s' = delete_slot (wl_idx x) (slots s)" by blast
  then have "s_windows s' \<noteq> []" using T by auto
  then have eq: "session_detach sid (wl_id x) S = Some (False, S')" using assms(2) D S'(1) s'(1) by (simp add: session_detach_def)
  have "server_ok h S'"
  proof (rule server_ok_group_change [OF assms(1) S'(2,3) assms(2)])
    fix m sm assume m: "m \<in> group_of sid S" "sv_heap S m = Some sm"
    show "\<exists>sm'. sv_heap S' m = Some sm' \<and> live sm' \<and> slots sm' = delete_slot (wl_idx x) (slots s)"
      using each [OF m] live_slots T by metis
  qed
  moreover have "\<exists>sm'. sv_heap S' m = Some sm' \<and> slots sm' = delete_slot (wl_idx x) (slots sm) \<and> cur_idx sm' = idx_after (wl_idx x) sm \<and> cur_idx sm' \<noteq> None"
    if m: "m \<in> group_of sid S" "sv_heap S m = Some sm" for m sm
    using each [OF m] mem [OF m] by auto
  ultimately show ?thesis using eq S'(3) by blast
qed

theorem session_detach_group_witness:
  "\<exists>S' s'. session_detach 1 1 shared = Some (False, S') \<and> server_ok (\<lambda>_. 0) S' \<and> sv_heap S' 2 = Some s' \<and>
     slots s' = [(0, Some 10)] \<and> cur_idx s' = Some 0"
proof -
  have g: "group_of 1 shared = {1, 2}" by (simp add: group_of_def session_group_contains_def shared_def)
  obtain s where s: "sv_heap shared 1 = Some s" "s_windows s = [fresh_link 0 0 (Some 10), fresh_link 1 3 (Some 11)]"
    by (simp add: shared_def)
  define s2 where "s2 = \<lparr>s_curw = Some 3, s_lastw = [], s_windows = [fresh_link 2 0 (Some 10), fresh_link 3 3 (Some 11)]\<rparr>"
  then have s2: "sv_heap shared 2 = Some s2" "s_windows s2 = [fresh_link 2 0 (Some 10), fresh_link 3 3 (Some 11)]" "s_curw s2 = Some 3" "s_lastw s2 = []"
    by (simp_all add: shared_def)
  have "fresh_link 1 3 (Some 11) \<in> set (s_windows s)" "1 < length (s_windows s)" by (simp_all add: s)
  from session_detach_group [OF shared_ok s(1) this] s2(1) obtain S' s' where
    "session_detach 1 1 shared = Some (False, S')" "server_ok (\<lambda>_. 0) S'" "sv_heap S' 2 = Some s'"
    "slots s' = delete_slot 3 (slots s2)" "cur_idx s' = idx_after 3 s2"
    unfolding g by auto
  moreover have "delete_slot 3 (slots s2) = [(0, Some 10)]" by (simp add: s2 slot_def delete_slot_def)
  moreover have "idx_after 3 s2 = Some 0" by (simp add: s2 idx_after_def cur_idx_def idx_at_def wl_deref_def slot_def leave_target_def previous_target_def winlink_previous_def winlink_next_def wl_max_def wl_min_def)
  ultimately show ?thesis by auto
qed

end
