(* ===== verification/Session_Windows.thy ===== *)
theory Session_Windows
  imports Session_Sound
begin

text \<open>
  Moving about the windows of a session by number, renumbering them and making room for a new one, with the
  states in which the operations on groups and on windows that are linked twice go wrong.
\<close>

section \<open>Windows by number\<close>

definition next_steps :: "winlink list \<Rightarrow> nat \<Rightarrow> nat option \<Rightarrow> nat option" where
  "next_steps wwl n c = ((\<lambda>c. Option.bind c (\<lambda>l. next_target wwl l False)) ^^ n) c"

lemma next_steps_nth:
  assumes "distinct (map wl_id wwl)" "k < length wwl"
  shows "next_steps wwl n (Some (wl_id (wwl ! k))) = Some (wl_id (wwl ! ((k + n) mod length wwl)))"
proof (induction n)
  case 0
  then show ?case using assms(2) by (simp add: next_steps_def)
next
  case (Suc n)
  have "(k + n) mod length wwl < length wwl" using assms(2) by (intro mod_less_divisor) linarith
  from next_target_nth [OF assms(1) this] show ?case using Suc by (simp add: next_steps_def mod_Suc_eq)
qed

text \<open>C38: the target \<open>:+n\<close> is the window that \<open>n\<close> commands \<open>next-window\<close> lead to, counted round the windows of the
  session; \<open>:-n\<close> is not what \<open>n\<close> commands \<open>previous-window\<close> lead to: it stops at the window with the lowest index.\<close>

theorem window_by_number:
  assumes "links_ok wwl" "k < length wwl"
  shows "winlink_next_by_number wwl (Some (wl_id (wwl ! k))) n = next_steps wwl n (Some (wl_id (wwl ! k))) \<and>
    next_steps wwl n (Some (wl_id (wwl ! k))) = Some (wl_id (wwl ! ((k + n) mod length wwl))) \<and>
    previous_target wwl (wl_id (wwl ! ((k + 1) mod length wwl))) False = Some (wl_id (wwl ! k)) \<and>
    winlink_previous_by_number wwl (Some (wl_id (wwl ! k))) n = Some (wl_id (wwl ! (k - n)))"
proof -
  note d = links_okD(2) [OF assms(1)]
  have p: "(k + 1) mod length wwl < length wwl" using assms(2) by (intro mod_less_divisor) linarith
  have "((k + 1) mod length wwl + length wwl - 1) mod length wwl = k"
  proof (cases "k + 1 < length wwl")
    case False
    then have "length wwl = k + 1" using assms(2) by simp
    then show ?thesis by (cases "k = 0") auto
  qed (use assms(2) in \<open>simp add: mod_if\<close>)
  then show ?thesis
    using next_steps_nth [OF d assms(2)] next_by_number_nth [OF d assms(2)] previous_by_number_nth [OF d assms(2)] previous_target_nth [OF d p] by simp
qed

theorem window_by_number_witness:
  "winlink_previous_by_number [fresh_link 0 0 (Some 5), fresh_link 1 4 (Some 6)] (Some 0) 1 = Some 0 \<and>
   previous_target [fresh_link 0 0 (Some 5), fresh_link 1 4 (Some 6)] 0 False = Some 1"
  using window_by_number [of "[fresh_link 0 0 (Some 5), fresh_link 1 4 (Some 6)]" 0 1]
    window_by_number [of "[fresh_link 0 0 (Some 5), fresh_link 1 4 (Some 6)]" 1 1]
  by (simp add: links_ok_def i32_MAX_def)

section \<open>Renumbering\<close>

text \<open>The position of a link in its tree.\<close>

definition position :: "winlink list \<Rightarrow> nat \<Rightarrow> nat option" where
  "position wwl l = find_index (\<lambda>x. wl_id x = l) wwl"

definition renumbered :: "i32 \<Rightarrow> winlink list \<Rightarrow> (i32 \<times> nat option) list" where
  "renumbered base wwl = map (\<lambda>k. (base + int k, wl_window (wwl ! k))) [0..<length wwl]"

lemma renumbered_Cons: "renumbered base (x # wwl) = (base, wl_window x) # renumbered (base + 1) wwl"
  by (simp add: renumbered_def upt_conv_Cons map_Suc_upt [symmetric] del: upt_Suc)

lemma renumber_links_ok:
  assumes "refs_ok h e S" "sv_heap S sid = Some s" "links_ok (s_windows s)" "0 \<le> base" "base + int (length old) \<le> i32_MAX + 1"
    "\<forall>j \<in> indexes (s_windows s). j < base" "\<And>x. x \<in> set old \<Longrightarrow> \<exists>w. wl_window x = Some w \<and> sv_wins S w \<noteq> None" "distinct (map wl_id old)"
  shows "\<exists>S' ws nidx cur marked. each (renumber_link sid curw) old ((base, cur0, m0), S) = Some ((nidx, cur, marked), S') \<and>
    refs_ok h e S' \<and> grows sid S S' \<and> sv_notes S' = sv_notes S \<and>
    sv_heap S' sid = Some (s\<lparr>s_windows := s_windows s @ ws\<rparr>) \<and> links_ok (s_windows s @ ws) \<and> map slot ws = renumbered base old \<and>
    (\<forall>y \<in> set ws. WINLINK_VISITED \<notin> wl_flags y) \<and>
    cur = (case Option.bind curw (position old) of None \<Rightarrow> cur0 | Some k \<Rightarrow> base + int k) \<and> (marked = m0 \<or> marked \<in> indexes ws)"
  using assms
proof (induction old arbitrary: S s base cur0 m0)
  case Nil
  then show ?case by (auto simp: renumbered_def position_def split: option.splits)
next
  case (Cons x old)
  from Cons.prems(7) [of x] obtain w y where w: "wl_window x = Some w" "sv_wins S w = Some y" by auto
  have b: "0 \<le> base" "base \<le> i32_MAX" using Cons.prems(4,5) by simp_all
  from copy_last_ok [OF Cons.prems(1-3) b Cons.prems(6) w] obtain S1 where S1: "copy_link sid base x S = Some (sv_next S, S1)"
    "refs_ok h e S1" "grows sid S S1" "sv_notes S1 = sv_notes S"
    "\<And>S2. keeps S1 S2 \<Longrightarrow> refs_ok h e S2 \<Longrightarrow> \<exists>S'. link_modify sid (sv_next S) (copy_alerts x) S2 = Some S' \<and> refs_ok h e S' \<and>
      S' = put_session sid (s\<lparr>s_windows := s_windows s @ [copied_link (sv_next S) base x]\<rparr>) S2"
    "links_ok (s_windows s @ [copied_link (sv_next S) base x])" by blast
  let ?z = "copied_link (sv_next S) base x" let ?s = "s\<lparr>s_windows := s_windows s @ [?z]\<rparr>"
  have "keeps S1 S1" by (simp add: keeps_def)
  from S1(5) [OF this S1(2)] obtain S2 where S2: "link_modify sid (sv_next S) (copy_alerts x) S1 = Some S2" "refs_ok h e S2" "S2 = put_session sid ?s S1" by blast
  have h2: "sv_heap S2 sid = Some ?s" using S2(3) by simp
  have dr: "wl_deref (s_windows ?s) (sv_next S) = Some ?z" using wl_deref_Some [OF links_okD(2) [OF S1(6)]] by simp
  let ?cur = "if curw = Some (wl_id x) then base else cur0" and ?m = "if MARKED_PANE S = Some (sid, wl_id x) then base else m0"
  have step: "renumber_link sid curw x ((base, cur0, m0), S) = Some ((i32 (base + 1), ?cur, ?m), S2)"
    using S1(1) S2(1) h2 dr by (simp add: renumber_link_def)
  have g2: "grows sid S S2" unfolding S2(3) by (rule grows_trans [OF S1(3)]) simp
  show ?case
  proof (cases old)
    case Nil
    have "?cur = (case Option.bind curw (position [x]) of None \<Rightarrow> cur0 | Some k \<Rightarrow> base + int k)"
      by (cases curw) (auto simp: position_def)
    moreover have "?m = m0 \<or> ?m \<in> indexes [?z]" by (simp add: indexes_def)
    moreover have "each (renumber_link sid curw) (x # old) ((base, cur0, m0), S) = Some ((i32 (base + 1), ?cur, ?m), S2)"
      using step Nil by simp
    ultimately show ?thesis using Nil S2(2) g2 h2 S1(4,6) S2(3)
      by - (rule exI [of _ S2], rule exI [of _ "[?z]"], rule exI [of _ "i32 (base + 1)"], rule exI [of _ ?cur], rule exI [of _ ?m],
        simp add: renumbered_def slot_def)
  next
    case (Cons x' old')
    then have wrap: "i32 (base + 1) = base + 1" using Cons.prems(4,5) by (simp add: i32_id i32_MAX_def)
    have c: "0 \<le> base + 1" "base + 1 + int (length old) \<le> i32_MAX + 1" "\<forall>j \<in> indexes (s_windows ?s). j < base + 1"
      using Cons.prems(4-6) by (auto simp: indexes_def intro: less_trans)
    have links: "links_ok (s_windows ?s)" using S1(6) by simp
    have wins: "\<exists>w. wl_window u = Some w \<and> sv_wins S2 w \<noteq> None" if u: "u \<in> set old" for u
    proof -
      have "u \<in> set (x # old)" using u by simp
      from Cons.prems(7) [OF this] obtain w where "wl_window u = Some w" "sv_wins S w \<noteq> None" by (elim exE conjE)
      moreover have "sv_wins S2 w = None \<longrightarrow> sv_wins S w = None" using g2 by (simp add: grows_def)
      ultimately have "wl_window u = Some w \<and> sv_wins S2 w \<noteq> None" by (cases "sv_wins S2 w") simp_all
      then show ?thesis by (rule exI)
    qed
    have d: "distinct (map wl_id old)" using Cons.prems(8) by simp
    from Cons.IH [OF S2(2) h2 links c wins d, of ?cur ?m] obtain S' ws nidx cur marked where S':
      "each (renumber_link sid curw) old ((base + 1, ?cur, ?m), S2) = Some ((nidx, cur, marked), S')"
      "refs_ok h e S'" "grows sid S2 S'" "sv_notes S' = sv_notes S2"
      "sv_heap S' sid = Some (?s\<lparr>s_windows := s_windows ?s @ ws\<rparr>)" "links_ok (s_windows ?s @ ws)" "map slot ws = renumbered (base + 1) old"
      "\<forall>y \<in> set ws. WINLINK_VISITED \<notin> wl_flags y"
      "cur = (case Option.bind curw (position old) of None \<Rightarrow> ?cur | Some k \<Rightarrow> base + 1 + int k)" "marked = ?m \<or> marked \<in> indexes ws" by blast
    have cur: "cur = (case Option.bind curw (position (x # old)) of None \<Rightarrow> cur0 | Some k \<Rightarrow> base + int k)"
    proof (cases "curw = Some (wl_id x)")
      case True
      have "wl_id x \<notin> ids old" using Cons.prems(8) by simp
      then have "position old (wl_id x) = None" unfolding position_def find_index_None image_iff by auto
      then show ?thesis using S'(9) True by (simp add: position_def)
    next
      case False
      then show ?thesis using S'(9) by (cases curw) (auto simp: position_def split: option.splits)
    qed
    have "sv_notes S' = sv_notes S" using S'(4) S2(3) S1(4) by simp
    moreover have "each (renumber_link sid curw) (x # old) ((base, cur0, m0), S) = Some ((nidx, cur, marked), S')"
      using step wrap S'(1) by simp
    moreover have slot_z: "slot ?z = (base, wl_window x)" by (simp add: slot_def)
    moreover have "marked = m0 \<or> marked \<in> indexes (?z # ws)" using S'(10) by (auto simp: indexes_def split: if_splits)
    ultimately show ?thesis using S' cur grows_trans [OF g2 S'(3)]
      by - (rule exI [of _ S'], rule exI [of _ "?z # ws"], rule exI [of _ nidx], rule exI [of _ cur], rule exI [of _ marked],
        simp add: renumbered_Cons slot_z)
  qed
qed

text \<open>The window behind a pointer.\<close>

definition win_at :: "winlink list \<Rightarrow> nat \<Rightarrow> nat option" where
  "win_at wwl l = Option.bind (wl_deref wwl l) wl_window"

lemma win_at_Cons: "win_at (x # xs) l = (if wl_id x = l then wl_window x else win_at xs l)"
  by (simp add: win_at_def wl_deref_def)

lemma win_at_key3:
  assumes "map key3 xs = map key3 ys"
  shows "win_at xs = win_at ys"
proof -
  have "win_at xs l = win_at ys l" for l
    using assms
  proof (induction xs arbitrary: ys)
    case (Cons x xs)
    then obtain y ys' where y: "ys = y # ys'" "key3 x = key3 y" "map key3 xs = map key3 ys'" by auto
    have "wl_id x = wl_id y" "wl_window x = wl_window y" using y(2) by (simp_all add: key3_def)
    then show ?case using Cons.IH [OF y(3)] y(1) by (simp add: win_at_Cons)
  qed simp
  then show ?thesis by (simp add: fun_eq_iff)
qed

lemma win_at_mem: "distinct (map wl_id wwl) \<Longrightarrow> x \<in> set wwl \<Longrightarrow> win_at wwl (wl_id x) = wl_window x"
  using wl_deref_Some [of wwl "wl_id x" x] by (simp add: win_at_def)

lemma find_window:
  assumes "distinct (map wl_window wwl)" "Some w \<in> set (map wl_window wwl)"
  shows "\<exists>z. winlink_find_by_window wwl w = Some z \<and> z \<in> set wwl \<and> wl_window z = Some w"
proof -
  have "winlink_find_by_window wwl w \<noteq> None" using assms(2) by (auto simp: winlink_find_by_window_def find_None_iff)
  then obtain z where "winlink_find_by_window wwl w = Some z" by blast
  then show ?thesis unfolding winlink_find_by_window_def using find_SomeD by fastforce
qed

lemma win_at_inj:
  assumes "distinct (map wl_id wwl)" "distinct (map wl_window wwl)" "l \<in> ids wwl" "l' \<in> ids wwl" "win_at wwl l = win_at wwl l'"
  shows "l = l'"
proof -
  obtain x x' where x: "x \<in> set wwl" "wl_id x = l" "x' \<in> set wwl" "wl_id x' = l'" using assms(3,4) by auto
  then have "wl_window x = wl_window x'" using win_at_mem [OF assms(1)] assms(5) by metis
  then have "x = x'" using assms(2) x by (auto simp: distinct_map dest: inj_onD)
  then show ?thesis using x by simp
qed

lemma renumber_lasts_ok:
  assumes "refs_ok h e S" "sv_heap S sid = Some s" "stack_ok s" "distinct (map wl_window (s_windows s))"
    "distinct (map wl_id old)" "distinct (map wl_window old)" "set (map wl_window old) \<subseteq> set (map wl_window (s_windows s))"
    "\<And>x. x \<in> set old \<Longrightarrow> wl_window x \<noteq> None" "set ls \<subseteq> ids old" "distinct ls"
    "\<forall>l \<in> set ls. \<forall>l' \<in> set (s_lastw s). win_at (s_windows s) l' \<noteq> win_at old l"
  shows "\<exists>S' s'. each (renumber_last sid old) ls S = Some S' \<and> refs_ok h e S' \<and> S' = put_session sid s' S \<and> stack_ok s' \<and>
    s_curw s' = s_curw s \<and> map row (s_windows s') = map row (s_windows s) \<and>
    map (win_at (s_windows s)) (s_lastw s') = map (win_at (s_windows s)) (s_lastw s) @ map (win_at old) ls"
  using assms
proof (induction ls arbitrary: S s)
  case Nil
  then show ?case by (intro exI [of _ S] exI [of _ s]) (simp add: put_session_same)
next
  case (Cons l ls)
  from wl_deref_exists [OF Cons.prems(5), of l] Cons.prems(9) obtain x where x: "wl_deref old l = Some x" "x \<in> set old" "wl_id x = l" by auto
  obtain w where w: "wl_window x = Some w" using Cons.prems(8) [OF x(2)] by auto
  have "Some w \<in> set (map wl_window (s_windows s))" using Cons.prems(7) x(2) w by force
  from find_window [OF Cons.prems(4) this] obtain z where z: "winlink_find_by_window (s_windows s) w = Some z" "z \<in> set (s_windows s)" "wl_window z = Some w" by blast
  have d: "distinct (map wl_id (s_windows s))" using Cons.prems(3) by (simp add: stack_ok_def links_ok_def)
  have at: "win_at (s_windows s) (wl_id z) = win_at old l" using win_at_mem [OF d z(2)] win_at_mem [OF Cons.prems(5) x(2)] x(3) z(3) w by simp
  have zi: "wl_id z \<in> ids (s_windows s)" using z(2) by simp
  have new: "wl_id z \<notin> set (s_lastw s)" using Cons.prems(11) at by fastforce
  from stack_append_ok [OF Cons.prems(1-3) zi new] obtain S1 s1 where S1: "stack_append sid (wl_id z) S = Some S1" "refs_ok h e S1"
    "S1 = put_session sid s1 S" "stack_ok s1" "s_curw s1 = s_curw s" "s_lastw s1 = s_lastw s @ [wl_id z]" "map row (s_windows s1) = map row (s_windows s)" by blast
  note k = row_key3 [OF S1(7)] and same = win_at_key3 [OF row_key3 [OF S1(7)]]
  have wm: "map wl_window (s_windows s1) = map wl_window (s_windows s)" by (rule map_key3(3) [OF k])
  have neq: "win_at old l' \<noteq> win_at old l" if "l' \<in> set ls" for l'
    using win_at_inj [OF Cons.prems(5,6), of l' l] Cons.prems(9,10) that by auto
  have sep: "\<forall>l' \<in> set ls. \<forall>k \<in> set (s_lastw s1). win_at (s_windows s1) k \<noteq> win_at old l'"
  proof (intro ballI)
    fix l' k assume l': "l' \<in> set ls" and "k \<in> set (s_lastw s1)"
    then have "k \<in> set (s_lastw s) \<or> k = wl_id z" using S1(6) by auto
    then show "win_at (s_windows s1) k \<noteq> win_at old l'" using Cons.prems(11) l' neq [OF l'] at same by auto
  qed
  have h1: "sv_heap S1 sid = Some s1" using S1(3) by simp
  have dw: "distinct (map wl_window (s_windows s1))" "set (map wl_window old) \<subseteq> set (map wl_window (s_windows s1))"
    using Cons.prems(4,7) wm by simp_all
  have ls: "set ls \<subseteq> ids old" "distinct ls" using Cons.prems(9,10) by simp_all
  from Cons.IH [OF S1(2) h1 S1(4) dw(1) Cons.prems(5,6) dw(2) Cons.prems(8) ls sep] obtain S' s' where S': "each (renumber_last sid old) ls S1 = Some S'"
    "refs_ok h e S'" "S' = put_session sid s' S1" "stack_ok s'" "s_curw s' = s_curw s1" "map row (s_windows s') = map row (s_windows s1)"
    "map (win_at (s_windows s1)) (s_lastw s') = map (win_at (s_windows s1)) (s_lastw s1) @ map (win_at old) ls" by blast
  have "renumber_last sid old l S = Some S1" using x w z(1) S1(1) Cons.prems(2) by (simp add: renumber_last_def)
  then show ?case using S' S1(3,5,6,7) at by (intro exI [of _ S'] exI [of _ s']) (simp add: same)
qed

lemma release_all_ok:
  "refs_ok h (no_old(sid := old)) S \<Longrightarrow> \<exists>S'. each (winlink_release sid) old S = Some S' \<and> refs_ok h no_old S' \<and> keeps S S'"
proof (induction old arbitrary: S)
  case Nil
  then show ?case by (simp add: keeps_def)
next
  case (Cons x old)
  from release_old_ok [OF Cons.prems] obtain S1 where S1: "winlink_release sid x S = Some S1" "refs_ok h (no_old(sid := old)) S1" "keeps S S1" by blast
  from Cons.IH [OF S1(2)] S1 keeps_trans [OF S1(3)] show ?case by auto
qed

definition win_cur :: "session \<Rightarrow> nat option" where
  "win_cur s = Option.bind (s_curw s) (win_at (s_windows s))"

lemma position_Some: "distinct (map wl_id wwl) \<Longrightarrow> position wwl l = Some k \<longleftrightarrow> k < length wwl \<and> wl_id (wwl ! k) = l"
proof -
  assume d: "distinct (map wl_id wwl)"
  have "wl_id (wwl ! j) \<noteq> wl_id (wwl ! k)" if "j < k" "k < length wwl" for j k
    using nth_eq_iff_index_eq [OF d, of j k] that by simp
  then show ?thesis by (auto simp: position_def find_index_Some)
qed

lemma renumbered_nth: "map slot ws = renumbered base old \<Longrightarrow> k < length old \<Longrightarrow>
    k < length ws \<and> wl_idx (ws ! k) = base + int k \<and> wl_window (ws ! k) = wl_window (old ! k)"
proof -
  assume m: "map slot ws = renumbered base old" and k: "k < length old"
  have "length ws = length old" using arg_cong [OF m, of length] by (simp add: renumbered_def)
  then have l: "k < length ws" using k by simp
  have "slot (ws ! k) = (base + int k, wl_window (old ! k))" using arg_cong [OF m, of "\<lambda>xs. xs ! k"] k l by (simp add: renumbered_def)
  then show ?thesis using l by (simp add: slot_def)
qed

lemma renumbered_windows: "map slot ws = renumbered base old \<Longrightarrow> map wl_window ws = map wl_window old"
proof -
  assume "map slot ws = renumbered base old"
  from arg_cong [OF this, of "map snd"] have "map wl_window ws = map (\<lambda>k. wl_window (old ! k)) [0..<length old]"
    by (simp add: slot_def [abs_def] renumbered_def comp_def)
  also have "\<dots> = map wl_window old" by (rule nth_equalityI) simp_all
  finally show ?thesis .
qed

lemma empty_renumbered: "slots s3 = renumbered base old \<Longrightarrow> s_windows s3 = [] \<longleftrightarrow> old = []"
  by (drule arg_cong [of _ _ length]) (auto simp: renumbered_def)

text \<open>The link that gets the index of the new current window.\<close>

lemma renumbered_current:
  assumes "live s" "slots s3 = renumbered base (s_windows s)" "links_ok (s_windows s3)"
    "cur = (case Option.bind (s_curw s) (position (s_windows s)) of None \<Rightarrow> 0 | Some k \<Rightarrow> base + int k)"
  shows "\<exists>r. winlink_find_by_index (s_windows s3) cur = Some r \<and> (r = None \<longleftrightarrow> s_windows s3 = []) \<and>
    (\<forall>z. r = Some z \<longrightarrow> (\<exists>c. s_curw s = Some c \<and> z \<in> set (s_windows s3) \<and> wl_window z = win_at (s_windows s) c))"
proof (cases "s_curw s")
  case None
  then have "s_windows s3 = []" using assms(1) empty_renumbered [OF assms(2)] by (simp add: live_def)
  then show ?thesis using assms(4) None by (simp add: winlink_find_by_index_def rb_find_by_def)
next
  case (Some c)
  have ok: "session_ok s" using assms(1) by (simp add: live_def)
  note d = session_okD(3) [OF ok]
  from id_position [OF session_okD(6) [OF ok Some]] obtain k where k: "k < length (s_windows s)" "wl_id (s_windows s ! k) = c" by blast
  then have "position (s_windows s) c = Some k" using position_Some [OF d] by blast
  then have cur: "cur = base + int k" using assms(4) Some by simp
  note n = renumbered_nth [OF assms(2) k(1)]
  let ?z = "s_windows s3 ! k"
  have z: "?z \<in> set (s_windows s3)" "wl_idx ?z = cur" "wl_window ?z = wl_window (s_windows s ! k)" using n cur by auto
  have "win_at (s_windows s) c = wl_window ?z" using win_at_mem [OF d, of "s_windows s ! k"] k z(3) by simp
  then show ?thesis using find_by_index_Some [OF assms(3), of cur ?z] z Some by auto
qed

lemma renumbered_live:
  assumes "live s" "distinct (map wl_window (s_windows s))" "stack_ok s3" "map (win_at (s_windows s3)) (s_lastw s3) = map (win_at (s_windows s)) (s_lastw s)"
    "r = None \<longleftrightarrow> s_windows s3 = []" "s_windows s3 = [] \<longleftrightarrow> s_windows s = []"
    "\<And>z. r = Some z \<Longrightarrow> \<exists>c. s_curw s = Some c \<and> z \<in> set (s_windows s3) \<and> wl_window z = win_at (s_windows s) c"
  shows "live (s3\<lparr>s_curw := map_option wl_id r\<rparr>) \<and> win_cur (s3\<lparr>s_curw := map_option wl_id r\<rparr>) = win_cur s"
proof -
  have ok: "session_ok s" using assms(1) by (simp add: live_def)
  note d = session_okD(3) [OF ok]
  have d3: "distinct (map wl_id (s_windows s3))" using assms(3) by (simp add: stack_ok_def links_ok_def)
  have "c' \<in> ids (s_windows s3) \<and> c' \<notin> set (s_lastw s3)" if c': "map_option wl_id r = Some c'" for c'
  proof -
    from c' obtain z where z: "r = Some z" "c' = wl_id z" by auto
    from assms(7) [OF z(1)] obtain c where c: "s_curw s = Some c" "z \<in> set (s_windows s3)" "wl_window z = win_at (s_windows s) c" by blast
    have at: "win_at (s_windows s3) c' = win_at (s_windows s) c" using win_at_mem [OF d3 c(2)] c(3) z(2) by simp
    have "c' \<notin> set (s_lastw s3)"
    proof
      assume "c' \<in> set (s_lastw s3)"
      then have "win_at (s_windows s3) c' \<in> set (map (win_at (s_windows s3)) (s_lastw s3))" by simp
      then have "win_at (s_windows s3) c' \<in> set (map (win_at (s_windows s)) (s_lastw s))" unfolding assms(4) .
      then obtain l where l: "l \<in> set (s_lastw s)" "win_at (s_windows s) l = win_at (s_windows s) c" using at by auto
      have "l = c" by (rule win_at_inj [OF d assms(2) _ session_okD(6) [OF ok c(1)] l(2)]) (use l(1) session_okD(5) [OF ok] in blast)
      then show False using l(1) session_okD(7) [OF ok c(1)] by simp
    qed
    then show ?thesis using c(2) z(2) by simp
  qed
  then have "session_ok (s3\<lparr>s_curw := map_option wl_id r\<rparr>)" using assms(3) by (simp add: session_ok_def stack_ok_def)
  then have "live (s3\<lparr>s_curw := map_option wl_id r\<rparr>)" using assms(5) by (simp add: live_def)
  moreover have "win_cur (s3\<lparr>s_curw := map_option wl_id r\<rparr>) = win_cur s"
  proof (cases r)
    case None
    then have "s_windows s = []" using assms(5,6) by simp
    then show ?thesis using None assms(1) by (simp add: win_cur_def live_def)
  next
    case (Some z)
    from assms(7) [OF Some] show ?thesis using Some win_at_mem [OF d3] by (auto simp: win_cur_def)
  qed
  ultimately show ?thesis by blast
qed

text \<open>The links and the stack after the two loops, before the current window is set.\<close>

lemma renumber_loops:
  assumes "refs_ok h no_old S" "sv_heap S sid = Some s" "session_ok s" "distinct (map wl_window (s_windows s))"
    "0 \<le> base" "base + int (length (s_windows s)) \<le> i32_MAX + 1"
  shows "\<exists>S1 s1 nidx cur marked S3 s3. each (renumber_link sid (s_curw s)) (s_windows s) ((base, 0, - 1), put_session sid (s\<lparr>s_windows := []\<rparr>) S) = Some ((nidx, cur, marked), S1) \<and>
    sv_heap S1 sid = Some s1 \<and> each (renumber_last sid (s_windows s)) (s_lastw s1) (put_session sid (s1\<lparr>s_lastw := []\<rparr>) S1) = Some S3 \<and>
    sv_heap S3 sid = Some s3 \<and> refs_ok h (no_old(sid := s_windows s)) S3 \<and> others_same sid S S3 \<and> stack_ok s3 \<and>
    slots s3 = renumbered base (s_windows s) \<and> map (win_at (s_windows s3)) (s_lastw s3) = map (win_at (s_windows s)) (s_lastw s) \<and>
    cur = (case Option.bind (s_curw s) (position (s_windows s)) of None \<Rightarrow> 0 | Some k \<Rightarrow> base + int k) \<and>
    (marked = - 1 \<or> 0 \<le> marked)"
proof -
  let ?old = "s_windows s" let ?S0 = "put_session sid (s\<lparr>s_windows := []\<rparr>) S" let ?e = "no_old(sid := ?old)"
  note d = session_okD(3) [OF assms(3)]
  have r0: "refs_ok h ?e ?S0"
    by (rule refs_ok_frame [OF assms(1)]) (use tree_heap [OF assms(2)] in \<open>simp_all add: all_links_def\<close>)
  have h0: "sv_heap ?S0 sid = Some (s\<lparr>s_windows := []\<rparr>)" by simp
  have l0: "links_ok (s_windows (s\<lparr>s_windows := []\<rparr>))" "\<forall>j \<in> indexes (s_windows (s\<lparr>s_windows := []\<rparr>)). j < base"
    by (simp_all add: links_ok_def indexes_def)
  have alive: "\<exists>w. wl_window x = Some w \<and> sv_wins ?S0 w \<noteq> None" if "x \<in> set ?old" for x
    using refs_no_old(2) [OF assms(1,2) that] by auto
  from renumber_links_ok [OF r0 h0 l0(1) assms(5,6) l0(2) alive d, of "s_curw s" 0 "- 1"] obtain S1 ws nidx cur marked where
    S1: "each (renumber_link sid (s_curw s)) ?old ((base, 0, - 1), ?S0) = Some ((nidx, cur, marked), S1)" "refs_ok h ?e S1" "grows sid ?S0 S1"
    "sv_heap S1 sid = Some (s\<lparr>s_windows := ws\<rparr>)" "links_ok ws" "map slot ws = renumbered base ?old"
    "\<forall>y \<in> set ws. WINLINK_VISITED \<notin> wl_flags y" "cur = (case Option.bind (s_curw s) (position ?old) of None \<Rightarrow> 0 | Some k \<Rightarrow> base + int k)"
    "marked = - 1 \<or> marked \<in> indexes ws" by auto
  note win = renumbered_windows [OF S1(6)]
  let ?s2 = "s\<lparr>s_windows := ws, s_lastw := []\<rparr>" let ?S2 = "put_session sid ?s2 S1"
  have r2: "refs_ok h ?e ?S2" by (rule refs_ok_frame [OF S1(2)]) (use tree_heap [OF S1(4)] in \<open>simp_all add: all_links_def\<close>)
  have h2: "sv_heap ?S2 sid = Some ?s2" by simp
  have st2: "stack_ok ?s2" using S1(5,7) by (simp add: stack_ok_def)
  have w2: "distinct (map wl_window (s_windows ?s2))" "set (map wl_window ?old) \<subseteq> set (map wl_window (s_windows ?s2))" using win assms(4) by simp_all
  have nn: "\<And>x. x \<in> set ?old \<Longrightarrow> wl_window x \<noteq> None" using alive by fastforce
  have sep: "\<forall>l \<in> set (s_lastw s). \<forall>l' \<in> set (s_lastw ?s2). win_at (s_windows ?s2) l' \<noteq> win_at ?old l" by simp
  from renumber_lasts_ok [OF r2 h2 st2 w2(1) d assms(4) w2(2) nn session_okD(5,4) [OF assms(3)] sep] obtain S3 s3 where
    S3: "each (renumber_last sid ?old) (s_lastw s) ?S2 = Some S3" "refs_ok h ?e S3" "S3 = put_session sid s3 ?S2" "stack_ok s3"
    "s_curw s3 = s_curw s" "map row (s_windows s3) = map row ws" "map (win_at ws) (s_lastw s3) = map (win_at ?old) (s_lastw s)" by auto
  note k3 = row_key3 [OF S3(6)]
  have "grows sid S S3" unfolding S3(3) by (rule grows_trans [OF grows_trans [OF put_grows S1(3)]]) simp
  moreover have "sv_heap S3 sid = Some s3" using S3(3) by simp
  moreover have "marked = - 1 \<or> 0 \<le> marked" using S1(5,9) by (auto simp: indexes_def links_ok_def)
  moreover have "slots s3 = renumbered base ?old" using key3_slots [OF k3] S1(6) by simp
  moreover have "map (win_at (s_windows s3)) (s_lastw s3) = map (win_at ?old) (s_lastw s)" using S3(7) win_at_key3 [OF k3] by simp
  ultimately show ?thesis using S1(1,4,8) S3(1,2,4) grows_others by auto
qed

text \<open>C37: for a session that links no window twice, and a \<open>base-index\<close> from which its windows can be numbered within
  31 bits, renumbering gives the windows the indexes from \<open>base-index\<close> on, in their order; the session shows the same window, the stack of last windows is the same, and the references to
  the windows stay accounted for.\<close>

theorem session_renumber:
  assumes "refs_ok h no_old S" "sv_heap S sid = Some s" "live s" "distinct (map wl_window (s_windows s))"
    "0 \<le> base" "base + int (length (s_windows s)) \<le> i32_MAX + 1"
  shows "\<exists>S' s'. session_renumber_windows sid base S = Some S' \<and> refs_ok h no_old S' \<and> sv_heap S' sid = Some s' \<and> live s' \<and>
    others_same sid S S' \<and> slots s' = renumbered base (s_windows s) \<and> win_cur s' = win_cur s \<and>
    map (win_at (s_windows s')) (s_lastw s') = map (win_at (s_windows s)) (s_lastw s)"
proof -
  have ok: "session_ok s" using assms(3) by (simp add: live_def)
  from renumber_loops [OF assms(1,2) ok assms(4-6)] obtain S1 s1 nidx cur marked S3 s3 where
    S1: "each (renumber_link sid (s_curw s)) (s_windows s) ((base, 0, - 1), put_session sid (s\<lparr>s_windows := []\<rparr>) S) = Some ((nidx, cur, marked), S1)"
      "sv_heap S1 sid = Some s1" "each (renumber_last sid (s_windows s)) (s_lastw s1) (put_session sid (s1\<lparr>s_lastw := []\<rparr>) S1) = Some S3"
    and S3: "sv_heap S3 sid = Some s3" "refs_ok h (no_old(sid := s_windows s)) S3" "others_same sid S S3" "stack_ok s3"
      "slots s3 = renumbered base (s_windows s)" "map (win_at (s_windows s3)) (s_lastw s3) = map (win_at (s_windows s)) (s_lastw s)"
    and cur: "cur = (case Option.bind (s_curw s) (position (s_windows s)) of None \<Rightarrow> 0 | Some k \<Rightarrow> base + int k)" "marked = - 1 \<or> 0 \<le> marked"
    by (elim exE conjE) (rule that)
  have l3: "links_ok (s_windows s3)" using S3(4) by (simp add: stack_ok_def)
  define S4 where "S4 = (if marked = - 1 then S3 else S3\<lparr>MARKED_PANE := map_option (\<lambda>x. (sid, wl_id x)) (the (winlink_find_by_index (s_windows s3) marked))\<rparr>)"
  have m: "(if marked = - 1 then Some S3 else do { found \<leftarrow> winlink_find_by_index (s_windows s3) marked;
      Some (S3\<lparr>MARKED_PANE := map_option (\<lambda>x. (sid, wl_id x)) found\<rparr>) }) = Some S4"
    using cur(2) find_by_index_cases [of marked "s_windows s3"] by (auto simp: S4_def)
  have h4: "sv_heap S4 = sv_heap S3" "sv_wins S4 = sv_wins S3" "sv_notes S4 = sv_notes S3" "sv_next S4 = sv_next S3" "SESSIONS S4 = SESSIONS S3"
    "SESSION_GROUPS S4 = SESSION_GROUPS S3" "sv_nohooks S4 = sv_nohooks S3" by (simp_all add: S4_def)
  from renumbered_current [OF assms(3) S3(5) l3 cur(1)] obtain r where r: "winlink_find_by_index (s_windows s3) cur = Some r" "r = None \<longleftrightarrow> s_windows s3 = []"
    "\<And>z. r = Some z \<Longrightarrow> \<exists>c. s_curw s = Some c \<and> z \<in> set (s_windows s3) \<and> wl_window z = win_at (s_windows s) c" by blast
  let ?s5 = "s3\<lparr>s_curw := map_option wl_id r\<rparr>" let ?S5 = "put_session sid ?s5 S4"
  have r5: "refs_ok h (no_old(sid := s_windows s)) ?S5"
    by (rule refs_ok_frame [OF S3(2)]) (use tree_heap [OF S3(1)] h4 in \<open>simp_all add: all_links_def tree_def\<close>)
  from release_all_ok [OF r5] obtain S' where S': "each (winlink_release sid) (s_windows s) ?S5 = Some S'" "refs_ok h no_old S'" "keeps ?S5 S'" by blast
  note live = renumbered_live [OF assms(3,4) S3(4,6) r(2) empty_renumbered [OF S3(5)] r(3)]
  have "session_renumber_windows sid base S = Some S'"
    unfolding session_renumber_windows_def Let_def using assms(2) S1 S3(1) m r(1) S'(1) by simp
  moreover have "others_same sid S3 ?S5" using h4 by (simp add: others_same_def)
  then have "others_same sid S S'" using others_same_trans [OF S3(3)] others_same_trans [OF _ keeps_others [OF S'(3)]] by blast
  moreover have "sv_heap S' sid = Some ?s5" using S'(3) by (simp add: keeps_def)
  ultimately show ?thesis using S'(2) S3(5,6) live by (intro exI [of _ S'] exI [of _ ?s5]) simp
qed

theorem session_renumber_witness:
  "\<exists>S' s'. session_renumber_windows 1 5 shared = Some S' \<and> refs_ok (\<lambda>_. 0) no_old S' \<and> sv_heap S' 1 = Some s' \<and>
     slots s' = [(5, Some 10), (6, Some 11)] \<and> win_cur s' = Some 10"
proof -
  define s where "s = \<lparr>s_curw = Some 0, s_lastw = [], s_windows = [fresh_link 0 0 (Some 10), fresh_link 1 3 (Some 11)]\<rparr>"
  then have s: "sv_heap shared 1 = Some s" "distinct (map wl_window (s_windows s))" "(0::i32) \<le> 5" "5 + int (length (s_windows s)) \<le> i32_MAX + 1"
    "renumbered 5 (s_windows s) = [(5, Some 10), (6, Some 11)]" "win_cur s = Some 10"
    by (simp_all add: shared_def i32_MAX_def renumbered_def upt_rec win_cur_def win_at_def wl_deref_def)
  note ok = server_okD [OF shared_ok]
  show ?thesis using session_renumber [OF ok(1) s(1) ok(3) [OF s(1)] s(2-4)] s(5,6) by auto
qed

section \<open>Making room\<close>

text \<open>The links from \<open>idx\<close> up to the free index \<open>j\<close> move up by one.\<close>

definition bump :: "i32 \<Rightarrow> i32 \<Rightarrow> winlink \<Rightarrow> winlink" where
  "bump idx j x = (if idx \<le> wl_idx x \<and> wl_idx x < j then x\<lparr>wl_idx := wl_idx x + 1\<rparr> else x)"

lemma shuffle_search_finds:
  "0 \<le> i \<Longrightarrow> i \<le> j \<Longrightarrow> j < i32_MAX \<Longrightarrow> {i..<j} \<subseteq> indexes wwl \<Longrightarrow> j \<notin> indexes wwl \<Longrightarrow> shuffle_search wwl i fin = Some j"
proof (induction "nat (j - i)" arbitrary: i fin)
  case 0
  then have "winlink_find_by_index wwl i = Some None" by (simp add: find_by_index_None indexes_def)
  then show ?case using 0 by (simp add: shuffle_search.simps [of wwl i])
next
  case (Suc n)
  then have lt: "i < j" by simp
  then have "i \<in> indexes wwl" using Suc.prems by auto
  then have "winlink_find_by_index wwl i \<noteq> Some None" "\<exists>r. winlink_find_by_index wwl i = Some r"
    using Suc.prems(1) find_by_index_cases by (auto simp: find_by_index_None indexes_def)
  then obtain x where x: "winlink_find_by_index wwl i = Some (Some x)" by fastforce
  have "shuffle_search wwl (i + 1) i = Some j" using Suc.hyps(2) Suc.prems lt by (intro Suc.hyps(1)) auto
  then show ?case using x lt Suc.prems by (simp add: shuffle_search.simps [of wwl i])
qed

lemma wl_delete_absent: "l \<notin> ids wwl \<Longrightarrow> wl_delete l wwl = wwl"
  unfolding image_iff by (auto simp: wl_delete_def filter_id_conv)

lemma reindex_last:
  assumes "links_ok wwl" "x \<in> set wwl" "wl_idx x + 1 \<notin> indexes wwl"
  shows "rb_insert wl_idx (x\<lparr>wl_idx := wl_idx x + 1\<rparr>) (wl_delete (wl_id x) wwl) = map (bump (wl_idx x) (wl_idx x + 1)) wwl"
proof -
  from split_list [OF assms(2)] obtain xs ys where w: "wwl = xs @ x # ys" by blast
  have o: "\<forall>y \<in> set xs. wl_idx y < wl_idx x" "\<forall>y \<in> set ys. wl_idx x < wl_idx y"
    using links_okD(1) [OF assms(1)] by (auto simp: w sorted_wrt_append)
  have ys: "\<forall>y \<in> set ys. wl_idx x + 1 < wl_idx y" using o(2) assms(3) by (force simp: w indexes_def)
  have n: "wl_id x \<notin> ids xs" "wl_id x \<notin> ids ys" using links_okD(2) [OF assms(1)] by (auto simp: w)
  have del: "wl_delete (wl_id x) wwl = xs @ ys"
    using wl_delete_absent [OF n(1)] wl_delete_absent [OF n(2)] by (simp add: w wl_delete_def)
  let ?x = "x\<lparr>wl_idx := wl_idx x + 1\<rparr>"
  have tail: "insort_key wl_idx ?x ys = ?x # ys" using ys by (cases ys) auto
  have "insort_key wl_idx ?x (xs @ ys) = xs @ ?x # ys"
    using o(1) by (induction xs) (auto simp: tail)
  moreover have "wl_idx ?x \<notin> wl_idx ` set (xs @ ys)" using o ys by force
  ultimately have ins: "rb_insert wl_idx ?x (xs @ ys) = xs @ ?x # ys" by (simp add: rb_insert_def)
  have "map (bump (wl_idx x) (wl_idx x + 1)) xs = xs" "map (bump (wl_idx x) (wl_idx x + 1)) ys = ys"
    using o(1) ys by (auto intro!: map_idI simp: bump_def)
  then show ?thesis using del ins by (simp add: w bump_def)
qed

lemma bump_indexes: "links_ok wwl \<Longrightarrow> x \<in> set wwl \<Longrightarrow> indexes (map (bump (wl_idx x) (wl_idx x + 1)) wwl) = insert (wl_idx x + 1) (indexes wwl - {wl_idx x})"
proof -
  assume ok: "links_ok wwl" and x: "x \<in> set wwl"
  have "indexes (map (bump (wl_idx x) (wl_idx x + 1)) wwl) = (\<lambda>i. if i = wl_idx x then wl_idx x + 1 else i) ` indexes wwl"
    unfolding indexes_def set_map image_image by (rule image_cong) (simp_all add: bump_def)
  moreover have "wl_idx x \<in> indexes wwl" using x by (simp add: indexes_def)
  ultimately show ?thesis by auto
qed

lemma bump_links_ok:
  assumes "links_ok wwl" "x \<in> set wwl" "wl_idx x + 1 \<notin> indexes wwl" "wl_idx x < i32_MAX"
  shows "links_ok (map (bump (wl_idx x) (wl_idx x + 1)) wwl)"
proof -
  let ?x = "x\<lparr>wl_idx := wl_idx x + 1\<rparr>"
  have d: "links_ok (wl_delete (wl_id x) wwl)" by (rule links_ok_delete [OF assms(1)])
  have "wl_idx ?x \<notin> wl_idx ` set (wl_delete (wl_id x) wwl)" using assms(3) by (auto simp: wl_delete_def indexes_def)
  moreover have "wl_id ?x \<notin> ids (wl_delete (wl_id x) wwl)" by (auto simp: wl_delete_def)
  ultimately have "links_ok (rb_insert wl_idx ?x (wl_delete (wl_id x) wwl))"
    using links_ok_insert(1) [OF d, of ?x] links_okD(3) [OF assms(1,2)] assms(4) by simp
  then show ?thesis using reindex_last [OF assms(1-3)] by simp
qed

lemma shuffle_move_bumps:
  "links_ok wwl \<Longrightarrow> 0 \<le> idx \<Longrightarrow> idx \<le> j \<Longrightarrow> j \<le> i32_MAX \<Longrightarrow> {idx..<j} \<subseteq> indexes wwl \<Longrightarrow> j \<notin> indexes wwl \<Longrightarrow>
    shuffle_move idx j wwl = Some (map (bump idx j) wwl) \<and> links_ok (map (bump idx j) wwl) \<and> idx \<notin> indexes (map (bump idx j) wwl)"
proof (induction "nat (j - idx)" arbitrary: j wwl)
  case 0
  then have j: "j = idx" by simp
  have "map (bump idx idx) wwl = wwl" by (rule map_idI) (simp add: bump_def)
  then show ?case using 0 j by (simp add: shuffle_move.simps [of idx idx])
next
  case (Suc n)
  then have lt: "idx \<le> j - 1" by simp
  then have "j - 1 \<in> indexes wwl" using Suc.prems(5) by auto
  then obtain x where x: "x \<in> set wwl" "wl_idx x = j - 1" by (auto simp: indexes_def)
  have f: "winlink_find_by_index wwl (j - 1) = Some (Some x)" using find_by_index_Some [OF Suc.prems(1)] x by blast
  have free: "wl_idx x + 1 \<notin> indexes wwl" using x Suc.prems(6) by simp
  have range: "wl_idx x < i32_MAX" "0 \<le> wl_idx x" using x Suc.prems(2,4) lt by simp_all
  let ?w = "map (bump (wl_idx x) (wl_idx x + 1)) wwl"
  have step: "shuffle_move idx j wwl = shuffle_move idx (j - 1) ?w"
    using f lt reindex_last [OF Suc.prems(1) x(1) free] range by (simp add: shuffle_move.simps [of idx j] i32_id i32_MAX_def)
  note ind = bump_indexes [OF Suc.prems(1) x(1)]
  have "shuffle_move idx (j - 1) ?w = Some (map (bump idx (j - 1)) ?w) \<and> links_ok (map (bump idx (j - 1)) ?w) \<and> idx \<notin> indexes (map (bump idx (j - 1)) ?w)"
    using Suc.hyps(2) Suc.prems lt x(2) ind
    by (intro Suc.hyps(1) bump_links_ok [OF Suc.prems(1) x(1) free range(1)]) auto
  moreover have bumps: "map (bump idx (j - 1)) ?w = map (bump idx j) wwl"
    unfolding map_map by (rule map_cong [OF refl]) (use x(2) lt in \<open>auto simp: bump_def\<close>)
  ultimately show ?case unfolding step bumps by blast
qed

text \<open>Making room in front of or behind a window moves up the windows from there to the next gap by one, leaves the
  index free and changes nothing else.\<close>

theorem winlink_shuffle_up_room:
  fixes before :: bool
  assumes "session_ok s" "x \<in> set (s_windows s)"
  defines "idx \<equiv> (if before then wl_idx x else wl_idx x + 1)"
  assumes "idx \<le> j" "j < i32_MAX" "{idx..<j} \<subseteq> indexes (s_windows s)" "j \<notin> indexes (s_windows s)"
  shows "winlink_shuffle_up (Some (wl_id x)) before s = Some (idx, s\<lparr>s_windows := map (bump idx j) (s_windows s)\<rparr>) \<and>
    session_ok (s\<lparr>s_windows := map (bump idx j) (s_windows s)\<rparr>) \<and> idx \<notin> indexes (map (bump idx j) (s_windows s))"
proof -
  note ok = session_okD(2) [OF assms(1)]
  have r: "0 \<le> wl_idx x" by (rule links_okD(3) [OF ok assms(2)])
  have idx: "0 \<le> idx" "(if before then wl_idx x else i32 (wl_idx x + 1)) = idx"
    using r assms(4,5) by (auto simp: idx_def i32_id i32_MAX_def)
  have dr: "wl_deref (s_windows s) (wl_id x) = Some x" using wl_deref_Some [OF links_okD(2) [OF ok]] assms(2) by blast
  have search: "shuffle_search (s_windows s) idx idx = Some j" by (rule shuffle_search_finds [OF idx(1) assms(4-7)])
  have jm: "j \<le> i32_MAX" using assms(5) by simp
  note m = shuffle_move_bumps [OF ok idx(1) assms(4) jm assms(6,7)]
  have b: "wl_id (bump idx j y) = wl_id y" "wl_flags (bump idx j y) = wl_flags y" for y by (simp_all add: bump_def)
  have "stack_ok (s\<lparr>s_windows := map (bump idx j) (s_windows s)\<rparr>)"
    using session_okD(1) [OF assms(1)] m by (simp add: stack_ok_def b image_image)
  then have "session_ok (s\<lparr>s_windows := map (bump idx j) (s_windows s)\<rparr>)"
    using session_okD(6,7) [OF assms(1)] by (simp add: session_ok_def b image_image)
  moreover have "winlink_shuffle_up (Some (wl_id x)) before s = Some (idx, s\<lparr>s_windows := map (bump idx j) (s_windows s)\<rparr>)"
    unfolding winlink_shuffle_up_def using dr idx(2) search m assms(5) by (simp add: Let_def)
  ultimately show ?thesis using m by blast
qed

text \<open>At the upper end of the indexes the search does not notice that it found no gap: the index that
  \<open>winlink_shuffle_up\<close> returns is in use.\<close>

theorem winlink_shuffle_up_full:
  "winlink_shuffle_up (Some 0) True \<lparr>s_curw = Some 0, s_lastw = [], s_windows = [fresh_link 0 2147483646 (Some 5)]\<rparr> =
     Some (2147483646, \<lparr>s_curw = Some 0, s_lastw = [], s_windows = [fresh_link 0 2147483646 (Some 5)]\<rparr>)"
  by (simp add: winlink_shuffle_up_def wl_deref_def shuffle_search.simps shuffle_move.simps i32_MAX_def winlink_find_by_index_def rb_find_by_def)

end
