(* ===== verification/Session_Cases.thy ===== *)
theory Session_Cases
  imports Session_Windows
begin

text \<open>
  Runs of the session operations on small servers: the way to them through the operations of the code, and what
  the next operation does there.  Each of them ends where the lemmas about the operations have a hypothesis.
\<close>

definition empty_server :: server where
  "empty_server = \<lparr>sv_heap = (\<lambda>_. None), sv_wins = (\<lambda>_. None), SESSIONS = [], SESSION_GROUPS = [], sv_notes = [],
     sv_nohooks = False, sv_next = 0, MARKED_PANE = None\<rparr>"

section \<open>Renumbering one session of a group\<close>

text \<open>Sessions 1 and 2 share the windows 10, 11 and 12 at the indexes 5, 6 and 7; session 2 shows the last of them.\<close>

definition two_grouped :: "server option" where
  "two_grouped = do {
     (l, S) \<leftarrow> spawn_window 1 5 False False True 0 10 (session_create 1 0 empty_server);
     (l, S) \<leftarrow> spawn_window 1 6 False False True 0 11 S;
     (l, S) \<leftarrow> spawn_window 1 7 False False True 0 12 S;
     S \<leftarrow> session_group_synchronize_to 2
       (session_group_add ''a'' 2 (session_group_add ''a'' 1 (session_group_new ''a'' (session_create 2 1 S))));
     (r, S) \<leftarrow> session_select 2 5 S;
     (r, S) \<leftarrow> session_select 2 7 S;
     Some S }"

text \<open>\<open>move-window -r\<close> renumbers the target session alone.  The next window that is made in it synchronises the
  group, and finds none of the windows that session 2 knew at its indexes: session 2 is left without a current
  window, though it has four.\<close>

theorem renumber_one_of_group:
  "(do { S \<leftarrow> two_grouped;
         S \<leftarrow> session_renumber_windows 1 0 S;
         (l, S) \<leftarrow> spawn_window 1 (-1) False False True 0 13 S;
         s \<leftarrow> sv_heap S 2;
         Some (s_curw s, map wl_idx (s_windows s)) }) = Some (None, [0, 1, 2, 3])"
  by code_simp

section \<open>Renumbering a session with a window linked twice\<close>

text \<open>Window 10 is linked at the indexes 0 and 1, and both links are on the stack.\<close>

definition twice_linked :: "server option" where
  "twice_linked = do {
     (l, S) \<leftarrow> spawn_window 1 0 False False True 0 10 (session_create 1 0 empty_server);
     (l, S) \<leftarrow> session_attach 1 10 1 S;
     (l, S) \<leftarrow> spawn_window 1 2 False False True 0 11 S;
     (r, S) \<leftarrow> session_select 1 1 S;
     (r, S) \<leftarrow> session_select 1 2 S;
     Some S }"

text \<open>The stack is rebuilt by looking for each window of the old one, so that the link found first is put on it twice.\<close>

theorem renumber_linked_twice:
  "twice_linked \<noteq> None \<and> (do { S \<leftarrow> twice_linked; session_renumber_windows 1 0 S }) = None"
  by code_simp

section \<open>Killing a window\<close>

text \<open>Nothing is notified while a hook runs, so that no notification holds the window.\<close>

definition hook_kill :: "server option" where
  "hook_kill = do {
     (l, S) \<leftarrow> spawn_window 1 0 False False True 0 10 (session_create 1 0 (empty_server\<lparr>sv_nohooks := True\<rparr>));
     (l, S) \<leftarrow> spawn_window 1 1 False False True 0 11 S;
     (l, S) \<leftarrow> spawn_window 2 0 False False True 0 12 (session_create 2 1 S);
     Some S }"

text \<open>Its only link goes with session 1; session 2 is then asked whether it has the window, which was freed.\<close>

theorem kill_window_in_hook:
  "hook_kill \<noteq> None \<and> (do { S \<leftarrow> hook_kill; server_kill_window (\<lambda>_. False) (\<lambda>_. 0) 10 True S }) = None"
  by code_simp

text \<open>Outside a hook the queued notifications hold it until the loop has ended.\<close>

theorem kill_window_notified:
  "(do { S \<leftarrow> hook_kill; S \<leftarrow> server_kill_window (\<lambda>_. False) (\<lambda>_. 0) 10 True (S\<lparr>sv_nohooks := False\<rparr>);
         s \<leftarrow> sv_heap S 1; Some (s_curw s, map wl_idx (s_windows s)) }) = Some (Some 1, [1])"
  by code_simp

section \<open>Replacing a window by one that does not start\<close>

text \<open>The new link becomes the current one before its pane is started, and is freed when that fails: the pointer to
  the current window of the session is left to the freed link.\<close>

theorem spawn_failed_replacing:
  "(do { (l, S) \<leftarrow> spawn_window 1 0 False False True 0 10 (session_create 1 0 empty_server);
         (l, S) \<leftarrow> spawn_window 1 4 False True True 0 11 S;
         (l, S) \<leftarrow> spawn_window 1 0 True False False 0 12 S;
         s \<leftarrow> sv_heap S 1;
         Some (l, s_curw s, map wl_id (s_windows s)) }) = Some (None, Some 2, [1])"
  by code_simp

end
