(* ===== verification/Input_State.thy ===== *)
theory Input_State
  imports Rust_Text
begin

text \<open>
  The state machine of the input parser (\<open>input.rs\<close>): the states with their transition tables, and the tables
  of escape and control sequences.  A transition names its handler; those that collect bytes are in \<open>Input_Params\<close>.

  A byte that the table of the state does not cover is a call of \<open>fatalx\<close> in \<open>input_parse\<close>: the tables
  cover every byte, and no byte twice.
\<close>

section \<open>States and transitions\<close>

datatype input_state =
  INPUT_STATE_GROUND | INPUT_STATE_ESC_ENTER | INPUT_STATE_ESC_INTERMEDIATE | INPUT_STATE_CSI_ENTER
  | INPUT_STATE_CSI_PARAMETER | INPUT_STATE_CSI_INTERMEDIATE | INPUT_STATE_CSI_IGNORE | INPUT_STATE_DCS_ENTER
  | INPUT_STATE_DCS_PARAMETER | INPUT_STATE_DCS_INTERMEDIATE | INPUT_STATE_DCS_HANDLER | INPUT_STATE_DCS_ESCAPE
  | INPUT_STATE_DCS_IGNORE | INPUT_STATE_OSC_STRING | INPUT_STATE_APC_STRING | INPUT_STATE_RENAME_STRING
  | INPUT_STATE_CONSUME_ST

datatype input_handler =
  Input_c0_dispatch | Input_esc_dispatch | Input_csi_dispatch | Input_dcs_dispatch | Input_print | Input_intermediate
| Input_parameter | Input_input | Input_top_bit_set | Input_end_bel

datatype input_enter = Input_ground | Input_clear | Input_enter_dcs | Input_enter_osc | Input_enter_apc | Input_enter_rename

datatype input_exit = Input_exit_osc | Input_exit_apc | Input_exit_rename

record input_transition =
  it_first :: nat
  it_last :: nat
  it_handler :: "input_handler option"
  handler_is_input_print :: bool
  it_state :: "input_state option"

definition new_transition :: "nat \<Rightarrow> nat \<Rightarrow> input_handler option \<Rightarrow> input_state option \<Rightarrow> input_transition" where
  "new_transition lo hi handler state =
     \<lparr>it_first = lo, it_last = hi, it_handler = handler, handler_is_input_print = False, it_state = state\<rparr>"

definition new_input_print :: "nat \<Rightarrow> nat \<Rightarrow> input_state option \<Rightarrow> input_transition" where
  "new_input_print lo hi state =
     \<lparr>it_first = lo, it_last = hi, it_handler = Some Input_print, handler_is_input_print = True, it_state = state\<rparr>"

text \<open>State transitions available from all states.\<close>

definition INPUT_STATE_ANYWHERE :: "input_transition list" where
  "INPUT_STATE_ANYWHERE =
     [new_transition 0x18 0x18 (Some Input_c0_dispatch) (Some INPUT_STATE_GROUND),
      new_transition 0x1a 0x1a (Some Input_c0_dispatch) (Some INPUT_STATE_GROUND),
      new_transition 0x1b 0x1b None (Some INPUT_STATE_ESC_ENTER)]"

definition INPUT_STATE_GROUND_TABLE :: "input_transition list" where
  "INPUT_STATE_GROUND_TABLE = INPUT_STATE_ANYWHERE @ [
     new_transition 0x00 0x17 (Some Input_c0_dispatch) None,
     new_transition 0x19 0x19 (Some Input_c0_dispatch) None,
     new_transition 0x1c 0x1f (Some Input_c0_dispatch) None,
     new_input_print 0x20 0x7e None,
     new_transition 0x7f 0x7f None None,
     new_transition 0x80 0xff (Some Input_top_bit_set) None]"

definition INPUT_STATE_ESC_ENTER_TABLE :: "input_transition list" where
  "INPUT_STATE_ESC_ENTER_TABLE = INPUT_STATE_ANYWHERE @ [
     new_transition 0x00 0x17 (Some Input_c0_dispatch) None,
     new_transition 0x19 0x19 (Some Input_c0_dispatch) None,
     new_transition 0x1c 0x1f (Some Input_c0_dispatch) None,
     new_transition 0x20 0x2f (Some Input_intermediate) (Some INPUT_STATE_ESC_INTERMEDIATE),
     new_transition 0x30 0x4f (Some Input_esc_dispatch) (Some INPUT_STATE_GROUND),
     new_transition 0x50 0x50 None (Some INPUT_STATE_DCS_ENTER),
     new_transition 0x51 0x57 (Some Input_esc_dispatch) (Some INPUT_STATE_GROUND),
     new_transition 0x58 0x58 None (Some INPUT_STATE_CONSUME_ST),
     new_transition 0x59 0x59 (Some Input_esc_dispatch) (Some INPUT_STATE_GROUND),
     new_transition 0x5a 0x5a (Some Input_esc_dispatch) (Some INPUT_STATE_GROUND),
     new_transition 0x5b 0x5b None (Some INPUT_STATE_CSI_ENTER),
     new_transition 0x5c 0x5c (Some Input_esc_dispatch) (Some INPUT_STATE_GROUND),
     new_transition 0x5d 0x5d None (Some INPUT_STATE_OSC_STRING),
     new_transition 0x5e 0x5e None (Some INPUT_STATE_CONSUME_ST),
     new_transition 0x5f 0x5f None (Some INPUT_STATE_APC_STRING),
     new_transition 0x60 0x6a (Some Input_esc_dispatch) (Some INPUT_STATE_GROUND),
     new_transition 0x6b 0x6b None (Some INPUT_STATE_RENAME_STRING),
     new_transition 0x6c 0x7e (Some Input_esc_dispatch) (Some INPUT_STATE_GROUND),
     new_transition 0x7f 0xff None None]"

definition INPUT_STATE_ESC_INTERMEDIATE_TABLE :: "input_transition list" where
  "INPUT_STATE_ESC_INTERMEDIATE_TABLE = INPUT_STATE_ANYWHERE @ [
     new_transition 0x00 0x17 (Some Input_c0_dispatch) None,
     new_transition 0x19 0x19 (Some Input_c0_dispatch) None,
     new_transition 0x1c 0x1f (Some Input_c0_dispatch) None,
     new_transition 0x20 0x2f (Some Input_intermediate) None,
     new_transition 0x30 0x7e (Some Input_esc_dispatch) (Some INPUT_STATE_GROUND),
     new_transition 0x7f 0xff None None]"

definition INPUT_STATE_CSI_ENTER_TABLE :: "input_transition list" where
  "INPUT_STATE_CSI_ENTER_TABLE = INPUT_STATE_ANYWHERE @ [
     new_transition 0x00 0x17 (Some Input_c0_dispatch) None,
     new_transition 0x19 0x19 (Some Input_c0_dispatch) None,
     new_transition 0x1c 0x1f (Some Input_c0_dispatch) None,
     new_transition 0x20 0x2f (Some Input_intermediate) (Some INPUT_STATE_CSI_INTERMEDIATE),
     new_transition 0x30 0x39 (Some Input_parameter) (Some INPUT_STATE_CSI_PARAMETER),
     new_transition 0x3a 0x3a (Some Input_parameter) (Some INPUT_STATE_CSI_PARAMETER),
     new_transition 0x3b 0x3b (Some Input_parameter) (Some INPUT_STATE_CSI_PARAMETER),
     new_transition 0x3c 0x3f (Some Input_intermediate) (Some INPUT_STATE_CSI_PARAMETER),
     new_transition 0x40 0x7e (Some Input_csi_dispatch) (Some INPUT_STATE_GROUND),
     new_transition 0x7f 0xff None None]"

definition INPUT_STATE_CSI_PARAMETER_TABLE :: "input_transition list" where
  "INPUT_STATE_CSI_PARAMETER_TABLE = INPUT_STATE_ANYWHERE @ [
     new_transition 0x00 0x17 (Some Input_c0_dispatch) None,
     new_transition 0x19 0x19 (Some Input_c0_dispatch) None,
     new_transition 0x1c 0x1f (Some Input_c0_dispatch) None,
     new_transition 0x20 0x2f (Some Input_intermediate) (Some INPUT_STATE_CSI_INTERMEDIATE),
     new_transition 0x30 0x39 (Some Input_parameter) None,
     new_transition 0x3a 0x3a (Some Input_parameter) None,
     new_transition 0x3b 0x3b (Some Input_parameter) None,
     new_transition 0x3c 0x3f None (Some INPUT_STATE_CSI_IGNORE),
     new_transition 0x40 0x7e (Some Input_csi_dispatch) (Some INPUT_STATE_GROUND),
     new_transition 0x7f 0xff None None]"

definition INPUT_STATE_CSI_INTERMEDIATE_TABLE :: "input_transition list" where
  "INPUT_STATE_CSI_INTERMEDIATE_TABLE = INPUT_STATE_ANYWHERE @ [
     new_transition 0x00 0x17 (Some Input_c0_dispatch) None,
     new_transition 0x19 0x19 (Some Input_c0_dispatch) None,
     new_transition 0x1c 0x1f (Some Input_c0_dispatch) None,
     new_transition 0x20 0x2f (Some Input_intermediate) None,
     new_transition 0x30 0x3f None (Some INPUT_STATE_CSI_IGNORE),
     new_transition 0x40 0x7e (Some Input_csi_dispatch) (Some INPUT_STATE_GROUND),
     new_transition 0x7f 0xff None None]"

definition INPUT_STATE_CSI_IGNORE_TABLE :: "input_transition list" where
  "INPUT_STATE_CSI_IGNORE_TABLE = INPUT_STATE_ANYWHERE @ [
     new_transition 0x00 0x17 (Some Input_c0_dispatch) None,
     new_transition 0x19 0x19 (Some Input_c0_dispatch) None,
     new_transition 0x1c 0x1f (Some Input_c0_dispatch) None,
     new_transition 0x20 0x3f None None,
     new_transition 0x40 0x7e None (Some INPUT_STATE_GROUND),
     new_transition 0x7f 0xff None None]"

definition INPUT_STATE_DCS_ENTER_TABLE :: "input_transition list" where
  "INPUT_STATE_DCS_ENTER_TABLE = INPUT_STATE_ANYWHERE @ [
     new_transition 0x00 0x17 None None,
     new_transition 0x19 0x19 None None,
     new_transition 0x1c 0x1f None None,
     new_transition 0x20 0x2f (Some Input_intermediate) (Some INPUT_STATE_DCS_INTERMEDIATE),
     new_transition 0x30 0x39 (Some Input_parameter) (Some INPUT_STATE_DCS_PARAMETER),
     new_transition 0x3a 0x3a None (Some INPUT_STATE_DCS_IGNORE),
     new_transition 0x3b 0x3b (Some Input_parameter) (Some INPUT_STATE_DCS_PARAMETER),
     new_transition 0x3c 0x3f (Some Input_intermediate) (Some INPUT_STATE_DCS_PARAMETER),
     new_transition 0x40 0x7e (Some Input_input) (Some INPUT_STATE_DCS_HANDLER),
     new_transition 0x7f 0xff None None]"

definition INPUT_STATE_DCS_PARAMETER_TABLE :: "input_transition list" where
  "INPUT_STATE_DCS_PARAMETER_TABLE = INPUT_STATE_ANYWHERE @ [
     new_transition 0x00 0x17 None None,
     new_transition 0x19 0x19 None None,
     new_transition 0x1c 0x1f None None,
     new_transition 0x20 0x2f (Some Input_intermediate) (Some INPUT_STATE_DCS_INTERMEDIATE),
     new_transition 0x30 0x39 (Some Input_parameter) None,
     new_transition 0x3a 0x3a None (Some INPUT_STATE_DCS_IGNORE),
     new_transition 0x3b 0x3b (Some Input_parameter) None,
     new_transition 0x3c 0x3f None (Some INPUT_STATE_DCS_IGNORE),
     new_transition 0x40 0x7e (Some Input_input) (Some INPUT_STATE_DCS_HANDLER),
     new_transition 0x7f 0xff None None]"

definition INPUT_STATE_DCS_INTERMEDIATE_TABLE :: "input_transition list" where
  "INPUT_STATE_DCS_INTERMEDIATE_TABLE = INPUT_STATE_ANYWHERE @ [
     new_transition 0x00 0x17 None None,
     new_transition 0x19 0x19 None None,
     new_transition 0x1c 0x1f None None,
     new_transition 0x20 0x2f (Some Input_intermediate) None,
     new_transition 0x30 0x3f None (Some INPUT_STATE_DCS_IGNORE),
     new_transition 0x40 0x7e (Some Input_input) (Some INPUT_STATE_DCS_HANDLER),
     new_transition 0x7f 0xff None None]"

definition INPUT_STATE_DCS_HANDLER_TABLE :: "input_transition list" where
  "INPUT_STATE_DCS_HANDLER_TABLE = [
     new_transition 0x00 0x1a (Some Input_input) None,
     new_transition 0x1b 0x1b None (Some INPUT_STATE_DCS_ESCAPE),
     new_transition 0x1c 0xff (Some Input_input) None]"

definition INPUT_STATE_DCS_ESCAPE_TABLE :: "input_transition list" where
  "INPUT_STATE_DCS_ESCAPE_TABLE = [
     new_transition 0x00 0x5b (Some Input_input) (Some INPUT_STATE_DCS_HANDLER),
     new_transition 0x5c 0x5c (Some Input_dcs_dispatch) (Some INPUT_STATE_GROUND),
     new_transition 0x5d 0xff (Some Input_input) (Some INPUT_STATE_DCS_HANDLER)]"

definition INPUT_STATE_DCS_IGNORE_TABLE :: "input_transition list" where
  "INPUT_STATE_DCS_IGNORE_TABLE = INPUT_STATE_ANYWHERE @ [
     new_transition 0x00 0x17 None None,
     new_transition 0x19 0x19 None None,
     new_transition 0x1c 0x1f None None,
     new_transition 0x20 0xff None None]"

definition INPUT_STATE_OSC_STRING_TABLE :: "input_transition list" where
  "INPUT_STATE_OSC_STRING_TABLE = INPUT_STATE_ANYWHERE @ [
     new_transition 0x00 0x06 None None,
     new_transition 0x07 0x07 (Some Input_end_bel) (Some INPUT_STATE_GROUND),
     new_transition 0x08 0x17 None None,
     new_transition 0x19 0x19 None None,
     new_transition 0x1c 0x1f None None,
     new_transition 0x20 0xff (Some Input_input) None]"

definition INPUT_STATE_APC_STRING_TABLE :: "input_transition list" where
  "INPUT_STATE_APC_STRING_TABLE = INPUT_STATE_ANYWHERE @ [
     new_transition 0x00 0x17 None None,
     new_transition 0x19 0x19 None None,
     new_transition 0x1c 0x1f None None,
     new_transition 0x20 0xff (Some Input_input) None]"

definition INPUT_STATE_RENAME_STRING_TABLE :: "input_transition list" where
  "INPUT_STATE_RENAME_STRING_TABLE = INPUT_STATE_ANYWHERE @ [
     new_transition 0x00 0x17 None None,
     new_transition 0x19 0x19 None None,
     new_transition 0x1c 0x1f None None,
     new_transition 0x20 0xff (Some Input_input) None]"

definition INPUT_STATE_CONSUME_ST_TABLE :: "input_transition list" where
  "INPUT_STATE_CONSUME_ST_TABLE = INPUT_STATE_ANYWHERE @ [
     new_transition 0x00 0x17 None None,
     new_transition 0x19 0x19 None None,
     new_transition 0x1c 0x1f None None,
     new_transition 0x20 0xff None None]"

fun state_transitions :: "input_state \<Rightarrow> input_transition list" where
  "state_transitions INPUT_STATE_GROUND = INPUT_STATE_GROUND_TABLE"
| "state_transitions INPUT_STATE_ESC_ENTER = INPUT_STATE_ESC_ENTER_TABLE"
| "state_transitions INPUT_STATE_ESC_INTERMEDIATE = INPUT_STATE_ESC_INTERMEDIATE_TABLE"
| "state_transitions INPUT_STATE_CSI_ENTER = INPUT_STATE_CSI_ENTER_TABLE"
| "state_transitions INPUT_STATE_CSI_PARAMETER = INPUT_STATE_CSI_PARAMETER_TABLE"
| "state_transitions INPUT_STATE_CSI_INTERMEDIATE = INPUT_STATE_CSI_INTERMEDIATE_TABLE"
| "state_transitions INPUT_STATE_CSI_IGNORE = INPUT_STATE_CSI_IGNORE_TABLE"
| "state_transitions INPUT_STATE_DCS_ENTER = INPUT_STATE_DCS_ENTER_TABLE"
| "state_transitions INPUT_STATE_DCS_PARAMETER = INPUT_STATE_DCS_PARAMETER_TABLE"
| "state_transitions INPUT_STATE_DCS_INTERMEDIATE = INPUT_STATE_DCS_INTERMEDIATE_TABLE"
| "state_transitions INPUT_STATE_DCS_HANDLER = INPUT_STATE_DCS_HANDLER_TABLE"
| "state_transitions INPUT_STATE_DCS_ESCAPE = INPUT_STATE_DCS_ESCAPE_TABLE"
| "state_transitions INPUT_STATE_DCS_IGNORE = INPUT_STATE_DCS_IGNORE_TABLE"
| "state_transitions INPUT_STATE_OSC_STRING = INPUT_STATE_OSC_STRING_TABLE"
| "state_transitions INPUT_STATE_APC_STRING = INPUT_STATE_APC_STRING_TABLE"
| "state_transitions INPUT_STATE_RENAME_STRING = INPUT_STATE_RENAME_STRING_TABLE"
| "state_transitions INPUT_STATE_CONSUME_ST = INPUT_STATE_CONSUME_ST_TABLE"

fun state_enter :: "input_state \<Rightarrow> input_enter option" where
  "state_enter INPUT_STATE_GROUND = Some Input_ground"
| "state_enter INPUT_STATE_ESC_ENTER = Some Input_clear"
| "state_enter INPUT_STATE_ESC_INTERMEDIATE = None"
| "state_enter INPUT_STATE_CSI_ENTER = Some Input_clear"
| "state_enter INPUT_STATE_CSI_PARAMETER = None"
| "state_enter INPUT_STATE_CSI_INTERMEDIATE = None"
| "state_enter INPUT_STATE_CSI_IGNORE = None"
| "state_enter INPUT_STATE_DCS_ENTER = Some Input_enter_dcs"
| "state_enter INPUT_STATE_DCS_PARAMETER = None"
| "state_enter INPUT_STATE_DCS_INTERMEDIATE = None"
| "state_enter INPUT_STATE_DCS_HANDLER = None"
| "state_enter INPUT_STATE_DCS_ESCAPE = None"
| "state_enter INPUT_STATE_DCS_IGNORE = None"
| "state_enter INPUT_STATE_OSC_STRING = Some Input_enter_osc"
| "state_enter INPUT_STATE_APC_STRING = Some Input_enter_apc"
| "state_enter INPUT_STATE_RENAME_STRING = Some Input_enter_rename"
| "state_enter INPUT_STATE_CONSUME_ST = Some Input_enter_rename"

fun state_exit :: "input_state \<Rightarrow> input_exit option" where
  "state_exit INPUT_STATE_GROUND = None"
| "state_exit INPUT_STATE_ESC_ENTER = None"
| "state_exit INPUT_STATE_ESC_INTERMEDIATE = None"
| "state_exit INPUT_STATE_CSI_ENTER = None"
| "state_exit INPUT_STATE_CSI_PARAMETER = None"
| "state_exit INPUT_STATE_CSI_INTERMEDIATE = None"
| "state_exit INPUT_STATE_CSI_IGNORE = None"
| "state_exit INPUT_STATE_DCS_ENTER = None"
| "state_exit INPUT_STATE_DCS_PARAMETER = None"
| "state_exit INPUT_STATE_DCS_INTERMEDIATE = None"
| "state_exit INPUT_STATE_DCS_HANDLER = None"
| "state_exit INPUT_STATE_DCS_ESCAPE = None"
| "state_exit INPUT_STATE_DCS_IGNORE = None"
| "state_exit INPUT_STATE_OSC_STRING = Some Input_exit_osc"
| "state_exit INPUT_STATE_APC_STRING = Some Input_exit_apc"
| "state_exit INPUT_STATE_RENAME_STRING = Some Input_exit_rename"
| "state_exit INPUT_STATE_CONSUME_ST = None"

section \<open>Escape and control sequences\<close>

datatype input_esc_type =
  INPUT_ESC_DECALN | INPUT_ESC_DECKPAM | INPUT_ESC_DECKPNM | INPUT_ESC_DECRC | INPUT_ESC_DECSC | INPUT_ESC_HTS
  | INPUT_ESC_IND | INPUT_ESC_NEL | INPUT_ESC_RI | INPUT_ESC_RIS | INPUT_ESC_SCSG0_OFF | INPUT_ESC_SCSG0_ON
  | INPUT_ESC_SCSG1_OFF | INPUT_ESC_SCSG1_ON | INPUT_ESC_ST

datatype input_csi_type =
  INPUT_CSI_CBT | INPUT_CSI_CNL | INPUT_CSI_CPL | INPUT_CSI_CUB | INPUT_CSI_CUD | INPUT_CSI_CUF | INPUT_CSI_CUP
  | INPUT_CSI_CUU | INPUT_CSI_DA | INPUT_CSI_DA_TWO | INPUT_CSI_DCH | INPUT_CSI_DECSCUSR | INPUT_CSI_DECSTBM
  | INPUT_CSI_DL | INPUT_CSI_DSR | INPUT_CSI_DSR_PRIVATE | INPUT_CSI_ECH | INPUT_CSI_ED | INPUT_CSI_EL
  | INPUT_CSI_HPA | INPUT_CSI_ICH | INPUT_CSI_IL | INPUT_CSI_MODOFF | INPUT_CSI_MODSET | INPUT_CSI_RCP
  | INPUT_CSI_REP | INPUT_CSI_QUERY | INPUT_CSI_QUERY_PRIVATE | INPUT_CSI_RM | INPUT_CSI_RM_PRIVATE | INPUT_CSI_SCP
  | INPUT_CSI_SD | INPUT_CSI_SGR | INPUT_CSI_SM | INPUT_CSI_SM_PRIVATE | INPUT_CSI_SM_GRAPHICS | INPUT_CSI_SU
  | INPUT_CSI_TBC | INPUT_CSI_VPA | INPUT_CSI_WINOPS | INPUT_CSI_XDA

text \<open>The keys are the final byte and the intermediate bytes.\<close>

definition INPUT_ESC_TABLE :: "(char \<times> string \<times> input_esc_type) list" where
  "INPUT_ESC_TABLE =
    [(CHR ''0'', ''('', INPUT_ESC_SCSG0_ON), (CHR ''0'', '')'', INPUT_ESC_SCSG1_ON),
     (CHR ''7'', '''', INPUT_ESC_DECSC), (CHR ''8'', '''', INPUT_ESC_DECRC), (CHR ''8'', ''#'', INPUT_ESC_DECALN),
     (CHR ''='', '''', INPUT_ESC_DECKPAM), (CHR ''>'', '''', INPUT_ESC_DECKPNM),
     (CHR ''B'', ''('', INPUT_ESC_SCSG0_OFF), (CHR ''B'', '')'', INPUT_ESC_SCSG1_OFF),
     (CHR ''D'', '''', INPUT_ESC_IND), (CHR ''E'', '''', INPUT_ESC_NEL), (CHR ''H'', '''', INPUT_ESC_HTS),
     (CHR ''M'', '''', INPUT_ESC_RI), (CHR 0x5C, '''', INPUT_ESC_ST), (CHR ''c'', '''', INPUT_ESC_RIS)]"

definition INPUT_CSI_TABLE :: "(char \<times> string \<times> input_csi_type) list" where
  "INPUT_CSI_TABLE =
    [(CHR ''@'', '''', INPUT_CSI_ICH), (CHR ''A'', '''', INPUT_CSI_CUU), (CHR ''B'', '''', INPUT_CSI_CUD),
     (CHR ''C'', '''', INPUT_CSI_CUF), (CHR ''D'', '''', INPUT_CSI_CUB), (CHR ''E'', '''', INPUT_CSI_CNL),
     (CHR ''F'', '''', INPUT_CSI_CPL), (CHR ''G'', '''', INPUT_CSI_HPA), (CHR ''H'', '''', INPUT_CSI_CUP),
     (CHR ''J'', '''', INPUT_CSI_ED), (CHR ''K'', '''', INPUT_CSI_EL), (CHR ''L'', '''', INPUT_CSI_IL),
     (CHR ''M'', '''', INPUT_CSI_DL), (CHR ''P'', '''', INPUT_CSI_DCH), (CHR ''S'', '''', INPUT_CSI_SU),
     (CHR ''S'', ''?'', INPUT_CSI_SM_GRAPHICS), (CHR ''T'', '''', INPUT_CSI_SD), (CHR ''X'', '''', INPUT_CSI_ECH),
     (CHR ''Z'', '''', INPUT_CSI_CBT), (CHR 0x60, '''', INPUT_CSI_HPA), (CHR ''b'', '''', INPUT_CSI_REP),
     (CHR ''c'', '''', INPUT_CSI_DA), (CHR ''c'', ''>'', INPUT_CSI_DA_TWO), (CHR ''d'', '''', INPUT_CSI_VPA),
     (CHR ''f'', '''', INPUT_CSI_CUP), (CHR ''g'', '''', INPUT_CSI_TBC), (CHR ''h'', '''', INPUT_CSI_SM),
     (CHR ''h'', ''?'', INPUT_CSI_SM_PRIVATE), (CHR ''l'', '''', INPUT_CSI_RM),
     (CHR ''l'', ''?'', INPUT_CSI_RM_PRIVATE), (CHR ''m'', '''', INPUT_CSI_SGR),
     (CHR ''m'', ''>'', INPUT_CSI_MODSET), (CHR ''n'', '''', INPUT_CSI_DSR), (CHR ''n'', ''>'', INPUT_CSI_MODOFF),
     (CHR ''n'', ''?'', INPUT_CSI_DSR_PRIVATE), (CHR ''p'', ''$'', INPUT_CSI_QUERY),
     (CHR ''p'', ''?$'', INPUT_CSI_QUERY_PRIVATE), (CHR ''q'', '' '', INPUT_CSI_DECSCUSR),
     (CHR ''q'', ''>'', INPUT_CSI_XDA), (CHR ''r'', '''', INPUT_CSI_DECSTBM), (CHR ''s'', '''', INPUT_CSI_SCP),
     (CHR ''t'', '''', INPUT_CSI_WINOPS), (CHR ''u'', '''', INPUT_CSI_RCP)]"

text \<open>\<open>input_table_compare\<close>; \<open>strcmp\<close> compares the bytes, and an end of string is below every byte.\<close>

fun strcmp_less :: "string \<Rightarrow> string \<Rightarrow> bool" where
  "strcmp_less s [] = False"
| "strcmp_less [] (d # t) = True"
| "strcmp_less (c # s) (d # t) = (byte c < byte d \<or> c = d \<and> strcmp_less s t)"

definition table_less :: "char \<times> string \<times> 'a \<Rightarrow> char \<times> string \<times> 'a \<Rightarrow> bool" where
  "table_less a b \<longleftrightarrow> byte (fst a) < byte (fst b) \<or> fst a = fst b \<and> strcmp_less (fst (snd a)) (fst (snd b))"

text \<open>\<open>binary_search_by\<close> in a table that is sorted by the same order.\<close>

definition table_search :: "char \<Rightarrow> string \<Rightarrow> (char \<times> string \<times> 'a) list \<Rightarrow> 'a option" where
  "table_search ch interm table =
     map_option (\<lambda>(c, i, t). t) (find (\<lambda>(c, i, t). c = ch \<and> i = interm) table)"

lemma input_tables_sorted: "successively table_less INPUT_ESC_TABLE \<and> successively table_less INPUT_CSI_TABLE"
  by code_simp

section \<open>The transition for a byte\<close>

definition takes :: "nat \<Rightarrow> input_transition \<Rightarrow> bool" where
  "takes ch itr \<longleftrightarrow> ch \<ge> it_first itr \<and> ch \<le> it_last itr"

definition find_transition :: "input_state \<Rightarrow> nat \<Rightarrow> input_transition option" where
  "find_transition state ch = find (takes ch) (state_transitions state)"

text \<open>The intervals of a list of transitions follow each other from \<open>lo\<close> to 255.\<close>

fun follows :: "nat \<Rightarrow> input_transition list \<Rightarrow> bool" where
  "follows lo [] \<longleftrightarrow> lo = 256"
| "follows lo (itr # itrs) \<longleftrightarrow> it_first itr = lo \<and> lo \<le> it_last itr \<and> follows (it_last itr + 1) itrs"

definition all_states :: "input_state list" where
  "all_states = [INPUT_STATE_GROUND, INPUT_STATE_ESC_ENTER, INPUT_STATE_ESC_INTERMEDIATE, INPUT_STATE_CSI_ENTER,
     INPUT_STATE_CSI_PARAMETER, INPUT_STATE_CSI_INTERMEDIATE, INPUT_STATE_CSI_IGNORE, INPUT_STATE_DCS_ENTER,
     INPUT_STATE_DCS_PARAMETER, INPUT_STATE_DCS_INTERMEDIATE, INPUT_STATE_DCS_HANDLER, INPUT_STATE_DCS_ESCAPE,
     INPUT_STATE_DCS_IGNORE, INPUT_STATE_OSC_STRING, INPUT_STATE_APC_STRING, INPUT_STATE_RENAME_STRING,
     INPUT_STATE_CONSUME_ST]"

lemma all_states: "state \<in> set all_states"
  by (cases state) (simp_all add: all_states_def)

lemma tables_follow: "list_all (\<lambda>state. follows 0 (sort_key it_first (state_transitions state))) all_states"
  by code_simp

lemma follows_takes: "follows lo itrs \<Longrightarrow> lo \<le> ch \<Longrightarrow> ch < 256 \<Longrightarrow> \<exists>itr \<in> set itrs. takes ch itr"
  by (induction itrs arbitrary: lo) (fastforce simp: takes_def)+

lemma follows_above: "follows lo itrs \<Longrightarrow> itr \<in> set itrs \<Longrightarrow> lo \<le> it_first itr"
  by (induction itrs arbitrary: lo) fastforce+

lemma follows_once: "follows lo itrs \<Longrightarrow> itr \<in> set itrs \<Longrightarrow> itr' \<in> set itrs \<Longrightarrow> takes ch itr \<Longrightarrow> takes ch itr' \<Longrightarrow> itr = itr'"
proof (induction itrs arbitrary: lo)
  case (Cons a itrs)
  have "it_last a < it_first i" if "i \<in> set itrs" for i
    using Cons.prems(1) follows_above [of "it_last a + 1" itrs i] that by auto
  then show ?case using Cons by (fastforce simp: takes_def)
qed simp

lemma state_follows: "follows 0 (sort_key it_first (state_transitions state))"
  using tables_follow all_states [of state] by (simp add: list_all_iff)

lemma transition_total: "ch < 256 \<Longrightarrow> \<exists>itr. find_transition state ch = Some itr \<and> takes ch itr \<and> itr \<in> set (state_transitions state)"
proof -
  assume "ch < 256"
  then have "\<exists>itr \<in> set (state_transitions state). takes ch itr"
    using follows_takes [OF state_follows, of ch state] by simp
  then obtain itr where "find_transition state ch = Some itr"
    unfolding find_transition_def by (metis find_None_iff option.exhaust)
  then show ?thesis using find_SomeD [of "takes ch"] by (metis find_transition_def)
qed

lemma transition_unique:
  "itr \<in> set (state_transitions state) \<Longrightarrow> itr' \<in> set (state_transitions state) \<Longrightarrow> takes ch itr \<Longrightarrow> takes ch itr' \<Longrightarrow> itr = itr'"
  using follows_once [OF state_follows] by (metis set_sort)

end
