(* ===== verification/Input_Params.thy ===== *)
theory Input_Params
  imports Input_State "HOL-Library.Monad_Syntax"
begin

text \<open>
  The buffers of the input parser (\<open>input.rs\<close>): intermediate bytes, parameters and strings, the handlers that
  collect them, and the list of parameters that \<open>input_split\<close> makes of the parameter buffer.

  The record holds these fields of \<open>input_ctx\<close>.  An array of the code is a list of its
  length, an index past the end is \<^const>\<open>None\<close>: a panic, or for the heap buffer an access out of bounds.
  Freeing the strings of the old parameters has no counterpart.
\<close>

section \<open>State\<close>

datatype input_param = INPUT_MISSING | INPUT_NUMBER int | INPUT_STRING string

datatype input_flag = INPUT_DISCARD | INPUT_LAST

datatype input_end_type = INPUT_END_ST | INPUT_END_BEL

record input_bufs =
  interm_buf :: string
  interm_len :: nat
  param_buf :: string
  param_len :: nat
  input_buf :: string
  input_len :: nat
  input_space :: nat
  input_end :: input_end_type
  param_list :: "input_param list"
  param_list_len :: nat
  ic_ch :: char
  ic_flags :: "input_flag set"
  ic_state :: input_state
  since_ground :: string
  ground_timer :: bool

definition INPUT_BUF_START :: nat where
  "INPUT_BUF_START = 32"

definition INPUT_BUF_DEFAULT_SIZE :: nat where
  "INPUT_BUF_DEFAULT_SIZE = 1048576"

text \<open>A write to an element of an array.\<close>

definition store :: "'a list \<Rightarrow> nat \<Rightarrow> 'a \<Rightarrow> 'a list option" where
  "store xs i x = (if i < length xs then Some (xs[i := x]) else None)"

section \<open>Collecting\<close>

text \<open>The timer is armed for five seconds.\<close>

definition input_start_ground_timer :: "'a input_bufs_scheme \<Rightarrow> 'a input_bufs_scheme" where
  "input_start_ground_timer ictx = ictx\<lparr>ground_timer := True\<rparr>"

definition input_clear :: "'a input_bufs_scheme \<Rightarrow> 'a input_bufs_scheme option" where
  "input_clear ictx = do {
     interm \<leftarrow> store (interm_buf ictx) 0 (CHR 0x00);
     param \<leftarrow> store (param_buf ictx) 0 (CHR 0x00);
     buf \<leftarrow> store (input_buf ictx) 0 (CHR 0x00);
     Some (ictx\<lparr>ground_timer := False, interm_buf := interm, interm_len := 0, param_buf := param, param_len := 0,
                input_buf := buf, input_len := 0, input_end := INPUT_END_ST, ic_flags := ic_flags ictx - {INPUT_DISCARD}\<rparr>)
   }"

definition input_ground :: "'a input_bufs_scheme \<Rightarrow> 'a input_bufs_scheme" where
  "input_ground ictx =
     (let ictx1 = ictx\<lparr>ground_timer := False, since_ground := ''''\<rparr>
      in if input_space ictx1 > INPUT_BUF_START
         then ictx1\<lparr>input_space := INPUT_BUF_START, input_buf := take INPUT_BUF_START (input_buf ictx1)\<rparr> else ictx1)"

definition input_intermediate :: "'a input_bufs_scheme \<Rightarrow> 'a input_bufs_scheme option" where
  "input_intermediate ictx =
     (if interm_len ictx = 3 then Some (ictx\<lparr>ic_flags := insert INPUT_DISCARD (ic_flags ictx)\<rparr>)
      else do {
        buf \<leftarrow> store (interm_buf ictx) (interm_len ictx) (ic_ch ictx);
        buf' \<leftarrow> store buf (interm_len ictx + 1) (CHR 0x00);
        Some (ictx\<lparr>interm_buf := buf', interm_len := interm_len ictx + 1\<rparr>)
      })"

definition input_parameter :: "'a input_bufs_scheme \<Rightarrow> 'a input_bufs_scheme option" where
  "input_parameter ictx =
     (if param_len ictx = 63 then Some (ictx\<lparr>ic_flags := insert INPUT_DISCARD (ic_flags ictx)\<rparr>)
      else do {
        buf \<leftarrow> store (param_buf ictx) (param_len ictx) (ic_ch ictx);
        buf' \<leftarrow> store buf (param_len ictx + 1) (CHR 0x00);
        Some (ictx\<lparr>param_buf := buf', param_len := param_len ictx + 1\<rparr>)
      })"

text \<open>\<open>xrealloc\<close> to a larger size; the new bytes have no particular value.\<close>

definition grown :: "nat \<Rightarrow> string \<Rightarrow> string" where
  "grown n buf = buf @ replicate (n - length buf) (CHR 0x00)"

text \<open>The loop that makes room in the buffer, whose size is bounded by the option \<open>input-buffer-size\<close>; nothing
  is left when the character has to be discarded.\<close>

partial_function (option) input_room :: "nat \<Rightarrow> nat \<Rightarrow> nat \<Rightarrow> string \<Rightarrow> (nat \<times> string \<times> bool) option" where
  "input_room limit len available buf =
     (if len + 1 \<ge> available
      then if available * 2 > limit then Some (available, buf, False)
           else input_room limit len (available * 2) (grown (available * 2) buf)
      else Some (available, buf, True))"

definition input_input :: "nat \<Rightarrow> 'a input_bufs_scheme \<Rightarrow> 'a input_bufs_scheme option" where
  "input_input limit ictx = do {
     (space, buf, room) \<leftarrow> input_room limit (input_len ictx) (input_space ictx) (input_buf ictx);
     let ictx1 = ictx\<lparr>input_space := space, input_buf := buf\<rparr>;
     if \<not> room then Some (ictx1\<lparr>ic_flags := insert INPUT_DISCARD (ic_flags ictx)\<rparr>)
     else do {
       buf1 \<leftarrow> store buf (input_len ictx) (ic_ch ictx);
       buf2 \<leftarrow> store buf1 (input_len ictx + 1) (CHR 0x00);
       Some (ictx1\<lparr>input_buf := buf2, input_len := input_len ictx + 1\<rparr>)
     }
   }"

definition input_end_bel :: "'a input_bufs_scheme \<Rightarrow> 'a input_bufs_scheme" where
  "input_end_bel ictx = ictx\<lparr>input_end := INPUT_END_BEL\<rparr>"

text \<open>\<open>input_enter_dcs\<close>, \<open>input_enter_osc\<close>, \<open>input_enter_apc\<close> and \<open>input_enter_rename\<close> have the same body.\<close>

definition input_enter_string :: "'a input_bufs_scheme \<Rightarrow> 'a input_bufs_scheme option" where
  "input_enter_string ictx = do {
     ictx1 \<leftarrow> input_clear ictx;
     Some (input_start_ground_timer (ictx1\<lparr>ic_flags := ic_flags ictx1 - {INPUT_LAST}\<rparr>))
   }"

section \<open>Splitting\<close>

text \<open>\<open>strsep\<close> on a buffer: the token at \<open>pos\<close>, the buffer with the delimiter overwritten, and where the next
  token starts.\<close>

definition strsep :: "char \<Rightarrow> string \<Rightarrow> nat \<Rightarrow> string \<times> string \<times> nat option" where
  "strsep delim buf pos =
     (let out = takeWhile (\<lambda>c. c \<noteq> delim \<and> c \<noteq> CHR 0x00) (drop pos buf);
          e = pos + length out
      in if e < length buf \<and> buf ! e = delim then (out, buf[e := CHR 0x00], Some (e + 1)) else (out, buf, None))"

lemma strsep_length: "length (fst (snd (strsep delim buf pos))) = length buf"
  by (simp add: strsep_def Let_def)

lemma strsep_forward: "snd (snd (strsep delim buf pos)) = Some pos' \<Longrightarrow> pos < pos' \<and> pos' \<le> length buf"
  by (auto simp: strsep_def Let_def split: if_split_asm)

text \<open>The parameter that a token stands for, or nothing when its number is bad.\<close>

definition param_of :: "string \<Rightarrow> input_param option" where
  "param_of out =
     (if out = '''' then Some INPUT_MISSING
      else if CHR '':'' \<in> set out then Some (INPUT_STRING out)
      else (case strtonum out 0 i32_MAX of Inl errstr \<Rightarrow> None | Inr n \<Rightarrow> Some (INPUT_NUMBER n)))"

text \<open>The loop of \<open>input_split\<close>, which gives \<open>0\<close> or \<open>-1\<close> with the parameters.  After a parameter has been
  stored, the reference \<open>&raw mut param_list[param_list_len]\<close> checks its index, and panics, before the length
  is compared with that of the array.\<close>

function split_loop :: "string \<Rightarrow> nat \<Rightarrow> input_param list \<Rightarrow> nat \<Rightarrow> (int \<times> string \<times> input_param list \<times> nat) option" where
  "split_loop buf pos list n =
     (case strsep (CHR '';'') buf pos of (out, buf', nxt) \<Rightarrow>
        (case param_of out of
           None \<Rightarrow> Some (- 1, buf', list, n)
         | Some ip \<Rightarrow> do {
             list' \<leftarrow> store list n ip;
             if n + 1 \<ge> length list' then None
             else if n + 1 = length list' then Some (- 1, buf', list', n + 1)
             else (case nxt of None \<Rightarrow> Some (0, buf', list', n + 1) | Some pos' \<Rightarrow> split_loop buf' pos' list' (n + 1))
           }))"
  by pat_completeness auto
termination
proof (relation "measure (\<lambda>(buf, pos, list, n). Suc (length buf) - pos)", goal_cases)
  case (2 buf pos list n out y buf' nxt ip list' pos')
  then have "strsep (CHR '';'') buf pos = (out, buf', Some pos')" by simp
  then have "length buf' = length buf" "pos < pos' \<and> pos' \<le> length buf"
    using strsep_length [of "CHR '';''" buf pos] strsep_forward [of "CHR '';''" buf pos pos'] by simp_all
  then show ?case by simp linarith
qed simp

declare split_loop.simps [simp del]

definition input_split :: "'a input_bufs_scheme \<Rightarrow> (int \<times> 'a input_bufs_scheme) option" where
  "input_split ictx =
     (if param_len ictx = 0 then Some (0, ictx\<lparr>param_list_len := 0\<rparr>)
      else do {
        (rc, buf, list, n) \<leftarrow> split_loop (param_buf ictx) 0 (param_list ictx) 0;
        Some (rc, ictx\<lparr>param_buf := buf, param_list := list, param_list_len := n\<rparr>)
      })"

definition input_get :: "'a input_bufs_scheme \<Rightarrow> nat \<Rightarrow> int \<Rightarrow> int \<Rightarrow> int" where
  "input_get ictx validx minval defval =
     (if validx \<ge> param_list_len ictx then defval
      else (case param_list ictx ! validx of
              INPUT_MISSING \<Rightarrow> defval
            | INPUT_STRING s \<Rightarrow> - 1
            | INPUT_NUMBER n \<Rightarrow> max n minval))"


section \<open>What splitting gives\<close>

text \<open>The tokens of a string.\<close>

fun tokens :: "char \<Rightarrow> string \<Rightarrow> string list" where
  "tokens d [] = [[]]"
| "tokens d (c # s) =
     (if c = d then [] # tokens d s else (case tokens d s of [] \<Rightarrow> [[c]] | t # ts \<Rightarrow> (c # t) # ts))"

lemma tokens_not_Nil [simp]: "tokens d s \<noteq> []"
  by (cases s) (auto split: list.splits)

lemma tokens_length: "length (tokens d s) = Suc (count_list s d)"
  by (induction s) (auto split: list.splits)

lemma tokens_plain: "d \<notin> set s \<Longrightarrow> tokens d s = [s]"
  by (induction s) auto

lemma tokens_append: "d \<notin> set s \<Longrightarrow> tokens d (s @ d # t) = s # tokens d t"
  by (induction s) auto

text \<open>A buffer that holds the string \<open>s\<close> from \<open>pos\<close> on.\<close>

definition holds_at :: "string \<Rightarrow> nat \<Rightarrow> string \<Rightarrow> bool" where
  "holds_at buf pos s \<longleftrightarrow> CHR 0x00 \<notin> set s \<and> (\<exists>rest. drop pos buf = s @ CHR 0x00 # rest)"

lemma strsep_last:
  assumes "holds_at buf pos s" "d \<notin> set s" "d \<noteq> CHR 0x00"
  shows "strsep d buf pos = (s, buf, None)"
proof -
  obtain rest where r: "drop pos buf = s @ CHR 0x00 # rest" using assms(1) by (auto simp: holds_at_def)
  have w: "takeWhile (\<lambda>c. c \<noteq> d \<and> c \<noteq> CHR 0x00) (drop pos buf) = s"
    using assms(1,2) by (auto simp: r holds_at_def takeWhile_tail)
  have "drop (length s) (drop pos buf) = CHR 0x00 # rest" unfolding r by simp
  then have "drop (pos + length s) buf = CHR 0x00 # rest" by (simp add: add.commute)
  then have "buf ! (pos + length s) = CHR 0x00" by (metis hd_drop_conv_nth list.sel(1) not_le drop_all list.distinct(1))
  then show ?thesis using assms(3) by (simp add: strsep_def w)
qed

lemma strsep_more:
  assumes "holds_at buf pos (s @ d # t)" "d \<notin> set s" "d \<noteq> CHR 0x00"
  shows "\<exists>buf'. strsep d buf pos = (s, buf', Some (pos + length s + 1)) \<and> holds_at buf' (pos + length s + 1) t"
proof -
  obtain rest where r: "drop pos buf = s @ d # t @ CHR 0x00 # rest" using assms(1) by (auto simp: holds_at_def)
  have w: "takeWhile (\<lambda>c. c \<noteq> d \<and> c \<noteq> CHR 0x00) (drop pos buf) = s"
    using assms(1,2) by (auto simp: r holds_at_def takeWhile_tail)
  have "drop (length s) (drop pos buf) = d # t @ CHR 0x00 # rest" unfolding r by simp
  then have d: "drop (pos + length s) buf = d # t @ CHR 0x00 # rest" by (simp add: add.commute)
  then have i: "pos + length s < length buf" by (metis drop_all list.distinct(1) not_le)
  then have e: "buf ! (pos + length s) = d" using d by (metis hd_drop_conv_nth list.sel(1))
  have "drop 1 (drop (pos + length s) buf) = t @ CHR 0x00 # rest" by (simp add: d)
  then have "drop (pos + length s + 1) (buf[pos + length s := CHR 0x00]) = t @ CHR 0x00 # rest"
    by (simp add: drop_update_cancel)
  then have "holds_at (buf[pos + length s := CHR 0x00]) (pos + length s + 1) t"
    using assms(1) by (auto simp: holds_at_def)
  then show ?thesis using i e by (simp add: strsep_def w Let_def)
qed

lemma split_at: "d \<in> set s \<Longrightarrow> \<exists>a t. s = a @ d # t \<and> d \<notin> set a"
  by (metis split_list_first)

text \<open>The parameters of the tokens up to the first one that is bad.\<close>

fun params_of :: "string list \<Rightarrow> input_param list \<times> bool" where
  "params_of [] = ([], True)"
| "params_of (t # ts) = (case param_of t of None \<Rightarrow> ([], False) | Some ip \<Rightarrow> (case params_of ts of (ips, good) \<Rightarrow> (ip # ips, good)))"

lemma split_loop_params:
  assumes "holds_at buf pos s" "n < length list" "params_of (tokens (CHR '';'') s) = (ips, good)"
  shows "if n + length ips \<ge> length list then split_loop buf pos list n = None
    else \<exists>buf' list'. split_loop buf pos list n = Some (if good then 0 else - 1, buf', list', n + length ips) \<and>
      length list' = length list \<and> take (n + length ips) list' = take n list @ ips \<and> length buf' = length buf"
  using assms
proof (induction buf pos list n arbitrary: s ips rule: split_loop.induct)
  case (1 buf pos list n)
  have d0: "CHR '';'' \<noteq> CHR 0x00" by simp
  show ?case
  proof (cases "CHR '';'' \<in> set s")
    case False
    note sep = strsep_last [OF "1.prems"(1) False d0]
    show ?thesis using "1.prems"(2,3) sep False
      by (auto simp: split_loop.simps [of buf pos list n] tokens_plain store_def take_Suc_conv_app_nth split: option.splits)
  next
    case True
    then obtain a t where s: "s = a @ CHR '';'' # t" "CHR '';'' \<notin> set a" using split_at by metis
    have "holds_at buf pos (a @ CHR '';'' # t)" using "1.prems"(1) s(1) by simp
    from strsep_more [OF this s(2) d0] obtain buf' where sep: "strsep (CHR '';'') buf pos = (a, buf', Some (pos + length a + 1))"
      "holds_at buf' (pos + length a + 1) t" by blast
    have tk: "tokens (CHR '';'') s = a # tokens (CHR '';'') t" using s by (simp add: tokens_append)
    have lb: "length buf' = length buf" using strsep_length [of "CHR '';''" buf pos] sep(1) by simp
    show ?thesis
    proof (cases "param_of a")
      case None
      then show ?thesis using "1.prems"(2,3) tk sep lb by (auto simp: split_loop.simps [of buf pos list n] split: option.splits)
    next
      case (Some ip)
      obtain ips' where ips: "params_of (tokens (CHR '';'') t) = (ips', good)" "ips = ip # ips'"
        using "1.prems"(3) tk Some by (auto split: prod.splits)
      show ?thesis
      proof (cases "n + 1 \<ge> length list")
        case True
        then show ?thesis using Some sep "1.prems"(2) ips by (simp add: split_loop.simps [of buf pos list n] store_def)
      next
        case False
        have st: "store list n ip = Some (list[n := ip])" using "1.prems"(2) by (simp add: store_def)
        note IH = "1.IH" [OF sep(1) [symmetric] refl Some st _ _ refl sep(2) _ ips(1)]
        have "split_loop buf pos list n = split_loop buf' (pos + length a + 1) (list[n := ip]) (n + 1)"
          using False Some sep st by (simp add: split_loop.simps [of buf pos list n])
        moreover have "take (Suc n) (list[n := ip]) = take n list @ [ip]"
          using "1.prems"(2) by (simp add: take_Suc_conv_app_nth)
        ultimately show ?thesis using IH False ips(2) lb by (auto split: if_splits)
      qed
    qed
  qed
qed

section \<open>The buffers stay in their bounds\<close>

definition bufs_ok :: "'a input_bufs_scheme \<Rightarrow> bool" where
  "bufs_ok ictx \<longleftrightarrow> length (interm_buf ictx) = 4 \<and> interm_len ictx \<le> 3 \<and> length (param_buf ictx) = 64 \<and> param_len ictx \<le> 63 \<and>
     length (input_buf ictx) = input_space ictx \<and> INPUT_BUF_START \<le> input_space ictx \<and> input_len ictx < input_space ictx \<and>
     length (param_list ictx) = 24 \<and> param_list_len ictx < 24"

definition initial_bufs :: input_bufs where
  "initial_bufs =
     \<lparr>interm_buf = replicate 4 (CHR 0x00), interm_len = 0, param_buf = replicate 64 (CHR 0x00), param_len = 0,
      input_buf = replicate INPUT_BUF_START (CHR 0x00), input_len = 0, input_space = INPUT_BUF_START, input_end = INPUT_END_ST,
      param_list = replicate 24 INPUT_MISSING, param_list_len = 0, ic_ch = CHR 0x00, ic_flags = {}, ic_state = INPUT_STATE_GROUND,
      since_ground = '''', ground_timer = False\<rparr>"

lemma initial_bufs_ok: "bufs_ok initial_bufs"
  by (simp add: bufs_ok_def initial_bufs_def INPUT_BUF_START_def)

lemma store_Some [simp]: "i < length xs \<Longrightarrow> store xs i x = Some (xs[i := x])"
  by (simp add: store_def)

lemma input_intermediate_ok: "bufs_ok ictx \<Longrightarrow> \<exists>ictx'. input_intermediate ictx = Some ictx' \<and> bufs_ok ictx'"
  by (auto simp: bufs_ok_def input_intermediate_def)

lemma input_parameter_ok: "bufs_ok ictx \<Longrightarrow> \<exists>ictx'. input_parameter ictx = Some ictx' \<and> bufs_ok ictx'"
  by (auto simp: bufs_ok_def input_parameter_def)

text \<open>Entering the ground state leaves the length of the string alone, which may then exceed the smaller buffer
  until the next \<open>input_clear\<close>: \<open>ground_ok\<close> does not bound it.\<close>

definition ground_ok :: "'a input_bufs_scheme \<Rightarrow> bool" where
  "ground_ok ictx \<longleftrightarrow> bufs_ok (ictx\<lparr>input_len := 0\<rparr>)"

lemma bufs_ground: "bufs_ok ictx \<Longrightarrow> ground_ok ictx"
  by (auto simp: bufs_ok_def ground_ok_def INPUT_BUF_START_def)

lemma input_ground_ok: "ground_ok ictx \<Longrightarrow> ground_ok (input_ground ictx)"
  by (auto simp: bufs_ok_def ground_ok_def input_ground_def Let_def INPUT_BUF_START_def)

lemma input_clear_ok: "ground_ok ictx \<Longrightarrow> \<exists>ictx'. input_clear ictx = Some ictx' \<and> bufs_ok ictx'"
  by (auto simp: ground_ok_def bufs_ok_def input_clear_def INPUT_BUF_START_def)

lemma input_enter_string_ok: "ground_ok ictx \<Longrightarrow> \<exists>ictx'. input_enter_string ictx = Some ictx' \<and> bufs_ok ictx'"
  using input_clear_ok [of ictx] by (auto simp: input_enter_string_def input_start_ground_timer_def bufs_ok_def)

lemma input_room_returns:
  assumes "length buf = space" "0 < space" "len < space"
  shows "\<exists>space' buf' room. input_room limit len space buf = Some (space', buf', room) \<and> length buf' = space' \<and> space \<le> space' \<and>
    len < space' \<and> (room \<longrightarrow> len + 1 < space')"
proof (cases "len + 1 \<ge> space \<and> \<not> space * 2 > limit")
  case True
  then have "input_room limit len space buf = input_room limit len (space * 2) (grown (space * 2) buf)"
    by (subst input_room.simps) simp
  also have "\<dots> = Some (space * 2, grown (space * 2) buf, True)"
    using assms by (subst input_room.simps) simp
  finally show ?thesis using assms by (force simp: grown_def)
next
  case False
  then show ?thesis using assms by (subst input_room.simps) (auto split: if_splits)
qed

lemma input_input_ok: "bufs_ok ictx \<Longrightarrow> \<exists>ictx'. input_input limit ictx = Some ictx' \<and> bufs_ok ictx'"
proof -
  assume ok: "bufs_ok ictx"
  then obtain space' buf' room where r: "input_room limit (input_len ictx) (input_space ictx) (input_buf ictx) = Some (space', buf', room)"
    "length buf' = space'" "input_space ictx \<le> space'" "input_len ictx < space'" "room \<longrightarrow> input_len ictx + 1 < space'"
    using input_room_returns [of "input_buf ictx" "input_space ictx" "input_len ictx" limit]
    by (auto simp: bufs_ok_def INPUT_BUF_START_def)
  then show ?thesis using ok by (cases room) (auto simp: bufs_ok_def input_input_def Let_def)
qed

lemma split_loop_bounds:
  "split_loop buf pos list n = Some (rc, buf', list', n') \<Longrightarrow> n < length list \<Longrightarrow>
     length buf' = length buf \<and> length list' = length list \<and> n' < length list"
proof (induction buf pos list n rule: split_loop.induct)
  case (1 buf pos list n)
  obtain out buf1 nxt where sep: "strsep (CHR '';'') buf pos = (out, buf1, nxt)" by (metis prod.exhaust)
  have l: "length buf1 = length buf" using strsep_length [of "CHR '';''" buf pos] sep by simp
  show ?case
  proof (cases "\<exists>ip pos'. param_of out = Some ip \<and> n + 1 < length list \<and> nxt = Some pos'")
    case True
    then obtain ip pos' where t: "param_of out = Some ip" "n + 1 < length list" "nxt = Some pos'" by blast
    have r: "split_loop buf1 pos' (list[n := ip]) (n + 1) = Some (rc, buf', list', n')"
      using "1.prems" t sep by (simp add: split_loop.simps [of buf pos list n])
    have st: "store list n ip = Some (list[n := ip])" using "1.prems"(2) by simp
    from "1.IH" [OF sep [symmetric] refl t(1) st _ _ t(3) r] t(2) l show ?thesis by simp
  next
    case False
    then show ?thesis using "1.prems" sep l
      by (auto simp: split_loop.simps [of buf pos list n] split: option.splits if_splits)
  qed
qed

lemma input_split_ok:
  assumes "input_split ictx = Some (rc, ictx')" "ground_ok ictx"
  shows "ground_ok ictx'"
proof (cases "param_len ictx = 0")
  case True
  then show ?thesis using assms by (auto simp: input_split_def ground_ok_def bufs_ok_def)
next
  case False
  then obtain buf list n where r: "split_loop (param_buf ictx) 0 (param_list ictx) 0 = Some (rc, buf, list, n)"
    "ictx' = ictx\<lparr>param_buf := buf, param_list := list, param_list_len := n\<rparr>"
    using assms(1) by (cases "split_loop (param_buf ictx) 0 (param_list ictx) 0") (auto simp: input_split_def)
  moreover have "0 < length (param_list ictx)" using assms(2) by (simp add: ground_ok_def bufs_ok_def)
  ultimately show ?thesis using split_loop_bounds [OF r(1)] assms(2) by (simp add: ground_ok_def bufs_ok_def)
qed

section \<open>The parameters of a sequence\<close>

text \<open>C39: after the parameter bytes \<open>s\<close> of a sequence have been collected, \<open>input_split\<close> stores the parameters
  between the semicolons, missing, numbers or strings with colons, and returns 0 exactly when all the numbers are
  good; but when 24 or more are good up to there it panics: its check of the array comes after the index.\<close>

theorem input_split_parameters:
  assumes "length (param_list ictx) = 24" "holds_at (param_buf ictx) 0 s" "param_len ictx = length s" "s \<noteq> ''''"
    and "params_of (tokens (CHR '';'') s) = (ips, good)"
  shows "if length ips \<ge> 24 then input_split ictx = None
    else \<exists>ictx'. input_split ictx = Some (if good then 0 else - 1, ictx') \<and> param_list_len ictx' = length ips \<and>
      (\<forall>i m d. input_get ictx' i m d =
        (if i \<ge> length ips then d else (case ips ! i of INPUT_MISSING \<Rightarrow> d | INPUT_STRING t \<Rightarrow> - 1 | INPUT_NUMBER n \<Rightarrow> max n m)))"
proof (cases "length ips \<ge> 24")
  case True
  then show ?thesis using split_loop_params [OF assms(2) _ assms(5), of 0 "param_list ictx"] assms(1,3,4)
    by (simp add: input_split_def)
next
  case False
  then obtain buf' list' where r: "split_loop (param_buf ictx) 0 (param_list ictx) 0 = Some (if good then 0 else - 1, buf', list', length ips)"
    "take (length ips) list' = ips"
    using split_loop_params [OF assms(2) _ assms(5), of 0 "param_list ictx"] assms(1) by auto
  have "list' ! i = ips ! i" if "i < length ips" for i using r(2) that by (metis nth_take)
  then show ?thesis using False r(1) assms(3,4) by (auto simp: input_split_def input_get_def)
qed

text \<open>A parser that has collected a string of parameters.\<close>

definition collected :: "string \<Rightarrow> input_bufs" where
  "collected s = initial_bufs\<lparr>param_buf := s @ replicate (64 - length s) (CHR 0x00), param_len := length s\<rparr>"

lemma collected_holds:
  assumes "length s < 64" "CHR 0x00 \<notin> set s"
  shows "holds_at (param_buf (collected s)) 0 s"
proof -
  have "64 - length s = Suc (63 - length s)" using assms(1) by simp
  then have "replicate (64 - length s) (CHR 0x00) = CHR 0x00 # replicate (63 - length s) (CHR 0x00)" by simp
  then show ?thesis using assms(2) by (simp add: holds_at_def collected_def)
qed

theorem input_split_parameters_witness:
  "(\<exists>ictx'. input_split (collected ''38;5;;4:3'') = Some (0, ictx') \<and> input_get ictx' 1 0 (- 1) = 5 \<and> input_get ictx' 2 1 7 = 7 \<and>
     input_get ictx' 3 0 0 = - 1) \<and> input_split (collected (replicate 23 (CHR '';''))) = None"
proof
  have c: "param_len (collected s) = length s" "length (param_list (collected s)) = 24" for s
    by (simp_all add: collected_def initial_bufs_def)
  have p: "params_of (tokens (CHR '';'') ''38;5;;4:3'') = ([INPUT_NUMBER 38, INPUT_NUMBER 5, INPUT_MISSING, INPUT_STRING ''4:3''], True)"
    by code_simp
  show "\<exists>ictx'. input_split (collected ''38;5;;4:3'') = Some (0, ictx') \<and> input_get ictx' 1 0 (- 1) = 5 \<and> input_get ictx' 2 1 7 = 7 \<and>
     input_get ictx' 3 0 0 = - 1"
    using input_split_parameters [OF c(2) collected_holds c(1) _ p] by auto
  have q: "params_of (tokens (CHR '';'') (replicate 23 (CHR '';''))) = (replicate 24 INPUT_MISSING, True)" by code_simp
  show "input_split (collected (replicate 23 (CHR '';''))) = None"
    using input_split_parameters [OF c(2) collected_holds c(1) _ q] by simp
qed

end
