(* ===== verification/Grid_Keeps.thy ===== *)
theory Grid_Keeps
  imports Grid_View
begin

text \<open>
  The operations on grids without their results: under the invariant none aborts, and all keep it.  This is
  what the screen needs of them, for every cell that the parser may write, also when the table of characters
  is full.

  \<open>keeps\<close> is the usual rule of a computation that may abort: it returns, and what it returns satisfies a
  predicate; the rules in \<open>keeps_intros\<close> follow the structure of a program.
\<close>

section \<open>Computations that return\<close>

definition keeps :: "('a \<Rightarrow> bool) \<Rightarrow> 'a option \<Rightarrow> bool" where
  "keeps P r \<longleftrightarrow> (\<exists>x. r = Some x \<and> P x)"

named_theorems keeps_intros

lemma keeps_Some [simp]: "keeps P (Some x) = P x"
  by (simp add: keeps_def)

lemma keeps_bind: "keeps P r \<Longrightarrow> (\<And>x. P x \<Longrightarrow> keeps Q (f x)) \<Longrightarrow> keeps Q (r \<bind> f)"
  by (auto simp: keeps_def)

lemma keeps_mono: "keeps P r \<Longrightarrow> (\<And>x. P x \<Longrightarrow> Q x) \<Longrightarrow> keeps Q r"
  by (auto simp: keeps_def)

lemma keeps_if: "(c \<Longrightarrow> keeps P r) \<Longrightarrow> (\<not> c \<Longrightarrow> keeps P s) \<Longrightarrow> keeps P (if c then r else s)"
  by simp

lemma keepsD: "keeps P r \<Longrightarrow> \<exists>x. r = Some x \<and> P x"
  by (simp add: keeps_def)

lemma keeps_pair: "keeps (\<lambda>(a, b). P a b) r \<Longrightarrow> (\<And>a b. P a b \<Longrightarrow> keeps Q (f a b)) \<Longrightarrow> keeps Q (r \<bind> (\<lambda>(a, b). f a b))"
  by (auto simp: keeps_def)

section \<open>The invariant\<close>

text \<open>At most \<open>B\<close> lines of history, which leaves the line numbers in their 32 bits.\<close>

definition grid_fit :: "nat \<Rightarrow> utf8_table \<Rightarrow> grid \<Rightarrow> bool" where
  "grid_fit B t gd \<longleftrightarrow> grid_ok t gd \<and> utf8_table_ok t \<and> hsize gd \<le> B \<and> hlimit gd \<le> B \<and> B + g_sy gd < 4294967295 \<and>
     0 < g_sx gd \<and> g_sx gd < 1073741824 \<and> 0 < g_sy gd \<and> g_sy gd < 1073741824 \<and> (g_history gd \<longrightarrow> 0 < hlimit gd)"

definition same_grid :: "grid \<Rightarrow> grid \<Rightarrow> bool" where
  "same_grid gd gd' \<longleftrightarrow> g_sx gd' = g_sx gd \<and> g_sy gd' = g_sy gd \<and> hlimit gd' = hlimit gd \<and> g_history gd' = g_history gd"

lemma same_grid_refl [simp]: "same_grid gd gd"
  by (simp add: same_grid_def)

lemma same_grid_trans: "same_grid a b \<Longrightarrow> same_grid b c \<Longrightarrow> same_grid a c"
  by (simp add: same_grid_def)

definition grid_kept :: "nat \<Rightarrow> utf8_table \<Rightarrow> grid \<Rightarrow> grid \<times> utf8_table \<Rightarrow> bool" where
  "grid_kept B t gd st \<longleftrightarrow> (case st of (gd', t') \<Rightarrow> grid_fit B t' gd' \<and> table_le t t' \<and> same_grid gd gd')"

lemma grid_kept_refl: "grid_fit B t gd \<Longrightarrow> grid_kept B t gd (gd, t)"
  by (simp add: grid_kept_def)

lemma grid_kept_trans: "grid_kept B t gd (gd1, t1) \<Longrightarrow> grid_kept B t1 gd1 st \<Longrightarrow> grid_kept B t gd st"
  by (auto simp: grid_kept_def intro: table_le_trans same_grid_trans)

lemma kept_bind:
  assumes "keeps (grid_kept B t gd) r" "\<And>gd' t'. grid_kept B t gd (gd', t') \<Longrightarrow> grid_fit B t' gd' \<Longrightarrow> keeps (grid_kept B t' gd') (f gd' t')"
  shows "keeps (grid_kept B t gd) (r \<bind> (\<lambda>(gd', t'). f gd' t'))"
proof -
  obtain gd' t' where r: "r = Some (gd', t')" "grid_kept B t gd (gd', t')" using assms(1) by (auto simp: keeps_def)
  then have "keeps (grid_kept B t' gd') (f gd' t')" using assms(2) [of gd' t'] by (simp add: grid_kept_def)
  then show ?thesis using r grid_kept_trans by (auto simp: keeps_def)
qed

lemma same_size_kept:
  assumes "grid_fit B t gd" "grid_ok t' gd'" "utf8_table_ok t'" "table_le t t'" "same_size gd gd'" "g_history gd' = g_history gd"
  shows "grid_kept B t gd (gd', t')"
  using assms by (simp add: grid_kept_def grid_fit_def same_size_def same_grid_def)

section \<open>Cells that can be written\<close>

definition cell_safe :: "grid_cell \<Rightarrow> bool" where
  "cell_safe gc \<longleftrightarrow> length (ud_data (gc_data gc)) = UTF8_SIZE \<and>
     (if TAB \<in> gc_flags gc then ud_width (gc_data gc) \<le> UTF8_SIZE
      else ud_width (gc_data gc) \<le> 2 \<and> (EXTENDED \<notin> gc_flags gc \<or> ud_size (gc_data gc) > 1))"

lemma fallback_known: "known_char t (utf8_fallback w) \<and> utf8_get_size (utf8_fallback w) \<le> UTF8_SIZE"
proof -
  have "utf8_get_size (pack_char 0 0 0) = 0"
    by (rule pack_fields(1)) (simp_all only: zero_less_numeral zero_le)
  moreover have "utf8_get_size (pack_char 1 1 i) = 1" if "i = 32 \<or> i = 8224" for i
    using that by (intro pack_fields(1)) (auto simp only: less_numeral_simps one_le_numeral one_less_numeral_iff semiring_norm)
  ultimately have "utf8_get_size (utf8_fallback w) \<le> 1" by (simp add: utf8_fallback_def)
  then show ?thesis by (simp add: known_char_def UTF8_SIZE_def)
qed

lemma put_item_kept:
  assumes "utf8_table_ok t" "utf8_put_item t s = Some (i, t')"
  shows "utf8_table_ok t' \<and> index_tree t' i = Some s \<and> i < 16777216 \<and> table_le t t'"
proof (cases "utf8_next_index t < 16777216")
  case True
  obtain j u where u: "utf8_put_item t s = Some (j, u)" "utf8_table_ok u" "index_tree u j = Some s"
    "j < 16777216" "index_tree t \<subseteq>\<^sub>m index_tree u" by (rule put_item_ok [OF assms(1) True])
  then have "table_le t u" unfolding table_le_def by (blast dest: known_char_mono)
  then show ?thesis using assms(2) u by simp
next
  case False
  then have "utf8_next_index t = 16777216" using assms(1) by (simp add: utf8_table_ok_def)
  then have "data_tree t s = Some i \<and> t' = t" using assms(2) by (auto simp: utf8_put_item_def split: option.splits)
  moreover from this have "index_tree t i = Some s" using assms(1) by (auto simp: utf8_table_ok_def)
  moreover from this have "i < 16777216" using assms(1) unfolding utf8_table_ok_def
    by (metis \<open>utf8_next_index t = 16777216\<close> option.distinct(1))
  ultimately show ?thesis using assms(1) by simp
qed

lemma from_data_safe:
  assumes "utf8_table_ok t" "ud_width ud \<le> 2" "length (ud_data ud) = UTF8_SIZE"
  shows "\<exists>st uc t'. utf8_from_data t ud = Some (st, uc, t') \<and> utf8_table_ok t' \<and> table_le t t' \<and> known_char t' uc \<and>
    utf8_get_size uc \<le> UTF8_SIZE"
proof (cases "ud_size ud > UTF8_SIZE")
  case True
  then show ?thesis using assms(1,2) fallback_known by (simp add: utf8_from_data_def)
next
  case False
  then have sz: "ud_size ud < 32" "ud_size ud \<le> 21" by (simp_all add: UTF8_SIZE_def)
  show ?thesis
  proof (cases "ud_size ud \<le> 3")
    case True
    let ?b = "\<lambda>i. byte (ud_data ud ! i)"
    note pf = pack_fields(1) [OF sz(1) assms(2) three_bytes(4) [of "?b 0" "?b 1" "?b 2", OF byte_less byte_less byte_less]]
    then show ?thesis using True False assms(1,2) sz by (simp add: utf8_from_data_def known_char_def UTF8_SIZE_def)
  next
    case big: False
    show ?thesis
    proof (cases "utf8_put_item t (take (ud_size ud) (ud_data ud))")
      case None
      then show ?thesis using big False assms(1,2) fallback_known by (simp add: utf8_from_data_def)
    next
      case (Some it)
      then obtain i t' where it: "utf8_put_item t (take (ud_size ud) (ud_data ud)) = Some (i, t')" by (cases it) auto
      note p = put_item_kept [OF assms(1) it]
      then have i: "i < 16777216" by simp
      note pf = pack_fields [OF sz(1) assms(2) i]
      show ?thesis using it p pf big False assms(2,3) sz
        by (simp add: utf8_from_data_def known_char_def UTF8_SIZE_def)
    qed
  qed
qed

lemma entry_char_safe:
  assumes "cell_safe gc" "utf8_table_ok t"
  shows "\<exists>uc t'. entry_char t gc = Some (uc, t') \<and> utf8_table_ok t' \<and> table_le t t' \<and> extd_ok t' (extd_entry uc gc)"
proof (cases "TAB \<in> gc_flags gc")
  case True
  then show ?thesis using assms by (simp add: entry_char_def extd_ok_def extd_entry_def cell_safe_def)
next
  case False
  then show ?thesis using from_data_safe [OF assms(2), of "gc_data gc"] assms(1)
    by (auto simp: entry_char_def extd_ok_def extd_entry_def cell_safe_def)
qed

lemma put_cell_safe:
  assumes "cells_ok t S gl" "x \<in> S" "cell_safe gc" "utf8_table_ok t"
  shows "\<exists>gl' t'. put_cell t x gc c None gl = Some (gl', t') \<and> utf8_table_ok t' \<and> table_le t t' \<and> cells_ok t' S gl' \<and> same_line gl gl'"
proof (cases "grid_need_extended_cell (celldata gl ! x) gc")
  case True
  obtain uc t' where e: "entry_char t gc = Some (uc, t')" "utf8_table_ok t'" "table_le t t'" "extd_ok t' (extd_entry uc gc)"
    using entry_char_safe [OF assms(3,4)] by blast
  then show ?thesis using place_ok [OF assms(1,2) e(4,3), of gc] extended_cell_eq [OF assms(1,2) e(1)] True by (simp add: put_cell_def)
next
  case False
  then have "EXTENDED \<notin> gce_flags (grid_store_cell gc c)"
    using assms(3) by (auto simp: grid_need_extended_cell_def cell_safe_def grid_store_cell_def split: if_splits)
  from with_entry_ok [OF assms(1) cells_okD(2) [OF assms(1,2)] this] show ?thesis using False assms(2,4)
    by (simp add: put_cell_def with_entry_def insert_absorb)
qed

lemma put_char_safe:
  assumes "cells_ok t S gl" "x \<in> S" "cell_safe gc" "TAB \<notin> gc_flags gc" "utf8_table_ok t"
  shows "\<exists>gl' t'. put_cell t x gc c (Some (utf8_build_one c)) gl = Some (gl', t') \<and> utf8_table_ok t' \<and> table_le t t' \<and>
    cells_ok t' S gl' \<and> same_line gl gl'"
proof (cases "grid_need_extended_cell (celldata gl ! x) gc")
  case True
  obtain uc t' where e: "entry_char t gc = Some (uc, t')" "utf8_table_ok t'" "table_le t t'" "extd_ok t' (extd_entry uc gc)"
    using entry_char_safe [OF assms(3,5)] by blast
  let ?e = "(extd_entry uc gc)\<lparr>gee_data := utf8_build_one c\<rparr>"
  have k: "extd_ok t' ?e" using assms(4) by (simp add: extd_ok_def extd_entry_def known_one build_one_fields UTF8_SIZE_def)
  show ?thesis using place_ok [OF assms(1,2) k e(3), of gc] extended_cell_eq [OF assms(1,2) e(1)] True e(2,3)
      place_data [OF assms(1,2), of gc "extd_entry uc gc" "utf8_build_one c"]
    by (auto simp: put_cell_def)
next
  case False
  then have "EXTENDED \<notin> gce_flags (grid_store_cell gc c)"
    using assms(3) by (auto simp: grid_need_extended_cell_def cell_safe_def grid_store_cell_def split: if_splits)
  from with_entry_ok [OF assms(1) cells_okD(2) [OF assms(1,2)] this] show ?thesis using False assms(2,5)
    by (simp add: put_cell_def with_entry_def insert_absorb)
qed

lemma put_cells_safe:
  assumes "cells_ok t S gl" "{px..<px + length s} \<subseteq> S" "cell_safe gc" "TAB \<notin> gc_flags gc" "utf8_table_ok t"
  shows "\<exists>gl' t'. put_cells t px gc s gl = Some (gl', t') \<and> utf8_table_ok t' \<and> table_le t t' \<and> cells_ok t' S gl' \<and> same_line gl gl'"
  using assms(1,2,5)
proof (induction s arbitrary: t gl px)
  case (Cons c s)
  have "px \<in> S" using Cons.prems(2) by auto
  from put_char_safe [OF Cons.prems(1) this assms(3,4) Cons.prems(3)] obtain g1 t1 where g1:
    "put_cell t px gc c (Some (utf8_build_one c)) gl = Some (g1, t1)" "utf8_table_ok t1" "table_le t t1" "cells_ok t1 S g1" "same_line gl g1"
    by blast
  have "{px + 1..<px + 1 + length s} \<subseteq> S" using Cons.prems(2) by auto
  from Cons.IH [OF g1(4) this g1(2)] g1 show ?case using table_le_trans same_line_trans by fastforce
qed simp

section \<open>The operations\<close>

text \<open>None of them changes whether the grid has history.\<close>

lemma fold_flag: "(\<And>x g. g_history (f x g) = g_history g) \<Longrightarrow> g_history (fold f xs g) = g_history g"
  by (induction xs arbitrary: g) simp_all

lemma set_line_flag [simp]: "g_history (set_line gd y gl) = g_history gd" "g_history (grid_free_line gd y) = g_history gd"
    "g_history (grid_free_lines gd y n) = g_history gd" "g_history (grid_adjust_lines gd n) = g_history gd"
  by (simp_all add: set_line_def grid_free_line_def grid_free_lines_def grid_adjust_lines_def fold_flag)

lemma on_line_flag: "on_line gd y f = Some (gd', t') \<Longrightarrow> g_history gd' = g_history gd"
  by (cases "f (linedata gd ! y)") (auto simp: on_line_def)

lemma set_cell_flag: "grid_set_cell t gd px py gc = Some (gd', t') \<Longrightarrow> g_history gd' = g_history gd"
  by (auto simp: grid_set_cell_def dest: on_line_flag split: if_splits)

lemma set_cells_flag: "grid_set_cells t gd px py gc s = Some (gd', t') \<Longrightarrow> g_history gd' = g_history gd"
  by (auto simp: grid_set_cells_def dest: on_line_flag split: if_splits)

lemma empty_lines_flag: "empty_lines t gd ys bg = Some (gd', t') \<Longrightarrow> g_history gd' = g_history gd"
proof (induction ys arbitrary: gd t)
  case (Cons yy ys)
  then show ?case using Cons.IH by (auto split: bind_splits) (metis set_line_flag(1))+
qed simp

lemma clear_parts_flag: "clear_parts t gd px nx ys bg = Some (gd', t') \<Longrightarrow> g_history gd' = g_history gd"
  by (induction ys arbitrary: gd t) (auto split: bind_splits dest: on_line_flag)

lemma clear_flag: "grid_clear t gd px py nx ny bg = Some (gd', t') \<Longrightarrow> g_history gd' = g_history gd"
  by (auto simp: grid_clear_def grid_clear_lines_def split: if_splits bind_splits dest: empty_lines_flag clear_parts_flag)

lemma move_lines_flag: "grid_move_lines t gd dy py ny bg = Some (gd', t') \<Longrightarrow> g_history gd' = g_history gd"
  by (auto simp: grid_move_lines_def fold_flag Let_def split: if_splits bind_splits dest!: empty_lines_flag)

lemma move_cells_flag: "grid_move_cells t gd dx px py nx bg = Some (gd', t') \<Longrightarrow> g_history gd' = g_history gd"
  by (auto simp: grid_move_cells_def dest: on_line_flag split: if_splits)

lemma scroll_history_flag: "grid_scroll_history now t gd bg = Some (gd', t') \<Longrightarrow> g_history gd' = g_history gd"
  by (auto simp: grid_scroll_history_def Let_def split: bind_splits)

lemma scroll_region_flag: "grid_scroll_history_region now t gd upper lower bg = Some (gd', t') \<Longrightarrow> g_history gd' = g_history gd"
  by (auto simp: grid_scroll_history_region_def Let_def split: bind_splits)

lemma set_cell_keeps:
  assumes "grid_fit B t gd" "cell_safe gc"
  shows "keeps (grid_kept B t gd) (grid_set_cell t gd px py gc)"
proof (cases "py < hsize gd + g_sy gd")
  case True
  have ok: "grid_ok t gd" "utf8_table_ok t" using assms(1) by (simp_all add: grid_fit_def)
  let ?gl = "linedata gd ! py"
  have l: "line_ok t ?gl" using grid_ok_line [OF ok(1) True] by simp
  obtain g1 where g1: "grid_expand_line (g_sx gd) t (px + 1) 8 ?gl = Some (g1, t)" "line_ok t g1" "px + 1 \<le> cellsize g1"
    "line_view t g1 = line_view t ?gl" using expand_default [OF l] by metis
  define g2 where "g2 = g1\<lparr>cellused := (if px + 1 > cellused g1 then px + 1 else cellused g1)\<rparr>"
  have g2: "line_ok t g2" using g1(2,3) by (auto simp: line_ok_def g2_def)
  have "px \<in> {..<cellsize g2}" using g1(3) by (simp add: g2_def)
  from put_cell_safe [OF line_ok_cells [OF g2] this assms(2) ok(2)] obtain g3 t' where g3:
    "put_cell t px gc (ud_data (gc_data gc) ! 0) None g2 = Some (g3, t')" "utf8_table_ok t'" "table_le t t'"
    "cells_ok t' {..<cellsize g2} g3" "same_line g2 g3" by blast
  have "line_ok t' g3" using g2 g3(4,5) by (simp add: line_ok_def same_line_def)
  note s = set_line_ok [OF ok(1) True this g3(3)]
  have "grid_set_cell t gd px py gc = Some (set_line gd py g3, t')"
    using True g1(1) g3(1) by (simp add: grid_set_cell_def grid_check_y_def on_line_def g2_def)
  then show ?thesis using same_size_kept [OF assms(1) s(1) g3(2,3)] by simp
qed (use assms(1) in \<open>simp add: grid_set_cell_def grid_check_y_def grid_kept_refl\<close>)

lemma set_cells_keeps:
  assumes "grid_fit B t gd" "cell_safe gc" "TAB \<notin> gc_flags gc"
  shows "keeps (grid_kept B t gd) (grid_set_cells t gd px py gc s)"
proof (cases "py < hsize gd + g_sy gd")
  case True
  have ok: "grid_ok t gd" "utf8_table_ok t" using assms(1) by (simp_all add: grid_fit_def)
  let ?gl = "linedata gd ! py"
  have l: "line_ok t ?gl" using grid_ok_line [OF ok(1) True] by simp
  obtain g1 where g1: "grid_expand_line (g_sx gd) t (px + length s) 8 ?gl = Some (g1, t)" "line_ok t g1" "px + length s \<le> cellsize g1"
    "line_view t g1 = line_view t ?gl" using expand_default [OF l] by metis
  define g2 where "g2 = g1\<lparr>cellused := (if px + length s > cellused g1 then px + length s else cellused g1)\<rparr>"
  have g2: "line_ok t g2" using g1(2,3) by (auto simp: line_ok_def g2_def)
  have "{px..<px + length s} \<subseteq> {..<cellsize g2}" using g1(3) by (auto simp: g2_def)
  from put_cells_safe [OF line_ok_cells [OF g2] this assms(2,3) ok(2)] obtain g3 t' where g3:
    "put_cells t px gc s g2 = Some (g3, t')" "utf8_table_ok t'" "table_le t t'"
    "cells_ok t' {..<cellsize g2} g3" "same_line g2 g3" by blast
  have "line_ok t' g3" using g2 g3(4,5) by (simp add: line_ok_def same_line_def)
  note s = set_line_ok [OF ok(1) True this g3(3)]
  have "grid_set_cells t gd px py gc s = Some (set_line gd py g3, t')"
    using True g1(1) g3(1) by (simp add: grid_set_cells_def grid_check_y_def on_line_def g2_def)
  then show ?thesis using same_size_kept [OF assms(1) s(1) g3(2,3)] by simp
qed (use assms(1) in \<open>simp add: grid_set_cells_def grid_check_y_def grid_kept_refl\<close>)

lemma spec_keeps:
  assumes "grid_fit B t gd" "\<exists>gd'. r = Some (gd', t) \<and> grid_ok t gd' \<and> same_size gd gd' \<and> Q gd'"
    and "\<And>g u. r = Some (g, u) \<Longrightarrow> g_history g = g_history gd"
  shows "keeps (grid_kept B t gd) r"
proof -
  obtain gd' where r: "r = Some (gd', t)" "grid_ok t gd'" "same_size gd gd'" using assms(2) by blast
  have "utf8_table_ok t" using assms(1) by (simp add: grid_fit_def)
  from same_size_kept [OF assms(1) r(2) this table_le_refl r(3) assms(3) [OF r(1)]] show ?thesis using r(1) by simp
qed

lemma clear_keeps:
  assumes "grid_fit B t gd" "colour_ok bg" "bg \<noteq> 9"
  shows "keeps (grid_kept B t gd) (grid_clear t gd px py nx ny bg)"
proof (cases "py + ny \<le> hsize gd + g_sy gd")
  case True
  have "grid_ok t gd" using assms(1) by (simp add: grid_fit_def)
  from spec_keeps [OF assms(1) clear_spec [OF this assms(2,3) True, of px nx] clear_flag] show ?thesis .
next
  case False
  then have "ny = 0 \<or> \<not> grid_check_y gd (py + ny - 1)" by (cases "ny = 0") (simp_all add: grid_check_y_def)
  then have "grid_clear t gd px py nx ny bg = Some (gd, t)"
    unfolding grid_clear_def grid_clear_lines_def by (elim disjE) simp_all
  then show ?thesis using grid_kept_refl [OF assms(1)] by simp
qed

lemma move_lines_keeps:
  assumes "grid_fit B t gd" "colour_ok bg"
  shows "keeps (grid_kept B t gd) (grid_move_lines t gd dy py ny bg)"
proof (cases "py + ny \<le> hsize gd + g_sy gd \<and> dy + ny \<le> hsize gd + g_sy gd")
  case True
  have ok: "grid_ok t gd" using assms(1) by (simp add: grid_fit_def)
  from True have "py + ny \<le> hsize gd + g_sy gd" "dy + ny \<le> hsize gd + g_sy gd" by simp_all
  from spec_keeps [OF assms(1) move_lines_spec [OF ok assms(2) this] move_lines_flag] show ?thesis .
next
  case False
  then have "ny = 0 \<or> \<not> grid_check_y gd (py + ny - 1) \<or> \<not> grid_check_y gd (dy + ny - 1)"
    by (cases "ny = 0") (auto simp: grid_check_y_def)
  then have "grid_move_lines t gd dy py ny bg = Some (gd, t)" unfolding grid_move_lines_def by (elim disjE) simp_all
  then show ?thesis using grid_kept_refl [OF assms(1)] by simp
qed

lemma move_cells_keeps:
  assumes "grid_fit B t gd" "colour_ok bg"
  shows "keeps (grid_kept B t gd) (grid_move_cells t gd dx px py nx bg)"
proof (cases "py < hsize gd + g_sy gd")
  case True
  have "grid_ok t gd" using assms(1) by (simp add: grid_fit_def)
  from spec_keeps [OF assms(1) move_cells_spec [OF this assms(2) True, of dx px nx] move_cells_flag] show ?thesis .
next
  case False
  then have "grid_move_cells t gd dx px py nx bg = Some (gd, t)" by (auto simp: grid_move_cells_def grid_check_y_def)
  then show ?thesis using grid_kept_refl [OF assms(1)] by simp
qed

text \<open>Collecting first leaves room for one line of history.\<close>

lemma collect_fit:
  assumes "grid_fit B t gd" "g_history gd"
  shows "grid_kept B t gd (grid_collect_history gd False, t)" "hsize (grid_collect_history gd False) + 1 \<le> B"
proof -
  have ok: "grid_ok t gd" "hsize gd \<le> B" "hlimit gd \<le> B" "0 < hlimit gd" using assms by (simp_all add: grid_fit_def)
  note c = collect_history_spec [OF ok(1), of False]
  show "grid_kept B t gd (grid_collect_history gd False, t)" using c assms(1) le_trans [OF diff_le_self ok(2)] by (simp add: grid_kept_def grid_fit_def same_grid_def)
  show "hsize (grid_collect_history gd False) + 1 \<le> B"
    using c(2) ok by (auto simp: collect_lines_def Let_def)
qed

lemma scroll_history_keeps:
  assumes "grid_fit B t gd" "g_history gd" "colour_ok bg"
  shows "keeps (grid_kept B t gd) (grid_scroll_history now t (grid_collect_history gd False) bg)"
proof -
  note c = collect_fit [OF assms(1,2)]
  then have ok: "grid_ok t (grid_collect_history gd False)" by (simp add: grid_kept_def grid_fit_def)
  from scroll_history_spec [OF ok assms(3), of now] show ?thesis
    using c scroll_history_flag by (fastforce simp: keeps_def grid_kept_def grid_fit_def same_grid_def)
qed

lemma scroll_region_keeps:
  assumes "grid_fit B t gd" "g_history gd" "colour_ok bg" "upper \<le> lower" "lower < g_sy gd"
  shows "keeps (grid_kept B t gd) (grid_scroll_history_region now t (grid_collect_history gd False)
    (grid_view_y (grid_collect_history gd False) upper) (grid_view_y (grid_collect_history gd False) lower) bg)"
proof -
  let ?g = "grid_collect_history gd False"
  note c = collect_fit [OF assms(1,2)]
  then have ok: "grid_ok t ?g" "g_sy ?g = g_sy gd" by (simp_all add: grid_kept_def grid_fit_def same_grid_def)
  have "hsize ?g \<le> grid_view_y ?g upper" "grid_view_y ?g upper \<le> grid_view_y ?g lower" "grid_view_y ?g lower < hsize ?g + g_sy ?g"
    using assms(4,5) ok(2) by (simp_all add: grid_view_y_def)
  from scroll_region_spec [OF ok(1) assms(3) this, of now] show ?thesis
    using c scroll_region_flag by (fastforce simp: keeps_def grid_kept_def grid_fit_def same_grid_def)
qed

section \<open>Reading\<close>

lemma to_data_length: "utf8_to_data t uc = Some ud \<Longrightarrow> length (ud_data ud) = UTF8_SIZE"
  by (auto simp: utf8_to_data_def Let_def UTF8_SIZE_def split: if_splits option.splits)

lemma set_tab_length: "grid_set_tab g w = Some gc \<Longrightarrow> length (ud_data (gc_data gc)) = UTF8_SIZE"
proof -
  assume a: "grid_set_tab g w = Some gc"
  have w: "w \<le> 21" using a by (simp add: grid_set_tab_def UTF8_SIZE_def split: if_splits)
  then have "ud_data (gc_data gc) = replicate w (CHR '' '') @ drop w zero_bytes" using a by (simp add: grid_set_tab_def UTF8_SIZE_def) auto
  then show ?thesis using w by (simp add: UTF8_SIZE_def)
qed

lemma get_cell_keeps:
  assumes "grid_ok t gd"
  shows "keeps (\<lambda>gc. length (ud_data (gc_data gc)) = UTF8_SIZE) (grid_get_cell t gd px py)"
proof -
  obtain gc where gc: "grid_get_cell t gd px py = Some gc"
    using view_Some [OF assms, of px py] by (auto simp: view_def)
  have u: "length (ud_data (utf8_set c)) = UTF8_SIZE" for c by (simp add: utf8_set_def UTF8_SIZE_def)
  have "length (ud_data (gc_data gc)) = UTF8_SIZE"
  proof (cases "\<not> grid_check_y gd py \<or> px \<ge> cellsize (linedata gd ! py)")
    case True
    then show ?thesis using gc by (auto simp: grid_get_cell_def GRID_DEFAULT_CELL_def one_byte_def UTF8_SIZE_def)
  next
    case False
    let ?gce = "celldata (linedata gd ! py) ! px"
    have r: "grid_get_cell1 t (linedata gd ! py) px = Some gc" using gc False by (simp add: grid_get_cell_def)
    show ?thesis
    proof (cases "EXTENDED \<in> gce_flags ?gce")
      case True
      then have "gc = GRID_DEFAULT_CELL \<or> (\<exists>e. extended_cell t e = Some gc)"
        using r unfolding grid_get_cell1_def Let_def by (metis option.inject)
      then show ?thesis
      proof
        assume "gc = GRID_DEFAULT_CELL"
        then show ?thesis by (simp add: GRID_DEFAULT_CELL_def one_byte_def UTF8_SIZE_def)
      next
        assume "\<exists>e. extended_cell t e = Some gc"
        then obtain e where e: "extended_cell t e = Some gc" by blast
        show ?thesis
        proof (cases "TAB \<in> gee_flags e")
          case True
          define g0 where "g0 = \<lparr>gc_data = \<lparr>ud_data = zero_bytes, ud_have = 0, ud_size = 0, ud_width = 0\<rparr>, gc_attr = gee_attr e,
            gc_flags = gee_flags e, gc_fg = gee_fg e, gc_bg = gee_bg e, gc_us = gee_us e, gc_link = gee_link e\<rparr>"
          have "grid_set_tab g0 (gee_data e) = Some gc" using e True by (simp add: extended_cell_def g0_def)
          then show ?thesis by (rule set_tab_length)
        next
          case False
          then obtain ud where "utf8_to_data t (gee_data e) = Some ud" "gc_data gc = ud"
            using e by (auto simp: extended_cell_def Let_def)
          then show ?thesis using to_data_length by simp
        qed
      qed
    next
      case False
      then have "gc = packed_cell ?gce" using r by (simp add: grid_get_cell1_def Let_def)
      then show ?thesis using u by (simp add: packed_cell_def split: grid_cell_entry_union.splits)
    qed
  qed
  then show ?thesis using gc by simp
qed

section \<open>The screen part of a grid\<close>

lemma view_get_cell_keeps:
  assumes "grid_fit B t gd"
  shows "keeps (\<lambda>gc. length (ud_data (gc_data gc)) = UTF8_SIZE) (grid_view_get_cell t gd px py)"
  unfolding grid_view_get_cell_def using assms by (intro get_cell_keeps) (simp add: grid_fit_def)

lemma view_set_cell_keeps:
  "grid_fit B t gd \<Longrightarrow> cell_safe gc \<Longrightarrow> keeps (grid_kept B t gd) (grid_view_set_cell t gd px py gc)"
  by (simp add: grid_view_set_cell_def set_cell_keeps)

lemma default_safe: "cell_safe GRID_DEFAULT_CELL" "cell_safe GRID_PADDING_CELL"
  by (simp_all add: cell_safe_def GRID_DEFAULT_CELL_def GRID_PADDING_CELL_def one_byte_def UTF8_SIZE_def)

lemma view_set_padding_keeps: "grid_fit B t gd \<Longrightarrow> keeps (grid_kept B t gd) (grid_view_set_padding t gd px py)"
  by (simp add: grid_view_set_padding_def grid_set_padding_def set_cell_keeps default_safe)

lemma view_set_cells_keeps:
  "grid_fit B t gd \<Longrightarrow> cell_safe gc \<Longrightarrow> TAB \<notin> gc_flags gc \<Longrightarrow> keeps (grid_kept B t gd) (grid_view_set_cells t gd px py gc s)"
  by (simp add: grid_view_set_cells_def set_cells_keeps)

lemma view_clear_keeps:
  "grid_fit B t gd \<Longrightarrow> colour_ok bg \<Longrightarrow> bg \<noteq> 9 \<Longrightarrow> keeps (grid_kept B t gd) (grid_view_clear t gd px py nx ny bg)"
  by (simp add: grid_view_clear_def clear_keeps)

lemma view_scroll_region_up_keeps:
  assumes "grid_fit B t gd" "colour_ok bg" "upper \<le> lower" "lower < g_sy gd"
  shows "keeps (grid_kept B t gd) (grid_view_scroll_region_up now t gd upper lower bg)"
  using scroll_history_keeps [OF assms(1) _ assms(2), of now] scroll_region_keeps [OF assms(1) _ assms(2-4), of now]
    move_lines_keeps [OF assms(1,2)]
  by (simp add: grid_view_scroll_region_up_def Let_def)

lemma view_scroll_region_down_keeps:
  "grid_fit B t gd \<Longrightarrow> colour_ok bg \<Longrightarrow> keeps (grid_kept B t gd) (grid_view_scroll_region_down t gd upper lower bg)"
  by (simp add: grid_view_scroll_region_down_def Let_def move_lines_keeps)

lemma view_insert_lines_keeps:
  "grid_fit B t gd \<Longrightarrow> colour_ok bg \<Longrightarrow> keeps (grid_kept B t gd) (grid_view_insert_lines t gd py ny bg)"
  by (simp add: grid_view_insert_lines_def Let_def move_lines_keeps)

lemma view_insert_lines_region_keeps:
  "grid_fit B t gd \<Longrightarrow> colour_ok bg \<Longrightarrow> bg \<noteq> 9 \<Longrightarrow> keeps (grid_kept B t gd) (grid_view_insert_lines_region t gd lower py ny bg)"
  by (auto simp: grid_view_insert_lines_region_def Let_def intro!: kept_bind move_lines_keeps clear_keeps)

lemma view_delete_lines_keeps:
  "grid_fit B t gd \<Longrightarrow> colour_ok bg \<Longrightarrow> bg \<noteq> 9 \<Longrightarrow> keeps (grid_kept B t gd) (grid_view_delete_lines t gd py ny bg)"
  by (auto simp: grid_view_delete_lines_def Let_def intro!: kept_bind move_lines_keeps clear_keeps)

lemma view_delete_lines_region_keeps:
  "grid_fit B t gd \<Longrightarrow> colour_ok bg \<Longrightarrow> bg \<noteq> 9 \<Longrightarrow> keeps (grid_kept B t gd) (grid_view_delete_lines_region t gd lower py ny bg)"
  by (auto simp: grid_view_delete_lines_region_def Let_def intro!: kept_bind move_lines_keeps clear_keeps)

lemma view_insert_cells_keeps:
  "grid_fit B t gd \<Longrightarrow> colour_ok bg \<Longrightarrow> bg \<noteq> 9 \<Longrightarrow> keeps (grid_kept B t gd) (grid_view_insert_cells t gd px py nx bg)"
  by (simp add: grid_view_insert_cells_def Let_def move_cells_keeps clear_keeps)

lemma view_delete_cells_keeps:
  "grid_fit B t gd \<Longrightarrow> colour_ok bg \<Longrightarrow> bg \<noteq> 9 \<Longrightarrow> keeps (grid_kept B t gd) (grid_view_delete_cells t gd px py nx bg)"
  by (auto simp: grid_view_delete_cells_def Let_def intro!: kept_bind move_cells_keeps clear_keeps)

lemma scroll_lines_keeps:
  "grid_fit B t gd \<Longrightarrow> g_history gd \<Longrightarrow> colour_ok bg \<Longrightarrow> keeps (grid_kept B t gd) (scroll_lines now n t gd bg)"
proof (induction n arbitrary: t gd)
  case (Suc n)
  show ?case
    unfolding scroll_lines.simps
  proof (rule kept_bind [OF scroll_history_keeps [OF Suc.prems]])
    fix gd' t'
    assume k: "grid_kept B t gd (gd', t')" "grid_fit B t' gd'"
    have "g_history gd'" using k(1) Suc.prems(2) unfolding grid_kept_def same_grid_def by simp
    from Suc.IH [OF k(2) this Suc.prems(3)] show "keeps (grid_kept B t' gd') (scroll_lines now n t' gd' bg)" .
  qed
qed (simp add: grid_kept_refl)

lemma hscrolled_kept: "grid_kept B t gd (gd' , t') \<Longrightarrow> grid_kept B t gd (gd'\<lparr>hscrolled := n\<rparr>, t')"
  by (auto simp: grid_kept_def grid_fit_def grid_ok_def same_grid_def)

lemma view_clear_history_keeps:
  assumes "grid_fit B t gd" "g_history gd" "colour_ok bg" "bg \<noteq> 9"
  shows "keeps (grid_kept B t gd) (grid_view_clear_history now t gd bg)"
proof -
  define last where
    "last = fold (\<lambda>yy last. if cellused (grid_get_line gd (grid_view_y gd yy)) \<noteq> 0 then yy + 1 else last) [0..<g_sy gd] 0"
  note s = scroll_lines_keeps [OF assms(1-3), of now "g_sy gd"]
  have c: "keeps (grid_kept B t1 gd1)
      (do { (gd2, t2) \<leftarrow> (if last < g_sy gd1 then grid_view_clear t1 gd1 0 0 (g_sx gd1) (g_sy gd1 - last) bg else Some (gd1, t1));
            Some (gd2\<lparr>hscrolled := 0\<rparr>, t2) })" if "grid_fit B t1 gd1" for gd1 t1
  proof (rule keeps_pair [where P = "\<lambda>a b. grid_kept B t1 gd1 (a, b)"])
    show "keeps (\<lambda>(a, b). grid_kept B t1 gd1 (a, b))
        (if last < g_sy gd1 then grid_view_clear t1 gd1 0 0 (g_sx gd1) (g_sy gd1 - last) bg else Some (gd1, t1))"
      using view_clear_keeps [OF that assms(3,4)] grid_kept_refl [OF that] by simp
    show "keeps (grid_kept B t1 gd1) (Some (a\<lparr>hscrolled := 0\<rparr>, b))" if "grid_kept B t1 gd1 (a, b)" for a b
      using hscrolled_kept [OF that] by simp
  qed
  show ?thesis
    unfolding grid_view_clear_history_def Let_def last_def [symmetric]
    using view_clear_keeps [OF assms(1,3,4)] kept_bind [OF s, of "\<lambda>gd1 t1. do { (gd2, t2) \<leftarrow>
       (if last < g_sy gd1 then grid_view_clear t1 gd1 0 0 (g_sx gd1) (g_sy gd1 - last) bg else Some (gd1, t1)); Some (gd2\<lparr>hscrolled := 0\<rparr>, t2) }"] c
    by (cases "last = 0") simp_all
qed

lemma clear_history_kept:
  assumes "grid_fit B t gd"
  shows "grid_kept B t gd (grid_clear_history gd, t)"
proof -
  have ok: "grid_ok t gd" using assms by (simp add: grid_fit_def)
  have f: "g_history (grid_clear_history gd) = g_history gd"
    by (simp add: grid_clear_history_def grid_trim_history_def Let_def)
  show ?thesis using clear_history_spec [OF ok] f assms by (simp add: grid_kept_def grid_fit_def same_grid_def)
qed

end
