(* ===== verification/Grid_Reflow.thy ===== *)
theory Grid_Reflow
  imports Grid_View
begin

text \<open>
  Reflowing a grid to a new width (the \<open>grid_reflow_*\<close> functions of \<open>grid.rs\<close>): lines that are too long are split,
  wrapped lines that have become too short take in the beginning of the next ones.  The lines move from the grid
  to a target grid that is all screen and has no history.
\<close>

section \<open>Model\<close>

definition dead_line :: grid_line where
  "dead_line = zeroed_line\<lparr>gl_flags := {LINE_DEAD}\<rparr>"

definition grid_reflow_dead :: "grid \<Rightarrow> nat \<Rightarrow> grid" where
  "grid_reflow_dead gd y = set_line gd y dead_line"

definition grid_reflow_add :: "grid \<Rightarrow> nat \<Rightarrow> grid" where
  "grid_reflow_add gd n = gd\<lparr>linedata := take (g_sy gd) (linedata gd) @ replicate n zeroed_line, g_sy := g_sy gd + n\<rparr>"

text \<open>Line \<open>y\<close> of the grid becomes the last line of the target.\<close>

definition grid_reflow_move :: "grid \<Rightarrow> grid \<Rightarrow> nat \<Rightarrow> grid \<times> grid" where
  "grid_reflow_move target gd y =
     (set_line (grid_reflow_add target 1) (g_sy target) (linedata gd ! y), grid_reflow_dead gd y)"

subsection \<open>Joining\<close>

text \<open>The cells of a line from \<open>i\<close> on that still fit into the target line: where they go next, how wide the
  target line is now and how many cells were taken.\<close>

fun join_cells ::
    "grid_line \<Rightarrow> nat \<Rightarrow> nat \<Rightarrow> nat list \<Rightarrow> utf8_table \<Rightarrow> grid \<Rightarrow> nat \<Rightarrow> nat \<Rightarrow> (utf8_table \<times> grid \<times> nat \<times> nat \<times> nat) option" where
  "join_cells gl sx to [] t target at width = Some (t, target, at, width, cellused gl)"
| "join_cells gl sx to (i # is) t target at width = do {
     gc \<leftarrow> grid_get_cell1 t gl i;
     if width + ud_width (gc_data gc) > sx then Some (t, target, at, width, i)
     else do {
       (target', t') \<leftarrow> grid_set_cell t target at to gc;
       join_cells gl sx to is t' target' (at + 1) (width + ud_width (gc_data gc)) } }"

record join_state =
  j_table :: utf8_table
  j_target :: grid
  j_at :: nat
  j_width :: nat
  j_lines :: nat
  j_from :: "nat option"
  j_want :: nat
  j_wrapped :: bool

text \<open>The loop over the lines below.\<close>

fun join_lines :: "grid \<Rightarrow> nat \<Rightarrow> nat \<Rightarrow> nat list \<Rightarrow> join_state \<Rightarrow> join_state option" where
  "join_lines gd sx to [] j = Some j"
| "join_lines gd sx to (line # rest) j =
     (let gl = linedata gd ! line;
          j1 = (if LINE_WRAPPED \<in> gl_flags gl then j else j\<lparr>j_wrapped := False\<rparr>)
      in if cellused gl = 0
         then (if j_wrapped j1 then join_lines gd sx to rest (j1\<lparr>j_lines := j_lines j1 + 1\<rparr>) else Some j1)
         else do {
           gc \<leftarrow> grid_get_cell1 (j_table j1) gl 0;
           if j_width j1 + ud_width (gc_data gc) > sx then Some j1
           else do {
             (target, t) \<leftarrow> grid_set_cell (j_table j1) (j_target j1) (j_at j1) to gc;
             (t', target', at, width, want) \<leftarrow>
               join_cells gl sx to [1..<cellused gl] t target (j_at j1 + 1) (j_width j1 + ud_width (gc_data gc));
             let j2 = j1\<lparr>j_table := t', j_target := target', j_at := at, j_width := width, j_lines := j_lines j1 + 1,
                         j_from := Some line, j_want := want\<rparr>;
             if \<not> j_wrapped j2 \<or> want \<noteq> cellused gl \<or> width = sx then Some j2 else join_lines gd sx to rest j2 } })"

text \<open>The result is the table, the target and the grid.\<close>

definition grid_reflow_join ::
    "utf8_table \<Rightarrow> grid \<Rightarrow> grid \<Rightarrow> nat \<Rightarrow> nat \<Rightarrow> nat \<Rightarrow> bool \<Rightarrow> (utf8_table \<times> grid \<times> grid) option" where
  "grid_reflow_join t target gd sx yy width already = do {
     let (target1, gd1) = (if already then (target, gd) else grid_reflow_move target gd yy);
     let to = (if already then g_sy target - 1 else g_sy target);
     j \<leftarrow> join_lines gd1 sx to [yy + 1..<hsize gd1 + g_sy gd1]
            \<lparr>j_table = t, j_target = target1, j_at = cellused (linedata target1 ! to), j_width = width, j_lines = 0,
             j_from = None, j_want = 0, j_wrapped = True\<rparr>;
     case (j_lines j, j_from j) of
       (0, _) \<Rightarrow> Some (j_table j, j_target j, gd1)
     | (_, None) \<Rightarrow> Some (j_table j, j_target j, gd1)
     | (lines, Some from) \<Rightarrow> do {
         let left = cellused (linedata gd1 ! from) - j_want j;
         (gd2, t2) \<leftarrow> (if left \<noteq> 0
            then do { (g, t2) \<leftarrow> grid_move_cells (j_table j) gd1 0 (j_want j) (yy + lines) left 8;
                      Some (set_line g from ((linedata g ! from)\<lparr>cellsize := left, cellused := left\<rparr>), t2) }
            else Some (gd1, j_table j));
         let target2 = (if left = 0 \<and> \<not> j_wrapped j
              then set_line (j_target j) to ((linedata (j_target j) ! to)\<lparr>gl_flags := gl_flags (linedata (j_target j) ! to) - {LINE_WRAPPED}\<rparr>)
              else j_target j);
         let n = (if left \<noteq> 0 then lines - 1 else lines);
         let gd3 = fold (\<lambda>i g. grid_reflow_dead g i) [yy + 1..<yy + 1 + n] gd2;
         Some (t2, target2,
           (if hscrolled gd3 > to + n then gd3\<lparr>hscrolled := hscrolled gd3 - n\<rparr>
            else if hscrolled gd3 > to then gd3\<lparr>hscrolled := to\<rparr> else gd3)) } }"

subsection \<open>Splitting\<close>

text \<open>The number of lines that the cells of an extended line need, and the width of the last one.\<close>

fun count_lines :: "utf8_table \<Rightarrow> grid_line \<Rightarrow> nat \<Rightarrow> nat list \<Rightarrow> nat \<Rightarrow> nat \<Rightarrow> nat option" where
  "count_lines t gl sx [] lines width = Some lines"
| "count_lines t gl sx (i # is) lines width = do {
     gc \<leftarrow> grid_get_cell1 t gl i;
     if width + ud_width (gc_data gc) > sx then count_lines t gl sx is (lines + 1) (ud_width (gc_data gc))
     else count_lines t gl sx is lines (width + ud_width (gc_data gc)) }"

text \<open>The cells from \<open>at\<close> on go to the lines from \<open>line\<close> on.  The result has the last line and its width.\<close>

fun split_cells ::
    "grid_line \<Rightarrow> nat \<Rightarrow> nat list \<Rightarrow> utf8_table \<Rightarrow> grid \<Rightarrow> nat \<Rightarrow> nat \<Rightarrow> nat \<Rightarrow> (utf8_table \<times> grid \<times> nat \<times> nat) option" where
  "split_cells gl sx [] t target line xx width = Some (t, target, line, width)"
| "split_cells gl sx (i # is) t target line xx width = do {
     gc \<leftarrow> grid_get_cell1 t gl i;
     let w = ud_width (gc_data gc);
     if width + w > sx
     then do {
       let target1 = set_line target line ((linedata target ! line)\<lparr>gl_flags := insert LINE_WRAPPED (gl_flags (linedata target ! line))\<rparr>);
       (target2, t2) \<leftarrow> grid_set_cell t target1 0 (line + 1) gc;
       split_cells gl sx is t2 target2 (line + 1) 1 w }
     else do {
       (target2, t2) \<leftarrow> grid_set_cell t target xx line gc;
       split_cells gl sx is t2 target2 line (xx + 1) (width + w) } }"

definition grid_reflow_split :: "utf8_table \<Rightarrow> grid \<Rightarrow> grid \<Rightarrow> nat \<Rightarrow> nat \<Rightarrow> nat \<Rightarrow> (utf8_table \<times> grid \<times> grid) option" where
  "grid_reflow_split t target gd sx yy at = do {
     let gl = linedata gd ! yy;
     let flags = gl_flags gl;
     lines \<leftarrow> (if LINE_EXTENDED \<notin> flags then Some (1 + (cellused gl - 1) div sx)
              else count_lines t gl sx [at..<cellused gl] 2 0);
     let first = g_sy target;
     (t1, target1, line, width) \<leftarrow> split_cells gl sx [at..<cellused gl] t (grid_reflow_add target lines) (first + 1) 0 0;
     let target2 = (if LINE_WRAPPED \<in> flags
          then set_line target1 line ((linedata target1 ! line)\<lparr>gl_flags := insert LINE_WRAPPED (gl_flags (linedata target1 ! line))\<rparr>)
          else target1);
     let target3 = set_line target2 first (gl\<lparr>cellsize := at, cellused := at, gl_flags := insert LINE_WRAPPED flags\<rparr>);
     let gd1 = grid_reflow_dead gd yy;
     let gd2 = (if yy \<le> hscrolled gd1 then gd1\<lparr>hscrolled := hscrolled gd1 + (lines - 1)\<rparr> else gd1);
     if width < sx \<and> LINE_WRAPPED \<in> flags then grid_reflow_join t1 target3 gd2 sx yy width True
     else Some (t1, target3, gd2) }"

subsection \<open>The whole grid\<close>

text \<open>Where an extended line reaches the width \<open>sx\<close>, and its width.\<close>

fun measure_cells :: "utf8_table \<Rightarrow> grid_line \<Rightarrow> nat \<Rightarrow> nat list \<Rightarrow> nat \<Rightarrow> nat \<Rightarrow> (nat \<times> nat) option" where
  "measure_cells t gl sx [] at width = Some (at, width)"
| "measure_cells t gl sx (i # is) at width = do {
     gc \<leftarrow> grid_get_cell1 t gl i;
     measure_cells t gl sx is (if at = 0 \<and> width + ud_width (gc_data gc) > sx then i else at) (width + ud_width (gc_data gc)) }"

definition reflow_line :: "nat \<Rightarrow> nat \<Rightarrow> utf8_table \<times> grid \<times> grid \<Rightarrow> (utf8_table \<times> grid \<times> grid) option" where
  "reflow_line sx yy st = (case st of (t, target, gd) \<Rightarrow>
     (let gl = linedata gd ! yy
      in if LINE_DEAD \<in> gl_flags gl then Some (t, target, gd)
         else do {
           (at, width) \<leftarrow> (if LINE_EXTENDED \<notin> gl_flags gl then Some (if cellused gl > sx then sx else cellused gl, cellused gl)
                           else measure_cells t gl sx [0..<cellused gl] 0 0);
           if width = sx then (case grid_reflow_move target gd yy of (target', gd') \<Rightarrow> Some (t, target', gd'))
           else if width > sx then grid_reflow_split t target gd sx yy at
           else if LINE_WRAPPED \<in> gl_flags gl then grid_reflow_join t target gd sx yy width False
           else (case grid_reflow_move target gd yy of (target', gd') \<Rightarrow> Some (t, target', gd')) }))"

fun reflow_lines :: "nat \<Rightarrow> nat list \<Rightarrow> utf8_table \<times> grid \<times> grid \<Rightarrow> (utf8_table \<times> grid \<times> grid) option" where
  "reflow_lines sx [] st = Some st"
| "reflow_lines sx (yy # ys) st = do { st' \<leftarrow> reflow_line sx yy st; reflow_lines sx ys st' }"

definition grid_reflow :: "utf8_table \<Rightarrow> grid \<Rightarrow> nat \<Rightarrow> (grid \<times> utf8_table) option" where
  "grid_reflow t gd sx = do {
     (t', target, gd1) \<leftarrow> reflow_lines sx [0..<hsize gd + g_sy gd] (t, grid_create (g_sx gd) 0 0, gd);
     let target1 = (if g_sy target < g_sy gd then grid_reflow_add target (g_sy gd - g_sy target) else target);
     let h = g_sy target1 - g_sy gd;
     Some (gd1\<lparr>hsize := h, hscrolled := (if hscrolled gd1 > h then h else hscrolled gd1), linedata := linedata target1,
               scroll_generation := scroll_generation gd1 + 1\<rparr>, t') }"

end
