(* ===== verification/Screen.thy ===== *)
theory Screen
  imports Grid_Keeps Grid_Reflow
begin

text \<open>
  The screen of a pane (\<open>screen.rs\<close>): a grid with a cursor, a scroll region, modes, tab stops, titles, a
  selection, and the copy of the screen that is kept while the alternate screen is shown.

  Numbers of the type \<open>u32\<close> are \<^typ>\<open>nat\<close>, with \<^const>\<open>sub32\<close> where a subtraction can wrap.  Images, hyperlinks
  and the names of modes for the log are left out.  \<^const>\<open>None\<close> is a panic or a call of \<open>fatalx\<close>; the
  table of \<open>utf8.rs\<close> is passed through.
\<close>

section \<open>State\<close>

datatype mode_flag =
  MODE_CURSOR | MODE_INSERT | MODE_KCURSOR | MODE_KKEYPAD | MODE_WRAP | MODE_MOUSE_STANDARD | MODE_MOUSE_BUTTON
| MODE_CURSOR_BLINKING | MODE_MOUSE_UTF8 | MODE_MOUSE_SGR | MODE_BRACKETPASTE | MODE_FOCUSON | MODE_MOUSE_ALL
| MODE_ORIGIN | MODE_CRLF | MODE_KEYS_EXTENDED | MODE_CURSOR_VERY_VISIBLE | MODE_CURSOR_BLINKING_SET
| MODE_KEYS_EXTENDED_2 | MODE_THEME_UPDATES | MODE_SYNC

definition ALL_MOUSE_MODES :: "mode_flag set" where
  "ALL_MOUSE_MODES = {MODE_MOUSE_STANDARD, MODE_MOUSE_BUTTON, MODE_MOUSE_ALL}"

definition EXTENDED_KEY_MODES :: "mode_flag set" where
  "EXTENDED_KEY_MODES = {MODE_KEYS_EXTENDED, MODE_KEYS_EXTENDED_2}"

datatype screen_cursor_style = SCREEN_CURSOR_DEFAULT | SCREEN_CURSOR_BLOCK | SCREEN_CURSOR_UNDERLINE | SCREEN_CURSOR_BAR

datatype progress_bar_state =
  PROGRESS_BAR_HIDDEN | PROGRESS_BAR_NORMAL | PROGRESS_BAR_ERROR | PROGRESS_BAR_INDETERMINATE | PROGRESS_BAR_PAUSED

datatype modekey = MODEKEY_EMACS | MODEKEY_VI

record screen_sel =
  sel_hidden :: bool
  sel_rectangle :: bool
  sel_modekeys :: modekey
  sel_sx :: nat
  sel_sy :: nat
  sel_ex :: nat
  sel_ey :: nat
  sel_clipx :: nat
  sel_cell :: grid_cell

text \<open>What has been written to a line and not yet drawn (\<open>screen_write.rs\<close>): the items of the line and the buffer
  that the text items lie in, null until it is needed.\<close>

datatype screen_write_citem_type = Text | Clear

record screen_write_citem =
  ci_x :: nat
  ci_wrapped :: bool
  ci_type :: screen_write_citem_type
  ci_used :: nat
  ci_bg :: int
  ci_gc :: grid_cell

record screen_write_cline =
  cl_data :: "string option"
  cl_items :: "screen_write_citem list"

record screen =
  s_title :: string
  s_path :: "string option"
  s_titles :: "string list"
  s_grid :: grid
  s_cx :: nat
  s_cy :: nat
  s_cstyle :: screen_cursor_style
  s_default_cstyle :: screen_cursor_style
  s_ccolour :: int
  s_default_ccolour :: int
  s_rupper :: nat
  s_rlower :: nat
  s_mode :: "mode_flag set"
  s_default_mode :: "mode_flag set"
  s_saved_cx :: nat
  s_saved_cy :: nat
  s_saved_grid :: "grid option"
  s_saved_cell :: grid_cell
  s_saved_history :: bool
  s_tabs :: "bool list"
  s_sel :: "screen_sel option"
  s_write_list :: "screen_write_cline list option"
  s_progress :: "progress_bar_state \<times> int"

definition screen_size_x :: "screen \<Rightarrow> nat" where
  "screen_size_x s = g_sx (s_grid s)"

definition screen_size_y :: "screen \<Rightarrow> nat" where
  "screen_size_y s = g_sy (s_grid s)"

definition screen_hsize :: "screen \<Rightarrow> nat" where
  "screen_hsize s = hsize (s_grid s)"

section \<open>Tabs, titles and cursor style\<close>

text \<open>The bit string of the tab stops has whole bytes; a bit past its end is a panic.\<close>

definition bitstr :: "nat \<Rightarrow> bool list" where
  "bitstr n = replicate ((n + 7) div 8 * 8) False"

definition bit_set :: "bool list \<Rightarrow> nat \<Rightarrow> bool \<Rightarrow> bool list option" where
  "bit_set bits i b = (if i < length bits then Some (bits[i := b]) else None)"

definition bit_test :: "bool list \<Rightarrow> nat \<Rightarrow> bool option" where
  "bit_test bits i = (if i < length bits then Some (bits ! i) else None)"

text \<open>The loop that sets every eighth stop; it does not leave the string.\<close>

definition screen_reset_tabs :: "screen \<Rightarrow> screen" where
  "screen_reset_tabs s =
     s\<lparr>s_tabs := fold (\<lambda>i tabs. if i mod 8 = 0 then tabs[i := True] else tabs) [8..<screen_size_x s] (bitstr (screen_size_x s))\<rparr>"

fun screen_set_cursor_style :: "nat \<Rightarrow> screen_cursor_style \<times> mode_flag set \<Rightarrow> screen_cursor_style \<times> mode_flag set" where
  "screen_set_cursor_style style (cstyle, mode) =
     (if style = 0 then (SCREEN_CURSOR_DEFAULT, mode)
      else if style = 1 then (SCREEN_CURSOR_BLOCK, insert MODE_CURSOR_BLINKING mode)
      else if style = 2 then (SCREEN_CURSOR_BLOCK, mode - {MODE_CURSOR_BLINKING})
      else if style = 3 then (SCREEN_CURSOR_UNDERLINE, insert MODE_CURSOR_BLINKING mode)
      else if style = 4 then (SCREEN_CURSOR_UNDERLINE, mode - {MODE_CURSOR_BLINKING})
      else if style = 5 then (SCREEN_CURSOR_BAR, insert MODE_CURSOR_BLINKING mode)
      else if style = 6 then (SCREEN_CURSOR_BAR, mode - {MODE_CURSOR_BLINKING})
      else (cstyle, mode))"

definition screen_set_cursor_colour :: "screen \<Rightarrow> int \<Rightarrow> screen" where
  "screen_set_cursor_colour s colour = s\<lparr>s_ccolour := colour\<rparr>"

definition screen_set_progress_bar :: "screen \<Rightarrow> progress_bar_state \<Rightarrow> int \<Rightarrow> screen" where
  "screen_set_progress_bar s pbs p =
     s\<lparr>s_progress := (pbs, if p \<ge> 0 \<and> pbs \<noteq> PROGRESS_BAR_INDETERMINATE then p else snd (s_progress s))\<rparr>"

definition screen_set_title :: "utf8_config \<Rightarrow> screen \<Rightarrow> string \<Rightarrow> (bool \<times> screen) option" where
  "screen_set_title cfg s title = do {
     valid \<leftarrow> utf8_isvalid cfg title;
     if valid then Some (True, s\<lparr>s_title := title\<rparr>) else Some (False, s)
   }"

text \<open>The escapes that \<open>utf8_stravis\<close> puts in are a parameter.\<close>

definition screen_set_path :: "(string \<Rightarrow> string) \<Rightarrow> screen \<Rightarrow> string \<Rightarrow> screen" where
  "screen_set_path stravis s path = s\<lparr>s_path := Some (stravis path)\<rparr>"

definition screen_push_title :: "screen \<Rightarrow> screen" where
  "screen_push_title s = s\<lparr>s_titles := s_title s # s_titles s\<rparr>"

definition screen_pop_title :: "utf8_config \<Rightarrow> screen \<Rightarrow> screen option" where
  "screen_pop_title cfg s =
     (case s_titles s of
        [] \<Rightarrow> Some s
      | text # rest \<Rightarrow> do { (r, s1) \<leftarrow> screen_set_title cfg s text; Some (s1\<lparr>s_titles := rest\<rparr>) })"

definition screen_free_titles :: "screen \<Rightarrow> screen" where
  "screen_free_titles s = s\<lparr>s_titles := []\<rparr>"

section \<open>Selection\<close>

definition screen_set_selection ::
    "screen \<Rightarrow> nat \<Rightarrow> nat \<Rightarrow> nat \<Rightarrow> nat \<Rightarrow> bool \<Rightarrow> nat \<Rightarrow> modekey \<Rightarrow> grid_cell \<Rightarrow> screen" where
  "screen_set_selection s sx sy ex ey rectangle clipx modekeys gc =
     s\<lparr>s_sel := Some \<lparr>sel_hidden = False, sel_rectangle = rectangle, sel_modekeys = modekeys, sel_sx = sx, sel_sy = sy,
                     sel_ex = ex, sel_ey = ey, sel_clipx = clipx, sel_cell = gc\<rparr>\<rparr>"

definition screen_clear_selection :: "screen \<Rightarrow> screen" where
  "screen_clear_selection s = s\<lparr>s_sel := None\<rparr>"

definition screen_hide_selection :: "screen \<Rightarrow> screen" where
  "screen_hide_selection s = s\<lparr>s_sel := map_option (\<lambda>sel. sel\<lparr>sel_hidden := True\<rparr>) (s_sel s)\<rparr>"

text \<open>Whether a position is outside a selection that is a rectangle, or one that runs over lines.\<close>

definition outside_rectangle :: "screen_sel \<Rightarrow> nat \<Rightarrow> nat \<Rightarrow> bool" where
  "outside_rectangle sel px py \<longleftrightarrow>
     (if sel_sy sel < sel_ey sel then py < sel_sy sel \<or> py > sel_ey sel
      else if sel_sy sel > sel_ey sel then py > sel_sy sel \<or> py < sel_ey sel
      else py \<noteq> sel_sy sel) \<or>
     (if sel_ex sel < sel_sx sel then px < sel_ex sel \<or> px > sel_sx sel else px < sel_sx sel \<or> px > sel_ex sel)"

definition outside_lines :: "screen_sel \<Rightarrow> nat \<Rightarrow> nat \<Rightarrow> bool" where
  "outside_lines sel px py \<longleftrightarrow>
     (let emacs = sel_modekeys sel = MODEKEY_EMACS;
          end_xx = (if emacs then if sel_ex sel = 0 then 0 else sel_ex sel - 1 else sel_ex sel);
          start_xx = (if emacs then sub32 (sel_sx sel) 1 else sel_sx sel)
      in if sel_sy sel < sel_ey sel
         then py < sel_sy sel \<or> py > sel_ey sel \<or> py = sel_sy sel \<and> px < sel_sx sel \<or> py = sel_ey sel \<and> px > end_xx
         else if sel_sy sel > sel_ey sel
         then py > sel_sy sel \<or> py < sel_ey sel \<or> py = sel_ey sel \<and> px < sel_ex sel \<or>
              py = sel_sy sel \<and> (sel_sx sel = 0 \<or> px > start_xx)
         else py \<noteq> sel_sy sel \<or>
              (if sel_ex sel < sel_sx sel then px > start_xx \<or> px < sel_ex sel else px < sel_sx sel \<or> px > end_xx))"

definition screen_check_selection :: "screen \<Rightarrow> nat \<Rightarrow> nat \<Rightarrow> bool" where
  "screen_check_selection s px py =
     (case s_sel s of
        None \<Rightarrow> False
      | Some sel \<Rightarrow>
          if sel_hidden sel then False
          else if px < sel_clipx sel then False
          else \<not> (if sel_rectangle sel then outside_rectangle sel px py else outside_lines sel px py))"

section \<open>Size\<close>

definition empty_cline :: screen_write_cline where
  "empty_cline = \<lparr>cl_data = None, cl_items = []\<rparr>"

definition screen_write_make_list :: "screen \<Rightarrow> screen" where
  "screen_write_make_list s = s\<lparr>s_write_list := Some (replicate (screen_size_y s) empty_cline)\<rparr>"

text \<open>The parts of \<open>screen_resize_y\<close>: the lines deleted below the cursor, with the number of lines that are
  still to go; the lines that move to the history or, without history, are deleted at the top; and the
  lines that come back from the history, with blank ones for the rest.\<close>

definition delete_below :: "utf8_table \<Rightarrow> screen \<Rightarrow> nat \<Rightarrow> bool \<Rightarrow> (grid \<times> utf8_table \<times> nat) option" where
  "delete_below t s needed eat_empty =
     (let oldy = screen_size_y s;
          available0 = sub32 (oldy - 1) (s_cy s);
          available = (if available0 > needed then needed else available0)
      in if eat_empty \<and> available0 > 0
         then do {
           (gd, t') \<leftarrow> grid_view_delete_lines t (s_grid s) (oldy - available) available 8;
           Some (gd, t', needed - available)
         }
         else Some (s_grid s, t, needed))"

definition shrink_lines :: "utf8_table \<Rightarrow> grid \<Rightarrow> nat \<Rightarrow> nat \<Rightarrow> nat \<Rightarrow> (grid \<times> utf8_table \<times> nat) option" where
  "shrink_lines t gd needed cury cy =
     (if g_history gd then Some (gd\<lparr>hscrolled := hscrolled gd + needed, hsize := hsize gd + needed\<rparr>, t, cy)
      else if needed > 0 \<and> cury > 0
      then do {
        let available = (if cury > needed then needed else cury);
        (gd', t') \<leftarrow> grid_view_delete_lines t gd 0 available 8;
        Some (gd', t', sub32 cy available)
      }
      else Some (gd, t, cy))"

definition grow_lines :: "utf8_table \<Rightarrow> grid \<Rightarrow> nat \<Rightarrow> nat \<Rightarrow> (grid \<times> utf8_table) option" where
  "grow_lines t gd sy needed0 =
     (let available = (if g_history gd \<and> hscrolled gd > 0 then (if hscrolled gd > needed0 then needed0 else hscrolled gd) else 0);
          gd1 = gd\<lparr>hscrolled := hscrolled gd - available, hsize := hsize gd - available\<rparr>;
          needed = needed0 - available
      in empty_lines t gd1 [hsize gd1 + sy - needed..<hsize gd1 + sy] 8)"

text \<open>Gives the screen, the table, and the line of the cursor, which counts from the start of the history.\<close>

definition screen_resize_y :: "utf8_table \<Rightarrow> screen \<Rightarrow> nat \<Rightarrow> bool \<Rightarrow> nat \<Rightarrow> (screen \<times> utf8_table \<times> nat) option" where
  "screen_resize_y t s sy eat_empty cy = do {
     _ \<leftarrow> (if sy = 0 then None else Some ());
     let oldy = screen_size_y s;
     (gd1, t1, cy1) \<leftarrow>
       (if sy < oldy
        then do {
          (gd, u, needed) \<leftarrow> delete_below t s (oldy - sy) eat_empty;
          shrink_lines u gd needed (s_cy s) cy
        }
        else Some (s_grid s, t, cy));
     let gd2 = grid_adjust_lines gd1 (hsize gd1 + sy);
     (gd3, t3) \<leftarrow> (if sy > oldy then grow_lines t1 gd2 sy (sy - oldy) else Some (gd2, t1));
     Some (s\<lparr>s_grid := gd3\<lparr>g_sy := sy\<rparr>, s_rupper := 0, s_rlower := sy - 1\<rparr>, t3, cy1)
   }"

definition screen_reflow :: "utf8_table \<Rightarrow> screen \<Rightarrow> nat \<Rightarrow> nat \<Rightarrow> nat \<Rightarrow> bool \<Rightarrow> (screen \<times> utf8_table \<times> nat \<times> nat) option" where
  "screen_reflow t s new_x cx cy cursor = do {
     let (wx, wy) = (if cursor then grid_wrap_position (s_grid s) cx cy else (0, 0));
     (gd, t') \<leftarrow> grid_reflow t (s_grid s) new_x;
     let (cx', cy') = (if cursor then grid_unwrap_position gd wx wy else (0, hsize gd));
     Some (s\<lparr>s_grid := gd\<rparr>, t', cx', cy')
   }"

definition screen_resize_cursor :: "utf8_table \<Rightarrow> screen \<Rightarrow> nat \<Rightarrow> nat \<Rightarrow> bool \<Rightarrow> bool \<Rightarrow> bool \<Rightarrow> (screen \<times> utf8_table) option" where
  "screen_resize_cursor t s sx0 sy0 reflow eat_empty cursor = do {
     let sx = (if sx0 < 1 then 1 else sx0);
     let sy = (if sy0 < 1 then 1 else sy0);
     let s1 = (if sx \<noteq> screen_size_x s then screen_reset_tabs (s\<lparr>s_grid := (s_grid s)\<lparr>g_sx := sx\<rparr>\<rparr>) else s);
     (s2, t2, cy2) \<leftarrow> (if sy \<noteq> screen_size_y s then screen_resize_y t s1 sy eat_empty (screen_hsize s + s_cy s)
                      else Some (s1, t, screen_hsize s + s_cy s));
     (s3, t3, cx3, cy3) \<leftarrow> (if reflow \<and> sx \<noteq> screen_size_x s then screen_reflow t2 s2 sx (s_cx s) cy2 cursor
                           else Some (s2, t2, s_cx s, cy2));
     let s4 = (if cy3 \<ge> screen_hsize s3 then s3\<lparr>s_cx := cx3, s_cy := cy3 - screen_hsize s3\<rparr> else s3\<lparr>s_cx := 0, s_cy := 0\<rparr>);
     Some (if s_write_list s \<noteq> None then screen_write_make_list s4 else s4, t3)
   }"

definition screen_resize :: "utf8_table \<Rightarrow> screen \<Rightarrow> nat \<Rightarrow> nat \<Rightarrow> bool \<Rightarrow> (screen \<times> utf8_table) option" where
  "screen_resize t s sx sy reflow = screen_resize_cursor t s sx sy reflow True True"

section \<open>The alternate screen\<close>

definition screen_alternate_on :: "utf8_table \<Rightarrow> screen \<Rightarrow> grid_cell \<Rightarrow> bool \<Rightarrow> (screen \<times> utf8_table) option" where
  "screen_alternate_on t s gc cursor =
     (if s_saved_grid s \<noteq> None then Some (s, t)
      else do {
        let sx = screen_size_x s;
        let sy = screen_size_y s;
        let saved = grid_duplicate_lines (grid_create sx sy 0) 0 (s_grid s) (screen_hsize s) sy;
        let s1 = s\<lparr>s_saved_grid := Some saved\<rparr>;
        let s2 = (if cursor then s1\<lparr>s_saved_cx := s_cx s1, s_saved_cy := s_cy s1\<rparr> else s1);
        (gd, t') \<leftarrow> grid_view_clear t (s_grid s) 0 0 sx sy 8;
        Some (s2\<lparr>s_saved_cell := gc, s_saved_history := g_history gd, s_grid := gd\<lparr>g_history := False\<rparr>\<rparr>, t')
      })"

definition clamp_cursor :: "screen \<Rightarrow> screen" where
  "clamp_cursor s =
     (let s1 = (if s_cx s > screen_size_x s - 1 then s\<lparr>s_cx := screen_size_x s - 1\<rparr> else s)
      in if s_cy s1 > screen_size_y s1 - 1 then s1\<lparr>s_cy := screen_size_y s1 - 1\<rparr> else s1)"

text \<open>Gives the cell too, which is the cell of the caller unless the saved one replaces it.\<close>

definition screen_alternate_off ::
    "utf8_table \<Rightarrow> screen \<Rightarrow> grid_cell option \<Rightarrow> bool \<Rightarrow> (screen \<times> utf8_table \<times> grid_cell option) option" where
  "screen_alternate_off t s gc cursor = do {
     let sx = screen_size_x s;
     let sy = screen_size_y s;
     (s1, t1) \<leftarrow> (case s_saved_grid s of None \<Rightarrow> Some (s, t) | Some saved \<Rightarrow> screen_resize t s (g_sx saved) (g_sy saved) False);
     let (s2, gc2) = (if cursor \<and> s_saved_cx s1 \<noteq> u32_max \<and> s_saved_cy s1 \<noteq> u32_max
                      then (s1\<lparr>s_cx := s_saved_cx s1, s_cy := s_saved_cy s1\<rparr>, map_option (\<lambda>_. s_saved_cell s1) gc)
                      else (s1, gc));
     case s_saved_grid s2 of
       None \<Rightarrow> Some (clamp_cursor s2, t1, gc2)
     | Some saved \<Rightarrow> do {
         let gd = grid_duplicate_lines (s_grid s2) (screen_hsize s2) saved 0 (g_sy saved);
         let s3 = s2\<lparr>s_grid := (if s_saved_history s2 then gd\<lparr>g_history := True\<rparr> else gd)\<rparr>;
         (s4, t4) \<leftarrow> screen_resize t1 s3 sx sy True;
         Some (clamp_cursor (s4\<lparr>s_saved_grid := None\<rparr>), t4, gc2)
       }
   }"

section \<open>Creation\<close>

text \<open>The parameter is the server option \<open>extended-keys\<close>.\<close>

definition screen_reinit :: "int \<Rightarrow> utf8_table \<Rightarrow> screen \<Rightarrow> (screen \<times> utf8_table) option" where
  "screen_reinit extended_keys t s = do {
     let mode = {MODE_CURSOR, MODE_WRAP} \<union> (s_mode s \<inter> {MODE_CRLF});
     let mode' = (if extended_keys = 2 then mode - EXTENDED_KEY_MODES \<union> {MODE_KEYS_EXTENDED} else mode);
     let s1 = s\<lparr>s_cx := 0, s_cy := 0, s_rupper := 0, s_rlower := screen_size_y s - 1, s_mode := mode'\<rparr>;
     (s2, t2) \<leftarrow> (case s_saved_grid s1 of None \<Rightarrow> Some (s1, t)
                 | Some _ \<Rightarrow> map_option (\<lambda>(s', t', gc). (s', t')) (screen_alternate_off t s1 None False));
     let s3 = screen_reset_tabs (s2\<lparr>s_saved_cx := u32_max, s_saved_cy := u32_max\<rparr>);
     (gd, t4) \<leftarrow> grid_clear_lines t2 (s_grid s3) (hsize (s_grid s3)) (g_sy (s_grid s3)) 8;
     Some (screen_set_progress_bar (screen_free_titles (screen_clear_selection (s3\<lparr>s_grid := gd\<rparr>))) PROGRESS_BAR_HIDDEN 0, t4)
   }"

definition screen_init :: "int \<Rightarrow> utf8_table \<Rightarrow> nat \<Rightarrow> nat \<Rightarrow> nat \<Rightarrow> (screen \<times> utf8_table) option" where
  "screen_init extended_keys t sx sy limit =
     screen_reinit extended_keys t
       \<lparr>s_title = '''', s_path = None, s_titles = [], s_grid = grid_create sx sy limit, s_cx = 0, s_cy = 0,
        s_cstyle = SCREEN_CURSOR_DEFAULT, s_default_cstyle = SCREEN_CURSOR_DEFAULT, s_ccolour = - 1, s_default_ccolour = - 1,
        s_rupper = 0, s_rlower = 0, s_mode = {MODE_CURSOR}, s_default_mode = {}, s_saved_cx = 0, s_saved_cy = 0,
        s_saved_grid = None, s_saved_cell = GRID_DEFAULT_CELL, s_saved_history = False, s_tabs = [], s_sel = None,
        s_write_list = None, s_progress = (PROGRESS_BAR_HIDDEN, 0)\<rparr>"

end
