(* ===== verification/Screen_Sound.thy ===== *)
theory Screen_Sound
  imports Screen
begin

text \<open>
  The invariant of a screen, and what resizing and the alternate screen do to what is seen.
\<close>

section \<open>Copies of lines\<close>

lemma copy_line_ok:
  assumes "line_ok t gl"
  shows "line_ok t (copy_line gl) \<and> line_view t (copy_line gl) = line_view t gl"
proof -
  note ok = line_ok_cells [OF assms]
  let ?cd = "take (cellsize gl) (celldata gl)"
  have e: "copy_line gl = gl\<lparr>celldata := ?cd\<rparr>"
    using cells_okD(1) [OF ok] by (cases gl) (auto simp: copy_line_def)
  have f: "inj_on (\<lambda>x. x) {..<cellsize gl}" "x < length ?cd \<and> x \<in> {..<cellsize gl} \<and> ?cd ! x = celldata gl ! x"
    if "x \<in> {..<cellsize gl}" for x using that line_ok_length [OF assms] by auto
  have "cells_ok t {..<cellsize gl} (gl\<lparr>celldata := ?cd\<rparr>)" by (rule permute_ok(1) [OF ok]) (use f in auto)
  moreover have "grid_get_cell1 t (gl\<lparr>celldata := ?cd\<rparr>) x = grid_get_cell1 t gl x" if "x < cellsize gl" for x
    by (rule permute_ok(2) [OF ok, where T = "{..<cellsize gl}" and f = "\<lambda>x. x"]) (use f that in auto)
  ultimately show ?thesis using assms unfolding e by (auto simp: line_ok_def line_view_def)
qed

lemma free_lines_same: "same_size gd (grid_free_lines gd y n) \<and> (z < y \<or> y + n \<le> z \<longrightarrow> linedata (grid_free_lines gd y n) ! z = linedata gd ! z)"
  using free_lines_nth [where P = "\<lambda>_. False" and ys = "[y..<y + n]" and gd = gd and y = z] by (simp add: grid_free_lines_def)

lemma fold_set_lines:
  "same_size gd (fold (\<lambda>i d. set_line d (y + i) (f i)) [0..<n] gd) \<and>
   (z < length (linedata gd) \<longrightarrow> linedata (fold (\<lambda>i d. set_line d (y + i) (f i)) [0..<n] gd) ! z =
     (if y \<le> z \<and> z < y + n then f (z - y) else linedata gd ! z))"
proof (induction n)
  case (Suc n)
  let ?g = "fold (\<lambda>i d. set_line d (y + i) (f i)) [0..<n] gd"
  have "same_size gd (set_line ?g (y + n) (f n))" using Suc same_size_trans set_line_fields(7) by blast
  moreover have "length (linedata ?g) = length (linedata gd)" using Suc by (simp add: same_size_def)
  ultimately show ?case using Suc by (cases "z = y + n") (auto simp: nth_list_update)
qed auto

lemma duplicate_lines_spec:
  assumes "grid_ok t dst" "grid_ok t src" "dy + ny \<le> hsize dst + g_sy dst" "sy + ny \<le> hsize src + g_sy src"
  shows "grid_ok t (grid_duplicate_lines dst dy src sy ny)" "same_size dst (grid_duplicate_lines dst dy src sy ny)"
    "view t (grid_duplicate_lines dst dy src sy ny) x y = (if dy \<le> y \<and> y < dy + ny then view t src x (y - dy + sy) else view t dst x y)"
proof -
  define d where "d = grid_duplicate_lines dst dy src sy ny"
  let ?f = "\<lambda>i. copy_line (linedata src ! (sy + i))"
  have d: "d = fold (\<lambda>i d. set_line d (dy + i) (?f i)) [0..<ny] (grid_free_lines dst dy ny)"
    using assms(3,4) by (simp add: d_def grid_duplicate_lines_def)
  note fr = free_lines_same [of dst dy ny]
  note se = fold_set_lines [where gd = "grid_free_lines dst dy ny" and y = dy and n = ny and f = ?f, folded d]
  have s: "same_size dst d" using fr se same_size_trans by blast
  have n: "linedata d ! z = (if dy \<le> z \<and> z < dy + ny then ?f (z - dy) else linedata dst ! z)" if "z < hsize dst + g_sy dst" for z
    using fr [of z] se [of z] that grid_ok_line [OF assms(1) that] by (auto simp: same_size_def)
  have l: "line_ok t (linedata d ! z) \<and>
      line_view t (linedata d ! z) = (if dy \<le> z \<and> z < dy + ny then line_view t (linedata src ! (z - dy + sy)) else line_view t (linedata dst ! z))"
    if z: "z < hsize d + g_sy d" for z
  proof -
    have z': "z < hsize dst + g_sy dst" using z s by (simp add: same_size_def)
    show ?thesis
    proof (cases "dy \<le> z \<and> z < dy + ny")
      case True
      then have "z - dy < ny" by linarith
      then have "sy + (z - dy) < hsize src + g_sy src" using assms(4) by linarith
      from copy_line_ok [OF conjunct1 [OF grid_ok_line [OF assms(2) this]]] True show ?thesis
        unfolding n [OF z'] by (simp add: add.commute)
    next
      case False
      then show ?thesis using grid_ok_line [OF assms(1) z'] unfolding n [OF z'] by (simp only: if_False simp_thms)
    qed
  qed
  have len: "hsize d + g_sy d \<le> length (linedata d)" using assms(1) s by (simp add: same_size_def grid_ok_def)
  note b = grid_by_lines [OF len l]
  show "grid_ok t (grid_duplicate_lines dst dy src sy ny)" "same_size dst (grid_duplicate_lines dst dy src sy ny)"
    using b(1) s by (simp_all add: d_def)
  have "hsize d + g_sy d = hsize dst + g_sy dst" using s by (simp add: same_size_def)
  then show "view t (grid_duplicate_lines dst dy src sy ny) x y = (if dy \<le> y \<and> y < dy + ny then view t src x (y - dy + sy) else view t dst x y)"
    using b(2) [of x y] assms(3,4) by (auto simp: d_def [symmetric] view_line)
qed

lemma duplicate_flag [simp]: "g_history (grid_duplicate_lines dst dy src sy ny) = g_history dst"
proof -
  have "g_history (fold (\<lambda>i d. set_line d (dy + i) (f i)) xs g) = g_history g" for f :: "nat \<Rightarrow> grid_line" and xs g
    by (rule fold_flag) simp
  then show ?thesis by (simp add: grid_duplicate_lines_def Let_def)
qed

section \<open>The invariant\<close>

definition saved_fit :: "nat \<Rightarrow> utf8_table \<Rightarrow> grid \<Rightarrow> grid \<Rightarrow> bool" where
  "saved_fit B t gd saved \<longleftrightarrow> grid_fit B t saved \<and> hsize saved = 0 \<and> g_sx saved = g_sx gd \<and> g_sy saved = g_sy gd"

text \<open>The saved grid has the size of the screen, which holds while the pane is not resized.\<close>

definition screen_fit :: "nat \<Rightarrow> utf8_table \<Rightarrow> screen \<Rightarrow> bool" where
  "screen_fit B t s \<longleftrightarrow> grid_fit B t (s_grid s) \<and> s_cx s \<le> screen_size_x s \<and> s_cy s < screen_size_y s \<and>
     s_rupper s \<le> s_rlower s \<and> s_rlower s < screen_size_y s \<and> screen_size_x s \<le> length (s_tabs s) \<and>
     (\<forall>saved. s_saved_grid s = Some saved \<longrightarrow> saved_fit B t (s_grid s) saved \<and> (s_saved_history s \<longrightarrow> 0 < hlimit (s_grid s))) \<and>
     (\<forall>cls. s_write_list s = Some cls \<longrightarrow> length cls = screen_size_y s)"

lemma fit_mono:
  assumes "grid_fit B t gd" "table_le t t'" "utf8_table_ok t'"
  shows "grid_fit B t' gd"
proof -
  have "line_ok t' (linedata gd ! y)" if "y < hsize gd + g_sy gd" for y
    using line_ok_mono [OF _ assms(2)] grid_ok_line [OF _ that] assms(1) unfolding grid_fit_def by blast
  then show ?thesis using assms unfolding grid_fit_def grid_ok_def by simp
qed

lemma fit_view_mono:
  assumes "grid_fit B t gd" "table_le t t'"
  shows "view t' gd x y = view t gd x y"
  using line_ok_mono [OF _ assms(2)] grid_ok_line [of t gd] assms(1) by (simp add: view_line grid_fit_def)

lemma saved_mono: "saved_fit B t gd saved \<Longrightarrow> table_le t t' \<Longrightarrow> utf8_table_ok t' \<Longrightarrow> same_grid gd gd' \<Longrightarrow> saved_fit B t' gd' saved"
  unfolding saved_fit_def same_grid_def by (metis fit_mono)

lemma fit_table: "grid_fit B t gd \<Longrightarrow> utf8_table_ok t"
  by (simp add: grid_fit_def)

lemma screen_fitI:
  assumes "grid_fit B t (s_grid s)" "s_cx s \<le> g_sx (s_grid s)" "s_cy s < g_sy (s_grid s)" "s_rupper s \<le> s_rlower s"
    "s_rlower s < g_sy (s_grid s)" "g_sx (s_grid s) \<le> length (s_tabs s)"
    "\<And>saved. s_saved_grid s = Some saved \<Longrightarrow> saved_fit B t (s_grid s) saved \<and> (s_saved_history s \<longrightarrow> 0 < hlimit (s_grid s))"
    "\<And>cls. s_write_list s = Some cls \<Longrightarrow> length cls = g_sy (s_grid s)"
  shows "screen_fit B t s"
  using assms by (simp add: screen_fit_def screen_size_x_def screen_size_y_def)

lemma screen_fitD:
  assumes "screen_fit B t s"
  shows "grid_fit B t (s_grid s)" "s_cx s \<le> g_sx (s_grid s)" "s_cy s < g_sy (s_grid s)" "s_rupper s \<le> s_rlower s"
    "s_rlower s < g_sy (s_grid s)" "g_sx (s_grid s) \<le> length (s_tabs s)"
    "s_saved_grid s = Some saved \<Longrightarrow> saved_fit B t (s_grid s) saved" "s_saved_grid s = Some saved \<Longrightarrow> s_saved_history s \<Longrightarrow> 0 < hlimit (s_grid s)"
    "s_write_list s = Some cls \<Longrightarrow> length cls = g_sy (s_grid s)"
    "0 < g_sx (s_grid s)" "0 < g_sy (s_grid s)" "g_sx (s_grid s) < 1073741824" "g_sy (s_grid s) < 1073741824"
  using assms by (auto simp: screen_fit_def screen_size_x_def screen_size_y_def grid_fit_def)

text \<open>A change of the grid.\<close>

lemma set_grid_fit:
  assumes "screen_fit B t s" "grid_kept B t (s_grid s) (gd, t')"
  shows "screen_fit B t' (s\<lparr>s_grid := gd\<rparr>)"
proof (rule screen_fitI)
  note d = screen_fitD [OF assms(1)]
  have k: "grid_fit B t' gd" "table_le t t'" "same_grid (s_grid s) gd" using assms(2) by (simp_all add: grid_kept_def)
  show "saved_fit B t' (s_grid (s\<lparr>s_grid := gd\<rparr>)) saved \<and> (s_saved_history (s\<lparr>s_grid := gd\<rparr>) \<longrightarrow> 0 < hlimit (s_grid (s\<lparr>s_grid := gd\<rparr>)))"
    if "s_saved_grid (s\<lparr>s_grid := gd\<rparr>) = Some saved" for saved
    using that saved_mono [OF d(7) k(2) fit_table [OF k(1)] k(3)] d(8) k(3) by (auto simp: same_grid_def)
qed (use assms screen_fitD [OF assms(1)] in \<open>auto simp: grid_kept_def same_grid_def\<close>)

section \<open>Resizing to the same size\<close>

definition fresh_list :: "screen \<Rightarrow> screen" where
  "fresh_list s = (if s_write_list s \<noteq> None then screen_write_make_list s else s)"

lemma resize_same:
  assumes "0 < screen_size_x s" "0 < screen_size_y s"
  shows "screen_resize t s (screen_size_x s) (screen_size_y s) reflow = Some (fresh_list s, t)"
  using assms by (simp add: screen_resize_def screen_resize_cursor_def screen_hsize_def fresh_list_def Let_def)

section \<open>The alternate screen\<close>

lemma create_fit:
  assumes "grid_fit B t gd"
  shows "grid_fit B t (grid_create (g_sx gd) (g_sy gd) 0)"
  using assms create_ok [of t "g_sx gd" "g_sy gd" 0] by (simp add: grid_fit_def grid_create_def)

text \<open>The copy of the visible lines.\<close>

lemma saved_copy:
  assumes "grid_fit B t gd"
  defines "saved \<equiv> grid_duplicate_lines (grid_create (g_sx gd) (g_sy gd) 0) 0 gd (hsize gd) (g_sy gd)"
  shows "saved_fit B t gd saved" "y < g_sy gd \<Longrightarrow> view t saved x y = view t gd x (hsize gd + y)"
proof -
  let ?c = "grid_create (g_sx gd) (g_sy gd) 0"
  have c: "grid_ok t ?c" "grid_ok t gd" "hsize ?c = 0" "g_sy ?c = g_sy gd" "g_sx ?c = g_sx gd" "hlimit ?c = 0" "\<not> g_history ?c"
    using create_ok [of t "g_sx gd" "g_sy gd" 0] assms(1) by (simp_all add: grid_fit_def grid_create_def)
  have l: "0 + g_sy gd \<le> hsize ?c + g_sy ?c" "hsize gd + g_sy gd \<le> hsize gd + g_sy gd" using c by simp_all
  note d = duplicate_lines_spec [OF c(1,2) l, folded saved_def]
  show "saved_fit B t gd saved"
    using d(1,2) c assms(1) by (simp add: saved_fit_def grid_fit_def same_size_def saved_def)
  show "view t saved x y = view t gd x (hsize gd + y)" if "y < g_sy gd" using d(3) that by (simp add: add.commute)
qed

lemma history_off_fit: "grid_fit B t gd \<Longrightarrow> grid_fit B t (gd\<lparr>g_history := False\<rparr>)"
  by (simp add: grid_fit_def grid_ok_def)

lemma alternate_on_spec:
  assumes "screen_fit B t s" "s_saved_grid s = None"
  shows "\<exists>s' t' saved. screen_alternate_on t s gc cursor = Some (s', t') \<and> screen_fit B t' s' \<and> table_le t t' \<and> s_saved_grid s' = Some saved \<and>
    s_saved_history s' = g_history (s_grid s) \<and> g_history (s_grid s') = False \<and> s_saved_cell s' = gc \<and>
    (cursor \<longrightarrow> s_saved_cx s' = s_cx s \<and> s_saved_cy s' = s_cy s) \<and>
    (\<forall>x y. y < screen_size_y s \<longrightarrow> view t' saved x y = screen t (s_grid s) x y) \<and> same_grid (s_grid s) ((s_grid s')\<lparr>g_history := g_history (s_grid s)\<rparr>)"
proof -
  note d = screen_fitD [OF assms(1)]
  let ?gd = "s_grid s"
  let ?saved = "grid_duplicate_lines (grid_create (g_sx ?gd) (g_sy ?gd) 0) 0 ?gd (hsize ?gd) (g_sy ?gd)"
  note c = saved_copy [OF d(1)]
  obtain gd t' where v: "grid_view_clear t ?gd 0 0 (g_sx ?gd) (g_sy ?gd) 8 = Some (gd, t')" "grid_kept B t ?gd (gd, t')"
    using view_clear_keeps [OF d(1), of 8 0 0 "g_sx ?gd" "g_sy ?gd"] by (auto simp: keeps_def)
  then have k: "grid_fit B t' gd" "table_le t t'" "same_grid ?gd gd" by (simp_all add: grid_kept_def)
  define s1 where "s1 = (if cursor then s\<lparr>s_saved_grid := Some ?saved, s_saved_cx := s_cx s, s_saved_cy := s_cy s\<rparr> else s\<lparr>s_saved_grid := Some ?saved\<rparr>)"
  define s' where "s' = s1\<lparr>s_saved_cell := gc, s_saved_history := g_history gd, s_grid := gd\<lparr>g_history := False\<rparr>\<rparr>"
  have e: "screen_alternate_on t s gc cursor = Some (s', t')"
    using assms(2) v(1) by (simp add: screen_alternate_on_def screen_size_x_def screen_size_y_def screen_hsize_def s'_def s1_def Let_def)
  have f: "saved_fit B t' gd ?saved" using saved_mono [OF c(1) k(2) fit_table [OF k(1)] k(3)] .
  have "screen_fit B t' s'"
  proof (rule screen_fitI)
    show "grid_fit B t' (s_grid s')" using history_off_fit [OF k(1)] by (simp add: s'_def)
    show "saved_fit B t' (s_grid s') saved \<and> (s_saved_history s' \<longrightarrow> 0 < hlimit (s_grid s'))" if "s_saved_grid s' = Some saved" for saved
      using that f k(1) by (auto simp: s'_def s1_def saved_fit_def grid_fit_def split: if_splits)
  qed (use d k(3) in \<open>auto simp: s'_def s1_def same_grid_def split: if_splits\<close>)
  moreover have "view t' ?saved x y = screen t ?gd x y" if "y < screen_size_y s" for x y
    using fit_view_mono [OF _ k(2), of B ?saved x y] c(1) c(2) [of y x] that by (simp add: saved_fit_def screen_def screen_size_y_def)
  ultimately show ?thesis using e k(2,3)
    by (intro exI [of _ s'] exI [of _ t'] exI [of _ ?saved]) (simp add: s'_def s1_def same_grid_def)
qed

lemma clamp_fields [simp]:
  "s_grid (clamp_cursor s) = s_grid s" "s_saved_grid (clamp_cursor s) = s_saved_grid s" "s_rupper (clamp_cursor s) = s_rupper s"
  "s_rlower (clamp_cursor s) = s_rlower s" "s_tabs (clamp_cursor s) = s_tabs s" "s_write_list (clamp_cursor s) = s_write_list s"
  "s_cx (clamp_cursor s) = min (s_cx s) (screen_size_x s - 1)" "s_cy (clamp_cursor s) = min (s_cy s) (screen_size_y s - 1)"
  "s_mode (clamp_cursor s) = s_mode s" "s_saved_history (clamp_cursor s) = s_saved_history s" "s_sel (clamp_cursor s) = s_sel s"
  by (auto simp: clamp_cursor_def screen_size_x_def screen_size_y_def)

lemma clamp_fit: "screen_fit B t (s\<lparr>s_cx := 0, s_cy := 0\<rparr>) \<Longrightarrow> screen_fit B t (clamp_cursor s)"
  by (auto simp: screen_fit_def screen_size_x_def screen_size_y_def)

lemma fresh_list_fields [simp]:
  "s_grid (fresh_list s) = s_grid s" "s_cx (fresh_list s) = s_cx s" "s_cy (fresh_list s) = s_cy s" "s_rupper (fresh_list s) = s_rupper s"
  "s_rlower (fresh_list s) = s_rlower s" "s_mode (fresh_list s) = s_mode s" "s_saved_grid (fresh_list s) = s_saved_grid s"
  "s_saved_cx (fresh_list s) = s_saved_cx s" "s_saved_cy (fresh_list s) = s_saved_cy s" "s_saved_cell (fresh_list s) = s_saved_cell s"
  "s_saved_history (fresh_list s) = s_saved_history s" "s_tabs (fresh_list s) = s_tabs s" "s_sel (fresh_list s) = s_sel s"
  "s_write_list (fresh_list s) = (if s_write_list s = None then None else Some (replicate (screen_size_y s) empty_cline))"
  by (auto simp: fresh_list_def screen_write_make_list_def)

text \<open>The cursor and the cell that the alternate screen leaves behind.\<close>

definition restored_cursor :: "bool \<Rightarrow> screen \<Rightarrow> nat \<times> nat" where
  "restored_cursor cursor s =
     (if cursor \<and> s_saved_cx s \<noteq> u32_max \<and> s_saved_cy s \<noteq> u32_max then (s_saved_cx s, s_saved_cy s) else (s_cx s, s_cy s))"

definition restored_cell :: "bool \<Rightarrow> screen \<Rightarrow> grid_cell option \<Rightarrow> grid_cell option" where
  "restored_cell cursor s gc =
     (if cursor \<and> s_saved_cx s \<noteq> u32_max \<and> s_saved_cy s \<noteq> u32_max then map_option (\<lambda>_. s_saved_cell s) gc else gc)"

text \<open>The grid after the copy back.\<close>

definition restored_grid :: "screen \<Rightarrow> grid" where
  "restored_grid s =
     (case s_saved_grid s of
        None \<Rightarrow> s_grid s
      | Some saved \<Rightarrow>
          (let gd = grid_duplicate_lines (s_grid s) (hsize (s_grid s)) saved 0 (g_sy saved)
           in if s_saved_history s then gd\<lparr>g_history := True\<rparr> else gd))"

lemma restored_size [simp]:
  "g_sx (restored_grid s) = g_sx (s_grid s)" "g_sy (restored_grid s) = g_sy (s_grid s)" "hsize (restored_grid s) = hsize (s_grid s)"
  if "screen_fit B t s"
proof -
  have "same_size (s_grid s) (restored_grid s)"
  proof (cases "s_saved_grid s")
    case (Some saved)
    note d = screen_fitD [OF that]
    have f: "grid_ok t (s_grid s)" "grid_ok t saved" "g_sy saved = g_sy (s_grid s)"
      using d(1) d(7) [OF Some] by (simp_all add: grid_fit_def saved_fit_def)
    then show ?thesis using duplicate_lines_spec(2) [OF f(1,2), of "hsize (s_grid s)" "g_sy saved" 0] Some
      by (auto simp: restored_grid_def same_size_def Let_def)
  qed (simp add: restored_grid_def)
  then show "g_sx (restored_grid s) = g_sx (s_grid s)" "g_sy (restored_grid s) = g_sy (s_grid s)"
    "hsize (restored_grid s) = hsize (s_grid s)" by (simp_all add: same_size_def)
qed

lemma restored_grid_spec:
  assumes "screen_fit B t s" "s_saved_grid s = Some saved"
  shows "grid_fit B t (restored_grid s)" "same_grid ((s_grid s)\<lparr>g_history := g_history (restored_grid s)\<rparr>) (restored_grid s)"
    "g_history (restored_grid s) = (s_saved_history s \<or> g_history (s_grid s))"
    "view t (restored_grid s) x y = (if hsize (s_grid s) \<le> y then view t saved x (y - hsize (s_grid s)) else view t (s_grid s) x y)"
proof -
  note d = screen_fitD [OF assms(1)]
  let ?gd = "s_grid s"
  have f: "grid_ok t ?gd" "grid_ok t saved" "g_sy saved = g_sy ?gd" "hsize saved = 0"
    using d(1) d(7) [OF assms(2)] by (simp_all add: grid_fit_def saved_fit_def)
  let ?d = "grid_duplicate_lines ?gd (hsize ?gd) saved 0 (g_sy saved)"
  have r: "restored_grid s = (if s_saved_history s then ?d\<lparr>g_history := True\<rparr> else ?d)"
    using assms(2) by (simp add: restored_grid_def Let_def)
  have l: "hsize ?gd + g_sy saved \<le> hsize ?gd + g_sy ?gd" "0 + g_sy saved \<le> hsize saved + g_sy saved" using f by simp_all
  note dup = duplicate_lines_spec [OF f(1,2) l]
  show "g_history (restored_grid s) = (s_saved_history s \<or> g_history (s_grid s))" by (simp add: r)
  have "same_size ?gd ?d" by (rule dup(2))
  then show "grid_fit B t (restored_grid s)" "same_grid ((s_grid s)\<lparr>g_history := g_history (restored_grid s)\<rparr>) (restored_grid s)"
    using d(1) d(8) [OF assms(2)] dup(1) by (auto simp: r grid_fit_def grid_ok_def same_size_def same_grid_def)
  have v: "view t (restored_grid s) x y = view t ?d x y" by (simp add: r view_line)
  show "view t (restored_grid s) x y = (if hsize ?gd \<le> y then view t saved x (y - hsize ?gd) else view t ?gd x y)"
    unfolding v dup(3) using f(3,4) by (auto simp: view_line)
qed

lemma alternate_off_spec:
  assumes "screen_fit B t s"
  shows "\<exists>s'. screen_alternate_off t s gc cursor = Some (s', t, restored_cell cursor s gc) \<and> screen_fit B t s' \<and> s_saved_grid s' = None \<and>
    s_grid s' = restored_grid s \<and>
    s_cx s' = min (fst (restored_cursor cursor s)) (screen_size_x s - 1) \<and> s_cy s' = min (snd (restored_cursor cursor s)) (screen_size_y s - 1) \<and>
    s_rupper s' = s_rupper s \<and> s_rlower s' = s_rlower s \<and> s_mode s' = s_mode s \<and> s_sel s' = s_sel s \<and>
    s_write_list s' = (if s_saved_grid s = None then s_write_list s else s_write_list (fresh_list s))"
proof -
  note d = screen_fitD [OF assms(1)]
  have p: "0 < screen_size_x s" "0 < screen_size_y s" using d(10,11) by (simp_all add: screen_size_x_def screen_size_y_def)
  define s2 :: "screen \<Rightarrow> screen" where "s2 = (\<lambda>s1. if cursor \<and> s_saved_cx s1 \<noteq> u32_max \<and> s_saved_cy s1 \<noteq> u32_max
                      then s1\<lparr>s_cx := s_saved_cx s1, s_cy := s_saved_cy s1\<rparr> else s1)"
  have s2: "s_grid (s2 s1) = s_grid s1" "s_saved_grid (s2 s1) = s_saved_grid s1" "s_cx (s2 s1) = fst (restored_cursor cursor s1)" "s_cy (s2 s1) = snd (restored_cursor cursor s1)"
    "s_saved_history (s2 s1) = s_saved_history s1" "s_rupper (s2 s1) = s_rupper s1" "s_rlower (s2 s1) = s_rlower s1" "s_mode (s2 s1) = s_mode s1"
    "s_sel (s2 s1) = s_sel s1" "s_tabs (s2 s1) = s_tabs s1" "s_write_list (s2 s1) = s_write_list s1" for s1
    by (simp_all add: s2_def restored_cursor_def)
  show ?thesis
  proof (cases "s_saved_grid s")
    case None
    have e: "screen_alternate_off t s gc cursor = Some (clamp_cursor (s2 s), t, restored_cell cursor s gc)"
      using None by (simp add: screen_alternate_off_def s2_def restored_cell_def Let_def)
    have "screen_fit B t (clamp_cursor (s2 s))"
      by (rule clamp_fit, rule screen_fitI) (use d None s2 in simp_all)
    then show ?thesis using e None s2 [of s]
      by (auto simp: restored_grid_def screen_size_x_def screen_size_y_def intro!: exI [of _ "clamp_cursor (s2 s)"])
  next
    case (Some saved)
    have sz: "g_sx saved = screen_size_x s" "g_sy saved = screen_size_y s"
      using d(7) [OF Some] by (simp_all add: saved_fit_def screen_size_x_def screen_size_y_def)
    let ?s1 = "fresh_list s"
    define s3 where "s3 = (s2 ?s1)\<lparr>s_grid := restored_grid s\<rparr>"
    note r = restored_grid_spec [OF assms Some]
    have z: "screen_size_x s3 = screen_size_x s" "screen_size_y s3 = screen_size_y s"
      using restored_size [OF assms] by (simp_all add: s3_def screen_size_x_def screen_size_y_def)
    let ?s' = "clamp_cursor ((fresh_list s3)\<lparr>s_saved_grid := None\<rparr>)"
    have rc: "restored_cell cursor ?s1 gc = restored_cell cursor s gc" "restored_cursor cursor ?s1 = restored_cursor cursor s"
      by (simp_all add: restored_cell_def restored_cursor_def)
    have rg: "(if s_saved_history (s2 ?s1) then (grid_duplicate_lines (s_grid (s2 ?s1)) (screen_hsize (s2 ?s1)) saved 0 (g_sy saved))\<lparr>g_history := True\<rparr>
         else grid_duplicate_lines (s_grid (s2 ?s1)) (screen_hsize (s2 ?s1)) saved 0 (g_sy saved)) = restored_grid s"
      using Some by (simp add: restored_grid_def screen_hsize_def s2 Let_def)
    have rs: "screen_resize t s (g_sx saved) (g_sy saved) False = Some (?s1, t)" using resize_same [OF p] sz by simp
    have rs3: "screen_resize t s3 (screen_size_x s) (screen_size_y s) True = Some (fresh_list s3, t)"
      using resize_same [of s3] p z by simp
    have pr: "(if cursor \<and> s_saved_cx ?s1 \<noteq> u32_max \<and> s_saved_cy ?s1 \<noteq> u32_max
        then (?s1\<lparr>s_cx := s_saved_cx ?s1, s_cy := s_saved_cy ?s1\<rparr>, map_option (\<lambda>_. s_saved_cell ?s1) gc) else (?s1, gc)) =
        (s2 ?s1, restored_cell cursor ?s1 gc)"
      by (simp add: s2_def restored_cell_def)
    have sv: "s_saved_grid (s2 ?s1) = Some saved" using Some s2(2) [of ?s1] by simp
    have e: "screen_alternate_off t s gc cursor = Some (?s', t, restored_cell cursor s gc)"
      by (simp only: screen_alternate_off_def Let_def Some option.case rs Option.bind.bind_lunit prod.case pr sv rg s3_def [symmetric] rs3 rc)
    have "screen_fit B t ?s'"
      by (rule clamp_fit, rule screen_fitI) (use d s2 [of ?s1] r(1) restored_size [OF assms] z in
        \<open>auto simp: s3_def screen_size_x_def screen_size_y_def split: if_splits\<close>)
    moreover have "s_cx s3 = fst (restored_cursor cursor s)" "s_cy s3 = snd (restored_cursor cursor s)"
      using s2(3,4) [of ?s1] rc(2) by (simp_all add: s3_def)
    ultimately show ?thesis using e s2 [of ?s1] z
      by (intro exI [of _ ?s']) (simp add: Some s3_def screen_size_x_def screen_size_y_def)
  qed
qed

section \<open>A new screen\<close>

lemma reset_tabs_length: "screen_size_x s \<le> length (s_tabs (screen_reset_tabs s))"
proof -
  have "length (fold (\<lambda>i tabs. if i mod 8 = 0 then tabs[i := True] else tabs) xs tabs) = length tabs" for xs and tabs :: "bool list"
    by (induction xs arbitrary: tabs) simp_all
  then show ?thesis by (simp add: screen_reset_tabs_def bitstr_def)
qed

lemma clear_lines_keeps:
  assumes "grid_fit B t gd"
  shows "keeps (grid_kept B t gd) (grid_clear_lines t gd (hsize gd) (g_sy gd) 8)"
  using clear_keeps [OF assms, of 8 0 "hsize gd" "g_sx gd" "g_sy gd"] assms by (simp add: grid_clear_def grid_fit_def)

lemma fold_blank:
  "same_size gd (fold (\<lambda>y g. set_line g y zeroed_line) ys gd) \<and> hscrolled (fold (\<lambda>y g. set_line g y zeroed_line) ys gd) = hscrolled gd \<and>
   (z < length (linedata gd) \<longrightarrow> linedata (fold (\<lambda>y g. set_line g y zeroed_line) ys gd) ! z =
     (if z \<in> set ys then zeroed_line else linedata gd ! z))"
proof (induction ys arbitrary: gd)
  case (Cons y ys)
  have "same_size gd (set_line gd y zeroed_line)" by simp
  then show ?case using Cons.IH [of "set_line gd y zeroed_line"] same_size_trans by (auto simp: nth_list_update same_size_def)
qed simp

lemma empty_lines_default: "empty_lines t gd ys 8 = Some (fold (\<lambda>y g. set_line g y zeroed_line) ys gd, t)"
  by (induction ys arbitrary: gd) (simp_all add: grid_empty_line_def COLOUR_DEFAULT_def i32_colour)

lemma clear_lines_default:
  assumes "grid_clear_lines t gd py ny 8 = Some (gd', t')"
  shows "t' = t \<and> hscrolled gd' = hscrolled gd \<and> hsize gd' = hsize gd"
  using assms fold_blank [of gd] by (auto simp: grid_clear_lines_def empty_lines_default same_size_def split: if_splits)

lemma screen_init_fit:
  assumes "utf8_table_ok t" "0 < sx" "sx < 1073741824" "0 < sy" "sy < 1073741824" "limit \<le> B" "B + sy < 4294967295"
  shows "\<exists>s. screen_init extended_keys t sx sy limit = Some (s, t) \<and> screen_fit B t s \<and> s_saved_grid s = None \<and>
    g_history (s_grid s) = (limit \<noteq> 0) \<and> hscrolled (s_grid s) = 0 \<and> screen_hsize s = 0 \<and> screen_size_x s = sx \<and> screen_size_y s = sy \<and>
    s_cx s = 0 \<and> s_cy s = 0 \<and> s_sel s = None \<and> MODE_WRAP \<in> s_mode s \<and> MODE_INSERT \<notin> s_mode s \<and> s_write_list s = None"
proof -
  define g where "g = grid_create sx sy limit"
  have gf: "grid_fit B t g" using assms create_ok [of t sx sy limit] by (simp add: grid_fit_def grid_create_def g_def)
  have z: "hsize g = 0" "g_sy g = sy" "g_sx g = sx" "hscrolled g = 0" "g_history g = (limit \<noteq> 0)" by (simp_all add: g_def grid_create_def)
  obtain gd t' where c0: "grid_clear_lines t g (hsize g) (g_sy g) 8 = Some (gd, t')" "grid_kept B t g (gd, t')"
    using clear_lines_keeps [OF gf] by (auto simp: keeps_def)
  then have c: "grid_clear_lines t g 0 sy 8 = Some (gd, t)" "grid_fit B t gd" "same_grid g gd" "hscrolled gd = 0" "hsize gd = 0"
    using clear_lines_default [OF c0(1)] z by (simp_all add: grid_kept_def)
  define s0 where "s0 = \<lparr>s_title = '''', s_path = None, s_titles = [], s_grid = g, s_cx = 0, s_cy = 0,
        s_cstyle = SCREEN_CURSOR_DEFAULT, s_default_cstyle = SCREEN_CURSOR_DEFAULT, s_ccolour = - 1, s_default_ccolour = - 1,
        s_rupper = 0, s_rlower = sy - 1, s_mode = (if extended_keys = 2 then {MODE_CURSOR, MODE_WRAP} - EXTENDED_KEY_MODES \<union> {MODE_KEYS_EXTENDED}
           else {MODE_CURSOR, MODE_WRAP}), s_default_mode = {}, s_saved_cx = u32_max, s_saved_cy = u32_max,
        s_saved_grid = None, s_saved_cell = GRID_DEFAULT_CELL, s_saved_history = False, s_tabs = [], s_sel = None,
        s_write_list = None, s_progress = (PROGRESS_BAR_HIDDEN, 0)\<rparr>"
  define s where "s = screen_set_progress_bar (screen_free_titles (screen_clear_selection ((screen_reset_tabs s0)\<lparr>s_grid := gd\<rparr>))) PROGRESS_BAR_HIDDEN 0"
  have tabs: "sx \<le> length (s_tabs s)"
    using reset_tabs_length [of s0] z by (simp add: s_def s0_def screen_set_progress_bar_def screen_free_titles_def screen_clear_selection_def
      screen_size_x_def)
  have f: "s_grid s = gd" "s_cx s = 0" "s_cy s = 0" "s_rupper s = 0" "s_rlower s = sy - 1" "s_saved_grid s = None" "s_write_list s = None"
    "s_sel s = None" "s_mode s = s_mode s0"
    by (simp_all add: s_def s0_def screen_set_progress_bar_def screen_free_titles_def screen_clear_selection_def screen_reset_tabs_def)
  have e: "screen_init extended_keys t sx sy limit = Some (s, t)"
    using c(1) z by (simp add: screen_init_def screen_reinit_def screen_size_y_def g_def [symmetric] s_def s0_def Let_def screen_reset_tabs_def
      screen_set_progress_bar_def screen_free_titles_def screen_clear_selection_def screen_size_x_def)
  have "screen_fit B t s"
    by (rule screen_fitI) (use f c z tabs assms in \<open>simp_all add: same_grid_def\<close>)
  moreover have "MODE_WRAP \<in> s_mode s" "MODE_INSERT \<notin> s_mode s" by (simp_all add: f(9) s0_def EXTENDED_KEY_MODES_def)
  ultimately show ?thesis using e f c z by (intro exI [of _ s]) (simp add: same_grid_def screen_hsize_def screen_size_x_def screen_size_y_def)
qed

end
