(* ===== verification/Screen_Resize.thy ===== *)
theory Screen_Resize
  imports Screen_Sound
begin

text \<open>
  Changing the height of a screen with history: what happens to the lines and to the cursor.
\<close>

section \<open>Lines kept and added\<close>

text \<open>Taking the first lines of a grid, as history and screen.\<close>

lemma fewer_lines:
  fixes h n k :: nat
  assumes "grid_ok t g" "h + n \<le> hsize g + g_sy g"
  defines "f \<equiv> (grid_adjust_lines (g\<lparr>hscrolled := k, hsize := h\<rparr>) (h + n))\<lparr>g_sy := n\<rparr>"
  shows "grid_ok t f" "hsize f = h" "g_sy f = n" "g_sx f = g_sx g" "y < h + n \<Longrightarrow> view t f x y = view t g x y"
proof -
  have len: "length (linedata f) = h + n"
    using assms(1,2) by (simp add: f_def grid_adjust_lines_def reallocarray_def grid_ok_def)
  have l: "linedata f ! z = linedata g ! z" if "z < h + n" for z
    using assms(1,2) that by (auto simp: f_def grid_adjust_lines_def reallocarray_def grid_ok_def nth_append)
  show s: "hsize f = h" "g_sy f = n" "g_sx f = g_sx g" by (simp_all add: f_def grid_adjust_lines_def)
  show "grid_ok t f" using assms(1,2) l s len by (auto simp: grid_ok_def)
  show "view t f x y = view t g x y" if "y < h + n" using that l [OF that] s assms(2) by (simp add: view_line)
qed

text \<open>Pulling \<open>a\<close> lines out of the history and adding blank ones below.\<close>

lemma more_lines:
  fixes a n k :: nat
  assumes "grid_ok t g" "a \<le> hsize g" "a \<le> n - g_sy g" "g_sy g \<le> n"
  defines "f \<equiv> (fold (\<lambda>y g. set_line g y zeroed_line) [hsize g + g_sy g..<hsize g - a + n]
      ((grid_adjust_lines g (hsize g + n))\<lparr>hscrolled := k, hsize := hsize g - a\<rparr>))\<lparr>g_sy := n\<rparr>"
  shows "grid_ok t f" "hsize f = hsize g - a" "g_sy f = n" "g_sx f = g_sx g" "view t f x y = view t g x y"
proof -
  let ?g = "(grid_adjust_lines g (hsize g + n))\<lparr>hscrolled := k, hsize := hsize g - a\<rparr>"
  have b: "hsize g + g_sy g \<le> length (linedata g)" using assms(1) by (simp add: grid_ok_def)
  have l: "length (linedata ?g) = hsize g + n" by (simp add: grid_adjust_lines_def reallocarray_def)
  note fb = fold_blank [of ?g "[hsize g + g_sy g..<hsize g - a + n]"]
  show s: "hsize f = hsize g - a" "g_sy f = n" "g_sx f = g_sx g"
    using fb by (simp_all add: f_def same_size_def grid_adjust_lines_def)
  have e: "linedata f ! z = (if z < hsize g + g_sy g then linedata g ! z else zeroed_line)" if "z < hsize f + g_sy f" for z
  proof -
    have z: "z < hsize g + n" "z < hsize g - a + n" using that s assms(2) by simp_all
    have "linedata f ! z = (if z \<in> set [hsize g + g_sy g..<hsize g - a + n] then zeroed_line else linedata ?g ! z)"
      using fb [of z] l z(1) by (simp add: f_def)
    moreover have "linedata ?g ! z = linedata g ! z" if "z < hsize g + g_sy g"
      using that z(1) b by (simp add: grid_adjust_lines_def reallocarray_def nth_append)
    ultimately show ?thesis using z(2) by auto
  qed
  have len: "length (linedata f) = hsize g + n" using fb l by (simp add: f_def same_size_def)
  show "grid_ok t f" using assms(1,2) s len e by (auto simp: grid_ok_def)
  have "hsize g + g_sy g \<le> hsize f + g_sy f" using s assms(2-4) by linarith
  then show "view t f x y = view t g x y" using e [of y] by (auto simp: view_line)
qed

text \<open>Lines that are deleted from the bottom become blank.\<close>

lemma delete_bottom:
  assumes "grid_fit B t gd" "n \<le> g_sy gd"
  shows "\<exists>g. grid_view_delete_lines t gd (g_sy gd - n) n 8 = Some (g, t) \<and> grid_ok t g \<and> same_size gd g \<and> g_history g = g_history gd \<and>
    (\<forall>x y. x < g_sx gd \<longrightarrow> y < hsize gd + g_sy gd - n \<longrightarrow> view t g x y = view t gd x y)"
proof -
  have ok: "grid_ok t gd" "hsize gd + g_sy gd < 4294967296" using assms(1) by (simp_all add: grid_fit_def)
  have m: "grid_move_lines t gd (hsize gd + (g_sy gd - n)) (hsize gd + (g_sy gd - n) + n) 0 8 = Some (gd, t)"
    by (simp add: grid_move_lines_def)
  have "hsize gd + g_sy gd - n + n \<le> hsize gd + g_sy gd" using assms(2) by simp
  from clear_spec [OF ok(1) _ _ this, of 8 0 "g_sx gd"] obtain g where
    g: "grid_clear t gd 0 (hsize gd + g_sy gd - n) (g_sx gd) n 8 = Some (g, t)" "grid_ok t g" "same_size gd g" "\<And>x y. x < g_sx gd \<Longrightarrow>
       view t g x y = (if hsize gd + g_sy gd - n \<le> y \<and> y < hsize gd + g_sy gd - n + n \<and> 0 \<le> x \<and> x < 0 + g_sx gd then Some (blank 8) else view t gd x y)"
    by auto
  have "grid_view_delete_lines t gd (g_sy gd - n) n 8 = Some (g, t)"
    using m g(1) assms(2) ok(2) by (simp add: grid_view_delete_lines_def grid_view_y_def Let_def)
  then show ?thesis using g clear_flag [OF g(1)] by (intro exI [of _ g]) simp
qed

section \<open>The height of a screen with history\<close>

definition kept_history :: "nat \<Rightarrow> screen \<Rightarrow> nat" where
  "kept_history sy s =
     (let oldy = screen_size_y s; h = screen_hsize s
      in if sy < oldy then h + (oldy - sy - min (oldy - 1 - s_cy s) (oldy - sy)) else h - min (hscrolled (s_grid s)) (sy - oldy))"

lemma shrink_spec:
  assumes "screen_fit B t s" "g_history (s_grid s)" "0 < sy" "sy < screen_size_y s"
  shows "\<exists>gd. screen_resize_y t s sy True cy0 = Some (s\<lparr>s_grid := gd, s_rupper := 0, s_rlower := sy - 1\<rparr>, t, cy0) \<and> grid_ok t gd \<and>
    hsize gd = kept_history sy s \<and> g_sy gd = sy \<and> g_sx gd = screen_size_x s \<and>
    (\<forall>x y. x < screen_size_x s \<longrightarrow> y \<le> screen_hsize s + s_cy s \<longrightarrow> view t gd x y = view t (s_grid s) x y)"
proof -
  note d = screen_fitD [OF assms(1)]
  let ?gd = "s_grid s" and ?oldy = "screen_size_y s"
  have o: "g_sy ?gd = ?oldy" "g_sx ?gd = screen_size_x s" "hsize ?gd = screen_hsize s"
    by (simp_all add: screen_size_y_def screen_size_x_def screen_hsize_def)
  define a where "a = ?oldy - 1 - s_cy s"
  define n where "n = min a (?oldy - sy)"
  have sub: "sub32 (?oldy - 1) (s_cy s) = a" using d(3,13) o by (simp add: a_def)
  have n: "n \<le> g_sy ?gd" "(if a > ?oldy - sy then ?oldy - sy else a) = n" using o by (auto simp: n_def)
  have db: "delete_below t s (?oldy - sy) True = (if a > 0 then do {
      (gd, t') \<leftarrow> grid_view_delete_lines t ?gd (?oldy - n) n 8; Some (gd, t', ?oldy - sy - n) } else Some (?gd, t, ?oldy - sy))"
    unfolding delete_below_def Let_def sub n(2) by simp
  have "\<exists>g. delete_below t s (?oldy - sy) True = Some (g, t, ?oldy - sy - n) \<and>
      grid_ok t g \<and> same_size ?gd g \<and> g_history g = g_history ?gd \<and>
      (\<forall>x y. x < g_sx ?gd \<longrightarrow> y < hsize ?gd + g_sy ?gd - n \<longrightarrow> view t g x y = view t ?gd x y)"
  proof (cases "a > 0")
    case True
    obtain g where g: "grid_view_delete_lines t ?gd (?oldy - n) n 8 = Some (g, t)" "grid_ok t g" "same_size ?gd g" "g_history g = g_history ?gd"
      "\<forall>x y. x < g_sx ?gd \<longrightarrow> y < hsize ?gd + g_sy ?gd - n \<longrightarrow> view t g x y = view t ?gd x y"
      using delete_bottom [OF d(1) n(1)] unfolding o(1) by blast
    have "delete_below t s (?oldy - sy) True = Some (g, t, ?oldy - sy - n)" unfolding db using True g(1) by simp
    then show ?thesis using g by blast
  next
    case False
    then have "n = 0" by (simp add: n_def)
    then show ?thesis using False d(1) unfolding db by (simp add: grid_fit_def)
  qed
  then obtain g where g: "delete_below t s (?oldy - sy) True = Some (g, t, ?oldy - sy - n)"
      "grid_ok t g" "same_size ?gd g" "g_history g" "\<And>x y. x < g_sx ?gd \<Longrightarrow> y < hsize ?gd + g_sy ?gd - n \<Longrightarrow> view t g x y = view t ?gd x y"
    using assms(2) by blast
  let ?h = "hsize g + (?oldy - sy - n)"
  have b: "?h + sy \<le> hsize g + g_sy g" "?h = kept_history sy s" "hsize ?gd + s_cy s < ?h + sy" "?h + sy = hsize ?gd + g_sy ?gd - n"
    using g(3) assms(4) o d(3) by (auto simp: same_size_def kept_history_def n_def a_def Let_def)
  note f = fewer_lines [where k = "hscrolled g + (?oldy - sy - n)", OF g(2) b(1)]
  let ?f = "(grid_adjust_lines (g\<lparr>hscrolled := hscrolled g + (?oldy - sy - n), hsize := ?h\<rparr>) (?h + sy))\<lparr>g_sy := sy\<rparr>"
  have e: "screen_resize_y t s sy True cy0 = Some (s\<lparr>s_grid := ?f, s_rupper := 0, s_rlower := sy - 1\<rparr>, t, cy0)"
    using assms(3,4) g(1,4) by (simp add: screen_resize_y_def shrink_lines_def Let_def)
  have "view t ?f x y = view t ?gd x y" if "x < screen_size_x s" "y \<le> screen_hsize s + s_cy s" for x y
    using f(5) [where x = x and y = y] g(5) [of x y] that o b(3,4) by simp
  then show ?thesis using e f(1-4) b(2) g(3) o by (intro exI [of _ ?f]) (simp add: same_size_def)
qed

lemma grow_spec:
  assumes "screen_fit B t s" "g_history (s_grid s)" "screen_size_y s < sy" "hscrolled (s_grid s) \<le> screen_hsize s"
  shows "\<exists>gd. screen_resize_y t s sy True cy0 = Some (s\<lparr>s_grid := gd, s_rupper := 0, s_rlower := sy - 1\<rparr>, t, cy0) \<and> grid_ok t gd \<and>
    hsize gd = kept_history sy s \<and> g_sy gd = sy \<and> g_sx gd = screen_size_x s \<and> (\<forall>x y. view t gd x y = view t (s_grid s) x y)"
proof -
  note d = screen_fitD [OF assms(1)]
  let ?gd = "s_grid s" and ?oldy = "screen_size_y s"
  have o: "g_sy ?gd = ?oldy" "g_sx ?gd = screen_size_x s" "hsize ?gd = screen_hsize s"
    by (simp_all add: screen_size_y_def screen_size_x_def screen_hsize_def)
  define a where "a = min (hscrolled ?gd) (sy - ?oldy)"
  have av: "(if hscrolled ?gd > 0 then (if hscrolled ?gd > sy - ?oldy then sy - ?oldy else hscrolled ?gd) else 0) = a"
    by (auto simp: a_def)
  have ok: "grid_ok t ?gd" using d(1) by (simp add: grid_fit_def)
  have b: "a \<le> hsize ?gd" "a \<le> sy - g_sy ?gd" "g_sy ?gd \<le> sy" "hsize ?gd - a + sy - (sy - ?oldy - a) = hsize ?gd + g_sy ?gd"
    using assms(3,4) o by (auto simp: a_def)
  note f = more_lines [where k = "hscrolled ?gd - a", OF ok b(1-3)]
  let ?f = "(fold (\<lambda>y g. set_line g y zeroed_line) [hsize ?gd + g_sy ?gd..<hsize ?gd - a + sy]
      ((grid_adjust_lines ?gd (hsize ?gd + sy))\<lparr>hscrolled := hscrolled ?gd - a, hsize := hsize ?gd - a\<rparr>))\<lparr>g_sy := sy\<rparr>"
  have adj: "g_history (grid_adjust_lines ?gd m)" "hscrolled (grid_adjust_lines ?gd m) = hscrolled ?gd"
    "hsize (grid_adjust_lines ?gd m) = hsize ?gd" for m using assms(2) by (simp_all add: grid_adjust_lines_def)
  let ?gd2 = "grid_adjust_lines ?gd (hsize ?gd + sy)"
  have av2: "(if g_history ?gd2 \<and> hscrolled ?gd2 > 0
      then (if hscrolled ?gd2 > sy - ?oldy then sy - ?oldy else hscrolled ?gd2) else 0) = a"
    using adj(1) by (simp only: adj(2) av simp_thms)
  have gl: "grow_lines t ?gd2 sy (sy - ?oldy) = Some (fold (\<lambda>y g. set_line g y zeroed_line) [hsize ?gd + g_sy ?gd..<hsize ?gd - a + sy]
      (?gd2\<lparr>hscrolled := hscrolled ?gd - a, hsize := hsize ?gd - a\<rparr>), t)"
    unfolding grow_lines_def Let_def av2 empty_lines_default using b(4) adj(2,3) by simp
  have e: "screen_resize_y t s sy True cy0 = Some (s\<lparr>s_grid := ?f, s_rupper := 0, s_rlower := sy - 1\<rparr>, t, cy0)"
    using assms(3) gl by (simp add: screen_resize_y_def Let_def)
  have k: "hsize ?gd - a = kept_history sy s" using assms(3) o by (simp add: kept_history_def a_def)
  have "grid_ok t ?f \<and> hsize ?f = kept_history sy s \<and> g_sy ?f = sy \<and> g_sx ?f = screen_size_x s"
    using f(1-4) unfolding k o(2) by blast
  moreover have "\<forall>x y. view t ?f x y = view t ?gd x y" using f(5) by blast
  ultimately show ?thesis using e by blast
qed

text \<open>Resizing a screen with history to another height moves lines between the screen and the history without
  changing any from the oldest line of the history down to that of the cursor, and when the screen grows
  without changing any at all; the cursor stays on its character, inside the screen.\<close>

theorem screen_resize_height:
  assumes "screen_fit B t s" "g_history (s_grid s)" "hscrolled (s_grid s) \<le> screen_hsize s" "0 < sy"
  shows "\<exists>s'. screen_resize t s (screen_size_x s) sy reflow = Some (s', t) \<and> screen_size_x s' = screen_size_x s \<and> screen_size_y s' = sy \<and>
    s_cx s' = s_cx s \<and> s_cy s' < sy \<and> screen_hsize s' + s_cy s' = screen_hsize s + s_cy s \<and>
    (\<forall>x y. x < screen_size_x s \<longrightarrow> y \<le> screen_hsize s + s_cy s \<or> screen_size_y s \<le> sy \<longrightarrow> view t (s_grid s') x y = view t (s_grid s) x y)"
proof -
  note d = screen_fitD [OF assms(1)]
  have sx: "\<not> screen_size_x s < 1" using d(10) by (simp add: screen_size_x_def)
  show ?thesis
  proof (cases "sy = screen_size_y s")
    case True
    then show ?thesis using resize_same [of s t reflow] d(3,10,11)
      by (intro exI [of _ "fresh_list s"]) (simp add: screen_size_x_def screen_size_y_def screen_hsize_def)
  next
    case False
    let ?cy = "screen_hsize s + s_cy s"
    obtain gd where gd: "screen_resize_y t s sy True ?cy = Some (s\<lparr>s_grid := gd, s_rupper := 0, s_rlower := sy - 1\<rparr>, t, ?cy)"
      "hsize gd = kept_history sy s" "g_sy gd = sy" "g_sx gd = screen_size_x s"
      "\<forall>x y. x < screen_size_x s \<longrightarrow> y \<le> ?cy \<or> screen_size_y s \<le> sy \<longrightarrow> view t gd x y = view t (s_grid s) x y"
    proof (cases "sy < screen_size_y s")
      case True
      then show ?thesis using shrink_spec [OF assms(1,2,4) True, of ?cy] that by auto
    next
      case less: False
      then have "screen_size_y s < sy" using False by simp
      from grow_spec [OF assms(1,2) this assms(3), of ?cy] show ?thesis using that by auto
    qed
    have h: "kept_history sy s \<le> ?cy" "?cy - kept_history sy s < sy"
      using d(3) assms(3,4) False by (auto simp: kept_history_def screen_size_y_def screen_hsize_def Let_def)
    let ?s4 = "s\<lparr>s_grid := gd, s_rupper := 0, s_rlower := sy - 1, s_cx := s_cx s, s_cy := ?cy - kept_history sy s\<rparr>"
    let ?s' = "if s_write_list s \<noteq> None then screen_write_make_list ?s4 else ?s4"
    have r: "screen_resize t s (screen_size_x s) sy reflow = Some (?s', t)"
      using sx assms(4) False gd(1,2) h(1) by (simp add: screen_resize_def screen_resize_cursor_def screen_hsize_def Let_def)
    have f: "s_grid ?s' = gd" "s_cx ?s' = s_cx s" "s_cy ?s' = ?cy - kept_history sy s"
      by (simp_all add: screen_write_make_list_def)
    show ?thesis
      by (rule exI [of _ ?s'], intro conjI)
        (use r f gd(2-5) h in \<open>simp_all add: screen_size_x_def screen_size_y_def screen_hsize_def\<close>)
  qed
qed

text \<open>A screen of 80 columns and 24 lines with a history of 100 lines.\<close>

definition example_screen :: screen where
  "example_screen = fst (the (screen_init 0 empty_table 80 24 100))"

lemma example_fit:
  "screen_fit 100 empty_table example_screen" "s_saved_grid example_screen = None" "g_history (s_grid example_screen)"
  "hscrolled (s_grid example_screen) = 0" "screen_size_x example_screen = 80" "screen_size_y example_screen = 24"
proof -
  have "utf8_table_ok empty_table" using empty_table_room by (simp add: table_room_def)
  from screen_init_fit [OF this, of 80 24 100 100 0] show "screen_fit 100 empty_table example_screen" "s_saved_grid example_screen = None" "g_history (s_grid example_screen)"
    "hscrolled (s_grid example_screen) = 0" "screen_size_x example_screen = 80" "screen_size_y example_screen = 24"
    by (auto simp: example_screen_def)
qed

theorem screen_resize_height_witness: "\<exists>s'. screen_resize empty_table example_screen 80 10 True = Some (s', empty_table) \<and> screen_size_y s' = 10"
  using screen_resize_height [OF example_fit(1,3), of 10 True] example_fit(4,5) by auto

end
