(* ===== verification/Screen_Write.thy ===== *)
theory Screen_Write
  imports Screen_Sound
begin

text \<open>
  Writing to a screen (\<open>screen_write.rs\<close>, with \<open>utf8_combined.rs\<close>).  Every operation changes the grid and the
  cursor and notes in the list of collected items what has to be drawn; plain characters that follow each
  other are first collected in one item.

  What is sent to terminals is left out, and with it everything that only drawing uses.  What the drawing code
  decides about the items comes from a parameter \<open>e_draw\<close> that answers each question in turn: whether
  the pane is going to be redrawn anyway, whether a scroll was replaced by a redraw, and which columns are not
  covered by a floating pane (\<open>window_visible.rs\<close>).  Sixel images are left out.

  The pane is null for the screens of popups and copy mode (\<open>e_pane\<close>).  A panic, a call of \<open>fatalx\<close> and a null
  pointer are \<^const>\<open>None\<close>.
\<close>

section \<open>State\<close>

record draw_answer =
  da_discard :: bool
  da_redrawn :: bool
  da_obscured :: bool
  da_written :: "nat \<Rightarrow> screen_write_citem \<Rightarrow> bool"
  da_spans :: "nat \<Rightarrow> nat \<Rightarrow> nat \<Rightarrow> (nat \<times> nat) list"

record screen_env =
  e_now :: int
  e_pane :: bool
  e_scroll_on_clear :: bool
  e_alternate_screen :: bool
  e_always_wide :: bool
  e_extended_keys :: int
  e_utf8 :: utf8_config
  e_draw :: "nat \<Rightarrow> draw_answer"

record screen_write_ctx =
  w_s :: screen
  w_table :: utf8_table
  w_item :: screen_write_citem
  w_scrolled :: nat
  w_bg :: int
  w_env :: screen_env
  w_asked :: nat

definition answer :: "screen_write_ctx \<Rightarrow> draw_answer" where
  "answer c = e_draw (w_env c) (w_asked c)"

definition asked :: "screen_write_ctx \<Rightarrow> screen_write_ctx" where
  "asked c = c\<lparr>w_asked := w_asked c + 1\<rparr>"

text \<open>An operation on the grid of the screen.\<close>

definition on_grid :: "(utf8_table \<Rightarrow> grid \<Rightarrow> (grid \<times> utf8_table) option) \<Rightarrow> screen_write_ctx \<Rightarrow> screen_write_ctx option" where
  "on_grid f c = do {
     (gd, t) \<leftarrow> f (w_table c) (s_grid (w_s c));
     Some (c\<lparr>w_s := (w_s c)\<lparr>s_grid := gd\<rparr>, w_table := t\<rparr>)
   }"

definition get_cell :: "screen_write_ctx \<Rightarrow> nat \<Rightarrow> grid_cell option" where
  "get_cell c x = grid_view_get_cell (w_table c) (s_grid (w_s c)) x (s_cy (w_s c))"

definition put :: "nat \<Rightarrow> grid_cell \<Rightarrow> screen_write_ctx \<Rightarrow> screen_write_ctx option" where
  "put x gc c = on_grid (\<lambda>t gd. grid_view_set_cell t gd x (s_cy (w_s c)) gc) c"

text \<open>The line of the cursor.\<close>

definition cursor_line :: "screen_write_ctx \<Rightarrow> grid_line" where
  "cursor_line c = grid_get_line (s_grid (w_s c)) (hsize (s_grid (w_s c)) + s_cy (w_s c))"

section \<open>Collected items\<close>

definition zeroed_cell :: grid_cell where
  "zeroed_cell = \<lparr>gc_data = \<lparr>ud_data = zero_bytes, ud_have = 0, ud_size = 0, ud_width = 0\<rparr>, gc_attr = 0, gc_flags = {},
     gc_fg = 0, gc_bg = 0, gc_us = 0, gc_link = 0\<rparr>"

definition screen_write_get_citem :: screen_write_citem where
  "screen_write_get_citem = \<lparr>ci_x = 0, ci_wrapped = False, ci_type = Text, ci_used = 0, ci_bg = 0, ci_gc = zeroed_cell\<rparr>"

text \<open>The items of one line.\<close>

definition on_items ::
    "nat \<Rightarrow> (screen_write_citem list \<Rightarrow> screen_write_citem list) \<Rightarrow> screen_write_ctx \<Rightarrow> screen_write_ctx option" where
  "on_items y f c =
     (case s_write_list (w_s c) of
        None \<Rightarrow> None
      | Some cls \<Rightarrow>
          if y < length cls
          then Some (c\<lparr>w_s := (w_s c)\<lparr>s_write_list := Some (cls[y := (cls ! y)\<lparr>cl_items := f (cl_items (cls ! y))\<rparr>])\<rparr>\<rparr>)
          else None)"

text \<open>Takes the columns from \<open>sx\<close> to \<open>ex\<close> out of the items of a line: the items before the place of a new item
  and those after it, and whether an item that went was marked as wrapped.\<close>

fun screen_write_collect_trim ::
    "screen_write_citem list \<Rightarrow> nat \<Rightarrow> nat \<Rightarrow> screen_write_citem list \<times> screen_write_citem list \<times> bool" where
  "screen_write_collect_trim [] sx ex = ([], [], False)"
| "screen_write_collect_trim (ci # cis) sx ex =
     (let csx = ci_x ci; cex = ci_x ci + ci_used ci - 1;
          rest = screen_write_collect_trim cis sx ex;
          keep = (\<lambda>ci. (ci # fst rest, fst (snd rest), snd (snd rest)))
      in if cex < sx then keep ci
         else if csx > ex then ([], ci # cis, False)
         else if csx \<ge> sx \<and> cex \<le> ex then (fst rest, fst (snd rest), csx = 0 \<and> ci_wrapped ci \<or> snd (snd rest))
         else if csx < sx \<and> cex \<ge> sx \<and> cex \<le> ex then keep (ci\<lparr>ci_used := sx - csx\<rparr>)
         else if cex > ex \<and> csx \<ge> sx \<and> csx \<le> ex then ([], ci\<lparr>ci_x := ex + 1, ci_used := cex - ex\<rparr> # cis, False)
         else ([ci\<lparr>ci_used := sx - csx\<rparr>],
               screen_write_get_citem\<lparr>ci_type := ci_type ci, ci_bg := ci_bg ci, ci_gc := ci_gc ci, ci_x := ex + 1, ci_used := cex - ex\<rparr> # cis,
               False))"

text \<open>Puts an item in its place.\<close>

definition place_item :: "screen_write_citem \<Rightarrow> bool \<Rightarrow> screen_write_citem list \<Rightarrow> screen_write_citem list" where
  "place_item ci keep_wrapped items =
     (case screen_write_collect_trim items (ci_x ci) (ci_x ci + ci_used ci - 1) of (before, after, gone) \<Rightarrow>
        before @ (if gone \<and> keep_wrapped then ci\<lparr>ci_wrapped := True\<rparr> else ci) # after)"

definition clear_item :: "screen_write_citem \<Rightarrow> nat \<Rightarrow> nat \<Rightarrow> int \<Rightarrow> screen_write_citem" where
  "clear_item ci x n bg = ci\<lparr>ci_x := x, ci_used := n, ci_type := Clear, ci_bg := bg\<rparr>"

definition screen_write_collect_insert_clear :: "nat \<Rightarrow> nat \<Rightarrow> int \<Rightarrow> screen_write_ctx \<Rightarrow> screen_write_ctx option" where
  "screen_write_collect_insert_clear px nx bg c =
     (if nx = 0 then Some c
      else do {
        c1 \<leftarrow> on_items (s_cy (w_s c)) (place_item (clear_item (w_item c) px nx bg) True) c;
        Some (c1\<lparr>w_item := screen_write_get_citem\<rparr>)
      })"

text \<open>The clear of a whole line or of a part of one, as the three operations that clear lines note it.\<close>

definition note_clear :: "nat \<Rightarrow> nat \<Rightarrow> int \<Rightarrow> screen_write_ctx \<Rightarrow> screen_write_ctx option" where
  "note_clear x n bg c = do {
     c1 \<leftarrow> on_items (s_cy (w_s c)) (place_item (clear_item (w_item c) x n bg) False) c;
     Some (c1\<lparr>w_item := screen_write_get_citem\<rparr>)
   }"

fun screen_write_collect_clear :: "nat \<Rightarrow> nat \<Rightarrow> screen_write_ctx \<Rightarrow> screen_write_ctx option" where
  "screen_write_collect_clear y 0 c = Some c"
| "screen_write_collect_clear y (Suc n) c = do { c1 \<leftarrow> on_items y (\<lambda>_. []) c; screen_write_collect_clear (y + 1) n c1 }"

text \<open>Moves the lines of the scroll region up by one.\<close>

definition scroll_clines :: "nat \<Rightarrow> nat \<Rightarrow> screen_write_citem \<Rightarrow> screen_write_cline list \<Rightarrow> screen_write_cline list" where
  "scroll_clines u l ci cls =
     take u cls @ take (l - u) (drop (u + 1) cls) @ [\<lparr>cl_data = cl_data (cls ! u), cl_items = [ci]\<rparr>] @ drop (l + 1) cls"

definition screen_write_collect_scroll :: "int \<Rightarrow> screen_write_ctx \<Rightarrow> screen_write_ctx option" where
  "screen_write_collect_scroll bg c =
     (case s_write_list (w_s c) of
        None \<Rightarrow> None
      | Some cls \<Rightarrow>
          if s_rupper (w_s c) \<le> s_rlower (w_s c) \<and> s_rlower (w_s c) < length cls
          then Some (c\<lparr>w_s := (w_s c)\<lparr>s_write_list := Some (scroll_clines (s_rupper (w_s c)) (s_rlower (w_s c))
                 (clear_item screen_write_get_citem 0 (screen_size_x (w_s c)) bg) cls)\<rparr>\<rparr>)
          else None)"

text \<open>The items of a line are drawn from left to right; one that cannot be seen stays.\<close>

fun screen_write_collect_flush_line ::
    "(screen_write_citem \<Rightarrow> bool) \<Rightarrow> nat option \<Rightarrow> screen_write_citem list \<Rightarrow> screen_write_citem list option" where
  "screen_write_collect_flush_line written prev [] = Some []"
| "screen_write_collect_flush_line written prev (ci # cis) =
     (if prev \<noteq> None \<and> ci_x ci \<le> the prev then None
      else if written ci then screen_write_collect_flush_line written (Some (ci_x ci)) cis
      else map_option ((#) ci) (screen_write_collect_flush_line written prev cis))"

fun flush_lines :: "draw_answer \<Rightarrow> nat \<Rightarrow> screen_write_cline list \<Rightarrow> screen_write_cline list option" where
  "flush_lines a y [] = Some []"
| "flush_lines a y (cl # cls) = do {
     items \<leftarrow> screen_write_collect_flush_line (da_written a y) None (cl_items cl);
     cls' \<leftarrow> flush_lines a (y + 1) cls;
     Some (cl\<lparr>cl_items := items\<rparr> # cls')
   }"

text \<open>The cursor moves during the drawing and is put back.\<close>

definition screen_write_collect_flush :: "bool \<Rightarrow> screen_write_ctx \<Rightarrow> screen_write_ctx option" where
  "screen_write_collect_flush scroll_only c =
     (let a = answer c; c1 = (asked c)\<lparr>w_scrolled := 0, w_bg := 8\<rparr>
      in case s_write_list (w_s c) of
           None \<Rightarrow> None
         | Some cls \<Rightarrow>
             if e_pane (w_env c) \<and> da_discard a \<or> MODE_SYNC \<in> s_mode (w_s c) \<or> w_scrolled c \<noteq> 0 \<and> e_pane (w_env c) \<and> da_redrawn a
             then Some (c1\<lparr>w_s := (w_s c)\<lparr>s_write_list := Some (map (\<lambda>cl. cl\<lparr>cl_items := []\<rparr>) cls)\<rparr>\<rparr>)
             else if scroll_only then Some c1
             else do {
               cls' \<leftarrow> flush_lines a 0 cls;
               Some (c1\<lparr>w_s := (w_s c)\<lparr>s_write_list := Some cls'\<rparr>\<rparr>)
             })"

text \<open>Whether lines are drawn now, and whether a floating pane covers part of them.\<close>

definition draws_spans :: "screen_write_ctx \<Rightarrow> bool" where
  "draws_spans c \<longleftrightarrow> \<not> (e_pane (w_env c) \<and> da_discard (answer c)) \<and> MODE_SYNC \<notin> s_mode (w_s c) \<and> e_pane (w_env c) \<and> da_obscured (answer c)"

section \<open>Starting and stopping\<close>

definition screen_write_start :: "screen_env \<Rightarrow> utf8_table \<Rightarrow> screen \<Rightarrow> screen_write_ctx" where
  "screen_write_start env t s =
     \<lparr>w_s = (if s_write_list s = None then screen_write_make_list s else s), w_table = t, w_item = screen_write_get_citem,
      w_scrolled = 0, w_bg = 8, w_env = env, w_asked = 0\<rparr>"

section \<open>The cursor\<close>

definition screen_write_set_cursor :: "int \<Rightarrow> int \<Rightarrow> screen_write_ctx \<Rightarrow> screen_write_ctx" where
  "screen_write_set_cursor cx cy c =
     (let s = w_s c
      in if cx \<noteq> - 1 \<and> u32 cx = int (s_cx s) \<and> cy \<noteq> - 1 \<and> u32 cy = int (s_cy s) then c
         else (let cx1 = (if u32 cx > int (screen_size_x s) then int (screen_size_x s) - 1 else cx);
                   cy1 = (if u32 cy > int (screen_size_y s) - 1 then int (screen_size_y s) - 1 else cy);
                   s1 = (if cx \<noteq> - 1 then s\<lparr>s_cx := nat (u32 cx1)\<rparr> else s);
                   s2 = (if cy \<noteq> - 1 then s1\<lparr>s_cy := nat (u32 cy1)\<rparr> else s1)
               in c\<lparr>w_s := s2\<rparr>))"

definition screen_write_mode_set :: "mode_flag set \<Rightarrow> screen_write_ctx \<Rightarrow> screen_write_ctx" where
  "screen_write_mode_set mode c = c\<lparr>w_s := (w_s c)\<lparr>s_mode := s_mode (w_s c) \<union> mode\<rparr>\<rparr>"

definition screen_write_mode_clear :: "mode_flag set \<Rightarrow> screen_write_ctx \<Rightarrow> screen_write_ctx" where
  "screen_write_mode_clear mode c = c\<lparr>w_s := (w_s c)\<lparr>s_mode := s_mode (w_s c) - mode\<rparr>\<rparr>"

definition screen_write_cursorup :: "nat \<Rightarrow> screen_write_ctx \<Rightarrow> screen_write_ctx" where
  "screen_write_cursorup ny0 c =
     (let s = w_s c; cx = s_cx s; cy = s_cy s;
          ny1 = (if ny0 = 0 then 1 else ny0);
          ny = (if cy < s_rupper s then if ny1 > cy then cy else ny1
                else if ny1 > cy - s_rupper s then cy - s_rupper s else ny1)
      in screen_write_set_cursor (int (if cx = screen_size_x s then cx - 1 else cx)) (int (cy - ny)) c)"

definition screen_write_cursordown :: "nat \<Rightarrow> screen_write_ctx \<Rightarrow> screen_write_ctx" where
  "screen_write_cursordown ny0 c =
     (let s = w_s c; cx = s_cx s; cy = s_cy s;
          ny1 = (if ny0 = 0 then 1 else ny0);
          ny = (if cy > s_rlower s then if ny1 > screen_size_y s - 1 - cy then screen_size_y s - 1 - cy else ny1
                else if ny1 > s_rlower s - cy then s_rlower s - cy else ny1)
      in if cx = screen_size_x s then screen_write_set_cursor (int (cx - 1)) (int (cy + ny)) c
         else if ny = 0 then c
         else screen_write_set_cursor (int cx) (int (cy + ny)) c)"

text \<open>The subtraction wraps when the cursor is past the last column.\<close>

definition screen_write_cursorright :: "nat \<Rightarrow> screen_write_ctx \<Rightarrow> screen_write_ctx" where
  "screen_write_cursorright nx0 c =
     (let s = w_s c; cx = s_cx s;
          nx1 = (if nx0 = 0 then 1 else nx0);
          space = sub32 (screen_size_x s - 1) cx;
          nx = (if nx1 > space then space else nx1)
      in if nx = 0 then c else screen_write_set_cursor (i32 (int (cx + nx))) (int (s_cy s)) c)"

definition screen_write_cursorleft :: "nat \<Rightarrow> screen_write_ctx \<Rightarrow> screen_write_ctx" where
  "screen_write_cursorleft nx0 c =
     (let s = w_s c; cx = s_cx s;
          nx1 = (if nx0 = 0 then 1 else nx0);
          nx = (if nx1 > cx then cx else nx1)
      in if nx = 0 then c else screen_write_set_cursor (int (cx - nx)) (int (s_cy s)) c)"

definition screen_write_backspace :: "screen_write_ctx \<Rightarrow> screen_write_ctx" where
  "screen_write_backspace c =
     (let s = w_s c; gd = s_grid s
      in if s_cx s = 0
         then if s_cy s = 0 then c
              else if LINE_WRAPPED \<in> gl_flags (grid_get_line gd (hsize gd + s_cy s - 1))
              then screen_write_set_cursor (int (screen_size_x s) - 1) (int (s_cy s) - 1) c
              else screen_write_set_cursor 0 (int (s_cy s)) c
         else screen_write_set_cursor (int (s_cx s) - 1) (int (s_cy s)) c)"

text \<open>The sum of a position and the top of the region wraps; \<open>- 1\<close> leaves a coordinate alone.\<close>

definition screen_write_cursormove :: "int \<Rightarrow> int \<Rightarrow> bool \<Rightarrow> screen_write_ctx \<Rightarrow> screen_write_ctx" where
  "screen_write_cursormove px0 py0 origin c =
     (let s = w_s c;
          py1 = (if origin \<and> py0 \<noteq> - 1 \<and> MODE_ORIGIN \<in> s_mode s
                 then if u32 py0 > int (s_rlower s) - int (s_rupper s) then int (s_rlower s) else i32 (py0 + int (s_rupper s))
                 else py0);
          px = (if px0 \<noteq> - 1 \<and> u32 px0 > int (screen_size_x s) - 1 then int (screen_size_x s) - 1 else px0);
          py = (if py1 \<noteq> - 1 \<and> u32 py1 > int (screen_size_y s) - 1 then int (screen_size_y s) - 1 else py1)
      in screen_write_set_cursor px py c)"

definition screen_write_carriagereturn :: "screen_write_ctx \<Rightarrow> screen_write_ctx" where
  "screen_write_carriagereturn c = screen_write_set_cursor 0 (- 1) c"

definition screen_write_scrollregion :: "nat \<Rightarrow> nat \<Rightarrow> screen_write_ctx \<Rightarrow> screen_write_ctx option" where
  "screen_write_scrollregion rupper0 rlower0 c =
     (let bottom = screen_size_y (w_s c) - 1;
          rupper = (if rupper0 > bottom then bottom else rupper0);
          rlower = (if rlower0 > bottom then bottom else rlower0)
      in if rupper \<ge> rlower then Some c
         else do {
           c1 \<leftarrow> screen_write_collect_flush False c;
           let c2 = screen_write_set_cursor 0 0 c1;
           Some (c2\<lparr>w_s := (w_s c2)\<lparr>s_rupper := rupper, s_rlower := rlower\<rparr>\<rparr>)
         })"

section \<open>Changing lines and characters\<close>

fun fill_cells :: "nat \<Rightarrow> nat list \<Rightarrow> grid_cell \<Rightarrow> screen_write_ctx \<Rightarrow> screen_write_ctx option" where
  "fill_cells yy [] gc c = Some c"
| "fill_cells yy (xx # xs) gc c = do { c1 \<leftarrow> on_grid (\<lambda>t gd. grid_view_set_cell t gd xx yy gc) c; fill_cells yy xs gc c1 }"

fun fill_lines :: "nat list \<Rightarrow> grid_cell \<Rightarrow> screen_write_ctx \<Rightarrow> screen_write_ctx option" where
  "fill_lines [] gc c = Some c"
| "fill_lines (yy # ys) gc c = do { c1 \<leftarrow> fill_cells yy [0..<screen_size_x (w_s c)] gc c; fill_lines ys gc c1 }"

definition screen_write_alignmenttest :: "screen_write_ctx \<Rightarrow> screen_write_ctx option" where
  "screen_write_alignmenttest c = do {
     c1 \<leftarrow> fill_lines [0..<screen_size_y (w_s c)] (GRID_DEFAULT_CELL\<lparr>gc_data := utf8_set (CHR ''E'')\<rparr>) c;
     let c2 = screen_write_set_cursor 0 0 c1;
     let c3 = c2\<lparr>w_s := (w_s c2)\<lparr>s_rupper := 0, s_rlower := screen_size_y (w_s c2) - 1\<rparr>\<rparr>;
     screen_write_collect_clear 0 (screen_size_y (w_s c3) - 1) c3
   }"

text \<open>The three operations on characters at the cursor differ in what they do to the grid.\<close>

definition change_characters ::
    "(utf8_table \<Rightarrow> grid \<Rightarrow> nat \<Rightarrow> nat \<Rightarrow> nat \<Rightarrow> int \<Rightarrow> (grid \<times> utf8_table) option) \<Rightarrow>
     nat \<Rightarrow> int \<Rightarrow> screen_write_ctx \<Rightarrow> screen_write_ctx option" where
  "change_characters f nx0 bg c =
     (let s = w_s c;
          nx1 = (if nx0 = 0 then 1 else nx0);
          nx = (if nx1 > screen_size_x s - s_cx s then screen_size_x s - s_cx s else nx1)
      in if nx = 0 \<or> s_cx s > screen_size_x s - 1 then Some c
         else do {
           c1 \<leftarrow> on_grid (\<lambda>t gd. f t gd (s_cx s) (s_cy s) nx bg) c;
           screen_write_collect_flush False c1
         })"

definition screen_write_insertcharacter :: "nat \<Rightarrow> int \<Rightarrow> screen_write_ctx \<Rightarrow> screen_write_ctx option" where
  "screen_write_insertcharacter = change_characters grid_view_insert_cells"

definition screen_write_deletecharacter :: "nat \<Rightarrow> int \<Rightarrow> screen_write_ctx \<Rightarrow> screen_write_ctx option" where
  "screen_write_deletecharacter = change_characters grid_view_delete_cells"

definition screen_write_clearcharacter :: "nat \<Rightarrow> int \<Rightarrow> screen_write_ctx \<Rightarrow> screen_write_ctx option" where
  "screen_write_clearcharacter = change_characters (\<lambda>t gd x y n bg. grid_view_clear t gd x y n 1 bg)"

text \<open>Inserting and deleting lines, outside the scroll region and in it.\<close>

definition change_lines ::
    "(utf8_table \<Rightarrow> grid \<Rightarrow> nat \<Rightarrow> nat \<Rightarrow> int \<Rightarrow> (grid \<times> utf8_table) option) \<Rightarrow>
     (utf8_table \<Rightarrow> grid \<Rightarrow> nat \<Rightarrow> nat \<Rightarrow> nat \<Rightarrow> int \<Rightarrow> (grid \<times> utf8_table) option) \<Rightarrow>
     nat \<Rightarrow> int \<Rightarrow> screen_write_ctx \<Rightarrow> screen_write_ctx option" where
  "change_lines outside region ny0 bg c =
     (let s = w_s c; cy = s_cy s; sy = screen_size_y s;
          ny1 = (if ny0 = 0 then 1 else ny0)
      in if cy < s_rupper s \<or> cy > s_rlower s
         then (let ny = (if ny1 > sy - cy then sy - cy else ny1)
               in if ny = 0 then Some c
                  else do { c1 \<leftarrow> on_grid (\<lambda>t gd. outside t gd cy ny bg) c; screen_write_collect_flush False c1 })
         else (let ny = (if ny1 > s_rlower s + 1 - cy then s_rlower s + 1 - cy else ny1)
               in if ny = 0 then Some c
                  else do { c1 \<leftarrow> on_grid (\<lambda>t gd. region t gd (s_rlower s) cy ny bg) c; screen_write_collect_flush False c1 }))"

definition screen_write_insertline :: "nat \<Rightarrow> int \<Rightarrow> screen_write_ctx \<Rightarrow> screen_write_ctx option" where
  "screen_write_insertline = change_lines grid_view_insert_lines grid_view_insert_lines_region"

definition screen_write_deleteline :: "nat \<Rightarrow> int \<Rightarrow> screen_write_ctx \<Rightarrow> screen_write_ctx option" where
  "screen_write_deleteline = change_lines grid_view_delete_lines grid_view_delete_lines_region"

definition screen_write_clearline :: "int \<Rightarrow> screen_write_ctx \<Rightarrow> screen_write_ctx option" where
  "screen_write_clearline bg c =
     (if cellsize (cursor_line c) = 0 \<and> COLOUR_DEFAULT (i32 bg) then Some c
      else do {
        c1 \<leftarrow> on_grid (\<lambda>t gd. grid_view_clear t gd 0 (s_cy (w_s c)) (screen_size_x (w_s c)) 1 bg) c;
        c2 \<leftarrow> screen_write_collect_clear (s_cy (w_s c)) 1 c1;
        note_clear 0 (screen_size_x (w_s c)) bg c2
      })"

definition screen_write_clearendofline :: "int \<Rightarrow> screen_write_ctx \<Rightarrow> screen_write_ctx option" where
  "screen_write_clearendofline bg c =
     (let s = w_s c; sx = screen_size_x s; cx = s_cx s
      in if cx = 0 then screen_write_clearline bg c
         else if cx > sx - 1 \<or> cx \<ge> cellsize (cursor_line c) \<and> COLOUR_DEFAULT (i32 bg) then Some c
         else do {
           c1 \<leftarrow> on_grid (\<lambda>t gd. grid_view_clear t gd cx (s_cy s) (sx - cx) 1 bg) c;
           note_clear cx (sx - cx) bg c1
         })"

definition screen_write_clearstartofline :: "int \<Rightarrow> screen_write_ctx \<Rightarrow> screen_write_ctx option" where
  "screen_write_clearstartofline bg c =
     (let s = w_s c; sx = screen_size_x s; cx = s_cx s
      in if cx \<ge> sx - 1 then screen_write_clearline bg c
         else do {
           c1 \<leftarrow> on_grid (\<lambda>t gd. grid_view_clear t gd 0 (s_cy s) (if cx > sx - 1 then sx else cx + 1) 1 bg) c;
           note_clear 0 (cx + 1) bg c1
         })"

section \<open>Scrolling\<close>

definition screen_write_reverseindex :: "int \<Rightarrow> screen_write_ctx \<Rightarrow> screen_write_ctx option" where
  "screen_write_reverseindex bg c =
     (let s = w_s c
      in if s_cy s = s_rupper s
         then do {
           c1 \<leftarrow> on_grid (\<lambda>t gd. grid_view_scroll_region_down t gd (s_rupper s) (s_rlower s) bg) c;
           screen_write_collect_flush False c1
         }
         else if s_cy s > 0 then Some (screen_write_set_cursor (- 1) (int (s_cy s) - 1) c)
         else Some c)"

text \<open>A change of the background of lines that scroll in.\<close>

definition scroll_background :: "int \<Rightarrow> screen_write_ctx \<Rightarrow> screen_write_ctx option" where
  "scroll_background bg c =
     (if bg \<noteq> w_bg c then do { c1 \<leftarrow> screen_write_collect_flush True c; Some (c1\<lparr>w_bg := bg\<rparr>) } else Some c)"

definition scroll_one :: "int \<Rightarrow> screen_write_ctx \<Rightarrow> screen_write_ctx option" where
  "scroll_one bg c = do {
     c1 \<leftarrow> on_grid (\<lambda>t gd. grid_view_scroll_region_up (e_now (w_env c)) t gd (s_rupper (w_s c)) (s_rlower (w_s c)) bg) c;
     screen_write_collect_scroll bg c1
   }"

definition screen_write_linefeed :: "bool \<Rightarrow> int \<Rightarrow> screen_write_ctx \<Rightarrow> screen_write_ctx option" where
  "screen_write_linefeed wrap bg c = do {
     let gd = s_grid (w_s c);
     let y = hsize gd + s_cy (w_s c);
     let c1 = (if wrap then c\<lparr>w_s := (w_s c)\<lparr>s_grid := set_line gd y ((linedata gd ! y)\<lparr>gl_flags := insert LINE_WRAPPED (gl_flags (linedata gd ! y))\<rparr>)\<rparr>\<rparr>
               else c);
     c2 \<leftarrow> scroll_background bg c1;
     let s = w_s c2;
     if s_cy s = s_rlower s
     then do {
       c3 \<leftarrow> scroll_one bg c2;
       Some (c3\<lparr>w_scrolled := w_scrolled c3 + 1\<rparr>)
     }
     else if s_cy s < screen_size_y s - 1 then Some (screen_write_set_cursor (- 1) (int (s_cy s) + 1) c2)
     else Some c2
   }"

text \<open>The number of lines is limited to the region.\<close>

definition region_lines :: "nat \<Rightarrow> screen \<Rightarrow> nat" where
  "region_lines n s = (if n = 0 then 1 else if n > s_rlower s - s_rupper s + 1 then s_rlower s - s_rupper s + 1 else n)"

fun scroll_many :: "nat \<Rightarrow> int \<Rightarrow> screen_write_ctx \<Rightarrow> screen_write_ctx option" where
  "scroll_many 0 bg c = Some c"
| "scroll_many (Suc n) bg c = do { c1 \<leftarrow> scroll_one bg c; scroll_many n bg c1 }"

definition screen_write_scrollup :: "nat \<Rightarrow> int \<Rightarrow> screen_write_ctx \<Rightarrow> screen_write_ctx option" where
  "screen_write_scrollup lines0 bg c = do {
     let lines = region_lines lines0 (w_s c);
     c1 \<leftarrow> scroll_background bg c;
     c2 \<leftarrow> scroll_many lines bg c1;
     Some (c2\<lparr>w_scrolled := w_scrolled c2 + lines\<rparr>)
   }"

fun scroll_down_many :: "nat \<Rightarrow> int \<Rightarrow> screen_write_ctx \<Rightarrow> screen_write_ctx option" where
  "scroll_down_many 0 bg c = Some c"
| "scroll_down_many (Suc n) bg c = do {
     c1 \<leftarrow> on_grid (\<lambda>t gd. grid_view_scroll_region_down t gd (s_rupper (w_s c)) (s_rlower (w_s c)) bg) c;
     scroll_down_many n bg c1
   }"

definition screen_write_scrolldown :: "nat \<Rightarrow> int \<Rightarrow> screen_write_ctx \<Rightarrow> screen_write_ctx option" where
  "screen_write_scrolldown lines0 bg c = do {
     c1 \<leftarrow> scroll_down_many (region_lines lines0 (w_s c)) bg c;
     screen_write_collect_flush False c1
   }"

section \<open>Clearing the screen\<close>

text \<open>A clear for each visible part of \<open>n\<close> columns from \<open>x\<close> on line \<open>y\<close>.\<close>

fun clear_spans :: "(nat \<times> nat) list \<Rightarrow> int \<Rightarrow> screen_write_ctx \<Rightarrow> screen_write_ctx option" where
  "clear_spans [] bg c = Some c"
| "clear_spans ((x, n) # spans) bg c = do { c1 \<leftarrow> screen_write_collect_insert_clear x n bg c; clear_spans spans bg c1 }"

fun clear_span_lines :: "nat list \<Rightarrow> int \<Rightarrow> screen_write_ctx \<Rightarrow> screen_write_ctx option" where
  "clear_span_lines [] bg c = Some c"
| "clear_span_lines (y # ys) bg c = do {
     let c1 = screen_write_set_cursor 0 (int y) c;
     c2 \<leftarrow> clear_spans (da_spans (answer c1) y 0 (screen_size_x (w_s c1))) bg (asked c1);
     clear_span_lines ys bg c2
   }"

definition screen_write_clearendofscreen :: "int \<Rightarrow> screen_write_ctx \<Rightarrow> screen_write_ctx option" where
  "screen_write_clearendofscreen bg c = do {
     let s = w_s c;
     let sx = screen_size_x s;
     let sy = screen_size_y s;
     c1 \<leftarrow> (if s_cx s = 0 \<and> s_cy s = 0 \<and> g_history (s_grid s) \<and> e_pane (w_env c) \<and> e_scroll_on_clear (w_env c)
            then on_grid (\<lambda>t gd. grid_view_clear_history (e_now (w_env c)) t gd bg) c
            else do {
              c' \<leftarrow> (if s_cx s < sx then on_grid (\<lambda>t gd. grid_view_clear t gd (s_cx s) (s_cy s) (sx - s_cx s) 1 bg) c else Some c);
              on_grid (\<lambda>t gd. grid_view_clear t gd 0 (s_cy s + 1) sx (sy - (s_cy s + 1)) bg) c'
            });
     c2 \<leftarrow> screen_write_collect_clear (s_cy s + 1) (sy - (s_cy s + 1)) c1;
     c3 \<leftarrow> screen_write_collect_flush False c2;
     if \<not> draws_spans c3 then Some (asked c3)
     else do {
       c4 \<leftarrow> (if s_cx s < sx then clear_spans (da_spans (answer c3) (s_cy s) (s_cx s) (sx - s_cx s)) bg (asked c3) else Some (asked c3));
       c5 \<leftarrow> clear_span_lines [s_cy s + 1..<sy] bg c4;
       Some (screen_write_set_cursor (int (s_cx s)) (int (s_cy s)) c5)
     }
   }"

definition screen_write_clearstartofscreen :: "int \<Rightarrow> screen_write_ctx \<Rightarrow> screen_write_ctx option" where
  "screen_write_clearstartofscreen bg c = do {
     let s = w_s c;
     let sx = screen_size_x s;
     c1 \<leftarrow> (if s_cy s > 0 then on_grid (\<lambda>t gd. grid_view_clear t gd 0 0 sx (s_cy s) bg) c else Some c);
     c2 \<leftarrow> on_grid (\<lambda>t gd. grid_view_clear t gd 0 (s_cy s) (if s_cx s > sx - 1 then sx else s_cx s + 1) 1 bg) c1;
     c3 \<leftarrow> screen_write_collect_clear 0 (s_cy s) c2;
     c4 \<leftarrow> screen_write_collect_flush False c3;
     if \<not> draws_spans c4 then Some (asked c4)
     else do {
       c5 \<leftarrow> clear_span_lines [0..<s_cy s] bg (asked c4);
       let c6 = screen_write_set_cursor 0 (int (s_cy (w_s c5))) c5;
       c7 \<leftarrow> clear_spans (da_spans (answer c6) (s_cy s) 0 (s_cx (w_s c6) + 1)) bg (asked c6);
       Some (screen_write_set_cursor (int (s_cx s)) (int (s_cy s)) c7)
     }
   }"

definition screen_write_clearscreen :: "int \<Rightarrow> screen_write_ctx \<Rightarrow> screen_write_ctx option" where
  "screen_write_clearscreen bg c = do {
     let s = w_s c;
     let sx = screen_size_x s;
     let sy = screen_size_y s;
     c1 \<leftarrow> (if g_history (s_grid s) \<and> e_pane (w_env c) \<and> e_scroll_on_clear (w_env c)
            then on_grid (\<lambda>t gd. grid_view_clear_history (e_now (w_env c)) t gd bg) c
            else on_grid (\<lambda>t gd. grid_view_clear t gd 0 0 sx sy bg) c);
     c2 \<leftarrow> screen_write_collect_clear 0 sy c1;
     if \<not> draws_spans c2 then Some (asked c2)
     else do {
       c3 \<leftarrow> clear_span_lines [0..<sy] bg (asked c2);
       Some (screen_write_set_cursor (int (s_cx s)) (int (s_cy s)) c3)
     }
   }"

definition screen_write_clearhistory :: "screen_write_ctx \<Rightarrow> screen_write_ctx" where
  "screen_write_clearhistory c = c\<lparr>w_s := (w_s c)\<lparr>s_grid := grid_clear_history (s_grid (w_s c))\<rparr>\<rparr>"

definition screen_write_fullredraw :: "screen_write_ctx \<Rightarrow> screen_write_ctx option" where
  "screen_write_fullredraw c = screen_write_collect_flush False c"

definition screen_write_reset :: "screen_write_ctx \<Rightarrow> screen_write_ctx option" where
  "screen_write_reset c = do {
     let c1 = c\<lparr>w_s := screen_reset_tabs (w_s c)\<rparr>;
     c2 \<leftarrow> screen_write_scrollregion 0 (screen_size_y (w_s c1) - 1) c1;
     let mode = {MODE_CURSOR, MODE_WRAP};
     let mode' = (if e_extended_keys (w_env c) = 2 then mode - EXTENDED_KEY_MODES \<union> {MODE_KEYS_EXTENDED} else mode);
     c3 \<leftarrow> screen_write_clearscreen 8 (c2\<lparr>w_s := (w_s c2)\<lparr>s_mode := mode'\<rparr>\<rparr>);
     Some (screen_write_set_cursor 0 0 c3)
   }"

end
