(* ===== verification/Screen_Cell.thy ===== *)
theory Screen_Cell
  imports Screen_Write
begin

text \<open>
  Writing characters to a screen (\<open>screen_write.rs\<close>, \<open>utf8_combined.rs\<close>): collecting plain characters in one item
  and storing them at the end, writing a single character with the handling of wide characters, of
  characters that combine with the one before, of insert mode and of wrapping; and the alternate screen.
\<close>

section \<open>Combining characters\<close>

definition UTF8_MODIFIER_TABLE :: "int list" where
  "UTF8_MODIFIER_TABLE = [0x1F1E6, 0x1F1E7, 0x1F1E8, 0x1F1E9, 0x1F1EA, 0x1F1EB, 0x1F1EC, 0x1F1ED, 0x1F1EE, 0x1F1EF,
    0x1F1F0, 0x1F1F1, 0x1F1F2, 0x1F1F3, 0x1F1F4, 0x1F1F5, 0x1F1F6, 0x1F1F7, 0x1F1F8, 0x1F1F9,
    0x1F1FA, 0x1F1FB, 0x1F1FC, 0x1F1FD, 0x1F1FE, 0x1F1FF, 0x1F3FB, 0x1F3FC, 0x1F3FD, 0x1F3FE, 0x1F3FF]"

definition zwj_bytes :: string where
  "zwj_bytes = [CHR 0xE2, CHR 0x80, CHR 0x8D]"

definition utf8_has_zwj :: "utf8_data \<Rightarrow> bool" where
  "utf8_has_zwj ud \<longleftrightarrow> \<not> ud_size ud < 3 \<and> take 3 (drop (ud_size ud - 3) (ud_data ud)) = zwj_bytes"

definition utf8_is_zwj :: "utf8_data \<Rightarrow> bool" where
  "utf8_is_zwj ud \<longleftrightarrow> ud_size ud = 3 \<and> take 3 (ud_data ud) = zwj_bytes"

definition utf8_is_vs :: "utf8_data \<Rightarrow> bool" where
  "utf8_is_vs ud \<longleftrightarrow> ud_size ud = 3 \<and> take 3 (ud_data ud) = [CHR 0xEF, CHR 0xB8, CHR 0x8F]"

definition utf8_is_modifier :: "utf8_config \<Rightarrow> utf8_data \<Rightarrow> bool" where
  "utf8_is_modifier cfg ud = (case utf8_towc cfg ud of None \<Rightarrow> False | Some wc \<Rightarrow> utf8_in_table wc UTF8_MODIFIER_TABLE)"

section \<open>Padding\<close>

text \<open>Clears padding cells from column \<open>xx\<close> to the left, and gives the column where it stopped and the last cell it looked at.\<close>

fun clear_padding_left :: "grid_cell \<Rightarrow> nat \<Rightarrow> screen_write_ctx \<Rightarrow> (nat \<times> grid_cell \<times> screen_write_ctx) option" where
  "clear_padding_left gc 0 c = Some (0, gc, c)"
| "clear_padding_left gc (Suc x) c = do {
     gc1 \<leftarrow> get_cell c (Suc x);
     if PADDING \<notin> gc_flags gc1 then Some (Suc x, gc1, c)
     else do { c1 \<leftarrow> put (Suc x) GRID_DEFAULT_CELL c; clear_padding_left gc1 x c1 }
   }"

text \<open>Replaces padding cells from the left until there is one that is not, and gives whether there were any.  The
  new cell is made from the old one.\<close>

fun clear_padding_right ::
    "(grid_cell \<Rightarrow> grid_cell) \<Rightarrow> nat list \<Rightarrow> screen_write_ctx \<Rightarrow> (bool \<times> screen_write_ctx) option" where
  "clear_padding_right new [] c = Some (False, c)"
| "clear_padding_right new (x # xs) c = do {
     gc1 \<leftarrow> get_cell c x;
     if PADDING \<notin> gc_flags gc1 then Some (False, c)
     else do {
       c1 \<leftarrow> put x (new gc1) c;
       (b, c2) \<leftarrow> clear_padding_right new xs c1;
       Some (True, c2)
     }
   }"

section \<open>Collecting characters\<close>

text \<open>The bytes of an item, from the buffer of the line.\<close>

definition item_bytes :: "screen_write_cline \<Rightarrow> nat \<Rightarrow> nat \<Rightarrow> string option" where
  "item_bytes cl x n =
     (case cl_data cl of None \<Rightarrow> None | Some d \<Rightarrow> if x + n \<le> length d then Some (take n (drop x d)) else None)"

definition cursor_cline :: "screen_write_ctx \<Rightarrow> screen_write_cline option" where
  "cursor_cline c =
     (case s_write_list (w_s c) of None \<Rightarrow> None | Some cls \<Rightarrow> if s_cy (w_s c) < length cls then Some (cls ! s_cy (w_s c)) else None)"

definition screen_write_collect_end :: "screen_write_ctx \<Rightarrow> screen_write_ctx option" where
  "screen_write_collect_end c =
     (let ci = w_item c; cx = s_cx (w_s c); cy = s_cy (w_s c)
      in if ci_used ci = 0 then Some c
         else do {
           c1 \<leftarrow> on_items cy (place_item (ci\<lparr>ci_x := cx\<rparr>) True) c;
           let c2 = c1\<lparr>w_item := screen_write_get_citem\<rparr>;
           c3 \<leftarrow> (if cx \<noteq> 0
                  then do {
                    (xx, gc, c') \<leftarrow> clear_padding_left zeroed_cell cx c2;
                    if ud_width (gc_data gc) > 1 then put xx GRID_DEFAULT_CELL c' else Some c'
                  }
                  else Some c2);
           cl \<leftarrow> cursor_cline c3;
           bytes \<leftarrow> item_bytes cl cx (ci_used ci);
           c4 \<leftarrow> on_grid (\<lambda>t gd. grid_view_set_cells t gd cx cy (ci_gc ci) bytes) c3;
           let c5 = screen_write_set_cursor (i32 (int (cx + ci_used ci))) (- 1) c4;
           map_option snd (clear_padding_right (\<lambda>_. GRID_DEFAULT_CELL) [s_cx (w_s c5)..<screen_size_x (w_s c5)] c5)
         })"

text \<open>Stores a byte of the collected item.  The buffer comes from \<open>malloc\<close>; its bytes before they are written are
  zeros here, and are not read.\<close>

definition store_byte :: "char \<Rightarrow> nat \<Rightarrow> screen_write_ctx \<Rightarrow> screen_write_ctx option" where
  "store_byte b x c = do {
     cls \<leftarrow> s_write_list (w_s c);
     cl \<leftarrow> cursor_cline c;
     let d = (case cl_data cl of None \<Rightarrow> replicate (screen_size_x (w_s c)) (CHR 0x00) | Some d \<Rightarrow> d);
     if x < length d then Some (c\<lparr>w_s := (w_s c)\<lparr>s_write_list := Some (cls[s_cy (w_s c) := cl\<lparr>cl_data := Some (d[x := b])\<rparr>])\<rparr>\<rparr>)
     else None
   }"

text \<open>Whether a character can be collected.\<close>

definition collectable :: "screen \<Rightarrow> grid_cell \<Rightarrow> bool" where
  "collectable s gc \<longleftrightarrow>
     \<not> (ud_width (gc_data gc) \<noteq> 1 \<or> ud_size (gc_data gc) \<noteq> 1 \<or> byte (ud_data (gc_data gc) ! 0) \<ge> 127 \<or> TAB \<in> gc_flags gc \<or>
        gc_attr gc div 128 mod 2 = 1 \<or> MODE_WRAP \<notin> s_mode s \<or> MODE_INSERT \<in> s_mode s \<or> s_sel s \<noteq> None)"

section \<open>Single characters\<close>

definition visible_columns :: "draw_answer \<Rightarrow> nat \<Rightarrow> nat \<Rightarrow> nat \<Rightarrow> nat" where
  "visible_columns a y x n = sum_list (map snd (da_spans a y x n))"

text \<open>The character with another one appended.\<close>

definition append_data :: "utf8_data \<Rightarrow> utf8_data \<Rightarrow> utf8_data" where
  "append_data ud extra =
     ud\<lparr>ud_data := take (ud_size ud) (ud_data ud) @ take (ud_size extra) (ud_data extra) @ drop (ud_size ud + ud_size extra) (ud_data ud),
        ud_size := ud_size ud + ud_size extra\<rparr>"

text \<open>The cell that a character would combine with, and how many columns it is to the left.\<close>

definition cell_before :: "screen_write_ctx \<Rightarrow> (nat \<times> grid_cell) option" where
  "cell_before c =
     (let cx = s_cx (w_s c)
      in do {
        before \<leftarrow> get_cell c (cx - 1);
        if cx \<noteq> 1 \<and> PADDING \<in> gc_flags before then map_option (\<lambda>gc. (2, gc)) (get_cell c (cx - 2))
        else Some (1, before)
      })"

text \<open>Puts the combined cell in its place and draws it.\<close>

definition combine_with :: "nat \<Rightarrow> grid_cell \<Rightarrow> bool \<Rightarrow> grid_cell \<Rightarrow> screen_write_ctx \<Rightarrow> (bool \<times> screen_write_ctx) option" where
  "combine_with n0 before force_wide0 gc c0 =
     (let cx0 = s_cx (w_s c0); cy = s_cy (w_s c0)
      in do {
        c1 \<leftarrow> screen_write_collect_flush False c0;
        let force_wide = (ud_width (gc_data before) = 1 \<and> force_wide0);
        let cx = (if force_wide then cx0 + 1 else cx0);
        let n = (if force_wide then 2 else n0);
        let data = append_data (gc_data before) (gc_data gc);
        let new = before\<lparr>gc_data := (if force_wide then data\<lparr>ud_width := 2\<rparr> else data)\<rparr>;
        c2 \<leftarrow> on_grid (\<lambda>t gd. grid_view_set_cell t gd (cx - n) cy new) c1;
        c3 \<leftarrow> (if force_wide then on_grid (\<lambda>t gd. grid_view_set_padding t gd (cx - 1) cy) c2 else Some c2);
        if visible_columns (answer c3) cy (cx - n) n < n then Some (True, asked c3)
        else Some (True, screen_write_set_cursor (i32 (int cx)) (i32 (int cy))
                           (screen_write_set_cursor (i32 (int cx - int n)) (i32 (int cy)) (asked c3)))
      })"

definition screen_write_combine :: "grid_cell \<Rightarrow> screen_write_ctx \<Rightarrow> (bool \<times> screen_write_ctx) option" where
  "screen_write_combine gc c =
     (let ud = gc_data gc; cx = s_cx (w_s c);
          vs = (\<not> utf8_is_zwj ud \<and> utf8_is_vs ud);
          zero_width = (utf8_is_zwj ud \<or> vs \<or> ud_width ud = 0);
          force_wide = (vs \<and> e_always_wide (w_env c))
      in if ud_size ud < 2 \<or> cx = 0 then Some (zero_width, c)
         else do {
           (n, before) \<leftarrow> cell_before c;
           if n \<noteq> ud_width (gc_data before) \<or> PADDING \<in> gc_flags before then Some (zero_width, c)
           else if \<not> zero_width \<and> utf8_is_modifier (e_utf8 (w_env c)) ud \<and> ud_size (gc_data before) < 2 then Some (False, c)
           else if \<not> zero_width \<and> \<not> utf8_is_modifier (e_utf8 (w_env c)) ud \<and> \<not> utf8_has_zwj (gc_data before) then Some (False, c)
           else if ud_size (gc_data before) + ud_size ud > UTF8_SIZE then Some (False, c)
           else combine_with n before (force_wide \<or> \<not> zero_width \<and> utf8_is_modifier (e_utf8 (w_env c)) ud) gc c
         })"

text \<open>Clears the rest of a wide character or tab under the cursor, and the padding of the characters that
  \<open>width\<close> columns from the cursor cover.\<close>

definition screen_write_overwrite :: "grid_cell \<Rightarrow> nat \<Rightarrow> screen_write_ctx \<Rightarrow> (bool \<times> screen_write_ctx) option" where
  "screen_write_overwrite gc width c =
     (let cx = s_cx (w_s c)
      in do {
        c1 \<leftarrow> (if PADDING \<in> gc_flags gc
               then do { (xx, cell, c') \<leftarrow> clear_padding_left zeroed_cell cx c; put xx GRID_DEFAULT_CELL c' }
               else Some c);
        (b, c2) \<leftarrow>
          (if width \<noteq> 1 \<or> ud_width (gc_data gc) \<noteq> 1 \<or> PADDING \<in> gc_flags gc
           then clear_padding_right (\<lambda>_. if TAB \<in> gc_flags gc then gc\<lparr>gc_data := utf8_set (CHR '' '')\<rparr> else GRID_DEFAULT_CELL)
                  [cx + width..<screen_size_x (w_s c1)] c1
           else Some (False, c1));
        Some (PADDING \<in> gc_flags gc \<or> b, c2)
      })"

fun set_paddings :: "nat list \<Rightarrow> screen_write_ctx \<Rightarrow> screen_write_ctx option" where
  "set_paddings [] c = Some c"
| "set_paddings (x # xs) c = do { c1 \<leftarrow> on_grid (\<lambda>t gd. grid_view_set_padding t gd x (s_cy (w_s c))) c; set_paddings xs c1 }"

text \<open>Whether a cell in the line of the cursor is the new one already.\<close>

definition unchanged :: "grid_line \<Rightarrow> nat \<Rightarrow> grid_cell \<Rightarrow> bool" where
  "unchanged gl x gc =
     (if x \<ge> cellsize gl then grid_cells_equal gc GRID_DEFAULT_CELL
      else (let gce = celldata gl ! x
            in case gce_union gce of
                 Offset n \<Rightarrow> False
               | Data a f b d \<Rightarrow>
                   EXTENDED \<notin> gce_flags gce \<and> gc_flags gc = gce_flags gce \<and> gc_attr gc = a \<and> gc_fg gc = int f \<and> gc_bg gc = int b \<and>
                   ud_width (gc_data gc) = 1 \<and> ud_size (gc_data gc) = 1 \<and> d = ud_data (gc_data gc) ! 0))"

text \<open>Goes to the next line when the character does not fit.\<close>

definition wrap_cursor :: "screen_write_ctx \<Rightarrow> screen_write_ctx option" where
  "wrap_cursor c = do { c1 \<leftarrow> screen_write_linefeed True 8 c; Some (screen_write_set_cursor 0 (- 1) c1) }"

text \<open>Stores the cell at the cursor, with the flag of the selection.\<close>

definition store_cell :: "bool \<Rightarrow> grid_cell \<Rightarrow> screen_write_ctx \<Rightarrow> screen_write_ctx option" where
  "store_cell skip gc c =
     (let s = w_s c; selected = screen_check_selection s (s_cx s) (s_cy s)
      in if selected \<and> SELECTED \<notin> gc_flags gc then put (s_cx s) (gc\<lparr>gc_flags := insert SELECTED (gc_flags gc)\<rparr>) c
         else if \<not> selected \<and> SELECTED \<in> gc_flags gc then put (s_cx s) (gc\<lparr>gc_flags := gc_flags gc - {SELECTED}\<rparr>) c
         else if \<not> skip then put (s_cx s) gc c
         else Some c)"

text \<open>Moves the cursor past the cell; without wrapping it stays at the last column.\<close>

definition advance_cursor :: "nat \<Rightarrow> screen_write_ctx \<Rightarrow> screen_write_ctx" where
  "advance_cursor width c =
     (let s = w_s c; sx = screen_size_x s; not_wrap = (if MODE_WRAP \<in> s_mode s then 0 else 1)
      in if int (s_cx s) \<le> u32 (int sx - not_wrap - int width) then screen_write_set_cursor (i32 (int (s_cx s + width))) (- 1) c
         else screen_write_set_cursor (int sx - not_wrap) (- 1) c)"

text \<open>The part of \<open>screen_write_cell\<close> after the place of the character is known.\<close>

definition write_here :: "grid_cell \<Rightarrow> bool \<Rightarrow> screen_write_ctx \<Rightarrow> screen_write_ctx option" where
  "write_here gc skip0 c =
     (let width = ud_width (gc_data gc); cx = s_cx (w_s c); cy = s_cy (w_s c)
      in do {
        (over, c1) \<leftarrow>
          (if LINE_EXTENDED \<in> gl_flags (cursor_line c)
           then do { now \<leftarrow> get_cell c cx; screen_write_overwrite now width c }
           else Some (False, c));
        c2 \<leftarrow> set_paddings [cx + 1..<cx + width] c1;
        let skip = (skip0 \<and> \<not> over \<and> width \<le> 1 \<and> unchanged (cursor_line c2) cx gc);
        c3 \<leftarrow> store_cell skip gc c2;
        let c4 = advance_cursor width c3;
        if MODE_INSERT \<in> s_mode (w_s c4) then screen_write_collect_flush False c4 else Some c4
      })"

definition screen_write_cell :: "grid_cell \<Rightarrow> screen_write_ctx \<Rightarrow> screen_write_ctx option" where
  "screen_write_cell gc c =
     (let sx = screen_size_x (w_s c); sy = screen_size_y (w_s c); width = ud_width (gc_data gc)
      in if PADDING \<in> gc_flags gc then Some c
         else do {
           (combined, c1) \<leftarrow> screen_write_combine gc c;
           if combined then Some c1
           else do {
             c2 \<leftarrow> screen_write_collect_flush True c1;
             if MODE_WRAP \<notin> s_mode (w_s c2) \<and> width > 1 \<and> (width > sx \<or> s_cx (w_s c2) \<noteq> sx \<and> s_cx (w_s c2) > sub32 sx width) then Some c2
             else do {
               c3 \<leftarrow> (if MODE_INSERT \<in> s_mode (w_s c2)
                      then on_grid (\<lambda>t gd. grid_view_insert_cells t gd (s_cx (w_s c2)) (s_cy (w_s c2)) width 8) c2
                      else Some c2);
               c4 \<leftarrow> (if MODE_WRAP \<in> s_mode (w_s c3) \<and> s_cx (w_s c3) > sub32 sx width
                      then do { c' \<leftarrow> wrap_cursor c3; screen_write_collect_flush True c' }
                      else Some c3);
               if s_cx (w_s c4) > sub32 sx width \<or> s_cy (w_s c4) > sy - 1 then Some c4
               else write_here gc (MODE_INSERT \<notin> s_mode (w_s c4)) c4
             }
           }
         })"

definition screen_write_collect_add :: "grid_cell \<Rightarrow> screen_write_ctx \<Rightarrow> screen_write_ctx option" where
  "screen_write_collect_add gc c =
     (let sx = screen_size_x (w_s c)
      in if \<not> collectable (w_s c) gc
         then do {
           c1 \<leftarrow> screen_write_collect_end c;
           c2 \<leftarrow> screen_write_collect_flush False c1;
           screen_write_cell gc c2
         }
         else do {
           c1 \<leftarrow> (if s_cx (w_s c) > sx - 1 \<or> ci_used (w_item c) > sx - 1 - s_cx (w_s c) then screen_write_collect_end c else Some c);
           c2 \<leftarrow> (if s_cx (w_s c1) > sx - 1 then wrap_cursor (c1\<lparr>w_item := (w_item c1)\<lparr>ci_wrapped := True\<rparr>\<rparr>) else Some c1);
           let ci = (if ci_used (w_item c2) = 0 then (w_item c2)\<lparr>ci_gc := gc\<rparr> else w_item c2);
           c3 \<leftarrow> store_byte (ud_data (gc_data gc) ! 0) (s_cx (w_s c2) + ci_used ci) (c2\<lparr>w_item := ci\<rparr>);
           Some (c3\<lparr>w_item := ci\<lparr>ci_used := ci_used ci + 1\<rparr>\<rparr>)
         })"

definition screen_write_putc :: "grid_cell \<Rightarrow> char \<Rightarrow> screen_write_ctx \<Rightarrow> screen_write_ctx option" where
  "screen_write_putc gcp ch c = screen_write_cell (gcp\<lparr>gc_data := utf8_set ch\<rparr>) c"

definition screen_write_stop :: "screen_write_ctx \<Rightarrow> screen_write_ctx option" where
  "screen_write_stop c = do { c1 \<leftarrow> screen_write_collect_end c; screen_write_collect_flush False c1 }"

section \<open>The alternate screen\<close>

text \<open>The option \<open>alternate-screen\<close> of a pane can turn the alternate screen off.\<close>

definition screen_write_alternateon :: "grid_cell \<Rightarrow> bool \<Rightarrow> screen_write_ctx \<Rightarrow> screen_write_ctx option" where
  "screen_write_alternateon gc cursor c =
     (if e_pane (w_env c) \<and> \<not> e_alternate_screen (w_env c) then Some c
      else do {
        c1 \<leftarrow> screen_write_collect_flush False c;
        (s, t) \<leftarrow> screen_alternate_on (w_table c1) (w_s c1) gc cursor;
        Some (c1\<lparr>w_s := s, w_table := t\<rparr>)
      })"

definition screen_write_alternateoff ::
    "grid_cell option \<Rightarrow> bool \<Rightarrow> screen_write_ctx \<Rightarrow> (screen_write_ctx \<times> grid_cell option) option" where
  "screen_write_alternateoff gc cursor c =
     (if e_pane (w_env c) \<and> \<not> e_alternate_screen (w_env c) then Some (c, gc)
      else do {
        c1 \<leftarrow> screen_write_collect_flush False c;
        (s, t, gc') \<leftarrow> screen_alternate_off (w_table c1) (w_s c1) gc cursor;
        Some (c1\<lparr>w_s := s, w_table := t\<rparr>, gc')
      })"

end
