(* ===== verification/Screen_Items.thy ===== *)
theory Screen_Items
  imports Screen_Cell
begin

text \<open>
  What has been written to a line and is not drawn yet: the items of a line are in order and do not overlap, and
  the trimming of the items (\<open>screen_write_collect_trim\<close>) takes exactly the given columns out of them, so that
  the list of items is a map from columns to what is drawn there.
\<close>

section \<open>The order of the items\<close>

definition item_end :: "screen_write_citem \<Rightarrow> nat" where
  "item_end ci = ci_x ci + ci_used ci"

definition items_ok :: "nat \<Rightarrow> screen_write_citem list \<Rightarrow> bool" where
  "items_ok n items \<longleftrightarrow> sorted_wrt (\<lambda>a b. item_end a \<le> ci_x b) items \<and> (\<forall>ci \<in> set items. 0 < ci_used ci \<and> item_end ci \<le> n)"

definition in_item :: "nat \<Rightarrow> screen_write_citem \<Rightarrow> bool" where
  "in_item col ci \<longleftrightarrow> ci_x ci \<le> col \<and> col < item_end ci"

definition drawn :: "screen_write_citem \<Rightarrow> screen_write_citem_type \<times> int \<times> grid_cell" where
  "drawn ci = (ci_type ci, ci_bg ci, ci_gc ci)"

text \<open>What is drawn in a column.\<close>

definition item_at :: "screen_write_citem list \<Rightarrow> nat \<Rightarrow> (screen_write_citem_type \<times> int \<times> grid_cell) option" where
  "item_at items col = map_option drawn (find (in_item col) items)"

lemma item_at_Nil [simp]: "item_at [] col = None"
  by (simp add: item_at_def)

lemma item_at_Cons [simp]: "item_at (ci # cis) col = (if in_item col ci then Some (drawn ci) else item_at cis col)"
  by (simp add: item_at_def)

lemma item_at_append: "item_at (xs @ ys) col = (case item_at xs col of None \<Rightarrow> item_at ys col | Some d \<Rightarrow> Some d)"
  by (induction xs) simp_all

lemma item_at_None: "(\<And>ci. ci \<in> set items \<Longrightarrow> \<not> in_item col ci) \<Longrightarrow> item_at items col = None"
  by (induction items) simp_all

lemma items_ok_Nil [simp]: "items_ok n []"
  by (simp add: items_ok_def)

lemma items_ok_Cons: "items_ok n (ci # cis) \<longleftrightarrow> 0 < ci_used ci \<and> item_end ci \<le> n \<and> (\<forall>b \<in> set cis. item_end ci \<le> ci_x b) \<and> items_ok n cis"
  by (auto simp: items_ok_def)

lemma items_ok_append:
  "items_ok n (xs @ ys) \<longleftrightarrow> items_ok n xs \<and> items_ok n ys \<and> (\<forall>a \<in> set xs. \<forall>b \<in> set ys. item_end a \<le> ci_x b)"
  by (auto simp: items_ok_def sorted_wrt_append)

section \<open>Trimming\<close>

lemma fresh_fields [simp]: "ci_x screen_write_get_citem = 0" "ci_used screen_write_get_citem = 0"
    "ci_wrapped screen_write_get_citem = False"
  by (simp_all add: screen_write_get_citem_def)

text \<open>The two parts are on the two sides of the columns that were taken out, and inside the columns of the old items.\<close>

lemma trim_parts:
  assumes "items_ok n items" "sx \<le> ex" "screen_write_collect_trim items sx ex = (before, after, gone)"
  shows "items_ok n before \<and> items_ok n after \<and> (\<forall>ci \<in> set before. item_end ci \<le> sx) \<and> (\<forall>ci \<in> set after. ex < ci_x ci) \<and>
    (\<forall>ci \<in> set before \<union> set after. \<exists>ci' \<in> set items. ci_x ci' \<le> ci_x ci)"
  using assms
proof (induction items arbitrary: before after gone)
  case (Cons ci cis)
  obtain b a g where r: "screen_write_collect_trim cis sx ex = (b, a, g)" by (cases "screen_write_collect_trim cis sx ex") auto
  have ci: "0 < ci_used ci" "item_end ci \<le> n" "\<forall>c \<in> set cis. item_end ci \<le> ci_x c" "items_ok n cis"
    using Cons.prems(1) by (simp_all add: items_ok_Cons)
  note IH = Cons.IH [OF ci(4) Cons.prems(2) r]
  have away: "\<forall>c \<in> set b \<union> set a. item_end ci \<le> ci_x c" using IH ci(3) by (meson le_trans)
  have up: "\<forall>c \<in> set b \<union> set a. ci_x ci \<le> ci_x c" using away unfolding item_end_def by (meson add_leD1)
  have rest: "\<forall>c \<in> set cis. ci_x ci \<le> ci_x c" using ci(3) unfolding item_end_def by (meson add_leD1)
  have later: "\<forall>c \<in> set cis. ex < ci_x c" if "ex < item_end ci" using that ci(3) by (meson less_le_trans)
  have hit: "sx \<le> n \<and> (\<forall>c \<in> set b. sx \<le> ci_x c)" if "\<not> ci_x ci + ci_used ci - Suc 0 < sx"
  proof -
    have "sx \<le> item_end ci" using that unfolding item_end_def by linarith
    then show ?thesis using away ci(2) by (meson UnI1 le_trans)
  qed
  show ?case using Cons.prems(3) r ci IH away up rest later hit \<open>sx \<le> ex\<close>
    by (auto simp: Let_def items_ok_Cons item_end_def split: if_splits)
qed simp

lemma trim_ok:
  assumes "items_ok n items" "sx \<le> ex" "screen_write_collect_trim items sx ex = (before, after, gone)"
  shows "items_ok n (before @ after)" "\<forall>ci \<in> set before. item_end ci \<le> sx" "\<forall>ci \<in> set after. ex < ci_x ci"
  using trim_parts [OF assms] assms(2) by (auto simp: items_ok_append) (meson le_less_trans less_imp_le order_trans)

text \<open>Only the given columns change.\<close>

lemma trim_item_at:
  assumes "items_ok n items" "sx \<le> ex" "screen_write_collect_trim items sx ex = (before, after, gone)"
  shows "item_at (before @ after) col = (if sx \<le> col \<and> col \<le> ex then None else item_at items col)"
  using assms
proof (induction items arbitrary: before after gone)
  case (Cons ci cis)
  obtain b a g where r: "screen_write_collect_trim cis sx ex = (b, a, g)" by (cases "screen_write_collect_trim cis sx ex") auto
  have ci: "0 < ci_used ci" "\<forall>c \<in> set cis. item_end ci \<le> ci_x c" "items_ok n cis"
    using Cons.prems(1) by (simp_all add: items_ok_Cons)
  have IH: "item_at (b @ a) col = (if sx \<le> col \<and> col \<le> ex then None else item_at cis col)"
    using Cons.IH [OF ci(3) Cons.prems(2) r] .
  have past: "item_at cis col = None" if "col < item_end ci" using that ci(2) by (intro item_at_None) (auto simp: in_item_def)
  show ?case using Cons.prems(3) r IH past ci(1) \<open>sx \<le> ex\<close>
    by (auto simp: Let_def in_item_def item_end_def drawn_def split: if_splits)
qed simp

section \<open>Placing an item\<close>

lemma place_items_ok:
  assumes "items_ok n items" "0 < ci_used ci" "item_end ci \<le> n"
  shows "items_ok n (place_item ci keep items)"
proof -
  obtain b a g where r: "screen_write_collect_trim items (ci_x ci) (ci_x ci + ci_used ci - 1) = (b, a, g)"
    by (cases "screen_write_collect_trim items (ci_x ci) (ci_x ci + ci_used ci - 1)") auto
  have le: "ci_x ci \<le> ci_x ci + ci_used ci - 1" using assms(2) by simp
  note t = trim_ok [OF assms(1) le r]
  have "item_end ci = ci_x ci + ci_used ci - 1 + 1" using assms(2) by (simp add: item_end_def)
  then show ?thesis using t assms(2,3) r
    by (auto simp: place_item_def items_ok_Cons items_ok_append item_end_def Suc_le_eq)
qed

text \<open>The items of a line that are collected and not drawn yet are a map from columns to what is drawn.  Placing an
  item changes the columns of the item and no other (\<open>screen_write_collect_trim\<close> with the insertion that follows
  it everywhere): items that overlap it are shortened, split in two or dropped, and the items stay in order.\<close>

theorem place_item_columns:
  assumes "items_ok n items" "0 < ci_used ci" "ci_x ci + ci_used ci \<le> n"
  shows "items_ok n (place_item ci keep items) \<and>
    (\<forall>col. item_at (place_item ci keep items) col =
       (if ci_x ci \<le> col \<and> col < ci_x ci + ci_used ci then Some (ci_type ci, ci_bg ci, ci_gc ci) else item_at items col))"
proof (intro conjI allI)
  have e: "item_end ci \<le> n" using assms(3) by (simp add: item_end_def)
  show "items_ok n (place_item ci keep items)" using place_items_ok [OF assms(1,2) e] .
  fix col
  obtain b a g where r: "screen_write_collect_trim items (ci_x ci) (ci_x ci + ci_used ci - 1) = (b, a, g)"
    by (cases "screen_write_collect_trim items (ci_x ci) (ci_x ci + ci_used ci - 1)") auto
  have le: "ci_x ci \<le> ci_x ci + ci_used ci - 1" using assms(2) by simp
  note t = trim_ok [OF assms(1) le r] and at = trim_item_at [OF assms(1) le r, of col]
  have "item_at b col = None" if "ci_x ci \<le> col" using that t(2) by (intro item_at_None) (auto simp: in_item_def)
  then show "item_at (place_item ci keep items) col =
       (if ci_x ci \<le> col \<and> col < ci_x ci + ci_used ci then Some (ci_type ci, ci_bg ci, ci_gc ci) else item_at items col)"
    using at r assms(2) by (auto simp: place_item_def item_at_append in_item_def item_end_def drawn_def split: option.splits)
qed

text \<open>A clear of columns 3 to 5 over one text of ten columns.\<close>

definition long_item :: screen_write_citem where
  "long_item = screen_write_get_citem\<lparr>ci_used := 10\<rparr>"

lemma place_item_columns_witness:
  "item_at (place_item (clear_item screen_write_get_citem 3 3 1) False [long_item]) 4 = Some (Clear, 1, zeroed_cell) \<and>
   item_at (place_item (clear_item screen_write_get_citem 3 3 1) False [long_item]) 6 = Some (Text, 0, zeroed_cell)"
proof -
  let ?ci = "clear_item screen_write_get_citem 3 3 1"
  have a: "items_ok 10 [long_item]" "0 < ci_used ?ci" "ci_x ?ci + ci_used ?ci \<le> 10"
    by (simp_all add: items_ok_Cons item_end_def long_item_def clear_item_def)
  from place_item_columns [OF a, of False] show ?thesis
    by (simp add: clear_item_def long_item_def screen_write_get_citem_def in_item_def item_end_def drawn_def)
qed

section \<open>Drawing\<close>

lemma flush_items:
  assumes "items_ok n items" "case prev of None \<Rightarrow> True | Some p \<Rightarrow> \<forall>ci \<in> set items. p < ci_x ci"
  shows "\<exists>items'. screen_write_collect_flush_line written prev items = Some items' \<and> items_ok n items' \<and> set items' \<subseteq> set items"
  using assms
proof (induction items arbitrary: prev)
  case (Cons ci cis)
  have ci: "0 < ci_used ci" "\<forall>c \<in> set cis. item_end ci \<le> ci_x c" "items_ok n cis" "item_end ci \<le> n"
    using Cons.prems(1) by (simp_all add: items_ok_Cons)
  have ok: "prev = None \<or> the prev < ci_x ci" using Cons.prems(2) by (auto split: option.splits)
  have "\<forall>c \<in> set cis. ci_x ci < ci_x c" using ci(1,2) by (fastforce simp: item_end_def)
  then have now: "case Some (ci_x ci) of None \<Rightarrow> True | Some p \<Rightarrow> \<forall>ci \<in> set cis. p < ci_x ci" by simp
  have later: "case prev of None \<Rightarrow> True | Some p \<Rightarrow> \<forall>ci \<in> set cis. p < ci_x ci" using Cons.prems(2) by (auto split: option.splits)
  show ?case using Cons.IH [OF ci(3) now] Cons.IH [OF ci(3) later] ok ci by (fastforce simp: items_ok_Cons)
qed simp

end
