(* ===== verification/Screen_Write_Sound.thy ===== *)
theory Screen_Write_Sound
  imports Screen_Items
begin

text \<open>
  No operation of the screen writer fails: each keeps the screen well formed, the items of its lines in order, and
  the buffers of the lines as long as the lines.  In particular the cursor stays on the screen, or just past the
  last column.
\<close>

section \<open>The invariant\<close>

definition cline_ok :: "nat \<Rightarrow> screen_write_cline \<Rightarrow> bool" where
  "cline_ok n cl \<longleftrightarrow> items_ok n (cl_items cl) \<and> (\<forall>d. cl_data cl = Some d \<longrightarrow> length d = n)"

text \<open>The visible parts of a line are parts of what was asked for, which \<open>window_visible_ranges\<close> promises.\<close>

definition spans_in :: "screen_env \<Rightarrow> bool" where
  "spans_in env \<longleftrightarrow> (\<forall>k y x n. \<forall>(px, nx) \<in> set (da_spans (e_draw env k) y x n). px + nx \<le> x + n)"

definition write_ok :: "nat \<Rightarrow> screen_write_ctx \<Rightarrow> bool" where
  "write_ok B c \<longleftrightarrow> screen_fit B (w_table c) (w_s c) \<and> spans_in (w_env c) \<and>
     (\<exists>cls. s_write_list (w_s c) = Some cls \<and> (\<forall>cl \<in> set cls. cline_ok (g_sx (s_grid (w_s c))) cl))"

text \<open>No characters are being collected.\<close>

definition settled :: "nat \<Rightarrow> screen_write_ctx \<Rightarrow> bool" where
  "settled B c \<longleftrightarrow> write_ok B c \<and> ci_used (w_item c) = 0"

definition ctx_kept :: "nat \<Rightarrow> screen_write_ctx \<Rightarrow> screen_write_ctx \<Rightarrow> bool" where
  "ctx_kept B c c' \<longleftrightarrow> settled B c' \<and> w_env c' = w_env c \<and> table_le (w_table c) (w_table c') \<and>
     g_sx (s_grid (w_s c')) = g_sx (s_grid (w_s c)) \<and> g_sy (s_grid (w_s c')) = g_sy (s_grid (w_s c))"

definition bg_ok :: "int \<Rightarrow> bool" where
  "bg_ok bg \<longleftrightarrow> colour_ok bg \<and> bg \<noteq> 9"

lemma bg_default [simp]: "bg_ok 8"
  by (simp add: bg_ok_def)

lemma bg_okD: "bg_ok bg \<Longrightarrow> colour_ok bg" "bg_ok bg \<Longrightarrow> bg \<noteq> 9"
  by (simp_all add: bg_ok_def)

lemma ctx_kept_refl: "settled B c \<Longrightarrow> ctx_kept B c c"
  by (simp add: ctx_kept_def)

lemma ctx_kept_trans: "ctx_kept B a b \<Longrightarrow> ctx_kept B b c \<Longrightarrow> ctx_kept B a c"
  by (auto simp: ctx_kept_def intro: table_le_trans)

lemma ctx_keptD:
  assumes "ctx_kept B c c'"
  shows "settled B c'" "w_env c' = w_env c" "g_sx (s_grid (w_s c')) = g_sx (s_grid (w_s c))" "g_sy (s_grid (w_s c')) = g_sy (s_grid (w_s c))"
  using assms by (simp_all add: ctx_kept_def)

lemma settledD:
  assumes "settled B c"
  shows "screen_fit B (w_table c) (w_s c)" "spans_in (w_env c)" "ci_used (w_item c) = 0"
    "\<exists>cls. s_write_list (w_s c) = Some cls \<and> length cls = g_sy (s_grid (w_s c)) \<and> (\<forall>cl \<in> set cls. cline_ok (g_sx (s_grid (w_s c))) cl)"
  using assms by (auto simp: settled_def write_ok_def dest: screen_fitD(9))

lemma settledI:
  assumes "screen_fit B (w_table c) (w_s c)" "spans_in (w_env c)" "ci_used (w_item c) = 0" "s_write_list (w_s c) = Some cls"
    "\<And>cl. cl \<in> set cls \<Longrightarrow> cline_ok (g_sx (s_grid (w_s c))) cl"
  shows "settled B c"
  using assms by (simp add: settled_def write_ok_def)

text \<open>Steps in a row.\<close>

lemma ctx_bind:
  assumes "keeps (ctx_kept B c) r" "\<And>c'. ctx_kept B c c' \<Longrightarrow> keeps (ctx_kept B c') (f c')"
  shows "keeps (ctx_kept B c) (r \<bind> f)"
proof -
  obtain c' where r: "r = Some c'" "ctx_kept B c c'" using assms(1) by (auto simp: keeps_def)
  then show ?thesis using assms(2) [OF r(2)] ctx_kept_trans by (auto simp: keeps_def)
qed

lemma ctx_via: "ctx_kept B c c1 \<Longrightarrow> keeps (ctx_kept B c1) r \<Longrightarrow> keeps (ctx_kept B c) r"
  using ctx_kept_trans by (auto simp: keeps_def)

lemma ctx_Some: "ctx_kept B c c' \<Longrightarrow> keeps (ctx_kept B c) (Some c')"
  by simp

lemma ctx_same: "settled B c \<Longrightarrow> keeps (ctx_kept B c) (Some c)"
  by (simp add: ctx_kept_refl)

named_theorems writer_kept

section \<open>The steps\<close>

lemma on_grid_kept:
  assumes "settled B c" "keeps (grid_kept B (w_table c) (s_grid (w_s c))) (f (w_table c) (s_grid (w_s c)))"
  shows "keeps (ctx_kept B c) (on_grid f c)"
proof -
  obtain gd t where r: "f (w_table c) (s_grid (w_s c)) = Some (gd, t)" "grid_kept B (w_table c) (s_grid (w_s c)) (gd, t)"
    using assms(2) by (auto simp: keeps_def)
  note s = settledD [OF assms(1)]
  from set_grid_fit [OF s(1) r(2)] have f: "screen_fit B t ((w_s c)\<lparr>s_grid := gd\<rparr>)" .
  obtain cls where cls: "s_write_list (w_s c) = Some cls" "\<forall>cl \<in> set cls. cline_ok (g_sx (s_grid (w_s c))) cl" using s(4) by blast
  have k: "table_le (w_table c) t" "same_grid (s_grid (w_s c)) gd" using r(2) by (simp_all add: grid_kept_def)
  have "settled B (c\<lparr>w_s := (w_s c)\<lparr>s_grid := gd\<rparr>, w_table := t\<rparr>)"
    by (rule settledI [where cls = cls]) (use f s cls k in \<open>auto simp: same_grid_def\<close>)
  then show ?thesis using r k by (simp add: on_grid_def ctx_kept_def same_grid_def)
qed

lemma on_items_kept:
  assumes "settled B c" "y < g_sy (s_grid (w_s c))"
    "\<And>items. items_ok (g_sx (s_grid (w_s c))) items \<Longrightarrow> items_ok (g_sx (s_grid (w_s c))) (f items)"
  shows "keeps (ctx_kept B c) (on_items y f c)"
proof -
  note s = settledD [OF assms(1)]
  obtain cls where cls: "s_write_list (w_s c) = Some cls" "length cls = g_sy (s_grid (w_s c))" "\<forall>cl \<in> set cls. cline_ok (g_sx (s_grid (w_s c))) cl"
    using s(4) by blast
  define cls' where "cls' = cls[y := (cls ! y)\<lparr>cl_items := f (cl_items (cls ! y))\<rparr>]"
  have "cls ! y \<in> set cls" using cls(2) assms(2) by simp
  then have "cline_ok (g_sx (s_grid (w_s c))) cl" if "cl \<in> set cls'" for cl
    using set_update_subset_insert [of cls y "(cls ! y)\<lparr>cl_items := f (cl_items (cls ! y))\<rparr>"] that cls(3) assms(3)
    by (auto simp: cls'_def cline_ok_def)
  moreover have "screen_fit B (w_table c) ((w_s c)\<lparr>s_write_list := Some cls'\<rparr>)"
    by (rule screen_fitI) (use screen_fitD [OF s(1)] cls(2) in \<open>auto simp: cls'_def\<close>)
  ultimately have "settled B (c\<lparr>w_s := (w_s c)\<lparr>s_write_list := Some cls'\<rparr>\<rparr>)"
    by (intro settledI [where cls = cls']) (use s in simp_all)
  then show ?thesis using cls assms(2) by (simp add: on_items_def ctx_kept_def cls'_def)
qed

text \<open>Changes that the invariant does not look at.\<close>

lemma plain_kept:
  assumes "settled B c" "w_table c' = w_table c" "w_env c' = w_env c" "ci_used (w_item c') = 0" "s_grid (w_s c') = s_grid (w_s c)"
    "s_write_list (w_s c') = s_write_list (w_s c)" "s_saved_grid (w_s c') = s_saved_grid (w_s c)"
    "s_saved_history (w_s c') = s_saved_history (w_s c)" "s_cx (w_s c') \<le> g_sx (s_grid (w_s c))" "s_cy (w_s c') < g_sy (s_grid (w_s c))"
    "s_rupper (w_s c') \<le> s_rlower (w_s c')" "s_rlower (w_s c') < g_sy (s_grid (w_s c))" "g_sx (s_grid (w_s c)) \<le> length (s_tabs (w_s c'))"
  shows "ctx_kept B c c'"
proof -
  note s = settledD [OF assms(1)] and d = screen_fitD [OF settledD(1) [OF assms(1)]]
  obtain cls where cls: "s_write_list (w_s c) = Some cls" "length cls = g_sy (s_grid (w_s c))" "\<forall>cl \<in> set cls. cline_ok (g_sx (s_grid (w_s c))) cl"
    using s(4) by blast
  have "screen_fit B (w_table c') (w_s c')"
    by (rule screen_fitI) (use d assms(2-) in auto)
  then have "settled B c'" by (rule settledI [where cls = cls]) (use assms(2-) s cls in auto)
  then show ?thesis using assms by (simp add: ctx_kept_def)
qed

lemma u32_nat_le: "nat (u32 x) \<le> n \<longleftrightarrow> u32 x \<le> int n"
  by (simp add: nat_le_iff)

lemma u32_pos: "0 \<le> u32 x"
  by (simp add: u32_def)

lemma set_cursor_fields:
  "s_cx (w_s (screen_write_set_cursor cx cy c)) \<le> max (s_cx (w_s c)) (g_sx (s_grid (w_s c)))"
  "s_cy (w_s (screen_write_set_cursor cx cy c)) \<le> max (s_cy (w_s c)) (g_sy (s_grid (w_s c)) - 1)"
  if "0 < g_sx (s_grid (w_s c))" "g_sx (s_grid (w_s c)) < 1073741824" "0 < g_sy (s_grid (w_s c))" "g_sy (s_grid (w_s c)) < 1073741824"
proof -
  have u: "u32 (int (g_sx (s_grid (w_s c))) - 1) = int (g_sx (s_grid (w_s c))) - 1" "u32 (int (g_sy (s_grid (w_s c))) - 1) = int (g_sy (s_grid (w_s c))) - 1"
    using that by (simp_all add: u32_id)
  show "s_cx (w_s (screen_write_set_cursor cx cy c)) \<le> max (s_cx (w_s c)) (g_sx (s_grid (w_s c)))"
    using u that by (auto simp: screen_write_set_cursor_def Let_def screen_size_x_def screen_size_y_def le_max_iff_disj)
  show "s_cy (w_s (screen_write_set_cursor cx cy c)) \<le> max (s_cy (w_s c)) (g_sy (s_grid (w_s c)) - 1)"
    using u that by (auto simp: screen_write_set_cursor_def Let_def screen_size_x_def screen_size_y_def le_max_iff_disj)
qed

lemma set_cursor_same [simp]:
  "w_table (screen_write_set_cursor cx cy c) = w_table c" "w_item (screen_write_set_cursor cx cy c) = w_item c"
  "w_env (screen_write_set_cursor cx cy c) = w_env c" "w_scrolled (screen_write_set_cursor cx cy c) = w_scrolled c"
  "w_bg (screen_write_set_cursor cx cy c) = w_bg c" "w_asked (screen_write_set_cursor cx cy c) = w_asked c"
  "s_grid (w_s (screen_write_set_cursor cx cy c)) = s_grid (w_s c)" "s_write_list (w_s (screen_write_set_cursor cx cy c)) = s_write_list (w_s c)"
  "s_saved_grid (w_s (screen_write_set_cursor cx cy c)) = s_saved_grid (w_s c)"
  "s_saved_history (w_s (screen_write_set_cursor cx cy c)) = s_saved_history (w_s c)"
  "s_rupper (w_s (screen_write_set_cursor cx cy c)) = s_rupper (w_s c)" "s_rlower (w_s (screen_write_set_cursor cx cy c)) = s_rlower (w_s c)"
  "s_tabs (w_s (screen_write_set_cursor cx cy c)) = s_tabs (w_s c)" "s_mode (w_s (screen_write_set_cursor cx cy c)) = s_mode (w_s c)"
  "s_sel (w_s (screen_write_set_cursor cx cy c)) = s_sel (w_s c)"
  by (auto simp: screen_write_set_cursor_def Let_def)

lemma set_cursor_kept: "settled B c \<Longrightarrow> ctx_kept B c (screen_write_set_cursor cx cy c)"
proof (rule plain_kept)
  assume a: "settled B c"
  note d = screen_fitD [OF settledD(1) [OF a]]
  note f = set_cursor_fields [OF d(10,12,11,13), of cx cy]
  show "s_cx (w_s (screen_write_set_cursor cx cy c)) \<le> g_sx (s_grid (w_s c))" using f(1) d(2) by simp
  show "s_cy (w_s (screen_write_set_cursor cx cy c)) < g_sy (s_grid (w_s c))" using f(2) d(3,11) by simp
qed (simp_all add: settledD(3) screen_fitD [OF settledD(1)])

lemma list_kept:
  assumes "settled B c" "w_s c' = (w_s c)\<lparr>s_write_list := Some cls\<rparr>" "w_table c' = w_table c" "w_env c' = w_env c" "ci_used (w_item c') = 0"
    "length cls = g_sy (s_grid (w_s c))" "\<And>cl. cl \<in> set cls \<Longrightarrow> cline_ok (g_sx (s_grid (w_s c))) cl"
  shows "ctx_kept B c c'"
proof -
  note s = settledD [OF assms(1)]
  have "screen_fit B (w_table c') (w_s c')"
    by (rule screen_fitI) (use screen_fitD [OF s(1)] assms(2,3,6) in auto)
  then have "settled B c'" by (rule settledI [where cls = cls]) (use assms(2-) s in auto)
  then show ?thesis using assms(2-4) by (simp add: ctx_kept_def)
qed

lemma cline_ok_Nil: "cline_ok n cl \<Longrightarrow> cline_ok n (cl\<lparr>cl_items := []\<rparr>)"
  by (simp add: cline_ok_def)

lemma flush_lines_ok:
  assumes "\<And>cl. cl \<in> set cls \<Longrightarrow> cline_ok n cl"
  shows "\<exists>cls'. flush_lines a y cls = Some cls' \<and> length cls' = length cls \<and> (\<forall>cl \<in> set cls'. cline_ok n cl)"
  using assms
proof (induction cls arbitrary: y)
  case (Cons cl cls)
  have cl: "cline_ok n cl" using Cons.prems by simp
  then have "items_ok n (cl_items cl)" by (simp add: cline_ok_def)
  from flush_items [OF this, of None "da_written a y"]
  obtain items where i: "screen_write_collect_flush_line (da_written a y) None (cl_items cl) = Some items" "items_ok n items" by auto
  obtain cls' where c: "flush_lines a (y + 1) cls = Some cls'" "length cls' = length cls" "\<forall>cl \<in> set cls'. cline_ok n cl"
    using Cons.IH [of "y + 1"] Cons.prems by auto
  show ?case using i c cl by (simp add: cline_ok_def)
qed simp

lemma flush_kept [writer_kept]:
  assumes "settled B c"
  shows "keeps (ctx_kept B c) (screen_write_collect_flush scroll_only c)"
proof -
  obtain cls where cls: "s_write_list (w_s c) = Some cls" "length cls = g_sy (s_grid (w_s c))" "\<forall>cl \<in> set cls. cline_ok (g_sx (s_grid (w_s c))) cl"
    using settledD(4) [OF assms] by blast
  obtain cls' where f: "flush_lines (answer c) 0 cls = Some cls'" "length cls' = length cls" "\<forall>cl \<in> set cls'. cline_ok (g_sx (s_grid (w_s c))) cl"
    using flush_lines_ok [of cls] cls(3) by blast
  note s = settledD [OF assms] and d = screen_fitD [OF settledD(1) [OF assms]]
  have 1: "ctx_kept B c ((asked c)\<lparr>w_scrolled := 0, w_bg := 8\<rparr>)"
    by (rule plain_kept [OF assms]) (use s d in \<open>simp_all add: asked_def\<close>)
  have 2: "ctx_kept B c ((asked c)\<lparr>w_scrolled := 0, w_bg := 8, w_s := (w_s c)\<lparr>s_write_list := Some (map (\<lambda>cl. cl\<lparr>cl_items := []\<rparr>) cls)\<rparr>\<rparr>)"
    by (rule list_kept [OF assms, where cls = "map (\<lambda>cl. cl\<lparr>cl_items := []\<rparr>) cls"]) (use s cls cline_ok_Nil in \<open>auto simp: asked_def\<close>)
  have 3: "ctx_kept B c ((asked c)\<lparr>w_scrolled := 0, w_bg := 8, w_s := (w_s c)\<lparr>s_write_list := Some cls'\<rparr>\<rparr>)"
    by (rule list_kept [OF assms, where cls = cls']) (use s cls f in \<open>auto simp: asked_def\<close>)
  show ?thesis using 1 2 3 cls f by (simp add: screen_write_collect_flush_def Let_def)
qed

lemma collect_clear_kept [writer_kept]:
  "settled B c \<Longrightarrow> y + n \<le> g_sy (s_grid (w_s c)) \<Longrightarrow> keeps (ctx_kept B c) (screen_write_collect_clear y n c)"
proof (induction n arbitrary: c y)
  case (Suc n)
  have y: "y < g_sy (s_grid (w_s c))" using Suc.prems(2) by simp
  have f: "keeps (ctx_kept B c) (on_items y (\<lambda>_. []) c)" by (rule on_items_kept [OF Suc.prems(1) y]) simp
  show ?case
    by (simp, rule ctx_bind [OF f], rule Suc.IH) (use Suc.prems(2) in \<open>simp_all add: ctx_keptD\<close>)
qed (simp add: ctx_kept_refl)

lemma item_reset_kept: "settled B c \<Longrightarrow> keeps (ctx_kept B c) (Some (c\<lparr>w_item := screen_write_get_citem\<rparr>))"
  unfolding keeps_Some by (rule plain_kept) (use settledD [of B c] screen_fitD [OF settledD(1), of B c] in \<open>simp_all\<close>)

lemma clear_item_place:
  "items_ok n items \<Longrightarrow> 0 < m \<Longrightarrow> x + m \<le> n \<Longrightarrow> items_ok n (place_item (clear_item ci x m bg) keep items)"
  by (rule place_items_ok) (simp_all add: clear_item_def item_end_def)

lemma note_clear_kept [writer_kept]:
  assumes "settled B c" "0 < n" "x + n \<le> g_sx (s_grid (w_s c))"
  shows "keeps (ctx_kept B c) (note_clear x n bg c)"
proof -
  have f: "keeps (ctx_kept B c) (on_items (s_cy (w_s c)) (place_item (clear_item (w_item c) x n bg) False) c)"
    using assms by (intro on_items_kept [OF assms(1)]) (auto intro: clear_item_place settledD(1) [THEN screen_fitD(3)])
  show ?thesis unfolding note_clear_def by (rule ctx_bind [OF f], rule item_reset_kept, erule ctx_keptD(1))
qed

lemma insert_clear_kept [writer_kept]:
  assumes "settled B c" "x + n \<le> g_sx (s_grid (w_s c))"
  shows "keeps (ctx_kept B c) (screen_write_collect_insert_clear x n bg c)"
proof (cases "n = 0")
  case False
  then have f: "keeps (ctx_kept B c) (on_items (s_cy (w_s c)) (place_item (clear_item (w_item c) x n bg) True) c)"
    using assms by (intro on_items_kept [OF assms(1)]) (auto intro: clear_item_place settledD(1) [THEN screen_fitD(3)])
  show ?thesis using False
    by (simp add: screen_write_collect_insert_clear_def) (rule ctx_bind [OF f], rule item_reset_kept, erule ctx_keptD(1))
qed (use assms in \<open>simp add: screen_write_collect_insert_clear_def ctx_kept_refl\<close>)

lemma collect_scroll_kept [writer_kept]:
  assumes "settled B c"
  shows "keeps (ctx_kept B c) (screen_write_collect_scroll bg c)"
proof -
  obtain cls where cls: "s_write_list (w_s c) = Some cls" "length cls = g_sy (s_grid (w_s c))" "\<forall>cl \<in> set cls. cline_ok (g_sx (s_grid (w_s c))) cl"
    using settledD(4) [OF assms] by blast
  note s = settledD [OF assms] and d = screen_fitD [OF settledD(1) [OF assms]]
  let ?ci = "clear_item screen_write_get_citem 0 (screen_size_x (w_s c)) bg"
  let ?cls = "scroll_clines (s_rupper (w_s c)) (s_rlower (w_s c)) ?ci cls"
  have "cline_ok (g_sx (s_grid (w_s c))) (cls ! s_rupper (w_s c))" using cls d(4,5) by simp
  then have new: "cline_ok (g_sx (s_grid (w_s c))) \<lparr>cl_data = cl_data (cls ! s_rupper (w_s c)), cl_items = [?ci]\<rparr>"
    using d(10) by (simp add: cline_ok_def items_ok_Cons item_end_def clear_item_def screen_size_x_def)
  have "ctx_kept B c (c\<lparr>w_s := (w_s c)\<lparr>s_write_list := Some ?cls\<rparr>\<rparr>)"
  proof (rule list_kept [OF assms, where cls = ?cls])
    show "cline_ok (g_sx (s_grid (w_s c))) cl" if "cl \<in> set ?cls" for cl
      using that new cls(3) by (auto simp: scroll_clines_def dest: in_set_takeD in_set_dropD)
  qed (use s cls d in \<open>simp_all add: scroll_clines_def\<close>)
  then show ?thesis using cls d by (simp add: screen_write_collect_scroll_def)
qed

section \<open>The cursor\<close>

lemma cursor_moves_kept [writer_kept]:
  assumes "settled B c"
  shows "ctx_kept B c (screen_write_cursorup n c)" "ctx_kept B c (screen_write_cursordown n c)" "ctx_kept B c (screen_write_cursorright n c)"
    "ctx_kept B c (screen_write_cursorleft n c)" "ctx_kept B c (screen_write_backspace c)" "ctx_kept B c (screen_write_cursormove px py origin c)"
    "ctx_kept B c (screen_write_carriagereturn c)"
  using set_cursor_kept [OF assms] ctx_kept_refl [OF assms]
  by (simp_all add: screen_write_cursorup_def screen_write_cursordown_def screen_write_cursorright_def screen_write_cursorleft_def
      screen_write_backspace_def screen_write_cursormove_def screen_write_carriagereturn_def Let_def)

lemma mode_kept [writer_kept]:
  assumes "settled B c"
  shows "ctx_kept B c (screen_write_mode_set mode c)" "ctx_kept B c (screen_write_mode_clear mode c)"
  unfolding screen_write_mode_set_def screen_write_mode_clear_def
  by (rule plain_kept [OF assms]; use settledD [OF assms] screen_fitD [OF settledD(1) [OF assms]] in simp)+

lemma region_kept:
  assumes "settled B c" "upper \<le> lower" "lower < g_sy (s_grid (w_s c))"
  shows "ctx_kept B c (c\<lparr>w_s := (w_s c)\<lparr>s_rupper := upper, s_rlower := lower\<rparr>\<rparr>)"
  by (rule plain_kept [OF assms(1)]) (use settledD [OF assms(1)] screen_fitD [OF settledD(1) [OF assms(1)]] assms(2,3) in simp_all)

lemma scrollregion_kept [writer_kept]:
  assumes "settled B c"
  shows "keeps (ctx_kept B c) (screen_write_scrollregion upper lower c)"
proof -
  have p: "0 < g_sy (s_grid (w_s c))" using settledD(1) [OF assms] screen_fitD(11) by blast
  have "keeps (ctx_kept B c1) (Some ((screen_write_set_cursor 0 0 c1)\<lparr>w_s := (w_s (screen_write_set_cursor 0 0 c1))\<lparr>s_rupper := u, s_rlower := l\<rparr>\<rparr>))"
    if "ctx_kept B c c1" "u \<le> l" "l < g_sy (s_grid (w_s c))" for c1 u l
    using set_cursor_kept [OF ctx_keptD(1) [OF that(1)], of 0 0] that region_kept [of B "screen_write_set_cursor 0 0 c1" u l] ctx_kept_trans
    by (fastforce simp: ctx_kept_def)
  then show ?thesis using p
    by (auto simp: screen_write_scrollregion_def Let_def screen_size_y_def intro!: ctx_kept_refl [OF assms] ctx_bind [OF flush_kept [OF assms]])
qed

section \<open>Lines and characters\<close>

lemma fill_cells_kept:
  "settled B c \<Longrightarrow> cell_safe gc \<Longrightarrow> keeps (ctx_kept B c) (fill_cells yy xs gc c)"
  by (induction xs arbitrary: c)
    (auto simp: ctx_kept_refl intro!: ctx_bind on_grid_kept view_set_cell_keeps dest: ctx_keptD(1) settledD(1) screen_fitD(1))

lemma fill_lines_kept:
  "settled B c \<Longrightarrow> cell_safe gc \<Longrightarrow> keeps (ctx_kept B c) (fill_lines ys gc c)"
  by (induction ys arbitrary: c) (auto simp: ctx_kept_refl intro!: ctx_bind fill_cells_kept dest: ctx_keptD(1))

lemma utf8_set_safe [simp]: "cell_safe (gc\<lparr>gc_data := utf8_set ch\<rparr>)" if "EXTENDED \<notin> gc_flags gc"
  using that by (simp add: cell_safe_def utf8_set_def UTF8_SIZE_def)

lemma alignmenttest_kept [writer_kept]:
  assumes "settled B c"
  shows "keeps (ctx_kept B c) (screen_write_alignmenttest c)"
proof -
  have g: "cell_safe (GRID_DEFAULT_CELL\<lparr>gc_data := utf8_set (CHR ''E'')\<rparr>)" by (rule utf8_set_safe) (simp add: GRID_DEFAULT_CELL_def)
  have "keeps (ctx_kept B c1) (let c2 = screen_write_set_cursor 0 0 c1;
     c3 = c2\<lparr>w_s := (w_s c2)\<lparr>s_rupper := 0, s_rlower := screen_size_y (w_s c2) - 1\<rparr>\<rparr> in screen_write_collect_clear 0 (screen_size_y (w_s c3) - 1) c3)"
    if "ctx_kept B c c1" for c1
  proof -
    note s1 = ctx_keptD(1) [OF that]
    let ?c2 = "screen_write_set_cursor 0 0 c1"
    have p: "0 < g_sy (s_grid (w_s c1))" using settledD(1) [OF s1] screen_fitD(11) by blast
    have 2: "ctx_kept B c1 ?c2" using set_cursor_kept [OF s1] .
    have 3: "ctx_kept B ?c2 (?c2\<lparr>w_s := (w_s ?c2)\<lparr>s_rupper := 0, s_rlower := screen_size_y (w_s ?c2) - 1\<rparr>\<rparr>)"
      using p by (intro region_kept ctx_keptD(1) [OF 2]) (simp_all add: screen_size_y_def)
    show ?thesis unfolding Let_def
      by (rule ctx_via [OF 2], rule ctx_via [OF 3], rule collect_clear_kept, rule ctx_keptD(1) [OF 3]) (simp add: screen_size_y_def)
  qed
  then show ?thesis unfolding screen_write_alignmenttest_def by (intro ctx_bind [OF fill_lines_kept [OF assms g]]) blast
qed

lemma grid_of: "settled B c \<Longrightarrow> grid_fit B (w_table c) (s_grid (w_s c))"
  by (blast dest: settledD(1) screen_fitD(1))

text \<open>A change of the grid that is then drawn.\<close>

lemma on_grid_flush:
  assumes "settled B c" "keeps (grid_kept B (w_table c) (s_grid (w_s c))) (f (w_table c) (s_grid (w_s c)))"
  shows "keeps (ctx_kept B c) (on_grid f c \<bind> screen_write_collect_flush False)"
  by (rule ctx_bind [OF on_grid_kept [of B c f, OF assms]], rule flush_kept, erule ctx_keptD(1))

lemma change_characters_kept [writer_kept]:
  assumes "settled B c" "bg_ok bg"
  shows "keeps (ctx_kept B c) (screen_write_insertcharacter n bg c)" "keeps (ctx_kept B c) (screen_write_deletecharacter n bg c)"
    "keeps (ctx_kept B c) (screen_write_clearcharacter n bg c)"
  using grid_of [OF assms(1)] bg_okD [OF assms(2)]
  by (auto simp: screen_write_insertcharacter_def screen_write_deletecharacter_def screen_write_clearcharacter_def change_characters_def Let_def
      intro!: ctx_kept_refl [OF assms(1)] on_grid_flush [OF assms(1)] view_insert_cells_keeps view_delete_cells_keeps view_clear_keeps)

lemma change_lines_kept [writer_kept]:
  assumes "settled B c" "bg_ok bg"
  shows "keeps (ctx_kept B c) (screen_write_insertline n bg c)" "keeps (ctx_kept B c) (screen_write_deleteline n bg c)"
  using grid_of [OF assms(1)] bg_okD [OF assms(2)]
  by (auto simp: screen_write_insertline_def screen_write_deleteline_def change_lines_def Let_def
      intro!: ctx_kept_refl [OF assms(1)] on_grid_flush [OF assms(1)] view_insert_lines_keeps view_insert_lines_region_keeps
        view_delete_lines_keeps view_delete_lines_region_keeps)

lemma clearline_kept [writer_kept]:
  assumes "settled B c" "bg_ok bg"
  shows "keeps (ctx_kept B c) (screen_write_clearline bg c)"
proof -
  note d = screen_fitD [OF settledD(1) [OF assms(1)]]
  have 1: "keeps (ctx_kept B c) (on_grid (\<lambda>t gd. grid_view_clear t gd 0 (s_cy (w_s c)) (screen_size_x (w_s c)) 1 bg) c)"
    by (rule on_grid_kept [OF assms(1)], rule view_clear_keeps [OF grid_of [OF assms(1)] bg_okD [OF assms(2)]])
  have 2: "keeps (ctx_kept B c1) (do { c2 \<leftarrow> screen_write_collect_clear (s_cy (w_s c)) 1 c1; note_clear 0 (screen_size_x (w_s c)) bg c2 })"
    if k: "ctx_kept B c c1" for c1
  proof (rule ctx_bind)
    show "keeps (ctx_kept B c1) (screen_write_collect_clear (s_cy (w_s c)) 1 c1)"
      by (rule collect_clear_kept [OF ctx_keptD(1) [OF k]]) (use d(3) ctx_keptD(4) [OF k] in simp)
    show "keeps (ctx_kept B c2) (note_clear 0 (screen_size_x (w_s c)) bg c2)" if "ctx_kept B c1 c2" for c2
      by (rule note_clear_kept [OF ctx_keptD(1) [OF that]])
        (use d(10) ctx_keptD(3) [OF k] ctx_keptD(3) [OF that] in \<open>simp_all add: screen_size_x_def\<close>)
  qed
  show ?thesis unfolding screen_write_clearline_def
    by (rule keeps_if, rule ctx_same [OF assms(1)], rule ctx_bind [OF 1], rule 2)
qed

text \<open>A clear of a part of the line of the cursor.\<close>

lemma clear_and_note:
  assumes "settled B c" "bg_ok bg" "0 < n" "x + n \<le> g_sx (s_grid (w_s c))"
  shows "keeps (ctx_kept B c) (do { c1 \<leftarrow> on_grid (\<lambda>t gd. grid_view_clear t gd x' y m 1 bg) c; note_clear x n bg c1 })"
proof (rule ctx_bind)
  show "keeps (ctx_kept B c) (on_grid (\<lambda>t gd. grid_view_clear t gd x' y m 1 bg) c)"
    by (rule on_grid_kept [OF assms(1)], rule view_clear_keeps [OF grid_of [OF assms(1)] bg_okD [OF assms(2)]])
  show "keeps (ctx_kept B c1) (note_clear x n bg c1)" if "ctx_kept B c c1" for c1
    by (rule note_clear_kept) (use that assms in \<open>auto simp: ctx_kept_def\<close>)
qed

lemma clearendofline_kept [writer_kept]:
  assumes "settled B c" "bg_ok bg"
  shows "keeps (ctx_kept B c) (screen_write_clearendofline bg c)"
proof -
  note d = screen_fitD [OF settledD(1) [OF assms(1)]]
  show ?thesis unfolding screen_write_clearendofline_def Let_def
    by (rule keeps_if, rule clearline_kept [OF assms], rule keeps_if, rule ctx_same [OF assms(1)], rule clear_and_note [OF assms])
      (use d(2,10) in \<open>auto simp: screen_size_x_def\<close>)
qed

lemma clearstartofline_kept [writer_kept]:
  assumes "settled B c" "bg_ok bg"
  shows "keeps (ctx_kept B c) (screen_write_clearstartofline bg c)"
proof -
  note d = screen_fitD [OF settledD(1) [OF assms(1)]]
  show ?thesis unfolding screen_write_clearstartofline_def Let_def
    by (rule keeps_if, rule clearline_kept [OF assms], rule clear_and_note [OF assms]) (use d(2,10) in \<open>auto simp: screen_size_x_def\<close>)
qed

section \<open>Scrolling\<close>

lemma reverseindex_kept [writer_kept]:
  assumes "settled B c" "bg_ok bg"
  shows "keeps (ctx_kept B c) (screen_write_reverseindex bg c)"
  using grid_of [OF assms(1)] bg_okD [OF assms(2)] set_cursor_kept [OF assms(1)] ctx_kept_refl [OF assms(1)]
  by (auto simp: screen_write_reverseindex_def Let_def intro!: on_grid_flush [OF assms(1)] view_scroll_region_down_keeps)

lemma wrapped_line: "line_ok t gl \<Longrightarrow> line_ok t (gl\<lparr>gl_flags := insert LINE_WRAPPED (gl_flags gl)\<rparr>)"
  unfolding line_ok_def cells_ok_def ext_def off_def by force

lemma wrapped_grid:
  assumes "grid_fit B t gd" "y < hsize gd + g_sy gd"
  shows "grid_kept B t gd (set_line gd y ((linedata gd ! y)\<lparr>gl_flags := insert LINE_WRAPPED (gl_flags (linedata gd ! y))\<rparr>), t)"
proof -
  have ok: "grid_ok t gd" using assms(1) by (simp add: grid_fit_def)
  have l: "line_ok t ((linedata gd ! y)\<lparr>gl_flags := insert LINE_WRAPPED (gl_flags (linedata gd ! y))\<rparr>)"
    using wrapped_line grid_ok_line [OF ok assms(2)] by blast
  show ?thesis by (rule same_size_kept [OF assms(1) set_line_ok(1) [OF ok assms(2) l table_le_refl] fit_table [OF assms(1)] table_le_refl]) simp_all
qed

lemma scroll_background_kept: "settled B c \<Longrightarrow> keeps (ctx_kept B c) (scroll_background bg c)"
proof -
  assume a: "settled B c"
  have "ctx_kept B c1 (c1\<lparr>w_bg := bg\<rparr>)" if "ctx_kept B c c1" for c1
    using ctx_keptD(1) [OF that] settledD(1,3) [OF ctx_keptD(1) [OF that]] screen_fitD [OF settledD(1) [OF ctx_keptD(1) [OF that]]]
    by (intro plain_kept) simp_all
  then show ?thesis unfolding scroll_background_def
    by (intro keeps_if ctx_bind [OF flush_kept [OF a]] ctx_same [OF a]) simp
qed

lemma scroll_one_kept:
  assumes "settled B c" "bg_ok bg"
  shows "keeps (ctx_kept B c) (scroll_one bg c)"
proof -
  note d = screen_fitD [OF settledD(1) [OF assms(1)]]
  have f: "keeps (ctx_kept B c) (on_grid (\<lambda>t gd. grid_view_scroll_region_up (e_now (w_env c)) t gd (s_rupper (w_s c)) (s_rlower (w_s c)) bg) c)"
    by (rule on_grid_kept [OF assms(1)], rule view_scroll_region_up_keeps [OF d(1) bg_okD(1) [OF assms(2)] d(4,5)])
  show ?thesis unfolding scroll_one_def by (rule ctx_bind [OF f], rule collect_scroll_kept, erule ctx_keptD(1))
qed

lemma scrolled_kept: "settled B c \<Longrightarrow> ctx_kept B c (c\<lparr>w_scrolled := n\<rparr>)"
  using settledD(1,3) [of B c] screen_fitD [OF settledD(1), of B c] by (intro plain_kept) simp_all

lemma linefeed_kept [writer_kept]:
  assumes "settled B c" "bg_ok bg"
  shows "keeps (ctx_kept B c) (screen_write_linefeed wrap bg c)"
proof -
  let ?gd = "s_grid (w_s c)"
  let ?y = "hsize ?gd + s_cy (w_s c)"
  define c1 where "c1 = (if wrap then c\<lparr>w_s := (w_s c)\<lparr>s_grid := set_line ?gd ?y ((linedata ?gd ! ?y)\<lparr>gl_flags := insert LINE_WRAPPED (gl_flags (linedata ?gd ! ?y))\<rparr>)\<rparr>\<rparr> else c)"
  note d = screen_fitD [OF settledD(1) [OF assms(1)]]
  have "keeps (grid_kept B (w_table c) ?gd) (Some (set_line ?gd ?y ((linedata ?gd ! ?y)\<lparr>gl_flags := insert LINE_WRAPPED (gl_flags (linedata ?gd ! ?y))\<rparr>), w_table c))"
    using wrapped_grid [OF d(1), of ?y] d(3) by simp
  from on_grid_kept [OF assms(1), of "\<lambda>t gd. Some (set_line ?gd ?y ((linedata ?gd ! ?y)\<lparr>gl_flags := insert LINE_WRAPPED (gl_flags (linedata ?gd ! ?y))\<rparr>), t)", OF this]
  have c1: "ctx_kept B c c1" using ctx_kept_refl [OF assms(1)] by (simp add: c1_def on_grid_def)
  have 2: "keeps (ctx_kept B c2) (let s = w_s c2 in if s_cy s = s_rlower s
     then do { c3 \<leftarrow> scroll_one bg c2; Some (c3\<lparr>w_scrolled := w_scrolled c3 + 1\<rparr>) }
     else if s_cy s < screen_size_y s - 1 then Some (screen_write_set_cursor (- 1) (int (s_cy s) + 1) c2) else Some c2)"
    if k: "settled B c2" for c2
    unfolding Let_def
    by (intro keeps_if ctx_bind [OF scroll_one_kept [OF k assms(2)]] ctx_Some scrolled_kept set_cursor_kept k ctx_kept_refl) (erule ctx_keptD(1))
  show ?thesis unfolding screen_write_linefeed_def
    by (simp only: Let_def [of "s_grid (w_s c)"] Let_def [of "hsize ?gd + s_cy (w_s c)"] c1_def [symmetric] Let_def [of c1])
      (intro ctx_via [OF c1] ctx_bind [OF scroll_background_kept] 2 ctx_keptD(1) [OF c1], erule ctx_keptD(1))
qed

lemma scroll_many_kept: "settled B c \<Longrightarrow> bg_ok bg \<Longrightarrow> keeps (ctx_kept B c) (scroll_many n bg c)"
  by (induction n arbitrary: c) (auto simp: ctx_kept_refl intro!: ctx_bind scroll_one_kept dest: ctx_keptD(1))

lemma scrollup_kept [writer_kept]:
  assumes "settled B c" "bg_ok bg"
  shows "keeps (ctx_kept B c) (screen_write_scrollup n bg c)"
  unfolding screen_write_scrollup_def Let_def
  by (intro ctx_bind [OF scroll_background_kept [OF assms(1)]] ctx_bind [OF scroll_many_kept [OF _ assms(2)]] ctx_Some scrolled_kept)
    (erule ctx_keptD(1))+

lemma scroll_down_many_kept: "settled B c \<Longrightarrow> bg_ok bg \<Longrightarrow> keeps (ctx_kept B c) (scroll_down_many n bg c)"
  by (induction n arbitrary: c)
    (auto simp: ctx_kept_refl intro!: ctx_bind on_grid_kept view_scroll_region_down_keeps grid_of dest: ctx_keptD(1) bg_okD)

lemma scrolldown_kept [writer_kept]:
  assumes "settled B c" "bg_ok bg"
  shows "keeps (ctx_kept B c) (screen_write_scrolldown n bg c)"
  unfolding screen_write_scrolldown_def
  by (rule ctx_bind [OF scroll_down_many_kept [OF assms]], rule flush_kept, erule ctx_keptD(1))

section \<open>Clearing the screen\<close>

lemma asked_kept: "settled B c \<Longrightarrow> ctx_kept B c (asked c)"
  using settledD(1,3) [of B c] screen_fitD [OF settledD(1), of B c] unfolding asked_def by (intro plain_kept) simp_all

lemma clear_spans_kept:
  "settled B c \<Longrightarrow> \<forall>(x, n) \<in> set spans. x + n \<le> g_sx (s_grid (w_s c)) \<Longrightarrow> keeps (ctx_kept B c) (clear_spans spans bg c)"
proof (induction spans arbitrary: c)
  case (Cons span spans)
  obtain x n where span: "span = (x, n)" by (cases span)
  have le: "x + n \<le> g_sx (s_grid (w_s c))" "\<forall>(x, n) \<in> set spans. x + n \<le> g_sx (s_grid (w_s c))" using Cons.prems(2) span by simp_all
  show ?case unfolding span clear_spans.simps
    by (rule ctx_bind [OF insert_clear_kept [OF Cons.prems(1) le(1)]], rule Cons.IH) (use le(2) in \<open>simp_all add: ctx_keptD\<close>)
qed (simp add: ctx_kept_refl)

text \<open>The visible parts of a part of a line.\<close>

lemma spans_kept:
  assumes "settled B c" "x + n \<le> g_sx (s_grid (w_s c))" "w_env c' = w_env c"
  shows "keeps (ctx_kept B c) (clear_spans (da_spans (answer c') y x n) bg (asked c))"
proof (rule ctx_via [OF asked_kept [OF assms(1)]], rule clear_spans_kept)
  show "settled B (asked c)" using ctx_keptD(1) [OF asked_kept [OF assms(1)]] .
  have "\<forall>(px, nx) \<in> set (da_spans (answer c') y x n). px + nx \<le> x + n"
    using settledD(2) [OF assms(1)] assms(3) by (simp add: spans_in_def answer_def)
  then show "\<forall>(px, nx) \<in> set (da_spans (answer c') y x n). px + nx \<le> g_sx (s_grid (w_s (asked c)))"
    using assms(2) by (fastforce simp: asked_def)
qed

lemma clear_span_lines_kept: "settled B c \<Longrightarrow> keeps (ctx_kept B c) (clear_span_lines ys bg c)"
proof (induction ys arbitrary: c)
  case (Cons y ys)
  let ?c1 = "screen_write_set_cursor 0 (int y) c"
  have 1: "ctx_kept B c ?c1" using set_cursor_kept [OF Cons.prems] .
  show ?case unfolding clear_span_lines.simps Let_def
    by (rule ctx_via [OF 1], rule ctx_bind [OF spans_kept [OF ctx_keptD(1) [OF 1]]])
      (auto simp: screen_size_x_def intro: Cons.IH dest: ctx_keptD(1))
qed (simp add: ctx_kept_refl)

lemma clear_kept:
  assumes "settled B c" "bg_ok bg"
  shows "keeps (ctx_kept B c) (on_grid (\<lambda>t gd. grid_view_clear t gd x y nx ny bg) c)"
  by (rule on_grid_kept [OF assms(1)], rule view_clear_keeps [OF grid_of [OF assms(1)] bg_okD [OF assms(2)]])

lemma clear_to_history_kept:
  assumes "settled B c" "bg_ok bg" "g_history (s_grid (w_s c))"
  shows "keeps (ctx_kept B c) (on_grid (\<lambda>t gd. grid_view_clear_history now t gd bg) c)"
  by (rule on_grid_kept [OF assms(1)], rule view_clear_history_keeps [OF grid_of [OF assms(1)] assms(3) bg_okD [OF assms(2)]])

lemma clearendofscreen_kept [writer_kept]:
  assumes "settled B c" "bg_ok bg"
  shows "keeps (ctx_kept B c) (screen_write_clearendofscreen bg c)"
proof -
  let ?s = "w_s c"
  let ?sx = "screen_size_x ?s" let ?sy = "screen_size_y ?s"
  note d = screen_fitD [OF settledD(1) [OF assms(1)]]
  have 1: "keeps (ctx_kept B c) (if s_cx ?s = 0 \<and> s_cy ?s = 0 \<and> g_history (s_grid ?s) \<and> e_pane (w_env c) \<and> e_scroll_on_clear (w_env c)
            then on_grid (\<lambda>t gd. grid_view_clear_history (e_now (w_env c)) t gd bg) c
            else do {
              c' \<leftarrow> (if s_cx ?s < ?sx then on_grid (\<lambda>t gd. grid_view_clear t gd (s_cx ?s) (s_cy ?s) (?sx - s_cx ?s) 1 bg) c else Some c);
              on_grid (\<lambda>t gd. grid_view_clear t gd 0 (s_cy ?s + 1) ?sx (?sy - (s_cy ?s + 1)) bg) c'
            })"
    by (intro keeps_if clear_to_history_kept [OF assms] ctx_bind [where r = "if _ then _ else _"] clear_kept [OF assms] ctx_same [OF assms(1)] clear_kept [OF _ assms(2)])
      (auto dest: ctx_keptD(1))
  have 2: "keeps (ctx_kept B c1) (screen_write_collect_clear (s_cy ?s + 1) (?sy - (s_cy ?s + 1)) c1)" if "ctx_kept B c c1" for c1
    by (rule collect_clear_kept [OF ctx_keptD(1) [OF that]]) (use d(3) ctx_keptD(4) [OF that] in \<open>simp add: screen_size_y_def\<close>)
  have 4: "keeps (ctx_kept B c3) (if s_cx ?s < ?sx then clear_spans (da_spans (answer c3) (s_cy ?s) (s_cx ?s) (?sx - s_cx ?s)) bg (asked c3) else Some (asked c3))"
    if "settled B c3" "g_sx (s_grid (w_s c3)) = g_sx (s_grid ?s)" for c3
    by (intro keeps_if spans_kept [OF that(1)] ctx_Some asked_kept [OF that(1)]) (use that(2) in \<open>simp_all add: screen_size_x_def\<close>)
  have 3: "keeps (ctx_kept B c3) (if \<not> draws_spans c3 then Some (asked c3)
     else do {
       c4 \<leftarrow> (if s_cx ?s < ?sx then clear_spans (da_spans (answer c3) (s_cy ?s) (s_cx ?s) (?sx - s_cx ?s)) bg (asked c3) else Some (asked c3));
       c5 \<leftarrow> clear_span_lines [s_cy ?s + 1..<?sy] bg c4;
       Some (screen_write_set_cursor (int (s_cx ?s)) (int (s_cy ?s)) c5)
     })" if "settled B c3" "g_sx (s_grid (w_s c3)) = g_sx (s_grid ?s)" for c3
    by (intro keeps_if ctx_Some asked_kept [OF that(1)] ctx_bind [OF 4 [OF that]] ctx_bind [OF clear_span_lines_kept] set_cursor_kept) (erule ctx_keptD(1))+
  show ?thesis unfolding screen_write_clearendofscreen_def Let_def
    by (rule ctx_bind [OF 1], rule ctx_bind [OF 2], assumption, rule ctx_bind [OF flush_kept], erule ctx_keptD(1), rule 3) (simp_all add: ctx_keptD)
qed

lemma clearstartofscreen_kept [writer_kept]:
  assumes "settled B c" "bg_ok bg"
  shows "keeps (ctx_kept B c) (screen_write_clearstartofscreen bg c)"
proof -
  let ?s = "w_s c"
  let ?sx = "screen_size_x ?s"
  note d = screen_fitD [OF settledD(1) [OF assms(1)]]
  have 1: "keeps (ctx_kept B c) (if s_cy ?s > 0 then on_grid (\<lambda>t gd. grid_view_clear t gd 0 0 ?sx (s_cy ?s) bg) c else Some c)"
    by (intro keeps_if clear_kept [OF assms] ctx_same [OF assms(1)])
  have 2: "keeps (ctx_kept B c2) (screen_write_collect_clear 0 (s_cy ?s) c2)" if "settled B c2" "g_sy (s_grid (w_s c2)) = g_sy (s_grid ?s)" for c2
    by (rule collect_clear_kept [OF that(1)]) (use d(3) that(2) in simp)
  have 3: "keeps (ctx_kept B c5) (let c6 = screen_write_set_cursor 0 (int (s_cy (w_s c5))) c5 in
       clear_spans (da_spans (answer c6) (s_cy ?s) 0 (s_cx (w_s c6) + 1)) bg (asked c6) \<bind> (\<lambda>c7. Some (screen_write_set_cursor (int (s_cx ?s)) (int (s_cy ?s)) c7)))"
    if k: "settled B c5" for c5
  proof -
    define c6 where "c6 = screen_write_set_cursor 0 (int (s_cy (w_s c5))) c5"
    have 6: "ctx_kept B c5 c6" using set_cursor_kept [OF k] by (simp add: c6_def)
    note d6 = screen_fitD [OF settledD(1) [OF ctx_keptD(1) [OF 6]]]
    have "s_cx (w_s c6) = 0" using screen_fitD(3) [OF settledD(1) [OF k]]
      by (auto simp: c6_def screen_write_set_cursor_def Let_def u32_def screen_size_x_def)
    then have "0 + (s_cx (w_s c6) + 1) \<le> g_sx (s_grid (w_s c6))" using d6(10) by simp
    from spans_kept [OF ctx_keptD(1) [OF 6] this refl]
    show ?thesis unfolding Let_def c6_def [symmetric]
      by (intro ctx_via [OF 6] ctx_bind [where r = "clear_spans _ _ _"] ctx_Some set_cursor_kept) (auto dest: ctx_keptD(1))
  qed
  have 4: "keeps (ctx_kept B c4) (if \<not> draws_spans c4 then Some (asked c4)
     else do {
       c5 \<leftarrow> clear_span_lines [0..<s_cy ?s] bg (asked c4);
       let c6 = screen_write_set_cursor 0 (int (s_cy (w_s c5))) c5;
       c7 \<leftarrow> clear_spans (da_spans (answer c6) (s_cy ?s) 0 (s_cx (w_s c6) + 1)) bg (asked c6);
       Some (screen_write_set_cursor (int (s_cx ?s)) (int (s_cy ?s)) c7)
     })" if "settled B c4" for c4
    by (intro keeps_if ctx_Some asked_kept [OF that] ctx_via [OF asked_kept [OF that]]
        ctx_bind [OF clear_span_lines_kept [OF ctx_keptD(1) [OF asked_kept [OF that]]]] 3) (erule ctx_keptD(1))
  show ?thesis unfolding screen_write_clearstartofscreen_def Let_def [of ?s] Let_def [of ?sx]
    by (rule ctx_bind [OF 1], rule ctx_bind [OF clear_kept [OF _ assms(2)]], erule ctx_keptD(1), rule ctx_bind [OF 2], erule ctx_keptD(1),
        simp add: ctx_kept_def, rule ctx_bind [OF flush_kept], erule ctx_keptD(1), rule 4, erule ctx_keptD(1))
qed

lemma clearscreen_kept [writer_kept]:
  assumes "settled B c" "bg_ok bg"
  shows "keeps (ctx_kept B c) (screen_write_clearscreen bg c)"
proof -
  let ?s = "w_s c"
  let ?sx = "screen_size_x ?s" let ?sy = "screen_size_y ?s"
  have 1: "keeps (ctx_kept B c) (if g_history (s_grid ?s) \<and> e_pane (w_env c) \<and> e_scroll_on_clear (w_env c)
            then on_grid (\<lambda>t gd. grid_view_clear_history (e_now (w_env c)) t gd bg) c
            else on_grid (\<lambda>t gd. grid_view_clear t gd 0 0 ?sx ?sy bg) c)"
    by (intro keeps_if clear_to_history_kept [OF assms] clear_kept [OF assms]) simp
  have 2: "keeps (ctx_kept B c1) (screen_write_collect_clear 0 ?sy c1)" if "ctx_kept B c c1" for c1
    by (rule collect_clear_kept [OF ctx_keptD(1) [OF that]]) (use ctx_keptD(4) [OF that] in \<open>simp add: screen_size_y_def\<close>)
  have 3: "keeps (ctx_kept B c2) (if \<not> draws_spans c2 then Some (asked c2)
     else do {
       c3 \<leftarrow> clear_span_lines [0..<?sy] bg (asked c2);
       Some (screen_write_set_cursor (int (s_cx ?s)) (int (s_cy ?s)) c3)
     })" if "settled B c2" for c2
    by (intro keeps_if ctx_Some asked_kept [OF that] ctx_via [OF asked_kept [OF that]]
        ctx_bind [OF clear_span_lines_kept [OF ctx_keptD(1) [OF asked_kept [OF that]]]] set_cursor_kept) (erule ctx_keptD(1))
  show ?thesis unfolding screen_write_clearscreen_def Let_def
    by (rule ctx_bind [OF 1], rule ctx_bind [OF 2], assumption, rule 3, erule ctx_keptD(1))
qed

lemma clearhistory_kept [writer_kept]:
  assumes "settled B c"
  shows "ctx_kept B c (screen_write_clearhistory c)"
proof -
  have "keeps (grid_kept B (w_table c) (s_grid (w_s c))) (Some (grid_clear_history (s_grid (w_s c)), w_table c))"
    using clear_history_kept [OF grid_of [OF assms]] by simp
  from on_grid_kept [OF assms, of "\<lambda>t gd. Some (grid_clear_history gd, t)", OF this] show ?thesis
    by (simp add: on_grid_def screen_write_clearhistory_def)
qed

lemma tabs_kept: "settled B c \<Longrightarrow> ctx_kept B c (c\<lparr>w_s := screen_reset_tabs (w_s c)\<rparr>)"
proof (rule plain_kept)
  assume a: "settled B c"
  have f: "s_grid (screen_reset_tabs s) = s_grid s" "s_cx (screen_reset_tabs s) = s_cx s" "s_cy (screen_reset_tabs s) = s_cy s"
    "s_rupper (screen_reset_tabs s) = s_rupper s" "s_rlower (screen_reset_tabs s) = s_rlower s" "s_write_list (screen_reset_tabs s) = s_write_list s"
    "s_saved_grid (screen_reset_tabs s) = s_saved_grid s" "s_saved_history (screen_reset_tabs s) = s_saved_history s" for s
    by (simp_all add: screen_reset_tabs_def)
  note d = screen_fitD [OF settledD(1) [OF a]]
  show "s_grid (w_s (c\<lparr>w_s := screen_reset_tabs (w_s c)\<rparr>)) = s_grid (w_s c)" "s_write_list (w_s (c\<lparr>w_s := screen_reset_tabs (w_s c)\<rparr>)) = s_write_list (w_s c)"
    "s_saved_grid (w_s (c\<lparr>w_s := screen_reset_tabs (w_s c)\<rparr>)) = s_saved_grid (w_s c)"
    "s_saved_history (w_s (c\<lparr>w_s := screen_reset_tabs (w_s c)\<rparr>)) = s_saved_history (w_s c)"
    "s_cx (w_s (c\<lparr>w_s := screen_reset_tabs (w_s c)\<rparr>)) \<le> g_sx (s_grid (w_s c))" "s_cy (w_s (c\<lparr>w_s := screen_reset_tabs (w_s c)\<rparr>)) < g_sy (s_grid (w_s c))"
    "s_rupper (w_s (c\<lparr>w_s := screen_reset_tabs (w_s c)\<rparr>)) \<le> s_rlower (w_s (c\<lparr>w_s := screen_reset_tabs (w_s c)\<rparr>))"
    "s_rlower (w_s (c\<lparr>w_s := screen_reset_tabs (w_s c)\<rparr>)) < g_sy (s_grid (w_s c))"
    using f d by simp_all
  show "g_sx (s_grid (w_s c)) \<le> length (s_tabs (w_s (c\<lparr>w_s := screen_reset_tabs (w_s c)\<rparr>)))"
    using reset_tabs_length [of "w_s c"] by (simp add: screen_size_x_def)
qed (simp_all add: settledD(3))

lemma set_mode_kept: "settled B c \<Longrightarrow> ctx_kept B c (c\<lparr>w_s := (w_s c)\<lparr>s_mode := mode\<rparr>\<rparr>)"
  using settledD(1,3) [of B c] screen_fitD [OF settledD(1), of B c] by (intro plain_kept) simp_all

lemma reset_kept [writer_kept]:
  assumes "settled B c"
  shows "keeps (ctx_kept B c) (screen_write_reset c)"
proof -
  note t = tabs_kept [OF assms]
  show ?thesis unfolding screen_write_reset_def Let_def
    by (rule ctx_via [OF t], rule ctx_bind [OF scrollregion_kept [OF ctx_keptD(1) [OF t]]], rule ctx_via [OF set_mode_kept], erule ctx_keptD(1),
        rule ctx_bind [OF clearscreen_kept [OF ctx_keptD(1) [OF set_mode_kept]]], erule ctx_keptD(1), simp, rule ctx_Some, rule set_cursor_kept, erule ctx_keptD(1))
qed

section \<open>The alternate screen\<close>

lemma alternateon_kept [writer_kept]:
  assumes "settled B c"
  shows "keeps (ctx_kept B c) (screen_write_alternateon gc cursor c)"
proof -
  have "keeps (ctx_kept B c1) (do { (s, t) \<leftarrow> screen_alternate_on (w_table c1) (w_s c1) gc cursor; Some (c1\<lparr>w_s := s, w_table := t\<rparr>) })"
    if k: "settled B c1" for c1
  proof (cases "s_saved_grid (w_s c1)")
    case None
    obtain s t where s: "screen_alternate_on (w_table c1) (w_s c1) gc cursor = Some (s, t)" "screen_fit B t s" "table_le (w_table c1) t"
      "same_grid (s_grid (w_s c1)) ((s_grid s)\<lparr>g_history := g_history (s_grid (w_s c1))\<rparr>)"
      using alternate_on_spec [OF settledD(1) [OF k] None, of gc cursor] by blast
    have w: "s_write_list s = s_write_list (w_s c1)"
      using s(1) None by (auto simp: screen_alternate_on_def Let_def split: bind_splits)
    obtain cls where cls: "s_write_list (w_s c1) = Some cls" "\<forall>cl \<in> set cls. cline_ok (g_sx (s_grid (w_s c1))) cl"
      using settledD(4) [OF k] by blast
    have "settled B (c1\<lparr>w_s := s, w_table := t\<rparr>)"
      by (rule settledI [where cls = cls]) (use s w cls settledD(2,3) [OF k] in \<open>auto simp: same_grid_def\<close>)
    then show ?thesis using s by (simp add: ctx_kept_def same_grid_def)
  next
    case (Some g)
    then show ?thesis using ctx_kept_refl [OF k] by (simp add: screen_alternate_on_def)
  qed
  then show ?thesis unfolding screen_write_alternateon_def
    by (intro keeps_if ctx_same [OF assms] ctx_bind [OF flush_kept [OF assms]]) (blast dest: ctx_keptD(1))
qed

lemma alternateoff_kept [writer_kept]:
  assumes "settled B c"
  shows "keeps (\<lambda>(c', gc'). ctx_kept B c c') (screen_write_alternateoff gc cursor c)"
proof -
  have "\<exists>c2 gc'. do { (s, t, gc') \<leftarrow> screen_alternate_off (w_table c1) (w_s c1) gc cursor; Some (c1\<lparr>w_s := s, w_table := t\<rparr>, gc') } = Some (c2, gc') \<and> ctx_kept B c1 c2"
    if k: "settled B c1" for c1
  proof -
    note f = settledD(1) [OF k]
    obtain s where s: "screen_alternate_off (w_table c1) (w_s c1) gc cursor = Some (s, w_table c1, restored_cell cursor (w_s c1) gc)"
      "screen_fit B (w_table c1) s" "s_grid s = restored_grid (w_s c1)"
      "s_write_list s = (if s_saved_grid (w_s c1) = None then s_write_list (w_s c1) else s_write_list (fresh_list (w_s c1)))"
      using alternate_off_spec [OF f, of gc cursor] by blast
    have sz: "g_sx (s_grid s) = g_sx (s_grid (w_s c1))" "g_sy (s_grid s) = g_sy (s_grid (w_s c1))" using restored_size [OF f] s(3) by simp_all
    obtain cls where cls: "s_write_list (w_s c1) = Some cls" "\<forall>cl \<in> set cls. cline_ok (g_sx (s_grid (w_s c1))) cl"
      using settledD(4) [OF k] by blast
    obtain cls' where w: "s_write_list s = Some cls'" "\<forall>cl \<in> set cls'. cline_ok (g_sx (s_grid (w_s c1))) cl"
      using s(4) cls by (cases "s_saved_grid (w_s c1) = None") (auto simp: cline_ok_def empty_cline_def)
    have "settled B (c1\<lparr>w_s := s\<rparr>)"
      by (rule settledI [where cls = cls']) (use s w sz settledD(2,3) [OF k] in auto)
    then have "ctx_kept B c1 (c1\<lparr>w_s := s, w_table := w_table c1\<rparr>)" using sz by (simp add: ctx_kept_def)
    then show ?thesis using s(1) by auto
  qed
  note step = this
  obtain c1 where c1: "screen_write_collect_flush False c = Some c1" "ctx_kept B c c1" using flush_kept [OF assms, of False] by (auto simp: keeps_def)
  obtain c2 gc' where c2: "do { (s, t, gc') \<leftarrow> screen_alternate_off (w_table c1) (w_s c1) gc cursor; Some (c1\<lparr>w_s := s, w_table := t\<rparr>, gc') } = Some (c2, gc')"
    "ctx_kept B c1 c2" using step [OF ctx_keptD(1) [OF c1(2)]] by blast
  have "keeps (\<lambda>(c', gc'). ctx_kept B c c') (Some (c2, gc'))" using ctx_kept_trans [OF c1(2) c2(2)] by simp
  then show ?thesis unfolding screen_write_alternateoff_def c1(1) Option.bind.bind_lunit c2(1)
    using ctx_kept_refl [OF assms] by simp
qed

end
