(* ===== verification/Screen_Cell_Sound.thy ===== *)
theory Screen_Cell_Sound
  imports Screen_Write_Sound Screen_Resize
begin

text \<open>
  Writing characters keeps the invariant of the screen writer too, and with that every operation does: no sequence
  of operations makes the writer panic, and the list of items is never out of order when it is drawn.
\<close>

section \<open>Single characters\<close>

lemma put_kept: "settled B c \<Longrightarrow> cell_safe gc \<Longrightarrow> keeps (ctx_kept B c) (put x gc c)"
  unfolding put_def by (intro on_grid_kept view_set_cell_keeps grid_of)

lemma padding_kept: "settled B c \<Longrightarrow> keeps (ctx_kept B c) (on_grid (\<lambda>t gd. grid_view_set_padding t gd x y) c)"
  by (intro on_grid_kept view_set_padding_keeps grid_of)

lemma get_cell_Some:
  assumes "settled B c"
  shows "\<exists>gc. get_cell c x = Some gc \<and> length (ud_data (gc_data gc)) = UTF8_SIZE"
  using view_get_cell_keeps [OF grid_of [OF assms]] by (auto simp: get_cell_def keeps_def)

text \<open>Steps that give a value too.\<close>

definition pair_kept :: "nat \<Rightarrow> screen_write_ctx \<Rightarrow> 'a \<times> screen_write_ctx \<Rightarrow> bool" where
  "pair_kept B c r \<longleftrightarrow> ctx_kept B c (snd r)"

lemma pair_Some [simp]: "pair_kept B c (a, c') = ctx_kept B c c'"
  by (simp add: pair_kept_def)

lemma pair_bind:
  assumes "keeps (pair_kept B c) r" "\<And>a c'. ctx_kept B c c' \<Longrightarrow> keeps (ctx_kept B c') (f a c')"
  shows "keeps (ctx_kept B c) (r \<bind> (\<lambda>(a, c'). f a c'))"
proof -
  obtain a c' where r: "r = Some (a, c')" "ctx_kept B c c'" using assms(1) by (auto simp: keeps_def pair_kept_def)
  then show ?thesis using assms(2) [OF r(2), of a] ctx_kept_trans by (auto simp: keeps_def)
qed

lemma bind_pair:
  assumes "keeps (ctx_kept B c) r" "\<And>c'. ctx_kept B c c' \<Longrightarrow> keeps (pair_kept B c') (f c')"
  shows "keeps (pair_kept B c) (r \<bind> f)"
proof -
  obtain c' where r: "r = Some c'" "ctx_kept B c c'" using assms(1) by (auto simp: keeps_def)
  then show ?thesis using assms(2) [OF r(2)] ctx_kept_trans by (fastforce simp: keeps_def pair_kept_def)
qed

lemma pair_pair:
  assumes "keeps (pair_kept B c) r" "\<And>a c'. ctx_kept B c c' \<Longrightarrow> keeps (pair_kept B c') (f a c')"
  shows "keeps (pair_kept B c) (r \<bind> (\<lambda>(a, c'). f a c'))"
proof -
  obtain a c' where r: "r = Some (a, c')" "ctx_kept B c c'" using assms(1) by (auto simp: keeps_def pair_kept_def)
  then show ?thesis using assms(2) [OF r(2), of a] ctx_kept_trans by (fastforce simp: keeps_def pair_kept_def)
qed

lemma clear_padding_left_kept: "settled B c \<Longrightarrow> \<exists>x gc c'. clear_padding_left g n c = Some (x, gc, c') \<and> ctx_kept B c c'"
proof (induction n arbitrary: g c)
  case (Suc n)
  obtain gc where g: "get_cell c (Suc n) = Some gc" using get_cell_Some [OF Suc.prems] by blast
  obtain c1 where c1: "put (Suc n) GRID_DEFAULT_CELL c = Some c1" "ctx_kept B c c1"
    using put_kept [OF Suc.prems default_safe(1)] by (auto simp: keeps_def)
  obtain x gc' c' where "clear_padding_left gc n c1 = Some (x, gc', c')" "ctx_kept B c1 c'"
    using Suc.IH [OF ctx_keptD(1) [OF c1(2)]] by blast
  then show ?case using g c1 ctx_kept_trans [OF c1(2)] ctx_kept_refl [OF Suc.prems] by simp
qed (simp add: ctx_kept_refl)

lemma clear_padding_right_kept:
  "settled B c \<Longrightarrow> (\<And>gc. length (ud_data (gc_data gc)) = UTF8_SIZE \<Longrightarrow> cell_safe (new gc)) \<Longrightarrow> keeps (pair_kept B c) (clear_padding_right new xs c)"
proof (induction xs arbitrary: c)
  case (Cons x xs)
  obtain gc where g: "get_cell c x = Some gc" "length (ud_data (gc_data gc)) = UTF8_SIZE" using get_cell_Some [OF Cons.prems(1)] by blast
  have "keeps (pair_kept B c) (put x (new gc) c \<bind> (\<lambda>c1. clear_padding_right new xs c1 \<bind> (\<lambda>(b, c2). Some (True, c2))))"
    by (rule bind_pair [OF put_kept [OF Cons.prems(1) Cons.prems(2) [OF g(2)]]], rule pair_pair [OF Cons.IH])
      (auto simp: Cons.prems(2) ctx_kept_refl dest: ctx_keptD(1))
  then show ?case using g ctx_kept_refl [OF Cons.prems(1)] by simp
qed (simp add: ctx_kept_refl)

lemma space_safe: "cell_safe (gc\<lparr>gc_data := utf8_set (CHR '' '')\<rparr>)" if "TAB \<in> gc_flags gc"
  using that by (simp add: cell_safe_def utf8_set_def UTF8_SIZE_def)

lemma overwrite_kept:
  assumes "settled B c"
  shows "keeps (pair_kept B c) (screen_write_overwrite gc width c)"
proof -
  obtain x g c' where l: "clear_padding_left zeroed_cell (s_cx (w_s c)) c = Some (x, g, c')" "ctx_kept B c c'"
    using clear_padding_left_kept [OF assms] by blast
  have 1: "keeps (ctx_kept B c) (if PADDING \<in> gc_flags gc
      then do { (xx, cell, c') \<leftarrow> clear_padding_left zeroed_cell (s_cx (w_s c)) c; put xx GRID_DEFAULT_CELL c' } else Some c)"
    using ctx_via [OF l(2) put_kept [OF ctx_keptD(1) [OF l(2)] default_safe(1)]] l(1) ctx_kept_refl [OF assms] by simp
  have 2: "keeps (pair_kept B c1)
     (if width \<noteq> 1 \<or> ud_width (gc_data gc) \<noteq> 1 \<or> PADDING \<in> gc_flags gc
      then clear_padding_right (\<lambda>_. if TAB \<in> gc_flags gc then gc\<lparr>gc_data := utf8_set (CHR '' '')\<rparr> else GRID_DEFAULT_CELL)
             [s_cx (w_s c) + width..<screen_size_x (w_s c1)] c1
      else Some (False, c1))" if "settled B c1" for c1
    using clear_padding_right_kept [OF that] ctx_kept_refl [OF that] by (simp add: space_safe default_safe)
  show ?thesis unfolding screen_write_overwrite_def Let_def
    by (rule bind_pair [OF 1], rule pair_pair [OF 2], erule ctx_keptD(1)) (simp add: ctx_kept_refl ctx_keptD(1))
qed

lemma set_paddings_kept: "settled B c \<Longrightarrow> keeps (ctx_kept B c) (set_paddings xs c)"
  by (induction xs arbitrary: c) (auto simp: ctx_kept_refl intro!: ctx_bind padding_kept dest: ctx_keptD(1))

lemma selected_safe: "cell_safe gc \<Longrightarrow> cell_safe (gc\<lparr>gc_flags := insert SELECTED (gc_flags gc)\<rparr>)" "cell_safe gc \<Longrightarrow> cell_safe (gc\<lparr>gc_flags := gc_flags gc - {SELECTED}\<rparr>)"
  by (auto simp: cell_safe_def split: if_splits)

lemma store_cell_kept: "settled B c \<Longrightarrow> cell_safe gc \<Longrightarrow> keeps (ctx_kept B c) (store_cell skip gc c)"
  unfolding store_cell_def Let_def by (intro keeps_if put_kept ctx_same selected_safe)

lemma advance_kept: "settled B c \<Longrightarrow> ctx_kept B c (advance_cursor width c)"
  by (simp add: advance_cursor_def Let_def set_cursor_kept)

lemma write_here_kept:
  assumes "settled B c" "cell_safe gc"
  shows "keeps (ctx_kept B c) (write_here gc skip c)"
proof -
  obtain now where now: "get_cell c (s_cx (w_s c)) = Some now" using get_cell_Some [OF assms(1)] by blast
  have 1: "keeps (pair_kept B c) (if LINE_EXTENDED \<in> gl_flags (cursor_line c)
       then do { now \<leftarrow> get_cell c (s_cx (w_s c)); screen_write_overwrite now (ud_width (gc_data gc)) c } else Some (False, c))"
    using overwrite_kept [OF assms(1)] now ctx_kept_refl [OF assms(1)] by simp
  have 2: "keeps (ctx_kept B c3) (let c4 = advance_cursor width c3 in
      if MODE_INSERT \<in> s_mode (w_s c4) then screen_write_collect_flush False c4 else Some c4)" if "settled B c3" for c3 width
    unfolding Let_def
    by (rule ctx_via [OF advance_kept [OF that, of width]]) (intro keeps_if flush_kept ctx_same ctx_keptD(1) [OF advance_kept [OF that]])
  show ?thesis unfolding write_here_def Let_def [of "ud_width _"] Let_def [of "s_cx _"] Let_def [of "s_cy _"] Let_def [of "_ \<and> _"]
    by (rule pair_bind [OF 1], rule ctx_bind [OF set_paddings_kept], erule ctx_keptD(1), rule ctx_bind [OF store_cell_kept [OF _ assms(2)]],
        erule ctx_keptD(1), rule 2, erule ctx_keptD(1))
qed

section \<open>Combining\<close>

lemma append_safe:
  assumes "length (ud_data (gc_data g)) = UTF8_SIZE" "cell_safe gc" "ud_width (gc_data g) \<in> {1, 2}" "2 \<le> ud_size (gc_data gc)"
    "ud_size (gc_data g) + ud_size (gc_data gc) \<le> UTF8_SIZE" "w \<in> {1, 2}"
  shows "cell_safe (g\<lparr>gc_data := (append_data (gc_data g) (gc_data gc))\<lparr>ud_width := w\<rparr>\<rparr>)"
proof -
  have "length (ud_data (append_data (gc_data g) (gc_data gc))) = UTF8_SIZE"
    using assms(1,2,5) by (simp add: append_data_def cell_safe_def)
  then show ?thesis using assms(4,6) by (auto simp: cell_safe_def append_data_def UTF8_SIZE_def)
qed

lemma combine_with_kept:
  assumes "settled B c" "cell_safe gc" "length (ud_data (gc_data g)) = UTF8_SIZE" "ud_width (gc_data g) \<in> {1, 2}" "2 \<le> ud_size (gc_data gc)"
    "ud_size (gc_data g) + ud_size (gc_data gc) \<le> UTF8_SIZE"
  shows "keeps (pair_kept B c) (combine_with n g force gc c)"
proof -
  let ?f = "ud_width (gc_data g) = 1 \<and> force"
  let ?cx = "if ?f then s_cx (w_s c) + 1 else s_cx (w_s c)"
  let ?n = "if ?f then 2 else n"
  let ?data = "append_data (gc_data g) (gc_data gc)"
  define new where "new = g\<lparr>gc_data := (if ?f then ?data\<lparr>ud_width := 2\<rparr> else ?data)\<rparr>"
  have w: "?data = ?data\<lparr>ud_width := ud_width (gc_data g)\<rparr>" by (simp add: append_data_def)
  have safe: "cell_safe new"
    using append_safe [OF assms(3,2,4,5,6), of 2] append_safe [OF assms(3,2,4,5,6,4)] w by (simp add: new_def)
  have 2: "keeps (ctx_kept B c1) (on_grid (\<lambda>t gd. grid_view_set_cell t gd x y new) c1)" if "settled B c1" for c1 x y
    by (rule on_grid_kept [OF that], rule view_set_cell_keeps [OF grid_of [OF that] safe])
  have 3: "keeps (ctx_kept B c2) (if ?f then on_grid (\<lambda>t gd. grid_view_set_padding t gd x y) c2 else Some c2)" if "settled B c2" for c2 x y
    by (intro keeps_if padding_kept [OF that] ctx_same [OF that])
  have 4: "keeps (pair_kept B c3) (if b then Some (True, asked c3)
      else Some (True, screen_write_set_cursor x1 y1 (screen_write_set_cursor x2 y2 (asked c3))))" if "settled B c3" for c3 b x1 y1 x2 y2
  proof -
    note a = asked_kept [OF that]
    have "ctx_kept B (asked c3) (screen_write_set_cursor x2 y2 (asked c3))" for x2 y2 using set_cursor_kept [OF ctx_keptD(1) [OF a]] .
    then show ?thesis using a set_cursor_kept ctx_kept_trans ctx_keptD(1) by (simp, meson)
  qed
  show ?thesis unfolding combine_with_def Let_def new_def [symmetric]
    by (rule bind_pair [OF flush_kept [OF assms(1)]], rule bind_pair [OF 2], erule ctx_keptD(1), rule bind_pair [OF 3], erule ctx_keptD(1),
        rule 4, erule ctx_keptD(1))
qed

lemma combine_kept:
  assumes "settled B c" "cell_safe gc"
  shows "keeps (pair_kept B c) (screen_write_combine gc c)"
proof -
  let ?ud = "gc_data gc"
  obtain g1 where g1: "get_cell c (s_cx (w_s c) - 1) = Some g1" "length (ud_data (gc_data g1)) = UTF8_SIZE" using get_cell_Some [OF assms(1)] by blast
  obtain g2 where g2: "get_cell c (s_cx (w_s c) - 2) = Some g2" "length (ud_data (gc_data g2)) = UTF8_SIZE" using get_cell_Some [OF assms(1)] by blast
  obtain n g where b: "cell_before c = Some (n, g)" "n \<in> {1, 2}" "length (ud_data (gc_data g)) = UTF8_SIZE"
  proof (cases "s_cx (w_s c) \<noteq> 1 \<and> PADDING \<in> gc_flags g1")
    case True
    then show ?thesis using that [of 2 g2] g1(1) g2 by (simp add: cell_before_def)
  next
    case False
    then show ?thesis using that [of 1 g1] g1 by (auto simp: cell_before_def Let_def)
  qed
  have go: "keeps (pair_kept B c) (if n \<noteq> ud_width (gc_data g) \<or> p then r1
      else if q1 then r2 else if q2 then r3 else if ud_size (gc_data g) + ud_size ?ud > UTF8_SIZE then r4 else combine_with n g f gc c)"
    if "2 \<le> ud_size ?ud" "keeps (pair_kept B c) r1" "keeps (pair_kept B c) r2" "keeps (pair_kept B c) r3" "keeps (pair_kept B c) r4" for p q1 q2 f r1 r2 r3 r4
    using that b combine_with_kept [OF assms b(3) _ that(1), of n f] by auto
  show ?thesis unfolding screen_write_combine_def Let_def b(1) Option.bind.bind_lunit prod.case
    by (intro keeps_if go) (simp_all add: ctx_kept_refl [OF assms(1)])
qed

lemma wrap_cursor_kept: "settled B c \<Longrightarrow> keeps (ctx_kept B c) (wrap_cursor c)"
  unfolding wrap_cursor_def by (intro ctx_bind [OF linefeed_kept] ctx_Some set_cursor_kept) (auto dest: ctx_keptD(1))

lemma cell_kept [writer_kept]:
  assumes "settled B c" "cell_safe gc"
  shows "keeps (ctx_kept B c) (screen_write_cell gc c)"
proof -
  have 3: "keeps (ctx_kept B c2) (if MODE_INSERT \<in> m then on_grid (\<lambda>t gd. grid_view_insert_cells t gd x y w 8) c2 else Some c2)"
    if "settled B c2" for c2 m x y w
    by (intro keeps_if on_grid_kept [OF that] view_insert_cells_keeps [OF grid_of [OF that]] ctx_same [OF that]) simp_all
  have 4: "keeps (ctx_kept B c3) (if b then do { c' \<leftarrow> wrap_cursor c3; screen_write_collect_flush True c' } else Some c3)"
    if "settled B c3" for c3 b
    by (intro keeps_if ctx_bind [OF wrap_cursor_kept [OF that]] flush_kept ctx_same [OF that]) (erule ctx_keptD(1))
  have 5: "keeps (ctx_kept B c4) (if b then Some c4 else write_here gc k c4)" if "settled B c4" for c4 b k
    by (intro keeps_if write_here_kept [OF that assms(2)] ctx_same [OF that])
  have 2: "keeps (ctx_kept B c1) (do {
      c2 \<leftarrow> screen_write_collect_flush True c1;
      if P c2 then Some c2 else do {
        c3 \<leftarrow> (if MODE_INSERT \<in> s_mode (w_s c2) then on_grid (\<lambda>t gd. grid_view_insert_cells t gd (s_cx (w_s c2)) (s_cy (w_s c2)) w 8) c2 else Some c2);
        c4 \<leftarrow> (if Q c3 then do { c' \<leftarrow> wrap_cursor c3; screen_write_collect_flush True c' } else Some c3);
        if R c4 then Some c4 else write_here gc (MODE_INSERT \<notin> s_mode (w_s c4)) c4
      } })" if "settled B c1" for c1 P Q R w
    by (intro ctx_bind [OF flush_kept [OF that]] keeps_if ctx_same ctx_bind [OF 3] ctx_bind [OF 4] 5) (erule ctx_keptD(1))+
  have 1: "keeps (ctx_kept B c) (screen_write_combine gc c \<bind> (\<lambda>(combined, c1). if combined then Some c1 else f c1))"
    if "\<And>c1. settled B c1 \<Longrightarrow> keeps (ctx_kept B c1) (f c1)" for f
    by (rule pair_bind [OF combine_kept [OF assms]], intro keeps_if ctx_same that) (erule ctx_keptD(1))+
  show ?thesis unfolding screen_write_cell_def Let_def by (intro keeps_if ctx_same [OF assms(1)] 1 2)
qed

section \<open>Collecting characters\<close>

text \<open>The characters that are being collected fit on the line of the cursor, and lie in its buffer.\<close>

definition collecting :: "nat \<Rightarrow> screen_write_ctx \<Rightarrow> bool" where
  "collecting B c \<longleftrightarrow> write_ok B c \<and>
     (ci_used (w_item c) \<noteq> 0 \<longrightarrow> s_cx (w_s c) + ci_used (w_item c) \<le> g_sx (s_grid (w_s c)) \<and> cell_safe (ci_gc (w_item c)) \<and>
        TAB \<notin> gc_flags (ci_gc (w_item c)) \<and> (\<exists>cl d. cursor_cline c = Some cl \<and> cl_data cl = Some d))"

lemma settled_collecting: "settled B c \<Longrightarrow> collecting B c"
  by (simp add: settled_def collecting_def)

text \<open>Storing cells leaves the buffers and the cursor alone.\<close>

definition same_lines :: "screen_write_ctx \<Rightarrow> screen_write_ctx \<Rightarrow> bool" where
  "same_lines c c' \<longleftrightarrow> s_cx (w_s c') = s_cx (w_s c) \<and> s_cy (w_s c') = s_cy (w_s c) \<and> s_write_list (w_s c') = s_write_list (w_s c)"

lemma same_lines_trans: "same_lines a b \<Longrightarrow> same_lines b c \<Longrightarrow> same_lines a c"
  by (simp add: same_lines_def)

lemma on_grid_lines: "on_grid f c = Some c' \<Longrightarrow> same_lines c c'"
  by (auto simp: on_grid_def same_lines_def split: bind_splits)

lemma put_lines: "put x gc c = Some c' \<Longrightarrow> same_lines c c'"
  unfolding put_def by (rule on_grid_lines)

lemma clear_padding_left_lines: "clear_padding_left g n c = Some (x, gc, c') \<Longrightarrow> same_lines c c'"
  by (induction n arbitrary: g c) (auto simp: same_lines_def split: if_splits bind_splits dest!: put_lines)

lemma same_lines_cline: "same_lines c c' \<Longrightarrow> cursor_cline c' = cursor_cline c"
  by (cases "s_write_list (w_s c)") (simp_all add: same_lines_def cursor_cline_def)

lemma cursor_cline_item [simp]: "cursor_cline (c\<lparr>w_item := ci\<rparr>) = cursor_cline c"
  by (cases "s_write_list (w_s c)") (simp_all add: cursor_cline_def)

text \<open>Placing the item keeps the buffers.\<close>

lemma on_items_cline:
  assumes "on_items y f c = Some c'" "cursor_cline c = Some cl"
  shows "\<exists>cl'. cursor_cline c' = Some cl' \<and> cl_data cl' = cl_data cl \<and> s_cx (w_s c') = s_cx (w_s c) \<and> s_cy (w_s c') = s_cy (w_s c)"
  using assms by (auto simp: on_items_def cursor_cline_def nth_list_update split: option.splits if_splits)

lemma cursor_cline_ok:
  assumes "settled B c" "cursor_cline c = Some cl"
  shows "cline_ok (g_sx (s_grid (w_s c))) cl"
  using settledD(4) [OF assms(1)] assms(2) by (auto simp: cursor_cline_def split: if_splits)

lemma on_items_item:
  "on_items y f c = map_option (\<lambda>c'. c'\<lparr>w_item := w_item c\<rparr>) (on_items y f (c\<lparr>w_item := item\<rparr>))"
  by (auto simp: on_items_def split: option.splits)

lemma fresh_settled: "write_ok B c \<Longrightarrow> settled B (c\<lparr>w_item := screen_write_get_citem\<rparr>)"
  by (simp add: settled_def write_ok_def)

lemma collect_end_kept:
  assumes "collecting B c"
  shows "keeps (ctx_kept B (c\<lparr>w_item := screen_write_get_citem\<rparr>)) (screen_write_collect_end c)"
proof (cases "ci_used (w_item c) = 0")
  case True
  then have s: "settled B c" using assms by (simp add: collecting_def settled_def)
  show ?thesis using True s by (simp add: screen_write_collect_end_def ctx_kept_def)
next
  case False
  let ?ci = "w_item c" let ?cx = "s_cx (w_s c)" let ?cy = "s_cy (w_s c)"
  define c0 where "c0 = c\<lparr>w_item := screen_write_get_citem\<rparr>"
  obtain cl d where p: "write_ok B c" "?cx + ci_used ?ci \<le> g_sx (s_grid (w_s c))" "cell_safe (ci_gc ?ci)" "TAB \<notin> gc_flags (ci_gc ?ci)"
    "cursor_cline c = Some cl" "cl_data cl = Some d"
    using assms False by (auto simp: collecting_def)
  have s0: "settled B c0" using fresh_settled [OF p(1)] by (simp add: c0_def)
  have same0: "w_s c0 = w_s c" by (simp add: c0_def)
  note d0 = screen_fitD [OF settledD(1) [OF s0], unfolded same0]
  have "keeps (ctx_kept B c0) (on_items ?cy (place_item (?ci\<lparr>ci_x := ?cx\<rparr>) True) c0)"
    by (rule on_items_kept [OF s0]) (use d0(3) p(2) False same0 in \<open>auto intro!: place_items_ok simp: item_end_def\<close>)
  then obtain c1 where c1: "on_items ?cy (place_item (?ci\<lparr>ci_x := ?cx\<rparr>) True) c0 = Some c1" "ctx_kept B c0 c1" by (auto simp: keeps_def)
  note s1 = ctx_keptD(1) [OF c1(2)]
  have i1: "w_item c1 = screen_write_get_citem" using c1(1) by (auto simp: on_items_def c0_def split: option.splits if_splits)
  have "cursor_cline c0 = Some cl" using p(5) by (simp add: c0_def)
  from on_items_cline [OF c1(1) this] obtain cl1 where
    cl1: "cursor_cline c1 = Some cl1" "cl_data cl1 = Some d" "s_cx (w_s c1) = ?cx" "s_cy (w_s c1) = ?cy" using p(6) same0 by auto
  have c2: "on_items ?cy (place_item (?ci\<lparr>ci_x := ?cx\<rparr>) True) c = Some (c1\<lparr>w_item := ?ci\<rparr>)" "c1\<lparr>w_item := ?ci\<rparr>\<lparr>w_item := screen_write_get_citem\<rparr> = c1"
    using on_items_item [of ?cy _ c screen_write_get_citem] c1(1) i1 by (simp_all add: c0_def)
  obtain xx gc cp where l: "clear_padding_left zeroed_cell ?cx c1 = Some (xx, gc, cp)" "ctx_kept B c1 cp"
    using clear_padding_left_kept [OF s1] by blast
  obtain cq where q: "put xx GRID_DEFAULT_CELL cp = Some cq" "ctx_kept B cp cq"
    using put_kept [OF ctx_keptD(1) [OF l(2)] default_safe(1)] by (auto simp: keeps_def)
  obtain c3 where c3: "(if ?cx \<noteq> 0 then do { (xx, gc, c') \<leftarrow> clear_padding_left zeroed_cell ?cx c1;
        if ud_width (gc_data gc) > 1 then put xx GRID_DEFAULT_CELL c' else Some c' } else Some c1) = Some c3" "ctx_kept B c1 c3" "same_lines c1 c3"
  proof (cases "?cx = 0")
    case True
    then show ?thesis using that [of c1] ctx_kept_refl [OF s1] by (simp add: same_lines_def)
  next
    case nz: False
    show ?thesis
    proof (cases "ud_width (gc_data gc) > 1")
      case True
      have "same_lines c1 cq" "ctx_kept B c1 cq"
        using same_lines_trans [OF clear_padding_left_lines [OF l(1)] put_lines [OF q(1)]] ctx_kept_trans [OF l(2) q(2)] by simp_all
      then show ?thesis using that [of cq] True nz l(1) q(1) by simp
    next
      case False
      then show ?thesis using that [of cp] nz l clear_padding_left_lines by simp
    qed
  qed
  have cl3: "cursor_cline c3 = Some cl1" "s_cx (w_s c3) = ?cx" "s_cy (w_s c3) = ?cy"
    using same_lines_cline [OF c3(3)] cl1 c3(3) by (simp_all add: same_lines_def)
  have sz: "g_sx (s_grid (w_s c3)) = g_sx (s_grid (w_s c))" using ctx_keptD(3) [OF c1(2)] ctx_keptD(3) [OF c3(2)] same0 by simp
  have "length d = g_sx (s_grid (w_s c))"
    using cursor_cline_ok [OF ctx_keptD(1) [OF c3(2)] cl3(1)] cl1(2) sz by (simp add: cline_ok_def)
  then have b: "item_bytes cl1 ?cx (ci_used ?ci) = Some (take (ci_used ?ci) (drop ?cx d))" using p(2) cl1(2) by (simp add: item_bytes_def)
  have 4: "keeps (ctx_kept B c3) (on_grid (\<lambda>t gd. grid_view_set_cells t gd ?cx ?cy (ci_gc ?ci) s) c3)" for s
    by (rule on_grid_kept [OF ctx_keptD(1) [OF c3(2)]], rule view_set_cells_keeps [OF grid_of [OF ctx_keptD(1) [OF c3(2)]] p(3,4)])
  have 5: "keeps (ctx_kept B c4) (let c5 = screen_write_set_cursor x (- 1) c4 in map_option snd (clear_padding_right (\<lambda>_. GRID_DEFAULT_CELL) [s_cx (w_s c5)..<screen_size_x (w_s c5)] c5))"
    if "settled B c4" for c4 x
  proof -
    note k = set_cursor_kept [OF that, of x "- 1"]
    have r: "keeps (pair_kept B (screen_write_set_cursor x (- 1) c4)) (clear_padding_right (\<lambda>_. GRID_DEFAULT_CELL) xs (screen_write_set_cursor x (- 1) c4))" for xs
      by (rule clear_padding_right_kept [OF ctx_keptD(1) [OF k]]) (simp add: default_safe)
    show ?thesis unfolding Let_def
      by (rule ctx_via [OF k]) (use r in \<open>fastforce simp: keeps_def pair_kept_def\<close>)
  qed
  have "keeps (ctx_kept B c3) (on_grid (\<lambda>t gd. grid_view_set_cells t gd ?cx ?cy (ci_gc ?ci) (take (ci_used ?ci) (drop ?cx d))) c3 \<bind>
      (\<lambda>c4. let c5 = screen_write_set_cursor (i32 (int (?cx + ci_used ?ci))) (- 1) c4
            in map_option snd (clear_padding_right (\<lambda>_. GRID_DEFAULT_CELL) [s_cx (w_s c5)..<screen_size_x (w_s c5)] c5)))"
    by (rule ctx_bind [OF 4], rule 5, erule ctx_keptD(1))
  then have "keeps (ctx_kept B c0) (on_grid (\<lambda>t gd. grid_view_set_cells t gd ?cx ?cy (ci_gc ?ci) (take (ci_used ?ci) (drop ?cx d))) c3 \<bind>
      (\<lambda>c4. let c5 = screen_write_set_cursor (i32 (int (?cx + ci_used ?ci))) (- 1) c4
            in map_option snd (clear_padding_right (\<lambda>_. GRID_DEFAULT_CELL) [s_cx (w_s c5)..<screen_size_x (w_s c5)] c5)))"
    using ctx_via [OF ctx_kept_trans [OF c1(2) c3(2)]] by blast
  then show ?thesis unfolding c0_def
    using False by (simp only: screen_write_collect_end_def Let_def if_False c2 Option.bind.bind_lunit c3(1) cl3(1) b)
qed

lemma collect_end_settled:
  assumes "collecting B c"
  shows "\<exists>c'. screen_write_collect_end c = Some c' \<and> settled B c' \<and> w_env c' = w_env c \<and> table_le (w_table c) (w_table c') \<and>
    g_sx (s_grid (w_s c')) = g_sx (s_grid (w_s c)) \<and> g_sy (s_grid (w_s c')) = g_sy (s_grid (w_s c))"
  using collect_end_kept [OF assms] by (auto simp: keeps_def ctx_kept_def)

text \<open>Storing a byte on the line of the cursor.\<close>

lemma store_byte_ok:
  assumes "write_ok B c" "x < g_sx (s_grid (w_s c))"
  shows "\<exists>c'. store_byte b x c = Some c' \<and> write_ok B c' \<and> w_item c' = w_item c \<and> s_cx (w_s c') = s_cx (w_s c) \<and> s_grid (w_s c') = s_grid (w_s c) \<and>
    (\<exists>cl d. cursor_cline c' = Some cl \<and> cl_data cl = Some d)"
proof -
  have f: "screen_fit B (w_table c) (w_s c)" "spans_in (w_env c)" using assms(1) by (simp_all add: write_ok_def)
  obtain cls where cls: "s_write_list (w_s c) = Some cls" "\<forall>cl \<in> set cls. cline_ok (g_sx (s_grid (w_s c))) cl"
    using assms(1) by (auto simp: write_ok_def)
  note d = screen_fitD [OF f(1)]
  have len: "length cls = g_sy (s_grid (w_s c))" using d(9) [OF cls(1)] .
  let ?y = "s_cy (w_s c)"
  let ?cl = "cls ! ?y"
  define dt where "dt = (case cl_data ?cl of None \<Rightarrow> replicate (screen_size_x (w_s c)) (CHR 0x00) | Some d \<Rightarrow> d)"
  have y: "?y < length cls" using d(3) len by simp
  have ok: "cline_ok (g_sx (s_grid (w_s c))) ?cl" using cls(2) y by simp
  have ldt: "length dt = g_sx (s_grid (w_s c))" using ok by (simp add: dt_def cline_ok_def screen_size_x_def split: option.splits)
  define cls' where "cls' = cls[?y := ?cl\<lparr>cl_data := Some (dt[x := b])\<rparr>]"
  have "cline_ok (g_sx (s_grid (w_s c))) (?cl\<lparr>cl_data := Some (dt[x := b])\<rparr>)" using ok ldt by (simp add: cline_ok_def)
  then have ok': "\<forall>cl \<in> set cls'. cline_ok (g_sx (s_grid (w_s c))) cl"
    using set_update_subset_insert [of cls ?y "?cl\<lparr>cl_data := Some (dt[x := b])\<rparr>"] cls(2) by (auto simp: cls'_def)
  let ?c' = "c\<lparr>w_s := (w_s c)\<lparr>s_write_list := Some cls'\<rparr>\<rparr>"
  have "screen_fit B (w_table c) (w_s ?c')"
    by (rule screen_fitI) (use d len in \<open>auto simp: cls'_def\<close>)
  then have "write_ok B ?c'" using f(2) ok' by (simp add: write_ok_def)
  moreover have "cursor_cline ?c' = Some (?cl\<lparr>cl_data := Some (dt[x := b])\<rparr>)"
    using y by (simp add: cursor_cline_def cls'_def)
  moreover have "store_byte b x c = Some ?c'"
    using cls(1) y ldt assms(2) by (simp add: store_byte_def cursor_cline_def dt_def [symmetric] cls'_def Let_def)
  ultimately show ?thesis by auto
qed

lemma wrap_cursor_fields:
  assumes "settled B c"
  shows "\<exists>c'. wrap_cursor c = Some c' \<and> ctx_kept B c c' \<and> s_cx (w_s c') = 0"
proof -
  obtain c1 where c1: "screen_write_linefeed True 8 c = Some c1" "ctx_kept B c c1" using linefeed_kept [OF assms, of 8 True] by (auto simp: keeps_def)
  have "s_cx (w_s (screen_write_set_cursor 0 (- 1) c1)) = 0" by (simp add: screen_write_set_cursor_def Let_def u32_def)
  then show ?thesis using c1 ctx_kept_trans [OF c1(2) set_cursor_kept [OF ctx_keptD(1) [OF c1(2)]]] by (auto simp: wrap_cursor_def)
qed

lemma collect_add_ok:
  assumes "collecting B c" "cell_safe gc"
  shows "\<exists>c'. screen_write_collect_add gc c = Some c' \<and> collecting B c' \<and>
    g_sx (s_grid (w_s c')) = g_sx (s_grid (w_s c)) \<and> g_sy (s_grid (w_s c')) = g_sy (s_grid (w_s c))"
proof (cases "collectable (w_s c) gc")
  case False
  obtain c1 where c1: "screen_write_collect_end c = Some c1" "settled B c1"
    "g_sx (s_grid (w_s c1)) = g_sx (s_grid (w_s c))" "g_sy (s_grid (w_s c1)) = g_sy (s_grid (w_s c))"
    using collect_end_settled [OF assms(1)] by blast
  obtain c2 where c2: "screen_write_collect_flush False c1 = Some c2" "ctx_kept B c1 c2" using flush_kept [OF c1(2), of False] by (auto simp: keeps_def)
  obtain c3 where c3: "screen_write_cell gc c2 = Some c3" "ctx_kept B c2 c3" using cell_kept [OF ctx_keptD(1) [OF c2(2)] assms(2)] by (auto simp: keeps_def)
  have "screen_write_collect_add gc c = Some c3" using False c1(1) c2(1) c3(1) by (simp add: screen_write_collect_add_def)
  moreover have "collecting B c3" using settled_collecting ctx_keptD(1) [OF c3(2)] by blast
  ultimately show ?thesis using ctx_keptD(3,4) [OF c2(2)] ctx_keptD(3,4) [OF c3(2)] c1(3,4) by simp
next
  case True
  let ?sx = "screen_size_x (w_s c)"
  have notab: "TAB \<notin> gc_flags gc" using True by (simp add: collectable_def)
  have w: "write_ok B c" using assms(1) by (simp add: collecting_def)
  then have f: "screen_fit B (w_table c) (w_s c)" by (simp add: write_ok_def)
  note d = screen_fitD [OF f]
  have item_set: "settled B c1 \<Longrightarrow> settled B (c1\<lparr>w_item := (w_item c1)\<lparr>ci_wrapped := True\<rparr>\<rparr>)" for c1 by (simp add: settled_def write_ok_def)
  text \<open>The place of the new character is on the line.\<close>
  obtain c1 where c1: "(if s_cx (w_s c) > ?sx - 1 \<or> ci_used (w_item c) > ?sx - 1 - s_cx (w_s c) then screen_write_collect_end c else Some c) = Some c1"
    "write_ok B c1" "g_sx (s_grid (w_s c1)) = g_sx (s_grid (w_s c))" "s_cx (w_s c1) > ?sx - 1 \<Longrightarrow> settled B c1"
    "settled B c1 \<or> c1 = c \<and> s_cx (w_s c) + ci_used (w_item c) < g_sx (s_grid (w_s c))" "g_sy (s_grid (w_s c1)) = g_sy (s_grid (w_s c))"
  proof (cases "s_cx (w_s c) > ?sx - 1 \<or> ci_used (w_item c) > ?sx - 1 - s_cx (w_s c)")
    case end': True
    obtain c' where "screen_write_collect_end c = Some c'" "settled B c'" "g_sx (s_grid (w_s c')) = g_sx (s_grid (w_s c))"
      "g_sy (s_grid (w_s c')) = g_sy (s_grid (w_s c))"
      using collect_end_settled [OF assms(1)] by blast
    then show ?thesis using that [of c'] end' by (simp add: settled_def)
  next
    case go: False
    then have "s_cx (w_s c) + ci_used (w_item c) < g_sx (s_grid (w_s c))" using d(10) unfolding screen_size_x_def by linarith
    then show ?thesis using that [of c] w go by simp
  qed
  obtain c2 where c2: "(if s_cx (w_s c1) > ?sx - 1 then wrap_cursor (c1\<lparr>w_item := (w_item c1)\<lparr>ci_wrapped := True\<rparr>\<rparr>) else Some c1) = Some c2"
    "write_ok B c2" "g_sx (s_grid (w_s c2)) = g_sx (s_grid (w_s c))" "s_cx (w_s c2) + ci_used (w_item c2) < g_sx (s_grid (w_s c))"
    "ci_used (w_item c2) = 0 \<or> c2 = c" "g_sy (s_grid (w_s c2)) = g_sy (s_grid (w_s c))"
  proof (cases "s_cx (w_s c1) > ?sx - 1")
    case wrap: True
    obtain c' where c': "wrap_cursor (c1\<lparr>w_item := (w_item c1)\<lparr>ci_wrapped := True\<rparr>\<rparr>) = Some c'"
      "ctx_kept B (c1\<lparr>w_item := (w_item c1)\<lparr>ci_wrapped := True\<rparr>\<rparr>) c'" "s_cx (w_s c') = 0"
      using wrap_cursor_fields [OF item_set [OF c1(4) [OF wrap]]] by blast
    have "g_sx (s_grid (w_s c')) = g_sx (s_grid (w_s c))" using ctx_keptD(3) [OF c'(2)] c1(3) by simp
    moreover have "g_sy (s_grid (w_s c')) = g_sy (s_grid (w_s c))" using ctx_keptD(4) [OF c'(2)] c1(6) by simp
    ultimately show ?thesis using that [of c'] wrap c' settledD(3) [OF ctx_keptD(1) [OF c'(2)]] ctx_keptD(1) [OF c'(2)] d(10) by (simp add: settled_def)
  next
    case stay: False
    have "s_cx (w_s c1) < g_sx (s_grid (w_s c))" using stay d(10) by (simp add: screen_size_x_def)
    then show ?thesis using that [of c1] stay c1 by (auto simp: settled_def)
  qed
  define ci where "ci = (if ci_used (w_item c2) = 0 then (w_item c2)\<lparr>ci_gc := gc\<rparr> else w_item c2)"
  have u: "ci_used ci = ci_used (w_item c2)" by (simp add: ci_def)
  have wi: "write_ok B (c2\<lparr>w_item := ci\<rparr>)" using c2(2) by (simp add: write_ok_def)
  have lt: "s_cx (w_s c2) + ci_used ci < g_sx (s_grid (w_s (c2\<lparr>w_item := ci\<rparr>)))" using c2(3,4) u by simp
  obtain c3 where c3: "store_byte (ud_data (gc_data gc) ! 0) (s_cx (w_s c2) + ci_used ci) (c2\<lparr>w_item := ci\<rparr>) = Some c3" "write_ok B c3"
    "s_cx (w_s c3) = s_cx (w_s c2)" "s_grid (w_s c3) = s_grid (w_s c2)" "\<exists>cl d. cursor_cline c3 = Some cl \<and> cl_data cl = Some d"
    using store_byte_ok [OF wi lt, of "ud_data (gc_data gc) ! 0"] by auto
  have safe: "cell_safe (ci_gc ci) \<and> TAB \<notin> gc_flags (ci_gc ci)"
    using c2(5) assms notab by (auto simp: collecting_def ci_def)
  let ?c4 = "c3\<lparr>w_item := ci\<lparr>ci_used := ci_used ci + 1\<rparr>\<rparr>"
  have "write_ok B ?c4" using c3(2) by (simp add: write_ok_def)
  then have "collecting B ?c4" using c3 c2(3,4) safe u unfolding collecting_def by simp
  moreover have "screen_write_collect_add gc c = Some ?c4"
    using True c1(1) c2(1) c3(1) by (simp only: screen_write_collect_add_def Let_def if_False not_True_eq_False Option.bind.bind_lunit ci_def [symmetric])
  moreover have "g_sx (s_grid (w_s ?c4)) = g_sx (s_grid (w_s c))" "g_sy (s_grid (w_s ?c4)) = g_sy (s_grid (w_s c))" using c3(4) c2(3,6) by simp_all
  ultimately show ?thesis by blast
qed

section \<open>All operations\<close>

text \<open>The operations of the writer as the parser of the input calls them.\<close>

datatype writer_op =
  Collect_Add grid_cell | Write_Cell grid_cell | Mode_Set "mode_flag set" | Mode_Clear "mode_flag set"
| Cursor_Up nat | Cursor_Down nat | Cursor_Right nat | Cursor_Left nat | Backspace | Cursor_Move int int bool | Carriage_Return
| Scroll_Region nat nat | Alignment_Test | Insert_Character nat int | Delete_Character nat int | Clear_Character nat int
| Insert_Line nat int | Delete_Line nat int | Clear_Line int | Clear_End_Of_Line int | Clear_Start_Of_Line int
| Reverse_Index int | Linefeed bool int | Scroll_Up nat int | Scroll_Down nat int
| Clear_End_Of_Screen int | Clear_Start_Of_Screen int | Clear_Screen int | Clear_History | Full_Redraw | Reset
| Alternate_On grid_cell bool | Alternate_Off grid_cell bool

fun perform :: "writer_op \<Rightarrow> screen_write_ctx \<Rightarrow> screen_write_ctx option" where
  "perform (Collect_Add gc) = screen_write_collect_add gc"
| "perform (Write_Cell gc) = screen_write_cell gc"
| "perform (Mode_Set m) = Some \<circ> screen_write_mode_set m"
| "perform (Mode_Clear m) = Some \<circ> screen_write_mode_clear m"
| "perform (Cursor_Up n) = Some \<circ> screen_write_cursorup n"
| "perform (Cursor_Down n) = Some \<circ> screen_write_cursordown n"
| "perform (Cursor_Right n) = Some \<circ> screen_write_cursorright n"
| "perform (Cursor_Left n) = Some \<circ> screen_write_cursorleft n"
| "perform Backspace = Some \<circ> screen_write_backspace"
| "perform (Cursor_Move px py origin) = Some \<circ> screen_write_cursormove px py origin"
| "perform Carriage_Return = Some \<circ> screen_write_carriagereturn"
| "perform (Scroll_Region u l) = screen_write_scrollregion u l"
| "perform Alignment_Test = screen_write_alignmenttest"
| "perform (Insert_Character n bg) = screen_write_insertcharacter n bg"
| "perform (Delete_Character n bg) = screen_write_deletecharacter n bg"
| "perform (Clear_Character n bg) = screen_write_clearcharacter n bg"
| "perform (Insert_Line n bg) = screen_write_insertline n bg"
| "perform (Delete_Line n bg) = screen_write_deleteline n bg"
| "perform (Clear_Line bg) = screen_write_clearline bg"
| "perform (Clear_End_Of_Line bg) = screen_write_clearendofline bg"
| "perform (Clear_Start_Of_Line bg) = screen_write_clearstartofline bg"
| "perform (Reverse_Index bg) = screen_write_reverseindex bg"
| "perform (Linefeed wrap bg) = screen_write_linefeed wrap bg"
| "perform (Scroll_Up n bg) = screen_write_scrollup n bg"
| "perform (Scroll_Down n bg) = screen_write_scrolldown n bg"
| "perform (Clear_End_Of_Screen bg) = screen_write_clearendofscreen bg"
| "perform (Clear_Start_Of_Screen bg) = screen_write_clearstartofscreen bg"
| "perform (Clear_Screen bg) = screen_write_clearscreen bg"
| "perform Clear_History = Some \<circ> screen_write_clearhistory"
| "perform Full_Redraw = screen_write_fullredraw"
| "perform Reset = screen_write_reset"
| "perform (Alternate_On gc cursor) = screen_write_alternateon gc cursor"
| "perform (Alternate_Off gc cursor) = (\<lambda>c. map_option fst (screen_write_alternateoff (Some gc) cursor c))"

text \<open>The cells are whole characters, and the colours are ones that a cell can have.\<close>

fun writer_op_ok :: "writer_op \<Rightarrow> bool" where
  "writer_op_ok (Collect_Add gc) = cell_safe gc"
| "writer_op_ok (Write_Cell gc) = cell_safe gc"
| "writer_op_ok (Insert_Character n bg) = bg_ok bg"
| "writer_op_ok (Delete_Character n bg) = bg_ok bg"
| "writer_op_ok (Clear_Character n bg) = bg_ok bg"
| "writer_op_ok (Insert_Line n bg) = bg_ok bg"
| "writer_op_ok (Delete_Line n bg) = bg_ok bg"
| "writer_op_ok (Clear_Line bg) = bg_ok bg"
| "writer_op_ok (Clear_End_Of_Line bg) = bg_ok bg"
| "writer_op_ok (Clear_Start_Of_Line bg) = bg_ok bg"
| "writer_op_ok (Reverse_Index bg) = bg_ok bg"
| "writer_op_ok (Linefeed wrap bg) = bg_ok bg"
| "writer_op_ok (Scroll_Up n bg) = bg_ok bg"
| "writer_op_ok (Scroll_Down n bg) = bg_ok bg"
| "writer_op_ok (Clear_End_Of_Screen bg) = bg_ok bg"
| "writer_op_ok (Clear_Start_Of_Screen bg) = bg_ok bg"
| "writer_op_ok (Clear_Screen bg) = bg_ok bg"
| "writer_op_ok _ = True"

text \<open>What is being collected ends before every operation that does not add to it (\<open>input_parse\<close>).\<close>

definition writer_step :: "writer_op \<Rightarrow> screen_write_ctx \<Rightarrow> screen_write_ctx option" where
  "writer_step op c =
     (case op of Collect_Add gc \<Rightarrow> screen_write_collect_add gc c | _ \<Rightarrow> screen_write_collect_end c \<bind> perform op)"

fun writer_run :: "writer_op list \<Rightarrow> screen_write_ctx \<Rightarrow> screen_write_ctx option" where
  "writer_run [] c = screen_write_stop c"
| "writer_run (op # ops) c = writer_step op c \<bind> writer_run ops"

lemma perform_kept:
  assumes "settled B c" "writer_op_ok op" "\<nexists>gc. op = Collect_Add gc"
  shows "keeps (ctx_kept B c) (perform op c)"
proof (cases op)
  case (Alternate_Off gc cursor)
  then show ?thesis using alternateoff_kept [OF assms(1), of "Some gc" cursor] by (auto simp: keeps_def)
next
  case Full_Redraw
  then show ?thesis by (simp add: screen_write_fullredraw_def flush_kept [OF assms(1)])
qed (use assms in \<open>simp_all add: writer_kept\<close>)

lemma step_ok:
  assumes "collecting B c" "writer_op_ok op"
  shows "\<exists>c'. writer_step op c = Some c' \<and> collecting B c' \<and>
    g_sx (s_grid (w_s c')) = g_sx (s_grid (w_s c)) \<and> g_sy (s_grid (w_s c')) = g_sy (s_grid (w_s c))"
proof (cases "\<exists>gc. op = Collect_Add gc")
  case True
  then show ?thesis using collect_add_ok [OF assms(1)] assms(2) by (auto simp: writer_step_def)
next
  case False
  obtain c1 where c1: "screen_write_collect_end c = Some c1" "settled B c1"
    "g_sx (s_grid (w_s c1)) = g_sx (s_grid (w_s c))" "g_sy (s_grid (w_s c1)) = g_sy (s_grid (w_s c))"
    using collect_end_settled [OF assms(1)] by blast
  then obtain c2 where c2: "perform op c1 = Some c2" "ctx_kept B c1 c2" using perform_kept [OF c1(2) assms(2) False] by (auto simp: keeps_def)
  have "writer_step op c = Some c2" using c1(1) c2(1) False by (cases op) (auto simp: writer_step_def)
  then show ?thesis using settled_collecting [OF ctx_keptD(1) [OF c2(2)]] ctx_keptD(3,4) [OF c2(2)] c1(3,4) by simp
qed

lemma run_ok:
  assumes "collecting B c" "\<forall>op \<in> set ops. writer_op_ok op"
  shows "\<exists>c'. writer_run ops c = Some c' \<and> settled B c' \<and>
    g_sx (s_grid (w_s c')) = g_sx (s_grid (w_s c)) \<and> g_sy (s_grid (w_s c')) = g_sy (s_grid (w_s c))"
  using assms
proof (induction ops arbitrary: c)
  case Nil
  obtain c1 where c1: "screen_write_collect_end c = Some c1" "settled B c1"
    "g_sx (s_grid (w_s c1)) = g_sx (s_grid (w_s c))" "g_sy (s_grid (w_s c1)) = g_sy (s_grid (w_s c))"
    using collect_end_settled [OF Nil.prems(1)] by blast
  obtain c2 where c2: "screen_write_collect_flush False c1 = Some c2" "ctx_kept B c1 c2" using flush_kept [OF c1(2), of False] by (auto simp: keeps_def)
  then show ?case using c1 ctx_keptD(1,3,4) [OF c2(2)] by (simp add: screen_write_stop_def)
next
  case (Cons op ops)
  obtain c1 where c1: "writer_step op c = Some c1" "collecting B c1"
    "g_sx (s_grid (w_s c1)) = g_sx (s_grid (w_s c))" "g_sy (s_grid (w_s c1)) = g_sy (s_grid (w_s c))"
    using step_ok [OF Cons.prems(1), of op] Cons.prems(2) by auto
  then show ?case using Cons.IH [OF c1(2)] Cons.prems(2) by simp
qed

lemma start_settled:
  assumes "screen_fit B t s" "spans_in env" "\<And>cls cl. s_write_list s = Some cls \<Longrightarrow> cl \<in> set cls \<Longrightarrow> cline_ok (g_sx (s_grid s)) cl"
  shows "settled B (screen_write_start env t s)"
proof -
  note d = screen_fitD [OF assms(1)]
  have e: "cline_ok n empty_cline" for n by (simp add: cline_ok_def empty_cline_def)
  show ?thesis
  proof (cases "s_write_list s")
    case None
    have "screen_fit B t (screen_write_make_list s)"
      by (rule screen_fitI) (use d None in \<open>auto simp: screen_write_make_list_def screen_size_y_def\<close>)
    then show ?thesis using None assms(2) e
      by (intro settledI [where cls = "replicate (g_sy (s_grid s)) empty_cline"])
        (auto simp: screen_write_start_def screen_write_make_list_def screen_size_y_def)
  next
    case (Some cls)
    then show ?thesis using assms by (intro settledI [where cls = cls]) (auto simp: screen_write_start_def)
  qed
qed

text \<open>Everything that is written to a screen over time: each element is one use of the writer, from
  \<open>screen_write_start\<close> to \<open>screen_write_stop\<close>, with its own pane and drawing answers.\<close>

fun writer_uses :: "(screen_env \<times> writer_op list) list \<Rightarrow> screen \<times> utf8_table \<Rightarrow> (screen \<times> utf8_table) option" where
  "writer_uses [] st = Some st"
| "writer_uses ((env, ops) # uses) st = do {
     c \<leftarrow> writer_run ops (screen_write_start env (snd st) (fst st));
     writer_uses uses (w_s c, w_table c)
   }"

definition use_ok :: "screen_env \<times> writer_op list \<Rightarrow> bool" where
  "use_ok u \<longleftrightarrow> spans_in (fst u) \<and> list_all writer_op_ok (snd u)"

lemma start_size: "s_grid (w_s (screen_write_start env t s)) = s_grid s"
  by (simp add: screen_write_start_def screen_write_make_list_def)

lemma uses_ok:
  assumes "screen_fit B t s" "\<And>cls cl. s_write_list s = Some cls \<Longrightarrow> cl \<in> set cls \<Longrightarrow> cline_ok (g_sx (s_grid s)) cl" "list_all use_ok uses"
  shows "\<exists>s' t'. writer_uses uses (s, t) = Some (s', t') \<and> screen_fit B t' s' \<and> screen_size_x s' = screen_size_x s \<and>
    screen_size_y s' = screen_size_y s \<and> (\<forall>cls. s_write_list s' = Some cls \<longrightarrow> (\<forall>cl \<in> set cls. cline_ok (g_sx (s_grid s')) cl))"
  using assms
proof (induction uses arbitrary: s t)
  case (Cons u uses)
  obtain env ops where u: "u = (env, ops)" by (cases u)
  have ok: "spans_in env" "\<forall>op \<in> set ops. writer_op_ok op" using Cons.prems(3) by (simp_all add: u use_ok_def list_all_iff)
  have "settled B (screen_write_start env t s)" by (rule start_settled [OF Cons.prems(1) ok(1) Cons.prems(2)])
  from run_ok [OF settled_collecting [OF this] ok(2)] obtain c where
    c: "writer_run ops (screen_write_start env t s) = Some c" "settled B c" "g_sx (s_grid (w_s c)) = g_sx (s_grid s)" "g_sy (s_grid (w_s c)) = g_sy (s_grid s)"
    unfolding start_size by blast
  have "\<exists>s' t'. writer_uses uses (w_s c, w_table c) = Some (s', t') \<and> screen_fit B t' s' \<and> screen_size_x s' = screen_size_x (w_s c) \<and>
    screen_size_y s' = screen_size_y (w_s c) \<and> (\<forall>cls. s_write_list s' = Some cls \<longrightarrow> (\<forall>cl \<in> set cls. cline_ok (g_sx (s_grid s')) cl))"
    by (rule Cons.IH) (use settledD(1,4) [OF c(2)] Cons.prems(3) in auto)
  then show ?case using c by (simp add: u screen_size_x_def screen_size_y_def)
qed auto


text \<open>Two uses of the writer on a screen of 80 columns and 24 lines with 100 lines of history.\<close>

definition writer_env :: screen_env where
  "writer_env = \<lparr>e_now = 0, e_pane = True, e_scroll_on_clear = True, e_alternate_screen = True, e_always_wide = False, e_extended_keys = 0,
     e_utf8 = \<lparr>mbtowc = \<lambda>s. (- 1, 0), wcwidth = \<lambda>_. 1, width_cache = \<lambda>_. None, utf8proc = False\<rparr>,
     e_draw = \<lambda>_. \<lparr>da_discard = False, da_redrawn = False, da_obscured = True, da_written = \<lambda>_ _. True, da_spans = \<lambda>y x n. [(x, n)]\<rparr>\<rparr>"


end
