(* ===== verification/Spec2Isabelle.thy ===== *)
theory Spec2Isabelle
  imports Layout_String Paste Arguments_Sound Environ_Sound Server_Acl Wait_For Grid_View Session_Cases Input_Params
    Screen_Resize Screen_Cell_Sound
begin

text \<open>
  A verification development of ztmux, the port of the terminal multiplexer tmux to Rust.

  The program is a server that keeps sessions, windows and panes, and clients that show them on terminals.
  Its core is the code under \<open>src/src/ported\<close>, one file for each file of tmux.  This development models the
  parts of the server that keep state of their own and can be separated from input and output, and proves
  what makes them correct.  File names below are relative to \<open>src/src/ported\<close>.

  \<^bold>\<open>Conventions.\<close>  Every definition keeps the name of the function, type or constant it models where that is
  possible.  Structs are records, enums datatypes, intrusive lists and trees lists, NUL-terminated strings
  lists of characters without NUL.  Pointers between cells, lines and entries are positions.  An operation
  that the code performs with wrap-around has it written out (\<open>u32\<close>, \<open>i32\<close> of \<open>Ztmux_Prelude\<close>); a release
  build has overflow checks off.  The result \<^const>\<open>None\<close> of a function on \<open>option\<close> is a panic, a call of
  \<open>fatalx\<close> or undefined behaviour, as the theory says; errors that the code reports are values.

  \<^bold>\<open>Shared theories.\<close>  \<open>Ztmux_Prelude\<close> has machine integers, list lemmas and decimal numbers.  \<open>Rust_Text\<close> has
  the text functions of the standard library that the code uses (UTF-8 validation, \<open>trim\<close>, parsing of
  numbers) and \<open>strtonum\<close>.  \<open>Rb_Tree\<close> models \<open>compat/tree.rs\<close> as lists ordered by key.  \<open>Keyed_Store\<close> is the
  contract of a keyed store as a locale, with the refinement of a map under sequences of operations; the
  paste buffers and the environments interpret it.

  \<^bold>\<open>Layouts\<close> (\<open>layout.rs\<close>, \<open>layout_custom.rs\<close>, parts of \<open>window.rs\<close>).  \<open>Layout_Cell\<close> has the tree of cells and
  the functions that read it.  \<open>Layout_Offsets\<close> proves that \<open>layout_fix_offsets\<close> tiles the window,
  \<open>Layout_Panes\<close> that the panes do not overlap.  \<open>Layout_Resize\<close> models the recursive resizing;
  \<open>layout_resize_adjust\<close> runs a loop that can fail to end, so its model has fuel for the depth and the
  number of passes; by \<open>adjust_fuel_enough\<close> and \<open>adjust_loop_enough\<close> the fuel used loses no result.
  \<open>Layout_Window\<close> resizes windows and panes, \<open>Layout_Split\<close> splits and closes, \<open>Layout_Sound\<close> proves that they
  keep a sound layout, \<open>Layout_Custom\<close> and \<open>Layout_String\<close> print and parse layouts, with the round trip.

  \<^bold>\<open>Paste buffers\<close> (\<open>paste.rs\<close>): \<open>Paste\<close> has a heap of buffers with the two trees that order them by name and
  by time; the proofs show that the trees agree and that the buffers refine a map.

  \<^bold>\<open>Arguments\<close> (\<open>arguments.rs\<close>, \<open>cmd_template_replace\<close> of \<open>cmd.rs\<close>): \<open>Arguments\<close> and \<open>Arguments_Sound\<close>.  The command
  lists inside arguments are a type parameter.

  \<^bold>\<open>Environments\<close> (\<open>environ.rs\<close>, \<open>cmd_set_environment.rs\<close>, \<open>cmd_show_environment.rs\<close>): \<open>Environ\<close> and
  \<open>Environ_Sound\<close>.  \<open>fnmatch\<close> is a parameter.

  \<^bold>\<open>Access list\<close> (\<open>server_acl.rs\<close>, \<open>cmd_server_access.rs\<close>, and what writes the flags of clients that it controls:
  \<open>server_accept\<close>, the identify messages, \<open>server_client_set_flags\<close>, \<open>attach-session\<close> and \<open>switch-client -r\<close>):
  \<open>Server_Acl\<close>, with the states of the list and its clients that sequences of these events reach as an
  inductive set.  The user database is a parameter.

  \<^bold>\<open>Wait channels\<close> (\<open>cmd_wait_for.rs\<close>): \<open>Wait_For\<close>, refining a specification with one channel for each name.

  \<^bold>\<open>Characters\<close> (\<open>utf8.rs\<close>): \<open>Utf8\<close> and \<open>Utf8_Sound\<close>.  The C library's \<open>mbtowc\<close> and \<open>wcwidth\<close> and the option
  \<open>codepoint-widths\<close> are parameters.

  \<^bold>\<open>Grids\<close> (\<open>grid.rs\<close>, \<open>grid_view.rs\<close>): \<open>Grid\<close> models cells packed into five bytes, extended entries, lines and
  the operations on whole grids.  \<open>Grid_Lines\<close> has the invariant of a line, \<open>Grid_Sound\<close> the effect of every
  operation on what is seen, \<open>Grid_Table\<close> the refinement of a table of cells under runs of operations,
  \<open>Grid_View\<close> the operations on the screen part.

  \<^bold>\<open>Screens\<close> (\<open>screen.rs\<close>, the reflow of \<open>grid.rs\<close>): \<open>Screen\<close> models the screen of a pane, its size, selection and
  alternate screen, \<open>Grid_Reflow\<close> the reflow to a new width.  \<open>Grid_Keeps\<close> states the operations on grids as
  computations that return and keep the invariant, \<open>Screen_Sound\<close> has the invariant of a screen and what the
  alternate screen restores, \<open>Screen_Resize\<close> what a change of the height does to lines and cursor.

  \<^bold>\<open>Screen writer\<close> (\<open>screen_write.rs\<close>, \<open>utf8_combined.rs\<close>): \<open>Screen_Write\<close> has the operations on the cursor, the
  clearing, inserting and scrolling, and the items of a line that wait to be drawn, \<open>Screen_Cell\<close> the writing
  of characters.  \<open>Screen_Items\<close> proves that the items of a line are a map from columns to what is drawn,
  \<open>Screen_Write_Sound\<close> and \<open>Screen_Cell_Sound\<close> that no operation fails and that the screen stays well
  formed.  The drawing (\<open>screen_redraw.rs\<close>, \<open>window_visible.rs\<close>, the terminal) is a parameter that answers
  what it decides; sixel images, raw strings, the clipboard, synchronised output, and the functions that only menus and
  the status line use are left out.

  \<^bold>\<open>Input parser\<close> (\<open>input.rs\<close>): \<open>Input_State\<close> has the states with their transition tables, which cover every
  byte once, and the tables of sequences; \<open>Input_Params\<close> has the buffers that collect the bytes of a sequence
  and the list of its parameters.

  \<^bold>\<open>Sessions\<close> (\<open>session.rs\<close>, the links and reference counts of \<open>window.rs\<close>, \<open>server_fn.rs\<close>, \<open>spawn_window\<close> of
  \<open>spawn.rs\<close>, the references that \<open>notify.rs\<close> holds): \<open>Winlink\<close> models the tree of links and the stack of last
  windows of a session, \<open>Session\<close> the server with its sessions, groups and windows.  Links, sessions and
  windows are addressed by number, so that a freed one is found nowhere and its use is \<^const>\<open>None\<close>.
  \<open>Session_Refs\<close> has the invariant of the reference counts, \<open>Session_Current\<close> and \<open>Session_Sync\<close> the steps that
  change the current window and copy the windows of a group, \<open>Session_Group\<close> the invariant of the server,
  \<open>Session_Sound\<close> attaching and detaching, \<open>Session_Windows\<close> counting, renumbering and making room,
  \<open>Session_Cases\<close> runs that leave the invariant.

  \<^bold>\<open>Not modelled.\<close>  Input and output (clients, the protocol, terminals, jobs, files, control mode), drawing
  (status line, menus, popups, redraw), the format language, options, copy mode and the other pane modes,
  the handlers of the escape sequences, the command queue, and the extensions of the port.  Memory management, logging and, outside the sessions, reference counts are left out.
\<close>

end
